(* ===== verification/Prelude.thy ===== *)
theory Prelude
  imports Complex_Main "HOL-Library.Word" "HOL-Library.AList"
begin

text \<open>
  What every component of the development shares: milliseconds and rounding as the
  TypeScript code computes them, the error monad (a thrown exception is \<open>Inl\<close>), the
  JavaScript \<open>Map\<close> with its insertion order, and big- and little-endian reads of a
  byte array as \<open>DataView\<close> does them (out of range is \<open>None\<close>, the \<open>RangeError\<close> of
  the platform), and the pages of a list.
\<close>

named_theorems upstream_simps \<open>unfolding rules of the upstream components\<close>
named_theorems auth_simps \<open>unfolding rules of the account components\<close>
named_theorems byte_simps \<open>rules for reading byte arrays\<close>

section \<open>Numbers\<close>

type_synonym ms = int

text \<open>\<open>Math.round\<close>: to the nearest integer, halves towards plus infinity.\<close>

definition js_round :: "rat \<Rightarrow> int" where
  "js_round x = \<lfloor>x + 1 / 2\<rfloor>"

lemma js_round_of_int [simp]: "js_round (of_int n) = n"
  by (simp add: js_round_def floor_unique)

lemma js_round_mono: "x \<le> y \<Longrightarrow> js_round x \<le> js_round y"
  unfolding js_round_def by (rule floor_mono) simp

section \<open>Thrown errors\<close>

definition andThen :: "'e + 'a \<Rightarrow> ('a \<Rightarrow> 'e + 'b) \<Rightarrow> 'e + 'b" where
  "andThen m f = (case m of Inl e \<Rightarrow> Inl e | Inr x \<Rightarrow> f x)"

text \<open>\<open>if (bad) throw e\<close>: the check a parser makes before it goes on.\<close>

definition require :: "bool \<Rightarrow> 'e \<Rightarrow> 'e + unit" where
  "require b e = (if b then Inr () else Inl e)"

definition orThrow :: "'a option \<Rightarrow> 'e \<Rightarrow> 'e + 'a" where
  "orThrow x e = (case x of None \<Rightarrow> Inl e | Some v \<Rightarrow> Inr v)"

lemma andThen_simps [simp]:
  "andThen (Inl e) f = Inl e"
  "andThen (Inr x) f = f x"
  by (simp_all add: andThen_def)

lemma require_simps [simp]:
  "require True e = Inr ()"
  "require False e = Inl e"
  by (simp_all add: require_def)

lemma orThrow_simps [simp]:
  "orThrow None e = Inl e"
  "orThrow (Some v) e = Inr v"
  by (simp_all add: orThrow_def)

lemma andThen_eq_Inr: "andThen m f = Inr y \<longleftrightarrow> (\<exists>x. m = Inr x \<and> f x = Inr y)"
  by (cases m) auto

lemma andThen_eq_Inl: "andThen m f = Inl e \<longleftrightarrow> m = Inl e \<or> (\<exists>x. m = Inr x \<and> f x = Inl e)"
  by (cases m) auto

lemma require_eq_Inr [simp]: "require b e = Inr u \<longleftrightarrow> b"
  by (simp add: require_def)

lemma require_eq_Inl [simp]: "require b e = Inl e' \<longleftrightarrow> \<not> b \<and> e' = e"
  by (auto simp: require_def)

lemma orThrow_eq_Inr [simp]: "orThrow x e = Inr v \<longleftrightarrow> x = Some v"
  by (cases x) auto

lemma andThen_cong [fundef_cong]:
  "m = m' \<Longrightarrow> (\<And>x. m' = Inr x \<Longrightarrow> f x = f' x) \<Longrightarrow> andThen m f = andThen m' f'"
  by (cases m') simp_all

text \<open>A loop that pushes one result per element and stops at the first throw.\<close>

fun mapOrThrow :: "('a \<Rightarrow> 'e + 'b) \<Rightarrow> 'a list \<Rightarrow> 'e + 'b list" where
  "mapOrThrow f [] = Inr []"
| "mapOrThrow f (x # xs) = andThen (f x) (\<lambda>y. andThen (mapOrThrow f xs) (\<lambda>ys. Inr (y # ys)))"

lemma mapOrThrow_eq_Inr: "mapOrThrow f xs = Inr ys \<longleftrightarrow> list_all2 (\<lambda>x y. f x = Inr y) xs ys"
  by (induction xs arbitrary: ys) (auto simp: andThen_eq_Inr list_all2_Cons1)

lemma mapOrThrow_length: "mapOrThrow f xs = Inr ys \<Longrightarrow> length ys = length xs"
  by (auto simp: mapOrThrow_eq_Inr dest: list_all2_lengthD)

lemma mapOrThrow_nth: "mapOrThrow f xs = Inr ys \<Longrightarrow> i < length xs \<Longrightarrow> f (xs ! i) = Inr (ys ! i)"
  by (auto simp: mapOrThrow_eq_Inr dest: list_all2_nthD)

lemma mapOrThrow_mem: "mapOrThrow f xs = Inr ys \<Longrightarrow> y \<in> set ys \<Longrightarrow> \<exists>x \<in> set xs. f x = Inr y"
  by (induction xs arbitrary: ys) (auto simp: andThen_eq_Inr)

lemma mapOrThrow_mem': "mapOrThrow f xs = Inr ys \<Longrightarrow> x \<in> set xs \<Longrightarrow> \<exists>y \<in> set ys. f x = Inr y"
  by (induction xs arbitrary: ys) (auto simp: andThen_eq_Inr)

lemma mapOrThrow_cong [fundef_cong]:
  "xs = ys \<Longrightarrow> (\<And>x. x \<in> set ys \<Longrightarrow> f x = g x) \<Longrightarrow> mapOrThrow f xs = mapOrThrow g ys"
  by (induction ys arbitrary: xs) auto

lemma find_append: "find P (xs @ ys) = (case find P xs of None \<Rightarrow> find P ys | Some x \<Rightarrow> Some x)"
  by (induction xs) auto

lemma find_SomeD: "find P xs = Some x \<Longrightarrow> x \<in> set xs \<and> P x"
  by (induction xs) (auto split: if_splits)

section \<open>The JavaScript Map\<close>

text \<open>
  A \<open>Map\<close> keeps its entries in insertion order: \<open>set\<close> on a key it holds replaces the
  value in place, \<open>set\<close> on a new key appends, \<open>delete\<close> removes. \<open>AList.update\<close> and
  \<open>AList.delete\<close> do exactly that on an association list with distinct keys.
\<close>

type_synonym ('k, 'v) jsmap = "('k \<times> 'v) list"

abbreviation js_keys :: "('k, 'v) jsmap \<Rightarrow> 'k list" where
  "js_keys m \<equiv> map fst m"

definition js_wf :: "('k, 'v) jsmap \<Rightarrow> bool" where
  "js_wf m \<longleftrightarrow> distinct (js_keys m)"

definition js_get :: "('k, 'v) jsmap \<Rightarrow> 'k \<Rightarrow> 'v option" where
  "js_get m k = map_of m k"

definition js_set :: "'k \<Rightarrow> 'v \<Rightarrow> ('k, 'v) jsmap \<Rightarrow> ('k, 'v) jsmap" where
  "js_set k v m = AList.update k v m"

definition js_delete :: "'k \<Rightarrow> ('k, 'v) jsmap \<Rightarrow> ('k, 'v) jsmap" where
  "js_delete k m = AList.delete k m"

lemma js_get_Nil [simp]: "js_get [] k = None"
  by (simp add: js_get_def)

lemma js_get_set [simp]: "js_get (js_set k v m) k' = (if k' = k then Some v else js_get m k')"
  by (simp add: js_get_def js_set_def update_conv')

lemma js_get_delete [simp]: "js_get (js_delete k m) k' = (if k' = k then None else js_get m k')"
  by (simp add: js_get_def js_delete_def delete_conv')

lemma js_wf_Nil [simp]: "js_wf []"
  by (simp add: js_wf_def)

lemma js_wf_set [simp, intro]: "js_wf m \<Longrightarrow> js_wf (js_set k v m)"
  by (simp add: js_wf_def js_set_def distinct_update)

lemma js_wf_delete [simp, intro]: "js_wf m \<Longrightarrow> js_wf (js_delete k m)"
  by (simp add: js_wf_def js_delete_def distinct_delete)

lemma js_get_eq_None: "js_get m k = None \<longleftrightarrow> k \<notin> set (js_keys m)"
  by (simp add: js_get_def map_of_eq_None_iff)

lemma js_keys_delete: "set (js_keys (js_delete k m)) = set (js_keys m) - {k}"
  by (simp add: js_delete_def delete_keys)

lemma js_keys_delete_image [simp]: "fst ` set (js_delete k m) = fst ` set m - {k}"
  using js_keys_delete [of k m] by simp

lemma js_set_absent: "k \<notin> set (js_keys m) \<Longrightarrow> js_set k v m = m @ [(k, v)]"
  unfolding js_set_def by (induction m) auto

lemma js_delete_filter: "js_delete k m = filter (\<lambda>e. fst e \<noteq> k) m"
  unfolding js_delete_def by (induction m) auto

lemma js_delete_absent: "k \<notin> set (js_keys m) \<Longrightarrow> js_delete k m = m"
  by (simp add: js_delete_def delete_idem)

lemma js_get_filter_wf:
  "js_wf m \<Longrightarrow> js_get (filter P m) k =
     (case js_get m k of None \<Rightarrow> None | Some v \<Rightarrow> if P (k, v) then Some v else None)"
proof (induction m)
  case Nil
  then show ?case by simp
next
  case (Cons e m)
  obtain k' v' where e: "e = (k', v')" by (cases e)
  from Cons.prems have wf: "js_wf m" and "k' \<notin> set (js_keys m)" by (simp_all add: js_wf_def e)
  then have "js_get m k' = None" by (simp add: js_get_eq_None)
  with Cons.IH [OF wf] show ?case by (auto simp: js_get_def e split: option.splits)
qed

section \<open>Byte arrays\<close>

type_synonym byte = "8 word"

definition be_nat :: "byte list \<Rightarrow> nat" where
  "be_nat bs = foldl (\<lambda>a b. a * 256 + unat b) 0 bs"

text \<open>
  \<open>DataView.getUint8/16/32(offset, littleEndian)\<close>: \<open>n\<close> bytes at \<open>i\<close>, or the
  \<open>RangeError\<close> of a read past the end.
\<close>

definition view_be :: "nat \<Rightarrow> byte list \<Rightarrow> nat \<Rightarrow> nat option" where
  "view_be n bs i = (if i + n \<le> length bs then Some (be_nat (take n (drop i bs))) else None)"

definition view_le :: "nat \<Rightarrow> byte list \<Rightarrow> nat \<Rightarrow> nat option" where
  "view_le n bs i = (if i + n \<le> length bs then Some (be_nat (rev (take n (drop i bs)))) else None)"

lemma be_nat_Nil [simp]: "be_nat [] = 0"
  by (simp add: be_nat_def)

lemma be_nat_snoc [simp]: "be_nat (bs @ [b]) = be_nat bs * 256 + unat b"
  by (simp add: be_nat_def)

lemma unat_byte_less: "unat (b :: byte) < 256"
  using unsigned_less [of b, where 'a = nat] by simp

lemma be_nat_less: "be_nat bs < 256 ^ length bs"
proof (induction bs rule: rev_induct)
  case Nil
  then show ?case by simp
next
  case (snoc b bs)
  have "be_nat bs * 256 + unat b < (be_nat bs + 1) * 256"
    using unat_byte_less [of b] by simp
  also have "\<dots> \<le> 256 ^ length bs * 256"
    using snoc by (intro mult_right_mono) simp_all
  finally show ?case by (simp add: mult.commute)
qed

lemma view_be_Some [byte_simps]:
  "view_be n bs i = Some v \<longleftrightarrow> i + n \<le> length bs \<and> v = be_nat (take n (drop i bs))"
  by (auto simp: view_be_def)

lemma view_be_less: "view_be n bs i = Some v \<Longrightarrow> v < 256 ^ n"
  using be_nat_less [of "take n (drop i bs)"] by (auto simp: view_be_Some)

lemma view_be_in_range [simp]: "view_be n bs i = None \<longleftrightarrow> length bs < i + n"
  by (auto simp: view_be_def)

text \<open>Big-endian encoding, for round trips and concrete inputs.\<close>

fun nat_be :: "nat \<Rightarrow> nat \<Rightarrow> byte list" where
  "nat_be 0 v = []"
| "nat_be (Suc n) v = nat_be n (v div 256) @ [of_nat (v mod 256)]"

lemma length_nat_be [simp]: "length (nat_be n v) = n"
  by (induction n arbitrary: v) auto

lemma be_nat_nat_be: "v < 256 ^ n \<Longrightarrow> be_nat (nat_be n v) = v"
proof (induction n arbitrary: v)
  case 0
  then show ?case by simp
next
  case (Suc n)
  then have "v div 256 < 256 ^ n"
    by (simp add: less_mult_imp_div_less mult.commute)
  then have "be_nat (nat_be n (v div 256)) = v div 256" by (rule Suc.IH)
  moreover have "unat (of_nat (v mod 256) :: byte) = v mod 256"
    by (simp add: unat_of_nat)
  ultimately show ?case by simp
qed

section \<open>Pages of a list\<close>

lemma concat_pages:
  "concat (map (\<lambda>p. take k (drop ((p - 1) * k) xs)) [1 ..< Suc n]) = take (n * k) xs"
proof (induction n)
  case 0
  then show ?case by simp
next
  case (Suc n)
  have "take (n * k) xs @ take k (drop (n * k) xs) = take (n * k + k) xs" by (simp add: take_add)
  with Suc show ?case by (simp add: add.commute)
qed

end
