(* ===== verification/Operation_Deadline.thy ===== *)
theory Operation_Deadline
  imports Prelude
begin

text \<open>
  \<open>src/upstream/operation-deadline.ts\<close>: the total budget of one operation, and
  \<open>src/upstream/staleness.ts\<close>: the two ceilings of a cached value. The injected clock is an
  argument of every method. An \<open>AbortSignal.timeout(d)\<close> made at \<open>t\<close> is the time
  \<open>t + d\<close> at which it fires and \<open>AbortSignal.any\<close> is the earlier of two such times.
\<close>

section \<open>The budget of an operation\<close>

record operationDeadline =
  budgetMs :: ms
  startedAtMs :: ms

datatype deadlineError = NonPositiveBudget int

definition newOperationDeadline :: "ms \<Rightarrow> ms \<Rightarrow> deadlineError + operationDeadline" where
  "newOperationDeadline budget now =
     (if budget \<le> 0 then Inl (NonPositiveBudget budget)
      else Inr \<lparr>budgetMs = budget, startedAtMs = now\<rparr>)"

definition remainingMs :: "operationDeadline \<Rightarrow> ms \<Rightarrow> ms" where
  "remainingMs d now = max 0 (budgetMs d - (now - startedAtMs d))"

definition hasExpired :: "operationDeadline \<Rightarrow> ms \<Rightarrow> bool" where
  "hasExpired d now \<longleftrightarrow> remainingMs d now \<le> 0"

definition canAfford :: "operationDeadline \<Rightarrow> ms \<Rightarrow> ms \<Rightarrow> bool" where
  "canAfford d now needMs \<longleftrightarrow> remainingMs d now > needMs"

definition cutsCallShort :: "operationDeadline \<Rightarrow> ms \<Rightarrow> ms \<Rightarrow> bool" where
  "cutsCallShort d now singleCallTimeoutMs =
     (if singleCallTimeoutMs \<ge> budgetMs d then False
      else remainingMs d now < singleCallTimeoutMs)"

text \<open>The operation signal, made by the constructor, and the signal for one call.\<close>

definition operationSignalAt :: "operationDeadline \<Rightarrow> ms" where
  "operationSignalAt d = startedAtMs d + budgetMs d"

definition signalForAt :: "operationDeadline \<Rightarrow> ms \<Rightarrow> ms \<Rightarrow> ms" where
  "signalForAt d now singleCallTimeoutMs =
     (let callBudget = max 1 (min singleCallTimeoutMs (remainingMs d now))
      in min (operationSignalAt d) (now + callBudget))"

lemmas deadline_defs [upstream_simps] =
  remainingMs_def hasExpired_def canAfford_def cutsCallShort_def operationSignalAt_def
  signalForAt_def

lemma newOperationDeadline_Inr:
  "newOperationDeadline b now = Inr d \<longleftrightarrow> 0 < b \<and> d = \<lparr>budgetMs = b, startedAtMs = now\<rparr>"
  by (auto simp: newOperationDeadline_def)

lemma remainingMs_nonneg [simp]: "0 \<le> remainingMs d now"
  by (simp add: remainingMs_def)

lemma remainingMs_antimono: "now \<le> now' \<Longrightarrow> remainingMs d now' \<le> remainingMs d now"
  by (simp add: remainingMs_def)

lemma hasExpired_mono: "hasExpired d now \<Longrightarrow> now \<le> now' \<Longrightarrow> hasExpired d now'"
  by (simp add: hasExpired_def remainingMs_def)

lemma hasExpired_iff: "hasExpired d now \<longleftrightarrow> operationSignalAt d \<le> now"
  by (auto simp: hasExpired_def remainingMs_def operationSignalAt_def)

lemma canAfford_not_expired: "canAfford d now need \<Longrightarrow> 0 \<le> need \<Longrightarrow> \<not> hasExpired d now"
  by (simp add: canAfford_def hasExpired_def)

text \<open>
  No call started under a deadline, with whatever per-call cap, is still running when
  the operation's budget has elapsed, and a call that starts inside the budget with a cap
  of at least one millisecond never gets more than its cap.
\<close>

theorem call_never_outlives_operation:
  assumes "newOperationDeadline budget t0 = Inr d"
  shows "signalForAt d now cap \<le> t0 + budget
    \<and> (1 \<le> cap \<longrightarrow> signalForAt d now cap \<le> now + cap)"
  using assms by (auto simp: newOperationDeadline_Inr upstream_simps Let_def)

theorem call_never_outlives_operation_witness:
  "signalForAt \<lparr>budgetMs = 6000, startedAtMs = 100\<rparr> 5900 4000 \<le> 100 + 6000"
proof -
  have "newOperationDeadline 6000 100 = Inr \<lparr>budgetMs = 6000, startedAtMs = 100\<rparr>"
    by (simp add: newOperationDeadline_def)
  from call_never_outlives_operation [OF this, of 5900 4000] show ?thesis by simp
qed

text \<open>
  While the operation is running, \<open>cutsCallShort\<close> says exactly that the call would be
  ended by the operation's ceiling before its own cap, provided the cap is smaller than the
  whole budget; for a cap that is not smaller it is never set, so every failure of such a
  call counts as evidence about the provider.
\<close>

theorem cutsCallShort_exact:
  assumes "newOperationDeadline budget t0 = Inr d" and "t0 \<le> now" and "\<not> hasExpired d now"
    and "1 \<le> cap"
  shows "cutsCallShort d now cap \<longleftrightarrow> cap < budget \<and> signalForAt d now cap < now + cap"
  using assms by (auto simp: newOperationDeadline_Inr upstream_simps Let_def)

theorem cutsCallShort_exact_witness:
  "cutsCallShort \<lparr>budgetMs = 6000, startedAtMs = 100\<rparr> 3000 4000
   \<and> signalForAt \<lparr>budgetMs = 6000, startedAtMs = 100\<rparr> 3000 4000 < 3000 + 4000"
proof -
  have d: "newOperationDeadline 6000 100 = Inr \<lparr>budgetMs = 6000, startedAtMs = 100\<rparr>"
    by (simp add: newOperationDeadline_def)
  have "\<not> hasExpired \<lparr>budgetMs = 6000, startedAtMs = 100\<rparr> 3000"
    by (simp add: hasExpired_def remainingMs_def)
  from cutsCallShort_exact [OF d _ this, of 4000] show ?thesis
    by (simp add: cutsCallShort_def remainingMs_def)
qed

section \<open>Staleness of a cached value\<close>

record stalenessCeilings =
  staleMaxSeconds :: int
  validAtMaxAgeSeconds :: int

record stalenessInput =
  si_storedAtMs :: ms
  si_validAtMs :: "ms option"
  si_ttlSeconds :: int
  si_nowMs :: ms
  si_ceilings :: stalenessCeilings

datatype freshness = Fresh | Stale

datatype unusableReason = Cache_age_ceiling | Valid_at_ceiling

datatype stalenessVerdict =
    Usable freshness rat "ms option"
  | Unusable rat unusableReason

text \<open>Ages are fractions of a second, as the division by 1000 makes them.\<close>

definition evaluateStaleness :: "stalenessInput \<Rightarrow> stalenessVerdict" where
  "evaluateStaleness inp =
     (let ageSeconds = max 0 (of_int (si_nowMs inp - si_storedAtMs inp) / 1000)
      in if ageSeconds > of_int (staleMaxSeconds (si_ceilings inp))
         then Unusable ageSeconds Cache_age_ceiling
         else if (case si_validAtMs inp of
                    None \<Rightarrow> False
                  | Some v \<Rightarrow> of_int (si_nowMs inp - v) / 1000
                      > (of_int (validAtMaxAgeSeconds (si_ceilings inp)) :: rat))
         then Unusable ageSeconds Valid_at_ceiling
         else (let fresh = ageSeconds \<le> of_int (si_ttlSeconds inp)
               in Usable (if fresh then Fresh else Stale) ageSeconds
                    (if fresh then None
                     else Some (si_storedAtMs inp + si_ttlSeconds inp * 1000))))"

text \<open>What a visitor may be shown, stated in milliseconds and without the code's cascade.\<close>

definition withinCeilings :: "stalenessInput \<Rightarrow> bool" where
  "withinCeilings inp \<longleftrightarrow>
     0 \<le> staleMaxSeconds (si_ceilings inp)
     \<and> si_nowMs inp - si_storedAtMs inp \<le> 1000 * staleMaxSeconds (si_ceilings inp)
     \<and> (\<forall>v. si_validAtMs inp = Some v \<longrightarrow>
           si_nowMs inp - v \<le> 1000 * validAtMaxAgeSeconds (si_ceilings inp))"

lemma seconds_gt: "(of_int x / 1000 > (of_int n :: rat)) \<longleftrightarrow> x > 1000 * n"
proof -
  have "(of_int x / 1000 > (of_int n :: rat)) \<longleftrightarrow> (of_int (1000 * n) :: rat) < of_int x"
    by (simp add: field_simps)
  then show ?thesis by (simp only: of_int_less_iff)
qed

lemma seconds_le: "(of_int x / 1000 \<le> (of_int n :: rat)) \<longleftrightarrow> x \<le> 1000 * n"
  using seconds_gt [of n x] by (metis not_le)

lemma age_gt: "max 0 (of_int x / 1000) > (of_int n :: rat) \<longleftrightarrow> n < 0 \<or> x > 1000 * n"
  by (auto simp: less_max_iff_disj seconds_gt)

lemma age_le: "max 0 (of_int x / 1000) \<le> (of_int n :: rat) \<longleftrightarrow> 0 \<le> n \<and> x \<le> 1000 * n"
  using age_gt [of n x] by (meson not_le)

text \<open>The verdict with its comparisons in integer milliseconds.\<close>

lemma evaluateStaleness_ms:
  "evaluateStaleness inp =
     (let age = max 0 (of_int (si_nowMs inp - si_storedAtMs inp) / 1000);
          ms = si_nowMs inp - si_storedAtMs inp
      in if staleMaxSeconds (si_ceilings inp) < 0 \<or> ms > 1000 * staleMaxSeconds (si_ceilings inp)
         then Unusable age Cache_age_ceiling
         else if (case si_validAtMs inp of None \<Rightarrow> False
                  | Some v \<Rightarrow> si_nowMs inp - v > 1000 * validAtMaxAgeSeconds (si_ceilings inp))
         then Unusable age Valid_at_ceiling
         else if 0 \<le> si_ttlSeconds inp \<and> ms \<le> 1000 * si_ttlSeconds inp
         then Usable Fresh age None
         else Usable Stale age (Some (si_storedAtMs inp + si_ttlSeconds inp * 1000)))"
  unfolding evaluateStaleness_def Let_def age_gt age_le seconds_gt
  by (simp split: option.split)

text \<open>
  A value is published exactly when it is within both ceilings (the age of the cache
  entry and the age of the model time it is about, when it has one), and then it is
  labelled fresh exactly while its age is within its freshness horizon, and stale since
  the moment that horizon ended otherwise.
\<close>

theorem staleness_verdict:
  "case evaluateStaleness inp of
     Usable fr age since \<Rightarrow>
       withinCeilings inp \<and> 0 \<le> age
       \<and> (fr = Fresh \<longleftrightarrow> 0 \<le> si_ttlSeconds inp
             \<and> si_nowMs inp \<le> si_storedAtMs inp + 1000 * si_ttlSeconds inp)
       \<and> since = (if fr = Fresh then None
                   else Some (si_storedAtMs inp + si_ttlSeconds inp * 1000))
   | Unusable age why \<Rightarrow> \<not> withinCeilings inp"
  unfolding evaluateStaleness_ms Let_def withinCeilings_def
  by (auto split: option.splits if_splits)

lemma evaluateStaleness_usable:
  "evaluateStaleness inp = Usable fr age since \<Longrightarrow> withinCeilings inp"
  unfolding evaluateStaleness_ms Let_def withinCeilings_def
  by (auto split: option.splits if_splits)

lemma staleness_ages_out:
  assumes "withinCeilings inp = False" and "si_nowMs inp \<le> later"
  shows "withinCeilings (inp\<lparr>si_nowMs := later\<rparr>) = False"
  using assms by (auto simp: withinCeilings_def)

end
