(* ===== verification/Upstream_Metrics.thy ===== *)
theory Upstream_Metrics
  imports Prelude
begin

text \<open>
  \<open>src/upstream/upstream-metrics.ts\<close>: the process-wide counters, keyed by metric name and
  provider, and the throttled log events. \<open>src/upstream/upstream.types.ts\<close>: the vocabulary
  every upstream call collapses into. A log line is a level and a tag; its rendered context
  is text for an operator and is not kept.
\<close>

section \<open>Outcomes of an upstream call\<close>

datatype upstreamOutcomeKind =
    K_ok | K_no_data | K_transient | K_rate_limited | K_client_error | K_schema_error
  | K_budget_exhausted

text \<open>
  The reason of a failure, one constructor per message the code composes (the label and
  the redacted URL of the request, constant for one request, are left out of the text).
\<close>

datatype budgetWindow = W_minute | W_hour | W_day

datatype reason =
    R_deadline_elapsed
  | R_breaker_open
  | R_no_attempt
  | R_budget budgetWindow int
  | R_transport nat
  | R_oversized
  | R_http nat
  | R_missing nat
  | R_rejected nat
  | R_server_body nat
  | R_content_type
  | R_parse string
  | R_peek_nothing
  | R_other_instance
  | R_text string

datatype 'a upstreamOutcome =
    Out_ok 'a "ms option"
  | Out_no_data reason
  | Out_transient reason
  | Out_budget_exhausted reason
  | Out_client_error reason "nat option"
  | Out_schema_error reason
  | Out_rate_limited reason "int option"

fun kind_of :: "'a upstreamOutcome \<Rightarrow> upstreamOutcomeKind" where
  "kind_of (Out_ok v t) = K_ok"
| "kind_of (Out_no_data r) = K_no_data"
| "kind_of (Out_transient r) = K_transient"
| "kind_of (Out_budget_exhausted r) = K_budget_exhausted"
| "kind_of (Out_client_error r h) = K_client_error"
| "kind_of (Out_schema_error r) = K_schema_error"
| "kind_of (Out_rate_limited r s) = K_rate_limited"

fun retry_after_of :: "'a upstreamOutcome \<Rightarrow> int option" where
  "retry_after_of (Out_rate_limited r s) = s"
| "retry_after_of out = None"

definition isOk :: "'a upstreamOutcome \<Rightarrow> bool" where
  "isOk out \<longleftrightarrow> kind_of out = K_ok"

section \<open>Counters\<close>

text \<open>\<open>M_event\<close> carries the name of a counter of one provider leg as the code writes it.\<close>

datatype upstreamMetricName =
    M_cache_hit | M_cache_stale | M_cache_miss | M_cache_negative_hit | M_cache_ceiling_dropped
  | M_singleflight_joined | M_singleflight_lost
  | M_upstream_request | M_upstream_retry | M_upstream_deadline_exceeded
  | M_upstream_outcome upstreamOutcomeKind
  | M_budget_rejected
  | M_breaker_rejected | M_breaker_opened | M_breaker_closed
  | M_breaker_trial_abandoned | M_breaker_trial_released
  | M_redis_degraded
  | M_elevation_profile_partial | M_elevation_tile_ceiling_refused | M_elevation_tile_joined
  | M_elevation_imagery_sources_absent | M_elevation_imagery_sources_refused
  | M_elevation_tiles_all_no_data
  | M_event string

datatype logLevel = L_debug | L_log | L_warn | L_error

record metrics =
  counters :: "upstreamMetricName \<times> string \<Rightarrow> nat"
  throttleExpiresAtMs :: "(string, ms) jsmap"
  logged :: "(logLevel \<times> string) list"

definition metrics_init :: metrics where
  "metrics_init = \<lparr>counters = (\<lambda>_. 0), throttleExpiresAtMs = [], logged = []\<rparr>"

definition increment :: "upstreamMetricName \<Rightarrow> string \<Rightarrow> metrics \<Rightarrow> metrics" where
  "increment name p m = m\<lparr>counters := (counters m)((name, p) := counters m (name, p) + 1)\<rparr>"

text \<open>The amount of \<open>increment\<close> when it is not the default of one.\<close>

definition incrementBy :: "upstreamMetricName \<Rightarrow> string \<Rightarrow> nat \<Rightarrow> metrics \<Rightarrow> metrics" where
  "incrementBy name p n m = m\<lparr>counters := (counters m)((name, p) := counters m (name, p) + n)\<rparr>"

definition getMetric :: "upstreamMetricName \<Rightarrow> string \<Rightarrow> metrics \<Rightarrow> nat" where
  "getMetric name p m = counters m (name, p)"

definition event :: "logLevel \<Rightarrow> string \<Rightarrow> metrics \<Rightarrow> metrics" where
  "event lvl msg m = m\<lparr>logged := logged m @ [(lvl, msg)]\<rparr>"

section \<open>Throttled events\<close>

definition pruneThrottleKeys :: "ms \<Rightarrow> (string, ms) jsmap \<Rightarrow> (string, ms) jsmap" where
  "pruneThrottleKeys nowMs ks =
     (if length ks \<le> 64 then ks else filter (\<lambda>(k, expiresAt). \<not> nowMs \<ge> expiresAt) ks)"

definition throttledEvent ::
  "logLevel \<Rightarrow> string \<Rightarrow> ms \<Rightarrow> string \<Rightarrow> ms \<Rightarrow> metrics \<Rightarrow> bool \<times> metrics" where
  "throttledEvent lvl key everyMs msg now m =
     (case js_get (throttleExpiresAtMs m) key of
        Some expiresAt \<Rightarrow>
          if now < expiresAt then (False, m)
          else (True, event lvl msg (m\<lparr>throttleExpiresAtMs :=
                  pruneThrottleKeys now (js_set key (now + everyMs) (throttleExpiresAtMs m))\<rparr>))
      | None \<Rightarrow>
          (True, event lvl msg (m\<lparr>throttleExpiresAtMs :=
                  pruneThrottleKeys now (js_set key (now + everyMs) (throttleExpiresAtMs m))\<rparr>)))"

section \<open>What an increment, an event and a throttled event leave alone\<close>

lemma getMetric_increment [simp]:
  "getMetric n p (increment n' p' m) = getMetric n p m + (if n' = n \<and> p' = p then 1 else 0)"
  by (auto simp: getMetric_def increment_def)

lemma getMetric_incrementBy [simp]:
  "getMetric n p (incrementBy n' p' k m) = getMetric n p m + (if n' = n \<and> p' = p then k else 0)"
  by (auto simp: getMetric_def incrementBy_def)

lemma getMetric_event [simp]: "getMetric n p (event l s m) = getMetric n p m"
  by (simp add: getMetric_def event_def)

lemma getMetric_throttledEvent [simp]:
  "getMetric n p (snd (throttledEvent l k e s now m)) = getMetric n p m"
  by (simp add: throttledEvent_def getMetric_def event_def split: option.split)

lemma throttle_increment [simp]: "throttleExpiresAtMs (increment n p m) = throttleExpiresAtMs m"
  by (simp add: increment_def)

lemma throttle_event [simp]: "throttleExpiresAtMs (event l s m) = throttleExpiresAtMs m"
  by (simp add: event_def)

lemma logged_event [simp]: "logged (event l s m) = logged m @ [(l, s)]"
  by (simp add: event_def)

section \<open>One line per key and window\<close>

lemma js_wf_prune: "js_wf ks \<Longrightarrow> js_wf (pruneThrottleKeys now ks)"
  by (simp add: pruneThrottleKeys_def js_wf_def distinct_map_filter)

lemma prune_keeps_live:
  "js_wf ks \<Longrightarrow> js_get ks k = Some t \<Longrightarrow> now < t \<Longrightarrow> js_get (pruneThrottleKeys now ks) k = Some t"
  by (simp add: pruneThrottleKeys_def js_get_filter_wf)

lemma throttledEvent_wf:
  "js_wf (throttleExpiresAtMs m) \<Longrightarrow> js_wf (throttleExpiresAtMs (snd (throttledEvent l k e s now m)))"
  by (simp add: throttledEvent_def event_def js_wf_prune split: option.split)

fun throttled_run :: "(string \<times> ms \<times> ms) list \<Rightarrow> metrics \<Rightarrow> bool list \<times> metrics" where
  "throttled_run [] m = ([], m)"
| "throttled_run ((k, every, now) # es) m =
     (let (b, m') = throttledEvent L_warn k every k now m;
          (bs, m'') = throttled_run es m'
      in (b # bs, m''))"

lemma throttledEvent_other_live:
  assumes "js_wf (throttleExpiresAtMs m)" and "js_get (throttleExpiresAtMs m) k = Some t" and "now < t"
  shows "js_get (throttleExpiresAtMs (snd (throttledEvent l k' e s now m))) k = Some t"
proof (cases "k' = k")
  case True
  with assms show ?thesis by (simp add: throttledEvent_def)
next
  case False
  with assms show ?thesis
    by (simp add: throttledEvent_def event_def prune_keeps_live split: option.split)
qed

text \<open>Emissions of a key in a run, with the moment and the window of each.\<close>

fun emissions :: "string \<Rightarrow> (string \<times> ms \<times> ms) list \<Rightarrow> bool list \<Rightarrow> (ms \<times> ms) list" where
  "emissions k ((k', every, now) # es) (b # bs) =
     (if k' = k \<and> b then [(now, every)] else []) @ emissions k es bs"
| "emissions k es bs = []"

lemma throttled_run_times:
  "(now, every) \<in> set (emissions k es bs) \<Longrightarrow> now \<in> set (map (\<lambda>e. snd (snd e)) es)"
  by (induction k es bs rule: emissions.induct) (auto split: if_splits)

lemma quiet_until:
  assumes "js_wf (throttleExpiresAtMs m)" and "sorted (map (\<lambda>e. snd (snd e)) es)"
    and "js_get (throttleExpiresAtMs m) k = Some t"
    and "(now, every) \<in> set (emissions k es (fst (throttled_run es m)))"
  shows "t \<le> now"
  using assms
proof (induction es arbitrary: m)
  case Nil
  then show ?case by simp
next
  case (Cons e es)
  obtain k1 every1 now1 where e: "e = (k1, every1, now1)" by (cases e) auto
  obtain b m1 where one: "throttledEvent L_warn k1 every1 k1 now1 m = (b, m1)" by fastforce
  show ?case
  proof (cases "t \<le> now1")
    case True
    have "now \<in> set (map (\<lambda>e. snd (snd e)) (e # es))"
      using throttled_run_times [OF Cons.prems(4)] .
    then have "now1 \<le> now" using Cons.prems(2) by (auto simp: e)
    with True show ?thesis by simp
  next
    case False
    then have live: "now1 < t" by simp
    have "js_get (throttleExpiresAtMs m1) k = Some t"
      using throttledEvent_other_live [OF Cons.prems(1,3) live, of L_warn k1 every1 k1] one by simp
    moreover have "js_wf (throttleExpiresAtMs m1)"
      using throttledEvent_wf [OF Cons.prems(1), of L_warn k1 every1 k1 now1] one by simp
    moreover have "\<not> (k1 = k \<and> b)"
      using one Cons.prems(3) live by (auto simp: throttledEvent_def)
    ultimately show ?thesis using Cons.IH [of m1] Cons.prems(2,4) one
      by (auto simp: e split: prod.splits)
  qed
qed

text \<open>
  Under throttling, two lines of one key are never closer than the window of the earlier
  one, however many other keys log in between and whatever the pruning of old keys removes.
\<close>

theorem throttled_lines_spaced:
  assumes "js_wf (throttleExpiresAtMs m)" and "sorted (map (\<lambda>e. snd (snd e)) es)"
  shows "sorted_wrt (\<lambda>a b. fst a + snd a \<le> fst b) (emissions k es (fst (throttled_run es m)))"
  using assms
proof (induction es arbitrary: m)
  case Nil
  then show ?case by simp
next
  case (Cons e es)
  obtain k1 every1 now1 where e: "e = (k1, every1, now1)" by (cases e) auto
  obtain b m1 where one: "throttledEvent L_warn k1 every1 k1 now1 m = (b, m1)" by fastforce
  have wf: "js_wf (throttleExpiresAtMs m1)"
    using throttledEvent_wf [OF Cons.prems(1), of L_warn k1 every1 k1 now1] one by simp
  have srt: "sorted (map (\<lambda>e. snd (snd e)) es)" and later: "\<forall>e \<in> set es. now1 \<le> snd (snd e)"
    using Cons.prems(2) by (auto simp: e)
  have "now1 + every1 \<le> now" if "b" "k1 = k" "(now, every) \<in> set (emissions k es (fst (throttled_run es m1)))"
    for now every
  proof (cases "0 < every1")
    case True
    have "js_get (throttleExpiresAtMs m1) k = Some (now1 + every1)"
      using one that(1,2) True prune_keeps_live [OF js_wf_set [OF Cons.prems(1)], of k1 "now1 + every1"]
      by (auto simp: throttledEvent_def split: option.splits if_splits)
    from quiet_until [OF wf srt this that(3)] show ?thesis .
  next
    case False
    have "now1 \<le> now" using throttled_run_times [OF that(3)] later by auto
    with False show ?thesis by simp
  qed
  with Cons.IH [OF wf srt] show ?case using one by (auto simp: e split: prod.splits)
qed

theorem throttled_lines_spaced_witness:
  "emissions ''a'' [(''a'', 60, 0), (''b'', 60, 10), (''a'', 60, 59), (''a'', 60, 60)]
     (fst (throttled_run [(''a'', 60, 0), (''b'', 60, 10), (''a'', 60, 59), (''a'', 60, 60)] metrics_init))
     = [(0, 60), (60, 60)]
   \<and> sorted_wrt (\<lambda>a b. fst a + snd a \<le> fst b)
       (emissions ''a'' [(''a'', 60, 0), (''b'', 60, 10), (''a'', 60, 59), (''a'', 60, 60)]
         (fst (throttled_run [(''a'', 60, 0), (''b'', 60, 10), (''a'', 60, 59), (''a'', 60, 60)] metrics_init)))"
proof -
  let ?es = "[(''a'', 60, 0), (''b'', 60, 10), (''a'', 60, 59), (''a'', 60, 60)] :: (string \<times> ms \<times> ms) list"
  have "js_wf (throttleExpiresAtMs metrics_init)" by (simp add: metrics_init_def)
  moreover have "sorted (map (\<lambda>e. snd (snd e)) ?es)" by simp
  ultimately have "sorted_wrt (\<lambda>a b. fst a + snd a \<le> fst b)
      (emissions ''a'' ?es (fst (throttled_run ?es metrics_init)))"
    by (rule throttled_lines_spaced)
  moreover have "emissions ''a'' ?es (fst (throttled_run ?es metrics_init)) = [(0, 60), (60, 60)]"
    by code_simp
  ultimately show ?thesis by blast
qed

end
