(* ===== verification/Circuit_Breaker.thy ===== *)
theory Circuit_Breaker
  imports Upstream_Metrics
begin

text \<open>
  \<open>src/upstream/circuit-breaker.ts\<close>: the per-provider circuit. The private map is a
  partial function from provider id to circuit; every method takes the clock reading it makes
  and the shared metrics, and returns both updated.
\<close>

section \<open>State\<close>

datatype circuitState = Closed | Open | Half_open

record providerCircuit =
  consecutiveFailures :: nat
  openUntilMs :: "ms option"
  trialInFlight :: bool

record circuitBreaker =
  circuits :: "string \<Rightarrow> providerCircuit option"
  failureThreshold :: nat
  openMs :: ms

definition DEFAULT_FAILURE_THRESHOLD :: nat where "DEFAULT_FAILURE_THRESHOLD = 5"
definition DEFAULT_OPEN_MS :: ms where "DEFAULT_OPEN_MS = 60000"

definition newCircuitBreaker :: "nat option \<Rightarrow> ms option \<Rightarrow> circuitBreaker" where
  "newCircuitBreaker threshold openFor =
     \<lparr>circuits = (\<lambda>_. None),
      failureThreshold = (case threshold of None \<Rightarrow> DEFAULT_FAILURE_THRESHOLD | Some n \<Rightarrow> n),
      openMs = (case openFor of None \<Rightarrow> DEFAULT_OPEN_MS | Some n \<Rightarrow> n)\<rparr>"

definition setCircuit :: "string \<Rightarrow> providerCircuit \<Rightarrow> circuitBreaker \<Rightarrow> circuitBreaker" where
  "setCircuit p c cb = cb\<lparr>circuits := (circuits cb)(p := Some c)\<rparr>"

section \<open>Operations\<close>

definition state :: "string \<Rightarrow> ms \<Rightarrow> circuitBreaker \<Rightarrow> circuitState" where
  "state p now cb =
     (case circuits cb p of
        None \<Rightarrow> Closed
      | Some c \<Rightarrow> (case openUntilMs c of
                    None \<Rightarrow> Closed
                  | Some u \<Rightarrow> if now \<ge> u then Half_open else Open))"

definition canAttempt ::
  "string \<Rightarrow> ms \<Rightarrow> metrics \<times> circuitBreaker \<Rightarrow> bool \<times> metrics \<times> circuitBreaker" where
  "canAttempt p now s = (case s of (m, cb) \<Rightarrow>
     (case circuits cb p of
        None \<Rightarrow> (True, m, cb)
      | Some c \<Rightarrow> (case openUntilMs c of
          None \<Rightarrow> (True, m, cb)
        | Some u \<Rightarrow>
            if now < u then (False, increment M_breaker_rejected p m, cb)
            else if trialInFlight c then (False, increment M_breaker_rejected p m, cb)
            else (True, m, setCircuit p (c\<lparr>trialInFlight := True\<rparr>) cb))))"

definition recordSuccess ::
  "string \<Rightarrow> metrics \<times> circuitBreaker \<Rightarrow> metrics \<times> circuitBreaker" where
  "recordSuccess p s = (case s of (m, cb) \<Rightarrow>
     (case circuits cb p of
        None \<Rightarrow> (m, cb)
      | Some c \<Rightarrow>
          ((if openUntilMs c \<noteq> None
            then event L_log ''circuit breaker closed'' (increment M_breaker_closed p m)
            else m),
           setCircuit p (c\<lparr>consecutiveFailures := 0, openUntilMs := None,
                            trialInFlight := False\<rparr>) cb)))"

definition abandonTrial ::
  "string \<Rightarrow> metrics \<times> circuitBreaker \<Rightarrow> metrics \<times> circuitBreaker" where
  "abandonTrial p s = (case s of (m, cb) \<Rightarrow>
     (case circuits cb p of
        None \<Rightarrow> (m, cb)
      | Some c \<Rightarrow>
          if \<not> trialInFlight c then (m, cb)
          else (event L_error ''half-open trial abandoned without an outcome''
                  (increment M_breaker_trial_abandoned p m),
                setCircuit p (c\<lparr>trialInFlight := False\<rparr>) cb)))"

definition releaseTrial ::
  "string \<Rightarrow> metrics \<times> circuitBreaker \<Rightarrow> metrics \<times> circuitBreaker" where
  "releaseTrial p s = (case s of (m, cb) \<Rightarrow>
     (case circuits cb p of
        None \<Rightarrow> (m, cb)
      | Some c \<Rightarrow>
          if \<not> trialInFlight c then (m, cb)
          else (event L_debug ''half-open trial released without provider evidence''
                  (increment M_breaker_trial_released p m),
                setCircuit p (c\<lparr>trialInFlight := False\<rparr>) cb)))"

definition freshCircuit :: providerCircuit where
  "freshCircuit = \<lparr>consecutiveFailures = 0, openUntilMs = None, trialInFlight = False\<rparr>"

definition recordFailure ::
  "string \<Rightarrow> upstreamOutcomeKind \<Rightarrow> int option \<Rightarrow> ms
   \<Rightarrow> metrics \<times> circuitBreaker \<Rightarrow> metrics \<times> circuitBreaker" where
  "recordFailure p kind retryAfterSeconds now s = (case s of (m, cb) \<Rightarrow>
     if kind = K_no_data then (m, cb)
     else if kind = K_budget_exhausted then (m, cb)
     else
       (let c0 = (case circuits cb p of None \<Rightarrow> freshCircuit | Some c \<Rightarrow> c);
            c = c0\<lparr>consecutiveFailures := consecutiveFailures c0 + 1, trialInFlight := False\<rparr>;
            rateLimited = (kind = K_rate_limited)
        in if rateLimited \<or> consecutiveFailures c \<ge> failureThreshold cb
           then (let openForMs = (case retryAfterSeconds of
                       Some r \<Rightarrow> if rateLimited then max (r * 1000) (openMs cb) else openMs cb
                     | None \<Rightarrow> openMs cb);
                     wasOpen = (case openUntilMs c of None \<Rightarrow> False | Some u \<Rightarrow> now < u);
                     c' = c\<lparr>openUntilMs := Some (now + openForMs)\<rparr>
                 in ((if wasOpen then m
                      else event L_warn ''circuit breaker opened''
                             (increment M_breaker_opened p m)),
                     setCircuit p c' cb))
           else (m, setCircuit p c cb)))"

lemmas breaker_defs [upstream_simps] =
  canAttempt_def recordSuccess_def abandonTrial_def releaseTrial_def recordFailure_def
  setCircuit_def state_def Let_def

section \<open>Frame and well-formedness\<close>

text \<open>The fields the constructor fixes, and the circuits of other providers, never change.\<close>

datatype breakerEvent =
    CanAttempt | Success | Abandon | Release | Failure upstreamOutcomeKind "int option"

fun breakerStep ::
  "string \<Rightarrow> breakerEvent \<Rightarrow> ms \<Rightarrow> metrics \<times> circuitBreaker \<Rightarrow> metrics \<times> circuitBreaker" where
  "breakerStep p CanAttempt now s = snd (canAttempt p now s)"
| "breakerStep p Success now s = recordSuccess p s"
| "breakerStep p Abandon now s = abandonTrial p s"
| "breakerStep p Release now s = releaseTrial p s"
| "breakerStep p (Failure k r) now s = recordFailure p k r now s"

lemma breakerStep_config [simp]:
  "failureThreshold (snd (breakerStep p e now s)) = failureThreshold (snd s)"
  "openMs (snd (breakerStep p e now s)) = openMs (snd s)"
  by (cases e; cases s; simp add: upstream_simps split: option.split)+

lemma breakerStep_other:
  "q \<noteq> p \<Longrightarrow> circuits (snd (breakerStep p e now s)) q = circuits (snd s) q"
  by (cases e; cases s; simp add: upstream_simps split: option.split)

text \<open>
  The well-formedness a circuit keeps: a trial is only in flight on a circuit that is open
  or half open, and such a circuit has failed at least once.
\<close>

definition circuit_ok :: "providerCircuit \<Rightarrow> bool" where
  "circuit_ok c \<longleftrightarrow> (trialInFlight c \<longrightarrow> openUntilMs c \<noteq> None)
     \<and> (openUntilMs c \<noteq> None \<longrightarrow> 0 < consecutiveFailures c)"

definition breaker_ok :: "circuitBreaker \<Rightarrow> bool" where
  "breaker_ok cb \<longleftrightarrow> (\<forall>p c. circuits cb p = Some c \<longrightarrow> circuit_ok c)"

lemma breaker_ok_new: "breaker_ok (newCircuitBreaker t o')"
  by (simp add: breaker_ok_def newCircuitBreaker_def)

lemma breaker_ok_setCircuit:
  "breaker_ok cb \<Longrightarrow> circuit_ok c \<Longrightarrow> breaker_ok (setCircuit p c cb)"
  by (simp add: breaker_ok_def setCircuit_def)

lemma breaker_okD: "breaker_ok cb \<Longrightarrow> circuits cb p = Some c \<Longrightarrow> circuit_ok c"
  by (simp add: breaker_ok_def)

lemma breakerStep_ok:
  assumes "breaker_ok (snd s)"
  shows "breaker_ok (snd (breakerStep p e now s))"
proof -
  obtain m cb where s: "s = (m, cb)" by (cases s)
  with assms have ok: "breaker_ok cb" by simp
  show ?thesis
  proof (cases "circuits cb p")
    case None
    with ok s show ?thesis
      by (cases e) (auto simp: canAttempt_def recordSuccess_def abandonTrial_def releaseTrial_def
          recordFailure_def Let_def circuit_ok_def freshCircuit_def
          intro!: breaker_ok_setCircuit split: option.split)
  next
    case (Some c)
    from ok Some have "circuit_ok c" by (rule breaker_okD)
    with ok s Some show ?thesis
      by (cases e) (auto simp: canAttempt_def recordSuccess_def abandonTrial_def releaseTrial_def
          recordFailure_def Let_def circuit_ok_def
          intro!: breaker_ok_setCircuit split: option.split)
  qed
qed

fun breakerRun ::
  "(string \<times> breakerEvent \<times> ms) list \<Rightarrow> metrics \<times> circuitBreaker \<Rightarrow> metrics \<times> circuitBreaker" where
  "breakerRun [] s = s"
| "breakerRun ((p, e, now) # es) s = breakerRun es (breakerStep p e now s)"

lemma breakerRun_config [simp]:
  "failureThreshold (snd (breakerRun es s)) = failureThreshold (snd s)"
  "openMs (snd (breakerRun es s)) = openMs (snd s)"
  by (induction es s rule: breakerRun.induct) auto

text \<open>
  In every state a breaker can reach, from its construction and through any sequence of
  calls of its methods for any providers at any times, a trial is only marked in flight on
  a circuit that is not closed, and a circuit that is not closed has counted a failure.
\<close>

theorem breaker_reachable_ok:
  "breaker_ok (snd (breakerRun es (m, newCircuitBreaker threshold openFor)))"
proof -
  have "breaker_ok (snd s) \<Longrightarrow> breaker_ok (snd (breakerRun es s))" for s
    by (induction es s rule: breakerRun.induct) (auto intro: breakerStep_ok)
  then show ?thesis by (simp add: breaker_ok_new)
qed

section \<open>Half-open: one trial\<close>

text \<open>How many calls to \<open>p\<close> a history lets through.\<close>

fun grants ::
  "string \<Rightarrow> (string \<times> breakerEvent \<times> ms) list \<Rightarrow> metrics \<times> circuitBreaker \<Rightarrow> nat" where
  "grants p [] s = 0"
| "grants p ((q, e, now) # es) s =
     (if q = p \<and> e = CanAttempt \<and> fst (canAttempt p now s) then 1 else 0)
     + grants p es (breakerStep q e now s)"

definition noReport :: "string \<Rightarrow> string \<times> breakerEvent \<times> ms \<Rightarrow> bool" where
  "noReport p x = (case x of (q, e, now) \<Rightarrow> q = p \<longrightarrow> e = CanAttempt)"

lemma canAttempt_open:
  assumes "circuits cb p = Some c" and "openUntilMs c = Some u"
  shows "fst (canAttempt p now (m, cb)) \<longleftrightarrow> u \<le> now \<and> \<not> trialInFlight c"
    and "\<exists>c'. circuits (snd (snd (canAttempt p now (m, cb)))) p = Some c' \<and> openUntilMs c' = Some u
           \<and> (trialInFlight c' \<longleftrightarrow> trialInFlight c \<or> u \<le> now)"
  using assms by (auto simp: canAttempt_def setCircuit_def)

lemma grants_open:
  assumes "circuits (snd s) p = Some c" and "openUntilMs c = Some u" and "list_all (noReport p) es"
  shows "grants p es s \<le> (if trialInFlight c then 0 else 1)"
  using assms
proof (induction p es s arbitrary: c rule: grants.induct)
  case (1 p s)
  then show ?case by simp
next
  case (2 p q e now es s)
  obtain m cb where s: "s = (m, cb)" by (cases s)
  show ?case
  proof (cases "q = p")
    case False
    with "2.prems" have "circuits (snd (breakerStep q e now s)) p = Some c"
      by (simp add: breakerStep_other)
    with "2.IH" "2.prems" False show ?thesis by simp
  next
    case True
    with "2.prems" have e: "e = CanAttempt" by (simp add: noReport_def)
    from "2.prems" s have c: "circuits cb p = Some c" by simp
    from canAttempt_open(2) [OF c "2.prems"(2), of now m] obtain c' where
      c': "circuits (snd (breakerStep q e now s)) p = Some c'" "openUntilMs c' = Some u"
        "trialInFlight c' \<longleftrightarrow> trialInFlight c \<or> u \<le> now"
      using True e s by auto
    have "grants p es (breakerStep q e now s) \<le> (if trialInFlight c' then 0 else 1)"
      using "2.prems"(3) by (intro "2.IH" [OF c'(1,2)]) simp
    with c'(3) canAttempt_open(1) [OF c "2.prems"(2), of now m] True e s show ?thesis
      by auto
  qed
qed

text \<open>
  Once a provider's circuit has opened, any number of callers asking at any times, with
  anything happening to other providers in between, get at most one call through until that
  call reports back.
\<close>

theorem half_open_single_trial:
  assumes "circuits (snd s) p = Some c" and "openUntilMs c \<noteq> None" and "list_all (noReport p) es"
  shows "grants p es s \<le> 1"
proof -
  from assms(2) obtain u where "openUntilMs c = Some u" by auto
  from grants_open [OF assms(1) this assms(3)] show ?thesis by (simp split: if_splits)
qed

definition open_example :: "metrics \<times> circuitBreaker" where
  "open_example = (metrics_init, setCircuit ''cmems''
     \<lparr>consecutiveFailures = 5, openUntilMs = Some 100, trialInFlight = False\<rparr>
     (newCircuitBreaker None None))"

theorem half_open_single_trial_witness:
  "grants ''cmems'' [(''cmems'', CanAttempt, 50), (''cmems'', CanAttempt, 100),
     (''ads'', Success, 101), (''cmems'', CanAttempt, 102)] open_example \<le> 1
   \<and> fst (canAttempt ''cmems'' 100 open_example)"
proof -
  have "circuits (snd open_example) ''cmems'' =
      Some \<lparr>consecutiveFailures = 5, openUntilMs = Some 100, trialInFlight = False\<rparr>"
    by (simp add: open_example_def setCircuit_def)
  from half_open_single_trial [OF this, of "[(''cmems'', CanAttempt, 50),
      (''cmems'', CanAttempt, 100), (''ads'', Success, 101), (''cmems'', CanAttempt, 102)]"]
  show ?thesis
    by (simp add: noReport_def open_example_def canAttempt_def setCircuit_def)
qed

section \<open>A 429 stops the calls at once\<close>

definition cooldownMs :: "circuitBreaker \<Rightarrow> int option \<Rightarrow> ms" where
  "cooldownMs cb ra = (case ra of None \<Rightarrow> openMs cb | Some r \<Rightarrow> max (r * 1000) (openMs cb))"

text \<open>
  After a single rate-limit answer the provider is not called again until the longer of
  the configured cooldown and the \<open>Retry-After\<close> it sent has elapsed, whatever that header
  says (a value of 0 included), and at that moment one call is let through.
\<close>

theorem rate_limit_stops_calls:
  "fst (canAttempt p t (recordFailure p K_rate_limited ra now (m, cb)))
   \<longleftrightarrow> now + cooldownMs cb ra \<le> t"
  by (auto simp: canAttempt_def recordFailure_def Let_def setCircuit_def cooldownMs_def
      freshCircuit_def split: option.split)

section \<open>The failure threshold\<close>

definition evidence :: "upstreamOutcomeKind \<Rightarrow> bool" where
  "evidence k \<longleftrightarrow> k \<noteq> K_no_data \<and> k \<noteq> K_budget_exhausted"

fun failRun ::
  "string \<Rightarrow> (upstreamOutcomeKind \<times> int option \<times> ms) list \<Rightarrow> metrics \<times> circuitBreaker
   \<Rightarrow> metrics \<times> circuitBreaker" where
  "failRun p [] s = s"
| "failRun p ((k, ra, now) # fs) s = failRun p fs (recordFailure p k ra now s)"

lemma recordFailure_no_evidence: "\<not> evidence k \<Longrightarrow> recordFailure p k ra now s = s"
  by (cases s) (auto simp: recordFailure_def evidence_def)

definition tripped :: "providerCircuit \<Rightarrow> bool" where
  "tripped c \<longleftrightarrow> openUntilMs c \<noteq> None"

lemma recordFailure_circuit:
  assumes "evidence k" and "c = (case circuits (snd s) p of None \<Rightarrow> freshCircuit | Some c \<Rightarrow> c)"
  shows "\<exists>c'. circuits (snd (recordFailure p k ra now s)) p = Some c'
     \<and> consecutiveFailures c' = Suc (consecutiveFailures c)
     \<and> (tripped c' \<longleftrightarrow> tripped c \<or> k = K_rate_limited
           \<or> failureThreshold (snd s) \<le> Suc (consecutiveFailures c))"
  using assms
  by (cases s) (auto simp: recordFailure_def evidence_def Let_def setCircuit_def tripped_def)

lemma recordFailure_config [simp]:
  "failureThreshold (snd (recordFailure p k r now s)) = failureThreshold (snd s)"
  using breakerStep_config(1) [of p "Failure k r" now s] by simp

lemma failRun_circuit:
  assumes "circuits (snd s) p = Some c"
    and "tripped c \<or> consecutiveFailures c < failureThreshold (snd s)"
  shows "\<exists>c'. circuits (snd (failRun p fs s)) p = Some c'
     \<and> (tripped c' \<longleftrightarrow> tripped c
         \<or> (\<exists>f \<in> set fs. fst f = K_rate_limited)
         \<or> failureThreshold (snd s)
             \<le> consecutiveFailures c + length (filter (\<lambda>f. evidence (fst f)) fs))"
  using assms
proof (induction p fs s arbitrary: c rule: failRun.induct)
  case (1 p s)
  then show ?case by (auto simp: not_less)
next
  case (2 p k ra now fs s)
  show ?case
  proof (cases "evidence k")
    case False
    then have k: "k \<noteq> K_rate_limited" by (auto simp: evidence_def)
    from "2.IH" [of c] "2.prems" False k show ?thesis
      by (simp add: recordFailure_no_evidence)
  next
    case True
    have "c = (case circuits (snd s) p of None \<Rightarrow> freshCircuit | Some c \<Rightarrow> c)"
      using "2.prems"(1) by simp
    from recordFailure_circuit [OF True this, of ra now] obtain c1 where
      c1: "circuits (snd (recordFailure p k ra now s)) p = Some c1"
        "consecutiveFailures c1 = Suc (consecutiveFailures c)"
        "tripped c1 \<longleftrightarrow> tripped c \<or> k = K_rate_limited
           \<or> failureThreshold (snd s) \<le> Suc (consecutiveFailures c)"
      by blast
    have "tripped c1 \<or> consecutiveFailures c1
        < failureThreshold (snd (recordFailure p k ra now s))"
      using c1(2,3) by auto
    from "2.IH" [OF c1(1) this] c1(2,3) True show ?thesis
      by auto
  qed
qed

text \<open>
  Starting from a closed circuit with no counted failure, a run of failures with no
  success in between leaves the circuit closed exactly when none of them is a rate limit
  and fewer than the threshold of them are evidence about the provider; answers that carry
  no evidence (no data at that place, our own budget) are never counted.
\<close>

theorem opens_at_threshold:
  assumes "circuits (snd s) p = None" and "0 < failureThreshold (snd s)"
  shows "(\<exists>t. state p t (snd (failRun p fs s)) \<noteq> Closed) \<longleftrightarrow>
     (\<exists>f \<in> set fs. fst f = K_rate_limited)
     \<or> failureThreshold (snd s) \<le> length (filter (\<lambda>f. evidence (fst f)) fs)"
  using assms
proof (induction p fs s rule: failRun.induct)
  case (1 p s)
  then show ?case by (simp add: state_def)
next
  case (2 p k ra now fs s)
  show ?case
  proof (cases "evidence k")
    case False
    with 2 show ?thesis by (auto simp: recordFailure_no_evidence evidence_def)
  next
    case True
    have "freshCircuit = (case circuits (snd s) p of None \<Rightarrow> freshCircuit | Some c \<Rightarrow> c)"
      using "2.prems"(1) by simp
    from recordFailure_circuit [OF True this, of ra now] obtain c1 where
      c1: "circuits (snd (recordFailure p k ra now s)) p = Some c1" "consecutiveFailures c1 = 1"
        "tripped c1 \<longleftrightarrow> k = K_rate_limited \<or> failureThreshold (snd s) \<le> 1"
      by (auto simp: freshCircuit_def tripped_def)
    have "tripped c1 \<or> consecutiveFailures c1
        < failureThreshold (snd (recordFailure p k ra now s))"
      using c1(2,3) by auto
    from failRun_circuit [OF c1(1) this, of fs] obtain c2 where
      c2: "circuits (snd (failRun p fs (recordFailure p k ra now s))) p = Some c2"
        "tripped c2 \<longleftrightarrow> tripped c1 \<or> (\<exists>f \<in> set fs. fst f = K_rate_limited)
         \<or> failureThreshold (snd s) \<le> 1 + length (filter (\<lambda>f. evidence (fst f)) fs)"
      using c1(2) by auto
    from c2(1) have "(\<exists>t. state p t (snd (failRun p ((k, ra, now) # fs) s)) \<noteq> Closed)
        \<longleftrightarrow> tripped c2"
      by (auto simp: state_def tripped_def split: option.splits)
    with c2(2) c1(3) True show ?thesis by auto
  qed
qed

theorem opens_at_threshold_witness:
  "(\<exists>t. state ''ads'' t (snd (failRun ''ads''
      [(K_transient, None, 1), (K_no_data, None, 2), (K_client_error, None, 3)]
      (metrics_init, newCircuitBreaker (Some 2) None))) \<noteq> Closed)"
proof -
  have "circuits (snd (metrics_init, newCircuitBreaker (Some 2) None)) ''ads'' = None"
    and "0 < failureThreshold (snd (metrics_init, newCircuitBreaker (Some 2) None))"
    by (simp_all add: newCircuitBreaker_def)
  from opens_at_threshold [OF this, of "[(K_transient, None, 1), (K_no_data, None, 2),
      (K_client_error, None, 3)]"]
  show ?thesis by (simp add: evidence_def newCircuitBreaker_def)
qed

end
