(* ===== verification/Window_Limiter.thy ===== *)
theory Window_Limiter
  imports Prelude
begin

text \<open>
  The contract the fixed-window counters of the program share: the provider budget, the
  account rate limits and the game-round submit limit all count into the bucket of the
  clock reading, count before they decide, and let a call through only while the count is
  within a limit. The laws are asked of the calls that are \<open>valid\<close> only, where what a call
  meets outside the program has to keep to something. Its client lemma, proved once, is what those limits are for.
\<close>

text \<open>The units let through among the calls that \<open>P\<close> picks out of a history.\<close>

fun spent ::
  "('c \<Rightarrow> 's \<Rightarrow> bool \<times> 's) \<Rightarrow> ('c \<Rightarrow> nat) \<Rightarrow> ('c \<Rightarrow> bool) \<Rightarrow> 'c list \<Rightarrow> 's \<Rightarrow> nat" where
  "spent step units P [] s = 0"
| "spent step units P (c # cs) s =
     (if P c \<and> fst (step c s) then units c else 0) + spent step units P cs (snd (step c s))"

lemma spent_none: "(\<And>c. c \<in> set cs \<Longrightarrow> \<not> P c) \<Longrightarrow> spent step units P cs s = 0"
  by (induction cs arbitrary: s) auto

locale window_limiter =
  fixes step :: "'c \<Rightarrow> 's \<Rightarrow> bool \<times> 's"
    and time :: "'c \<Rightarrow> int"
    and units :: "'c \<Rightarrow> nat"
    and counted :: "'c \<Rightarrow> bool"
    and bucket :: "int \<Rightarrow> int"
    and used :: "int \<Rightarrow> 's \<Rightarrow> nat"
    and limit :: nat
    and ok :: "'s \<Rightarrow> bool"
    and valid :: "'c \<Rightarrow> bool"
  assumes bucket_mono: "t \<le> t' \<Longrightarrow> bucket t \<le> bucket t'"
    and ok_step: "ok s \<Longrightarrow> valid c \<Longrightarrow> ok (snd (step c s))"
    and used_mono: "ok s \<Longrightarrow> valid c \<Longrightarrow>
      used (bucket (time c)) s \<le> used (bucket (time c)) (snd (step c s))"
    and granted: "ok s \<Longrightarrow> counted c \<Longrightarrow> fst (step c s) \<Longrightarrow> valid c \<Longrightarrow>
      used (bucket (time c)) s + units c \<le> used (bucket (time c)) (snd (step c s))
      \<and> used (bucket (time c)) (snd (step c s)) \<le> limit"
begin

lemma spent_after:
  assumes "ok s" and "sorted (map time cs)" and "\<forall>c \<in> set cs. t0 \<le> time c" and "bucket t0 = b"
    and "\<forall>c \<in> set cs. valid c"
  shows "spent step units (\<lambda>c. counted c \<and> bucket (time c) = b) cs s \<le> limit - used b s"
  using assms
proof (induction cs arbitrary: s t0)
  case Nil
  then show ?case by simp
next
  case (Cons c cs)
  let ?P = "\<lambda>c. counted c \<and> bucket (time c) = b"
  let ?s' = "snd (step c s)"
  have valid: "valid c" "\<forall>c \<in> set cs. valid c" using Cons.prems(5) by simp_all
  have ok': "ok ?s'" using Cons.prems(1) valid(1) by (rule ok_step)
  have srt: "sorted (map time cs)" and later: "\<forall>c' \<in> set cs. time c \<le> time c'"
    using Cons.prems(2) by simp_all
  show ?case
  proof (cases "bucket (time c) = b")
    case True
    have IH: "spent step units ?P cs ?s' \<le> limit - used b ?s'"
      using Cons.IH [OF ok' srt later True valid(2)] .
    have "used b s \<le> used b ?s'" using used_mono [OF Cons.prems(1) valid(1)] True by simp
    with IH granted [OF Cons.prems(1) _ _ valid(1)] True show ?thesis by fastforce
  next
    case False
    have "b \<le> bucket (time c)"
      using Cons.prems(3,4) bucket_mono by fastforce
    with False have "b < bucket (time c)" by simp
    then have "\<not> ?P c'" if "c' \<in> set cs" for c'
      using later that bucket_mono by fastforce
    then show ?thesis using False by (simp add: spent_none)
  qed
qed

text \<open>No bucket ever lets more than its limit through, whatever else happens in between.\<close>

lemma spent_within_limit:
  assumes "ok s" and "sorted (map time cs)" and "\<forall>c \<in> set cs. valid c"
  shows "spent step units (\<lambda>c. counted c \<and> bucket (time c) = b) cs s \<le> limit"
  using assms
proof (induction cs arbitrary: s)
  case Nil
  then show ?case by simp
next
  case (Cons c cs)
  show ?case
  proof (cases "bucket (time c) = b")
    case True
    have "\<forall>c' \<in> set (c # cs). time c \<le> time c'" using Cons.prems(2) by auto
    from spent_after [OF Cons.prems(1) Cons.prems(2) this True Cons.prems(3)] show ?thesis by linarith
  next
    case False
    have "spent step units (\<lambda>c. counted c \<and> bucket (time c) = b) cs (snd (step c s)) \<le> limit"
      using Cons.prems by (intro Cons.IH ok_step) simp_all
    with False show ?thesis by simp
  qed
qed

end

end
