(* ===== verification/Provider_Budget.thy ===== *)
theory Provider_Budget
  imports Upstream_Metrics Window_Limiter
begin

text \<open>
  \<open>src/upstream/provider-budget.ts\<close>: three nested fixed windows per provider, counted in
  this process or through Redis. The Redis client is a parameter: \<open>incrementWithTtl\<close> of
  the port as a function of its arguments and of the server's state, answering \<open>None\<close>
  where the call rejects. A counter key is the triple the code's key string spells out.
\<close>

section \<open>State\<close>

record providerBudgetLimits =
  perMinute :: int
  perHour :: int
  perDay :: int

datatype budgetDecision = Allowed | Refused budgetWindow int

fun WINDOW_SECONDS :: "budgetWindow \<Rightarrow> int" where
  "WINDOW_SECONDS W_minute = 60"
| "WINDOW_SECONDS W_hour = 3600"
| "WINDOW_SECONDS W_day = 86400"

definition EXHAUSTION_LOG_EVERY_MS :: ms where "EXHAUSTION_LOG_EVERY_MS = 60000"
definition DEGRADED_LOG_EVERY_MS :: ms where "DEGRADED_LOG_EVERY_MS = 60000"

type_synonym budgetKey = "string \<times> budgetWindow \<times> int"

record localCounter =
  count :: int
  windowStartMs :: ms
  windowSeconds :: int

type_synonym 'r redisIncrement = "budgetKey \<Rightarrow> int \<Rightarrow> int \<Rightarrow> 'r \<Rightarrow> int option \<times> 'r"

record 'r providerBudget =
  localCounters :: "(budgetKey, localCounter) jsmap"
  redisState :: 'r
  budgetMetrics :: metrics

section \<open>Operations\<close>

definition pruneLocal :: "ms \<Rightarrow> (budgetKey, localCounter) jsmap \<Rightarrow> (budgetKey, localCounter) jsmap" where
  "pruneLocal nowMs ls =
     filter (\<lambda>(k, e). \<not> nowMs - windowStartMs e \<ge> windowSeconds e * 1000) ls"

definition incrementLocal ::
  "budgetKey \<Rightarrow> int \<Rightarrow> int \<Rightarrow> ms \<Rightarrow> (budgetKey, localCounter) jsmap
   \<Rightarrow> int \<times> (budgetKey, localCounter) jsmap" where
  "incrementLocal key seconds units nowMs ls =
     (let fresh = (units, pruneLocal nowMs
            (js_set key \<lparr>count = units, windowStartMs = nowMs, windowSeconds = seconds\<rparr> ls))
      in case js_get ls key of
           None \<Rightarrow> fresh
         | Some entry \<Rightarrow>
             if nowMs - windowStartMs entry \<ge> seconds * 1000 then fresh
             else (count entry + units,
                   js_set key (entry\<lparr>count := count entry + units\<rparr>) ls))"

definition budgetBucket :: "budgetWindow \<Rightarrow> ms \<Rightarrow> int" where
  "budgetBucket w now = now div (WINDOW_SECONDS w * 1000)"

text \<open>The private \<open>increment\<close> of the class: Redis when it is there and answers.\<close>

definition incrementBudget ::
  "'r redisIncrement option \<Rightarrow> string \<Rightarrow> budgetWindow \<Rightarrow> int \<Rightarrow> ms \<Rightarrow> 'r providerBudget
   \<Rightarrow> int \<times> 'r providerBudget" where
  "incrementBudget redis p window units now b =
     (let seconds = WINDOW_SECONDS window;
          key = (p, window, budgetBucket window now);
          fallback = (\<lambda>b. let (n, ls) = incrementLocal key seconds units now (localCounters b)
                          in (n, b\<lparr>localCounters := ls\<rparr>))
      in case redis of
           None \<Rightarrow> fallback b
         | Some incr \<Rightarrow>
             (case incr key seconds units (redisState b) of
                (Some n, r) \<Rightarrow> (n, b\<lparr>redisState := r\<rparr>)
              | (None, r) \<Rightarrow>
                  fallback (b\<lparr>redisState := r,
                    budgetMetrics := snd (throttledEvent L_warn (''budget-degraded:'' @ p)
                      DEGRADED_LOG_EVERY_MS ''budget counter fell back to this instance only'' now
                      (increment M_redis_degraded p (budgetMetrics b)))\<rparr>)))"

fun window_name :: "budgetWindow \<Rightarrow> string" where
  "window_name W_minute = ''minute''"
| "window_name W_hour = ''hour''"
| "window_name W_day = ''day''"

fun checkWindows ::
  "'r redisIncrement option \<Rightarrow> string \<Rightarrow> int \<Rightarrow> ms \<Rightarrow> (budgetWindow \<times> int) list
   \<Rightarrow> 'r providerBudget \<Rightarrow> budgetDecision \<times> 'r providerBudget" where
  "checkWindows redis p units now [] b = (Allowed, b)"
| "checkWindows redis p units now ((window, limit) # checks) b =
     (let (n, b') = incrementBudget redis p window units now b
      in if n > limit
         then (Refused window limit,
               b'\<lparr>budgetMetrics := snd (throttledEvent L_error
                    (''budget:'' @ p @ '':'' @ window_name window) EXHAUSTION_LOG_EVERY_MS
                    ''provider budget exhausted'' now
                    (increment M_budget_rejected p (budgetMetrics b')))\<rparr>)
         else checkWindows redis p units now checks b')"

definition tryConsume ::
  "'r redisIncrement option \<Rightarrow> string \<Rightarrow> providerBudgetLimits \<Rightarrow> rat \<Rightarrow> ms
   \<Rightarrow> 'r providerBudget \<Rightarrow> budgetDecision \<times> 'r providerBudget" where
  "tryConsume redis p limits weight now b =
     (let units = max 1 (js_round weight)
      in checkWindows redis p units now
           [(W_minute, perMinute limits), (W_hour, perHour limits), (W_day, perDay limits)] b)"

section \<open>The in-process counters\<close>

text \<open>
  Well-formed counters: one entry per key, and the entry of bucket \<open>n\<close> of a window was
  started inside that bucket with that window's length and a count that is not negative.
\<close>

definition counter_ok :: "budgetKey \<times> localCounter \<Rightarrow> bool" where
  "counter_ok ke = (case ke of ((p, w, n), e) \<Rightarrow>
     windowSeconds e = WINDOW_SECONDS w \<and> budgetBucket w (windowStartMs e) = n \<and> 0 \<le> count e)"

definition counters_ok :: "(budgetKey, localCounter) jsmap \<Rightarrow> bool" where
  "counters_ok ls \<longleftrightarrow> js_wf ls \<and> list_all counter_ok ls"

definition usedUnits :: "string \<Rightarrow> budgetWindow \<Rightarrow> int \<Rightarrow> (budgetKey, localCounter) jsmap \<Rightarrow> nat" where
  "usedUnits p w n ls = (case js_get ls (p, w, n) of None \<Rightarrow> 0 | Some e \<Rightarrow> nat (count e))"

lemma WINDOW_SECONDS_pos [simp]: "0 < WINDOW_SECONDS w"
  by (cases w) auto

lemma budgetBucket_mono: "t \<le> t' \<Longrightarrow> budgetBucket w t \<le> budgetBucket w t'"
  by (simp add: budgetBucket_def zdiv_mono1)

lemma same_bucket_in_window:
  "budgetBucket w t = budgetBucket w t' \<Longrightarrow> t - t' < WINDOW_SECONDS w * 1000"
proof -
  assume eq: "budgetBucket w t = budgetBucket w t'"
  define k where "k = WINDOW_SECONDS w * 1000"
  have k: "0 < k" by (simp add: k_def)
  have "t = k * (t div k) + t mod k" "t' = k * (t' div k) + t' mod k" by simp_all
  moreover have "t mod k < k" "0 \<le> t' mod k" using k by simp_all
  moreover have "t div k = t' div k" using eq by (simp add: budgetBucket_def k_def)
  ultimately show ?thesis unfolding k_def by (smt (verit))
qed

lemma js_get_mem: "js_get ls k = Some e \<Longrightarrow> (k, e) \<in> set ls"
  by (simp add: js_get_def map_of_SomeD)

lemma list_all_update:
  "list_all P ls \<Longrightarrow> P (k, v) \<Longrightarrow> list_all P (js_set k v ls)"
  unfolding js_set_def by (induction ls) auto

lemma js_get_filter:
  assumes "js_wf ls" and "js_get ls k = Some v" and "P (k, v)"
  shows "js_get (filter P ls) k = Some v"
  using assms js_get_filter_wf [OF assms(1), of P k] by simp

lemma counters_ok_prune: "counters_ok ls \<Longrightarrow> counters_ok (pruneLocal now ls)"
  by (auto simp: counters_ok_def pruneLocal_def js_wf_def distinct_map_filter list_all_iff)

lemma counters_ok_set:
  "counters_ok ls \<Longrightarrow> counter_ok (k, e) \<Longrightarrow> counters_ok (js_set k e ls)"
  by (simp add: counters_ok_def list_all_update)

text \<open>Pruning never touches a counter of the bucket the clock is in.\<close>

lemma usedUnits_prune:
  assumes "counters_ok ls"
  shows "usedUnits p w (budgetBucket w now) (pruneLocal now ls) = usedUnits p w (budgetBucket w now) ls"
proof (cases "js_get ls (p, w, budgetBucket w now)")
  case None
  have "js_wf ls" using assms by (simp add: counters_ok_def)
  from js_get_filter_wf [OF this] None show ?thesis
    by (simp add: usedUnits_def pruneLocal_def)
next
  case (Some e)
  then have "counter_ok ((p, w, budgetBucket w now), e)"
    using assms js_get_mem by (fastforce simp: counters_ok_def list_all_iff)
  then have "\<not> now - windowStartMs e \<ge> windowSeconds e * 1000"
    using same_bucket_in_window [of w now "windowStartMs e"] by (simp add: counter_ok_def)
  with Some assms show ?thesis
    by (simp add: usedUnits_def pruneLocal_def js_get_filter counters_ok_def)
qed

text \<open>
  The expiry branch of \<open>incrementLocal\<close> cannot fire on a well-formed map: a counter is
  only ever read in the bucket it was started in.
\<close>

lemma incrementLocal_used:
  fixes p p' :: string and w w' :: budgetWindow and now :: ms
  assumes ok: "counters_ok ls" and units: "0 \<le> units"
  defines "r \<equiv> incrementLocal (p, w, budgetBucket w now) (WINDOW_SECONDS w) units now ls"
  shows "counters_ok (snd r)"
    and "fst r = int (usedUnits p w (budgetBucket w now) ls) + units"
    and "usedUnits p' w' (budgetBucket w' now) (snd r)
         = usedUnits p' w' (budgetBucket w' now) ls + (if p' = p \<and> w' = w then nat units else 0)"
proof -
  let ?k = "(p, w, budgetBucket w now)"
  have new: "counter_ok (?k, \<lparr>count = units, windowStartMs = now, windowSeconds = WINDOW_SECONDS w\<rparr>)"
    using units by (simp add: counter_ok_def)
  have *: "counters_ok (snd r)
    \<and> fst r = int (usedUnits p w (budgetBucket w now) ls) + units
    \<and> usedUnits p' w' (budgetBucket w' now) (snd r)
         = usedUnits p' w' (budgetBucket w' now) ls + (if p' = p \<and> w' = w then nat units else 0)"
  proof (cases "js_get ls ?k")
    case None
    have "counters_ok (js_set ?k \<lparr>count = units, windowStartMs = now,
        windowSeconds = WINDOW_SECONDS w\<rparr> ls)"
      using ok new by (rule counters_ok_set)
    with None units show ?thesis
      by (auto simp: r_def incrementLocal_def counters_ok_prune usedUnits_prune)
        (auto simp: usedUnits_def)
  next
    case (Some e)
    then have e: "counter_ok (?k, e)"
      using ok js_get_mem by (fastforce simp: counters_ok_def list_all_iff)
    then have live: "\<not> now - windowStartMs e \<ge> WINDOW_SECONDS w * 1000"
      using same_bucket_in_window [of w now "windowStartMs e"] by (simp add: counter_ok_def)
    have "counter_ok (?k, e\<lparr>count := count e + units\<rparr>)"
      using e units by (simp add: counter_ok_def)
    with ok Some live e units show ?thesis
      by (auto simp: r_def incrementLocal_def counters_ok_set usedUnits_def counter_ok_def
          nat_add_distrib)
  qed
  then show "counters_ok (snd r)"
    and "fst r = int (usedUnits p w (budgetBucket w now) ls) + units"
    and "usedUnits p' w' (budgetBucket w' now) (snd r)
         = usedUnits p' w' (budgetBucket w' now) ls + (if p' = p \<and> w' = w then nat units else 0)"
    by blast+
qed

section \<open>All three windows hold at once\<close>

definition usedNow :: "string \<Rightarrow> budgetWindow \<Rightarrow> ms \<Rightarrow> 'r providerBudget \<Rightarrow> nat" where
  "usedNow p w now b = usedUnits p w (budgetBucket w now) (localCounters b)"

lemma incrementBudget_local:
  assumes "counters_ok (localCounters b)" and "0 \<le> units"
    and "incrementBudget None p w units now b = (n, b')"
  shows "counters_ok (localCounters b')"
    and "n = int (usedNow p w now b) + units"
    and "usedNow q v now b' = usedNow q v now b + (if q = p \<and> v = w then nat units else 0)"
proof -
  obtain n' ls where inc: "incrementLocal (p, w, budgetBucket w now) (WINDOW_SECONDS w) units now
      (localCounters b) = (n', ls)"
    by fastforce
  with assms(3) have n: "n = n'" and b': "b' = b\<lparr>localCounters := ls\<rparr>"
    by (simp_all add: incrementBudget_def Let_def)
  note used = incrementLocal_used [OF assms(1,2), where p = p and w = w and now = now, unfolded inc]
  show "counters_ok (localCounters b')" using used(1) b' by simp
  show "n = int (usedNow p w now b) + units" using used(2) n by (simp add: usedNow_def)
  show "usedNow q v now b' = usedNow q v now b + (if q = p \<and> v = w then nat units else 0)"
    using used(3) [where p' = q and w' = v] b' by (simp add: usedNow_def)
qed

text \<open>
  What a Redis that counts is: \<open>held\<close> is what a state of the server holds under a key. An answered
  increment answers at least what the key held and the units, and the key then holds no less than
  the answer; a rejected one may or may not have counted; neither lowers a counter of a bucket the
  clock is in. Other instances may count in between. A key is given the length of its window to
  live when it is first counted, and its name is the bucket, so it never runs out while its bucket
  lasts; the counters of other buckets may go at any time.
\<close>

definition redisCounts :: "('r \<Rightarrow> budgetKey \<Rightarrow> nat) \<Rightarrow> ms \<Rightarrow> 'r redisIncrement \<Rightarrow> bool" where
  "redisCounts held now incr \<longleftrightarrow>
     (\<forall>k s u r n r'. incr k s u r = (n, r') \<longrightarrow>
        (\<forall>q v. held r (q, v, budgetBucket v now) \<le> held r' (q, v, budgetBucket v now))
        \<and> (\<forall>m p w. n = Some m \<and> k = (p, w, budgetBucket w now) \<and> 0 \<le> u \<longrightarrow>
             int (held r k) + u \<le> m \<and> m \<le> int (held r' k)))"

definition neverFails :: "'r redisIncrement option \<Rightarrow> bool" where
  "neverFails redis \<longleftrightarrow> (\<exists>incr. redis = Some incr \<and> (\<forall>k s u r. \<exists>n. fst (incr k s u r) = Some n))"

abbreviation heldNow :: "('r \<Rightarrow> budgetKey \<Rightarrow> nat) \<Rightarrow> string \<Rightarrow> budgetWindow \<Rightarrow> ms \<Rightarrow> 'r providerBudget \<Rightarrow> nat" where
  "heldNow held p w now b \<equiv> held (redisState b) (p, w, budgetBucket w now)"

text \<open>
  One increment: no counter of a current bucket is lowered, and the units are counted either in
  this process or on the server, with the count the verdict is taken on.
\<close>

lemma incrementBudget_counts:
  fixes b :: "'r providerBudget"
  assumes ok: "counters_ok (localCounters b)" "0 \<le> units"
    and redis: "\<And>incr. redis = Some incr \<Longrightarrow> redisCounts held now incr"
    and run: "incrementBudget redis p w units now b = (n, b')"
  shows "counters_ok (localCounters b')
    \<and> usedNow q v now b \<le> usedNow q v now b' \<and> heldNow held q v now b \<le> heldNow held q v now b'
    \<and> (\<not> neverFails redis
          \<and> int (usedNow p w now b) + units = n \<and> n = int (usedNow p w now b')
       \<or> redis \<noteq> None \<and> int (heldNow held p w now b) + units \<le> n \<and> n \<le> int (heldNow held p w now b'))"
proof -
  have fallback: "counters_ok (localCounters b2) \<and> usedNow q v now b1 \<le> usedNow q v now b2
      \<and> redisState b2 = redisState b1 \<and> int (usedNow p w now b1) + units = n \<and> n = int (usedNow p w now b2)"
    if "localCounters b1 = localCounters b"
      "incrementLocal (p, w, budgetBucket w now) (WINDOW_SECONDS w) units now (localCounters b1) = (n, ls)"
      "b2 = b1\<lparr>localCounters := ls\<rparr>" for b1 b2 ls
    using incrementLocal_used(1,2) [where p = p and w = w and now = now and ls = "localCounters b", OF ok]
      incrementLocal_used(3) [where p = p and w = w and now = now and ls = "localCounters b" and p' = q and w' = v, OF ok]
      incrementLocal_used(3) [where p = p and w = w and now = now and ls = "localCounters b" and p' = p and w' = w, OF ok]
      that ok(2) by (simp add: usedNow_def)
  show ?thesis
  proof (cases redis)
    case None
    obtain ls where inc: "incrementLocal (p, w, budgetBucket w now) (WINDOW_SECONDS w) units now (localCounters b) = (n, ls)"
      and b': "b' = b\<lparr>localCounters := ls\<rparr>"
      using run None by (auto simp: incrementBudget_def Let_def split: prod.splits)
    from fallback [OF refl inc b'] None show ?thesis by (simp add: neverFails_def)
  next
    case (Some incr)
    obtain m r where m: "incr (p, w, budgetBucket w now) (WINDOW_SECONDS w) units (redisState b) = (m, r)" by fastforce
    have counts: "\<And>q v. held (redisState b) (q, v, budgetBucket v now) \<le> held r (q, v, budgetBucket v now)"
      "\<And>x. m = Some x \<Longrightarrow> int (heldNow held p w now b) + units \<le> x \<and> x \<le> int (held r (p, w, budgetBucket w now))"
      using redis [OF Some] m ok(2) unfolding redisCounts_def by blast+
    show ?thesis
    proof (cases m)
      case None
      then have fails: "\<not> neverFails redis" using m Some unfolding neverFails_def by (metis fst_conv option.distinct(1) option.inject)
      define b1 where "b1 = b\<lparr>redisState := r, budgetMetrics := snd (throttledEvent L_warn (''budget-degraded:'' @ p)
          DEGRADED_LOG_EVERY_MS ''budget counter fell back to this instance only'' now
          (increment M_redis_degraded p (budgetMetrics b)))\<rparr>"
      obtain x ls where inc: "incrementLocal (p, w, budgetBucket w now) (WINDOW_SECONDS w) units now (localCounters b1) = (x, ls)"
        by fastforce
      have "x = n" and b': "b' = b1\<lparr>localCounters := ls\<rparr>"
        using run Some m None inc by (simp_all add: incrementBudget_def Let_def b1_def)
      note inc = inc [unfolded \<open>x = n\<close>]
      have b1: "localCounters b1 = localCounters b" "redisState b1 = r" by (simp_all add: b1_def)
      have "usedNow q' v' now b1 = usedNow q' v' now b" for q' v' using b1(1) by (simp add: usedNow_def)
      then show ?thesis using fails b1(2) fallback [OF b1(1) inc b'] counts(1) Some by simp
    next
      case (Some x)
      with run m \<open>redis = Some incr\<close> have "n = x" "b' = b\<lparr>redisState := r\<rparr>" by (simp_all add: incrementBudget_def Let_def)
      with counts(1) counts(2) [OF Some] ok(1) \<open>redis = Some incr\<close> show ?thesis by (simp add: usedNow_def)
    qed
  qed
qed

text \<open>
  The loop over the windows: it never lowers a counter of a current bucket, and where it ends in
  \<open>Allowed\<close> every window it checked has counted the units, here or on the server, within its limit.
\<close>

lemma checkWindows_counts:
  assumes "counters_ok (localCounters b)" and "0 \<le> units"
    and redis: "\<And>incr. redis = Some incr \<Longrightarrow> redisCounts held now incr"
    and "checkWindows redis p units now checks b = (dec, b')"
  shows "counters_ok (localCounters b')
    \<and> usedNow q v now b \<le> usedNow q v now b' \<and> heldNow held q v now b \<le> heldNow held q v now b'
    \<and> (dec = Allowed \<longrightarrow> (v, l) \<in> set checks \<longrightarrow>
        \<not> neverFails redis
          \<and> int (usedNow p v now b) + units \<le> min l (int (usedNow p v now b'))
        \<or> redis \<noteq> None \<and> int (heldNow held p v now b) + units \<le> min l (int (heldNow held p v now b')))"
  using assms(1,4)
proof (induction checks arbitrary: b q v l)
  case Nil
  then show ?case by simp
next
  case (Cons check checks)
  obtain w lim where check: "check = (w, lim)" by (cases check)
  obtain n b1 where inc: "incrementBudget redis p w units now b = (n, b1)" by fastforce
  note one = incrementBudget_counts [OF Cons.prems(1) assms(2) redis inc]
  show ?case
  proof (cases "n > lim")
    case True
    with Cons.prems(2) have "dec \<noteq> Allowed" "localCounters b' = localCounters b1" "redisState b' = redisState b1"
      by (auto simp: check inc)
    with one [of q v] show ?thesis by (simp add: usedNow_def)
  next
    case False
    then have rest: "checkWindows redis p units now checks b1 = (dec, b')" using Cons.prems(2) by (simp add: check inc)
    have ok1: "counters_ok (localCounters b1)" using one by blast
    note IH = Cons.IH [OF ok1 rest]
    have mono: "usedNow p v now b \<le> usedNow p v now b1" "heldNow held p v now b \<le> heldNow held p v now b1"
      using one [of p v] by simp_all
    have "usedNow p w now b1 \<le> usedNow p w now b'" "heldNow held p w now b1 \<le> heldNow held p w now b'"
      using IH [of p w] by simp_all
    then have "(v, l) = (w, lim) \<Longrightarrow>
        \<not> neverFails redis \<and> int (usedNow p v now b) + units \<le> min l (int (usedNow p v now b'))
      \<or> redis \<noteq> None \<and> int (heldNow held p v now b) + units \<le> min l (int (heldNow held p v now b'))"
      using one [of p w] False by auto
    moreover have "dec = Allowed \<Longrightarrow> (v, l) \<in> set checks \<Longrightarrow>
        \<not> neverFails redis \<and> int (usedNow p v now b) + units \<le> min l (int (usedNow p v now b'))
      \<or> redis \<noteq> None \<and> int (heldNow held p v now b) + units \<le> min l (int (heldNow held p v now b'))"
      using IH [of q v l] mono by auto
    moreover have "usedNow q v now b \<le> usedNow q v now b'" "heldNow held q v now b \<le> heldNow held q v now b'"
      "counters_ok (localCounters b')" using one [of q v] IH [of q v l] by simp_all
    ultimately show ?thesis by (auto simp: check)
  qed
qed

text \<open>
  A call on the budget: who asks, with which limits and weight, when, and the shared counters as
  they are then, \<open>None\<close> where the process was started without them.
\<close>

record 'r budgetCall =
  bc_provider :: string
  bc_limits :: providerBudgetLimits
  bc_weight :: rat
  bc_now :: ms
  bc_redis :: "'r redisIncrement option"

definition budgetStep :: "'r budgetCall \<Rightarrow> 'r providerBudget \<Rightarrow> bool \<times> 'r providerBudget" where
  "budgetStep c b =
     (let (dec, b') = tryConsume (bc_redis c) (bc_provider c) (bc_limits c) (bc_weight c) (bc_now c) b
      in (dec = Allowed, b'))"

definition bc_units :: "'r budgetCall \<Rightarrow> nat" where
  "bc_units c = nat (max 1 (js_round (bc_weight c)))"

fun window_limit :: "budgetWindow \<Rightarrow> providerBudgetLimits \<Rightarrow> int" where
  "window_limit W_minute ls = perMinute ls"
| "window_limit W_hour ls = perHour ls"
| "window_limit W_day ls = perDay ls"

definition callCounts :: "('r \<Rightarrow> budgetKey \<Rightarrow> nat) \<Rightarrow> 'r budgetCall \<Rightarrow> bool" where
  "callCounts held c \<longleftrightarrow> (case bc_redis c of None \<Rightarrow> True | Some incr \<Rightarrow> redisCounts held (bc_now c) incr)"

lemma budgetStep_facts:
  assumes "counters_ok (localCounters b)" and "callCounts held c"
  shows "counters_ok (localCounters (snd (budgetStep c b)))"
    and "usedNow q w (bc_now c) b \<le> usedNow q w (bc_now c) (snd (budgetStep c b))"
    and "heldNow held q w (bc_now c) b \<le> heldNow held q w (bc_now c) (snd (budgetStep c b))"
    and "fst (budgetStep c b) \<Longrightarrow>
        \<not> neverFails (bc_redis c)
          \<and> usedNow (bc_provider c) w (bc_now c) b + bc_units c
            \<le> min (nat (window_limit w (bc_limits c))) (usedNow (bc_provider c) w (bc_now c) (snd (budgetStep c b)))
      \<or> bc_redis c \<noteq> None
          \<and> heldNow held (bc_provider c) w (bc_now c) b + bc_units c
            \<le> min (nat (window_limit w (bc_limits c))) (heldNow held (bc_provider c) w (bc_now c) (snd (budgetStep c b)))"
proof -
  let ?checks = "[(W_minute, perMinute (bc_limits c)), (W_hour, perHour (bc_limits c)),
    (W_day, perDay (bc_limits c))]"
  obtain dec b' where run: "checkWindows (bc_redis c) (bc_provider c) (max 1 (js_round (bc_weight c)))
      (bc_now c) ?checks b = (dec, b')"
    by fastforce
  then have step: "budgetStep c b = (dec = Allowed, b')"
    by (simp add: budgetStep_def tryConsume_def Let_def)
  have mem: "(w, window_limit w (bc_limits c)) \<in> set ?checks" by (cases w) auto
  have units: "0 \<le> max 1 (js_round (bc_weight c))" by simp
  have redis: "redisCounts held (bc_now c) incr" if "bc_redis c = Some incr" for incr
    using assms(2) that by (simp add: callCounts_def)
  note facts = checkWindows_counts [OF assms(1) units redis run]
  show "counters_ok (localCounters (snd (budgetStep c b)))"
    "usedNow q w (bc_now c) b \<le> usedNow q w (bc_now c) (snd (budgetStep c b))"
    "heldNow held q w (bc_now c) b \<le> heldNow held q w (bc_now c) (snd (budgetStep c b))"
    using facts [of q w] step by simp_all
  have u: "max 1 (js_round (bc_weight c)) = int (bc_units c)" by (simp add: bc_units_def)
  show "\<not> neverFails (bc_redis c)
          \<and> usedNow (bc_provider c) w (bc_now c) b + bc_units c
            \<le> min (nat (window_limit w (bc_limits c))) (usedNow (bc_provider c) w (bc_now c) (snd (budgetStep c b)))
      \<or> bc_redis c \<noteq> None
          \<and> heldNow held (bc_provider c) w (bc_now c) b + bc_units c
            \<le> min (nat (window_limit w (bc_limits c))) (heldNow held (bc_provider c) w (bc_now c) (snd (budgetStep c b)))"
    if "fst (budgetStep c b)"
    using facts [of q w "window_limit w (bc_limits c)"] mem that step unfolding u by auto
qed

text \<open>
  The contract three times: the counters of this process alone, those of a server that always
  answers, and both together, each up to the limit.
\<close>

interpretation localBudget: window_limiter budgetStep bc_now bc_units
    "\<lambda>c. bc_provider c = p \<and> bc_limits c = limits" "budgetBucket w"
    "\<lambda>n b. min (nat (window_limit w limits)) (usedUnits p w n (localCounters b))" "nat (window_limit w limits)"
    "\<lambda>b. counters_ok (localCounters b)" "\<lambda>c. bc_redis c = None"
  for p limits w
proof (unfold_locales, goal_cases)
  case (1 t t')
  then show ?case by (rule budgetBucket_mono)
next
  case (2 b c)
  then show ?case by (intro budgetStep_facts(1)) (simp_all add: callCounts_def)
next
  case (3 b c)
  then show ?case using budgetStep_facts(2) [OF 3(1), of "\<lambda>_ _. 0" c p w]
    by (simp add: usedNow_def callCounts_def min_le_iff_disj)
next
  case (4 b c)
  then show ?case using budgetStep_facts(4) [OF 4(1), of "\<lambda>_ _. 0" c w] by (simp add: usedNow_def callCounts_def)
qed

interpretation sharedBudget: window_limiter budgetStep bc_now bc_units
    "\<lambda>c. bc_provider c = p \<and> bc_limits c = limits" "budgetBucket w"
    "\<lambda>n b. min (nat (window_limit w limits)) (held (redisState b) (p, w, n))" "nat (window_limit w limits)"
    "\<lambda>b. counters_ok (localCounters b)" "\<lambda>c. callCounts held c \<and> neverFails (bc_redis c)"
  for p limits w held
proof (unfold_locales, goal_cases)
  case (1 t t')
  then show ?case by (rule budgetBucket_mono)
next
  case (2 b c)
  then show ?case by (intro budgetStep_facts(1) [where held = held]) simp_all
next
  case (3 b c)
  then show ?case using budgetStep_facts(3) [OF 3(1), of held c p w] by (simp add: min_le_iff_disj)
next
  case (4 b c)
  then show ?case using budgetStep_facts(4) [OF 4(1), of held c w] by simp
qed

interpretation mixedBudget: window_limiter budgetStep bc_now bc_units
    "\<lambda>c. bc_provider c = p \<and> bc_limits c = limits" "budgetBucket w"
    "\<lambda>n b. min (nat (window_limit w limits)) (usedUnits p w n (localCounters b))
         + min (nat (window_limit w limits)) (held (redisState b) (p, w, n))" "2 * nat (window_limit w limits)"
    "\<lambda>b. counters_ok (localCounters b)" "callCounts held"
  for p limits w held
proof (unfold_locales, goal_cases)
  case (1 t t')
  then show ?case by (rule budgetBucket_mono)
next
  case (2 b c)
  then show ?case by (rule budgetStep_facts(1))
next
  case (3 b c)
  then show ?case using budgetStep_facts(2,3) [OF 3, of p w] by (simp add: usedNow_def add_mono min_le_iff_disj)
next
  case (4 b c)
  then show ?case
    using budgetStep_facts(2,3) [OF 4(1) 4(4), of p w] budgetStep_facts(4) [OF 4(1) 4(4,3), of w]
    by (auto simp: usedNow_def)
qed

text \<open>
  C10: Whatever calls are made, with clocks that do not run backwards, the units a provider is
  granted inside any one minute, hour or day of the clock never exceed that window's limit, with
  calls for other providers in between and the pruning of old counters included: in a process that
  counts for itself, and in processes that share the counters of a server that always answers. A
  server that fails at times can cost at most the limit once more, because the calls it does not
  answer are counted by this process on its own.
\<close>

theorem budget_never_overspent:
  fixes held :: "'r \<Rightarrow> budgetKey \<Rightarrow> nat"
  assumes "sorted (map bc_now calls)" and "\<forall>c \<in> set calls. callCounts held c"
  shows "let granted = int (spent budgetStep bc_units
          (\<lambda>c. (bc_provider c = p \<and> bc_limits c = limits) \<and> budgetBucket w (bc_now c) = n) calls
          \<lparr>localCounters = [], redisState = r, budgetMetrics = m\<rparr>)
    in granted \<le> 2 * max 0 (window_limit w limits)
       \<and> ((\<forall>c \<in> set calls. bc_redis c = None) \<or> (\<forall>c \<in> set calls. neverFails (bc_redis c))
          \<longrightarrow> granted \<le> max 0 (window_limit w limits))"
proof -
  let ?b0 = "\<lparr>localCounters = [], redisState = r, budgetMetrics = m\<rparr>"
  have ok: "counters_ok (localCounters ?b0)" by (simp add: counters_ok_def)
  show ?thesis
    using mixedBudget.spent_within_limit [OF ok assms, of p limits w n]
      localBudget.spent_within_limit [OF ok assms(1), of p limits w n]
      sharedBudget.spent_within_limit [OF ok assms(1), of held p limits w n] assms(2)
    unfolding Let_def by auto
qed

text \<open>A server that counts and never lets a key go, down at every second call.\<close>

definition exampleIncr :: "bool \<Rightarrow> (budgetKey \<Rightarrow> nat) redisIncrement" where
  "exampleIncr up k s u r =
     (if up then (let r' = r(k := r k + nat u) in (Some (int (r' k)), r')) else (None, r))"

lemma exampleIncr_counts: "redisCounts (\<lambda>r. r) now (exampleIncr up)"
  by (auto simp: redisCounts_def exampleIncr_def Let_def split: if_splits)

definition exampleCalls :: "(budgetKey \<Rightarrow> nat) budgetCall list" where
  "exampleCalls = map (\<lambda>(t, up). \<lparr>bc_provider = ''ads'', bc_limits = \<lparr>perMinute = 1, perHour = 9, perDay = 9\<rparr>,
     bc_weight = 1, bc_now = t, bc_redis = Some (exampleIncr up)\<rparr>) [(10, True), (20, False), (30, True), (40, False)]"

theorem budget_never_overspent_witness:
  "int (spent budgetStep bc_units
      (\<lambda>c. (bc_provider c = ''ads'' \<and> bc_limits c = \<lparr>perMinute = 1, perHour = 9, perDay = 9\<rparr>)
          \<and> budgetBucket W_minute (bc_now c) = 0) exampleCalls
      \<lparr>localCounters = [], redisState = (\<lambda>k. 0), budgetMetrics = metrics_init\<rparr>) \<le> 2
   \<and> map (\<lambda>c. neverFails (bc_redis c)) exampleCalls = [True, False, True, False]"
proof -
  have "sorted (map bc_now exampleCalls)" by (simp add: exampleCalls_def)
  moreover have "\<forall>c \<in> set exampleCalls. callCounts (\<lambda>r. r) c"
    by (simp add: exampleCalls_def callCounts_def exampleIncr_counts)
  moreover have "neverFails (Some (exampleIncr up)) = up" for up
    by (simp add: neverFails_def exampleIncr_def Let_def)
  ultimately show ?thesis
    using budget_never_overspent [where calls = exampleCalls and held = "\<lambda>r. r" and p = "''ads''"
        and limits = "\<lparr>perMinute = 1, perHour = 9, perDay = 9\<rparr>" and w = W_minute and n = 0
        and r = "\<lambda>k. 0" and m = metrics_init]
    by (simp add: Let_def) (simp add: exampleCalls_def)
qed

section \<open>A refusal burns no later window\<close>

text \<open>
  The windows are checked from the shortest to the longest and the first refusal stops
  the check: a call the minute refuses leaves the hour and the day as they were, a call the
  hour refuses leaves the day, and the window that refuses keeps the units it counted.
\<close>

theorem refusal_spares_later_windows:
  assumes "counters_ok (localCounters b)"
    and "tryConsume None p limits weight now b = (Refused w bound, b')"
  shows "bound = window_limit w limits
    \<and> usedNow p w now b' = usedNow p w now b + nat (max 1 (js_round weight))
    \<and> (\<forall>v. WINDOW_SECONDS w < WINDOW_SECONDS v \<longrightarrow> usedNow p v now b' = usedNow p v now b)"
proof -
  let ?u = "max 1 (js_round weight)"
  have u: "0 \<le> ?u" by simp
  obtain n1 b1 where 1: "incrementBudget None p W_minute ?u now b = (n1, b1)" by fastforce
  note s1 = incrementBudget_local [OF assms(1) u 1]
  obtain n2 b2 where 2: "incrementBudget None p W_hour ?u now b1 = (n2, b2)" by fastforce
  note s2 = incrementBudget_local [OF s1(1) u 2]
  obtain n3 b3 where 3: "incrementBudget None p W_day ?u now b2 = (n3, b3)" by fastforce
  note s3 = incrementBudget_local [OF s2(1) u 3]
  have frame: "usedNow q v now (b\<lparr>budgetMetrics := m\<rparr>) = usedNow q v now b"
    for q v m and b :: "'a providerBudget"
    by (simp add: usedNow_def)
  have "w = W_minute \<or> w = W_hour \<or> w = W_day" by (cases w) auto
  with assms(2) s1(3) s2(3) s3(3) show ?thesis
    by (auto simp: tryConsume_def Let_def 1 2 3 frame split: if_splits)
qed

theorem refusal_spares_later_windows_witness:
  "\<exists>b'. tryConsume None ''ads'' \<lparr>perMinute = 0, perHour = 9, perDay = 9\<rparr> 1 10
        \<lparr>localCounters = [], redisState = (), budgetMetrics = metrics_init\<rparr> = (Refused W_minute 0, b')
     \<and> usedNow ''ads'' W_hour 10 b' = 0"
proof -
  let ?b = "\<lparr>localCounters = [], redisState = (), budgetMetrics = metrics_init\<rparr>"
  let ?l = "\<lparr>perMinute = 0, perHour = 9, perDay = 9\<rparr> :: providerBudgetLimits"
  have one: "js_round 1 = 1" using js_round_of_int [of 1] by simp
  have ok: "counters_ok (localCounters ?b)" by (simp add: counters_ok_def)
  obtain b' where run: "tryConsume None ''ads'' ?l 1 10 ?b = (Refused W_minute 0, b')"
    by (simp add: tryConsume_def incrementBudget_def incrementLocal_def Let_def one)
  from refusal_spares_later_windows [OF ok run] have "usedNow ''ads'' W_hour 10 b' = 0"
    by (simp add: usedNow_def usedUnits_def)
  with run show ?thesis by blast
qed

end
