(* ===== verification/Upstream_Http_Helpers.thy ===== *)
theory Upstream_Http_Helpers
  imports Upstream_Metrics
begin

text \<open>
  \<open>src/upstream/upstream-http.helpers.ts\<close>: the pure decisions of the HTTP client, and the
  capped read of a response body. A body stream is the list of what its reader yields; the
  platform's number and date parsing of a header are parameters.
\<close>

section \<open>Status classes and Retry-After\<close>

definition UPSTREAM_MAX_RESPONSE_BYTES :: nat where
  "UPSTREAM_MAX_RESPONSE_BYTES = 2 * 1024 * 1024"

definition classifyHttpStatus :: "nat \<Rightarrow> upstreamOutcomeKind" where
  "classifyHttpStatus status =
     (if status \<ge> 200 \<and> status < 300 then K_ok
      else if status = 429 then K_rate_limited
      else if status \<ge> 500 then K_transient
      else if status \<ge> 400 then K_client_error
      else K_transient)"

definition MAX_RETRY_AFTER_SECONDS :: int where "MAX_RETRY_AFTER_SECONDS = 86400"

definition clampRetryAfter :: "rat \<Rightarrow> int" where
  "clampRetryAfter seconds =
     (if seconds < 0 then 0 else min (js_round seconds) MAX_RETRY_AFTER_SECONDS)"

definition js_whitespace :: "char \<Rightarrow> bool" where
  "js_whitespace c \<longleftrightarrow> c \<in> {CHR '' '', CHR 0x09, CHR 0x0A, CHR 0x0B, CHR 0x0C, CHR 0x0D, CHR 0xA0}"

definition js_trim :: "string \<Rightarrow> string" where
  "js_trim s = rev (dropWhile js_whitespace (rev (dropWhile js_whitespace s)))"

definition parseRetryAfterSeconds ::
  "(string \<Rightarrow> rat option) \<Rightarrow> (string \<Rightarrow> ms option) \<Rightarrow> string option \<Rightarrow> ms \<Rightarrow> int option" where
  "parseRetryAfterSeconds finiteNumber dateParse header nowMs =
     (case header of
        None \<Rightarrow> None
      | Some h \<Rightarrow>
         (let trimmed = js_trim h
          in if trimmed = [] then None
             else (case finiteNumber trimmed of
                     Some asSeconds \<Rightarrow> Some (clampRetryAfter asSeconds)
                   | None \<Rightarrow>
                      (case dateParse trimmed of
                         None \<Rightarrow> None
                       | Some asDate \<Rightarrow>
                           Some (clampRetryAfter (of_int \<lceil>of_int (asDate - nowMs) / (1000 :: rat)\<rceil>))))))"

lemma clampRetryAfter_range: "0 \<le> clampRetryAfter s \<and> clampRetryAfter s \<le> MAX_RETRY_AFTER_SECONDS"
proof (cases "s < 0")
  case False
  then have "js_round 0 \<le> js_round s" by (intro js_round_mono) simp
  then show ?thesis using js_round_of_int [of 0]
    by (simp add: clampRetryAfter_def MAX_RETRY_AFTER_SECONDS_def False)
qed (simp add: clampRetryAfter_def MAX_RETRY_AFTER_SECONDS_def)

lemma parseRetryAfterSeconds_range:
  "parseRetryAfterSeconds num date h now = Some r \<Longrightarrow> 0 \<le> r \<and> r \<le> MAX_RETRY_AFTER_SECONDS"
  using clampRetryAfter_range
  by (auto simp: parseRetryAfterSeconds_def Let_def split: option.splits if_splits)

section \<open>Content types\<close>

definition ascii_lower :: "char \<Rightarrow> char" where
  "ascii_lower c = (if 65 \<le> (of_char c :: nat) \<and> (of_char c :: nat) \<le> 90
                    then char_of ((of_char c :: nat) + 32) else c)"

definition js_lower :: "string \<Rightarrow> string" where
  "js_lower = map ascii_lower"

fun js_includes :: "string \<Rightarrow> string \<Rightarrow> bool" where
  "js_includes [] needle = (needle = [])"
| "js_includes (c # cs) needle = (take (length needle) (c # cs) = needle \<or> js_includes cs needle)"

definition hasExpectedContentType :: "string option \<Rightarrow> string list \<Rightarrow> bool" where
  "hasExpectedContentType header expected =
     (let actual = js_lower (case header of None \<Rightarrow> [] | Some h \<Rightarrow> h)
      in list_ex (\<lambda>candidate. js_includes actual (js_lower candidate)) expected)"

lemma js_includes_iff: "js_includes hay needle \<longleftrightarrow> (\<exists>a b. hay = a @ needle @ b)"
proof (induction hay)
  case Nil
  then show ?case by auto
next
  case (Cons c cs)
  show ?case
  proof
    assume "js_includes (c # cs) needle"
    then consider "take (length needle) (c # cs) = needle" | "js_includes cs needle" by auto
    then show "\<exists>a b. c # cs = a @ needle @ b"
    proof cases
      case 1
      then have "c # cs = [] @ needle @ drop (length needle) (c # cs)"
        by (metis append_Nil append_take_drop_id)
      then show ?thesis by blast
    next
      case 2
      with Cons.IH obtain a b where "cs = a @ needle @ b" by blast
      then have "c # cs = (c # a) @ needle @ b" by simp
      then show ?thesis by blast
    qed
  next
    assume "\<exists>a b. c # cs = a @ needle @ b"
    then obtain a b where ab: "c # cs = a @ needle @ b" by blast
    show "js_includes (c # cs) needle"
    proof (cases a)
      case Nil
      with ab have "take (length needle) (c # cs) = needle" by simp
      then show ?thesis by simp
    next
      case (Cons d ds)
      with ab have "cs = ds @ needle @ b" by simp
      with Cons.IH show ?thesis by auto
    qed
  qed
qed

section \<open>Reading a body under a cap\<close>

datatype bodyEvent = Chunk "byte list" | ReadFailure

datatype bodyError = OversizedResponse | ReadRejected

record httpResponse =
  status :: nat
  contentTypeHeader :: "string option"
  retryAfterHeader :: "string option"
  contentLengthNumber :: "rat option"
  bodyStream :: "bodyEvent list option"
  arrayBuffer :: "byte list"

text \<open>The reader loop: chunks so far, latest first, and their length so far.\<close>

fun readBodyLoop :: "nat \<Rightarrow> nat \<Rightarrow> byte list list \<Rightarrow> bodyEvent list \<Rightarrow> bodyError + byte list" where
  "readBodyLoop maxBytes sofar chunks [] = Inr (concat (rev chunks))"
| "readBodyLoop maxBytes sofar chunks (ReadFailure # es) = Inl ReadRejected"
| "readBodyLoop maxBytes sofar chunks (Chunk value # es) =
     (if sofar + length value > maxBytes then Inl OversizedResponse
      else readBodyLoop maxBytes (sofar + length value) (value # chunks) es)"

definition readBodyCappedBytes :: "httpResponse \<Rightarrow> nat \<Rightarrow> bodyError + byte list" where
  "readBodyCappedBytes response maxBytes =
     (if (case contentLengthNumber response of
            None \<Rightarrow> False | Some declared \<Rightarrow> declared > of_nat maxBytes)
      then Inl OversizedResponse
      else (case bodyStream response of
              None \<Rightarrow>
                (if length (arrayBuffer response) > maxBytes then Inl OversizedResponse
                 else Inr (arrayBuffer response))
            | Some events \<Rightarrow> readBodyLoop maxBytes 0 [] events))"

text \<open>What the whole body is, where the reader never fails.\<close>

fun streamBytes :: "bodyEvent list \<Rightarrow> byte list option" where
  "streamBytes [] = Some []"
| "streamBytes (ReadFailure # es) = None"
| "streamBytes (Chunk v # es) = map_option (append v) (streamBytes es)"

definition bodyBytes :: "httpResponse \<Rightarrow> byte list option" where
  "bodyBytes r = (case bodyStream r of None \<Rightarrow> Some (arrayBuffer r) | Some es \<Rightarrow> streamBytes es)"

lemma readBodyLoop_Inr:
  assumes "sofar = length (concat (rev chunks))" and "sofar \<le> maxBytes"
  shows "readBodyLoop maxBytes sofar chunks es = Inr bs \<longleftrightarrow>
    (\<exists>rest. streamBytes es = Some rest \<and> bs = concat (rev chunks) @ rest \<and> length bs \<le> maxBytes)"
  using assms
proof (induction maxBytes sofar chunks es rule: readBodyLoop.induct)
  case (3 maxBytes sofar chunks v es)
  show ?case
  proof (cases "sofar + length v > maxBytes")
    case True
    with 3 show ?thesis by auto
  next
    case False
    with 3 show ?thesis by auto
  qed
qed auto

text \<open>
  A body is returned exactly when its declared length does not exceed the cap, the
  reader never fails and the whole of it, chunk after chunk in order, fits the cap; what is
  returned is that whole body, never a truncated one.
\<close>

theorem body_read_exact:
  "readBodyCappedBytes r maxBytes = Inr bs \<longleftrightarrow>
     bodyBytes r = Some bs \<and> length bs \<le> maxBytes
     \<and> (\<forall>d. contentLengthNumber r = Some d \<longrightarrow> d \<le> of_nat maxBytes)"
  using readBodyLoop_Inr [of 0 "[]" maxBytes]
  by (auto simp: readBodyCappedBytes_def bodyBytes_def not_less split: option.splits)

theorem body_read_exact_witness:
  "readBodyCappedBytes \<lparr>status = 200, contentTypeHeader = None, retryAfterHeader = None,
     contentLengthNumber = None, bodyStream = Some [Chunk [1, 2], Chunk [3]], arrayBuffer = []\<rparr> 3
   = Inr [1, 2, 3]"
  by (subst body_read_exact) (simp add: bodyBytes_def)

end
