(* ===== verification/Upstream_Http_Client.thy ===== *)
theory Upstream_Http_Client
  imports Operation_Deadline Circuit_Breaker Provider_Budget Upstream_Http_Helpers
begin

text \<open>
  \<open>src/upstream/upstream-http.client.ts\<close>: one upstream call, its single retry, and what it
  tells the budget, the breaker and the metrics. The environment gives what lies outside the
  process: the answer of \<open>fetch\<close> to each attempt with the clock reading when its body has
  been read, how long the back-off sleeps, the Redis client and the platform's parsing of a
  \<open>Retry-After\<close> header. An exception the caller's \<open>parse\<close> throws is \<open>Inl\<close>.
\<close>

section \<open>Requests, environment and state\<close>

definition MIN_REMAINING_MS_FOR_RETRY :: ms where "MIN_REMAINING_MS_FOR_RETRY = 1500"
definition RETRY_BACKOFF_MS :: ms where "RETRY_BACKOFF_MS = 250"
definition MAX_ATTEMPTS :: nat where "MAX_ATTEMPTS = 2"

text \<open>
  What \<open>parse\<close> concludes from a body: a value with its model time, no data, a contract error
  (\<open>UpstreamSchemaError\<close> or \<open>SyntaxError\<close>), or any other exception.
\<close>

datatype 'a upstreamParseResult =
    Parse_ok 'a "ms option"
  | Parse_no_data string
  | Parse_schema_error string
  | Parse_throws string

record 'a upstreamRequestOptions =
  providerId :: string
  deadline :: operationDeadline
  limits :: providerBudgetLimits
  quotaWeight :: "rat option"
  retryable :: bool
  expectedContentType :: "string list option"
  serverErrorBodyClassifier :: "(byte list \<Rightarrow> bool) option"
  missingMeansNoData :: bool
  maxResponseBytes :: "nat option"
  singleCallTimeoutMs :: "ms option"
  parse :: "httpResponse \<Rightarrow> byte list \<Rightarrow> 'a upstreamParseResult"

datatype fetchResult = Fetch_rejected | Fetched httpResponse

record 'r httpEnv =
  defaultCallTimeoutMs :: ms
  redisClient :: "'r redisIncrement option"
  fetchImpl :: "nat \<Rightarrow> ms \<Rightarrow> ms \<Rightarrow> fetchResult \<times> ms"
  sleepImpl :: "ms \<Rightarrow> ms \<Rightarrow> ms"
  finiteNumber :: "string \<Rightarrow> rat option"
  dateParse :: "string \<Rightarrow> ms option"

record 'r httpWorld =
  clock :: ms
  budget :: "'r providerBudget"
  breaker :: circuitBreaker

definition onMetrics :: "(metrics \<Rightarrow> metrics) \<Rightarrow> 'r httpWorld \<Rightarrow> 'r httpWorld" where
  "onMetrics f w = w\<lparr>budget := (budget w)\<lparr>budgetMetrics := f (budgetMetrics (budget w))\<rparr>\<rparr>"

definition onBreaker ::
  "(metrics \<times> circuitBreaker \<Rightarrow> metrics \<times> circuitBreaker) \<Rightarrow> 'r httpWorld \<Rightarrow> 'r httpWorld" where
  "onBreaker f w =
     (let (m, cb) = f (budgetMetrics (budget w), breaker w)
      in w\<lparr>budget := (budget w)\<lparr>budgetMetrics := m\<rparr>, breaker := cb\<rparr>)"

section \<open>Recording an outcome\<close>

definition record_event :: "upstreamOutcomeKind \<Rightarrow> metrics \<Rightarrow> metrics" where
  "record_event k m =
     (case k of
        K_ok \<Rightarrow> m
      | K_no_data \<Rightarrow> event L_debug ''upstream reported no data'' m
      | K_transient \<Rightarrow> event L_warn ''upstream call failed'' m
      | K_rate_limited \<Rightarrow> event L_warn ''upstream rate-limited us'' m
      | K_client_error \<Rightarrow> event L_error ''upstream rejected OUR request'' m
      | K_schema_error \<Rightarrow>
          event L_error ''upstream response did not match the expected contract'' m
      | K_budget_exhausted \<Rightarrow> m)"

definition recordOutcome ::
  "string \<Rightarrow> 'a upstreamOutcome \<Rightarrow> 'r httpWorld \<Rightarrow> (string + 'a upstreamOutcome) \<times> 'r httpWorld" where
  "recordOutcome p out w =
     (Inr out, onMetrics (\<lambda>m. record_event (kind_of out)
                  (increment (M_upstream_outcome (kind_of out)) p m)) w)"

section \<open>One attempt\<close>

definition singleCallCapMs :: "'a upstreamRequestOptions \<Rightarrow> 'r httpEnv \<Rightarrow> ms" where
  "singleCallCapMs opts env =
     (case singleCallTimeoutMs opts of None \<Rightarrow> defaultCallTimeoutMs env | Some t \<Rightarrow> t)"

text \<open>
  The excerpt of a body that goes into messages and to \<open>serverErrorBodyClassifier\<close>: its first
  200 bytes. Decoding and redacting it is part of the classifier here.
\<close>

definition decodeExcerpt :: "byte list \<Rightarrow> byte list" where
  "decodeExcerpt body = take 200 body"

definition interpretResponse ::
  "'a upstreamRequestOptions \<Rightarrow> 'r httpEnv \<Rightarrow> ms \<Rightarrow> httpResponse \<Rightarrow> byte list
   \<Rightarrow> string + 'a upstreamOutcome" where
  "interpretResponse opts env now response body =
     (let expected = (case expectedContentType opts of
                        None \<Rightarrow> [''application/json''] | Some cs \<Rightarrow> cs);
          st = status response
      in case classifyHttpStatus st of
           K_rate_limited \<Rightarrow>
             Inr (Out_rate_limited (R_http 429)
               (parseRetryAfterSeconds (finiteNumber env) (dateParse env)
                  (retryAfterHeader response) now))
         | K_client_error \<Rightarrow>
             (if missingMeansNoData opts \<and> (st = 404 \<or> st = 410)
              then Inr (Out_no_data (R_missing st))
              else Inr (Out_client_error (R_rejected st) (Some st)))
         | K_transient \<Rightarrow>
             (case serverErrorBodyClassifier opts of
                Some classify \<Rightarrow>
                  (if st \<ge> 500 \<and> classify (decodeExcerpt body)
                   then Inr (Out_client_error (R_server_body st) (Some st))
                   else Inr (Out_transient (R_http st)))
              | None \<Rightarrow> Inr (Out_transient (R_http st)))
         | _ \<Rightarrow>
             (if \<not> hasExpectedContentType (contentTypeHeader response) expected
              then Inr (Out_schema_error R_content_type)
              else (case parse opts response body of
                      Parse_no_data r \<Rightarrow> Inr (Out_no_data (R_text r))
                    | Parse_ok v t \<Rightarrow> Inr (Out_ok v t)
                    | Parse_schema_error r \<Rightarrow> Inr (Out_schema_error (R_parse r))
                    | Parse_throws e \<Rightarrow> Inl e)))"

definition attemptCall ::
  "'a upstreamRequestOptions \<Rightarrow> 'r httpEnv \<Rightarrow> nat \<Rightarrow> 'r httpWorld
   \<Rightarrow> (string + 'a upstreamOutcome) \<times> 'r httpWorld" where
  "attemptCall opts env attempt w0 =
     (let w1 = onMetrics (increment M_upstream_request (providerId opts)) w0;
          abortAt = signalForAt (deadline opts) (clock w1) (singleCallCapMs opts env);
          (answer, after) = fetchImpl env attempt (clock w1) abortAt;
          w = w1\<lparr>clock := after\<rparr>
      in case answer of
           Fetch_rejected \<Rightarrow> (Inr (Out_transient (R_transport attempt)), w)
         | Fetched response \<Rightarrow>
             (case readBodyCappedBytes response
                     (case maxResponseBytes opts of
                        None \<Rightarrow> UPSTREAM_MAX_RESPONSE_BYTES | Some n \<Rightarrow> n) of
                Inl OversizedResponse \<Rightarrow> (Inr (Out_schema_error R_oversized), w)
              | Inl ReadRejected \<Rightarrow> (Inr (Out_transient (R_transport attempt)), w)
              | Inr body \<Rightarrow> (interpretResponse opts env (clock w) response body, w)))"

section \<open>The attempt loop\<close>

text \<open>What follows the loop: an excused transient failure, or a failure for the breaker.\<close>

definition settleFailure ::
  "'a upstreamRequestOptions \<Rightarrow> 'a upstreamOutcome \<Rightarrow> bool \<Rightarrow> 'r httpWorld
   \<Rightarrow> (string + 'a upstreamOutcome) \<times> 'r httpWorld" where
  "settleFailure opts lastFailure budgetCutTheCallShort w =
     (if kind_of lastFailure = K_transient \<and> hasExpired (deadline opts) (clock w)
           \<and> budgetCutTheCallShort
      then recordOutcome (providerId opts) lastFailure
             (onMetrics (increment M_upstream_deadline_exceeded (providerId opts))
               (onBreaker (releaseTrial (providerId opts)) w))
      else recordOutcome (providerId opts) lastFailure
             (onBreaker (recordFailure (providerId opts) (kind_of lastFailure)
                (retry_after_of lastFailure) (clock w)) w))"

function attemptLoop ::
  "'a upstreamRequestOptions \<Rightarrow> 'r httpEnv \<Rightarrow> nat \<Rightarrow> 'a upstreamOutcome \<Rightarrow> bool \<Rightarrow> 'r httpWorld
   \<Rightarrow> (string + 'a upstreamOutcome) \<times> 'r httpWorld" where
  "attemptLoop opts env attempt lastFailure budgetCut w =
     (if \<not> attempt \<le> MAX_ATTEMPTS then settleFailure opts lastFailure budgetCut w
      else
       (let (decision, b) = tryConsume (redisClient env) (providerId opts) (limits opts)
              (case quotaWeight opts of None \<Rightarrow> 1 | Some x \<Rightarrow> x) (clock w) (budget w);
            w1 = w\<lparr>budget := b\<rparr>
        in case decision of
             Refused win n \<Rightarrow>
               recordOutcome (providerId opts) (Out_budget_exhausted (R_budget win n)) w1
           | Allowed \<Rightarrow>
              (let cut = cutsCallShort (deadline opts) (clock w1) (singleCallCapMs opts env);
                   (res, w2) = attemptCall opts env attempt w1
               in case res of
                    Inl exn \<Rightarrow> (Inl exn, w2)
                  | Inr out \<Rightarrow>
                     (if kind_of out = K_ok \<or> kind_of out = K_no_data
                      then recordOutcome (providerId opts) out
                             (onBreaker (recordSuccess (providerId opts)) w2)
                      else
                       (let mayRetry = (kind_of out = K_transient \<and> retryable opts);
                            affordable = canAfford (deadline opts) (clock w2)
                              (MIN_REMAINING_MS_FOR_RETRY + RETRY_BACKOFF_MS)
                        in if \<not> mayRetry \<or> attempt \<ge> MAX_ATTEMPTS \<or> \<not> affordable
                           then settleFailure opts out cut w2
                           else attemptLoop opts env (attempt + 1) out cut
                                  (let w3 = onMetrics (increment M_upstream_retry (providerId opts)) w2
                                   in w3\<lparr>clock := sleepImpl env (clock w3) RETRY_BACKOFF_MS\<rparr>))))))"
  by pat_completeness auto
termination
  by (relation "measure (\<lambda>(opts, env, attempt, lastFailure, budgetCut, w). Suc MAX_ATTEMPTS - attempt)")
    auto

declare attemptLoop.simps [simp del]

definition request ::
  "'a upstreamRequestOptions \<Rightarrow> 'r httpEnv \<Rightarrow> 'r httpWorld
   \<Rightarrow> (string + 'a upstreamOutcome) \<times> 'r httpWorld" where
  "request opts env w =
     (if hasExpired (deadline opts) (clock w)
      then recordOutcome (providerId opts) (Out_transient R_deadline_elapsed)
             (onMetrics (increment M_upstream_deadline_exceeded (providerId opts)) w)
      else
       (let (granted, m, cb) = canAttempt (providerId opts) (clock w)
              (budgetMetrics (budget w), breaker w);
            w1 = w\<lparr>budget := (budget w)\<lparr>budgetMetrics := m\<rparr>, breaker := cb\<rparr>
        in if \<not> granted
           then recordOutcome (providerId opts) (Out_transient R_breaker_open) w1
           else (let (res, w2) = attemptLoop opts env 1 (Out_transient R_no_attempt) False w1
                 in (res, onBreaker (abandonTrial (providerId opts)) w2))))"

section \<open>What one request leaves in the counters and in the breaker\<close>

definition countOf :: "upstreamMetricName \<Rightarrow> string \<Rightarrow> 'r httpWorld \<Rightarrow> nat" where
  "countOf n p w = getMetric n p (budgetMetrics (budget w))"

definition inFlight :: "string \<Rightarrow> 'r httpWorld \<Rightarrow> bool" where
  "inFlight p w = (case circuits (breaker w) p of None \<Rightarrow> False | Some c \<Rightarrow> trialInFlight c)"

definition failuresOf :: "string \<Rightarrow> 'r httpWorld \<Rightarrow> nat" where
  "failuresOf p w = (case circuits (breaker w) p of None \<Rightarrow> 0 | Some c \<Rightarrow> consecutiveFailures c)"

lemma countOf_onMetrics [simp]:
  "countOf n p (onMetrics f w) = getMetric n p (f (budgetMetrics (budget w)))"
  by (simp add: countOf_def onMetrics_def)

lemma breaker_onMetrics [simp]: "breaker (onMetrics f w) = breaker w"
  by (simp add: onMetrics_def)

lemma clock_on [simp]: "clock (onMetrics f w) = clock w" "clock (onBreaker g w) = clock w"
  by (simp_all add: onMetrics_def onBreaker_def split: prod.split)

lemma inFlight_onMetrics [simp]: "inFlight p (onMetrics f w) = inFlight p w"
  "failuresOf p (onMetrics f w) = failuresOf p w"
  by (simp_all add: inFlight_def failuresOf_def)

lemma world_clock [simp]: "countOf n p (w\<lparr>clock := t\<rparr>) = countOf n p w"
  "inFlight p (w\<lparr>clock := t\<rparr>) = inFlight p w" "failuresOf p (w\<lparr>clock := t\<rparr>) = failuresOf p w"
  by (simp_all add: countOf_def inFlight_def failuresOf_def)

lemma countOf_metrics: "getMetric n p (budgetMetrics (budget w)) = countOf n p w"
  by (simp add: countOf_def)

lemma getMetric_record_event [simp]: "getMetric n p (record_event k m) = getMetric n p m"
  by (cases k) (simp_all add: record_event_def)

lemma recordOutcome_facts [simp]:
  "fst (recordOutcome p out w) = Inr out"
  "inFlight q (snd (recordOutcome p out w)) = inFlight q w"
  "failuresOf q (snd (recordOutcome p out w)) = failuresOf q w"
  "countOf n q (snd (recordOutcome p out w))
     = countOf n q w + (if n = M_upstream_outcome (kind_of out) \<and> q = p then 1 else 0)"
  by (auto simp: recordOutcome_def countOf_metrics)

text \<open>The reports to the breaker, as the request sees them.\<close>

lemma onBreaker_success [simp]:
  "inFlight p (onBreaker (recordSuccess p) w) = False"
  "failuresOf p (onBreaker (recordSuccess p) w) = 0"
  "n \<noteq> M_breaker_closed \<Longrightarrow> countOf n p (onBreaker (recordSuccess p) w) = countOf n p w"
  by (auto simp: onBreaker_def recordSuccess_def setCircuit_def inFlight_def failuresOf_def
      countOf_def split: option.split prod.split if_splits)

lemma onBreaker_release [simp]:
  "inFlight p (onBreaker (releaseTrial p) w) = False"
  "failuresOf p (onBreaker (releaseTrial p) w) = failuresOf p w"
  "n \<noteq> M_breaker_trial_released \<Longrightarrow> countOf n p (onBreaker (releaseTrial p) w) = countOf n p w"
  by (auto simp: onBreaker_def releaseTrial_def setCircuit_def inFlight_def failuresOf_def
      countOf_def split: option.split prod.split if_splits)

lemma onBreaker_abandon [simp]:
  "inFlight p (onBreaker (abandonTrial p) w) = False"
  "failuresOf p (onBreaker (abandonTrial p) w) = failuresOf p w"
  "countOf n p (onBreaker (abandonTrial p) w)
     = countOf n p w + (if n = M_breaker_trial_abandoned \<and> inFlight p w then 1 else 0)"
  by (auto simp: onBreaker_def abandonTrial_def setCircuit_def inFlight_def failuresOf_def
      countOf_def split: option.split prod.split if_splits)

lemma onBreaker_failure [simp]:
  "evidence k \<Longrightarrow> inFlight p (onBreaker (recordFailure p k r now) w) = False"
  "evidence k \<Longrightarrow> failuresOf p (onBreaker (recordFailure p k r now) w) = failuresOf p w + 1"
  "n \<noteq> M_breaker_opened \<Longrightarrow> countOf n p (onBreaker (recordFailure p k r now) w) = countOf n p w"
  by (auto simp: onBreaker_def recordFailure_def setCircuit_def inFlight_def failuresOf_def Let_def
      freshCircuit_def evidence_def countOf_def split: option.split prod.split if_splits)

text \<open>The budget only touches its own two counters.\<close>

lemma incrementBudget_metric:
  "n \<noteq> M_redis_degraded \<Longrightarrow>
   getMetric n q (budgetMetrics (snd (incrementBudget r p win units now b)))
     = getMetric n q (budgetMetrics b)"
  by (auto simp: incrementBudget_def Let_def split: option.split prod.split)

lemma checkWindows_metric:
  "n \<noteq> M_redis_degraded \<Longrightarrow> n \<noteq> M_budget_rejected \<Longrightarrow>
   getMetric n q (budgetMetrics (snd (checkWindows r p units now checks b)))
     = getMetric n q (budgetMetrics b)"
proof (induction r p units now checks b rule: checkWindows.induct)
  case (1 r p units now b)
  then show ?case by simp
next
  case (2 r p units now win lim checks b)
  obtain k b' where inc: "incrementBudget r p win units now b = (k, b')" by fastforce
  with incrementBudget_metric [OF "2.prems"(1), of q r p win units now b]
  have "getMetric n q (budgetMetrics b') = getMetric n q (budgetMetrics b)" by simp
  with 2 inc show ?case by auto
qed

lemma tryConsume_countOf:
  assumes "n \<noteq> M_redis_degraded" and "n \<noteq> M_budget_rejected"
    and "tryConsume r p ls weight now (budget w) = (dec, b)"
  shows "countOf n q (w\<lparr>budget := b\<rparr>) = countOf n q w"
proof -
  have "getMetric n q (budgetMetrics (snd (tryConsume r p ls weight now (budget w))))
      = getMetric n q (budgetMetrics (budget w))"
    unfolding tryConsume_def Let_def by (rule checkWindows_metric [OF assms(1,2)])
  with assms(3) show ?thesis by (simp add: countOf_def)
qed

lemma world_budget [simp]:
  "inFlight p (w\<lparr>budget := b\<rparr>) = inFlight p w" "failuresOf p (w\<lparr>budget := b\<rparr>) = failuresOf p w"
  by (simp_all add: inFlight_def failuresOf_def)

lemma interpretResponse_kind:
  assumes "interpretResponse opts env now r body = Inr out"
  shows "kind_of out \<noteq> K_budget_exhausted"
proof (cases "classifyHttpStatus (status r)")
  case K_transient
  with assms show ?thesis
    by (auto simp: interpretResponse_def Let_def split: option.splits if_splits)
next
  case K_client_error
  with assms show ?thesis
    by (auto simp: interpretResponse_def Let_def split: if_splits)
qed (use assms in \<open>auto simp: interpretResponse_def Let_def
        split: if_splits upstreamParseResult.splits\<close>)

lemma attemptCall_facts:
  assumes "attemptCall opts env attempt w = (res, w')"
  shows "inFlight q w' = inFlight q w" and "failuresOf q w' = failuresOf q w"
    and "countOf n q w' = countOf n q w
      + (if n = M_upstream_request \<and> q = providerId opts then 1 else 0)"
    and "res = Inr out \<Longrightarrow> kind_of out \<noteq> K_budget_exhausted"
proof -
  define w1 where "w1 = onMetrics (increment M_upstream_request (providerId opts)) w"
  obtain answer after where f: "fetchImpl env attempt (clock w1)
      (signalForAt (deadline opts) (clock w1) (singleCallCapMs opts env)) = (answer, after)"
    by fastforce
  have "w' = w1\<lparr>clock := after\<rparr>"
    using assms f by (auto simp: attemptCall_def Let_def w1_def
        split: fetchResult.splits bodyError.splits sum.splits)
  then show "inFlight q w' = inFlight q w" and "failuresOf q w' = failuresOf q w"
    and "countOf n q w' = countOf n q w
      + (if n = M_upstream_request \<and> q = providerId opts then 1 else 0)"
    by (auto simp: w1_def countOf_metrics)
  show "res = Inr out \<Longrightarrow> kind_of out \<noteq> K_budget_exhausted"
    using assms f
    by (auto simp: attemptCall_def Let_def w1_def dest: interpretResponse_kind
        split: fetchResult.splits bodyError.splits sum.splits)
qed

section \<open>One iteration of the loop\<close>

lemma attemptLoop_cases:
  fixes opts :: "'a upstreamRequestOptions" and w :: "'r httpWorld"
  assumes run: "attemptLoop opts env attempt lastFailure budgetCut w = (res, w')" and "attempt \<le> MAX_ATTEMPTS"
  obtains (refused) b win n where
      "(res, w') = recordOutcome (providerId opts) (Out_budget_exhausted (R_budget win n))
         (w\<lparr>budget := b\<rparr>)"
      "\<And>n q. n \<noteq> M_redis_degraded \<Longrightarrow> n \<noteq> M_budget_rejected \<Longrightarrow>
         countOf n q (w\<lparr>budget := b\<rparr>) = countOf n q w"
  | (thrown) b exn where
      "attemptCall opts env attempt (w\<lparr>budget := b\<rparr>) = (Inl exn, w')" "res = Inl exn"
      "\<And>n q. n \<noteq> M_redis_degraded \<Longrightarrow> n \<noteq> M_budget_rejected \<Longrightarrow>
         countOf n q (w\<lparr>budget := b\<rparr>) = countOf n q w"
  | (answered) b out w2 where
      "attemptCall opts env attempt (w\<lparr>budget := b\<rparr>) = (Inr out, w2)"
      "\<And>n q. n \<noteq> M_redis_degraded \<Longrightarrow> n \<noteq> M_budget_rejected \<Longrightarrow>
         countOf n q (w\<lparr>budget := b\<rparr>) = countOf n q w"
      "\<not> evidence (kind_of out) \<or> kind_of out = K_ok"
      "(res, w') = recordOutcome (providerId opts) out (onBreaker (recordSuccess (providerId opts)) w2)"
  | (settled) b out w2 cut' where
      "attemptCall opts env attempt (w\<lparr>budget := b\<rparr>) = (Inr out, w2)"
      "\<And>n q. n \<noteq> M_redis_degraded \<Longrightarrow> n \<noteq> M_budget_rejected \<Longrightarrow>
         countOf n q (w\<lparr>budget := b\<rparr>) = countOf n q w"
      "evidence (kind_of out)" "kind_of out \<noteq> K_ok"
      "(res, w') = settleFailure opts out cut' w2"
  | (again) b out w2 cut' t where
      "attemptCall opts env attempt (w\<lparr>budget := b\<rparr>) = (Inr out, w2)"
      "\<And>n q. n \<noteq> M_redis_degraded \<Longrightarrow> n \<noteq> M_budget_rejected \<Longrightarrow>
         countOf n q (w\<lparr>budget := b\<rparr>) = countOf n q w"
      "kind_of out = K_transient" "retryable opts" "attempt < MAX_ATTEMPTS"
      "canAfford (deadline opts) (clock w2) (MIN_REMAINING_MS_FOR_RETRY + RETRY_BACKOFF_MS)"
      "attemptLoop opts env (attempt + 1) out cut'
         ((onMetrics (increment M_upstream_retry (providerId opts)) w2)\<lparr>clock := t\<rparr>) = (res, w')"
proof -
  obtain dec b where dec: "tryConsume (redisClient env) (providerId opts) (limits opts)
      (case quotaWeight opts of None \<Rightarrow> 1 | Some x \<Rightarrow> x) (clock w) (budget w) = (dec, b)"
    by fastforce
  have frame: "\<And>n q. n \<noteq> M_redis_degraded \<Longrightarrow> n \<noteq> M_budget_rejected \<Longrightarrow>
      countOf n q (w\<lparr>budget := b\<rparr>) = countOf n q w"
    by (rule tryConsume_countOf [OF _ _ dec])
  show thesis
  proof (cases dec)
    case (Refused win n)
    with run dec assms(2) have "(res, w') = recordOutcome (providerId opts)
        (Out_budget_exhausted (R_budget win n)) (w\<lparr>budget := b\<rparr>)"
      by (simp add: attemptLoop.simps [of opts env attempt] Let_def)
    then show thesis using frame by (rule refused)
  next
    case Allowed
    obtain r w2 where call: "attemptCall opts env attempt (w\<lparr>budget := b\<rparr>) = (r, w2)" by fastforce
    show thesis
    proof (cases r)
      case (Inl exn)
      with run dec assms(2) Allowed call have "w' = w2" "res = Inl exn"
        by (simp_all add: attemptLoop.simps [of opts env attempt] Let_def)
      with call Inl frame show thesis by (intro thrown) simp_all
    next
      case (Inr out)
      define cut' where "cut' = cutsCallShort (deadline opts) (clock w) (singleCallCapMs opts env)"
      have kind: "kind_of out \<noteq> K_budget_exhausted"
        using attemptCall_facts(4) [OF call] Inr by blast
      consider (ok) "kind_of out = K_ok \<or> kind_of out = K_no_data"
        | (retry) "kind_of out = K_transient" "retryable opts" "attempt < MAX_ATTEMPTS"
            "canAfford (deadline opts) (clock w2) (MIN_REMAINING_MS_FOR_RETRY + RETRY_BACKOFF_MS)"
        | (stop) "\<not> (kind_of out = K_ok \<or> kind_of out = K_no_data)"
            "\<not> (kind_of out = K_transient \<and> retryable opts) \<or> attempt \<ge> MAX_ATTEMPTS
             \<or> \<not> canAfford (deadline opts) (clock w2)
                   (MIN_REMAINING_MS_FOR_RETRY + RETRY_BACKOFF_MS)"
        using not_le by blast
      then show thesis
      proof cases
        case ok
        with run dec assms(2) Allowed call Inr have "(res, w') = recordOutcome (providerId opts) out
            (onBreaker (recordSuccess (providerId opts)) w2)"
          by (simp add: attemptLoop.simps [of opts env attempt] Let_def)
        with call Inr frame ok show thesis by (intro answered) (auto simp: evidence_def)
      next
        case retry
        with run dec assms(2) Allowed call Inr have "attemptLoop opts env (attempt + 1) out cut'
            ((onMetrics (increment M_upstream_retry (providerId opts)) w2)
              \<lparr>clock := sleepImpl env (clock w2) RETRY_BACKOFF_MS\<rparr>) = (res, w')"
          by (simp add: attemptLoop.simps [of opts env attempt] Let_def cut'_def)
        with call Inr frame retry show thesis by (intro again) simp_all
      next
        case stop
        with run dec assms(2) Allowed call Inr have "(res, w') = settleFailure opts out cut' w2"
          by (auto simp add: attemptLoop.simps [of opts env attempt] Let_def cut'_def)
        with call Inr frame stop kind show thesis by (intro settled) (auto simp: evidence_def)
      qed
    qed
  qed
qed

lemma settleFailure_facts:
  assumes "settleFailure opts out short w = (res, w')" and "evidence (kind_of out)"
    and "p = providerId opts"
  shows "res = Inr out" and "\<not> inFlight p w'"
    and "countOf (M_upstream_outcome k) p w'
      = countOf (M_upstream_outcome k) p w + (if k = kind_of out then 1 else 0)"
    and "countOf M_upstream_request p w' = countOf M_upstream_request p w"
    and "countOf M_breaker_trial_abandoned p w' = countOf M_breaker_trial_abandoned p w"
    and "(failuresOf p w' = failuresOf p w + 1
           \<and> countOf M_upstream_deadline_exceeded p w' = countOf M_upstream_deadline_exceeded p w)
         \<or> (failuresOf p w' = failuresOf p w
           \<and> countOf M_upstream_deadline_exceeded p w' = countOf M_upstream_deadline_exceeded p w + 1)"
  using assms
  by (auto simp: settleFailure_def countOf_metrics prod_eq_iff split: if_splits)

definition failureStep :: "string \<Rightarrow> 'r httpWorld \<Rightarrow> string + 'a upstreamOutcome \<Rightarrow> 'r httpWorld \<Rightarrow> bool" where
  "failureStep p w res w' \<longleftrightarrow> failuresOf p w' \<le> failuresOf p w
     \<or> (countOf M_upstream_request p w < countOf M_upstream_request p w'
        \<and> countOf M_upstream_deadline_exceeded p w' = countOf M_upstream_deadline_exceeded p w
        \<and> failuresOf p w' = failuresOf p w + 1
        \<and> (\<exists>out. res = Inr out \<and> evidence (kind_of out) \<and> kind_of out \<noteq> K_ok))"

definition outcomeCount :: "upstreamOutcomeKind \<Rightarrow> string + 'a upstreamOutcome \<Rightarrow> nat" where
  "outcomeCount k res = (case res of Inl e \<Rightarrow> 0 | Inr out \<Rightarrow> if kind_of out = k then 1 else 0)"

text \<open>Whether a result leaves the trial slot to the \<open>finally\<close> of \<open>request\<close>.\<close>

definition leavesTrial :: "string + 'a upstreamOutcome \<Rightarrow> bool" where
  "leavesTrial res = (case res of Inl e \<Rightarrow> True | Inr out \<Rightarrow> kind_of out = K_budget_exhausted)"

lemma recordOutcome_run:
  assumes "(res, w') = recordOutcome p out w"
  shows "res = Inr out" and "inFlight p w' = inFlight p w" and "failuresOf p w' = failuresOf p w"
    and "countOf n p w' = countOf n p w + (if n = M_upstream_outcome (kind_of out) then 1 else 0)"
  using assms by (simp_all add: prod_eq_iff)

lemma attemptCall_run:
  assumes "attemptCall opts env attempt w = (res, w')" and "p = providerId opts"
  shows "inFlight p w' = inFlight p w" and "failuresOf p w' = failuresOf p w"
    and "countOf n p w' = countOf n p w + (if n = M_upstream_request then 1 else 0)"
  using attemptCall_facts(1-3) [OF assms(1)] assms(2) by simp_all

lemma attemptLoop_facts:
  fixes opts :: "'a upstreamRequestOptions" and w :: "'r httpWorld"
  assumes "attemptLoop opts env attempt lastFailure short w = (res, w')"
    and "attempt \<le> MAX_ATTEMPTS" and p: "p = providerId opts"
  shows "countOf M_upstream_request p w \<le> countOf M_upstream_request p w'
     \<and> countOf M_upstream_request p w' + attempt \<le> countOf M_upstream_request p w + MAX_ATTEMPTS + 1
     \<and> countOf (M_upstream_outcome k) p w' = countOf (M_upstream_outcome k) p w + outcomeCount k res
     \<and> countOf M_breaker_trial_abandoned p w' = countOf M_breaker_trial_abandoned p w
     \<and> (inFlight p w' \<longleftrightarrow> inFlight p w \<and> leavesTrial res)
     \<and> failureStep p w res w'"
  using assms(1,2)
proof (induction "MAX_ATTEMPTS - attempt" arbitrary: attempt lastFailure short w
    rule: less_induct)
  case (less attempt lastFailure short w)
  from less.prems show ?case
  proof (cases rule: attemptLoop_cases)
    case (refused b win n)
    note r = recordOutcome_run [OF refused(1) [folded p]]
    show ?thesis using r refused(2) less.prems(2)
      by (auto simp: outcomeCount_def leavesTrial_def failureStep_def)
  next
    case (thrown b exn)
    note a = attemptCall_run [OF thrown(1) p]
    show ?thesis using a thrown(2,3) less.prems(2)
      by (auto simp: outcomeCount_def leavesTrial_def failureStep_def)
  next
    case (answered b out w2)
    note a = attemptCall_run [OF answered(1) p] attemptCall_facts(4) [OF answered(1) refl]
    note r = recordOutcome_run [OF answered(4) [folded p]]
    show ?thesis using r a answered(2) p less.prems(2)
      by (auto simp: outcomeCount_def leavesTrial_def failureStep_def)
  next
    case (settled b out w2 cut')
    note a = attemptCall_run [OF settled(1) p] attemptCall_facts(4) [OF settled(1) refl]
    note f = settleFailure_facts [OF settled(5) [symmetric] settled(3) p]
    show ?thesis using f a settled(2-4) less.prems(2)
      by (auto simp: outcomeCount_def leavesTrial_def failureStep_def)
  next
    case (again b out w2 cut' t)
    note a = attemptCall_run [OF again(1) p]
    define w3 where "w3 =
      (onMetrics (increment M_upstream_retry (providerId opts)) w2)\<lparr>clock := t\<rparr>"
    have frame: "countOf n p w3 = countOf n p w2 + (if n = M_upstream_retry then 1 else 0)"
      "inFlight p w3 = inFlight p w2" "failuresOf p w3 = failuresOf p w2" for n
      using p by (auto simp: countOf_metrics w3_def)
    have "MAX_ATTEMPTS - (attempt + 1) < MAX_ATTEMPTS - attempt" and "attempt + 1 \<le> MAX_ATTEMPTS"
      using again(5) by simp_all
    from less.hyps [OF this(1) again(7) [folded w3_def] this(2)] show ?thesis
      using a again(2) frame by (auto simp: failureStep_def)
  qed
qed

section \<open>A whole request\<close>

text \<open>The request takes the single trial of a circuit whose cooldown is over.\<close>

definition takesTrial :: "'a upstreamRequestOptions \<Rightarrow> 'r httpWorld \<Rightarrow> bool" where
  "takesTrial opts w \<longleftrightarrow> \<not> hasExpired (deadline opts) (clock w)
     \<and> (case circuits (breaker w) (providerId opts) of
          None \<Rightarrow> False
        | Some c \<Rightarrow> (case openUntilMs c of None \<Rightarrow> False
                      | Some u \<Rightarrow> u \<le> clock w \<and> \<not> trialInFlight c))"

lemma canAttempt_facts:
  assumes "canAttempt p now (budgetMetrics (budget w), breaker w) = (granted, m, cb)"
    and "w1 = w\<lparr>budget := (budget w)\<lparr>budgetMetrics := m\<rparr>, breaker := cb\<rparr>"
  shows "n \<noteq> M_breaker_rejected \<Longrightarrow> countOf n p w1 = countOf n p w"
    and "failuresOf p w1 = failuresOf p w"
    and "\<not> granted \<Longrightarrow> inFlight p w1 = inFlight p w"
    and "granted \<Longrightarrow> inFlight p w1 \<longleftrightarrow> inFlight p w \<or>
      (\<exists>c u. circuits (breaker w) p = Some c \<and> openUntilMs c = Some u \<and> u \<le> now \<and> \<not> trialInFlight c)"
    and "(\<exists>c u. circuits (breaker w) p = Some c \<and> openUntilMs c = Some u \<and> u \<le> now \<and> \<not> trialInFlight c)
      \<Longrightarrow> granted"
  using assms
  by (auto simp: canAttempt_def setCircuit_def countOf_def inFlight_def failuresOf_def
      split: option.splits if_splits)

lemma canAttempt_not_in_flight:
  assumes "canAttempt p now (m0, breaker w) = (True, m, cb)" and "breaker_ok (breaker w)"
  shows "\<not> inFlight p w"
proof (cases "circuits (breaker w) p")
  case (Some c)
  from breaker_okD [OF assms(2) this] have "trialInFlight c \<longrightarrow> openUntilMs c \<noteq> None"
    by (simp add: circuit_ok_def)
  with assms(1) Some show ?thesis
    by (auto simp: canAttempt_def inFlight_def split: option.splits if_splits)
qed (simp add: inFlight_def)

lemma request_cases:
  fixes opts :: "'a upstreamRequestOptions" and w :: "'r httpWorld"
  assumes "request opts env w = (res, w')" and p: "p = providerId opts"
  obtains (expired) "hasExpired (deadline opts) (clock w)"
      "(res, w') = recordOutcome p (Out_transient R_deadline_elapsed)
             (onMetrics (increment M_upstream_deadline_exceeded p) w)"
  | (rejected) m cb w1 where "\<not> hasExpired (deadline opts) (clock w)"
      "canAttempt p (clock w) (budgetMetrics (budget w), breaker w) = (False, m, cb)"
      "w1 = w\<lparr>budget := (budget w)\<lparr>budgetMetrics := m\<rparr>, breaker := cb\<rparr>"
      "(res, w') = recordOutcome p (Out_transient R_breaker_open) w1"
  | (granted) m cb w1 w2 where "\<not> hasExpired (deadline opts) (clock w)"
      "canAttempt p (clock w) (budgetMetrics (budget w), breaker w) = (True, m, cb)"
      "w1 = w\<lparr>budget := (budget w)\<lparr>budgetMetrics := m\<rparr>, breaker := cb\<rparr>"
      "attemptLoop opts env 1 (Out_transient R_no_attempt) False w1 = (res, w2)"
      "w' = onBreaker (abandonTrial p) w2"
proof (cases "hasExpired (deadline opts) (clock w)")
  case True
  with assms show thesis by (intro expired) (simp_all add: request_def)
next
  case False
  obtain g m cb where can:
    "canAttempt p (clock w) (budgetMetrics (budget w), breaker w) = (g, m, cb)"
    by (metis prod_cases3)
  show thesis
  proof (cases g)
    case True
    define w1 where "w1 = w\<lparr>budget := (budget w)\<lparr>budgetMetrics := m\<rparr>, breaker := cb\<rparr>"
    obtain r w2 where "attemptLoop opts env 1 (Out_transient R_no_attempt) False w1 = (r, w2)"
      by fastforce
    with can True False assms show thesis
      by (intro granted [of m cb w1 w2]) (auto simp: request_def w1_def)
  next
    case g: False
    with can False assms show thesis
      by (intro rejected [of m cb]) (auto simp: request_def Let_def split: prod.splits)
  qed
qed

lemma request_facts:
  fixes opts :: "'a upstreamRequestOptions" and w :: "'r httpWorld"
  assumes run: "request opts env w = (res, w')" and p: "p = providerId opts"
  shows "countOf M_upstream_request p w \<le> countOf M_upstream_request p w'
     \<and> countOf M_upstream_request p w' \<le> countOf M_upstream_request p w + MAX_ATTEMPTS
     \<and> countOf (M_upstream_outcome k) p w' = countOf (M_upstream_outcome k) p w + outcomeCount k res
     \<and> failureStep p w res w'
     \<and> (breaker_ok (breaker w) \<longrightarrow> (inFlight p w' \<longleftrightarrow> inFlight p w)
        \<and> countOf M_breaker_trial_abandoned p w' = countOf M_breaker_trial_abandoned p w
             + (if takesTrial opts w \<and> leavesTrial res then 1 else 0))"
  using run p
proof (cases rule: request_cases)
  case expired
  note r = recordOutcome_run [OF expired(2)]
  show ?thesis using r expired(1)
    by (auto simp: countOf_metrics outcomeCount_def failureStep_def takesTrial_def)
next
  case (rejected m cb w1)
  note c = canAttempt_facts [OF rejected(2,3)] and r = recordOutcome_run [OF rejected(4)]
  have "\<not> takesTrial opts w"
    using c(5) rejected(1) p by (auto simp: takesTrial_def split: option.splits)
  then show ?thesis using r c(1-3)
    by (auto simp: outcomeCount_def failureStep_def)
next
  case (granted m cb w1 w2)
  note c = canAttempt_facts [OF granted(2,3)]
  have took: "takesTrial opts w \<longleftrightarrow> inFlight p w1" if "breaker_ok (breaker w)"
    using c(4) canAttempt_not_in_flight [OF granted(2) that] granted(1) p by (auto simp: takesTrial_def split: option.splits)
  have "1 \<le> MAX_ATTEMPTS" by (simp add: MAX_ATTEMPTS_def)
  note f = attemptLoop_facts [OF granted(4) this p]
  have frame: "countOf n p w' = countOf n p w2 + (if n = M_breaker_trial_abandoned \<and> inFlight p w2 then 1 else 0)"
    "failuresOf p w' = failuresOf p w2" "\<not> inFlight p w'" for n
    using granted(5) by simp_all
  show ?thesis using c(1,2) canAttempt_not_in_flight [OF granted(2)] f [of k] frame took
    by (auto simp: failureStep_def)
qed

text \<open>
  C5: One request makes at most two calls to the provider, and the outcome counters of the
  provider account for it exactly: the counter of the outcome it returns goes up by one, no
  other outcome counter moves, and none moves when the caller's \<open>parse\<close> throws.
\<close>

theorem request_accounting:
  "case request opts env w of (res, w') \<Rightarrow>
     countOf M_upstream_request (providerId opts) w
       \<le> countOf M_upstream_request (providerId opts) w'
     \<and> countOf M_upstream_request (providerId opts) w'
       \<le> countOf M_upstream_request (providerId opts) w + 2
     \<and> (\<forall>k. countOf (M_upstream_outcome k) (providerId opts) w'
           = countOf (M_upstream_outcome k) (providerId opts) w + outcomeCount k res)"
  using request_facts [where opts = opts and env = env and w = w, OF _ refl]
  by (auto simp: MAX_ATTEMPTS_def split: prod.split)

text \<open>
  C9: A request never keeps the half-open trial slot it took: afterwards the slot is taken
  exactly if another call had it before. The trial is counted as abandoned exactly when the
  request took it and then ended in an escaped exception or was refused by our own budget,
  and in no other case.
\<close>

theorem trial_slot_accounting:
  assumes "breaker_ok (breaker w)" and "request opts env w = (res, w')"
  shows "(inFlight (providerId opts) w' \<longleftrightarrow> inFlight (providerId opts) w)
    \<and> countOf M_breaker_trial_abandoned (providerId opts) w'
      = countOf M_breaker_trial_abandoned (providerId opts) w
        + (if takesTrial opts w \<and> leavesTrial res then 1 else 0)"
  using request_facts [OF assms(2) refl] assms(1) by blast

definition example_request :: "string upstreamRequestOptions" where
  "example_request =
     \<lparr>providerId = ''cmems'', deadline = \<lparr>budgetMs = 6000, startedAtMs = 0\<rparr>,
      limits = \<lparr>perMinute = 0, perHour = 9, perDay = 9\<rparr>, quotaWeight = None, retryable = True,
      expectedContentType = None, serverErrorBodyClassifier = None, missingMeansNoData = False,
      maxResponseBytes = None, singleCallTimeoutMs = None,
      parse = (\<lambda>r b. Parse_ok ''body'' None)\<rparr>"

definition example_env :: "unit httpEnv" where
  "example_env =
     \<lparr>defaultCallTimeoutMs = 4000, redisClient = None,
      fetchImpl = (\<lambda>n now t. (Fetch_rejected, now + 10)), sleepImpl = (\<lambda>now d. now + d),
      finiteNumber = (\<lambda>s. None), dateParse = (\<lambda>s. None)\<rparr>"

definition example_world :: "unit httpWorld" where
  "example_world =
     \<lparr>clock = 500,
      budget = \<lparr>localCounters = [], redisState = (), budgetMetrics = metrics_init\<rparr>,
      breaker = snd open_example\<rparr>"

lemma js_round_1 [simp]: "js_round 1 = 1"
  using js_round_of_int [of 1] by simp

theorem trial_slot_accounting_witness:
  "\<exists>w'. request example_request example_env example_world
        = (Inr (Out_budget_exhausted (R_budget W_minute 0)), w')
      \<and> countOf M_breaker_trial_abandoned ''cmems'' w' = 1"
proof -
  have ok: "breaker_ok (breaker example_world)"
    by (simp add: example_world_def open_example_def breaker_ok_setCircuit breaker_ok_new
        circuit_ok_def)
  have took: "takesTrial example_request example_world"
    by (simp add: takesTrial_def example_request_def example_world_def open_example_def
        setCircuit_def hasExpired_def remainingMs_def)
  obtain res w' where run: "request example_request example_env example_world = (res, w')"
    by fastforce
  then have res: "res = Inr (Out_budget_exhausted (R_budget W_minute 0))"
    by (simp add: request_def example_request_def example_env_def example_world_def
        open_example_def setCircuit_def hasExpired_def remainingMs_def canAttempt_def
        attemptLoop.simps MAX_ATTEMPTS_def tryConsume_def incrementBudget_def
        incrementLocal_def recordOutcome_def Let_def)
  from trial_slot_accounting [OF ok run] took run res show ?thesis
    by (simp add: leavesTrial_def example_request_def countOf_def example_world_def
        metrics_init_def getMetric_def)
qed

text \<open>
  C23: A request adds a failure to a provider's circuit only on evidence: it made at least one
  call, its outcome is a failure that is neither a refusal by our own budget nor an answer
  that there is no data, and it was not excused as cut short by the operation's deadline.
  It never adds more than one.
\<close>

theorem failures_are_evidence:
  assumes "request opts env w = (res, w')"
    and "failuresOf (providerId opts) w < failuresOf (providerId opts) w'"
  shows "failuresOf (providerId opts) w' = failuresOf (providerId opts) w + 1
    \<and> countOf M_upstream_request (providerId opts) w
        < countOf M_upstream_request (providerId opts) w'
    \<and> countOf M_upstream_deadline_exceeded (providerId opts) w'
        = countOf M_upstream_deadline_exceeded (providerId opts) w
    \<and> (\<exists>out. res = Inr out \<and> kind_of out
          \<in> {K_transient, K_rate_limited, K_client_error, K_schema_error})"
proof -
  have "failureStep (providerId opts) w res w'"
    using request_facts [OF assms(1) refl] by blast
  moreover have "k \<in> {K_transient, K_rate_limited, K_client_error, K_schema_error}"
    if "evidence k" "k \<noteq> K_ok" for k
    using that by (cases k) (simp_all add: evidence_def)
  ultimately show ?thesis using assms(2) by (auto simp: failureStep_def)
qed

theorem failures_are_evidence_witness:
  "\<exists>res w'. request (example_request\<lparr>limits := \<lparr>perMinute = 9, perHour = 9, perDay = 9\<rparr>,
        retryable := False\<rparr>) example_env example_world = (res, w')
      \<and> countOf M_upstream_request ''cmems'' w' > 0"
proof -
  let ?opts = "example_request\<lparr>limits := \<lparr>perMinute = 9, perHour = 9, perDay = 9\<rparr>, retryable := False\<rparr>"
  obtain res w' where run: "request ?opts example_env example_world = (res, w')" by fastforce
  have "failuresOf (providerId ?opts) (snd (request ?opts example_env example_world)) = 6"
    by code_simp
  then have "failuresOf (providerId ?opts) w' = 6" using run by simp
  then have "failuresOf (providerId ?opts) example_world < failuresOf (providerId ?opts) w'"
    by (simp add: failuresOf_def example_world_def open_example_def setCircuit_def
        example_request_def)
  from failures_are_evidence [OF run this] run show ?thesis
    by (auto simp: example_request_def)
qed

end
