(* ===== verification/Lru_Map.thy ===== *)
theory Lru_Map
  imports Prelude
begin

text \<open>
  The use of a JavaScript \<open>Map\<close> as a least-recently-used cache, which the in-process cache
  store and the decoded-tile cache share: a use deletes the key and sets it again, which
  moves it to the end of the insertion order, and a loop deletes from the front while there
  are too many entries. The locale states that contract and proves once what it gives.
\<close>

definition touch :: "'k \<Rightarrow> 'v \<Rightarrow> ('k, 'v) jsmap \<Rightarrow> ('k, 'v) jsmap" where
  "touch k v m = js_set k v (js_delete k m)"

lemma length_js_delete_Cons: "length (js_delete k ((k, v) # m)) < length ((k, v) # m)"
  by (simp add: js_delete_filter le_imp_less_Suc)

text \<open>\<open>while (size > max) delete(keys().next())\<close>, with the number of entries it deleted.\<close>

function evictOldest :: "nat \<Rightarrow> ('k, 'v) jsmap \<Rightarrow> nat \<times> ('k, 'v) jsmap" where
  "evictOldest maxEntries m =
     (if length m > maxEntries
      then (case m of
              [] \<Rightarrow> (0, m)
            | (oldest, v) # rest \<Rightarrow>
                (let (n, m') = evictOldest maxEntries (js_delete oldest m) in (n + 1, m')))
      else (0, m))"
  by pat_completeness auto

termination
  by (relation "measure (\<lambda>(maxEntries, m). length m)") (use length_js_delete_Cons in auto)

declare evictOldest.simps [simp del]

definition keepLast :: "nat \<Rightarrow> 'a list \<Rightarrow> 'a list" where
  "keepLast n xs = drop (length xs - n) xs"

lemma length_keepLast [simp]: "length (keepLast n xs) = min n (length xs)"
  by (simp add: keepLast_def)

lemma keepLast_all [simp]: "length xs \<le> n \<Longrightarrow> keepLast n xs = xs"
  by (simp add: keepLast_def)

lemma evictOldest_eq: "js_wf m \<Longrightarrow> evictOldest n m = (length m - n, keepLast n m)"
proof (induction m)
  case Nil
  then show ?case by (simp add: evictOldest.simps keepLast_def)
next
  case (Cons e m)
  obtain k v where e: "e = (k, v)" by (cases e)
  from Cons.prems have wf: "js_wf m" and fresh: "k \<notin> set (js_keys m)"
    by (simp_all add: js_wf_def e)
  have "js_delete k ((k, v) # m) = m"
    using js_delete_absent [OF fresh] by (simp add: js_delete_filter)
  with Cons.IH [OF wf] show ?case
    by (subst evictOldest.simps) (auto simp: e keepLast_def Suc_diff_le)
qed

lemma touch_append: "touch k v m = js_delete k m @ [(k, v)]"
  unfolding touch_def by (rule js_set_absent) simp

lemma js_wf_touch [simp, intro]: "js_wf m \<Longrightarrow> js_wf (touch k v m)"
  by (simp add: touch_def)

lemma js_get_touch [simp]: "js_get (touch k v m) k' = (if k' = k then Some v else js_get m k')"
  by (simp add: touch_def)

lemma js_wf_keepLast: "js_wf m \<Longrightarrow> js_wf (keepLast n m)"
  by (simp add: js_wf_def keepLast_def drop_map [symmetric])

lemma length_js_delete_mem:
  "js_wf m \<Longrightarrow> js_get m k = Some v \<Longrightarrow> length (js_delete k m) = length m - 1"
proof -
  assume wf: "js_wf m" and k: "js_get m k = Some v"
  have "length (js_delete k m) = card (set (js_keys (js_delete k m)))"
    using js_wf_delete [OF wf] distinct_card unfolding js_wf_def by (metis length_map)
  also have "\<dots> = card (set (js_keys m)) - 1"
    using k js_get_eq_None [of m k] by (simp add: js_keys_delete)
  also have "card (set (js_keys m)) = length m"
    using wf distinct_card unfolding js_wf_def by (metis length_map)
  finally show ?thesis .
qed

lemma js_get_keepLast_sub:
  "js_wf m \<Longrightarrow> js_get (keepLast n m) k = Some v \<Longrightarrow> js_get m k = Some v"
  unfolding js_get_def js_wf_def keepLast_def
  by (metis in_set_dropD map_of_SomeD map_of_is_SomeI)

locale lru =
  fixes step :: "'op \<Rightarrow> 's \<Rightarrow> 's"
    and key :: "'op \<Rightarrow> 'k"
    and entries :: "'s \<Rightarrow> ('k, 'v) jsmap"
    and capacity :: nat
    and ok :: "'s \<Rightarrow> bool"
  assumes ok_wf: "ok s \<Longrightarrow> js_wf (entries s) \<and> length (entries s) \<le> capacity"
    and ok_step: "ok s \<Longrightarrow> ok (step op s)"
    and step_cases: "ok s \<Longrightarrow>
      entries (step op s) = entries s
      \<or> entries (step op s) = js_delete (key op) (entries s)
      \<or> (\<exists>v. entries (step op s) = keepLast capacity (touch (key op) v (entries s)))"
begin

lemma run_ok: "ok s \<Longrightarrow> ok (fold step ops s)"
  by (induction ops arbitrary: s) (simp_all add: ok_step)

lemma never_too_many: "ok s \<Longrightarrow> length (entries (fold step ops s)) \<le> capacity"
  using ok_wf run_ok by blast

text \<open>The entry of \<open>k\<close> with only keys of \<open>T\<close> used after it.\<close>

definition behind :: "'k \<Rightarrow> 'v \<Rightarrow> 'k set \<Rightarrow> 's \<Rightarrow> bool" where
  "behind k v T s \<longleftrightarrow> (\<exists>pre post. entries s = pre @ (k, v) # post \<and> set (js_keys post) \<subseteq> T)"

lemma behind_step:
  assumes "ok s" and "behind k v T s" and "key op \<noteq> k"
    and "finite T" and "card (insert (key op) T) < capacity"
  shows "behind k v (insert (key op) T) (step op s)"
proof -
  obtain pre post where e: "entries s = pre @ (k, v) # post" and post: "set (js_keys post) \<subseteq> T"
    using assms(2) by (auto simp: behind_def)
  let ?post = "js_delete (key op) post"
  have del: "js_delete (key op) (entries s) = js_delete (key op) pre @ (k, v) # ?post"
    using assms(3) by (auto simp: e js_delete_filter)
  from ok_wf [OF assms(1)] have wf: "js_wf (entries s)" by blast
  from step_cases [OF assms(1), of op] show ?thesis
  proof (elim disjE exE)
    assume "entries (step op s) = entries s"
    with e post show ?thesis by (auto simp: behind_def)
  next
    assume "entries (step op s) = js_delete (key op) (entries s)"
    moreover have "set (js_keys ?post) \<subseteq> insert (key op) T" using post by auto
    ultimately show ?thesis using del unfolding behind_def by metis
  next
    fix u assume u: "entries (step op s) = keepLast capacity (touch (key op) u (entries s))"
    let ?all = "js_delete (key op) pre @ (k, v) # (?post @ [(key op, u)])"
    have touch: "touch (key op) u (entries s) = ?all" by (simp add: touch_append del)
    have sub: "set (js_keys (?post @ [(key op, u)])) \<subseteq> insert (key op) T"
      using post by (auto simp: js_keys_delete)
    have "distinct (js_keys ?all)"
      using js_wf_touch [OF wf, of "key op" u] unfolding js_wf_def touch .
    then have "distinct (js_keys (?post @ [(key op, u)]))" by (simp del: js_keys_delete_image)
    then have "length (?post @ [(key op, u)]) = card (set (js_keys (?post @ [(key op, u)])))"
      using distinct_card by (metis length_map)
    also have "\<dots> \<le> card (insert (key op) T)" using sub assms(4) by (intro card_mono) auto
    finally have "length (?post @ [(key op, u)]) < capacity" using assms(5) by simp
    then have "length ?all - capacity \<le> length (js_delete (key op) pre)" by simp
    then have "keepLast capacity ?all =
        drop (length ?all - capacity) (js_delete (key op) pre) @ (k, v) # (?post @ [(key op, u)])"
      unfolding keepLast_def by (subst drop_append) simp
    with u touch sub show ?thesis unfolding behind_def by metis
  qed
qed

text \<open>An entry is not evicted before as many other keys as there is room for were used.\<close>

lemma recent_survives:
  assumes "ok s" and "entries s = pre @ [(k, v)]" and "\<forall>op \<in> set ops. key op \<noteq> k"
    and "card (set (map key ops)) < capacity"
  shows "js_get (entries (fold step ops s)) k = Some v"
proof -
  have "behind k v (T \<union> set (map key ops)) (fold step ops s)"
    if "behind k v T s" "ok s" "finite T" "card (T \<union> set (map key ops)) < capacity" for T
    using that assms(3)
  proof (induction ops arbitrary: s T)
    case Nil
    then show ?case by simp
  next
    case (Cons op ops)
    have "card (insert (key op) T) \<le> card (T \<union> set (map key (op # ops)))"
      using Cons.prems(3) by (intro card_mono) auto
    with Cons.prems have "behind k v (insert (key op) T) (step op s)"
      by (intro behind_step) auto
    from Cons.IH [OF this ok_step [OF Cons.prems(2)]] Cons.prems show ?case by simp
  qed
  moreover have "behind k v {} s" using assms(2) by (auto simp: behind_def)
  ultimately have "behind k v (set (map key ops)) (fold step ops s)"
    using assms(1,4) by fastforce
  then obtain pre' post where "entries (fold step ops s) = pre' @ (k, v) # post"
    by (auto simp: behind_def)
  moreover have "js_wf (entries (fold step ops s))" using ok_wf run_ok [OF assms(1)] by blast
  ultimately show ?thesis
    unfolding js_get_def js_wf_def by (metis in_set_conv_decomp map_of_is_SomeI)
qed

end

end
