(* ===== verification/Upstream_Cache_Store.thy ===== *)
theory Upstream_Cache_Store
  imports Upstream_Metrics Lru_Map
begin

text \<open>
  \<open>src/upstream/cache/upstream-cache.store.ts\<close>: the cache entry, the bounded in-process
  store and the Redis store, and the contract both give the cache service. The Redis client,
  \<open>JSON.parse\<close>, \<open>JSON.stringify\<close> and the unchecked cast of the parsed value to an entry are
  parameters of the Redis store.
\<close>

section \<open>Entries, the world a store acts on, and its operations\<close>

record 'a upstreamCacheEntry =
  kind :: upstreamOutcomeKind
  payload :: "'a option"
  entryReason :: "reason option"
  storedAtMs :: ms
  validAtMs :: "ms option"
  ttlSeconds :: int

record 's cacheWorld =
  wNow :: ms
  wStore :: 's
  wMetrics :: metrics

record ('a, 's) upstreamCacheStore =
  cacheGet :: "string \<Rightarrow> 's cacheWorld \<Rightarrow> 'a upstreamCacheEntry option \<times> 's cacheWorld"
  cacheSet :: "string \<Rightarrow> 'a upstreamCacheEntry \<Rightarrow> int \<Rightarrow> 's cacheWorld \<Rightarrow> 's cacheWorld"

section \<open>The in-process store\<close>

definition DEFAULT_MAX_ENTRIES :: nat where "DEFAULT_MAX_ENTRIES = 2000"

record 'a heldEntry =
  held :: "'a upstreamCacheEntry"
  expiresAtMs :: ms

record 'a inProcessStore =
  storeEntries :: "(string, 'a heldEntry) jsmap"
  maxEntries :: nat

definition newInProcessStore :: "nat \<Rightarrow> 'a inProcessStore" where
  "newInProcessStore n = \<lparr>storeEntries = [], maxEntries = n\<rparr>"

definition inProcessGet ::
  "string \<Rightarrow> ms \<Rightarrow> 'a inProcessStore \<Rightarrow> 'a upstreamCacheEntry option \<times> 'a inProcessStore" where
  "inProcessGet k now s =
     (case js_get (storeEntries s) k of
        None \<Rightarrow> (None, s)
      | Some h \<Rightarrow>
          if expiresAtMs h \<le> now
          then (None, s\<lparr>storeEntries := js_delete k (storeEntries s)\<rparr>)
          else (Some (held h), s\<lparr>storeEntries := touch k h (storeEntries s)\<rparr>))"

definition inProcessSet ::
  "string \<Rightarrow> 'a upstreamCacheEntry \<Rightarrow> int \<Rightarrow> ms \<Rightarrow> 'a inProcessStore \<Rightarrow> 'a inProcessStore" where
  "inProcessSet k e retentionSeconds now s =
     s\<lparr>storeEntries := snd (evictOldest (maxEntries s)
        (touch k \<lparr>held = e, expiresAtMs = now + retentionSeconds * 1000\<rparr> (storeEntries s)))\<rparr>"

definition inProcessStoreOps :: "('a, 'a inProcessStore) upstreamCacheStore" where
  "inProcessStoreOps =
     \<lparr>cacheGet = (\<lambda>k w. let (r, s) = inProcessGet k (wNow w) (wStore w) in (r, w\<lparr>wStore := s\<rparr>)),
      cacheSet = (\<lambda>k e r w. w\<lparr>wStore := inProcessSet k e r (wNow w) (wStore w)\<rparr>)\<rparr>"

text \<open>What a read of the store at time \<open>t\<close> finds.\<close>

definition inProcessView :: "'a inProcessStore \<Rightarrow> ms \<Rightarrow> string \<Rightarrow> 'a upstreamCacheEntry option" where
  "inProcessView s t k =
     (case js_get (storeEntries s) k of
        None \<Rightarrow> None | Some h \<Rightarrow> if expiresAtMs h \<le> t then None else Some (held h))"

definition inProcess_ok :: "nat \<Rightarrow> 'a inProcessStore \<Rightarrow> bool" where
  "inProcess_ok n s \<longleftrightarrow> js_wf (storeEntries s) \<and> length (storeEntries s) \<le> n \<and> maxEntries s = n"

lemma inProcess_ok_new: "inProcess_ok n (newInProcessStore n)"
  by (simp add: inProcess_ok_def newInProcessStore_def)

text \<open>A store as a least-recently-used map: a call, its key and its step.\<close>

datatype 'a storeCall = GetCall string ms | SetCall string "'a upstreamCacheEntry" int ms

fun callKey :: "'a storeCall \<Rightarrow> string" where
  "callKey (GetCall k now) = k"
| "callKey (SetCall k e r now) = k"

fun storeStep :: "'a storeCall \<Rightarrow> 'a inProcessStore \<Rightarrow> 'a inProcessStore" where
  "storeStep (GetCall k now) s = snd (inProcessGet k now s)"
| "storeStep (SetCall k e r now) s = inProcessSet k e r now s"

lemma inProcessGet_entries:
  assumes "inProcess_ok n s" and "inProcessGet k now s = (r, s')"
  shows "inProcess_ok n s' \<and> r = inProcessView s now k
    \<and> (storeEntries s' = storeEntries s \<or> storeEntries s' = js_delete k (storeEntries s)
       \<or> (\<exists>v. storeEntries s' = keepLast n (touch k v (storeEntries s))))"
proof (cases "js_get (storeEntries s) k")
  case None
  with assms show ?thesis by (simp add: inProcessGet_def inProcessView_def)
next
  case (Some h)
  have wf: "js_wf (storeEntries s)" and len: "length (storeEntries s) \<le> n"
    using assms(1) by (simp_all add: inProcess_ok_def)
  have shrink: "length (js_delete k (storeEntries s)) = length (storeEntries s) - 1"
    using wf Some by (rule length_js_delete_mem)
  moreover have "storeEntries s \<noteq> []" using Some by auto
  ultimately have small: "length (touch k h (storeEntries s)) \<le> n"
    using len by (simp add: touch_append)
  show ?thesis
  proof (cases "expiresAtMs h \<le> now")
    case True
    with assms Some wf len shrink show ?thesis
      by (auto simp: inProcessGet_def inProcessView_def inProcess_ok_def)
  next
    case False
    with assms Some wf have s': "s' = s\<lparr>storeEntries := touch k h (storeEntries s)\<rparr>" "r = Some (held h)"
      by (auto simp: inProcessGet_def)
    then have "storeEntries s' = keepLast n (touch k h (storeEntries s))" using small by simp
    moreover have "inProcess_ok n s' \<and> r = inProcessView s now k"
      using s' False Some assms(1) wf small by (auto simp: inProcessView_def inProcess_ok_def)
    ultimately show ?thesis by blast
  qed
qed

lemma inProcessSet_entries:
  assumes "inProcess_ok n s"
  shows "inProcess_ok n (inProcessSet k e r now s)"
    and "storeEntries (inProcessSet k e r now s)
      = keepLast n (touch k \<lparr>held = e, expiresAtMs = now + r * 1000\<rparr> (storeEntries s))"
proof -
  have wf: "js_wf (touch k \<lparr>held = e, expiresAtMs = now + r * 1000\<rparr> (storeEntries s))"
    using assms by (auto simp: inProcess_ok_def)
  with assms show eq: "storeEntries (inProcessSet k e r now s)
      = keepLast n (touch k \<lparr>held = e, expiresAtMs = now + r * 1000\<rparr> (storeEntries s))"
    by (simp add: inProcessSet_def evictOldest_eq inProcess_ok_def)
  from eq wf assms show "inProcess_ok n (inProcessSet k e r now s)"
    by (auto simp: inProcess_ok_def js_wf_keepLast inProcessSet_def)
qed

interpretation storeLru: lru storeStep callKey storeEntries n "inProcess_ok n" for n
proof (unfold_locales, goal_cases)
  case (1 s)
  then show ?case by (simp add: inProcess_ok_def)
next
  case (2 s op)
  then show ?case
    by (cases op) (auto dest: inProcessGet_entries inProcessSet_entries simp: prod_eq_iff
        intro: inProcessSet_entries(1))
next
  case (3 s op)
  show ?case
  proof (cases op)
    case (GetCall k now)
    then show ?thesis using inProcessGet_entries [OF 3, of k now]
      by (metis callKey.simps(1) prod.collapse storeStep.simps(1))
  next
    case (SetCall k e r now)
    then show ?thesis using inProcessSet_entries(2) [OF 3, of k e r now] by auto
  qed
qed

text \<open>
  Whatever calls a store of capacity \<open>n\<close> has served, it holds at most \<open>n\<close> entries, and an
  entry just written is still found, until its retention ends, as long as calls have used
  fewer than \<open>n\<close> other keys since.
\<close>

theorem store_bounded_keeps_recent:
  "length (storeEntries (fold storeStep before (newInProcessStore n))) \<le> n
   \<and> (card (set (map callKey after)) < n \<and> k \<notin> set (map callKey after) \<and> t < now + r * 1000
      \<longrightarrow> inProcessView (fold storeStep (before @ SetCall k e r now # after) (newInProcessStore n)) t k
          = Some e)"
proof -
  let ?s = "fold storeStep before (newInProcessStore n)"
  have ok: "inProcess_ok n ?s" by (rule storeLru.run_ok [OF inProcess_ok_new])
  note put = inProcessSet_entries [OF ok, of k e r now]
  have "inProcessView (fold storeStep after (inProcessSet k e r now ?s)) t k = Some e"
    if "card (set (map callKey after)) < n" "k \<notin> set (map callKey after)" "t < now + r * 1000"
  proof -
    let ?h = "\<lparr>held = e, expiresAtMs = now + r * 1000\<rparr>"
    have "storeEntries (inProcessSet k e r now ?s)
        = drop (length (js_delete k (storeEntries ?s)) + 1 - n) (js_delete k (storeEntries ?s)) @ [(k, ?h)]"
      using put(2) that(1) by (simp add: keepLast_def touch_append)
    moreover have "\<forall>c \<in> set after. callKey c \<noteq> k" using that(2) by auto
    ultimately have "js_get (storeEntries (fold storeStep after (inProcessSet k e r now ?s))) k = Some ?h"
      using storeLru.recent_survives [OF put(1) _ _ that(1)] by blast
    with that(3) show ?thesis by (simp add: inProcessView_def)
  qed
  then show ?thesis using storeLru.ok_wf [OF ok] by simp
qed

definition exampleEntry :: "int \<Rightarrow> int upstreamCacheEntry" where
  "exampleEntry v = \<lparr>kind = K_ok, payload = Some v, entryReason = None, storedAtMs = 0,
     validAtMs = None, ttlSeconds = 60\<rparr>"

theorem store_bounded_keeps_recent_witness:
  "inProcessView (fold storeStep ([SetCall ''a'' (exampleEntry 1) 60 0]
       @ SetCall ''b'' (exampleEntry 2) 60 1 # [GetCall ''a'' 2]) (newInProcessStore 2)) 5 ''b''
     = Some (exampleEntry 2)"
  using store_bounded_keeps_recent [of "[SetCall ''a'' (exampleEntry 1) 60 0]" 2
      "[GetCall ''a'' 2]" "''b''" 5 1 60 "exampleEntry 2"]
  by simp

section \<open>The contract of a cache store\<close>

locale cache_store =
  fixes ops :: "('a, 's) upstreamCacheStore"
    and view :: "'s \<Rightarrow> ms \<Rightarrow> string \<Rightarrow> 'a upstreamCacheEntry option"
    and ok :: "'s \<Rightarrow> bool"
  assumes get_law: "ok (wStore w) \<Longrightarrow> cacheGet ops k w = (r, w') \<Longrightarrow>
      ok (wStore w') \<and> wNow w \<le> wNow w'
      \<and> (\<forall>t \<ge> wNow w'. view (wStore w') t = view (wStore w) t)
      \<and> (\<forall>e. r = Some e \<longrightarrow> view (wStore w) (wNow w) k = Some e)"
    and set_law: "ok (wStore w) \<Longrightarrow>
      ok (wStore (cacheSet ops k e n w)) \<and> wNow w \<le> wNow (cacheSet ops k e n w)
      \<and> (\<forall>t k' e'. view (wStore (cacheSet ops k e n w)) t k' = Some e' \<longrightarrow>
            (k' = k \<and> e' = e) \<or> (k' \<noteq> k \<and> view (wStore w) t k' = Some e'))"

lemma inProcessGet_view:
  assumes "inProcess_ok n s" and "inProcessGet k now s = (r, s')" and "now \<le> t"
  shows "inProcessView s' t k' = inProcessView s t k'"
  using assms
  by (auto simp: inProcessGet_def inProcessView_def split: option.splits if_splits)

lemma inProcessSet_view:
  assumes "inProcess_ok n s" and "inProcessView (inProcessSet k e r now s) t k' = Some e'"
  shows "(k' = k \<and> e' = e) \<or> (k' \<noteq> k \<and> inProcessView s t k' = Some e')"
proof -
  let ?h = "\<lparr>held = e, expiresAtMs = now + r * 1000\<rparr>"
  obtain h where h: "js_get (storeEntries (inProcessSet k e r now s)) k' = Some h"
      "held h = e'" "\<not> expiresAtMs h \<le> t"
    using assms(2) by (auto simp: inProcessView_def split: option.splits if_splits)
  have "js_wf (touch k ?h (storeEntries s))" using assms(1) by (auto simp: inProcess_ok_def)
  from js_get_keepLast_sub [OF this] h(1) inProcessSet_entries(2) [OF assms(1), of k e r now]
  have "js_get (touch k ?h (storeEntries s)) k' = Some h" by simp
  with h(2,3) show ?thesis by (auto simp: inProcessView_def split: if_splits)
qed

interpretation inProcess: cache_store inProcessStoreOps inProcessView "inProcess_ok n" for n
proof (unfold_locales, goal_cases)
  case (1 w k r w')
  then obtain s where "inProcessGet k (wNow w) (wStore w) = (r, s)" "w' = w\<lparr>wStore := s\<rparr>"
    by (auto simp: inProcessStoreOps_def split: prod.splits)
  with inProcessGet_entries [OF 1(1) this(1)] inProcessGet_view [OF 1(1) this(1)]
  show ?case by auto
next
  case (2 w k e r)
  from inProcessSet_entries(1) [OF 2] inProcessSet_view [OF 2]
  show ?case by (auto simp: inProcessStoreOps_def)
qed

section \<open>The Redis store\<close>

text \<open>
  What \<open>JSON.parse\<close> gives; a number too large for a double is read as infinite, \<open>None\<close> here.
\<close>

datatype json =
    J_null
  | J_bool bool
  | J_number "rat option"
  | J_string string
  | J_array "json list"
  | J_object "(string \<times> json) list"

fun kindOfName :: "string \<Rightarrow> upstreamOutcomeKind option" where
  "kindOfName s =
     map_of [(''ok'', K_ok), (''no_data'', K_no_data), (''transient'', K_transient),
       (''rate_limited'', K_rate_limited), (''client_error'', K_client_error),
       (''schema_error'', K_schema_error), (''budget_exhausted'', K_budget_exhausted)] s"

text \<open>\<open>Number.isFinite\<close> of a property, which is undefined where it is absent.\<close>

definition isFiniteField :: "json option \<Rightarrow> bool" where
  "isFiniteField x = (case x of Some (J_number (Some r)) \<Rightarrow> True | _ \<Rightarrow> False)"

definition isValidCacheEntry :: "json \<Rightarrow> bool" where
  "isValidCacheEntry v =
     (case v of
        J_object fs \<Rightarrow>
          (let entry = map_of fs
           in (case entry ''kind'' of Some (J_string k) \<Rightarrow> kindOfName k \<noteq> None | _ \<Rightarrow> False)
              \<and> isFiniteField (entry ''storedAtMs'')
              \<and> isFiniteField (entry ''ttlSeconds'')
              \<and> (entry ''validAtMs'' = Some J_null \<or> isFiniteField (entry ''validAtMs''))
              \<and> (case entry ''reason'' of
                    Some J_null \<Rightarrow> True | Some (J_string s) \<Rightarrow> True | _ \<Rightarrow> False))
      | _ \<Rightarrow> False)"

definition CACHE_DEGRADED_LOG_EVERY_MS :: ms where "CACHE_DEGRADED_LOG_EVERY_MS = 60000"

text \<open>
  The Redis client: what \<open>get\<close> answers (\<open>None\<close> when it rejects, \<open>Some None\<close> for an absent
  key) and whether \<open>setWithTtl\<close> succeeds, each with the milliseconds it takes.
\<close>

record 'r redisPort =
  redisGet :: "string \<Rightarrow> ms \<Rightarrow> 'r \<Rightarrow> string option option \<times> nat \<times> 'r"
  redisSetWithTtl :: "string \<Rightarrow> string \<Rightarrow> int \<Rightarrow> ms \<Rightarrow> 'r \<Rightarrow> bool \<times> nat \<times> 'r"

definition degradedCache :: "string \<Rightarrow> 'r cacheWorld \<Rightarrow> 'r cacheWorld" where
  "degradedCache operation w =
     w\<lparr>wMetrics := snd (throttledEvent L_warn (''cache-degraded:'' @ operation)
        CACHE_DEGRADED_LOG_EVERY_MS ''redis cache degraded'' (wNow w)
        (increment M_redis_degraded ''cache'' (wMetrics w)))\<rparr>"

definition redisCacheGet ::
  "'r redisPort \<Rightarrow> (string \<Rightarrow> json option) \<Rightarrow> (json \<Rightarrow> 'a upstreamCacheEntry)
   \<Rightarrow> string \<Rightarrow> 'r cacheWorld \<Rightarrow> 'a upstreamCacheEntry option \<times> 'r cacheWorld" where
  "redisCacheGet redis jsonParse asEntry k w0 =
     (let (answer, taken, r) = redisGet redis (''upstream:cache:'' @ k) (wNow w0) (wStore w0);
          w = w0\<lparr>wNow := wNow w0 + int taken, wStore := r\<rparr>
      in case answer of
           None \<Rightarrow> (None, degradedCache ''read'' w)
         | Some None \<Rightarrow> (None, w)
         | Some (Some raw) \<Rightarrow>
             (case jsonParse raw of
                None \<Rightarrow> (None, degradedCache ''parse'' w)
              | Some parsed \<Rightarrow>
                  if \<not> isValidCacheEntry parsed then (None, degradedCache ''validate'' w)
                  else (Some (asEntry parsed), w)))"

definition redisCacheSet ::
  "'r redisPort \<Rightarrow> ('a upstreamCacheEntry \<Rightarrow> string)
   \<Rightarrow> string \<Rightarrow> 'a upstreamCacheEntry \<Rightarrow> int \<Rightarrow> 'r cacheWorld \<Rightarrow> 'r cacheWorld" where
  "redisCacheSet redis jsonStringify k e retentionSeconds w0 =
     (let (stored, taken, r) = redisSetWithTtl redis (''upstream:cache:'' @ k) (jsonStringify e)
            (max 1 retentionSeconds * 1000) (wNow w0) (wStore w0);
          w = w0\<lparr>wNow := wNow w0 + int taken, wStore := r\<rparr>
      in if stored then w else degradedCache ''write'' w)"

definition redisCacheOps ::
  "'r redisPort \<Rightarrow> (string \<Rightarrow> json option) \<Rightarrow> (json \<Rightarrow> 'a upstreamCacheEntry)
   \<Rightarrow> ('a upstreamCacheEntry \<Rightarrow> string) \<Rightarrow> ('a, 'r) upstreamCacheStore" where
  "redisCacheOps redis jsonParse asEntry jsonStringify =
     \<lparr>cacheGet = redisCacheGet redis jsonParse asEntry,
      cacheSet = redisCacheSet redis jsonStringify\<rparr>"

text \<open>
  A read through Redis returns an entry exactly when the server answered with text that
  parses to a well-shaped entry. A server that is down, text that is not JSON and JSON of
  another shape are all a miss that is counted as a degradation; an absent key is a plain
  miss.
\<close>

theorem redis_read_validates:
  "case redisCacheGet redis jsonParse asEntry k w of (result, w') \<Rightarrow>
     (case fst (redisGet redis (''upstream:cache:'' @ k) (wNow w) (wStore w)) of
        Some (Some raw) \<Rightarrow>
          (case jsonParse raw of
             Some j \<Rightarrow> result = (if isValidCacheEntry j then Some (asEntry j) else None)
           | None \<Rightarrow> result = None)
      | _ \<Rightarrow> result = None)
     \<and> getMetric M_redis_degraded ''cache'' (wMetrics w')
        = getMetric M_redis_degraded ''cache'' (wMetrics w)
          + (if result = None
               \<and> fst (redisGet redis (''upstream:cache:'' @ k) (wNow w) (wStore w)) \<noteq> Some None
             then 1 else 0)"
  by (auto simp: redisCacheGet_def degradedCache_def Let_def split: prod.split option.split)

section \<open>Reading takes time\<close>

text \<open>A store whose reads do not turn the clock back: the in-process one, and the one on Redis.\<close>

locale timely_store =
  fixes ops :: "('a, 's) upstreamCacheStore"
  assumes get_time: "cacheGet ops k w = (r, w') \<Longrightarrow> wNow w \<le> wNow w'"

interpretation inProcessTimely: timely_store inProcessStoreOps
  by unfold_locales (auto simp: inProcessStoreOps_def split: prod.splits)

interpretation redisTimely: timely_store "redisCacheOps redis jsonParse asEntry jsonStringify"
  for redis jsonParse asEntry jsonStringify
  by unfold_locales (auto simp: redisCacheOps_def redisCacheGet_def degradedCache_def Let_def
      split: prod.splits option.splits if_splits)

end
