(* ===== verification/Single_Flight.thy ===== *)
theory Single_Flight
  imports Upstream_Cache_Store
begin

text \<open>
  \<open>src/upstream/cache/single-flight.ts\<close>: coalescing of refreshes. The in-process class is
  concurrent, so it is a step relation over its map of promises; the Redis class runs one
  refresh under a lock and is a function of the client and of the refresh.
\<close>

section \<open>What a run answers\<close>

datatype 'b singleFlightResult = Ran 'b | Joined 'b | Lost

type_synonym ('b, 'w) refresh = "'w \<Rightarrow> (string + 'b) \<times> 'w"

type_synonym ('b, 'w) singleFlight =
  "string \<Rightarrow> ('b, 'w) refresh \<Rightarrow> 'w \<Rightarrow> (string + 'b singleFlightResult) \<times> 'w"

section \<open>In process\<close>

text \<open>
  A promise is the number of the refresh it stands for. A call either joins the promise it
  finds or starts a refresh and stores its promise; when the refresh settles, the key is
  deleted and every caller of that promise has the same value.
\<close>

record inProcessFlight =
  inFlightMap :: "(string, nat) jsmap"
  started :: "(nat \<times> string) list"
  settled :: "nat set"
  answers :: "(nat \<times> nat) list"

datatype flightLabel = Start string | Join string | Settle string

definition newInProcessFlight :: inProcessFlight where
  "newInProcessFlight = \<lparr>inFlightMap = [], started = [], settled = {}, answers = []\<rparr>"

inductive flightStep :: "inProcessFlight \<Rightarrow> flightLabel \<Rightarrow> inProcessFlight \<Rightarrow> bool" where
  start: "js_get (inFlightMap s) k = None \<Longrightarrow>
    flightStep s (Start k) (s\<lparr>inFlightMap := js_set k (length (started s)) (inFlightMap s),
      started := started s @ [(length (started s), k)],
      answers := answers s @ [(length (answers s), length (started s))]\<rparr>)"
| join: "js_get (inFlightMap s) k = Some p \<Longrightarrow>
    flightStep s (Join k) (s\<lparr>answers := answers s @ [(length (answers s), p)]\<rparr>)"
| settle: "js_get (inFlightMap s) k = Some p \<Longrightarrow>
    flightStep s (Settle k) (s\<lparr>inFlightMap := js_delete k (inFlightMap s), settled := insert p (settled s)\<rparr>)"

inductive_cases flightStepE: "flightStep s l s'"

inductive flightReachable :: "inProcessFlight \<Rightarrow> bool" where
  initial: "flightReachable newInProcessFlight"
| step: "flightReachable s \<Longrightarrow> flightStep s l s' \<Longrightarrow> flightReachable s'"

text \<open>A refresh is running while it was started and has not settled.\<close>

definition runningRefreshes :: "string \<Rightarrow> inProcessFlight \<Rightarrow> nat set" where
  "runningRefreshes k s = {p. (p, k) \<in> set (started s) \<and> p \<notin> settled s}"

definition flight_ok :: "inProcessFlight \<Rightarrow> bool" where
  "flight_ok s \<longleftrightarrow> distinct (map fst (started s)) \<and>
     (\<forall>p k. (p, k) \<in> set (started s) \<longrightarrow> p < length (started s))
     \<and> (\<forall>p. p \<in> settled s \<longrightarrow> p < length (started s))
     \<and> (\<forall>p k. (p, k) \<in> set (started s) \<and> p \<notin> settled s \<longleftrightarrow> js_get (inFlightMap s) k = Some p)"

lemma flight_ok_step: "flightStep s l s' \<Longrightarrow> flight_ok s \<Longrightarrow> flight_ok s'"
proof (induction rule: flightStep.induct)
  case (start s k)
  let ?n = "length (started s)"
  have fresh: "(?n, k') \<notin> set (started s)" "?n \<notin> settled s" for k'
    using start.prems by (auto simp: flight_ok_def)
  have inv: "(p, k') \<in> set (started s) \<and> p \<notin> settled s \<longleftrightarrow> js_get (inFlightMap s) k' = Some p"
    for p k'
    using start.prems by (simp add: flight_ok_def)
  have "(p, k') \<in> set (started s @ [(?n, k)]) \<and> p \<notin> settled s
      \<longleftrightarrow> js_get (js_set k ?n (inFlightMap s)) k' = Some p" for p k'
    using inv [of p k'] fresh start.hyps by auto
  moreover have "distinct (map fst (started s @ [(?n, k)]))"
    using start.prems fresh by (auto simp: flight_ok_def)
  ultimately show ?case using start.prems unfolding flight_ok_def by (auto simp: less_Suc_eq)
next
  case (join s k p)
  then show ?case by (simp add: flight_ok_def)
next
  case (settle s k p)
  then have inv: "(q, k') \<in> set (started s) \<and> q \<notin> settled s \<longleftrightarrow> js_get (inFlightMap s) k' = Some q"
    and dist: "distinct (map fst (started s))" for q k'
    by (simp_all add: flight_ok_def)
  have mine: "(p, k) \<in> set (started s)" using inv [of p k] settle.hyps by blast
  have own: "k' = k" if "(p, k') \<in> set (started s)" for k'
    using eq_key_imp_eq_value [OF dist that mine] .
  have "(q, k') \<in> set (started s) \<and> q \<notin> insert p (settled s)
      \<longleftrightarrow> js_get (js_delete k (inFlightMap s)) k' = Some q" for q k'
    using inv [of q k'] inv [of q k] inv [of p k] own settle.hyps by auto
  with settle.prems mine show ?case unfolding flight_ok_def by auto
qed

text \<open>
  In every state the in-process coalescer can reach, under any interleaving of callers
  and settling refreshes, at most one refresh of a key is running, and it is the one every
  further caller of that key joins; a key with no running refresh has no promise left.
\<close>

theorem one_refresh_per_key:
  assumes "flightReachable s"
  shows "runningRefreshes k s = (case js_get (inFlightMap s) k of None \<Rightarrow> {} | Some p \<Rightarrow> {p})"
proof -
  have "flight_ok s"
    using assms
  proof (induction rule: flightReachable.induct)
    case initial
    then show ?case by (simp add: flight_ok_def newInProcessFlight_def)
  next
    case (step s l s')
    then show ?case by (blast intro: flight_ok_step)
  qed
  then show ?thesis by (auto simp: flight_ok_def runningRefreshes_def split: option.split)
qed

theorem one_refresh_per_key_witness:
  "\<exists>s. flightReachable s \<and> runningRefreshes ''k'' s = {0}"
proof -
  let ?s = "newInProcessFlight\<lparr>inFlightMap := js_set ''k'' 0 [], started := [(0, ''k'')],
    answers := [(0, 0)]\<rparr>"
  have "flightStep newInProcessFlight (Start ''k'') ?s"
    using flightStep.start [of newInProcessFlight "''k''"] by (simp add: newInProcessFlight_def)
  then have "flightReachable ?s" by (blast intro: flightReachable.intros)
  from one_refresh_per_key [OF this, of "''k''"] have "runningRefreshes ''k'' ?s = {0}"
    by simp
  with \<open>flightReachable ?s\<close> show ?thesis by blast
qed

section \<open>Through Redis\<close>

definition REFRESH_LOCK_TTL_MS :: ms where "REFRESH_LOCK_TTL_MS = 15000"

text \<open>The lock operations of the port; \<open>None\<close> where the call rejects.\<close>

record 'w redisLockPort =
  setIfAbsent :: "string \<Rightarrow> string \<Rightarrow> ms \<Rightarrow> 'w \<Rightarrow> bool option \<times> 'w"
  deleteIfValueEquals :: "string \<Rightarrow> string \<Rightarrow> 'w \<Rightarrow> bool option \<times> 'w"

definition redisRun ::
  "('s cacheWorld) redisLockPort \<Rightarrow> ms \<Rightarrow> string \<Rightarrow> ('b, 's cacheWorld) singleFlight" where
  "redisRun redis lockTtlMs token key refresh w =
     (let lockKey = ''upstream:lock:'' @ key
      in case setIfAbsent redis lockKey token lockTtlMs w of
           (None, w1) \<Rightarrow>
             (let (v, w2) = refresh (w1\<lparr>wMetrics :=
                    event L_warn ''refresh lock unavailable'' (increment M_redis_degraded ''cache''
                      (wMetrics w1))\<rparr>)
              in (map_sum id Ran v, w2))
         | (Some False, w1) \<Rightarrow>
             (Inr Lost, w1\<lparr>wMetrics := increment M_singleflight_lost ''cache'' (wMetrics w1)\<rparr>)
         | (Some True, w1) \<Rightarrow>
             (let (v, w2) = refresh w1;
                  (gone, w3) = deleteIfValueEquals redis lockKey token w2
              in (map_sum id Ran v,
                  if gone = None
                  then w3\<lparr>wMetrics := event L_warn ''refresh lock release failed'' (wMetrics w3)\<rparr>
                  else w3)))"

text \<open>
  A run through Redis gives its lock back on every path on which it took it, also when
  the refresh throws, and never touches a lock it did not take: with \<open>released\<close> recording the
  client's releases, a run adds exactly one release of its own key with its own token when
  it acquired the lock and none otherwise; it refreshes unless another instance has the lock.
\<close>

theorem redis_run_releases_own_lock:
  assumes "\<And>k t w. released (snd (deleteIfValueEquals redis k t w)) = released w @ [(k, t)]"
    and "\<And>k t n w. released (snd (setIfAbsent redis k t n w)) = released w"
    and "\<And>w. released (snd (refresh w)) = released w"
    and "\<And>w m. released (w\<lparr>wMetrics := m\<rparr>) = released w"
  shows "released (snd (redisRun redis n token key refresh w)) = released w @
      (if fst (setIfAbsent redis (''upstream:lock:'' @ key) token n w) = Some True
       then [(''upstream:lock:'' @ key, token)] else [])
    \<and> (fst (redisRun redis n token key refresh w) = Inr Lost
        \<longleftrightarrow> fst (setIfAbsent redis (''upstream:lock:'' @ key) token n w) = Some False)"
proof -
  obtain a w1 where set: "setIfAbsent redis (''upstream:lock:'' @ key) token n w = (a, w1)"
    by fastforce
  have w1: "released w1 = released w" using assms(2) [of "''upstream:lock:'' @ key" token n w] set by simp
  have ran: "map_sum id Ran v \<noteq> Inr Lost" for v :: "string + 'b" by (cases v) simp_all
  consider "a = None" | "a = Some False" | "a = Some True" by (cases a) auto
  then show ?thesis
  proof cases
    case 1
    with set w1 assms(3,4) show ?thesis by (simp add: redisRun_def ran split: prod.split) (metis snd_conv)
  next
    case 2
    with set w1 assms(4) show ?thesis by (simp add: redisRun_def)
  next
    case 3
    with set w1 assms show ?thesis
      by (simp add: redisRun_def ran split: prod.split) (metis snd_conv)
  qed
qed

definition loggingLock :: "(string \<times> string) list cacheWorld redisLockPort" where
  "loggingLock =
     \<lparr>setIfAbsent = (\<lambda>k t n w. (Some True, w)),
      deleteIfValueEquals = (\<lambda>k t w. (Some True, w\<lparr>wStore := wStore w @ [(k, t)]\<rparr>))\<rparr>"

theorem redis_run_releases_own_lock_witness:
  "wStore (snd (redisRun loggingLock 15000 ''tok'' ''x'' (\<lambda>w. (Inl ''boom'' :: string + nat, w))
      \<lparr>wNow = 0, wStore = [], wMetrics = metrics_init\<rparr>)) = [(''upstream:lock:x'', ''tok'')]"
proof -
  have del: "wStore (snd (deleteIfValueEquals loggingLock k t w)) = wStore w @ [(k, t)]" for k t w
    by (simp add: loggingLock_def)
  have set: "wStore (snd (setIfAbsent loggingLock k t n w)) = wStore w" for k t n w
    by (simp add: loggingLock_def)
  have ref: "wStore (snd ((\<lambda>w. (Inl ''boom'' :: string + nat, w)) w)) = wStore w"
    for w :: "(string \<times> string) list cacheWorld"
    by simp
  have met: "wStore (w\<lparr>wMetrics := m\<rparr>) = wStore w" for w :: "(string \<times> string) list cacheWorld" and m
    by simp
  from redis_run_releases_own_lock [where released = wStore and redis = loggingLock and n = 15000
      and token = "''tok''" and key = "''x''" and refresh = "\<lambda>w. (Inl ''boom'' :: string + nat, w)"
      and w = "\<lparr>wNow = 0, wStore = [], wMetrics = metrics_init\<rparr>", OF del set ref met]
  show ?thesis by (simp add: loggingLock_def)
qed

end
