(* ===== verification/Upstream_Cache_Service.thy ===== *)
theory Upstream_Cache_Service
  imports Operation_Deadline Single_Flight
begin

text \<open>
  \<open>src/upstream/cache/upstream-cache.service.ts\<close>: read-through caching with negative entries,
  stale-while-revalidate and the staleness ceilings. The store is a value of its interface and
  the single-flight another; the background revalidation a read starts is an operation of its
  own, and the result of \<open>read\<close> says whether it started one. A UTC time is its milliseconds.
\<close>

section \<open>Options and results\<close>

record outcomeTtlTable =
  ttl_ok :: int
  ttl_no_data :: int
  ttl_transient :: int
  ttl_rate_limited :: int
  ttl_client_error :: int
  ttl_schema_error :: int

datatype cachedReadOrigin =
    O_fresh_hit | O_refreshed | O_joined | O_negative_hit | O_stale_revalidating
  | O_stale_after_failure | O_polled | O_peeked | O_unavailable

record 'a cachedRead =
  rValue :: "'a option"
  rKind :: upstreamOutcomeKind
  rFreshness :: "freshness option"
  rCacheAgeSeconds :: "int option"
  rStaleSince :: "ms option"
  rValidAt :: "ms option"
  rFetchedAt :: "ms option"
  rReason :: "reason option"
  rOrigin :: cachedReadOrigin

record peekOptions =
  optKey :: string
  optProviderId :: string
  optTtls :: outcomeTtlTable
  optCeilings :: stalenessCeilings

record ('a, 's) readThroughOptions = peekOptions +
  optDeadlineMs :: ms
  optDeadline :: "operationDeadline option"
  optRevalidateDeadlineMs :: "ms option"
  optRefresh :: "operationDeadline \<Rightarrow> ('a upstreamOutcome, 's cacheWorld) refresh"

record pollOptions =
  pollAttempts :: nat
  pollDelayMs :: ms
  pollSleep :: "ms \<Rightarrow> ms \<Rightarrow> ms"

definition DEFAULT_POLL_ATTEMPTS :: nat where "DEFAULT_POLL_ATTEMPTS = 3"
definition DEFAULT_POLL_DELAY_MS :: ms where "DEFAULT_POLL_DELAY_MS = 250"

section \<open>Keys and lifetimes\<close>

definition negativeKey :: "string \<Rightarrow> string" where
  "negativeKey k = k @ ''#neg''"

definition negativeTtlSecondsFor :: "outcomeTtlTable \<Rightarrow> 'a upstreamOutcome \<Rightarrow> int" where
  "negativeTtlSecondsFor ttls out =
     (case out of
        Out_rate_limited r asked \<Rightarrow>
          (case asked of Some n \<Rightarrow> if n > 0 then n else ttl_rate_limited ttls
           | None \<Rightarrow> ttl_rate_limited ttls)
      | Out_budget_exhausted r \<Rightarrow> ttl_transient ttls
      | Out_no_data r \<Rightarrow> ttl_no_data ttls
      | Out_transient r \<Rightarrow> ttl_transient ttls
      | Out_client_error r h \<Rightarrow> ttl_client_error ttls
      | Out_schema_error r \<Rightarrow> ttl_schema_error ttls
      | Out_ok v t \<Rightarrow> ttl_ok ttls)"

fun reason_of :: "'a upstreamOutcome \<Rightarrow> reason option" where
  "reason_of (Out_ok v t) = None"
| "reason_of (Out_no_data r) = Some r"
| "reason_of (Out_transient r) = Some r"
| "reason_of (Out_budget_exhausted r) = Some r"
| "reason_of (Out_client_error r h) = Some r"
| "reason_of (Out_schema_error r) = Some r"
| "reason_of (Out_rate_limited r s) = Some r"

definition retentionSecondsFor :: "('p) peekOptions_scheme \<Rightarrow> int" where
  "retentionSecondsFor opts = max (ttl_ok (optTtls opts)) (staleMaxSeconds (optCeilings opts))"

section \<open>Reading an entry\<close>

definition countCache :: "upstreamMetricName \<Rightarrow> string \<Rightarrow> 's cacheWorld \<Rightarrow> 's cacheWorld" where
  "countCache n p w = w\<lparr>wMetrics := increment n p (wMetrics w)\<rparr>"

definition evaluate ::
  "'a upstreamCacheEntry option \<Rightarrow> ('p) peekOptions_scheme \<Rightarrow> 's cacheWorld
   \<Rightarrow> ('a cachedRead \<times> freshness) option \<times> 's cacheWorld" where
  "evaluate cached opts w =
     (case cached of
        None \<Rightarrow> (None, w)
      | Some e \<Rightarrow>
          if kind e \<noteq> K_ok \<or> payload e = None then (None, w)
          else
           (case evaluateStaleness \<lparr>si_storedAtMs = storedAtMs e, si_validAtMs = validAtMs e,
                   si_ttlSeconds = ttlSeconds e, si_nowMs = wNow w,
                   si_ceilings = optCeilings opts\<rparr> of
              Unusable age why \<Rightarrow>
                (None, w\<lparr>wMetrics := event L_warn
                   ''cached value dropped for breaching a staleness ceiling''
                   (increment M_cache_ceiling_dropped (optProviderId opts) (wMetrics w))\<rparr>)
            | Usable fr age since \<Rightarrow>
                (Some (\<lparr>rValue = payload e, rKind = K_ok, rFreshness = Some fr,
                        rCacheAgeSeconds = Some (js_round age), rStaleSince = since,
                        rValidAt = validAtMs e, rFetchedAt = Some (storedAtMs e),
                        rReason = None, rOrigin = O_fresh_hit\<rparr>, fr), w)))"

definition isNegativeStillBinding :: "'a upstreamCacheEntry \<Rightarrow> ms \<Rightarrow> bool" where
  "isNegativeStillBinding e now \<longleftrightarrow> of_int (now - storedAtMs e) / (1000 :: rat) \<le> of_int (ttlSeconds e)"

definition fromNegative :: "'a upstreamCacheEntry \<Rightarrow> cachedReadOrigin \<Rightarrow> ms \<Rightarrow> 'a cachedRead" where
  "fromNegative e origin now =
     \<lparr>rValue = None, rKind = kind e, rFreshness = None,
      rCacheAgeSeconds = Some (js_round (of_int (now - storedAtMs e) / 1000)), rStaleSince = None,
      rValidAt = None, rFetchedAt = Some (storedAtMs e), rReason = entryReason e, rOrigin = origin\<rparr>"

definition unavailable :: "reason \<Rightarrow> 'a cachedRead" where
  "unavailable r =
     \<lparr>rValue = None, rKind = K_transient, rFreshness = None, rCacheAgeSeconds = None,
      rStaleSince = None, rValidAt = None, rFetchedAt = None, rReason = Some r,
      rOrigin = O_unavailable\<rparr>"

section \<open>Storing an outcome\<close>

definition persistOutcome ::
  "('a, 's) upstreamCacheStore \<Rightarrow> ('p) peekOptions_scheme \<Rightarrow> 'a upstreamOutcome \<Rightarrow> 's cacheWorld
   \<Rightarrow> 'a cachedRead \<times> 's cacheWorld" where
  "persistOutcome store opts out w =
     (let now = wNow w
      in case out of
           Out_ok v t \<Rightarrow>
             (let e = \<lparr>kind = K_ok, payload = Some v, entryReason = None, storedAtMs = now,
                       validAtMs = t, ttlSeconds = ttl_ok (optTtls opts)\<rparr>
              in (\<lparr>rValue = Some v, rKind = K_ok, rFreshness = Some Fresh,
                   rCacheAgeSeconds = Some 0, rStaleSince = None, rValidAt = t,
                   rFetchedAt = Some now, rReason = None, rOrigin = O_refreshed\<rparr>,
                  cacheSet store (optKey opts) e (retentionSecondsFor opts) w))
         | _ \<Rightarrow>
             (let ttl = negativeTtlSecondsFor (optTtls opts) out;
                  negative = \<lparr>kind = kind_of out, payload = None, entryReason = reason_of out,
                              storedAtMs = now, validAtMs = None, ttlSeconds = ttl\<rparr>;
                  w' = cacheSet store (negativeKey (optKey opts)) negative (max 1 ttl) w
              in (fromNegative negative O_refreshed (wNow w'), w')))"

section \<open>Waiting for another instance\<close>

fun pollLoop ::
  "('a, 's) upstreamCacheStore \<Rightarrow> pollOptions \<Rightarrow> ('p) peekOptions_scheme \<Rightarrow> nat \<Rightarrow> 's cacheWorld
   \<Rightarrow> 'a cachedRead \<times> 's cacheWorld" where
  "pollLoop store poll opts 0 w = (unavailable R_other_instance, w)"
| "pollLoop store poll opts (Suc n) w =
     (let w1 = w\<lparr>wNow := pollSleep poll (wNow w) (pollDelayMs poll)\<rparr>;
          (cached, w2) = cacheGet store (optKey opts) w1;
          (usable, w3) = evaluate cached opts w2
      in case usable of
           Some (r, fr) \<Rightarrow>
             (r\<lparr>rOrigin := O_polled\<rparr>,
              countCache (if fr = Fresh then M_cache_hit else M_cache_stale) (optProviderId opts) w3)
         | None \<Rightarrow>
             (let (negative, w4) = cacheGet store (negativeKey (optKey opts)) w3
              in case negative of
                   Some e \<Rightarrow>
                     if isNegativeStillBinding e (wNow w4)
                     then (fromNegative e O_polled (wNow w4),
                           countCache M_cache_negative_hit (optProviderId opts) w4)
                     else pollLoop store poll opts n w4
                 | None \<Rightarrow> pollLoop store poll opts n w4))"

definition pollForWinner ::
  "('a, 's) upstreamCacheStore \<Rightarrow> pollOptions \<Rightarrow> ('p) peekOptions_scheme \<Rightarrow> 's cacheWorld
   \<Rightarrow> 'a cachedRead \<times> 's cacheWorld" where
  "pollForWinner store poll opts w = pollLoop store poll opts (pollAttempts poll) w"

section \<open>Refreshing, in the foreground and in the background\<close>

definition refreshAndServe ::
  "('a, 's) upstreamCacheStore \<Rightarrow> ('a upstreamOutcome, 's cacheWorld) singleFlight \<Rightarrow> pollOptions
   \<Rightarrow> ('a, 's) readThroughOptions \<Rightarrow> 's cacheWorld \<Rightarrow> (string + 'a cachedRead) \<times> 's cacheWorld" where
  "refreshAndServe store flight poll opts w =
     (case (case optDeadline opts of
              Some d \<Rightarrow> Inr d | None \<Rightarrow> newOperationDeadline (optDeadlineMs opts) (wNow w)) of
        Inl e \<Rightarrow> (Inl ''OperationDeadline budget must be positive'', w)
      | Inr d \<Rightarrow>
          (case flight (optKey opts) (optRefresh opts d) w of
             (Inl exn, w1) \<Rightarrow> (Inl exn, w1)
           | (Inr Lost, w1) \<Rightarrow> map_prod Inr id (pollForWinner store poll opts w1)
           | (Inr (Ran out), w1) \<Rightarrow>
               (let (stored, w2) = persistOutcome store opts out w1
                in (Inr (stored\<lparr>rOrigin := O_refreshed\<rparr>), w2))
           | (Inr (Joined out), w1) \<Rightarrow>
               (let (stored, w2) = persistOutcome store opts out w1
                in (Inr (stored\<lparr>rOrigin := O_joined\<rparr>), w2))))"

definition revalidate ::
  "('a, 's) upstreamCacheStore \<Rightarrow> ('a upstreamOutcome, 's cacheWorld) singleFlight
   \<Rightarrow> ('a, 's) readThroughOptions \<Rightarrow> 's cacheWorld \<Rightarrow> 's cacheWorld" where
  "revalidate store flight opts w =
     (let failed = (\<lambda>w. w\<lparr>wMetrics := event L_warn ''background revalidation failed'' (wMetrics w)\<rparr>)
      in case newOperationDeadline (case optRevalidateDeadlineMs opts of
                None \<Rightarrow> optDeadlineMs opts | Some n \<Rightarrow> n) (wNow w) of
           Inl e \<Rightarrow> failed w
         | Inr d \<Rightarrow>
             (case flight (optKey opts) (optRefresh opts d) w of
                (Inl exn, w1) \<Rightarrow> failed w1
              | (Inr Lost, w1) \<Rightarrow> w1
              | (Inr (Ran out), w1) \<Rightarrow> snd (persistOutcome store opts out w1)
              | (Inr (Joined out), w1) \<Rightarrow> snd (persistOutcome store opts out w1)))"

section \<open>The two public reads\<close>

definition readThrough ::
  "('a, 's) upstreamCacheStore \<Rightarrow> ('a upstreamOutcome, 's cacheWorld) singleFlight \<Rightarrow> pollOptions
   \<Rightarrow> ('a, 's) readThroughOptions \<Rightarrow> 's cacheWorld
   \<Rightarrow> (string + 'a cachedRead) \<times> bool \<times> 's cacheWorld" where
  "readThrough store flight poll opts w =
     (let (cached, w1) = cacheGet store (optKey opts) w;
          (usable, w2) = evaluate cached opts w1;
          p = optProviderId opts
      in case usable of
           Some (r, Fresh) \<Rightarrow> (Inr r, False, countCache M_cache_hit p w2)
         | _ \<Rightarrow>
           (let (negative, w3) = cacheGet store (negativeKey (optKey opts)) w2;
                binding = (case negative of None \<Rightarrow> None
                           | Some e \<Rightarrow> if isNegativeStillBinding e (wNow w3) then Some e else None)
            in case binding of
                 Some e \<Rightarrow>
                   (let w4 = countCache M_cache_negative_hit p w3
                    in case usable of
                         Some (r, fr) \<Rightarrow>
                           (Inr (r\<lparr>rOrigin := O_stale_after_failure\<rparr>), False, countCache M_cache_stale p w4)
                       | None \<Rightarrow> (Inr (fromNegative e O_negative_hit (wNow w4)), False, w4))
               | None \<Rightarrow>
                   (case usable of
                      Some (r, fr) \<Rightarrow>
                        (Inr (r\<lparr>rOrigin := O_stale_revalidating\<rparr>), True, countCache M_cache_stale p w3)
                    | None \<Rightarrow>
                        (let (res, w4) = refreshAndServe store flight poll opts
                               (countCache M_cache_miss p w3)
                         in (res, False, w4)))))"

definition peek ::
  "('a, 's) upstreamCacheStore \<Rightarrow> ('p) peekOptions_scheme \<Rightarrow> 's cacheWorld
   \<Rightarrow> 'a cachedRead \<times> 's cacheWorld" where
  "peek store opts w =
     (let (cached, w1) = cacheGet store (optKey opts) w;
          (usable, w2) = evaluate cached opts w1;
          p = optProviderId opts
      in case usable of
           Some (r, Fresh) \<Rightarrow> (r\<lparr>rOrigin := O_peeked\<rparr>, countCache M_cache_hit p w2)
         | _ \<Rightarrow>
           (let (negative, w3) = cacheGet store (negativeKey (optKey opts)) w2;
                binding = (case negative of None \<Rightarrow> None
                           | Some e \<Rightarrow> if isNegativeStillBinding e (wNow w3) then Some e else None)
            in case usable of
                 Some (r, fr) \<Rightarrow>
                   (let w4 = countCache M_cache_stale p w3
                    in if binding \<noteq> None
                       then (r\<lparr>rOrigin := O_stale_after_failure\<rparr>, countCache M_cache_negative_hit p w4)
                       else (r\<lparr>rOrigin := O_peeked\<rparr>, w4))
               | None \<Rightarrow>
                   (case binding of
                      Some e \<Rightarrow>
                        (let w4 = countCache M_cache_negative_hit p w3
                         in (fromNegative e O_peeked (wNow w4), w4))
                    | None \<Rightarrow> (unavailable R_peek_nothing, w3))))"

section \<open>What is served from the cache\<close>

text \<open>A value taken from the cache at time \<open>t\<close> and labelled honestly.\<close>

definition soundAt :: "('p) peekOptions_scheme \<Rightarrow> ms \<Rightarrow> 'a cachedRead \<Rightarrow> bool" where
  "soundAt opts t r \<longleftrightarrow>
     (rValue r = None \<longleftrightarrow> rFreshness r = None)
     \<and> (rValue r \<noteq> None \<longrightarrow> rKind r = K_ok
         \<and> (\<exists>f. rFetchedAt r = Some f
              \<and> t - f \<le> 1000 * staleMaxSeconds (optCeilings opts)
              \<and> (\<forall>v. rValidAt r = Some v \<longrightarrow>
                    t - v \<le> 1000 * validAtMaxAgeSeconds (optCeilings opts))))"

lemma evaluate_sound:
  assumes "evaluate cached opts w = (Some (r, fr), w')"
  shows "soundAt opts (wNow w) r" and "rFreshness r = Some fr" and "w' = w"
    and "rValue r \<noteq> None" and "rOrigin r = O_fresh_hit"
proof -
  from assms obtain e where cached: "cached = Some e" by (cases cached) (simp_all add: evaluate_def)
  with assms have e: "kind e = K_ok" "payload e \<noteq> None"
    by (auto simp: evaluate_def split: if_splits)
  define v where "v = evaluateStaleness \<lparr>si_storedAtMs = storedAtMs e, si_validAtMs = validAtMs e,
        si_ttlSeconds = ttlSeconds e, si_nowMs = wNow w, si_ceilings = optCeilings opts\<rparr>"
  from assms e cached obtain age since where use: "v = Usable fr age since"
    and r: "r = \<lparr>rValue = payload e, rKind = K_ok, rFreshness = Some fr,
                 rCacheAgeSeconds = Some (js_round age), rStaleSince = since,
                 rValidAt = validAtMs e, rFetchedAt = Some (storedAtMs e),
                 rReason = None, rOrigin = O_fresh_hit\<rparr>" and w': "w' = w"
    by (cases v) (simp_all add: evaluate_def v_def)
  note use = use [unfolded v_def]
  from evaluateStaleness_usable [OF use] e(2) show "soundAt opts (wNow w) r"
    by (simp add: r soundAt_def withinCeilings_def)
  show "rFreshness r = Some fr" "w' = w" "rValue r \<noteq> None" "rOrigin r = O_fresh_hit"
    using e(2) by (simp_all add: r w')
qed

lemma evaluate_frame:
  assumes "evaluate cached opts w = (u, w')"
  shows "wNow w' = wNow w" and "wStore w' = wStore w"
  using assms
  by (auto simp: evaluate_def split: option.splits if_splits stalenessVerdict.splits)

lemma countCache_frame [simp]:
  "wNow (countCache n p w) = wNow w" "wStore (countCache n p w) = wStore w"
  by (simp_all add: countCache_def)

lemma soundAt_origin [simp]: "soundAt opts t (r\<lparr>rOrigin := c\<rparr>) = soundAt opts t r"
  by (simp add: soundAt_def)

lemma soundAt_fromNegative [simp]: "soundAt opts t (fromNegative e c now)"
  by (simp add: soundAt_def fromNegative_def)

lemma soundAt_unavailable [simp]: "soundAt opts t (unavailable x)"
  by (simp add: soundAt_def unavailable_def)

text \<open>
  Out of a store whose reads take time, what is served was sound when it was judged, at a time
  between the start and the end of the read, and at its end when reads of the store take none.
\<close>

definition soundWithin ::
  "('a, 's) upstreamCacheStore \<Rightarrow> ('p) peekOptions_scheme \<Rightarrow> ms \<Rightarrow> ms \<Rightarrow> 'a cachedRead \<Rightarrow> bool" where
  "soundWithin ops opts start end_time r \<longleftrightarrow>
     (\<exists>t. start \<le> t \<and> t \<le> end_time \<and> soundAt opts t r
        \<and> ((\<forall>k v. wNow (snd (cacheGet ops k v)) = wNow v) \<longrightarrow> t = end_time))"

lemma soundWithin_refl: "soundAt opts t r \<Longrightarrow> start \<le> t \<Longrightarrow> soundWithin ops opts start t r"
  by (auto simp: soundWithin_def)

lemma soundWithin_valueless [simp]:
  "start \<le> t \<Longrightarrow> soundWithin ops opts start t (fromNegative e c now)"
  "start \<le> t \<Longrightarrow> soundWithin ops opts start t (unavailable x)"
  by (simp_all add: soundWithin_refl)

lemma soundWithin_earlier:
  assumes "soundWithin ops opts start t r" and "start' \<le> start" shows "soundWithin ops opts start' t r"
proof -
  from assms(1) obtain x where "start \<le> x" "x \<le> t" "soundAt opts x r"
    "(\<forall>k v. wNow (snd (cacheGet ops k v)) = wNow v) \<longrightarrow> x = t"
    unfolding soundWithin_def by blast
  with assms(2) show ?thesis unfolding soundWithin_def by (intro exI [of _ x]) simp
qed

context timely_store
begin

lemma pollLoop_sound:
  assumes "\<And>t. t \<le> pollSleep poll t (pollDelayMs poll)" and "pollLoop ops poll opts n w = (r, w')"
  shows "soundWithin ops opts (wNow w) (wNow w') r"
  using assms(2)
proof (induction n arbitrary: w)
  case 0
  then show ?case by (auto intro: soundWithin_refl)
next
  case (Suc n)
  define w1 where "w1 = w\<lparr>wNow := pollSleep poll (wNow w) (pollDelayMs poll)\<rparr>"
  obtain cached w2 where get: "cacheGet ops (optKey opts) w1 = (cached, w2)" by fastforce
  obtain usable w3 where ev: "evaluate cached opts w2 = (usable, w3)" by fastforce
  have upto3: "wNow w \<le> wNow w3" using assms(1) [of "wNow w"] get_time [OF get] evaluate_frame [OF ev]
    by (simp add: w1_def)
  show ?case
  proof (cases usable)
    case (Some u)
    obtain r0 fr where u: "u = (r0, fr)" by (cases u)
    note sound = evaluate_sound [OF ev [unfolded Some u]]
    from Suc.prems get ev show ?thesis
      using sound upto3 by (auto simp: w1_def [symmetric] Some u Let_def intro!: soundWithin_refl)
  next
    case None
    obtain negative w4 where neg: "cacheGet ops (negativeKey (optKey opts)) w3 = (negative, w4)"
      by fastforce
    have upto4: "wNow w \<le> wNow w4" using upto3 get_time [OF neg] by simp
    from Suc.prems get ev neg show ?thesis using Suc.IH [of w4] upto4
      by (auto simp: w1_def [symmetric] None Let_def intro: soundWithin_earlier
          split: option.splits if_splits)
  qed
qed

lemma refreshAndServe_sound:
  assumes "\<And>t. t \<le> pollSleep poll t (pollDelayMs poll)" and "\<And>d u. wNow u \<le> wNow (snd (flight (optKey opts) (optRefresh opts d) u))"
    and "refreshAndServe ops flight poll opts w = (Inr r, w')"
    and "rOrigin r \<noteq> O_refreshed" and "rOrigin r \<noteq> O_joined"
  shows "soundWithin ops opts (wNow w) (wNow w') r"
proof -
  obtain d where d: "(case optDeadline opts of Some d \<Rightarrow> Inr d
      | None \<Rightarrow> newOperationDeadline (optDeadlineMs opts) (wNow w)) = Inr d"
    using assms(3) by (auto simp: refreshAndServe_def split: sum.splits)
  obtain a w1 where fl: "flight (optKey opts) (optRefresh opts d) w = (a, w1)" by fastforce
  have "a = Inr Lost"
    using assms(3-5) d fl
    by (auto simp: refreshAndServe_def Let_def split: sum.splits singleFlightResult.splits prod.splits)
  with assms(3) d fl have "pollForWinner ops poll opts w1 = (r, w')"
    by (auto simp: refreshAndServe_def map_prod_def split: prod.splits)
  then have "soundWithin ops opts (wNow w1) (wNow w') r" unfolding pollForWinner_def by (rule pollLoop_sound [OF assms(1)])
  moreover have "wNow w \<le> wNow w1" using assms(2) fl by (metis snd_conv)
  ultimately show ?thesis by (rule soundWithin_earlier)
qed

lemma readThrough_sound:
  assumes "\<And>t. t \<le> pollSleep poll t (pollDelayMs poll)" and "\<And>d u. wNow u \<le> wNow (snd (flight (optKey opts) (optRefresh opts d) u))"
    and "readThrough ops flight poll opts w = (Inr r, bg, w')"
    and "rOrigin r \<noteq> O_refreshed" and "rOrigin r \<noteq> O_joined"
  shows "soundWithin ops opts (wNow w) (wNow w') r"
proof -
  obtain cached w1 where get: "cacheGet ops (optKey opts) w = (cached, w1)" by fastforce
  obtain usable w2 where ev: "evaluate cached opts w1 = (usable, w2)" by fastforce
  obtain negative w3 where neg: "cacheGet ops (negativeKey (optKey opts)) w2 = (negative, w3)"
    by fastforce
  have upto: "wNow w \<le> wNow w1" "wNow w1 = wNow w2" "wNow w2 \<le> wNow w3"
    using get_time [OF get] get_time [OF neg] evaluate_frame [OF ev] by simp_all
  show ?thesis
  proof (cases usable)
    case (Some u)
    obtain r0 fr where u: "u = (r0, fr)" by (cases u)
    note sound = evaluate_sound [OF ev [unfolded Some u]]
    have "(\<forall>k v. wNow (snd (cacheGet ops k v)) = wNow v) \<longrightarrow> wNow w3 = wNow w2" using neg by (metis snd_conv)
    then have late: "soundWithin ops opts (wNow w) (wNow w3) (r0\<lparr>rOrigin := x\<rparr>)" for x
      using sound(1) upto unfolding soundWithin_def by (intro exI [of _ "wNow w1"]) auto
    from assms(3) get ev neg show ?thesis using sound(1) upto late
      by (cases fr) (auto simp: readThrough_def Some u Let_def intro: soundWithin_refl split: option.splits if_splits)
  next
    case None
    let ?miss = "countCache M_cache_miss (optProviderId opts) w3"
    have "wNow w \<le> wNow ?miss" using upto by simp
    note ref = soundWithin_earlier [OF refreshAndServe_sound
        [where flight = flight and poll = poll and opts = opts and r = r, OF assms(1,2) _ assms(4,5)] this]
    from assms(3) get ev neg show ?thesis using upto
      by (auto simp: readThrough_def None Let_def intro: ref
          split: option.splits if_splits prod.splits)
  qed
qed

end

text \<open>A store that answers at once and finds exactly what it holds, as the in-process one does.\<close>

locale instant_store = cache_store +
  assumes get_exact: "ok (wStore w) \<Longrightarrow> cacheGet ops k w = (r, w') \<Longrightarrow>
      wNow w' = wNow w \<and> r = view (wStore w) (wNow w) k"

interpretation inProcessInstant: instant_store inProcessStoreOps inProcessView "inProcess_ok n" for n
proof (unfold_locales, goal_cases)
  case (1 w k r w')
  then show ?case
    using inProcessGet_entries [OF 1(1), of k "wNow w"]
    by (auto simp: inProcessStoreOps_def split: prod.splits)
qed

text \<open>
  C2: Whatever the store holds and whatever the refreshes and the other instances do, a value
  \<open>read\<close> serves out of the cache (fresh, stale, after a failure or after waiting for another
  instance) is within both staleness ceilings, carries the time it was fetched at and a freshness
  label, and a read without a value carries no label. With the in-process store it is within the
  ceilings at the moment it is served; with the Redis store, whose reads take time, at the moment
  between the start and the end of the read at which the service judged it.
\<close>

theorem cached_values_within_ceilings:
  assumes sleep: "\<And>t. t \<le> pollSleep poll t (pollDelayMs poll)"
    and flight: "\<And>d u. wNow u \<le> wNow (snd (flight (optKey opts) (optRefresh opts d) u))"
    and redisFlight: "\<And>d u. wNow u \<le> wNow (snd (redisFlight (optKey redisOpts) (optRefresh redisOpts d) u))"
  shows "(readThrough inProcessStoreOps flight poll opts w = (Inr r, bg, w')
        \<and> rOrigin r \<notin> {O_refreshed, O_joined}
      \<longrightarrow> soundAt opts (wNow w') r)
    \<and> (readThrough (redisCacheOps redis jsonParse asEntry jsonStringify) redisFlight poll redisOpts v = (Inr q, bg', v')
        \<and> rOrigin q \<notin> {O_refreshed, O_joined}
      \<longrightarrow> (\<exists>t. wNow v \<le> t \<and> t \<le> wNow v' \<and> soundAt redisOpts t q))"
proof -
  have "wNow (snd (cacheGet inProcessStoreOps k v)) = wNow v" for k and v :: "'a inProcessStore cacheWorld"
    by (simp add: inProcessStoreOps_def split: prod.split)
  moreover note inProcessTimely.readThrough_sound [where flight = flight and poll = poll and opts = opts and w = w
      and bg = bg and r = r and w' = w', OF sleep flight]
  moreover note redisTimely.readThrough_sound [where flight = redisFlight and poll = poll and opts = redisOpts and w = v
      and bg = bg' and r = q and w' = v' and redis = redis and jsonParse = jsonParse and asEntry = asEntry
      and jsonStringify = jsonStringify, OF sleep redisFlight]
  ultimately show ?thesis unfolding soundWithin_def by blast
qed

definition exampleTtls :: outcomeTtlTable where
  "exampleTtls = \<lparr>ttl_ok = 60, ttl_no_data = 30, ttl_transient = 20, ttl_rate_limited = 50,
     ttl_client_error = 90, ttl_schema_error = 90\<rparr>"

definition exampleRead :: "ms option \<Rightarrow> (int, int inProcessStore) readThroughOptions" where
  "exampleRead valid =
     \<lparr>optKey = ''k'', optProviderId = ''p'', optTtls = exampleTtls,
      optCeilings = \<lparr>staleMaxSeconds = 600, validAtMaxAgeSeconds = 300\<rparr>,
      optDeadlineMs = 6000, optDeadline = None, optRevalidateDeadlineMs = None,
      optRefresh = (\<lambda>d w. (Inr (Out_ok 9 valid), w))\<rparr>"

definition runNow :: "('b, 'w) singleFlight" where
  "runNow k f w = (let (v, w') = f w in (map_sum id Ran v, w'))"

definition examplePoll :: pollOptions where
  "examplePoll = \<lparr>pollAttempts = DEFAULT_POLL_ATTEMPTS, pollDelayMs = DEFAULT_POLL_DELAY_MS,
     pollSleep = (\<lambda>now d. now + d)\<rparr>"

definition exampleWorld :: "int inProcessStore cacheWorld" where
  "exampleWorld = \<lparr>wNow = 70000,
     wStore = inProcessSet ''k'' (exampleEntry 7) 600 0 (newInProcessStore 5),
     wMetrics = metrics_init\<rparr>"

lemma exampleWorld_ok: "inProcess_ok 5 (wStore exampleWorld)"
  unfolding exampleWorld_def
  by (simp, rule inProcessSet_entries(1) [OF inProcess_ok_new])

text \<open>A Redis that answers every key with the same text after forty milliseconds.\<close>

definition slowRedis :: "unit redisPort" where
  "slowRedis = \<lparr>redisGet = (\<lambda>k now r. (if k = ''upstream:cache:k'' then Some (Some ''x'') else Some None, 40, r)),
     redisSetWithTtl = (\<lambda>k v ttl now r. (True, 40, r))\<rparr>"

definition slowOps :: "(int, unit) upstreamCacheStore" where
  "slowOps = redisCacheOps slowRedis
     (\<lambda>raw. Some (J_object [(''kind'', J_string ''ok''), (''storedAtMs'', J_number (Some 0)),
        (''ttlSeconds'', J_number (Some 60)), (''validAtMs'', J_null), (''reason'', J_null)]))
     (\<lambda>j. exampleEntry 7) (\<lambda>e. ''x'')"

definition slowRead :: "(int, unit) readThroughOptions" where
  "slowRead =
     \<lparr>optKey = ''k'', optProviderId = ''p'', optTtls = exampleTtls,
      optCeilings = \<lparr>staleMaxSeconds = 600, validAtMaxAgeSeconds = 300\<rparr>,
      optDeadlineMs = 6000, optDeadline = None, optRevalidateDeadlineMs = None,
      optRefresh = (\<lambda>d w. (Inr (Out_ok 9 None), w))\<rparr>"

definition noLead :: "('b, 'w) singleFlight" where
  "noLead k f w = (Inr Lost, w)"

theorem cached_values_within_ceilings_witness:
  "(\<exists>r w'. readThrough inProcessStoreOps noLead examplePoll (exampleRead None) exampleWorld = (Inr r, True, w')
      \<and> soundAt (exampleRead None) (wNow w') r \<and> rValue r = Some 7)
   \<and> (\<exists>q v'. readThrough slowOps noLead examplePoll slowRead \<lparr>wNow = 599950, wStore = (), wMetrics = metrics_init\<rparr>
        = (Inr q, True, v') \<and> rValue q = Some 7 \<and> wNow v' = 600030
      \<and> \<not> soundAt slowRead 600030 q \<and> (\<exists>t. 599950 \<le> t \<and> t \<le> 600030 \<and> soundAt slowRead t q))"
proof -
  let ?v = "\<lparr>wNow = 599950, wStore = (), wMetrics = metrics_init\<rparr>"
  obtain res bg w' where run: "readThrough inProcessStoreOps noLead examplePoll (exampleRead None)
      exampleWorld = (res, bg, w')"
    by (metis prod_cases3)
  have "(case readThrough inProcessStoreOps noLead examplePoll (exampleRead None) exampleWorld of
      (Inr r, bg, w') \<Rightarrow> bg \<and> rValue r = Some 7 \<and> rOrigin r = O_stale_revalidating
    | _ \<Rightarrow> False)"
    by code_simp
  with run obtain r where r: "res = Inr r" "bg" "rValue r = Some 7" "rOrigin r = O_stale_revalidating"
    by (auto split: sum.splits)
  obtain res' bg' v' where run': "readThrough slowOps noLead examplePoll slowRead ?v = (res', bg', v')"
    by (metis prod_cases3)
  have "(case readThrough slowOps noLead examplePoll slowRead ?v of
      (Inr q, bg, v') \<Rightarrow> bg \<and> rValue q = Some 7 \<and> rOrigin q = O_stale_revalidating \<and> wNow v' = 600030 \<and> rFetchedAt q = Some 0
    | _ \<Rightarrow> False)"
    by code_simp
  with run' obtain q where q: "res' = Inr q" "bg'" "rValue q = Some 7" "rOrigin q = O_stale_revalidating" "wNow v' = 600030" "rFetchedAt q = Some 0"
    by (auto split: sum.splits)
  have sleep: "\<And>t. t \<le> pollSleep examplePoll t (pollDelayMs examplePoll)"
    by (simp add: examplePoll_def DEFAULT_POLL_DELAY_MS_def)
  have flight: "wNow u \<le> wNow (snd (noLead k f u))" for u :: "'w cacheWorld" and k and f :: "('b, 'w cacheWorld) refresh" by (simp add: noLead_def)
  note both = cached_values_within_ceilings [where flight = noLead and redisFlight = noLead and poll = examplePoll
      and opts = "exampleRead None" and w = exampleWorld and r = r and bg = bg and w' = w' and redisOpts = slowRead and v = ?v
      and q = q and bg' = bg' and v' = v' and redis = slowRedis, OF sleep flight flight]
  have "\<not> soundAt slowRead 600030 q"
    using q by (simp add: soundAt_def slowRead_def)
  with both r q run run' show ?thesis unfolding slowOps_def by auto
qed

section \<open>When a read spares the provider\<close>


lemma negativeKey_neq [simp]: "negativeKey k \<noteq> k"
  by (simp add: negativeKey_def)




section \<open>What a failure leaves in the cache\<close>

text \<open>
  Recording a failed refresh never touches the value of its key or of any other key: all
  that becomes readable under another name is what was readable before, and under the
  negative key it is the failure, with the lifetime of its kind (a \<open>Retry-After\<close> above zero
  wins over the table). Recording a success writes the value's own key and no other.
\<close>

theorem failure_keeps_values:
  assumes "inProcess_ok n (wStore w)"
    and "inProcessView (wStore (snd (persistOutcome inProcessStoreOps opts out w))) t k = Some e"
  shows "(inProcessView (wStore w) t k = Some e
           \<and> k \<noteq> (if isOk out then optKey opts else negativeKey (optKey opts)))
       \<or> (k = (if isOk out then optKey opts else negativeKey (optKey opts))
           \<and> kind e = kind_of out \<and> storedAtMs e = wNow w
           \<and> (payload e = None \<longleftrightarrow> \<not> isOk out)
           \<and> ttlSeconds e = (if isOk out then ttl_ok (optTtls opts)
                             else negativeTtlSecondsFor (optTtls opts) out))"
proof (cases "isOk out")
  case True
  then obtain v valid where out: "out = Out_ok v valid" by (cases out) (simp_all add: isOk_def)
  define e0 where "e0 = \<lparr>kind = K_ok, payload = Some v, entryReason = None, storedAtMs = wNow w,
      validAtMs = valid, ttlSeconds = ttl_ok (optTtls opts)\<rparr>"
  have "wStore (snd (persistOutcome inProcessStoreOps opts out w))
      = wStore (cacheSet inProcessStoreOps (optKey opts) e0 (retentionSecondsFor opts) w)"
    by (simp add: persistOutcome_def out e0_def Let_def)
  with assms(2) inProcess.set_law [OF assms(1), of "optKey opts" e0 "retentionSecondsFor opts"]
  have "(k = optKey opts \<and> e = e0) \<or> (k \<noteq> optKey opts \<and> inProcessView (wStore w) t k = Some e)"
    by metis
  then show ?thesis using True by (elim disjE) (simp_all add: e0_def out)
next
  case False
  define e0 :: "'a upstreamCacheEntry"
    where "e0 = \<lparr>kind = kind_of out, payload = None, entryReason = reason_of out,
      storedAtMs = wNow w, validAtMs = None, ttlSeconds = negativeTtlSecondsFor (optTtls opts) out\<rparr>"
  let ?r = "max 1 (negativeTtlSecondsFor (optTtls opts) out)"
  have "wStore (snd (persistOutcome inProcessStoreOps opts out w))
      = wStore (cacheSet inProcessStoreOps (negativeKey (optKey opts)) e0 ?r w)"
    using False by (cases out) (simp_all add: persistOutcome_def e0_def Let_def isOk_def)
  with assms(2) inProcess.set_law [OF assms(1), of "negativeKey (optKey opts)" e0 ?r]
  have "(k = negativeKey (optKey opts) \<and> e = e0)
      \<or> (k \<noteq> negativeKey (optKey opts) \<and> inProcessView (wStore w) t k = Some e)"
    by metis
  then show ?thesis using False by (elim disjE) (simp_all add: e0_def)
qed

theorem failure_keeps_values_witness:
  "let w' = snd (persistOutcome inProcessStoreOps (exampleRead None) (Out_rate_limited (R_http 429) (Some 120))
        exampleWorld)
   in inProcessView (wStore w') 70000 ''k'' = Some (exampleEntry 7)
      \<and> map_option ttlSeconds (inProcessView (wStore w') 70000 ''k#neg'') = Some 120"
proof -
  let ?out = "Out_rate_limited (R_http 429) (Some 120) :: int upstreamOutcome"
  let ?s = "wStore (snd (persistOutcome inProcessStoreOps (exampleRead None) ?out exampleWorld))"
  have "map_option payload (inProcessView ?s 70000 ''k'') = Some (Some 7)" by code_simp
  then obtain e where e: "inProcessView ?s 70000 ''k'' = Some e" by auto
  have "inProcessView (wStore exampleWorld) 70000 ''k'' = Some (exampleEntry 7)" by code_simp
  moreover have key: "negativeKey (optKey (exampleRead None)) = ''k#neg''"
    by (simp add: negativeKey_def exampleRead_def)
  ultimately have 1: "e = exampleEntry 7"
    using failure_keeps_values [OF exampleWorld_ok e] by (auto simp: isOk_def)
  have "map_option kind (inProcessView ?s 70000 ''k#neg'') = Some K_rate_limited" by code_simp
  then obtain e' where e': "inProcessView ?s 70000 ''k#neg'' = Some e'" by auto
  have "inProcessView (wStore exampleWorld) 70000 ''k#neg'' = None" by code_simp
  with failure_keeps_values [OF exampleWorld_ok e'] have "ttlSeconds e' = 120"
    by (simp add: isOk_def negativeTtlSecondsFor_def)
  with 1 e e' show ?thesis by (simp add: Let_def)
qed

section \<open>Peeking\<close>

text \<open>
  A peek never changes what any later read finds in the store, never counts a miss, and
  what it returns is sound: a value within the ceilings, or no value and no freshness label.
\<close>

theorem peek_is_passive:
  assumes "inProcess_ok n (wStore w)" and "peek inProcessStoreOps opts w = (r, w')"
  shows "wNow w' = wNow w
    \<and> (\<forall>t \<ge> wNow w. inProcessView (wStore w') t = inProcessView (wStore w) t)
    \<and> soundAt opts (wNow w) r
    \<and> getMetric M_cache_miss p (wMetrics w') = getMetric M_cache_miss p (wMetrics w)"
proof -
  obtain cached w1 where get: "cacheGet inProcessStoreOps (optKey opts) w = (cached, w1)"
    by fastforce
  obtain usable w2 where ev: "evaluate cached opts w1 = (usable, w2)" by fastforce
  obtain negative w3 where
    neg: "cacheGet inProcessStoreOps (negativeKey (optKey opts)) w2 = (negative, w3)" by fastforce
  have quiet: "wMetrics (snd (cacheGet inProcessStoreOps k v)) = wMetrics v"
    for k and v :: "'a inProcessStore cacheWorld"
    by (simp add: inProcessStoreOps_def split: prod.split)
  have evm: "getMetric M_cache_miss p (wMetrics w2) = getMetric M_cache_miss p (wMetrics w1)"
    using ev by (auto simp: evaluate_def split: option.splits if_splits stalenessVerdict.splits)
  have now1: "wNow w1 = wNow w" using inProcessInstant.get_exact [OF assms(1) get] by simp
  have ok2: "inProcess_ok n (wStore w2)" and
    v2: "\<forall>t \<ge> wNow w. inProcessView (wStore w2) t = inProcessView (wStore w) t"
    and now2: "wNow w2 = wNow w"
    using inProcess.get_law [OF assms(1) get] evaluate_frame [OF ev] now1 by simp_all
  have v3: "\<forall>t \<ge> wNow w. inProcessView (wStore w3) t = inProcessView (wStore w) t"
    and now3: "wNow w3 = wNow w"
    using inProcess.get_law [OF ok2 neg] inProcessInstant.get_exact [OF ok2 neg] v2 now2 by simp_all
  have m: "getMetric M_cache_miss p (wMetrics w2) = getMetric M_cache_miss p (wMetrics w)"
    "getMetric M_cache_miss p (wMetrics w3) = getMetric M_cache_miss p (wMetrics w)"
    using quiet [of "optKey opts" w] quiet [of "negativeKey (optKey opts)" w2] get neg evm by simp_all
  have cm: "wMetrics (countCache c q v) = increment c q (wMetrics v)"
    for c q and v :: "'a inProcessStore cacheWorld"
    by (simp add: countCache_def)
  show ?thesis
  proof (cases usable)
    case None
    from assms(2) get ev neg show ?thesis using now3 v3 m
      by (auto simp: peek_def None Let_def cm split: option.splits if_splits)
  next
    case (Some u)
    obtain r0 fr where u: "u = (r0, fr)" by (cases u)
    note sound = evaluate_sound [OF ev [unfolded Some u]]
    from assms(2) get ev neg show ?thesis using now2 now3 v2 v3 m sound now1
      by (cases fr) (auto simp: peek_def Some u Let_def cm split: option.splits if_splits)
  qed
qed

theorem peek_is_passive_witness:
  "rValue (fst (peek inProcessStoreOps (exampleRead None) exampleWorld)) = Some 7
   \<and> soundAt (exampleRead None) 70000 (fst (peek inProcessStoreOps (exampleRead None) exampleWorld))"
proof -
  obtain r w' where run: "peek inProcessStoreOps (exampleRead None) exampleWorld = (r, w')"
    by fastforce
  have "rValue (fst (peek inProcessStoreOps (exampleRead None) exampleWorld)) = Some 7" by code_simp
  with peek_is_passive [OF exampleWorld_ok run] run show ?thesis
    by (simp add: exampleWorld_def)
qed

section \<open>A cold read publishes past the ceiling\<close>

lemma evaluate_valid_at:
  assumes "evaluate (Some e) opts w = (Some (r, fr), w')" and "validAtMs e = Some t"
  shows "wNow w - t \<le> 1000 * validAtMaxAgeSeconds (optCeilings opts)"
proof -
  have "rValidAt r = Some t"
    using assms by (auto simp: evaluate_def split: if_splits stalenessVerdict.splits)
  with evaluate_sound(1,4) [OF assms(1)] show ?thesis by (auto simp: soundAt_def)
qed

text \<open>
  C26: The ceilings are applied to what comes out of the store, not to what a refresh has just
  brought in. When neither a value nor a failure of the key is held and the refresh of this read
  succeeds, its value is served labelled fresh with its model time, whatever that time is; so a
  provider that answers with model time older than the second ceiling is published past it, while
  no peek from then on shows that value.
\<close>

theorem cold_read_skips_valid_at_ceiling:
  assumes ok: "inProcess_ok n (wStore w)"
    and cold: "inProcessView (wStore w) (wNow w) (optKey opts) = None"
      "inProcessView (wStore w) (wNow w) (negativeKey (optKey opts)) = None"
    and dl: "optDeadline opts = Some d"
    and keeps: "\<And>v. inProcess_ok n (wStore v)
      \<Longrightarrow> inProcess_ok n (wStore (snd (flight (optKey opts) (optRefresh opts d) v)))"
    and ran: "\<And>v. fst (flight (optKey opts) (optRefresh opts d) v) = Inr (Ran (Out_ok x (Some t)))"
  shows "\<exists>r w'. readThrough inProcessStoreOps flight poll opts w = (Inr r, False, w')
    \<and> rValue r = Some x \<and> rFreshness r = Some Fresh \<and> rValidAt r = Some t
    \<and> (1000 * validAtMaxAgeSeconds (optCeilings opts) < wNow w' - t
        \<longrightarrow> \<not> soundAt opts (wNow w') r
          \<and> (\<forall>now \<ge> wNow w'. rValue (fst (peek inProcessStoreOps opts (w'\<lparr>wNow := now\<rparr>))) = None))"
proof -
  obtain c1 w1 where get: "cacheGet inProcessStoreOps (optKey opts) w = (c1, w1)" by fastforce
  note 1 = inProcess.get_law [OF ok get] inProcessInstant.get_exact [OF ok get]
  then have c1: "c1 = None" and now1: "wNow w1 = wNow w" and ok1: "inProcess_ok n (wStore w1)" using cold(1) by simp_all
  obtain c2 w2 where neg: "cacheGet inProcessStoreOps (negativeKey (optKey opts)) w1 = (c2, w2)" by fastforce
  have ok2: "inProcess_ok n (wStore w2)" using inProcess.get_law [OF ok1 neg] by blast
  have "c2 = None" using inProcessInstant.get_exact [OF ok1 neg] 1 cold(2) now1 by simp
  let ?miss = "countCache M_cache_miss (optProviderId opts) w2"
  obtain w3 where run: "flight (optKey opts) (optRefresh opts d) ?miss = (Inr (Ran (Out_ok x (Some t))), w3)"
    using ran [of ?miss] by (metis prod.collapse)
  have ok3: "inProcess_ok n (wStore w3)" using keeps [of ?miss] ok2 run by simp
  define e where "e = \<lparr>kind = K_ok, payload = Some x, entryReason = None, storedAtMs = wNow w3,
      validAtMs = Some t, ttlSeconds = ttl_ok (optTtls opts)\<rparr>"
  define w' where "w' = cacheSet inProcessStoreOps (optKey opts) e (retentionSecondsFor opts) w3"
  define r where "r = \<lparr>rValue = Some x, rKind = K_ok, rFreshness = Some Fresh, rCacheAgeSeconds = Some 0,
      rStaleSince = None, rValidAt = Some t, rFetchedAt = Some (wNow w3), rReason = None, rOrigin = O_refreshed\<rparr>"
  have read: "readThrough inProcessStoreOps flight poll opts w = (Inr r, False, w')"
    using get neg c1 \<open>c2 = None\<close> run dl
    by (simp add: readThrough_def evaluate_def refreshAndServe_def persistOutcome_def Let_def r_def w'_def e_def)
  have "rValue (fst (peek inProcessStoreOps opts (w'\<lparr>wNow := now\<rparr>))) = None"
    if late: "1000 * validAtMaxAgeSeconds (optCeilings opts) < wNow w' - t" "wNow w' \<le> now" for now
  proof -
    let ?w = "w'\<lparr>wNow := now\<rparr>"
    note set = inProcess.set_law [OF ok3, of "optKey opts" e "retentionSecondsFor opts", folded w'_def]
    obtain cached v1 where pk: "cacheGet inProcessStoreOps (optKey opts) ?w = (cached, v1)" by fastforce
    obtain usable v2 where ev: "evaluate cached opts v1 = (usable, v2)" by fastforce
    have "cached = None \<or> cached = Some e" and now: "wNow v1 = now"
      using inProcessInstant.get_exact [OF _ pk] set by (cases cached; force)+
    moreover have "usable = None" if "cached = Some e"
    proof (rule ccontr)
      assume "usable \<noteq> None"
      then obtain q fr where "usable = Some (q, fr)" by (cases usable) auto
      with evaluate_valid_at ev that late now show False by (fastforce simp: e_def)
    qed
    ultimately have "usable = None" using ev by (auto simp: evaluate_def)
    with pk ev show ?thesis
      by (auto simp: peek_def Let_def fromNegative_def unavailable_def split: prod.split option.split)
  qed
  moreover have "\<not> soundAt opts (wNow w') r" if "1000 * validAtMaxAgeSeconds (optCeilings opts) < wNow w' - t"
    using that by (simp add: soundAt_def r_def)
  ultimately show ?thesis using read by (auto simp: r_def)
qed

theorem cold_read_skips_valid_at_ceiling_witness:
  "let w0 = \<lparr>wNow = 1000000, wStore = newInProcessStore 5, wMetrics = metrics_init\<rparr>;
       opts = (exampleRead (Some 0))\<lparr>optDeadline := Some \<lparr>budgetMs = 6000, startedAtMs = 1000000\<rparr>\<rparr>
   in \<exists>r w'. readThrough inProcessStoreOps runNow examplePoll opts w0 = (Inr r, False, w')
      \<and> rFreshness r = Some Fresh \<and> \<not> soundAt opts 1000000 r
      \<and> rValue (fst (peek inProcessStoreOps opts w')) = None"
proof -
  let ?w = "\<lparr>wNow = 1000000, wStore = newInProcessStore 5, wMetrics = metrics_init\<rparr> :: int inProcessStore cacheWorld"
  let ?d = "\<lparr>budgetMs = 6000, startedAtMs = 1000000\<rparr>"
  let ?opts = "(exampleRead (Some 0))\<lparr>optDeadline := Some ?d\<rparr>"
  have step: "runNow (optKey ?opts) (optRefresh ?opts ?d) v = (Inr (Ran (Out_ok 9 (Some 0))), v)" for v
    by (simp add: runNow_def exampleRead_def)
  have "case readThrough inProcessStoreOps runNow examplePoll ?opts ?w of (res, bg, w') \<Rightarrow> wNow w' = 1000000"
    by code_simp
  then have now: "readThrough inProcessStoreOps runNow examplePoll ?opts ?w = (res, bg, w') \<Longrightarrow> wNow w' = 1000000" for res bg w'
    by simp
  have ok: "inProcess_ok 5 (wStore ?w)" by (simp add: inProcess_ok_new)
  have cold: "inProcessView (wStore ?w) (wNow ?w) k = None" for k
    by (simp add: inProcessView_def newInProcessStore_def)
  have dl: "optDeadline ?opts = Some ?d" by simp
  obtain r w' where read: "readThrough inProcessStoreOps runNow examplePoll ?opts ?w = (Inr r, False, w')"
      "rFreshness r = Some Fresh"
    and late: "1000 * validAtMaxAgeSeconds (optCeilings ?opts) < wNow w' - 0 \<Longrightarrow> \<not> soundAt ?opts (wNow w') r
          \<and> (\<forall>now \<ge> wNow w'. rValue (fst (peek inProcessStoreOps ?opts (w'\<lparr>wNow := now\<rparr>))) = None)"
    using cold_read_skips_valid_at_ceiling [OF ok cold cold dl, of runNow 9 0 examplePoll] step by auto
  have "w'\<lparr>wNow := 1000000\<rparr> = w'" using now [OF read(1)] by simp
  moreover have "1000 * validAtMaxAgeSeconds (optCeilings ?opts) < wNow w' - 0"
    using now [OF read(1)] by (simp add: exampleRead_def)
  from late [OF this] have "\<not> soundAt ?opts 1000000 r" "rValue (fst (peek inProcessStoreOps ?opts (w'\<lparr>wNow := 1000000\<rparr>))) = None"
    using now [OF read(1)] by simp_all
  ultimately show ?thesis unfolding Let_def using read by (intro exI conjI) simp_all
qed

end
