(* ===== verification/Scheduled_Warmup.thy ===== *)
theory Scheduled_Warmup
  imports Operation_Deadline Single_Flight
begin

text \<open>
  \<open>src/upstream/scheduled-warmup.service.ts\<close>: the scheduled tour over the registered targets,
  under a lock of the Redis client when there is one. A target's \<open>refresh\<close> acts on the world and
  says whether it returned or threw. Timers are registered by the framework and not modelled.
\<close>

section \<open>State\<close>

record 's warmupTarget =
  targetLabel :: string
  targetRefresh :: "operationDeadline \<Rightarrow> 's cacheWorld \<Rightarrow> bool \<times> 's cacheWorld"

datatype warmupSkipReason = Skip_disabled | Skip_overlap | Skip_lock_held | Skip_redis_unavailable

datatype warmupTourResult =
    Not_run warmupSkipReason
  | Tour_ran (refreshed: nat) (failed: nat) (skipped: nat) (durationMs: ms)

record warmupOptions =
  warmupName :: string
  warmupEnabled :: bool
  warmupDeadlineMs :: ms

record 's warmupService =
  warmupOpts :: warmupOptions
  warmupTargets :: "'s warmupTarget list"
  running :: bool

definition warmupLockKey :: "string \<Rightarrow> string" where
  "warmupLockKey name = name @ '':warmup:lock''"

definition registerTarget :: "'s warmupTarget \<Rightarrow> 's warmupService \<Rightarrow> 's warmupService" where
  "registerTarget t svc = svc\<lparr>warmupTargets := warmupTargets svc @ [t]\<rparr>"

section \<open>A tour\<close>

text \<open>The loop over the targets, with the three counts so far.\<close>

fun visitLoop ::
  "operationDeadline \<Rightarrow> 's warmupTarget list \<Rightarrow> nat \<times> nat \<times> nat \<Rightarrow> 's cacheWorld
   \<Rightarrow> (nat \<times> nat \<times> nat) \<times> 's cacheWorld" where
  "visitLoop d [] counts w = (counts, w)"
| "visitLoop d (t # ts) (ok, bad, skip) w =
     (if hasExpired d (wNow w) then visitLoop d ts (ok, bad, skip + 1) w
      else (case targetRefresh t d w of
              (True, w') \<Rightarrow> visitLoop d ts (ok + 1, bad, skip) w'
            | (False, w') \<Rightarrow> visitLoop d ts (ok, bad + 1, skip) w'))"

definition visitTargets ::
  "'s warmupService \<Rightarrow> 's cacheWorld \<Rightarrow> (deadlineError + warmupTourResult) \<times> 's cacheWorld" where
  "visitTargets svc w =
     (case newOperationDeadline (warmupDeadlineMs (warmupOpts svc)) (wNow w) of
        Inl e \<Rightarrow> (Inl e, w)
      | Inr d \<Rightarrow>
          (let ((ok, bad, skip), w') = visitLoop d (warmupTargets svc) (0, 0, 0) w
           in (Inr (Tour_ran ok bad skip (wNow w' - wNow w)), w')))"

definition runTour ::
  "('s cacheWorld) redisLockPort option \<Rightarrow> string \<Rightarrow> 's warmupService \<Rightarrow> 's cacheWorld
   \<Rightarrow> (deadlineError + warmupTourResult) \<times> 's warmupService \<times> 's cacheWorld" where
  "runTour redis token svc w =
     (if \<not> warmupEnabled (warmupOpts svc) then (Inr (Not_run Skip_disabled), svc, w)
      else if running svc then (Inr (Not_run Skip_overlap), svc, w)
      else
       (let lockKey = warmupLockKey (warmupName (warmupOpts svc));
            busy = svc\<lparr>running := True\<rparr>;
            idle = (\<lambda>s. s\<lparr>running := False\<rparr>)
        in case redis of
             None \<Rightarrow> (let (r, w') = visitTargets busy w in (r, idle busy, w'))
           | Some port \<Rightarrow>
              (case setIfAbsent port lockKey token (warmupDeadlineMs (warmupOpts svc)) w of
                 (None, w1) \<Rightarrow>
                   (Inr (Not_run Skip_redis_unavailable), idle busy,
                    w1\<lparr>wMetrics := increment M_redis_degraded (warmupName (warmupOpts svc)) (wMetrics w1)\<rparr>)
               | (Some False, w1) \<Rightarrow> (Inr (Not_run Skip_lock_held), idle busy, w1)
               | (Some True, w1) \<Rightarrow>
                   (let (r, w2) = visitTargets busy w1;
                        (gone, w3) = deleteIfValueEquals port lockKey token w2
                    in (r, idle busy, w3)))))"

section \<open>What a tour does\<close>

text \<open>
  The abstract account of a tour: which targets are visited, in order, and whether each
  returned, stopping for good at the first one that finds the deadline expired.
\<close>

fun visitedBefore :: "operationDeadline \<Rightarrow> 's warmupTarget list \<Rightarrow> 's cacheWorld \<Rightarrow> bool list \<times> 's cacheWorld" where
  "visitedBefore d [] w = ([], w)"
| "visitedBefore d (t # ts) w =
     (if hasExpired d (wNow w) then ([], w)
      else (let (b, w1) = targetRefresh t d w; (bs, w2) = visitedBefore d ts w1 in (b # bs, w2)))"

lemma visitLoop_expired:
  "hasExpired d (wNow w) \<Longrightarrow> visitLoop d ts (ok, bad, skip) w = ((ok, bad, skip + length ts), w)"
  by (induction ts arbitrary: skip) simp_all

lemma visitLoop_visited:
  "visitLoop d ts (ok, bad, skip) w =
     (let (bs, w') = visitedBefore d ts w
      in ((ok + length (filter id bs), bad + length (filter Not bs),
           skip + (length ts - length bs)), w'))"
proof (induction ts arbitrary: ok bad skip w)
  case Nil
  then show ?case by simp
next
  case (Cons t ts)
  show ?case
  proof (cases "hasExpired d (wNow w)")
    case True
    then show ?thesis using visitLoop_expired [OF True] by simp
  next
    case False
    obtain b w1 where "targetRefresh t d w = (b, w1)" by fastforce
    with False Cons.IH show ?thesis by (cases b) (auto split: prod.split)
  qed
qed

lemma visitedBefore_length: "visitedBefore d ts w = (bs, w') \<Longrightarrow> length bs \<le> length ts"
  by (induction d ts w arbitrary: bs rule: visitedBefore.induct)
    (fastforce split: if_splits prod.splits)+

text \<open>Time never runs backwards inside a refresh, so an expired deadline stays expired.\<close>

lemma visitedBefore_stop:
  assumes "visitedBefore d ts w = (bs, w')" and "length bs < length ts"
  shows "hasExpired d (wNow w')"
  using assms
  by (induction d ts w arbitrary: bs rule: visitedBefore.induct)
    (fastforce split: if_splits prod.splits)+

text \<open>
  A tour accounts for every registered target exactly once. The targets are visited in
  their order under one shared deadline, a target that throws is counted as failed and stops
  no other, and from the first target that finds the deadline expired on all are skipped.
\<close>

theorem tour_accounts_for_every_target:
  assumes "visitTargets svc w = (Inr r, w')"
  shows "\<exists>d bs. newOperationDeadline (warmupDeadlineMs (warmupOpts svc)) (wNow w) = Inr d
    \<and> visitedBefore d (warmupTargets svc) w = (bs, w')
    \<and> r = Tour_ran (length (filter id bs)) (length (filter Not bs))
            (length (warmupTargets svc) - length bs) (wNow w' - wNow w)
    \<and> refreshed r + failed r + skipped r = length (warmupTargets svc)
    \<and> (skipped r > 0 \<longrightarrow> hasExpired d (wNow w'))"
proof -
  obtain d where d: "newOperationDeadline (warmupDeadlineMs (warmupOpts svc)) (wNow w) = Inr d"
    using assms by (cases "newOperationDeadline (warmupDeadlineMs (warmupOpts svc)) (wNow w)")
      (simp_all add: visitTargets_def)
  obtain bs w2 where v: "visitedBefore d (warmupTargets svc) w = (bs, w2)" by fastforce
  have r: "r = Tour_ran (length (filter id bs)) (length (filter Not bs))
        (length (warmupTargets svc) - length bs) (wNow w' - wNow w)" and w2: "w2 = w'"
    using assms d v by (auto simp: visitTargets_def visitLoop_visited)
  have "length (filter id bs) + length (filter Not bs) = length bs"
    using sum_length_filter_compl [of id bs] by (simp add: comp_def)
  with r w2 d v visitedBefore_length [OF v] visitedBefore_stop [OF v] show ?thesis
    by (intro exI [of _ d] exI [of _ bs]) auto
qed

definition exampleTarget :: "bool \<Rightarrow> ms \<Rightarrow> unit warmupTarget" where
  "exampleTarget ok cost = \<lparr>targetLabel = ''t'',
     targetRefresh = (\<lambda>d w. (ok, w\<lparr>wNow := wNow w + cost\<rparr>))\<rparr>"

definition exampleService :: "unit warmupService" where
  "exampleService = \<lparr>warmupOpts = \<lparr>warmupName = ''marine'', warmupEnabled = True, warmupDeadlineMs = 100\<rparr>,
     warmupTargets = [exampleTarget True 40, exampleTarget False 70, exampleTarget True 5],
     running = False\<rparr>"

theorem tour_accounts_for_every_target_witness:
  "fst (visitTargets exampleService \<lparr>wNow = 0, wStore = (), wMetrics = metrics_init\<rparr>)
     = Inr (Tour_ran 1 1 1 110)"
proof -
  let ?w = "\<lparr>wNow = 0, wStore = (), wMetrics = metrics_init\<rparr>"
  obtain r w' where run: "visitTargets exampleService ?w = (Inr r, w')"
    by (simp add: visitTargets_def exampleService_def newOperationDeadline_def exampleTarget_def
        hasExpired_def remainingMs_def)
  from tour_accounts_for_every_target [OF run] run show ?thesis
    by (auto simp: exampleService_def exampleTarget_def newOperationDeadline_def hasExpired_def
        remainingMs_def)
qed

text \<open>
  A tour never leaves the service marked as running, on any path, unless it was skipped
  because another one already was; and it releases the lock exactly when it acquired it, with
  its own token, whatever the targets do. Without the lock no target is visited.
\<close>

theorem tour_releases_lock_and_flag:
  assumes "\<And>k t w. freed (snd (deleteIfValueEquals port k t w)) = freed w @ [(k, t)]"
    and "\<And>k t n w. freed (snd (setIfAbsent port k t n w)) = freed w"
    and "\<And>t d w. t \<in> set (warmupTargets svc) \<Longrightarrow> freed (snd (targetRefresh t d w)) = freed w"
    and "\<And>w m. freed (w\<lparr>wMetrics := m\<rparr>) = freed w"
    and "runTour (Some port) token svc w = (r, svc', w')"
  shows "svc' = svc
    \<and> freed w' = freed w @
        (if warmupEnabled (warmupOpts svc) \<and> \<not> running svc
            \<and> fst (setIfAbsent port (warmupLockKey (warmupName (warmupOpts svc))) token
                     (warmupDeadlineMs (warmupOpts svc)) w) = Some True
         then [(warmupLockKey (warmupName (warmupOpts svc)), token)] else [])"
proof -
  let ?key = "warmupLockKey (warmupName (warmupOpts svc))"
  obtain a w1 where set: "setIfAbsent port ?key token (warmupDeadlineMs (warmupOpts svc)) w = (a, w1)"
    by fastforce
  have w1: "freed w1 = freed w"
    using assms(2) [of ?key token "warmupDeadlineMs (warmupOpts svc)" w] set by simp
  have loop: "freed (snd (visitLoop d ts c v)) = freed v" if "set ts \<subseteq> set (warmupTargets svc)"
    for d ts c v
    using that
  proof (induction d ts c v rule: visitLoop.induct)
    case (2 d t ts ok bad skip v)
    then show ?case using assms(3) [of t d v] by (auto split: prod.split bool.split)
  qed simp
  have visit: "freed (snd (visitTargets (svc\<lparr>running := True\<rparr>) v)) = freed v" for v
    using loop [OF subset_refl] by (auto simp: visitTargets_def split: sum.split prod.split) (metis snd_conv)
  have idle: "\<not> running svc \<Longrightarrow> svc\<lparr>running := False\<rparr> = svc" by simp
  obtain r1 w2 where v: "visitTargets (svc\<lparr>running := True\<rparr>) w1 = (r1, w2)" by fastforce
  have w2: "freed w2 = freed w" using visit [of w1] v w1 by simp
  have del: "freed (snd (deleteIfValueEquals port ?key token w2)) = freed w @ [(?key, token)]"
    using assms(1) w2 by simp
  show ?thesis
    using assms(5) set w1 v del idle assms(4)
    by (auto simp: runTour_def Let_def split: if_splits option.splits bool.splits prod.splits)
qed

definition lockTarget :: "(string \<times> string) list warmupTarget" where
  "lockTarget = \<lparr>targetLabel = ''t'', targetRefresh = (\<lambda>d w. (False, w))\<rparr>"

theorem tour_releases_lock_and_flag_witness:
  "wStore (snd (snd (runTour (Some loggingLock) ''tok''
      \<lparr>warmupOpts = \<lparr>warmupName = ''eq'', warmupEnabled = True, warmupDeadlineMs = 100\<rparr>,
       warmupTargets = [lockTarget], running = False\<rparr>
      \<lparr>wNow = 0, wStore = [], wMetrics = metrics_init\<rparr>))) = [(''eq:warmup:lock'', ''tok'')]"
proof -
  let ?svc = "\<lparr>warmupOpts = \<lparr>warmupName = ''eq'', warmupEnabled = True, warmupDeadlineMs = 100\<rparr>,
       warmupTargets = [lockTarget], running = False\<rparr>"
  let ?w = "\<lparr>wNow = 0, wStore = [], wMetrics = metrics_init\<rparr>"
  obtain r svc' w' where run: "runTour (Some loggingLock) ''tok'' ?svc ?w = (r, svc', w')"
    by (metis prod_cases3)
  have del: "wStore (snd (deleteIfValueEquals loggingLock k t w)) = wStore w @ [(k, t)]" for k t w
    by (simp add: loggingLock_def)
  have set: "wStore (snd (setIfAbsent loggingLock k t n w)) = wStore w" for k t n w
    by (simp add: loggingLock_def)
  have ref: "wStore (snd (targetRefresh t d w)) = wStore w" if "t \<in> set (warmupTargets ?svc)" for t d w
    using that by (simp add: lockTarget_def)
  have met: "wStore (w\<lparr>wMetrics := m\<rparr>) = wStore w" for w :: "(string \<times> string) list cacheWorld" and m
    by simp
  from tour_releases_lock_and_flag [where freed = wStore, OF del set ref met run] run show ?thesis
    by (simp add: loggingLock_def warmupLockKey_def)
qed

end
