(* ===== verification/Auth_Rate_Limit.thy ===== *)
theory Auth_Rate_Limit
  imports Window_Limiter
begin

text \<open>
  \<open>src/auth/auth-rate-limit.service.ts\<close> with the rules of \<open>src/auth/auth.types.ts\<close>: fixed-window
  counters in the table \<open>auth_rate_limits\<close>, one row per scope, subject and window start. The
  keyed digest that turns an address into a subject is a parameter; the two statements of
  \<open>consume\<close> and the one of \<open>refund\<close> are the SQL they send, on the table as a map.
\<close>

section \<open>Rules\<close>

datatype authRateLimitScope =
    RegisterEmail | VerifyResendCooldown | VerifyResendDaily | LoginEmail | PasswordResetEmail
  | PasswordChange

record authRateLimitRule =
  ruleLimit :: nat
  ruleWindowMs :: ms

definition ONE_SECOND_MS :: ms where "ONE_SECOND_MS = 1000"
definition ONE_MINUTE_MS :: ms where "ONE_MINUTE_MS = 60 * ONE_SECOND_MS"
definition ONE_HOUR_MS :: ms where "ONE_HOUR_MS = 60 * ONE_MINUTE_MS"
definition ONE_DAY_MS :: ms where "ONE_DAY_MS = 24 * ONE_HOUR_MS"

fun AUTH_RATE_LIMIT_RULES :: "authRateLimitScope \<Rightarrow> authRateLimitRule" where
  "AUTH_RATE_LIMIT_RULES RegisterEmail = \<lparr>ruleLimit = 3, ruleWindowMs = ONE_DAY_MS\<rparr>"
| "AUTH_RATE_LIMIT_RULES VerifyResendCooldown = \<lparr>ruleLimit = 1, ruleWindowMs = 60 * ONE_SECOND_MS\<rparr>"
| "AUTH_RATE_LIMIT_RULES VerifyResendDaily = \<lparr>ruleLimit = 5, ruleWindowMs = ONE_DAY_MS\<rparr>"
| "AUTH_RATE_LIMIT_RULES LoginEmail = \<lparr>ruleLimit = 10, ruleWindowMs = 15 * ONE_MINUTE_MS\<rparr>"
| "AUTH_RATE_LIMIT_RULES PasswordResetEmail = \<lparr>ruleLimit = 3, ruleWindowMs = ONE_HOUR_MS\<rparr>"
| "AUTH_RATE_LIMIT_RULES PasswordChange = \<lparr>ruleLimit = 5, ruleWindowMs = 15 * ONE_MINUTE_MS\<rparr>"

lemmas duration_defs = ONE_SECOND_MS_def ONE_MINUTE_MS_def ONE_HOUR_MS_def ONE_DAY_MS_def

lemma ruleWindowMs_pos [simp]: "0 < ruleWindowMs (AUTH_RATE_LIMIT_RULES sc)"
  by (cases sc) (simp_all add: duration_defs)

section \<open>Operations\<close>

type_synonym 'h rateLimitRows = "(authRateLimitScope \<times> 'h \<times> ms, nat) jsmap"

record authRateLimitOutcome =
  allowed :: bool
  retryAfterSeconds :: int
  windowStart :: ms

definition windowStartFor :: "authRateLimitScope \<Rightarrow> ms \<Rightarrow> ms" where
  "windowStartFor sc now =
     now div ruleWindowMs (AUTH_RATE_LIMIT_RULES sc) * ruleWindowMs (AUTH_RATE_LIMIT_RULES sc)"

text \<open>\<open>DELETE ... WHERE scope, subject AND window_start < $3\<close>.\<close>

definition deleteOlder ::
  "authRateLimitScope \<Rightarrow> 'h \<Rightarrow> ms \<Rightarrow> 'h rateLimitRows \<Rightarrow> 'h rateLimitRows" where
  "deleteOlder sc subject start rows =
     filter (\<lambda>((sc', subject', start'), n). \<not> (sc' = sc \<and> subject' = subject \<and> start' < start)) rows"

text \<open>\<open>INSERT ... ON CONFLICT DO UPDATE SET attempt_count + 1 RETURNING attempt_count\<close>.\<close>

definition upsertAttempt ::
  "authRateLimitScope \<Rightarrow> 'h \<Rightarrow> ms \<Rightarrow> 'h rateLimitRows \<Rightarrow> nat \<times> 'h rateLimitRows" where
  "upsertAttempt sc subject start rows =
     (let n = (case js_get rows (sc, subject, start) of None \<Rightarrow> 1 | Some n \<Rightarrow> n + 1)
      in (n, js_set (sc, subject, start) n rows))"

definition consume ::
  "(authRateLimitScope \<Rightarrow> string \<Rightarrow> 'h) \<Rightarrow> authRateLimitScope \<Rightarrow> string \<Rightarrow> ms
   \<Rightarrow> 'h rateLimitRows \<Rightarrow> authRateLimitOutcome \<times> 'h rateLimitRows" where
  "consume digest sc canonicalEmail nowMs rows =
     (let rule = AUTH_RATE_LIMIT_RULES sc;
          start = windowStartFor sc nowMs;
          subject = digest sc canonicalEmail;
          (attemptCount, rows') = upsertAttempt sc subject start (deleteOlder sc subject start rows);
          ok = (attemptCount \<le> ruleLimit rule)
      in (\<lparr>allowed = ok,
           retryAfterSeconds =
             (if ok then 0
              else max 0 \<lceil>of_int (start + ruleWindowMs rule - nowMs) / (1000 :: rat)\<rceil>),
           windowStart = start\<rparr>, rows'))"

definition refund ::
  "(authRateLimitScope \<Rightarrow> string \<Rightarrow> 'h) \<Rightarrow> authRateLimitScope \<Rightarrow> string \<Rightarrow> ms
   \<Rightarrow> 'h rateLimitRows \<Rightarrow> 'h rateLimitRows" where
  "refund digest sc canonicalEmail start rows =
     (case js_get rows (sc, digest sc canonicalEmail, start) of
        None \<Rightarrow> rows
      | Some n \<Rightarrow> js_set (sc, digest sc canonicalEmail, start) (n - 1) rows)"

section \<open>Facts\<close>

definition attempts :: "'h rateLimitRows \<Rightarrow> authRateLimitScope \<times> 'h \<times> ms \<Rightarrow> nat" where
  "attempts rows k = (case js_get rows k of None \<Rightarrow> 0 | Some n \<Rightarrow> n)"

lemma deleteOlder_wf: "js_wf rows \<Longrightarrow> js_wf (deleteOlder sc h t rows)"
  by (simp add: deleteOlder_def js_wf_def distinct_map_filter)

lemma attempts_deleteOlder:
  "js_wf rows \<Longrightarrow> attempts (deleteOlder sc h t rows) (sc', h', t') =
     (if sc' = sc \<and> h' = h \<and> t' < t then 0 else attempts rows (sc', h', t'))"
  by (auto simp: attempts_def deleteOlder_def js_get_filter_wf split: option.split)

lemma upsertAttempt_facts:
  assumes "upsertAttempt sc h t rows = (n, rows')" and "js_wf rows"
  shows "js_wf rows'" and "n = attempts rows (sc, h, t) + 1"
    and "attempts rows' k = attempts rows k + (if k = (sc, h, t) then 1 else 0)"
  using assms by (auto simp: upsertAttempt_def attempts_def Let_def split: option.splits)

lemma consume_facts:
  assumes "consume digest sc em now rows = (out, rows')" and "js_wf rows"
  shows "js_wf rows'"
    and "allowed out \<longleftrightarrow> attempts rows (sc, digest sc em, windowStartFor sc now) + 1
          \<le> ruleLimit (AUTH_RATE_LIMIT_RULES sc)"
    and "attempts rows' (sc', h', t') =
      (if sc' = sc \<and> h' = digest sc em \<and> t' < windowStartFor sc now then 0
       else attempts rows (sc', h', t')
         + (if (sc', h', t') = (sc, digest sc em, windowStartFor sc now) then 1 else 0))"
    and "windowStart out = windowStartFor sc now"
proof -
  obtain n where up: "upsertAttempt sc (digest sc em) (windowStartFor sc now)
      (deleteOlder sc (digest sc em) (windowStartFor sc now) rows) = (n, rows')"
    and out: "allowed out \<longleftrightarrow> n \<le> ruleLimit (AUTH_RATE_LIMIT_RULES sc)"
      "windowStart out = windowStartFor sc now"
    using assms(1) by (auto simp: consume_def Let_def split: prod.splits)
  note wf = deleteOlder_wf [OF assms(2), of sc "digest sc em" "windowStartFor sc now"]
  note u = upsertAttempt_facts [OF up wf]
  show "js_wf rows'" by (rule u(1))
  show "allowed out \<longleftrightarrow> attempts rows (sc, digest sc em, windowStartFor sc now) + 1
          \<le> ruleLimit (AUTH_RATE_LIMIT_RULES sc)"
    using u(2) out attempts_deleteOlder [OF assms(2)] by simp
  show "attempts rows' (sc', h', t') =
      (if sc' = sc \<and> h' = digest sc em \<and> t' < windowStartFor sc now then 0
       else attempts rows (sc', h', t')
         + (if (sc', h', t') = (sc, digest sc em, windowStartFor sc now) then 1 else 0))"
    using u(3) attempts_deleteOlder [OF assms(2)] by auto
  show "windowStart out = windowStartFor sc now" by (rule out(2))
qed

section \<open>The limit\<close>

record rateCall =
  rcScope :: authRateLimitScope
  rcEmail :: string
  rcNow :: ms

definition rateStep ::
  "(authRateLimitScope \<Rightarrow> string \<Rightarrow> 'h) \<Rightarrow> rateCall \<Rightarrow> 'h rateLimitRows \<Rightarrow> bool \<times> 'h rateLimitRows" where
  "rateStep digest c rows =
     (let (out, rows') = consume digest (rcScope c) (rcEmail c) (rcNow c) rows
      in (allowed out, rows'))"

definition windowOf :: "authRateLimitScope \<Rightarrow> ms \<Rightarrow> int" where
  "windowOf sc now = now div ruleWindowMs (AUTH_RATE_LIMIT_RULES sc)"

interpretation authLimit: window_limiter "rateStep digest" rcNow "\<lambda>c. 1"
    "\<lambda>c. rcScope c = sc \<and> rcEmail c = em" "windowOf sc"
    "\<lambda>n rows. attempts rows (sc, digest sc em, n * ruleWindowMs (AUTH_RATE_LIMIT_RULES sc))"
    "ruleLimit (AUTH_RATE_LIMIT_RULES sc)" js_wf "\<lambda>c. True"
  for digest sc em
proof (unfold_locales, goal_cases)
  case (1 t t')
  then show ?case by (simp add: windowOf_def zdiv_mono1)
next
  case (2 s c)
  then show ?case by (auto simp: rateStep_def dest: consume_facts(1) split: prod.split)
next
  case (3 s c)
  obtain out s' where run: "consume digest (rcScope c) (rcEmail c) (rcNow c) s = (out, s')" by fastforce
  have "attempts s (sc, digest sc em, windowOf sc (rcNow c) * ruleWindowMs (AUTH_RATE_LIMIT_RULES sc))
      \<le> attempts s' (sc, digest sc em, windowOf sc (rcNow c) * ruleWindowMs (AUTH_RATE_LIMIT_RULES sc))"
    unfolding consume_facts(3) [OF run 3(1)] by (auto simp: windowOf_def windowStartFor_def)
  with run show ?case by (simp add: rateStep_def)
next
  case (4 s c)
  obtain out s' where run: "consume digest (rcScope c) (rcEmail c) (rcNow c) s = (out, s')" by fastforce
  have w: "windowOf sc (rcNow c) * ruleWindowMs (AUTH_RATE_LIMIT_RULES sc) = windowStartFor sc (rcNow c)"
    by (simp add: windowOf_def windowStartFor_def)
  from 4(2) have c: "rcScope c = sc" "rcEmail c = em" by simp_all
  note run' = run [unfolded c]
  have "allowed out" using 4(3) run by (simp add: rateStep_def)
  then have "attempts s (sc, digest sc em, windowStartFor sc (rcNow c)) + 1
      \<le> ruleLimit (AUTH_RATE_LIMIT_RULES sc)"
    using consume_facts(2) [OF run' 4(1)] by simp
  moreover have "attempts s' (sc, digest sc em, windowStartFor sc (rcNow c))
      = attempts s (sc, digest sc em, windowStartFor sc (rcNow c)) + 1"
    unfolding consume_facts(3) [OF run' 4(1)] by simp
  ultimately show ?case using run c w by (simp add: rateStep_def)
qed

text \<open>
  In any window of a scope, at most the rule's number of attempts is allowed for one
  address, whatever other addresses and scopes do in between and although every attempt
  deletes the older windows of its own counter.
\<close>

theorem auth_attempts_limited:
  assumes "sorted (map rcNow calls)"
  shows "spent (rateStep digest) (\<lambda>c. 1)
      (\<lambda>c. (rcScope c = sc \<and> rcEmail c = em) \<and> windowOf sc (rcNow c) = n) calls []
    \<le> ruleLimit (AUTH_RATE_LIMIT_RULES sc)"
  using authLimit.spent_within_limit [OF js_wf_Nil assms, of digest sc em n] by simp

theorem auth_attempts_limited_witness:
  "spent (rateStep (\<lambda>sc em. em)) (\<lambda>c. 1)
      (\<lambda>c. (rcScope c = VerifyResendCooldown \<and> rcEmail c = ''a@b'') \<and> windowOf VerifyResendCooldown (rcNow c) = 0)
      [\<lparr>rcScope = VerifyResendCooldown, rcEmail = ''a@b'', rcNow = 1\<rparr>,
       \<lparr>rcScope = VerifyResendCooldown, rcEmail = ''a@b'', rcNow = 2\<rparr>] [] \<le> 1"
  using auth_attempts_limited [of "[\<lparr>rcScope = VerifyResendCooldown, rcEmail = ''a@b'', rcNow = 1\<rparr>,
       \<lparr>rcScope = VerifyResendCooldown, rcEmail = ''a@b'', rcNow = 2\<rparr>]" "\<lambda>sc em. em"
       VerifyResendCooldown "''a@b''" 0]
  by simp

lemma attempts_refund:
  assumes "js_wf rows" and "consume digest sc em now rows = (out, rows')"
    and "t \<ge> windowStartFor sc now \<or> sc' \<noteq> sc \<or> h \<noteq> digest sc em"
  shows "attempts (refund digest sc em (windowStart out) rows') (sc', h, t) = attempts rows (sc', h, t)"
proof -
  note c = consume_facts [OF assms(2,1)]
  have "attempts (refund digest sc em (windowStart out) rows') k
      = attempts rows' k - (if k = (sc, digest sc em, windowStartFor sc now) then 1 else 0)" for k
    by (auto simp: refund_def attempts_def c(4) split: option.split)
  with c(3) [of sc' h t] assms(3) show ?thesis by auto
qed

text \<open>
  A refund of the window an attempt was counted in restores exactly the counters that the
  attempt found, for that window and for every other counter still standing, and a refund
  never takes a counter below zero.
\<close>

theorem refund_undoes_consume:
  assumes "js_wf rows" and "consume digest sc em now rows = (out, rows')"
    and "t \<ge> windowStartFor sc now \<or> sc' \<noteq> sc \<or> h \<noteq> digest sc em"
  shows "attempts (refund digest sc em (windowStart out) rows') (sc', h, t) = attempts rows (sc', h, t)"
  by (rule attempts_refund [OF assms])

theorem refund_undoes_consume_witness:
  "attempts (refund (\<lambda>sc em. em) VerifyResendDaily ''a'' 0
     (snd (consume (\<lambda>sc em. em) VerifyResendDaily ''a'' 5 []))) (VerifyResendDaily, ''a'', 0) = 0"
proof -
  obtain out rows' where run: "consume (\<lambda>sc em. em) VerifyResendDaily ''a'' 5 [] = (out, rows')"
    by fastforce
  have "windowStart out = 0" using run
    by (auto simp: consume_def windowStartFor_def Let_def duration_defs split: prod.splits)
  moreover have "windowStartFor VerifyResendDaily 5 = 0"
    by (simp add: windowStartFor_def duration_defs)
  ultimately show ?thesis using refund_undoes_consume [OF js_wf_Nil run, of 0 VerifyResendDaily "''a''"] run
    by (simp add: attempts_def)
qed

end
