(* ===== verification/Auth_Sessions.thy ===== *)
theory Auth_Sessions
  imports Auth_Rate_Limit
begin

text \<open>
  \<open>src/auth/session.service.ts\<close>, \<open>access-token.guard.ts\<close>, \<open>password-change.service.ts\<close> and
  \<open>account-deletion.service.ts\<close>: accounts, refresh-token families and what ends them. The tables
  are lists of rows; a transaction is one function, which the row locks the code takes justify.
  Digests, password verification and the random values are parameters of each call.
\<close>

section \<open>Rows and the database\<close>

datatype accountStatus = Unverified | Active | Disabled | PendingDeletion

datatype sessionRevocationReason =
    Rotated | Logout | ReuseDetected | PasswordReset | Expired | AccountInactive

record 'h session =
  sId :: string
  sUserId :: string
  sFamilyId :: string
  sTokenHash :: 'h
  sIssuedAt :: ms
  sExpiresAt :: ms
  sRevokedAt :: "ms option"
  sRevokedReason :: "sessionRevocationReason option"
  sRotatedFromId :: "string option"
  sRotationGraceUsedAt :: "ms option"

record 'p user =
  uId :: string
  uEmail :: string
  uPasswordHash :: string
  uStatus :: accountStatus
  uTokenVersion :: nat
  uProfile :: 'p

record ('h, 'p) authDb =
  sessions :: "'h session list"
  users :: "'p user list"
  rateRows :: "'h rateLimitRows"

definition REFRESH_TOKEN_TTL_DAYS :: int where "REFRESH_TOKEN_TTL_DAYS = 30"
definition REFRESH_TOKEN_TTL_MS :: ms where
  "REFRESH_TOKEN_TTL_MS = REFRESH_TOKEN_TTL_DAYS * 24 * 60 * 60 * 1000"
definition REFRESH_ROTATION_GRACE_WINDOW_MS :: ms where "REFRESH_ROTATION_GRACE_WINDOW_MS = 15000"

datatype authError =
    E_tooManyAttempts | E_invalidCredentials | E_emailNotVerified | E_accountDisabled
  | E_sessionExpired | E_unauthenticated | E_passwordCurrentInvalid | E_passwordUnchanged
  | E_resetTokenInvalid | E_verifyCodeInvalid

text \<open>The random values one call draws: an opaque token, a row id and a family id.\<close>

record minted =
  mToken :: string
  mId :: string
  mFamily :: string

text \<open>What is signed into an access token, and the pair a client receives.\<close>

record accessToken =
  atSub :: string
  atSv :: nat
  atExp :: ms

record authResult =
  arAccess :: accessToken
  arRefreshToken :: string

definition ACCESS_TOKEN_TTL_SECONDS :: int where "ACCESS_TOKEN_TTL_SECONDS = 900"

definition mintAccess :: "string \<Rightarrow> nat \<Rightarrow> ms \<Rightarrow> accessToken" where
  "mintAccess userId version now =
     \<lparr>atSub = userId, atSv = version, atExp = now + ACCESS_TOKEN_TTL_SECONDS * 1000\<rparr>"

text \<open>\<open>UPDATE ... WHERE\<close>, and \<open>findOne\<close> by a unique column.\<close>

definition updateWhere :: "('r \<Rightarrow> bool) \<Rightarrow> ('r \<Rightarrow> 'r) \<Rightarrow> 'r list \<Rightarrow> 'r list" where
  "updateWhere P f rows = map (\<lambda>r. if P r then f r else r) rows"

definition findUser :: "string \<Rightarrow> ('h, 'p) authDb \<Rightarrow> 'p user option" where
  "findUser i db = find (\<lambda>u. uId u = i) (users db)"

definition revoke :: "ms \<Rightarrow> sessionRevocationReason \<Rightarrow> 'h session \<Rightarrow> 'h session" where
  "revoke now reason s = s\<lparr>sRevokedAt := Some now, sRevokedReason := Some reason\<rparr>"

definition isLive :: "'h session \<Rightarrow> bool" where
  "isLive s \<longleftrightarrow> sRevokedAt s = None"

section \<open>Opening a session\<close>

definition openedRow :: "(string \<Rightarrow> 'h) \<Rightarrow> minted \<Rightarrow> string \<Rightarrow> ms \<Rightarrow> 'h session" where
  "openedRow sha m userId now =
     \<lparr>sId = mId m, sUserId = userId, sFamilyId = mFamily m, sTokenHash = sha (mToken m),
      sIssuedAt = now, sExpiresAt = now + REFRESH_TOKEN_TTL_MS, sRevokedAt = None,
      sRevokedReason = None, sRotatedFromId = None, sRotationGraceUsedAt = None\<rparr>"

definition issueSession ::
  "(string \<Rightarrow> 'h) \<Rightarrow> minted \<Rightarrow> string \<Rightarrow> nat \<Rightarrow> ms \<Rightarrow> ('h, 'p) authDb \<Rightarrow> authResult \<times> ('h, 'p) authDb" where
  "issueSession sha m userId version now db =
     (\<lparr>arAccess = mintAccess userId version now, arRefreshToken = mToken m\<rparr>,
      db\<lparr>sessions := sessions db @ [openedRow sha m userId now]\<rparr>)"

definition mintSessionForUser ::
  "(string \<Rightarrow> 'h) \<Rightarrow> minted \<Rightarrow> string \<Rightarrow> ms \<Rightarrow> ('h, 'p) authDb
   \<Rightarrow> (authError + authResult) \<times> ('h, 'p) authDb" where
  "mintSessionForUser sha m userId now db =
     (case findUser userId db of
        None \<Rightarrow> (Inl E_unauthenticated, db)
      | Some u \<Rightarrow> map_prod Inr id (issueSession sha m (uId u) (uTokenVersion u) now db))"

text \<open>
  \<open>verify\<close> answers whether the password matches, or nothing when the stored hash cannot be read
  (\<open>PasswordHashVerificationError\<close>), which every caller treats as no match.
\<close>

type_synonym passwordVerify = "string \<Rightarrow> string \<Rightarrow> bool option"

definition verifyFailClosed :: "passwordVerify \<Rightarrow> string \<Rightarrow> string \<Rightarrow> bool" where
  "verifyFailClosed verify stored candidate = (verify stored candidate = Some True)"

definition login ::
  "(authRateLimitScope \<Rightarrow> string \<Rightarrow> 'h) \<Rightarrow> (string \<Rightarrow> 'h) \<Rightarrow> passwordVerify \<Rightarrow> minted
   \<Rightarrow> string \<Rightarrow> string \<Rightarrow> ms \<Rightarrow> ('h, 'p) authDb \<Rightarrow> (authError + authResult) \<times> ('h, 'p) authDb" where
  "login digest sha verify m email password now db0 =
     (let (identityLimit, rows) = consume digest LoginEmail email now (rateRows db0);
          db = db0\<lparr>rateRows := rows\<rparr>
      in if \<not> allowed identityLimit then (Inl E_tooManyAttempts, db)
         else (case find (\<lambda>u. uEmail u = email) (users db) of
                 None \<Rightarrow> (Inl E_invalidCredentials, db)
               | Some u \<Rightarrow>
                   if \<not> verifyFailClosed verify (uPasswordHash u) password
                   then (Inl E_invalidCredentials, db)
                   else if uStatus u = Unverified then (Inl E_emailNotVerified, db)
                   else if uStatus u \<noteq> Active then (Inl E_accountDisabled, db)
                   else map_prod Inr id (issueSession sha m (uId u) (uTokenVersion u) now db)))"

section \<open>Refreshing\<close>

definition rotatedRow ::
  "(string \<Rightarrow> 'h) \<Rightarrow> minted \<Rightarrow> 'h session \<Rightarrow> string \<Rightarrow> ms \<Rightarrow> 'h session" where
  "rotatedRow sha m existing fromId now =
     \<lparr>sId = mId m, sUserId = sUserId existing, sFamilyId = sFamilyId existing,
      sTokenHash = sha (mToken m), sIssuedAt = now, sExpiresAt = now + REFRESH_TOKEN_TTL_MS,
      sRevokedAt = None, sRevokedReason = None, sRotatedFromId = Some fromId,
      sRotationGraceUsedAt = None\<rparr>"

definition rotatedWithinGrace :: "'h session \<Rightarrow> ms \<Rightarrow> bool" where
  "rotatedWithinGrace existing now \<longleftrightarrow>
     sRevokedReason existing = Some Rotated \<and> sRotationGraceUsedAt existing = None
     \<and> (case sRevokedAt existing of None \<Rightarrow> False
        | Some t \<Rightarrow> t + REFRESH_ROTATION_GRACE_WINDOW_MS \<ge> now)"

text \<open>The successors of a row, and the only one when there is exactly one.\<close>

definition successorOf :: "'h session \<Rightarrow> 'h session list \<Rightarrow> 'h session option" where
  "successorOf existing rows =
     (case filter (\<lambda>s. sRotatedFromId s = Some (sId existing) \<and> sFamilyId s = sFamilyId existing
                     \<and> sUserId s = sUserId existing) rows of
        [s] \<Rightarrow> Some s | _ \<Rightarrow> None)"

definition revokeFamily ::
  "string \<Rightarrow> ms \<Rightarrow> sessionRevocationReason \<Rightarrow> 'h session list \<Rightarrow> 'h session list" where
  "revokeFamily family now reason rows =
     updateWhere (\<lambda>s. sFamilyId s = family \<and> isLive s) (revoke now reason) rows"

definition bumpTokenVersion :: "string \<Rightarrow> 'p user list \<Rightarrow> 'p user list" where
  "bumpTokenVersion i us = updateWhere (\<lambda>u. uId u = i) (\<lambda>u. u\<lparr>uTokenVersion := uTokenVersion u + 1\<rparr>) us"

datatype refreshOutcome = Refresh_rejected | Refresh_ok string nat string

text \<open>The callback of the transaction.\<close>

definition refreshTransaction ::
  "(string \<Rightarrow> 'h) \<Rightarrow> minted \<Rightarrow> string \<Rightarrow> ms \<Rightarrow> ('h, 'p) authDb \<Rightarrow> refreshOutcome \<times> ('h, 'p) authDb" where
  "refreshTransaction sha m presented now db =
     (case find (\<lambda>s. sTokenHash s = sha presented) (sessions db) of
        None \<Rightarrow> (Refresh_rejected, db)
      | Some existing \<Rightarrow>
         if sRevokedAt existing \<noteq> None
         then
          (let reuse = (Refresh_rejected,
                 db\<lparr>sessions := revokeFamily (sFamilyId existing) now ReuseDetected (sessions db),
                    users := bumpTokenVersion (sUserId existing) (users db)\<rparr>)
           in if rotatedWithinGrace existing now
              then (case (successorOf existing (sessions db), findUser (sUserId existing) db) of
                      (Some successor, Some u) \<Rightarrow>
                        if isLive successor \<and> uStatus u = Active
                        then
                         (let marked = updateWhere
                                (\<lambda>s. sId s = sId existing \<and> sRotationGraceUsedAt s = None)
                                (\<lambda>s. s\<lparr>sRotationGraceUsedAt := Some now\<rparr>) (sessions db);
                              saved = marked @ [rotatedRow sha m existing (sId successor) now];
                              kept = updateWhere (\<lambda>s. sId s = sId successor \<and> isLive s)
                                (revoke now Rotated) saved
                          in (Refresh_ok (uId u) (uTokenVersion u) (mToken m), db\<lparr>sessions := kept\<rparr>))
                        else reuse
                    | _ \<Rightarrow> reuse)
              else reuse)
         else if sExpiresAt existing \<le> now
         then (Refresh_rejected,
               db\<lparr>sessions := updateWhere (\<lambda>s. sId s = sId existing) (revoke now Expired) (sessions db)\<rparr>)
         else (case findUser (sUserId existing) db of
                 Some u \<Rightarrow>
                   if uStatus u = Active
                   then (let saved = sessions db @ [rotatedRow sha m existing (sId existing) now];
                             kept = updateWhere (\<lambda>s. sId s = sId existing) (revoke now Rotated) saved
                         in (Refresh_ok (uId u) (uTokenVersion u) (mToken m), db\<lparr>sessions := kept\<rparr>))
                   else (Refresh_rejected, db\<lparr>sessions :=
                           revokeFamily (sFamilyId existing) now AccountInactive (sessions db)\<rparr>)
               | None \<Rightarrow> (Refresh_rejected, db\<lparr>sessions :=
                           revokeFamily (sFamilyId existing) now AccountInactive (sessions db)\<rparr>)))"

definition refresh ::
  "(string \<Rightarrow> 'h) \<Rightarrow> minted \<Rightarrow> string \<Rightarrow> ms \<Rightarrow> ('h, 'p) authDb
   \<Rightarrow> (authError + authResult) \<times> ('h, 'p) authDb" where
  "refresh sha m presented now db =
     (case refreshTransaction sha m presented now db of
        (Refresh_rejected, db') \<Rightarrow> (Inl E_sessionExpired, db')
      | (Refresh_ok userId version token, db') \<Rightarrow>
          (Inr \<lparr>arAccess = mintAccess userId version now, arRefreshToken = token\<rparr>, db'))"

definition logout :: "(string \<Rightarrow> 'h) \<Rightarrow> string \<Rightarrow> ms \<Rightarrow> ('h, 'p) authDb \<Rightarrow> ('h, 'p) authDb" where
  "logout sha presented now db =
     (case find (\<lambda>s. sTokenHash s = sha presented) (sessions db) of
        None \<Rightarrow> db
      | Some existing \<Rightarrow> db\<lparr>sessions := revokeFamily (sFamilyId existing) now Logout (sessions db)\<rparr>)"

section \<open>Changing the password, deleting the account\<close>

definition revokeAllOf :: "string \<Rightarrow> ms \<Rightarrow> sessionRevocationReason \<Rightarrow> 'h session list \<Rightarrow> 'h session list" where
  "revokeAllOf userId now reason rows =
     updateWhere (\<lambda>s. sUserId s = userId \<and> isLive s) (revoke now reason) rows"

definition setPassword :: "string \<Rightarrow> string \<Rightarrow> 'p user list \<Rightarrow> 'p user list" where
  "setPassword userId hash us = updateWhere (\<lambda>u. uId u = userId) (\<lambda>u. u\<lparr>uPasswordHash := hash\<rparr>) us"

definition changePassword ::
  "(authRateLimitScope \<Rightarrow> string \<Rightarrow> 'h) \<Rightarrow> (string \<Rightarrow> 'h) \<Rightarrow> passwordVerify \<Rightarrow> (string \<Rightarrow> string)
   \<Rightarrow> minted \<Rightarrow> string \<Rightarrow> string \<Rightarrow> string \<Rightarrow> ms \<Rightarrow> ('h, 'p) authDb
   \<Rightarrow> (authError + authResult) \<times> ('h, 'p) authDb" where
  "changePassword digest sha verify hash m userId currentPassword newPassword now db0 =
     (let (budget, rows) = consume digest PasswordChange userId now (rateRows db0);
          db = db0\<lparr>rateRows := rows\<rparr>
      in if \<not> allowed budget then (Inl E_tooManyAttempts, db)
         else (case findUser userId db of
                 None \<Rightarrow> (Inl E_unauthenticated, db)
               | Some u \<Rightarrow>
                  if \<not> verifyFailClosed verify (uPasswordHash u) currentPassword
                  then (Inl E_passwordCurrentInvalid, db)
                  else if verifyFailClosed verify (uPasswordHash u) newPassword
                  then (Inl E_passwordUnchanged, db)
                  else (let db' = db\<lparr>users := setPassword userId (hash newPassword)
                                       (bumpTokenVersion userId (users db)),
                                    sessions := revokeAllOf userId now PasswordReset (sessions db)\<rparr>
                        in map_prod Inr id
                             (issueSession sha m userId (uTokenVersion u + 1) now db'))))"

text \<open>Deleting the user row cascades to its sessions (\<open>FK_sessions_user ... ON DELETE CASCADE\<close>).\<close>

definition deleteAccount ::
  "(authRateLimitScope \<Rightarrow> string \<Rightarrow> 'h) \<Rightarrow> passwordVerify \<Rightarrow> string \<Rightarrow> string \<Rightarrow> ms
   \<Rightarrow> ('h, 'p) authDb \<Rightarrow> (authError + unit) \<times> ('h, 'p) authDb" where
  "deleteAccount digest verify userId currentPassword now db0 =
     (let (budget, rows) = consume digest PasswordChange userId now (rateRows db0);
          db = db0\<lparr>rateRows := rows\<rparr>
      in if \<not> allowed budget then (Inl E_tooManyAttempts, db)
         else (case findUser userId db of
                 None \<Rightarrow> (Inl E_unauthenticated, db)
               | Some u \<Rightarrow>
                  if \<not> verifyFailClosed verify (uPasswordHash u) currentPassword
                  then (Inl E_passwordCurrentInvalid, db)
                  else (Inr (), db\<lparr>users := filter (\<lambda>u. uId u \<noteq> userId) (users db),
                          sessions := filter (\<lambda>s. sUserId s \<noteq> userId) (sessions db)\<rparr>)))"

section \<open>The guard of every authenticated route\<close>

definition BEARER_PREFIX :: string where "BEARER_PREFIX = ''Bearer ''"

text \<open>\<open>jwtVerify\<close> is \<open>AccessTokenService.verify\<close>: the claims of a token that is valid now.\<close>

definition canActivate ::
  "(string \<Rightarrow> ms \<Rightarrow> accessToken option) \<Rightarrow> string option \<Rightarrow> ms \<Rightarrow> ('h, 'p) authDb
   \<Rightarrow> authError + string" where
  "canActivate jwtVerify header now db =
     (case header of
        None \<Rightarrow> Inl E_unauthenticated
      | Some h \<Rightarrow>
         if take (length BEARER_PREFIX) h \<noteq> BEARER_PREFIX then Inl E_unauthenticated
         else (let token = drop (length BEARER_PREFIX) h
               in if token = [] then Inl E_unauthenticated
                  else (case jwtVerify token now of
                          None \<Rightarrow> Inl E_unauthenticated
                        | Some payload \<Rightarrow>
                           (case findUser (atSub payload) db of
                              None \<Rightarrow> Inl E_unauthenticated
                            | Some u \<Rightarrow>
                                if uStatus u \<noteq> Active then Inl E_unauthenticated
                                else if uTokenVersion u \<noteq> atSv payload then Inl E_unauthenticated
                                else Inr (uId u)))))"

section \<open>Families: at most one live session\<close>

definition liveIn :: "string \<Rightarrow> 'h session list \<Rightarrow> 'h session list" where
  "liveIn family rows = filter (\<lambda>s. sFamilyId s = family \<and> isLive s) rows"

text \<open>What the table keeps: unique ids and digests, and one live row per family at most.\<close>

definition sessions_ok :: "'h session list \<Rightarrow> bool" where
  "sessions_ok rows \<longleftrightarrow> distinct (map sId rows) \<and> distinct (map sTokenHash rows)
     \<and> (\<forall>family. length (liveIn family rows) \<le> 1)"

definition freshMint :: "(string \<Rightarrow> 'h) \<Rightarrow> minted \<Rightarrow> 'h session list \<Rightarrow> bool" where
  "freshMint sha m rows \<longleftrightarrow> mId m \<notin> set (map sId rows) \<and> sha (mToken m) \<notin> set (map sTokenHash rows)
     \<and> mFamily m \<notin> set (map sFamilyId rows)"

lemma revoke_fields [simp]:
  "sId (revoke t c s) = sId s" "sTokenHash (revoke t c s) = sTokenHash s"
  "sFamilyId (revoke t c s) = sFamilyId s" "sUserId (revoke t c s) = sUserId s"
  "sRotationGraceUsedAt (revoke t c s) = sRotationGraceUsedAt s" "\<not> isLive (revoke t c s)"
  by (simp_all add: revoke_def isLive_def)

lemma map_updateWhere [simp]:
  "(\<And>r. g (f r) = g r) \<Longrightarrow> map g (updateWhere P f rows) = map g rows"
  by (simp add: updateWhere_def)

lemma updateWhere_append [simp]:
  "updateWhere P f (xs @ ys) = updateWhere P f xs @ updateWhere P f ys"
  by (simp add: updateWhere_def)

lemma updateWhere_Nil [simp]: "updateWhere P f [] = []"
  by (simp add: updateWhere_def)

lemma liveIn_revoked: "liveIn fam (updateWhere P (revoke t c) rows) = filter (\<lambda>s. \<not> P s) (liveIn fam rows)"
  by (induction rows) (auto simp: liveIn_def updateWhere_def)

lemma liveIn_marked_length:
  "length (liveIn fam (updateWhere P (\<lambda>s. s\<lparr>sRotationGraceUsedAt := g\<rparr>) rows)) = length (liveIn fam rows)"
  by (induction rows) (auto simp: liveIn_def updateWhere_def isLive_def)

lemma liveIn_append [simp]: "liveIn fam (xs @ ys) = liveIn fam xs @ liveIn fam ys"
  by (simp add: liveIn_def)

lemma sessions_ok_revoked:
  "sessions_ok rows \<Longrightarrow> sessions_ok (updateWhere P (revoke t c) rows)"
  unfolding sessions_ok_def liveIn_revoked
  by (simp) (meson le_trans length_filter_le)

lemma sessions_ok_marked:
  "sessions_ok rows \<Longrightarrow> sessions_ok (updateWhere P (\<lambda>s. s\<lparr>sRotationGraceUsedAt := g\<rparr>) rows)"
  by (simp add: sessions_ok_def liveIn_marked_length)

lemma sessions_ok_filter: "sessions_ok rows \<Longrightarrow> sessions_ok (filter P rows)"
proof -
  assume ok: "sessions_ok rows"
  have "liveIn fam (filter P rows) = filter P (liveIn fam rows)" for fam
    by (simp add: liveIn_def conj_commute)
  with ok show ?thesis unfolding sessions_ok_def
    by (auto simp: distinct_map_filter intro: le_trans [OF length_filter_le])
qed

text \<open>Putting a new live row in the place of the live row it replaces.\<close>

lemma sessions_ok_replace:
  assumes ok: "sessions_ok rows" and s: "s \<in> set rows" "isLive s"
    and new: "sFamilyId new = sFamilyId s" "sId new \<notin> set (map sId rows)"
      "sTokenHash new \<notin> set (map sTokenHash rows)"
    and P: "P s" "\<not> P new"
  shows "sessions_ok (updateWhere P (revoke t c) (rows @ [new]))"
proof -
  have "length (filter (\<lambda>r. \<not> P r) (liveIn fam (rows @ [new]))) \<le> 1" for fam
  proof (cases "fam = sFamilyId s")
    case True
    have "length (liveIn fam rows) \<le> 1" using ok by (simp add: sessions_ok_def)
    moreover have "s \<in> set (liveIn fam rows)" using s True by (simp add: liveIn_def)
    ultimately have "liveIn fam rows = [s]" by (cases "liveIn fam rows") auto
    with P show ?thesis by (simp add: liveIn_def [of fam "[new]"])
  next
    case False
    then have "liveIn fam [new] = []" using new(1) by (simp add: liveIn_def)
    moreover have "length (liveIn fam rows) \<le> 1" using ok by (simp add: sessions_ok_def)
    ultimately show ?thesis by (simp add: le_trans [OF length_filter_le])
  qed
  with ok new show ?thesis unfolding sessions_ok_def liveIn_revoked by simp
qed

lemma sessions_ok_open:
  assumes "sessions_ok rows" and "sId new \<notin> set (map sId rows)"
    and "sTokenHash new \<notin> set (map sTokenHash rows)" and "sFamilyId new \<notin> set (map sFamilyId rows)"
  shows "sessions_ok (rows @ [new])"
proof -
  have "length (liveIn fam (rows @ [new])) \<le> 1" for fam
  proof (cases "fam = sFamilyId new")
    case True
    then have "liveIn fam rows = []" using assms(4)
      by (auto simp: liveIn_def filter_empty_conv) (metis image_eqI)
    then show ?thesis by (simp add: liveIn_def)
  next
    case False
    then have "liveIn fam [new] = []" by (simp add: liveIn_def)
    with assms(1) show ?thesis by (simp add: sessions_ok_def)
  qed
  with assms show ?thesis by (simp add: sessions_ok_def)
qed

lemma openedRow_fields [simp]:
  "sFamilyId (openedRow sha m u now) = mFamily m" "sId (openedRow sha m u now) = mId m"
  "sTokenHash (openedRow sha m u now) = sha (mToken m)" "isLive (openedRow sha m u now)"
  "sUserId (openedRow sha m u now) = u"
  by (simp_all add: openedRow_def isLive_def)

lemma issueSession_rows [simp]:
  "sessions (snd (issueSession sha m u v now db)) = sessions db @ [openedRow sha m u now]"
  by (simp add: issueSession_def)

lemma sessions_ok_issued:
  "sessions_ok rows \<Longrightarrow> freshMint sha m rows \<Longrightarrow> sessions_ok (rows @ [openedRow sha m u now])"
  by (auto simp: freshMint_def intro!: sessions_ok_open)

lemma unique_id:
  "distinct (map sId rows) \<Longrightarrow> s \<in> set rows \<Longrightarrow> s' \<in> set rows \<Longrightarrow> sId s = sId s' \<Longrightarrow> s = s'"
  by (metis distinct_map inj_on_def)

lemma successorOf_SomeD:
  "successorOf e rows = Some s \<Longrightarrow>
   s \<in> set rows \<and> sRotatedFromId s = Some (sId e) \<and> sFamilyId s = sFamilyId e \<and> sUserId s = sUserId e"
proof -
  assume *: "successorOf e rows = Some s"
  then have "filter (\<lambda>s. sRotatedFromId s = Some (sId e) \<and> sFamilyId s = sFamilyId e
      \<and> sUserId s = sUserId e) rows = [s]"
    by (auto simp: successorOf_def split: list.splits)
  then have "s \<in> set (filter (\<lambda>s. sRotatedFromId s = Some (sId e) \<and> sFamilyId s = sFamilyId e
      \<and> sUserId s = sUserId e) rows)" by simp
  then show ?thesis by simp
qed

section \<open>The cases of a refresh\<close>

lemma refreshTransaction_cases:
  fixes db :: "('h, 'p) authDb"
  assumes "refreshTransaction sha m presented now db = (out, db')"
  obtains (unknown) "find (\<lambda>s. sTokenHash s = sha presented) (sessions db) = None"
      "out = Refresh_rejected" "db' = db"
  | (recovered) e s u where "find (\<lambda>s. sTokenHash s = sha presented) (sessions db) = Some e"
      "sRevokedAt e \<noteq> None" "rotatedWithinGrace e now" "successorOf e (sessions db) = Some s" "isLive s"
      "findUser (sUserId e) db = Some u" "uStatus u = Active"
      "out = Refresh_ok (uId u) (uTokenVersion u) (mToken m)"
      "db' = db\<lparr>sessions := updateWhere (\<lambda>r. sId r = sId s \<and> isLive r) (revoke now Rotated)
         (updateWhere (\<lambda>r. sId r = sId e \<and> sRotationGraceUsedAt r = None)
            (\<lambda>r. r\<lparr>sRotationGraceUsedAt := Some now\<rparr>) (sessions db)
          @ [rotatedRow sha m e (sId s) now])\<rparr>"
  | (reused) e where "find (\<lambda>s. sTokenHash s = sha presented) (sessions db) = Some e"
      "sRevokedAt e \<noteq> None" "out = Refresh_rejected"
      "db' = db\<lparr>sessions := revokeFamily (sFamilyId e) now ReuseDetected (sessions db),
                users := bumpTokenVersion (sUserId e) (users db)\<rparr>"
  | (expired) e where "find (\<lambda>s. sTokenHash s = sha presented) (sessions db) = Some e"
      "sRevokedAt e = None" "sExpiresAt e \<le> now" "out = Refresh_rejected"
      "db' = db\<lparr>sessions := updateWhere (\<lambda>s. sId s = sId e) (revoke now Expired) (sessions db)\<rparr>"
  | (inactive) e where "find (\<lambda>s. sTokenHash s = sha presented) (sessions db) = Some e"
      "sRevokedAt e = None" "\<not> sExpiresAt e \<le> now" "out = Refresh_rejected"
      "db' = db\<lparr>sessions := revokeFamily (sFamilyId e) now AccountInactive (sessions db)\<rparr>"
  | (rotated) e u where "find (\<lambda>s. sTokenHash s = sha presented) (sessions db) = Some e"
      "sRevokedAt e = None" "\<not> sExpiresAt e \<le> now" "findUser (sUserId e) db = Some u"
      "uStatus u = Active" "out = Refresh_ok (uId u) (uTokenVersion u) (mToken m)"
      "db' = db\<lparr>sessions := updateWhere (\<lambda>s. sId s = sId e) (revoke now Rotated)
         (sessions db @ [rotatedRow sha m e (sId e) now])\<rparr>"
proof (cases "find (\<lambda>s. sTokenHash s = sha presented) (sessions db)")
  case None
  with assms show thesis by (intro unknown) (simp_all add: refreshTransaction_def)
next
  case (Some e)
  show thesis
  proof (cases "sRevokedAt e = None")
    case True
    show thesis
    proof (cases "sExpiresAt e \<le> now")
      case t: True
      with assms Some True show thesis by (intro expired [of e]) (simp_all add: refreshTransaction_def)
    next
      case False
      with assms Some True show thesis
        by (auto simp: refreshTransaction_def Let_def split: option.splits if_splits
            intro: inactive [of e] rotated [of e])
    qed
  next
    case False
    show thesis
    proof (cases "\<exists>s u. rotatedWithinGrace e now \<and> successorOf e (sessions db) = Some s \<and> isLive s
        \<and> findUser (sUserId e) db = Some u \<and> uStatus u = Active")
      case True
      then obtain s u where "rotatedWithinGrace e now" "successorOf e (sessions db) = Some s" "isLive s"
        "findUser (sUserId e) db = Some u" "uStatus u = Active" by blast
      with assms Some False show thesis
        by (intro recovered [of e s u]) (simp_all add: refreshTransaction_def Let_def)
    next
      case no: False
      with assms Some False show thesis
        by (intro reused [of e]) (auto simp: refreshTransaction_def Let_def split: option.splits if_splits)
    qed
  qed
qed

lemma rotatedRow_fields [simp]:
  "sFamilyId (rotatedRow sha m e i now) = sFamilyId e" "sId (rotatedRow sha m e i now) = mId m"
  "sTokenHash (rotatedRow sha m e i now) = sha (mToken m)" "isLive (rotatedRow sha m e i now)"
  "sUserId (rotatedRow sha m e i now) = sUserId e"
  by (simp_all add: rotatedRow_def isLive_def)

lemma refresh_sessions_ok:
  assumes ok: "sessions_ok (sessions db)" and fresh: "freshMint sha m (sessions db)"
    and run: "refreshTransaction sha m presented now db = (out, db')"
  shows "sessions_ok (sessions db')"
  using run
proof (cases rule: refreshTransaction_cases)
  case unknown
  with ok show ?thesis by simp
next
  case (recovered e s u)
  let ?P = "\<lambda>r. sId r = sId e \<and> sRotationGraceUsedAt r = None"
  let ?marked = "updateWhere ?P (\<lambda>r. r\<lparr>sRotationGraceUsedAt := Some now\<rparr>) (sessions db)"
  note e = find_SomeD [OF recovered(1)] and s = successorOf_SomeD [OF recovered(4)]
  have "sId s \<noteq> sId e"
    using unique_id [of "sessions db" s e] ok e s recovered(2,5)
    by (auto simp: sessions_ok_def isLive_def)
  then have mem: "s \<in> set ?marked" using s by (auto simp: updateWhere_def intro!: image_eqI [of _ _ s])
  have "sessions_ok ?marked" using ok by (rule sessions_ok_marked)
  from sessions_ok_replace [OF this mem recovered(5), of "rotatedRow sha m e (sId s) now"
      "\<lambda>r. sId r = sId s \<and> isLive r" now Rotated]
  show ?thesis using recovered(5,9) s fresh by (auto simp: freshMint_def)
next
  case (reused e)
  with ok show ?thesis by (simp add: revokeFamily_def sessions_ok_revoked)
next
  case (expired e)
  with ok show ?thesis by (simp add: sessions_ok_revoked)
next
  case (inactive e)
  with ok show ?thesis by (simp add: revokeFamily_def sessions_ok_revoked)
next
  case (rotated e u)
  note e = find_SomeD [OF rotated(1)]
  from sessions_ok_replace [OF ok, of e "rotatedRow sha m e (sId e) now" "\<lambda>s. sId s = sId e" now Rotated]
  show ?thesis using e rotated(2,7) fresh by (auto simp: freshMint_def isLive_def)
qed

section \<open>Histories\<close>

datatype authCall =
    Login minted string string ms
  | Refresh minted string ms
  | Logout_call string ms
  | ChangePassword minted string string string ms
  | DeleteAccount string string ms

fun callMint :: "authCall \<Rightarrow> minted option" where
  "callMint (Login m e p t) = Some m"
| "callMint (Refresh m k t) = Some m"
| "callMint (ChangePassword m i c n t) = Some m"
| "callMint (Logout_call k t) = None"
| "callMint (DeleteAccount i c t) = None"

record 'h authEnv =
  envDigest :: "authRateLimitScope \<Rightarrow> string \<Rightarrow> 'h"
  envSha :: "string \<Rightarrow> 'h"
  envVerify :: passwordVerify
  envHash :: "string \<Rightarrow> string"

fun authStep :: "'h authEnv \<Rightarrow> authCall \<Rightarrow> ('h, 'p) authDb \<Rightarrow> ('h, 'p) authDb" where
  "authStep env (Login m e p t) db =
     snd (login (envDigest env) (envSha env) (envVerify env) m e p t db)"
| "authStep env (Refresh m k t) db = snd (refresh (envSha env) m k t db)"
| "authStep env (Logout_call k t) db = logout (envSha env) k t db"
| "authStep env (ChangePassword m i c n t) db =
     snd (changePassword (envDigest env) (envSha env) (envVerify env) (envHash env) m i c n t db)"
| "authStep env (DeleteAccount i c t) db =
     snd (deleteAccount (envDigest env) (envVerify env) i c t db)"

inductive authReachable :: "'h authEnv \<Rightarrow> ('h, 'p) authDb \<Rightarrow> bool" for env where
  start: "sessions db = [] \<Longrightarrow> authReachable env db"
| step: "authReachable env db \<Longrightarrow>
    (\<And>m. callMint c = Some m \<Longrightarrow> freshMint (envSha env) m (sessions db)) \<Longrightarrow>
    authReachable env (authStep env c db)"

lemma snd_refresh: "snd (refresh sha m k t db) = snd (refreshTransaction sha m k t db)"
  by (simp add: refresh_def split: prod.split refreshOutcome.split)

lemma sessions_login:
  "sessions (snd (login digest sha verify m e p t db)) = sessions db
   \<or> (\<exists>u. sessions (snd (login digest sha verify m e p t db)) = sessions db @ [openedRow sha m u t])"
  by (auto simp: login_def Let_def split: prod.split option.split)

lemma sessions_change:
  "sessions (snd (changePassword digest sha verify hash m i c n t db)) = sessions db
   \<or> sessions (snd (changePassword digest sha verify hash m i c n t db))
       = revokeAllOf i t PasswordReset (sessions db) @ [openedRow sha m i t]"
  by (auto simp: changePassword_def Let_def split: prod.split option.split)

lemma freshMint_revoked [simp]:
  "freshMint sha m (updateWhere P (revoke t c) rows) = freshMint sha m rows"
  by (simp add: freshMint_def del: set_map)

lemma authStep_sessions_ok:
  assumes "sessions_ok (sessions db)"
    and "\<And>m. callMint c = Some m \<Longrightarrow> freshMint (envSha env) m (sessions db)"
  shows "sessions_ok (sessions (authStep env c db))"
proof (cases c)
  case (Login m e p t)
  with assms sessions_login [of "envDigest env" "envSha env" "envVerify env" m e p t db]
  show ?thesis by (auto simp: sessions_ok_issued)
next
  case (Refresh m k t)
  with assms show ?thesis
    by (auto simp: snd_refresh intro: refresh_sessions_ok [OF _ _ surjective_pairing])
next
  case (Logout_call k t)
  with assms show ?thesis
    by (auto simp: logout_def revokeFamily_def sessions_ok_revoked split: option.split)
next
  case (ChangePassword m i c n t)
  have "sessions_ok (revokeAllOf i t PasswordReset (sessions db))"
    using assms(1) by (simp add: revokeAllOf_def sessions_ok_revoked)
  with ChangePassword assms sessions_change [of "envDigest env" "envSha env" "envVerify env" "envHash env" m i c n t db]
  show ?thesis
    by (auto simp: revokeAllOf_def sessions_ok_issued)
next
  case (DeleteAccount i c t)
  with assms(1) show ?thesis
    by (simp add: deleteAccount_def Let_def sessions_ok_filter split: prod.split option.split)
qed

lemma reachable_sessions_ok: "authReachable env db \<Longrightarrow> sessions_ok (sessions db)"
proof (induction rule: authReachable.induct)
  case (start db)
  then show ?case by (simp add: sessions_ok_def liveIn_def)
next
  case (step db c)
  then show ?case by (intro authStep_sessions_ok)
qed

text \<open>
  C1: In every database the service can reach, through any sequence of logins, refreshes
  (rotations, recoveries and replays), logouts, password changes and account deletions with
  newly drawn tokens and ids, a session family has at most one live refresh token.
\<close>

theorem one_live_session_per_family:
  assumes "authReachable env db"
  shows "length (liveIn family (sessions db)) \<le> 1"
  using reachable_sessions_ok [OF assms] by (simp add: sessions_ok_def)

definition exampleEnv :: "string authEnv" where
  "exampleEnv = \<lparr>envDigest = (\<lambda>sc em. em), envSha = (\<lambda>t. t),
     envVerify = (\<lambda>stored given. Some (stored = given)), envHash = (\<lambda>p. p)\<rparr>"

definition exampleDb :: "(string, unit) authDb" where
  "exampleDb = \<lparr>sessions = [], users = [\<lparr>uId = ''u'', uEmail = ''a@b'', uPasswordHash = ''pw'',
     uStatus = Active, uTokenVersion = 3, uProfile = ()\<rparr>], rateRows = []\<rparr>"

definition mintNo :: "string \<Rightarrow> minted" where
  "mintNo n = \<lparr>mToken = ''t'' @ n, mId = ''i'' @ n, mFamily = ''f'' @ n\<rparr>"

definition afterLogin :: "(string, unit) authDb" where
  "afterLogin = authStep exampleEnv (Login (mintNo ''1'') ''a@b'' ''pw'' 1000) exampleDb"

definition afterRotation :: "(string, unit) authDb" where
  "afterRotation = authStep exampleEnv (Refresh (mintNo ''2'') ''t1'' 2000) afterLogin"

lemma exampleDb_reachable: "authReachable exampleEnv exampleDb"
  by (rule authReachable.start) (simp add: exampleDb_def)

lemma afterLogin_reachable: "authReachable exampleEnv afterLogin"
proof -
  have "freshMint (envSha exampleEnv) (mintNo ''1'') (sessions exampleDb)"
    by (simp add: freshMint_def exampleDb_def)
  then show ?thesis unfolding afterLogin_def
    by (intro authReachable.step exampleDb_reachable) simp
qed

lemma afterRotation_reachable: "authReachable exampleEnv afterRotation"
proof -
  have "freshMint (envSha exampleEnv) (mintNo ''2'') (sessions afterLogin)" by code_simp
  then show ?thesis unfolding afterRotation_def
    by (intro authReachable.step afterLogin_reachable) simp
qed

theorem one_live_session_per_family_witness:
  "length (liveIn ''f1'' (sessions afterRotation)) = 1 \<and> length (sessions afterRotation) = 2"
proof -
  have "length (liveIn ''f1'' (sessions afterRotation)) \<le> 1"
    using afterRotation_reachable by (rule one_live_session_per_family)
  moreover have "liveIn ''f1'' (sessions afterRotation) \<noteq> []" by code_simp
  ultimately have "length (liveIn ''f1'' (sessions afterRotation)) = 1"
    by (cases "liveIn ''f1'' (sessions afterRotation)") auto
  moreover have "length (sessions afterRotation) = 2" by code_simp
  ultimately show ?thesis by blast
qed

section \<open>The guard\<close>

text \<open>
  A route behind the guard admits a request exactly when its header is a bearer token
  that verifies now, whose subject is an existing active account with the token version the
  token was minted with, and then it is admitted as that account.
\<close>

theorem guard_admits_exactly:
  "canActivate jwtVerify header now db = Inr i \<longleftrightarrow>
     (\<exists>token payload u. header = Some (BEARER_PREFIX @ token) \<and> token \<noteq> []
        \<and> jwtVerify token now = Some payload \<and> findUser (atSub payload) db = Some u
        \<and> uStatus u = Active \<and> uTokenVersion u = atSv payload \<and> i = uId u)"
proof
  assume "canActivate jwtVerify header now db = Inr i"
  then obtain h payload u where h: "header = Some h" "take (length BEARER_PREFIX) h = BEARER_PREFIX"
    "drop (length BEARER_PREFIX) h \<noteq> []" "jwtVerify (drop (length BEARER_PREFIX) h) now = Some payload"
    "findUser (atSub payload) db = Some u" "uStatus u = Active" "uTokenVersion u = atSv payload" "i = uId u"
    by (auto simp: canActivate_def Let_def split: option.splits if_splits)
  moreover have "h = BEARER_PREFIX @ drop (length BEARER_PREFIX) h"
    using h(2) by (metis append_take_drop_id)
  ultimately show "\<exists>token payload u. header = Some (BEARER_PREFIX @ token) \<and> token \<noteq> []
        \<and> jwtVerify token now = Some payload \<and> findUser (atSub payload) db = Some u
        \<and> uStatus u = Active \<and> uTokenVersion u = atSv payload \<and> i = uId u"
    by metis
qed (auto simp: canActivate_def Let_def)

lemma find_bump:
  "find (\<lambda>u. uId u = i) (bumpTokenVersion i us)
      = map_option (\<lambda>u. u\<lparr>uTokenVersion := uTokenVersion u + 1\<rparr>) (find (\<lambda>u. uId u = i) us)"
  by (induction us) (auto simp: bumpTokenVersion_def updateWhere_def)

lemma findUser_bump:
  "users db' = bumpTokenVersion i (users db) \<Longrightarrow>
   findUser i db' = map_option (\<lambda>u. u\<lparr>uTokenVersion := uTokenVersion u + 1\<rparr>) (findUser i db)"
  by (simp add: findUser_def find_bump)

section \<open>Replay\<close>

text \<open>When a replaced token may be presented once more.\<close>

definition recoverable :: "'h session \<Rightarrow> ms \<Rightarrow> ('h, 'p) authDb \<Rightarrow> bool" where
  "recoverable e now db \<longleftrightarrow>
     sRevokedReason e = Some Rotated \<and> sRotationGraceUsedAt e = None
     \<and> (\<exists>t. sRevokedAt e = Some t \<and> now \<le> t + 15 * 1000)
     \<and> (\<exists>s. filter (\<lambda>s. sRotatedFromId s = Some (sId e) \<and> sFamilyId s = sFamilyId e \<and> sUserId s = sUserId e)
             (sessions db) = [s] \<and> isLive s)
     \<and> (\<exists>u. findUser (sUserId e) db = Some u \<and> uStatus u = Active)"

lemma rotatedWithinGrace_iff:
  "rotatedWithinGrace e now \<longleftrightarrow> sRevokedReason e = Some Rotated \<and> sRotationGraceUsedAt e = None
     \<and> (\<exists>t. sRevokedAt e = Some t \<and> now \<le> t + 15 * 1000)"
  by (auto simp: rotatedWithinGrace_def REFRESH_ROTATION_GRACE_WINDOW_MS_def split: option.split)

lemma successorOf_iff:
  "successorOf e rows = Some s \<longleftrightarrow>
     filter (\<lambda>s. sRotatedFromId s = Some (sId e) \<and> sFamilyId s = sFamilyId e \<and> sUserId s = sUserId e) rows = [s]"
  by (auto simp: successorOf_def split: list.split)

lemma recoverable_iff:
  "recoverable e now db \<longleftrightarrow> rotatedWithinGrace e now
     \<and> (\<exists>s u. successorOf e (sessions db) = Some s \<and> isLive s
          \<and> findUser (sUserId e) db = Some u \<and> uStatus u = Active)"
  by (auto simp: recoverable_def rotatedWithinGrace_iff successorOf_iff)

lemma replayed_cases:
  fixes db :: "('h, 'p) authDb"
  assumes "find (\<lambda>s. sTokenHash s = sha presented) (sessions db) = Some e" and "sRevokedAt e \<noteq> None"
  obtains (recovers) s u where "recoverable e now db" "successorOf e (sessions db) = Some s" "isLive s"
      "findUser (sUserId e) db = Some u"
      "refresh sha m presented now db =
         (Inr \<lparr>arAccess = mintAccess (uId u) (uTokenVersion u) now, arRefreshToken = mToken m\<rparr>,
          db\<lparr>sessions := updateWhere (\<lambda>r. sId r = sId s \<and> isLive r) (revoke now Rotated)
            (updateWhere (\<lambda>r. sId r = sId e \<and> sRotationGraceUsedAt r = None)
               (\<lambda>r. r\<lparr>sRotationGraceUsedAt := Some now\<rparr>) (sessions db)
             @ [rotatedRow sha m e (sId s) now])\<rparr>)"
  | (ends) "\<not> recoverable e now db"
      "refresh sha m presented now db = (Inl E_sessionExpired,
         db\<lparr>sessions := revokeFamily (sFamilyId e) now ReuseDetected (sessions db),
            users := bumpTokenVersion (sUserId e) (users db)\<rparr>)"
proof (cases "recoverable e now db")
  case True
  then obtain s u where su: "rotatedWithinGrace e now" "successorOf e (sessions db) = Some s" "isLive s"
      "findUser (sUserId e) db = Some u" "uStatus u = Active"
    by (auto simp: recoverable_iff)
  with assms True show thesis
    by (intro recovers [of s u]) (simp_all add: refresh_def refreshTransaction_def Let_def)
next
  case False
  with assms show thesis
    by (intro ends) (auto simp: refresh_def refreshTransaction_def recoverable_iff Let_def split: option.split)
qed

lemma live_after_recovery:
  assumes ok: "sessions_ok rows" and fresh: "freshMint sha m rows"
    and s: "s \<in> set rows" "isLive s" "sFamilyId s = sFamilyId e"
  shows "liveIn (sFamilyId e) (updateWhere (\<lambda>r. sId r = sId s \<and> isLive r) (revoke now Rotated)
            (updateWhere (\<lambda>r. sId r = sId e \<and> sRotationGraceUsedAt r = None)
               (\<lambda>r. r\<lparr>sRotationGraceUsedAt := Some now\<rparr>) rows @ [rotatedRow sha m e (sId s) now]))
         = [rotatedRow sha m e (sId s) now]"
proof -
  let ?marked = "updateWhere (\<lambda>r. sId r = sId e \<and> sRotationGraceUsedAt r = None) (\<lambda>r. r\<lparr>sRotationGraceUsedAt := Some now\<rparr>) rows"
  have "s \<in> set (liveIn (sFamilyId e) rows)" using s by (simp add: liveIn_def)
  moreover have "length (liveIn (sFamilyId e) rows) \<le> 1" using ok by (simp add: sessions_ok_def)
  ultimately have "liveIn (sFamilyId e) rows = [s]" by (cases "liveIn (sFamilyId e) rows") auto
  then have "set (liveIn (sFamilyId e) rows) = {s}" by simp
  then have "x = s" if "x \<in> set rows" "sFamilyId x = sFamilyId e" "isLive x" for x
    using that by (auto simp: liveIn_def)
  then have "filter (\<lambda>r. \<not> (sId r = sId s \<and> isLive r)) (liveIn (sFamilyId e) ?marked) = []"
    by (auto simp: filter_empty_conv liveIn_def updateWhere_def isLive_def split: if_splits)
  moreover have "sId s \<in> set (map sId rows)" using s(1) by simp
  then have "mId m \<noteq> sId s" using fresh unfolding freshMint_def by metis
  moreover have "liveIn (sFamilyId e) [rotatedRow sha m e (sId s) now] = [rotatedRow sha m e (sId s) now]"
    by (simp add: liveIn_def)
  ultimately show ?thesis unfolding liveIn_revoked liveIn_append filter_append by simp
qed

text \<open>
  C8: Presenting a token that has been replaced has two outcomes. It recovers a lost answer exactly
  when the token ended by a rotation at most fifteen seconds ago, has recovered nothing yet, has
  one successor that is still live, and the account is active: then the successor ends, the new
  token is the live one and no account changes. In every other case it is answered like any other
  refusal and ends the whole family: no token of it is live afterwards, and every access token the
  account was ever given is refused by the guard.
\<close>

theorem replay_ends_family:
  assumes "sessions_ok (sessions db)" and "freshMint sha m (sessions db)"
    and "find (\<lambda>s. sTokenHash s = sha presented) (sessions db) = Some e" and "sRevokedAt e \<noteq> None"
    and "refresh sha m presented now db = (res, db')"
  shows "if recoverable e now db
    then (\<exists>r. res = Inr r \<and> arRefreshToken r = mToken m) \<and> users db' = users db
       \<and> map sTokenHash (liveIn (sFamilyId e) (sessions db')) = [sha (mToken m)]
    else res = Inl E_sessionExpired \<and> liveIn (sFamilyId e) (sessions db') = []
       \<and> (\<forall>u payload token t. findUser (sUserId e) db = Some u \<and> jwtVerify token t = Some payload
             \<and> atSub payload = sUserId e \<and> atSv payload \<le> uTokenVersion u
           \<longrightarrow> canActivate jwtVerify (Some (BEARER_PREFIX @ token)) t db' = Inl E_unauthenticated)"
  using assms(3,4)
proof (cases rule: replayed_cases [where m = m and now = now])
  case (recovers s u)
  note own = successorOf_SomeD [OF recovers(2)]
  with recovers live_after_recovery [OF assms(1,2), of s e now] assms(5) show ?thesis by auto
next
  case ends
  with assms(5) have db': "db' = db\<lparr>sessions := revokeFamily (sFamilyId e) now ReuseDetected (sessions db),
      users := bumpTokenVersion (sUserId e) (users db)\<rparr>" and res: "res = Inl E_sessionExpired" by simp_all
  have "liveIn (sFamilyId e) (sessions db') = []"
    by (auto simp: db' revokeFamily_def liveIn_revoked filter_empty_conv) (simp_all add: liveIn_def)
  moreover have "canActivate jwtVerify (Some (BEARER_PREFIX @ token)) t db' = Inl E_unauthenticated"
    if "findUser (sUserId e) db = Some u" "jwtVerify token t = Some payload"
      "atSub payload = sUserId e" "atSv payload \<le> uTokenVersion u" for u payload token t
  proof -
    have "findUser (sUserId e) db' = Some (u\<lparr>uTokenVersion := uTokenVersion u + 1\<rparr>)"
      using findUser_bump [of db' "sUserId e" db] that(1) by (simp add: db')
    with that show ?thesis by (simp add: canActivate_def Let_def)
  qed
  ultimately show ?thesis using ends(1) res by auto
qed

theorem replay_ends_family_witness:
  "liveIn ''f1'' (sessions (snd (refresh (\<lambda>t. t) (mintNo ''3'') ''t1'' 90000 afterRotation))) = []
   \<and> map sTokenHash (liveIn ''f1'' (sessions (snd (refresh (\<lambda>t. t) (mintNo ''3'') ''t1'' 9000 afterRotation)))) = [''t3'']"
proof -
  obtain e where e: "find (\<lambda>s. sTokenHash s = (\<lambda>t. t) ''t1'') (sessions afterRotation) = Some e"
      "sRevokedAt e \<noteq> None" "sFamilyId e = ''f1''" "sRevokedAt e = Some 2000"
  proof -
    have "(case find (\<lambda>s. sTokenHash s = ''t1'') (sessions afterRotation) of
        None \<Rightarrow> False | Some e \<Rightarrow> sRevokedAt e = Some 2000 \<and> sFamilyId e = ''f1'')" by code_simp
    then show thesis by (auto intro: that split: option.splits)
  qed
  have ok: "sessions_ok (sessions afterRotation)" by (rule reachable_sessions_ok [OF afterRotation_reachable])
  have fresh: "freshMint (\<lambda>t. t) (mintNo ''3'') (sessions afterRotation)" by code_simp
  have "\<not> recoverable e 90000 afterRotation" using e(4) by (simp add: recoverable_def)
  moreover have "\<exists>r db'. refresh (\<lambda>t. t) (mintNo ''3'') ''t1'' 9000 afterRotation = (Inr r, db')"
  proof -
    have "(case fst (refresh (\<lambda>t. t) (mintNo ''3'') ''t1'' 9000 afterRotation) of Inl e \<Rightarrow> False | _ \<Rightarrow> True)" by code_simp
    then show ?thesis
      by (cases "refresh (\<lambda>t. t) (mintNo ''3'') ''t1'' 9000 afterRotation") (auto split: sum.splits)
  qed
  ultimately show ?thesis
    using replay_ends_family [OF ok fresh e(1,2), of 90000] replay_ends_family [OF ok fresh e(1,2), of 9000] e(3)
    by (cases "refresh (\<lambda>t. t) (mintNo ''3'') ''t1'' 90000 afterRotation") (fastforce split: if_splits simp: mintNo_def)
qed

section \<open>One recovery\<close>

text \<open>Every row of the digest is revoked and has used its recovery (there is at most one).\<close>

definition recoverySpent :: "'h \<Rightarrow> 'h session list \<Rightarrow> bool" where
  "recoverySpent h rows \<longleftrightarrow>
     (\<forall>s \<in> set rows. sTokenHash s = h \<longrightarrow> sRevokedAt s \<noteq> None \<and> sRotationGraceUsedAt s \<noteq> None)"

lemma recoverySpent_revoked:
  "recoverySpent h rows \<Longrightarrow> recoverySpent h (updateWhere P (revoke t c) rows)"
  by (auto simp: recoverySpent_def updateWhere_def revoke_def split: if_splits)

lemma recoverySpent_marked:
  "recoverySpent h rows \<Longrightarrow> recoverySpent h (updateWhere P (\<lambda>s. s\<lparr>sRotationGraceUsedAt := Some g\<rparr>) rows)"
  by (auto simp: recoverySpent_def updateWhere_def split: if_splits)

lemma recoverySpent_append [simp]:
  "recoverySpent h (xs @ ys) \<longleftrightarrow> recoverySpent h xs \<and> recoverySpent h ys"
  by (auto simp: recoverySpent_def)

lemma recoverySpent_other [simp]: "sTokenHash s \<noteq> h \<Longrightarrow> recoverySpent h [s]"
  by (simp add: recoverySpent_def)

lemma recoverySpent_filter: "recoverySpent h rows \<Longrightarrow> recoverySpent h (filter P rows)"
  by (auto simp: recoverySpent_def)

lemmas recoverySpent_intros =
  recoverySpent_revoked recoverySpent_marked recoverySpent_filter

lemma authStep_recoverySpent:
  assumes "recoverySpent h (sessions db)"
    and "\<And>m. callMint c = Some m \<Longrightarrow> envSha env (mToken m) \<noteq> h"
  shows "recoverySpent h (sessions (authStep env c db))"
proof (cases c)
  case (Login m e p t)
  with assms sessions_login [of "envDigest env" "envSha env" "envVerify env" m e p t db]
  show ?thesis by auto
next
  case (Refresh m k t)
  obtain out db' where run: "refreshTransaction (envSha env) m k t db = (out, db')" by fastforce
  have other: "envSha env (mToken m) \<noteq> h" using assms(2) Refresh by simp
  from run have "recoverySpent h (sessions db')"
    by (cases rule: refreshTransaction_cases)
      (use assms(1) other in \<open>auto simp: revokeFamily_def recoverySpent_def updateWhere_def revoke_def
          split: if_splits\<close>)
  with run Refresh show ?thesis by (simp add: snd_refresh)
next
  case (Logout_call k t)
  with assms(1) show ?thesis
    by (auto simp: logout_def revokeFamily_def recoverySpent_revoked split: option.split)
next
  case (ChangePassword m i c n t)
  with assms sessions_change [of "envDigest env" "envSha env" "envVerify env" "envHash env" m i c n t db]
  show ?thesis by (auto simp: revokeAllOf_def recoverySpent_revoked)
next
  case (DeleteAccount i c t)
  with assms(1) show ?thesis
    by (simp add: deleteAccount_def Let_def recoverySpent_filter split: prod.split option.split)
qed

lemma recoverySpent_rejects:
  assumes "recoverySpent (sha k) (sessions db)"
  shows "fst (refresh sha m k now db) = Inl E_sessionExpired"
proof -
  obtain out db' where run: "refreshTransaction sha m k now db = (out, db')" by fastforce
  from run have "out = Refresh_rejected"
  proof (cases rule: refreshTransaction_cases)
    case (recovered e s u)
    from find_SomeD [OF recovered(1)] assms have "sRotationGraceUsedAt e \<noteq> None"
      by (auto simp: recoverySpent_def)
    with recovered(3) show ?thesis by (simp add: rotatedWithinGrace_def)
  next
    case (rotated e u)
    from find_SomeD [OF rotated(1)] assms rotated(2) show ?thesis by (auto simp: recoverySpent_def)
  qed simp_all
  with run show ?thesis by (simp add: refresh_def)
qed

lemma recovery_spends:
  assumes ok: "sessions_ok (sessions db)" and fresh: "freshMint sha m (sessions db)"
    and old: "find (\<lambda>s. sTokenHash s = sha k) (sessions db) = Some e" "sRevokedAt e \<noteq> None"
    and run: "refresh sha m k now db = (Inr r, db')"
  shows "recoverySpent (sha k) (sessions db')"
proof -
  obtain out where tr: "refreshTransaction sha m k now db = (out, db')" and "out \<noteq> Refresh_rejected"
    using run by (auto simp: refresh_def split: prod.splits refreshOutcome.splits)
  from tr show ?thesis
  proof (cases rule: refreshTransaction_cases)
    case (recovered e' s u)
    with old have e': "e' = e" by simp
    note e = find_SomeD [OF old(1)]
    have only: "x = e" if "x \<in> set (sessions db)" "sTokenHash x = sha k" for x
      using that e ok unfolding sessions_ok_def by (metis distinct_map inj_on_def)
    have new: "sha (mToken m) \<noteq> sha k" using fresh e unfolding freshMint_def by (metis image_eqI list.set_map)
    have "recoverySpent (sha k) (updateWhere (\<lambda>r. sId r = sId e \<and> sRotationGraceUsedAt r = None)
            (\<lambda>r. r\<lparr>sRotationGraceUsedAt := Some now\<rparr>) (sessions db))"
      using only old(2) by (auto simp: recoverySpent_def updateWhere_def split: if_splits)
    with new show ?thesis by (auto simp: recovered(9) e' intro!: recoverySpent_revoked)
  next
    case (rotated e' u)
    with old show ?thesis by simp
  qed (use \<open>out \<noteq> Refresh_rejected\<close> in simp_all)
qed

text \<open>
  C12: A replaced refresh token recovers a lost answer at most once: after it has been accepted
  once more, it is refused for good, whatever calls follow and whenever it is presented again,
  as long as no new token is drawn with the same digest.
\<close>

theorem lost_answer_recovered_once:
  assumes "authReachable env db" and "freshMint (envSha env) m (sessions db)"
    and "find (\<lambda>s. sTokenHash s = envSha env k) (sessions db) = Some e" and "sRevokedAt e \<noteq> None"
    and "refresh (envSha env) m k now db = (Inr r, db1)"
    and "\<forall>c \<in> set cs. \<forall>m'. callMint c = Some m' \<longrightarrow> envSha env (mToken m') \<noteq> envSha env k"
  shows "fst (refresh (envSha env) m' k later (fold (authStep env) cs db1)) = Inl E_sessionExpired"
proof -
  have "recoverySpent (envSha env k) (sessions db1)" by (rule recovery_spends [OF reachable_sessions_ok [OF assms(1)] assms(2-5)])
  then have "recoverySpent (envSha env k) (sessions (fold (authStep env) cs db1))"
    using assms(6)
  proof (induction cs arbitrary: db1)
    case Nil
    then show ?case by simp
  next
    case (Cons c cs)
    from Cons.prems have "recoverySpent (envSha env k) (sessions (authStep env c db1))"
      by (intro authStep_recoverySpent) simp_all
    with Cons show ?case by simp
  qed
  then show ?thesis by (rule recoverySpent_rejects)
qed

theorem lost_answer_recovered_once_witness:
  "\<exists>r db1. refresh (\<lambda>t. t) (mintNo ''3'') ''t1'' 9000 afterRotation = (Inr r, db1)
     \<and> fst (refresh (\<lambda>t. t) (mintNo ''4'') ''t1'' 9001 (authStep exampleEnv (Logout_call ''t2'' 9000) db1))
         = Inl E_sessionExpired"
proof -
  have "(case find (\<lambda>s. sTokenHash s = ''t1'') (sessions afterRotation) of
      None \<Rightarrow> False | Some e \<Rightarrow> sRevokedAt e = Some 2000)" by code_simp
  then obtain e where e: "find (\<lambda>s. sTokenHash s = envSha exampleEnv ''t1'') (sessions afterRotation) = Some e"
      "sRevokedAt e \<noteq> None"
    by (auto simp: exampleEnv_def split: option.splits)
  have sha: "envSha exampleEnv = (\<lambda>t. t)" by (simp add: exampleEnv_def)
  have "(case fst (refresh (\<lambda>t. t) (mintNo ''3'') ''t1'' 9000 afterRotation) of Inl e \<Rightarrow> False | _ \<Rightarrow> True)"
    by code_simp
  then obtain r db1 where run: "refresh (\<lambda>t. t) (mintNo ''3'') ''t1'' 9000 afterRotation = (Inr r, db1)"
    by (cases "refresh (\<lambda>t. t) (mintNo ''3'') ''t1'' 9000 afterRotation") (auto split: sum.splits)
  have fresh: "freshMint (envSha exampleEnv) (mintNo ''3'') (sessions afterRotation)" by code_simp
  have later: "\<forall>c \<in> set [Logout_call ''t2'' 9000]. \<forall>m'. callMint c = Some m' \<longrightarrow>
      envSha exampleEnv (mToken m') \<noteq> envSha exampleEnv ''t1''" by simp
  from lost_answer_recovered_once [OF afterRotation_reachable fresh e run [folded sha] later] run show ?thesis
    by (auto simp: sha)
qed

section \<open>Logging in, changing the password\<close>

text \<open>
  A login succeeds exactly when the address is within its attempt limit, belongs to an
  account whose stored hash the password matches, and the account is active; it then opens one
  new live session in a family of its own, and every other login leaves all sessions alone.
\<close>

theorem login_exactly:
  "case login digest sha verify m email password now db of (res, db') \<Rightarrow>
     ((\<exists>r. res = Inr r) \<longleftrightarrow>
        allowed (fst (consume digest LoginEmail email now (rateRows db)))
        \<and> (\<exists>u. find (\<lambda>u. uEmail u = email) (users db) = Some u
              \<and> verify (uPasswordHash u) password = Some True \<and> uStatus u = Active))
     \<and> sessions db' = sessions db @
         (case res of Inl e \<Rightarrow> [] | Inr r \<Rightarrow> [openedRow sha m (atSub (arAccess r)) now])
     \<and> users db' = users db"
  by (auto simp: login_def Let_def verifyFailClosed_def issueSession_def mintAccess_def
      split: prod.split option.split)

lemma find_setPassword:
  "find (\<lambda>u. uId u = i) (setPassword j h us)
     = map_option (\<lambda>u. if uId u = j then u\<lparr>uPasswordHash := h\<rparr> else u) (find (\<lambda>u. uId u = i) us)"
  by (induction us) (auto simp: setPassword_def updateWhere_def)

lemma liveOf_revokeAllOf:
  "filter (\<lambda>s. sUserId s = i \<and> isLive s) (revokeAllOf i t c rows) = []"
  by (induction rows) (auto simp: revokeAllOf_def updateWhere_def)

text \<open>
  A successful password change leaves exactly one live session of the account, the one it
  has just opened, and the guard refuses every access token the account held before, while
  the new one is admitted as long as the account is active.
\<close>

theorem password_change_ends_everything:
  assumes "changePassword digest sha verify hash m i current new now db = (Inr r, db')"
  shows "\<exists>u. findUser i db = Some u \<and> verify (uPasswordHash u) current = Some True
    \<and> filter (\<lambda>s. sUserId s = i \<and> isLive s) (sessions db') = [openedRow sha m i now]
    \<and> (\<forall>payload. atSub payload = i \<longrightarrow>
        canActivate (\<lambda>token t. Some payload) (Some (BEARER_PREFIX @ ''x'')) t db' =
          (if uStatus u = Active \<and> atSv payload = uTokenVersion u + 1 then Inr i else Inl E_unauthenticated))
    \<and> atSv (arAccess r) = uTokenVersion u + 1"
proof -
  from assms obtain u where u: "findUser i db = Some u" "verify (uPasswordHash u) current = Some True"
    and db': "users db' = setPassword i (hash new) (bumpTokenVersion i (users db))"
      "sessions db' = revokeAllOf i now PasswordReset (sessions db) @ [openedRow sha m i now]"
    and r: "atSv (arAccess r) = uTokenVersion u + 1"
    by (auto simp: changePassword_def Let_def verifyFailClosed_def issueSession_def mintAccess_def
        findUser_def split: prod.splits option.splits if_splits)
  have i: "uId u = i" using find_SomeD [OF u(1) [unfolded findUser_def]] by simp
  have "findUser i db' = Some (u\<lparr>uTokenVersion := uTokenVersion u + 1, uPasswordHash := hash new\<rparr>)"
    using u(1) i by (simp add: findUser_def db' find_setPassword find_bump)
  then have "\<forall>payload. atSub payload = i \<longrightarrow>
        canActivate (\<lambda>token t. Some payload) (Some (BEARER_PREFIX @ ''x'')) t db' =
          (if uStatus u = Active \<and> atSv payload = uTokenVersion u + 1 then Inr i else Inl E_unauthenticated)"
    using i by (auto simp: canActivate_def Let_def)
  moreover have "filter (\<lambda>s. sUserId s = i \<and> isLive s) (sessions db') = [openedRow sha m i now]"
    by (simp add: db' liveOf_revokeAllOf)
  ultimately show ?thesis using u r by blast
qed

theorem password_change_ends_everything_witness:
  "filter (\<lambda>s. sUserId s = ''u'' \<and> isLive s) (sessions (snd (changePassword (\<lambda>sc em. em) (\<lambda>t. t)
      (\<lambda>stored given. Some (stored = given)) (\<lambda>p. p) (mintNo ''7'') ''u'' ''pw'' ''new'' 5000 afterRotation)))
    = [openedRow (\<lambda>t. t) (mintNo ''7'') ''u'' 5000]"
proof -
  let ?run = "changePassword (\<lambda>sc em. em) (\<lambda>t. t) (\<lambda>stored given. Some (stored = given)) (\<lambda>p. p)
      (mintNo ''7'') ''u'' ''pw'' ''new'' 5000 afterRotation"
  have "(case fst ?run of Inl e \<Rightarrow> False | _ \<Rightarrow> True)" by code_simp
  then obtain r db' where run: "?run = (Inr r, db')" by (cases ?run) (auto split: sum.splits)
  from password_change_ends_everything [OF run] run show ?thesis by auto
qed

end
