(* ===== verification/Email_Verification.thy ===== *)
theory Email_Verification
  imports Auth_Sessions "HOL-Library.List_Lexorder" "HOL-Library.Char_ord" "HOL-Library.Product_Lexorder"
begin

text \<open>
  \<open>src/auth/email-verification.service.ts\<close> and \<open>registration.service.ts\<close>: pending registrations,
  the code that turns one into an account, and the resend path, over the tables as lists of
  rows. A transaction is one function; what makes it fail instead (a lost race on the unique
  address, lock contention, anything else) is an argument. A mail is recorded as attempted:
  sending is fail-soft and changes nothing else.
\<close>

section \<open>Profiles and pending registrations\<close>

datatype accountRole = Student | Teacher | Parent | Enthusiast

datatype educationLevel = Secondary | Undergraduate | Graduate

datatype gradeLevel =
    Grade5 | Grade6 | Grade7 | Grade8 | Grade9 | Grade10 | Grade11 | Grade12 | Mezun | Kpss | Diger

datatype studyStream =
    Sayisal | Sozel | EsitAgirlik | Tyt | Dil | Lgs | Msu | AraSinif | Stream_Kpss | Stream_Diger

datatype teacherSubject = Cografya | SosyalBilgiler | Subject_Diger

datatype institutionType = DevletOkulu | OzelOkul | DershaneKurs | Institution_Diger

datatype referralSource = Ogretmen | Arkadas | Youtube | Instagram | Google | Kitap | Referral_Diger

record accountProfile =
  firstName :: string
  lastName :: string
  phone :: string
  accountRoleOf :: accountRole
  educationLevelOf :: "educationLevel option"
  gradeLevelOf :: "gradeLevel option"
  studyStreamOf :: "studyStream option"
  universityName :: "string option"
  departmentName :: "string option"
  schoolName :: "string option"
  teacherSubjectOf :: "teacherSubject option"
  institutionTypeOf :: "institutionType option"
  referralSourceOf :: "referralSource option"
  districtId :: string
  marketingConsentAt :: "ms option"

record pendingRegistrationDraft =
  dEmail :: string
  dPasswordHash :: string
  dProfile :: accountProfile
  dLocale :: string

record 'h pendingRegistration =
  pId :: string
  pDraft :: pendingRegistrationDraft
  pCodeHash :: 'h
  pExpiresAt :: ms
  pAttemptCount :: nat
  pCreatedAt :: ms

datatype mailTemplate = Mail_verify_email | Mail_account_exists | Mail_password_reset

record 'h accountDb =
  auth :: "('h, accountProfile) authDb"
  pending :: "'h pendingRegistration list"
  mails :: "(mailTemplate \<times> string \<times> string) list"

definition EMAIL_VERIFICATION_TTL_MINUTES :: int where "EMAIL_VERIFICATION_TTL_MINUTES = 10"
definition EMAIL_VERIFICATION_MAX_ATTEMPTS :: nat where "EMAIL_VERIFICATION_MAX_ATTEMPTS = 5"
definition PENDING_REGISTRATION_MAX_ACTIVE :: nat where
  "PENDING_REGISTRATION_MAX_ACTIVE =
     ruleLimit (AUTH_RATE_LIMIT_RULES RegisterEmail) + ruleLimit (AUTH_RATE_LIMIT_RULES VerifyResendDaily)"

datatype txFailure = UniqueViolation | Contention | OtherFailure

text \<open>\<open>SELECT ... WHERE email ORDER BY created_at, id FOR UPDATE\<close>.\<close>

definition candidatesFor :: "string \<Rightarrow> 'h pendingRegistration list \<Rightarrow> 'h pendingRegistration list" where
  "candidatesFor email rows =
     sort_key (\<lambda>r. (pCreatedAt r, pId r)) (filter (\<lambda>r. dEmail (pDraft r) = email) rows)"

definition deletePending :: "string list \<Rightarrow> 'h pendingRegistration list \<Rightarrow> 'h pendingRegistration list" where
  "deletePending ids rows = filter (\<lambda>r. pId r \<notin> set ids) rows"

section \<open>Verifying a code\<close>

datatype verifyOutcome = Not_verified | Verified string

definition isGuessable :: "ms \<Rightarrow> 'h pendingRegistration \<Rightarrow> bool" where
  "isGuessable now c \<longleftrightarrow> pExpiresAt c > now \<and> pAttemptCount c < EMAIL_VERIFICATION_MAX_ATTEMPTS"

text \<open>\<open>codeDigest id code\<close> is the keyed digest of the candidate's id and the code.\<close>

definition verifyTransaction ::
  "(string \<Rightarrow> string \<Rightarrow> 'h) \<Rightarrow> string \<Rightarrow> string \<Rightarrow> string \<Rightarrow> ms \<Rightarrow> 'h accountDb
   \<Rightarrow> verifyOutcome \<times> 'h accountDb" where
  "verifyTransaction codeDigest newUserId email code now db =
     (let candidates = candidatesFor email (pending db);
          live = filter (isGuessable now) candidates
      in if live = [] then (Not_verified, db)
         else (case find (\<lambda>c. codeDigest (pId c) code = pCodeHash c) live of
            None \<Rightarrow>
              (Not_verified,
               db\<lparr>pending := updateWhere (\<lambda>r. pId r \<in> set (map pId live))
                    (\<lambda>r. r\<lparr>pAttemptCount :=
                        min (pAttemptCount r + 1) EMAIL_VERIFICATION_MAX_ATTEMPTS\<rparr>) (pending db)\<rparr>)
          | Some matched \<Rightarrow>
              if find (\<lambda>u. uEmail u = email) (users (auth db)) \<noteq> None then (Not_verified, db)
              else (Verified newUserId,
                    db\<lparr>auth := (auth db)\<lparr>users := users (auth db) @
                         [\<lparr>uId = newUserId, uEmail = dEmail (pDraft matched),
                           uPasswordHash = dPasswordHash (pDraft matched), uStatus = Active,
                           uTokenVersion = 0, uProfile = dProfile (pDraft matched)\<rparr>]\<rparr>,
                       pending := deletePending (map pId candidates) (pending db)\<rparr>)))"

definition verifyEmail ::
  "(string \<Rightarrow> string \<Rightarrow> 'h) \<Rightarrow> (string \<Rightarrow> 'h) \<Rightarrow> minted \<Rightarrow> txFailure option \<Rightarrow> string \<Rightarrow> string \<Rightarrow> string
   \<Rightarrow> ms \<Rightarrow> 'h accountDb \<Rightarrow> (txFailure + authError + authResult) \<times> 'h accountDb" where
  "verifyEmail codeDigest sha m failure newUserId email code now db =
     (case failure of
        Some OtherFailure \<Rightarrow> (Inl OtherFailure, db)
      | Some f \<Rightarrow> (Inr (Inl E_verifyCodeInvalid), db)
      | None \<Rightarrow>
         (case verifyTransaction codeDigest newUserId email code now db of
            (Not_verified, db') \<Rightarrow> (Inr (Inl E_verifyCodeInvalid), db')
          | (Verified i, db') \<Rightarrow>
              (let (r, a) = mintSessionForUser sha m i now (auth db') in (Inr r, db'\<lparr>auth := a\<rparr>))))"

section \<open>Issuing a candidate\<close>

datatype candidateSource = From_draft pendingRegistrationDraft | Resend_to string

datatype notIssued = Ceiling | Ambiguous_source | No_live_candidate | Contended

datatype candidateOutcome = Issued string string | Not_issued notIssued

fun sourceEmail :: "candidateSource \<Rightarrow> string" where
  "sourceEmail (From_draft d) = dEmail d"
| "sourceEmail (Resend_to e) = e"

definition insertCandidateTransaction ::
  "(string \<Rightarrow> string \<Rightarrow> 'h) \<Rightarrow> string \<Rightarrow> string \<Rightarrow> candidateSource \<Rightarrow> ms \<Rightarrow> 'h accountDb
   \<Rightarrow> candidateOutcome \<times> 'h accountDb" where
  "insertCandidateTransaction codeDigest newId code source now db =
     (let group = candidatesFor (sourceEmail source) (pending db);
          live = filter (\<lambda>r. pExpiresAt r > now) group;
          expiredIds = map pId (filter (\<lambda>r. pExpiresAt r \<le> now) group);
          ambiguous = (case source of
                         Resend_to e \<Rightarrow> card (set (map (\<lambda>r. dPasswordHash (pDraft r)) group)) > 1
                       | From_draft d \<Rightarrow> False)
      in if ambiguous then (Not_issued Ambiguous_source, db)
         else
          (let swept = db\<lparr>pending := deletePending expiredIds (pending db)\<rparr>
           in if length live \<ge> PENDING_REGISTRATION_MAX_ACTIVE then (Not_issued Ceiling, swept)
              else (case (case source of
                            From_draft d \<Rightarrow> Some d
                          | Resend_to e \<Rightarrow> if live = [] then None else Some (pDraft (last live))) of
                      None \<Rightarrow> (Not_issued No_live_candidate, swept)
                    | Some draft \<Rightarrow>
                        (Issued code (dLocale draft),
                         swept\<lparr>pending := pending swept @
                           [\<lparr>pId = newId, pDraft = draft, pCodeHash = codeDigest newId code,
                             pExpiresAt = now + EMAIL_VERIFICATION_TTL_MINUTES * 60000,
                             pAttemptCount = 0, pCreatedAt = now\<rparr>]\<rparr>))))"

definition insertCandidate ::
  "(string \<Rightarrow> string \<Rightarrow> 'h) \<Rightarrow> bool \<Rightarrow> string \<Rightarrow> string \<Rightarrow> candidateSource \<Rightarrow> ms \<Rightarrow> 'h accountDb
   \<Rightarrow> candidateOutcome \<times> 'h accountDb" where
  "insertCandidate codeDigest contended newId code source now db =
     (if contended then (Not_issued Contended, db)
      else insertCandidateTransaction codeDigest newId code source now db)"

definition sendMail :: "mailTemplate \<Rightarrow> string \<Rightarrow> string \<Rightarrow> 'h accountDb \<Rightarrow> 'h accountDb" where
  "sendMail template recipient content db = db\<lparr>mails := mails db @ [(template, recipient, content)]\<rparr>"

definition issueCandidateCode ::
  "(string \<Rightarrow> string \<Rightarrow> 'h) \<Rightarrow> bool \<Rightarrow> string \<Rightarrow> string \<Rightarrow> pendingRegistrationDraft \<Rightarrow> ms
   \<Rightarrow> 'h accountDb \<Rightarrow> 'h accountDb" where
  "issueCandidateCode codeDigest contended newId code draft now db =
     (case insertCandidate codeDigest contended newId code (From_draft draft) now db of
        (Not_issued r, db') \<Rightarrow> db'
      | (Issued c locale, db') \<Rightarrow> sendMail Mail_verify_email (dEmail draft) c db')"

datatype resendOutcome = Resend_issued | Resend_ambiguous_source | Resend_declined

definition resendCandidateCode ::
  "(string \<Rightarrow> string \<Rightarrow> 'h) \<Rightarrow> bool \<Rightarrow> string \<Rightarrow> string \<Rightarrow> string \<Rightarrow> ms \<Rightarrow> 'h accountDb
   \<Rightarrow> resendOutcome \<times> 'h accountDb" where
  "resendCandidateCode codeDigest contended newId code email now db =
     (case insertCandidate codeDigest contended newId code (Resend_to email) now db of
        (Not_issued r, db') \<Rightarrow>
          (if r = Ambiguous_source then Resend_ambiguous_source else Resend_declined, db')
      | (Issued c locale, db') \<Rightarrow> (Resend_issued, sendMail Mail_verify_email email c db'))"

section \<open>Registration\<close>

text \<open>
  The request: \<open>districtBelongs\<close> is the answer of the membership check, which throws when it is
  false, and \<open>hashed\<close> the digest of the password.
\<close>

definition onRates :: "'h rateLimitRows \<Rightarrow> 'h accountDb \<Rightarrow> 'h accountDb" where
  "onRates rows db = db\<lparr>auth := (auth db)\<lparr>rateRows := rows\<rparr>\<rparr>"

datatype registerError = DistrictNotInProvince

definition register ::
  "(authRateLimitScope \<Rightarrow> string \<Rightarrow> 'h) \<Rightarrow> (string \<Rightarrow> string \<Rightarrow> 'h) \<Rightarrow> bool \<Rightarrow> bool \<Rightarrow> string \<Rightarrow> string
   \<Rightarrow> pendingRegistrationDraft \<Rightarrow> ms \<Rightarrow> 'h accountDb \<Rightarrow> (registerError + unit) \<times> 'h accountDb" where
  "register digest codeDigest contended districtBelongs newId code draft now db0 =
     (if \<not> districtBelongs then (Inl DistrictNotInProvince, db0)
      else
       (let (rateLimit, rows) = consume digest RegisterEmail (dEmail draft) now (rateRows (auth db0));
            db = onRates rows db0
        in if \<not> allowed rateLimit then (Inr (), db)
           else (case find (\<lambda>u. uEmail u = dEmail draft) (users (auth db)) of
                   Some existing \<Rightarrow>
                     (Inr (), if uStatus existing = Active
                              then sendMail Mail_account_exists (uEmail existing) [] db else db)
                 | None \<Rightarrow> (Inr (), issueCandidateCode codeDigest contended newId code draft now db))))"

definition resendVerification ::
  "(authRateLimitScope \<Rightarrow> string \<Rightarrow> 'h) \<Rightarrow> (string \<Rightarrow> string \<Rightarrow> 'h) \<Rightarrow> bool \<Rightarrow> bool \<Rightarrow> string \<Rightarrow> string
   \<Rightarrow> string \<Rightarrow> ms \<Rightarrow> 'h accountDb \<Rightarrow> 'h accountDb" where
  "resendVerification digest codeDigest contended refundFails newId code email now db0 =
     (let (cooldown, rows) = consume digest VerifyResendCooldown email now (rateRows (auth db0));
          db1 = onRates rows db0
      in if \<not> allowed cooldown then db1
         else
          (let (daily, rows) = consume digest VerifyResendDaily email now (rateRows (auth db1));
               db2 = onRates rows db1
           in if \<not> allowed daily then db2
              else (case resendCandidateCode codeDigest contended newId code email now db2 of
                      (outcome, db3) \<Rightarrow>
                        if outcome = Resend_ambiguous_source \<and> \<not> refundFails
                        then onRates (refund digest VerifyResendDaily email (windowStart daily)
                               (rateRows (auth db3))) db3
                        else db3)))"

section \<open>What a verification does\<close>

lemma candidatesFor_set [simp]:
  "set (candidatesFor email rows) = {r \<in> set rows. dEmail (pDraft r) = email}"
  by (auto simp: candidatesFor_def)

lemma find_None_iff: "find P xs = None \<longleftrightarrow> (\<forall>x \<in> set xs. \<not> P x)"
  by (induction xs) auto

text \<open>
  C13: A code makes an account only out of an unexpired candidate of that address with guesses
  left whose code it is, and only while no account has the address: the new account is active,
  carries that candidate's password digest and profile unchanged, every candidate of the
  address is gone and no other candidate or account is touched.
\<close>

theorem verification_creates_own_account:
  assumes "verifyTransaction codeDigest newId email code now db = (Verified i, db')"
  shows "\<exists>c \<in> set (pending db). dEmail (pDraft c) = email \<and> isGuessable now c
      \<and> codeDigest (pId c) code = pCodeHash c \<and> i = newId
      \<and> (\<forall>u \<in> set (users (auth db)). uEmail u \<noteq> email)
      \<and> users (auth db') = users (auth db) @
          [\<lparr>uId = newId, uEmail = email, uPasswordHash = dPasswordHash (pDraft c), uStatus = Active,
            uTokenVersion = 0, uProfile = dProfile (pDraft c)\<rparr>]
      \<and> sessions (auth db') = sessions (auth db)
      \<and> (\<forall>r \<in> set (pending db'). r \<in> set (pending db) \<and> dEmail (pDraft r) \<noteq> email)
      \<and> (\<forall>r \<in> set (pending db). r \<in> set (pending db') \<or>
            (\<exists>c' \<in> set (pending db). dEmail (pDraft c') = email \<and> pId c' = pId r))"
proof -
  let ?live = "filter (isGuessable now) (candidatesFor email (pending db))"
  obtain c where c: "find (\<lambda>c. codeDigest (pId c) code = pCodeHash c) ?live = Some c"
    and none: "find (\<lambda>u. uEmail u = email) (users (auth db)) = None" and i: "i = newId"
    and db': "db' = db\<lparr>auth := (auth db)\<lparr>users := users (auth db) @
                         [\<lparr>uId = newId, uEmail = dEmail (pDraft c),
                           uPasswordHash = dPasswordHash (pDraft c), uStatus = Active,
                           uTokenVersion = 0, uProfile = dProfile (pDraft c)\<rparr>]\<rparr>,
                       pending := deletePending (map pId (candidatesFor email (pending db))) (pending db)\<rparr>"
    using assms by (auto simp: verifyTransaction_def Let_def split: if_splits option.splits)
  from find_SomeD [OF c] have mem: "c \<in> set (pending db)" "dEmail (pDraft c) = email"
    "isGuessable now c" "codeDigest (pId c) code = pCodeHash c" by auto
  have "\<forall>u \<in> set (users (auth db)). uEmail u \<noteq> email" using none by (simp add: find_None_iff)
  then show ?thesis using mem i
    by (intro bexI [OF _ mem(1)]) (auto simp: db' deletePending_def)
qed

section \<open>Guessing\<close>

record 'h accountEnv =
  aeDigest :: "authRateLimitScope \<Rightarrow> string \<Rightarrow> 'h"
  aeCode :: "string \<Rightarrow> string \<Rightarrow> 'h"
  aeSha :: "string \<Rightarrow> 'h"

datatype accountCall =
    Verify minted "txFailure option" string string string ms
  | Register bool bool string string pendingRegistrationDraft ms
  | Resend bool bool string string string ms

fun callNewCandidate :: "accountCall \<Rightarrow> string option" where
  "callNewCandidate (Verify m f u e c t) = None"
| "callNewCandidate (Register k b i c d t) = Some i"
| "callNewCandidate (Resend k r i c e t) = Some i"

fun callTime :: "accountCall \<Rightarrow> ms" where
  "callTime (Verify m f u e c t) = t"
| "callTime (Register k b i c d t) = t"
| "callTime (Resend k r i c e t) = t"

fun accountStep :: "'h accountEnv \<Rightarrow> accountCall \<Rightarrow> 'h accountDb \<Rightarrow> 'h accountDb" where
  "accountStep env (Verify m f u e c t) db = snd (verifyEmail (aeCode env) (aeSha env) m f u e c t db)"
| "accountStep env (Register k b i c d t) db = snd (register (aeDigest env) (aeCode env) k b i c d t db)"
| "accountStep env (Resend k r i c e t) db = resendVerification (aeDigest env) (aeCode env) k r i c e t db"

definition rowOf :: "string \<Rightarrow> 'h accountDb \<Rightarrow> 'h pendingRegistration option" where
  "rowOf cid db = find (\<lambda>r. pId r = cid) (pending db)"

text \<open>A call that tries a code on candidate \<open>cid\<close> and finds that it is no candidate's code.\<close>

definition wrongGuess :: "'h accountEnv \<Rightarrow> string \<Rightarrow> accountCall \<Rightarrow> 'h accountDb \<Rightarrow> bool" where
  "wrongGuess env cid call db =
     (case call of
        Verify m f u e c t \<Rightarrow>
          f = None
          \<and> (case rowOf cid db of None \<Rightarrow> False
              | Some r \<Rightarrow> dEmail (pDraft r) = e \<and> isGuessable t r)
          \<and> find (\<lambda>r. aeCode env (pId r) c = pCodeHash r)
              (filter (isGuessable t) (candidatesFor e (pending db))) = None
      | _ \<Rightarrow> False)"

fun wrongGuesses :: "'h accountEnv \<Rightarrow> string \<Rightarrow> accountCall list \<Rightarrow> 'h accountDb \<Rightarrow> nat" where
  "wrongGuesses env cid [] db = 0"
| "wrongGuesses env cid (c # cs) db =
     (if wrongGuess env cid c db then 1 else 0) + wrongGuesses env cid cs (accountStep env c db)"

definition guessesLeft :: "string \<Rightarrow> 'h accountDb \<Rightarrow> nat" where
  "guessesLeft cid db =
     (case rowOf cid db of None \<Rightarrow> 0 | Some r \<Rightarrow> EMAIL_VERIFICATION_MAX_ATTEMPTS - pAttemptCount r)"

lemma find_filter_id:
  "find (\<lambda>r. pId r = cid) (filter (\<lambda>r. P (pId r)) rows)
     = (if P cid then find (\<lambda>r. pId r = cid) rows else None)"
  by (induction rows) auto

lemma find_updateWhere_id:
  "(\<And>r. pId (f r) = pId r) \<Longrightarrow> find (\<lambda>r. pId r = cid) (updateWhere P f rows)
     = map_option (\<lambda>r. if P r then f r else r) (find (\<lambda>r. pId r = cid) rows)"
  by (induction rows) (auto simp: updateWhere_def)

lemma guessesLeft_deleted: "guessesLeft cid (db\<lparr>pending := deletePending ids (pending db)\<rparr>) \<le> guessesLeft cid db"
  using find_filter_id [of cid "\<lambda>i. i \<notin> set ids" "pending db"]
  by (simp add: guessesLeft_def rowOf_def deletePending_def split: option.split)

lemma insertCandidate_pending:
  assumes "insertCandidate codeDigest k newId code src now db = (out, db')"
  shows "\<exists>ids new. pending db' = deletePending ids (pending db) @ new
    \<and> (\<forall>r \<in> set new. pId r = newId \<and> dEmail (pDraft r) = sourceEmail src) \<and> length new \<le> 1
    \<and> auth db' = auth db"
proof -
  have id: "deletePending [] (pending db) = pending db" by (simp add: deletePending_def)
  consider "db' = db" | ids where "db' = db\<lparr>pending := deletePending ids (pending db)\<rparr>"
    | ids c where "db' = db\<lparr>pending := deletePending ids (pending db) @ [c]\<rparr>" "pId c = newId"
        "dEmail (pDraft c) = sourceEmail src"
    using assms
    by (cases src) (auto simp: insertCandidate_def insertCandidateTransaction_def Let_def
        dest!: last_in_set split: if_splits)
  then show ?thesis
  proof cases
    case 1
    then show ?thesis using id by (intro exI [of _ "[]"]) simp
  next
    case (2 ids)
    then show ?thesis by (intro exI [of _ ids] exI [of _ "[]"]) simp
  next
    case (3 ids c)
    then show ?thesis by (intro exI [of _ ids] exI [of _ "[c]"]) simp
  qed
qed

lemma pending_frames [simp]:
  "pending (onRates rows db) = pending db" "pending (sendMail t r c db) = pending db"
  "users (auth (onRates rows db)) = users (auth db)" "auth (sendMail t r c db) = auth db"
  by (simp_all add: onRates_def sendMail_def)

text \<open>What a register or a resend does to the pending rows: some go, at most one new one comes.\<close>

definition sweptInto :: "string \<Rightarrow> string \<Rightarrow> 'h pendingRegistration list \<Rightarrow> 'h pendingRegistration list \<Rightarrow> bool" where
  "sweptInto newId email rows rows' \<longleftrightarrow>
     (\<exists>ids new. rows' = deletePending ids rows @ new \<and> length new \<le> 1
        \<and> (\<forall>r \<in> set new. pId r = newId \<and> dEmail (pDraft r) = email))"

lemma sweptInto_refl [simp]: "sweptInto i e rows rows"
  unfolding sweptInto_def by (intro exI [of _ "[]"]) (simp add: deletePending_def)

lemma insertCandidate_swept:
  "insertCandidate codeDigest k newId code src now db = (out, db') \<Longrightarrow>
   sweptInto newId (sourceEmail src) (pending db) (pending db') \<and> auth db' = auth db"
  using insertCandidate_pending unfolding sweptInto_def by metis

lemma register_swept:
  "sweptInto newId (dEmail d) (pending db) (pending (snd (register digest codeDigest k b newId code d now db)))
   \<and> users (auth (snd (register digest codeDigest k b newId code d now db))) = users (auth db)"
proof -
  obtain out rows where con: "consume digest RegisterEmail (dEmail d) now (rateRows (auth db)) = (out, rows)"
    by fastforce
  obtain o2 db2 where ins: "insertCandidate codeDigest k newId code (From_draft d) now (onRates rows db) = (o2, db2)"
    by fastforce
  from insertCandidate_swept [OF ins] con ins show ?thesis
    by (auto simp: register_def issueCandidateCode_def Let_def split: option.split candidateOutcome.split)
qed

lemma resend_swept:
  "sweptInto newId email (pending db)
     (pending (resendVerification digest codeDigest k rf newId code email now db))
   \<and> users (auth (resendVerification digest codeDigest k rf newId code email now db)) = users (auth db)"
proof -
  obtain o1 rows1 where c1: "consume digest VerifyResendCooldown email now (rateRows (auth db)) = (o1, rows1)"
    by fastforce
  obtain o2 rows2 where c2: "consume digest VerifyResendDaily email now (rateRows (auth (onRates rows1 db))) = (o2, rows2)"
    by fastforce
  obtain o3 db3 where ins: "insertCandidate codeDigest k newId code (Resend_to email) now
      (onRates rows2 (onRates rows1 db)) = (o3, db3)" by fastforce
  from insertCandidate_swept [OF ins] c1 c2 ins show ?thesis
    by (auto simp: resendVerification_def resendCandidateCode_def Let_def split: candidateOutcome.split)
qed

lemma verify_pending:
  assumes "verifyTransaction codeDigest u e c now db = (out, db')"
  shows "(find (\<lambda>r. codeDigest (pId r) c = pCodeHash r) (filter (isGuessable now) (candidatesFor e (pending db))) = None
      \<and> pending db' = updateWhere (\<lambda>r. pId r \<in> pId ` set (filter (isGuessable now) (candidatesFor e (pending db))))
          (\<lambda>r. r\<lparr>pAttemptCount := min (pAttemptCount r + 1) EMAIL_VERIFICATION_MAX_ATTEMPTS\<rparr>) (pending db))
    \<or> (find (\<lambda>r. codeDigest (pId r) c = pCodeHash r) (filter (isGuessable now) (candidatesFor e (pending db))) \<noteq> None
      \<and> (\<exists>ids. pending db' = deletePending ids (pending db)))"
proof -
  let ?live = "filter (isGuessable now) (candidatesFor e (pending db))"
  have id: "deletePending [] (pending db) = pending db" by (simp add: deletePending_def)
  have none: "updateWhere (\<lambda>r. pId r \<in> pId ` {}) f rows = rows" for f :: "'a pendingRegistration \<Rightarrow> _" and rows
    by (simp add: updateWhere_def)
  show ?thesis
  proof (cases "?live = []")
    case True
    then have "db' = db" using assms by (simp add: verifyTransaction_def Let_def)
    then show ?thesis unfolding True using none by simp
  next
    case live: False
    show ?thesis
    proof (cases "find (\<lambda>r. codeDigest (pId r) c = pCodeHash r) ?live")
      case None
      with live assms show ?thesis by (auto simp: verifyTransaction_def Let_def)
    next
      case (Some m)
      with live assms have "db' = db \<or> pending db' = deletePending (map pId (candidatesFor e (pending db))) (pending db)"
        by (auto simp: verifyTransaction_def Let_def split: if_splits)
      with Some id show ?thesis by (metis option.discI)
    qed
  qed
qed

lemma verifyEmail_pending:
  "pending (snd (verifyEmail codeDigest sha m f u e c t db)) =
     (if f = None then pending (snd (verifyTransaction codeDigest u e c t db)) else pending db)"
  by (auto simp: verifyEmail_def split: option.split txFailure.split prod.split verifyOutcome.split)

lemma guessesLeft_cong: "pending db' = pending db \<Longrightarrow> guessesLeft cid db' = guessesLeft cid db"
  by (simp add: guessesLeft_def rowOf_def)

lemma guessesLeft_delete: "pending db' = deletePending ids (pending db) \<Longrightarrow> guessesLeft cid db' \<le> guessesLeft cid db"
  using guessesLeft_deleted [where cid = cid and db = db and ids = ids] by (simp add: guessesLeft_def rowOf_def)

lemma guessesLeft_swept:
  assumes "sweptInto newId email (pending db) (pending db')" and "newId \<noteq> cid"
  shows "guessesLeft cid db' \<le> guessesLeft cid db"
proof -
  obtain ids new where p: "pending db' = deletePending ids (pending db) @ new" "\<forall>r \<in> set new. pId r = newId"
    using assms(1) by (auto simp: sweptInto_def)
  have "find (\<lambda>r. pId r = cid) new = None" using p(2) assms(2) by (auto simp: find_None_iff)
  then have "rowOf cid db' = rowOf cid (db\<lparr>pending := deletePending ids (pending db)\<rparr>)"
    by (simp add: rowOf_def p(1) find_append split: option.split)
  then show ?thesis using guessesLeft_deleted [where cid = cid and db = db and ids = ids] by (simp add: guessesLeft_def)
qed

lemma guess_step:
  assumes "callNewCandidate call \<noteq> Some cid"
  shows "guessesLeft cid (accountStep env call db) + (if wrongGuess env cid call db then 1 else 0)
    \<le> guessesLeft cid db"
proof (cases call)
  case (Verify m f u e c t)
  obtain out db1 where run: "verifyTransaction (aeCode env) u e c t db = (out, db1)" by fastforce
  show ?thesis
  proof (cases "f = None")
    case False
    with Verify have "pending (accountStep env call db) = pending db"
      by (auto simp: verifyEmail_pending)
    then have "guessesLeft cid (accountStep env call db) = guessesLeft cid db"
      by (rule guessesLeft_cong)
    with False Verify show ?thesis by (auto simp: wrongGuess_def)
  next
    case True
    with Verify run have p: "pending (accountStep env call db) = pending db1"
      by (simp add: verifyEmail_pending)
    let ?live = "filter (isGuessable t) (candidatesFor e (pending db))"
    from verify_pending [OF run] show ?thesis
    proof (elim disjE conjE exE)
      assume none: "find (\<lambda>r. aeCode env (pId r) c = pCodeHash r) ?live = None"
        and upd: "pending db1 = updateWhere (\<lambda>r. pId r \<in> pId ` set ?live)
          (\<lambda>r. r\<lparr>pAttemptCount := min (pAttemptCount r + 1) EMAIL_VERIFICATION_MAX_ATTEMPTS\<rparr>) (pending db)"
      have row: "rowOf cid (accountStep env call db) = map_option
          (\<lambda>r. if pId r \<in> pId ` set ?live then r\<lparr>pAttemptCount := min (pAttemptCount r + 1)
             EMAIL_VERIFICATION_MAX_ATTEMPTS\<rparr> else r) (rowOf cid db)"
        unfolding rowOf_def p upd by (rule find_updateWhere_id) simp
      show ?thesis
      proof (cases "rowOf cid db")
        case None
        with row Verify show ?thesis by (simp add: guessesLeft_def wrongGuess_def)
      next
        case (Some r)
        have mem: "r \<in> set (pending db)" using find_SomeD Some unfolding rowOf_def by metis
        have "pId r \<in> pId ` set ?live" if "dEmail (pDraft r) = e" "isGuessable t r"
          using mem that by auto
        with row Some Verify show ?thesis
          by (auto simp: guessesLeft_def wrongGuess_def isGuessable_def)
      qed
    next
      fix ids
      assume some: "find (\<lambda>r. aeCode env (pId r) c = pCodeHash r) ?live \<noteq> None"
        and del: "pending db1 = deletePending ids (pending db)"
      have "\<not> wrongGuess env cid call db"
        by (simp add: wrongGuess_def Verify some del: not_None_eq)
      moreover have "guessesLeft cid (accountStep env call db) \<le> guessesLeft cid db"
        using p del by (intro guessesLeft_delete) simp
      ultimately show ?thesis by simp
    qed
  qed
next
  case (Register k b i c d t)
  with assms register_swept [of i d db "aeDigest env" "aeCode env" k b c t] show ?thesis
    by (auto simp: wrongGuess_def intro: guessesLeft_swept)
next
  case (Resend k rf i c e t)
  with assms resend_swept [of i e db "aeDigest env" "aeCode env" k rf c t] show ?thesis
    by (auto simp: wrongGuess_def intro: guessesLeft_swept)
qed

text \<open>
  C3: Whatever registrations, resends and verifications happen, for any addresses and in any
  order, at most five wrong codes are ever tried against one pending registration; after them
  it can no longer be verified with any code.
\<close>

theorem five_guesses_per_candidate:
  assumes "\<forall>c \<in> set calls. callNewCandidate c \<noteq> Some cid"
  shows "wrongGuesses env cid calls db + guessesLeft cid (fold (accountStep env) calls db)
      \<le> guessesLeft cid db
    \<and> guessesLeft cid db \<le> 5"
proof -
  have "guessesLeft cid db \<le> 5"
    by (simp add: guessesLeft_def EMAIL_VERIFICATION_MAX_ATTEMPTS_def split: option.split)
  moreover have "wrongGuesses env cid calls db + guessesLeft cid (fold (accountStep env) calls db)
      \<le> guessesLeft cid db"
    using assms
  proof (induction calls arbitrary: db)
    case Nil
    then show ?case by simp
  next
    case (Cons c cs)
    have "guessesLeft cid (accountStep env c db) + (if wrongGuess env cid c db then 1 else 0)
        \<le> guessesLeft cid db"
      using Cons.prems by (intro guess_step) simp
    with Cons.IH [of "accountStep env c db"] Cons.prems show ?case by fastforce
  qed
  ultimately show ?thesis by blast
qed

section \<open>How many candidates an address may have\<close>

definition liveCount :: "string \<Rightarrow> ms \<Rightarrow> 'h pendingRegistration list \<Rightarrow> nat" where
  "liveCount email t rows = length (filter (\<lambda>r. dEmail (pDraft r) = email \<and> pExpiresAt r > t) rows)"

lemma liveCount_candidates:
  "length (filter (\<lambda>r. pExpiresAt r > t) (candidatesFor email rows)) = liveCount email t rows"
  by (simp add: candidatesFor_def liveCount_def filter_sort conj_commute)

lemma liveCount_mono: "t \<le> t' \<Longrightarrow> liveCount email t' rows \<le> liveCount email t rows"
  unfolding liveCount_def by (induction rows) auto

lemma liveCount_delete: "liveCount email t (deletePending ids rows) \<le> liveCount email t rows"
  unfolding liveCount_def deletePending_def by (induction rows) auto

lemma liveCount_append: "liveCount email t (xs @ ys) = liveCount email t xs + liveCount email t ys"
  by (simp add: liveCount_def)

lemma liveCount_update:
  "(\<And>r. pDraft (f r) = pDraft r) \<Longrightarrow> (\<And>r. pExpiresAt (f r) = pExpiresAt r) \<Longrightarrow>
   liveCount email t (updateWhere P f rows) = liveCount email t rows"
  unfolding liveCount_def updateWhere_def by (induction rows) auto

definition underCeiling :: "ms \<Rightarrow> 'h pendingRegistration list \<Rightarrow> bool" where
  "underCeiling t rows \<longleftrightarrow> (\<forall>email. liveCount email t rows \<le> PENDING_REGISTRATION_MAX_ACTIVE)"

lemma underCeiling_mono: "underCeiling t rows \<Longrightarrow> t \<le> t' \<Longrightarrow> underCeiling t' rows"
  unfolding underCeiling_def using liveCount_mono le_trans by blast

lemma underCeiling_delete: "underCeiling t rows \<Longrightarrow> underCeiling t (deletePending ids rows)"
  unfolding underCeiling_def using liveCount_delete le_trans by blast

lemma insertCandidate_ceiling:
  assumes "insertCandidate codeDigest k newId code src now db = (out, db')"
    and "underCeiling now (pending db)"
  shows "underCeiling now (pending db')"
proof -
  let ?live = "filter (\<lambda>r. pExpiresAt r > now) (candidatesFor (sourceEmail src) (pending db))"
  consider "db' = db" | ids where "db' = db\<lparr>pending := deletePending ids (pending db)\<rparr>"
    | ids c where "db' = db\<lparr>pending := deletePending ids (pending db) @ [c]\<rparr>"
        "dEmail (pDraft c) = sourceEmail src" "length ?live < PENDING_REGISTRATION_MAX_ACTIVE"
    using assms(1)
    by (cases src) (auto simp: insertCandidate_def insertCandidateTransaction_def Let_def not_le
        dest!: last_in_set split: if_splits)
  then show ?thesis
  proof cases
    case 1
    with assms(2) show ?thesis by simp
  next
    case (2 ids)
    with assms(2) show ?thesis by (simp add: underCeiling_delete)
  next
    case (3 ids c)
    have "liveCount email now (deletePending ids (pending db) @ [c]) \<le> PENDING_REGISTRATION_MAX_ACTIVE" for email
    proof (cases "email = sourceEmail src")
      case True
      have "liveCount email now (pending db) < PENDING_REGISTRATION_MAX_ACTIVE"
        using 3(3) True by (simp add: liveCount_candidates)
      moreover have "liveCount email now [c] \<le> 1" by (simp add: liveCount_def)
      ultimately show ?thesis
        using liveCount_delete [of email now ids "pending db"] by (simp add: liveCount_append)
    next
      case False
      then have "liveCount email now [c] = 0" using 3(2) by (simp add: liveCount_def)
      then show ?thesis using underCeiling_delete [OF assms(2), of ids]
        by (simp add: liveCount_append underCeiling_def)
    qed
    with 3 show ?thesis by (simp add: underCeiling_def)
  qed
qed

lemma register_ceiling:
  assumes "underCeiling now (pending db)"
  shows "underCeiling now (pending (snd (register digest codeDigest k b newId code d now db)))"
proof -
  obtain out rows where con: "consume digest RegisterEmail (dEmail d) now (rateRows (auth db)) = (out, rows)"
    by fastforce
  obtain o2 db2 where ins: "insertCandidate codeDigest k newId code (From_draft d) now (onRates rows db) = (o2, db2)"
    by fastforce
  from insertCandidate_ceiling [OF ins] assms con ins show ?thesis
    by (auto simp: register_def issueCandidateCode_def Let_def split: option.split candidateOutcome.split)
qed

lemma resend_ceiling:
  assumes "underCeiling now (pending db)"
  shows "underCeiling now (pending (resendVerification digest codeDigest k rf newId code email now db))"
proof -
  obtain o1 rows1 where c1: "consume digest VerifyResendCooldown email now (rateRows (auth db)) = (o1, rows1)"
    by fastforce
  obtain o2 rows2 where c2: "consume digest VerifyResendDaily email now (rateRows (auth (onRates rows1 db))) = (o2, rows2)"
    by fastforce
  obtain o3 db3 where ins: "insertCandidate codeDigest k newId code (Resend_to email) now
      (onRates rows2 (onRates rows1 db)) = (o3, db3)" by fastforce
  from insertCandidate_ceiling [OF ins] assms c1 c2 ins show ?thesis
    by (auto simp: resendVerification_def resendCandidateCode_def Let_def split: candidateOutcome.split)
qed

lemma accountStep_ceiling:
  assumes "underCeiling (callTime call) (pending db)"
  shows "underCeiling (callTime call) (pending (accountStep env call db))"
proof (cases call)
  case (Verify m f u e c t)
  obtain out db1 where run: "verifyTransaction (aeCode env) u e c t db = (out, db1)" by fastforce
  have upd: "underCeiling t (updateWhere P (\<lambda>r. r\<lparr>pAttemptCount := g r\<rparr>) (pending db))" for P g
    using assms Verify by (simp add: underCeiling_def liveCount_update)
  have del: "underCeiling t (deletePending ids (pending db))" for ids
    using assms Verify by (simp add: underCeiling_delete)
  from verify_pending [OF run] have "underCeiling t (pending db1)"
    by (elim disjE conjE exE) (simp_all only: upd del)
  with Verify run assms show ?thesis by (simp add: verifyEmail_pending)
next
  case (Register k b i c d t)
  with assms register_ceiling show ?thesis by simp
next
  case (Resend k r i c e t)
  with assms resend_ceiling show ?thesis by simp
qed

text \<open>
  With clocks that do not run backwards, no address ever has more unexpired candidates
  than the ceiling of eight, so at any moment at most 5 * 8 wrong codes can be tried against
  an address.
\<close>

theorem candidates_under_ceiling:
  assumes "sorted (map callTime calls)" and "calls \<noteq> []"
  shows "liveCount email (callTime (last calls))
      (pending (fold (accountStep env) calls \<lparr>auth = a, pending = [], mails = ms\<rparr>)) \<le> 8"
proof -
  let ?db = "\<lparr>auth = a, pending = [], mails = ms\<rparr>"
  have run: "underCeiling t0 (pending db) \<Longrightarrow> \<forall>c \<in> set calls. t0 \<le> callTime c \<Longrightarrow>
      underCeiling (callTime (last calls)) (pending (fold (accountStep env) calls db))" for t0 db
    using assms
  proof (induction calls arbitrary: t0 db)
    case Nil
    then show ?case by simp
  next
    case (Cons c cs)
    have "underCeiling (callTime c) (pending (accountStep env c db))"
      using Cons.prems(1,2) by (intro accountStep_ceiling) (auto intro: underCeiling_mono)
    moreover have "\<forall>c' \<in> set cs. callTime c \<le> callTime c'" and "sorted (map callTime cs)"
      using Cons.prems(3) by simp_all
    ultimately show ?case using Cons.IH by (cases "cs = []") auto
  qed
  have "underCeiling (callTime (hd calls)) (pending ?db)" by (simp add: underCeiling_def liveCount_def)
  moreover have "\<forall>c \<in> set calls. callTime (hd calls) \<le> callTime c"
    using assms by (cases calls) auto
  ultimately have "underCeiling (callTime (last calls)) (pending (fold (accountStep env) calls ?db))"
    by (rule run)
  moreover have "PENDING_REGISTRATION_MAX_ACTIVE = 8" by (simp add: PENDING_REGISTRATION_MAX_ACTIVE_def)
  ultimately show ?thesis by (metis underCeiling_def)
qed

section \<open>Resending to an ambiguous address\<close>

text \<open>
  A resend to an address whose candidates carry more than one password is refused and
  writes nothing: no candidate is added, swept or changed, no mail is sent, and the daily
  allowance of the address is given back.
\<close>

theorem ambiguous_resend_is_free:
  assumes "card (set (map (\<lambda>r. dPasswordHash (pDraft r)) (candidatesFor email (pending db)))) > 1"
    and "js_wf (rateRows (auth db))"
    and "db' = resendVerification digest codeDigest False False newId code email now db"
  shows "pending db' = pending db \<and> mails db' = mails db
    \<and> users (auth db') = users (auth db) \<and> sessions (auth db') = sessions (auth db)
    \<and> (allowed (fst (consume digest VerifyResendDaily email now
            (snd (consume digest VerifyResendCooldown email now (rateRows (auth db))))))
       \<longrightarrow> attempts (rateRows (auth db')) (VerifyResendDaily, digest VerifyResendDaily email,
            windowStartFor VerifyResendDaily now)
         = attempts (rateRows (auth db)) (VerifyResendDaily, digest VerifyResendDaily email,
            windowStartFor VerifyResendDaily now))"
proof -
  obtain o1 rows1 where c1: "consume digest VerifyResendCooldown email now (rateRows (auth db)) = (o1, rows1)"
    by fastforce
  obtain o2 rows2 where c2: "consume digest VerifyResendDaily email now rows1 = (o2, rows2)"
    by fastforce
  let ?db2 = "onRates rows2 (onRates rows1 db)"
  have rates: "rateRows (auth (onRates r d)) = r" "mails (onRates r d) = mails d"
    "sessions (auth (onRates r d)) = sessions (auth d)" for r and d :: "'a accountDb"
    by (simp_all add: onRates_def)
  have ins: "insertCandidate codeDigest False newId code (Resend_to email) now ?db2
      = (Not_issued Ambiguous_source, ?db2)"
    using assms(1) by (simp add: insertCandidate_def insertCandidateTransaction_def Let_def)
  note f1 = consume_facts [OF c1 assms(2)]
  note given = attempts_refund [OF f1(1) c2, where sc' = VerifyResendDaily
      and h = "digest VerifyResendDaily email" and t = "windowStartFor VerifyResendDaily now"]
  have same: "attempts rows1 (VerifyResendDaily, h, t) = attempts (rateRows (auth db)) (VerifyResendDaily, h, t)"
    for h t
    by (simp add: f1(3))
  have db': "db' = (if \<not> allowed o1 then onRates rows1 db else if \<not> allowed o2 then ?db2
      else onRates (refund digest VerifyResendDaily email (windowStart o2) rows2) ?db2)"
    using assms(3) c1 c2 ins by (simp add: resendVerification_def resendCandidateCode_def Let_def rates)
  show ?thesis using given same c1 c2 by (simp add: db' rates)
qed

section \<open>A run on concrete rows\<close>

definition exampleProfile :: accountProfile where
  "exampleProfile = \<lparr>firstName = ''A'', lastName = ''B'', phone = ''+905'', accountRoleOf = Student,
     educationLevelOf = Some Secondary, gradeLevelOf = Some Grade9, studyStreamOf = None,
     universityName = None, departmentName = None, schoolName = None, teacherSubjectOf = None,
     institutionTypeOf = None, referralSourceOf = None, districtId = ''d'', marketingConsentAt = None\<rparr>"

definition exampleDraft :: "string \<Rightarrow> pendingRegistrationDraft" where
  "exampleDraft pw = \<lparr>dEmail = ''a@b'', dPasswordHash = pw, dProfile = exampleProfile, dLocale = ''tr''\<rparr>"

definition exampleAccountEnv :: "string accountEnv" where
  "exampleAccountEnv = \<lparr>aeDigest = (\<lambda>sc em. em), aeCode = (\<lambda>i c. i @ c), aeSha = (\<lambda>t. t)\<rparr>"

definition emptyAuth :: "(string, accountProfile) authDb" where
  "emptyAuth = \<lparr>sessions = [], users = [], rateRows = []\<rparr>"

definition exampleCalls :: "accountCall list" where
  "exampleCalls =
     [Register False True ''p1'' ''111'' (exampleDraft ''h1'') 0,
      Verify (mintNo ''9'') None ''u1'' ''a@b'' ''999'' 10,
      Verify (mintNo ''9'') None ''u1'' ''a@b'' ''998'' 20]"

definition exampleAccounts :: "string accountDb" where
  "exampleAccounts = fold (accountStep exampleAccountEnv) exampleCalls
     \<lparr>auth = emptyAuth, pending = [], mails = []\<rparr>"

theorem candidates_under_ceiling_witness:
  "liveCount ''a@b'' 20 (pending exampleAccounts) \<le> 8"
proof -
  have "sorted (map callTime exampleCalls)" and "exampleCalls \<noteq> []" and "callTime (last exampleCalls) = 20"
    by (simp_all add: exampleCalls_def)
  with candidates_under_ceiling [of exampleCalls "''a@b''" exampleAccountEnv emptyAuth "[]"]
  show ?thesis by (simp add: exampleAccounts_def)
qed

theorem five_guesses_per_candidate_witness:
  "wrongGuesses exampleAccountEnv ''p1'' [Verify (mintNo ''9'') None ''u1'' ''a@b'' ''997'' 30] exampleAccounts
     + guessesLeft ''p1'' (fold (accountStep exampleAccountEnv)
         [Verify (mintNo ''9'') None ''u1'' ''a@b'' ''997'' 30] exampleAccounts) \<le> 3"
proof -
  have "guessesLeft ''p1'' exampleAccounts = 3" by code_simp
  with five_guesses_per_candidate [of "[Verify (mintNo ''9'') None ''u1'' ''a@b'' ''997'' 30]" "''p1''"
      exampleAccountEnv exampleAccounts]
  show ?thesis by simp
qed

theorem verification_creates_own_account_witness:
  "\<exists>db'. verifyTransaction (aeCode exampleAccountEnv) ''u1'' ''a@b'' ''111'' 30 exampleAccounts
      = (Verified ''u1'', db') \<and> map uPasswordHash (users (auth db')) = [''h1'']"
proof -
  let ?run = "verifyTransaction (aeCode exampleAccountEnv) ''u1'' ''a@b'' ''111'' 30 exampleAccounts"
  have "fst ?run = Verified ''u1'' \<and> map (dPasswordHash \<circ> pDraft) (pending exampleAccounts) = [''h1'']
      \<and> users (auth exampleAccounts) = []"
    by code_simp
  moreover obtain out db' where run: "?run = (out, db')" by fastforce
  ultimately have run': "?run = (Verified ''u1'', db')" and h: "map (dPasswordHash \<circ> pDraft) (pending exampleAccounts) = [''h1'']"
    and none: "users (auth exampleAccounts) = []" by simp_all
  from verification_creates_own_account [OF run'] obtain c where "c \<in> set (pending exampleAccounts)"
    "users (auth db') = users (auth exampleAccounts) @ [\<lparr>uId = ''u1'', uEmail = ''a@b'',
       uPasswordHash = dPasswordHash (pDraft c), uStatus = Active, uTokenVersion = 0, uProfile = dProfile (pDraft c)\<rparr>]"
    by blast
  moreover from this(1) h have "dPasswordHash (pDraft c) = ''h1''" by auto
  ultimately show ?thesis using run' none by auto
qed

definition ambiguousAccounts :: "string accountDb" where
  "ambiguousAccounts = accountStep exampleAccountEnv
     (Register False True ''p2'' ''222'' (exampleDraft ''h2'') 30) exampleAccounts"

theorem ambiguous_resend_is_free_witness:
  "pending (resendVerification (\<lambda>sc em. em) (\<lambda>i c. i @ c) False False ''p3'' ''333'' ''a@b'' 40 ambiguousAccounts)
     = pending ambiguousAccounts"
proof -
  have "card (set (map (\<lambda>r. dPasswordHash (pDraft r)) (candidatesFor ''a@b'' (pending ambiguousAccounts)))) > 1"
    by code_simp
  moreover have "js_wf (rateRows (auth ambiguousAccounts))" unfolding js_wf_def by code_simp
  ultimately show ?thesis using ambiguous_resend_is_free [OF _ _ refl] by blast
qed

end
