(* ===== verification/Password_Reset.thy ===== *)
theory Password_Reset
  imports Email_Verification
begin

text \<open>
  \<open>src/auth/password-reset.service.ts\<close>. Confirming a reset reads the token outside the
  transaction that consumes it, so the two are two operations, \<open>resolveValidToken\<close> and
  \<open>commitReset\<close>, and \<open>confirmReset\<close> is one after the other; another request may come between.
\<close>

record 'h resetToken =
  tId :: string
  tUserId :: string
  tTokenHash :: 'h
  tExpiresAt :: ms
  tConsumedAt :: "ms option"

record 'h resetDb =
  accounts :: "'h accountDb"
  resetTokens :: "'h resetToken list"

definition PASSWORD_RESET_TTL_MINUTES :: int where "PASSWORD_RESET_TTL_MINUTES = 30"

definition requestReset ::
  "(authRateLimitScope \<Rightarrow> string \<Rightarrow> 'h) \<Rightarrow> (string \<Rightarrow> 'h) \<Rightarrow> string \<Rightarrow> string \<Rightarrow> string \<Rightarrow> ms
   \<Rightarrow> 'h resetDb \<Rightarrow> 'h resetDb" where
  "requestReset digest sha newId tokenPlain email now db0 =
     (let (rateLimit, rows) = consume digest PasswordResetEmail email now (rateRows (auth (accounts db0)));
          db = db0\<lparr>accounts := onRates rows (accounts db0)\<rparr>
      in if \<not> allowed rateLimit then db
         else (case find (\<lambda>u. uEmail u = email) (users (auth (accounts db))) of
                 None \<Rightarrow> db
               | Some u \<Rightarrow>
                   db\<lparr>resetTokens := resetTokens db @
                        [\<lparr>tId = newId, tUserId = uId u, tTokenHash = sha tokenPlain,
                          tExpiresAt = now + PASSWORD_RESET_TTL_MINUTES * 60000, tConsumedAt = None\<rparr>],
                      accounts := sendMail Mail_password_reset (uEmail u) tokenPlain (accounts db)\<rparr>))"

definition resolveValidToken :: "(string \<Rightarrow> 'h) \<Rightarrow> string \<Rightarrow> ms \<Rightarrow> 'h resetDb \<Rightarrow> 'h resetToken option" where
  "resolveValidToken sha presented now db =
     (case find (\<lambda>t. tTokenHash t = sha presented \<and> tConsumedAt t = None) (resetTokens db) of
        None \<Rightarrow> None
      | Some t \<Rightarrow> if tExpiresAt t \<le> now then None else Some t)"

definition verifyResetToken :: "(string \<Rightarrow> 'h) \<Rightarrow> string \<Rightarrow> ms \<Rightarrow> 'h resetDb \<Rightarrow> authError + unit" where
  "verifyResetToken sha presented now db =
     (case resolveValidToken sha presented now db of None \<Rightarrow> Inl E_resetTokenInvalid | Some t \<Rightarrow> Inr ())"

definition consumeToken :: "ms \<Rightarrow> 'h resetToken \<Rightarrow> 'h resetToken" where
  "consumeToken now t = t\<lparr>tConsumedAt := Some now\<rparr>"

definition commitReset :: "'h resetToken \<Rightarrow> string \<Rightarrow> ms \<Rightarrow> 'h resetDb \<Rightarrow> 'h resetDb" where
  "commitReset token passwordHash now db =
     (let a = auth (accounts db);
          presented = updateWhere (\<lambda>t. tId t = tId token) (consumeToken now) (resetTokens db);
          all = updateWhere (\<lambda>t. tUserId t = tUserId token \<and> tConsumedAt t = None) (consumeToken now) presented
      in db\<lparr>resetTokens := all,
            accounts := (accounts db)\<lparr>auth := a\<lparr>
              users := setPassword (tUserId token) passwordHash (bumpTokenVersion (tUserId token) (users a)),
              sessions := revokeAllOf (tUserId token) now PasswordReset (sessions a)\<rparr>\<rparr>\<rparr>)"

definition confirmReset ::
  "(string \<Rightarrow> 'h) \<Rightarrow> (string \<Rightarrow> string) \<Rightarrow> string \<Rightarrow> string \<Rightarrow> ms \<Rightarrow> 'h resetDb
   \<Rightarrow> (authError + unit) \<times> 'h resetDb" where
  "confirmReset sha hash presented newPassword now db =
     (case resolveValidToken sha presented now db of
        None \<Rightarrow> (Inl E_resetTokenInvalid, db)
      | Some t \<Rightarrow> (Inr (), commitReset t (hash newPassword) now db))"

lemma resolveValidToken_Some:
  assumes "resolveValidToken sha presented now db = Some t"
  shows "t \<in> set (resetTokens db)" and "tTokenHash t = sha presented" and "tConsumedAt t = None"
    and "now < tExpiresAt t"
proof -
  have "find (\<lambda>t. tTokenHash t = sha presented \<and> tConsumedAt t = None) (resetTokens db) = Some t"
    and "now < tExpiresAt t"
    using assms by (auto simp: resolveValidToken_def split: option.splits if_splits)
  from find_SomeD [OF this(1)] this(2) show "t \<in> set (resetTokens db)" "tTokenHash t = sha presented"
    "tConsumedAt t = None" "now < tExpiresAt t" by auto
qed

lemma commitReset_consumes:
  assumes "t' \<in> set (resetTokens (commitReset t h now db))" and "tUserId t' = tUserId t"
  shows "tConsumedAt t' \<noteq> None"
  using assms
  by (auto simp: commitReset_def Let_def updateWhere_def consumeToken_def split: if_splits)

lemma commitReset_user:
  "findUser (tUserId t) (auth (accounts (commitReset t h now db))) =
     map_option (\<lambda>u. u\<lparr>uTokenVersion := uTokenVersion u + 1, uPasswordHash := h\<rparr>)
       (findUser (tUserId t) (auth (accounts db)))"
proof (cases "find (\<lambda>u. uId u = tUserId t) (users (auth (accounts db)))")
  case None
  then show ?thesis by (simp add: commitReset_def Let_def findUser_def find_setPassword find_bump)
next
  case (Some u)
  from find_SomeD [OF Some] Some show ?thesis
    by (simp add: commitReset_def Let_def findUser_def find_setPassword find_bump)
qed

text \<open>
  C25: A confirmed reset spends every reset token of the account, the one presented and all
  others, so none of them is accepted again; it ends every live session of the account, sets
  the new password and makes the guard refuse every access token minted before.
\<close>

theorem reset_spends_everything:
  assumes "confirmReset sha hash presented new now db = (Inr (), db')"
    and "\<forall>t \<in> set (resetTokens db). \<forall>t' \<in> set (resetTokens db). tTokenHash t = tTokenHash t' \<longrightarrow> t = t'"
  shows "\<exists>t. resolveValidToken sha presented now db = Some t
    \<and> (\<forall>token later. (\<exists>t' \<in> set (resetTokens db). tUserId t' = tUserId t \<and> tTokenHash t' = sha token)
         \<longrightarrow> verifyResetToken sha token later db' = Inl E_resetTokenInvalid)
    \<and> filter (\<lambda>s. sUserId s = tUserId t \<and> isLive s) (sessions (auth (accounts db'))) = []
    \<and> findUser (tUserId t) (auth (accounts db')) =
        map_option (\<lambda>u. u\<lparr>uTokenVersion := uTokenVersion u + 1, uPasswordHash := hash new\<rparr>)
          (findUser (tUserId t) (auth (accounts db)))"
proof -
  obtain t where t: "resolveValidToken sha presented now db = Some t"
    and db': "db' = commitReset t (hash new) now db"
    using assms(1) by (auto simp: confirmReset_def split: option.splits)
  have hashes: "\<exists>t0 \<in> set (resetTokens db). tTokenHash t0 = tTokenHash x \<and> tUserId t0 = tUserId x"
    if "x \<in> set (resetTokens db')" for x
    using that by (auto simp: db' commitReset_def Let_def updateWhere_def consumeToken_def split: if_splits)
  have "verifyResetToken sha token later db' = Inl E_resetTokenInvalid"
    if "t1 \<in> set (resetTokens db)" "tUserId t1 = tUserId t" "tTokenHash t1 = sha token" for token later t1
  proof -
    have "resolveValidToken sha token later db' = None"
    proof (rule ccontr)
      assume "resolveValidToken sha token later db' \<noteq> None"
      then obtain x where x: "resolveValidToken sha token later db' = Some x" by blast
      note x' = resolveValidToken_Some [OF x]
      from hashes [OF x'(1)] obtain t0 where t0: "t0 \<in> set (resetTokens db)" "tTokenHash t0 = tTokenHash x"
        "tUserId t0 = tUserId x" by blast
      have "t0 = t1" using assms(2) t0 that x'(2) by metis
      then have "tUserId x = tUserId t" using t0 that by simp
      from commitReset_consumes [OF x'(1) [unfolded db'] this] x'(3) show False by simp
    qed
    then show ?thesis by (simp add: verifyResetToken_def)
  qed
  moreover have "filter (\<lambda>s. sUserId s = tUserId t \<and> isLive s) (sessions (auth (accounts db'))) = []"
    by (simp add: db' commitReset_def Let_def liveOf_revokeAllOf)
  moreover have "findUser (tUserId t) (auth (accounts db')) =
        map_option (\<lambda>u. u\<lparr>uTokenVersion := uTokenVersion u + 1, uPasswordHash := hash new\<rparr>)
          (findUser (tUserId t) (auth (accounts db)))"
    by (simp add: db' commitReset_user)
  ultimately show ?thesis using t by blast
qed

definition resetExample :: "string resetDb" where
  "resetExample = requestReset (\<lambda>sc em. em) (\<lambda>t. t) ''r1'' ''tok'' ''a@b'' 100
     \<lparr>accounts = \<lparr>auth = \<lparr>sessions = [], users = [\<lparr>uId = ''u1'', uEmail = ''a@b'', uPasswordHash = ''old'',
        uStatus = Active, uTokenVersion = 0, uProfile = exampleProfile\<rparr>], rateRows = []\<rparr>,
        pending = [], mails = []\<rparr>, resetTokens = []\<rparr>"

lemma resetExample_tokens:
  "resetTokens resetExample =
     [\<lparr>tId = ''r1'', tUserId = ''u1'', tTokenHash = ''tok'', tExpiresAt = 1800100, tConsumedAt = None\<rparr>]"
  by code_simp

theorem reset_spends_everything_witness:
  "verifyResetToken (\<lambda>t. t) ''tok'' 300
     (snd (confirmReset (\<lambda>t. t) (\<lambda>p. p) ''tok'' ''new'' 200 resetExample)) = Inl E_resetTokenInvalid"
proof -
  let ?run = "confirmReset (\<lambda>t. t) (\<lambda>p. p) ''tok'' ''new'' 200 resetExample"
  obtain res db' where run: "?run = (res, db')" by fastforce
  have "res = Inr ()" using run
    by (auto simp: confirmReset_def resolveValidToken_def resetExample_tokens)
  with run have run': "?run = (Inr (), db')" by simp
  have "\<forall>t \<in> set (resetTokens resetExample). \<forall>t' \<in> set (resetTokens resetExample).
      tTokenHash t = tTokenHash t' \<longrightarrow> t = t'"
    by (simp add: resetExample_tokens)
  from reset_spends_everything [OF run' this] obtain t where
    t: "resolveValidToken (\<lambda>t. t) ''tok'' 200 resetExample = Some t"
    and all: "\<forall>token later. (\<exists>t' \<in> set (resetTokens resetExample). tUserId t' = tUserId t \<and> tTokenHash t' = token)
         \<longrightarrow> verifyResetToken (\<lambda>t. t) token later db' = Inl E_resetTokenInvalid"
    by blast
  from t have "tUserId t = ''u1''" by (auto simp: resolveValidToken_def resetExample_tokens)
  with all have "verifyResetToken (\<lambda>t. t) ''tok'' 300 db' = Inl E_resetTokenInvalid"
    by (simp add: resetExample_tokens)
  with run' show ?thesis by simp
qed

text \<open>
  C27: A token is not spent before it is consumed: two confirmations of one token that both
  read it before either commits both succeed, and the account ends with the password of the
  second, because the commit does not ask again whether the token is still unspent.
\<close>

theorem overlapping_confirmations_both_apply:
  assumes "resolveValidToken sha presented t1 db = Some a" and "resolveValidToken sha presented t2 db = Some b"
  shows "findUser (tUserId a) (auth (accounts
        (commitReset b (hash second) t2 (commitReset a (hash first) t1 db)))) =
      map_option (\<lambda>u. u\<lparr>uTokenVersion := uTokenVersion u + 2, uPasswordHash := hash second\<rparr>)
        (findUser (tUserId a) (auth (accounts db)))"
proof -
  have "b = a" using assms by (auto simp: resolveValidToken_def split: option.splits if_splits)
  then show ?thesis by (simp add: commitReset_user option.map_comp comp_def)
qed

theorem overlapping_confirmations_both_apply_witness:
  "map_option uPasswordHash (findUser ''u1'' (auth (accounts
      (commitReset (hd (resetTokens resetExample)) ''second'' 201
        (commitReset (hd (resetTokens resetExample)) ''first'' 200 resetExample))))) = Some ''second''"
proof -
  have r: "resolveValidToken (\<lambda>t. t) ''tok'' n resetExample = Some (hd (resetTokens resetExample))"
    if "n < 1800100" for n
    using that by (simp add: resolveValidToken_def resetExample_tokens)
  have "findUser ''u1'' (auth (accounts resetExample)) \<noteq> None" by code_simp
  with overlapping_confirmations_both_apply [OF r [of 200] r [of 201], of "\<lambda>p. p" "''second''" "''first''"]
  show ?thesis by (auto simp: resetExample_tokens)
qed

end
