(* ===== verification/Terrain_Decode.thy ===== *)
theory Terrain_Decode
  imports Prelude
begin

text \<open>
  The terrain tile decoder (\<open>elevation/terrain/terrarium-decode.ts\<close>): the container walk,
  the five PNG scanline filters and the terrarium height coding, with every refusal of the
  code as a value of \<open>terrainTileFormatError\<close>. zlib's \<open>inflateSync\<close> is a parameter. The
  fixture encoder (\<open>terrarium-fixture.builder.ts\<close>) is modelled beside it, and the two are
  shown to be inverse to each other.
\<close>

unbundle bit_operations_syntax

section \<open>Loops over an index\<close>

text \<open>\<open>for (let i = a; i < b; i += 1)\<close> with a body that may throw.\<close>

function forRange :: "nat \<Rightarrow> nat \<Rightarrow> (nat \<Rightarrow> 's \<Rightarrow> 'e + 's) \<Rightarrow> 's \<Rightarrow> 'e + 's" where
  "forRange a b f s = (if a < b then andThen (f a s) (forRange (Suc a) b f) else Inr s)"
  by pat_completeness auto

termination by (relation "measure (\<lambda>(a, b, f, s). b - a)") auto

declare forRange.simps [simp del]

lemma forRange_rule:
  assumes "I a s" and "a \<le> b"
    and "\<And>i s. a \<le> i \<Longrightarrow> i < b \<Longrightarrow> I i s \<Longrightarrow> \<exists>s'. f i s = Inr s' \<and> I (Suc i) s'"
  shows "\<exists>s'. forRange a b f s = Inr s' \<and> I b s'"
  using assms
proof (induction "b - a" arbitrary: a s)
  case 0
  then show ?case by (simp add: forRange.simps)
next
  case (Suc n)
  then have "a < b" by simp
  with Suc.prems obtain s' where "f a s = Inr s'" "I (Suc a) s'" by blast
  moreover have "n = b - Suc a" using Suc.hyps(2) by simp
  ultimately show ?case
    using Suc.hyps(1) [of "Suc a" s'] Suc.prems(3) \<open>a < b\<close> by (subst forRange.simps) simp
qed

lemma forRange_returns_iff:
  assumes "\<And>i s. (\<exists>s'. f i s = Inr s') \<longleftrightarrow> Q i"
  shows "(\<exists>s'. forRange a b f s = Inr s') \<longleftrightarrow> (\<forall>i. a \<le> i \<and> i < b \<longrightarrow> Q i)"
proof (induction "b - a" arbitrary: a s)
  case 0
  then show ?case by (auto simp: forRange.simps)
next
  case (Suc n)
  then have "a < b" and n: "n = b - Suc a" by simp_all
  then have "(\<exists>s'. forRange a b f s = Inr s') \<longleftrightarrow>
      (\<exists>t. f a s = Inr t \<and> (\<exists>s'. forRange (Suc a) b f t = Inr s'))"
    by (subst forRange.simps) (auto simp: andThen_eq_Inr)
  also have "\<dots> \<longleftrightarrow> Q a \<and> (\<forall>i. Suc a \<le> i \<and> i < b \<longrightarrow> Q i)"
    using assms [of a s] by (simp add: Suc.hyps(1) [OF n])
  also have "\<dots> \<longleftrightarrow> (\<forall>i. a \<le> i \<and> i < b \<longrightarrow> Q i)"
    using \<open>a < b\<close> by (metis Suc_le_eq le_eq_less_or_eq)
  finally show ?case .
qed

lemma forRange_inv:
  assumes "forRange a b f s = Inr s'" and "P s"
    and "\<And>i s s'. i < b \<Longrightarrow> P s \<Longrightarrow> f i s = Inr s' \<Longrightarrow> P s'"
  shows "P s'"
  using assms(1,2)
proof (induction "b - a" arbitrary: a s)
  case 0
  then show ?case by (simp add: forRange.simps)
next
  case (Suc n)
  then have "a < b" by simp
  with Suc.prems obtain t where "f a s = Inr t" "forRange (Suc a) b f t = Inr s'"
    by (subst (asm) forRange.simps) (auto simp: andThen_eq_Inr)
  moreover have "n = b - Suc a" using Suc.hyps(2) by simp
  ultimately show ?case using Suc.hyps(1) assms(3) Suc.prems(2) \<open>a < b\<close> by blast
qed

section \<open>Data\<close>

datatype terrainTileFormatError =
    TruncatedField
  | ChunkLengthExceedsBody nat int
  | InflatedDataEnds nat
  | UnsupportedFilter nat nat
  | NoPngSignature
  | NoUsableHeader
  | WrongTileSize nat nat
  | WrongPixelFormat nat nat
  | NonStandardMethod
  | InterlacedPng
  | NoImageData
  | InflateFailed nat
  | InflatedLength nat nat

definition TILE_SIZE :: nat where "TILE_SIZE = 256"

definition PNG_SIGNATURE :: "byte list" where
  "PNG_SIGNATURE = [0x89, 0x50, 0x4e, 0x47, 0x0d, 0x0a, 0x1a, 0x0a]"

definition BYTES_PER_PIXEL :: nat where "BYTES_PER_PIXEL = 3"

definition TERRARIUM_OFFSET_M :: int where "TERRARIUM_OFFSET_M = 32768"

definition INT16_MAX :: int where "INT16_MAX = 32767"

record pngChunk =
  pcType :: string
  pcData :: "byte list"

text \<open>\<open>Int16Array\<close>: assignment keeps the low 16 bits, reading is signed.\<close>

type_synonym int16Array = "16 word list"

section \<open>Operations\<close>

definition decodeTerrariumMetres :: "byte \<Rightarrow> byte \<Rightarrow> byte \<Rightarrow> rat" where
  "decodeTerrariumMetres red green blue =
     of_int (uint red * 256 + uint green) + of_int (uint blue) / 256 - of_int TERRARIUM_OFFSET_M"

definition byteAt :: "byte list \<Rightarrow> nat \<Rightarrow> byte option" where
  "byteAt bs i = (if i < length bs then Some (bs ! i) else None)"

definition byteOr0 :: "byte list \<Rightarrow> nat \<Rightarrow> byte" where
  "byteOr0 bs i = (case byteAt bs i of Some b \<Rightarrow> b | None \<Rightarrow> 0)"

definition readUint32 :: "byte list \<Rightarrow> nat \<Rightarrow> terrainTileFormatError + nat" where
  "readUint32 bytes offset =
     (case (byteAt bytes offset, byteAt bytes (offset + 1),
            byteAt bytes (offset + 2), byteAt bytes (offset + 3)) of
        (Some b0, Some b1, Some b2, Some b3) \<Rightarrow>
          Inr (unat ((push_bit 24 (ucast b0) OR push_bit 16 (ucast b1)
                      OR push_bit 8 (ucast b2) OR ucast b3) :: 32 word))
      | _ \<Rightarrow> Inl TruncatedField)"

definition hasPngSignature :: "byte list \<Rightarrow> bool" where
  "hasPngSignature bytes \<longleftrightarrow>
     \<not> length bytes < length PNG_SIGNATURE
     \<and> list_all (\<lambda>i. byteAt bytes i = byteAt PNG_SIGNATURE i) [0..<length PNG_SIGNATURE]"

definition subarray :: "nat \<Rightarrow> nat \<Rightarrow> byte list \<Rightarrow> byte list" where
  "subarray i j bs = take (j - i) (drop i bs)"

definition fromCharCode :: "byte list \<Rightarrow> string" where
  "fromCharCode bs = map (\<lambda>b. char_of (unat b)) bs"

function readChunksFrom ::
    "byte list \<Rightarrow> nat \<Rightarrow> pngChunk list \<Rightarrow> terrainTileFormatError + pngChunk list" where
  "readChunksFrom bytes offset chunks =
     (if offset + 8 \<le> length bytes
      then andThen (readUint32 bytes offset) (\<lambda>len.
        let remain = int (length bytes) - int offset - 12
        in if int len > remain then Inl (ChunkLengthExceedsBody len remain)
           else (let c = \<lparr>pcType = fromCharCode (subarray (offset + 4) (offset + 8) bytes),
                          pcData = subarray (offset + 8) (offset + 8 + len) bytes\<rparr>
                 in if pcType c = ''IEND'' then Inr (chunks @ [c])
                    else readChunksFrom bytes (offset + 12 + len) (chunks @ [c])))
      else Inr chunks)"
  by pat_completeness auto

termination by (relation "measure (\<lambda>(bytes, offset, chunks). length bytes - offset)") auto

declare readChunksFrom.simps [simp del]

definition readChunks :: "byte list \<Rightarrow> terrainTileFormatError + pngChunk list" where
  "readChunks bytes = readChunksFrom bytes (length PNG_SIGNATURE) []"

definition paethPredictor :: "int \<Rightarrow> int \<Rightarrow> int \<Rightarrow> int" where
  "paethPredictor left up upLeft =
     (let prediction = left + up - upLeft;
          distanceLeft = \<bar>prediction - left\<bar>;
          distanceUp = \<bar>prediction - up\<bar>;
          distanceUpLeft = \<bar>prediction - upLeft\<bar>
      in if distanceLeft \<le> distanceUp \<and> distanceLeft \<le> distanceUpLeft then left
         else if distanceUp \<le> distanceUpLeft then up
         else upLeft)"

definition filterPrediction :: "nat \<Rightarrow> byte \<Rightarrow> byte \<Rightarrow> byte \<Rightarrow> int option" where
  "filterPrediction filterType left up upLeft =
     (if filterType = 0 then Some 0
      else if filterType = 1 then Some (uint left)
      else if filterType = 2 then Some (uint up)
      else if filterType = 3 then Some ((uint left + uint up) div 2)
      else if filterType = 4 then Some (paethPredictor (uint left) (uint up) (uint upLeft))
      else None)"

text \<open>The three neighbours a filter reads: of this scanline and of the one above.\<close>

definition leftOf :: "byte list \<Rightarrow> nat \<Rightarrow> nat \<Rightarrow> nat \<Rightarrow> byte" where
  "leftOf out stride row index =
     (if index \<ge> BYTES_PER_PIXEL then byteOr0 out (row * stride + index - BYTES_PER_PIXEL) else 0)"

definition upOf :: "byte list \<Rightarrow> nat \<Rightarrow> nat \<Rightarrow> nat \<Rightarrow> byte" where
  "upOf out stride row index = (if row > 0 then byteOr0 out ((row - 1) * stride + index) else 0)"

definition upLeftOf :: "byte list \<Rightarrow> nat \<Rightarrow> nat \<Rightarrow> nat \<Rightarrow> byte" where
  "upLeftOf out stride row index =
     (if row > 0 \<and> index \<ge> BYTES_PER_PIXEL
      then byteOr0 out ((row - 1) * stride + index - BYTES_PER_PIXEL) else 0)"

definition unfilterByte ::
    "byte list \<Rightarrow> nat \<Rightarrow> nat \<Rightarrow> byte \<Rightarrow> nat \<Rightarrow> byte list \<Rightarrow> terrainTileFormatError + byte list" where
  "unfilterByte raw stride row filterType index output =
     (let rawByte = byteOr0 raw (row * (stride + 1) + 1 + index);
          left = leftOf output stride row index;
          up = upOf output stride row index;
          upLeft = upLeftOf output stride row index
      in case filterPrediction (unat filterType) left up upLeft of
           None \<Rightarrow> Inl (UnsupportedFilter (unat filterType) row)
         | Some p \<Rightarrow> Inr (output[row * stride + index := word_of_int (uint rawByte + p)]))"

definition unfilterScanline ::
    "byte list \<Rightarrow> nat \<Rightarrow> nat \<Rightarrow> byte list \<Rightarrow> terrainTileFormatError + byte list" where
  "unfilterScanline raw stride row output =
     (case byteAt raw (row * (stride + 1)) of
        None \<Rightarrow> Inl (InflatedDataEnds row)
      | Some filterType \<Rightarrow> forRange 0 stride (unfilterByte raw stride row filterType) output)"

definition unfilterScanlines ::
    "byte list \<Rightarrow> nat \<Rightarrow> nat \<Rightarrow> terrainTileFormatError + byte list" where
  "unfilterScanlines raw width height =
     (let stride = width * BYTES_PER_PIXEL
      in forRange 0 height (unfilterScanline raw stride) (replicate (stride * height) 0))"

definition gridCell :: "byte list \<Rightarrow> nat \<Rightarrow> 16 word" where
  "gridCell pixels index =
     (let base = index * BYTES_PER_PIXEL;
          metres = decodeTerrariumMetres (byteOr0 pixels base) (byteOr0 pixels (base + 1))
                     (byteOr0 pixels (base + 2))
      in word_of_int (min INT16_MAX (js_round metres)))"

definition decodeTerrainTile ::
    "(byte list \<Rightarrow> nat \<Rightarrow> byte list option) \<Rightarrow> byte list \<Rightarrow> terrainTileFormatError + int16Array" where
  "decodeTerrainTile inflateSync body =
     andThen (require (hasPngSignature body) NoPngSignature) (\<lambda>_.
     andThen (readChunks body) (\<lambda>chunks.
     andThen (orThrow (find (\<lambda>c. pcType c = ''IHDR'') chunks) NoUsableHeader) (\<lambda>header.
     andThen (require (\<not> length (pcData header) < 13) NoUsableHeader) (\<lambda>_.
     andThen (readUint32 (pcData header) 0) (\<lambda>width.
     andThen (readUint32 (pcData header) 4) (\<lambda>height.
       let bitDepth = pcData header ! 8; colourType = pcData header ! 9;
           compression = pcData header ! 10; filterMethod = pcData header ! 11;
           interlace = pcData header ! 12
       in
     andThen (require (\<not> (width \<noteq> TILE_SIZE \<or> height \<noteq> TILE_SIZE)) (WrongTileSize width height)) (\<lambda>_.
     andThen (require (\<not> (bitDepth \<noteq> 8 \<or> colourType \<noteq> 2))
                (WrongPixelFormat (unat bitDepth) (unat colourType))) (\<lambda>_.
     andThen (require (\<not> (compression \<noteq> 0 \<or> filterMethod \<noteq> 0)) NonStandardMethod) (\<lambda>_.
     andThen (require (\<not> interlace \<noteq> 0) InterlacedPng) (\<lambda>_.
       let idatChunks = filter (\<lambda>c. pcType c = ''IDAT'') chunks
       in
     andThen (require (length idatChunks \<noteq> 0) NoImageData) (\<lambda>_.
       let compressed = concat (map pcData idatChunks);
           expectedInflatedBytes = height * (1 + width * BYTES_PER_PIXEL)
       in
     andThen (orThrow (inflateSync compressed expectedInflatedBytes)
                (InflateFailed expectedInflatedBytes)) (\<lambda>inflated.
     andThen (require (length inflated = expectedInflatedBytes)
                (InflatedLength (length inflated) expectedInflatedBytes)) (\<lambda>_.
     andThen (unfilterScanlines inflated width height) (\<lambda>pixels.
       Inr (map (gridCell pixels) [0..<width * height])))))))))))))))"

section \<open>The fixture encoder\<close>

fun crcBits :: "nat \<Rightarrow> 32 word \<Rightarrow> 32 word" where
  "crcBits 0 v = v"
| "crcBits (Suc n) v =
     crcBits n (if v AND 1 = 1 then 0xedb88320 XOR drop_bit 1 v else drop_bit 1 v)"

definition getCrcTable :: "32 word list" where
  "getCrcTable = map (\<lambda>index. crcBits 8 (of_nat index)) [0..<256]"

definition crc32 :: "byte list \<Rightarrow> nat" where
  "crc32 bytes =
     (let table = getCrcTable;
          crc = fold (\<lambda>b crc. table ! unat ((crc XOR ucast b) AND 0xff) XOR drop_bit 8 crc)
                  bytes 0xffffffff
      in unat (crc XOR 0xffffffff))"

definition writeUint32 :: "nat \<Rightarrow> byte list" where
  "writeUint32 v =
     map (\<lambda>k. ucast (drop_bit k (of_nat v :: 32 word) AND 0xff)) [24, 16, 8, 0]"

definition charCodes :: "string \<Rightarrow> byte list" where
  "charCodes s = map (\<lambda>c. of_nat (of_char c)) s"

definition pngChunkBytes :: "string \<Rightarrow> byte list \<Rightarrow> byte list" where
  "pngChunkBytes type data =
     (let body = charCodes type @ data
      in writeUint32 (length data) @ body @ writeUint32 (crc32 body))"

datatype terrariumRangeError = TerrariumRangeError rat

definition encodeTerrariumPixel :: "rat \<Rightarrow> terrariumRangeError + (byte \<times> byte \<times> byte)" where
  "encodeTerrariumPixel metres =
     (if metres < -32768 \<or> metres > 32767 + 255 / 256 then Inl (TerrariumRangeError metres)
      else (let biased = js_round ((metres + of_int TERRARIUM_OFFSET_M) * 256)
            in Inr (word_of_int (drop_bit 16 biased AND 0xff), word_of_int (drop_bit 8 biased AND 0xff),
                    word_of_int (biased AND 0xff))))"

record terrariumFixtureOptions =
  tfWidth :: "nat option"
  tfHeight :: "nat option"
  tfFilterType :: "nat option"
  tfBitDepth :: "byte option"
  tfColourType :: "byte option"
  tfInterlace :: "byte option"

definition orElse :: "'a option \<Rightarrow> 'a \<Rightarrow> 'a" where
  "orElse x d = (case x of None \<Rightarrow> d | Some v \<Rightarrow> v)"

definition putPixel ::
    "(nat \<Rightarrow> nat \<Rightarrow> rat) \<Rightarrow> nat \<Rightarrow> nat \<Rightarrow> nat \<Rightarrow> byte list \<Rightarrow> terrariumRangeError + byte list" where
  "putPixel elevationAt stride y x pixels =
     andThen (encodeTerrariumPixel (elevationAt x y)) (\<lambda>(red, green, blue).
       let base = y * stride + x * BYTES_PER_PIXEL
       in Inr (pixels[base := red, base + 1 := green, base + 2 := blue]))"

definition encodePixels ::
    "(nat \<Rightarrow> nat \<Rightarrow> rat) \<Rightarrow> nat \<Rightarrow> nat \<Rightarrow> terrariumRangeError + byte list" where
  "encodePixels elevationAt width height =
     (let stride = width * BYTES_PER_PIXEL
      in forRange 0 height (\<lambda>y. forRange 0 width (putPixel elevationAt stride y))
           (replicate (stride * height) 0))"

definition filteredByte :: "byte list \<Rightarrow> nat \<Rightarrow> nat \<Rightarrow> nat \<Rightarrow> nat \<Rightarrow> byte" where
  "filteredByte pixels stride filterType y index =
     (let current = byteOr0 pixels (y * stride + index);
          left = leftOf pixels stride y index;
          up = upOf pixels stride y index;
          upLeft = upLeftOf pixels stride y index;
          prediction = (if filterType = 0 then 0
                        else if filterType = 1 then uint left
                        else if filterType = 2 then uint up
                        else if filterType = 3 then (uint left + uint up) div 2
                        else paethPredictor (uint left) (uint up) (uint upLeft))
      in word_of_int (uint current - prediction))"

definition filterScanlines :: "byte list \<Rightarrow> nat \<Rightarrow> nat \<Rightarrow> nat \<Rightarrow> byte list" where
  "filterScanlines pixels filterType width height =
     (let stride = width * BYTES_PER_PIXEL
      in concat (map (\<lambda>y. of_nat filterType # map (filteredByte pixels stride filterType y) [0..<stride])
                   [0..<height]))"

definition buildTerrariumTilePng ::
    "(byte list \<Rightarrow> byte list) \<Rightarrow> (nat \<Rightarrow> nat \<Rightarrow> rat) \<Rightarrow> terrariumFixtureOptions
     \<Rightarrow> terrariumRangeError + byte list" where
  "buildTerrariumTilePng deflateSync elevationAt options =
     (let width = orElse (tfWidth options) TILE_SIZE;
          height = orElse (tfHeight options) TILE_SIZE;
          filterType = orElse (tfFilterType options) 0
      in andThen (encodePixels elevationAt width height) (\<lambda>pixels.
           let rawWithFilters = filterScanlines pixels filterType width height;
               header = writeUint32 width @ writeUint32 height
                        @ [orElse (tfBitDepth options) 8, orElse (tfColourType options) 2, 0, 0,
                           orElse (tfInterlace options) 0]
           in Inr (PNG_SIGNATURE @ pngChunkBytes ''IHDR'' header
                   @ pngChunkBytes ''IDAT'' (deflateSync rawWithFilters)
                   @ pngChunkBytes ''IEND'' [])))"

definition buildOversizedIdatPng :: "(byte list \<Rightarrow> byte list) \<Rightarrow> nat \<Rightarrow> byte list" where
  "buildOversizedIdatPng deflateSync inflatedBytes =
     (let header = writeUint32 TILE_SIZE @ writeUint32 TILE_SIZE @ [8, 2, 0, 0, 0]
      in PNG_SIGNATURE @ pngChunkBytes ''IHDR'' header
         @ pngChunkBytes ''IDAT'' (deflateSync (replicate inflatedBytes 0))
         @ pngChunkBytes ''IEND'' [])"

section \<open>Fields and chunks\<close>

lemma byteAt_nth [byte_simps]: "i < length bs \<Longrightarrow> byteAt bs i = Some (bs ! i)"
  by (simp add: byteAt_def)

lemma byteOr0_nth [byte_simps]: "i < length bs \<Longrightarrow> byteOr0 bs i = bs ! i"
  by (simp add: byteOr0_def byteAt_def)

lemma byteAt_append_right [simp]: "byteAt (xs @ ys) (length xs + i) = byteAt ys i"
  by (simp add: byteAt_def)

lemma readUint32_append_right [simp]: "readUint32 (xs @ ys) (length xs + i) = readUint32 ys i"
proof -
  have "byteAt (xs @ ys) (length xs + i + k) = byteAt ys (i + k)" for k
    unfolding add.assoc by (rule byteAt_append_right)
  then show ?thesis unfolding readUint32_def by (simp del: add_2_eq_Suc' add_Suc_right One_nat_def)
qed

lemma length_writeUint32 [simp]: "length (writeUint32 v) = 4"
  by (simp add: writeUint32_def)

lemma word32_split:
  "push_bit 24 (ucast (ucast (drop_bit 24 w AND 0xff) :: byte))
   OR push_bit 16 (ucast (ucast (drop_bit 16 w AND 0xff) :: byte))
   OR push_bit 8 (ucast (ucast (drop_bit 8 w AND 0xff) :: byte))
   OR ucast (ucast (w AND 0xff) :: byte) = (w :: 32 word)"
proof (rule bit_word_eqI)
  fix n assume n: "n < LENGTH(32)"
  have ff: "bit (0xff :: 32 word) k \<longleftrightarrow> k < 8" for k
    using bit_mask_iff [of 8 k, where 'a = "32 word"] by (auto simp: mask_eq_exp_minus_1)
  consider "n < 8" | "8 \<le> n" "n < 16" | "16 \<le> n" "n < 24" | "24 \<le> n" "n < 32"
    using n by fastforce
  then show "bit (push_bit 24 (ucast (ucast (drop_bit 24 w AND 0xff) :: byte))
     OR push_bit 16 (ucast (ucast (drop_bit 16 w AND 0xff) :: byte))
     OR push_bit 8 (ucast (ucast (drop_bit 8 w AND 0xff) :: byte))
     OR ucast (ucast (w AND 0xff) :: byte) :: 32 word) n = bit w n"
    by cases (simp_all only: bit_or_iff bit_push_bit_iff bit_ucast_iff bit_and_iff bit_drop_bit_eq
        ff o_apply, auto simp: possible_bit_def)
qed

lemma word32_bytes:
  fixes a b c d :: byte
  defines "w \<equiv> push_bit 24 (ucast a) OR push_bit 16 (ucast b) OR push_bit 8 (ucast c) OR ucast d :: 32 word"
  shows "ucast (drop_bit 24 w AND 0xff) = a" "ucast (drop_bit 16 w AND 0xff) = b"
    "ucast (drop_bit 8 w AND 0xff) = c" "ucast (w AND 0xff) = d"
proof -
  have ff: "bit (0xff :: 32 word) k \<longleftrightarrow> k < 8" for k
    using bit_mask_iff [of 8 k, where 'a = "32 word"] by (auto simp: mask_eq_exp_minus_1)
  have small: "bit x n \<Longrightarrow> n < 8" for x :: byte and n using bit_imp_le_length [of x n] by simp
  show "ucast (drop_bit 24 w AND 0xff) = a" "ucast (drop_bit 16 w AND 0xff) = b"
    "ucast (drop_bit 8 w AND 0xff) = c" "ucast (w AND 0xff) = d"
    unfolding w_def by (rule bit_word_eqI;
      simp only: bit_or_iff bit_push_bit_iff bit_ucast_iff bit_and_iff bit_drop_bit_eq ff o_apply;
      auto simp: possible_bit_def dest: small)+
qed

lemma readUint32_write:
  assumes "v < 2 ^ 32"
  shows "readUint32 (writeUint32 v @ rest) 0 = Inr v"
proof -
  have "unat (of_nat v :: 32 word) = v" using assms by (simp add: unat_of_nat)
  then show ?thesis
    unfolding readUint32_def writeUint32_def byteAt_def
    by (simp add: word32_split)
qed

lemma fromCharCode_charCodes:
  "list_all (\<lambda>c. of_char c < (256 :: nat)) s \<Longrightarrow> fromCharCode (charCodes s) = s"
  by (induction s) (simp_all add: fromCharCode_def charCodes_def unat_of_nat)

lemma length_charCodes [simp]: "length (charCodes t) = length t"
  by (simp add: charCodes_def)

lemma length_pngChunkBytes [simp]: "length (pngChunkBytes t d) = 8 + length t + length d"
  by (simp add: pngChunkBytes_def Let_def)

text \<open>One step of the walk over a chunk the encoder wrote.\<close>

lemma readChunksFrom_chunk:
  assumes "length t = 4" and "list_all (\<lambda>c. of_char c < (256 :: nat)) t"
    and "length d < 2 ^ 32" and "offset = length pre"
  shows "readChunksFrom (pre @ pngChunkBytes t d @ rest) offset cs =
    (let c = \<lparr>pcType = t, pcData = d\<rparr>
     in if t = ''IEND'' then Inr (cs @ [c])
        else readChunksFrom (pre @ pngChunkBytes t d @ rest) (offset + 12 + length d) (cs @ [c]))"
proof -
  let ?crc = "writeUint32 (crc32 (charCodes t @ d))"
  let ?b = "pre @ pngChunkBytes t d @ rest"
  have b: "?b = pre @ writeUint32 (length d) @ charCodes t @ d @ ?crc @ rest"
    by (simp add: pngChunkBytes_def Let_def)
  have "readUint32 ?b (offset + 0) = Inr (length d)"
    unfolding b assms(4) readUint32_append_right using assms(3) by (rule readUint32_write)
  then have len: "readUint32 ?b offset = Inr (length d)" by simp
  have ty: "subarray (offset + 4) (offset + 8) ?b = charCodes t"
    using assms(1) by (simp add: b subarray_def assms(4))
  have da: "subarray (offset + 8) (offset + 8 + length d) ?b = d"
    using assms(1) by (simp add: b subarray_def assms(4))
  have "offset + 8 \<le> length ?b" "\<not> int (length d) > int (length ?b) - int offset - 12"
    using assms(1) by (simp_all add: b assms(4))
  then show ?thesis
    using assms(2) len ty da by (subst readChunksFrom.simps)
      (simp only: if_True if_False Let_def andThen_simps fromCharCode_charCodes pngChunk.simps)
qed

lemma readChunksFrom_end: "length bytes < offset + 8 \<Longrightarrow> readChunksFrom bytes offset cs = Inr cs"
  by (simp add: readChunksFrom.simps)

lemma readChunks_built:
  assumes "length h < 2 ^ 32" and "length z < 2 ^ 32"
  shows "readChunks (PNG_SIGNATURE @ pngChunkBytes ''IHDR'' h @ pngChunkBytes ''IDAT'' z
                     @ pngChunkBytes ''IEND'' []) =
    Inr [\<lparr>pcType = ''IHDR'', pcData = h\<rparr>, \<lparr>pcType = ''IDAT'', pcData = z\<rparr>,
         \<lparr>pcType = ''IEND'', pcData = []\<rparr>]"
proof -
  let ?H = "pngChunkBytes ''IHDR'' h" let ?Z = "pngChunkBytes ''IDAT'' z"
  let ?E = "pngChunkBytes ''IEND'' []" let ?b = "PNG_SIGNATURE @ ?H @ ?Z @ ?E"
  have 1: "readChunksFrom ?b 8 [] = readChunksFrom ?b (20 + length h) [\<lparr>pcType = ''IHDR'', pcData = h\<rparr>]"
    using assms(1) by (subst readChunksFrom_chunk) (simp_all add: PNG_SIGNATURE_def)
  have b2: "?b = (PNG_SIGNATURE @ ?H) @ ?Z @ ?E" by simp
  have 2: "readChunksFrom ?b (20 + length h) cs
      = readChunksFrom ?b (32 + length h + length z) (cs @ [\<lparr>pcType = ''IDAT'', pcData = z\<rparr>])" for cs
    unfolding b2 using assms(2)
    by (subst readChunksFrom_chunk) (simp_all add: PNG_SIGNATURE_def add_ac)
  have b3: "?b = (PNG_SIGNATURE @ ?H @ ?Z) @ ?E @ []" by simp
  have 3: "readChunksFrom ?b (32 + length h + length z) cs
      = Inr (cs @ [\<lparr>pcType = ''IEND'', pcData = []\<rparr>])" for cs
    unfolding b3 by (subst readChunksFrom_chunk) (simp_all add: PNG_SIGNATURE_def)
  have "length PNG_SIGNATURE = 8" by (simp add: PNG_SIGNATURE_def)
  then show ?thesis unfolding readChunks_def by (simp only: 1 2 3) simp
qed

section \<open>The filters\<close>

lemma concat_nth_uniform:
  assumes "\<forall>xs \<in> set xss. length xs = n" and "r < length xss" and "j < n"
  shows "concat xss ! (r * n + j) = xss ! r ! j"
  using assms
proof (induction xss arbitrary: r)
  case Nil
  then show ?case by simp
next
  case (Cons xs xss)
  then show ?case by (cases r) (auto simp: nth_append)
qed

lemma length_concat_uniform:
  "\<forall>xs \<in> set xss. length xs = n \<Longrightarrow> length (concat xss) = length xss * n"
  by (induction xss) simp_all

lemma row_index_less: "row < (h :: nat) \<Longrightarrow> j < n \<Longrightarrow> row * n + j < h * n"
proof -
  assume "row < h" and "j < n"
  then have "row * n + j < Suc row * n" by simp
  also have "\<dots> \<le> h * n" using \<open>row < h\<close> by (intro mult_right_mono) simp_all
  finally show ?thesis .
qed

lemma row_index_inj: "j < n \<Longrightarrow> j' < n \<Longrightarrow> r * n + j = r' * n + j' \<Longrightarrow> r = r' \<and> j = (j' :: nat)"
  by (metis add.commute div_less div_mult_self3 less_nat_zero_code add_cancel_right_left
      add_right_cancel)

text \<open>The values a filter reads were all written before.\<close>

lemma neighbours_agree:
  assumes "length out = length px" and "\<forall>i < row * stride + index. out ! i = px ! i"
    and "row * stride + index < length px" and "index < stride"
  shows "leftOf out stride row index = leftOf px stride row index"
    and "upOf out stride row index = upOf px stride row index"
    and "upLeftOf out stride row index = upLeftOf px stride row index"
proof -
  have agree: "byteOr0 out i = byteOr0 px i" if "i < row * stride + index" for i
    using that assms by (simp add: byteOr0_nth)
  show "leftOf out stride row index = leftOf px stride row index"
    unfolding leftOf_def BYTES_PER_PIXEL_def by (auto intro: agree)
  have above: "(row - 1) * stride + k < row * stride + index" if "row > 0" "k < index" for k
    using that by (cases row) simp_all
  show "upLeftOf out stride row index = upLeftOf px stride row index"
    unfolding upLeftOf_def BYTES_PER_PIXEL_def using above [of "index - 3"] by (auto intro: agree)
  have "(row - 1) * stride + index < row * stride + index" if "row > 0"
    using that assms(4) by (cases row) simp_all
  then show "upOf out stride row index = upOf px stride row index"
    unfolding upOf_def by (auto intro: agree)
qed

lemma filterPrediction_filtered:
  assumes "ft \<le> 4"
  shows "\<exists>p. filterPrediction ft (leftOf px stride y i) (upOf px stride y i) (upLeftOf px stride y i) = Some p
    \<and> filteredByte px stride ft y i = word_of_int (uint (byteOr0 px (y * stride + i)) - p)"
  using assms unfolding filterPrediction_def filteredByte_def Let_def by auto

lemma filterScanlines_bytes:
  assumes "y < height"
  shows "byteAt (filterScanlines px ft width height) (y * (width * BYTES_PER_PIXEL + 1)) = Some (of_nat ft)"
    and "j < width * BYTES_PER_PIXEL \<Longrightarrow>
      byteOr0 (filterScanlines px ft width height) (y * (width * BYTES_PER_PIXEL + 1) + 1 + j)
      = filteredByte px (width * BYTES_PER_PIXEL) ft y j"
proof -
  let ?s = "width * BYTES_PER_PIXEL"
  let ?rows = "map (\<lambda>y. of_nat ft # map (filteredByte px ?s ft y) [0..<?s]) [0..<height]"
  have f: "filterScanlines px ft width height = concat ?rows"
    by (simp add: filterScanlines_def Let_def)
  have u: "\<forall>xs \<in> set ?rows. length xs = ?s + 1" by auto
  have l: "length (concat ?rows) = height * (?s + 1)"
    using length_concat_uniform [OF u] by simp
  have at: "k < ?s + 1 \<Longrightarrow> concat ?rows ! (y * (?s + 1) + k) = ?rows ! y ! k
      \<and> y * (?s + 1) + k < length (concat ?rows)" for k
    unfolding l using concat_nth_uniform [OF u, of y k] row_index_less [of y height k "?s + 1"] assms
    by simp
  show "byteAt (filterScanlines px ft width height) (y * (?s + 1)) = Some (of_nat ft)"
    unfolding f using at [of 0] assms by (simp add: byteAt_def)
  assume "j < ?s"
  then show "byteOr0 (filterScanlines px ft width height) (y * (?s + 1) + 1 + j)
      = filteredByte px ?s ft y j"
    unfolding f using at [of "j + 1"] assms by (simp add: byteOr0_nth)
qed

lemma unfilter_filter:
  assumes "ft \<le> 4" and "length px = width * BYTES_PER_PIXEL * height"
  shows "unfilterScanlines (filterScanlines px ft width height) width height = Inr px"
proof -
  let ?s = "width * BYTES_PER_PIXEL" and ?raw = "filterScanlines px ft width height"
  define I where "I k out \<longleftrightarrow> length out = length px \<and> (\<forall>i < k. out ! i = px ! i)" for k out
  have byte: "\<exists>out'. unfilterByte ?raw ?s row (of_nat ft) j out = Inr out' \<and> I (row * ?s + Suc j) out'"
    if "row < height" "j < ?s" "I (row * ?s + j) out" for row j out
  proof -
    have less: "row * ?s + j < length px"
      using row_index_less [OF that(1,2)] assms(2) by (simp add: mult.commute)
    have eq: "leftOf out ?s row j = leftOf px ?s row j" "upOf out ?s row j = upOf px ?s row j"
      "upLeftOf out ?s row j = upLeftOf px ?s row j"
      using neighbours_agree [of out px row ?s j] that less by (simp_all add: I_def)
    obtain p where p: "filterPrediction ft (leftOf px ?s row j) (upOf px ?s row j) (upLeftOf px ?s row j) = Some p"
      and fb: "filteredByte px ?s ft row j = word_of_int (uint (byteOr0 px (row * ?s + j)) - p)"
      using filterPrediction_filtered [OF assms(1)] by blast
    have "unat (of_nat ft :: byte) = ft" using assms(1) by (simp add: unat_of_nat)
    then have "unfilterByte ?raw ?s row (of_nat ft) j out = Inr (out[row * ?s + j := px ! (row * ?s + j)])"
      unfolding unfilterByte_def Let_def filterScanlines_bytes(2) [OF that(1,2)] eq p fb
      using less by (simp add: p byteOr0_nth)
    moreover have "I (row * ?s + Suc j) (out[row * ?s + j := px ! (row * ?s + j)])"
      using that(3) less by (auto simp: I_def nth_list_update less_Suc_eq)
    ultimately show ?thesis by blast
  qed
  have row: "\<exists>out'. unfilterScanline ?raw ?s row out = Inr out' \<and> I (Suc row * ?s) out'"
    if "row < height" "I (row * ?s) out" for row out
  proof -
    have "\<exists>out'. forRange 0 ?s (unfilterByte ?raw ?s row (of_nat ft)) out = Inr out'
        \<and> I (row * ?s + ?s) out'"
      by (rule forRange_rule [where I = "\<lambda>j. I (row * ?s + j)"]) (use that byte in auto)
    then show ?thesis
      unfolding unfilterScanline_def filterScanlines_bytes(1) [OF that(1)] by (simp add: add.commute)
  qed
  have "\<exists>out'. forRange 0 height (unfilterScanline ?raw ?s) (replicate (?s * height) 0) = Inr out'
      \<and> I (height * ?s) out'"
    by (rule forRange_rule [where I = "\<lambda>r. I (r * ?s)"]) (use row assms(2) in \<open>auto simp: I_def\<close>)
  then obtain out' where out': "forRange 0 height (unfilterScanline ?raw ?s) (replicate (?s * height) 0) = Inr out'"
    and "I (height * ?s) out'" by blast
  then have "out' = px"
    using assms(2) by (intro nth_equalityI) (simp_all add: I_def mult.commute)
  with out' show ?thesis by (simp add: unfilterScanlines_def)
qed

section \<open>Heights\<close>

lemma encodeTerrariumPixel_Inr:
  assumes "encodeTerrariumPixel e = Inr (r, g, b)"
  defines "n \<equiv> js_round ((e + of_int TERRARIUM_OFFSET_M) * 256)"
  shows "0 \<le> n" and "n < 16777216"
    and "uint r = n div 65536" and "uint g = n div 256 mod 256" and "uint b = n mod 256"
proof -
  from assms(1) have range: "-32768 \<le> e" "e \<le> 32767 + 255 / 256"
    and rgb: "r = word_of_int (drop_bit 16 n AND 0xff)" "g = word_of_int (drop_bit 8 n AND 0xff)"
      "b = word_of_int (n AND 0xff)"
    by (auto simp: encodeTerrariumPixel_def n_def Let_def split: if_splits)
  have "js_round (of_int 0) \<le> n" "n \<le> js_round (of_int 16777215)"
    unfolding n_def using range by (intro js_round_mono; simp add: TERRARIUM_OFFSET_M_def field_simps)+
  then show n: "0 \<le> n" "n < 16777216" by (simp_all only: js_round_of_int)
  have byte: "uint (word_of_int (k AND 0xff) :: byte) = k mod 256" for k
  proof -
    have "k AND 0xff = take_bit 8 k" by (simp add: take_bit_eq_mask mask_eq_exp_minus_1)
    then show ?thesis by (simp add: uint_word_of_int take_bit_eq_mod)
  qed
  show "uint r = n div 65536"
    unfolding rgb byte using n by (simp add: drop_bit_eq_div)
  show "uint g = n div 256 mod 256" "uint b = n mod 256"
    unfolding rgb byte by (simp_all add: drop_bit_eq_div)
qed

lemma decode_encoded:
  assumes "encodeTerrariumPixel e = Inr (r, g, b)"
  shows "decodeTerrariumMetres r g b =
    of_int (js_round ((e + of_int TERRARIUM_OFFSET_M) * 256)) / 256 - of_int TERRARIUM_OFFSET_M"
proof -
  define n where "n = js_round ((e + of_int TERRARIUM_OFFSET_M) * 256)"
  note rgb = encodeTerrariumPixel_Inr [OF assms, folded n_def]
  have "n = (n div 256) * 256 + n mod 256" by (rule div_mult_mod_eq [symmetric])
  moreover have "n div 256 = (n div 65536) * 256 + n div 256 mod 256"
    using div_mult_mod_eq [of "n div 256" 256] by (simp add: zdiv_zmult2_eq [symmetric])
  ultimately have "n = (n div 65536) * 65536 + (n div 256 mod 256) * 256 + n mod 256"
    by linarith
  from arg_cong [OF this, of "of_int :: int \<Rightarrow> rat"] have "(of_int n :: rat) =
      of_int (n div 65536) * 65536 + of_int (n div 256 mod 256) * 256 + of_int (n mod 256)"
    by (simp only: of_int_add of_int_mult of_int_numeral)
  then show ?thesis unfolding decodeTerrariumMetres_def rgb n_def [symmetric] by simp
qed

lemma decode_encoded_int:
  assumes "encodeTerrariumPixel (of_int k) = Inr (r, g, b)"
  shows "decodeTerrariumMetres r g b = of_int k"
proof -
  have "(of_int k + of_int TERRARIUM_OFFSET_M :: rat) * 256 = of_int ((k + TERRARIUM_OFFSET_M) * 256)"
    by simp
  then have "decodeTerrariumMetres r g b
      = of_int ((k + TERRARIUM_OFFSET_M) * 256) / 256 - of_int TERRARIUM_OFFSET_M"
    unfolding decode_encoded [OF assms] by (simp only: js_round_of_int)
  then show ?thesis unfolding of_int_mult by (simp add: add_divide_distrib)
qed

lemma js_round_near: "\<bar>of_int (js_round x) - x\<bar> \<le> 1 / 2"
proof -
  define z :: rat where "z = of_int \<lfloor>x + 1 / 2\<rfloor>"
  have "z \<le> x + 1 / 2" "x + 1 / 2 < z + 1" unfolding z_def by (rule of_int_floor_le, rule floor_correct [THEN conjunct2, simplified])
  then show ?thesis unfolding js_round_def z_def [symmetric] abs_le_iff by linarith
qed

lemma encode_accepts: "-32768 \<le> e \<Longrightarrow> e \<le> 32767 + 255 / 256 \<Longrightarrow> \<exists>r g b. encodeTerrariumPixel e = Inr (r, g, b)"
  unfolding encodeTerrariumPixel_def by (simp add: Let_def)

text \<open>
  the height a pixel decodes to is the encoded height rounded to a 256th of a metre: at
  most half of that away from it, and exactly the height when it is a whole number of metres.
\<close>

theorem terrarium_roundtrip:
  assumes "encodeTerrariumPixel e = Inr (r, g, b)"
  shows "\<bar>decodeTerrariumMetres r g b - e\<bar> \<le> 1 / 512
    \<and> (e \<in> \<int> \<longrightarrow> decodeTerrariumMetres r g b = e)"
proof (intro conjI impI)
  show "\<bar>decodeTerrariumMetres r g b - e\<bar> \<le> 1 / 512"
    using js_round_near [of "(e + of_int TERRARIUM_OFFSET_M) * 256"]
    unfolding decode_encoded [OF assms] abs_le_iff by (simp add: field_simps)
  assume "e \<in> \<int>"
  then obtain k where "e = of_int k" by (auto elim: Ints_cases)
  with assms show "decodeTerrariumMetres r g b = e" using decode_encoded_int by blast
qed

theorem terrarium_roundtrip_witness:
  "encodeTerrariumPixel (- 430 - 1 / 3) = Inr (126, 81, 171)
    \<and> \<bar>decodeTerrariumMetres 126 81 171 - (- 430 - 1 / 3)\<bar> \<le> 1 / 512"
proof -
  have "encodeTerrariumPixel (- 430 - 1 / 3) = Inr (126, 81, 171)" by code_simp
  with terrarium_roundtrip [OF this] show ?thesis by simp
qed

section \<open>A whole tile\<close>

lemma integer_pixel:
  assumes "-32768 \<le> k" and "k \<le> 32767"
  shows "\<exists>r g b. encodeTerrariumPixel (of_int k) = Inr (r, g, b)
    \<and> word_of_int (min INT16_MAX (js_round (decodeTerrariumMetres r g b))) = (of_int k :: 16 word)"
proof -
  have "(-32768 :: rat) \<le> of_int k" "(of_int k :: rat) \<le> 32767" using assms by simp_all
  then obtain r g b where e: "encodeTerrariumPixel (of_int k) = Inr (r, g, b)"
    using encode_accepts [of "of_int k"] by auto
  from decode_encoded_int [OF e] show ?thesis using e assms by (simp add: INT16_MAX_def)
qed

definition pixelAt :: "byte list \<Rightarrow> nat \<Rightarrow> byte \<times> byte \<times> byte" where
  "pixelAt px i = (px ! (i * 3), px ! (i * 3 + 1), px ! (i * 3 + 2))"

lemma pixelAt_update:
  "i * 3 + 2 < length px \<Longrightarrow> j * 3 + 2 < length px \<Longrightarrow>
    pixelAt (px[i * 3 := r, i * 3 + 1 := g, i * 3 + 2 := b]) j
    = (if j = i then (r, g, b) else pixelAt px j)"
proof -
  assume "i * 3 + 2 < length px" and "j * 3 + 2 < length px"
  moreover have "j * 3 \<noteq> i * 3 + 1" "j * 3 \<noteq> i * 3 + 2" "i * 3 \<noteq> j * 3 + 1" "i * 3 \<noteq> j * 3 + 2"
    "Suc (j * 3) \<noteq> i * 3 + 2" "Suc (i * 3) \<noteq> j * 3 + 2" by presburger+
  ultimately show ?thesis by (cases "j = i") (auto simp: pixelAt_def nth_list_update)
qed

lemma encodePixels_pixels:
  assumes "\<forall>x < width. \<forall>y < height. encodeTerrariumPixel (elev x y) = Inr (pix x y)"
  shows "\<exists>px. encodePixels elev width height = Inr px \<and> length px = width * BYTES_PER_PIXEL * height
    \<and> (\<forall>y < height. \<forall>x < width. pixelAt px (y * width + x) = pix x y)"
proof -
  define n where "n = width * BYTES_PER_PIXEL * height"
  define I where "I k px \<longleftrightarrow> length px = n
      \<and> (\<forall>y < height. \<forall>x < width. y * width + x < k \<longrightarrow> pixelAt px (y * width + x) = pix x y)" for k px
  have put: "\<exists>px'. putPixel elev (width * BYTES_PER_PIXEL) y x px = Inr px' \<and> I (y * width + Suc x) px'"
    if "y < height" "x < width" "I (y * width + x) px" for y x px
  proof -
    obtain r g b where rgb: "pix x y = (r, g, b)" by (cases "pix x y")
    let ?i = "y * width + x"
    have base: "y * (width * BYTES_PER_PIXEL) + x * BYTES_PER_PIXEL = ?i * 3"
      by (simp add: BYTES_PER_PIXEL_def algebra_simps)
    have in_range: "y' * width + x' < width * height" if "y' < height" "x' < width" for x' y'
      using row_index_less [OF that] by (simp add: mult.commute)
    have len: "j * 3 + 2 < length px" if "j < width * height" for j
      using that \<open>I (y * width + x) px\<close> by (simp add: I_def n_def BYTES_PER_PIXEL_def)
    let ?px' = "px[?i * 3 := r, ?i * 3 + 1 := g, ?i * 3 + 2 := b]"
    have "putPixel elev (width * BYTES_PER_PIXEL) y x px = Inr ?px'"
      unfolding putPixel_def Let_def base using assms that(1,2) rgb by simp
    moreover have "pixelAt ?px' (y' * width + x') = pix x' y'"
      if "y' < height" "x' < width" "y' * width + x' < y * width + Suc x" for x' y'
    proof (cases "y' * width + x' = ?i")
      case True
      then have "y' = y" "x' = x"
        using row_index_inj [OF that(2) \<open>x < width\<close> True] by simp_all
      then show ?thesis
        using pixelAt_update [OF len len, OF in_range in_range] \<open>y < height\<close> \<open>x < width\<close> rgb
        by (simp only: if_True refl \<open>y' = y\<close> \<open>x' = x\<close>)
    next
      case False
      then show ?thesis
        using pixelAt_update [OF len len, OF in_range in_range] that \<open>y < height\<close> \<open>x < width\<close> \<open>I ?i px\<close>
        by (simp only: if_False I_def)
    qed
    ultimately show ?thesis using that(3) by (simp add: I_def)
  qed
  have row: "\<exists>px'. forRange 0 width (putPixel elev (width * BYTES_PER_PIXEL) y) px = Inr px'
      \<and> I (Suc y * width) px'" if "y < height" "I (y * width) px" for y px
  proof -
    have "\<exists>px'. forRange 0 width (putPixel elev (width * BYTES_PER_PIXEL) y) px = Inr px'
        \<and> I (y * width + width) px'"
      by (rule forRange_rule [where I = "\<lambda>x. I (y * width + x)"]) (use that put in auto)
    then show ?thesis by (simp add: add.commute)
  qed
  have "\<exists>px. encodePixels elev width height = Inr px \<and> I (height * width) px"
    unfolding encodePixels_def Let_def
    by (rule forRange_rule [where I = "\<lambda>y. I (y * width)"]) (use row in \<open>auto simp: I_def n_def\<close>)
  then show ?thesis using row_index_less unfolding I_def n_def by blast
qed

lemma gridCell_pixel:
  "index * 3 + 2 < length px \<Longrightarrow> pixelAt px index = (r, g, b) \<Longrightarrow>
    gridCell px index = word_of_int (min INT16_MAX (js_round (decodeTerrariumMetres r g b)))"
  by (simp add: gridCell_def pixelAt_def byteOr0_nth BYTES_PER_PIXEL_def Let_def)

lemma signature_built: "hasPngSignature (PNG_SIGNATURE @ rest)"
  by (simp add: hasPngSignature_def list_all_iff byteAt_def nth_append)

lemma decode_built:
  assumes "encodePixels elev TILE_SIZE TILE_SIZE = Inr px"
    and "length px = TILE_SIZE * BYTES_PER_PIXEL * TILE_SIZE" and "orElse ft 0 \<le> 4"
    and "length (deflateSync (filterScanlines px (orElse ft 0) TILE_SIZE TILE_SIZE)) < 2 ^ 32"
    and "\<And>raw n. length raw \<le> n \<Longrightarrow> inflateSync (deflateSync raw) n = Some raw"
  shows "andThen (buildTerrariumTilePng deflateSync elev
           \<lparr>tfWidth = None, tfHeight = None, tfFilterType = ft, tfBitDepth = None,
            tfColourType = None, tfInterlace = None\<rparr>)
           (\<lambda>png. Inr (decodeTerrainTile inflateSync png))
    = Inr (Inr (map (gridCell px) [0..<TILE_SIZE * TILE_SIZE]))"
proof -
  let ?h = "writeUint32 TILE_SIZE @ writeUint32 TILE_SIZE @ [8, 2, 0, 0, 0]"
  let ?raw = "filterScanlines px (orElse ft 0) TILE_SIZE TILE_SIZE"
  have h: "readUint32 ?h 0 = Inr TILE_SIZE" "readUint32 ?h 4 = Inr TILE_SIZE"
    "?h ! 8 = 8" "?h ! 9 = 2" "?h ! 10 = 0" "?h ! 11 = 0" "?h ! 12 = 0" "length ?h = 13"
    by code_simp+
  have raw: "length ?raw = TILE_SIZE * (1 + TILE_SIZE * BYTES_PER_PIXEL)"
    unfolding filterScanlines_def Let_def by (subst length_concat_uniform) auto
  have d: "decodeTerrainTile inflateSync (PNG_SIGNATURE @ pngChunkBytes ''IHDR'' ?h
        @ pngChunkBytes ''IDAT'' (deflateSync ?raw) @ pngChunkBytes ''IEND'' [])
    = Inr (map (gridCell px) [0..<TILE_SIZE * TILE_SIZE])"
    unfolding decodeTerrainTile_def
    using assms(4) h raw assms(5) [of ?raw] unfilter_filter [OF assms(3,2)]
    by (simp add: signature_built readChunks_built Let_def)
  show ?thesis
    unfolding buildTerrariumTilePng_def Let_def using assms(1) d
    by (simp add: orElse_def)
qed

text \<open>
  C31: whatever a compressor does, as long as the inflater undoes it within the byte budget, a
  tile of whole-metre heights comes back exactly: for each of the five scanline filters, the
  decoder finds in the encoder's PNG every height at its row and column.
\<close>

theorem terrain_tile_roundtrip:
  assumes "\<And>x y. x < 256 \<Longrightarrow> y < 256 \<Longrightarrow> -32768 \<le> elev x y \<and> elev x y \<le> 32767"
    and "orElse ft 0 \<le> 4"
    and "\<And>raw. length raw = 196864 \<Longrightarrow> length (deflateSync raw) < 2 ^ 32"
    and "\<And>raw n. length raw \<le> n \<Longrightarrow> inflateSync (deflateSync raw) n = Some raw"
  shows "\<exists>png. buildTerrariumTilePng deflateSync (\<lambda>x y. of_int (elev x y))
           \<lparr>tfWidth = None, tfHeight = None, tfFilterType = ft, tfBitDepth = None,
            tfColourType = None, tfInterlace = None\<rparr> = Inr png
    \<and> decodeTerrainTile inflateSync png
      = Inr (map (\<lambda>i. of_int (elev (i mod 256) (i div 256))) [0..<65536])"
proof -
  obtain pix where pix: "\<forall>x < TILE_SIZE. \<forall>y < TILE_SIZE.
      encodeTerrariumPixel (of_int (elev x y)) = Inr (pix x y)
      \<and> (case pix x y of (r, g, b) \<Rightarrow>
          word_of_int (min INT16_MAX (js_round (decodeTerrariumMetres r g b))) = (of_int (elev x y) :: 16 word))"
  proof -
    have "\<forall>x y. \<exists>p. x < TILE_SIZE \<longrightarrow> y < TILE_SIZE \<longrightarrow> encodeTerrariumPixel (of_int (elev x y)) = Inr p
        \<and> (case p of (r, g, b) \<Rightarrow>
          word_of_int (min INT16_MAX (js_round (decodeTerrariumMetres r g b))) = (of_int (elev x y) :: 16 word))"
      using integer_pixel assms(1) by (fastforce simp: TILE_SIZE_def)
    then show ?thesis using that by metis
  qed
  then obtain px where px: "encodePixels (\<lambda>x y. of_int (elev x y)) TILE_SIZE TILE_SIZE = Inr px"
      "length px = TILE_SIZE * BYTES_PER_PIXEL * TILE_SIZE"
      "\<forall>y < TILE_SIZE. \<forall>x < TILE_SIZE. pixelAt px (y * TILE_SIZE + x) = pix x y"
    using encodePixels_pixels [of TILE_SIZE TILE_SIZE "\<lambda>x y. of_int (elev x y)" pix] by auto
  have "length (filterScanlines px (orElse ft 0) TILE_SIZE TILE_SIZE) = 196864"
    unfolding filterScanlines_def Let_def
    by (subst length_concat_uniform) (auto simp: TILE_SIZE_def BYTES_PER_PIXEL_def)
  from decode_built [where inflateSync = inflateSync, OF px(1,2) assms(2) assms(3) [OF this] assms(4)]
  obtain png where png: "buildTerrariumTilePng deflateSync (\<lambda>x y. of_int (elev x y))
           \<lparr>tfWidth = None, tfHeight = None, tfFilterType = ft, tfBitDepth = None,
            tfColourType = None, tfInterlace = None\<rparr> = Inr png"
    "decodeTerrainTile inflateSync png = Inr (map (gridCell px) [0..<TILE_SIZE * TILE_SIZE])"
    by (auto simp: andThen_eq_Inr)
  have "gridCell px i = of_int (elev (i mod 256) (i div 256))" if "i < 65536" for i
  proof -
    have xy: "i mod 256 < TILE_SIZE" "i div 256 < TILE_SIZE" using that by (simp_all add: TILE_SIZE_def)
    moreover have "i div 256 * TILE_SIZE + i mod 256 = i" by (simp add: TILE_SIZE_def)
    ultimately have "pixelAt px i = pix (i mod 256) (i div 256)" using px(3) by metis
    moreover obtain r g b where rgb: "pix (i mod 256) (i div 256) = (r, g, b)" by (metis prod_cases3)
    moreover have "i * 3 + 2 < length px" using that by (simp add: px(2) TILE_SIZE_def BYTES_PER_PIXEL_def)
    ultimately show ?thesis using gridCell_pixel pix xy by fastforce
  qed
  then have "map (gridCell px) [0..<TILE_SIZE * TILE_SIZE]
      = map (\<lambda>i. of_int (elev (i mod 256) (i div 256))) [0..<65536]"
    unfolding TILE_SIZE_def by (intro map_cong) simp_all
  with png show ?thesis by metis
qed

theorem terrain_tile_roundtrip_witness:
  "\<exists>png. buildTerrariumTilePng id (\<lambda>x y. of_int (100 * int x - 7 * int y - 500))
           \<lparr>tfWidth = None, tfHeight = None, tfFilterType = Some 4, tfBitDepth = None,
            tfColourType = None, tfInterlace = None\<rparr> = Inr png
    \<and> decodeTerrainTile (\<lambda>z n. if length z \<le> n then Some z else None) png
      = Inr (map (\<lambda>i. of_int (100 * int (i mod 256) - 7 * int (i div 256) - 500)) [0..<65536])"
  by (rule terrain_tile_roundtrip) (simp_all add: orElse_def)

section \<open>What the decoder accepts\<close>

lemma unfilterByte_returns:
  "(\<exists>out'. unfilterByte raw stride row ft i out = Inr out') \<longleftrightarrow> unat ft \<le> 4"
  unfolding unfilterByte_def filterPrediction_def Let_def by auto

lemma unfilterScanline_returns:
  assumes "stride > 0"
  shows "(\<exists>out'. unfilterScanline raw stride row out = Inr out') \<longleftrightarrow>
    (\<exists>ft. byteAt raw (row * (stride + 1)) = Some ft \<and> unat ft \<le> 4)"
proof (cases "byteAt raw (row * (stride + 1))")
  case None
  then show ?thesis by (simp add: unfilterScanline_def)
next
  case (Some ft)
  then have eq: "unfilterScanline raw stride row out = forRange 0 stride (unfilterByte raw stride row ft) out"
    by (simp add: unfilterScanline_def)
  have "(\<exists>out'. unfilterScanline raw stride row out = Inr out') \<longleftrightarrow>
      (\<forall>i. 0 \<le> i \<and> i < stride \<longrightarrow> unat ft \<le> 4)"
    unfolding eq forRange_returns_iff [OF unfilterByte_returns] ..
  then show ?thesis using assms Some by auto
qed

lemma unfilterScanlines_returns:
  assumes "width > 0" and "length raw = height * (1 + width * BYTES_PER_PIXEL)"
  shows "(\<exists>px. unfilterScanlines raw width height = Inr px) \<longleftrightarrow>
    (\<forall>row < height. unat (raw ! (row * (1 + width * BYTES_PER_PIXEL))) \<le> 4)"
proof -
  let ?s = "width * BYTES_PER_PIXEL"
  have "?s > 0" using assms(1) by (simp add: BYTES_PER_PIXEL_def)
  have "byteAt raw (row * (?s + 1)) = Some (raw ! (row * (1 + ?s)))" if "row < height" for row
    using row_index_less [OF that, of 0 "?s + 1"] assms(2) by (simp add: byteAt_def algebra_simps)
  then show ?thesis
    unfolding unfilterScanlines_def Let_def
      forRange_returns_iff [OF unfilterScanline_returns [OF \<open>?s > 0\<close>]]
    by auto
qed

text \<open>The first thirteen bytes of the only header the decoder takes.\<close>

definition terrainHeader :: "byte list" where
  "terrainHeader = [0, 0, 1, 0, 0, 0, 1, 0, 8, 2, 0, 0, 0]"

lemma uint32_bytes:
  assumes "length bs = 4" and "v < 2 ^ 32"
  shows "readUint32 bs 0 = Inr v \<longleftrightarrow> bs = writeUint32 v"
proof
  assume "bs = writeUint32 v"
  then show "readUint32 bs 0 = Inr v" using readUint32_write [OF assms(2), of "[]"] by simp
next
  assume r: "readUint32 bs 0 = Inr v"
  obtain a b c d where bs: "bs = [a, b, c, d]"
    using assms(1) by (auto simp: length_Suc_conv numeral_eq_Suc)
  let ?w = "push_bit 24 (ucast a) OR push_bit 16 (ucast b) OR push_bit 8 (ucast c) OR ucast d :: 32 word"
  from r have "v = unat ?w" by (simp add: readUint32_def byteAt_def bs numeral_eq_Suc)
  then have w: "of_nat v = ?w" by simp
  show "bs = writeUint32 v"
    unfolding writeUint32_def w bs by (simp only: list.map drop_bit_0 id_apply word32_bytes)
qed

lemma header_exactly:
  assumes "13 \<le> length d"
  shows "readUint32 d 0 = Inr 256 \<and> readUint32 d 4 = Inr 256
      \<and> d ! 8 = 8 \<and> d ! 9 = 2 \<and> d ! 10 = 0 \<and> d ! 11 = 0 \<and> d ! 12 = 0
    \<longleftrightarrow> take 13 d = terrainHeader"
proof -
  obtain a0 a1 a2 a3 b0 b1 b2 b3 c0 c1 c2 c3 c4 rest where
    d: "d = [a0, a1, a2, a3] @ [b0, b1, b2, b3] @ [c0, c1, c2, c3, c4] @ rest"
    using assms by (auto simp: numeral_eq_Suc Suc_le_length_iff)
  have w: "writeUint32 256 = [0, 0, 1, 0]" by code_simp
  have "readUint32 d 0 = readUint32 [a0, a1, a2, a3] 0"
    by (simp add: d readUint32_def byteAt_def numeral_eq_Suc)
  moreover have "readUint32 d 4 = readUint32 [b0, b1, b2, b3] 0"
    by (simp add: d readUint32_def byteAt_def numeral_eq_Suc)
  moreover have "d ! 8 = c0" "d ! 9 = c1" "d ! 10 = c2" "d ! 11 = c3" "d ! 12 = c4"
    "take 13 d = [a0, a1, a2, a3, b0, b1, b2, b3, c0, c1, c2, c3, c4]"
    by (simp_all add: d numeral_eq_Suc)
  ultimately show ?thesis by (simp add: uint32_bytes w terrainHeader_def)
qed

lemma decodeTerrainTile_Inr:
  "decodeTerrainTile inflateSync body = Inr grid \<longleftrightarrow>
    hasPngSignature body
    \<and> (\<exists>chunks header raw px. readChunks body = Inr chunks
        \<and> find (\<lambda>c. pcType c = ''IHDR'') chunks = Some header
        \<and> take 13 (pcData header) = terrainHeader
        \<and> filter (\<lambda>c. pcType c = ''IDAT'') chunks \<noteq> []
        \<and> inflateSync (concat (map pcData (filter (\<lambda>c. pcType c = ''IDAT'') chunks))) 196864 = Some raw
        \<and> length raw = 196864
        \<and> unfilterScanlines raw 256 256 = Inr px
        \<and> grid = map (gridCell px) [0..<65536])"
proof -
  have t: "13 \<le> length d \<and> readUint32 d 0 = Inr 256 \<and> readUint32 d 4 = Inr 256
      \<and> d ! 8 = 8 \<and> d ! 9 = 2 \<and> d ! 10 = 0 \<and> d ! 11 = 0 \<and> d ! 12 = 0
    \<longleftrightarrow> take 13 d = terrainHeader" for d
  proof (cases "13 \<le> length d")
    case True
    then show ?thesis using header_exactly by simp
  next
    case False
    then have "length (take 13 d) \<noteq> length terrainHeader" by (simp add: terrainHeader_def)
    then show ?thesis using False by metis
  qed
  show ?thesis
  proof (cases "readChunks body")
    case (Inl e)
    then show ?thesis by (simp add: decodeTerrainTile_def andThen_eq_Inr)
  next
    case chunks: (Inr chunks)
    show ?thesis
    proof (cases "find (\<lambda>c. pcType c = ''IHDR'') chunks")
      case None
      then show ?thesis by (simp add: decodeTerrainTile_def andThen_eq_Inr chunks)
    next
      case header: (Some header)
      show ?thesis
      proof (cases "take 13 (pcData header) = terrainHeader")
        case True
        with t [of "pcData header"] show ?thesis
          by (simp add: decodeTerrainTile_def andThen_eq_Inr chunks header TILE_SIZE_def Let_def
              BYTES_PER_PIXEL_def not_less) blast
      next
        case False
        have "decodeTerrainTile inflateSync body \<noteq> Inr grid"
        proof
          assume "decodeTerrainTile inflateSync body = Inr grid"
          then have "13 \<le> length (pcData header) \<and> readUint32 (pcData header) 0 = Inr 256
            \<and> readUint32 (pcData header) 4 = Inr 256 \<and> pcData header ! 8 = 8 \<and> pcData header ! 9 = 2
            \<and> pcData header ! 10 = 0 \<and> pcData header ! 11 = 0 \<and> pcData header ! 12 = 0"
            by (simp add: decodeTerrainTile_def andThen_eq_Inr chunks header TILE_SIZE_def Let_def not_less)
          with False t show False by blast
        qed
        with False show ?thesis by (simp add: chunks header)
      qed
    qed
  qed
qed

text \<open>
  the decoder accepts a body exactly when it has the signature, its chunk walk succeeds, its
  first IHDR starts with the thirteen bytes of a 256 by 256, 8-bit truecolour, non-interlaced
  image, there is an IDAT chunk, the joined IDAT data inflates to exactly 196864 bytes, and each
  of the 256 scanlines names a known filter.
\<close>

theorem tile_accepted_exactly:
  "(\<exists>grid. decodeTerrainTile inflateSync body = Inr grid) \<longleftrightarrow>
    hasPngSignature body
    \<and> (\<exists>chunks header raw. readChunks body = Inr chunks
        \<and> find (\<lambda>c. pcType c = ''IHDR'') chunks = Some header
        \<and> take 13 (pcData header) = terrainHeader
        \<and> filter (\<lambda>c. pcType c = ''IDAT'') chunks \<noteq> []
        \<and> inflateSync (concat (map pcData (filter (\<lambda>c. pcType c = ''IDAT'') chunks))) 196864 = Some raw
        \<and> length raw = 196864
        \<and> list_all (\<lambda>row. unat (raw ! (row * 769)) \<le> 4) [0..<256])"
proof -
  have u: "length raw = 196864 \<Longrightarrow> (\<exists>px. unfilterScanlines raw 256 256 = Inr px) \<longleftrightarrow>
      list_all (\<lambda>row. unat (raw ! (row * 769)) \<le> 4) [0..<256]" for raw
    using unfilterScanlines_returns [of 256 raw 256]
    by (auto simp: BYTES_PER_PIXEL_def list_all_iff mult.commute)
  show ?thesis
    unfolding decodeTerrainTile_Inr using u by (intro iffI; elim exE conjE; blast)
qed

text \<open>A height above what 16 bits hold is clamped, and no height wraps around.\<close>

lemma decodeTerrariumMetres_range:
  "-32768 \<le> decodeTerrariumMetres r g b" "decodeTerrariumMetres r g b < 32768"
proof -
  have q: "0 \<le> (of_int (uint x) :: rat)" "(of_int (uint x) :: rat) \<le> 255" for x :: byte
  proof -
    have "0 \<le> uint x" "uint x \<le> 255" using uint_lt2p [of x] by simp_all
    then have "of_int 0 \<le> (of_int (uint x) :: rat)" "(of_int (uint x) :: rat) \<le> of_int 255"
      by (simp_all only: of_int_le_iff)
    then show "0 \<le> (of_int (uint x) :: rat)" "(of_int (uint x) :: rat) \<le> 255" by (simp_all only: of_int_0 of_int_numeral)
  qed
  show "-32768 \<le> decodeTerrariumMetres r g b" "decodeTerrariumMetres r g b < 32768"
    unfolding decodeTerrariumMetres_def TERRARIUM_OFFSET_M_def of_int_add of_int_mult of_int_numeral
    using q [of r] q [of g] q [of b] by linarith+
qed

lemma gridCell_no_wrap:
  "sint (gridCell px i) = min INT16_MAX (js_round (decodeTerrariumMetres
     (byteOr0 px (i * 3)) (byteOr0 px (i * 3 + 1)) (byteOr0 px (i * 3 + 2))))"
proof -
  let ?m = "decodeTerrariumMetres (byteOr0 px (i * 3)) (byteOr0 px (i * 3 + 1)) (byteOr0 px (i * 3 + 2))"
  have "js_round (of_int (-32768)) \<le> js_round ?m"
    by (rule js_round_mono) (use decodeTerrariumMetres_range in simp)
  then have "-32768 \<le> js_round ?m" unfolding js_round_of_int .
  then have "sint (word_of_int (min 32767 (js_round ?m)) :: 16 word) = min 32767 (js_round ?m)"
    by (simp add: sint_sbintrunc' signed_take_bit_int_eq_self)
  then show ?thesis by (simp add: gridCell_def BYTES_PER_PIXEL_def INT16_MAX_def Let_def)
qed

end
