(* ===== verification/Terrain_Tiles.thy ===== *)
theory Terrain_Tiles
  imports Terrain_Decode Lru_Map Upstream_Http_Client
begin

text \<open>
  What stands between the tile decoder and an elevation profile: the key of a tile
  (\<open>elevation/terrain/tile-math.ts\<close>), the cache of decoded tiles
  (\<open>elevation/terrain/tile-cache.ts\<close>), the licence gate and the parsing of a response
  (\<open>elevation/terrain/tile.client.ts\<close>) and the bilinear sampling of a grid
  (\<open>elevation/terrain/bilinear.ts\<close>). Pixel coordinates are exact rationals.
\<close>

section \<open>Tile keys\<close>

definition TERRAIN_SAMPLE_ZOOM :: nat where "TERRAIN_SAMPLE_ZOOM = 12"

text \<open>\<open>String(n)\<close> of a non-negative integer.\<close>

fun natDigits :: "nat \<Rightarrow> string" where
  "natDigits n = (if n < 10 then [char_of (48 + n)]
                  else natDigits (n div 10) @ [char_of (48 + n mod 10)])"

declare natDigits.simps [simp del]

definition tileKey :: "nat \<Rightarrow> nat \<Rightarrow> nat \<Rightarrow> string" where
  "tileKey zoom tileX tileY = natDigits zoom @ ''/'' @ natDigits tileX @ ''/'' @ natDigits tileY"

fun digitsNat :: "string \<Rightarrow> nat" where
  "digitsNat s = foldl (\<lambda>a c. a * 10 + (of_char c - 48)) 0 s"

lemma of_char_digit: "(d :: nat) < 10 \<Longrightarrow> of_char (char_of (48 + d) :: char) = 48 + d"
  by simp

lemma digitsNat_natDigits: "digitsNat (natDigits n) = n"
proof (induction n rule: natDigits.induct)
  case (1 n)
  then show ?case
    by (subst natDigits.simps) (auto simp: of_char_digit)
qed

lemma natDigits_inj: "natDigits m = natDigits n \<Longrightarrow> m = n"
  by (metis digitsNat_natDigits)

lemma natDigits_no_slash: "CHR ''/'' \<notin> set (natDigits n)"
proof (induction n rule: natDigits.induct)
  case (1 n)
  have "CHR ''/'' \<noteq> char_of (48 + d)" if "d < 10" for d :: nat
  proof
    assume "CHR ''/'' = char_of (48 + d)"
    then have "of_char CHR ''/'' = (of_char (char_of (48 + d) :: char) :: nat)" by simp
    then show False using that by (simp add: of_char_digit)
  qed
  with 1 show ?case by (subst natDigits.simps) auto
qed

lemma append_sep_inj:
  "x \<notin> set as \<Longrightarrow> x \<notin> set bs \<Longrightarrow> as @ x # cs = bs @ x # ds \<Longrightarrow> as = bs \<and> cs = ds"
proof (induction as arbitrary: bs)
  case Nil
  then show ?case by (cases bs) auto
next
  case (Cons a as)
  then show ?case by (cases bs) auto
qed

lemma tileKey_inj: "tileKey z x y = tileKey z' x' y' \<longleftrightarrow> z = z' \<and> x = x' \<and> y = y'"
proof
  assume "tileKey z x y = tileKey z' x' y'"
  then have "natDigits z = natDigits z' \<and>
      natDigits x @ ''/'' @ natDigits y = natDigits x' @ ''/'' @ natDigits y'"
    unfolding tileKey_def using append_sep_inj natDigits_no_slash by (metis append_Cons append_Nil)
  then have "natDigits z = natDigits z' \<and> natDigits x = natDigits x' \<and> natDigits y = natDigits y'"
    using append_sep_inj natDigits_no_slash by (metis append_Cons append_Nil)
  then show "z = z' \<and> x = x' \<and> y = y'" using natDigits_inj by blast
qed simp

section \<open>The cache of decoded tiles\<close>

datatype tileCacheError = MaxTilesNotPositive rat | WrongGridLength nat

record tileCache =
  tcEntries :: "(string, int16Array) jsmap"
  tcHits :: nat
  tcMisses :: nat
  tcEvictions :: nat
  tcMaxTiles :: nat

record tileCacheStats =
  statSize :: nat
  statHits :: nat
  statMisses :: nat
  statEvictions :: nat

definition newTileCache :: "rat \<Rightarrow> tileCacheError + tileCache" where
  "newTileCache maxTiles =
     (if maxTiles \<noteq> of_int \<lfloor>maxTiles\<rfloor> \<or> maxTiles < 1 then Inl (MaxTilesNotPositive maxTiles)
      else Inr \<lparr>tcEntries = [], tcHits = 0, tcMisses = 0, tcEvictions = 0,
                tcMaxTiles = nat \<lfloor>maxTiles\<rfloor>\<rparr>)"

definition tileCacheGet :: "string \<Rightarrow> tileCache \<Rightarrow> int16Array option \<times> tileCache" where
  "tileCacheGet key c =
     (case js_get (tcEntries c) key of
        None \<Rightarrow> (None, c\<lparr>tcMisses := tcMisses c + 1\<rparr>)
      | Some held \<Rightarrow>
          (Some held, c\<lparr>tcEntries := js_set key held (js_delete key (tcEntries c)),
                        tcHits := tcHits c + 1\<rparr>))"

definition tileCacheSet :: "string \<Rightarrow> int16Array \<Rightarrow> tileCache \<Rightarrow> tileCacheError + tileCache" where
  "tileCacheSet key grid c =
     (if length grid \<noteq> TILE_SIZE * TILE_SIZE then Inl (WrongGridLength (length grid))
      else (let (n, m) = evictOldest (tcMaxTiles c) (js_set key grid (js_delete key (tcEntries c)))
            in Inr (c\<lparr>tcEntries := m, tcEvictions := tcEvictions c + n\<rparr>)))"

definition tileCacheStats :: "tileCache \<Rightarrow> tileCacheStats" where
  "tileCacheStats c =
     \<lparr>statSize = length (tcEntries c), statHits = tcHits c, statMisses = tcMisses c,
      statEvictions = tcEvictions c\<rparr>"

definition BYTES_PER_DECODED_TILE :: nat where
  "BYTES_PER_DECODED_TILE = TILE_SIZE * TILE_SIZE * 2"

text \<open>A call on the cache; \<open>set\<close> of a wrong grid throws and changes nothing.\<close>

datatype tileCall = TileGet string | TileSet string int16Array

fun tileCallKey :: "tileCall \<Rightarrow> string" where
  "tileCallKey (TileGet k) = k"
| "tileCallKey (TileSet k g) = k"

fun tileStep :: "tileCall \<Rightarrow> tileCache \<Rightarrow> tileCache" where
  "tileStep (TileGet k) c = snd (tileCacheGet k c)"
| "tileStep (TileSet k g) c = (case tileCacheSet k g c of Inl e \<Rightarrow> c | Inr c' \<Rightarrow> c')"

definition tileCache_ok :: "nat \<Rightarrow> tileCache \<Rightarrow> bool" where
  "tileCache_ok n c \<longleftrightarrow> js_wf (tcEntries c) \<and> length (tcEntries c) \<le> n \<and> tcMaxTiles c = n
     \<and> (\<forall>g \<in> snd ` set (tcEntries c). length g = TILE_SIZE * TILE_SIZE)"

lemma js_set_delete: "js_set k v (js_delete k m) = touch k v m"
  by (simp add: touch_def)

lemma snd_set_js_delete: "snd ` set (js_delete k m) \<subseteq> snd ` set m"
  by (auto simp: js_delete_filter)

lemma touch_values: "snd ` set (touch k v m) \<subseteq> insert v (snd ` set m)"
  using snd_set_js_delete [of k m] by (auto simp: touch_append)

lemma keepLast_subset: "set (keepLast n xs) \<subseteq> set xs"
  by (auto simp: keepLast_def dest: in_set_dropD)

lemma js_get_Some_mem: "js_get m k = Some v \<Longrightarrow> v \<in> snd ` set m"
  unfolding js_get_def by (force dest: map_of_SomeD)

lemma tileCacheGet_entries:
  assumes "tileCache_ok n c"
  shows "tileCache_ok n (snd (tileCacheGet k c))
    \<and> (tcEntries (snd (tileCacheGet k c)) = tcEntries c
       \<or> (\<exists>v. tcEntries (snd (tileCacheGet k c)) = keepLast n (touch k v (tcEntries c))))"
proof (cases "js_get (tcEntries c) k")
  case None
  with assms show ?thesis by (simp add: tileCacheGet_def tileCache_ok_def)
next
  case (Some g)
  have wf: "js_wf (tcEntries c)" and len: "length (tcEntries c) \<le> n"
    using assms by (simp_all add: tileCache_ok_def)
  have "tcEntries c \<noteq> []" using Some by auto
  then have small: "length (touch k g (tcEntries c)) \<le> n"
    using len length_js_delete_mem [OF wf Some] by (simp add: touch_append)
  have vals: "\<forall>h \<in> snd ` set (touch k g (tcEntries c)). length h = TILE_SIZE * TILE_SIZE"
    using touch_values [of k g "tcEntries c"] js_get_Some_mem [OF Some] assms
    unfolding tileCache_ok_def by blast
  have "touch k g (tcEntries c) = keepLast n (touch k g (tcEntries c))" using small by simp
  then have "\<exists>v. touch k g (tcEntries c) = keepLast n (touch k v (tcEntries c))" by blast
  with vals show ?thesis using small wf assms
    by (simp add: tileCacheGet_def Some js_set_delete tileCache_ok_def)
qed

lemma tileCacheSet_entries:
  assumes "tileCache_ok n c" and "tileCacheSet k g c = Inr c'"
  shows "tileCache_ok n c' \<and> tcEntries c' = keepLast n (touch k g (tcEntries c))"
proof -
  have wf: "js_wf (touch k g (tcEntries c))" and n: "tcMaxTiles c = n"
    using assms(1) by (simp_all add: tileCache_ok_def)
  from assms(2) have g: "length g = TILE_SIZE * TILE_SIZE"
    and c': "tcEntries c' = keepLast n (touch k g (tcEntries c))" "tcMaxTiles c' = n"
    by (auto simp: tileCacheSet_def js_set_delete evictOldest_eq [OF wf] n split: if_splits)
  have "\<forall>h \<in> snd ` set (tcEntries c'). length h = TILE_SIZE * TILE_SIZE"
    using keepLast_subset [of n "touch k g (tcEntries c)"] touch_values [of k g "tcEntries c"] g assms(1)
    unfolding c' tileCache_ok_def by blast
  with c' wf show ?thesis by (simp add: tileCache_ok_def js_wf_keepLast)
qed

interpretation tileLru: lru tileStep tileCallKey tcEntries n "tileCache_ok n" for n
proof (unfold_locales, goal_cases)
  case (1 s)
  then show ?case by (simp add: tileCache_ok_def)
next
  case (2 s op)
  then show ?case
    by (cases op) (auto dest: tileCacheSet_entries tileCacheGet_entries split: sum.split)
next
  case (3 s op)
  then show ?case
    by (cases op) (auto dest: tileCacheSet_entries tileCacheGet_entries split: sum.split)
qed

lemma newTileCache_ok:
  "newTileCache m = Inr c \<Longrightarrow> tileCache_ok (tcMaxTiles c) c \<and> tcMaxTiles c \<ge> 1 \<and> tcEntries c = []"
  by (auto simp: newTileCache_def tileCache_ok_def split: if_splits)

section \<open>The licence gate\<close>

definition ATTRIBUTION_COVERED_SOURCE_FAMILIES :: "string list" where
  "ATTRIBUTION_COVERED_SOURCE_FAMILIES = [''3dep'', ''eudem'', ''gmted'', ''ned'', ''srtm'']"

definition SEA_DEPTH_SOURCE_FAMILIES :: "string list" where
  "SEA_DEPTH_SOURCE_FAMILIES = [''etopo1'']"

text \<open>
  \<open>headerValue.split(/[\s,;|]+/)\<close> followed by dropping the empty entries: the maximal runs
  of characters that are no separator.
\<close>

definition familySeparator :: "char \<Rightarrow> bool" where
  "familySeparator c \<longleftrightarrow> js_whitespace c \<or> c \<in> {CHR '','', CHR '';'', CHR ''|''}"

fun splitEntries :: "string \<Rightarrow> string \<Rightarrow> string list" where
  "splitEntries entry [] = (if entry = [] then [] else [rev entry])"
| "splitEntries entry (c # cs) =
     (if familySeparator c
      then (if entry = [] then [] else [rev entry]) @ splitEntries [] cs
      else splitEntries (c # entry) cs)"

text \<open>\<open>entry.split('/')[0]\<close>, the whole entry when that is empty, in lower case.\<close>

definition leadingFamily :: "string \<Rightarrow> string" where
  "leadingFamily entry =
     (let leading = takeWhile (\<lambda>c. c \<noteq> CHR ''/'') entry
      in js_lower (if leading = [] then entry else leading))"

text \<open>\<open>[...new Set(families)]\<close>: each value at its first occurrence.\<close>

fun uniqueFirst :: "'a list \<Rightarrow> 'a list \<Rightarrow> 'a list" where
  "uniqueFirst seen [] = []"
| "uniqueFirst seen (x # xs) =
     (if x \<in> set seen then uniqueFirst seen xs else x # uniqueFirst (x # seen) xs)"

definition parseImagerySourceFamilies :: "string \<Rightarrow> string list" where
  "parseImagerySourceFamilies headerValue =
     uniqueFirst [] (map leadingFamily (splitEntries [] headerValue))"

datatype imageryRefusal =
    NamedNoFamily
  | IncludesSeaDepth "string list"
  | IncludesUncredited "string list"

definition refuseImagerySources :: "string list \<Rightarrow> imageryRefusal option" where
  "refuseImagerySources families =
     (if length families = 0 then Some NamedNoFamily
      else (let seaDepth = filter (\<lambda>f. f \<in> set SEA_DEPTH_SOURCE_FAMILIES) families
            in if length seaDepth > 0 then Some (IncludesSeaDepth seaDepth)
               else (let uncredited =
                       filter (\<lambda>f. f \<notin> set ATTRIBUTION_COVERED_SOURCE_FAMILIES) families
                     in if length uncredited > 0 then Some (IncludesUncredited uncredited)
                        else None)))"

text \<open>
  The state the client keeps beside its in-flight map: whether it has warned. The counters are
  the shared metrics; \<open>Inl\<close> is the \<open>UpstreamSchemaError\<close> of a refused tile.
\<close>

definition ELEVATION_PROVIDER_TERRAIN_TILES :: string where
  "ELEVATION_PROVIDER_TERRAIN_TILES = ''terrain-tiles''"

definition checkImagerySources ::
    "string option \<Rightarrow> bool \<times> metrics \<Rightarrow> (imageryRefusal + unit) \<times> bool \<times> metrics" where
  "checkImagerySources headerValue st =
     (let (warned, m) = st
      in if (case headerValue of None \<Rightarrow> True | Some h \<Rightarrow> js_trim h = [])
         then (let m1 = increment M_elevation_imagery_sources_absent ELEVATION_PROVIDER_TERRAIN_TILES m
               in if \<not> warned
                  then (Inr (), True, event L_warn ''terrain tile carried no imagery-sources header'' m1)
                  else (Inr (), warned, m1))
         else (case refuseImagerySources
                      (parseImagerySourceFamilies (case headerValue of None \<Rightarrow> [] | Some h \<Rightarrow> h)) of
                 None \<Rightarrow> (Inr (), warned, m)
               | Some r \<Rightarrow>
                   (Inl r, warned, increment M_elevation_imagery_sources_refused
                                     ELEVATION_PROVIDER_TERRAIN_TILES m)))"

text \<open>The \<open>parse\<close> the client hands to the shared HTTP client.\<close>

definition parseTile ::
    "(byte list \<Rightarrow> nat \<Rightarrow> byte list option) \<Rightarrow> string option \<Rightarrow> byte list \<Rightarrow> bool \<times> metrics
     \<Rightarrow> int16Array upstreamParseResult \<times> bool \<times> metrics" where
  "parseTile inflateSync headerValue body st =
     (case checkImagerySources headerValue st of
        (Inl refusal, st') \<Rightarrow> (Parse_schema_error ''terrain tile refused'', st')
      | (Inr u, st') \<Rightarrow>
          (case decodeTerrainTile inflateSync body of
             Inr grid \<Rightarrow> (Parse_ok grid None, st')
           | Inl e \<Rightarrow> (Parse_schema_error ''terrain tile did not decode'', st')))"

lemma refuseImagerySources_None:
  "refuseImagerySources families = None \<longleftrightarrow>
    families \<noteq> [] \<and> set families \<subseteq> set ATTRIBUTION_COVERED_SOURCE_FAMILIES"
proof -
  have disj: "f \<in> set ATTRIBUTION_COVERED_SOURCE_FAMILIES \<Longrightarrow> f \<notin> set SEA_DEPTH_SOURCE_FAMILIES" for f
    by (auto simp: ATTRIBUTION_COVERED_SOURCE_FAMILIES_def SEA_DEPTH_SOURCE_FAMILIES_def)
  show ?thesis
    unfolding refuseImagerySources_def Let_def
    using disj by (auto simp: filter_empty_conv)
qed

lemma set_uniqueFirst: "set (uniqueFirst seen xs) = set xs - set seen"
  by (induction seen xs rule: uniqueFirst.induct) auto

text \<open>
  a tile is parsed into a grid only when its container decodes and either it names no
  imagery source at all (no header or a blank one) or every source family it names, and at
  least one, is credited by the published attribution.
\<close>

theorem parsed_tiles_are_credited:
  "(\<exists>grid st'. parseTile inflateSync header body st = (Parse_ok grid None, st')) \<longleftrightarrow>
    (\<exists>grid. decodeTerrainTile inflateSync body = Inr grid)
    \<and> (case header of
         None \<Rightarrow> True
       | Some h \<Rightarrow> js_trim h = []
           \<or> (splitEntries [] h \<noteq> []
              \<and> list_all (\<lambda>e. leadingFamily e \<in> set ATTRIBUTION_COVERED_SOURCE_FAMILIES)
                  (splitEntries [] h)))"
proof -
  have fam: "refuseImagerySources (parseImagerySourceFamilies h) = None \<longleftrightarrow>
      splitEntries [] h \<noteq> []
      \<and> list_all (\<lambda>e. leadingFamily e \<in> set ATTRIBUTION_COVERED_SOURCE_FAMILIES) (splitEntries [] h)"
    for h
  proof -
    have "set (parseImagerySourceFamilies h) = leadingFamily ` set (splitEntries [] h)"
      by (simp add: parseImagerySourceFamilies_def set_uniqueFirst)
    then show ?thesis
      unfolding refuseImagerySources_None list_all_iff by (metis image_subset_iff image_is_empty set_empty2)
  qed
  have chk: "(\<exists>u st'. checkImagerySources header st = (Inr u, st')) \<longleftrightarrow>
      (case header of None \<Rightarrow> True | Some h \<Rightarrow> js_trim h = []
        \<or> refuseImagerySources (parseImagerySourceFamilies h) = None)"
    by (cases st; cases header) (auto simp: checkImagerySources_def Let_def split: option.split)
  have "(\<exists>grid st'. parseTile inflateSync header body st = (Parse_ok grid None, st')) \<longleftrightarrow>
      (\<exists>grid. decodeTerrainTile inflateSync body = Inr grid)
      \<and> (\<exists>u st'. checkImagerySources header st = (Inr u, st'))"
    by (cases "checkImagerySources header st"; cases "fst (checkImagerySources header st)";
        cases "decodeTerrainTile inflateSync body") (simp_all add: parseTile_def)
  then show ?thesis unfolding chk fam .
qed

section \<open>Bilinear sampling\<close>

datatype bilinearError = GridHolds nat nat

definition clampIndex :: "nat \<Rightarrow> int \<Rightarrow> nat" where
  "clampIndex sz v = nat (min (max v 0) (int sz - 1))"

definition cellAt :: "int16Array \<Rightarrow> nat \<Rightarrow> rat" where
  "cellAt grid i = (if i < length grid then of_int (sint (grid ! i)) else 0)"

definition lerp :: "rat \<Rightarrow> rat \<Rightarrow> rat \<Rightarrow> rat" where
  "lerp a b t = a + (b - a) * t"

definition bilinearSample :: "int16Array \<Rightarrow> rat \<Rightarrow> rat \<Rightarrow> nat \<Rightarrow> bilinearError + rat" where
  "bilinearSample grid pixelX pixelY sz =
     (if length grid \<noteq> sz * sz then Inl (GridHolds (length grid) (sz * sz))
      else
       (let x = pixelX - 1 / 2; y = pixelY - 1 / 2;
            x0 = \<lfloor>x\<rfloor>; y0 = \<lfloor>y\<rfloor>;
            fractionX = x - of_int x0; fractionY = y - of_int y0;
            left = clampIndex sz x0; right = clampIndex sz (x0 + 1);
            top = clampIndex sz y0; bottom = clampIndex sz (y0 + 1);
            topLeft = cellAt grid (top * sz + left); topRight = cellAt grid (top * sz + right);
            bottomLeft = cellAt grid (bottom * sz + left);
            bottomRight = cellAt grid (bottom * sz + right);
            topValue = lerp topLeft topRight fractionX;
            bottomValue = lerp bottomLeft bottomRight fractionX
        in Inr (lerp topValue bottomValue fractionY)))"

lemma lerp_ge: "lo \<le> a \<Longrightarrow> lo \<le> b \<Longrightarrow> 0 \<le> t \<Longrightarrow> t \<le> 1 \<Longrightarrow> lo \<le> lerp a b t"
  and lerp_le: "a \<le> hi \<Longrightarrow> b \<le> hi \<Longrightarrow> 0 \<le> t \<Longrightarrow> t \<le> 1 \<Longrightarrow> lerp a b t \<le> hi"
proof -
  have e: "lerp a b t = (1 - t) * a + t * b" by (simp add: lerp_def algebra_simps)
  assume t: "0 \<le> t" "t \<le> 1"
  show "lo \<le> a \<Longrightarrow> lo \<le> b \<Longrightarrow> lo \<le> lerp a b t"
    using mult_left_mono [of lo a "1 - t"] mult_left_mono [of lo b t] t
    unfolding e by (simp add: algebra_simps)
  show "a \<le> hi \<Longrightarrow> b \<le> hi \<Longrightarrow> lerp a b t \<le> hi"
    using mult_left_mono [of a hi "1 - t"] mult_left_mono [of b hi t] t
    unfolding e by (simp add: algebra_simps)
qed

lemma clampIndex_less: "sz > 0 \<Longrightarrow> clampIndex sz v < sz"
  by (auto simp: clampIndex_def min_def max_def)

lemma clampIndex_in: "i < sz \<Longrightarrow> clampIndex sz (int i) = i"
  by (simp add: clampIndex_def)

lemma fraction_unit: "0 \<le> (x :: rat) - of_int \<lfloor>x\<rfloor>" "x - of_int \<lfloor>x\<rfloor> \<le> 1"
proof -
  show "0 \<le> x - of_int \<lfloor>x\<rfloor>" using of_int_floor_le [of x] by simp
  have "x < of_int \<lfloor>x\<rfloor> + 1" by (rule floor_correct [THEN conjunct2, simplified])
  then show "x - of_int \<lfloor>x\<rfloor> \<le> 1" by simp
qed

text \<open>
  a sample lies between the lowest and the highest cell of its grid whatever the
  coordinates are, outside the grid too, and at the centre of a cell it is that cell.
\<close>

theorem sample_within_grid:
  assumes "length grid = sz * sz" and "sz > 0" and "list_all (\<lambda>c. lo \<le> sint c \<and> sint c \<le> hi) grid"
  shows "(\<exists>v. bilinearSample grid px py sz = Inr v \<and> of_int lo \<le> v \<and> v \<le> of_int hi)
    \<and> (i < sz \<and> j < sz \<longrightarrow>
        bilinearSample grid (of_nat i + 1 / 2) (of_nat j + 1 / 2) sz
        = Inr (of_int (sint (grid ! (j * sz + i)))))"
proof (intro conjI impI)
  have cell: "of_int lo \<le> cellAt grid (r * sz + c) \<and> cellAt grid (r * sz + c) \<le> of_int hi"
    if "r < sz" "c < sz" for r c
  proof -
    have k: "r * sz + c < length grid" using row_index_less [OF that] assms(1) by simp
    then have "lo \<le> sint (grid ! (r * sz + c)) \<and> sint (grid ! (r * sz + c)) \<le> hi"
      using assms(3) by (simp add: list_all_length)
    then show ?thesis unfolding cellAt_def using k by (simp only: if_True of_int_le_iff)
  qed
  note less = clampIndex_less [OF assms(2)]
  show "\<exists>v. bilinearSample grid px py sz = Inr v \<and> of_int lo \<le> v \<and> v \<le> of_int hi"
    unfolding bilinearSample_def Let_def using assms(1)
    by (simp, intro conjI lerp_ge lerp_le cell [THEN conjunct1] cell [THEN conjunct2] less fraction_unit)
  assume ij: "i < sz \<and> j < sz"
  have "\<lfloor>of_nat i + 1 / 2 - 1 / 2 :: rat\<rfloor> = int i" for i by simp
  then show "bilinearSample grid (of_nat i + 1 / 2) (of_nat j + 1 / 2) sz
      = Inr (of_int (sint (grid ! (j * sz + i))))"
    unfolding bilinearSample_def Let_def using assms(1) ij row_index_less [of j sz i sz]
    by (simp add: clampIndex_in lerp_def cellAt_def)
qed

theorem sample_within_grid_witness:
  "(\<exists>v. bilinearSample [1, 2, 3, 6] (4 / 3) (- 7) 2 = Inr v \<and> of_int 1 \<le> v \<and> v \<le> of_int 6)
    \<and> bilinearSample [1, 2, 3, 6] (of_nat 1 + 1 / 2) (of_nat 0 + 1 / 2) 2
      = Inr (of_int (sint ([1, 2, 3, 6] ! (0 * 2 + 1) :: 16 word)))"
  using sample_within_grid [of "[1, 2, 3, 6]" 2 1 6 "4 / 3" "- 7" 1 0] by simp

section \<open>What a run of the tile cache keeps\<close>

fun isTileGet :: "tileCall \<Rightarrow> bool" where
  "isTileGet (TileGet k) = True"
| "isTileGet (TileSet k g) = False"

lemma tileStep_counts:
  "tcHits (tileStep op c) + tcMisses (tileStep op c)
    = tcHits c + tcMisses c + (if isTileGet op then 1 else 0)"
  by (cases op)
    (auto simp: tileCacheGet_def tileCacheSet_def Let_def split: option.split sum.split prod.split if_splits)

lemma fold_tileStep_counts:
  "tcHits (fold tileStep ops c) + tcMisses (fold tileStep ops c)
    = tcHits c + tcMisses c + length (filter isTileGet ops)"
  by (induction ops arbitrary: c) (simp_all add: tileStep_counts)

text \<open>
  from a cache the constructor accepted, any sequence of reads and writes leaves at most
  \<open>maxTiles\<close> grids, each of exactly 256 by 256 cells (so never more than \<open>maxTiles\<close> times
  131072 bytes), counts every read once, and keeps a grid that was just read or written until
  as many other tiles as there is room for have been used.
\<close>

theorem tile_cache_bounded:
  assumes "newTileCache m = Inr c0"
  shows "statSize (tileCacheStats (fold tileStep ops c0)) * BYTES_PER_DECODED_TILE
           \<le> tcMaxTiles c0 * 131072
    \<and> list_all (\<lambda>e. length (snd e) = 65536) (tcEntries (fold tileStep ops c0))
    \<and> statHits (tileCacheStats (fold tileStep ops c0)) + statMisses (tileCacheStats (fold tileStep ops c0))
      = length (filter isTileGet ops)
    \<and> (tcEntries (fold tileStep ops c0) = pre @ [(k, g)]
       \<and> list_all (\<lambda>op. tileCallKey op \<noteq> k) later
       \<and> card (set (map tileCallKey later)) < tcMaxTiles c0
       \<longrightarrow> js_get (tcEntries (fold tileStep (ops @ later) c0)) k = Some g)"
proof -
  let ?c = "fold tileStep ops c0"
  have ok0: "tileCache_ok (tcMaxTiles c0) c0" using newTileCache_ok [OF assms] by blast
  then have ok: "tileCache_ok (tcMaxTiles c0) ?c" by (rule tileLru.run_ok)
  have "tcHits c0 = 0" "tcMisses c0 = 0" using assms by (auto simp: newTileCache_def split: if_splits)
  then have counts: "tcHits ?c + tcMisses ?c = length (filter isTileGet ops)"
    by (simp add: fold_tileStep_counts)
  have "length (tcEntries ?c) * 131072 \<le> tcMaxTiles c0 * 131072"
    using ok unfolding tileCache_ok_def by (intro mult_right_mono) simp_all
  then show ?thesis
    using ok counts tileLru.recent_survives [OF ok, of pre k g later]
    by (auto simp: tileCacheStats_def BYTES_PER_DECODED_TILE_def TILE_SIZE_def tileCache_ok_def
        list_all_iff)
qed

theorem tile_cache_bounded_witness:
  "\<exists>c0. newTileCache 2 = Inr c0 \<and> tcMaxTiles c0 = 2
    \<and> js_get (tcEntries (fold tileStep [TileSet ''a'' (replicate 65536 0), TileGet ''b''] c0)) ''a''
      = Some (replicate 65536 0)"
proof -
  define g :: int16Array where "g = replicate 65536 0"
  have g: "length g = 65536" by (simp add: g_def)
  obtain c0 where c0: "newTileCache 2 = Inr c0" "tcMaxTiles c0 = 2" "tcEntries c0 = []"
    by (auto simp: newTileCache_def)
  have "tcEntries (fold tileStep [TileSet ''a'' g] c0) = [] @ [(''a'', g)]"
    using c0 g by (simp add: tileCacheSet_def TILE_SIZE_def js_set_def js_delete_def evictOldest.simps)
  with tile_cache_bounded [OF c0(1), of "[TileSet ''a'' g]" "[]" "''a''" g "[TileGet ''b'']"] c0
  have "js_get (tcEntries (fold tileStep [TileSet ''a'' g, TileGet ''b''] c0)) ''a'' = Some g" by simp
  with c0 show ?thesis unfolding g_def by blast
qed

end
