(* ===== verification/Tile_Worker_Pool.thy ===== *)
theory Tile_Worker_Pool
  imports Terrain_Tiles
begin

text \<open>
  The tile fetching of \<open>elevation/elevation-profile.service.ts\<close> (\<open>resolveTiles\<close>): a bounded
  number of workers share one cursor over the missing tiles. What the event loop decides (which
  worker goes on next, when, and how each fetch ends) is a list of events; a worker is an element
  of a list with what it is doing. An infinite schedule is a function of the step number.
\<close>

section \<open>State\<close>

record missingTile =
  mtKey :: string
  mtX :: nat
  mtY :: nat

text \<open>A worker returns when the list is exhausted or the deadline has passed, or it rejects.\<close>

datatype workerEnd = ListExhausted | DeadlinePassed | Rejected

datatype workerState = Ready | Fetching nat | Returned workerEnd

record tilePool =
  poolCursor :: nat
  poolAttempted :: nat
  poolNoData :: nat
  poolResolved :: "(string, int16Array) jsmap"
  poolCache :: tileCache
  poolWorkers :: "workerState list"
  poolCalls :: "nat list"

text \<open>
  \<open>WorkerTake w now\<close>: worker \<open>w\<close> goes round its loop at time \<open>now\<close>; \<open>WorkerAnswer w out\<close>: its
  fetch settles with an outcome; \<open>WorkerThrow w\<close>: its fetch rejects.
\<close>

datatype poolEvent =
    WorkerTake nat ms
  | WorkerAnswer nat "int16Array upstreamOutcome"
  | WorkerThrow nat

section \<open>Steps\<close>

definition takeJob :: "missingTile list \<Rightarrow> operationDeadline \<Rightarrow> nat \<Rightarrow> ms \<Rightarrow> tilePool \<Rightarrow> tilePool" where
  "takeJob missing dl w now s =
     (let index = poolCursor s;
          s1 = s\<lparr>poolCursor := index + 1\<rparr>
      in if index \<ge> length missing
         then s1\<lparr>poolWorkers := (poolWorkers s1)[w := Returned ListExhausted]\<rparr>
         else if hasExpired dl now
         then s1\<lparr>poolWorkers := (poolWorkers s1)[w := Returned DeadlinePassed]\<rparr>
         else s1\<lparr>poolWorkers := (poolWorkers s1)[w := Fetching index],
                 poolCalls := poolCalls s1 @ [index]\<rparr>)"

definition answerJob ::
    "missingTile list \<Rightarrow> nat \<Rightarrow> nat \<Rightarrow> int16Array upstreamOutcome \<Rightarrow> tilePool \<Rightarrow> tilePool" where
  "answerJob missing w index out s =
     (let s1 = s\<lparr>poolAttempted := poolAttempted s + 1, poolWorkers := (poolWorkers s)[w := Ready]\<rparr>
      in case out of
           Out_ok grid t \<Rightarrow>
             (case tileCacheSet (mtKey (missing ! index)) grid (poolCache s1) of
                Inl e \<Rightarrow> s1\<lparr>poolWorkers := (poolWorkers s)[w := Returned Rejected]\<rparr>
              | Inr c \<Rightarrow>
                  s1\<lparr>poolCache := c,
                     poolResolved := js_set (mtKey (missing ! index)) grid (poolResolved s1)\<rparr>)
         | Out_no_data r \<Rightarrow> s1\<lparr>poolNoData := poolNoData s1 + 1\<rparr>
         | _ \<Rightarrow> s1)"

definition workerAt :: "tilePool \<Rightarrow> nat \<Rightarrow> workerState option" where
  "workerAt s w = (if w < length (poolWorkers s) then Some (poolWorkers s ! w) else None)"

fun poolStep :: "missingTile list \<Rightarrow> operationDeadline \<Rightarrow> poolEvent \<Rightarrow> tilePool \<Rightarrow> tilePool" where
  "poolStep missing dl (WorkerTake w now) s =
     (if workerAt s w = Some Ready then takeJob missing dl w now s else s)"
| "poolStep missing dl (WorkerAnswer w out) s =
     (case workerAt s w of Some (Fetching index) \<Rightarrow> answerJob missing w index out s | _ \<Rightarrow> s)"
| "poolStep missing dl (WorkerThrow w) s =
     (case workerAt s w of
        Some (Fetching index) \<Rightarrow> s\<lparr>poolWorkers := (poolWorkers s)[w := Returned Rejected]\<rparr>
      | _ \<Rightarrow> s)"

definition newPool ::
    "nat \<Rightarrow> missingTile list \<Rightarrow> (string, int16Array) jsmap \<Rightarrow> tileCache \<Rightarrow> tilePool" where
  "newPool concurrency missing resolved cache =
     \<lparr>poolCursor = 0, poolAttempted = 0, poolNoData = 0, poolResolved = resolved, poolCache = cache,
      poolWorkers = replicate (min concurrency (length missing)) Ready, poolCalls = []\<rparr>"

definition poolFinished :: "tilePool \<Rightarrow> bool" where
  "poolFinished s \<longleftrightarrow>
     list_all (\<lambda>w. case w of Returned e \<Rightarrow> True | _ \<Rightarrow> False) (poolWorkers s)"

definition poolRejected :: "tilePool \<Rightarrow> bool" where
  "poolRejected s \<longleftrightarrow> Returned Rejected \<in> set (poolWorkers s)"

definition poolRun ::
    "missingTile list \<Rightarrow> operationDeadline \<Rightarrow> poolEvent list \<Rightarrow> tilePool \<Rightarrow> tilePool" where
  "poolRun missing dl events s = fold (poolStep missing dl) events s"

section \<open>What every schedule keeps\<close>

definition isFetching :: "workerState \<Rightarrow> bool" where
  "isFetching w \<longleftrightarrow> (case w of Fetching i \<Rightarrow> True | _ \<Rightarrow> False)"

definition fetching :: "tilePool \<Rightarrow> nat" where
  "fetching s = length (filter isFetching (poolWorkers s))"

lemma length_filter_update:
  "i < length xs \<Longrightarrow> length (filter P (xs[i := y])) + (if P (xs ! i) then 1 else 0)
    = length (filter P xs) + (if P y then 1 else 0)"
proof (induction xs arbitrary: i)
  case Nil
  then show ?case by simp
next
  case (Cons x xs)
  then show ?case by (cases i) (auto split: if_splits)
qed

lemma isFetching_simps [simp]: "isFetching (Fetching i)" "\<not> isFetching Ready" "\<not> isFetching (Returned e)"
  by (simp_all add: isFetching_def)

lemma workerAt_Some: "workerAt s w = Some x \<longleftrightarrow> w < length (poolWorkers s) \<and> poolWorkers s ! w = x"
  by (simp add: workerAt_def)

text \<open>What a step can do, whoever takes it.\<close>

lemma poolStep_cases [case_names same exhausted passed start answer reject]:
  assumes "\<And>s'. s' = s \<Longrightarrow> P s'"
    and "\<And>w. workerAt s w = Some Ready \<Longrightarrow> length missing \<le> poolCursor s \<Longrightarrow>
      P (s\<lparr>poolCursor := poolCursor s + 1, poolWorkers := (poolWorkers s)[w := Returned ListExhausted]\<rparr>)"
    and "\<And>w. workerAt s w = Some Ready \<Longrightarrow> poolCursor s < length missing \<Longrightarrow>
      P (s\<lparr>poolCursor := poolCursor s + 1, poolWorkers := (poolWorkers s)[w := Returned DeadlinePassed]\<rparr>)"
    and "\<And>w. workerAt s w = Some Ready \<Longrightarrow> poolCursor s < length missing \<Longrightarrow>
      P (s\<lparr>poolCursor := poolCursor s + 1, poolWorkers := (poolWorkers s)[w := Fetching (poolCursor s)],
           poolCalls := poolCalls s @ [poolCursor s]\<rparr>)"
    and "\<And>w i s'. workerAt s w = Some (Fetching i) \<Longrightarrow> poolCursor s' = poolCursor s \<Longrightarrow>
      poolCalls s' = poolCalls s \<Longrightarrow> poolAttempted s' = poolAttempted s + 1 \<Longrightarrow>
      poolWorkers s' = (poolWorkers s)[w := Ready] \<Longrightarrow> P s'"
    and "\<And>w i s'. workerAt s w = Some (Fetching i) \<Longrightarrow> poolCursor s' = poolCursor s \<Longrightarrow>
      poolCalls s' = poolCalls s \<Longrightarrow> poolWorkers s' = (poolWorkers s)[w := Returned Rejected] \<Longrightarrow> P s'"
  shows "P (poolStep missing dl ev s)"
proof (cases ev)
  case (WorkerTake w now)
  then show ?thesis using assms(1-4) by (auto simp: takeJob_def Let_def)
next
  case (WorkerThrow w)
  show ?thesis
  proof (cases "\<exists>i. workerAt s w = Some (Fetching i)")
    case False
    then show ?thesis using assms(1) by (auto simp: WorkerThrow split: option.split workerState.split)
  next
    case True
    then obtain i where i: "workerAt s w = Some (Fetching i)" by blast
    then show ?thesis by (intro assms(6) [OF i]) (simp_all add: WorkerThrow)
  qed
next
  case (WorkerAnswer w out)
  show ?thesis
  proof (cases "\<exists>i. workerAt s w = Some (Fetching i)")
    case False
    then show ?thesis using assms(1) by (auto simp: WorkerAnswer split: option.split workerState.split)
  next
    case True
    then obtain i where i: "workerAt s w = Some (Fetching i)" by blast
    let ?s = "s\<lparr>poolAttempted := poolAttempted s + 1, poolWorkers := (poolWorkers s)[w := Ready]\<rparr>"
    have idle: "P ?s"
      by (rule assms(5) [OF i]) simp_all
    show ?thesis
    proof (cases out)
      case (Out_ok grid t)
      show ?thesis
      proof (cases "tileCacheSet (mtKey (missing ! i)) grid (poolCache s)")
        case (Inl e)
        with Out_ok i show ?thesis
          by (intro assms(6) [OF i]) (simp_all add: WorkerAnswer answerJob_def Let_def)
      next
        case (Inr c)
        with Out_ok i show ?thesis
          by (intro assms(5) [OF i]) (simp_all add: WorkerAnswer answerJob_def Let_def)
      qed
    next
      case (Out_no_data r)
      then show ?thesis
        using i by (intro assms(5) [OF i]) (simp_all add: WorkerAnswer answerJob_def Let_def)
    qed (use i idle in \<open>simp_all add: WorkerAnswer answerJob_def Let_def\<close>)
  qed
qed

text \<open>
  The fetches are the first jobs of the list in order, each once; a worker that returned for the
  deadline is the only reason why the cursor can be ahead of the fetches.
\<close>

definition pool_ok :: "missingTile list \<Rightarrow> tilePool \<Rightarrow> bool" where
  "pool_ok missing s \<longleftrightarrow>
     distinct (poolCalls s)
     \<and> (\<forall>i \<in> set (poolCalls s). i < poolCursor s \<and> i < length missing)
     \<and> (Returned ListExhausted \<in> set (poolWorkers s) \<longrightarrow> length missing < poolCursor s)
     \<and> (Returned DeadlinePassed \<notin> set (poolWorkers s)
        \<longrightarrow> poolCalls s = [0..<min (poolCursor s) (length missing)])
     \<and> (Returned Rejected \<notin> set (poolWorkers s)
        \<longrightarrow> poolAttempted s + fetching s = length (poolCalls s))"

lemma returned_update:
  "w < length ws \<Longrightarrow> ws ! w \<noteq> Returned e \<Longrightarrow>
    Returned e \<in> set (ws[w := x]) \<longleftrightarrow> x = Returned e \<or> Returned e \<in> set ws"
proof -
  assume w: "w < length ws" and n: "ws ! w \<noteq> Returned e"
  have "Returned e \<in> set ws \<Longrightarrow> Returned e \<in> set (ws[w := x])"
    using n by (metis in_set_conv_nth length_list_update nth_list_update_neq)
  then show ?thesis
    using set_update_subset_insert [of ws w x] set_update_memI [OF w, of x] by blast
qed

lemma fetching_update:
  "workerAt s w = Some x \<Longrightarrow>
    length (filter isFetching ((poolWorkers s)[w := y])) + (if isFetching x then 1 else 0)
    = fetching s + (if isFetching y then 1 else 0)"
  using length_filter_update [of w "poolWorkers s" isFetching y]
  by (simp add: workerAt_Some fetching_def)

lemma pool_ok_step: "pool_ok missing s \<Longrightarrow> pool_ok missing (poolStep missing dl ev s)"
proof (rule poolStep_cases, goal_cases)
  case (1 s')
  then show ?case by simp
next
  case (2 w)
  then show ?case
    using fetching_update [of s w Ready "Returned ListExhausted"]
    by (auto simp: pool_ok_def returned_update workerAt_Some fetching_def less_Suc_eq)
next
  case (3 w)
  then show ?case
    using fetching_update [of s w Ready "Returned DeadlinePassed"]
    by (auto simp: pool_ok_def returned_update workerAt_Some fetching_def less_Suc_eq)
next
  case (4 w)
  then show ?case
    using fetching_update [of s w Ready "Fetching (poolCursor s)"]
    by (auto simp: pool_ok_def returned_update workerAt_Some fetching_def less_Suc_eq)
next
  case (5 w i s')
  have ret: "Returned e \<in> set ((poolWorkers s)[w := Ready]) \<longleftrightarrow> Returned e \<in> set (poolWorkers s)" for e
    using returned_update [of w "poolWorkers s" e Ready] 5(2) by (simp add: workerAt_Some)
  have "fetching s' + 1 = fetching s"
    using fetching_update [OF 5(2), of Ready] by (simp add: fetching_def [of s'] 5(6))
  then have "poolAttempted s' + fetching s' = poolAttempted s + fetching s" by (simp add: 5(5))
  with 5(1) show ?case unfolding pool_ok_def by (simp only: 5(3,4,6) ret simp_thms) blast
next
  case (6 w i s')
  have ret: "Returned e \<in> set ((poolWorkers s)[w := Returned Rejected])
      \<longleftrightarrow> e = Rejected \<or> Returned e \<in> set (poolWorkers s)" for e
    using returned_update [of w "poolWorkers s" e "Returned Rejected"] 6(2) by (auto simp: workerAt_Some)
  from 6(1) show ?case unfolding pool_ok_def
    by (simp only: 6(3-5) ret simp_thms workerEnd.distinct not_True_eq_False) blast
qed

lemma pool_ok_new: "pool_ok missing (newPool k missing r c)"
  by (auto simp: pool_ok_def newPool_def fetching_def)

lemma pool_ok_run: "pool_ok missing s \<Longrightarrow> pool_ok missing (poolRun missing dl evs s)"
  unfolding poolRun_def by (induction evs arbitrary: s) (simp_all add: pool_ok_step)

lemma poolStep_workers [simp]: "length (poolWorkers (poolStep missing dl ev s)) = length (poolWorkers s)"
  by (rule poolStep_cases) simp_all

lemma poolRun_workers [simp]: "length (poolWorkers (poolRun missing dl evs s)) = length (poolWorkers s)"
  unfolding poolRun_def by (induction evs arbitrary: s) simp_all

text \<open>
  however the event loop interleaves the workers and however each fetch ends, no missing
  tile is fetched twice, at most the configured number of fetches run at a time, and when every
  worker has returned, none of them for the deadline or by rejecting, every missing tile was
  fetched, in the order of the list, and every fetch was counted.
\<close>

theorem pool_fetches_each_once:
  assumes "s = poolRun missing dl evs (newPool k missing resolved cache)"
  shows "distinct (poolCalls s) \<and> list_all (\<lambda>i. i < length missing) (poolCalls s)
    \<and> length (filter isFetching (poolWorkers s)) \<le> k
    \<and> (poolFinished s \<and> Returned DeadlinePassed \<notin> set (poolWorkers s)
       \<and> Returned Rejected \<notin> set (poolWorkers s) \<and> k > 0
       \<longrightarrow> poolCalls s = [0..<length missing] \<and> poolAttempted s = length missing)"
proof -
  have ok: "pool_ok missing s" unfolding assms by (rule pool_ok_run [OF pool_ok_new])
  have len: "length (poolWorkers s) = min k (length missing)"
    by (simp add: assms newPool_def)
  have "length (filter isFetching (poolWorkers s)) \<le> k"
    using length_filter_le [of isFetching "poolWorkers s"] len by linarith
  moreover have "poolCalls s = [0..<length missing] \<and> poolAttempted s = length missing"
    if fin: "poolFinished s" "Returned DeadlinePassed \<notin> set (poolWorkers s)"
      "Returned Rejected \<notin> set (poolWorkers s)" "k > 0"
  proof -
    have f: "fetching s = 0"
      using fin(1) by (auto simp: poolFinished_def fetching_def list_all_iff filter_empty_conv isFetching_def
          split: workerState.splits)
    have all: "w = Returned ListExhausted" if w: "w \<in> set (poolWorkers s)" for w
    proof -
      have "case w of Returned e \<Rightarrow> True | _ \<Rightarrow> False"
        using fin(1) w by (simp add: poolFinished_def list_all_iff)
      then obtain e where "w = Returned e" by (cases w) auto
      then show ?thesis using w fin(2,3) by (cases e) auto
    qed
    have "missing = [] \<or> length missing < poolCursor s"
    proof (cases "poolWorkers s")
      case Nil
      then show ?thesis using len fin(4) by (cases missing) auto
    next
      case (Cons w ws)
      with all [of w] ok show ?thesis by (simp add: pool_ok_def)
    qed
    then have "min (poolCursor s) (length missing) = length missing" by auto
    with ok fin have "poolCalls s = [0..<length missing]"
      "poolAttempted s + fetching s = length (poolCalls s)" unfolding pool_ok_def by metis+
    with f show ?thesis by simp
  qed
  moreover have "distinct (poolCalls s)" "list_all (\<lambda>i. i < length missing) (poolCalls s)"
    using ok unfolding pool_ok_def list_all_iff by blast+
  ultimately show ?thesis by blast
qed

text \<open>The grids a pool resolves and caches all have the size of a tile.\<close>

definition gridsOk :: "(string, int16Array) jsmap \<Rightarrow> bool" where
  "gridsOk m \<longleftrightarrow> (\<forall>k g. js_get m k = Some g \<longrightarrow> length g = TILE_SIZE * TILE_SIZE)"

lemma gridsOk_Nil [simp]: "gridsOk []"
  by (simp add: gridsOk_def)

lemma gridsOk_set [simp]: "gridsOk m \<Longrightarrow> length g = TILE_SIZE * TILE_SIZE \<Longrightarrow> gridsOk (js_set k g m)"
  by (simp add: gridsOk_def)

lemma poolStep_grids:
  assumes "tileCache_ok n (poolCache s)" and "gridsOk (poolResolved s)"
  shows "tileCache_ok n (poolCache (poolStep missing dl ev s)) \<and> gridsOk (poolResolved (poolStep missing dl ev s))"
proof (cases ev)
  case (WorkerTake w now)
  with assms show ?thesis by (simp add: takeJob_def Let_def)
next
  case (WorkerThrow w)
  with assms show ?thesis by (simp split: option.split workerState.split)
next
  case (WorkerAnswer w out)
  have "tileCache_ok n (poolCache (answerJob missing w i out s)) \<and> gridsOk (poolResolved (answerJob missing w i out s))"
    for i
  proof (cases out)
    case (Out_ok grid t)
    show ?thesis
    proof (cases "tileCacheSet (mtKey (missing ! i)) grid (poolCache s)")
      case (Inl e)
      with Out_ok assms show ?thesis by (simp add: answerJob_def Let_def)
    next
      case (Inr c)
      then have "length grid = TILE_SIZE * TILE_SIZE" by (simp add: tileCacheSet_def split: if_splits)
      with Out_ok Inr assms tileCacheSet_entries [OF assms(1) Inr] show ?thesis
        by (simp add: answerJob_def Let_def)
    qed
  qed (use assms in \<open>simp_all add: answerJob_def Let_def\<close>)
  with WorkerAnswer assms show ?thesis by (simp split: option.split workerState.split)
qed

lemma poolRun_grids:
  "tileCache_ok n (poolCache s) \<Longrightarrow> gridsOk (poolResolved s) \<Longrightarrow>
    tileCache_ok n (poolCache (poolRun missing dl evs s)) \<and> gridsOk (poolResolved (poolRun missing dl evs s))"
  unfolding poolRun_def by (induction evs arbitrary: s) (simp_all add: poolStep_grids)

definition exampleJobs :: "missingTile list" where
  "exampleJobs = [\<lparr>mtKey = ''12/1/1'', mtX = 1, mtY = 1\<rparr>, \<lparr>mtKey = ''12/1/2'', mtX = 1, mtY = 2\<rparr>]"

definition exampleDeadline :: operationDeadline where
  "exampleDeadline = \<lparr>budgetMs = 5000, startedAtMs = 0\<rparr>"

definition exampleCache :: tileCache where
  "exampleCache = \<lparr>tcEntries = [], tcHits = 0, tcMisses = 0, tcEvictions = 0, tcMaxTiles = 4\<rparr>"

definition examplePool :: tilePool where
  "examplePool = newPool 1 exampleJobs [] exampleCache"

theorem pool_fetches_each_once_witness:
  "poolCalls (poolRun exampleJobs exampleDeadline
     [WorkerTake 0 10, WorkerAnswer 0 (Out_no_data (R_missing 404)), WorkerTake 0 20,
      WorkerAnswer 0 (Out_transient (R_http 503)), WorkerTake 0 30]
     (newPool 1 exampleJobs [] exampleCache)) = [0, 1]"
proof -
  let ?s = "poolRun exampleJobs exampleDeadline
     [WorkerTake 0 10, WorkerAnswer 0 (Out_no_data (R_missing 404)), WorkerTake 0 20,
      WorkerAnswer 0 (Out_transient (R_http 503)), WorkerTake 0 30]
     (newPool 1 exampleJobs [] exampleCache)"
  have "poolFinished ?s" "Returned DeadlinePassed \<notin> set (poolWorkers ?s)"
    "Returned Rejected \<notin> set (poolWorkers ?s)" by code_simp+
  with pool_fetches_each_once [OF refl, of exampleJobs exampleDeadline
     "[WorkerTake 0 10, WorkerAnswer 0 (Out_no_data (R_missing 404)), WorkerTake 0 20,
       WorkerAnswer 0 (Out_transient (R_http 503)), WorkerTake 0 30]" 1 "[]" exampleCache]
  have "poolCalls ?s = [0..<length exampleJobs]" by simp
  then show ?thesis by (simp add: exampleJobs_def upt_rec)
qed

section \<open>Every fair schedule finishes\<close>

text \<open>The work left: two for a job nobody has taken, and what each worker still has to do.\<close>

fun workerWork :: "workerState \<Rightarrow> nat" where
  "workerWork Ready = 1"
| "workerWork (Fetching i) = 2"
| "workerWork (Returned e) = 0"

definition poolWork :: "missingTile list \<Rightarrow> tilePool \<Rightarrow> nat" where
  "poolWork missing s =
     2 * (length missing - poolCursor s) + sum_list (map workerWork (poolWorkers s))"

lemma sum_list_update:
  "w < length ws \<Longrightarrow> sum_list (map f (ws[w := x])) + f (ws ! w) = sum_list (map f ws) + (f x :: nat)"
proof (induction ws arbitrary: w)
  case Nil
  then show ?case by simp
next
  case (Cons y ws)
  show ?case
  proof (cases w)
    case (Suc v)
    with Cons.IH [of v] Cons.prems show ?thesis by simp
  qed simp
qed

lemma poolStep_decreases:
  "poolStep missing dl ev s = s \<or> poolWork missing (poolStep missing dl ev s) < poolWork missing s"
proof (rule poolStep_cases, goal_cases)
  case (1 s')
  then show ?case by simp
next
  case (2 w)
  then show ?case
    using sum_list_update [of w "poolWorkers s" workerWork "Returned ListExhausted"]
    by (simp add: poolWork_def workerAt_Some)
next
  case (3 w)
  then show ?case
    using sum_list_update [of w "poolWorkers s" workerWork "Returned DeadlinePassed"]
    by (intro disjI2) (simp add: poolWork_def workerAt_Some)
next
  case (4 w)
  then show ?case
    using sum_list_update [of w "poolWorkers s" workerWork "Fetching (poolCursor s)"]
    by (intro disjI2) (simp add: poolWork_def workerAt_Some)
next
  case (5 w i s')
  then show ?case
    using sum_list_update [of w "poolWorkers s" workerWork Ready]
    by (simp add: poolWork_def workerAt_Some)
next
  case (6 w i s')
  then show ?case
    using sum_list_update [of w "poolWorkers s" workerWork "Returned Rejected"]
    by (simp add: poolWork_def workerAt_Some)
qed

fun poolAfter ::
    "missingTile list \<Rightarrow> operationDeadline \<Rightarrow> (nat \<Rightarrow> poolEvent) \<Rightarrow> tilePool \<Rightarrow> nat \<Rightarrow> tilePool" where
  "poolAfter missing dl sched s 0 = s"
| "poolAfter missing dl sched s (Suc t) = poolStep missing dl (sched t) (poolAfter missing dl sched s t)"

fun isTakeOf :: "nat \<Rightarrow> poolEvent \<Rightarrow> bool" where
  "isTakeOf w (WorkerTake w' now) = (w' = w)"
| "isTakeOf w ev = False"

fun isSettleOf :: "nat \<Rightarrow> poolEvent \<Rightarrow> bool" where
  "isSettleOf w (WorkerAnswer w' out) = (w' = w)"
| "isSettleOf w (WorkerThrow w') = (w' = w)"
| "isSettleOf w ev = False"

text \<open>Every worker is scheduled again and again, and every fetch settles.\<close>

definition fairSchedule :: "nat \<Rightarrow> (nat \<Rightarrow> poolEvent) \<Rightarrow> bool" where
  "fairSchedule k sched \<longleftrightarrow>
     (\<forall>w < k. \<forall>t. (\<exists>t' \<ge> t. isTakeOf w (sched t')) \<and> (\<exists>t' \<ge> t. isSettleOf w (sched t')))"

lemma length_poolAfter [simp]:
  "length (poolWorkers (poolAfter missing dl sched s t)) = length (poolWorkers s)"
  by (induction t) simp_all

text \<open>A worker that has not returned has a step that changes the pool.\<close>

lemma unreturned_enabled:
  assumes "w < length (poolWorkers s)"
  shows "poolWorkers s ! w = Ready \<Longrightarrow> isTakeOf w ev \<Longrightarrow> poolStep missing dl ev s \<noteq> s"
    and "poolWorkers s ! w = Fetching i \<Longrightarrow> isSettleOf w ev \<Longrightarrow> poolStep missing dl ev s \<noteq> s"
proof -
  have ne: "s' \<noteq> s" if "poolWorkers s' ! w \<noteq> poolWorkers s ! w" for s' using that by auto
  show "poolStep missing dl ev s \<noteq> s" if "poolWorkers s ! w = Ready" "isTakeOf w ev"
    using that assms by (cases ev) (auto simp: workerAt_def takeJob_def Let_def intro!: ne)
  show "poolStep missing dl ev s \<noteq> s" if "poolWorkers s ! w = Fetching i" "isSettleOf w ev"
    using that assms
    by (cases ev) (auto simp: workerAt_def answerJob_def Let_def intro!: ne
        split: upstreamOutcome.split sum.split)
qed

lemma fair_progress:
  assumes "fairSchedule (length (poolWorkers s)) sched"
    and "\<not> poolFinished (poolAfter missing dl sched s t)"
  shows "\<exists>u \<ge> t. poolWork missing (poolAfter missing dl sched s u)
    < poolWork missing (poolAfter missing dl sched s t)"
proof (rule ccontr)
  let ?at = "poolAfter missing dl sched s"
  assume none: "\<not> ?thesis"
  have stuck: "?at u = ?at t" if "t \<le> u" for u
  proof (induction rule: dec_induct [OF that])
    case (2 m)
    have "\<not> poolWork missing (?at (Suc m)) < poolWork missing (?at t)" using none 2 by (metis le_SucI)
    then show ?case using poolStep_decreases [of missing dl "sched m" "?at m"] 2 by auto
  qed simp
  from assms(2) obtain x where "x \<in> set (poolWorkers (?at t))"
    and x: "x = Ready \<or> (\<exists>i. x = Fetching i)"
    unfolding poolFinished_def list_all_iff by (metis workerState.case(3) workerState.exhaust)
  then obtain w where w: "w < length (poolWorkers (?at t))" "poolWorkers (?at t) ! w = x"
    by (metis in_set_conv_nth)
  then obtain u1 u2 where u: "u1 \<ge> t" "isTakeOf w (sched u1)" "u2 \<ge> t" "isSettleOf w (sched u2)"
    using assms(1) unfolding fairSchedule_def by (metis length_poolAfter)
  have "?at (Suc v) = ?at v" if "v \<ge> t" for v using stuck [of v] stuck [of "Suc v"] that by simp
  then have "poolStep missing dl (sched u1) (?at t) = ?at t" "poolStep missing dl (sched u2) (?at t) = ?at t"
    using u stuck by (metis poolAfter.simps(2))+
  then show False using unreturned_enabled [OF w(1)] x w(2) u by metis
qed

text \<open>
  C30: a tile request does not hang: when every worker keeps being scheduled and every fetch it
  started eventually settles in whatever way, there is a moment from which all workers have
  returned.
\<close>

theorem pool_finishes:
  assumes "fairSchedule (length (poolWorkers s)) sched"
  shows "\<exists>t. poolFinished (poolAfter missing dl sched s t)"
proof -
  have "\<exists>u \<ge> t. poolFinished (poolAfter missing dl sched s u)" for t
  proof (induction "poolWork missing (poolAfter missing dl sched s t)" arbitrary: t rule: less_induct)
    case less
    then show ?case using fair_progress [OF assms] by (metis order_trans order_refl)
  qed
  then show ?thesis by blast
qed

definition alternating :: "nat \<Rightarrow> poolEvent" where
  "alternating t = (if even t then WorkerTake 0 0 else WorkerAnswer 0 (Out_no_data (R_missing 404)))"

theorem pool_finishes_witness:
  "\<exists>t. poolFinished (poolAfter exampleJobs exampleDeadline alternating examplePool t)"
proof (rule pool_finishes)
  have "isTakeOf 0 (alternating (2 * t))" "isSettleOf 0 (alternating (2 * t + 1))" for t
    by (simp_all add: alternating_def)
  moreover have "2 * t \<ge> t" "2 * t + 1 \<ge> t" for t :: nat by simp_all
  moreover have "length (poolWorkers examplePool) = 1"
    by (simp add: examplePool_def newPool_def exampleJobs_def)
  ultimately show "fairSchedule (length (poolWorkers examplePool)) alternating"
    unfolding fairSchedule_def by (metis less_one)
qed

end
