(* ===== verification/Upstream_Cache_Values.thy ===== *)
theory Upstream_Cache_Values
  imports Upstream_Cache_Service
begin

text \<open>
  What the values of a cache have in common: whatever every refresh guarantees of the values it
  brings in is true of every value the store holds and of every value a read or a peek serves,
  for every store that keeps the contract of \<open>cache_store\<close>. A component that caches its own
  results states its invariant once and gets it through the cache from here.
\<close>

context cache_store
begin

definition holds :: "('a \<Rightarrow> bool) \<Rightarrow> 's cacheWorld \<Rightarrow> bool" where
  "holds P w \<longleftrightarrow> ok (wStore w)
     \<and> (\<forall>t \<ge> wNow w. \<forall>k e v. view (wStore w) t k = Some e \<longrightarrow> payload e = Some v \<longrightarrow> P v)"

definition refreshKeeps :: "('a \<Rightarrow> bool) \<Rightarrow> ('a upstreamOutcome, 's cacheWorld) refresh \<Rightarrow> bool" where
  "refreshKeeps P f \<longleftrightarrow>
     (\<forall>w res w'. holds P w \<longrightarrow> f w = (res, w') \<longrightarrow> holds P w' \<and> (\<forall>v t. res = Inr (Out_ok v t) \<longrightarrow> P v))"

definition flightKeeps ::
    "('a \<Rightarrow> bool) \<Rightarrow> ('a upstreamOutcome, 's cacheWorld) singleFlight \<Rightarrow> bool" where
  "flightKeeps P flight \<longleftrightarrow>
     (\<forall>k f w res w'. holds P w \<longrightarrow> refreshKeeps P f \<longrightarrow> flight k f w = (res, w') \<longrightarrow> holds P w'
        \<and> (\<forall>v t. res \<in> {Inr (Ran (Out_ok v t)), Inr (Joined (Out_ok v t))} \<longrightarrow> P v))"

lemma flightKeeps_runNow: "flightKeeps P runNow"
proof -
  have "holds P w' \<and> (\<forall>v t. res \<in> {Inr (Ran (Out_ok v t)), Inr (Joined (Out_ok v t))} \<longrightarrow> P v)"
    if "holds P w" "refreshKeeps P f" "runNow k f w = (res, w')" for k f w res w'
  proof (cases "f w")
    case (Pair r u)
    with that have "holds P u \<and> (\<forall>v t. r = Inr (Out_ok v t) \<longrightarrow> P v)"
      unfolding refreshKeeps_def by blast
    with that(3) Pair show ?thesis by (cases r) (auto simp: runNow_def)
  qed
  then show ?thesis unfolding flightKeeps_def by blast
qed

lemma holdsD:
  "holds P w \<Longrightarrow> wNow w \<le> t \<Longrightarrow> view (wStore w) t k = Some e \<Longrightarrow> payload e = Some v \<Longrightarrow> P v"
  unfolding holds_def by blast

lemma holds_ok: "holds P w \<Longrightarrow> ok (wStore w)"
  by (simp add: holds_def)

lemma holds_store_eq:
  "holds P w \<Longrightarrow> wStore w' = wStore w \<Longrightarrow> wNow w \<le> wNow w' \<Longrightarrow> holds P w'"
  unfolding holds_def by (simp, meson order_trans)

lemma holds_count [simp]: "holds P (countCache c p w) = holds P w"
  by (simp add: holds_def)

lemma get_holds:
  assumes "holds P w" and "cacheGet ops k w = (r, w')"
  shows "holds P w'" and "\<And>e v. r = Some e \<Longrightarrow> payload e = Some v \<Longrightarrow> P v"
proof -
  note law = get_law [OF holds_ok [OF assms(1)] assms(2)]
  show "holds P w'" unfolding holds_def
  proof (intro conjI allI impI)
    fix t k e v assume "wNow w' \<le> t" "view (wStore w') t k = Some e" "payload e = Some v"
    with law have "wNow w \<le> t" "view (wStore w) t k = Some e" by auto
    then show "P v" using holdsD [OF assms(1)] \<open>payload e = Some v\<close> by blast
  qed (use law in blast)
  fix e v assume "r = Some e" "payload e = Some v"
  with law show "P v" using holdsD [OF assms(1) order_refl] by blast
qed

lemma set_holds:
  assumes "holds P w" and "\<And>v. payload e = Some v \<Longrightarrow> P v"
  shows "holds P (cacheSet ops k e n w)"
proof -
  note law = set_law [OF holds_ok [OF assms(1)], of k e n]
  show ?thesis unfolding holds_def
  proof (intro conjI allI impI)
    fix t k' e' v assume t: "wNow (cacheSet ops k e n w) \<le> t"
      and "view (wStore (cacheSet ops k e n w)) t k' = Some e'" and v: "payload e' = Some v"
    with law consider "e' = e" | "view (wStore w) t k' = Some e'" by blast
    then show "P v"
      using assms(2) v law t holdsD [OF assms(1), of t k' e' v] by cases auto
  qed (use law in blast)
qed

lemma evaluate_holds:
  assumes "evaluate cached opts w = (usable, w')" and "holds P w"
    and "\<And>e v. cached = Some e \<Longrightarrow> payload e = Some v \<Longrightarrow> P v"
  shows "holds P w'" and "\<And>r fr v. usable = Some (r, fr) \<Longrightarrow> rValue r = Some v \<Longrightarrow> P v"
proof -
  show "holds P w'" using evaluate_frame [OF assms(1)] by (intro holds_store_eq [OF assms(2)]) auto
  fix r fr v assume "usable = Some (r, fr)" "rValue r = Some v"
  then show "P v" using assms(1,3)
    by (auto simp: evaluate_def split: option.splits if_splits stalenessVerdict.splits)
qed

lemma persist_holds:
  assumes "holds P w" and "persistOutcome ops opts out w = (r, w')"
    and "\<And>v t. out = Out_ok v t \<Longrightarrow> P v"
  shows "holds P w'" and "\<And>v. rValue r = Some v \<Longrightarrow> P v"
proof -
  obtain k e n where w': "w' = cacheSet ops k e n w"
    and e: "payload e = (case out of Out_ok v t \<Rightarrow> Some v | _ \<Rightarrow> None)"
    using assms(2) by (cases out) (auto simp: persistOutcome_def Let_def)
  show "holds P w'" unfolding w'
    by (rule set_holds [OF assms(1)]) (use e assms(3) in \<open>auto split: upstreamOutcome.splits\<close>)
  fix v assume "rValue r = Some v"
  then show "P v" using assms(2,3)
    by (cases out) (auto simp: persistOutcome_def fromNegative_def Let_def)
qed

lemma fromNegative_value [simp]: "rValue (fromNegative e c t) = None"
  by (simp add: fromNegative_def)

lemma unavailable_value [simp]: "rValue (unavailable c) = None"
  by (simp add: unavailable_def)

text \<open>A usable entry, after the two lookups that every read makes.\<close>

lemma lookup_holds:
  assumes "holds P w" and "cacheGet ops k w = (cached, w1)" and "evaluate cached opts w1 = (usable, w2)"
  shows "holds P w2" and "\<And>r fr v. usable = Some (r, fr) \<Longrightarrow> rValue r = Some v \<Longrightarrow> P v"
    and "cacheGet ops k' w2 = (negative, w3) \<Longrightarrow> holds P w3"
proof -
  note g = get_holds [OF assms(1,2)]
  show h2: "holds P w2" by (rule evaluate_holds(1) [OF assms(3)]) (use g in blast)+
  show "\<And>r fr v. usable = Some (r, fr) \<Longrightarrow> rValue r = Some v \<Longrightarrow> P v"
    by (rule evaluate_holds(2) [OF assms(3)]) (use g in blast)+
  show "cacheGet ops k' w2 = (negative, w3) \<Longrightarrow> holds P w3" using get_holds(1) [OF h2] by blast
qed

lemma peek_holds:
  assumes "holds P w" and "peek ops opts w = (r, w')"
  shows "holds P w' \<and> (\<forall>v. rValue r = Some v \<longrightarrow> P v)"
proof -
  obtain cached w1 where get: "cacheGet ops (optKey opts) w = (cached, w1)" by fastforce
  obtain usable w2 where ev: "evaluate cached opts w1 = (usable, w2)" by fastforce
  obtain negative w3 where neg: "cacheGet ops (negativeKey (optKey opts)) w2 = (negative, w3)"
    by fastforce
  note h = lookup_holds [OF assms(1) get ev]
  note h3 = h(3) [OF neg]
  show ?thesis
  proof (cases usable)
    case None
    with assms(2) get ev neg h3 show ?thesis
      by (auto simp: peek_def Let_def split: option.splits if_splits)
  next
    case (Some u)
    obtain r0 fr where u: "u = (r0, fr)" by (cases u)
    with assms(2) get ev neg h(1,2) h3 Some show ?thesis
      by (cases fr) (auto simp: peek_def Let_def split: option.splits if_splits)
  qed
qed

lemma pollLoop_holds:
  assumes "\<And>t. t \<le> pollSleep poll t (pollDelayMs poll)"
  shows "holds P w \<Longrightarrow> pollLoop ops poll opts n w = (r, w') \<Longrightarrow>
    holds P w' \<and> (\<forall>v. rValue r = Some v \<longrightarrow> P v)"
proof (induction n arbitrary: w)
  case 0
  then show ?case by auto
next
  case (Suc n)
  define w0 where "w0 = w\<lparr>wNow := pollSleep poll (wNow w) (pollDelayMs poll)\<rparr>"
  have h0: "holds P w0"
    using holds_store_eq [OF Suc.prems(1), of w0] assms by (simp add: w0_def)
  obtain cached w1 where get: "cacheGet ops (optKey opts) w0 = (cached, w1)" by fastforce
  obtain usable w2 where ev: "evaluate cached opts w1 = (usable, w2)" by fastforce
  obtain negative w3 where neg: "cacheGet ops (negativeKey (optKey opts)) w2 = (negative, w3)"
    by fastforce
  note h = lookup_holds [OF h0 get ev]
  note h3 = h(3) [OF neg]
  have run: "pollLoop ops poll opts (Suc n) w =
     (case usable of
        Some (r, fr) \<Rightarrow>
          (r\<lparr>rOrigin := O_polled\<rparr>,
           countCache (if fr = Fresh then M_cache_hit else M_cache_stale) (optProviderId opts) w2)
      | None \<Rightarrow>
          (case negative of
             Some e \<Rightarrow>
               if isNegativeStillBinding e (wNow w3)
               then (fromNegative e O_polled (wNow w3),
                     countCache M_cache_negative_hit (optProviderId opts) w3)
               else pollLoop ops poll opts n w3
           | None \<Rightarrow> pollLoop ops poll opts n w3))"
    using get ev neg by (simp add: w0_def [symmetric] split: option.split)
  show ?case
  proof (cases usable)
    case None
    with Suc.prems(2) [unfolded run] Suc.IH [OF h3] h3 show ?thesis
      by (cases negative) (auto simp del: pollLoop.simps split: if_splits)
  next
    case (Some u)
    obtain r0 fr where "u = (r0, fr)" by (cases u)
    with Suc.prems(2) [unfolded run] h(1,2) Some show ?thesis by (auto simp del: pollLoop.simps)
  qed
qed

lemma refreshAndServe_holds:
  assumes "flightKeeps P flight" and "\<And>d. refreshKeeps P (optRefresh opts d)"
    and "\<And>t. t \<le> pollSleep poll t (pollDelayMs poll)"
    and "holds P w" and "refreshAndServe ops flight poll opts w = (res, w')"
  shows "holds P w' \<and> (\<forall>r v. res = Inr r \<longrightarrow> rValue r = Some v \<longrightarrow> P v)"
proof (cases "case optDeadline opts of Some d \<Rightarrow> Inr d
    | None \<Rightarrow> newOperationDeadline (optDeadlineMs opts) (wNow w)")
  case (Inl e)
  with assms(4,5) show ?thesis by (auto simp: refreshAndServe_def)
next
  case d: (Inr d)
  obtain a w1 where fl: "flight (optKey opts) (optRefresh opts d) w = (a, w1)" by fastforce
  have h1: "holds P w1" and v1: "\<And>v t. a \<in> {Inr (Ran (Out_ok v t)), Inr (Joined (Out_ok v t))} \<Longrightarrow> P v"
    using assms(1,2,4) fl unfolding flightKeeps_def by blast+
  have settle: ?thesis if "persistOutcome ops opts out w1 = (r, w')" "res = Inr (r\<lparr>rOrigin := c\<rparr>)"
    "\<And>v t. out = Out_ok v t \<Longrightarrow> P v" for out r c
    using persist_holds [OF h1 that(1,3)] that(2) by auto
  show ?thesis
  proof (cases a)
    case (Inl e)
    with assms(5) d fl h1 show ?thesis by (auto simp: refreshAndServe_def)
  next
    case (Inr b)
    show ?thesis
    proof (cases b)
      case (Ran out)
      obtain r w2 where p: "persistOutcome ops opts out w1 = (r, w2)" by fastforce
      have "\<And>v t. out = Out_ok v t \<Longrightarrow> P v" using v1 Inr Ran by blast
      with assms(5) d fl Inr Ran p show ?thesis by (intro settle) (auto simp: refreshAndServe_def)
    next
      case (Joined out)
      obtain r w2 where p: "persistOutcome ops opts out w1 = (r, w2)" by fastforce
      have "\<And>v t. out = Out_ok v t \<Longrightarrow> P v" using v1 Inr Joined by blast
      with assms(5) d fl Inr Joined p show ?thesis by (intro settle) (auto simp: refreshAndServe_def)
    next
      case Lost
      obtain r w2 where "pollForWinner ops poll opts w1 = (r, w2)" by fastforce
      with pollLoop_holds [OF assms(3) h1, of opts "pollAttempts poll" r w2] assms(5) d fl Inr Lost
      show ?thesis by (auto simp: refreshAndServe_def pollForWinner_def)
    qed
  qed
qed

lemma readThrough_holds:
  assumes "flightKeeps P flight" and "\<And>d. refreshKeeps P (optRefresh opts d)"
    and "\<And>t. t \<le> pollSleep poll t (pollDelayMs poll)"
    and "holds P w" and "readThrough ops flight poll opts w = (res, bg, w')"
  shows "holds P w' \<and> (\<forall>r v. res = Inr r \<longrightarrow> rValue r = Some v \<longrightarrow> P v)"
proof -
  obtain cached w1 where get: "cacheGet ops (optKey opts) w = (cached, w1)" by fastforce
  obtain usable w2 where ev: "evaluate cached opts w1 = (usable, w2)" by fastforce
  obtain negative w3 where neg: "cacheGet ops (negativeKey (optKey opts)) w2 = (negative, w3)"
    by fastforce
  note h = lookup_holds [OF assms(4) get ev]
  note h3 = h(3) [OF neg]
  show ?thesis
  proof (cases usable)
    case None
    let ?miss = "countCache M_cache_miss (optProviderId opts) w3"
    obtain res' w4 where ref: "refreshAndServe ops flight poll opts ?miss = (res', w4)" by fastforce
    note hr = refreshAndServe_holds [OF assms(1-3) _ ref, unfolded holds_count, OF h3]
    from assms(5) get ev neg ref None hr h3 show ?thesis
      by (auto simp: readThrough_def Let_def split: option.splits if_splits)
  next
    case (Some u)
    obtain r0 fr where "u = (r0, fr)" by (cases u)
    with assms(5) get ev neg h(1,2) h3 Some show ?thesis
      by (cases fr) (auto simp: readThrough_def Let_def split: option.splits if_splits)
  qed
qed

lemma revalidate_holds:
  assumes "flightKeeps P flight" and "\<And>d. refreshKeeps P (optRefresh opts d)" and "holds P w"
  shows "holds P (revalidate ops flight opts w)"
proof (cases "newOperationDeadline (case optRevalidateDeadlineMs opts of
    None \<Rightarrow> optDeadlineMs opts | Some n \<Rightarrow> n) (wNow w)")
  case (Inl e)
  with assms(3) show ?thesis by (auto simp: revalidate_def Let_def intro: holds_store_eq)
next
  case d: (Inr d)
  obtain a w1 where fl: "flight (optKey opts) (optRefresh opts d) w = (a, w1)" by fastforce
  have h1: "holds P w1" and v1: "\<And>v t. a \<in> {Inr (Ran (Out_ok v t)), Inr (Joined (Out_ok v t))} \<Longrightarrow> P v"
    using assms fl unfolding flightKeeps_def by blast+
  have settle: "holds P (snd (persistOutcome ops opts out w1))"
    if "\<And>v t. out = Out_ok v t \<Longrightarrow> P v" for out
    using persist_holds(1) [OF h1 _ that, of opts out "fst (persistOutcome ops opts out w1)"] by simp
  have failed: "holds P (w1\<lparr>wMetrics := m\<rparr>)" for m using holds_store_eq [OF h1] by simp
  show ?thesis
    using d fl h1 failed settle v1
    by (auto simp: revalidate_def Let_def split: sum.split singleFlightResult.split)
qed

end

context instant_store
begin

lemma peek_now:
  assumes "ok (wStore w)" and "peek ops opts w = (r, w')"
  shows "wNow w' = wNow w"
proof -
  obtain cached w1 where get: "cacheGet ops (optKey opts) w = (cached, w1)" by fastforce
  obtain usable w2 where ev: "evaluate cached opts w1 = (usable, w2)" by fastforce
  obtain negative w3 where neg: "cacheGet ops (negativeKey (optKey opts)) w2 = (negative, w3)"
    by fastforce
  have ok2: "ok (wStore w2)" using get_law [OF assms(1) get] evaluate_frame [OF ev] by simp
  have "wNow w2 = wNow w" "wNow w3 = wNow w"
    using get_exact [OF assms(1) get] get_exact [OF ok2 neg] evaluate_frame [OF ev] by simp_all
  with assms(2) get ev neg show ?thesis
    by (auto simp: peek_def Let_def split: option.splits if_splits freshness.splits)
qed

end

end
