(* ===== verification/Elevation_Profile.thy ===== *)
theory Elevation_Profile
  imports Tile_Worker_Pool Upstream_Cache_Values
begin

text \<open>
  \<open>elevation/elevation-profile.service.ts\<close> and \<open>elevation/elevation-upstream.config.ts\<close>: one
  profile request, from the quantised end points over the tiles it needs to the cached payload.
  The sampling of the great circle and its projection onto tile pixels are floating-point
  geometry and a parameter, \<open>geometry\<close>: per sample the distance and the tile pixel. The
  schedule of the fetch workers is a parameter too. A request that is still waiting is \<open>None\<close>.
\<close>

section \<open>Configuration\<close>

record elevationEnv =
  ELEVATION_ENABLED :: bool
  ELEVATION_BASE_URL :: string
  ELEVATION_PROFILE_TTL_SECONDS :: int
  ELEVATION_ERROR_TTL_SECONDS :: int
  ELEVATION_CLIENT_ERROR_TTL_SECONDS :: int
  ELEVATION_SCHEMA_ERROR_TTL_SECONDS :: int
  ELEVATION_UPSTREAM_DEADLINE_MS :: ms
  ELEVATION_SINGLE_CALL_TIMEOUT_MS :: ms
  ELEVATION_MAX_TILES_PER_REQUEST :: nat
  ELEVATION_TILE_FETCH_CONCURRENCY :: nat
  ELEVATION_TILE_MAX_RESPONSE_BYTES :: nat
  ELEVATION_TILE_CACHE_MAX_TILES :: nat

record elevationUpstreamConfig =
  cfgEnabled :: bool
  cfgBaseUrl :: string
  cfgRequestDeadlineMs :: ms
  cfgSingleCallTimeoutMs :: ms
  cfgMaxTilesPerRequest :: nat
  cfgTileFetchConcurrency :: nat
  cfgTileMaxResponseBytes :: nat
  cfgTileCacheMaxTiles :: nat
  cfgBudget :: providerBudgetLimits
  cfgTtls :: outcomeTtlTable
  cfgCeilings :: stalenessCeilings

definition ELEVATION_PROVIDER_BUDGET :: providerBudgetLimits where
  "ELEVATION_PROVIDER_BUDGET = \<lparr>perMinute = 300, perHour = 6000, perDay = 50000\<rparr>"

definition buildElevationTtlTable :: "elevationEnv \<Rightarrow> outcomeTtlTable" where
  "buildElevationTtlTable env =
     \<lparr>ttl_ok = ELEVATION_PROFILE_TTL_SECONDS env,
      ttl_no_data = ELEVATION_PROFILE_TTL_SECONDS env,
      ttl_transient = ELEVATION_ERROR_TTL_SECONDS env,
      ttl_rate_limited = ELEVATION_ERROR_TTL_SECONDS env,
      ttl_client_error = ELEVATION_CLIENT_ERROR_TTL_SECONDS env,
      ttl_schema_error = ELEVATION_SCHEMA_ERROR_TTL_SECONDS env\<rparr>"

definition buildElevationUpstreamConfig :: "elevationEnv \<Rightarrow> elevationUpstreamConfig" where
  "buildElevationUpstreamConfig env =
     \<lparr>cfgEnabled = ELEVATION_ENABLED env,
      cfgBaseUrl = ELEVATION_BASE_URL env,
      cfgRequestDeadlineMs = ELEVATION_UPSTREAM_DEADLINE_MS env,
      cfgSingleCallTimeoutMs = ELEVATION_SINGLE_CALL_TIMEOUT_MS env,
      cfgMaxTilesPerRequest = ELEVATION_MAX_TILES_PER_REQUEST env,
      cfgTileFetchConcurrency = ELEVATION_TILE_FETCH_CONCURRENCY env,
      cfgTileMaxResponseBytes = ELEVATION_TILE_MAX_RESPONSE_BYTES env,
      cfgTileCacheMaxTiles = ELEVATION_TILE_CACHE_MAX_TILES env,
      cfgBudget = ELEVATION_PROVIDER_BUDGET,
      cfgTtls = buildElevationTtlTable env,
      cfgCeilings = \<lparr>staleMaxSeconds = ELEVATION_PROFILE_TTL_SECONDS env,
                     validAtMaxAgeSeconds = ELEVATION_PROFILE_TTL_SECONDS env\<rparr>\<rparr>"

section \<open>Points and keys\<close>

definition ELEVATION_PROFILE_SAMPLE_COUNT :: nat where "ELEVATION_PROFILE_SAMPLE_COUNT = 200"
definition ELEVATION_COORDINATE_DECIMALS :: nat where "ELEVATION_COORDINATE_DECIMALS = 3"
definition WHOLESALE_NO_DATA_LOG_EVERY_MS :: ms where "WHOLESALE_NO_DATA_LOG_EVERY_MS = 60000"

record geoPoint =
  gpLat :: rat
  gpLon :: rat

definition roundTo :: "rat \<Rightarrow> nat \<Rightarrow> rat" where
  "roundTo v decimals = (let factor = 10 ^ decimals in of_int (js_round (v * factor)) / factor)"

definition quantiseCoordinate :: "rat \<Rightarrow> rat" where
  "quantiseCoordinate v =
     (let factor = 10 ^ ELEVATION_COORDINATE_DECIMALS in of_int (js_round (v * factor)) / factor)"

text \<open>\<open>n.toFixed(3)\<close>: sign, whole part, three digits.\<close>

definition toFixed3 :: "rat \<Rightarrow> string" where
  "toFixed3 x =
     (let n = js_round (\<bar>x\<bar> * 1000)
      in (if x < 0 then ''-'' else []) @ natDigits (nat (n div 1000)) @ ''.''
         @ [char_of (48 + n mod 1000 div 100), char_of (48 + n mod 100 div 10), char_of (48 + n mod 10)])"

definition renderPoint :: "geoPoint \<Rightarrow> string" where
  "renderPoint p = toFixed3 (gpLat p) @ '','' @ toFixed3 (gpLon p)"

definition profileCacheKey :: "geoPoint \<Rightarrow> geoPoint \<Rightarrow> string" where
  "profileCacheKey a b =
     ''elevation:profile:v1:z'' @ natDigits TERRAIN_SAMPLE_ZOOM @ '':n''
     @ natDigits ELEVATION_PROFILE_SAMPLE_COUNT @ '':'' @ renderPoint a @ '':'' @ renderPoint b"

section \<open>Data\<close>

record tilePixelPosition =
  tpX :: nat
  tpY :: nat
  tpPixelX :: rat
  tpPixelY :: rat

record elevationProfilePayload =
  epFrom :: geoPoint
  epTo :: geoPoint
  epLengthKm :: rat
  epSampleCount :: nat
  epSampleZoom :: nat
  epResolvedSampleCount :: nat
  epDistancesKm :: "rat list"
  epElevationsM :: "int option list"
  epMinElevationM :: "int option"
  epMaxElevationM :: "int option"

record elevationProfileDto =
  dtoFrom :: geoPoint
  dtoTo :: geoPoint
  dtoLengthKm :: rat
  dtoSampleCount :: nat
  dtoSampleZoom :: nat
  dtoDataAvailable :: bool
  dtoResolvedSampleCount :: nat
  dtoDistancesKm :: "rat list"
  dtoElevationsM :: "int option list"
  dtoMinElevationM :: "int option"
  dtoMaxElevationM :: "int option"

datatype elevationError =
    EndpointsCoincide
  | GeometryRangeError string
  | TileCeilingExceeded nat nat
  | DeadlineNotPositive
  | TileFetchRejected
  | SampleError bilinearError
  | CacheReadThrew string

section \<open>Tiles\<close>

definition neededTiles :: "tilePixelPosition list \<Rightarrow> (string, nat \<times> nat) jsmap" where
  "neededTiles positions =
     fold (\<lambda>p m. js_set (tileKey TERRAIN_SAMPLE_ZOOM (tpX p) (tpY p)) (tpX p, tpY p) m) positions []"

text \<open>The tiles the cache holds, and the ones to fetch, in the order of the map.\<close>

fun splitCached ::
    "(string, nat \<times> nat) jsmap \<Rightarrow> (string, int16Array) jsmap \<Rightarrow> missingTile list \<Rightarrow> tileCache
     \<Rightarrow> (string, int16Array) jsmap \<times> missingTile list \<times> tileCache" where
  "splitCached [] resolved missing c = (resolved, missing, c)"
| "splitCached ((key, (x, y)) # needed) resolved missing c =
     (case tileCacheGet key c of
        (Some grid, c') \<Rightarrow> splitCached needed (js_set key grid resolved) missing c'
      | (None, c') \<Rightarrow>
          splitCached needed resolved (missing @ [\<lparr>mtKey = key, mtX = x, mtY = y\<rparr>]) c')"

definition reportWholesaleNoData :: "nat \<Rightarrow> nat \<Rightarrow> 's cacheWorld \<Rightarrow> 's cacheWorld" where
  "reportWholesaleNoData attempted answeredNoData w =
     (if attempted = 0 \<or> answeredNoData \<noteq> attempted then w
      else (let (emitted, m) = throttledEvent L_warn ''elevation.tiles-all-no-data''
                  WHOLESALE_NO_DATA_LOG_EVERY_MS
                  ''every terrain tile of a profile request answered no_data'' (wNow w) (wMetrics w)
            in w\<lparr>wMetrics := (if emitted
                  then increment M_elevation_tiles_all_no_data ELEVATION_PROVIDER_TERRAIN_TILES m
                  else m)\<rparr>))"

type_synonym fetchSchedule = "missingTile list \<Rightarrow> poolEvent list \<times> ms"

definition resolveTiles ::
    "elevationUpstreamConfig \<Rightarrow> fetchSchedule \<Rightarrow> (string, nat \<times> nat) jsmap
     \<Rightarrow> tileCache \<times> 's cacheWorld
     \<Rightarrow> ((elevationError + (string, int16Array) jsmap) \<times> tileCache \<times> 's cacheWorld) option" where
  "resolveTiles cfg schedule needed st =
     (let (tiles, w) = st;
          (resolved, missing, tiles1) = splitCached needed [] [] tiles
      in if length missing = 0 then Some (Inr resolved, tiles1, w)
         else (case newOperationDeadline (cfgRequestDeadlineMs cfg) (wNow w) of
                 Inl e \<Rightarrow> Some (Inl DeadlineNotPositive, tiles1, w)
               | Inr dl \<Rightarrow>
                   (let (events, after) = schedule missing;
                        s = poolRun missing dl events
                              (newPool (cfgTileFetchConcurrency cfg) missing resolved tiles1);
                        w1 = w\<lparr>wNow := after\<rparr>
                    in if poolRejected s then Some (Inl TileFetchRejected, poolCache s, w1)
                       else if \<not> poolFinished s then None
                       else Some (Inr (poolResolved s), poolCache s,
                              reportWholesaleNoData (poolAttempted s) (poolNoData s) w1))))"

section \<open>The profile\<close>

record sampleLoop =
  slDistances :: "rat list"
  slElevations :: "int option list"
  slMin :: "int option"
  slMax :: "int option"
  slResolved :: nat

definition sampleStep ::
    "(string, int16Array) jsmap \<Rightarrow> rat \<times> tilePixelPosition \<Rightarrow> sampleLoop \<Rightarrow> elevationError + sampleLoop" where
  "sampleStep grids sample s =
     (let (distanceKm, position) = sample;
          s1 = s\<lparr>slDistances := slDistances s @ [roundTo distanceKm 3]\<rparr>
      in case js_get grids (tileKey TERRAIN_SAMPLE_ZOOM (tpX position) (tpY position)) of
           None \<Rightarrow> Inr (s1\<lparr>slElevations := slElevations s1 @ [None]\<rparr>)
         | Some grid \<Rightarrow>
             (case bilinearSample grid (tpPixelX position) (tpPixelY position) TILE_SIZE of
                Inl e \<Rightarrow> Inl (SampleError e)
              | Inr v \<Rightarrow>
                  (let metres = js_round v
                   in Inr (s1\<lparr>slElevations := slElevations s1 @ [Some metres],
                              slResolved := slResolved s1 + 1,
                              slMin := (case slMin s1 of None \<Rightarrow> Some metres
                                        | Some m \<Rightarrow> if metres < m then Some metres else Some m),
                              slMax := (case slMax s1 of None \<Rightarrow> Some metres
                                        | Some m \<Rightarrow> if metres > m then Some metres else Some m)\<rparr>))))"

fun sampleAll ::
    "(string, int16Array) jsmap \<Rightarrow> (rat \<times> tilePixelPosition) list \<Rightarrow> sampleLoop
     \<Rightarrow> elevationError + sampleLoop" where
  "sampleAll grids [] s = Inr s"
| "sampleAll grids (x # xs) s = andThen (sampleStep grids x s) (sampleAll grids xs)"

text \<open>The payload and whether every sample was resolved.\<close>

definition assembleProfile ::
    "geoPoint \<Rightarrow> geoPoint \<Rightarrow> (rat \<times> tilePixelPosition) list \<Rightarrow> (string, int16Array) jsmap
     \<Rightarrow> elevationError + (elevationProfilePayload \<times> bool)" where
  "assembleProfile a b samples grids =
     andThen (sampleAll grids samples
        \<lparr>slDistances = [], slElevations = [], slMin = None, slMax = None, slResolved = 0\<rparr>) (\<lambda>s.
       let lengthKm = (if samples = [] then 0 else fst (last samples));
           resolved = slResolved s
       in Inr (\<lparr>epFrom = a, epTo = b, epLengthKm = roundTo lengthKm 3,
                epSampleCount = ELEVATION_PROFILE_SAMPLE_COUNT, epSampleZoom = TERRAIN_SAMPLE_ZOOM,
                epResolvedSampleCount = resolved,
                epDistancesKm = (if resolved = 0 then [] else slDistances s),
                epElevationsM = (if resolved = 0 then [] else slElevations s),
                epMinElevationM = slMin s, epMaxElevationM = slMax s\<rparr>,
               resolved = ELEVATION_PROFILE_SAMPLE_COUNT))"

type_synonym geometry =
  "geoPoint \<Rightarrow> geoPoint \<Rightarrow> nat \<Rightarrow> string + (rat \<times> tilePixelPosition) list"

definition computeProfile ::
    "elevationUpstreamConfig \<Rightarrow> geometry \<Rightarrow> fetchSchedule \<Rightarrow> geoPoint \<Rightarrow> geoPoint
     \<Rightarrow> tileCache \<times> 's cacheWorld
     \<Rightarrow> ((elevationError + (elevationProfilePayload \<times> bool)) \<times> tileCache \<times> 's cacheWorld) option" where
  "computeProfile cfg geometry schedule a b st =
     (case geometry a b ELEVATION_PROFILE_SAMPLE_COUNT of
        Inl e \<Rightarrow> Some (Inl (GeometryRangeError e), st)
      | Inr samples \<Rightarrow>
          (let needed = neededTiles (map snd samples)
           in if length needed > cfgMaxTilesPerRequest cfg
              then (let (tiles, w) = st;
                        m = event L_error ''elevation profile exceeded the per-request tile ceiling''
                              (increment M_elevation_tile_ceiling_refused
                                 ELEVATION_PROVIDER_TERRAIN_TILES (wMetrics w))
                    in Some (Inl (TileCeilingExceeded (length needed) (cfgMaxTilesPerRequest cfg)),
                             tiles, w\<lparr>wMetrics := m\<rparr>))
              else (case resolveTiles cfg schedule needed st of
                      None \<Rightarrow> None
                    | Some (Inl e, st') \<Rightarrow> Some (Inl e, st')
                    | Some (Inr grids, st') \<Rightarrow> Some (assembleProfile a b samples grids, st'))))"

definition toDto :: "elevationProfilePayload \<Rightarrow> elevationProfileDto" where
  "toDto p =
     \<lparr>dtoFrom = epFrom p, dtoTo = epTo p, dtoLengthKm = epLengthKm p,
      dtoSampleCount = epSampleCount p, dtoSampleZoom = epSampleZoom p,
      dtoDataAvailable = (epResolvedSampleCount p > 0),
      dtoResolvedSampleCount = epResolvedSampleCount p, dtoDistancesKm = epDistancesKm p,
      dtoElevationsM = epElevationsM p, dtoMinElevationM = epMinElevationM p,
      dtoMaxElevationM = epMaxElevationM p\<rparr>"

section \<open>One request\<close>

definition profileOptions ::
    "elevationUpstreamConfig \<Rightarrow> string \<Rightarrow> elevationProfilePayload
     \<Rightarrow> (elevationProfilePayload, 's) readThroughOptions" where
  "profileOptions cfg key computed =
     \<lparr>optKey = key, optProviderId = ELEVATION_PROVIDER_TERRAIN_TILES, optTtls = cfgTtls cfg,
      optCeilings = cfgCeilings cfg, optDeadlineMs = cfgRequestDeadlineMs cfg, optDeadline = None,
      optRevalidateDeadlineMs = None, optRefresh = (\<lambda>dl w. (Inr (Out_ok computed None), w))\<rparr>"

definition peekProfile ::
    "(elevationProfilePayload, 's) upstreamCacheStore \<Rightarrow> elevationUpstreamConfig \<Rightarrow> string
     \<Rightarrow> 's cacheWorld \<Rightarrow> elevationProfilePayload cachedRead \<times> 's cacheWorld" where
  "peekProfile store cfg key w =
     peek store \<lparr>optKey = key, optProviderId = ELEVATION_PROVIDER_TERRAIN_TILES,
                 optTtls = cfgTtls cfg, optCeilings = cfgCeilings cfg\<rparr> w"

text \<open>Storing a complete profile: a read whose refresh is the payload just computed.\<close>

definition storeProfile ::
    "(elevationProfilePayload, 's) upstreamCacheStore
     \<Rightarrow> (elevationProfilePayload upstreamOutcome, 's cacheWorld) singleFlight \<Rightarrow> pollOptions
     \<Rightarrow> elevationUpstreamConfig \<Rightarrow> string \<Rightarrow> elevationProfilePayload \<Rightarrow> 's cacheWorld
     \<Rightarrow> (elevationError + elevationProfilePayload) \<times> 's cacheWorld" where
  "storeProfile store flight poll cfg key computed w =
     (let opts = profileOptions cfg key computed;
          (res, background, w1) = readThrough store flight poll opts w;
          w2 = (if background then revalidate store flight opts w1 else w1)
      in case res of
           Inl e \<Rightarrow> (Inl (CacheReadThrew e), w2)
         | Inr stored \<Rightarrow>
             (Inr (if rKind stored = K_ok
                   then (case rValue stored of Some v \<Rightarrow> v | None \<Rightarrow> computed) else computed), w2))"

definition getProfile ::
    "(elevationProfilePayload, 's) upstreamCacheStore
     \<Rightarrow> (elevationProfilePayload upstreamOutcome, 's cacheWorld) singleFlight \<Rightarrow> pollOptions
     \<Rightarrow> elevationUpstreamConfig \<Rightarrow> geometry \<Rightarrow> fetchSchedule \<Rightarrow> geoPoint \<Rightarrow> geoPoint
     \<Rightarrow> tileCache \<times> 's cacheWorld
     \<Rightarrow> ((elevationError + (elevationProfileDto \<times> bool)) \<times> tileCache \<times> 's cacheWorld) option" where
  "getProfile store flight poll cfg geometry schedule queryFrom queryTo st =
     (let a = \<lparr>gpLat = quantiseCoordinate (gpLat queryFrom), gpLon = quantiseCoordinate (gpLon queryFrom)\<rparr>;
          b = \<lparr>gpLat = quantiseCoordinate (gpLat queryTo), gpLon = quantiseCoordinate (gpLon queryTo)\<rparr>
      in if gpLat a = gpLat b \<and> gpLon a = gpLon b then Some (Inl EndpointsCoincide, st)
         else
          (let key = profileCacheKey a b;
               (tiles, w) = st;
               (peeked, w1) = peekProfile store cfg key w
           in case (if rKind peeked = K_ok then rValue peeked else None) of
                Some v \<Rightarrow> Some (Inr (toDto v, True), tiles, w1)
              | None \<Rightarrow>
                 (case computeProfile cfg geometry schedule a b (tiles, w1) of
                    None \<Rightarrow> None
                  | Some (Inl e, st') \<Rightarrow> Some (Inl e, st')
                  | Some (Inr (computed, isComplete), tiles', w2) \<Rightarrow>
                     if \<not> isComplete
                     then Some (Inr (toDto computed, False), tiles',
                            countCache M_elevation_profile_partial ELEVATION_PROVIDER_TERRAIN_TILES w2)
                     else (case storeProfile store flight poll cfg key computed w2 of
                             (Inl e, w3) \<Rightarrow> Some (Inl e, tiles', w3)
                           | (Inr v, w3) \<Rightarrow> Some (Inr (toDto v, True), tiles', w3)))))"

section \<open>The payload is the samples\<close>

definition sampleValue :: "(string, int16Array) jsmap \<Rightarrow> rat \<times> tilePixelPosition \<Rightarrow> elevationError + int option" where
  "sampleValue grids x =
     (case js_get grids (tileKey TERRAIN_SAMPLE_ZOOM (tpX (snd x)) (tpY (snd x))) of
        None \<Rightarrow> Inr None
      | Some g \<Rightarrow>
          (case bilinearSample g (tpPixelX (snd x)) (tpPixelY (snd x)) TILE_SIZE of
             Inl e \<Rightarrow> Inl (SampleError e) | Inr v \<Rightarrow> Inr (Some (js_round v))))"

definition someValues :: "int option list \<Rightarrow> int list" where
  "someValues xs = concat (map (\<lambda>x. case x of None \<Rightarrow> [] | Some v \<Rightarrow> [v]) xs)"

lemma someValues_simps [simp]:
  "someValues [] = []" "someValues (xs @ [None]) = someValues xs"
  "someValues (xs @ [Some v]) = someValues xs @ [v]"
  by (simp_all add: someValues_def)

definition loop_ok :: "sampleLoop \<Rightarrow> bool" where
  "loop_ok s \<longleftrightarrow> length (slElevations s) = length (slDistances s)
     \<and> slResolved s = length (someValues (slElevations s))
     \<and> slMin s = (if someValues (slElevations s) = [] then None else Some (Min (set (someValues (slElevations s)))))
     \<and> slMax s = (if someValues (slElevations s) = [] then None else Some (Max (set (someValues (slElevations s)))))"

lemma keep_min_max: "(if v < m then Some v else Some m) = Some (min v m)"
  "(if m < v then Some v else Some m) = Some (max v m)" for v m :: int
  by simp_all

lemma sampleStep_Inr:
  assumes "loop_ok s" and "sampleStep grids x s = Inr s'"
  shows "loop_ok s' \<and> slDistances s' = slDistances s @ [roundTo (fst x) 3]
    \<and> (\<exists>v. sampleValue grids x = Inr v \<and> slElevations s' = slElevations s @ [v])"
proof (cases "js_get grids (tileKey TERRAIN_SAMPLE_ZOOM (tpX (snd x)) (tpY (snd x)))")
  case None
  with assms show ?thesis by (cases x) (auto simp: sampleStep_def sampleValue_def loop_ok_def Let_def)
next
  case (Some g)
  then obtain v where v: "bilinearSample g (tpPixelX (snd x)) (tpPixelY (snd x)) TILE_SIZE = Inr v"
    using assms(2) by (cases x; cases "bilinearSample g (tpPixelX (snd x)) (tpPixelY (snd x)) TILE_SIZE")
      (auto simp: sampleStep_def Let_def)
  let ?xs = "someValues (slElevations s)"
  have s': "s' = s\<lparr>slDistances := slDistances s @ [roundTo (fst x) 3],
      slElevations := slElevations s @ [Some (js_round v)], slResolved := slResolved s + 1,
      slMin := (case slMin s of None \<Rightarrow> Some (js_round v)
                | Some m \<Rightarrow> if js_round v < m then Some (js_round v) else Some m),
      slMax := (case slMax s of None \<Rightarrow> Some (js_round v)
                | Some m \<Rightarrow> if js_round v > m then Some (js_round v) else Some m)\<rparr>"
    using assms(2) Some v by (cases x) (simp add: sampleStep_def Let_def)
  have "loop_ok s'"
  proof (cases "?xs = []")
    case True
    with assms(1) show ?thesis by (simp add: loop_ok_def s')
  next
    case False
    obtain m M where m: "slMin s = Some m" "m = Min (set ?xs)" and M: "slMax s = Some M" "M = Max (set ?xs)"
      using assms(1) False by (auto simp: loop_ok_def)
    have "slMin s' = Some (min (js_round v) m)" "slMax s' = Some (max (js_round v) M)"
      unfolding s' using m(1) M(1) by (simp_all only: option.case keep_min_max) simp_all
    moreover have "min (js_round v) m = Min (set (?xs @ [js_round v]))"
      "max (js_round v) M = Max (set (?xs @ [js_round v]))" using False m(2) M(2) by simp_all
    moreover have "slElevations s' = slElevations s @ [Some (js_round v)]" "slResolved s' = slResolved s + 1"
      "length (slDistances s') = length (slDistances s) + 1" by (simp_all add: s')
    ultimately show ?thesis using assms(1) by (simp add: loop_ok_def)
  qed
  with Some v s' show ?thesis by (simp add: sampleValue_def)
qed

lemma sampleStep_Inl: "sampleStep grids x s = Inl e \<longleftrightarrow> sampleValue grids x = Inl e"
  by (cases x) (auto simp: sampleStep_def sampleValue_def Let_def split: option.split sum.split)

lemma sampleAll_Inr:
  "loop_ok s \<Longrightarrow> sampleAll grids xs s = Inr s' \<Longrightarrow>
    loop_ok s' \<and> slDistances s' = slDistances s @ map (\<lambda>x. roundTo (fst x) 3) xs
    \<and> (\<exists>vs. map (sampleValue grids) xs = map Inr vs \<and> slElevations s' = slElevations s @ vs)"
proof (induction xs arbitrary: s)
  case Nil
  then show ?case by auto
next
  case (Cons x xs)
  then obtain t where t: "sampleStep grids x s = Inr t" "sampleAll grids xs t = Inr s'"
    by (auto simp: andThen_eq_Inr)
  from sampleStep_Inr [OF Cons.prems(1) t(1)] obtain v where
    v: "loop_ok t" "slDistances t = slDistances s @ [roundTo (fst x) 3]" "sampleValue grids x = Inr v"
      "slElevations t = slElevations s @ [v]" by blast
  from Cons.IH [OF v(1) t(2)] obtain vs where
    vs: "loop_ok s'" "slDistances s' = slDistances t @ map (\<lambda>x. roundTo (fst x) 3) xs"
      "map (sampleValue grids) xs = map Inr vs" "slElevations s' = slElevations t @ vs" by blast
  have "map (sampleValue grids) (x # xs) = map Inr (v # vs)" using v vs by simp
  moreover have "slElevations s' = slElevations s @ v # vs" using v vs by simp
  moreover have "slDistances s' = slDistances s @ map (\<lambda>x. roundTo (fst x) 3) (x # xs)" using v vs by simp
  ultimately show ?case using vs(1) by blast
qed

lemma someValues_full: "length (someValues vs) = length vs \<longleftrightarrow> None \<notin> set vs"
proof -
  have "length (someValues vs) \<le> length vs \<and> (length (someValues vs) = length vs \<longleftrightarrow> None \<notin> set vs)"
  proof (induction vs)
    case (Cons v vs)
    then show ?case by (cases v) (auto simp: someValues_def)
  qed simp
  then show ?thesis by simp
qed

text \<open>
  a profile is exactly its samples: the elevation of each is the rounded bilinear sample of
  its tile or null when the tile is missing, the resolved count is the number of non-null ones,
  the lists are empty exactly when nothing was resolved, the minimum and maximum are those of
  the resolved elevations, and with 200 samples it is complete exactly when none is null.
\<close>

theorem profile_summary_exact:
  assumes "assembleProfile a b samples grids = Inr (p, isComplete)"
  shows "\<exists>vs. map (sampleValue grids) samples = map Inr vs
    \<and> epResolvedSampleCount p = length (someValues vs)
    \<and> epElevationsM p = (if someValues vs = [] then [] else vs)
    \<and> epDistancesKm p = (if someValues vs = [] then [] else map (\<lambda>x. roundTo (fst x) 3) samples)
    \<and> epMinElevationM p = (if someValues vs = [] then None else Some (Min (set (someValues vs))))
    \<and> epMaxElevationM p = (if someValues vs = [] then None else Some (Max (set (someValues vs))))
    \<and> (length samples = 200 \<longrightarrow> (isComplete \<longleftrightarrow> None \<notin> set vs))"
proof -
  let ?s0 = "\<lparr>slDistances = [], slElevations = [], slMin = None, slMax = None, slResolved = 0\<rparr>"
  obtain s where s: "sampleAll grids samples ?s0 = Inr s"
    and p: "p = \<lparr>epFrom = a, epTo = b, epLengthKm = roundTo (if samples = [] then 0 else fst (last samples)) 3,
                epSampleCount = ELEVATION_PROFILE_SAMPLE_COUNT, epSampleZoom = TERRAIN_SAMPLE_ZOOM,
                epResolvedSampleCount = slResolved s,
                epDistancesKm = (if slResolved s = 0 then [] else slDistances s),
                epElevationsM = (if slResolved s = 0 then [] else slElevations s),
                epMinElevationM = slMin s, epMaxElevationM = slMax s\<rparr>"
    and c: "isComplete \<longleftrightarrow> slResolved s = ELEVATION_PROFILE_SAMPLE_COUNT"
    using assms unfolding assembleProfile_def andThen_eq_Inr Let_def by auto
  have "loop_ok ?s0" by (simp add: loop_ok_def)
  from sampleAll_Inr [OF this s] obtain vs where
    vs: "loop_ok s" "slDistances s = map (\<lambda>x. roundTo (fst x) 3) samples"
      "map (sampleValue grids) samples = map Inr vs" "slElevations s = vs" by auto
  have len: "length vs = length samples" using vs(3) by (metis length_map)
  have n: "slResolved s = length (someValues vs)" using vs(1,4) by (simp add: loop_ok_def)
  have "isComplete \<longleftrightarrow> None \<notin> set vs" if "length samples = 200"
    using someValues_full [of vs] that len c n by (simp add: ELEVATION_PROFILE_SAMPLE_COUNT_def)
  then show ?thesis using vs n p by (intro exI [of _ vs]) (simp add: loop_ok_def)
qed

lemma cell_value:
  "length g = TILE_SIZE * TILE_SIZE \<Longrightarrow> \<exists>v. bilinearSample g px py TILE_SIZE = Inr v"
  by (simp add: bilinearSample_def Let_def)

lemma sampleAll_no_error:
  assumes "gridsOk grids"
  shows "sampleAll grids xs s \<noteq> Inl e"
proof (induction xs arbitrary: s)
  case (Cons x xs)
  have "sampleValue grids x \<noteq> Inl e" for e
  proof (cases "js_get grids (tileKey TERRAIN_SAMPLE_ZOOM (tpX (snd x)) (tpY (snd x)))")
    case (Some g)
    with assms have "length g = TILE_SIZE * TILE_SIZE" unfolding gridsOk_def by blast
    then obtain v where "bilinearSample g (tpPixelX (snd x)) (tpPixelY (snd x)) TILE_SIZE = Inr v"
      using cell_value by blast
    with Some show ?thesis by (simp add: sampleValue_def)
  qed (simp add: sampleValue_def)
  then have "sampleStep grids x s \<noteq> Inl e" for e using sampleStep_Inl by metis
  with Cons show ?case by (auto simp: andThen_eq_Inl)
qed simp

theorem profile_summary_exact_witness:
  "\<exists>p isComplete. assembleProfile \<lparr>gpLat = 39, gpLon = 32\<rparr> \<lparr>gpLat = 40, gpLon = 33\<rparr>
      [(0, \<lparr>tpX = 1, tpY = 2, tpPixelX = 3, tpPixelY = 4\<rparr>),
       (10, \<lparr>tpX = 1, tpY = 3, tpPixelX = 3, tpPixelY = 4\<rparr>)]
      [(''12/1/3'', replicate 65536 7)] = Inr (p, isComplete)
    \<and> epElevationsM p \<noteq> [] \<and> epResolvedSampleCount p = 1"
proof -
  define g :: int16Array where "g = replicate 65536 7"
  let ?a = "\<lparr>gpLat = 39, gpLon = 32\<rparr> :: geoPoint" let ?b = "\<lparr>gpLat = 40, gpLon = 33\<rparr> :: geoPoint"
  let ?x = "(0 :: rat, \<lparr>tpX = 1, tpY = 2, tpPixelX = 3, tpPixelY = 4\<rparr>)"
  let ?y = "(10 :: rat, \<lparr>tpX = 1, tpY = 3, tpPixelX = 3, tpPixelY = 4\<rparr>)"
  have key: "tileKey TERRAIN_SAMPLE_ZOOM 1 3 = ''12/1/3''" "tileKey TERRAIN_SAMPLE_ZOOM 1 2 = ''12/1/2''"
    by code_simp+
  obtain v where v: "bilinearSample g 3 4 TILE_SIZE = Inr v"
    using cell_value [of g 3 4] by (auto simp: g_def TILE_SIZE_def)
  have vals: "sampleValue [(''12/1/3'', g)] ?x = Inr None"
    "sampleValue [(''12/1/3'', g)] ?y = Inr (Some (js_round v))"
    using v key by (simp_all add: sampleValue_def js_get_def)
  have "gridsOk [(''12/1/3'', g)]" by (simp add: gridsOk_def js_get_def g_def TILE_SIZE_def)
  then have "\<exists>s. sampleAll [(''12/1/3'', g)] [?x, ?y] s0 = Inr s" for s0
    using sampleAll_no_error [of "[(''12/1/3'', g)]" "[?x, ?y]" s0]
    by (cases "sampleAll [(''12/1/3'', g)] [?x, ?y] s0") auto
  then obtain p c where run: "assembleProfile ?a ?b [?x, ?y] [(''12/1/3'', g)] = Inr (p, c)"
    by (fastforce simp: assembleProfile_def andThen_eq_Inr Let_def)
  from profile_summary_exact [OF this] vals obtain vs where
    "vs = [None, Some (js_round v)]" "epElevationsM p = (if someValues vs = [] then [] else vs)"
    "epResolvedSampleCount p = length (someValues vs)" by auto
  then have "epElevationsM p \<noteq> []" "epResolvedSampleCount p = 1" by (simp_all add: someValues_def)
  with run show ?thesis unfolding g_def by blast
qed

section \<open>What a request leaves behind\<close>

definition completeProfile :: "elevationProfilePayload \<Rightarrow> bool" where
  "completeProfile p \<longleftrightarrow> epResolvedSampleCount p = ELEVATION_PROFILE_SAMPLE_COUNT"

text \<open>Every profile in the cache, now and later, has all its samples.\<close>

definition profilesComplete :: "nat \<Rightarrow> elevationProfilePayload inProcessStore cacheWorld \<Rightarrow> bool" where
  "profilesComplete n w \<longleftrightarrow> inProcess_ok n (wStore w)
     \<and> (\<forall>t \<ge> wNow w. \<forall>k e p. inProcessView (wStore w) t k = Some e \<longrightarrow> payload e = Some p
          \<longrightarrow> completeProfile p)"

lemma profilesComplete_holds: "profilesComplete n = inProcess.holds n completeProfile"
  by (rule ext) (simp add: profilesComplete_def inProcess.holds_def)

lemma splitCached_grids:
  "tileCache_ok n c \<Longrightarrow> gridsOk resolved \<Longrightarrow> splitCached needed resolved missing c = (r, m, c') \<Longrightarrow>
    tileCache_ok n c' \<and> gridsOk r"
proof (induction needed resolved missing c rule: splitCached.induct)
  case (2 key x y needed resolved missing c)
  obtain found c1 where get: "tileCacheGet key c = (found, c1)" by fastforce
  have ok: "tileCache_ok n c1" using tileCacheGet_entries [OF "2.prems"(1), of key] get by simp
  show ?case
  proof (cases found)
    case None
    with 2 get ok show ?thesis by simp
  next
    case (Some g)
    then have "g \<in> snd ` set (tcEntries c)"
      using get by (auto simp: tileCacheGet_def dest: js_get_Some_mem split: option.splits)
    then have "length g = TILE_SIZE * TILE_SIZE" using "2.prems"(1) by (auto simp: tileCache_ok_def)
    with 2 get ok Some show ?thesis by simp
  qed
qed simp

lemma reportWholesaleNoData_frame [simp]:
  "wStore (reportWholesaleNoData a b w) = wStore w" "wNow (reportWholesaleNoData a b w) = wNow w"
  by (simp_all add: reportWholesaleNoData_def split: prod.split)

lemma resolveTiles_ok:
  assumes "tileCache_ok n tiles" and "\<And>m. wNow w \<le> snd (schedule m)"
    and "resolveTiles cfg schedule needed (tiles, w) = Some (res, tiles', w')"
  shows "tileCache_ok n tiles' \<and> wStore w' = wStore w \<and> wNow w \<le> wNow w'
    \<and> (\<forall>grids. res = Inr grids \<longrightarrow> gridsOk grids) \<and> (\<forall>e. res \<noteq> Inl (SampleError e))"
proof -
  obtain resolved missing c where sp: "splitCached needed [] [] tiles = (resolved, missing, c)"
    by (metis prod_cases3)
  from splitCached_grids [OF assms(1) gridsOk_Nil sp] have c: "tileCache_ok n c" "gridsOk resolved" by auto
  show ?thesis
  proof (cases "missing = []")
    case True
    with assms(3) sp c show ?thesis by (auto simp: resolveTiles_def)
  next
    case False
    show ?thesis
    proof (cases "newOperationDeadline (cfgRequestDeadlineMs cfg) (wNow w)")
      case (Inl e)
      with False assms(3) sp c show ?thesis by (auto simp: resolveTiles_def)
    next
      case (Inr dl)
      obtain events after where ev: "schedule missing = (events, after)" by fastforce
      let ?s = "poolRun missing dl events (newPool (cfgTileFetchConcurrency cfg) missing resolved c)"
      have "tileCache_ok n (poolCache ?s) \<and> gridsOk (poolResolved ?s)"
        by (rule poolRun_grids) (use c in \<open>simp_all add: newPool_def\<close>)
      moreover have "wNow w \<le> after" using assms(2) [of missing] ev by simp
      ultimately show ?thesis using False Inr assms(3) sp ev
        by (auto simp: resolveTiles_def Let_def split: if_splits)
    qed
  qed
qed

lemma computeProfile_ok:
  assumes "tileCache_ok n tiles" and "\<And>m. wNow w \<le> snd (schedule m)"
    and "computeProfile cfg geometry schedule a b (tiles, w) = Some (res, tiles', w')"
  shows "tileCache_ok n tiles' \<and> wStore w' = wStore w \<and> wNow w \<le> wNow w'
    \<and> (\<forall>p c. res = Inr (p, c) \<longrightarrow> (c \<longleftrightarrow> completeProfile p)) \<and> (\<forall>e. res \<noteq> Inl (SampleError e))"
proof (cases "geometry a b ELEVATION_PROFILE_SAMPLE_COUNT")
  case (Inl e)
  with assms show ?thesis by (auto simp: computeProfile_def)
next
  case (Inr samples)
  let ?needed = "neededTiles (map snd samples)"
  show ?thesis
  proof (cases "length ?needed > cfgMaxTilesPerRequest cfg")
    case True
    with assms Inr show ?thesis by (auto simp: computeProfile_def Let_def)
  next
    case False
    then obtain res1 st where r: "resolveTiles cfg schedule ?needed (tiles, w) = Some (res1, st)"
      using assms(3) Inr by (auto simp: computeProfile_def Let_def split: option.splits)
    then obtain tiles1 w1 where st: "st = (tiles1, w1)" by (cases st)
    note ok = resolveTiles_ok [OF assms(1,2) r [unfolded st]]
    show ?thesis
    proof (cases res1)
      case (Inl e)
      with False assms(3) Inr r st ok show ?thesis by (auto simp: computeProfile_def Let_def)
    next
      case grids: (Inr grids)
      then have "assembleProfile a b samples grids \<noteq> Inl e" for e
        using sampleAll_no_error ok by (auto simp: assembleProfile_def andThen_eq_Inl Let_def)
      moreover have "c \<longleftrightarrow> completeProfile p" if "assembleProfile a b samples grids = Inr (p, c)" for p c
        using that by (auto simp: assembleProfile_def andThen_eq_Inr Let_def completeProfile_def)
      ultimately show ?thesis using False assms(3) Inr r st ok grids
        by (auto simp: computeProfile_def Let_def)
    qed
  qed
qed

lemma storeProfile_ok:
  assumes "profilesComplete n w" and "completeProfile computed"
    and "\<And>t. t \<le> pollSleep poll t (pollDelayMs poll)"
    and "storeProfile inProcessStoreOps runNow poll cfg key computed w = (res, w')"
  shows "profilesComplete n w' \<and> (\<forall>v. res = Inr v \<longrightarrow> completeProfile v) \<and> (\<forall>e. res \<noteq> Inl (SampleError e))"
proof -
  let ?opts = "profileOptions cfg key computed"
  obtain r bg w1 where rt: "readThrough inProcessStoreOps runNow poll ?opts w = (r, bg, w1)"
    by (metis prod_cases3)
  have keeps: "inProcess.refreshKeeps n completeProfile (optRefresh ?opts d)" for d
    using assms(2) by (auto simp: inProcess.refreshKeeps_def profileOptions_def)
  have h: "inProcess.holds n completeProfile w" using assms(1) by (simp add: profilesComplete_holds)
  note rd = inProcess.readThrough_holds [OF inProcess.flightKeeps_runNow keeps assms(3) h rt]
  have bg: "inProcess.holds n completeProfile (revalidate inProcessStoreOps runNow ?opts w1)"
    using inProcess.revalidate_holds [OF inProcess.flightKeeps_runNow keeps] rd by blast
  from assms(4) rt rd bg assms(2) show ?thesis
    unfolding profilesComplete_holds storeProfile_def Let_def
    by (cases r) (auto split: if_splits option.splits)
qed

text \<open>
  C29: whatever the cache and the tile cache hold, whatever the workers' schedule and the answers
  are, a request keeps every cached profile complete, answers as cacheable exactly the profiles
  with all 200 samples resolved, and never fails for a grid of the wrong size.
\<close>

theorem cached_profiles_complete:
  assumes "profilesComplete n w" and "tileCache_ok m tiles"
    and "\<And>jobs. wNow w \<le> snd (schedule jobs)"
    and "\<And>t. t \<le> pollSleep poll t (pollDelayMs poll)"
    and "getProfile inProcessStoreOps runNow poll cfg geometry schedule a b (tiles, w)
      = Some (res, tiles', w')"
  shows "profilesComplete n w' \<and> tileCache_ok m tiles'
    \<and> (case res of
         Inl e \<Rightarrow> e \<notin> range SampleError
       | Inr (dto, cacheable) \<Rightarrow> (cacheable \<longleftrightarrow> dtoResolvedSampleCount dto = 200))"
proof -
  let ?a = "\<lparr>gpLat = quantiseCoordinate (gpLat a), gpLon = quantiseCoordinate (gpLon a)\<rparr>"
  let ?b = "\<lparr>gpLat = quantiseCoordinate (gpLat b), gpLon = quantiseCoordinate (gpLon b)\<rparr>"
  let ?key = "profileCacheKey ?a ?b"
  have dto: "dtoResolvedSampleCount (toDto p) = 200 \<longleftrightarrow> completeProfile p" for p
    by (simp add: toDto_def completeProfile_def ELEVATION_PROFILE_SAMPLE_COUNT_def)
  obtain peeked w1 where pk: "peekProfile inProcessStoreOps cfg ?key w = (peeked, w1)" by fastforce
  have h1: "profilesComplete n w1" and peeked: "\<And>v. rValue peeked = Some v \<Longrightarrow> completeProfile v"
    using inProcess.peek_holds [where P = completeProfile and n = n, OF _ pk [unfolded peekProfile_def]] assms(1)
    unfolding profilesComplete_holds by blast+
  have now1: "wNow w1 = wNow w"
    using inProcessInstant.peek_now [OF _ pk [unfolded peekProfile_def]] assms(1)
    unfolding profilesComplete_def by blast
  show ?thesis
  proof (cases "gpLat ?a = gpLat ?b \<and> gpLon ?a = gpLon ?b")
    case True
    with assms show ?thesis by (auto simp: getProfile_def Let_def)
  next
    case differ: False
    show ?thesis
    proof (cases "if rKind peeked = K_ok then rValue peeked else None")
      case (Some v)
      with differ pk assms(2,5) h1 peeked show ?thesis
        by (auto simp: getProfile_def Let_def dto split: if_splits)
    next
      case None
      then obtain res1 tiles1 w2 where
        c: "computeProfile cfg geometry schedule ?a ?b (tiles, w1) = Some (res1, tiles1, w2)"
        using differ pk assms(5) by (auto simp: getProfile_def Let_def split: option.splits)
      have "\<And>m. wNow w1 \<le> snd (schedule m)" using assms(3) now1 by simp
      note ok = computeProfile_ok [OF assms(2) this c]
      have h2: "profilesComplete n w2"
        using h1 ok unfolding profilesComplete_holds by (blast intro: inProcess.holds_store_eq)
      show ?thesis
      proof (cases res1)
        case (Inl e)
        with None differ pk assms(5) c ok h2 show ?thesis by (auto simp: getProfile_def Let_def)
      next
        case (Inr pc)
        obtain p isC where pc: "pc = (p, isC)" by (cases pc)
        show ?thesis
        proof (cases isC)
          case False
          have "profilesComplete n (countCache M_elevation_profile_partial
              ELEVATION_PROVIDER_TERRAIN_TILES w2)"
            using h2 by (simp add: profilesComplete_holds)
          with False None differ pk assms(5) c ok Inr pc show ?thesis
            by (auto simp: getProfile_def Let_def dto)
        next
          case True
          obtain r3 w3 where st: "storeProfile inProcessStoreOps runNow poll cfg ?key p w2 = (r3, w3)"
            by fastforce
          have "completeProfile p" using ok Inr pc True by blast
          note stored = storeProfile_ok [OF h2 this assms(4) st]
          from True None differ pk assms(5) c ok Inr pc st stored show ?thesis
            by (cases r3) (auto simp: getProfile_def Let_def dto)
        qed
      qed
    qed
  qed
qed

definition exampleEnv :: elevationEnv where
  "exampleEnv =
     \<lparr>ELEVATION_ENABLED = True, ELEVATION_BASE_URL = ''https://tiles'',
      ELEVATION_PROFILE_TTL_SECONDS = 2592000, ELEVATION_ERROR_TTL_SECONDS = 60,
      ELEVATION_CLIENT_ERROR_TTL_SECONDS = 600, ELEVATION_SCHEMA_ERROR_TTL_SECONDS = 3600,
      ELEVATION_UPSTREAM_DEADLINE_MS = 8000, ELEVATION_SINGLE_CALL_TIMEOUT_MS = 4000,
      ELEVATION_MAX_TILES_PER_REQUEST = 4, ELEVATION_TILE_FETCH_CONCURRENCY = 1,
      ELEVATION_TILE_MAX_RESPONSE_BYTES = 90, ELEVATION_TILE_CACHE_MAX_TILES = 4\<rparr>"

definition exampleGeometry :: geometry where
  "exampleGeometry a b n =
     Inr [(0, \<lparr>tpX = 1, tpY = 3, tpPixelX = 3, tpPixelY = 4\<rparr>),
          (10, \<lparr>tpX = 1, tpY = 3, tpPixelX = 9, tpPixelY = 4\<rparr>)]"

definition noDataSchedule :: fetchSchedule where
  "noDataSchedule jobs =
     ([WorkerTake 0 10, WorkerAnswer 0 (Out_no_data (R_missing 404)), WorkerTake 0 20], 20)"

definition emptyCacheWorld :: "elevationProfilePayload inProcessStore cacheWorld" where
  "emptyCacheWorld = \<lparr>wNow = 0, wStore = newInProcessStore 5, wMetrics = metrics_init\<rparr>"

definition exampleRequest where
  "exampleRequest =
     getProfile inProcessStoreOps runNow examplePoll (buildElevationUpstreamConfig exampleEnv)
       exampleGeometry noDataSchedule \<lparr>gpLat = 39, gpLon = 32\<rparr> \<lparr>gpLat = 40, gpLon = 33\<rparr>
       (exampleCache, emptyCacheWorld)"

theorem cached_profiles_complete_witness:
  "\<exists>dto tiles' w'. exampleRequest = Some (Inr (dto, False), tiles', w') \<and> profilesComplete 5 w'
     \<and> dtoResolvedSampleCount dto \<noteq> 200"
proof -
  have shape: "case x of Some (Inr (dto, c), t, w') \<Rightarrow> \<not> c | _ \<Rightarrow> False
      \<Longrightarrow> \<exists>dto t w'. x = Some (Inr (dto, False), t, w')"
    for x :: "((elevationError + (elevationProfileDto \<times> bool)) \<times> tileCache
       \<times> elevationProfilePayload inProcessStore cacheWorld) option"
    by (cases x; cases "fst (the x)") auto
  have "case exampleRequest of Some (Inr (dto, c), t, w') \<Rightarrow> \<not> c | _ \<Rightarrow> False" by code_simp
  from shape [OF this] obtain dto tiles' w' where r: "exampleRequest = Some (Inr (dto, False), tiles', w')"
    by blast
  have "profilesComplete 5 emptyCacheWorld"
    by (auto simp: profilesComplete_def emptyCacheWorld_def inProcess_ok_def inProcessView_def
        newInProcessStore_def)
  moreover have "tileCache_ok 4 exampleCache" by (simp add: tileCache_ok_def exampleCache_def)
  moreover have "wNow emptyCacheWorld \<le> snd (noDataSchedule jobs)" for jobs
    by (simp add: emptyCacheWorld_def noDataSchedule_def)
  moreover have "t \<le> pollSleep examplePoll t (pollDelayMs examplePoll)" for t
    by (simp add: examplePoll_def DEFAULT_POLL_DELAY_MS_def)
  ultimately show ?thesis
    using r cached_profiles_complete [OF _ _ _ _ r [unfolded exampleRequest_def], of 5 4] by auto
qed

end
