(* ===== verification/Js_Text.thy ===== *)
theory Js_Text
  imports Prelude
begin

text \<open>
  Text as the TypeScript code sees it: a sequence of UTF-16 code units, with the white space of
  \<open>trim\<close> and \<open>\s\<close>, decimal digits, prefixes, padding, and regular expressions as functions
  that list every match at the start of a text in the order a backtracking matcher tries them.
  JSON values are the result of the platform's \<open>JSON.parse\<close>.
\<close>

section \<open>Code units\<close>

type_synonym jsText = "int list"

definition ascii :: "string \<Rightarrow> jsText" where
  "ascii s = map of_char s"

definition isDigit :: "int \<Rightarrow> bool" where
  "isDigit c \<longleftrightarrow> 48 \<le> c \<and> c \<le> 57"

text \<open>\<open>\s\<close> and what \<open>trim\<close> removes: the white space and line terminators of the language.\<close>

definition isSpace :: "int \<Rightarrow> bool" where
  "isSpace c \<longleftrightarrow> (9 \<le> c \<and> c \<le> 13) \<or> c = 32 \<or> c = 0xA0 \<or> c = 0x1680 \<or> (0x2000 \<le> c \<and> c \<le> 0x200A)
     \<or> c = 0x2028 \<or> c = 0x2029 \<or> c = 0x202F \<or> c = 0x205F \<or> c = 0x3000 \<or> c = 0xFEFF"

definition isLineEnd :: "int \<Rightarrow> bool" where
  "isLineEnd c \<longleftrightarrow> c = 10 \<or> c = 13 \<or> c = 0x2028 \<or> c = 0x2029"

definition trimStart :: "jsText \<Rightarrow> jsText" where
  "trimStart s = dropWhile isSpace s"

definition trimEnd :: "jsText \<Rightarrow> jsText" where
  "trimEnd s = rev (dropWhile isSpace (rev s))"

definition trim :: "jsText \<Rightarrow> jsText" where
  "trim s = trimEnd (trimStart s)"

definition startsWith :: "jsText \<Rightarrow> jsText \<Rightarrow> bool" where
  "startsWith s p \<longleftrightarrow> take (length p) s = p"

definition padStart :: "nat \<Rightarrow> int \<Rightarrow> jsText \<Rightarrow> jsText" where
  "padStart n c s = replicate (n - length s) c @ s"

definition padEnd :: "nat \<Rightarrow> int \<Rightarrow> jsText \<Rightarrow> jsText" where
  "padEnd n c s = s @ replicate (n - length s) c"

text \<open>\<open>s.includes(t)\<close>\<close>

definition textIncludes :: "jsText \<Rightarrow> jsText \<Rightarrow> bool" where
  "textIncludes s t \<longleftrightarrow> list_ex (\<lambda>i. startsWith (drop i s) t) [0 ..< Suc (length s)]"

lemma startsWith_append [simp]: "startsWith (p @ s) p"
  by (simp add: startsWith_def)

lemma startsWith_refl [simp]: "startsWith p p"
  by (simp add: startsWith_def)

lemma trimEnd_prefix: "\<exists>r. s = trimEnd s @ r"
proof -
  have "rev s = takeWhile isSpace (rev s) @ dropWhile isSpace (rev s)" by simp
  then have "rev (rev s) = rev (dropWhile isSpace (rev s)) @ rev (takeWhile isSpace (rev s))"
    by (metis rev_append)
  then show ?thesis by (auto simp: trimEnd_def)
qed

lemma startsWith_trim: "startsWith (trimStart s) (trim s)"
  using trimEnd_prefix [of "trimStart s"] unfolding trim_def
  by (metis startsWith_append)

section \<open>Numbers in decimal\<close>

definition digitsValue :: "jsText \<Rightarrow> int" where
  "digitsValue s = foldl (\<lambda>a c. a * 10 + (c - 48)) 0 s"

text \<open>The \<open>n\<close> last digits of a number, with leading zeros.\<close>

fun paddedDigits :: "nat \<Rightarrow> int \<Rightarrow> jsText" where
  "paddedDigits 0 v = []"
| "paddedDigits (Suc n) v = paddedDigits n (v div 10) @ [48 + v mod 10]"

lemma length_paddedDigits [simp]: "length (paddedDigits n v) = n"
  by (induction n arbitrary: v) auto

lemma digitsValue_Nil [simp]: "digitsValue [] = 0"
  by (simp add: digitsValue_def)

lemma digitsValue_snoc [simp]: "digitsValue (s @ [c]) = digitsValue s * 10 + (c - 48)"
  by (simp add: digitsValue_def)

lemma digitsValue_bounds:
  "list_all isDigit s \<Longrightarrow> 0 \<le> digitsValue s \<and> digitsValue s < 10 ^ length s"
proof (induction s rule: rev_induct)
  case Nil
  then show ?case by simp
next
  case (snoc c s)
  then have "0 \<le> digitsValue s" "digitsValue s < 10 ^ length s" "48 \<le> c" "c \<le> 57"
    by (simp_all add: isDigit_def)
  then show ?case by simp
qed

lemma digits_paddedDigits [simp]: "list_all isDigit (paddedDigits n v)"
  by (induction n arbitrary: v) (auto simp: isDigit_def)

lemma digitsValue_paddedDigits: "0 \<le> v \<Longrightarrow> v < 10 ^ n \<Longrightarrow> digitsValue (paddedDigits n v) = v"
proof (induction n arbitrary: v)
  case 0
  then show ?case by simp
next
  case (Suc n)
  have "v div 10 < 10 ^ n" using Suc.prems by simp
  with Suc have "digitsValue (paddedDigits n (v div 10)) = v div 10" by simp
  then show ?case by simp
qed

lemma paddedDigits_digitsValue:
  "list_all isDigit s \<Longrightarrow> paddedDigits (length s) (digitsValue s) = s"
proof (induction s rule: rev_induct)
  case Nil
  then show ?case by simp
next
  case (snoc c s)
  then have c: "48 \<le> c" "c \<le> 57" and ds: "list_all isDigit s"
    by (simp_all add: isDigit_def [of c])
  from c have "(digitsValue s * 10 + (c - 48)) div 10 = digitsValue s"
    "(digitsValue s * 10 + (c - 48)) mod 10 = c - 48" by simp_all
  with snoc.IH [OF ds] show ?case by simp
qed

lemma digitsValue_append_zeros: "digitsValue (s @ replicate k 48) = digitsValue s * 10 ^ k"
proof (induction k)
  case 0
  then show ?case by simp
next
  case (Suc k)
  have "s @ replicate (Suc k) 48 = (s @ replicate k 48) @ [48]" by (simp add: replicate_append_same)
  with Suc show ?case by (simp only: digitsValue_snoc) simp
qed

lemma digitsValue_zero:
  "list_all isDigit s \<Longrightarrow> digitsValue s = 0 \<Longrightarrow> s = replicate (length s) 48"
proof (induction s rule: rev_induct)
  case Nil
  then show ?case by simp
next
  case (snoc c s)
  then have "list_all isDigit s" "48 \<le> c" by (simp_all add: isDigit_def [of c])
  moreover have "0 \<le> digitsValue s" using digitsValue_bounds \<open>list_all isDigit s\<close> by blast
  ultimately have "digitsValue s = 0" "c = 48" using snoc.prems by auto
  with snoc.IH \<open>list_all isDigit s\<close> have "s = replicate (length s) 48" by blast
  with \<open>c = 48\<close> show ?case by (metis length_append_singleton replicate_Suc replicate_append_same)
qed

section \<open>Regular expressions\<close>

text \<open>
  A regular expression is a function from a text to its matches at the start of the text, each
  with what it consumed and what is left, in the order a backtracking matcher tries them:
  \<open>exec\<close> of an anchored expression is the first of them.
\<close>

type_synonym regex = "jsText \<Rightarrow> (jsText \<times> jsText) list"

definition rxClass :: "(int \<Rightarrow> bool) \<Rightarrow> regex" where
  "rxClass P s = (case s of [] \<Rightarrow> [] | c # r \<Rightarrow> if P c then [([c], r)] else [])"

definition rxText :: "jsText \<Rightarrow> regex" where
  "rxText t s = (if startsWith s t then [(t, drop (length t) s)] else [])"

text \<open>\<open>P*\<close>: the longest run first; \<open>P*?\<close>: the shortest first; \<open>P{m,n}\<close>: the longest first.\<close>

definition rxStar :: "(int \<Rightarrow> bool) \<Rightarrow> regex" where
  "rxStar P s = map (\<lambda>n. (take n s, drop n s)) (rev [0 ..< Suc (length (takeWhile P s))])"

definition rxPlus :: "(int \<Rightarrow> bool) \<Rightarrow> regex" where
  "rxPlus P s = map (\<lambda>n. (take n s, drop n s)) (rev [1 ..< Suc (length (takeWhile P s))])"

definition rxLazyPlus :: "(int \<Rightarrow> bool) \<Rightarrow> regex" where
  "rxLazyPlus P s = map (\<lambda>n. (take n s, drop n s)) [1 ..< Suc (length (takeWhile P s))]"

definition rxRepeat :: "nat \<Rightarrow> nat \<Rightarrow> (int \<Rightarrow> bool) \<Rightarrow> regex" where
  "rxRepeat m n P s =
     map (\<lambda>k. (take k s, drop k s)) (rev [m ..< Suc (min n (length (takeWhile P s)))])"

definition rxEnd :: "jsText \<Rightarrow> bool" where
  "rxEnd s \<longleftrightarrow> s = []"

lemma rxClass_mem: "(m, r) \<in> set (rxClass P s) \<Longrightarrow> s = m @ r \<and> list_all P m \<and> length m = 1"
  by (auto simp: rxClass_def split: list.splits if_splits)

lemma rxText_mem: "(m, r) \<in> set (rxText t s) \<Longrightarrow> s = m @ r \<and> m = t"
  by (auto simp: rxText_def startsWith_def split: if_splits) (metis append_take_drop_id)

lemma takeWhile_all_take:
  assumes "n \<le> length (takeWhile P s)"
  shows "list_all P (take n s)"
proof -
  have "take n s = take n (takeWhile P s @ dropWhile P s)" by simp
  also have "\<dots> = take n (takeWhile P s)" using assms by (simp only: take_append) simp
  finally have "set (take n s) \<subseteq> set (takeWhile P s)" by (simp add: set_take_subset)
  then show ?thesis by (auto simp: list_all_iff dest: set_takeWhileD)
qed

lemma rxPlus_mem: "(m, r) \<in> set (rxPlus P s) \<Longrightarrow> s = m @ r \<and> list_all P m \<and> m \<noteq> []"
  by (auto simp: rxPlus_def takeWhile_all_take)

lemma rxLazyPlus_mem: "(m, r) \<in> set (rxLazyPlus P s) \<Longrightarrow> s = m @ r \<and> list_all P m \<and> m \<noteq> []"
  by (auto simp: rxLazyPlus_def takeWhile_all_take)

lemma rxStar_mem: "(m, r) \<in> set (rxStar P s) \<Longrightarrow> s = m @ r \<and> list_all P m"
  by (auto simp: rxStar_def takeWhile_all_take)

lemma rxRepeat_mem:
  "(m, r) \<in> set (rxRepeat a b P s) \<Longrightarrow> s = m @ r \<and> list_all P m \<and> a \<le> length m \<and> length m \<le> b"
proof -
  assume "(m, r) \<in> set (rxRepeat a b P s)"
  then obtain k where k: "m = take k s" "r = drop k s" "a \<le> k" "k \<le> b \<or> a = k \<and> k \<le> b"
    "k \<le> length (takeWhile P s)"
    by (auto simp: rxRepeat_def split: if_splits)
  moreover have "length (takeWhile P s) \<le> length s" by (rule length_takeWhile_le)
  ultimately show ?thesis by (auto simp: takeWhile_all_take)
qed

section \<open>Splitting\<close>

text \<open>\<open>text.split(separator)\<close> for one character.\<close>

fun splitOn :: "int \<Rightarrow> jsText \<Rightarrow> jsText list" where
  "splitOn d [] = [[]]"
| "splitOn d (c # cs) =
     (if c = d then [] # splitOn d cs
      else case splitOn d cs of p # ps \<Rightarrow> (c # p) # ps | [] \<Rightarrow> [[c]])"

lemma splitOn_nonempty: "splitOn d t \<noteq> []"
  by (induction t) (auto split: list.split)

lemma splitOn_append: "d \<notin> set p \<Longrightarrow> splitOn d (p @ d # r) = p # splitOn d r"
  by (induction p) (auto split: list.split)

lemma splitOn_plain: "d \<notin> set p \<Longrightarrow> splitOn d p = [p]"
  by (induction p) auto

lemma hd_splitOn: "hd (splitOn d t) = takeWhile (\<lambda>c. c \<noteq> d) t"
  by (induction t) (auto split: list.split dest: splitOn_nonempty [THEN notE])

section \<open>JSON\<close>

datatype json =
    JNull
  | JBool bool
  | JNumber rat
  | JString jsText
  | JArray "json list"
  | JObject "(jsText \<times> json) list"

text \<open>\<open>record[key]\<close>: absent is \<open>undefined\<close>.\<close>

definition jsonField :: "(jsText \<times> json) list \<Rightarrow> string \<Rightarrow> json option" where
  "jsonField r key = map_of r (ascii key)"

definition readString :: "(jsText \<times> json) list \<Rightarrow> string \<Rightarrow> jsText option" where
  "readString r key = (case jsonField r key of Some (JString s) \<Rightarrow> Some s | _ \<Rightarrow> None)"

lemma readString_Some: "readString r key = Some s \<longleftrightarrow> jsonField r key = Some (JString s)"
  by (auto simp: readString_def split: option.splits json.splits)

end
