(* ===== verification/Afad_Time.thy ===== *)
theory Afad_Time
  imports Js_Text
begin

text \<open>
  \<open>src/earthquake/afad/afad-time.ts\<close>: the provider's time stamps, with the calendar of the
  language (\<open>Date.UTC\<close> and the \<open>getUTC...\<close> readers) they rest on. An instant is its number of
  milliseconds since 1970.
\<close>

section \<open>The calendar of Date\<close>

definition MS_PER_DAY :: int where
  "MS_PER_DAY = 86400000"

definition isLeapYear :: "int \<Rightarrow> bool" where
  "isLeapYear y \<longleftrightarrow> (y mod 4 = 0 \<and> y mod 100 \<noteq> 0) \<or> y mod 400 = 0"

text \<open>The number of the first day of a year, and of a month (0 to 11) in its year.\<close>

definition dayFromYear :: "int \<Rightarrow> int" where
  "dayFromYear y = 365 * (y - 1970) + (y - 1969) div 4 - (y - 1901) div 100 + (y - 1601) div 400"

definition daysInMonth :: "bool \<Rightarrow> int \<Rightarrow> int" where
  "daysInMonth leap m =
     (if m = 1 then (if leap then 29 else 28)
      else if m = 3 \<or> m = 5 \<or> m = 8 \<or> m = 10 then 30 else 31)"

definition dayFromMonth :: "bool \<Rightarrow> int \<Rightarrow> int" where
  "dayFromMonth leap m = sum_list (map (\<lambda>k. daysInMonth leap (int k)) [0 ..< nat m])"

text \<open>\<open>Date.UTC\<close>, for a month in 0 to 11: a two-digit year is of the twentieth century.\<close>

definition dateUTC :: "int \<Rightarrow> int \<Rightarrow> int \<Rightarrow> int \<Rightarrow> int \<Rightarrow> int \<Rightarrow> int \<Rightarrow> ms" where
  "dateUTC year month day hour minute second milli =
     (let yr = (if 0 \<le> year \<and> year \<le> 99 then 1900 + year else year)
      in (dayFromYear yr + dayFromMonth (isLeapYear yr) month + day - 1) * MS_PER_DAY
         + hour * 3600000 + minute * 60000 + second * 1000 + milli)"

lemma div_step:
  fixes k n :: int
  assumes "0 < n"
  shows "(k + 1) div n = k div n + (if n dvd k + 1 then 1 else 0)"
proof (cases "k mod n = n - 1")
  case True
  then have "k + 1 = n * (k div n) + n" using mult_div_mod_eq [of n k] by linarith
  then have "k + 1 = n * (k div n + 1)" by (simp add: distrib_left)
  with assms show ?thesis by (metis dvd_triv_left nonzero_mult_div_cancel_left order_less_irrefl)
next
  case False
  then have r: "0 \<le> k mod n + 1" "k mod n + 1 < n"
    using assms pos_mod_bound [of n k] pos_mod_sign [of n k] by linarith+
  have "k + 1 = n * (k div n) + (k mod n + 1)" by simp
  with r have "(k + 1) div n = k div n" "(k + 1) mod n = k mod n + 1"
    by (metis int_div_pos_eq, metis int_mod_pos_eq)
  moreover have "k mod n + 1 \<noteq> 0" using pos_mod_sign [of n k] assms by linarith
  ultimately show ?thesis by (simp add: dvd_eq_mod_eq_0)
qed

lemma leap_count:
  fixes y a b c :: int
  assumes "a' = a + (if p then 1 else 0)" "b' = b + (if q then 1 else 0)"
    "c' = c + (if r then 1 else 0)" "r \<Longrightarrow> q" "q \<Longrightarrow> p"
  shows "365 * (y + 1 - 1970) + a' - b' + c'
    = 365 * (y - 1970) + a - b + c + (if p \<and> \<not> q \<or> r then 366 else 365)"
  using assms by (cases p; cases q; cases r) auto

lemma dayFromYear_step: "dayFromYear (y + 1) = dayFromYear y + (if isLeapYear y then 366 else 365)"
proof -
  have d: "(4::int) dvd (y - 1968) \<longleftrightarrow> 4 dvd y" "(100::int) dvd (y - 1900) \<longleftrightarrow> 100 dvd y"
    "(400::int) dvd (y - 1600) \<longleftrightarrow> 400 dvd y"
    by (simp_all add: dvd_diff_left_iff)
  have quarters: "(y + 1 - 1969) div 4 = (y - 1969) div 4 + (if 4 dvd y then 1 else 0)"
    using div_step [of 4 "y - 1969"] d by (simp add: algebra_simps)
  have centuries: "(y + 1 - 1901) div 100 = (y - 1901) div 100 + (if 100 dvd y then 1 else 0)"
    using div_step [of 100 "y - 1901"] d by (simp add: algebra_simps)
  have cycles: "(y + 1 - 1601) div 400 = (y - 1601) div 400 + (if 400 dvd y then 1 else 0)"
    using div_step [of 400 "y - 1601"] d by (simp add: algebra_simps)
  have leap: "isLeapYear y \<longleftrightarrow> 4 dvd y \<and> \<not> 100 dvd y \<or> 400 dvd y"
    by (simp add: isLeapYear_def dvd_eq_mod_eq_0)
  have "(400::int) dvd y \<Longrightarrow> 100 dvd y" "(100::int) dvd y \<Longrightarrow> 4 dvd y"
    by (auto elim: dvd_trans [rotated])
  with quarters centuries cycles show ?thesis
    unfolding dayFromYear_def leap by (rule leap_count)
qed

lemma dayFromYear_after: "0 \<le> n \<Longrightarrow> dayFromYear (1970 + n) \<le> 366 * n"
proof (induction n rule: int_ge_induct)
  case base
  then show ?case by (simp add: dayFromYear_def)
next
  case (step n)
  then show ?case using dayFromYear_step [of "1970 + n"] by (simp add: add.assoc split: if_splits)
qed

lemma dayFromYear_before: "n \<le> 0 \<Longrightarrow> dayFromYear (1970 + n) \<le> 365 * n"
proof (induction n rule: int_le_induct)
  case base
  then show ?case by (simp add: dayFromYear_def)
next
  case (step n)
  then show ?case using dayFromYear_step [of "1970 + n - 1"]
    by (simp add: algebra_simps split: if_splits)
qed

lemma dayFromYear_mono: "y \<le> z \<Longrightarrow> dayFromYear y \<le> dayFromYear z"
proof (induction z rule: int_ge_induct)
  case base
  then show ?case by simp
next
  case (step z)
  then show ?case by (simp add: dayFromYear_step split: if_splits)
qed

text \<open>The year of a day: the last one that does not start after it.\<close>

function yearFrom :: "int \<Rightarrow> int \<Rightarrow> int" where
  "yearFrom d y = (if dayFromYear (y + 1) \<le> d then yearFrom d (y + 1) else y)"
  by auto

termination
  by (relation "measure (\<lambda>(d, y). nat (d + 1 - dayFromYear y))")
    (auto simp: dayFromYear_step split: if_splits)

declare yearFrom.simps [simp del]

definition yearOfDay :: "int \<Rightarrow> int" where
  "yearOfDay d = yearFrom d (1970 + min (d div 365) (d div 366))"

fun monthFrom :: "bool \<Rightarrow> int \<Rightarrow> nat \<Rightarrow> int" where
  "monthFrom leap d 0 = 0"
| "monthFrom leap d (Suc m) =
     (if dayFromMonth leap (int (Suc m)) \<le> d then int (Suc m) else monthFrom leap d m)"

definition getUTCFullYear :: "ms \<Rightarrow> int" where
  "getUTCFullYear t = yearOfDay (t div MS_PER_DAY)"

definition dayWithinYear :: "ms \<Rightarrow> int" where
  "dayWithinYear t = t div MS_PER_DAY - dayFromYear (getUTCFullYear t)"

definition getUTCMonth :: "ms \<Rightarrow> int" where
  "getUTCMonth t = monthFrom (isLeapYear (getUTCFullYear t)) (dayWithinYear t) 11"

definition getUTCDate :: "ms \<Rightarrow> int" where
  "getUTCDate t =
     dayWithinYear t - dayFromMonth (isLeapYear (getUTCFullYear t)) (getUTCMonth t) + 1"

definition getUTCHours :: "ms \<Rightarrow> int" where
  "getUTCHours t = t div 3600000 mod 24"

definition getUTCMinutes :: "ms \<Rightarrow> int" where
  "getUTCMinutes t = t div 60000 mod 60"

definition getUTCSeconds :: "ms \<Rightarrow> int" where
  "getUTCSeconds t = t div 1000 mod 60"

definition getUTCMilliseconds :: "ms \<Rightarrow> int" where
  "getUTCMilliseconds t = t mod 1000"

text \<open>\<open>toISOString\<close>: a year outside 0 to 9999 has a sign and six digits.\<close>

definition isoYear :: "int \<Rightarrow> jsText" where
  "isoYear y = (if 0 \<le> y \<and> y \<le> 9999 then paddedDigits 4 y
     else (if y < 0 then 45 else 43) # paddedDigits 6 \<bar>y\<bar>)"

definition toISOString :: "ms \<Rightarrow> jsText" where
  "toISOString t =
     isoYear (getUTCFullYear t) @ [45] @ paddedDigits 2 (getUTCMonth t + 1) @ [45]
     @ paddedDigits 2 (getUTCDate t) @ [84] @ paddedDigits 2 (getUTCHours t) @ [58]
     @ paddedDigits 2 (getUTCMinutes t) @ [58] @ paddedDigits 2 (getUTCSeconds t) @ [46]
     @ paddedDigits 3 (getUTCMilliseconds t) @ [90]"

lemma yearFrom_bounds:
  "dayFromYear y \<le> d \<Longrightarrow> dayFromYear (yearFrom d y) \<le> d \<and> d < dayFromYear (yearFrom d y + 1)"
proof (induction d y rule: yearFrom.induct)
  case (1 d y)
  then show ?case by (subst (1 2) yearFrom.simps) simp
qed

lemma yearOfDay_bounds: "dayFromYear (yearOfDay d) \<le> d \<and> d < dayFromYear (yearOfDay d + 1)"
proof -
  let ?y = "1970 + min (d div 365) (d div 366)"
  have "dayFromYear ?y \<le> d"
  proof (cases "0 \<le> d")
    case True
    then have "0 \<le> d div 366" by (simp add: pos_imp_zdiv_nonneg_iff)
    then have "dayFromYear (1970 + d div 366) \<le> d"
      using dayFromYear_after [of "d div 366"] mult_div_mod_eq [of 366 d] pos_mod_sign [of 366 d]
      by linarith
    moreover have "dayFromYear ?y \<le> dayFromYear (1970 + d div 366)" by (rule dayFromYear_mono) simp
    ultimately show ?thesis by simp
  next
    case False
    then have "dayFromYear (1970 + d div 365) \<le> d"
      using dayFromYear_before [of "d div 365"] mult_div_mod_eq [of 365 d] pos_mod_sign [of 365 d]
      by linarith
    moreover have "dayFromYear ?y \<le> dayFromYear (1970 + d div 365)" by (rule dayFromYear_mono) simp
    ultimately show ?thesis by simp
  qed
  then show ?thesis unfolding yearOfDay_def by (rule yearFrom_bounds)
qed

lemma yearOfDay_unique:
  assumes "dayFromYear y \<le> d" "d < dayFromYear (y + 1)"
  shows "yearOfDay d = y"
  using yearOfDay_bounds [of d] assms dayFromYear_mono [of "yearOfDay d + 1" y]
    dayFromYear_mono [of "y + 1" "yearOfDay d"] by linarith

lemma daysInMonth_pos: "0 < daysInMonth leap m"
  by (simp add: daysInMonth_def)

lemma dayFromMonth_Suc: "dayFromMonth leap (int (Suc m)) = dayFromMonth leap (int m) + daysInMonth leap (int m)"
  by (simp add: dayFromMonth_def nat_add_distrib)

lemma dayFromMonth_mono: "a \<le> b \<Longrightarrow> dayFromMonth leap (int a) \<le> dayFromMonth leap (int b)"
proof (induction b rule: dec_induct)
  case base
  then show ?case by simp
next
  case (step b)
  then show ?case using dayFromMonth_Suc [of leap b] daysInMonth_pos [of leap "int b"] by linarith
qed

lemma monthFrom_unique:
  assumes "dayFromMonth leap (int m) \<le> d" "d < dayFromMonth leap (int (Suc m))" "m \<le> n"
  shows "monthFrom leap d n = int m"
  using \<open>m \<le> n\<close>
proof (induction n rule: dec_induct)
  case base
  then show ?case using assms by (cases m) (simp_all only: monthFrom.simps if_True of_nat_0)
next
  case (step n)
  have "dayFromMonth leap (int (Suc m)) \<le> dayFromMonth leap (int (Suc n))"
    by (rule dayFromMonth_mono) (use step in simp)
  with assms have "\<not> dayFromMonth leap (int (Suc n)) \<le> d" by linarith
  with step show ?case by (simp only: monthFrom.simps if_False)
qed

section \<open>Stamps\<close>

record afadInstant =
  instant :: ms
  fractionDigits :: nat
  subMillisecondRemainder :: int

text \<open>\<open>AFAD_TIMESTAMP\<close>: the six fields, and the fraction when there is one.\<close>

definition takeDigits :: "nat \<Rightarrow> jsText \<Rightarrow> (jsText \<times> jsText) option" where
  "takeDigits n s =
     (if n \<le> length s \<and> list_all isDigit (take n s) then Some (take n s, drop n s) else None)"

definition takeUnit :: "int \<Rightarrow> jsText \<Rightarrow> jsText option" where
  "takeUnit c s = (case s of [] \<Rightarrow> None | x # r \<Rightarrow> if x = c then Some r else None)"

definition timestampFraction :: "jsText \<Rightarrow> jsText option option" where
  "timestampFraction s =
     (if s = [] then Some None
      else case takeUnit 46 s of None \<Rightarrow> None
      | Some f \<Rightarrow> if 1 \<le> length f \<and> length f \<le> 6 \<and> list_all isDigit f then Some (Some f) else None)"

definition matchTimestamp ::
  "jsText \<Rightarrow> (jsText \<times> jsText \<times> jsText \<times> jsText \<times> jsText \<times> jsText \<times> jsText option) option" where
  "matchTimestamp s =
     Option.bind (takeDigits 4 s) (\<lambda>(y, s). Option.bind (takeUnit 45 s) (\<lambda>s.
     Option.bind (takeDigits 2 s) (\<lambda>(mo, s). Option.bind (takeUnit 45 s) (\<lambda>s.
     Option.bind (takeDigits 2 s) (\<lambda>(d, s). Option.bind (takeUnit 84 s) (\<lambda>s.
     Option.bind (takeDigits 2 s) (\<lambda>(h, s). Option.bind (takeUnit 58 s) (\<lambda>s.
     Option.bind (takeDigits 2 s) (\<lambda>(mi, s). Option.bind (takeUnit 58 s) (\<lambda>s.
     Option.bind (takeDigits 2 s) (\<lambda>(se, s). Option.bind (timestampFraction s) (\<lambda>f.
       Some (y, mo, d, h, mi, se, f)))))))))))))"

definition parseAfadUtc :: "jsText \<Rightarrow> afadInstant option" where
  "parseAfadUtc raw =
     (case matchTimestamp raw of None \<Rightarrow> None
      | Some (yearText, monthText, dayText, hourText, minuteText, secondText, fractionText) \<Rightarrow>
       (let year = digitsValue yearText; month = digitsValue monthText; day = digitsValue dayText;
            hour = digitsValue hourText; minute = digitsValue minuteText;
            second = digitsValue secondText
        in if month < 1 \<or> month > 12 \<or> day < 1 \<or> day > 31 then None
           else if hour > 23 \<or> minute > 59 \<or> second > 59 then None
           else
            (let fraction = (case fractionText of None \<Rightarrow> [] | Some f \<Rightarrow> f);
                 nDigits = length fraction;
                 milliseconds =
                   (if nDigits = 0 then 0 else digitsValue (padEnd 3 48 (take 3 fraction)));
                 remainderText = (if nDigits > 3 then drop 3 fraction else []);
                 remainder = (if remainderText = [] then 0 else digitsValue remainderText);
                 epochMs = dateUTC year (month - 1) day hour minute second milliseconds
             in if getUTCFullYear epochMs \<noteq> year \<or> getUTCMonth epochMs \<noteq> month - 1 then None
                else if getUTCDate epochMs \<noteq> day then None
                else Some \<lparr>instant = epochMs, fractionDigits = nDigits,
                           subMillisecondRemainder = remainder\<rparr>)))"

text \<open>
  \<open>getUTCMilliseconds().toString().padStart(3, '0')\<close> of a number below 1000 is its three
  digits.
\<close>

definition formatAfadUtc :: "ms \<Rightarrow> nat \<Rightarrow> jsText" where
  "formatAfadUtc t nDigits =
     (let base = take 19 (toISOString t)
      in if nDigits = 0 then base
         else base @ [46] @
           take nDigits (padEnd (max nDigits 3) 48 (paddedDigits 3 (getUTCMilliseconds t))))"

definition toAfadQueryStamp :: "ms \<Rightarrow> jsText" where
  "toAfadQueryStamp t = take 19 (toISOString t)"

section \<open>Reading a stamp back\<close>

lemma takeDigits_Some:
  "takeDigits n s = Some (d, r) \<longleftrightarrow> s = d @ r \<and> length d = n \<and> list_all isDigit d"
  by (auto simp: takeDigits_def)

lemma takeUnit_Some: "takeUnit c s = Some r \<longleftrightarrow> s = c # r"
  by (auto simp: takeUnit_def split: list.splits)

lemma timestampFraction_Some:
  "timestampFraction s = Some f \<longleftrightarrow>
     (case f of None \<Rightarrow> s = []
      | Some ds \<Rightarrow> s = 46 # ds \<and> 1 \<le> length ds \<and> length ds \<le> 6 \<and> list_all isDigit ds)"
  by (auto simp: timestampFraction_def takeUnit_Some split: option.splits)
    (auto simp: takeUnit_def)

lemma matchTimestamp_Some:
  assumes "matchTimestamp s = Some (y, mo, d, h, mi, se, f)"
  shows "\<exists>r. s = y @ 45 # mo @ 45 # d @ 84 # h @ 58 # mi @ 58 # se @ r \<and> timestampFraction r = Some f"
    and "length y = 4" "length mo = 2" "length d = 2" "length h = 2" "length mi = 2" "length se = 2"
    and "list_all isDigit y" "list_all isDigit mo" "list_all isDigit d" "list_all isDigit h"
      "list_all isDigit mi" "list_all isDigit se"
  using assms unfolding matchTimestamp_def
  by (clarsimp simp only: Option.bind_eq_Some_conv takeDigits_Some takeUnit_Some split_paired_Ex
      prod.case option.inject prod.inject; simp)+

lemma matchTimestamp_of:
  assumes "length y = 4" "length mo = 2" "length d = 2" "length h = 2" "length mi = 2" "length se = 2"
    and "list_all isDigit y" "list_all isDigit mo" "list_all isDigit d" "list_all isDigit h"
      "list_all isDigit mi" "list_all isDigit se"
    and "timestampFraction r = Some f"
  shows "matchTimestamp (y @ 45 # mo @ 45 # d @ 84 # h @ 58 # mi @ 58 # se @ r)
    = Some (y, mo, d, h, mi, se, f)"
proof -
  have T: "takeDigits n (a @ b) = Some (a, b)" if "length a = n" "list_all isDigit a" for n a b
    using that by (simp add: takeDigits_Some)
  have U: "takeUnit c (c # b) = Some b" for c b by (simp add: takeUnit_def)
  show ?thesis
    using assms unfolding matchTimestamp_def by (simp only: T U Option.bind.simps prod.case)
qed

lemma div_exact: "0 \<le> r \<Longrightarrow> r < n \<Longrightarrow> (n * q + r) div n = q" for n q r :: int
  by (rule int_div_pos_eq [where r = r]) simp_all

lemma mod_exact: "0 \<le> r \<Longrightarrow> r < n \<Longrightarrow> (n * q + r) mod n = r" for n q r :: int
  by (rule int_mod_pos_eq [where q = q]) simp_all

text \<open>What the readers return for day number, hour, minute, second and millisecond.\<close>

lemma time_of_day:
  assumes "t = D * MS_PER_DAY + h * 3600000 + m * 60000 + s * 1000 + z"
    "0 \<le> h" "h \<le> 23" "0 \<le> m" "m \<le> 59" "0 \<le> s" "s \<le> 59" "0 \<le> z" "z \<le> 999"
  shows "t div MS_PER_DAY = D" "getUTCHours t = h" "getUTCMinutes t = m" "getUTCSeconds t = s"
    "getUTCMilliseconds t = z"
proof -
  show "t div MS_PER_DAY = D"
    using div_exact [of "h * 3600000 + m * 60000 + s * 1000 + z" MS_PER_DAY D] assms
    by (simp add: MS_PER_DAY_def algebra_simps)
  have "t div 3600000 = 24 * D + h"
    using div_exact [of "m * 60000 + s * 1000 + z" 3600000 "24 * D + h"] assms
    by (simp add: MS_PER_DAY_def algebra_simps)
  with assms show "getUTCHours t = h" using mod_exact [of h 24 D] by (simp add: getUTCHours_def)
  have "t div 60000 = 60 * (24 * D + h) + m"
    using div_exact [of "s * 1000 + z" 60000 "60 * (24 * D + h) + m"] assms
    by (simp add: MS_PER_DAY_def algebra_simps)
  with assms show "getUTCMinutes t = m" using mod_exact [of m 60 "24 * D + h"]
    by (simp only: getUTCMinutes_def)
  have "t div 1000 = 60 * (60 * (24 * D + h) + m) + s"
    using div_exact [of z 1000 "60 * (60 * (24 * D + h) + m) + s"] assms
    by (simp add: MS_PER_DAY_def algebra_simps)
  with assms show "getUTCSeconds t = s" using mod_exact [of s 60 "60 * (24 * D + h) + m"]
    by (simp only: getUTCSeconds_def)
  show "getUTCMilliseconds t = z"
    using mod_exact [of z 1000 "60 * (60 * (24 * D + h) + m) + s"] assms
    by (simp add: MS_PER_DAY_def getUTCMilliseconds_def algebra_simps)
qed

lemma date_of_day:
  assumes "t div MS_PER_DAY = dayFromYear y + dayFromMonth (isLeapYear y) (int m) + d - 1"
    and "m < 12" "1 \<le> d" "d \<le> daysInMonth (isLeapYear y) (int m)"
  shows "getUTCFullYear t = y" "getUTCMonth t = int m" "getUTCDate t = d"
proof -
  have "dayFromMonth (isLeapYear y) (int m) + d \<le> dayFromMonth (isLeapYear y) (int (Suc m))"
    using assms(4) by (simp only: dayFromMonth_Suc)
  moreover have "dayFromMonth (isLeapYear y) (int (Suc m)) \<le> dayFromMonth (isLeapYear y) (int 12)"
    by (rule dayFromMonth_mono) (use assms in simp)
  moreover have "dayFromMonth l (int 12) = (if l then 366 else 365)" for l
    by (simp add: dayFromMonth_def daysInMonth_def upt_rec numeral_eq_Suc)
  moreover have "0 \<le> dayFromMonth l (int m)" for l
    using dayFromMonth_mono [of 0 m l] by (simp add: dayFromMonth_def)
  ultimately have rng: "dayFromMonth (isLeapYear y) (int m) + d - 1 < dayFromMonth (isLeapYear y) (int (Suc m))"
    "dayFromYear y \<le> t div MS_PER_DAY" "t div MS_PER_DAY < dayFromYear (y + 1)"
    using assms(1,3) unfolding dayFromYear_step by (smt (verit))+
  show y: "getUTCFullYear t = y"
    unfolding getUTCFullYear_def by (rule yearOfDay_unique) (fact rng)+
  have w: "dayWithinYear t = dayFromMonth (isLeapYear y) (int m) + d - 1"
    unfolding dayWithinYear_def y using assms(1) by simp
  show m: "getUTCMonth t = int m"
    unfolding getUTCMonth_def y w
    by (rule monthFrom_unique) (use rng assms in auto)
  show "getUTCDate t = d" unfolding getUTCDate_def w y m by simp
qed

text \<open>The fraction a stamp carries, in whole milliseconds and beyond.\<close>

definition fractionMs :: "jsText \<Rightarrow> int" where
  "fractionMs f = (if f = [] then 0 else digitsValue (padEnd 3 48 (take 3 f)))"

definition fractionRest :: "jsText \<Rightarrow> int" where
  "fractionRest f = (if length f \<le> 3 then 0 else digitsValue (drop 3 f))"

definition fractionOf :: "jsText option \<Rightarrow> jsText" where
  "fractionOf f = (case f of None \<Rightarrow> [] | Some ds \<Rightarrow> ds)"

lemma fractionMs_digits:
  assumes "list_all isDigit f"
  shows "0 \<le> fractionMs f" "fractionMs f \<le> 999"
    "f \<noteq> [] \<Longrightarrow> paddedDigits 3 (fractionMs f) = padEnd 3 48 (take 3 f)"
proof -
  have ds: "list_all isDigit (padEnd 3 48 (take 3 f))"
    using assms by (auto simp: padEnd_def list_all_iff isDigit_def dest: in_set_takeD)
  have len: "length (padEnd 3 48 (take 3 f)) = 3" by (simp add: padEnd_def)
  show "0 \<le> fractionMs f" "fractionMs f \<le> 999"
    using digitsValue_bounds [OF ds] by (auto simp: fractionMs_def len)
  show "f \<noteq> [] \<Longrightarrow> paddedDigits 3 (fractionMs f) = padEnd 3 48 (take 3 f)"
    using paddedDigits_digitsValue [OF ds] by (simp add: fractionMs_def len)
qed

lemma fraction_padded:
  assumes "list_all isDigit f" "f \<noteq> []" "fractionRest f = 0"
  shows "take (length f) (padEnd (max (length f) 3) 48 (paddedDigits 3 (fractionMs f))) = f"
proof (cases "length f \<le> 3")
  case True
  then show ?thesis using fractionMs_digits(3) [OF assms(1,2)] by (simp add: padEnd_def)
next
  case False
  have "list_all isDigit (drop 3 f)" using assms(1) by (auto simp: list_all_iff dest: in_set_dropD)
  moreover have "digitsValue (drop 3 f) = 0" using assms(3) False by (simp add: fractionRest_def)
  ultimately have "drop 3 f = replicate (length f - 3) 48" using digitsValue_zero by fastforce
  then have "f = take 3 f @ replicate (length f - 3) 48" by (metis append_take_drop_id)
  then show ?thesis
    using False fractionMs_digits(3) [OF assms(1,2)] by (simp add: padEnd_def)
qed

lemma parseAfadUtc_of_match:
  assumes "matchTimestamp raw = Some (y, mo, d, h, mi, se, f)"
    and "t = dateUTC (digitsValue y) (digitsValue mo - 1) (digitsValue d) (digitsValue h)
           (digitsValue mi) (digitsValue se) (fractionMs (fractionOf f))"
  shows "parseAfadUtc raw =
    (if 1 \<le> digitsValue mo \<and> digitsValue mo \<le> 12 \<and> 1 \<le> digitsValue d \<and> digitsValue d \<le> 31
        \<and> digitsValue h \<le> 23 \<and> digitsValue mi \<le> 59 \<and> digitsValue se \<le> 59
        \<and> getUTCFullYear t = digitsValue y \<and> getUTCMonth t = digitsValue mo - 1
        \<and> getUTCDate t = digitsValue d
     then Some \<lparr>instant = t, fractionDigits = length (fractionOf f),
            subMillisecondRemainder = fractionRest (fractionOf f)\<rparr>
     else None)"
proof -
  have F: "(if length g = 0 then 0 else digitsValue (padEnd 3 48 (take 3 g))) = fractionMs g"
    "(if (if length g > 3 then drop 3 g else []) = [] then 0
      else digitsValue (if length g > 3 then drop 3 g else [])) = fractionRest g" for g
    by (simp_all add: fractionMs_def fractionRest_def)
  show ?thesis
    unfolding parseAfadUtc_def assms(1) option.case prod.case Let_def fractionOf_def [symmetric] F
      assms(2) [symmetric]
    by (simp only: if_split not_less not_le) (simp; linarith)
qed

lemma timestampFraction_digits:
  "timestampFraction r = Some f \<Longrightarrow>
     list_all isDigit (fractionOf f) \<and> length (fractionOf f) \<le> 6
     \<and> r = (if fractionOf f = [] then [] else 46 # fractionOf f)"
  by (auto simp: timestampFraction_Some fractionOf_def split: option.splits)

lemma digitsValue_two: "length s = 2 \<Longrightarrow> list_all isDigit s \<Longrightarrow> 0 \<le> digitsValue s \<and> digitsValue s < 100"
  using digitsValue_bounds [of s] by simp

lemma digitsValue_four:
  "length s = 4 \<Longrightarrow> list_all isDigit s \<Longrightarrow> 0 \<le> digitsValue s \<and> digitsValue s < 10000"
  using digitsValue_bounds [of s] by simp

text \<open>Everything an accepted stamp is known to satisfy.\<close>

lemma parseAfadUtc_SomeD:
  assumes "parseAfadUtc raw = Some i"
  obtains y mo d h mi se f where
    "matchTimestamp raw = Some (y, mo, d, h, mi, se, f)"
    "fractionDigits i = length (fractionOf f)" "subMillisecondRemainder i = fractionRest (fractionOf f)"
    "getUTCFullYear (instant i) = digitsValue y" "getUTCMonth (instant i) + 1 = digitsValue mo"
    "getUTCDate (instant i) = digitsValue d" "getUTCHours (instant i) = digitsValue h"
    "getUTCMinutes (instant i) = digitsValue mi" "getUTCSeconds (instant i) = digitsValue se"
    "getUTCMilliseconds (instant i) = fractionMs (fractionOf f)"
proof -
  obtain y mo d h mi se f where m: "matchTimestamp raw = Some (y, mo, d, h, mi, se, f)"
    using assms by (fastforce simp: parseAfadUtc_def split: option.splits)
  note M = matchTimestamp_Some [OF m]
  let ?t = "dateUTC (digitsValue y) (digitsValue mo - 1) (digitsValue d) (digitsValue h)
           (digitsValue mi) (digitsValue se) (fractionMs (fractionOf f))"
  have c: "digitsValue h \<le> 23 \<and> digitsValue mi \<le> 59 \<and> digitsValue se \<le> 59
      \<and> getUTCFullYear ?t = digitsValue y \<and> getUTCMonth ?t = digitsValue mo - 1
      \<and> getUTCDate ?t = digitsValue d"
    and i: "i = \<lparr>instant = ?t, fractionDigits = length (fractionOf f),
            subMillisecondRemainder = fractionRest (fractionOf f)\<rparr>"
    using assms unfolding parseAfadUtc_of_match [OF m refl] by (auto split: if_splits)
  have "list_all isDigit (fractionOf f)"
    using M(1) timestampFraction_digits by blast
  note F = fractionMs_digits(1,2) [OF this]
  have T: "getUTCHours ?t = digitsValue h \<and> getUTCMinutes ?t = digitsValue mi
      \<and> getUTCSeconds ?t = digitsValue se \<and> getUTCMilliseconds ?t = fractionMs (fractionOf f)"
    using c F digitsValue_two M unfolding dateUTC_def Let_def
    by (intro conjI time_of_day(2-5) [OF refl]) blast+
  show thesis by (rule that [OF m]) (use c T i in simp_all)
qed

lemma take_iso:
  assumes "0 \<le> getUTCFullYear t" "getUTCFullYear t \<le> 9999"
  shows "take 19 (toISOString t) =
     paddedDigits 4 (getUTCFullYear t) @ [45] @ paddedDigits 2 (getUTCMonth t + 1) @ [45]
     @ paddedDigits 2 (getUTCDate t) @ [84] @ paddedDigits 2 (getUTCHours t) @ [58]
     @ paddedDigits 2 (getUTCMinutes t) @ [58] @ paddedDigits 2 (getUTCSeconds t)"
  using assms by (simp add: toISOString_def isoYear_def)

lemma parsed_second:
  assumes "parseAfadUtc raw = Some i" "matchTimestamp raw = Some (y, mo, d, h, mi, se, f)"
  shows "take 19 (toISOString (instant i)) = y @ 45 # mo @ 45 # d @ 84 # h @ 58 # mi @ 58 # se"
proof -
  note M = matchTimestamp_Some [OF assms(2)]
  have P: "paddedDigits 2 (digitsValue s) = s" if "length s = 2" "list_all isDigit s" for s
    using paddedDigits_digitsValue [OF that(2)] that(1) by simp
  have P4: "paddedDigits 4 (digitsValue y) = y"
    using paddedDigits_digitsValue [OF M(8)] M(2) by simp
  have "getUTCFullYear (instant i) = digitsValue y" "getUTCMonth (instant i) + 1 = digitsValue mo"
    "getUTCDate (instant i) = digitsValue d" "getUTCHours (instant i) = digitsValue h"
    "getUTCMinutes (instant i) = digitsValue mi" "getUTCSeconds (instant i) = digitsValue se"
    using assms(2) by (auto intro: parseAfadUtc_SomeD [OF assms(1)])
  then show ?thesis
    using take_iso [of "instant i"] digitsValue_four [OF M(2) M(8)] M P P4 by simp
qed

lemma stamp_reads_back:
  assumes "parseAfadUtc raw = Some i"
  shows "startsWith raw (formatAfadUtc (instant i) 0)"
    and "subMillisecondRemainder i = 0 \<Longrightarrow> formatAfadUtc (instant i) (fractionDigits i) = raw"
proof -
  obtain y mo d h mi se f where m: "matchTimestamp raw = Some (y, mo, d, h, mi, se, f)"
    and n: "fractionDigits i = length (fractionOf f)"
    and z: "subMillisecondRemainder i = fractionRest (fractionOf f)"
    and u: "getUTCMilliseconds (instant i) = fractionMs (fractionOf f)"
    by (rule parseAfadUtc_SomeD [OF assms])
  note base = parsed_second [OF assms m]
  obtain r where raw: "raw = (y @ 45 # mo @ 45 # d @ 84 # h @ 58 # mi @ 58 # se) @ r"
    and r: "timestampFraction r = Some f" using matchTimestamp_Some(1) [OF m] by auto
  have R: "list_all isDigit (fractionOf f)" "r = (if fractionOf f = [] then [] else 46 # fractionOf f)"
    using timestampFraction_digits [OF r] by auto
  show "startsWith raw (formatAfadUtc (instant i) 0)"
    unfolding formatAfadUtc_def base raw by (simp only: Let_def simp_thms if_True startsWith_append)
  assume "subMillisecondRemainder i = 0"
  with z have "fractionOf f \<noteq> [] \<Longrightarrow>
      take (length (fractionOf f)) (padEnd (max (length (fractionOf f)) 3) 48
        (paddedDigits 3 (fractionMs (fractionOf f)))) = fractionOf f"
    using fraction_padded [OF R(1)] by simp
  then show "formatAfadUtc (instant i) (fractionDigits i) = raw"
    unfolding formatAfadUtc_def base n u raw by (cases "fractionOf f = []") (simp_all add: Let_def R(2))
qed

lemma monthFrom_upper: "monthFrom leap d n = int m \<Longrightarrow> m < n \<Longrightarrow> d < dayFromMonth leap (int (Suc m))"
proof (induction n)
  case 0
  then show ?case by simp
next
  case (Suc n)
  then have "\<not> dayFromMonth leap (int (Suc n)) \<le> d" by (auto split: if_splits)
  moreover from this Suc.prems have "monthFrom leap d n = int m" by (simp only: monthFrom.simps if_False)
  ultimately show ?case using Suc by (cases "m = n") auto
qed

lemma dateUTC_day:
  assumes "0 \<le> h" "h \<le> 23" "0 \<le> mi" "mi \<le> 59" "0 \<le> se" "se \<le> 59" "0 \<le> z" "z \<le> 999" "100 \<le> y"
  shows "dateUTC y m d h mi se z div MS_PER_DAY = dayFromYear y + dayFromMonth (isLeapYear y) m + d - 1"
  using assms by (intro time_of_day(1) [where h = h and m = mi and s = se and z = z])
    (simp_all add: dateUTC_def)

lemma dateUTC_early_year:
  assumes "0 \<le> h" "h \<le> 23" "0 \<le> mi" "mi \<le> 59" "0 \<le> se" "se \<le> 59" "0 \<le> z" "z \<le> 999"
    and "0 \<le> y" "y < 100" "1 \<le> d"
  shows "getUTCFullYear (dateUTC y m d h mi se z) \<noteq> y"
proof -
  have "dateUTC y m d h mi se z div MS_PER_DAY
      = dayFromYear (1900 + y) + dayFromMonth (isLeapYear (1900 + y)) m + d - 1"
    using assms by (intro time_of_day(1) [where h = h and m = mi and s = se and z = z])
      (simp_all add: dateUTC_def Let_def)
  moreover have "0 \<le> dayFromMonth l m" for l
    unfolding dayFromMonth_def by (rule sum_list_nonneg) (auto simp: daysInMonth_def)
  ultimately have "dayFromYear (1900 + y) \<le> dateUTC y m d h mi se z div MS_PER_DAY"
    using assms by (smt (verit))
  moreover have "dayFromYear (y + 1) \<le> dayFromYear (1900 + y)"
    by (rule dayFromYear_mono) simp
  ultimately show ?thesis
    using yearOfDay_bounds [of "dateUTC y m d h mi se z div MS_PER_DAY"]
    unfolding getUTCFullYear_def by (metis le_less_trans less_irrefl order.trans)
qed

lemma real_date:
  assumes "t div MS_PER_DAY = dayFromYear y + dayFromMonth (isLeapYear y) (int m) + d - 1"
    and "m < 12" "d \<le> 31" "getUTCFullYear t = y" "getUTCMonth t = int m"
  shows "d \<le> daysInMonth (isLeapYear y) (int m)"
proof (cases "m = 11")
  case True
  then show ?thesis using assms(3) by (simp add: daysInMonth_def)
next
  case False
  then have "dayWithinYear t < dayFromMonth (isLeapYear y) (int (Suc m))"
    using monthFrom_upper [of "isLeapYear y" "dayWithinYear t" 11 m] assms(2,4,5)
    by (simp add: getUTCMonth_def)
  then show ?thesis using assms(1) unfolding dayWithinYear_def dayFromMonth_Suc assms(4) by linarith
qed

text \<open>
  A stamp is accepted exactly when it has the documented shape, its time of day is real and
  its date exists in the calendar, in a year from 100 on: a year below 100 is read as one of the
  twentieth century by the platform and refused by the check that follows.
\<close>

theorem stamp_accepted_exactly:
  "parseAfadUtc raw \<noteq> None \<longleftrightarrow>
     (case matchTimestamp raw of None \<Rightarrow> False
      | Some (y, mo, d, h, mi, se, f) \<Rightarrow>
          100 \<le> digitsValue y \<and> 1 \<le> digitsValue mo \<and> digitsValue mo \<le> 12 \<and> 1 \<le> digitsValue d
          \<and> digitsValue d \<le> daysInMonth (isLeapYear (digitsValue y)) (digitsValue mo - 1)
          \<and> digitsValue h \<le> 23 \<and> digitsValue mi \<le> 59 \<and> digitsValue se \<le> 59)"
proof (cases "matchTimestamp raw")
  case None
  then show ?thesis by (simp add: parseAfadUtc_def)
next
  case (Some fields)
  obtain y mo d h mi se f where m: "matchTimestamp raw = Some (y, mo, d, h, mi, se, f)"
    using Some by (metis prod_cases7)
  note M = matchTimestamp_Some [OF m]
  define t where "t = dateUTC (digitsValue y) (digitsValue mo - 1) (digitsValue d) (digitsValue h)
           (digitsValue mi) (digitsValue se) (fractionMs (fractionOf f))"
  have F: "0 \<le> fractionMs (fractionOf f)" "fractionMs (fractionOf f) \<le> 999"
    using M(1) timestampFraction_digits fractionMs_digits(1,2) by blast+
  note nonneg = digitsValue_two [OF M(4) M(10)] digitsValue_two [OF M(5) M(11)]
    digitsValue_two [OF M(6) M(12)] digitsValue_two [OF M(7) M(13)] digitsValue_four [OF M(2) M(8)]
  let ?ok = "1 \<le> digitsValue mo \<and> digitsValue mo \<le> 12 \<and> 1 \<le> digitsValue d \<and> digitsValue d \<le> 31
        \<and> digitsValue h \<le> 23 \<and> digitsValue mi \<le> 59 \<and> digitsValue se \<le> 59"
  have early: "?ok \<Longrightarrow> digitsValue y < 100 \<Longrightarrow> getUTCFullYear t \<noteq> digitsValue y"
    unfolding t_def using nonneg F by (intro dateUTC_early_year) simp_all
  have late: "getUTCFullYear t = digitsValue y \<and> getUTCMonth t = digitsValue mo - 1
        \<and> getUTCDate t = digitsValue d
      \<longleftrightarrow> digitsValue d \<le> daysInMonth (isLeapYear (digitsValue y)) (digitsValue mo - 1)"
    if ok: ?ok and y: "100 \<le> digitsValue y"
  proof -
    have n: "digitsValue mo - 1 = int (nat (digitsValue mo - 1))" "nat (digitsValue mo - 1) < 12"
      using ok by auto
    have D: "t div MS_PER_DAY = dayFromYear (digitsValue y)
        + dayFromMonth (isLeapYear (digitsValue y)) (int (nat (digitsValue mo - 1))) + digitsValue d - 1"
      unfolding t_def n(1) [symmetric] using ok y nonneg F by (intro dateUTC_day) simp_all
    show ?thesis
      using real_date [OF D n(2)] date_of_day [OF D n(2)] ok n(1) by metis
  qed
  have "daysInMonth l k \<le> 31" for l k by (simp add: daysInMonth_def)
  then have days: "digitsValue d \<le> daysInMonth l k \<Longrightarrow> digitsValue d \<le> 31" for l k
    using order.trans by blast
  have someIf: "((if C then Some x else None) \<noteq> None) = C" for C and x :: afadInstant by simp
  let ?date = "getUTCFullYear t = digitsValue y \<and> getUTCMonth t = digitsValue mo - 1
        \<and> getUTCDate t = digitsValue d"
  have "parseAfadUtc raw \<noteq> None \<longleftrightarrow> ?ok \<and> ?date"
    unfolding parseAfadUtc_of_match [OF m t_def] someIf by blast
  also have "\<dots> \<longleftrightarrow> ?ok \<and> 100 \<le> digitsValue y
      \<and> digitsValue d \<le> daysInMonth (isLeapYear (digitsValue y)) (digitsValue mo - 1)"
    using early late by (cases "100 \<le> digitsValue y") (blast, auto)
  finally show ?thesis unfolding m option.case prod.case using days by blast
qed

text \<open>
  An accepted stamp is the provider's own text: written back at second precision it is what
  the stamp starts with, and written back with as many digits as the provider wrote it is the
  stamp itself unless digits beyond the millisecond were lost.
\<close>

theorem afad_stamp_roundtrip:
  assumes "parseAfadUtc raw = Some i"
  shows "startsWith raw (formatAfadUtc (instant i) 0)
    \<and> (subMillisecondRemainder i = 0 \<longrightarrow> formatAfadUtc (instant i) (fractionDigits i) = raw)"
  using stamp_reads_back [OF assms] by blast

theorem afad_stamp_roundtrip_witness:
  "\<exists>i. parseAfadUtc (ascii ''1999-08-17T00:01:38.39'') = Some i \<and> fractionDigits i = 2
     \<and> formatAfadUtc (instant i) 2 = ascii ''1999-08-17T00:01:38.39''"
proof -
  have "parseAfadUtc (ascii ''1999-08-17T00:01:38.39'')
      = Some \<lparr>instant = 934848098390, fractionDigits = 2, subMillisecondRemainder = 0\<rparr>"
    by code_simp
  from this afad_stamp_roundtrip [OF this] show ?thesis by simp
qed

end
