(* ===== verification/Afad_Event.thy ===== *)
theory Afad_Event
  imports Afad_Time Upstream_Metrics
begin

text \<open>
  \<open>src/earthquake/afad/afad-event.parse.ts\<close>, \<open>afad-fidelity.ts\<close>, \<open>afad-outcome.ts\<close> and the
  time window and URL of \<open>afad-window.ts\<close>: the provider's rows, each accepted or refused on its
  own. \<open>JSON.parse\<close> is the platform's and an argument. A decimal text is read as the exact
  number it writes (the platform rounds texts of more than fifteen digits). A refusal keeps the
  id and which message it is, without the quoted provider text.
\<close>

section \<open>Rows and refusals\<close>

datatype magnitudeType = Ml | Mw | Ms | Mb | Md | Mwp | Other

datatype afadReason =
    Row_shape
  | Field_missing string
  | Field_too_long string
  | Date_invalid
  | Date_sub_millisecond
  | Not_a_decimal string
  | Numeric_parsing_failed
  | Out_of_range string
  | Location_shape
  | Place_too_long
  | Distance_too_fine
  | Distance_too_large
  | Unusable_value string
  | Not_a_boolean
  | Updated_not_text
  | Updated_invalid
  | Fidelity string

record afadParsedLocation =
  locPlaceNameTr :: jsText
  locBindingDistanceKm :: "rat option"
  locHasDistanceBracket :: bool

record afadParsedEvent =
  providerEventId :: jsText
  occurredAtUtc :: ms
  evLatitude :: rat
  evLongitude :: rat
  depthKm :: rat
  magnitude :: rat
  evMagnitudeType :: magnitudeType
  magnitudeTypeRaw :: jsText
  providerCountry :: "jsText option"
  providerProvince :: "jsText option"
  providerDistrict :: "jsText option"
  providerLocationRaw :: jsText
  placeNameTr :: jsText
  bindingDistanceKm :: "rat option"
  hasDistanceBracket :: bool
  isRevised :: bool
  providerUpdatedAtUtc :: "ms option"

record afadRowRejection =
  rejEventId :: "jsText option"
  rejReason :: afadReason

record afadParsedPayload =
  fetchedCount :: nat
  accepted :: "afadParsedEvent list"
  rejected :: "afadRowRejection list"

section \<open>Decimals\<close>

text \<open>\<open>DECIMAL\<close>: sign, whole digits, and the fraction when there is a point.\<close>

definition matchDecimal :: "jsText \<Rightarrow> (bool \<times> jsText \<times> jsText option) option" where
  "matchDecimal s =
     (let neg = startsWith s [45];
          body = (if neg then drop 1 s else s);
          whole = takeWhile isDigit body;
          rest = dropWhile isDigit body
      in if whole = [] then None
         else if rest = [] then Some (neg, whole, None)
         else if hd rest = 46 \<and> tl rest \<noteq> [] \<and> list_all isDigit (tl rest)
         then Some (neg, whole, Some (tl rest)) else None)"

text \<open>\<open>Number(raw)\<close> of a text of that shape.\<close>

definition decimalNumber :: "bool \<times> jsText \<times> jsText option \<Rightarrow> rat" where
  "decimalNumber d = (case d of (neg, whole, fr) \<Rightarrow>
     (let ds = whole @ (case fr of None \<Rightarrow> [] | Some f \<Rightarrow> f);
          k = (case fr of None \<Rightarrow> 0 | Some f \<Rightarrow> length f)
      in (if neg then -1 else 1) * of_int (digitsValue ds) / 10 ^ k))"

definition decimalScale :: "jsText \<Rightarrow> nat" where
  "decimalScale raw = (case matchDecimal raw of Some (_, _, Some f) \<Rightarrow> length f | _ \<Rightarrow> 0)"

text \<open>\<open>Number.isFinite\<close>: below the values that round to infinity.\<close>

definition isFiniteNumber :: "rat \<Rightarrow> bool" where
  "isFiniteNumber x \<longleftrightarrow> \<bar>x\<bar> < 2 ^ 1024 - 2 ^ 970"

lemma isFiniteNumber_code [code]:
  "isFiniteNumber x \<longleftrightarrow> \<bar>x\<bar> \<le> 100000 \<or> \<bar>x\<bar> < 2 ^ 1024 - 2 ^ 970"
  unfolding isFiniteNumber_def by (auto elim!: order.strict_trans1)

definition readDecimal :: "(jsText \<times> json) list \<Rightarrow> string \<Rightarrow> nat \<Rightarrow> rat option" where
  "readDecimal r key maxScale =
     (case jsonField r key of
        Some (JString raw) \<Rightarrow>
          (case matchDecimal raw of None \<Rightarrow> None
           | Some d \<Rightarrow>
             if decimalScale raw > maxScale then None
             else if isFiniteNumber (decimalNumber d) then Some (decimalNumber d) else None)
      | _ \<Rightarrow> None)"

text \<open>
  \<open>decimalScale(String(x))\<close> for a non-negative number: the platform writes a number below
  \<open>1e-6\<close> or from \<open>1e21\<close> on with an exponent, which \<open>DECIMAL\<close> does not match.
\<close>

function decimalsOfDenominator :: "int \<Rightarrow> nat" where
  "decimalsOfDenominator q =
     (if q \<le> 1 \<or> gcd q 10 = 1 then 0 else Suc (decimalsOfDenominator (q div gcd q 10)))"
  by auto

termination
proof (relation "measure nat")
  fix q :: int
  assume q: "\<not> (q \<le> 1 \<or> gcd q 10 = 1)"
  have "0 < gcd q 10" by (simp add: gcd_pos_int)
  with q have "1 < gcd q 10" by linarith
  with q have "q div gcd q 10 < q" by (intro int_div_less_self) simp_all
  with q show "(q div gcd q 10, q) \<in> measure nat" by simp
qed simp

declare decimalsOfDenominator.simps [simp del]

definition shownScale :: "rat \<Rightarrow> nat" where
  "shownScale x =
     (if (x \<noteq> 0 \<and> x < 1 / 1000000) \<or> x \<ge> 1000000000000000000000 then 0
      else decimalsOfDenominator (snd (quotient_of x)))"

section \<open>Locations\<close>

definition rxThen :: "regex \<Rightarrow> (jsText \<Rightarrow> jsText \<Rightarrow> 'a list) \<Rightarrow> jsText \<Rightarrow> 'a list" where
  "rxThen r k s = concat (map (\<lambda>(m, rest). k m rest) (r s))"

definition rxDecimal :: regex where
  "rxDecimal = rxThen (rxPlus isDigit) (\<lambda>a s.
     rxThen (rxText [46]) (\<lambda>p. rxThen (rxPlus isDigit) (\<lambda>b r. [(a @ p @ b, r)])) s @ [(a, s)])"

definition isDot :: "int \<Rightarrow> bool" where
  "isDot c \<longleftrightarrow> \<not> isLineEnd c"

text \<open>\<open>COMPOSITE_LOCATION\<close>: the named groups \<open>place\<close> and \<open>km\<close> of every match, in order.\<close>

definition matchCompositeTail :: "jsText \<Rightarrow> unit list" where
  "matchCompositeTail =
     rxThen (rxStar isSpace) (\<lambda>_. rxThen (rxLazyPlus isDot) (\<lambda>_. rxThen (rxStar isSpace) (\<lambda>_.
     rxThen (rxText [40]) (\<lambda>_. rxThen (rxPlus (\<lambda>c. c \<noteq> 41)) (\<lambda>_. rxThen (rxText [41]) (\<lambda>_ s.
       if rxEnd s then [()] else []))))))"

definition matchCompositeLocation :: "jsText \<Rightarrow> (jsText \<times> jsText) list" where
  "matchCompositeLocation =
     rxThen (rxLazyPlus isDot) (\<lambda>place. rxThen (rxStar isSpace) (\<lambda>_. rxThen (rxText [45]) (\<lambda>_.
     rxThen (rxStar isSpace) (\<lambda>_. rxThen (rxText [91]) (\<lambda>_. rxThen (rxStar isSpace) (\<lambda>_.
     rxThen rxDecimal (\<lambda>km. rxThen (rxStar isSpace) (\<lambda>_. rxThen (rxText [107, 109]) (\<lambda>_.
     rxThen (rxStar isSpace) (\<lambda>_. rxThen (rxText [93]) (\<lambda>_ s.
       map (\<lambda>_. (place, km)) (matchCompositeTail s))))))))))))"

definition compositeHint :: "jsText \<Rightarrow> bool" where
  "compositeHint s =
     list_ex (\<lambda>i. rxThen (rxText [91]) (\<lambda>_. rxThen (rxStar isSpace) (\<lambda>_. rxThen (rxClass isDigit)
       (\<lambda>_ _. [()]))) (drop i s) \<noteq> []) [0 ..< length s]"

definition numberOf :: "jsText \<Rightarrow> rat" where
  "numberOf s = (case matchDecimal s of None \<Rightarrow> 0 | Some d \<Rightarrow> decimalNumber d)"

definition parseAfadLocation :: "jsText \<Rightarrow> afadParsedLocation option" where
  "parseAfadLocation raw =
     (case matchCompositeLocation raw of
        (placeText, km) # _ \<Rightarrow>
          (let place = trim placeText
           in if place = [] \<or> km = [] then None
              else Some \<lparr>locPlaceNameTr = place, locBindingDistanceKm = Some (numberOf km),
                     locHasDistanceBracket = True\<rparr>)
      | [] \<Rightarrow>
          if compositeHint raw then None
          else Some \<lparr>locPlaceNameTr = trim raw, locBindingDistanceKm = None,
                 locHasDistanceBracket = False\<rparr>)"

text \<open>
  \<open>toLowerCase\<close>, as far as the comparisons below can see: no letter outside ASCII becomes one
  of the letters they name.
\<close>

definition lowerAscii :: "jsText \<Rightarrow> jsText" where
  "lowerAscii s = map (\<lambda>c. if 65 \<le> c \<and> c \<le> 90 then c + 32 else c) s"

definition normaliseMagnitudeType :: "jsText \<Rightarrow> magnitudeType" where
  "normaliseMagnitudeType raw =
     (let t = lowerAscii (trim raw)
      in if t = ascii ''ml'' then Ml else if t = ascii ''mw'' then Mw
         else if t = ascii ''ms'' then Ms else if t = ascii ''mb'' then Mb
         else if t = ascii ''md'' then Md else if t = ascii ''mwp'' then Mwp else Other)"

section \<open>One row\<close>

definition reject :: "jsText option \<Rightarrow> afadReason \<Rightarrow> afadRowRejection" where
  "reject k reason = \<lparr>rejEventId = k, rejReason = reason\<rparr>"

text \<open>\<open>readNullableString\<close>: \<open>false\<close> is \<open>None\<close>, null is \<open>Some None\<close>.\<close>

definition readNullableString ::
  "(jsText \<times> json) list \<Rightarrow> string \<Rightarrow> nat \<Rightarrow> jsText option option" where
  "readNullableString r key maxLength =
     (case jsonField r key of
        None \<Rightarrow> Some None
      | Some JNull \<Rightarrow> Some None
      | Some (JString s) \<Rightarrow>
          if length s > maxLength then None else if s = [] then Some None else Some (Some s)
      | Some _ \<Rightarrow> None)"

definition readFilledString ::
  "jsText option \<Rightarrow> (jsText \<times> json) list \<Rightarrow> string \<Rightarrow> nat \<Rightarrow> afadRowRejection + jsText" where
  "readFilledString k r key maxLength =
     (case readString r key of
        None \<Rightarrow> Inl (reject k (Field_missing key))
      | Some s \<Rightarrow>
          if s = [] then Inl (reject k (Field_missing key))
          else if length s > maxLength
          then Inl (reject (if key = ''eventID'' then Some s else k) (Field_too_long key))
          else Inr s)"

definition readOccurred ::
  "jsText option \<Rightarrow> (jsText \<times> json) list \<Rightarrow> afadRowRejection + afadInstant" where
  "readOccurred k r =
     andThen (orThrow (readString r ''date'') (reject k (Field_missing ''date''))) (\<lambda>raw.
     andThen (orThrow (parseAfadUtc raw) (reject k Date_invalid)) (\<lambda>occurred.
     if subMillisecondRemainder occurred \<noteq> 0 then Inl (reject k Date_sub_millisecond)
     else Inr occurred))"

definition readNumbers ::
  "jsText option \<Rightarrow> (jsText \<times> json) list \<Rightarrow> afadRowRejection + rat \<times> rat \<times> rat \<times> rat" where
  "readNumbers k r =
     andThen (orThrow (readDecimal r ''latitude'' 6) (reject k (Not_a_decimal ''latitude''))) (\<lambda>lat.
     andThen (orThrow (readDecimal r ''longitude'' 6) (reject k (Not_a_decimal ''longitude''))) (\<lambda>lon.
     andThen (orThrow (readDecimal r ''depth'' 3) (reject k (Not_a_decimal ''depth''))) (\<lambda>dep.
     andThen (orThrow (readDecimal r ''magnitude'' 2) (reject k (Not_a_decimal ''magnitude''))) (\<lambda>mag.
     if lat < -90 \<or> lat > 90 then Inl (reject k (Out_of_range ''latitude''))
     else if lon < -180 \<or> lon > 180 then Inl (reject k (Out_of_range ''longitude''))
     else if dep < -5 \<or> dep > 1000 then Inl (reject k (Out_of_range ''depth''))
     else if mag < -1 \<or> mag > 10 then Inl (reject k (Out_of_range ''magnitude''))
     else Inr (lat, lon, dep, mag)))))"

definition MAX_BINDING_DISTANCE_KM :: rat where
  "MAX_BINDING_DISTANCE_KM = 999999 / 100"

definition readLocation ::
  "jsText option \<Rightarrow> (jsText \<times> json) list \<Rightarrow> afadRowRejection + jsText \<times> afadParsedLocation" where
  "readLocation k r =
     andThen (readFilledString k r ''location'' 160) (\<lambda>raw.
     andThen (orThrow (parseAfadLocation raw) (reject k Location_shape)) (\<lambda>loc.
     if length (locPlaceNameTr loc) > 160 then Inl (reject k Place_too_long)
     else case locBindingDistanceKm loc of
       None \<Rightarrow> Inr (raw, loc)
     | Some km \<Rightarrow>
         if shownScale km > 2 then Inl (reject k Distance_too_fine)
         else if km > MAX_BINDING_DISTANCE_KM then Inl (reject k Distance_too_large)
         else Inr (raw, loc)))"

definition readUpdatedAt ::
  "jsText option \<Rightarrow> (jsText \<times> json) list \<Rightarrow> afadRowRejection + ms option" where
  "readUpdatedAt k r =
     (case jsonField r ''lastUpdateDate'' of
        None \<Rightarrow> Inr None
      | Some JNull \<Rightarrow> Inr None
      | Some (JString raw) \<Rightarrow>
          andThen (orThrow (parseAfadUtc raw) (reject k Updated_invalid))
            (\<lambda>updated. Inr (Some (instant updated)))
      | Some _ \<Rightarrow> Inl (reject k Updated_not_text))"

definition readRevised :: "jsText option \<Rightarrow> (jsText \<times> json) list \<Rightarrow> afadRowRejection + bool" where
  "readRevised k r =
     (case jsonField r ''isEventUpdate'' of
        Some (JBool b) \<Rightarrow> Inr b | _ \<Rightarrow> Inl (reject k Not_a_boolean))"

text \<open>
  The body of \<open>parseAfadEvent\<close> up to its last check: the event the row describes, with the
  number of fraction digits of its date.
\<close>

definition readAfadEvent ::
  "(jsText \<times> json) list \<Rightarrow> afadRowRejection + afadParsedEvent \<times> nat" where
  "readAfadEvent r =
     andThen (readFilledString None r ''eventID'' 32) (\<lambda>ident.
     let k = Some ident in
     andThen (readOccurred k r) (\<lambda>occurred.
     andThen (readNumbers k r) (\<lambda>(lat, lon, dep, mag).
     andThen (readFilledString k r ''type'' 16) (\<lambda>typeRaw.
     andThen (readLocation k r) (\<lambda>(locationRaw, loc).
     andThen (orThrow (readNullableString r ''country'' 64) (reject k (Unusable_value ''country''))) (\<lambda>country.
     andThen (orThrow (readNullableString r ''province'' 64) (reject k (Unusable_value ''province''))) (\<lambda>province.
     andThen (orThrow (readNullableString r ''district'' 64) (reject k (Unusable_value ''district''))) (\<lambda>district.
     andThen (readRevised k r) (\<lambda>revised.
     andThen (readUpdatedAt k r) (\<lambda>updatedAt.
     Inr (\<lparr>providerEventId = ident, occurredAtUtc = instant occurred, evLatitude = lat,
           evLongitude = lon, depthKm = dep, magnitude = mag,
           evMagnitudeType = normaliseMagnitudeType typeRaw, magnitudeTypeRaw = typeRaw,
           providerCountry = country, providerProvince = province, providerDistrict = district,
           providerLocationRaw = locationRaw, placeNameTr = locPlaceNameTr loc,
           bindingDistanceKm = locBindingDistanceKm loc,
           hasDistanceBracket = locHasDistanceBracket loc, isRevised = revised,
           providerUpdatedAtUtc = updatedAt\<rparr>, fractionDigits occurred)))))))))))"

section \<open>Fidelity\<close>

definition numberField :: "(jsText \<times> json) list \<Rightarrow> string \<Rightarrow> rat \<Rightarrow> bool" where
  "numberField r key stored =
     (case jsonField r key of Some (JString raw) \<Rightarrow> numberOf raw = stored | _ \<Rightarrow> False)"

definition nullableField :: "(jsText \<times> json) list \<Rightarrow> string \<Rightarrow> jsText option \<Rightarrow> bool" where
  "nullableField r key stored =
     ((case jsonField r key of
         None \<Rightarrow> None | Some JNull \<Rightarrow> None | Some (JString []) \<Rightarrow> None | Some v \<Rightarrow> Some v)
      = map_option JString stored)"

definition checkAfadFidelity ::
  "(jsText \<times> json) list \<Rightarrow> afadParsedEvent \<Rightarrow> nat \<Rightarrow> afadReason option" where
  "checkAfadFidelity r e nDigits =
     (case readString r ''date'' of
        None \<Rightarrow> Some (Fidelity ''date'')
      | Some rawDate \<Rightarrow>
        if formatAfadUtc (occurredAtUtc e) nDigits \<noteq> rawDate then Some (Fidelity ''date'')
        else if \<not> numberField r ''latitude'' (evLatitude e) then Some (Fidelity ''latitude'')
        else if \<not> numberField r ''longitude'' (evLongitude e) then Some (Fidelity ''longitude'')
        else if \<not> numberField r ''depth'' (depthKm e) then Some (Fidelity ''depth'')
        else if \<not> numberField r ''magnitude'' (magnitude e) then Some (Fidelity ''magnitude'')
        else case readString r ''location'' of
          None \<Rightarrow> Some (Fidelity ''location'')
        | Some rawLocation \<Rightarrow>
          if rawLocation \<noteq> providerLocationRaw e then Some (Fidelity ''location'')
          else if \<not> startsWith (trimStart rawLocation) (placeNameTr e) then Some (Fidelity ''place'')
          else if \<not> nullableField r ''type'' (Some (magnitudeTypeRaw e)) then Some (Fidelity ''type'')
          else if \<not> nullableField r ''country'' (providerCountry e) then Some (Fidelity ''country'')
          else if \<not> nullableField r ''province'' (providerProvince e) then Some (Fidelity ''province'')
          else if \<not> nullableField r ''district'' (providerDistrict e) then Some (Fidelity ''district'')
          else if jsonField r ''isEventUpdate'' \<noteq> Some (JBool (isRevised e))
          then Some (Fidelity ''isEventUpdate'')
          else if (jsonField r ''lastUpdateDate'' \<in> {None, Some JNull})
                    \<noteq> (providerUpdatedAtUtc e = None)
          then Some (Fidelity ''lastUpdateDate'')
          else case (jsonField r ''lastUpdateDate'', providerUpdatedAtUtc e) of
            (Some (JString rawUpdatedAt), Some t) \<Rightarrow>
              if \<not> startsWith rawUpdatedAt (formatAfadUtc t 0) then Some (Fidelity ''lastUpdateDate'')
              else None
          | _ \<Rightarrow> None)"

definition parseAfadEvent :: "json \<Rightarrow> afadRowRejection + afadParsedEvent" where
  "parseAfadEvent row =
     (case row of
        JObject r \<Rightarrow>
          andThen (readAfadEvent r) (\<lambda>(e, nDigits).
          case checkAfadFidelity r e nDigits of
            Some infidelity \<Rightarrow> Inl (reject (Some (providerEventId e)) infidelity)
          | None \<Rightarrow> Inr e)
      | _ \<Rightarrow> Inl (reject None Row_shape))"

section \<open>The whole body\<close>

fun collectRows :: "json list \<Rightarrow> afadParsedEvent list \<times> afadRowRejection list" where
  "collectRows [] = ([], [])"
| "collectRows (row # rows) =
     (let (acc, rej) = collectRows rows
      in case parseAfadEvent row of Inr e \<Rightarrow> (e # acc, rej) | Inl r \<Rightarrow> (acc, r # rej))"

datatype afadSchemaError = Not_json | Not_an_array | At_safety_limit nat

definition parseAfadEventsBody ::
  "(jsText \<Rightarrow> json option) \<Rightarrow> nat \<Rightarrow> jsText \<Rightarrow> afadSchemaError + afadParsedPayload" where
  "parseAfadEventsBody jsonParse safetyLimit body =
     (case jsonParse body of
        None \<Rightarrow> Inl Not_json
      | Some (JArray rows) \<Rightarrow>
          if length rows \<ge> safetyLimit then Inl (At_safety_limit (length rows))
          else (let (acc, rej) = collectRows rows
                in Inr \<lparr>fetchedCount = length rows, accepted = acc, rejected = rej\<rparr>)
      | Some _ \<Rightarrow> Inl Not_an_array)"

section \<open>What the readers guarantee\<close>

named_theorems afad_reads \<open>what a reader that accepts its field guarantees\<close>

lemma readFilledString_Inr [afad_reads]:
  "readFilledString k r key m = Inr s \<Longrightarrow>
     jsonField r key = Some (JString s) \<and> s \<noteq> [] \<and> length s \<le> m"
  by (auto simp: readFilledString_def readString_Some split: option.splits if_splits)

lemma readOccurred_Inr [afad_reads]:
  "readOccurred k r = Inr i \<Longrightarrow>
     (\<exists>raw. readString r ''date'' = Some raw \<and> parseAfadUtc raw = Some i) \<and> subMillisecondRemainder i = 0"
  by (auto simp: readOccurred_def andThen_eq_Inr split: if_splits)

lemma readDecimal_Some:
  "readDecimal r key m = Some x \<Longrightarrow>
     \<exists>raw d. jsonField r key = Some (JString raw) \<and> matchDecimal raw = Some d
       \<and> x = decimalNumber d \<and> decimalScale raw \<le> m"
  by (auto simp: readDecimal_def split: option.splits json.splits if_splits)

lemma readDecimal_number: "readDecimal r key m = Some x \<Longrightarrow> numberField r key x"
  by (auto dest!: readDecimal_Some simp: numberField_def numberOf_def)

text \<open>A text of at most \<open>m\<close> decimals is a whole number of units of \<open>10^-m\<close>.\<close>

lemma decimalNumber_scale:
  assumes "matchDecimal raw = Some d" "decimalScale raw \<le> m"
  shows "\<exists>n :: int. decimalNumber d * 10 ^ m = of_int n"
proof -
  obtain neg whole fr where d: "d = (neg, whole, fr)" by (cases d)
  let ?k = "case fr of None \<Rightarrow> 0 | Some f \<Rightarrow> length f"
  let ?v = "digitsValue (whole @ (case fr of None \<Rightarrow> [] | Some f \<Rightarrow> f))"
  have "?k \<le> m" using assms by (auto simp: decimalScale_def d split: option.splits)
  then have "(10::rat) ^ m = 10 ^ (m - ?k) * 10 ^ ?k" by (simp flip: power_add)
  then have "decimalNumber d * 10 ^ m = of_int ((if neg then -1 else 1) * ?v * 10 ^ (m - ?k))"
    by (simp add: decimalNumber_def d Let_def)
  then show ?thesis by blast
qed

lemma readDecimal_scale: "readDecimal r key m = Some x \<Longrightarrow> \<exists>n :: int. x * 10 ^ m = of_int n"
  using decimalNumber_scale by (blast dest: readDecimal_Some)

lemma readNumbers_Inr [afad_reads]:
  assumes "readNumbers k r = Inr (lat, lon, dep, mag)"
  shows "numberField r ''latitude'' lat" "numberField r ''longitude'' lon"
    "numberField r ''depth'' dep" "numberField r ''magnitude'' mag"
    "-90 \<le> lat" "lat \<le> 90" "-180 \<le> lon" "lon \<le> 180" "-5 \<le> dep" "dep \<le> 1000" "-1 \<le> mag" "mag \<le> 10"
    "\<exists>n :: int. lat * 10 ^ 6 = of_int n" "\<exists>n :: int. lon * 10 ^ 6 = of_int n"
    "\<exists>n :: int. dep * 10 ^ 3 = of_int n" "\<exists>n :: int. mag * 10 ^ 2 = of_int n"
  using assms unfolding readNumbers_def
  by (simp_all only: andThen_eq_Inr orThrow_eq_Inr split: if_splits)
    (auto dest: readDecimal_number readDecimal_scale)

lemma readNullableString_Some [afad_reads]:
  "readNullableString r key m = Some v \<Longrightarrow>
     nullableField r key v \<and> (\<forall>s. v = Some s \<longrightarrow> s \<noteq> [] \<and> length s \<le> m)"
  by (auto simp: readNullableString_def nullableField_def
      split: option.splits json.splits if_splits list.splits)

lemma readRevised_Inr [afad_reads]:
  "readRevised k r = Inr b \<Longrightarrow> jsonField r ''isEventUpdate'' = Some (JBool b)"
  by (auto simp: readRevised_def split: option.splits json.splits)

lemma readUpdatedAt_Inr [afad_reads]:
  "readUpdatedAt k r = Inr v \<Longrightarrow>
     (jsonField r ''lastUpdateDate'' \<in> {None, Some JNull} \<and> v = None)
     \<or> (\<exists>raw i. jsonField r ''lastUpdateDate'' = Some (JString raw) \<and> parseAfadUtc raw = Some i
          \<and> v = Some (instant i))"
  by (auto simp: readUpdatedAt_def andThen_eq_Inr split: option.splits json.splits)

lemma readUpdatedAt_starts:
  assumes "readUpdatedAt k r = Inr u"
  shows "(jsonField r ''lastUpdateDate'' \<in> {None, Some JNull} \<and> u = None)
     \<or> (\<exists>w v. jsonField r ''lastUpdateDate'' = Some (JString w)
          \<and> startsWith w (formatAfadUtc v 0) \<and> u = Some v)"
proof -
  from readUpdatedAt_Inr [OF assms] show ?thesis
  proof
    assume "\<exists>raw i. jsonField r ''lastUpdateDate'' = Some (JString raw) \<and> parseAfadUtc raw = Some i
          \<and> u = Some (instant i)"
    then obtain raw i where "jsonField r ''lastUpdateDate'' = Some (JString raw)"
      "parseAfadUtc raw = Some i" "u = Some (instant i)" by (elim exE conjE)
    moreover from this(2) have "startsWith raw (formatAfadUtc (instant i) 0)"
      by (rule stamp_reads_back(1))
    ultimately show ?thesis by (intro disjI2 exI conjI)
  qed (rule disjI1)
qed

section \<open>Locations\<close>

lemma rxThen_mem: "x \<in> set (rxThen r k s) \<longleftrightarrow> (\<exists>m rest. (m, rest) \<in> set (r s) \<and> x \<in> set (k m rest))"
  by (auto simp: rxThen_def)

lemma matchCompositeLocation_place:
  "(place, km) \<in> set (matchCompositeLocation raw) \<Longrightarrow> \<exists>rest. raw = place @ rest"
  unfolding matchCompositeLocation_def by (auto simp: rxThen_mem dest!: rxLazyPlus_mem)

lemma trim_prefix:
  assumes "trim p \<noteq> []"
  shows "startsWith (trimStart (p @ rest)) (trim p)"
proof -
  have "trimStart p \<noteq> []" using assms by (auto simp: trim_def trimEnd_def)
  then have "\<exists>x \<in> set p. \<not> isSpace x" by (auto simp: trimStart_def)
  then have "trimStart (p @ rest) = trimStart p @ rest"
    unfolding trimStart_def by (auto intro: dropWhile_append1)
  moreover obtain t where "trimStart p = trim p @ t"
    using trimEnd_prefix [of "trimStart p"] by (auto simp: trim_def)
  ultimately show ?thesis by simp
qed

lemma parseAfadLocation_prefix:
  assumes "parseAfadLocation raw = Some loc"
  shows "startsWith (trimStart raw) (locPlaceNameTr loc)"
proof (cases "matchCompositeLocation raw")
  case Nil
  with assms show ?thesis
    by (auto simp: parseAfadLocation_def startsWith_trim split: if_splits)
next
  case (Cons x xs)
  obtain place km where x: "x = (place, km)" by (cases x)
  with Cons obtain rest where "raw = place @ rest"
    using matchCompositeLocation_place [of place km raw] by auto
  with Cons x assms show ?thesis
    by (auto simp: parseAfadLocation_def Let_def trim_prefix split: if_splits)
qed

lemma readLocation_Inr [afad_reads]:
  assumes "readLocation k r = Inr (raw, loc)"
  shows "jsonField r ''location'' = Some (JString raw)" "raw \<noteq> []" "length raw \<le> 160"
    "parseAfadLocation raw = Some loc" "length (locPlaceNameTr loc) \<le> 160"
    "startsWith (trimStart raw) (locPlaceNameTr loc)"
    "\<And>km. locBindingDistanceKm loc = Some km \<Longrightarrow> shownScale km \<le> 2 \<and> km \<le> MAX_BINDING_DISTANCE_KM"
  using assms unfolding readLocation_def
  by (auto simp: andThen_eq_Inr parseAfadLocation_prefix dest: readFilledString_Inr
      split: if_splits option.splits)

section \<open>What an accepted row is\<close>

lemmas reads_andThen = andThen_eq_Inr orThrow_eq_Inr Let_def

lemma readAfadEvent_Inr:
  assumes "readAfadEvent r = Inr (e, n)"
  obtains k i loc where
    "readFilledString None r ''eventID'' 32 = Inr (providerEventId e)"
    "readOccurred k r = Inr i" "occurredAtUtc e = instant i" "n = fractionDigits i"
    "readNumbers k r = Inr (evLatitude e, evLongitude e, depthKm e, magnitude e)"
    "readFilledString k r ''type'' 16 = Inr (magnitudeTypeRaw e)"
    "evMagnitudeType e = normaliseMagnitudeType (magnitudeTypeRaw e)"
    "readLocation k r = Inr (providerLocationRaw e, loc)" "placeNameTr e = locPlaceNameTr loc"
    "bindingDistanceKm e = locBindingDistanceKm loc" "hasDistanceBracket e = locHasDistanceBracket loc"
    "readNullableString r ''country'' 64 = Some (providerCountry e)"
    "readNullableString r ''province'' 64 = Some (providerProvince e)"
    "readNullableString r ''district'' 64 = Some (providerDistrict e)"
    "jsonField r ''isEventUpdate'' = Some (JBool (isRevised e))"
    "readUpdatedAt k r = Inr (providerUpdatedAtUtc e)"
proof -
  obtain ident i lat lon dep mag ty lr loc c p d b u where F:
    "readFilledString None r ''eventID'' 32 = Inr ident" "readOccurred (Some ident) r = Inr i"
    "readNumbers (Some ident) r = Inr (lat, lon, dep, mag)"
    "readFilledString (Some ident) r ''type'' 16 = Inr ty"
    "readLocation (Some ident) r = Inr (lr, loc)"
    "readNullableString r ''country'' 64 = Some c" "readNullableString r ''province'' 64 = Some p"
    "readNullableString r ''district'' 64 = Some d" "readRevised (Some ident) r = Inr b"
    "readUpdatedAt (Some ident) r = Inr u"
    "e = \<lparr>providerEventId = ident, occurredAtUtc = instant i, evLatitude = lat,
           evLongitude = lon, depthKm = dep, magnitude = mag,
           evMagnitudeType = normaliseMagnitudeType ty, magnitudeTypeRaw = ty,
           providerCountry = c, providerProvince = p, providerDistrict = d,
           providerLocationRaw = lr, placeNameTr = locPlaceNameTr loc,
           bindingDistanceKm = locBindingDistanceKm loc,
           hasDistanceBracket = locHasDistanceBracket loc, isRevised = b,
           providerUpdatedAtUtc = u\<rparr>" "n = fractionDigits i"
    using assms unfolding readAfadEvent_def reads_andThen split_paired_Ex prod.case sum.inject
      prod.inject by (elim exE conjE) simp
  then show thesis by (intro that [of "Some ident" i loc]) (simp_all add: readRevised_Inr)
qed

lemma filled_nullable:
  "jsonField r key = Some (JString s) \<Longrightarrow> s \<noteq> [] \<Longrightarrow> nullableField r key (Some s)"
  by (auto simp: nullableField_def split: list.split)

lemma fidelity_holds:
  assumes "readAfadEvent r = Inr (e, n)"
  shows "checkAfadFidelity r e n = None"
proof -
  obtain k i loc where o: "readOccurred k r = Inr i" "occurredAtUtc e = instant i" "n = fractionDigits i"
    and num: "readNumbers k r = Inr (evLatitude e, evLongitude e, depthKm e, magnitude e)"
    and ty: "readFilledString k r ''type'' 16 = Inr (magnitudeTypeRaw e)"
    and loc: "readLocation k r = Inr (providerLocationRaw e, loc)" "placeNameTr e = locPlaceNameTr loc"
    and c: "readNullableString r ''country'' 64 = Some (providerCountry e)"
    and p: "readNullableString r ''province'' 64 = Some (providerProvince e)"
    and d: "readNullableString r ''district'' 64 = Some (providerDistrict e)"
    and u: "jsonField r ''isEventUpdate'' = Some (JBool (isRevised e))"
    and t: "readUpdatedAt k r = Inr (providerUpdatedAtUtc e)"
    by (rule readAfadEvent_Inr [OF assms])
  obtain raw where raw: "readString r ''date'' = Some raw" "parseAfadUtc raw = Some i"
    "subMillisecondRemainder i = 0" using readOccurred_Inr [OF o(1)] by blast
  then have date: "formatAfadUtc (occurredAtUtc e) n = raw" by (simp add: o stamp_reads_back)
  note nums = readNumbers_Inr(1-4) [OF num]
  have place: "readString r ''location'' = Some (providerLocationRaw e)"
    "startsWith (trimStart (providerLocationRaw e)) (placeNameTr e)"
    using readLocation_Inr(1,6) [OF loc(1)] by (simp_all add: readString_Some loc(2))
  have type: "nullableField r ''type'' (Some (magnitudeTypeRaw e))"
    using readFilledString_Inr [OF ty] by (blast intro: filled_nullable)
  note names = readNullableString_Some [OF c, THEN conjunct1]
    readNullableString_Some [OF p, THEN conjunct1] readNullableString_Some [OF d, THEN conjunct1]
  have upd: "(jsonField r ''lastUpdateDate'' \<in> {None, Some JNull} \<and> providerUpdatedAtUtc e = None)
     \<or> (\<exists>w v. jsonField r ''lastUpdateDate'' = Some (JString w)
          \<and> startsWith w (formatAfadUtc v 0) \<and> providerUpdatedAtUtc e = Some v)"
    using t by (rule readUpdatedAt_starts)
  show ?thesis
    unfolding checkAfadFidelity_def raw(1) option.case date place(1)
    using nums place(2) type names u upd by auto
qed

text \<open>A number of the bracket: not negative, and a decimal fraction.\<close>

lemma matchCompositeLocation_km:
  assumes "(place, km) \<in> set (matchCompositeLocation raw)"
  shows "km \<noteq> [] \<and> isDigit (hd km)"
proof -
  obtain m rest rest' where "(km, rest') \<in> set (rxDecimal rest)"
    using assms unfolding matchCompositeLocation_def by (auto simp: rxThen_mem)
  then obtain a u v where "(a, u) \<in> set (rxPlus isDigit rest)" "km = a @ v"
    unfolding rxDecimal_def by (auto simp: rxThen_mem)
  then show ?thesis using rxPlus_mem by (cases a) fastforce+
qed

lemma numberOf_decimal:
  assumes "s \<noteq> []" and "isDigit (hd s)"
  shows "\<exists>(n :: int) k. 0 \<le> n \<and> numberOf s = of_int n / 10 ^ k"
proof (cases "matchDecimal s")
  case None
  then show ?thesis by (intro exI [of _ 0]) (simp add: numberOf_def)
next
  case (Some d)
  obtain neg whole fr where d: "d = (neg, whole, fr)" by (cases d)
  have "hd s \<noteq> 45" using assms(2) by (auto simp: isDigit_def)
  then have "\<not> neg" using Some assms(1)
    by (cases s) (auto simp: d matchDecimal_def Let_def startsWith_def split: if_splits)
  moreover have "list_all isDigit (whole @ (case fr of None \<Rightarrow> [] | Some f \<Rightarrow> f))"
    using Some by (auto simp: d matchDecimal_def Let_def list_all_iff dest: set_takeWhileD split: if_splits)
  ultimately show ?thesis
    using digitsValue_bounds by (fastforce simp: numberOf_def Some d decimalNumber_def Let_def)
qed

lemma decimalsOfDenominator_dvd:
  assumes "q dvd 10 ^ k" and "0 < q"
  shows "q dvd 10 ^ decimalsOfDenominator q"
  using assms
proof (induction q rule: decimalsOfDenominator.induct)
  case (1 q)
  show ?case
  proof (cases "q \<le> 1 \<or> gcd q 10 = 1")
    case True
    have "q = 1"
    proof (cases "q \<le> 1")
      case True
      with 1(3) show ?thesis by simp
    next
      case False
      with True have "coprime q 10" by (simp add: coprime_iff_gcd_eq_1)
      then have "coprime q (10 ^ k)" by simp
      then have "is_unit q" using 1(2) by (metis coprime_common_divisor dvd_refl)
      with 1(3) show ?thesis by simp
    qed
    then show ?thesis by simp
  next
    case False
    let ?g = "gcd q 10"
    have g: "0 < ?g" "?g dvd q" "?g dvd 10" by simp_all
    then have q: "q = q div ?g * ?g" by simp
    have "q div ?g dvd 10 ^ k" using 1(2) q by (metis dvd_mult_left)
    moreover have "0 < q div ?g" using 1(3) q g(1) by (metis mult_zero_left pos_imp_zdiv_nonneg_iff less_le zero_less_mult_pos2)
    ultimately have "q div ?g dvd 10 ^ decimalsOfDenominator (q div ?g)" using 1(1) [OF False] by simp
    then have "q div ?g * ?g dvd 10 ^ decimalsOfDenominator (q div ?g) * 10" using g(3) by (rule mult_dvd_mono)
    moreover have "decimalsOfDenominator q = Suc (decimalsOfDenominator (q div ?g))"
      using False by (subst decimalsOfDenominator.simps) simp
    ultimately show ?thesis using q by (simp add: mult.commute)
  qed
qed

lemma shownScale_fits:
  assumes x: "x = of_int n / 10 ^ k" "0 \<le> n" and shown: "shownScale x \<le> 2"
    and lo: "x = 0 \<or> 1 / 1000000 \<le> x" and hi: "x \<le> MAX_BINDING_DISTANCE_KM"
  shows "\<exists>i :: int. x * 10 ^ 2 = of_int i"
proof -
  obtain a q where aq: "quotient_of x = (a, q)" by fastforce
  have q: "0 < q" "coprime a q" "x = of_int a / of_int q"
    using quotient_of_denom_pos [OF aq] quotient_of_coprime [OF aq] quotient_of_div [OF aq] by simp_all
  have "of_int (a * 10 ^ k) = (of_int (n * q) :: rat)" using q(1,3) x(1) by (simp add: field_simps)
  then have "a * 10 ^ k = n * q" by (simp only: of_int_eq_iff)
  then have "q dvd a * 10 ^ k" by simp
  then have "q dvd 10 ^ k" using q(2) by (simp add: coprime_dvd_mult_right_iff coprime_commute)
  then have "q dvd 10 ^ decimalsOfDenominator q" using q(1) by (rule decimalsOfDenominator_dvd)
  moreover have "decimalsOfDenominator q \<le> 2"
    using shown lo hi aq by (auto simp: shownScale_def MAX_BINDING_DISTANCE_KM_def split: if_splits)
  ultimately have "q dvd 10 ^ 2" by (meson dvd_trans le_imp_power_dvd)
  then obtain c where "10 ^ 2 = q * c" by blast
  then have "of_int (10 ^ 2) = (of_int (q * c) :: rat)" by simp
  then have "x * 10 ^ 2 = of_int a / of_int q * (of_int q * of_int c)" using q(3) by simp
  also have "\<dots> = of_int (a * c)" using q(1) by simp
  finally show ?thesis by blast
qed

text \<open>
  What the columns of an event row hold without changing it: the numbers are \<open>numeric(9,6)\<close> twice,
  \<open>numeric(7,3)\<close>, \<open>numeric(4,2)\<close> and, for the distance of the bracket,
  \<open>numeric(6,2)\<close>.
\<close>

definition fitsColumns :: "afadParsedEvent \<Rightarrow> bool" where
  "fitsColumns e \<longleftrightarrow>
     providerEventId e \<noteq> [] \<and> length (providerEventId e) \<le> 32
     \<and> -90 \<le> evLatitude e \<and> evLatitude e \<le> 90 \<and> (\<exists>n :: int. evLatitude e * 10 ^ 6 = of_int n)
     \<and> -180 \<le> evLongitude e \<and> evLongitude e \<le> 180 \<and> (\<exists>n :: int. evLongitude e * 10 ^ 6 = of_int n)
     \<and> -5 \<le> depthKm e \<and> depthKm e \<le> 1000 \<and> (\<exists>n :: int. depthKm e * 10 ^ 3 = of_int n)
     \<and> -1 \<le> magnitude e \<and> magnitude e \<le> 10 \<and> (\<exists>n :: int. magnitude e * 10 ^ 2 = of_int n)
     \<and> magnitudeTypeRaw e \<noteq> [] \<and> length (magnitudeTypeRaw e) \<le> 16
     \<and> evMagnitudeType e = normaliseMagnitudeType (magnitudeTypeRaw e)
     \<and> (\<forall>s. providerCountry e = Some s \<longrightarrow> s \<noteq> [] \<and> length s \<le> 64)
     \<and> (\<forall>s. providerProvince e = Some s \<longrightarrow> s \<noteq> [] \<and> length s \<le> 64)
     \<and> (\<forall>s. providerDistrict e = Some s \<longrightarrow> s \<noteq> [] \<and> length s \<le> 64)
     \<and> providerLocationRaw e \<noteq> [] \<and> length (providerLocationRaw e) \<le> 160
     \<and> length (placeNameTr e) \<le> 160
     \<and> startsWith (trimStart (providerLocationRaw e)) (placeNameTr e)
     \<and> (\<forall>km. bindingDistanceKm e = Some km \<longrightarrow> 0 \<le> km \<and> km < 10 ^ 4 \<and> (\<exists>n :: int. km * 10 ^ 2 = of_int n))"

text \<open>A distance the check on its decimals does not see.\<close>

definition tooFineUnseen :: "afadParsedEvent \<Rightarrow> bool" where
  "tooFineUnseen e \<longleftrightarrow> (\<exists>km. bindingDistanceKm e = Some km \<and> 0 < km \<and> km < 1 / 1000000)"

lemma read_fitsColumns:
  assumes "readAfadEvent r = Inr (e, n)"
  shows "fitsColumns (if tooFineUnseen e then e\<lparr>bindingDistanceKm := Some 0\<rparr> else e)"
proof -
  obtain k loc where ident: "readFilledString None r ''eventID'' 32 = Inr (providerEventId e)"
    and num: "readNumbers k r = Inr (evLatitude e, evLongitude e, depthKm e, magnitude e)"
    and ty: "readFilledString k r ''type'' 16 = Inr (magnitudeTypeRaw e)"
      "evMagnitudeType e = normaliseMagnitudeType (magnitudeTypeRaw e)"
    and loc: "readLocation k r = Inr (providerLocationRaw e, loc)" "placeNameTr e = locPlaceNameTr loc"
      "bindingDistanceKm e = locBindingDistanceKm loc"
    and c: "readNullableString r ''country'' 64 = Some (providerCountry e)"
    and p: "readNullableString r ''province'' 64 = Some (providerProvince e)"
    and d: "readNullableString r ''district'' 64 = Some (providerDistrict e)"
    by (rule readAfadEvent_Inr [OF assms])
  have "0 \<le> km \<and> km < 10 ^ 4 \<and> (\<exists>n :: int. km * 10 ^ 2 = of_int n)"
    if km: "bindingDistanceKm e = Some km" and seen: "\<not> tooFineUnseen e" for km
  proof -
    note lr = readLocation_Inr [OF loc(1)]
    have some: "locBindingDistanceKm loc = Some km" using km loc(3) by simp
    then obtain place t where t: "(place, t) \<in> set (matchCompositeLocation (providerLocationRaw e))" "km = numberOf t"
      using lr(4) by (auto simp: parseAfadLocation_def Let_def split: list.splits if_splits) blast
    from numberOf_decimal matchCompositeLocation_km [OF t(1)]
    obtain n k where n: "0 \<le> n" "km = of_int n / 10 ^ k" unfolding t(2) by blast
    then have nonneg: "0 \<le> km" by simp
    with seen km have "km = 0 \<or> 1 / 1000000 \<le> km" by (auto simp: tooFineUnseen_def)
    from shownScale_fits [OF n(2,1) _ this] lr(7) [OF some] nonneg show ?thesis
      by (simp add: MAX_BINDING_DISTANCE_KM_def)
  qed
  then show ?thesis
    unfolding fitsColumns_def
    using readFilledString_Inr [OF ident] readNumbers_Inr [OF num] readFilledString_Inr [OF ty(1)] ty(2)
      readLocation_Inr [OF loc(1)] loc(2,3) readNullableString_Some [OF c]
      readNullableString_Some [OF p] readNullableString_Some [OF d]
    by simp
qed

text \<open>
  C35: An accepted event fits the columns it is stored in: its numbers are in range and a whole
  number of the column's last decimal, its texts are within their lengths, no name is empty, and
  its place name is the start of the provider's own location text. The one exception is a distance
  of the bracket above zero and below a millionth of a kilometre, which the check on its decimals
  does not see: such an event fits with the distance zero, which is what the column rounds it to.
\<close>

theorem accepted_fits_columns:
  assumes "parseAfadEvent row = Inr e"
  shows "fitsColumns (if tooFineUnseen e then e\<lparr>bindingDistanceKm := Some 0\<rparr> else e)"
proof -
  obtain r n where "readAfadEvent r = Inr (e, n)"
    using assms by (auto simp: parseAfadEvent_def andThen_eq_Inr split: json.splits option.splits prod.splits)
  then show ?thesis by (rule read_fitsColumns)
qed

text \<open>
  The fidelity check at the end never refuses a row: an event built from a row that passed
  the earlier checks writes back to the row it came from in every field, so a row is accepted
  exactly when the readers accept it, with the event they built.
\<close>

theorem fidelity_never_refuses:
  "parseAfadEvent (JObject r) = map_sum id fst (readAfadEvent r)"
proof (cases "readAfadEvent r")
  case (Inl x)
  then show ?thesis by (simp add: parseAfadEvent_def)
next
  case (Inr en)
  then obtain e n where "readAfadEvent r = Inr (e, n)" by (cases en) auto
  with fidelity_holds [OF this] show ?thesis by (simp add: parseAfadEvent_def)
qed

lemma collectRows_lengths:
  "collectRows rows = (acc, rej) \<Longrightarrow> length acc + length rej = length rows"
  by (induction rows arbitrary: acc rej) (auto split: prod.splits sum.splits)

lemma collectRows_accepted: "fst (collectRows rows) = [e. Inr e \<leftarrow> map parseAfadEvent rows]"
  by (induction rows) (auto split: prod.splits sum.splits)

lemma collectRows_rejected: "snd (collectRows rows) = [r. Inl r \<leftarrow> map parseAfadEvent rows]"
  by (induction rows) (auto split: prod.splits sum.splits)

text \<open>
  A body is read whole or not at all. It is refused when it is no JSON array or reaches the
  safety limit, and otherwise every row is accepted or refused on its own, in order, none is
  lost, and no row can refuse another.
\<close>

theorem body_rows_independent:
  "parseAfadEventsBody jsonParse safetyLimit body =
     (case jsonParse body of
        None \<Rightarrow> Inl Not_json
      | Some (JArray rows) \<Rightarrow>
          if safetyLimit \<le> length rows then Inl (At_safety_limit (length rows))
          else Inr \<lparr>fetchedCount = length [e. Inr e \<leftarrow> map parseAfadEvent rows]
                                    + length [r. Inl r \<leftarrow> map parseAfadEvent rows],
                    accepted = [e. Inr e \<leftarrow> map parseAfadEvent rows],
                    rejected = [r. Inl r \<leftarrow> map parseAfadEvent rows]\<rparr>
      | Some _ \<Rightarrow> Inl Not_an_array)"
proof (cases "\<exists>rows. jsonParse body = Some (JArray rows)")
  case True
  then obtain rows where rows: "jsonParse body = Some (JArray rows)" by blast
  obtain acc rej where c: "collectRows rows = (acc, rej)" by fastforce
  then have "acc = [e. Inr e \<leftarrow> map parseAfadEvent rows]" "rej = [r. Inl r \<leftarrow> map parseAfadEvent rows]"
    using collectRows_accepted [of rows] collectRows_rejected [of rows] by simp_all
  with collectRows_lengths [OF c] rows c show ?thesis
    by (simp add: parseAfadEventsBody_def)
next
  case False
  then show ?thesis
    by (simp add: parseAfadEventsBody_def split: option.splits json.splits)
qed

text \<open>A row of the documented shape, with the bracket distance as the argument.\<close>

definition sampleRow :: "string \<Rightarrow> (jsText \<times> json) list" where
  "sampleRow km =
     [(ascii ''eventID'', JString (ascii ''704412'')), (ascii ''date'', JString (ascii ''2026-08-10T10:07:59'')),
      (ascii ''latitude'', JString (ascii ''36.721'')), (ascii ''longitude'', JString (ascii ''-27.5'')),
      (ascii ''depth'', JString (ascii ''7'')), (ascii ''magnitude'', JString (ascii ''1.3'')),
      (ascii ''type'', JString (ascii ''ML'')),
      (ascii ''location'', JString (ascii (''Ege-['' @ km @ ''km]B(M)''))),
      (ascii ''country'', JNull), (ascii ''province'', JString (ascii ''Mugla'')),
      (ascii ''district'', JString []), (ascii ''isEventUpdate'', JBool False),
      (ascii ''lastUpdateDate'', JNull)]"

theorem accepted_fits_columns_witness:
  "\<exists>e. parseAfadEvent (JObject (sampleRow ''56.72'')) = Inr e
     \<and> placeNameTr e = ascii ''Ege'' \<and> bindingDistanceKm e = Some (5672 / 100) \<and> fitsColumns e"
proof -
  have "case parseAfadEvent (JObject (sampleRow ''56.72'')) of Inl r \<Rightarrow> False
     | Inr e \<Rightarrow> placeNameTr e = ascii ''Ege'' \<and> bindingDistanceKm e = Some (5672 / 100)"
    by code_simp
  then obtain e where e: "parseAfadEvent (JObject (sampleRow ''56.72'')) = Inr e"
      "placeNameTr e = ascii ''Ege''" "bindingDistanceKm e = Some (5672 / 100)"
    by (auto split: sum.splits)
  then have "\<not> tooFineUnseen e" by (simp add: tooFineUnseen_def)
  with accepted_fits_columns [OF e(1)] e show ?thesis by auto
qed

text \<open>
  The exception is real: a distance of a ten-millionth of a kilometre is accepted and does not fit.
  The number is written with an exponent, in which the check sees no decimals at all.
\<close>

lemma tiny_distance_accepted:
  "\<exists>e. parseAfadEvent (JObject (sampleRow ''0.0000001'')) = Inr e \<and> tooFineUnseen e \<and> \<not> fitsColumns e"
proof -
  have "case parseAfadEvent (JObject (sampleRow ''0.0000001'')) of Inl r \<Rightarrow> False
     | Inr e \<Rightarrow> bindingDistanceKm e = Some (1 / 10000000)"
    by code_simp
  then obtain e where e: "parseAfadEvent (JObject (sampleRow ''0.0000001'')) = Inr e"
      "bindingDistanceKm e = Some (1 / 10000000)"
    by (auto split: sum.splits)
  have "\<nexists>n :: int. (1 / 10000000 :: rat) * 10 ^ 2 = of_int n"
  proof
    assume "\<exists>n :: int. (1 / 10000000 :: rat) * 10 ^ 2 = of_int n"
    then obtain n :: int where "(1 / 10000000 :: rat) * 10 ^ 2 = of_int n" ..
    then have "of_int (100000 * n) = (1 :: rat)" by simp
    then have "100000 * n = 1" by (simp only: of_int_eq_1_iff)
    then have "(1 :: int) mod 100000 = 0" by (metis mod_mult_self1_is_0)
    then show False by simp
  qed
  moreover have "fitsColumns e \<Longrightarrow> \<exists>n :: int. (1 / 10000000 :: rat) * 10 ^ 2 = of_int n"
    unfolding fitsColumns_def by (elim conjE) (drule spec, drule mp, rule e(2), elim conjE)
  ultimately have "\<not> fitsColumns e" by (rule contrapos_nn)
  moreover have "tooFineUnseen e"
    unfolding tooFineUnseen_def by (intro exI [of _ "1 / 10000000"]) (simp add: e(2))
  ultimately show ?thesis using e(1) by blast
qed

section \<open>A server error the provider means as a refusal\<close>

definition isIntegral :: "rat \<Rightarrow> bool" where
  "isIntegral x \<longleftrightarrow> snd (quotient_of x) = 1"

definition readStatusFromJson :: "(jsText \<Rightarrow> json option) \<Rightarrow> jsText \<Rightarrow> rat option" where
  "readStatusFromJson jsonParse excerpt =
     (case jsonParse excerpt of
        Some (JObject r) \<Rightarrow>
          (case jsonField r ''status'' of
             Some (JNumber n) \<Rightarrow> if isIntegral n then Some n else None
           | Some (JString s) \<Rightarrow>
               if length s = 3 \<and> list_all isDigit s then Some (of_int (digitsValue s)) else None
           | _ \<Rightarrow> None)
      | _ \<Rightarrow> None)"

text \<open>\<open>STATUS_FIELD\<close>: the first place of the text where the field stands.\<close>

definition matchStatusField :: "jsText \<Rightarrow> jsText list" where
  "matchStatusField s =
     concat (map (\<lambda>i. rxThen (rxText (34 # ascii ''status'' @ [34])) (\<lambda>_.
       rxThen (rxStar isSpace) (\<lambda>_. rxThen (rxText [58]) (\<lambda>_. rxThen (rxStar isSpace) (\<lambda>_.
       rxThen (rxRepeat 3 3 isDigit) (\<lambda>ds _. [ds]))))) (drop i s)) [0 ..< length s])"

definition readDeclaredStatus :: "(jsText \<Rightarrow> json option) \<Rightarrow> jsText \<Rightarrow> rat option" where
  "readDeclaredStatus jsonParse excerpt =
     (case readStatusFromJson jsonParse excerpt of
        Some n \<Rightarrow> Some n
      | None \<Rightarrow> (case matchStatusField excerpt of [] \<Rightarrow> None | ds # _ \<Rightarrow> Some (of_int (digitsValue ds))))"

text \<open>\<open>classifyAfadServerErrorBody\<close>: \<open>True\<close> is the verdict \<open>client_error\<close>.\<close>

definition classifyAfadServerErrorBody :: "(jsText \<Rightarrow> json option) \<Rightarrow> jsText \<Rightarrow> bool" where
  "classifyAfadServerErrorBody jsonParse excerpt =
     (case readDeclaredStatus jsonParse excerpt of
        None \<Rightarrow> False | Some declared \<Rightarrow> declared \<ge> 400 \<and> declared < 500)"

section \<open>The window and the URL of a call\<close>

datatype earthquakeIngestJobKind = Recent | Reconcile | Backfill

record earthquakeUpstreamConfig =
  ingestEnabled :: bool
  cfgBaseUrl :: jsText
  cfgSingleCallTimeoutMs :: ms
  cfgResponseMaxBytes :: nat
  recentWindowHours :: int
  reconcileWindowDays :: int
  clockSkewSeconds :: int
  tourBudgetMs :: ms
  safetyLimit :: nat
  scopeBufferKm :: rat
  runRetentionDays :: int
  staleMaxSeconds :: int

record afadWindow =
  startUtc :: ms
  endUtc :: ms

definition buildAfadWindow :: "earthquakeIngestJobKind \<Rightarrow> ms \<Rightarrow> earthquakeUpstreamConfig \<Rightarrow> afadWindow" where
  "buildAfadWindow jobKind nowMs config =
     (let spanMs = (if jobKind = Recent then recentWindowHours config * 3600000
                    else reconcileWindowDays config * 86400000)
      in \<lparr>startUtc = nowMs - spanMs, endUtc = nowMs + clockSkewSeconds config * 1000\<rparr>)"

fun decimalText :: "nat \<Rightarrow> jsText" where
  "decimalText n = (if n < 10 then [48 + int n] else decimalText (n div 10) @ [48 + int (n mod 10)])"

declare decimalText.simps [simp del]

definition buildAfadEventFilterUrl :: "jsText \<Rightarrow> afadWindow \<Rightarrow> nat \<Rightarrow> jsText" where
  "buildAfadEventFilterUrl baseUrl w limitRows =
     (let base = rev (dropWhile (\<lambda>c. c = 47) (rev baseUrl))
      in base @ ascii ''/event/filter?start='' @ toAfadQueryStamp (startUtc w)
         @ ascii ''&end='' @ toAfadQueryStamp (endUtc w) @ ascii ''&limit='' @ decimalText limitRows)"

end
