(* ===== verification/Tr_Scope.thy ===== *)
theory Tr_Scope
  imports Afad_Event
begin

text \<open>
  \<open>src/earthquake/scope/tr-boundary.ts\<close>, \<open>scope/earthquake-binding.ts\<close> and
  \<open>earthquake-row.ts\<close>: is an event within the buffer around the country, how is it bound to a
  province, and the row that is stored for it. Coordinates are real numbers, the outline
  (\<open>tr-boundary.generated.ts\<close>) and the platform's Turkish lower case and word splitting are
  arguments; \<open>None\<close> is the distance \<open>Infinity\<close>.
\<close>

section \<open>Distances\<close>

definition KM_PER_DEGREE_LAT :: real where
  "KM_PER_DEGREE_LAT = 110574 / 1000"

definition KM_PER_DEGREE_LON_AT_EQUATOR :: real where
  "KM_PER_DEGREE_LON_AT_EQUATOR = 11132 / 100"

definition toRadians :: "real \<Rightarrow> real" where
  "toRadians degrees = degrees * pi / 180"

definition hypot :: "real \<Rightarrow> real \<Rightarrow> real" where
  "hypot x y = sqrt (x * x + y * y)"

definition distanceToSegmentKm :: "real \<Rightarrow> real \<Rightarrow> real \<Rightarrow> real \<Rightarrow> real \<Rightarrow> real \<Rightarrow> real" where
  "distanceToSegmentKm longitude latitude aLon aLat bLon bLat =
     (let kx = KM_PER_DEGREE_LON_AT_EQUATOR * cos (toRadians latitude);
          ky = KM_PER_DEGREE_LAT;
          ax = (aLon - longitude) * kx; ay = (aLat - latitude) * ky;
          bx = (bLon - longitude) * kx; by' = (bLat - latitude) * ky;
          dx = bx - ax; dy = by' - ay;
          lengthSquared = dx * dx + dy * dy
      in if lengthSquared = 0 then hypot ax ay
         else (let t = min 1 (max 0 (- (ax * dx + ay * dy) / lengthSquared))
               in hypot (ax + t * dx) (ay + t * dy)))"

definition nearer :: "real \<Rightarrow> real option \<Rightarrow> real option" where
  "nearer x nearest = (case nearest of None \<Rightarrow> Some x | Some y \<Rightarrow> if x < y then Some x else nearest)"

fun ringNearest :: "real \<Rightarrow> real \<Rightarrow> real list \<Rightarrow> real option \<Rightarrow> real option" where
  "ringNearest lon lat (aLon # aLat # bLon # bLat # rest) nearest =
     ringNearest lon lat (bLon # bLat # rest)
       (nearer (distanceToSegmentKm lon lat aLon aLat bLon bLat) nearest)"
| "ringNearest lon lat _ nearest = nearest"

definition distanceToRingKm :: "real \<Rightarrow> real \<Rightarrow> real list \<Rightarrow> real option" where
  "distanceToRingKm lon lat ring = ringNearest lon lat ring None"

section \<open>Point in ring\<close>

definition vertexLon :: "real list \<Rightarrow> nat \<Rightarrow> real" where
  "vertexLon ring k = ring ! (k * 2)"

definition vertexLat :: "real list \<Rightarrow> nat \<Rightarrow> real" where
  "vertexLat ring k = ring ! (k * 2 + 1)"

definition straddles :: "real \<Rightarrow> real list \<Rightarrow> nat \<Rightarrow> nat \<Rightarrow> bool" where
  "straddles lat ring index previous \<longleftrightarrow>
     (vertexLat ring index > lat) \<noteq> (vertexLat ring previous > lat)"

definition crossingLon :: "real \<Rightarrow> real list \<Rightarrow> nat \<Rightarrow> nat \<Rightarrow> real" where
  "crossingLon lat ring index previous =
     (vertexLon ring previous - vertexLon ring index) * (lat - vertexLat ring index)
       / (vertexLat ring previous - vertexLat ring index) + vertexLon ring index"

text \<open>
  The loop over the vertices: within the vertex count every coordinate it reads exists, so the
  code's guard against \<open>undefined\<close> never skips one.
\<close>

function ringLoop :: "real \<Rightarrow> real \<Rightarrow> real list \<Rightarrow> nat \<Rightarrow> nat \<Rightarrow> bool \<Rightarrow> bool" where
  "ringLoop lon lat ring index previous inside =
     (if index < length ring div 2 then
        ringLoop lon lat ring (index + 1) index
          (if straddles lat ring index previous \<and> lon < crossingLon lat ring index previous
           then \<not> inside else inside)
      else inside)"
  by auto

termination
  by (relation "measure (\<lambda>(lon, lat, ring, index, previous, inside). length ring div 2 - index)") auto

declare ringLoop.simps [simp del]

definition pointInRing :: "real \<Rightarrow> real \<Rightarrow> real list \<Rightarrow> bool" where
  "pointInRing lon lat ring = ringLoop lon lat ring 0 (length ring div 2 - 1) False"

section \<open>The scope test\<close>

record boundingBox =
  minLon :: real
  minLat :: real
  maxLon :: real
  maxLat :: real

fun toggleRings :: "real \<Rightarrow> real \<Rightarrow> real list list \<Rightarrow> bool \<Rightarrow> bool" where
  "toggleRings lon lat [] inside = inside"
| "toggleRings lon lat (ring # rings) inside =
     toggleRings lon lat rings (if pointInRing lon lat ring then \<not> inside else inside)"

fun nearestRing :: "real \<Rightarrow> real \<Rightarrow> real list list \<Rightarrow> real option \<Rightarrow> real option" where
  "nearestRing lon lat [] nearest = nearest"
| "nearestRing lon lat (ring # rings) nearest =
     nearestRing lon lat rings
       (case distanceToRingKm lon lat ring of None \<Rightarrow> nearest | Some x \<Rightarrow> nearer x nearest)"

definition distanceToTrBoundaryKm :: "real list list \<Rightarrow> real \<Rightarrow> real \<Rightarrow> real option" where
  "distanceToTrBoundaryKm rings lon lat =
     (if toggleRings lon lat rings False then Some 0 else nearestRing lon lat rings None)"

definition widestLatitude :: "boundingBox \<Rightarrow> real \<Rightarrow> real" where
  "widestLatitude bbox bufferKm =
     min 89 (max \<bar>minLat bbox\<bar> \<bar>maxLat bbox\<bar> + bufferKm / KM_PER_DEGREE_LAT)"

definition longitudePad :: "boundingBox \<Rightarrow> real \<Rightarrow> real" where
  "longitudePad bbox bufferKm =
     bufferKm / (KM_PER_DEGREE_LON_AT_EQUATOR * cos (toRadians (widestLatitude bbox bufferKm)))"

definition isWithinTrScope :: "real list list \<Rightarrow> boundingBox \<Rightarrow> real \<Rightarrow> real \<Rightarrow> real \<Rightarrow> bool" where
  "isWithinTrScope rings bbox lon lat bufferKm =
     (if bufferKm < 0 then False
      else
       (let latitudePad = bufferKm / KM_PER_DEGREE_LAT
        in if lon < minLon bbox - longitudePad bbox bufferKm
              \<or> lon > maxLon bbox + longitudePad bbox bufferKm
              \<or> lat < minLat bbox - latitudePad \<or> lat > maxLat bbox + latitudePad then False
           else (case distanceToTrBoundaryKm rings lon lat of
                   None \<Rightarrow> False | Some distance \<Rightarrow> distance \<le> bufferKm)))"

section \<open>A segment's distance is its nearest point's\<close>

lemma hypot_nonneg [simp]: "0 \<le> hypot x y"
  by (simp add: hypot_def sum_squares_ge_zero)

lemma hypot_ge: "\<bar>x\<bar> \<le> hypot x y" "\<bar>y\<bar> \<le> hypot x y"
  unfolding hypot_def by (rule real_le_rsqrt, simp add: power2_eq_square)+

lemma hypot_le: "x * x + y * y \<le> u * u + v * v \<Longrightarrow> hypot x y \<le> hypot u v"
  unfolding hypot_def by (rule real_sqrt_le_mono)

text \<open>The clamped projection minimises the squared distance over the segment.\<close>

lemma clamp_minimises:
  fixes a b dx dy u :: real
  assumes l: "dx * dx + dy * dy \<noteq> 0" and u: "0 \<le> u" "u \<le> 1"
    and t: "t = min 1 (max 0 (- (a * dx + b * dy) / (dx * dx + dy * dy)))"
  shows "(a + t * dx) * (a + t * dx) + (b + t * dy) * (b + t * dy)
    \<le> (a + u * dx) * (a + u * dx) + (b + u * dy) * (b + u * dy)"
proof -
  define L where "L = dx * dx + dy * dy"
  define q where "q = - (a * dx + b * dy) / L"
  have L: "0 < L" using l sum_squares_ge_zero [of dx dy] unfolding L_def by linarith
  then have ad: "a * dx + b * dy = - q * L" by (simp add: q_def)
  have expand: "(a + s * dx) * (a + s * dx) + (b + s * dy) * (b + s * dy)
      = a * a + b * b + L * ((s - q) * (s - q) - q * q)" for s
  proof -
    have "(a + s * dx) * (a + s * dx) + (b + s * dy) * (b + s * dy)
        = a * a + b * b + 2 * s * (a * dx + b * dy) + s * s * L"
      by (simp add: L_def algebra_simps)
    then show ?thesis unfolding ad by (simp add: algebra_simps)
  qed
  have t': "t = min 1 (max 0 q)" unfolding t q_def L_def ..
  have "\<bar>t - q\<bar> \<le> \<bar>u - q\<bar>" using u unfolding t' by linarith
  then have "(t - q) * (t - q) \<le> (u - q) * (u - q)"
    by (metis abs_le_square_iff power2_eq_square)
  with L show ?thesis unfolding expand by simp
qed

text \<open>The point of a segment at the fraction \<open>t\<close>, and its distance from the query point.\<close>

definition pointDistance :: "real \<Rightarrow> real \<Rightarrow> real \<Rightarrow> real \<Rightarrow> real" where
  "pointDistance lon lat pLon pLat =
     hypot ((pLon - lon) * (KM_PER_DEGREE_LON_AT_EQUATOR * cos (toRadians lat)))
       ((pLat - lat) * KM_PER_DEGREE_LAT)"

lemma segment_attained:
  "\<exists>t. 0 \<le> t \<and> t \<le> 1 \<and> distanceToSegmentKm lon lat aLon aLat bLon bLat
      = pointDistance lon lat (aLon + t * (bLon - aLon)) (aLat + t * (bLat - aLat))"
proof -
  define kx where "kx = KM_PER_DEGREE_LON_AT_EQUATOR * cos (toRadians lat)"
  define ky where "ky = KM_PER_DEGREE_LAT"
  define ax where "ax = (aLon - lon) * kx"
  define ay where "ay = (aLat - lat) * ky"
  define dx where "dx = (bLon - lon) * kx - ax"
  define dy where "dy = (bLat - lat) * ky - ay"
  define t where "t = (if dx * dx + dy * dy = 0 then 0
    else min 1 (max 0 (- (ax * dx + ay * dy) / (dx * dx + dy * dy))))"
  have "distanceToSegmentKm lon lat aLon aLat bLon bLat = hypot (ax + t * dx) (ay + t * dy)"
    unfolding distanceToSegmentKm_def Let_def kx_def [symmetric] ky_def [symmetric]
      ax_def [symmetric] ay_def [symmetric] dx_def [symmetric] dy_def [symmetric] t_def by simp
  moreover have "ax + t * dx = (aLon + t * (bLon - aLon) - lon) * kx"
    "ay + t * dy = (aLat + t * (bLat - aLat) - lat) * ky"
    by (simp_all add: ax_def ay_def dx_def dy_def algebra_simps)
  ultimately have "distanceToSegmentKm lon lat aLon aLat bLon bLat
      = pointDistance lon lat (aLon + t * (bLon - aLon)) (aLat + t * (bLat - aLat))"
    unfolding pointDistance_def kx_def ky_def by simp
  moreover have "0 \<le> t" "t \<le> 1" by (simp_all add: t_def)
  ultimately show ?thesis by blast
qed

text \<open>
  The distance to a segment is the distance to its nearest point: some point of the segment is
  that far away and no point of it is nearer.
\<close>

theorem segment_distance_nearest:
  "(\<exists>t \<in> {0..1}. distanceToSegmentKm lon lat aLon aLat bLon bLat
       = pointDistance lon lat (aLon + t * (bLon - aLon)) (aLat + t * (bLat - aLat)))
   \<and> (\<forall>u \<in> {0..1}. distanceToSegmentKm lon lat aLon aLat bLon bLat
       \<le> pointDistance lon lat (aLon + u * (bLon - aLon)) (aLat + u * (bLat - aLat)))"
proof (intro conjI ballI)
  show "\<exists>t \<in> {0..1}. distanceToSegmentKm lon lat aLon aLat bLon bLat
       = pointDistance lon lat (aLon + t * (bLon - aLon)) (aLat + t * (bLat - aLat))"
    using segment_attained [of lon lat aLon aLat bLon bLat] by auto
next
  fix u :: real
  assume u: "u \<in> {0..1}"
  define kx where "kx = KM_PER_DEGREE_LON_AT_EQUATOR * cos (toRadians lat)"
  define ky where "ky = KM_PER_DEGREE_LAT"
  define ax where "ax = (aLon - lon) * kx"
  define ay where "ay = (aLat - lat) * ky"
  define dx where "dx = (bLon - lon) * kx - ax"
  define dy where "dy = (bLat - lat) * ky - ay"
  have "distanceToSegmentKm lon lat aLon aLat bLon bLat \<le> hypot (ax + u * dx) (ay + u * dy)"
  proof (cases "dx * dx + dy * dy = 0")
    case True
    then have "dx = 0" "dy = 0" by (simp_all add: sum_squares_eq_zero_iff)
    with True show ?thesis
      unfolding distanceToSegmentKm_def Let_def kx_def [symmetric] ky_def [symmetric]
        ax_def [symmetric] ay_def [symmetric] dx_def [symmetric] dy_def [symmetric] by simp
  next
    case False
    with u show ?thesis
      unfolding distanceToSegmentKm_def Let_def kx_def [symmetric] ky_def [symmetric]
        ax_def [symmetric] ay_def [symmetric] dx_def [symmetric] dy_def [symmetric] if_not_P [OF False]
      by (intro hypot_le clamp_minimises [OF False _ _ refl]) auto
  qed
  moreover have "ax + u * dx = (aLon + u * (bLon - aLon) - lon) * kx"
    "ay + u * dy = (aLat + u * (bLat - aLat) - lat) * ky"
    by (simp_all add: ax_def ay_def dx_def dy_def algebra_simps)
  ultimately show "distanceToSegmentKm lon lat aLon aLat bLon bLat
       \<le> pointDistance lon lat (aLon + u * (bLon - aLon)) (aLat + u * (bLat - aLat))"
    unfolding pointDistance_def kx_def ky_def by simp
qed

theorem segment_distance_nearest_witness:
  "distanceToSegmentKm 30 40 31 40 31 42 \<le> pointDistance 30 40 31 (40 + 1 * (42 - 40))"
proof -
  have "distanceToSegmentKm 30 40 31 40 31 42
      \<le> pointDistance 30 40 (31 + 1 * (31 - 31)) (40 + 1 * (42 - 40))"
    using segment_distance_nearest [of 30 40 31 40 31 42, THEN conjunct2, THEN bspec, of 1] by simp
  then show ?thesis by simp
qed

section \<open>The bounding box never hides a point\<close>

definition ringInBox :: "boundingBox \<Rightarrow> real list \<Rightarrow> bool" where
  "ringInBox bbox ring \<longleftrightarrow> even (length ring) \<and>
     (\<forall>k < length ring div 2. minLon bbox \<le> vertexLon ring k \<and> vertexLon ring k \<le> maxLon bbox
        \<and> minLat bbox \<le> vertexLat ring k \<and> vertexLat ring k \<le> maxLat bbox)"

text \<open>A ring no edge of which is crossed leaves the toggle as it is.\<close>

lemma ringLoop_uncrossed:
  assumes "\<And>k p. k < length ring div 2 \<Longrightarrow> p < length ring div 2 \<Longrightarrow>
      \<not> (straddles lat ring k p \<and> lon < crossingLon lat ring k p)"
    and "previous < length ring div 2 \<or> length ring div 2 = 0"
  shows "ringLoop lon lat ring index previous inside = inside"
  using assms(2)
proof (induction "length ring div 2 - index" arbitrary: index previous)
  case 0
  then show ?case by (subst ringLoop.simps) simp
next
  case (Suc m)
  then have i: "index < length ring div 2" "previous < length ring div 2" by auto
  have "ringLoop lon lat ring (index + 1) index inside = inside"
    using Suc.hyps(2) i by (intro Suc.hyps(1)) simp_all
  with i assms(1) [OF i] show ?case by (subst ringLoop.simps) auto
qed

text \<open>
  Left of every vertex each straddling edge is crossed, and a closed walk over the vertices
  changes side an even number of times.
\<close>

lemma ringLoop_all_crossed:
  assumes "\<And>k p. k < length ring div 2 \<Longrightarrow> p < length ring div 2 \<Longrightarrow> straddles lat ring k p
      \<Longrightarrow> lon < crossingLon lat ring k p"
    and "previous < length ring div 2"
    and "index < length ring div 2 \<or> previous = length ring div 2 - 1"
    and "inside = straddles lat ring (length ring div 2 - 1) previous"
  shows "\<not> ringLoop lon lat ring index previous inside"
  using assms(2-4)
proof (induction "length ring div 2 - index" arbitrary: index previous inside)
  case 0
  then show ?case by (subst ringLoop.simps) (simp add: straddles_def)
next
  case (Suc m)
  then have i: "index < length ring div 2" by simp
  have s: "(if straddles lat ring index previous \<and> lon < crossingLon lat ring index previous
      then \<not> inside else inside) = straddles lat ring (length ring div 2 - 1) index"
    using assms(1) [OF i Suc.prems(1)] Suc.prems(3) by (auto simp: straddles_def)
  have "\<not> ringLoop lon lat ring (index + 1) index (straddles lat ring (length ring div 2 - 1) index)"
    using Suc.hyps(2) i by (intro Suc.hyps(1)) auto
  then show ?case using i s by (subst ringLoop.simps) simp
qed

lemma crossing_between:
  assumes "straddles lat ring k p"
  shows "min (vertexLon ring k) (vertexLon ring p) \<le> crossingLon lat ring k p"
    and "crossingLon lat ring k p \<le> max (vertexLon ring k) (vertexLon ring p)"
proof -
  define u where "u = (lat - vertexLat ring k) / (vertexLat ring p - vertexLat ring k)"
  have "0 \<le> u \<and> u \<le> 1"
    using assms by (auto simp: straddles_def u_def field_simps divide_le_eq zero_le_divide_iff)
  moreover have "crossingLon lat ring k p = (vertexLon ring p - vertexLon ring k) * u + vertexLon ring k"
    by (simp add: crossingLon_def u_def)
  then have "crossingLon lat ring k p = (1 - u) * vertexLon ring k + u * vertexLon ring p"
    by (simp add: algebra_simps)
  ultimately show "min (vertexLon ring k) (vertexLon ring p) \<le> crossingLon lat ring k p"
    "crossingLon lat ring k p \<le> max (vertexLon ring k) (vertexLon ring p)"
    using convex_bound_le [of "vertexLon ring k" "max (vertexLon ring k) (vertexLon ring p)"
        "vertexLon ring p" "1 - u" u]
      convex_bound_le [of "- vertexLon ring k" "- min (vertexLon ring k) (vertexLon ring p)"
        "- vertexLon ring p" "1 - u" u] by auto
qed

lemma pointInRing_box:
  assumes box: "ringInBox bbox ring" and inside: "pointInRing lon lat ring"
  shows "minLon bbox \<le> lon" "lon \<le> maxLon bbox" "minLat bbox \<le> lat" "lat \<le> maxLat bbox"
proof -
  let ?n = "length ring div 2"
  have V: "minLon bbox \<le> vertexLon ring k" "vertexLon ring k \<le> maxLon bbox"
    "minLat bbox \<le> vertexLat ring k" "vertexLat ring k \<le> maxLat bbox" if "k < ?n" for k
    using box that by (auto simp: ringInBox_def)
  have crossed: "\<exists>k p. k < ?n \<and> p < ?n \<and> straddles lat ring k p \<and> lon < crossingLon lat ring k p"
  proof (rule ccontr)
    assume "\<not> ?thesis"
    then have "ringLoop lon lat ring 0 (?n - 1) False = False"
      by (intro ringLoop_uncrossed) auto
    with inside show False by (simp add: pointInRing_def)
  qed
  then obtain k p where kp: "k < ?n" "p < ?n" "straddles lat ring k p" "lon < crossingLon lat ring k p"
    by blast
  show "lon \<le> maxLon bbox"
    using kp(4) crossing_between(2) [OF kp(3)] V(2) [OF kp(1)] V(2) [OF kp(2)] by linarith
  show "minLat bbox \<le> lat" "lat \<le> maxLat bbox"
    using kp(3) V(3,4) [OF kp(1)] V(3,4) [OF kp(2)] by (auto simp: straddles_def)
  show "minLon bbox \<le> lon"
  proof (rule ccontr)
    assume "\<not> minLon bbox \<le> lon"
    then have "lon < crossingLon lat ring k p" if "k < ?n" "p < ?n" "straddles lat ring k p" for k p
      using crossing_between(1) [OF that(3)] V(1) [OF that(1)] V(1) [OF that(2)] by linarith
    then have "\<not> ringLoop lon lat ring 0 (?n - 1) False"
      using kp(1) by (intro ringLoop_all_crossed) (auto simp: straddles_def)
    with inside show False by (simp add: pointInRing_def)
  qed
qed

text \<open>A segment between two vertices of a box lies in the box.\<close>

lemma between_bounds:
  fixes a b m M t :: real
  assumes "m \<le> a" "a \<le> M" "m \<le> b" "b \<le> M" "0 \<le> t" "t \<le> 1"
  shows "m \<le> a + t * (b - a)" "a + t * (b - a) \<le> M"
proof -
  have e: "a + t * (b - a) = (1 - t) * a + t * b" by (simp add: algebra_simps)
  show "a + t * (b - a) \<le> M" unfolding e using assms by (intro convex_bound_le) simp_all
  show "m \<le> a + t * (b - a)"
    using convex_bound_le [of "- a" "- m" "- b" "1 - t" t] assms unfolding e by simp
qed

lemma nearer_cases: "nearer x n = Some y \<Longrightarrow> y = x \<or> n = Some y"
  by (auto simp: nearer_def split: option.splits if_splits)

definition reachedInBox :: "boundingBox \<Rightarrow> real \<Rightarrow> real \<Rightarrow> real \<Rightarrow> bool" where
  "reachedInBox bbox lon lat d \<longleftrightarrow>
     (\<exists>pLon pLat. minLon bbox \<le> pLon \<and> pLon \<le> maxLon bbox \<and> minLat bbox \<le> pLat \<and> pLat \<le> maxLat bbox
        \<and> d = pointDistance lon lat pLon pLat)"

definition coordsInBox :: "boundingBox \<Rightarrow> real list \<Rightarrow> bool" where
  "coordsInBox bbox ring \<longleftrightarrow> (\<forall>k < length ring.
     if even k then minLon bbox \<le> ring ! k \<and> ring ! k \<le> maxLon bbox
     else minLat bbox \<le> ring ! k \<and> ring ! k \<le> maxLat bbox)"

lemma ringInBox_coords: "ringInBox bbox ring \<Longrightarrow> coordsInBox bbox ring"
  unfolding coordsInBox_def
proof (intro allI impI)
  fix k
  assume b: "ringInBox bbox ring" and k: "k < length ring"
  then have "k div 2 < length ring div 2" by (auto simp: ringInBox_def elim!: evenE)
  with b have "minLon bbox \<le> ring ! (k div 2 * 2) \<and> ring ! (k div 2 * 2) \<le> maxLon bbox
      \<and> minLat bbox \<le> ring ! (k div 2 * 2 + 1) \<and> ring ! (k div 2 * 2 + 1) \<le> maxLat bbox"
    by (auto simp: ringInBox_def vertexLon_def vertexLat_def)
  moreover have "even k \<Longrightarrow> k div 2 * 2 = k" "odd k \<Longrightarrow> k div 2 * 2 + 1 = k" by presburger+
  ultimately show "if even k then minLon bbox \<le> ring ! k \<and> ring ! k \<le> maxLon bbox
     else minLat bbox \<le> ring ! k \<and> ring ! k \<le> maxLat bbox" by (metis (full_types))
qed

lemma coordsInBox_Cons2:
  "coordsInBox bbox (x # y # rest) \<longleftrightarrow>
     minLon bbox \<le> x \<and> x \<le> maxLon bbox \<and> minLat bbox \<le> y \<and> y \<le> maxLat bbox \<and> coordsInBox bbox rest"
  by (auto simp: coordsInBox_def nth_Cons All_less_Suc2 split: nat.split)

lemma ringNearest_reached:
  "coordsInBox bbox ring \<Longrightarrow> (\<And>y. nearest = Some y \<Longrightarrow> reachedInBox bbox lon lat y) \<Longrightarrow>
   ringNearest lon lat ring nearest = Some d \<Longrightarrow> reachedInBox bbox lon lat d"
proof (induction lon lat ring nearest arbitrary: d rule: ringNearest.induct)
  case (1 lon lat aLon aLat bLon bLat rest nearest)
  have a: "minLon bbox \<le> aLon" "aLon \<le> maxLon bbox" "minLat bbox \<le> aLat" "aLat \<le> maxLat bbox"
    and b: "minLon bbox \<le> bLon" "bLon \<le> maxLon bbox" "minLat bbox \<le> bLat" "bLat \<le> maxLat bbox"
    and rest: "coordsInBox bbox (bLon # bLat # rest)"
    using "1.prems"(1) by (simp_all only: coordsInBox_Cons2)
  have seg: "reachedInBox bbox lon lat (distanceToSegmentKm lon lat aLon aLat bLon bLat)"
    unfolding reachedInBox_def
    using segment_attained [of lon lat aLon aLat bLon bLat] between_bounds [OF a(1,2) b(1,2)]
      between_bounds [OF a(3,4) b(3,4)] by metis
  show ?case
    by (rule "1.IH" [OF rest]) (use seg "1.prems"(2,3) nearer_cases in auto)
qed simp_all

lemma nearestRing_reached:
  "(\<And>ring. ring \<in> set rings \<Longrightarrow> coordsInBox bbox ring) \<Longrightarrow>
   (\<And>y. nearest = Some y \<Longrightarrow> reachedInBox bbox lon lat y) \<Longrightarrow>
   nearestRing lon lat rings nearest = Some d \<Longrightarrow> reachedInBox bbox lon lat d"
proof (induction rings arbitrary: nearest)
  case Nil
  then show ?case by simp
next
  case (Cons ring rings)
  have ring: "reachedInBox bbox lon lat x" if "distanceToRingKm lon lat ring = Some x" for x
    using that Cons.prems(1) ringNearest_reached [of bbox ring None lon lat x]
    by (simp add: distanceToRingKm_def)
  show ?case
  proof (rule Cons.IH)
    show "nearestRing lon lat rings (case distanceToRingKm lon lat ring of None \<Rightarrow> nearest
        | Some x \<Rightarrow> nearer x nearest) = Some d" using Cons.prems(3) by simp
    fix y
    assume "(case distanceToRingKm lon lat ring of None \<Rightarrow> nearest | Some x \<Rightarrow> nearer x nearest) = Some y"
    then show "reachedInBox bbox lon lat y"
      using Cons.prems(2) ring by (auto split: option.splits dest!: nearer_cases)
  qed (use Cons.prems(1) in simp)
qed

lemma toggleRings_inside:
  "toggleRings lon lat rings inside \<Longrightarrow> inside \<or> (\<exists>ring \<in> set rings. pointInRing lon lat ring)"
  by (induction rings arbitrary: inside) (auto split: if_splits)

lemma widest_cos:
  assumes "0 \<le> bufferKm"
  shows "0 < cos (toRadians (widestLatitude bbox bufferKm))"
proof (rule cos_gt_zero_pi)
  have "0 \<le> widestLatitude bbox bufferKm" "widestLatitude bbox bufferKm \<le> 89"
    using assms by (auto simp: widestLatitude_def KM_PER_DEGREE_LAT_def)
  then have "0 \<le> toRadians (widestLatitude bbox bufferKm)"
    "toRadians (widestLatitude bbox bufferKm) < pi / 2"
    unfolding toRadians_def by (simp_all add: field_simps)
  then show "- (pi / 2) < toRadians (widestLatitude bbox bufferKm)"
    "toRadians (widestLatitude bbox bufferKm) < pi / 2"
    using pi_gt_zero by linarith+
qed

text \<open>A point that some point of the box is within the buffer of passes the box test.\<close>

lemma reached_passes_box:
  assumes reach: "reachedInBox bbox lon lat d" and d: "d \<le> bufferKm" and buf: "0 \<le> bufferKm"
    and polar: "max \<bar>minLat bbox\<bar> \<bar>maxLat bbox\<bar> + bufferKm / KM_PER_DEGREE_LAT \<le> 89"
  shows "minLat bbox - bufferKm / KM_PER_DEGREE_LAT \<le> lat"
    "lat \<le> maxLat bbox + bufferKm / KM_PER_DEGREE_LAT"
    "minLon bbox - longitudePad bbox bufferKm \<le> lon" "lon \<le> maxLon bbox + longitudePad bbox bufferKm"
proof -
  obtain pLon pLat where p: "minLon bbox \<le> pLon" "pLon \<le> maxLon bbox" "minLat bbox \<le> pLat"
    "pLat \<le> maxLat bbox" "d = pointDistance lon lat pLon pLat"
    using reach unfolding reachedInBox_def by blast
  define kx where "kx = KM_PER_DEGREE_LON_AT_EQUATOR * cos (toRadians lat)"
  have "\<bar>(pLon - lon) * kx\<bar> \<le> bufferKm" "\<bar>(pLat - lat) * KM_PER_DEGREE_LAT\<bar> \<le> bufferKm"
    using p(5) d hypot_ge unfolding pointDistance_def kx_def by (meson order.trans)+
  then have x: "\<bar>pLon - lon\<bar> * \<bar>kx\<bar> \<le> bufferKm"
    and "\<bar>pLat - lat\<bar> * KM_PER_DEGREE_LAT \<le> bufferKm"
    by (simp_all only: abs_mult) (simp add: KM_PER_DEGREE_LAT_def)
  then have y: "\<bar>pLat - lat\<bar> \<le> bufferKm / KM_PER_DEGREE_LAT"
    by (simp add: pos_le_divide_eq KM_PER_DEGREE_LAT_def)
  from y p show lat: "minLat bbox - bufferKm / KM_PER_DEGREE_LAT \<le> lat"
    "lat \<le> maxLat bbox + bufferKm / KM_PER_DEGREE_LAT" by linarith+
  define w where "w = widestLatitude bbox bufferKm"
  have w: "w = max \<bar>minLat bbox\<bar> \<bar>maxLat bbox\<bar> + bufferKm / KM_PER_DEGREE_LAT"
    using polar by (simp add: w_def widestLatitude_def)
  have "\<bar>lat\<bar> \<le> w" using lat unfolding w by linarith
  moreover have "w \<le> 89" using polar w by simp
  ultimately have "cos (toRadians w) \<le> cos \<bar>toRadians lat\<bar>"
    by (intro cos_monotone_0_pi_le) (simp_all add: toRadians_def field_simps abs_mult)
  then have "cos (toRadians w) \<le> cos (toRadians lat)" by simp
  moreover have W: "0 < cos (toRadians w)" unfolding w_def by (rule widest_cos [OF buf])
  ultimately have k: "KM_PER_DEGREE_LON_AT_EQUATOR * cos (toRadians w) \<le> \<bar>kx\<bar>"
    by (simp add: kx_def KM_PER_DEGREE_LON_AT_EQUATOR_def)
  have "\<bar>pLon - lon\<bar> * (KM_PER_DEGREE_LON_AT_EQUATOR * cos (toRadians w)) \<le> bufferKm"
    using mult_left_mono [OF k, of "\<bar>pLon - lon\<bar>"] x by linarith
  then have "\<bar>pLon - lon\<bar> \<le> longitudePad bbox bufferKm"
    using W unfolding longitudePad_def w_def
    by (simp add: pos_le_divide_eq KM_PER_DEGREE_LON_AT_EQUATOR_def)
  with p show "minLon bbox - longitudePad bbox bufferKm \<le> lon"
    "lon \<le> maxLon bbox + longitudePad bbox bufferKm" by linarith+
qed

text \<open>
  C36: The bounding-box test in front of the scope test changes no answer: for an outline inside
  its box and a buffer that keeps clear of the poles, a point is in scope exactly when its full
  distance to the outline is within the buffer.
\<close>

theorem box_prefilter_exact:
  assumes rings: "\<And>ring. ring \<in> set rings \<Longrightarrow> ringInBox bbox ring"
    and polar: "max \<bar>minLat bbox\<bar> \<bar>maxLat bbox\<bar> + bufferKm / KM_PER_DEGREE_LAT \<le> 89"
    and buf: "0 \<le> bufferKm"
  shows "isWithinTrScope rings bbox lon lat bufferKm \<longleftrightarrow>
    (\<exists>d. distanceToTrBoundaryKm rings lon lat = Some d \<and> d \<le> bufferKm)"
proof -
  have box: "minLon bbox - longitudePad bbox bufferKm \<le> lon \<and> lon \<le> maxLon bbox + longitudePad bbox bufferKm
      \<and> minLat bbox - bufferKm / KM_PER_DEGREE_LAT \<le> lat \<and> lat \<le> maxLat bbox + bufferKm / KM_PER_DEGREE_LAT"
    if d: "distanceToTrBoundaryKm rings lon lat = Some d" "d \<le> bufferKm" for d
  proof (cases "toggleRings lon lat rings False")
    case True
    then obtain ring where "ring \<in> set rings" "pointInRing lon lat ring"
      using toggleRings_inside by blast
    note in_box = pointInRing_box [OF rings [OF this(1)] this(2)]
    have "0 \<le> longitudePad bbox bufferKm" "0 \<le> bufferKm / KM_PER_DEGREE_LAT"
      using buf widest_cos [OF buf, of bbox]
      by (simp_all add: longitudePad_def KM_PER_DEGREE_LON_AT_EQUATOR_def KM_PER_DEGREE_LAT_def)
    with in_box show ?thesis by linarith
  next
    case False
    then have "reachedInBox bbox lon lat d"
      using d rings ringInBox_coords nearestRing_reached [of rings bbox None lon lat d]
      by (simp add: distanceToTrBoundaryKm_def)
    from reached_passes_box [OF this d(2) buf polar] show ?thesis by blast
  qed
  show ?thesis
  proof (cases "\<exists>d. distanceToTrBoundaryKm rings lon lat = Some d \<and> d \<le> bufferKm")
    case True
    then obtain d where d: "distanceToTrBoundaryKm rings lon lat = Some d" "d \<le> bufferKm" by blast
    with box [OF d] buf show ?thesis unfolding isWithinTrScope_def Let_def by simp
  next
    case False
    then show ?thesis unfolding isWithinTrScope_def Let_def by (simp split: option.split)
  qed
qed

theorem box_prefilter_exact_witness:
  "isWithinTrScope [[30, 40, 31, 40]] \<lparr>minLon = 30, minLat = 40, maxLon = 31, maxLat = 40\<rparr> 30 40 10"
proof -
  let ?box = "\<lparr>minLon = 30, minLat = 40, maxLon = 31, maxLat = 40\<rparr>"
  have "ringInBox ?box [30, 40, 31, 40]"
    by (auto simp: ringInBox_def vertexLon_def vertexLat_def less_Suc_eq)
  moreover have "distanceToTrBoundaryKm [[30, 40, 31, 40]] 30 40 = Some 0"
    by (simp add: distanceToTrBoundaryKm_def pointInRing_def ringLoop.simps straddles_def
        vertexLat_def distanceToRingKm_def distanceToSegmentKm_def nearer_def Let_def hypot_def)
  ultimately show ?thesis
    using box_prefilter_exact [of "[[30, 40, 31, 40]]" ?box 10 30 40]
    by (simp add: KM_PER_DEGREE_LAT_def)
qed

section \<open>Binding\<close>

datatype earthquakeBindingKind = Inside | Offshore_near | Across_border

text \<open>The platform's Unicode tables: Turkish lower case, and \<open>split(/[^\p{L}]+/u)\<close>.\<close>

record unicodeTables =
  trLower :: "jsText \<Rightarrow> jsText"
  splitNonLetters :: "jsText \<Rightarrow> jsText list"

definition TURKIYE :: jsText where
  "TURKIYE = [84, 252] @ ascii ''rkiye''"

definition WATER_BODY_WORDS :: "jsText list" where
  "WATER_BODY_WORDS =
     [ascii ''deniz'', ascii ''denizi'', [107, 246] @ ascii ''rfez'', [107, 246] @ ascii ''rfezi'',
      [103, 246, 108], [103, 246, 108, 252], ascii ''baraj'', ascii ''baraj'' @ [305],
      ascii ''bo'' @ [287] @ ascii ''az'', ascii ''bo'' @ [287] @ ascii ''az'' @ [305]]"

definition COMPOUND_WATER_BODY_NAMES :: "jsText list" where
  "COMPOUND_WATER_BODY_NAMES = [ascii ''akdeniz'', ascii ''karadeniz'']"

definition isWaterBodyName :: "unicodeTables \<Rightarrow> jsText \<Rightarrow> bool" where
  "isWaterBodyName uc placeName =
     (let folded = trLower uc (trim placeName)
      in if folded \<in> set COMPOUND_WATER_BODY_NAMES then True
         else list_ex (\<lambda>word. word \<in> set WATER_BODY_WORDS)
                (filter (\<lambda>word. length word > 0) (splitNonLetters uc folded)))"

definition resolveBindingKind ::
  "unicodeTables \<Rightarrow> jsText option \<Rightarrow> bool \<Rightarrow> jsText \<Rightarrow> earthquakeBindingKind" where
  "resolveBindingKind uc country bracket place =
     (case country of
        None \<Rightarrow> Offshore_near
      | Some c \<Rightarrow>
          if c \<noteq> TURKIYE then Across_border
          else if \<not> bracket then Inside
          else if isWaterBodyName uc place then Offshore_near else Inside)"

text \<open>\<open>replace(/\s+/g, ' ')\<close>: every run of white space becomes one blank.\<close>

function collapseSpaces :: "jsText \<Rightarrow> jsText" where
  "collapseSpaces [] = []"
| "collapseSpaces (c # s) =
     (if isSpace c then 32 # collapseSpaces (dropWhile isSpace s) else c # collapseSpaces s)"
  by pat_completeness auto

termination
  by (relation "measure length") (auto simp: le_imp_less_Suc length_dropWhile_le)

definition normaliseProvinceName :: "unicodeTables \<Rightarrow> jsText \<Rightarrow> jsText" where
  "normaliseProvinceName uc name = collapseSpaces (trLower uc (trim name))"

section \<open>The row of an event\<close>

record earthquakeEventUpsert =
  rowProviderEventId :: jsText
  rowOccurredAtUtc :: ms
  rowLatitude :: rat
  rowLongitude :: rat
  rowDepthKm :: rat
  rowMagnitude :: rat
  rowMagnitudeType :: magnitudeType
  rowMagnitudeTypeRaw :: jsText
  rowProviderCountry :: "jsText option"
  rowProviderProvince :: "jsText option"
  rowProviderDistrict :: "jsText option"
  rowProviderLocationRaw :: jsText
  rowPlaceNameTr :: jsText
  rowBindingKind :: earthquakeBindingKind
  rowBindingPlateCode :: "string option"
  rowBindingDistanceKm :: "rat option"
  rowInScope :: bool
  rowIsRevised :: bool
  rowProviderUpdatedAtUtc :: "ms option"

text \<open>What a row is classified against: the outline, the platform's tables and the buffer.\<close>

record scopeTables =
  trBoundaryRings :: "real list list"
  trBoundaryBbox :: boundingBox
  unicode :: unicodeTables

definition buildEarthquakeRow ::
  "scopeTables \<Rightarrow> afadParsedEvent \<Rightarrow> (jsText \<rightharpoonup> string) \<Rightarrow> rat \<Rightarrow> earthquakeEventUpsert" where
  "buildEarthquakeRow tables e plateCodes scopeBuffer =
     \<lparr>rowProviderEventId = providerEventId e, rowOccurredAtUtc = occurredAtUtc e,
      rowLatitude = evLatitude e, rowLongitude = evLongitude e, rowDepthKm = depthKm e,
      rowMagnitude = magnitude e, rowMagnitudeType = evMagnitudeType e,
      rowMagnitudeTypeRaw = magnitudeTypeRaw e, rowProviderCountry = providerCountry e,
      rowProviderProvince = providerProvince e, rowProviderDistrict = providerDistrict e,
      rowProviderLocationRaw = providerLocationRaw e, rowPlaceNameTr = placeNameTr e,
      rowBindingKind = resolveBindingKind (unicode tables) (providerCountry e)
        (hasDistanceBracket e) (placeNameTr e),
      rowBindingPlateCode =
        (case providerProvince e of None \<Rightarrow> None
         | Some p \<Rightarrow> plateCodes (normaliseProvinceName (unicode tables) p)),
      rowBindingDistanceKm = bindingDistanceKm e,
      rowInScope = (providerCountry e = Some TURKIYE
        \<or> isWithinTrScope (trBoundaryRings tables) (trBoundaryBbox tables)
             (of_rat (evLongitude e)) (of_rat (evLatitude e)) (of_rat scopeBuffer)),
      rowIsRevised = isRevised e, rowProviderUpdatedAtUtc = providerUpdatedAtUtc e\<rparr>"

end
