(* ===== verification/Earthquake_Store.thy ===== *)
theory Earthquake_Store
  imports Tr_Scope
begin

text \<open>
  \<open>src/earthquake/earthquake-ingest.store.ts\<close>: the statements of the ingest on the events and on
  the run ledger. The events table is a map from the provider's id to the row it holds, the
  ledger a list of runs; one statement is atomic.
\<close>

section \<open>Tables\<close>

record storedEvent =
  storedRow :: earthquakeEventUpsert
  revisionCount :: nat
  firstSeenAtUtc :: ms
  updatedAt :: ms

datatype runErrorReason =
    Upstream_reason reason
  | Province_lookup_failed
  | Database_refused_all nat
  | Parser_accepted_none nat "afadReason list"

record ingestRun =
  runId :: nat
  runJobKind :: earthquakeIngestJobKind
  startedAtUtc :: ms
  finishedAtUtc :: ms
  runOutcome :: upstreamOutcomeKind
  windowStartUtc :: ms
  windowEndUtc :: ms
  runFetchedCount :: nat
  runInsertedCount :: nat
  runUpdatedCount :: nat
  runSkippedOutOfScopeCount :: nat
  errorReason :: "runErrorReason option"

record earthquakeDb =
  eqEvents :: "(jsText, storedEvent) jsmap"
  eqRuns :: "ingestRun list"
  eqNextRunId :: nat
  eqProvinces :: "(jsText \<times> string) list"

datatype earthquakeUpsertResult = Inserted nat | Updated nat | Unchanged

section \<open>Statements\<close>

definition loadProvincePlateCodes :: "unicodeTables \<Rightarrow> earthquakeDb \<Rightarrow> (jsText, string) jsmap" where
  "loadProvincePlateCodes uc db =
     foldl (\<lambda>m (name, plate). js_set (normaliseProvinceName uc name) plate m) [] (eqProvinces db)"

text \<open>\<open>REVISION_FIELDS\<close>: the measured values, whose change is a revision.\<close>

definition revisionFields ::
  "earthquakeEventUpsert \<Rightarrow> ms \<times> rat \<times> rat \<times> rat \<times> rat \<times> magnitudeType" where
  "revisionFields r =
     (rowOccurredAtUtc r, rowLatitude r, rowLongitude r, rowDepthKm r, rowMagnitude r, rowMagnitudeType r)"

text \<open>
  \<open>COMPARED_FIELDS\<close> are all columns of a row but its id, so two rows of one id differ in one of
  them exactly when they differ.
\<close>

definition upsertEvent ::
  "earthquakeEventUpsert \<Rightarrow> ms \<Rightarrow> earthquakeDb \<Rightarrow> earthquakeUpsertResult \<times> earthquakeDb" where
  "upsertEvent row now db =
     (case js_get (eqEvents db) (rowProviderEventId row) of
        None \<Rightarrow>
          (Inserted 0, db\<lparr>eqEvents := js_set (rowProviderEventId row)
             \<lparr>storedRow = row, revisionCount = 0, firstSeenAtUtc = now, updatedAt = now\<rparr> (eqEvents db)\<rparr>)
      | Some held \<Rightarrow>
          if storedRow held = row then (Unchanged, db)
          else
           (let revised = (revisionFields (storedRow held) \<noteq> revisionFields row);
                rc = revisionCount held + (if revised then 1 else 0)
            in (Updated rc, db\<lparr>eqEvents := js_set (rowProviderEventId row)
                 (held\<lparr>storedRow := row, revisionCount := rc, updatedAt := now\<rparr>) (eqEvents db)\<rparr>)))"

definition recordRun :: "ingestRun \<Rightarrow> earthquakeDb \<Rightarrow> earthquakeDb" where
  "recordRun r db =
     db\<lparr>eqRuns := eqRuns db @ [r\<lparr>runId := eqNextRunId db\<rparr>], eqNextRunId := Suc (eqNextRunId db)\<rparr>"

definition countsAsFresh :: "ingestRun \<Rightarrow> bool" where
  "countsAsFresh r \<longleftrightarrow> runOutcome r = K_ok \<and> errorReason r = None"

text \<open>
  The run the subquery of the \<open>DELETE\<close> selects: the newest successful one. Among runs finished at
  the same instant the database may pick any; the first of the table is taken here.
\<close>

fun newestRun :: "ingestRun list \<Rightarrow> ingestRun option" where
  "newestRun [] = None"
| "newestRun (r # rs) =
     (case newestRun rs of
        None \<Rightarrow> Some r
      | Some s \<Rightarrow> if finishedAtUtc r \<ge> finishedAtUtc s then Some r else Some s)"

definition pruneRuns :: "int \<Rightarrow> ms \<Rightarrow> earthquakeDb \<Rightarrow> nat \<times> earthquakeDb" where
  "pruneRuns retentionDays now db =
     (let cutoff = now - retentionDays * 86400000;
          spared = map_option runId (newestRun (filter countsAsFresh (eqRuns db)));
          doomed = (\<lambda>r. startedAtUtc r < cutoff \<and> Some (runId r) \<noteq> spared)
      in (length (filter doomed (eqRuns db)), db\<lparr>eqRuns := filter (\<lambda>r. \<not> doomed r) (eqRuns db)\<rparr>))"

definition providerEventIdsInWindow :: "ms \<Rightarrow> ms \<Rightarrow> earthquakeDb \<Rightarrow> jsText list" where
  "providerEventIdsInWindow fromMs toMs db =
     map fst (filter (\<lambda>(k, ev). fromMs \<le> rowOccurredAtUtc (storedRow ev)
                              \<and> rowOccurredAtUtc (storedRow ev) \<le> toMs) (eqEvents db))"

section \<open>The table as a map\<close>

definition heldRow :: "earthquakeDb \<Rightarrow> jsText \<Rightarrow> earthquakeEventUpsert option" where
  "heldRow db k = map_option storedRow (js_get (eqEvents db) k)"

definition revisionsOf :: "earthquakeDb \<Rightarrow> jsText \<Rightarrow> nat" where
  "revisionsOf db k = (case js_get (eqEvents db) k of None \<Rightarrow> 0 | Some ev \<Rightarrow> revisionCount ev)"

text \<open>What a client of the table relies on: an upsert stores its row, and nothing else changes.\<close>

locale event_table =
  fixes look :: "'d \<Rightarrow> jsText \<Rightarrow> earthquakeEventUpsert option"
    and put :: "earthquakeEventUpsert \<Rightarrow> ms \<Rightarrow> 'd \<Rightarrow> earthquakeUpsertResult \<times> 'd"
  assumes look_put: "look (snd (put row t d)) k = (if k = rowProviderEventId row then Some row else look d k)"
    and put_unchanged: "fst (put row t d) = Unchanged \<longleftrightarrow> look d (rowProviderEventId row) = Some row"
    and put_inserted: "(\<exists>n. fst (put row t d) = Inserted n) \<longleftrightarrow> look d (rowProviderEventId row) = None"
begin

definition putAll :: "(earthquakeEventUpsert \<times> ms) list \<Rightarrow> 'd \<Rightarrow> 'd" where
  "putAll rows d = fold (\<lambda>(row, t) d. snd (put row t d)) rows d"

text \<open>After any number of upserts a key holds the last row written for it, or what it held.\<close>

lemma look_putAll:
  "look (putAll rows d) k =
     (case find (\<lambda>(row, t). rowProviderEventId row = k) (rev rows) of
        Some (row, t) \<Rightarrow> Some row | None \<Rightarrow> look d k)"
proof (induction rows arbitrary: d rule: rev_induct)
  case Nil
  then show ?case by (simp add: putAll_def)
next
  case (snoc x rows)
  obtain row t where x: "x = (row, t)" by (cases x)
  have "putAll (rows @ [x]) d = snd (put row t (putAll rows d))" by (simp add: putAll_def x)
  then show ?case using snoc by (simp add: look_put x)
qed

lemma put_twice: "fst (put row t' (snd (put row t d))) = Unchanged"
  by (simp add: put_unchanged look_put)

lemma keys_kept: "look d k \<noteq> None \<Longrightarrow> look (putAll rows d) k \<noteq> None"
  unfolding look_putAll by (simp split: option.split prod.split)

end

interpretation events: event_table heldRow upsertEvent
proof
  fix row t d k
  show "heldRow (snd (upsertEvent row t d)) k
      = (if k = rowProviderEventId row then Some row else heldRow d k)"
    by (cases "js_get (eqEvents d) (rowProviderEventId row)") (auto simp: upsertEvent_def heldRow_def Let_def)
  show "fst (upsertEvent row t d) = Unchanged \<longleftrightarrow> heldRow d (rowProviderEventId row) = Some row"
    by (cases "js_get (eqEvents d) (rowProviderEventId row)") (auto simp: upsertEvent_def heldRow_def Let_def)
  show "(\<exists>n. fst (upsertEvent row t d) = Inserted n) \<longleftrightarrow> heldRow d (rowProviderEventId row) = None"
    by (cases "js_get (eqEvents d) (rowProviderEventId row)") (auto simp: upsertEvent_def heldRow_def Let_def)
qed

section \<open>Revisions\<close>

text \<open>
  An upsert stores its row under its id and touches nothing else. It inserts exactly the
  unknown ids, writes nothing when the row is already held, and raises the revision count by one
  exactly when a measured value changed; a second upsert of the same row writes nothing.
\<close>

theorem upsert_revisions:
  "(\<forall>k. heldRow (snd (upsertEvent row now d)) k
        = (if k = rowProviderEventId row then Some row else heldRow d k))
   \<and> (\<forall>k. revisionsOf (snd (upsertEvent row now d)) k = revisionsOf d k
        + (if k = rowProviderEventId row \<and> heldRow d k \<noteq> None
             \<and> map_option revisionFields (heldRow d k) \<noteq> Some (revisionFields row) then 1 else 0))
   \<and> ((\<exists>n. fst (upsertEvent row now d) = Inserted n) \<longleftrightarrow> heldRow d (rowProviderEventId row) = None)
   \<and> (fst (upsertEvent row now d) = Unchanged \<longleftrightarrow> heldRow d (rowProviderEventId row) = Some row)
   \<and> (fst (upsertEvent row now d) = Unchanged \<longleftrightarrow> snd (upsertEvent row now d) = d)
   \<and> fst (upsertEvent row later (snd (upsertEvent row now d))) = Unchanged"
proof (intro conjI)
  let ?k = "rowProviderEventId row"
  show "\<forall>k. heldRow (snd (upsertEvent row now d)) k = (if k = ?k then Some row else heldRow d k)"
    by (simp add: events.look_put)
  show "\<forall>k. revisionsOf (snd (upsertEvent row now d)) k = revisionsOf d k
        + (if k = ?k \<and> heldRow d k \<noteq> None
             \<and> map_option revisionFields (heldRow d k) \<noteq> Some (revisionFields row) then 1 else 0)"
    by (cases "js_get (eqEvents d) ?k") (auto simp: upsertEvent_def revisionsOf_def heldRow_def Let_def)
  show "(\<exists>n. fst (upsertEvent row now d) = Inserted n) \<longleftrightarrow> heldRow d ?k = None"
    by (rule events.put_inserted)
  show "fst (upsertEvent row now d) = Unchanged \<longleftrightarrow> heldRow d ?k = Some row"
    by (rule events.put_unchanged)
  show "fst (upsertEvent row now d) = Unchanged \<longleftrightarrow> snd (upsertEvent row now d) = d"
  proof
    assume "snd (upsertEvent row now d) = d"
    then have "heldRow d ?k = Some row" using events.look_put [of row now d ?k] by simp
    then show "fst (upsertEvent row now d) = Unchanged" by (simp add: events.put_unchanged)
  next
    assume "fst (upsertEvent row now d) = Unchanged"
    then show "snd (upsertEvent row now d) = d"
      by (auto simp: upsertEvent_def Let_def split: option.splits if_splits)
  qed
  show "fst (upsertEvent row later (snd (upsertEvent row now d))) = Unchanged"
    by (rule events.put_twice)
qed

section \<open>The newest successful run\<close>

text \<open>\<open>MAX(finishedAtUtc)\<close> over the successful runs, from \<open>earthquake-read.store.ts\<close>.\<close>

definition sqlMax :: "ms list \<Rightarrow> ms option" where
  "sqlMax ts = (if ts = [] then None else Some (Max (set ts)))"

definition newestSuccessfulRunFinishedAt :: "earthquakeDb \<Rightarrow> ms option" where
  "newestSuccessfulRunFinishedAt d = sqlMax (map finishedAtUtc (filter countsAsFresh (eqRuns d)))"

lemma sqlMax_snoc: "sqlMax (ts @ [t]) = Some (case sqlMax ts of None \<Rightarrow> t | Some u \<Rightarrow> max u t)"
  by (cases "ts = []") (auto simp: sqlMax_def max.commute)

lemma sqlMax_Some: "t \<in> set ts \<Longrightarrow> (\<And>u. u \<in> set ts \<Longrightarrow> u \<le> t) \<Longrightarrow> sqlMax ts = Some t"
  by (auto simp: sqlMax_def intro!: Max_eqI)

definition ledger_ok :: "earthquakeDb \<Rightarrow> bool" where
  "ledger_ok d \<longleftrightarrow> distinct (map runId (eqRuns d)) \<and> (\<forall>r \<in> set (eqRuns d). runId r < eqNextRunId d)"

lemma newestRun_Some:
  "newestRun rs = Some r \<Longrightarrow> r \<in> set rs \<and> (\<forall>s \<in> set rs. finishedAtUtc s \<le> finishedAtUtc r)"
proof (induction rs arbitrary: r)
  case (Cons a rs)
  show ?case
  proof (cases "newestRun rs")
    case None
    then have "rs = []" by (cases rs) (auto split: option.splits if_splits)
    with Cons.prems show ?thesis by simp
  next
    case (Some s)
    with Cons.IH [OF Some] Cons.prems show ?thesis by (auto split: if_splits)
  qed
qed simp

lemma newestRun_None: "newestRun rs = None \<longleftrightarrow> rs = []"
  by (induction rs) (auto split: option.split)

lemma newestSuccessful_is:
  assumes "newestRun (filter countsAsFresh (eqRuns d)) = Some r"
  shows "newestSuccessfulRunFinishedAt d = Some (finishedAtUtc r)"
  unfolding newestSuccessfulRunFinishedAt_def
  using newestRun_Some [OF assms] by (intro sqlMax_Some) auto

lemma pruneRuns_runs:
  "\<exists>keep. eqRuns (snd (pruneRuns days now d)) = filter keep (eqRuns d)
     \<and> (\<forall>r. Some (runId r) = map_option runId (newestRun (filter countsAsFresh (eqRuns d))) \<longrightarrow> keep r)"
  unfolding pruneRuns_def Let_def by (intro exI conjI) (simp, simp)

lemma pruneRuns_rest [simp]:
  "eqEvents (snd (pruneRuns days now d)) = eqEvents d"
  "eqNextRunId (snd (pruneRuns days now d)) = eqNextRunId d"
  by (simp_all add: pruneRuns_def Let_def)

lemma pruneRuns_newest:
  "newestSuccessfulRunFinishedAt (snd (pruneRuns days now d)) = newestSuccessfulRunFinishedAt d"
proof -
  obtain keep where k: "eqRuns (snd (pruneRuns days now d)) = filter keep (eqRuns d)"
    "\<And>r. Some (runId r) = map_option runId (newestRun (filter countsAsFresh (eqRuns d))) \<Longrightarrow> keep r"
    using pruneRuns_runs [of days now d] by blast
  show ?thesis
  proof (cases "newestRun (filter countsAsFresh (eqRuns d))")
    case None
    then show ?thesis
      by (auto simp: newestRun_None newestSuccessfulRunFinishedAt_def k(1) filter_empty_conv sqlMax_def)
  next
    case (Some r)
    note N = newestRun_Some [OF Some]
    have "keep r" using k(2) [of r] Some by simp
    with N have "newestSuccessfulRunFinishedAt (snd (pruneRuns days now d)) = Some (finishedAtUtc r)"
      unfolding newestSuccessfulRunFinishedAt_def k(1) by (intro sqlMax_Some) auto
    with newestSuccessful_is [OF Some] show ?thesis by simp
  qed
qed

lemma pruneRuns_ledger: "ledger_ok d \<Longrightarrow> ledger_ok (snd (pruneRuns days now d))"
  using pruneRuns_runs [of days now d] by (auto simp: ledger_ok_def distinct_map_filter)

lemma recordRun_ledger: "ledger_ok d \<Longrightarrow> ledger_ok (recordRun r d)"
  by (auto simp: ledger_ok_def recordRun_def)

lemma recordRun_newest:
  "newestSuccessfulRunFinishedAt (recordRun r d) =
     (if countsAsFresh r
      then Some (case newestSuccessfulRunFinishedAt d of None \<Rightarrow> finishedAtUtc r
                 | Some t \<Rightarrow> max t (finishedAtUtc r))
      else newestSuccessfulRunFinishedAt d)"
  unfolding newestSuccessfulRunFinishedAt_def
  by (simp add: recordRun_def countsAsFresh_def sqlMax_snoc)

section \<open>The table stays well formed\<close>

text \<open>The ids of the table are those of its rows, each once.\<close>

definition table_ok :: "earthquakeDb \<Rightarrow> bool" where
  "table_ok db \<longleftrightarrow> js_wf (eqEvents db)
     \<and> (\<forall>k ev. js_get (eqEvents db) k = Some ev \<longrightarrow> rowProviderEventId (storedRow ev) = k)"

lemma table_ok_upsert: "table_ok d \<Longrightarrow> table_ok (snd (upsertEvent row t d))"
  by (cases "js_get (eqEvents d) (rowProviderEventId row)") (auto simp: upsertEvent_def table_ok_def Let_def)

lemma table_ok_rest [simp]:
  "table_ok (recordRun r d) \<longleftrightarrow> table_ok d" "table_ok (snd (pruneRuns days now d)) \<longleftrightarrow> table_ok d"
  by (simp_all add: table_ok_def recordRun_def)

lemma table_ok_entry: "table_ok d \<Longrightarrow> (k, ev) \<in> set (eqEvents d) \<Longrightarrow> rowProviderEventId (storedRow ev) = k"
  by (simp add: table_ok_def js_wf_def js_get_def)

end
