(* ===== verification/Earthquake_Ingest.thy ===== *)
theory Earthquake_Ingest
  imports Earthquake_Store Upstream_Http_Client "HOL-Library.Sublist"
begin

text \<open>
  \<open>src/earthquake/earthquake-ingest.target.ts\<close>: one ingest tour. The world holds the HTTP
  client's state (with the clock and the counters), the database, and for each statement to come
  whether it fails and how long it takes; a failing statement changes nothing. The answer to the
  call depends on its URL, and decoding and parsing its body are the platform's.
\<close>

section \<open>World and dependencies\<close>

record 'r ingestWorld =
  http :: "'r httpWorld"
  ingestDb :: earthquakeDb
  dbAnswers :: "(bool \<times> nat) list"

record 'r ingestDeps =
  envFor :: "jsText \<Rightarrow> 'r httpEnv"
  decodeText :: "byte list \<Rightarrow> jsText"
  jsonParse :: "jsText \<Rightarrow> json option"
  scope :: scopeTables
  config :: earthquakeUpstreamConfig
  jobKind :: earthquakeIngestJobKind

definition AFAD_TDVMS_PROVIDER :: string where
  "AFAD_TDVMS_PROVIDER = ''afad-tdvms''"

definition AFAD_TDVMS_BUDGET :: providerBudgetLimits where
  "AFAD_TDVMS_BUDGET = \<lparr>perMinute = 10, perHour = 60, perDay = 600\<rparr>"

definition ESTIMATED_CALL_COST_MS :: ms where
  "ESTIMATED_CALL_COST_MS = 5000"

definition ingestNow :: "'r ingestWorld \<Rightarrow> ms" where
  "ingestNow w = clock (http w)"

definition statement ::
  "(earthquakeDb \<Rightarrow> 'a \<times> earthquakeDb) \<Rightarrow> 'r ingestWorld \<Rightarrow> 'a option \<times> 'r ingestWorld" where
  "statement f w =
     (case dbAnswers w of
        [] \<Rightarrow> (let (x, d) = f (ingestDb w) in (Some x, w\<lparr>ingestDb := d\<rparr>))
      | (fails, elapsed) # later \<Rightarrow>
         (let w' = w\<lparr>dbAnswers := later, http := (http w)\<lparr>clock := clock (http w) + int elapsed\<rparr>\<rparr>
          in if fails then (None, w')
             else (let (x, d) = f (ingestDb w) in (Some x, w'\<lparr>ingestDb := d\<rparr>))))"

definition eqCount :: "string \<Rightarrow> nat \<Rightarrow> 'r ingestWorld \<Rightarrow> 'r ingestWorld" where
  "eqCount name n w =
     w\<lparr>http := onMetrics (incrementBy (M_event name) AFAD_TDVMS_PROVIDER n) (http w)\<rparr>"

section \<open>The ledger and its housekeeping\<close>

record runCounts =
  rcFetched :: nat
  rcInserted :: nat
  rcUpdated :: nat
  rcOutOfScope :: nat
  rcErrorReason :: "runErrorReason option"

definition recordTourRun ::
  "'r ingestDeps \<Rightarrow> ms \<Rightarrow> afadWindow \<Rightarrow> upstreamOutcomeKind \<Rightarrow> runCounts \<Rightarrow> 'r ingestWorld \<Rightarrow> 'r ingestWorld" where
  "recordTourRun deps startedAt win outcome counts w =
     (let r = \<lparr>runId = 0, runJobKind = jobKind deps, startedAtUtc = startedAt,
               finishedAtUtc = ingestNow w, runOutcome = outcome, windowStartUtc = startUtc win,
               windowEndUtc = endUtc win, runFetchedCount = rcFetched counts,
               runInsertedCount = rcInserted counts, runUpdatedCount = rcUpdated counts,
               runSkippedOutOfScopeCount = rcOutOfScope counts, errorReason = rcErrorReason counts\<rparr>
      in case statement (\<lambda>d. ((), recordRun r d)) w of
           (Some _, w') \<Rightarrow> w'
         | (None, w') \<Rightarrow> eqCount ''eq.run_record_failed'' 1 w')"

definition prune_eq :: "'r ingestDeps \<Rightarrow> ms \<Rightarrow> 'r ingestWorld \<Rightarrow> 'r ingestWorld" where
  "prune_eq deps now w =
     (case statement (pruneRuns (runRetentionDays (config deps)) now) w of
        (Some _, w') \<Rightarrow> w'
      | (None, w') \<Rightarrow> eqCount ''eq.prune_failed'' 1 w')"

section \<open>Storing a payload\<close>

record tourCounts =
  insertedCount :: nat
  updatedCount :: nat
  unchangedCount :: nat
  skippedOutOfScopeCount :: nat
  writeFailedCount :: nat
  plateUnresolvedCount :: nat

definition noCounts :: tourCounts where
  "noCounts = \<lparr>insertedCount = 0, updatedCount = 0, unchangedCount = 0, skippedOutOfScopeCount = 0,
               writeFailedCount = 0, plateUnresolvedCount = 0\<rparr>"

definition countUpsert :: "earthquakeUpsertResult option \<Rightarrow> tourCounts \<Rightarrow> tourCounts" where
  "countUpsert res c =
     (case res of
        None \<Rightarrow> c\<lparr>writeFailedCount := writeFailedCount c + 1\<rparr>
      | Some (Inserted _) \<Rightarrow> c\<lparr>insertedCount := insertedCount c + 1\<rparr>
      | Some (Updated _) \<Rightarrow> c\<lparr>updatedCount := updatedCount c + 1\<rparr>
      | Some Unchanged \<Rightarrow> c\<lparr>unchangedCount := unchangedCount c + 1\<rparr>)"

definition countRow :: "earthquakeEventUpsert \<Rightarrow> tourCounts \<Rightarrow> tourCounts" where
  "countRow row c =
     c\<lparr>skippedOutOfScopeCount := skippedOutOfScopeCount c + (if rowInScope row then 0 else 1),
       plateUnresolvedCount := plateUnresolvedCount c
         + (if rowProviderProvince row \<noteq> None \<and> rowBindingPlateCode row = None then 1 else 0)\<rparr>"

fun upsertRows ::
  "ms \<Rightarrow> earthquakeEventUpsert list \<Rightarrow> tourCounts \<Rightarrow> 'r ingestWorld \<Rightarrow> tourCounts \<times> 'r ingestWorld" where
  "upsertRows writtenAt [] c w = (c, w)"
| "upsertRows writtenAt (row # rows) c w =
     (let (res, w1) = statement (upsertEvent row writtenAt) w;
          w2 = (if res = None then eqCount ''eq.row_write_failed'' 1 w1 else w1)
      in upsertRows writtenAt rows (countUpsert res (countRow row c)) w2)"

text \<open>The reconcile tour's look at stored events the provider no longer returned.\<close>

definition reportDisappearances ::
  "afadWindow \<Rightarrow> afadParsedPayload \<Rightarrow> 'r ingestWorld \<Rightarrow> 'r ingestWorld" where
  "reportDisappearances win payload w =
     (case statement (\<lambda>d. (providerEventIdsInWindow (startUtc win) (endUtc win) d, d)) w of
        (None, w1) \<Rightarrow> eqCount ''eq.absent_check_failed'' 1 w1
      | (Some stored, w1) \<Rightarrow>
         (let returned = map providerEventId (accepted payload)
                @ List.map_filter rejEventId (rejected payload);
              absent = filter (\<lambda>k. k \<notin> set returned) stored
          in if absent = [] then w1 else eqCount ''eq.rows_absent_upstream'' (length absent) w1))"

definition diagnoseTour ::
  "afadParsedPayload \<Rightarrow> tourCounts \<Rightarrow> upstreamOutcomeKind \<times> runErrorReason option" where
  "diagnoseTour payload c =
     (let nothingReachedTheStore = (insertedCount c = 0 \<and> updatedCount c = 0 \<and> unchangedCount c = 0)
      in if nothingReachedTheStore \<and> writeFailedCount c > 0
         then (K_schema_error, Some (Database_refused_all (writeFailedCount c)))
         else if fetchedCount payload > 0 \<and> length (accepted payload) = 0
         then (K_ok, Some (Parser_accepted_none (fetchedCount payload)
                (remdups (map rejReason (rejected payload)))))
         else (K_ok, None))"

definition storePayload ::
  "'r ingestDeps \<Rightarrow> ms \<Rightarrow> afadWindow \<Rightarrow> afadParsedPayload \<Rightarrow> 'r ingestWorld \<Rightarrow> 'r ingestWorld" where
  "storePayload deps startedAt win payload w =
     (case statement (\<lambda>d. (loadProvincePlateCodes (unicode (scope deps)) d, d)) w of
        (None, w1) \<Rightarrow>
         (let w2 = recordTourRun deps startedAt win K_transient
                \<lparr>rcFetched = fetchedCount payload, rcInserted = 0, rcUpdated = 0, rcOutOfScope = 0,
                 rcErrorReason = Some Province_lookup_failed\<rparr> (eqCount ''eq.store_read_failed'' 1 w1)
          in prune_eq deps (ingestNow w2) w2)
      | (Some plateCodes, w1) \<Rightarrow>
         (let writtenAt = ingestNow w1;
              rows = map (\<lambda>e. buildEarthquakeRow (scope deps) e (js_get plateCodes)
                                (scopeBufferKm (config deps))) (accepted payload);
              (c, w2) = upsertRows writtenAt rows noCounts w1;
              w3 = eqCount ''eq.row_rejected'' (length (rejected payload)) w2;
              w4 = (if jobKind deps = Reconcile then reportDisappearances win payload w3 else w3);
              (outcome, why) = diagnoseTour payload c;
              w5 = recordTourRun deps startedAt win outcome
                \<lparr>rcFetched = fetchedCount payload, rcInserted = insertedCount c,
                 rcUpdated = updatedCount c, rcOutOfScope = skippedOutOfScopeCount c,
                 rcErrorReason = why\<rparr> w4;
              w6 = eqCount ''eq.plate_unresolved'' (plateUnresolvedCount c)
                (eqCount ''eq.rows_out_of_scope'' (skippedOutOfScopeCount c)
                (eqCount ''eq.rows_updated'' (updatedCount c)
                (eqCount ''eq.rows_inserted'' (insertedCount c) w5)))
          in prune_eq deps writtenAt w6))"

section \<open>The tour\<close>

definition outcomeReason :: "'a upstreamOutcome \<Rightarrow> reason" where
  "outcomeReason out =
     (case out of
        Out_ok v t \<Rightarrow> R_text ''''
      | Out_no_data r \<Rightarrow> r
      | Out_transient r \<Rightarrow> r
      | Out_budget_exhausted r \<Rightarrow> r
      | Out_client_error r h \<Rightarrow> r
      | Out_schema_error r \<Rightarrow> r
      | Out_rate_limited r s \<Rightarrow> r)"

definition afadRequestOptions ::
  "'r ingestDeps \<Rightarrow> operationDeadline \<Rightarrow> afadParsedPayload upstreamRequestOptions" where
  "afadRequestOptions deps dl =
     \<lparr>providerId = AFAD_TDVMS_PROVIDER, deadline = dl, limits = AFAD_TDVMS_BUDGET,
      quotaWeight = None, retryable = True, expectedContentType = None,
      serverErrorBodyClassifier =
        Some (\<lambda>body. classifyAfadServerErrorBody (jsonParse deps) (decodeText deps body)),
      missingMeansNoData = False, maxResponseBytes = Some (cfgResponseMaxBytes (config deps)),
      singleCallTimeoutMs = Some (cfgSingleCallTimeoutMs (config deps)),
      parse = (\<lambda>response body.
        case parseAfadEventsBody (jsonParse deps) (safetyLimit (config deps)) (decodeText deps body) of
          Inl e \<Rightarrow> Parse_schema_error ''AFAD event/filter''
        | Inr payload \<Rightarrow> Parse_ok payload None)\<rparr>"

text \<open>The call a tour makes, with its window and its slice of the budget.\<close>

definition tourWindow :: "'r ingestDeps \<Rightarrow> 'r ingestWorld \<Rightarrow> afadWindow" where
  "tourWindow deps w = buildAfadWindow (jobKind deps) (ingestNow w) (config deps)"

definition tourCall ::
  "'r ingestDeps \<Rightarrow> operationDeadline \<Rightarrow> 'r ingestWorld
   \<Rightarrow> (string + afadParsedPayload upstreamOutcome) \<times> 'r httpWorld" where
  "tourCall deps dl w =
     request (afadRequestOptions deps dl)
       (envFor deps (buildAfadEventFilterUrl (cfgBaseUrl (config deps)) (tourWindow deps w)
          (safetyLimit (config deps)))) (http w)"

definition runTour_eq ::
  "'r ingestDeps \<Rightarrow> operationDeadline \<Rightarrow> 'r ingestWorld \<Rightarrow> (string + unit) \<times> 'r ingestWorld" where
  "runTour_eq deps tourDeadline w =
     (if \<not> ingestEnabled (config deps) then (Inr (), w)
      else
       (let startedAt = ingestNow w;
            win = tourWindow deps w;
            sliceBudgetMs = min (tourBudgetMs (config deps)) (remainingMs tourDeadline (ingestNow w))
        in if sliceBudgetMs < ESTIMATED_CALL_COST_MS then (Inr (), eqCount ''eq.slice_skipped'' 1 w)
           else (case newOperationDeadline sliceBudgetMs (ingestNow w) of
              Inl e \<Rightarrow> (Inl ''deadline'', w)
            | Inr dl \<Rightarrow>
               (let (res, h) = tourCall deps dl w;
                    w1 = w\<lparr>http := h\<rparr>
                in case res of
                     Inl exn \<Rightarrow> (Inl exn, w1)
                   | Inr (Out_ok payload t) \<Rightarrow> (Inr (), storePayload deps startedAt win payload w1)
                   | Inr out \<Rightarrow>
                      (let w2 = recordTourRun deps startedAt win (kind_of out)
                             \<lparr>rcFetched = 0, rcInserted = 0, rcUpdated = 0, rcOutOfScope = 0,
                              rcErrorReason = Some (Upstream_reason (outcomeReason out))\<rparr> w1
                       in (Inr (), prune_eq deps (ingestNow w2) w2))))))"

definition refresh_eq :: "'r ingestDeps \<Rightarrow> operationDeadline \<Rightarrow> 'r ingestWorld \<Rightarrow> 'r ingestWorld" where
  "refresh_eq deps tourDeadline w =
     (case runTour_eq deps tourDeadline w of
        (Inr _, w') \<Rightarrow> w'
      | (Inl exn, w') \<Rightarrow> eqCount ''eq.ingest_bug'' 1 w')"

section \<open>Statements and counters\<close>

lemma ingestDb_eqCount [simp]: "ingestDb (eqCount name n w) = ingestDb w"
  by (simp add: eqCount_def)

lemma statement_cases:
  assumes "statement f w = (res, w')"
  obtains "res = None" "ingestDb w' = ingestDb w"
  | x where "res = Some x" "f (ingestDb w) = (x, ingestDb w')"
  using assms by (auto simp: statement_def Let_def split: list.splits prod.splits if_splits)

lemma recordTourRun_db:
  "ingestDb (recordTourRun deps startedAt win outcome counts w) = ingestDb w
   \<or> (\<exists>r. ingestDb (recordTourRun deps startedAt win outcome counts w) = recordRun r (ingestDb w)
        \<and> runOutcome r = outcome \<and> errorReason r = rcErrorReason counts
        \<and> runFetchedCount r = rcFetched counts \<and> runInsertedCount r = rcInserted counts
        \<and> runUpdatedCount r = rcUpdated counts)"
proof -
  let ?r = "\<lparr>runId = 0, runJobKind = jobKind deps, startedAtUtc = startedAt,
               finishedAtUtc = ingestNow w, runOutcome = outcome, windowStartUtc = startUtc win,
               windowEndUtc = endUtc win, runFetchedCount = rcFetched counts,
               runInsertedCount = rcInserted counts, runUpdatedCount = rcUpdated counts,
               runSkippedOutOfScopeCount = rcOutOfScope counts, errorReason = rcErrorReason counts\<rparr>"
  obtain res w' where st: "statement (\<lambda>d. ((), recordRun ?r d)) w = (res, w')" by fastforce
  then show ?thesis
  proof (cases rule: statement_cases)
    case 1
    with st show ?thesis by (simp add: recordTourRun_def)
  next
    case (2 x)
    with st have "ingestDb (recordTourRun deps startedAt win outcome counts w) = recordRun ?r (ingestDb w)"
      by (simp add: recordTourRun_def)
    then show ?thesis by (intro disjI2 exI [of _ ?r]) simp
  qed
qed

lemma prune_eq_db:
  "ingestDb (prune_eq deps now w) = ingestDb w
   \<or> ingestDb (prune_eq deps now w) = snd (pruneRuns (runRetentionDays (config deps)) now (ingestDb w))"
proof -
  obtain res w' where st: "statement (pruneRuns (runRetentionDays (config deps)) now) w = (res, w')"
    by fastforce
  then show ?thesis
    by (cases rule: statement_cases) (use st in \<open>simp_all add: prune_eq_def\<close>)
qed

lemma reportDisappearances_db [simp]: "ingestDb (reportDisappearances win payload w) = ingestDb w"
proof -
  obtain res w' where st: "statement (\<lambda>d. (providerEventIdsInWindow (startUtc win) (endUtc win) d, d)) w
      = (res, w')" by fastforce
  then show ?thesis
    by (cases rule: statement_cases) (use st in \<open>simp_all add: reportDisappearances_def Let_def\<close>)
qed

section \<open>The rows of one payload\<close>

lemma rowProviderEventId_build [simp]:
  "rowProviderEventId (buildEarthquakeRow tables e plateCodes buffer) = providerEventId e"
  by (simp add: buildEarthquakeRow_def)

lemma upsertEvent_runs: "eqRuns (snd (upsertEvent row t d)) = eqRuns d"
  "eqNextRunId (snd (upsertEvent row t d)) = eqNextRunId d"
  by (simp_all add: upsertEvent_def Let_def split: option.split)

lemma countRow_simps [simp]:
  "insertedCount (countRow row c) = insertedCount c" "updatedCount (countRow row c) = updatedCount c"
  "unchangedCount (countRow row c) = unchangedCount c" "writeFailedCount (countRow row c) = writeFailedCount c"
  by (simp_all add: countRow_def)

text \<open>The rows that reached the database, in their order.\<close>

definition reached :: "tourCounts \<Rightarrow> nat" where
  "reached c = insertedCount c + updatedCount c + unchangedCount c"

lemma reached_count:
  "reached (countUpsert res c) = reached c + (if res = None then 0 else 1)"
  "writeFailedCount (countUpsert res c) = writeFailedCount c + (if res = None then 1 else 0)"
  by (auto simp: countUpsert_def reached_def split: option.split earthquakeUpsertResult.split)

lemma reached_countRow [simp]: "reached (countRow row c) = reached c"
  by (simp add: reached_def)

lemma upsertRows_spec:
  assumes "upsertRows t rows c w = (c', w')"
  shows "\<exists>stored. subseq stored rows
    \<and> ingestDb w' = events.putAll (map (\<lambda>r. (r, t)) stored) (ingestDb w)
    \<and> eqRuns (ingestDb w') = eqRuns (ingestDb w) \<and> eqNextRunId (ingestDb w') = eqNextRunId (ingestDb w)
    \<and> reached c' = reached c + length stored
    \<and> writeFailedCount c' = writeFailedCount c + (length rows - length stored)"
  using assms
proof (induction t rows c w arbitrary: c' w' rule: upsertRows.induct)
  case (1 t c w)
  then show ?case by (intro exI [of _ "[]"]) (simp add: events.putAll_def)
next
  case (2 t row rows c w)
  obtain res w1 where st: "statement (upsertEvent row t) w = (res, w1)" by fastforce
  let ?w2 = "if res = None then eqCount ''eq.row_write_failed'' 1 w1 else w1"
  let ?c = "countUpsert res (countRow row c)"
  have run: "upsertRows t rows ?c ?w2 = (c', w')" using "2.prems" st by simp
  from "2.IH" [OF st [symmetric] refl refl run] obtain stored where IH: "subseq stored rows"
    "ingestDb w' = events.putAll (map (\<lambda>r. (r, t)) stored) (ingestDb ?w2)"
    "eqRuns (ingestDb w') = eqRuns (ingestDb ?w2)" "eqNextRunId (ingestDb w') = eqNextRunId (ingestDb ?w2)"
    "reached c' = reached ?c + length stored"
    "writeFailedCount c' = writeFailedCount ?c + (length rows - length stored)" by blast
  have len: "length stored \<le> length rows" using IH(1) by (rule list_emb_length)
  from st show ?case
  proof (cases rule: statement_cases)
    case 1
    with IH len show ?thesis
      by (intro exI [of _ stored]) (simp add: reached_count list_emb_Cons Suc_diff_le)
  next
    case (2 x)
    then have "ingestDb ?w2 = snd (upsertEvent row t (ingestDb w))" by simp
    with IH 2(1) show ?thesis
      by (intro exI [of _ "row # stored"]) (simp add: reached_count events.putAll_def upsertEvent_runs)
  qed
qed

section \<open>One payload\<close>

text \<open>What one tour may add to the ledger, and what the housekeeping leaves.\<close>

definition newRunOf :: "earthquakeDb \<Rightarrow> earthquakeDb \<Rightarrow> (ingestRun \<Rightarrow> bool) \<Rightarrow> bool" where
  "newRunOf d d' P \<longleftrightarrow>
     (\<forall>r \<in> set (eqRuns d'). r \<in> set (eqRuns d) \<or> runId r = eqNextRunId d \<and> P r)
     \<and> (ledger_ok d \<longrightarrow> ledger_ok d')
     \<and> (\<forall>t. newestSuccessfulRunFinishedAt d = Some t \<longrightarrow>
          (\<exists>t' \<ge> t. newestSuccessfulRunFinishedAt d' = Some t'))"

lemma newRunOf_refl [simp]: "newRunOf d d P"
  by (simp add: newRunOf_def)

lemma newRunOf_record:
  assumes "P (r\<lparr>runId := eqNextRunId d\<rparr>)"
  shows "newRunOf d (recordRun r d) P"
  unfolding newRunOf_def recordRun_newest
  using assms by (auto simp: recordRun_ledger) (auto simp: recordRun_def)

lemma newRunOf_prune:
  assumes "newRunOf d d' P"
  shows "newRunOf d (snd (pruneRuns days now d')) P"
proof -
  obtain keep where "eqRuns (snd (pruneRuns days now d')) = filter keep (eqRuns d')"
    using pruneRuns_runs by blast
  with assms show ?thesis
    unfolding newRunOf_def by (auto simp: pruneRuns_newest pruneRuns_ledger)
qed

lemma heldRow_rest [simp]:
  "heldRow (recordRun r d) = heldRow d" "heldRow (snd (pruneRuns days now d)) = heldRow d"
  by (simp_all add: heldRow_def recordRun_def fun_eq_iff)

lemma recordTourRun_step:
  assumes "\<And>r. runOutcome r = outcome \<Longrightarrow> errorReason r = rcErrorReason counts \<Longrightarrow>
      runFetchedCount r = rcFetched counts \<Longrightarrow> runInsertedCount r = rcInserted counts \<Longrightarrow>
      runUpdatedCount r = rcUpdated counts \<Longrightarrow> P r"
  shows "newRunOf (ingestDb w) (ingestDb (recordTourRun deps startedAt win outcome counts w)) P
    \<and> heldRow (ingestDb (recordTourRun deps startedAt win outcome counts w)) = heldRow (ingestDb w)"
  using recordTourRun_db [of deps startedAt win outcome counts w]
proof (elim disjE exE conjE)
  fix r
  assume r: "ingestDb (recordTourRun deps startedAt win outcome counts w) = recordRun r (ingestDb w)"
    "runOutcome r = outcome" "errorReason r = rcErrorReason counts" "runFetchedCount r = rcFetched counts"
    "runInsertedCount r = rcInserted counts" "runUpdatedCount r = rcUpdated counts"
  then have "P (r\<lparr>runId := eqNextRunId (ingestDb w)\<rparr>)" by (intro assms) simp_all
  with r(1) show ?thesis by (simp add: newRunOf_record)
qed simp

lemma prune_eq_step:
  assumes "newRunOf d (ingestDb w) P"
  shows "newRunOf d (ingestDb (prune_eq deps now w)) P
    \<and> heldRow (ingestDb (prune_eq deps now w)) = heldRow (ingestDb w)"
  using prune_eq_db [of deps now w] assms newRunOf_prune by (metis heldRow_rest(2))

lemma heldRow_prune_eq [simp]: "heldRow (ingestDb (prune_eq deps now w)) = heldRow (ingestDb w)"
  using prune_eq_step [of "ingestDb w" w "\<lambda>_. True" deps now] by simp

lemma heldRow_recordTourRun [simp]:
  "heldRow (ingestDb (recordTourRun deps startedAt win outcome counts w)) = heldRow (ingestDb w)"
  using recordTourRun_step [of outcome counts "\<lambda>_. True" w deps startedAt win] by simp

lemma newRunOf_same_ledger:
  assumes "newRunOf d1 d' P" "eqRuns d1 = eqRuns d" "eqNextRunId d1 = eqNextRunId d"
  shows "newRunOf d d' P"
  using assms by (simp add: newRunOf_def newestSuccessfulRunFinishedAt_def ledger_ok_def)

text \<open>
  What storing a payload does: some of the accepted rows, in their order, are upserted, and the
  run that may be recorded adds up.
\<close>

definition runAddsUp :: "afadParsedPayload \<Rightarrow> nat \<Rightarrow> ingestRun \<Rightarrow> bool" where
  "runAddsUp payload storedCount r \<longleftrightarrow>
     runFetchedCount r = fetchedCount payload
     \<and> runInsertedCount r + runUpdatedCount r \<le> storedCount \<and> storedCount \<le> length (accepted payload)
     \<and> (countsAsFresh r \<longrightarrow>
          (fetchedCount payload = 0 \<or> accepted payload \<noteq> []) \<and> (accepted payload \<noteq> [] \<longrightarrow> 0 < storedCount))"

lemma storePayload_step:
  "\<exists>plateCodes stored writtenAt.
     subseq stored (map (\<lambda>e. buildEarthquakeRow (scope deps) e plateCodes (scopeBufferKm (config deps)))
                      (accepted payload))
     \<and> heldRow (ingestDb (storePayload deps startedAt win payload w))
       = heldRow (events.putAll (map (\<lambda>r. (r, writtenAt)) stored) (ingestDb w))
     \<and> newRunOf (ingestDb w) (ingestDb (storePayload deps startedAt win payload w))
         (runAddsUp payload (length stored))"
proof -
  let ?load = "\<lambda>d. (loadProvincePlateCodes (unicode (scope deps)) d, d)"
  obtain res w1 where st: "statement ?load w = (res, w1)" by fastforce
  then show ?thesis
  proof (cases rule: statement_cases)
    case 1
    let ?counts = "\<lparr>rcFetched = fetchedCount payload, rcInserted = 0, rcUpdated = 0, rcOutOfScope = 0,
                 rcErrorReason = Some Province_lookup_failed\<rparr>"
    let ?w2 = "recordTourRun deps startedAt win K_transient ?counts (eqCount ''eq.store_read_failed'' 1 w1)"
    have "newRunOf (ingestDb w) (ingestDb ?w2) (runAddsUp payload 0) \<and> heldRow (ingestDb ?w2) = heldRow (ingestDb w)"
      using recordTourRun_step [of K_transient ?counts "runAddsUp payload 0"
          "eqCount ''eq.store_read_failed'' 1 w1" deps startedAt win] 1
      by (simp add: runAddsUp_def countsAsFresh_def)
    with prune_eq_step [of "ingestDb w" ?w2 "runAddsUp payload 0" deps "ingestNow ?w2"] 1 st
    show ?thesis
      by (intro exI [of _ "\<lambda>_. None"] exI [of _ "[]"] exI [of _ 0])
        (simp add: storePayload_def events.putAll_def Let_def)
  next
    case (2 plates)
    let ?rows = "map (\<lambda>e. buildEarthquakeRow (scope deps) e (js_get plates) (scopeBufferKm (config deps)))
                      (accepted payload)"
    obtain c w2 where ups: "upsertRows (ingestNow w1) ?rows noCounts w1 = (c, w2)" by fastforce
    from upsertRows_spec [OF ups] obtain stored where stored: "subseq stored ?rows"
      "ingestDb w2 = events.putAll (map (\<lambda>r. (r, ingestNow w1)) stored) (ingestDb w1)"
      "eqRuns (ingestDb w2) = eqRuns (ingestDb w1)" "eqNextRunId (ingestDb w2) = eqNextRunId (ingestDb w1)"
      "reached c = length stored" "writeFailedCount c = length ?rows - length stored"
      by (auto simp: reached_def noCounts_def)
    have len: "length stored \<le> length (accepted payload)" using list_emb_length [OF stored(1)] by simp
    have w1: "ingestDb w1 = ingestDb w" using 2(2) by simp
    let ?w3 = "eqCount ''eq.row_rejected'' (length (rejected payload)) w2"
    let ?w4 = "if jobKind deps = Reconcile then reportDisappearances win payload ?w3 else ?w3"
    obtain outcome why where dg: "diagnoseTour payload c = (outcome, why)" by fastforce
    let ?counts = "\<lparr>rcFetched = fetchedCount payload, rcInserted = insertedCount c,
                 rcUpdated = updatedCount c, rcOutOfScope = skippedOutOfScopeCount c, rcErrorReason = why\<rparr>"
    let ?w5 = "recordTourRun deps startedAt win outcome ?counts ?w4"
    have run: "runAddsUp payload (length stored) r"
      if "runOutcome r = outcome" "errorReason r = why" "runFetchedCount r = fetchedCount payload"
        "runInsertedCount r = insertedCount c" "runUpdatedCount r = updatedCount c" for r
      using that dg stored(5,6) len
      by (auto simp: runAddsUp_def countsAsFresh_def diagnoseTour_def reached_def Let_def
          split: if_splits dest!: sym [of "Some _"])
    have db4: "ingestDb ?w4 = ingestDb w2" by simp
    have "newRunOf (ingestDb w2) (ingestDb ?w5) (runAddsUp payload (length stored))
        \<and> heldRow (ingestDb ?w5) = heldRow (ingestDb w2)"
      using recordTourRun_step [of outcome ?counts "runAddsUp payload (length stored)" ?w4 deps startedAt win]
        run unfolding db4 by simp
    then have five: "newRunOf (ingestDb w) (ingestDb ?w5) (runAddsUp payload (length stored))"
      "heldRow (ingestDb ?w5) = heldRow (ingestDb w2)"
      using newRunOf_same_ledger [of "ingestDb w2" _ _ "ingestDb w"] stored(3,4) w1 by simp_all
    let ?w6 = "eqCount ''eq.plate_unresolved'' (plateUnresolvedCount c)
                (eqCount ''eq.rows_out_of_scope'' (skippedOutOfScopeCount c)
                (eqCount ''eq.rows_updated'' (updatedCount c)
                (eqCount ''eq.rows_inserted'' (insertedCount c) ?w5)))"
    have db6: "ingestDb ?w6 = ingestDb ?w5" by simp
    have "storePayload deps startedAt win payload w = prune_eq deps (ingestNow w1) ?w6"
      using st 2 ups dg by (simp add: storePayload_def Let_def)
    with prune_eq_step [of "ingestDb w" ?w6 "runAddsUp payload (length stored)" deps "ingestNow w1"]
      five stored(1,2) w1
    show ?thesis unfolding db6 by (intro exI [of _ "js_get plates"] exI [of _ stored] exI [of _ "ingestNow w1"]) simp
  qed
qed

section \<open>One tour\<close>

text \<open>The payload the provider's answer was parsed to, when the tour got one.\<close>

definition answeredPayload ::
  "'r ingestDeps \<Rightarrow> operationDeadline \<Rightarrow> 'r ingestWorld \<Rightarrow> afadParsedPayload option" where
  "answeredPayload deps tourDeadline w =
     (if \<not> ingestEnabled (config deps) then None
      else case newOperationDeadline
             (min (tourBudgetMs (config deps)) (remainingMs tourDeadline (ingestNow w))) (ingestNow w) of
        Inl e \<Rightarrow> None
      | Inr dl \<Rightarrow> (case fst (tourCall deps dl w) of Inr (Out_ok payload t) \<Rightarrow> Some payload | _ \<Rightarrow> None))"

lemma refresh_eq_cases:
  obtains "ingestDb (refresh_eq deps dl w) = ingestDb w"
  | payload h win startedAt where "answeredPayload deps dl w = Some payload"
      "refresh_eq deps dl w = storePayload deps startedAt win payload (w\<lparr>http := h\<rparr>)"
  | h out win startedAt t where
      "refresh_eq deps dl w = prune_eq deps t (recordTourRun deps startedAt win (kind_of out)
         \<lparr>rcFetched = 0, rcInserted = 0, rcUpdated = 0, rcOutOfScope = 0,
          rcErrorReason = Some (Upstream_reason (outcomeReason (out :: afadParsedPayload upstreamOutcome)))\<rparr>
         (w\<lparr>http := h\<rparr>))"
proof -
  let ?slice = "min (tourBudgetMs (config deps)) (remainingMs dl (ingestNow w))"
  show thesis
  proof (cases "ingestEnabled (config deps) \<and> \<not> ?slice < ESTIMATED_CALL_COST_MS")
    case False
    then have "ingestDb (refresh_eq deps dl w) = ingestDb w"
      by (auto simp: refresh_eq_def runTour_eq_def Let_def)
    then show thesis by (rule that(1))
  next
    case True
    then obtain d where d: "newOperationDeadline ?slice (ingestNow w) = Inr d"
      by (auto simp: newOperationDeadline_def ESTIMATED_CALL_COST_MS_def)
    obtain res h where call: "tourCall deps d w = (res, h)" by fastforce
    show thesis
    proof (cases res)
      case (Inl exn)
      then have "ingestDb (refresh_eq deps dl w) = ingestDb w"
        using True d call by (simp add: refresh_eq_def runTour_eq_def Let_def)
      then show thesis by (rule that(1))
    next
      case (Inr out)
      let ?win = "tourWindow deps w"
      let ?counts = "\<lparr>rcFetched = 0, rcInserted = 0, rcUpdated = 0, rcOutOfScope = 0,
          rcErrorReason = Some (Upstream_reason (outcomeReason out))\<rparr>"
      let ?w2 = "recordTourRun deps (ingestNow w) ?win (kind_of out) ?counts (w\<lparr>http := h\<rparr>)"
      show thesis
      proof (cases "\<exists>payload t. out = Out_ok payload t")
        case ok: True
        with Inr show thesis
          using True d call that(2) by (auto simp: refresh_eq_def runTour_eq_def answeredPayload_def Let_def)
      next
        case no: False
        have "refresh_eq deps dl w = prune_eq deps (ingestNow ?w2) ?w2"
          using True d call Inr no by (cases out) (simp_all add: refresh_eq_def runTour_eq_def Let_def)
        then show thesis by (rule that(3))
      qed
    qed
  qed
qed

text \<open>
  C32: A tour never loses an event. Every event the store held is still held afterwards, and a
  held row is either the one held before or the row built from an event of this tour's own
  answer under its own id; without an answer no row changes.
\<close>

theorem tour_never_loses_events:
  "(\<forall>k. heldRow (ingestDb w) k \<noteq> None \<longrightarrow> heldRow (ingestDb (refresh_eq deps dl w)) k \<noteq> None)
   \<and> (\<forall>k row. heldRow (ingestDb (refresh_eq deps dl w)) k = Some row \<longrightarrow>
        heldRow (ingestDb w) k = Some row
        \<or> (\<exists>payload e plateCodes. answeredPayload deps dl w = Some payload \<and> e \<in> set (accepted payload)
             \<and> row = buildEarthquakeRow (scope deps) e plateCodes (scopeBufferKm (config deps))
             \<and> k = providerEventId e))"
proof (cases rule: refresh_eq_cases [of deps dl w])
  case 1
  then show ?thesis by simp
next
  case (2 payload h win startedAt)
  note answer = 2(1)
  obtain plateCodes stored t where s: "subseq stored
      (map (\<lambda>e. buildEarthquakeRow (scope deps) e plateCodes (scopeBufferKm (config deps))) (accepted payload))"
    "heldRow (ingestDb (refresh_eq deps dl w)) = heldRow (events.putAll (map (\<lambda>r. (r, t)) stored) (ingestDb w))"
    using storePayload_step [of deps payload startedAt win "w\<lparr>http := h\<rparr>"] 2(2) by auto
  have row: "\<exists>e \<in> set (accepted payload).
      r = buildEarthquakeRow (scope deps) e plateCodes (scopeBufferKm (config deps))" if "r \<in> set stored" for r
    using list_emb_set [OF s(1) that] by auto
  have found: "r \<in> set stored \<and> rowProviderEventId r = k"
    if "find (\<lambda>(r, t). rowProviderEventId r = k) (rev (map (\<lambda>r. (r, t)) stored)) = Some (r, u)" for r u k
    using find_SomeD [OF that] by auto
  show ?thesis
    unfolding s(2)
  proof (intro conjI allI impI)
    fix k
    assume "heldRow (ingestDb w) k \<noteq> None"
    then show "heldRow (events.putAll (map (\<lambda>r. (r, t)) stored) (ingestDb w)) k \<noteq> None"
      by (rule events.keys_kept)
  next
    fix k r
    assume "heldRow (events.putAll (map (\<lambda>r. (r, t)) stored) (ingestDb w)) k = Some r"
    then consider "heldRow (ingestDb w) k = Some r" | "r \<in> set stored" "rowProviderEventId r = k"
      unfolding events.look_putAll by (auto split: option.splits dest: found)
    then show "heldRow (ingestDb w) k = Some r
        \<or> (\<exists>payload e plateCodes. answeredPayload deps dl w = Some payload \<and> e \<in> set (accepted payload)
             \<and> r = buildEarthquakeRow (scope deps) e plateCodes (scopeBufferKm (config deps))
             \<and> k = providerEventId e)"
    proof cases
      case 1
      then show ?thesis by blast
    next
      case 2
      then obtain e where "e \<in> set (accepted payload)"
        "r = buildEarthquakeRow (scope deps) e plateCodes (scopeBufferKm (config deps))"
        using row by blast
      with 2(2) answer show ?thesis by auto
    qed
  qed
next
  case (3 h out win startedAt t)
  have "heldRow (ingestDb (refresh_eq deps dl w)) = heldRow (ingestDb w)"
    unfolding 3 by simp
  then show ?thesis by simp
qed

text \<open>
  When a run counts as fresh: the provider answered, and either it had no row to give or at
  least one row of the answer is now held.
\<close>

definition honestRun ::
  "'r ingestDeps \<Rightarrow> afadParsedPayload option \<Rightarrow> earthquakeDb \<Rightarrow> ingestRun \<Rightarrow> bool" where
  "honestRun deps answer d r \<longleftrightarrow> (countsAsFresh r \<longrightarrow>
     (\<exists>payload. answer = Some payload \<and> runFetchedCount r = fetchedCount payload
        \<and> runInsertedCount r + runUpdatedCount r \<le> length (accepted payload)
        \<and> (fetchedCount payload = 0 \<and> accepted payload = []
            \<or> (\<exists>e \<in> set (accepted payload). \<exists>plateCodes. heldRow d (providerEventId e)
                 = Some (buildEarthquakeRow (scope deps) e plateCodes (scopeBufferKm (config deps)))))))"

lemma last_put_held:
  "stored \<noteq> [] \<Longrightarrow>
   heldRow (events.putAll (map (\<lambda>r. (r, t)) stored) d) (rowProviderEventId (last stored)) = Some (last stored)"
  unfolding events.look_putAll by (cases stored rule: rev_cases) simp_all

lemma newRunOf_mono: "newRunOf d d' P \<Longrightarrow> (\<And>r. P r \<Longrightarrow> Q r) \<Longrightarrow> newRunOf d d' Q"
  unfolding newRunOf_def by blast

lemma refresh_eq_ledger:
  "newRunOf (ingestDb w) (ingestDb (refresh_eq deps dl w))
     (honestRun deps (answeredPayload deps dl w) (ingestDb (refresh_eq deps dl w)))"
proof (cases rule: refresh_eq_cases [of deps dl w])
  case 1
  then show ?thesis by simp
next
  case (2 payload h win startedAt)
  let ?row = "\<lambda>plateCodes e. buildEarthquakeRow (scope deps) e plateCodes (scopeBufferKm (config deps))"
  obtain plateCodes stored t where s: "subseq stored (map (?row plateCodes) (accepted payload))"
    "heldRow (ingestDb (refresh_eq deps dl w)) = heldRow (events.putAll (map (\<lambda>r. (r, t)) stored) (ingestDb w))"
    and n: "newRunOf (ingestDb w) (ingestDb (refresh_eq deps dl w)) (runAddsUp payload (length stored))"
    using storePayload_step [of deps payload startedAt win "w\<lparr>http := h\<rparr>"] 2(2) by auto
  have held: "\<exists>e \<in> set (accepted payload). \<exists>plateCodes.
      heldRow (ingestDb (refresh_eq deps dl w)) (providerEventId e) = Some (?row plateCodes e)"
    if "stored \<noteq> []"
  proof -
    have "last stored \<in> set stored" using that by simp
    then obtain e where e: "e \<in> set (accepted payload)" "last stored = ?row plateCodes e"
      using list_emb_set [OF s(1)] by auto
    have "heldRow (ingestDb (refresh_eq deps dl w)) (rowProviderEventId (last stored)) = Some (last stored)"
      unfolding s(2) by (rule last_put_held [OF that])
    moreover have "rowProviderEventId (last stored) = providerEventId e"
      unfolding e(2) by simp
    ultimately show ?thesis using e by metis
  qed
  show ?thesis
  proof (rule newRunOf_mono [OF n])
    fix r
    assume "runAddsUp payload (length stored) r"
    then show "honestRun deps (answeredPayload deps dl w) (ingestDb (refresh_eq deps dl w)) r"
      unfolding honestRun_def 2(1) runAddsUp_def using held
      by (cases "accepted payload = []") auto
  qed
next
  case (3 h out win startedAt t)
  have "newRunOf (ingestDb w) (ingestDb (refresh_eq deps dl w)) (\<lambda>r. \<not> countsAsFresh r)"
    unfolding 3
    using recordTourRun_step [of _ _ "\<lambda>r. \<not> countsAsFresh r" "w\<lparr>http := h\<rparr>"]
    by (intro prune_eq_step [THEN conjunct1]) (simp add: countsAsFresh_def)
  then show ?thesis by (rule newRunOf_mono) (simp add: honestRun_def)
qed

text \<open>
  C33: The ledger of runs is honest. A tour adds at most one run, under a new id; the newest
  successful run, from which freshness is told, never moves back, however much the housekeeping
  deletes; and a new run counts as successful only when the provider answered and either gave no
  row or at least one row of its answer is held.
\<close>

theorem tour_ledger_honest:
  assumes "ledger_ok (ingestDb w)"
  shows "ledger_ok (ingestDb (refresh_eq deps dl w))
    \<and> (\<forall>r \<in> set (eqRuns (ingestDb (refresh_eq deps dl w))).
         r \<in> set (eqRuns (ingestDb w))
         \<or> runId r = eqNextRunId (ingestDb w)
            \<and> honestRun deps (answeredPayload deps dl w) (ingestDb (refresh_eq deps dl w)) r)
    \<and> (\<forall>t. newestSuccessfulRunFinishedAt (ingestDb w) = Some t \<longrightarrow>
         (\<exists>t' \<ge> t. newestSuccessfulRunFinishedAt (ingestDb (refresh_eq deps dl w)) = Some t'))"
  using refresh_eq_ledger [of w deps dl] assms unfolding newRunOf_def by blast

section \<open>A concrete tour\<close>

definition sampleDeps :: "unit ingestDeps" where
  "sampleDeps = \<lparr>envFor = (\<lambda>_. example_env), decodeText = map (\<lambda>b. uint b), jsonParse = (\<lambda>_. Some (JArray [])),
     scope = \<lparr>trBoundaryRings = [], trBoundaryBbox = \<lparr>minLon = 26, minLat = 36, maxLon = 45, maxLat = 42\<rparr>,
        unicode = \<lparr>trLower = id, splitNonLetters = (\<lambda>s. [s])\<rparr>\<rparr>,
     config = \<lparr>ingestEnabled = True, cfgBaseUrl = ascii ''https://afad'', cfgSingleCallTimeoutMs = 15000,
        cfgResponseMaxBytes = 8, recentWindowHours = 6, reconcileWindowDays = 7, clockSkewSeconds = 60,
        tourBudgetMs = 60000, safetyLimit = 10, scopeBufferKm = 200, runRetentionDays = 30, staleMaxSeconds = 900\<rparr>,
     jobKind = Reconcile\<rparr>"

definition sampleRun :: ingestRun where
  "sampleRun = \<lparr>runId = 0, runJobKind = Recent, startedAtUtc = 1, finishedAtUtc = 5, runOutcome = K_ok,
     windowStartUtc = 0, windowEndUtc = 9, runFetchedCount = 0, runInsertedCount = 0, runUpdatedCount = 0,
     runSkippedOutOfScopeCount = 0, errorReason = None\<rparr>"

definition sampleHeld :: storedEvent where
  "sampleHeld = \<lparr>storedRow = buildEarthquakeRow (scope sampleDeps)
       \<lparr>providerEventId = [55], occurredAtUtc = 4, evLatitude = 38, evLongitude = 39, depthKm = 7,
        magnitude = 4, evMagnitudeType = Ml, magnitudeTypeRaw = [77, 76], providerCountry = None,
        providerProvince = None, providerDistrict = None, providerLocationRaw = [65],
        placeNameTr = [65], bindingDistanceKm = None, hasDistanceBracket = False, isRevised = False,
        providerUpdatedAtUtc = None\<rparr> (\<lambda>_. None) 200,
     revisionCount = 0, firstSeenAtUtc = 4, updatedAt = 4\<rparr>"

definition sampleWorld :: "unit ingestWorld" where
  "sampleWorld = \<lparr>http = example_world,
     ingestDb = \<lparr>eqEvents = [([55], sampleHeld)], eqRuns = [sampleRun], eqNextRunId = 1, eqProvinces = []\<rparr>,
     dbAnswers = [(False, 3), (True, 40)]\<rparr>"

theorem tour_never_loses_events_witness:
  "heldRow (ingestDb (refresh_eq sampleDeps \<lparr>budgetMs = 60000, startedAtMs = 0\<rparr> sampleWorld)) [55] \<noteq> None"
  using tour_never_loses_events [of sampleWorld sampleDeps "\<lparr>budgetMs = 60000, startedAtMs = 0\<rparr>"]
  by (simp add: sampleWorld_def heldRow_def js_get_def)

theorem tour_ledger_honest_witness:
  "\<exists>t \<ge> 5. newestSuccessfulRunFinishedAt
     (ingestDb (refresh_eq sampleDeps \<lparr>budgetMs = 60000, startedAtMs = 0\<rparr> sampleWorld)) = Some t"
proof -
  have "ledger_ok (ingestDb sampleWorld)" by (simp add: ledger_ok_def sampleWorld_def sampleRun_def)
  moreover have "newestSuccessfulRunFinishedAt (ingestDb sampleWorld) = Some 5"
    by (simp add: newestSuccessfulRunFinishedAt_def sampleWorld_def sampleRun_def countsAsFresh_def sqlMax_def)
  ultimately show ?thesis
    using tour_ledger_honest [of sampleWorld sampleDeps "\<lparr>budgetMs = 60000, startedAtMs = 0\<rparr>"] by blast
qed

end
