(* ===== verification/Earthquake_Read.thy ===== *)
theory Earthquake_Read
  imports Earthquake_Store "HOL-Library.Multiset" "HOL-Library.List_Lexorder" "HOL-Library.Product_Lexorder"
begin

text \<open>
  The read side of the earthquakes: \<open>src/earthquake/earthquake-read.store.ts\<close>,
  \<open>earthquake-read.service.ts\<close>, \<open>earthquake-data-status.ts\<close> and the cache header of
  \<open>earthquake.controller.ts\<close>. The queries run on the tables of the ingest. Ids are ordered by
  code unit, and the platform's parsing of a date text is an argument.
\<close>

section \<open>Queries\<close>

record earthquakeListFilter =
  minMagnitude :: rat
  fromUtc :: ms
  toUtc :: ms
  plateCode :: "string option"
  pageNumber :: nat
  pageSize :: nat

definition matchesFilter :: "earthquakeListFilter \<Rightarrow> storedEvent \<Rightarrow> bool" where
  "matchesFilter f ev \<longleftrightarrow>
     rowInScope (storedRow ev) \<and> minMagnitude f \<le> rowMagnitude (storedRow ev)
     \<and> fromUtc f \<le> rowOccurredAtUtc (storedRow ev) \<and> rowOccurredAtUtc (storedRow ev) \<le> toUtc f
     \<and> (case plateCode f of None \<Rightarrow> True | Some p \<Rightarrow> rowBindingPlateCode (storedRow ev) = Some p)"

text \<open>Newest first, the id breaking ties: the order of the whole answer, before paging.\<close>

definition orderedMatches :: "earthquakeDb \<Rightarrow> earthquakeListFilter \<Rightarrow> storedEvent list" where
  "orderedMatches db f =
     rev (sort_key (\<lambda>ev. (rowOccurredAtUtc (storedRow ev), rowProviderEventId (storedRow ev)))
       (filter (matchesFilter f) (map snd (eqEvents db))))"

definition findPage :: "earthquakeDb \<Rightarrow> earthquakeListFilter \<Rightarrow> storedEvent list \<times> nat" where
  "findPage db f =
     (take (pageSize f) (drop ((pageNumber f - 1) * pageSize f) (orderedMatches db f)),
      length (filter (matchesFilter f) (map snd (eqEvents db))))"

definition hasAnyServableRow :: "earthquakeDb \<Rightarrow> bool" where
  "hasAnyServableRow db = list_ex (\<lambda>ev. rowInScope (storedRow ev)) (map snd (eqEvents db))"

definition latestEventOccurredAt :: "earthquakeDb \<Rightarrow> string option \<Rightarrow> ms option" where
  "latestEventOccurredAt db plate =
     sqlMax (map (\<lambda>ev. rowOccurredAtUtc (storedRow ev))
       (filter (\<lambda>ev. rowInScope (storedRow ev)
                 \<and> (case plate of None \<Rightarrow> True | Some p \<Rightarrow> rowBindingPlateCode (storedRow ev) = Some p))
         (map snd (eqEvents db))))"

definition provinceExists :: "earthquakeDb \<Rightarrow> string \<Rightarrow> bool" where
  "provinceExists db plate = list_ex (\<lambda>(name, p). p = plate) (eqProvinces db)"

section \<open>Freshness\<close>

datatype earthquakeDataStatus = Status_ok | Status_stale | Status_unavailable

record earthquakeFreshness =
  dataUpdatedAtUtc :: "jsText option"
  dataStatus :: earthquakeDataStatus

definition resolveEarthquakeFreshness ::
  "ms option \<Rightarrow> bool \<Rightarrow> ms \<Rightarrow> int \<Rightarrow> earthquakeFreshness" where
  "resolveEarthquakeFreshness runFinishedAt holdsServableRow now staleMax =
     (case runFinishedAt of
        None \<Rightarrow> \<lparr>dataUpdatedAtUtc = None,
                 dataStatus = (if holdsServableRow then Status_stale else Status_unavailable)\<rparr>
      | Some t \<Rightarrow>
         (let ageSeconds = (of_int (now - t) :: rat) / 1000
          in \<lparr>dataUpdatedAtUtc = Some (toISOString t),
              dataStatus = (if ageSeconds \<le> of_int staleMax then Status_ok else Status_stale)\<rparr>))"

section \<open>The service\<close>

definition EARTHQUAKE_DEFAULT_WINDOW_DAYS :: int where "EARTHQUAKE_DEFAULT_WINDOW_DAYS = 7"
definition EARTHQUAKE_MAX_WINDOW_DAYS :: int where "EARTHQUAKE_MAX_WINDOW_DAYS = 366"
definition EARTHQUAKE_LIST_MAX_PAGE :: nat where "EARTHQUAKE_LIST_MAX_PAGE = 10000"

datatype earthquakeError = Province_not_found | Window_invalid | Window_reversed | Window_too_long

record earthquakeListQuery =
  qMinMagnitude :: rat
  qFromUtc :: "jsText option"
  qToUtc :: "jsText option"
  qPage :: nat
  qPageSize :: nat

definition resolveWindow ::
  "(jsText \<Rightarrow> ms option) \<Rightarrow> earthquakeUpstreamConfig \<Rightarrow> earthquakeListQuery \<Rightarrow> ms
   \<Rightarrow> earthquakeError + ms \<times> ms" where
  "resolveWindow dateOf cfg q now =
     (let toMs = (case qToUtc q of None \<Rightarrow> Some (now + clockSkewSeconds cfg * 1000) | Some s \<Rightarrow> dateOf s);
          fromMs = (case qFromUtc q of
             None \<Rightarrow> map_option (\<lambda>t. t - EARTHQUAKE_DEFAULT_WINDOW_DAYS * MS_PER_DAY) toMs
           | Some s \<Rightarrow> dateOf s)
      in case (fromMs, toMs) of
           (Some f, Some t) \<Rightarrow>
             if f > t then Inl Window_reversed
             else if t - f > EARTHQUAKE_MAX_WINDOW_DAYS * MS_PER_DAY then Inl Window_too_long
             else Inr (f, t)
         | _ \<Rightarrow> Inl Window_invalid)"

record earthquakeEventDto =
  dtoProviderEventId :: jsText
  dtoOccurredAtUtc :: jsText
  dtoMagnitude :: rat
  dtoMagnitudeType :: magnitudeType
  dtoMagnitudeTypeRaw :: jsText
  dtoDepthKm :: rat
  dtoLatitude :: rat
  dtoLongitude :: rat
  dtoPlaceNameTr :: jsText
  dtoProviderLocationRaw :: jsText
  dtoBindingKind :: earthquakeBindingKind
  dtoBindingPlateCode :: "string option"
  dtoBindingDistanceKm :: "rat option"
  dtoProviderCountry :: "jsText option"
  dtoIsRevised :: bool
  dtoProviderUpdatedAtUtc :: "jsText option"
  dtoRevisionCount :: nat

definition toEarthquakeEventDto :: "storedEvent \<Rightarrow> earthquakeEventDto" where
  "toEarthquakeEventDto ev =
     (let r = storedRow ev
      in \<lparr>dtoProviderEventId = rowProviderEventId r, dtoOccurredAtUtc = toISOString (rowOccurredAtUtc r),
          dtoMagnitude = rowMagnitude r, dtoMagnitudeType = rowMagnitudeType r,
          dtoMagnitudeTypeRaw = rowMagnitudeTypeRaw r, dtoDepthKm = rowDepthKm r,
          dtoLatitude = rowLatitude r, dtoLongitude = rowLongitude r,
          dtoPlaceNameTr = rowPlaceNameTr r, dtoProviderLocationRaw = rowProviderLocationRaw r,
          dtoBindingKind = rowBindingKind r, dtoBindingPlateCode = rowBindingPlateCode r,
          dtoBindingDistanceKm = rowBindingDistanceKm r, dtoProviderCountry = rowProviderCountry r,
          dtoIsRevised = rowIsRevised r,
          dtoProviderUpdatedAtUtc = map_option toISOString (rowProviderUpdatedAtUtc r),
          dtoRevisionCount = revisionCount ev\<rparr>)"

record earthquakeList =
  listItems :: "earthquakeEventDto list"
  listPage :: nat
  listPageSize :: nat
  listTotal :: nat
  hasMore :: bool
  metaFilter :: "rat \<times> string option \<times> jsText \<times> jsText"
  metaDataUpdatedAtUtc :: "jsText option"
  metaLatestEventAtUtc :: "jsText option"
  metaDataStatus :: earthquakeDataStatus

definition buildList ::
  "(jsText \<Rightarrow> ms option) \<Rightarrow> earthquakeUpstreamConfig \<Rightarrow> earthquakeDb \<Rightarrow> ms \<Rightarrow> earthquakeListQuery
   \<Rightarrow> string option \<Rightarrow> earthquakeError + earthquakeList" where
  "buildList dateOf cfg db now q plate =
     andThen (resolveWindow dateOf cfg q now) (\<lambda>(fromMs, toMs).
     let f = \<lparr>minMagnitude = qMinMagnitude q, fromUtc = fromMs, toUtc = toMs, plateCode = plate,
              pageNumber = qPage q, pageSize = qPageSize q\<rparr>;
         (rows, count) = findPage db f;
         fresh = resolveEarthquakeFreshness (newestSuccessfulRunFinishedAt db) (hasAnyServableRow db)
                   now (staleMaxSeconds cfg)
     in Inr \<lparr>listItems = map toEarthquakeEventDto rows, listPage = qPage q, listPageSize = qPageSize q,
             listTotal = count,
             hasMore = (qPage q < EARTHQUAKE_LIST_MAX_PAGE \<and> qPage q * qPageSize q < count),
             metaFilter = (qMinMagnitude q, plate, toISOString fromMs, toISOString toMs),
             metaDataUpdatedAtUtc = dataUpdatedAtUtc fresh,
             metaLatestEventAtUtc = map_option toISOString (latestEventOccurredAt db plate),
             metaDataStatus = dataStatus fresh\<rparr>)"

definition listEvents ::
  "(jsText \<Rightarrow> ms option) \<Rightarrow> earthquakeUpstreamConfig \<Rightarrow> earthquakeDb \<Rightarrow> ms \<Rightarrow> earthquakeListQuery
   \<Rightarrow> earthquakeError + earthquakeList" where
  "listEvents dateOf cfg db now q = buildList dateOf cfg db now q None"

definition listProvinceEvents ::
  "(jsText \<Rightarrow> ms option) \<Rightarrow> earthquakeUpstreamConfig \<Rightarrow> earthquakeDb \<Rightarrow> ms \<Rightarrow> string
   \<Rightarrow> earthquakeListQuery \<Rightarrow> earthquakeError + earthquakeList" where
  "listProvinceEvents dateOf cfg db now plate q =
     (if \<not> provinceExists db plate then Inl Province_not_found
      else buildList dateOf cfg db now q (Some plate))"

record earthquakeMeta =
  emMinMagnitudeDefault :: rat
  emScopeBufferKm :: rat
  emDefaultWindowDays :: int
  emMaxWindowDays :: int
  emDataUpdatedAtUtc :: "jsText option"
  emLatestEventAtUtc :: "jsText option"
  emDataStatus :: earthquakeDataStatus

definition getMeta :: "earthquakeUpstreamConfig \<Rightarrow> earthquakeDb \<Rightarrow> ms \<Rightarrow> earthquakeMeta" where
  "getMeta cfg db now =
     (let fresh = resolveEarthquakeFreshness (newestSuccessfulRunFinishedAt db) (hasAnyServableRow db)
                   now (staleMaxSeconds cfg)
      in \<lparr>emMinMagnitudeDefault = 5 / 2, emScopeBufferKm = scopeBufferKm cfg,
          emDefaultWindowDays = EARTHQUAKE_DEFAULT_WINDOW_DAYS,
          emMaxWindowDays = EARTHQUAKE_MAX_WINDOW_DAYS,
          emDataUpdatedAtUtc = dataUpdatedAtUtc fresh,
          emLatestEventAtUtc = map_option toISOString (latestEventOccurredAt db None),
          emDataStatus = dataStatus fresh\<rparr>)"

text \<open>\<open>cacheControlFor\<close>: what a cold answer and a warm one say to caches.\<close>

definition COLD_CACHE_CONTROL :: string where "COLD_CACHE_CONTROL = ''no-store''"

definition LIST_CACHE_CONTROL :: string where
  "LIST_CACHE_CONTROL = ''public, max-age=60, s-maxage=120, stale-while-revalidate=600''"

definition META_CACHE_CONTROL :: string where
  "META_CACHE_CONTROL = ''public, max-age=300, s-maxage=3600, stale-while-revalidate=86400''"

definition cacheControlFor :: "earthquakeDataStatus \<Rightarrow> string \<Rightarrow> string" where
  "cacheControlFor st warmValue = (if st = Status_unavailable then COLD_CACHE_CONTROL else warmValue)"

section \<open>Pages\<close>

lemma orderedMatches_page [simp]:
  "orderedMatches db (f\<lparr>pageNumber := p\<rparr>) = orderedMatches db f"
  by (simp add: orderedMatches_def matchesFilter_def [abs_def])

lemma length_orderedMatches: "length (orderedMatches db f) = snd (findPage db f)"
  by (simp add: orderedMatches_def findPage_def)

lemma table_ok_distinct:
  assumes "table_ok db"
  shows "distinct (map (\<lambda>ev. rowProviderEventId (storedRow ev)) (map snd (eqEvents db)))"
proof -
  have "map (\<lambda>ev. rowProviderEventId (storedRow ev)) (map snd (eqEvents db)) = map fst (eqEvents db)"
    using table_ok_entry [OF assms] by auto
  moreover have "distinct (map fst (eqEvents db))" using assms by (simp add: table_ok_def js_wf_def)
  ultimately show ?thesis by (simp only:)
qed

lemma orderedMatches_sorted:
  "sorted (rev (map (\<lambda>ev. (rowOccurredAtUtc (storedRow ev), rowProviderEventId (storedRow ev)))
     (orderedMatches db f)))"
  by (simp add: orderedMatches_def rev_map sorted_sort_key)

lemma buildList_Inr:
  assumes "buildList dateOf cfg db now q plate = Inr l"
  obtains fromMs toMs f where "resolveWindow dateOf cfg q now = Inr (fromMs, toMs)"
    "f = \<lparr>minMagnitude = qMinMagnitude q, fromUtc = fromMs, toUtc = toMs, plateCode = plate,
          pageNumber = qPage q, pageSize = qPageSize q\<rparr>"
    "listItems l = map toEarthquakeEventDto (fst (findPage db f))" "listTotal l = snd (findPage db f)"
    "listPage l = qPage q" "listPageSize l = qPageSize q"
    "hasMore l \<longleftrightarrow> qPage q < EARTHQUAKE_LIST_MAX_PAGE \<and> qPage q * qPageSize q < listTotal l"
    "metaDataStatus l = dataStatus (resolveEarthquakeFreshness (newestSuccessfulRunFinishedAt db)
       (hasAnyServableRow db) now (staleMaxSeconds cfg))"
proof -
  obtain fromMs toMs where "resolveWindow dateOf cfg q now = Inr (fromMs, toMs)"
    using assms by (auto simp: buildList_def andThen_eq_Inr)
  with assms show thesis by (intro that [OF _ refl]) (auto simp: buildList_def Let_def case_prod_beta)
qed

text \<open>
  Reading the pages of one list in turn reads every matching event exactly once, newest first
  with the id breaking ties: the first pages together are the first events of the order, an id
  occurs once, and when a page below the last addressable one says there is no more, nothing is
  left out.
\<close>

theorem pages_partition_list:
  assumes "table_ok db"
  shows "concat (map (\<lambda>p. fst (findPage db (f\<lparr>pageNumber := p\<rparr>))) [1 ..< Suc n])
      = take (n * pageSize f) (orderedMatches db f)
    \<and> mset (orderedMatches db f) = mset (filter (matchesFilter f) (map snd (eqEvents db)))
    \<and> distinct (map (\<lambda>ev. rowProviderEventId (storedRow ev)) (orderedMatches db f))
    \<and> sorted (rev (map (\<lambda>ev. (rowOccurredAtUtc (storedRow ev), rowProviderEventId (storedRow ev)))
        (orderedMatches db f)))
    \<and> (buildList dateOf cfg db now q plate = Inr l \<and> \<not> hasMore l \<and> listPage l < EARTHQUAKE_LIST_MAX_PAGE
       \<longrightarrow> listTotal l \<le> listPage l * listPageSize l)"
proof (intro conjI impI)
  show "concat (map (\<lambda>p. fst (findPage db (f\<lparr>pageNumber := p\<rparr>))) [1 ..< Suc n])
      = take (n * pageSize f) (orderedMatches db f)"
    using concat_pages [of "pageSize f" "orderedMatches db f" n] by (simp add: findPage_def)
  show "mset (orderedMatches db f) = mset (filter (matchesFilter f) (map snd (eqEvents db)))"
    by (simp add: orderedMatches_def)
  have "mset (map (\<lambda>ev. rowProviderEventId (storedRow ev)) (orderedMatches db f))
      = mset (map (\<lambda>ev. rowProviderEventId (storedRow ev)) (filter (matchesFilter f) (map snd (eqEvents db))))"
    by (simp add: orderedMatches_def)
  then show "distinct (map (\<lambda>ev. rowProviderEventId (storedRow ev)) (orderedMatches db f))"
    using table_ok_distinct [OF assms] by (metis distinct_map_filter mset_eq_imp_distinct_iff)
  show "sorted (rev (map (\<lambda>ev. (rowOccurredAtUtc (storedRow ev), rowProviderEventId (storedRow ev)))
        (orderedMatches db f)))" by (rule orderedMatches_sorted)
  assume "buildList dateOf cfg db now q plate = Inr l \<and> \<not> hasMore l \<and> listPage l < EARTHQUAKE_LIST_MAX_PAGE"
  then show "listTotal l \<le> listPage l * listPageSize l"
    by (auto elim: buildList_Inr)
qed

section \<open>What a reader is told\<close>

lemma findPage_none: "\<not> hasAnyServableRow db \<Longrightarrow> findPage db f = ([], 0)"
  by (auto simp: hasAnyServableRow_def findPage_def orderedMatches_def matchesFilter_def list_ex_iff
      filter_empty_conv)

text \<open>
  A list says what the store knows. It is refused exactly when a bound is no date, the window
  is reversed or spans more than 366 days; otherwise every item lies in the window it reports. Its
  status is ok exactly while the newest successful run is within the ceiling, and it is
  unavailable, and then not to be cached, exactly when no run ever succeeded and no row is
  servable, in which case it is empty.
\<close>

theorem list_status_honest:
  assumes "buildList dateOf cfg db now q plate = Inr l"
  shows "\<exists>fromMs toMs. resolveWindow dateOf cfg q now = Inr (fromMs, toMs)
    \<and> fromMs \<le> toMs \<and> toMs - fromMs \<le> 366 * MS_PER_DAY
    \<and> (\<forall>i \<in> set (listItems l). \<exists>ev \<in> snd ` set (eqEvents db). i = toEarthquakeEventDto ev
         \<and> rowInScope (storedRow ev) \<and> qMinMagnitude q \<le> rowMagnitude (storedRow ev)
         \<and> fromMs \<le> rowOccurredAtUtc (storedRow ev) \<and> rowOccurredAtUtc (storedRow ev) \<le> toMs)
    \<and> (metaDataStatus l = Status_ok \<longleftrightarrow>
         (\<exists>t. newestSuccessfulRunFinishedAt db = Some t \<and> now - t \<le> staleMaxSeconds cfg * 1000))
    \<and> (metaDataStatus l = Status_unavailable \<longleftrightarrow>
         newestSuccessfulRunFinishedAt db = None \<and> \<not> hasAnyServableRow db)
    \<and> (metaDataStatus l = Status_unavailable \<longrightarrow> listItems l = [] \<and> listTotal l = 0
         \<and> cacheControlFor (metaDataStatus l) LIST_CACHE_CONTROL = ''no-store'')"
proof -
  let ?fresh = "resolveEarthquakeFreshness (newestSuccessfulRunFinishedAt db) (hasAnyServableRow db)
                   now (staleMaxSeconds cfg)"
  obtain fromMs toMs f where win: "resolveWindow dateOf cfg q now = Inr (fromMs, toMs)"
    and f: "f = \<lparr>minMagnitude = qMinMagnitude q, fromUtc = fromMs, toUtc = toMs, plateCode = plate,
              pageNumber = qPage q, pageSize = qPageSize q\<rparr>"
    and l: "listItems l = map toEarthquakeEventDto (fst (findPage db f))" "listTotal l = snd (findPage db f)"
      "metaDataStatus l = dataStatus ?fresh"
    by (rule buildList_Inr [OF assms])
  have rows: "ev \<in> snd ` set (eqEvents db) \<and> matchesFilter f ev" if "ev \<in> set (fst (findPage db f))" for ev
    using that by (auto simp: findPage_def orderedMatches_def dest!: in_set_takeD in_set_dropD)
  have window: "fromMs \<le> toMs \<and> toMs - fromMs \<le> 366 * MS_PER_DAY"
    using win by (auto simp: resolveWindow_def Let_def EARTHQUAKE_MAX_WINDOW_DAYS_def
        split: option.splits if_splits)
  have age: "(of_int (now - t) :: rat) / 1000 \<le> of_int c \<longleftrightarrow> now - t \<le> c * 1000" for t c
  proof -
    have "(of_int (now - t) :: rat) / 1000 \<le> of_int c \<longleftrightarrow> (of_int (now - t) :: rat) \<le> of_int (c * 1000)"
      by (simp add: field_simps)
    then show ?thesis by (simp only: of_int_le_iff)
  qed
  have status: "dataStatus ?fresh = Status_ok \<longleftrightarrow>
       (\<exists>t. newestSuccessfulRunFinishedAt db = Some t \<and> now - t \<le> staleMaxSeconds cfg * 1000)"
    "dataStatus ?fresh = Status_unavailable \<longleftrightarrow>
       newestSuccessfulRunFinishedAt db = None \<and> \<not> hasAnyServableRow db"
    unfolding resolveEarthquakeFreshness_def Let_def age by (auto split: option.splits)
  have items: "\<forall>i \<in> set (listItems l). \<exists>ev \<in> snd ` set (eqEvents db). i = toEarthquakeEventDto ev
         \<and> rowInScope (storedRow ev) \<and> qMinMagnitude q \<le> rowMagnitude (storedRow ev)
         \<and> fromMs \<le> rowOccurredAtUtc (storedRow ev) \<and> rowOccurredAtUtc (storedRow ev) \<le> toMs"
    unfolding l(1) using rows by (force simp: matchesFilter_def f)
  have cold: "metaDataStatus l = Status_unavailable \<longrightarrow> listItems l = [] \<and> listTotal l = 0
         \<and> cacheControlFor (metaDataStatus l) LIST_CACHE_CONTROL = ''no-store''"
    using status(2) findPage_none [of db f] unfolding l
    by (auto simp: cacheControlFor_def COLD_CACHE_CONTROL_def)
  show ?thesis using win window items cold status unfolding l(3) by blast
qed

section \<open>Concrete lists\<close>

definition readConfig :: earthquakeUpstreamConfig where
  "readConfig = \<lparr>ingestEnabled = True, cfgBaseUrl = [], cfgSingleCallTimeoutMs = 15000,
     cfgResponseMaxBytes = 8, recentWindowHours = 6, reconcileWindowDays = 7, clockSkewSeconds = 60,
     tourBudgetMs = 60000, safetyLimit = 10, scopeBufferKm = 200, runRetentionDays = 30, staleMaxSeconds = 900\<rparr>"

definition emptyDb :: earthquakeDb where
  "emptyDb = \<lparr>eqEvents = [], eqRuns = [], eqNextRunId = 0, eqProvinces = []\<rparr>"

definition firstPage :: earthquakeListQuery where
  "firstPage = \<lparr>qMinMagnitude = 2, qFromUtc = None, qToUtc = None, qPage = 1, qPageSize = 50\<rparr>"

theorem list_status_honest_witness:
  "\<exists>l. buildList (\<lambda>_. None) readConfig emptyDb 1000 firstPage None = Inr l
     \<and> metaDataStatus l = Status_unavailable
     \<and> cacheControlFor (metaDataStatus l) LIST_CACHE_CONTROL = ''no-store''"
proof -
  obtain l where l: "buildList (\<lambda>_. None) readConfig emptyDb 1000 firstPage None = Inr l"
    by (simp add: buildList_def resolveWindow_def readConfig_def firstPage_def MS_PER_DAY_def
        EARTHQUAKE_DEFAULT_WINDOW_DAYS_def EARTHQUAKE_MAX_WINDOW_DAYS_def findPage_def Let_def)
  have "newestSuccessfulRunFinishedAt emptyDb = None" "\<not> hasAnyServableRow emptyDb"
    by (simp_all add: newestSuccessfulRunFinishedAt_def sqlMax_def emptyDb_def hasAnyServableRow_def)
  with list_status_honest [OF l] l show ?thesis by blast
qed

definition servableEvent :: "int \<Rightarrow> ms \<Rightarrow> storedEvent" where
  "servableEvent ident t =
     \<lparr>storedRow = \<lparr>rowProviderEventId = [ident], rowOccurredAtUtc = t, rowLatitude = 38, rowLongitude = 39,
        rowDepthKm = 7, rowMagnitude = 4, rowMagnitudeType = Ml, rowMagnitudeTypeRaw = [77, 76],
        rowProviderCountry = None, rowProviderProvince = None, rowProviderDistrict = None,
        rowProviderLocationRaw = [65], rowPlaceNameTr = [65], rowBindingKind = Offshore_near,
        rowBindingPlateCode = None, rowBindingDistanceKm = None, rowInScope = True,
        rowIsRevised = False, rowProviderUpdatedAtUtc = None\<rparr>,
      revisionCount = 0, firstSeenAtUtc = t, updatedAt = t\<rparr>"

definition twoEvents :: earthquakeDb where
  "twoEvents = emptyDb\<lparr>eqEvents := [([55], servableEvent 55 4), ([56], servableEvent 56 4)]\<rparr>"

theorem pages_partition_list_witness:
  "length (concat (map (\<lambda>p. fst (findPage twoEvents (\<lparr>minMagnitude = 2, fromUtc = 0, toUtc = 9,
     plateCode = None, pageNumber = p, pageSize = 1\<rparr>))) [1 ..< 3])) = 2"
proof -
  let ?f = "\<lparr>minMagnitude = 2, fromUtc = 0, toUtc = 9, plateCode = None, pageNumber = 1, pageSize = 1\<rparr>"
  have "table_ok twoEvents"
    by (auto simp: table_ok_def twoEvents_def servableEvent_def js_wf_def js_get_def split: if_splits)
  from pages_partition_list [OF this, of ?f 2, THEN conjunct1]
  have "concat (map (\<lambda>p. fst (findPage twoEvents (?f\<lparr>pageNumber := p\<rparr>))) [1 ..< 3])
      = take 2 (orderedMatches twoEvents ?f)" by (simp add: eval_nat_numeral)
  moreover have "length (orderedMatches twoEvents ?f) = 2"
    by (simp add: length_orderedMatches findPage_def twoEvents_def servableEvent_def matchesFilter_def)
  ultimately show ?thesis by simp
qed

end
