(* ===== verification/Netcdf3.thy ===== *)
theory Netcdf3
  imports Js_Text
begin

text \<open>
  \<open>src/air-quality/cams/netcdf3.ts\<close> and the file half of \<open>netcdf3-fixture.builder.ts\<close>: the
  classic NetCDF reader and the builder of its test files. A reader takes the file and an offset
  and returns what it read with the next offset, or the contract error. Text is decoded and
  encoded by the platform's UTF-8 codec, an argument; a fixture number is given by the bit pattern
  of its 32-bit float.
\<close>

section \<open>Numbers of a file\<close>

datatype jsNumber = Finite rat | NaN | Infinite bool

definition signedOf :: "nat \<Rightarrow> nat \<Rightarrow> int" where
  "signedOf n v = (if 2 * v < 256 ^ n then int v else int v - 256 ^ n)"

text \<open>An IEEE number of \<open>e\<close> exponent and \<open>m\<close> mantissa bits; \<open>True\<close> is the negative sign.\<close>

definition ieeeValue :: "nat \<Rightarrow> nat \<Rightarrow> nat \<Rightarrow> jsNumber" where
  "ieeeValue e m bits =
     (let negative = (bits div 2 ^ (e + m) mod 2 = 1);
          ex = bits div 2 ^ m mod 2 ^ e;
          man = bits mod 2 ^ m;
          bias = 2 ^ (e - 1) - 1;
          sig = (if ex = 0 then man else 2 ^ m + man);
          shift = int (max 1 ex) - int bias - int m;
          magnitude = (of_nat sig :: rat) * (if shift \<ge> 0 then 2 ^ nat shift else 1 / 2 ^ nat (- shift))
      in if ex = 2 ^ e - 1 then (if man = 0 then Infinite negative else NaN)
         else Finite (if negative then - magnitude else magnitude))"

definition float32Value :: "nat \<Rightarrow> jsNumber" where
  "float32Value bits = ieeeValue 8 23 bits"

section \<open>Data\<close>

definition NC_BYTE :: int where "NC_BYTE = 1"
definition NC_CHAR :: int where "NC_CHAR = 2"
definition NC_SHORT :: int where "NC_SHORT = 3"
definition NC_INT :: int where "NC_INT = 4"
definition NC_FLOAT :: int where "NC_FLOAT = 5"
definition NC_DOUBLE :: int where "NC_DOUBLE = 6"

definition TAG_DIMENSION :: int where "TAG_DIMENSION = 10"
definition TAG_VARIABLE :: int where "TAG_VARIABLE = 11"
definition TAG_ATTRIBUTE :: int where "TAG_ATTRIBUTE = 12"
definition TAG_ABSENT :: int where "TAG_ABSENT = 0"

lemmas nc_consts = NC_BYTE_def NC_CHAR_def NC_SHORT_def NC_INT_def NC_FLOAT_def NC_DOUBLE_def
  TAG_DIMENSION_def TAG_VARIABLE_def TAG_ATTRIBUTE_def TAG_ABSENT_def

definition elementBytes :: "int \<Rightarrow> nat option" where
  "elementBytes ncType =
     (if ncType = NC_BYTE \<or> ncType = NC_CHAR then Some 1
      else if ncType = NC_SHORT then Some 2
      else if ncType = NC_INT \<or> ncType = NC_FLOAT then Some 4
      else if ncType = NC_DOUBLE then Some 8 else None)"

record netcdf3Dimension =
  dimName :: jsText
  dimLength :: nat
  dimIsRecord :: bool

datatype attributeValue = Att_text jsText | Att_numbers "jsNumber list"

record netcdf3Attribute =
  attName :: jsText
  attNcType :: int
  attValue :: attributeValue

record netcdf3Variable =
  varName :: jsText
  dimensionIds :: "nat list"
  attributes :: "netcdf3Attribute list"
  ncType :: int
  varBegin :: nat
  isRecord :: bool
  elementsPerUnit :: nat

record netcdf3File =
  fileBytes :: "byte list"
  dimensions :: "netcdf3Dimension list"
  globalAttributes :: "netcdf3Attribute list"
  variables :: "netcdf3Variable list"
  recordCount :: nat
  recordSize :: nat

datatype camsContractError =
    Truncated_header
  | Not_netcdf
  | Unsupported_version
  | Streaming_record_count
  | Implausible string
  | Wrong_list_tag int
  | Negative string
  | Unknown_nc_type int
  | Several_record_dimensions
  | Unknown_dimension
  | Record_dimension_position
  | Missing_variable jsText
  | Is_record_variable
  | Not_record_variable
  | Record_out_of_range
  | Not_numeric
  | Data_outside_file
  | Zip string
  | Axis string
  | Decode string
  | Range_error
  | Unexpected_failure

section \<open>The header reader\<close>

type_synonym 'a reader = "byte list \<Rightarrow> nat \<Rightarrow> camsContractError + 'a \<times> nat"

definition rret :: "'a \<Rightarrow> 'a reader" where
  "rret x bs off = Inr (x, off)"

definition rbind :: "'a reader \<Rightarrow> ('a \<Rightarrow> 'b reader) \<Rightarrow> 'b reader" where
  "rbind m f bs off = andThen (m bs off) (\<lambda>(x, off'). f x bs off')"

definition rcheck :: "bool \<Rightarrow> camsContractError \<Rightarrow> unit reader" where
  "rcheck ok e bs off = (if ok then Inr ((), off) else Inl e)"

fun rtimes :: "nat \<Rightarrow> 'a reader \<Rightarrow> 'a list reader" where
  "rtimes 0 r = rret []"
| "rtimes (Suc n) r = rbind r (\<lambda>x. rbind (rtimes n r) (\<lambda>xs. rret (x # xs)))"

definition readBytes :: "nat \<Rightarrow> byte list reader" where
  "readBytes count bs off =
     (if off + count > length bs then Inl Truncated_header
      else Inr (take count (drop off bs), off + count))"

definition readInt32 :: "int reader" where
  "readInt32 = rbind (readBytes 4) (\<lambda>b. rret (signedOf 4 (be_nat b)))"

definition skipPadding :: "nat \<Rightarrow> unit reader" where
  "skipPadding consumed =
     (if consumed mod 4 = 0 then rret ()
      else rbind (readBytes (4 - consumed mod 4)) (\<lambda>_. rret ()))"

definition readName :: "(byte list \<Rightarrow> jsText) \<Rightarrow> jsText reader" where
  "readName utf8 =
     rbind readInt32 (\<lambda>n.
     rbind (rcheck (0 \<le> n \<and> n \<le> 1024) (Implausible ''name length'')) (\<lambda>_.
     rbind (readBytes (nat n)) (\<lambda>bytes.
     rbind (skipPadding (nat n)) (\<lambda>_.
     rret (utf8 bytes)))))"

definition readList :: "int \<Rightarrow> nat reader" where
  "readList expectedTag =
     rbind readInt32 (\<lambda>tag. rbind readInt32 (\<lambda>count.
     if tag = TAG_ABSENT \<and> count = 0 then rret 0
     else rbind (rcheck (tag = expectedTag) (Wrong_list_tag expectedTag)) (\<lambda>_.
          rbind (rcheck (0 \<le> count \<and> count \<le> 10000) (Implausible ''count'')) (\<lambda>_.
          rret (nat count)))))"

definition readDimension :: "(byte list \<Rightarrow> jsText) \<Rightarrow> netcdf3Dimension reader" where
  "readDimension utf8 =
     rbind (readName utf8) (\<lambda>nm. rbind readInt32 (\<lambda>n.
     rbind (rcheck (0 \<le> n) (Negative ''dimension length'')) (\<lambda>_.
     rret \<lparr>dimName = nm, dimLength = nat n, dimIsRecord = (n = 0)\<rparr>)))"

definition readDimensionList :: "(byte list \<Rightarrow> jsText) \<Rightarrow> netcdf3Dimension list reader" where
  "readDimensionList utf8 =
     rbind (readList TAG_DIMENSION) (\<lambda>count.
     rbind (rtimes count (readDimension utf8)) (\<lambda>ds.
     rbind (rcheck (length (filter dimIsRecord ds) \<le> 1) Several_record_dimensions) (\<lambda>_.
     rret ds)))"

definition readScalar :: "int \<Rightarrow> byte list \<Rightarrow> jsNumber" where
  "readScalar t b =
     (if t = NC_BYTE then Finite (of_int (signedOf 1 (be_nat b)))
      else if t = NC_SHORT then Finite (of_int (signedOf 2 (be_nat b)))
      else if t = NC_INT then Finite (of_int (signedOf 4 (be_nat b)))
      else if t = NC_FLOAT then ieeeValue 8 23 (be_nat b)
      else ieeeValue 11 52 (be_nat b))"

text \<open>\<open>count\<close> scalars of \<open>size\<close> bytes from the front of a byte array.\<close>

definition readScalars :: "int \<Rightarrow> nat \<Rightarrow> nat \<Rightarrow> byte list \<Rightarrow> jsNumber list" where
  "readScalars t sz count b = map (\<lambda>i. readScalar t (take sz (drop (i * sz) b))) [0 ..< count]"

definition readAttribute :: "(byte list \<Rightarrow> jsText) \<Rightarrow> netcdf3Attribute reader" where
  "readAttribute utf8 =
     rbind (readName utf8) (\<lambda>nm. rbind readInt32 (\<lambda>t. rbind readInt32 (\<lambda>n.
     rbind (rcheck (0 \<le> n \<and> n \<le> 1000000) (Implausible ''attribute length'')) (\<lambda>_.
     case elementBytes t of
       None \<Rightarrow> (\<lambda>bs off. Inl (Unknown_nc_type t))
     | Some sz \<Rightarrow>
       rbind (readBytes (nat n * sz)) (\<lambda>payload.
       rbind (skipPadding (nat n * sz)) (\<lambda>_.
       rret \<lparr>attName = nm, attNcType = t,
             attValue = (if t = NC_CHAR then Att_text (utf8 payload)
                         else Att_numbers (readScalars t sz (nat n) payload))\<rparr>))))))"

definition readAttributeList :: "(byte list \<Rightarrow> jsText) \<Rightarrow> netcdf3Attribute list reader" where
  "readAttributeList utf8 = rbind (readList TAG_ATTRIBUTE) (\<lambda>count. rtimes count (readAttribute utf8))"

definition readDimensionId :: "nat \<Rightarrow> nat reader" where
  "readDimensionId n =
     rbind readInt32 (\<lambda>ident. rbind (rcheck (0 \<le> ident \<and> ident < int n) Unknown_dimension) (\<lambda>_.
     rret (nat ident)))"

text \<open>The record dimension may only come first; the others multiply to the elements of a unit.\<close>

definition recordPositionOk :: "netcdf3Dimension list \<Rightarrow> nat list \<Rightarrow> bool" where
  "recordPositionOk ds ids \<longleftrightarrow> list_all (\<lambda>i. \<not> dimIsRecord (ds ! i)) (tl ids)"

definition unitElements :: "netcdf3Dimension list \<Rightarrow> nat list \<Rightarrow> nat" where
  "unitElements ds ids =
     prod_list (map (\<lambda>i. dimLength (ds ! i)) (filter (\<lambda>i. \<not> dimIsRecord (ds ! i)) ids))"

definition firstIsRecord :: "netcdf3Dimension list \<Rightarrow> nat list \<Rightarrow> bool" where
  "firstIsRecord ds ids = (case ids of [] \<Rightarrow> False | i # _ \<Rightarrow> dimIsRecord (ds ! i))"

definition readVariable :: "(byte list \<Rightarrow> jsText) \<Rightarrow> netcdf3Dimension list \<Rightarrow> netcdf3Variable reader" where
  "readVariable utf8 ds =
     rbind (readName utf8) (\<lambda>nm. rbind readInt32 (\<lambda>rank.
     rbind (rcheck (0 \<le> rank \<and> rank \<le> 8) (Implausible ''rank'')) (\<lambda>_.
     rbind (rtimes (nat rank) (readDimensionId (length ds))) (\<lambda>ids.
     rbind (readAttributeList utf8) (\<lambda>atts.
     rbind readInt32 (\<lambda>t.
     rbind (rcheck (elementBytes t \<noteq> None) (Unknown_nc_type t)) (\<lambda>_.
     rbind readInt32 (\<lambda>vsize.
     rbind readInt32 (\<lambda>start.
     rbind (rcheck (0 \<le> start) (Negative ''data offset'')) (\<lambda>_.
     rbind (rcheck (recordPositionOk ds ids) Record_dimension_position) (\<lambda>_.
     rret \<lparr>varName = nm, dimensionIds = ids, attributes = atts, ncType = t, varBegin = nat start,
           isRecord = firstIsRecord ds ids, elementsPerUnit = unitElements ds ids\<rparr>)))))))))))"

definition readVariableList ::
  "(byte list \<Rightarrow> jsText) \<Rightarrow> netcdf3Dimension list \<Rightarrow> netcdf3Variable list reader" where
  "readVariableList utf8 ds = rbind (readList TAG_VARIABLE) (\<lambda>count. rtimes count (readVariable utf8 ds))"

definition padTo4 :: "nat \<Rightarrow> nat" where
  "padTo4 n = (if n mod 4 = 0 then n else n + (4 - n mod 4))"

text \<open>The bytes of one unit; the type codes of the variables were validated when they were read.\<close>

definition unitBytes :: "netcdf3Variable \<Rightarrow> nat" where
  "unitBytes v = elementsPerUnit v * (case elementBytes (ncType v) of None \<Rightarrow> 0 | Some sz \<Rightarrow> sz)"

definition recordSizeOf :: "netcdf3Variable list \<Rightarrow> nat" where
  "recordSizeOf vs =
     (case filter isRecord vs of
        [only] \<Rightarrow> unitBytes only
      | rs \<Rightarrow> sum_list (map (\<lambda>v. padTo4 (unitBytes v)) rs))"

definition readHeader ::
  "(byte list \<Rightarrow> jsText)
   \<Rightarrow> (nat \<times> netcdf3Dimension list \<times> netcdf3Attribute list \<times> netcdf3Variable list) reader" where
  "readHeader utf8 =
     rbind (readBytes 4) (\<lambda>magic.
     rbind (rcheck (take 3 magic = [0x43, 0x44, 0x46]) Not_netcdf) (\<lambda>_.
     rbind (rcheck (drop 3 magic = [1]) Unsupported_version) (\<lambda>_.
     rbind readInt32 (\<lambda>numrecs.
     rbind (rcheck (0 \<le> numrecs) Streaming_record_count) (\<lambda>_.
     rbind (rcheck (numrecs \<le> 1000000) (Implausible ''record count'')) (\<lambda>_.
     rbind (readDimensionList utf8) (\<lambda>ds0.
     let ds = map (\<lambda>d. if dimIsRecord d then d\<lparr>dimLength := nat numrecs\<rparr> else d) ds0 in
     rbind (readAttributeList utf8) (\<lambda>gatts.
     rbind (readVariableList utf8 ds) (\<lambda>vs.
     rret (nat numrecs, ds, gatts, vs))))))))))"

definition parseNetcdf3 :: "(byte list \<Rightarrow> jsText) \<Rightarrow> byte list \<Rightarrow> camsContractError + netcdf3File" where
  "parseNetcdf3 utf8 bytes =
     andThen (readHeader utf8 bytes 0) (\<lambda>((n, ds, gatts, vs), off).
     Inr \<lparr>fileBytes = bytes, dimensions = ds, globalAttributes = gatts, variables = vs,
          recordCount = n, recordSize = recordSizeOf vs\<rparr>)"

section \<open>Reading values\<close>

text \<open>A \<open>Map\<close> by name: of two variables of one name the later is found.\<close>

definition fileVariable :: "netcdf3File \<Rightarrow> jsText \<Rightarrow> camsContractError + netcdf3Variable" where
  "fileVariable f nm = orThrow (find (\<lambda>v. varName v = nm) (rev (variables f))) (Missing_variable nm)"

definition hasVariable :: "netcdf3File \<Rightarrow> jsText \<Rightarrow> bool" where
  "hasVariable f nm = list_ex (\<lambda>v. varName v = nm) (variables f)"

definition fileAttribute ::
  "netcdf3File \<Rightarrow> jsText \<Rightarrow> jsText \<Rightarrow> camsContractError + netcdf3Attribute option" where
  "fileAttribute f vn an =
     andThen (fileVariable f vn) (\<lambda>v. Inr (find (\<lambda>a. attName a = an) (attributes v)))"

definition readValues ::
  "netcdf3File \<Rightarrow> netcdf3Variable \<Rightarrow> nat \<Rightarrow> nat \<Rightarrow> camsContractError + jsNumber list" where
  "readValues f v startByte count =
     (case elementBytes (ncType v) of
        None \<Rightarrow> Inl (Unknown_nc_type (ncType v))
      | Some sz \<Rightarrow>
          if ncType v = NC_CHAR then Inl Not_numeric
          else if startByte + count * sz > length (fileBytes f) then Inl Data_outside_file
          else Inr (readScalars (ncType v) sz count (drop startByte (fileBytes f))))"

definition readFixedNumeric :: "netcdf3File \<Rightarrow> jsText \<Rightarrow> camsContractError + jsNumber list" where
  "readFixedNumeric f nm =
     andThen (fileVariable f nm) (\<lambda>v.
     if isRecord v then Inl Is_record_variable
     else readValues f v (varBegin v) (elementsPerUnit v))"

definition readRecordBlock :: "netcdf3File \<Rightarrow> jsText \<Rightarrow> nat \<Rightarrow> camsContractError + jsNumber list" where
  "readRecordBlock f nm recordIndex =
     andThen (fileVariable f nm) (\<lambda>v.
     if \<not> isRecord v then Inl Not_record_variable
     else if recordIndex \<ge> recordCount f then Inl Record_out_of_range
     else readValues f v (varBegin v + recordIndex * recordSize f) (elementsPerUnit v))"

end
