(* ===== verification/Netcdf3_Fixture.thy ===== *)
theory Netcdf3_Fixture
  imports Netcdf3
begin

text \<open>
  The file half of \<open>src/air-quality/cams/netcdf3-fixture.builder.ts\<close>, and what reading a built
  file gives. A number is the bit pattern of the float it is stored as.
\<close>

section \<open>The builder\<close>

record fixtureDimension =
  fdName :: jsText
  fdLength :: "nat option"

datatype fixtureValue = Fa_text jsText | Fa_numbers "nat list"

record fixtureAttribute =
  faName :: jsText
  faValue :: fixtureValue

record fixtureVariable =
  fvName :: jsText
  fvDimensions :: "jsText list"
  fvAttributes :: "fixtureAttribute list"
  fvData :: "nat list"

record fixtureFileSpec =
  fsDimensions :: "fixtureDimension list"
  fsGlobalAttributes :: "fixtureAttribute list"
  fsVariables :: "fixtureVariable list"
  fsRecordCount :: nat

type_synonym byteSink = "byte list"

definition sinkInt32 :: "nat \<Rightarrow> byteSink \<Rightarrow> byteSink" where
  "sinkInt32 v s = s @ nat_be 4 v"

definition sinkBytes :: "byte list \<Rightarrow> byteSink \<Rightarrow> byteSink" where
  "sinkBytes b s = s @ b"

definition sinkPadTo4 :: "byteSink \<Rightarrow> byteSink" where
  "sinkPadTo4 s = s @ replicate (padTo4 (length s) - length s) 0"

definition sinkName :: "(jsText \<Rightarrow> byte list) \<Rightarrow> jsText \<Rightarrow> byteSink \<Rightarrow> byteSink" where
  "sinkName encode t s =
     (let encoded = encode t in sinkPadTo4 (sinkBytes encoded (sinkInt32 (length encoded) s)))"

definition sinkAttribute :: "(jsText \<Rightarrow> byte list) \<Rightarrow> fixtureAttribute \<Rightarrow> byteSink \<Rightarrow> byteSink" where
  "sinkAttribute encode a s =
     (let s1 = sinkName encode (faName a) s
      in case faValue a of
           Fa_text t \<Rightarrow>
             (let encoded = encode t
              in sinkPadTo4 (sinkBytes encoded (sinkInt32 (length encoded) (sinkInt32 (nat NC_CHAR) s1))))
         | Fa_numbers xs \<Rightarrow>
              sinkPadTo4 (fold sinkInt32 xs (sinkInt32 (length xs) (sinkInt32 (nat NC_FLOAT) s1))))"

definition sinkList :: "nat \<Rightarrow> ('a \<Rightarrow> byteSink \<Rightarrow> byteSink) \<Rightarrow> 'a list \<Rightarrow> byteSink \<Rightarrow> byteSink" where
  "sinkList tag put xs s =
     (if xs = [] then sinkInt32 0 (sinkInt32 0 s)
      else fold put xs (sinkInt32 (length xs) (sinkInt32 tag s)))"

definition sinkAttributes :: "(jsText \<Rightarrow> byte list) \<Rightarrow> fixtureAttribute list \<Rightarrow> byteSink \<Rightarrow> byteSink" where
  "sinkAttributes encode atts = sinkList (nat TAG_ATTRIBUTE) (sinkAttribute encode) atts"

definition dimensionIndex :: "fixtureFileSpec \<Rightarrow> jsText \<Rightarrow> nat option" where
  "dimensionIndex spec nm = map_of (rev (zip (map fdName (fsDimensions spec)) [0 ..< length (fsDimensions spec)])) nm"

definition dimensionOf :: "fixtureFileSpec \<Rightarrow> jsText \<Rightarrow> fixtureDimension option" where
  "dimensionOf spec nm = map_option (\<lambda>i. fsDimensions spec ! i) (dimensionIndex spec nm)"

definition isRecordVariable :: "fixtureFileSpec \<Rightarrow> fixtureVariable \<Rightarrow> bool" where
  "isRecordVariable spec v =
     (case fvDimensions v of
        [] \<Rightarrow> False
      | d # _ \<Rightarrow> (case dimensionOf spec d of None \<Rightarrow> False | Some dd \<Rightarrow> fdLength dd = None))"

definition fixtureElements :: "fixtureFileSpec \<Rightarrow> fixtureVariable \<Rightarrow> nat" where
  "fixtureElements spec v =
     fold (\<lambda>nm product. case dimensionOf spec nm of
             None \<Rightarrow> product | Some dd \<Rightarrow> (case fdLength dd of None \<Rightarrow> product | Some n \<Rightarrow> product * n))
       (fvDimensions v) 1"

definition sinkVariable ::
  "(jsText \<Rightarrow> byte list) \<Rightarrow> fixtureFileSpec \<Rightarrow> fixtureVariable \<times> nat \<Rightarrow> byteSink \<Rightarrow> byteSink" where
  "sinkVariable encode spec vb s =
     (case vb of (v, start) \<Rightarrow>
       sinkInt32 start (sinkInt32 (padTo4 (fixtureElements spec v * 4)) (sinkInt32 (nat NC_FLOAT)
         (sinkAttributes encode (fvAttributes v)
           (fold (\<lambda>nm. sinkInt32 (case dimensionIndex spec nm of None \<Rightarrow> 0 | Some i \<Rightarrow> i)) (fvDimensions v)
             (sinkInt32 (length (fvDimensions v)) (sinkName encode (fvName v) s)))))))"

definition sinkDimension :: "(jsText \<Rightarrow> byte list) \<Rightarrow> fixtureDimension \<Rightarrow> byteSink \<Rightarrow> byteSink" where
  "sinkDimension encode d s =
     sinkInt32 (case fdLength d of None \<Rightarrow> 0 | Some n \<Rightarrow> n) (sinkName encode (fdName d) s)"

definition emitHeader :: "(jsText \<Rightarrow> byte list) \<Rightarrow> fixtureFileSpec \<Rightarrow> nat list \<Rightarrow> byte list" where
  "emitHeader encode spec begins =
     sinkList (nat TAG_VARIABLE) (sinkVariable encode spec) (zip (fsVariables spec) begins)
       (sinkAttributes encode (fsGlobalAttributes spec)
         (sinkList (nat TAG_DIMENSION) (sinkDimension encode) (fsDimensions spec)
           (sinkInt32 (fsRecordCount spec) (sinkBytes [0x43, 0x44, 0x46, 0x01] []))))"

text \<open>Where the data of each variable starts: the fixed ones first, then the slots of a record.\<close>

fun fixedBegins :: "fixtureFileSpec \<Rightarrow> fixtureVariable list \<Rightarrow> nat \<Rightarrow> nat list \<times> nat" where
  "fixedBegins spec [] cursor = ([], cursor)"
| "fixedBegins spec (v # vs) cursor =
     (if isRecordVariable spec v
      then (let (bs, c) = fixedBegins spec vs cursor in (0 # bs, c))
      else (let (bs, c) = fixedBegins spec vs (cursor + padTo4 (fixtureElements spec v * 4))
            in (cursor # bs, c)))"

fun recordBegins ::
  "fixtureFileSpec \<Rightarrow> bool \<Rightarrow> nat \<Rightarrow> (fixtureVariable \<times> nat) list \<Rightarrow> nat \<Rightarrow> nat list \<times> nat" where
  "recordBegins spec single cursor [] slot = ([], slot)"
| "recordBegins spec single cursor ((v, b) # vbs) slot =
     (if isRecordVariable spec v
      then (let blockBytes = fixtureElements spec v * 4;
                (bs, size1) = recordBegins spec single cursor vbs
                  (slot + (if single then blockBytes else padTo4 blockBytes))
            in ((cursor + slot) # bs, size1))
      else (let (bs, size1) = recordBegins spec single cursor vbs slot in (b # bs, size1)))"

definition writeBlock :: "nat \<Rightarrow> nat list \<Rightarrow> byte list \<Rightarrow> byte list" where
  "writeBlock start vals file =
     (let b = concat (map (nat_be 4) vals)
      in take start file @ b @ drop (start + length b) file)"

definition blocksOf :: "fixtureFileSpec \<Rightarrow> nat \<Rightarrow> fixtureVariable \<times> nat \<Rightarrow> (nat \<times> nat list) list" where
  "blocksOf spec recSize vb =
     (case vb of (v, start) \<Rightarrow>
       (let perUnit = fixtureElements spec v
        in if \<not> isRecordVariable spec v then [(start, fvData v)]
           else map (\<lambda>r. (start + r * recSize, take perUnit (drop (r * perUnit) (fvData v))))
                  [0 ..< fsRecordCount spec]))"

datatype fixtureError = Unknown_fixture_dimension | Wrong_value_count

definition layoutOf :: "(jsText \<Rightarrow> byte list) \<Rightarrow> fixtureFileSpec \<Rightarrow> nat list \<times> nat \<times> nat" where
  "layoutOf encode spec =
     (let headerSize = length (emitHeader encode spec (map (\<lambda>_. 0) (fsVariables spec)));
          (fixedBs, cursor) = fixedBegins spec (fsVariables spec) headerSize;
          single = (length (filter (isRecordVariable spec) (fsVariables spec)) = 1);
          (begins, recSize) = recordBegins spec single cursor (zip (fsVariables spec) fixedBs) 0
      in (begins, recSize, cursor + recSize * fsRecordCount spec))"

definition buildNetcdf3 ::
  "(jsText \<Rightarrow> byte list) \<Rightarrow> fixtureFileSpec \<Rightarrow> fixtureError + byte list" where
  "buildNetcdf3 encode spec =
     (if \<not> list_all (\<lambda>v. list_all (\<lambda>nm. dimensionIndex spec nm \<noteq> None) (fvDimensions v)) (fsVariables spec)
      then Inl Unknown_fixture_dimension
      else
       (let (begins, recSize, totalSize) = layoutOf encode spec;
            header = emitHeader encode spec begins;
            blank = header @ replicate (totalSize - length header) 0
        in if \<not> list_all (\<lambda>v. length (fvData v) = fixtureElements spec v
                    * (if isRecordVariable spec v then fsRecordCount spec else 1)) (fsVariables spec)
           then Inl Wrong_value_count
           else Inr (fold (\<lambda>(start, vals). writeBlock start vals)
                  (concat (map (blocksOf spec recSize) (zip (fsVariables spec) begins))) blank)))"

section \<open>Emitted bytes are read back\<close>

text \<open>
  A reader reads a value off some bytes wherever they stand, and stops right behind them.
\<close>

definition reads :: "'a reader \<Rightarrow> byte list \<Rightarrow> 'a \<Rightarrow> bool" where
  "reads r b v \<longleftrightarrow> (\<forall>pre post. r (pre @ b @ post) (length pre) = Inr (v, length pre + length b))"

lemma readsD: "reads r b v \<Longrightarrow> r (pre @ b @ post) (length pre) = Inr (v, length pre + length b)"
  by (simp add: reads_def)

lemma reads_ret [intro]: "v = x \<Longrightarrow> reads (rret x) [] v"
  by (simp add: reads_def rret_def)

lemma reads_bind:
  assumes "reads r b x" "reads (f x) b' v"
  shows "reads (rbind r f) (b @ b') v"
  unfolding reads_def
proof (intro allI)
  fix pre post
  have "r (pre @ b @ b' @ post) (length pre) = Inr (x, length pre + length b)"
    by (rule readsD [OF assms(1)])
  moreover have "f x ((pre @ b) @ b' @ post) (length (pre @ b)) = Inr (v, length (pre @ b) + length b')"
    by (rule readsD [OF assms(2)])
  ultimately show "rbind r f (pre @ (b @ b') @ post) (length pre)
      = Inr (v, length pre + length (b @ b'))"
    by (simp add: rbind_def)
qed

lemma reads_check: "ok \<Longrightarrow> reads (f ()) b v \<Longrightarrow> reads (rbind (rcheck ok e) f) b v"
  by (simp add: reads_def rbind_def rcheck_def)

lemma reads_bytes: "n = length b \<Longrightarrow> reads (readBytes n) b b"
  by (simp add: reads_def readBytes_def)

lemma reads_times:
  "(\<And>x. x \<in> set xs \<Longrightarrow> reads r (f x) (g x)) \<Longrightarrow> reads (rtimes (length xs) r) (concat (map f xs)) (map g xs)"
proof (induction xs)
  case Nil
  then show ?case by auto
next
  case (Cons x xs)
  then have "reads (rtimes (length xs) r) (concat (map f xs)) (map g xs)" by simp
  then have "reads (rbind (rtimes (length xs) r) (\<lambda>ys. rret (g x # ys))) (concat (map f xs) @ []) (map g (x # xs))"
    by (rule reads_bind) auto
  with Cons.prems [of x] have "reads (rbind r (\<lambda>x. rbind (rtimes (length xs) r) (\<lambda>xs. rret (x # xs))))
      (f x @ concat (map f xs)) (map g (x # xs))"
    by (intro reads_bind) simp_all
  then show ?case by simp
qed

lemma reads_int32:
  assumes "v < 2147483648"
  shows "reads readInt32 (nat_be 4 v) (int v)"
proof -
  have "signedOf 4 (be_nat (nat_be 4 v)) = int v"
    using assms by (simp add: be_nat_nat_be signedOf_def)
  then have "reads (rbind (readBytes 4) (\<lambda>b. rret (signedOf 4 (be_nat b)))) (nat_be 4 v @ []) (int v)"
    by (intro reads_bind [OF reads_bytes]) auto
  then show ?thesis by (simp add: readInt32_def)
qed

text \<open>The padding behind a field of \<open>n\<close> bytes.\<close>

definition padding :: "nat \<Rightarrow> byte list" where
  "padding n = replicate (padTo4 n - n) 0"

lemma padTo4_mod [simp]: "padTo4 n mod 4 = 0"
  unfolding padTo4_def by (cases "n mod 4 = 0") (simp, presburger)

lemma padTo4_ge: "n \<le> padTo4 n"
  unfolding padTo4_def by (simp only: if_split le_add1 order_refl simp_thms)

lemma padTo4_add: "m mod 4 = 0 \<Longrightarrow> padTo4 (m + n) = m + padTo4 n"
proof -
  assume "m mod 4 = 0"
  then have "(m + n) mod 4 = n mod 4" by (metis add_0 mod_add_left_eq)
  then show ?thesis unfolding padTo4_def by (simp only: add.assoc if_distrib [of "(+) m"])
qed

lemma length_padding: "length (padding n) = padTo4 n - n"
  by (simp add: padding_def)

lemma reads_padding: "reads (skipPadding n) (padding n) ()"
proof (cases "n mod 4 = 0")
  case True
  then show ?thesis by (simp add: skipPadding_def padding_def padTo4_def reads_ret)
next
  case False
  then have "reads (rbind (readBytes (4 - n mod 4)) (\<lambda>_. rret ())) (padding n @ []) ()"
    by (intro reads_bind [OF reads_bytes]) (auto simp: padding_def padTo4_def)
  with False show ?thesis by (simp add: skipPadding_def)
qed

definition nameBytes :: "(jsText \<Rightarrow> byte list) \<Rightarrow> jsText \<Rightarrow> byte list" where
  "nameBytes encode t = nat_be 4 (length (encode t)) @ encode t @ padding (length (encode t))"

lemma sinkName_aligned:
  "length s mod 4 = 0 \<Longrightarrow> sinkName encode t s = s @ nameBytes encode t"
  using padTo4_add [of "length s + 4" "length (encode t)"]
  by (simp add: add.assoc [symmetric] sinkName_def nameBytes_def sinkPadTo4_def sinkBytes_def sinkInt32_def padding_def Let_def)

lemma nameBytes_aligned [simp]: "length (nameBytes encode t) mod 4 = 0"
  using padTo4_mod [of "length (encode t)"] padTo4_ge [of "length (encode t)"]
  by (simp add: nameBytes_def length_padding)

lemma reads_name:
  assumes "length (encode t) \<le> 1024" "utf8 (encode t) = t"
  shows "reads (readName utf8) (nameBytes encode t) t"
proof -
  let ?n = "length (encode t)"
  have "reads (rbind (skipPadding ?n) (\<lambda>_. rret (utf8 (encode t)))) (padding ?n @ []) t"
    by (rule reads_bind [OF reads_padding]) (use assms in auto)
  then have "reads (rbind (readBytes ?n) (\<lambda>b. rbind (skipPadding ?n) (\<lambda>_. rret (utf8 b))))
      (encode t @ padding ?n) t"
    by (intro reads_bind [OF reads_bytes]) simp_all
  then have "reads (rbind (rcheck (0 \<le> int ?n \<and> int ?n \<le> 1024) (Implausible ''name length''))
      (\<lambda>_. rbind (readBytes (nat (int ?n))) (\<lambda>b. rbind (skipPadding (nat (int ?n))) (\<lambda>_. rret (utf8 b)))))
      (encode t @ padding ?n) t"
    by (intro reads_check) (use assms in simp_all)
  then show ?thesis
    unfolding readName_def nameBytes_def by (rule reads_bind [OF reads_int32, rotated]) (use assms in simp)
qed

lemma reads_list_head:
  assumes "xs \<noteq> []" "length xs \<le> 10000" "tag < 2147483648"
  shows "reads (readList (int tag)) (nat_be 4 tag @ nat_be 4 (length xs)) (length xs)"
  unfolding readList_def
proof (rule reads_bind [OF reads_int32])
  have "reads (rret (nat (int (length xs)))) [] (length xs)" by auto
  then have "reads (if int tag = TAG_ABSENT \<and> int (length xs) = 0 then rret 0
     else rbind (rcheck (int tag = int tag) (Wrong_list_tag (int tag))) (\<lambda>_.
          rbind (rcheck (0 \<le> int (length xs) \<and> int (length xs) \<le> 10000) (Implausible ''count'')) (\<lambda>_.
          rret (nat (int (length xs)))))) [] (length xs)"
    using assms by (auto intro!: reads_check)
  then have "reads (rbind readInt32 (\<lambda>count. if int tag = TAG_ABSENT \<and> count = 0 then rret 0
     else rbind (rcheck (int tag = int tag) (Wrong_list_tag (int tag))) (\<lambda>_.
          rbind (rcheck (0 \<le> count \<and> count \<le> 10000) (Implausible ''count'')) (\<lambda>_.
          rret (nat count))))) (nat_be 4 (length xs) @ []) (length xs)"
    by (intro reads_bind [OF reads_int32]) (use assms in simp_all)
  then show "reads (rbind readInt32 (\<lambda>count. if int tag = TAG_ABSENT \<and> count = 0 then rret 0
     else rbind (rcheck (int tag = int tag) (Wrong_list_tag (int tag))) (\<lambda>_.
          rbind (rcheck (0 \<le> count \<and> count \<le> 10000) (Implausible ''count'')) (\<lambda>_.
          rret (nat count))))) (nat_be 4 (length xs)) (length xs)" by simp
qed (use assms in simp)

lemma reads_absent: "reads (readList tag) (nat_be 4 0 @ nat_be 4 0) 0"
proof -
  have "reads (rbind readInt32 (\<lambda>count. if int 0 = TAG_ABSENT \<and> count = 0 then rret 0
     else rbind (rcheck (int 0 = tag) (Wrong_list_tag tag)) (\<lambda>_.
          rbind (rcheck (0 \<le> count \<and> count \<le> 10000) (Implausible ''count'')) (\<lambda>_.
          rret (nat count))))) (nat_be 4 0 @ []) 0"
    by (rule reads_bind [OF reads_int32]) (auto simp: TAG_ABSENT_def)
  then have "reads (rbind readInt32 (\<lambda>t. rbind readInt32 (\<lambda>count.
     if t = TAG_ABSENT \<and> count = 0 then rret 0
     else rbind (rcheck (t = tag) (Wrong_list_tag tag)) (\<lambda>_.
          rbind (rcheck (0 \<le> count \<and> count \<le> 10000) (Implausible ''count'')) (\<lambda>_.
          rret (nat count)))))) (nat_be 4 0 @ nat_be 4 0) 0"
    by (intro reads_bind [OF reads_int32]) simp_all
  then show ?thesis by (simp only: readList_def)
qed

section \<open>What each part of the builder appends\<close>

definition appends :: "(byteSink \<Rightarrow> byteSink) \<Rightarrow> byte list \<Rightarrow> bool" where
  "appends put part \<longleftrightarrow> (\<forall>s. length s mod 4 = 0 \<longrightarrow> put s = s @ part) \<and> length part mod 4 = 0"

lemma appendsD: "appends put part \<Longrightarrow> length s mod 4 = 0 \<Longrightarrow> put s = s @ part"
  by (simp add: appends_def)

lemma aligned_add: "length (a :: byte list) mod 4 = 0 \<Longrightarrow> length b mod 4 = 0 \<Longrightarrow> length (a @ b) mod 4 = 0"
  by (simp add: mod_add_eq [symmetric])

lemma appends_comp: "appends f a \<Longrightarrow> appends g b \<Longrightarrow> appends (\<lambda>s. g (f s)) (a @ b)"
  unfolding appends_def using aligned_add by (metis append.assoc)

lemma appends_fold:
  "(\<And>x. x \<in> set xs \<Longrightarrow> appends (put x) (part x)) \<Longrightarrow> appends (fold put xs) (concat (map part xs))"
proof (induction xs)
  case Nil
  then show ?case by (simp add: appends_def)
next
  case (Cons x xs)
  then have "appends (\<lambda>s. fold put xs (put x s)) (part x @ concat (map part xs))"
    by (intro appends_comp) simp_all
  then show ?case by (simp add: comp_def)
qed

lemma appends_int32: "appends (sinkInt32 v) (nat_be 4 v)"
  by (simp add: appends_def sinkInt32_def)

lemma appends_name: "appends (sinkName encode t) (nameBytes encode t)"
  by (simp add: appends_def sinkName_aligned)

definition listBytes :: "nat \<Rightarrow> ('a \<Rightarrow> byte list) \<Rightarrow> 'a list \<Rightarrow> byte list" where
  "listBytes tag part xs =
     (if xs = [] then nat_be 4 0 @ nat_be 4 0
      else (nat_be 4 tag @ nat_be 4 (length xs)) @ concat (map part xs))"

lemma appends_list:
  assumes "\<And>x. x \<in> set xs \<Longrightarrow> appends (put x) (part x)"
  shows "appends (sinkList tag put xs) (listBytes tag part xs)"
proof (cases "xs = []")
  case True
  have "appends (\<lambda>s. sinkInt32 0 (sinkInt32 0 s)) (nat_be 4 0 @ nat_be 4 0)"
    by (rule appends_comp [OF appends_int32 appends_int32])
  with True show ?thesis by (simp add: sinkList_def [abs_def] listBytes_def)
next
  case False
  have "appends (\<lambda>s. fold put xs (sinkInt32 (length xs) (sinkInt32 tag s)))
      ((nat_be 4 tag @ nat_be 4 (length xs)) @ concat (map part xs))"
    by (rule appends_comp [OF appends_comp [OF appends_int32 appends_int32] appends_fold]) (rule assms)
  with False show ?thesis by (simp add: sinkList_def [abs_def] listBytes_def)
qed

lemma reads_list:
  assumes "\<And>x. x \<in> set xs \<Longrightarrow> reads r (part x) (g x)" "length xs \<le> 10000" "tag < 2147483648"
  shows "reads (rbind (readList (int tag)) (\<lambda>count. rtimes count r)) (listBytes tag part xs) (map g xs)"
proof (cases "xs = []")
  case True
  have "reads (rbind (readList (int tag)) (\<lambda>count. rtimes count r)) ((nat_be 4 0 @ nat_be 4 0) @ []) []"
    by (rule reads_bind [OF reads_absent]) auto
  with True show ?thesis by (simp add: listBytes_def)
next
  case False
  with assms show ?thesis
    unfolding listBytes_def if_not_P [OF False]
    by (intro reads_bind [OF reads_list_head] reads_times) simp_all
qed

definition payloadBytes :: "(jsText \<Rightarrow> byte list) \<Rightarrow> fixtureValue \<Rightarrow> byte list" where
  "payloadBytes encode v =
     (case v of
        Fa_text t \<Rightarrow> nat_be 4 2 @ nat_be 4 (length (encode t)) @ encode t @ padding (length (encode t))
      | Fa_numbers xs \<Rightarrow> nat_be 4 5 @ nat_be 4 (length xs) @ concat (map (nat_be 4) xs))"

definition attributeBytes :: "(jsText \<Rightarrow> byte list) \<Rightarrow> fixtureAttribute \<Rightarrow> byte list" where
  "attributeBytes encode a = nameBytes encode (faName a) @ payloadBytes encode (faValue a)"

lemma length_concat_int32 [simp]: "length (concat (map (nat_be 4) xs)) = 4 * length xs"
  by (induction xs) simp_all

lemma sinkPadTo4_aligned [simp]: "length s mod 4 = 0 \<Longrightarrow> sinkPadTo4 s = s"
  by (simp add: sinkPadTo4_def padTo4_def)

lemma appends_fold_int32: "appends (fold sinkInt32 xs) (concat (map (nat_be 4) xs))"
  by (rule appends_fold) (rule appends_int32)

lemma appends_payload_text:
  "appends (\<lambda>s. sinkPadTo4 (sinkBytes (encode t) (sinkInt32 (length (encode t)) (sinkInt32 2 s))))
     (payloadBytes encode (Fa_text t))"
proof -
  have pad: "sinkPadTo4 (sinkBytes (encode t) (sinkInt32 (length (encode t)) s)) = s @ nameBytes encode t"
    if "length s mod 4 = 0" for s
    using sinkName_aligned [OF that] by (simp add: sinkName_def Let_def)
  have "appends (\<lambda>s. sinkPadTo4 (sinkBytes (encode t) (sinkInt32 (length (encode t)) s))) (nameBytes encode t)"
    by (simp add: appends_def pad)
  from appends_comp [OF appends_int32 this, of 2] show ?thesis
    by (simp add: payloadBytes_def nameBytes_def)
qed

lemma appends_payload_numbers:
  "appends (\<lambda>s. sinkPadTo4 (fold sinkInt32 xs (sinkInt32 (length xs) (sinkInt32 5 s))))
     (payloadBytes encode (Fa_numbers xs))"
proof -
  have a: "appends (\<lambda>s. fold sinkInt32 xs (sinkInt32 (length xs) (sinkInt32 5 s)))
      ((nat_be 4 5 @ nat_be 4 (length xs)) @ concat (map (nat_be 4) xs))"
    by (rule appends_comp [OF appends_comp [OF appends_int32 appends_int32] appends_fold_int32])
  have "sinkPadTo4 (fold sinkInt32 xs (sinkInt32 (length xs) (sinkInt32 5 s)))
      = fold sinkInt32 xs (sinkInt32 (length xs) (sinkInt32 5 s))" if "length s mod 4 = 0" for s
    using appendsD [OF a that] a that by (simp add: appends_def mod_add_eq [symmetric])
  with a show ?thesis by (simp add: appends_def payloadBytes_def)
qed

lemma appends_attribute: "appends (sinkAttribute encode a) (attributeBytes encode a)"
proof (cases "faValue a")
  case (Fa_text t)
  have "appends (\<lambda>s. sinkPadTo4 (sinkBytes (encode t) (sinkInt32 (length (encode t)) (sinkInt32 2
      (sinkName encode (faName a) s))))) (nameBytes encode (faName a) @ payloadBytes encode (Fa_text t))"
    by (rule appends_comp [OF appends_name appends_payload_text])
  with Fa_text show ?thesis
    by (simp add: sinkAttribute_def [abs_def] attributeBytes_def Let_def NC_CHAR_def)
next
  case (Fa_numbers xs)
  have "appends (\<lambda>s. sinkPadTo4 (fold sinkInt32 xs (sinkInt32 (length xs) (sinkInt32 5
      (sinkName encode (faName a) s))))) (nameBytes encode (faName a) @ payloadBytes encode (Fa_numbers xs))"
    by (rule appends_comp [OF appends_name appends_payload_numbers])
  with Fa_numbers show ?thesis
    by (simp add: sinkAttribute_def [abs_def] attributeBytes_def Let_def NC_FLOAT_def)
qed

section \<open>Reading the parts back\<close>

text \<open>What a name, an attribute, a dimension and a variable must satisfy to be written at all.\<close>

definition nameOk :: "(byte list \<Rightarrow> jsText) \<Rightarrow> (jsText \<Rightarrow> byte list) \<Rightarrow> jsText \<Rightarrow> bool" where
  "nameOk utf8 encode t \<longleftrightarrow> length (encode t) \<le> 1024 \<and> utf8 (encode t) = t"

definition attributeOk :: "(byte list \<Rightarrow> jsText) \<Rightarrow> (jsText \<Rightarrow> byte list) \<Rightarrow> fixtureAttribute \<Rightarrow> bool" where
  "attributeOk utf8 encode a \<longleftrightarrow> nameOk utf8 encode (faName a) \<and>
     (case faValue a of
        Fa_text t \<Rightarrow> length (encode t) \<le> 1000000 \<and> utf8 (encode t) = t
      | Fa_numbers xs \<Rightarrow> length xs \<le> 1000000 \<and> list_all (\<lambda>x. x < 4294967296) xs)"

definition attributesOk :: "(byte list \<Rightarrow> jsText) \<Rightarrow> (jsText \<Rightarrow> byte list) \<Rightarrow> fixtureAttribute list \<Rightarrow> bool" where
  "attributesOk utf8 encode atts \<longleftrightarrow> length atts \<le> 10000 \<and> list_all (attributeOk utf8 encode) atts"

definition attributeRead :: "fixtureAttribute \<Rightarrow> netcdf3Attribute" where
  "attributeRead a =
     (case faValue a of
        Fa_text t \<Rightarrow> \<lparr>attName = faName a, attNcType = NC_CHAR, attValue = Att_text t\<rparr>
      | Fa_numbers xs \<Rightarrow> \<lparr>attName = faName a, attNcType = NC_FLOAT,
                           attValue = Att_numbers (map float32Value xs)\<rparr>)"

lemma readScalars_floats:
  assumes "list_all (\<lambda>x. x < 4294967296) xs"
  shows "readScalars NC_FLOAT 4 (length xs) (concat (map (nat_be 4) xs) @ rest) = map float32Value xs"
  using assms
proof (induction xs)
  case Nil
  then show ?case by (simp add: readScalars_def)
next
  case (Cons x xs)
  have "readScalars NC_FLOAT 4 (length (x # xs)) (concat (map (nat_be 4) (x # xs)) @ rest)
      = readScalar NC_FLOAT (nat_be 4 x)
        # map (\<lambda>i. readScalar NC_FLOAT (take 4 (drop (i * 4) (concat (map (nat_be 4) xs) @ rest)))) [0 ..< length xs]"
    by (simp add: readScalars_def upt_conv_Cons map_Suc_upt [symmetric] del: upt_Suc)
  moreover have "readScalar NC_FLOAT (nat_be 4 x) = float32Value x"
    using Cons.prems by (simp add: readScalar_def nc_consts float32Value_def be_nat_nat_be)
  ultimately show ?case using Cons by (simp add: readScalars_def)
qed

lemma reads_attribute:
  assumes "attributeOk utf8 encode a"
  shows "reads (readAttribute utf8) (attributeBytes encode a) (attributeRead a)"
proof (cases "faValue a")
  case (Fa_text t)
  let ?n = "length (encode t)"
  have n: "?n \<le> 1000000" "utf8 (encode t) = t" "nameOk utf8 encode (faName a)"
    using assms Fa_text by (simp_all add: attributeOk_def)
  have "reads (rbind (readBytes (nat (int ?n) * 1)) (\<lambda>payload. rbind (skipPadding (nat (int ?n) * 1)) (\<lambda>_.
       rret \<lparr>attName = faName a, attNcType = 2,
             attValue = (if 2 = NC_CHAR then Att_text (utf8 payload)
                         else Att_numbers (readScalars 2 1 (nat (int ?n)) payload))\<rparr>)))
      (encode t @ padding ?n @ []) (attributeRead a)"
    using n Fa_text
    by (intro reads_bind [OF reads_bytes] reads_bind [OF _ reads_ret] reads_bind)
      (auto simp: reads_padding attributeRead_def NC_CHAR_def)
  then have "reads (readAttribute utf8)
      (nameBytes encode (faName a) @ nat_be 4 2 @ nat_be 4 ?n @ encode t @ padding ?n) (attributeRead a)"
    unfolding readAttribute_def using n
    by (intro reads_bind [OF reads_name] reads_bind [OF reads_int32] reads_check)
      (simp_all add: nameOk_def elementBytes_def nc_consts)
  then show ?thesis by (simp add: attributeBytes_def payloadBytes_def Fa_text)
next
  case (Fa_numbers xs)
  have n: "length xs \<le> 1000000" "list_all (\<lambda>x. x < 4294967296) xs" "nameOk utf8 encode (faName a)"
    using assms Fa_numbers by (simp_all add: attributeOk_def)
  let ?n = "length xs"
  have sc: "readScalars 5 4 ?n (concat (map (nat_be 4) xs)) = map float32Value xs"
    using readScalars_floats [OF n(2), of "[]"] by (simp add: NC_FLOAT_def)
  have pad: "padding (?n * 4) = []" by (simp add: padding_def padTo4_def)
  have "reads (rbind (readBytes (nat (int ?n) * 4)) (\<lambda>payload. rbind (skipPadding (nat (int ?n) * 4)) (\<lambda>_.
       rret \<lparr>attName = faName a, attNcType = 5,
             attValue = (if 5 = NC_CHAR then Att_text (utf8 payload)
                         else Att_numbers (readScalars 5 4 (nat (int ?n)) payload))\<rparr>)))
      (concat (map (nat_be 4) xs) @ padding (?n * 4) @ []) (attributeRead a)"
    using Fa_numbers sc
    by (intro reads_bind [OF reads_bytes] reads_bind)
      (auto simp: reads_padding attributeRead_def nc_consts)
  then have "reads (readAttribute utf8)
      (nameBytes encode (faName a) @ nat_be 4 5 @ nat_be 4 ?n @ concat (map (nat_be 4) xs)) (attributeRead a)"
    unfolding readAttribute_def using n pad
    by (intro reads_bind [OF reads_name] reads_bind [OF reads_int32] reads_check)
      (simp_all add: nameOk_def elementBytes_def nc_consts)
  then show ?thesis by (simp add: attributeBytes_def payloadBytes_def Fa_numbers)
qed

text \<open>A dimension, as the reader reports it before the record length is filled in.\<close>

definition dimensionOk :: "(byte list \<Rightarrow> jsText) \<Rightarrow> (jsText \<Rightarrow> byte list) \<Rightarrow> fixtureDimension \<Rightarrow> bool" where
  "dimensionOk utf8 encode d \<longleftrightarrow> nameOk utf8 encode (fdName d) \<and>
     (case fdLength d of None \<Rightarrow> True | Some n \<Rightarrow> 0 < n \<and> n < 2147483648)"

definition dimensionBytes :: "(jsText \<Rightarrow> byte list) \<Rightarrow> fixtureDimension \<Rightarrow> byte list" where
  "dimensionBytes encode d =
     nameBytes encode (fdName d) @ nat_be 4 (case fdLength d of None \<Rightarrow> 0 | Some n \<Rightarrow> n)"

definition dimensionRead :: "nat \<Rightarrow> fixtureDimension \<Rightarrow> netcdf3Dimension" where
  "dimensionRead records d =
     \<lparr>dimName = fdName d, dimLength = (case fdLength d of None \<Rightarrow> records | Some n \<Rightarrow> n),
      dimIsRecord = (fdLength d = None)\<rparr>"

lemma appends_dimension: "appends (sinkDimension encode d) (dimensionBytes encode d)"
  unfolding sinkDimension_def [abs_def] dimensionBytes_def
  by (rule appends_comp [OF appends_name appends_int32])

lemma reads_dimension:
  assumes "dimensionOk utf8 encode d"
  shows "reads (readDimension utf8) (dimensionBytes encode d) (dimensionRead 0 d)"
proof -
  let ?n = "case fdLength d of None \<Rightarrow> 0 | Some n \<Rightarrow> n"
  have "reads (rbind readInt32 (\<lambda>n. rbind (rcheck (0 \<le> n) (Negative ''dimension length'')) (\<lambda>_.
      rret \<lparr>dimName = fdName d, dimLength = nat n, dimIsRecord = (n = 0)\<rparr>)))
      (nat_be 4 ?n @ []) (dimensionRead 0 d)"
    by (rule reads_bind [OF reads_int32]; (rule reads_check)?)
      (use assms in \<open>auto simp: dimensionOk_def dimensionRead_def split: option.splits\<close>)
  then show ?thesis
    unfolding readDimension_def dimensionBytes_def using assms
    by (intro reads_bind [OF reads_name]) (simp_all add: dimensionOk_def nameOk_def)
qed

text \<open>A variable, with the data offset the layout gave it.\<close>

definition dimensionIdOf :: "fixtureFileSpec \<Rightarrow> jsText \<Rightarrow> nat" where
  "dimensionIdOf spec nm = (case dimensionIndex spec nm of None \<Rightarrow> 0 | Some i \<Rightarrow> i)"

definition variableBytes ::
  "(jsText \<Rightarrow> byte list) \<Rightarrow> fixtureFileSpec \<Rightarrow> fixtureVariable \<times> nat \<Rightarrow> byte list" where
  "variableBytes encode spec vb =
     (case vb of (v, start) \<Rightarrow>
       nameBytes encode (fvName v) @ nat_be 4 (length (fvDimensions v))
         @ concat (map (\<lambda>nm. nat_be 4 (dimensionIdOf spec nm)) (fvDimensions v))
         @ listBytes 12 (attributeBytes encode) (fvAttributes v)
         @ nat_be 4 5 @ nat_be 4 (padTo4 (fixtureElements spec v * 4)) @ nat_be 4 start)"

definition variableRead :: "fixtureFileSpec \<Rightarrow> fixtureVariable \<times> nat \<Rightarrow> netcdf3Variable" where
  "variableRead spec vb =
     (case vb of (v, start) \<Rightarrow>
       \<lparr>varName = fvName v, dimensionIds = map (dimensionIdOf spec) (fvDimensions v),
        attributes = map attributeRead (fvAttributes v), ncType = NC_FLOAT, varBegin = start,
        isRecord = isRecordVariable spec v, elementsPerUnit = fixtureElements spec v\<rparr>)"

lemma appends_attributes:
  "appends (sinkAttributes encode atts) (listBytes 12 (attributeBytes encode) atts)"
  unfolding sinkAttributes_def TAG_ATTRIBUTE_def using appends_list [OF appends_attribute] by simp

lemma appends_variable: "appends (sinkVariable encode spec vb) (variableBytes encode spec vb)"
proof (cases vb)
  case (Pair v start)
  have "appends (\<lambda>s. sinkInt32 start (sinkInt32 (padTo4 (fixtureElements spec v * 4)) (sinkInt32 5
         (sinkAttributes encode (fvAttributes v)
           (fold (\<lambda>nm. sinkInt32 (dimensionIdOf spec nm)) (fvDimensions v)
             (sinkInt32 (length (fvDimensions v)) (sinkName encode (fvName v) s)))))))
     ((((((nameBytes encode (fvName v) @ nat_be 4 (length (fvDimensions v)))
         @ concat (map (\<lambda>nm. nat_be 4 (dimensionIdOf spec nm)) (fvDimensions v)))
         @ listBytes 12 (attributeBytes encode) (fvAttributes v))
         @ nat_be 4 5) @ nat_be 4 (padTo4 (fixtureElements spec v * 4))) @ nat_be 4 start)"
    by (intro appends_comp [OF _ appends_int32] appends_comp [OF _ appends_attributes]
        appends_comp [OF _ appends_fold] appends_name appends_int32)
  then show ?thesis
    by (simp add: Pair sinkVariable_def [abs_def] variableBytes_def NC_FLOAT_def dimensionIdOf_def)
qed

definition variableOk ::
  "(byte list \<Rightarrow> jsText) \<Rightarrow> (jsText \<Rightarrow> byte list) \<Rightarrow> fixtureFileSpec \<Rightarrow> fixtureVariable \<Rightarrow> bool" where
  "variableOk utf8 encode spec v \<longleftrightarrow>
     nameOk utf8 encode (fvName v) \<and> length (fvDimensions v) \<le> 8
     \<and> list_all (\<lambda>nm. dimensionIndex spec nm \<noteq> None) (fvDimensions v)
     \<and> list_all (\<lambda>nm. case dimensionOf spec nm of None \<Rightarrow> False | Some d \<Rightarrow> fdLength d \<noteq> None) (tl (fvDimensions v))
     \<and> attributesOk utf8 encode (fvAttributes v) \<and> padTo4 (fixtureElements spec v * 4) < 2147483648
     \<and> list_all (\<lambda>x. x < 4294967296) (fvData v)"

lemma dimensionIndex_bound:
  assumes "dimensionIndex spec nm = Some i"
  shows "i < length (fsDimensions spec)"
proof -
  have "(nm, i) \<in> set (rev (zip (map fdName (fsDimensions spec)) [0 ..< length (fsDimensions spec)]))"
    using assms unfolding dimensionIndex_def by (rule map_of_SomeD)
  then have "i \<in> set [0 ..< length (fsDimensions spec)]" by (auto dest: set_zip_rightD)
  then show ?thesis by simp
qed

abbreviation dimensionsRead :: "fixtureFileSpec \<Rightarrow> netcdf3Dimension list" where
  "dimensionsRead spec \<equiv> map (dimensionRead (fsRecordCount spec)) (fsDimensions spec)"

lemma dimension_lookup:
  assumes "dimensionIndex spec nm \<noteq> None"
  shows "dimensionIdOf spec nm < length (fsDimensions spec)"
    and "dimensionOf spec nm = Some (fsDimensions spec ! dimensionIdOf spec nm)"
    and "dimensionsRead spec ! dimensionIdOf spec nm
          = dimensionRead (fsRecordCount spec) (fsDimensions spec ! dimensionIdOf spec nm)"
  using assms dimensionIndex_bound [of spec nm]
  by (auto simp: dimensionIdOf_def dimensionOf_def)

lemma fixtureElements_prod:
  assumes "list_all (\<lambda>nm. dimensionIndex spec nm \<noteq> None) nms"
  shows "fold (\<lambda>nm product. case dimensionOf spec nm of
             None \<Rightarrow> product | Some dd \<Rightarrow> (case fdLength dd of None \<Rightarrow> product | Some n \<Rightarrow> product * n)) nms k
    = k * unitElements (dimensionsRead spec) (map (dimensionIdOf spec) nms)"
  using assms
proof (induction nms arbitrary: k)
  case Nil
  then show ?case by (simp add: unitElements_def)
next
  case (Cons nm nms)
  then have "dimensionIndex spec nm \<noteq> None" by simp
  note look = dimension_lookup [OF this]
  show ?case
    using Cons.IH Cons.prems
    by (simp add: look unitElements_def dimensionRead_def split: option.split)
qed

lemma variable_shape:
  assumes "variableOk utf8 encode spec v"
  defines "ids \<equiv> map (dimensionIdOf spec) (fvDimensions v)"
  shows "firstIsRecord (dimensionsRead spec) ids = isRecordVariable spec v"
    and "unitElements (dimensionsRead spec) ids = fixtureElements spec v"
    and "recordPositionOk (dimensionsRead spec) ids"
    and "\<And>i. i \<in> set ids \<Longrightarrow> i < length (fsDimensions spec)"
proof -
  have known: "list_all (\<lambda>nm. dimensionIndex spec nm \<noteq> None) (fvDimensions v)"
    using assms(1) by (simp add: variableOk_def)
  show "unitElements (dimensionsRead spec) ids = fixtureElements spec v"
    using fixtureElements_prod [OF known, of 1] by (simp add: fixtureElements_def ids_def)
  show "firstIsRecord (dimensionsRead spec) ids = isRecordVariable spec v"
  proof (cases "fvDimensions v")
    case Nil
    then show ?thesis by (simp add: firstIsRecord_def isRecordVariable_def ids_def)
  next
    case (Cons d ds)
    with known have "dimensionIndex spec d \<noteq> None" by simp
    note look = dimension_lookup [OF this]
    show ?thesis by (simp add: Cons firstIsRecord_def isRecordVariable_def ids_def look dimensionRead_def)
  qed
  have "\<not> dimIsRecord (dimensionsRead spec ! dimensionIdOf spec nm)" if "nm \<in> set (tl (fvDimensions v))" for nm
  proof -
    from that known have "dimensionIndex spec nm \<noteq> None"
      by (cases "fvDimensions v") (auto simp: list_all_iff)
    note look = dimension_lookup [OF this]
    from that assms(1) have "fdLength (fsDimensions spec ! dimensionIdOf spec nm) \<noteq> None"
      by (auto simp: variableOk_def list_all_iff look)
    then show ?thesis by (simp add: look dimensionRead_def)
  qed
  then show "recordPositionOk (dimensionsRead spec) ids"
    by (auto simp: recordPositionOk_def ids_def list_all_iff map_tl [symmetric])
  show "\<And>i. i \<in> set ids \<Longrightarrow> i < length (fsDimensions spec)"
    using known by (auto simp: ids_def list_all_iff intro: dimension_lookup(1))
qed

lemma reads_attributes:
  assumes "attributesOk utf8 encode atts"
  shows "reads (readAttributeList utf8) (listBytes 12 (attributeBytes encode) atts) (map attributeRead atts)"
  unfolding readAttributeList_def TAG_ATTRIBUTE_def
  using assms reads_list [of atts "readAttribute utf8" "attributeBytes encode" attributeRead 12]
  by (simp add: attributesOk_def list_all_iff reads_attribute)

lemma reads_dimensionId:
  assumes "i < n" "n \<le> 10000"
  shows "reads (readDimensionId n) (nat_be 4 i) i"
proof -
  have "reads (rbind readInt32 (\<lambda>ident. rbind (rcheck (0 \<le> ident \<and> ident < int n) Unknown_dimension) (\<lambda>_.
      rret (nat ident)))) (nat_be 4 i @ []) i"
    by (rule reads_bind [OF reads_int32]; (rule reads_check)?) (use assms in auto)
  then show ?thesis by (simp add: readDimensionId_def)
qed

lemma reads_variable:
  assumes ok: "variableOk utf8 encode spec v" and start: "start < 2147483648"
    and dims: "length (fsDimensions spec) \<le> 10000"
  shows "reads (readVariable utf8 (dimensionsRead spec)) (variableBytes encode spec (v, start))
    (variableRead spec (v, start))"
proof -
  note shape = variable_shape [OF ok]
  let ?ids = "map (dimensionIdOf spec) (fvDimensions v)"
  have ids: "reads (rtimes (nat (int (length (fvDimensions v)))) (readDimensionId (length (dimensionsRead spec))))
      (concat (map (\<lambda>nm. nat_be 4 (dimensionIdOf spec nm)) (fvDimensions v))) ?ids"
    unfolding nat_int
    by (rule reads_times) (use dims shape(4) in \<open>auto intro!: reads_dimensionId\<close>)
  have "reads (rbind readInt32 (\<lambda>start. rbind (rcheck (0 \<le> start) (Negative ''data offset'')) (\<lambda>_.
     rbind (rcheck (recordPositionOk (dimensionsRead spec) ?ids) Record_dimension_position) (\<lambda>_.
     rret \<lparr>varName = fvName v, dimensionIds = ?ids, attributes = map attributeRead (fvAttributes v),
           ncType = 5, varBegin = nat start, isRecord = firstIsRecord (dimensionsRead spec) ?ids,
           elementsPerUnit = unitElements (dimensionsRead spec) ?ids\<rparr>))))
     (nat_be 4 start @ []) (variableRead spec (v, start))"
    using start by (intro reads_bind [OF reads_int32] reads_check reads_ret)
      (simp_all add: shape variableRead_def NC_FLOAT_def)
  then show ?thesis
    unfolding readVariable_def variableBytes_def prod.case using ok
    by (intro reads_bind [OF reads_name] reads_bind [OF reads_int32] reads_bind [OF reads_attributes]
        reads_bind [OF ids] reads_check)
      (simp_all add: variableOk_def nameOk_def elementBytes_def nc_consts ids)
qed

section \<open>The header read back\<close>

definition headerBytes :: "(jsText \<Rightarrow> byte list) \<Rightarrow> fixtureFileSpec \<Rightarrow> nat list \<Rightarrow> byte list" where
  "headerBytes encode spec begins =
     [0x43, 0x44, 0x46, 0x01] @ nat_be 4 (fsRecordCount spec)
       @ listBytes 10 (dimensionBytes encode) (fsDimensions spec)
       @ listBytes 12 (attributeBytes encode) (fsGlobalAttributes spec)
       @ listBytes 11 (variableBytes encode spec) (zip (fsVariables spec) begins)"

lemma emitHeader_bytes: "emitHeader encode spec begins = headerBytes encode spec begins"
proof -
  have "appends (\<lambda>s. sinkList 11 (sinkVariable encode spec) (zip (fsVariables spec) begins)
       (sinkAttributes encode (fsGlobalAttributes spec)
         (sinkList 10 (sinkDimension encode) (fsDimensions spec) (sinkInt32 (fsRecordCount spec) s))))
      (((nat_be 4 (fsRecordCount spec) @ listBytes 10 (dimensionBytes encode) (fsDimensions spec))
        @ listBytes 12 (attributeBytes encode) (fsGlobalAttributes spec))
        @ listBytes 11 (variableBytes encode spec) (zip (fsVariables spec) begins))"
    by (intro appends_comp [OF _ appends_list] appends_comp [OF _ appends_attributes]
        appends_int32 appends_dimension appends_variable)
  from appendsD [OF this, of "[0x43, 0x44, 0x46, 0x01]"] show ?thesis
    by (simp add: emitHeader_def headerBytes_def sinkBytes_def TAG_VARIABLE_def TAG_DIMENSION_def)
qed

lemma emitHeader_length:
  "length xs = length (fsVariables spec) \<Longrightarrow> length ys = length (fsVariables spec)
    \<Longrightarrow> length (emitHeader encode spec xs) = length (emitHeader encode spec ys)"
proof -
  have part: "length (variableBytes encode spec (v, a)) = length (variableBytes encode spec (v, b))" for v a b
    by (simp add: variableBytes_def)
  assume xs: "length xs = length (fsVariables spec)" and ys: "length ys = length (fsVariables spec)"
  have "length (concat (map (variableBytes encode spec) (zip vs as)))
      = length (concat (map (variableBytes encode spec) (zip vs bs)))"
    if "length as = length vs" "length bs = length vs" for vs as bs
    using that
  proof (induction vs arbitrary: as bs)
    case Nil
    then show ?case by simp
  next
    case (Cons v vs)
    obtain a as' where as: "as = a # as'" using Cons.prems(1) by (cases as) simp_all
    obtain b bs' where bs: "bs = b # bs'" using Cons.prems(2) by (cases bs) simp_all
    have "length as' = length vs" "length bs' = length vs" using Cons.prems as bs by simp_all
    from Cons.IH [OF this] part [of v a b] show ?case by (simp add: as bs)
  qed
  from this [OF xs ys] show ?thesis
    using xs ys by (simp add: emitHeader_bytes headerBytes_def listBytes_def) (metis length_0_conv zip_Nil zip_eq_Nil_iff)
qed

definition fixtureOk :: "(byte list \<Rightarrow> jsText) \<Rightarrow> (jsText \<Rightarrow> byte list) \<Rightarrow> fixtureFileSpec \<Rightarrow> bool" where
  "fixtureOk utf8 encode spec \<longleftrightarrow>
     fsRecordCount spec \<le> 1000000
     \<and> length (fsDimensions spec) \<le> 10000 \<and> list_all (dimensionOk utf8 encode) (fsDimensions spec)
     \<and> length (filter (\<lambda>d. fdLength d = None) (fsDimensions spec)) \<le> 1
     \<and> attributesOk utf8 encode (fsGlobalAttributes spec)
     \<and> distinct (map fvName (fsVariables spec))
     \<and> length (fsVariables spec) \<le> 10000 \<and> list_all (variableOk utf8 encode spec) (fsVariables spec)
     \<and> list_all (\<lambda>v. length (fvData v) = fixtureElements spec v
          * (if isRecordVariable spec v then fsRecordCount spec else 1)) (fsVariables spec)
     \<and> list_all (\<lambda>b. b < 2147483648) (fst (layoutOf encode spec))"

lemma reads_dimensionList:
  assumes "length (fsDimensions spec) \<le> 10000" "list_all (dimensionOk utf8 encode) (fsDimensions spec)"
    "length (filter (\<lambda>d. fdLength d = None) (fsDimensions spec)) \<le> 1"
  shows "reads (readDimensionList utf8) (listBytes 10 (dimensionBytes encode) (fsDimensions spec))
    (map (dimensionRead 0) (fsDimensions spec))"
proof -
  let ?ds = "map (dimensionRead 0) (fsDimensions spec)"
  have assoc: "rbind (rbind m f) g = rbind m (\<lambda>x. rbind (f x) g)"
    for m :: "nat reader" and f :: "nat \<Rightarrow> netcdf3Dimension list reader" and g :: "_ \<Rightarrow> netcdf3Dimension list reader"
    by (auto simp: rbind_def fun_eq_iff andThen_def split: sum.splits)
  have "length (filter dimIsRecord ?ds) = length (filter (\<lambda>d. fdLength d = None) (fsDimensions spec))"
    by (simp add: filter_map comp_def dimensionRead_def)
  then have "reads (rbind (rcheck (length (filter dimIsRecord ?ds) \<le> 1) Several_record_dimensions) (\<lambda>_. rret ?ds))
      [] ?ds"
    using assms by (intro reads_check reads_ret) simp_all
  moreover have "reads (rbind (readList (int 10)) (\<lambda>count. rtimes count (readDimension utf8)))
      (listBytes 10 (dimensionBytes encode) (fsDimensions spec)) ?ds"
    by (rule reads_list) (use assms in \<open>auto simp: list_all_iff reads_dimension\<close>)
  ultimately have "reads (rbind (rbind (readList (int 10)) (\<lambda>count. rtimes count (readDimension utf8)))
      (\<lambda>ds. rbind (rcheck (length (filter dimIsRecord ds) \<le> 1) Several_record_dimensions) (\<lambda>_. rret ds)))
      (listBytes 10 (dimensionBytes encode) (fsDimensions spec) @ []) ?ds"
    by (intro reads_bind)
  then show ?thesis by (simp add: readDimensionList_def assoc TAG_DIMENSION_def)
qed

lemma reads_header:
  assumes ok: "fixtureOk utf8 encode spec" and begins: "list_all (\<lambda>b. b < 2147483648) begins"
    "length begins = length (fsVariables spec)"
  shows "reads (readHeader utf8) (emitHeader encode spec begins)
    (fsRecordCount spec, dimensionsRead spec, map attributeRead (fsGlobalAttributes spec),
     map (variableRead spec) (zip (fsVariables spec) begins))"
proof -
  have fill: "map (\<lambda>d. if dimIsRecord d then d\<lparr>dimLength := fsRecordCount spec\<rparr> else d)
      (map (dimensionRead 0) (fsDimensions spec)) = dimensionsRead spec"
    by (auto simp: dimensionRead_def)
  let ?vbs = "zip (fsVariables spec) begins"
  have "reads (rbind (readList (int 11)) (\<lambda>count. rtimes count (readVariable utf8 (dimensionsRead spec))))
      (listBytes 11 (variableBytes encode spec) ?vbs) (map (variableRead spec) ?vbs)"
    by (rule reads_list)
      (use ok begins in \<open>auto simp: fixtureOk_def list_all_iff intro!: reads_variable
        dest: set_zip_leftD set_zip_rightD\<close>)
  then have vars: "reads (readVariableList utf8 (dimensionsRead spec))
      (listBytes 11 (variableBytes encode spec) ?vbs) (map (variableRead spec) ?vbs)"
    by (simp add: readVariableList_def TAG_VARIABLE_def)
  have "reads (readHeader utf8)
     ([0x43, 0x44, 0x46, 0x01] @ nat_be 4 (fsRecordCount spec)
       @ listBytes 10 (dimensionBytes encode) (fsDimensions spec)
       @ listBytes 12 (attributeBytes encode) (fsGlobalAttributes spec)
       @ listBytes 11 (variableBytes encode spec) ?vbs @ [])
    (fsRecordCount spec, dimensionsRead spec, map attributeRead (fsGlobalAttributes spec),
     map (variableRead spec) ?vbs)"
    unfolding readHeader_def Let_def using ok
    by (intro reads_bind [OF reads_bytes] reads_bind [OF reads_int32] reads_bind [OF reads_dimensionList]
        reads_bind [OF reads_attributes] reads_check)
      (simp_all only: fixtureOk_def nat_int fill reads_bind [OF vars] reads_ret, simp_all)
  then show ?thesis by (simp add: emitHeader_bytes headerBytes_def)
qed

section \<open>The layout keeps the blocks apart\<close>

text \<open>
  Fixed variables lie in \<open>[H, C)\<close> in order, record variables in the record slots of \<open>[C, C + R)\<close>.
\<close>

definition blockBytes :: "fixtureFileSpec \<Rightarrow> fixtureVariable \<Rightarrow> nat" where
  "blockBytes spec v = fixtureElements spec v * 4"

definition placedIn :: "fixtureFileSpec \<Rightarrow> bool \<Rightarrow> nat \<Rightarrow> nat \<Rightarrow> fixtureVariable \<times> nat \<Rightarrow> bool" where
  "placedIn spec kind lo hi vb \<longleftrightarrow>
     isRecordVariable spec (fst vb) = kind \<longrightarrow> lo \<le> snd vb \<and> snd vb + blockBytes spec (fst vb) \<le> hi"

definition before :: "fixtureFileSpec \<Rightarrow> bool \<Rightarrow> fixtureVariable \<times> nat \<Rightarrow> fixtureVariable \<times> nat \<Rightarrow> bool" where
  "before spec kind x y \<longleftrightarrow>
     isRecordVariable spec (fst x) = kind \<longrightarrow> isRecordVariable spec (fst y) = kind
       \<longrightarrow> snd x + blockBytes spec (fst x) \<le> snd y"

lemma fixedBegins_layout:
  "fixedBegins spec vs cur = (bs, c) \<Longrightarrow>
     length bs = length vs \<and> cur \<le> c \<and> list_all (placedIn spec False cur c) (zip vs bs)
     \<and> sorted_wrt (before spec False) (zip vs bs)"
proof (induction vs arbitrary: cur bs c)
  case Nil
  then show ?case by simp
next
  case (Cons v vs)
  let ?next = "if isRecordVariable spec v then cur else cur + padTo4 (blockBytes spec v)"
  obtain bs' where rest: "fixedBegins spec vs ?next = (bs', c)"
    and bs: "bs = (if isRecordVariable spec v then 0 else cur) # bs'"
    using Cons.prems by (auto simp: blockBytes_def split: prod.splits if_splits)
  note ih = Cons.IH [OF rest]
  have step: "\<not> isRecordVariable spec v \<Longrightarrow> cur + blockBytes spec v \<le> ?next" "cur \<le> ?next"
    using padTo4_ge [of "blockBytes spec v"] by simp_all
  have "placedIn spec False cur c y \<and> before spec False (v, if isRecordVariable spec v then 0 else cur) y"
    if "y \<in> set (zip vs bs')" for y
  proof -
    from ih that have "placedIn spec False ?next c y" by (simp add: list_all_iff)
    with step show ?thesis by (fastforce simp: placedIn_def before_def)
  qed
  moreover have "placedIn spec False cur c (v, if isRecordVariable spec v then 0 else cur)"
    using step ih by (fastforce simp: placedIn_def)
  ultimately show ?case
    using ih step(2) by (auto simp: bs list_all_iff)
qed

lemma recordBegins_layout:
  "recordBegins spec single cur vbs slot = (bs, n) \<Longrightarrow>
     length bs = length vbs
     \<and> list_all (placedIn spec True (cur + slot) (cur + n)) (zip (map fst vbs) bs)
     \<and> sorted_wrt (before spec True) (zip (map fst vbs) bs)
     \<and> n = slot + sum_list (map (\<lambda>v. if single then blockBytes spec v else padTo4 (blockBytes spec v))
                     (filter (isRecordVariable spec) (map fst vbs)))"
proof (induction spec single cur vbs slot arbitrary: bs n rule: recordBegins.induct)
  case (1 spec single cur slot)
  then show ?case by simp
next
  case (2 spec single cur v b vbs slot)
  show ?case
  proof (cases "isRecordVariable spec v")
    case False
    obtain bs' where rest: "recordBegins spec single cur vbs slot = (bs', n)" and bs: "bs = b # bs'"
      using "2.prems" False by (auto split: prod.splits)
    from "2.IH"(2) [OF False rest] False show ?thesis
      by (auto simp: bs placedIn_def before_def)
  next
    case True
    let ?step = "if single then blockBytes spec v else padTo4 (blockBytes spec v)"
    obtain bs' where rest: "recordBegins spec single cur vbs (slot + ?step) = (bs', n)"
      and bs: "bs = (cur + slot) # bs'"
      unfolding blockBytes_def
      by (cases "recordBegins spec single cur vbs (slot + (if single then fixtureElements spec v * 4
            else padTo4 (fixtureElements spec v * 4)))")
        (use "2.prems" True in \<open>simp add: Let_def\<close>)
    have ih: "length bs' = length vbs"
      "list_all (placedIn spec True (cur + (slot + ?step)) (cur + n)) (zip (map fst vbs) bs')"
      "sorted_wrt (before spec True) (zip (map fst vbs) bs')"
      "n = slot + ?step + sum_list (map (\<lambda>v. if single then blockBytes spec v else padTo4 (blockBytes spec v))
                     (filter (isRecordVariable spec) (map fst vbs)))"
      using "2.IH"(1) [OF True] rest unfolding blockBytes_def [symmetric] by blast+
    have step: "blockBytes spec v \<le> ?step" using padTo4_ge by simp
    have "placedIn spec True (cur + slot) (cur + n) y \<and> before spec True (v, cur + slot) y"
      if "y \<in> set (zip (map fst vbs) bs')" for y
    proof -
      from ih(2) that have "placedIn spec True (cur + (slot + ?step)) (cur + n) y" by (simp add: list_all_iff)
      with step show ?thesis unfolding placedIn_def before_def by fastforce
    qed
    moreover have "placedIn spec True (cur + slot) (cur + n) (v, cur + slot)"
      using step ih(4) by (simp add: placedIn_def)
    ultimately show ?thesis
      using ih(1,3,4) True by (simp add: bs list_all_iff)
  qed
qed

lemma recordBegins_keeps_fixed:
  "recordBegins spec single cur vbs slot = (bs, n) \<Longrightarrow>
     (list_all (placedIn spec False lo hi) vbs \<longrightarrow> list_all (placedIn spec False lo hi) (zip (map fst vbs) bs))
     \<and> (sorted_wrt (before spec False) vbs \<longrightarrow> sorted_wrt (before spec False) (zip (map fst vbs) bs))
     \<and> (\<forall>x. list_all (before spec False x) vbs \<longrightarrow> list_all (before spec False x) (zip (map fst vbs) bs))"
proof (induction spec single cur vbs slot arbitrary: bs n rule: recordBegins.induct)
  case (1 spec single cur slot)
  then show ?case by simp
next
  case (2 spec single cur v b vbs slot)
  show ?case
  proof (cases "isRecordVariable spec v")
    case False
    obtain bs' where rest: "recordBegins spec single cur vbs slot = (bs', n)" and bs: "bs = b # bs'"
      using "2.prems" False by (auto split: prod.splits)
    from "2.IH"(2) [OF False rest] show ?thesis
      by (simp add: bs list_all_iff)
  next
    case True
    obtain slot' bs' where rest: "recordBegins spec single cur vbs slot' = (bs', n)"
      and slot': "slot' = slot + (if single then fixtureElements spec v * 4 else padTo4 (fixtureElements spec v * 4))"
      and bs: "bs = (cur + slot) # bs'"
      using "2.prems" True by (auto simp: Let_def split: prod.splits)
    from "2.IH"(1) [OF True refl rest [unfolded slot']] True show ?thesis
      by (simp add: bs list_all_iff placedIn_def before_def)
  qed
qed

end
