(* ===== verification/Netcdf3_Roundtrip.thy ===== *)
theory Netcdf3_Roundtrip
  imports Netcdf3_Fixture
begin

text \<open>
  What the reader of \<open>src/air-quality/cams/netcdf3.ts\<close> makes of a file the builder of
  \<open>netcdf3-fixture.builder.ts\<close> wrote: the blocks of the variables do not overlap, so every value
  is read from where it was written.
\<close>

section \<open>The data read back\<close>

lemma length_writeBlock: "start + 4 * length vals \<le> length bts \<Longrightarrow> length (writeBlock start vals bts) = length bts"
  by (simp add: writeBlock_def Let_def)

lemma writeBlock_same:
  "start + 4 * length vals \<le> length bts
    \<Longrightarrow> take (4 * length vals) (drop start (writeBlock start vals bts)) = concat (map (nat_be 4) vals)"
  by (simp add: writeBlock_def Let_def)

lemma writeBlock_other:
  assumes "s + n \<le> start \<or> start + 4 * length vals \<le> s" "start + 4 * length vals \<le> length bts"
  shows "take n (drop s (writeBlock start vals bts)) = take n (drop s bts)"
proof (rule nth_equalityI)
  show "length (take n (drop s (writeBlock start vals bts))) = length (take n (drop s bts))"
    using assms(2) by (simp add: length_writeBlock)
  fix i
  assume "i < length (take n (drop s (writeBlock start vals bts)))"
  then have i: "i < n" "s + i < length bts"
    using assms(2) by (simp_all add: length_writeBlock less_diff_conv add.commute)
  have "writeBlock start vals bts ! (s + i) = bts ! (s + i)"
    using assms i by (auto simp: writeBlock_def Let_def nth_append)
  then show "take n (drop s (writeBlock start vals bts)) ! i = take n (drop s bts) ! i"
    using i assms(2) by (simp add: length_writeBlock)
qed

definition apart :: "nat \<times> nat list \<Rightarrow> nat \<times> nat list \<Rightarrow> bool" where
  "apart x y \<longleftrightarrow> fst x + 4 * length (snd x) \<le> fst y \<or> fst y + 4 * length (snd y) \<le> fst x"

definition inFile :: "nat \<Rightarrow> nat \<Rightarrow> nat \<times> nat list \<Rightarrow> bool" where
  "inFile lo hi x \<longleftrightarrow> lo \<le> fst x \<and> fst x + 4 * length (snd x) \<le> hi"

abbreviation writeAll :: "(nat \<times> nat list) list \<Rightarrow> byte list \<Rightarrow> byte list" where
  "writeAll blocks \<equiv> fold (\<lambda>(start, vals). writeBlock start vals) blocks"

lemma writeAll_other:
  "list_all (inFile lo (length bts)) blocks
    \<Longrightarrow> (\<And>b. b \<in> set blocks \<Longrightarrow> s + n \<le> fst b \<or> fst b + 4 * length (snd b) \<le> s)
    \<Longrightarrow> take n (drop s (writeAll blocks bts)) = take n (drop s bts)
      \<and> length (writeAll blocks bts) = length bts"
proof (induction blocks arbitrary: bts)
  case Nil
  then show ?case by simp
next
  case (Cons b blocks)
  obtain start vals where b: "b = (start, vals)" by (cases b)
  have fits: "start + 4 * length vals \<le> length bts" using Cons.prems(1) by (simp add: b inFile_def)
  note len = length_writeBlock [OF fits]
  have "take n (drop s (writeBlock start vals bts)) = take n (drop s bts)"
    using Cons.prems(2) [of b] by (intro writeBlock_other [OF _ fits]) (simp add: b)
  moreover have "list_all (inFile lo (length (writeBlock start vals bts))) blocks"
    using Cons.prems(1) by (simp add: len)
  ultimately show ?case using Cons.IH [of "writeBlock start vals bts"] Cons.prems(2) by (simp add: b len)
qed

lemma writeAll_block:
  "list_all (inFile lo (length bts)) blocks \<Longrightarrow> sorted_wrt apart blocks \<Longrightarrow> (start, vals) \<in> set blocks
    \<Longrightarrow> take (4 * length vals) (drop start (writeAll blocks bts)) = concat (map (nat_be 4) vals)"
proof (induction blocks arbitrary: bts)
  case Nil
  then show ?case by simp
next
  case (Cons b blocks)
  obtain st vs where b: "b = (st, vs)" by (cases b)
  have fits: "st + 4 * length vs \<le> length bts" using Cons.prems(1) by (simp add: b inFile_def)
  have rest: "list_all (inFile lo (length (writeBlock st vs bts))) blocks"
    using Cons.prems(1) by (simp add: length_writeBlock [OF fits])
  show ?case
  proof (cases "(start, vals) = b")
    case True
    have "take (4 * length vs) (drop st (writeAll blocks (writeBlock st vs bts)))
        = take (4 * length vs) (drop st (writeBlock st vs bts))"
      using writeAll_other [OF rest, of st "4 * length vs"] Cons.prems(2) by (auto simp: apart_def b)
    with True writeBlock_same [OF fits] show ?thesis by (simp add: b)
  next
    case False
    with Cons.prems have "(start, vals) \<in> set blocks" by auto
    with Cons.IH [OF rest] Cons.prems(2) show ?thesis by (simp add: b)
  qed
qed

text \<open>The blocks of all variables, under the layout.\<close>

lemma records_apart:
  fixes a b m n C R r q :: nat
  assumes "r < q" "C \<le> b" "a + m \<le> C + R"
  shows "a + r * R + m \<le> b + q * R"
proof -
  have "r * R + R \<le> q * R" using assms(1) by (metis Suc_leI add.commute mult_Suc mult_le_mono1)
  with assms(2,3) show ?thesis by linarith
qed

lemma inFile_take: "lo \<le> s \<Longrightarrow> s + 4 * n \<le> hi \<Longrightarrow> inFile lo hi (s, take n xs)"
  by (simp add: inFile_def min_def)

lemma apart_take:
  "s + 4 * n \<le> t \<or> t + 4 * m \<le> s \<Longrightarrow> apart (s, take n xs) (t, take m ys)"
  by (auto simp: apart_def min_def)

definition placed :: "fixtureFileSpec \<Rightarrow> nat \<Rightarrow> nat \<Rightarrow> nat \<Rightarrow> fixtureVariable \<times> nat \<Rightarrow> bool" where
  "placed spec H C R vb \<longleftrightarrow> H \<le> C \<and> placedIn spec False H C vb \<and> placedIn spec True C (C + R) vb
     \<and> length (fvData (fst vb)) = fixtureElements spec (fst vb)
        * (if isRecordVariable spec (fst vb) then fsRecordCount spec else 1)"

text \<open>Every block starts at its slot and is no longer than a unit.\<close>

lemma blocksOf_mem:
  assumes "blk \<in> set (blocksOf spec R vb)" "placed spec H C R vb"
  shows "\<exists>r. blk = (snd vb + r * R, take (fixtureElements spec (fst vb)) (drop (r * fixtureElements spec (fst vb)) (fvData (fst vb))))
     \<and> (if isRecordVariable spec (fst vb) then r < fsRecordCount spec else r = 0)"
proof (cases "isRecordVariable spec (fst vb)")
  case True
  with assms show ?thesis by (cases vb) (auto simp: blocksOf_def Let_def)
next
  case False
  with assms show ?thesis by (cases vb) (auto simp: blocksOf_def Let_def placed_def)
qed

lemma slot_in:
  assumes "placed spec H C R vb" "if isRecordVariable spec (fst vb) then r < fsRecordCount spec else r = 0"
  shows "H \<le> snd vb + r * R" "snd vb + r * R + 4 * fixtureElements spec (fst vb) \<le> C + R * fsRecordCount spec"
proof -
  let ?n = "fixtureElements spec (fst vb)"
  show "H \<le> snd vb + r * R"
    using assms(1) by (cases "isRecordVariable spec (fst vb)") (auto simp: placed_def placedIn_def)
  show "snd vb + r * R + 4 * ?n \<le> C + R * fsRecordCount spec"
  proof (cases "isRecordVariable spec (fst vb)")
    case True
    with assms have "r < fsRecordCount spec" "snd vb + 4 * ?n \<le> C + R"
      by (simp_all add: placed_def placedIn_def blockBytes_def mult.commute)
    from records_apart [OF this(1) order_refl this(2)] show ?thesis by (simp add: mult.commute)
  next
    case False
    with assms show ?thesis by (simp add: placed_def placedIn_def blockBytes_def mult.commute)
  qed
qed

lemma blocks_in:
  assumes "placed spec H C R vb"
  shows "list_all (inFile H (C + R * fsRecordCount spec)) (blocksOf spec R vb)"
  unfolding list_all_iff
proof
  fix blk
  assume "blk \<in> set (blocksOf spec R vb)"
  then obtain r where blk: "blk = (snd vb + r * R, take (fixtureElements spec (fst vb))
       (drop (r * fixtureElements spec (fst vb)) (fvData (fst vb))))"
    and r: "if isRecordVariable spec (fst vb) then r < fsRecordCount spec else r = 0"
    using blocksOf_mem [OF _ assms] by blast
  show "inFile H (C + R * fsRecordCount spec) blk"
    unfolding blk by (rule inFile_take [OF slot_in [OF assms r]])
qed

lemma slots_apart:
  assumes x: "placed spec H C R x" "if isRecordVariable spec (fst x) then r < fsRecordCount spec else r = 0"
    and y: "placed spec H C R y" "if isRecordVariable spec (fst y) then q < fsRecordCount spec else q = 0"
    and order: "before spec False x y" "before spec True x y"
  shows "snd x + r * R + 4 * fixtureElements spec (fst x) \<le> snd y + q * R
      \<or> snd y + q * R + 4 * fixtureElements spec (fst y) \<le> snd x + r * R"
proof -
  let ?n = "4 * fixtureElements spec (fst x)" and ?m = "4 * fixtureElements spec (fst y)"
  have in_x: "\<not> isRecordVariable spec (fst x) \<Longrightarrow> r = 0 \<and> snd x + ?n \<le> C"
    "isRecordVariable spec (fst x) \<Longrightarrow> C \<le> snd x \<and> snd x + ?n \<le> C + R"
    using x by (simp_all add: placed_def placedIn_def blockBytes_def mult.commute)
  have in_y: "\<not> isRecordVariable spec (fst y) \<Longrightarrow> q = 0 \<and> snd y + ?m \<le> C"
    "isRecordVariable spec (fst y) \<Longrightarrow> C \<le> snd y \<and> snd y + ?m \<le> C + R"
    using y by (simp_all add: placed_def placedIn_def blockBytes_def mult.commute)
  have same: "isRecordVariable spec (fst x) = isRecordVariable spec (fst y) \<Longrightarrow> snd x + ?n \<le> snd y"
    using order by (cases "isRecordVariable spec (fst x)") (simp_all add: before_def blockBytes_def mult.commute)
  show ?thesis
  proof (cases "isRecordVariable spec (fst x)"; cases "isRecordVariable spec (fst y)")
    assume rx: "isRecordVariable spec (fst x)" and ry: "isRecordVariable spec (fst y)"
    consider "r < q" | "r = q" | "q < r" by linarith
    then show ?thesis
    proof cases
      case 1
      with records_apart [of r q C "snd y" "snd x" ?n R] in_x(2) [OF rx] in_y(2) [OF ry] show ?thesis by simp
    next
      case 2
      with same rx ry show ?thesis by simp
    next
      case 3
      with records_apart [of q r C "snd x" "snd y" ?m R] in_x(2) [OF rx] in_y(2) [OF ry] show ?thesis by simp
    qed
  next
    assume "isRecordVariable spec (fst x)" "\<not> isRecordVariable spec (fst y)"
    with in_x(2) in_y(1) show ?thesis by fastforce
  next
    assume "\<not> isRecordVariable spec (fst x)" "isRecordVariable spec (fst y)"
    with in_x(1) in_y(2) show ?thesis by fastforce
  next
    assume "\<not> isRecordVariable spec (fst x)" "\<not> isRecordVariable spec (fst y)"
    with in_x(1) in_y(1) same show ?thesis by simp
  qed
qed

lemma own_blocks_apart:
  assumes "placed spec H C R x"
  shows "sorted_wrt apart (blocksOf spec R x)"
proof (cases "isRecordVariable spec (fst x)")
  case False
  then show ?thesis by (cases x) (simp add: blocksOf_def Let_def)
next
  case True
  let ?n = "fixtureElements spec (fst x)"
  have "apart (snd x + r * R, take ?n (drop (r * ?n) (fvData (fst x))))
      (snd x + q * R, take ?n (drop (q * ?n) (fvData (fst x))))" if "r < q" for r q
    using records_apart [OF that, of C "snd x" "snd x" "4 * ?n" R] True assms
    by (intro apart_take) (simp add: placed_def placedIn_def blockBytes_def mult.commute)
  then have "sorted_wrt (\<lambda>r q. apart (snd x + r * R, take ?n (drop (r * ?n) (fvData (fst x))))
      (snd x + q * R, take ?n (drop (q * ?n) (fvData (fst x))))) [0 ..< fsRecordCount spec]"
    by (intro sorted_wrt_mono_rel [OF _ sorted_wrt_upt]) auto
  with True show ?thesis by (cases x) (simp add: blocksOf_def Let_def sorted_wrt_map)
qed

lemma all_blocks_apart:
  "list_all (placed spec H C R) vbs \<Longrightarrow> sorted_wrt (before spec False) vbs \<Longrightarrow> sorted_wrt (before spec True) vbs
    \<Longrightarrow> sorted_wrt apart (concat (map (blocksOf spec R) vbs))"
proof (induction vbs)
  case Nil
  then show ?case by simp
next
  case (Cons x vbs)
  have px: "placed spec H C R x" using Cons.prems(1) by simp
  have "apart a b" if ab: "a \<in> set (blocksOf spec R x)" "y \<in> set vbs" "b \<in> set (blocksOf spec R y)" for a b y
  proof -
    have py: "placed spec H C R y" using Cons.prems(1) ab(2) by (simp add: list_all_iff)
    have order: "before spec False x y" "before spec True x y" using Cons.prems(2,3) ab(2) by simp_all
    from blocksOf_mem [OF ab(1) px] blocksOf_mem [OF ab(3) py] obtain r q where
      "a = (snd x + r * R, take (fixtureElements spec (fst x)) (drop (r * fixtureElements spec (fst x)) (fvData (fst x))))"
      "b = (snd y + q * R, take (fixtureElements spec (fst y)) (drop (q * fixtureElements spec (fst y)) (fvData (fst y))))"
      "if isRecordVariable spec (fst x) then r < fsRecordCount spec else r = 0"
      "if isRecordVariable spec (fst y) then q < fsRecordCount spec else q = 0"
      by blast
    then show ?thesis using slots_apart [OF px _ py _ order, of r q] by (simp only: apart_take)
  qed
  with Cons own_blocks_apart [OF px] show ?case
    by (auto simp: sorted_wrt_append)
qed

lemma layout_placed:
  assumes layout: "layoutOf encode spec = (begins, R, n)"
    and data: "list_all (\<lambda>v. length (fvData v) = fixtureElements spec v
          * (if isRecordVariable spec v then fsRecordCount spec else 1)) (fsVariables spec)"
  obtains C where "n = C + R * fsRecordCount spec" "length begins = length (fsVariables spec)"
    "list_all (placed spec (length (emitHeader encode spec begins)) C R) (zip (fsVariables spec) begins)"
    "sorted_wrt (before spec False) (zip (fsVariables spec) begins)"
    "sorted_wrt (before spec True) (zip (fsVariables spec) begins)"
    "length (emitHeader encode spec begins) \<le> C"
    "R = (if length (filter (isRecordVariable spec) (fsVariables spec)) = 1
          then sum_list (map (blockBytes spec) (filter (isRecordVariable spec) (fsVariables spec)))
          else sum_list (map (\<lambda>v. padTo4 (blockBytes spec v)) (filter (isRecordVariable spec) (fsVariables spec))))"
proof -
  let ?vs = "fsVariables spec"
  let ?H = "length (emitHeader encode spec (map (\<lambda>_. 0) ?vs))"
  let ?single = "length (filter (isRecordVariable spec) ?vs) = 1"
  obtain fixedBs C where fx: "fixedBegins spec ?vs ?H = (fixedBs, C)" by fastforce
  obtain bs sz where rc: "recordBegins spec ?single C (zip ?vs fixedBs) 0 = (bs, sz)" by fastforce
  from layout fx rc have eqs: "begins = bs" "R = sz" "n = C + R * fsRecordCount spec"
    by (auto simp: layoutOf_def Let_def)
  note f = fixedBegins_layout [OF fx]
  have fst_zip: "map fst (zip ?vs fixedBs) = ?vs" using f by simp
  note r = recordBegins_layout [OF rc, unfolded fst_zip]
  note keep = recordBegins_keeps_fixed [OF rc, of ?H C, unfolded fst_zip]
  have len: "length begins = length ?vs" using r f by (simp add: eqs)
  have H: "length (emitHeader encode spec begins) = ?H" by (rule emitHeader_length) (simp_all add: len)
  have "list_all (placed spec ?H C R) (zip ?vs begins)"
    using f r keep data by (auto simp: placed_def list_all_iff eqs dest: set_zip_leftD)
  moreover have "R = (if ?single then sum_list (map (blockBytes spec) (filter (isRecordVariable spec) ?vs))
      else sum_list (map (\<lambda>v. padTo4 (blockBytes spec v)) (filter (isRecordVariable spec) ?vs)))"
    using r by (simp add: eqs(2))
  moreover have "sorted_wrt (before spec False) (zip ?vs begins)" "sorted_wrt (before spec True) (zip ?vs begins)"
    "?H \<le> C"
    using f r keep by (simp_all add: eqs(1))
  ultimately show thesis
    by (intro that [of C]) (simp_all only: H eqs(3) len)
qed

lemma recordSizeOf_layout:
  assumes "length begins = length (fsVariables spec)"
  shows "recordSizeOf (map (variableRead spec) (zip (fsVariables spec) begins)) =
    (if length (filter (isRecordVariable spec) (fsVariables spec)) = 1
          then sum_list (map (blockBytes spec) (filter (isRecordVariable spec) (fsVariables spec)))
          else sum_list (map (\<lambda>v. padTo4 (blockBytes spec v)) (filter (isRecordVariable spec) (fsVariables spec))))"
proof -
  let ?rs = "filter isRecord (map (variableRead spec) (zip (fsVariables spec) begins))"
  have "map (unitBytes) (filter isRecord (map (variableRead spec) (zip vs bs)))
      = map (blockBytes spec) (filter (isRecordVariable spec) vs)" if "length bs = length vs" for vs bs
    using that
  proof (induction vs arbitrary: bs)
    case Nil
    then show ?case by simp
  next
    case (Cons v vs)
    obtain b bs' where bs: "bs = b # bs'" using Cons.prems by (cases bs) simp_all
    have "length bs' = length vs" using Cons.prems bs by simp
    from Cons.IH [OF this] show ?case
      by (simp add: bs variableRead_def unitBytes_def blockBytes_def elementBytes_def nc_consts)
  qed
  from this [OF assms] have units: "map unitBytes ?rs = map (blockBytes spec) (filter (isRecordVariable spec) (fsVariables spec))" .
  then have len: "length ?rs = length (filter (isRecordVariable spec) (fsVariables spec))"
    by (metis length_map)
  have padded: "map (\<lambda>v. padTo4 (unitBytes v)) ?rs
      = map (\<lambda>v. padTo4 (blockBytes spec v)) (filter (isRecordVariable spec) (fsVariables spec))"
    using arg_cong [OF units, of "map padTo4"] by (simp add: comp_def)
  show ?thesis
  proof (cases "\<exists>only. ?rs = [only]")
    case True
    then obtain only where only: "?rs = [only]" by blast
    have "sum_list (map (blockBytes spec) (filter (isRecordVariable spec) (fsVariables spec))) = unitBytes only"
      using arg_cong [OF units, of sum_list] by (simp add: only)
    with len show ?thesis by (simp add: recordSizeOf_def only)
  next
    case False
    then have "recordSizeOf (map (variableRead spec) (zip (fsVariables spec) begins))
        = sum_list (map (\<lambda>v. padTo4 (unitBytes v)) ?rs)"
      unfolding recordSizeOf_def by (auto split: list.splits)
    moreover have "length xs \<noteq> 1" if "\<nexists>x. xs = [x]" for xs :: "netcdf3Variable list"
      using that by (cases xs) auto
    then have "length ?rs \<noteq> 1" using False by blast
    ultimately show ?thesis by (simp only: padded len if_False)
  qed
qed

lemma readValues_floats:
  assumes "ncType w = NC_FLOAT" "list_all (\<lambda>x. x < 4294967296) vals"
    "take (4 * length vals) (drop start (fileBytes f)) = concat (map (nat_be 4) vals)"
    "start + 4 * length vals \<le> length (fileBytes f)" "elementsPerUnit w = length vals"
  shows "readValues f w start (elementsPerUnit w) = Inr (map float32Value vals)"
proof -
  have "drop start (fileBytes f) = concat (map (nat_be 4) vals) @ drop (4 * length vals) (drop start (fileBytes f))"
    using append_take_drop_id [of "4 * length vals" "drop start (fileBytes f)"] assms(3) by simp
  then have "readScalars NC_FLOAT 4 (length vals) (drop start (fileBytes f)) = map float32Value vals"
    using readScalars_floats [OF assms(2)] by metis
  with assms show ?thesis
    by (simp add: readValues_def elementBytes_def nc_consts mult.commute)
qed

lemma fileVariable_unique:
  assumes "variables f = map g xs" "x \<in> set xs" "distinct (map (\<lambda>y. varName (g y)) xs)"
  shows "fileVariable f (varName (g x)) = Inr (g x)"
proof -
  have "find (\<lambda>w. varName w = varName (g x)) (rev (map g xs)) = Some (g x)"
  proof -
    have "\<exists>w \<in> set (rev (map g xs)). varName w = varName (g x)" using assms(2) by auto
    then obtain w where w: "find (\<lambda>w. varName w = varName (g x)) (rev (map g xs)) = Some w"
      by (cases "find (\<lambda>w. varName w = varName (g x)) (rev (map g xs))") (auto simp: find_None_iff)
    then obtain i where i: "i < length (rev (map g xs))" "varName (rev (map g xs) ! i) = varName (g x)"
      "w = rev (map g xs) ! i"
      unfolding find_Some_iff by blast
    from nth_mem [OF i(1)] have "w \<in> set (rev (map g xs))" by (simp only: i(3))
    then have "w \<in> g ` set xs" "varName w = varName (g x)" using i(2,3) by simp_all
    then obtain y where "y \<in> set xs" "w = g y" "varName (g y) = varName (g x)" by auto
    moreover have "inj_on (\<lambda>y. varName (g y)) (set xs)" using assms(3) by (simp add: distinct_map)
    ultimately have "y = x" using assms(2) by (simp add: inj_onD)
    with \<open>w = g y\<close> have "w = g x" by simp
    with w show ?thesis by simp
  qed
  then show ?thesis by (simp add: fileVariable_def assms(1))
qed

lemma placed_reads:
  assumes vs: "list_all (placed spec H C R) vbs" and vb: "vb \<in> set vbs"
    and before: "sorted_wrt (before spec False) vbs" "sorted_wrt (before spec True) vbs"
    and size: "length blank = C + R * fsRecordCount spec"
    and bts: "fileBytes f = writeAll (concat (map (blocksOf spec R) vbs)) blank"
    and blk: "(start, vals) \<in> set (blocksOf spec R vb)"
    and w: "ncType w = NC_FLOAT" "elementsPerUnit w = length vals"
    and bits: "list_all (\<lambda>x. x < 4294967296) vals"
  shows "readValues f w start (elementsPerUnit w) = Inr (map float32Value vals)"
proof (rule readValues_floats [OF w(1) bits _ _ w(2)])
  have blocks: "list_all (inFile H (length blank)) (concat (map (blocksOf spec R) vbs))"
    using vs blocks_in unfolding size by (fastforce simp: list_all_iff)
  have mem: "(start, vals) \<in> set (concat (map (blocksOf spec R) vbs))" using vb blk by auto
  show "take (4 * length vals) (drop start (fileBytes f)) = concat (map (nat_be 4) vals)"
    unfolding bts by (rule writeAll_block [OF blocks all_blocks_apart [OF vs before] mem])
  have len: "length (fileBytes f) = length blank"
    unfolding bts using writeAll_other [OF blocks, of 0 0] by simp
  from blocks mem have "inFile H (length blank) (start, vals)" unfolding list_all_iff by blast
  then show "start + 4 * length vals \<le> length (fileBytes f)"
    unfolding len by (simp add: inFile_def)
qed

text \<open>The file the reader reports for a built file.\<close>

definition readBack :: "(jsText \<Rightarrow> byte list) \<Rightarrow> fixtureFileSpec \<Rightarrow> byte list \<Rightarrow> netcdf3File" where
  "readBack encode spec bts =
     \<lparr>fileBytes = bts, dimensions = dimensionsRead spec,
      globalAttributes = map attributeRead (fsGlobalAttributes spec),
      variables = map (variableRead spec) (zip (fsVariables spec) (fst (layoutOf encode spec))),
      recordCount = fsRecordCount spec, recordSize = fst (snd (layoutOf encode spec))\<rparr>"

lemma built_file_parses:
  assumes ok: "fixtureOk utf8 encode spec"
  obtains bts C blank where "buildNetcdf3 encode spec = Inr bts"
    "parseNetcdf3 utf8 bts = Inr (readBack encode spec bts)"
    "length (fst (layoutOf encode spec)) = length (fsVariables spec)"
    "list_all (placed spec (length (emitHeader encode spec (fst (layoutOf encode spec)))) C
        (fst (snd (layoutOf encode spec)))) (zip (fsVariables spec) (fst (layoutOf encode spec)))"
    "sorted_wrt (before spec False) (zip (fsVariables spec) (fst (layoutOf encode spec)))"
    "sorted_wrt (before spec True) (zip (fsVariables spec) (fst (layoutOf encode spec)))"
    "length blank = C + fst (snd (layoutOf encode spec)) * fsRecordCount spec"
    "bts = writeAll (concat (map (blocksOf spec (fst (snd (layoutOf encode spec))))
        (zip (fsVariables spec) (fst (layoutOf encode spec))))) blank"
    "length bts = snd (snd (layoutOf encode spec))"
proof -
  obtain begins R n where layout: "layoutOf encode spec = (begins, R, n)" by (metis prod_cases3)
  have data: "list_all (\<lambda>v. length (fvData v) = fixtureElements spec v
          * (if isRecordVariable spec v then fsRecordCount spec else 1)) (fsVariables spec)"
    and known: "list_all (\<lambda>v. list_all (\<lambda>nm. dimensionIndex spec nm \<noteq> None) (fvDimensions v)) (fsVariables spec)"
    and small: "list_all (\<lambda>b. b < 2147483648) begins"
    using ok layout by (auto simp: fixtureOk_def variableOk_def list_all_iff)
  obtain C where C: "n = C + R * fsRecordCount spec" "length begins = length (fsVariables spec)"
    "list_all (placed spec (length (emitHeader encode spec begins)) C R) (zip (fsVariables spec) begins)"
    "sorted_wrt (before spec False) (zip (fsVariables spec) begins)"
    "sorted_wrt (before spec True) (zip (fsVariables spec) begins)"
    "length (emitHeader encode spec begins) \<le> C"
    "R = (if length (filter (isRecordVariable spec) (fsVariables spec)) = 1
          then sum_list (map (blockBytes spec) (filter (isRecordVariable spec) (fsVariables spec)))
          else sum_list (map (\<lambda>v. padTo4 (blockBytes spec v)) (filter (isRecordVariable spec) (fsVariables spec))))"
    by (rule layout_placed [OF layout data])
  let ?header = "emitHeader encode spec begins" and ?vbs = "zip (fsVariables spec) begins"
  let ?blank = "?header @ replicate (n - length ?header) 0"
  let ?blocks = "concat (map (blocksOf spec R) ?vbs)"
  let ?bts = "writeAll ?blocks ?blank"
  have build: "buildNetcdf3 encode spec = Inr ?bts"
    unfolding buildNetcdf3_def using layout known data by (simp only: Let_def prod.case) simp
  have size: "length ?blank = C + R * fsRecordCount spec" using C(1,6) by simp
  have blocks: "list_all (inFile (length ?header) (length ?blank)) ?blocks"
    using C(3) blocks_in unfolding size by (fastforce simp: list_all_iff)
  have same: "take (length ?header) (drop 0 ?bts) = take (length ?header) (drop 0 ?blank)
      \<and> length ?bts = length ?blank"
    by (rule writeAll_other [OF blocks]) (use blocks in \<open>auto simp: list_all_iff inFile_def\<close>)
  then have "take (length ?header) ?bts = ?header" by simp
  then obtain post where post: "?bts = ?header @ post" by (metis append_take_drop_id)
  note readsD [OF reads_header [OF ok small C(2)], of "[]" post]
  then have "readHeader utf8 ?bts 0 = Inr ((fsRecordCount spec, dimensionsRead spec,
      map attributeRead (fsGlobalAttributes spec), map (variableRead spec) ?vbs), length ?header)"
    unfolding post by (simp only: append_Nil list.size add_0)
  moreover have "recordSizeOf (map (variableRead spec) ?vbs) = R"
    using recordSizeOf_layout [OF C(2)] C(7) by simp
  ultimately have "parseNetcdf3 utf8 ?bts = Inr (readBack encode spec ?bts)"
    by (simp only: parseNetcdf3_def readBack_def layout andThen_simps prod.case fst_conv snd_conv)
  moreover have parts: "fst (layoutOf encode spec) = begins" "fst (snd (layoutOf encode spec)) = R"
    "snd (snd (layoutOf encode spec)) = n"
    by (simp_all add: layout)
  moreover have "length ?bts = n" using same size C(1) by simp
  ultimately show thesis
    by (intro that [unfolded parts, OF build _ C(2-5) size refl])
qed

definition unitValues :: "fixtureFileSpec \<Rightarrow> fixtureVariable \<Rightarrow> nat \<Rightarrow> nat list" where
  "unitValues spec v r = take (fixtureElements spec v) (drop (r * fixtureElements spec v) (fvData v))"

lemma readBack_variable:
  assumes ok: "fixtureOk utf8 encode spec" and v: "v \<in> set (fsVariables spec)"
    and len: "length (fst (layoutOf encode spec)) = length (fsVariables spec)"
  obtains start where "(v, start) \<in> set (zip (fsVariables spec) (fst (layoutOf encode spec)))"
    "fileVariable (readBack encode spec bts) (fvName v) = Inr (variableRead spec (v, start))"
proof -
  let ?vbs = "zip (fsVariables spec) (fst (layoutOf encode spec))"
  have "v \<in> set (map fst ?vbs)" using v len by simp
  then obtain start where mem: "(v, start) \<in> set ?vbs" by auto
  have names: "map (\<lambda>y. varName (variableRead spec y)) ?vbs = map fvName (map fst ?vbs)"
    by (simp add: variableRead_def split_beta')
  have "distinct (map fvName (map fst ?vbs))" using ok len by (simp add: fixtureOk_def)
  then have "distinct (map (\<lambda>y. varName (variableRead spec y)) ?vbs)" by (simp only: names)
  moreover have "variables (readBack encode spec bts) = map (variableRead spec) ?vbs"
    by (simp add: readBack_def)
  ultimately have "fileVariable (readBack encode spec bts) (varName (variableRead spec (v, start)))
      = Inr (variableRead spec (v, start))"
    using mem by (intro fileVariable_unique)
  then show thesis using that [OF mem] by (simp add: variableRead_def)
qed

lemma unitValues_ok:
  assumes ok: "fixtureOk utf8 encode spec" and v: "v \<in> set (fsVariables spec)"
    and r: "if isRecordVariable spec v then r < fsRecordCount spec else r = 0"
  shows "length (unitValues spec v r) = fixtureElements spec v"
    and "list_all (\<lambda>x. x < 4294967296) (unitValues spec v r)"
proof -
  let ?n = "fixtureElements spec v"
  have data: "length (fvData v) = ?n * (if isRecordVariable spec v then fsRecordCount spec else 1)"
    and bits: "list_all (\<lambda>x. x < 4294967296) (fvData v)"
    using ok v by (auto simp: fixtureOk_def list_all_iff variableOk_def)
  have "r * ?n + ?n \<le> length (fvData v)"
  proof (cases "isRecordVariable spec v")
    case True
    then have "Suc r * ?n \<le> fsRecordCount spec * ?n" using r by (intro mult_le_mono1) simp
    with True data show ?thesis by (simp add: mult.commute add.commute)
  next
    case False
    with r data show ?thesis by simp
  qed
  then show "length (unitValues spec v r) = ?n" by (simp add: unitValues_def)
  show "list_all (\<lambda>x. x < 4294967296) (unitValues spec v r)"
    using bits by (auto simp: unitValues_def list_all_iff dest: in_set_takeD in_set_dropD)
qed

lemma first_unit:
  assumes "fixtureOk utf8 encode spec" "v \<in> set (fsVariables spec)" "\<not> isRecordVariable spec v"
  shows "unitValues spec v 0 = fvData v"
  using assms by (auto simp: unitValues_def fixtureOk_def list_all_iff)

lemma built_file_reads:
  assumes ok: "fixtureOk utf8 encode spec"
  obtains bts where "buildNetcdf3 encode spec = Inr bts"
    "parseNetcdf3 utf8 bts = Inr (readBack encode spec bts)"
    "length bts = snd (snd (layoutOf encode spec))"
    "length (fst (layoutOf encode spec)) = length (fsVariables spec)"
    "\<forall>v start r. (v, start) \<in> set (zip (fsVariables spec) (fst (layoutOf encode spec)))
      \<longrightarrow> (if isRecordVariable spec v then r < fsRecordCount spec else r = 0)
      \<longrightarrow> readValues (readBack encode spec bts) (variableRead spec (v, start))
            (start + r * fst (snd (layoutOf encode spec))) (fixtureElements spec v)
          = Inr (map float32Value (unitValues spec v r))"
proof -
  obtain bts C blank where built: "buildNetcdf3 encode spec = Inr bts"
      "parseNetcdf3 utf8 bts = Inr (readBack encode spec bts)"
    and len: "length (fst (layoutOf encode spec)) = length (fsVariables spec)"
    and lay: "list_all (placed spec (length (emitHeader encode spec (fst (layoutOf encode spec)))) C
        (fst (snd (layoutOf encode spec)))) (zip (fsVariables spec) (fst (layoutOf encode spec)))"
      "sorted_wrt (before spec False) (zip (fsVariables spec) (fst (layoutOf encode spec)))"
      "sorted_wrt (before spec True) (zip (fsVariables spec) (fst (layoutOf encode spec)))"
      "length blank = C + fst (snd (layoutOf encode spec)) * fsRecordCount spec"
      "bts = writeAll (concat (map (blocksOf spec (fst (snd (layoutOf encode spec))))
        (zip (fsVariables spec) (fst (layoutOf encode spec))))) blank"
    and size: "length bts = snd (snd (layoutOf encode spec))"
    by (rule built_file_parses [OF ok])
  let ?f = "readBack encode spec bts" and ?R = "fst (snd (layoutOf encode spec))"
  let ?vbs = "zip (fsVariables spec) (fst (layoutOf encode spec))"
  have bts: "fileBytes ?f = writeAll (concat (map (blocksOf spec ?R) ?vbs)) blank"
    using lay(5) by (simp add: readBack_def)
  have "readValues ?f (variableRead spec (v, start)) (start + r * ?R) (fixtureElements spec v)
      = Inr (map float32Value (unitValues spec v r))"
    if mem: "(v, start) \<in> set ?vbs"
      and r: "if isRecordVariable spec v then r < fsRecordCount spec else r = 0" for v start r
  proof -
    have v: "v \<in> set (fsVariables spec)" using mem by (rule set_zip_leftD)
    have "(start + r * ?R, unitValues spec v r) \<in> set (blocksOf spec ?R (v, start))"
      using r first_unit [OF ok v] by (auto simp: blocksOf_def Let_def unitValues_def)
    from placed_reads [OF lay(1) mem lay(2-4) bts this, of "variableRead spec (v, start)"]
      unitValues_ok [OF ok v r]
    show ?thesis by (simp add: variableRead_def)
  qed
  then show thesis by (intro that [OF built size len] allI impI)
qed

text \<open>Everything a caller can ask of the file, by name.\<close>

lemma built_file_values:
  assumes ok: "fixtureOk utf8 encode spec"
  obtains bts where "buildNetcdf3 encode spec = Inr bts"
    "parseNetcdf3 utf8 bts = Inr (readBack encode spec bts)"
    "length bts = snd (snd (layoutOf encode spec))"
    "\<forall>v \<in> set (fsVariables spec). \<exists>start. fileVariable (readBack encode spec bts) (fvName v)
        = Inr (variableRead spec (v, start))"
    "\<forall>v \<in> set (fsVariables spec). \<not> isRecordVariable spec v
       \<longrightarrow> readFixedNumeric (readBack encode spec bts) (fvName v) = Inr (map float32Value (fvData v))"
    "\<forall>v \<in> set (fsVariables spec). \<forall>r < fsRecordCount spec. isRecordVariable spec v
       \<longrightarrow> readRecordBlock (readBack encode spec bts) (fvName v) r = Inr (map float32Value (unitValues spec v r))"
    "map varName (variables (readBack encode spec bts)) = map fvName (fsVariables spec)"
    "map attributes (variables (readBack encode spec bts)) = map (\<lambda>v. map attributeRead (fvAttributes v)) (fsVariables spec)"
proof -
  obtain bts where built: "buildNetcdf3 encode spec = Inr bts"
      "parseNetcdf3 utf8 bts = Inr (readBack encode spec bts)"
      "length bts = snd (snd (layoutOf encode spec))"
    and len: "length (fst (layoutOf encode spec)) = length (fsVariables spec)"
    and unit: "\<forall>v start r. (v, start) \<in> set (zip (fsVariables spec) (fst (layoutOf encode spec)))
      \<longrightarrow> (if isRecordVariable spec v then r < fsRecordCount spec else r = 0)
      \<longrightarrow> readValues (readBack encode spec bts) (variableRead spec (v, start))
            (start + r * fst (snd (layoutOf encode spec))) (fixtureElements spec v)
          = Inr (map float32Value (unitValues spec v r))"
    by (rule built_file_reads [OF ok])
  let ?f = "readBack encode spec bts" and ?vbs = "zip (fsVariables spec) (fst (layoutOf encode spec))"
  note var = readBack_variable [OF ok _ len, of _ bts]
  have "\<exists>start. fileVariable ?f (fvName v) = Inr (variableRead spec (v, start))" if "v \<in> set (fsVariables spec)" for v
    by (rule var [OF that]) blast
  moreover have "readFixedNumeric ?f (fvName v) = Inr (map float32Value (fvData v))"
    if v: "v \<in> set (fsVariables spec)" and nr: "\<not> isRecordVariable spec v" for v
    by (rule var [OF v]) (use unit [rule_format, of v _ 0] nr first_unit [OF ok v nr] in
      \<open>simp add: readFixedNumeric_def variableRead_def\<close>)
  moreover have "readRecordBlock ?f (fvName v) r = Inr (map float32Value (unitValues spec v r))"
    if v: "v \<in> set (fsVariables spec)" and r: "r < fsRecordCount spec" "isRecordVariable spec v" for v r
    by (rule var [OF v]) (use unit [rule_format, of v _ r] r in
      \<open>simp add: readRecordBlock_def variableRead_def readBack_def\<close>)
  moreover have vs: "map fst ?vbs = fsVariables spec" using len by simp
  have "map varName (variables ?f) = map fvName (map fst ?vbs)"
    "map attributes (variables ?f) = map (\<lambda>v. map attributeRead (fvAttributes v)) (map fst ?vbs)"
    by (simp_all add: readBack_def variableRead_def split_beta')
  ultimately show thesis using that [OF built] unfolding vs by blast
qed

text \<open>C38: A built file is read back whole, every value of every variable included.\<close>

theorem netcdf_fixture_roundtrip:
  assumes ok: "fixtureOk utf8 encode spec"
  shows "\<exists>bts f. buildNetcdf3 encode spec = Inr bts \<and> parseNetcdf3 utf8 bts = Inr f
    \<and> recordCount f = fsRecordCount spec
    \<and> dimensions f = map (dimensionRead (fsRecordCount spec)) (fsDimensions spec)
    \<and> globalAttributes f = map attributeRead (fsGlobalAttributes spec)
    \<and> map varName (variables f) = map fvName (fsVariables spec)
    \<and> map attributes (variables f) = map (\<lambda>v. map attributeRead (fvAttributes v)) (fsVariables spec)
    \<and> (\<forall>v \<in> set (fsVariables spec). \<not> isRecordVariable spec v
          \<longrightarrow> readFixedNumeric f (fvName v) = Inr (map float32Value (fvData v)))
    \<and> (\<forall>v \<in> set (fsVariables spec). \<forall>r < fsRecordCount spec. isRecordVariable spec v
          \<longrightarrow> readRecordBlock f (fvName v) r = Inr (map float32Value (unitValues spec v r)))"
  by (rule built_file_values [OF ok], intro exI conjI, assumption+) (simp_all add: readBack_def)

definition sampleSpec :: fixtureFileSpec where
  "sampleSpec =
     \<lparr>fsDimensions = [\<lparr>fdName = [116], fdLength = None\<rparr>, \<lparr>fdName = [120], fdLength = Some 2\<rparr>],
      fsGlobalAttributes = [\<lparr>faName = [97], faValue = Fa_text [104, 105]\<rparr>],
      fsVariables = [\<lparr>fvName = [120], fvDimensions = [[120]], fvAttributes = [], fvData = [0x3F800000, 0x40000000]\<rparr>,
                     \<lparr>fvName = [118], fvDimensions = [[116], [120]],
                      fvAttributes = [\<lparr>faName = [102], faValue = Fa_numbers [0xC2C80000]\<rparr>],
                      fvData = [0, 0x3F000000, 0x7F800000, 0x41200000]\<rparr>],
      fsRecordCount = 2\<rparr>"

text \<open>A two-record file of an axis and a record variable.\<close>

theorem netcdf_fixture_roundtrip_witness:
  "\<exists>bts f. buildNetcdf3 (map word_of_int) sampleSpec = Inr bts \<and> parseNetcdf3 (map uint) bts = Inr f
    \<and> recordCount f = 2 \<and> map varName (variables f) = [[120], [118]]
    \<and> readFixedNumeric f [120] = Inr [Finite 1, Finite 2]
    \<and> readRecordBlock f [118] 1 = Inr [Infinite False, Finite 10]"
proof -
  have floats: "float32Value 0x3F800000 = Finite 1" "float32Value 0x40000000 = Finite 2"
    "float32Value 0x7F800000 = Infinite False" "float32Value 0x41200000 = Finite 10"
    by (simp_all add: float32Value_def ieeeValue_def Let_def)
  have "fixtureOk (map uint) (map word_of_int) sampleSpec"
    by (simp add: sampleSpec_def fixtureOk_def dimensionOk_def attributesOk_def attributeOk_def variableOk_def
        nameOk_def dimensionOf_def dimensionIndex_def fixtureElements_def isRecordVariable_def padTo4_def
        layoutOf_def emitHeader_bytes headerBytes_def listBytes_def dimensionBytes_def nameBytes_def
        length_padding variableBytes_def attributeBytes_def payloadBytes_def Let_def)
  note rt = netcdf_fixture_roundtrip [OF this]
  have kinds: "\<not> isRecordVariable sampleSpec (fsVariables sampleSpec ! 0)"
    "isRecordVariable sampleSpec (fsVariables sampleSpec ! 1)"
    by (simp_all add: sampleSpec_def isRecordVariable_def dimensionOf_def dimensionIndex_def)
  have vals: "map float32Value (fvData (fsVariables sampleSpec ! 0)) = [Finite 1, Finite 2]"
    "map float32Value (unitValues sampleSpec (fsVariables sampleSpec ! 1) 1) = [Infinite False, Finite 10]"
    by (simp_all add: sampleSpec_def floats unitValues_def fixtureElements_def dimensionOf_def dimensionIndex_def)
  have parts: "fsVariables sampleSpec ! 0 \<in> set (fsVariables sampleSpec)"
    "fsVariables sampleSpec ! 1 \<in> set (fsVariables sampleSpec)" "(1::nat) < fsRecordCount sampleSpec"
    "fsRecordCount sampleSpec = 2" "map fvName (fsVariables sampleSpec) = [[120], [118]]"
    "fvName (fsVariables sampleSpec ! 0) = [120]" "fvName (fsVariables sampleSpec ! 1) = [118]"
    by (simp_all add: sampleSpec_def)
  from rt kinds parts show ?thesis unfolding vals [symmetric] parts(4) parts(5) parts(6) [symmetric] parts(7) [symmetric]
    by metis
qed

end
