(* ===== verification/Cams_Zip.thy ===== *)
theory Cams_Zip
  imports Netcdf3 Terrain_Decode
begin

text \<open>
  \<open>src/air-quality/cams/cams-zip.ts\<close>, the single-entry archive reader of the CAMS pipeline, and
  the archive half of \<open>netcdf3-fixture.builder.ts\<close>. Inflating, deflating, the UTF-8 codec and the
  Unicode classes of the name filter are arguments.
\<close>

section \<open>The reader\<close>

definition MAX_INFLATED_BYTES :: nat where "MAX_INFLATED_BYTES = 67108864"
definition EOCD_SIGNATURE :: nat where "EOCD_SIGNATURE = 0x06054b50"
definition CENTRAL_DIRECTORY_SIGNATURE :: nat where "CENTRAL_DIRECTORY_SIGNATURE = 0x02014b50"
definition LOCAL_HEADER_SIGNATURE :: nat where "LOCAL_HEADER_SIGNATURE = 0x04034b50"
definition EOCD_MIN_BYTES :: nat where "EOCD_MIN_BYTES = 22"
definition EOCD_SEARCH_WINDOW :: nat where "EOCD_SEARCH_WINDOW = EOCD_MIN_BYTES + 0xffff"

lemmas zip_consts = MAX_INFLATED_BYTES_def EOCD_SIGNATURE_def CENTRAL_DIRECTORY_SIGNATURE_def
  LOCAL_HEADER_SIGNATURE_def EOCD_MIN_BYTES_def EOCD_SEARCH_WINDOW_def

record zipSingleEntry =
  zipName :: jsText
  zipMethod :: nat
  zipBytes :: "byte list"

text \<open>What the platform and \<open>node:zlib\<close> give: \<open>inflateRawSync\<close> of a body under a length cap.\<close>

record zipCodec =
  zcUtf8 :: "byte list \<Rightarrow> jsText"
  zcIsControl :: "int \<Rightarrow> bool"
  zcInflateRaw :: "byte list \<Rightarrow> nat \<Rightarrow> byte list option"

text \<open>\<open>replace(/[\p{Cc}\p{Cf}]/gu, U+FFFD)\<close>, which goes by code points.\<close>

fun replaceControls :: "(int \<Rightarrow> bool) \<Rightarrow> jsText \<Rightarrow> jsText" where
  "replaceControls P [] = []"
| "replaceControls P [c] = [if P c then 0xFFFD else c]"
| "replaceControls P (c # d # r) =
     (if 0xD800 \<le> c \<and> c \<le> 0xDBFF \<and> 0xDC00 \<le> d \<and> d \<le> 0xDFFF
      then (if P (0x10000 + (c - 0xD800) * 0x400 + (d - 0xDC00)) then 0xFFFD # replaceControls P r
            else c # d # replaceControls P r)
      else (if P c then 0xFFFD else c) # replaceControls P (d # r))"

definition getUint16 :: "byte list \<Rightarrow> nat \<Rightarrow> camsContractError + nat" where
  "getUint16 bs i = orThrow (view_le 2 bs i) Range_error"

definition getUint32 :: "byte list \<Rightarrow> nat \<Rightarrow> camsContractError + nat" where
  "getUint32 bs i = orThrow (view_le 4 bs i) Range_error"

text \<open>Backwards from the last place the record could start.\<close>

definition findEocd :: "byte list \<Rightarrow> nat option" where
  "findEocd a = find (\<lambda>off. view_le 4 a off = Some EOCD_SIGNATURE)
     (rev [length a - EOCD_SEARCH_WINDOW ..< Suc (length a - EOCD_MIN_BYTES)])"

definition readCentral :: "byte list \<Rightarrow> nat \<Rightarrow> camsContractError + (nat \<times> nat \<times> nat \<times> nat \<times> nat)" where
  "readCentral a dir =
     andThen (require (dir + 46 \<le> length a) (Zip ''directory outside'')) (\<lambda>_.
     andThen (getUint32 a dir) (\<lambda>sig.
     andThen (require (sig = CENTRAL_DIRECTORY_SIGNATURE) (Zip ''directory signature'')) (\<lambda>_.
     andThen (getUint16 a (dir + 10)) (\<lambda>zmethod.
     andThen (getUint32 a (dir + 20)) (\<lambda>compressedSize.
     andThen (getUint32 a (dir + 24)) (\<lambda>uncompressedSize.
     andThen (getUint16 a (dir + 28)) (\<lambda>nameLength.
     andThen (getUint32 a (dir + 42)) (\<lambda>localOffset.
     andThen (require (compressedSize \<noteq> 0xffffffff \<and> uncompressedSize \<noteq> 0xffffffff \<and> localOffset \<noteq> 0xffffffff)
        (Zip ''zip64'')) (\<lambda>_.
     Inr (zmethod, compressedSize, uncompressedSize, nameLength, localOffset))))))))))"

definition readBody :: "byte list \<Rightarrow> nat \<Rightarrow> nat \<Rightarrow> camsContractError + byte list" where
  "readBody a localOffset compressedSize =
     andThen (require (localOffset + 30 \<le> length a) (Zip ''local outside'')) (\<lambda>_.
     andThen (getUint32 a localOffset) (\<lambda>sig.
     andThen (require (sig = LOCAL_HEADER_SIGNATURE) (Zip ''local signature'')) (\<lambda>_.
     andThen (getUint16 a (localOffset + 26)) (\<lambda>localNameLength.
     andThen (getUint16 a (localOffset + 28)) (\<lambda>localExtraLength.
     let dataStart = localOffset + 30 + localNameLength + localExtraLength in
     andThen (require (dataStart + compressedSize \<le> length a) (Zip ''body outside'')) (\<lambda>_.
     Inr (take compressedSize (drop dataStart a))))))))"

definition unpackBody ::
  "zipCodec \<Rightarrow> nat \<Rightarrow> nat \<Rightarrow> nat \<Rightarrow> nat \<Rightarrow> byte list \<Rightarrow> camsContractError + byte list" where
  "unpackBody codec cap zmethod compressedSize uncompressedSize rawBody =
     (if zmethod = 0 then
        andThen (require (compressedSize = uncompressedSize) (Zip ''stored sizes'')) (\<lambda>_. Inr rawBody)
      else if zmethod = 8 then
        andThen (require (uncompressedSize \<le> cap) (Zip ''declared size over cap'')) (\<lambda>_.
        andThen (orThrow (zcInflateRaw codec rawBody cap) (Zip ''inflate'')) (\<lambda>inflated.
        andThen (require (length inflated = uncompressedSize) (Zip ''inflated size'')) (\<lambda>_.
        Inr inflated)))
      else Inl (Zip ''method''))"

definition extractSingleZipEntry ::
  "zipCodec \<Rightarrow> nat option \<Rightarrow> byte list \<Rightarrow> camsContractError + zipSingleEntry" where
  "extractSingleZipEntry codec maxInflatedBytes a =
     andThen (require (length a \<ge> EOCD_MIN_BYTES) (Zip ''too small'')) (\<lambda>_.
     andThen (orThrow (findEocd a) (Zip ''no end record'')) (\<lambda>eocd.
     andThen (getUint16 a (eocd + 10)) (\<lambda>entryCount.
     andThen (getUint32 a (eocd + 16)) (\<lambda>dir.
     andThen (require (entryCount \<noteq> 0xffff \<and> dir \<noteq> 0xffffffff) (Zip ''zip64'')) (\<lambda>_.
     andThen (require (entryCount = 1) (Zip ''entry count'')) (\<lambda>_.
     andThen (readCentral a dir) (\<lambda>(zmethod, compressedSize, uncompressedSize, nameLength, localOffset).
     let nm = take 128 (replaceControls (zcIsControl codec)
                (zcUtf8 codec (take nameLength (drop (dir + 46) a)))) in
     andThen (readBody a localOffset compressedSize) (\<lambda>rawBody.
     andThen (unpackBody codec (case maxInflatedBytes of None \<Rightarrow> MAX_INFLATED_BYTES | Some c \<Rightarrow> c)
        zmethod compressedSize uncompressedSize rawBody) (\<lambda>bts.
     Inr \<lparr>zipName = nm, zipMethod = zmethod, zipBytes = bts\<rparr>)))))))))"

section \<open>The builder\<close>

record zipFixtureEntry =
  zfName :: jsText
  zfBytes :: "byte list"

definition nat_le :: "nat \<Rightarrow> nat \<Rightarrow> byte list" where
  "nat_le n v = rev (nat_be n v)"

text \<open>The checksum, one bit at a time: \<open>(crc >>> 1) ^ (0xedb88320 & -(crc & 1))\<close>.\<close>

definition crcStep :: "32 word \<Rightarrow> 32 word" where
  "crcStep crc = drop_bit 1 crc XOR (0xedb88320 AND - (crc AND 1))"

definition zipCrc32 :: "byte list \<Rightarrow> nat" where
  "zipCrc32 bytes =
     unat (fold (\<lambda>b crc. (crcStep ^^ 8) (crc XOR ucast b)) bytes 0xffffffff XOR 0xffffffff)"

text \<open>The \<open>local\<close> and \<open>central\<close> parts of one entry at an offset.\<close>

definition localPart :: "(jsText \<Rightarrow> byte list) \<Rightarrow> nat \<Rightarrow> (byte list \<Rightarrow> byte list) \<Rightarrow> zipFixtureEntry \<Rightarrow> byte list" where
  "localPart encode zmethod deflate e =
     (let nm = encode (zfName e); body = (if zmethod = 8 then deflate (zfBytes e) else zfBytes e)
      in nat_le 4 LOCAL_HEADER_SIGNATURE @ nat_le 2 20 @ nat_le 2 0 @ nat_le 2 zmethod @ nat_le 4 0
         @ nat_le 4 (zipCrc32 (zfBytes e)) @ nat_le 4 (length body) @ nat_le 4 (length (zfBytes e))
         @ nat_le 2 (length nm) @ nat_le 2 0 @ nm @ body)"

definition centralPart ::
  "(jsText \<Rightarrow> byte list) \<Rightarrow> nat \<Rightarrow> (byte list \<Rightarrow> byte list) \<Rightarrow> nat \<Rightarrow> zipFixtureEntry \<Rightarrow> byte list" where
  "centralPart encode zmethod deflate offset e =
     (let nm = encode (zfName e); body = (if zmethod = 8 then deflate (zfBytes e) else zfBytes e)
      in nat_le 4 CENTRAL_DIRECTORY_SIGNATURE @ nat_le 2 20 @ nat_le 2 20 @ nat_le 2 0 @ nat_le 2 zmethod
         @ nat_le 4 0 @ nat_le 4 (zipCrc32 (zfBytes e)) @ nat_le 4 (length body)
         @ nat_le 4 (length (zfBytes e)) @ nat_le 2 (length nm) @ replicate 12 0 @ nat_le 4 offset @ nm)"

fun zipParts ::
  "(jsText \<Rightarrow> byte list) \<Rightarrow> nat \<Rightarrow> (byte list \<Rightarrow> byte list) \<Rightarrow> nat \<Rightarrow> zipFixtureEntry list
    \<Rightarrow> byte list \<times> byte list" where
  "zipParts encode zmethod deflate offset [] = ([], [])"
| "zipParts encode zmethod deflate offset (e # es) =
     (let lp = localPart encode zmethod deflate e;
          (ls, cs) = zipParts encode zmethod deflate (offset + length lp) es
      in (lp @ ls, centralPart encode zmethod deflate offset e @ cs))"

definition buildZipArchive ::
  "(jsText \<Rightarrow> byte list) \<Rightarrow> nat \<Rightarrow> (byte list \<Rightarrow> byte list) \<Rightarrow> zipFixtureEntry list \<Rightarrow> byte list" where
  "buildZipArchive encode zmethod deflate entries =
     (let (ls, cs) = zipParts encode zmethod deflate 0 entries
      in ls @ cs @ nat_le 4 EOCD_SIGNATURE @ nat_le 4 0 @ nat_le 2 (length entries)
         @ nat_le 2 (length entries) @ nat_le 4 (length cs) @ nat_le 4 (length ls) @ nat_le 2 0)"

section \<open>The reader stays inside the archive\<close>

lemma getUint16_in: "i + 2 \<le> length bs \<Longrightarrow> \<exists>v. getUint16 bs i = Inr v"
  by (simp add: getUint16_def view_le_def)

lemma getUint32_in: "i + 4 \<le> length bs \<Longrightarrow> \<exists>v. getUint32 bs i = Inr v"
  by (simp add: getUint32_def view_le_def)

lemma findEocd_in:
  assumes "findEocd a = Some off" "EOCD_MIN_BYTES \<le> length a"
  shows "off + 22 \<le> length a"
proof -
  have "off \<in> set (rev [length a - EOCD_SEARCH_WINDOW ..< Suc (length a - EOCD_MIN_BYTES)])"
    using find_SomeD [OF assms(1) [unfolded findEocd_def]] by (rule conjunct1)
  then have "off \<le> length a - EOCD_MIN_BYTES" by (simp only: set_rev set_upt) simp
  with assms(2) show ?thesis by (simp add: EOCD_MIN_BYTES_def)
qed

lemma readCentral_in: "readCentral a dir \<noteq> Inl Range_error"
proof (cases "dir + 46 \<le> length a")
  case True
  then obtain v1 v2 v3 v4 v5 v6 where "getUint32 a dir = Inr v1" "getUint16 a (dir + 10) = Inr v2"
    "getUint32 a (dir + 20) = Inr v3" "getUint32 a (dir + 24) = Inr v4" "getUint16 a (dir + 28) = Inr v5"
    "getUint32 a (dir + 42) = Inr v6"
    using getUint32_in [of dir a] getUint16_in [of "dir + 10" a] getUint32_in [of "dir + 20" a]
      getUint32_in [of "dir + 24" a] getUint16_in [of "dir + 28" a] getUint32_in [of "dir + 42" a]
    by auto
  then show ?thesis by (simp add: readCentral_def andThen_eq_Inl)
qed (simp add: readCentral_def)

lemma readBody_in: "readBody a off n \<noteq> Inl Range_error"
proof (cases "off + 30 \<le> length a")
  case True
  then obtain v1 v2 v3 where "getUint32 a off = Inr v1" "getUint16 a (off + 26) = Inr v2"
    "getUint16 a (off + 28) = Inr v3"
    using getUint32_in [of off a] getUint16_in [of "off + 26" a] getUint16_in [of "off + 28" a] by auto
  then show ?thesis by (simp add: readBody_def andThen_eq_Inl Let_def)
qed (simp add: readBody_def)

lemma unpackBody_in: "unpackBody codec cap m c u b \<noteq> Inl Range_error"
  by (auto simp: unpackBody_def andThen_eq_Inl orThrow_def split: option.splits)

lemma unpackBody_bounded:
  "unpackBody codec cap m c u b = Inr bts \<Longrightarrow> length bts \<le> max (length b) cap"
  by (auto simp: unpackBody_def andThen_eq_Inr split: if_splits)

lemma readBody_bounded: "readBody a off n = Inr b \<Longrightarrow> length b \<le> length a"
  by (auto simp: readBody_def andThen_eq_Inr Let_def)

text \<open>
  Whatever the bytes are, the archive reader reads only inside them, and what it returns is never
  longer than the archive or the inflate cap.
\<close>

theorem zip_reads_bounded:
  "extractSingleZipEntry codec (Some cap) a \<noteq> Inl Range_error
   \<and> (case extractSingleZipEntry codec (Some cap) a of
        Inl e \<Rightarrow> True | Inr z \<Rightarrow> length (zipBytes z) \<le> max (length a) cap)"
proof (cases "length a \<ge> EOCD_MIN_BYTES")
  case False
  then show ?thesis by (simp add: extractSingleZipEntry_def)
next
  case True
  show ?thesis
  proof (cases "findEocd a")
    case None
    with True show ?thesis by (simp add: extractSingleZipEntry_def)
  next
    case (Some off)
    then have "off + 22 \<le> length a" using True by (rule findEocd_in)
    then obtain v1 v2 where v: "getUint16 a (off + 10) = Inr v1" "getUint32 a (off + 16) = Inr v2"
      using getUint16_in [of "off + 10" a] getUint32_in [of "off + 16" a] by auto
    let ?tail = "andThen (readCentral a v2) (\<lambda>(zmethod, compressedSize, uncompressedSize, nameLength, localOffset).
       andThen (readBody a localOffset compressedSize) (\<lambda>rawBody.
       andThen (unpackBody codec cap zmethod compressedSize uncompressedSize rawBody) (\<lambda>bts.
       Inr \<lparr>zipName = take 128 (replaceControls (zcIsControl codec)
                (zcUtf8 codec (take nameLength (drop (v2 + 46) a)))), zipMethod = zmethod, zipBytes = bts\<rparr>)))"
    have "?tail \<noteq> Inl Range_error"
      using readCentral_in readBody_in unpackBody_in by (fastforce simp: andThen_eq_Inl split: prod.splits)
    moreover have "length (zipBytes z) \<le> max (length a) cap" if "?tail = Inr z" for z
      using that readBody_bounded unpackBody_bounded
      by (fastforce simp: andThen_eq_Inr split: prod.splits intro: order_trans [OF _ max.mono])
    ultimately show ?thesis
      using True Some v by (auto simp: extractSingleZipEntry_def Let_def require_def split: sum.splits)
  qed
qed

section \<open>The two checksums\<close>

lemma crcStep_if: "crcStep v = drop_bit 1 v XOR (if bit v 0 then 0xedb88320 else 0)"
proof -
  have "v AND 1 = (if bit v 0 then 1 else 0)"
    by (simp add: and_one_eq bit_0 mod_2_eq_odd)
  then show ?thesis by (simp add: crcStep_def)
qed

lemma crcBits_step: "crcBits (Suc n) v = crcBits n (crcStep v)"
proof -
  have "v AND 1 = (if bit v 0 then 1 else 0)"
    by (simp add: and_one_eq bit_0 mod_2_eq_odd)
  then show ?thesis by (simp add: crcStep_if xor.commute)
qed

lemma crcBits_pow: "crcBits n v = (crcStep ^^ n) v"
  by (induction n arbitrary: v) (simp_all add: crcBits_step funpow_swap1 del: crcBits.simps(2))

lemma crcStep_xor: "crcStep (a XOR b) = crcStep a XOR crcStep b"
  by (cases "bit a 0"; cases "bit b 0")
    (simp_all add: crcStep_if bit_xor_iff drop_bit_xor xor.assoc xor.left_commute xor.commute del: bit_0)

lemma crcSteps_xor: "(crcStep ^^ n) (a XOR b) = (crcStep ^^ n) a XOR (crcStep ^^ n) b"
  by (induction n arbitrary: a b) (simp_all add: crcStep_xor)

text \<open>As long as the low bits are clear, a step only shifts.\<close>

lemma crcSteps_shift: "(\<And>k. k < n \<Longrightarrow> \<not> bit v k) \<Longrightarrow> (crcStep ^^ n) v = drop_bit n v"
proof (induction n arbitrary: v)
  case 0
  then show ?case by simp
next
  case (Suc n)
  have "crcStep v = drop_bit 1 v" using Suc.prems [of 0] by (simp add: crcStep_if del: bit_0)
  moreover have "(crcStep ^^ n) (drop_bit 1 v) = drop_bit n (drop_bit 1 v)"
    by (rule Suc.IH) (use Suc.prems in \<open>simp add: bit_drop_bit_eq\<close>)
  ultimately show ?case by (simp add: funpow_swap1 del: funpow.simps) (simp add: funpow_swap1)
qed

lemma crc_byte: "(crcStep ^^ 8) v = getCrcTable ! unat (v AND 0xff) XOR drop_bit 8 v"
proof -
  let ?lo = "v AND 0xff" and ?hi = "v AND NOT 0xff"
  have mask: "(0xff :: 32 word) = mask 8" by (simp add: mask_eq_exp_minus_1)
  have "v = ?lo XOR ?hi" by (rule bit_word_eqI) (auto simp: bit_simps)
  then have "(crcStep ^^ 8) v = (crcStep ^^ 8) ?lo XOR (crcStep ^^ 8) ?hi" by (metis crcSteps_xor)
  also have "(crcStep ^^ 8) ?hi = drop_bit 8 ?hi"
    by (rule crcSteps_shift) (simp add: mask bit_simps)
  also have "drop_bit 8 ?hi = drop_bit 8 v"
    by (rule bit_word_eqI) (auto simp: mask bit_simps dest: bit_imp_le_length)
  also have "(crcStep ^^ 8) ?lo = getCrcTable ! unat ?lo"
  proof -
    have "?lo \<le> 0xff" by (rule word_and_le1)
    then have "unat ?lo < 256" by (simp add: word_le_nat_alt)
    then show ?thesis by (simp add: getCrcTable_def crcBits_pow)
  qed
  finally show ?thesis .
qed

text \<open>
  The checksum of the archive builder, a bit at a time, and the table-driven checksum of the
  terrain tile fixtures are one function.
\<close>

theorem zip_crc_is_png_crc: "zipCrc32 bytes = crc32 bytes"
proof -
  have "(\<lambda>b crc. (crcStep ^^ 8) (crc XOR ucast b)) =
      (\<lambda>(b :: byte) crc. getCrcTable ! unat ((crc XOR ucast b) AND 0xff) XOR drop_bit 8 crc)"
  proof (intro ext)
    fix b :: byte and crc :: "32 word"
    have "drop_bit 8 (ucast b :: 32 word) = 0"
      by (rule bit_word_eqI) (auto simp: bit_simps dest: bit_imp_le_length)
    then show "(crcStep ^^ 8) (crc XOR ucast b)
        = getCrcTable ! unat ((crc XOR ucast b) AND 0xff) XOR drop_bit 8 crc"
      by (simp only: crc_byte drop_bit_xor) simp
  qed
  then show ?thesis by (simp add: zipCrc32_def crc32_def Let_def)
qed

section \<open>A built archive is extracted again\<close>

lemma length_nat_le [simp]: "length (nat_le n v) = n"
  by (simp add: nat_le_def)

lemma view_le_at:
  "i = length pre \<Longrightarrow> v < 256 ^ n \<Longrightarrow> view_le n (pre @ nat_le n v @ post) i = Some v"
  by (simp add: view_le_def nat_le_def be_nat_nat_be)

lemma getUint32_at: "i = length pre \<Longrightarrow> v < 4294967296 \<Longrightarrow> getUint32 (pre @ nat_le 4 v @ post) i = Inr v"
  by (simp add: getUint32_def view_le_at)

lemma getUint16_at: "i = length pre \<Longrightarrow> v < 65536 \<Longrightarrow> getUint16 (pre @ nat_le 2 v @ post) i = Inr v"
  by (simp add: getUint16_def view_le_at)

text \<open>The sizes for which the fixed-width fields of the format suffice, without ZIP64.\<close>

definition archiveFits :: "(jsText \<Rightarrow> byte list) \<Rightarrow> nat \<Rightarrow> (byte list \<Rightarrow> byte list) \<Rightarrow> zipFixtureEntry \<Rightarrow> bool" where
  "archiveFits encode zmethod deflate e \<longleftrightarrow>
     length (encode (zfName e)) < 65536
     \<and> length (zfBytes e) < 4294967295
     \<and> length (localPart encode zmethod deflate e) < 4294967295"

lemma localPart_body:
  assumes "archiveFits encode zmethod deflate e"
  defines "body \<equiv> (if zmethod = 8 then deflate (zfBytes e) else zfBytes e)"
  shows "readBody (localPart encode zmethod deflate e @ post) 0 (length body) = Inr body"
proof -
  let ?nm = "encode (zfName e)"
  let ?h1 = "nat_le 4 LOCAL_HEADER_SIGNATURE @ nat_le 2 20 @ nat_le 2 0 @ nat_le 2 zmethod @ nat_le 4 0
         @ nat_le 4 (zipCrc32 (zfBytes e)) @ nat_le 4 (length body) @ nat_le 4 (length (zfBytes e))"
  let ?a = "localPart encode zmethod deflate e @ post"
  have a: "?a = ?h1 @ nat_le 2 (length ?nm) @ nat_le 2 0 @ ?nm @ body @ post"
    by (simp add: localPart_def Let_def body_def)
  have nm: "length ?nm < 65536" using assms(1) by (simp add: archiveFits_def)
  have "getUint32 ?a 0 = Inr LOCAL_HEADER_SIGNATURE"
    using getUint32_at [of 0 "[]" LOCAL_HEADER_SIGNATURE] by (simp add: a LOCAL_HEADER_SIGNATURE_def)
  moreover have "getUint16 ?a 26 = Inr (length ?nm)"
    unfolding a by (rule getUint16_at) (simp_all add: nm)
  moreover have "getUint16 ?a 28 = Inr 0"
    using getUint16_at [of 28 "?h1 @ nat_le 2 (length ?nm)" 0 "?nm @ body @ post"] by (simp add: a)
  moreover have "length ?a \<ge> 30 + length ?nm + length body" by (simp add: a)
  moreover have "take (length body) (drop (30 + length ?nm) ?a) = body" by (simp add: a)
  ultimately show ?thesis by (simp add: readBody_def Let_def)
qed

lemma centralPart_read:
  fixes pre post :: "byte list"
  assumes "archiveFits encode zmethod deflate e" "zmethod < 65536" "length pre < 4294967295"
  defines "body \<equiv> (if zmethod = 8 then deflate (zfBytes e) else zfBytes e)"
    and "a \<equiv> pre @ centralPart encode zmethod deflate 0 e @ post"
  shows "readCentral a (length pre)
      = Inr (zmethod, length body, length (zfBytes e), length (encode (zfName e)), 0)"
    and "take (length (encode (zfName e))) (drop (length pre + 46) a) = encode (zfName e)"
proof -
  let ?nm = "encode (zfName e)"
  have body: "length body < 4294967295" "length (zfBytes e) < 4294967295" "length ?nm < 65536"
    using assms(1) by (simp_all add: archiveFits_def localPart_def Let_def body_def)
  let ?p1 = "pre @ nat_le 4 CENTRAL_DIRECTORY_SIGNATURE @ nat_le 2 20 @ nat_le 2 20 @ nat_le 2 0"
  let ?p2 = "?p1 @ nat_le 2 zmethod @ nat_le 4 0 @ nat_le 4 (zipCrc32 (zfBytes e))"
  let ?p3 = "?p2 @ nat_le 4 (length body)"
  let ?p4 = "?p3 @ nat_le 4 (length (zfBytes e))"
  let ?p5 = "?p4 @ nat_le 2 (length ?nm) @ replicate 12 0"
  have a: "a = ?p5 @ nat_le 4 0 @ ?nm @ post"
    by (simp add: a_def centralPart_def Let_def body_def)
  have "getUint32 a (length pre) = Inr CENTRAL_DIRECTORY_SIGNATURE"
    using getUint32_at [of "length pre" pre CENTRAL_DIRECTORY_SIGNATURE]
    by (simp add: a CENTRAL_DIRECTORY_SIGNATURE_def)
  moreover have "getUint16 a (length pre + 10) = Inr zmethod"
    using getUint16_at [of "length pre + 10" ?p1 zmethod] assms(2) by (simp add: a)
  moreover have "getUint32 a (length pre + 20) = Inr (length body)"
    using getUint32_at [of "length pre + 20" ?p2 "length body"] body(1) by (simp add: a)
  moreover have "getUint32 a (length pre + 24) = Inr (length (zfBytes e))"
    using getUint32_at [of "length pre + 24" ?p3 "length (zfBytes e)"] body(2) by (simp add: a)
  moreover have "getUint16 a (length pre + 28) = Inr (length ?nm)"
    using getUint16_at [of "length pre + 28" ?p4 "length ?nm"] body(3) by (simp add: a)
  moreover have "getUint32 a (length pre + 42) = Inr 0"
    using getUint32_at [of "length pre + 42" ?p5 0] by (simp add: a)
  moreover have "length pre + 46 \<le> length a" by (simp add: a)
  ultimately show "readCentral a (length pre)
      = Inr (zmethod, length body, length (zfBytes e), length ?nm, 0)"
    using body by (simp add: readCentral_def)
  show "take (length ?nm) (drop (length pre + 46) a) = ?nm" by (simp add: a)
qed

lemma findEocd_last:
  assumes "a = pre @ nat_le 4 EOCD_SIGNATURE @ r" "length r = 18"
  shows "findEocd a = Some (length pre)"
proof -
  have len: "length a - EOCD_MIN_BYTES = length pre" "length a - EOCD_SEARCH_WINDOW \<le> length pre"
    using assms by (simp_all add: zip_consts)
  then have "rev [length a - EOCD_SEARCH_WINDOW ..< Suc (length a - EOCD_MIN_BYTES)]
      = length pre # rev [length a - EOCD_SEARCH_WINDOW ..< length pre]"
    by (simp only: len upt_Suc_append rev_append rev.simps append_Nil append_Cons)
  moreover have "view_le 4 a (length pre) = Some EOCD_SIGNATURE"
    unfolding assms(1) by (rule view_le_at) (simp_all add: EOCD_SIGNATURE_def)
  ultimately show ?thesis by (simp add: findEocd_def)
qed

lemma zip_entry_back:
  assumes "archiveFits encode zmethod deflate e"
    and "zmethod = 0 \<or> zmethod = 8 \<and> length (zfBytes e) \<le> cap
           \<and> zcInflateRaw codec (deflate (zfBytes e)) cap = Some (zfBytes e)"
  shows "extractSingleZipEntry codec (Some cap) (buildZipArchive encode zmethod deflate [e])
    = Inr \<lparr>zipName = take 128 (replaceControls (zcIsControl codec) (zcUtf8 codec (encode (zfName e)))),
           zipMethod = zmethod, zipBytes = zfBytes e\<rparr>"
proof -
  let ?l = "localPart encode zmethod deflate e" and ?c = "centralPart encode zmethod deflate 0 e"
  let ?body = "if zmethod = 8 then deflate (zfBytes e) else zfBytes e"
  let ?p1 = "(?l @ ?c) @ nat_le 4 EOCD_SIGNATURE @ nat_le 4 0 @ nat_le 2 1"
  let ?p2 = "?p1 @ nat_le 2 1 @ nat_le 4 (length ?c)"
  let ?eocd = "nat_le 4 0 @ nat_le 2 1 @ nat_le 2 1 @ nat_le 4 (length ?c) @ nat_le 4 (length ?l) @ nat_le 2 0"
  let ?a = "(?l @ ?c) @ nat_le 4 EOCD_SIGNATURE @ ?eocd"
  have a: "buildZipArchive encode zmethod deflate [e] = ?a"
    by (simp add: buildZipArchive_def)
  have m: "zmethod < 65536" and l: "length ?l < 4294967295"
    using assms by (auto simp: archiveFits_def)
  have "length ?a \<ge> EOCD_MIN_BYTES" by (simp add: EOCD_MIN_BYTES_def)
  moreover have "findEocd ?a = Some (length (?l @ ?c))"
    by (rule findEocd_last [OF refl]) simp
  moreover have "getUint16 ?a (length (?l @ ?c) + 10) = Inr 1"
    using getUint16_at [of "length (?l @ ?c) + 10" ?p1 1] by simp
  moreover have "getUint32 ?a (length (?l @ ?c) + 16) = Inr (length ?l)"
    using getUint32_at [of "length (?l @ ?c) + 16" ?p2 "length ?l"] l by simp
  moreover note centralPart_read [OF assms(1) m l, of "nat_le 4 EOCD_SIGNATURE @ ?eocd"]
  moreover have "readBody ?a 0 (length ?body) = Inr ?body"
    using localPart_body [OF assms(1), of "?c @ nat_le 4 EOCD_SIGNATURE @ ?eocd"] by simp
  moreover have "unpackBody codec cap zmethod (length ?body) (length (zfBytes e)) ?body = Inr (zfBytes e)"
    using assms(2) by (auto simp: unpackBody_def)
  ultimately show ?thesis
    using l unfolding a by (simp add: extractSingleZipEntry_def Let_def)
qed

text \<open>
  An archive built of one entry gives that entry back, stored or deflated, with its name (the
  control characters replaced, cut to 128 units), its zmethod and its bytes, as long as its sizes
  fit the format without ZIP64 and inflating undoes deflating.
\<close>

theorem zip_fixture_roundtrip:
  assumes "archiveFits encode zmethod deflate e"
    and "zmethod = 0 \<or> zmethod = 8 \<and> length (zfBytes e) \<le> cap
           \<and> zcInflateRaw codec (deflate (zfBytes e)) cap = Some (zfBytes e)"
  shows "extractSingleZipEntry codec (Some cap) (buildZipArchive encode zmethod deflate [e])
    = Inr \<lparr>zipName = take 128 (replaceControls (zcIsControl codec) (zcUtf8 codec (encode (zfName e)))),
           zipMethod = zmethod, zipBytes = zfBytes e\<rparr>"
  using assms by (rule zip_entry_back)

theorem zip_fixture_roundtrip_witness:
  "extractSingleZipEntry \<lparr>zcUtf8 = map uint, zcIsControl = (\<lambda>c. c < 32), zcInflateRaw = (\<lambda>b cap. Some (rev b))\<rparr>
     (Some 10) (buildZipArchive (map word_of_int) 8 rev [\<lparr>zfName = [10, 97], zfBytes = [7, 8, 9]\<rparr>])
   = Inr \<lparr>zipName = [0xFFFD, 97], zipMethod = 8, zipBytes = [7, 8, 9]\<rparr>"
  using zip_fixture_roundtrip [of "map word_of_int" 8 rev "\<lparr>zfName = [10, 97], zfBytes = [7, 8, 9]\<rparr>" 10
      "\<lparr>zcUtf8 = map uint, zcIsControl = (\<lambda>c. c < 32), zcInflateRaw = (\<lambda>b cap. Some (rev b))\<rparr>"]
  by (simp add: archiveFits_def localPart_def)

end
