(* ===== verification/Js_Number.thy ===== *)
theory Js_Number
  imports Netcdf3
begin

text \<open>
  The numbers of the platform where a file may hold any of them: the finite ones as exact
  rationals, the two infinities and \<open>NaN\<close>, with the arithmetic, \<open>Math.abs\<close>, \<open>Math.sign\<close>,
  \<open>Math.min\<close>, \<open>Math.max\<close> and the comparisons, which are all false on \<open>NaN\<close>.
\<close>

section \<open>Sorting order\<close>

text \<open>For \<open>sort\<close>: \<open>NaN\<close> is put last; code that sorts refuses it before.\<close>

instantiation jsNumber :: linorder
begin

definition less_eq_jsNumber :: "jsNumber \<Rightarrow> jsNumber \<Rightarrow> bool" where
  "x \<le> y \<longleftrightarrow>
     (case x of
        NaN \<Rightarrow> y = NaN
      | Infinite True \<Rightarrow> True
      | Infinite False \<Rightarrow> y = NaN \<or> y = Infinite False
      | Finite a \<Rightarrow> (case y of NaN \<Rightarrow> True | Infinite n \<Rightarrow> \<not> n | Finite b \<Rightarrow> a \<le> b))"

definition less_jsNumber :: "jsNumber \<Rightarrow> jsNumber \<Rightarrow> bool" where
  "x < y \<longleftrightarrow> x \<le> y \<and> x \<noteq> (y :: jsNumber)"

instance
proof
  fix x y z :: jsNumber
  show "x \<le> x" by (auto simp: less_eq_jsNumber_def split: jsNumber.splits bool.splits)
  show trans: "x \<le> y \<Longrightarrow> y \<le> z \<Longrightarrow> x \<le> z"
    by (auto simp: less_eq_jsNumber_def split: jsNumber.splits bool.splits)
  show anti: "x \<le> y \<Longrightarrow> y \<le> x \<Longrightarrow> x = y"
    by (auto simp: less_eq_jsNumber_def split: jsNumber.splits bool.splits)
  show "x \<le> y \<or> y \<le> x" by (auto simp: less_eq_jsNumber_def split: jsNumber.splits bool.splits)
  show "x < y \<longleftrightarrow> x \<le> y \<and> \<not> y \<le> x" using anti by (auto simp: less_jsNumber_def less_eq_jsNumber_def split: jsNumber.splits bool.splits)
qed

end

lemma Finite_le [simp]: "Finite a \<le> Finite b \<longleftrightarrow> a \<le> b"
  by (simp add: less_eq_jsNumber_def)

lemma Finite_less [simp]: "Finite a < Finite b \<longleftrightarrow> a < b"
  by (auto simp: less_jsNumber_def)

section \<open>Arithmetic\<close>

fun jsNeg :: "jsNumber \<Rightarrow> jsNumber" where
  "jsNeg (Finite a) = Finite (- a)"
| "jsNeg (Infinite n) = Infinite (\<not> n)"
| "jsNeg NaN = NaN"

fun jsAdd :: "jsNumber \<Rightarrow> jsNumber \<Rightarrow> jsNumber" where
  "jsAdd (Finite a) (Finite b) = Finite (a + b)"
| "jsAdd (Infinite n) (Finite b) = Infinite n"
| "jsAdd (Finite a) (Infinite n) = Infinite n"
| "jsAdd (Infinite m) (Infinite n) = (if m = n then Infinite m else NaN)"
| "jsAdd x y = NaN"

definition jsSub :: "jsNumber \<Rightarrow> jsNumber \<Rightarrow> jsNumber" where
  "jsSub x y = jsAdd x (jsNeg y)"

text \<open>A divisor zero is taken as positive: no division of the model has one.\<close>

fun jsDiv :: "jsNumber \<Rightarrow> jsNumber \<Rightarrow> jsNumber" where
  "jsDiv (Finite a) (Finite b) =
     (if b \<noteq> 0 then Finite (a / b) else if a = 0 then NaN else Infinite (a < 0))"
| "jsDiv (Infinite n) (Finite b) = Infinite (n \<noteq> (b < 0))"
| "jsDiv (Finite a) (Infinite n) = Finite 0"
| "jsDiv x y = NaN"

fun jsAbs :: "jsNumber \<Rightarrow> jsNumber" where
  "jsAbs (Finite a) = Finite \<bar>a\<bar>"
| "jsAbs (Infinite n) = Infinite False"
| "jsAbs NaN = NaN"

fun jsSign :: "jsNumber \<Rightarrow> jsNumber" where
  "jsSign (Finite a) = Finite (sgn a)"
| "jsSign (Infinite n) = Finite (if n then -1 else 1)"
| "jsSign NaN = NaN"

definition jsLess :: "jsNumber \<Rightarrow> jsNumber \<Rightarrow> bool" where
  "jsLess x y \<longleftrightarrow> x \<noteq> NaN \<and> y \<noteq> NaN \<and> x < y"

definition jsMin :: "jsNumber \<Rightarrow> jsNumber \<Rightarrow> jsNumber" where
  "jsMin x y = (if x = NaN \<or> y = NaN then NaN else min x y)"

definition jsMax :: "jsNumber \<Rightarrow> jsNumber \<Rightarrow> jsNumber" where
  "jsMax x y = (if x = NaN \<or> y = NaN then NaN else max x y)"

text \<open>\<open>===\<close> on numbers.\<close>

definition jsEqual :: "jsNumber \<Rightarrow> jsNumber \<Rightarrow> bool" where
  "jsEqual x y \<longleftrightarrow> x \<noteq> NaN \<and> x = y"

lemma jsSub_Finite [simp]: "jsSub (Finite a) (Finite b) = Finite (a - b)"
  by (simp add: jsSub_def)

lemma jsLess_Finite [simp]: "jsLess (Finite a) (Finite b) \<longleftrightarrow> a < b"
  by (simp add: jsLess_def)

lemma jsEqual_Finite [simp]: "jsEqual (Finite a) (Finite b) \<longleftrightarrow> a = b"
  by (simp add: jsEqual_def)

lemma jsMin_Finite [simp]: "jsMin (Finite a) (Finite b) = Finite (min a b)"
  by (simp add: jsMin_def min_def)

lemma jsMax_Finite [simp]: "jsMax (Finite a) (Finite b) = Finite (max a b)"
  by (simp add: jsMax_def max_def)

end
