(* ===== verification/Cams_Grid.thy ===== *)
theory Cams_Grid
  imports Js_Number
begin

text \<open>
  \<open>src/air-quality/cams/cams-grid.ts\<close>: the analysis of a coordinate axis, the cell of a requested
  coordinate with its read-back guard, and the distance check. Axis vals are the floats of a
  file; distances are over the real numbers.
\<close>

definition AXIS_EQUAL_STEP_TOLERANCE :: rat where "AXIS_EQUAL_STEP_TOLERANCE = 1 / 1000"
definition READBACK_EXTRA_TOLERANCE :: rat where "READBACK_EXTRA_TOLERANCE = 1 / 1000"
definition KM_PER_DEGREE :: real where "KM_PER_DEGREE = 111.32"
definition GRID_MAPPING_EARTH_RADIUS_KM :: real where "GRID_MAPPING_EARTH_RADIUS_KM = 6371"

record axisAnalysis =
  axStep :: jsNumber
  axFirst :: jsNumber
  axLast :: jsNumber
  axLength :: nat

definition axisSteps :: "jsNumber list \<Rightarrow> jsNumber list" where
  "axisSteps vals = map2 jsSub (tl vals) vals"

definition stepOk :: "jsNumber \<Rightarrow> jsNumber \<Rightarrow> bool" where
  "stepOk median s \<longleftrightarrow> jsEqual (jsSign s) (jsSign median)
     \<and> \<not> jsLess (Finite AXIS_EQUAL_STEP_TOLERANCE) (jsAbs (jsSub s median))"

text \<open>
  With a \<open>NaN\<close> step the median depends on how the platform sorts, but every outcome is a refusal:
  a \<open>NaN\<close> median agrees in sign with no step, and a \<open>NaN\<close> step with no median.
\<close>

definition analyseAxis :: "jsNumber list \<Rightarrow> camsContractError + axisAnalysis" where
  "analyseAxis vals =
     andThen (require (2 \<le> length vals) (Axis ''length'')) (\<lambda>_.
     let steps = axisSteps vals;
         median = sort steps ! (length steps div 2)
     in
     andThen (require (NaN \<notin> set steps) (Axis ''steps'')) (\<lambda>_.
     andThen (require (median \<noteq> Finite 0) (Axis ''steps'')) (\<lambda>_.
     andThen (require (list_all (stepOk median) steps) (Axis ''steps'')) (\<lambda>_.
     Inr \<lparr>axStep = median, axFirst = hd vals, axLast = last vals, axLength = length vals\<rparr>))))"

definition readbackToleranceFor :: "jsNumber \<Rightarrow> jsNumber" where
  "readbackToleranceFor s = jsAdd (jsDiv (jsAbs s) (Finite 2)) (Finite READBACK_EXTRA_TOLERANCE)"

datatype coordinateMapping = Mapped nat jsNumber | Outside_domain

definition mapCoordinateToIndex ::
  "jsNumber list \<Rightarrow> axisAnalysis \<Rightarrow> rat \<Rightarrow> camsContractError + coordinateMapping" where
  "mapCoordinateToIndex axis an requested =
     (let halfCell = jsDiv (jsAbs (axStep an)) (Finite 2);
          low = jsSub (jsMin (axFirst an) (axLast an)) halfCell;
          high = jsAdd (jsMax (axFirst an) (axLast an)) halfCell;
          ext = Finite READBACK_EXTRA_TOLERANCE
      in if jsLess (Finite requested) (jsSub low ext) \<or> jsLess (jsAdd high ext) (Finite requested)
         then Inr Outside_domain
         else (case jsDiv (jsSub (Finite requested) (axFirst an)) (axStep an) of
                 Finite q \<Rightarrow>
                   (let index = js_round q in
                    andThen (require (0 \<le> index \<and> index < int (length axis)) (Axis ''index'')) (\<lambda>_.
                    let snapped = axis ! nat index in
                    andThen (require (\<not> jsLess (readbackToleranceFor (axStep an))
                        (jsAbs (jsSub snapped (Finite requested)))) (Axis ''read back'')) (\<lambda>_.
                    Inr (Mapped (nat index) snapped))))
               | _ \<Rightarrow> Inl (Axis ''index'')))"

text \<open>A distance or threshold that is \<open>NaN\<close> or infinite is \<open>None\<close>.\<close>

definition gridRadians :: "real \<Rightarrow> real" where
  "gridRadians degrees = degrees * pi / 180"

definition gridDistanceKm :: "real \<Rightarrow> real \<Rightarrow> real \<Rightarrow> real \<Rightarrow> real" where
  "gridDistanceKm latA lonA latB lonB =
     (let dLat = gridRadians (latB - latA);
          dLon = gridRadians (lonB - lonA);
          a = sin (dLat / 2) ^ 2 + cos (gridRadians latA) * cos (gridRadians latB) * sin (dLon / 2) ^ 2
      in 2 * GRID_MAPPING_EARTH_RADIUS_KM * arcsin (sqrt a))"

definition distanceKm :: "rat \<Rightarrow> rat \<Rightarrow> jsNumber \<Rightarrow> jsNumber \<Rightarrow> real option" where
  "distanceKm latA lonA latB lonB =
     (case (latB, lonB) of
        (Finite b, Finite d) \<Rightarrow> Some (gridDistanceKm (of_rat latA) (of_rat lonA) (of_rat b) (of_rat d))
      | _ \<Rightarrow> None)"

definition gridThresholdKm :: "real \<Rightarrow> real \<Rightarrow> real \<Rightarrow> real" where
  "gridThresholdKm lat latStep lonStep =
     (let latKm = \<bar>latStep\<bar> * KM_PER_DEGREE;
          lonKm = \<bar>lonStep\<bar> * KM_PER_DEGREE * cos (lat * pi / 180)
      in 0.6 * sqrt (latKm ^ 2 + lonKm ^ 2))"

definition distanceThresholdKm :: "rat \<Rightarrow> jsNumber \<Rightarrow> jsNumber \<Rightarrow> real option" where
  "distanceThresholdKm lat latStep lonStep =
     (case (latStep, lonStep) of
        (Finite a, Finite b) \<Rightarrow> Some (gridThresholdKm (of_rat lat) (of_rat a) (of_rat b))
      | _ \<Rightarrow> None)"

section \<open>What an analysed axis is\<close>

lemma analyseAxis_Inr:
  assumes "analyseAxis vals = Inr an"
  shows "2 \<le> length vals" "NaN \<notin> set (axisSteps vals)" "axStep an \<noteq> Finite 0"
    "list_all (stepOk (axStep an)) (axisSteps vals)"
    "axStep an \<in> set (axisSteps vals)"
    "axFirst an = hd vals" "axLast an = last vals" "axLength an = length vals"
proof -
  note parts = assms [unfolded analyseAxis_def Let_def andThen_eq_Inr require_eq_Inr]
  show "2 \<le> length vals" "NaN \<notin> set (axisSteps vals)" "axStep an \<noteq> Finite 0"
    "list_all (stepOk (axStep an)) (axisSteps vals)"
    "axFirst an = hd vals" "axLast an = last vals" "axLength an = length vals"
    using parts by auto
  have "axisSteps vals \<noteq> []" using parts by (cases vals; cases "tl vals") (auto simp: axisSteps_def)
  then have "sort (axisSteps vals) ! (length (axisSteps vals) div 2) \<in> set (sort (axisSteps vals))"
    by (intro nth_mem) simp
  then show "axStep an \<in> set (axisSteps vals)" using parts by auto
qed

text \<open>The cell of a requested coordinate: inside the axis, and no farther than the tolerance.\<close>

lemma mapCoordinateToIndex_Mapped:
  assumes "mapCoordinateToIndex axis an requested = Inr (Mapped i snapped)"
  shows "i < length axis" "snapped = axis ! i"
    "\<not> jsLess (readbackToleranceFor (axStep an)) (jsAbs (jsSub snapped (Finite requested)))"
  using assms
  by (auto simp: mapCoordinateToIndex_def Let_def andThen_eq_Inr nat_less_iff
      split: if_splits jsNumber.splits)

section \<open>Even axes\<close>

text \<open>
  \<open>s\<close> is one of the steps, and every step has its sign and is within a thousandth of it. The cell of
  a coordinate and what lies outside are said of the numbers of the axis.
\<close>

definition evenSteps :: "rat list \<Rightarrow> rat \<Rightarrow> bool" where
  "evenSteps xs s \<longleftrightarrow> s \<noteq> 0 \<and> (\<exists>k. Suc k < length xs \<and> s = xs ! Suc k - xs ! k)
     \<and> (\<forall>k. Suc k < length xs \<longrightarrow>
          sgn (xs ! Suc k - xs ! k) = sgn s \<and> \<bar>xs ! Suc k - xs ! k - s\<bar> \<le> 1 / 1000)"

definition nearestCell :: "jsNumber list \<Rightarrow> rat \<Rightarrow> nat \<Rightarrow> bool" where
  "nearestCell axis requested i \<longleftrightarrow> i < length axis \<and>
     (\<forall>xs. axis = map Finite xs \<longrightarrow>
        (\<exists>s. evenSteps xs s \<and> \<bar>xs ! i - requested\<bar> \<le> \<bar>s\<bar> / 2 + 1 / 1000)
        \<and> (\<forall>k < length xs. \<bar>xs ! i - requested\<bar> \<le> \<bar>xs ! k - requested\<bar> + 3 / 1000))"

definition beyondAxis :: "jsNumber list \<Rightarrow> rat \<Rightarrow> bool" where
  "beyondAxis axis requested \<longleftrightarrow>
     (\<exists>xs. axis = map Finite xs \<and> (\<exists>s. axisSteps axis \<noteq> [] \<and> sort (axisSteps axis) ! (length (axisSteps axis) div 2) = Finite s
        \<and> (requested < min (hd xs) (last xs) - \<bar>s\<bar> / 2 - 1 / 1000
           \<or> max (hd xs) (last xs) + \<bar>s\<bar> / 2 + 1 / 1000 < requested)))"

lemma axisSteps_nth: "Suc k < length vals \<Longrightarrow> axisSteps vals ! k = jsSub (vals ! Suc k) (vals ! k)"
  by (cases vals) (auto simp: axisSteps_def nth_Cons split: nat.split)

lemma axisSteps_length: "length (axisSteps vals) = length vals - 1"
  by (simp add: axisSteps_def)

lemma jsSub_finite: "jsSub x y = Finite d \<Longrightarrow> \<exists>a b. x = Finite a \<and> y = Finite b \<and> d = a - b"
  by (cases x; cases y) (auto simp: jsSub_def split: if_splits)

text \<open>An axis that passes is even and finite, unless all its steps are infinite.\<close>

lemma analyseAxis_even:
  assumes an: "analyseAxis vals = Inr an" and fin: "axStep an = Finite s"
  obtains xs where "vals = map Finite xs" "evenSteps xs s"
proof -
  note facts = analyseAxis_Inr [OF an]
  have step: "\<exists>a b. vals ! Suc k = Finite a \<and> vals ! k = Finite b \<and> sgn (a - b) = sgn s \<and> \<bar>a - b - s\<bar> \<le> 1 / 1000"
    if k: "Suc k < length vals" for k
  proof -
    have "axisSteps vals ! k \<in> set (axisSteps vals)" using k by (simp add: axisSteps_length)
    then have ok: "stepOk (Finite s) (axisSteps vals ! k)" "axisSteps vals ! k \<noteq> NaN"
      using facts(2,4) by (auto simp: list_all_iff fin)
    then obtain d where d: "axisSteps vals ! k = Finite d"
      by (cases "axisSteps vals ! k") (auto simp: stepOk_def jsSub_def jsLess_def less_jsNumber_def less_eq_jsNumber_def)
    with jsSub_finite axisSteps_nth [OF k] obtain a b where "vals ! Suc k = Finite a" "vals ! k = Finite b" "d = a - b"
      by metis
    with ok(1) d show ?thesis by (auto simp: stepOk_def AXIS_EQUAL_STEP_TOLERANCE_def)
  qed
  have "\<exists>a. v = Finite a" if mem: "v \<in> set vals" for v
  proof -
    obtain k where k: "k < length vals" "v = vals ! k" using mem by (auto simp: in_set_conv_nth)
    show ?thesis
    proof (cases k)
      case 0
      with step [of 0] facts(1) k show ?thesis by auto
    next
      case (Suc j)
      with step [of j] k show ?thesis by auto
    qed
  qed
  then have "\<forall>v \<in> set vals. \<exists>a. v = Finite a" by blast
  then obtain xs where xs: "vals = map Finite xs" by (metis ex_map_conv)
  obtain j where j: "j < length (axisSteps vals)" "axisSteps vals ! j = Finite s"
    using facts(5) fin by (auto simp: in_set_conv_nth)
  then have "Suc j < length xs" "s = xs ! Suc j - xs ! j"
    using axisSteps_nth [of j vals] by (auto simp: axisSteps_length xs)
  moreover have "s \<noteq> 0" using facts(3) fin by auto
  moreover have "sgn (xs ! Suc k - xs ! k) = sgn s \<and> \<bar>xs ! Suc k - xs ! k - s\<bar> \<le> 1 / 1000" if "Suc k < length xs" for k
    using step [of k] that by (auto simp: xs)
  ultimately have "evenSteps xs s" unfolding evenSteps_def by blast
  then show thesis by (rule that [OF xs])
qed

lemma analyseAxis_infinite:
  assumes an: "analyseAxis (map Finite xs) = Inr an" shows "\<exists>s. axStep an = Finite s"
proof -
  have "axStep an \<in> set (axisSteps (map Finite xs))" by (rule analyseAxis_Inr(5) [OF an])
  then obtain k where "k < length (axisSteps (map Finite xs))" "axStep an = axisSteps (map Finite xs) ! k"
    by (metis in_set_conv_nth)
  then show ?thesis by (simp add: axisSteps_length axisSteps_nth)
qed

text \<open>Two cells of an even axis are a step apart, less a thousandth.\<close>

lemma even_apart:
  assumes even: "evenSteps xs s" and ik: "i < length xs" "k < length xs" "i \<noteq> k"
  shows "\<bar>s\<bar> - 1 / 1000 \<le> \<bar>xs ! i - xs ! k\<bar>"
proof -
  have each: "\<bar>s\<bar> - 1 / 1000 \<le> sgn s * (xs ! Suc j - xs ! j)" "0 \<le> sgn s * (xs ! Suc j - xs ! j)" if "Suc j < length xs" for j
  proof -
    have *: "sgn (xs ! Suc j - xs ! j) = sgn s" "\<bar>xs ! Suc j - xs ! j - s\<bar> \<le> 1 / 1000" using even that by (auto simp: evenSteps_def)
    then show "0 \<le> sgn s * (xs ! Suc j - xs ! j)" by (metis abs_ge_zero abs_sgn mult.commute)
    show "\<bar>s\<bar> - 1 / 1000 \<le> sgn s * (xs ! Suc j - xs ! j)" using *(2) [unfolded abs_le_iff] by (cases s "0 :: rat" rule: linorder_cases) (auto simp: algebra_simps)
  qed
  have far: "\<bar>s\<bar> - 1 / 1000 \<le> sgn s * (xs ! b - xs ! a)" if "a < b" "b < length xs" for a b
    using that
  proof (induction b)
    case (Suc b)
    have "sgn s * (xs ! Suc b - xs ! a) = sgn s * (xs ! Suc b - xs ! b) + sgn s * (xs ! b - xs ! a)" by (simp add: algebra_simps)
    with Suc each [of b] show ?case by (cases "a = b") auto
  qed simp
  have "sgn s * d \<le> \<bar>d\<bar>" for d by (cases s "0 :: rat" rule: linorder_cases) auto
  then have "\<bar>s\<bar> - 1 / 1000 \<le> \<bar>xs ! b - xs ! a\<bar>" if "a < b" "b < length xs" for a b
    using far [OF that] by (meson order.trans)
  from this [of i k] this [of k i] ik show ?thesis by (cases "i < k") (auto simp: abs_minus_commute)
qed

lemma mapped_nearest:
  assumes an: "analyseAxis axis = Inr an" and m: "mapCoordinateToIndex axis an requested = Inr (Mapped i snapped)"
  shows "nearestCell axis requested i"
  unfolding nearestCell_def
proof (intro conjI allI impI)
  note cell = mapCoordinateToIndex_Mapped [OF m]
  show "i < length axis" by (rule cell(1))
  fix xs assume xs: "axis = map Finite xs"
  obtain s where s: "axStep an = Finite s" using analyseAxis_infinite an xs by blast
  have even: "evenSteps xs s" using analyseAxis_even [OF an s] xs by (metis inj_map_eq_map inj_def jsNumber.inject(1))
  have i: "i < length xs" using cell(1) by (simp add: xs)
  have near: "\<bar>xs ! i - requested\<bar> \<le> \<bar>s\<bar> / 2 + 1 / 1000"
    using cell(2,3) i by (simp add: s xs readbackToleranceFor_def READBACK_EXTRA_TOLERANCE_def)
  with even show "\<exists>s. evenSteps xs s \<and> \<bar>xs ! i - requested\<bar> \<le> \<bar>s\<bar> / 2 + 1 / 1000" by blast
  show "\<bar>xs ! i - requested\<bar> \<le> \<bar>xs ! k - requested\<bar> + 3 / 1000" if "k < length xs" for k
  proof (cases "k = i")
    case False
    with even_apart [OF even i that] near show ?thesis by (simp add: abs_if split: if_splits)
  qed simp
qed

lemma outside_beyond:
  assumes an: "analyseAxis axis = Inr an" and m: "mapCoordinateToIndex axis an requested = Inr c"
  shows "c = Outside_domain \<longleftrightarrow> beyondAxis axis requested"
proof -
  have med: "sort (axisSteps axis) ! (length (axisSteps axis) div 2) = axStep an" "axisSteps axis \<noteq> []"
    using an analyseAxis_Inr(5) [OF an] by (auto simp: analyseAxis_def Let_def andThen_eq_Inr)
  let ?half = "jsDiv (jsAbs (axStep an)) (Finite 2)"
  have out: "c = Outside_domain \<longleftrightarrow>
      jsLess (Finite requested) (jsSub (jsSub (jsMin (axFirst an) (axLast an)) ?half) (Finite (1 / 1000)))
      \<or> jsLess (jsAdd (jsAdd (jsMax (axFirst an) (axLast an)) ?half) (Finite (1 / 1000))) (Finite requested)"
    using m by (auto simp: mapCoordinateToIndex_def Let_def andThen_eq_Inr READBACK_EXTRA_TOLERANCE_def
        split: if_splits jsNumber.splits)
  show ?thesis
  proof (cases "axStep an")
    case (Finite s)
    obtain xs where xs: "axis = map Finite xs" "evenSteps xs s" using analyseAxis_even [OF an Finite] by blast
    have "xs \<noteq> []" using analyseAxis_Inr(1) [OF an] by (auto simp: xs(1))
    then have "axFirst an = Finite (hd xs)" "axLast an = Finite (last xs)"
      using analyseAxis_Inr(6,7) [OF an] by (simp_all add: xs(1) hd_map last_map)
    then have "c = Outside_domain \<longleftrightarrow> requested < min (hd xs) (last xs) - \<bar>s\<bar> / 2 - 1 / 1000
        \<or> max (hd xs) (last xs) + \<bar>s\<bar> / 2 + 1 / 1000 < requested"
      unfolding out by (simp add: Finite)
    moreover have "beyondAxis axis requested \<longleftrightarrow> requested < min (hd xs) (last xs) - \<bar>s\<bar> / 2 - 1 / 1000
        \<or> max (hd xs) (last xs) + \<bar>s\<bar> / 2 + 1 / 1000 < requested"
      using med Finite unfolding beyondAxis_def xs(1) by (auto simp: inj_map_eq_map inj_def)
    ultimately show ?thesis by simp
  next
    case (Infinite n)
    have "\<not> beyondAxis axis requested" using med Infinite by (auto simp: beyondAxis_def)
    moreover have "\<not> jsLess (Finite requested) (jsSub (jsSub x (Infinite False)) (Finite e))"
      "\<not> jsLess (jsAdd (jsAdd x (Infinite False)) (Finite e)) (Finite requested)" for x e
      by (cases x; simp add: jsSub_def jsLess_def less_jsNumber_def less_eq_jsNumber_def)+
    then have "c \<noteq> Outside_domain" unfolding out Infinite by simp
    ultimately show ?thesis by simp
  next
    case NaN
    then show ?thesis using analyseAxis_Inr(2,5) [OF an] by simp
  qed
qed

text \<open>
  The axis guard admits an axis of infinite steps: their difference to the median is not a number,
  which is not above the tolerance. Every coordinate is then mapped to the first cell.
\<close>

lemma infinite_axis_admitted:
  "\<exists>an. analyseAxis [Finite 0, Infinite False] = Inr an
     \<and> mapCoordinateToIndex [Finite 0, Infinite False] an 39 = Inr (Mapped 0 (Finite 0))"
  by (simp add: analyseAxis_def axisSteps_def Let_def stepOk_def jsSub_def jsLess_def jsEqual_def
      mapCoordinateToIndex_def jsMin_def jsMax_def less_jsNumber_def less_eq_jsNumber_def
      readbackToleranceFor_def min_def max_def js_round_def)

end
