(* ===== verification/Air_Quality_Types.thy ===== *)
theory Air_Quality_Types
  imports Js_Text
begin

text \<open>
  The vocabulary of the air quality component: \<open>src/air-quality/air-quality.types.ts\<close>, and the
  variable table of \<open>src/air-quality/cams/cams-variables.ts\<close>, and the two stored vocabularies of
  \<open>entities/air-quality-run.entity.ts\<close>.
\<close>

datatype airQualityStatus = Aq_ok | Aq_no_data | Aq_not_supported | Aq_unavailable

datatype airQualityRunState = Run_pending | Run_serviceable | Run_complete | Run_degraded | Run_abandoned

text \<open>The stored verdict on a pollutant of one province: \<open>'ok'\<close> or \<open>'not_supported'\<close>.\<close>

datatype supportVerdict = Support_ok | Support_not_supported

datatype airQualityPollutant = Pm2_5 | Pm10 | No2 | O3 | So2

definition ALL_AIR_QUALITY_POLLUTANTS :: "airQualityPollutant list" where
  "ALL_AIR_QUALITY_POLLUTANTS = [Pm2_5, Pm10, No2, O3, So2]"

datatype airQualityCategory = Cat_good | Cat_fair | Cat_moderate | Cat_poor | Cat_very_poor | Cat_extremely_poor

lemma set_pollutants [simp]: "set ALL_AIR_QUALITY_POLLUTANTS = UNIV"
proof -
  have "p \<in> {Pm2_5, Pm10, No2, O3, So2}" for p :: airQualityPollutant by (cases p) simp_all
  then show ?thesis by (auto simp: ALL_AIR_QUALITY_POLLUTANTS_def)
qed

record camsVariableMapping =
  cvPollutant :: airQualityPollutant
  cvRequestName :: string
  cvFileVariableName :: string

definition CAMS_VARIABLES :: "camsVariableMapping list" where
  "CAMS_VARIABLES =
     [\<lparr>cvPollutant = Pm2_5, cvRequestName = ''particulate_matter_2.5um'', cvFileVariableName = ''pm2p5_conc''\<rparr>,
      \<lparr>cvPollutant = Pm10, cvRequestName = ''particulate_matter_10um'', cvFileVariableName = ''pm10_conc''\<rparr>,
      \<lparr>cvPollutant = No2, cvRequestName = ''nitrogen_dioxide'', cvFileVariableName = ''no2_conc''\<rparr>,
      \<lparr>cvPollutant = O3, cvRequestName = ''ozone'', cvFileVariableName = ''o3_conc''\<rparr>,
      \<lparr>cvPollutant = So2, cvRequestName = ''sulphur_dioxide'', cvFileVariableName = ''so2_conc''\<rparr>]"

definition camsVariableFor :: "airQualityPollutant \<Rightarrow> camsVariableMapping option" where
  "camsVariableFor p = find (\<lambda>c. cvPollutant c = p) CAMS_VARIABLES"

text \<open>Every pollutant has its mapping, so the internal error of the lookup is never thrown.\<close>

lemma camsVariableFor_total: "\<exists>m \<in> set CAMS_VARIABLES. camsVariableFor p = Some m \<and> cvPollutant m = p"
  by (cases p) (simp_all add: camsVariableFor_def CAMS_VARIABLES_def)

definition fileVariableName :: "airQualityPollutant \<Rightarrow> jsText" where
  "fileVariableName p = (case camsVariableFor p of None \<Rightarrow> [] | Some m \<Rightarrow> ascii (cvFileVariableName m))"

text \<open>The unit as code points: the micro sign and not the Greek letter.\<close>

definition CAMS_CANONICAL_UNIT :: jsText where
  "CAMS_CANONICAL_UNIT = 0xB5 # ascii ''g/m3''"

end
