(* ===== verification/Cams_Decode.thy ===== *)
theory Cams_Decode
  imports Cams_Zip Cams_Grid Air_Quality_Types
begin

text \<open>
  \<open>src/air-quality/cams/cams-decode.ts\<close>: from a downloaded archive to one series per province and
  pollutant, through the archive reader, the NetCDF reader and the grid mapping, with every check
  of the decoder in its order.
\<close>

section \<open>Data\<close>

definition CAMS_MAX_PLAUSIBLE_CONCENTRATION_UG_M3 :: rat where
  "CAMS_MAX_PLAUSIBLE_CONCENTRATION_UG_M3 = 100000"

definition DIMENSION_LONGITUDE :: jsText where "DIMENSION_LONGITUDE = ascii ''longitude''"
definition DIMENSION_LATITUDE :: jsText where "DIMENSION_LATITUDE = ascii ''latitude''"
definition DIMENSION_LEVEL :: jsText where "DIMENSION_LEVEL = ascii ''level''"
definition DIMENSION_TIME :: jsText where "DIMENSION_TIME = ascii ''time''"

lemmas dimension_names = DIMENSION_LONGITUDE_def DIMENSION_LATITUDE_def DIMENSION_LEVEL_def DIMENSION_TIME_def

datatype camsProduct = FORECAST | ANALYSIS

definition productText :: "camsProduct \<Rightarrow> jsText" where
  "productText p = (case p of FORECAST \<Rightarrow> ascii ''FORECAST'' | ANALYSIS \<Rightarrow> ascii ''ANALYSIS'')"

record camsPoint =
  plateCode :: jsText
  ptLatitude :: rat
  ptLongitude :: rat

record camsProvinceSeries =
  psPlateCode :: jsText
  requestedLatitude :: rat
  requestedLongitude :: rat
  gridLatitude :: "jsNumber option"
  gridLongitude :: "jsNumber option"
  psDistanceKm :: "real option"
  psThresholdKm :: "real option"
  outsideDomain :: bool
  psSupport :: "airQualityPollutant \<rightharpoonup> airQualityStatus"
  psSeries :: "airQualityPollutant \<rightharpoonup> rat option list"

record camsDecodedFile =
  entryName :: jsText
  dfZipMethod :: nat
  timeHours :: "jsNumber list"
  longitudeAxis :: axisAnalysis
  latitudeAxis :: axisAnalysis
  fillValues :: "airQualityPollutant \<rightharpoonup> jsNumber"
  provinces :: "camsProvinceSeries list"

record camsDecodeOptions =
  expectedRunDate :: jsText
  points :: "camsPoint list"
  optPollutants :: "airQualityPollutant list option"
  expectedProduct :: "camsProduct option"
  maxInflatedBytes :: "nat option"

text \<open>The codec of the archive, the UTF-8 decoder of the header and \<open>toUpperCase\<close>.\<close>

record camsPlatform =
  cpZip :: zipCodec
  cpUtf8 :: "byte list \<Rightarrow> jsText"
  cpUpper :: "jsText \<Rightarrow> jsText"

section \<open>Checks of the file\<close>

definition dimensionNames :: "netcdf3File \<Rightarrow> netcdf3Variable \<Rightarrow> jsText list" where
  "dimensionNames f v = map (\<lambda>i. if i < length (dimensions f) then dimName (dimensions f ! i) else ascii ''?'')
     (dimensionIds v)"

definition assertCoordinateVariable :: "netcdf3File \<Rightarrow> jsText \<Rightarrow> camsContractError + unit" where
  "assertCoordinateVariable f nm =
     andThen (fileVariable f nm) (\<lambda>v.
     require (dimensionNames f v = [nm]) (Decode ''coordinate variable''))"

definition assertVariableShape :: "netcdf3File \<Rightarrow> jsText \<Rightarrow> camsContractError + unit" where
  "assertVariableShape f nm =
     andThen (fileVariable f nm) (\<lambda>v.
     require (dimensionNames f v = [DIMENSION_TIME, DIMENSION_LEVEL, DIMENSION_LATITUDE, DIMENSION_LONGITUDE])
       (Decode ''shape''))"

definition assertUnpacked :: "netcdf3File \<Rightarrow> jsText \<Rightarrow> camsContractError + unit" where
  "assertUnpacked f nm =
     andThen (fileAttribute f nm (ascii ''scale_factor'')) (\<lambda>a.
     andThen (require (a = None) (Decode ''packed'')) (\<lambda>_.
     andThen (fileAttribute f nm (ascii ''add_offset'')) (\<lambda>b.
     require (b = None) (Decode ''packed''))))"

definition attributeText :: "netcdf3Attribute option \<Rightarrow> jsText option" where
  "attributeText a = (case a of Some x \<Rightarrow> (case attValue x of Att_text t \<Rightarrow> Some t | _ \<Rightarrow> None) | None \<Rightarrow> None)"

definition attributeScalar :: "netcdf3Attribute option \<Rightarrow> jsNumber option" where
  "attributeScalar a =
     (case a of Some x \<Rightarrow> (case attValue x of Att_numbers [n] \<Rightarrow> Some n | _ \<Rightarrow> None) | None \<Rightarrow> None)"

text \<open>The checks of one pollutant's variable; what is kept is its fill value.\<close>

definition checkPollutant :: "netcdf3File \<Rightarrow> airQualityPollutant \<Rightarrow> camsContractError + jsNumber" where
  "checkPollutant f p =
     (let nm = fileVariableName p in
      andThen (require (hasVariable f nm) (Decode ''missing variable'')) (\<lambda>_.
      andThen (assertVariableShape f nm) (\<lambda>_.
      andThen (fileVariable f nm) (\<lambda>v.
      andThen (require (ncType v = NC_FLOAT) (Decode ''type'')) (\<lambda>_.
      andThen (assertUnpacked f nm) (\<lambda>_.
      andThen (fileAttribute f nm (ascii ''units'')) (\<lambda>u.
      andThen (orThrow (attributeText u) (Decode ''no units'')) (\<lambda>unit.
      andThen (require (unit = CAMS_CANONICAL_UNIT) (Decode ''units'')) (\<lambda>_.
      andThen (fileAttribute f nm (ascii ''_FillValue'')) (\<lambda>a.
      orThrow (attributeScalar a) (Decode ''fill value'')))))))))))"

definition readTimeValue :: "netcdf3File \<Rightarrow> nat \<Rightarrow> camsContractError + jsNumber" where
  "readTimeValue f r =
     andThen (readRecordBlock f DIMENSION_TIME r) (\<lambda>block.
     case block of [v] \<Rightarrow> Inr v | _ \<Rightarrow> Inl (Decode ''time record''))"

definition readTimeHours ::
  "(jsText \<Rightarrow> jsText) \<Rightarrow> netcdf3File \<Rightarrow> jsText \<Rightarrow> camsProduct \<Rightarrow> camsContractError + jsNumber list" where
  "readTimeHours upper f runDate product =
     andThen (fileVariable f DIMENSION_TIME) (\<lambda>v.
     andThen (require (ncType v = NC_FLOAT) (Decode ''time type'')) (\<lambda>_.
     andThen (assertUnpacked f DIMENSION_TIME) (\<lambda>_.
     andThen (fileAttribute f DIMENSION_TIME (ascii ''units'')) (\<lambda>u.
     andThen (require (attributeText u = Some (ascii ''hours'')) (Decode ''time units'')) (\<lambda>_.
     andThen (fileAttribute f DIMENSION_TIME (ascii ''long_name'')) (\<lambda>l.
     andThen (orThrow (attributeText l) (Decode ''no long_name'')) (\<lambda>longName.
     andThen (require (textIncludes longName runDate) (Decode ''wrong day'')) (\<lambda>_.
     andThen (require (textIncludes (upper longName) (productText product)) (Decode ''wrong product'')) (\<lambda>_.
     andThen (require (isRecord v) (Decode ''time layout'')) (\<lambda>_.
     andThen (mapOrThrow (readTimeValue f) [0 ..< recordCount f]) (\<lambda>hours.
     andThen (require (hours = map (\<lambda>i. Finite (of_nat i)) [0 ..< recordCount f]) (Decode ''hour ladder'')) (\<lambda>_.
     Inr hours))))))))))))"

section \<open>From a point to its series\<close>

datatype pointMapping = Point_outside | Point_at nat nat jsNumber jsNumber "real option" "real option"

definition farAway :: "real option \<Rightarrow> real option \<Rightarrow> bool" where
  "farAway d t \<longleftrightarrow> (case (d, t) of (Some x, Some y) \<Rightarrow> y < x | _ \<Rightarrow> False)"

definition mapPoint ::
  "jsNumber list \<Rightarrow> axisAnalysis \<Rightarrow> jsNumber list \<Rightarrow> axisAnalysis \<Rightarrow> camsPoint \<Rightarrow> camsContractError + pointMapping" where
  "mapPoint lons lonAn lats latAn pt =
     andThen (mapCoordinateToIndex lons lonAn (ptLongitude pt)) (\<lambda>lonMapping.
     andThen (mapCoordinateToIndex lats latAn (ptLatitude pt)) (\<lambda>latMapping.
     case (latMapping, lonMapping) of
       (Mapped latIndex lat, Mapped lonIndex lon) \<Rightarrow>
         (let d = distanceKm (ptLatitude pt) (ptLongitude pt) lat lon;
              t = distanceThresholdKm (ptLatitude pt) (axStep latAn) (axStep lonAn)
          in if farAway d t then Inl (Decode ''far cell'')
             else Inr (Point_at latIndex lonIndex lat lon d t))
     | _ \<Rightarrow> Inr Point_outside))"

text \<open>A value that is the fill value, negative, implausibly large or \<open>NaN\<close> is missing.\<close>

definition classifyValue :: "jsNumber \<Rightarrow> jsNumber \<Rightarrow> rat option" where
  "classifyValue fill raw =
     (if jsEqual raw fill \<or> jsLess raw (Finite 0)
         \<or> jsLess (Finite CAMS_MAX_PLAUSIBLE_CONCENTRATION_UG_M3) raw \<or> raw = NaN
      then None else (case raw of Finite x \<Rightarrow> Some x | _ \<Rightarrow> None))"

definition flatOffset :: "nat \<Rightarrow> pointMapping \<Rightarrow> nat option" where
  "flatOffset lonCount m =
     (case m of Point_outside \<Rightarrow> None | Point_at latIndex lonIndex _ _ _ _ \<Rightarrow> Some (latIndex * lonCount + lonIndex))"

definition readSlab ::
  "netcdf3File \<Rightarrow> nat \<Rightarrow> pointMapping list \<Rightarrow> jsText \<Rightarrow> nat \<Rightarrow> camsContractError + jsNumber list" where
  "readSlab f lonCount mappings nm r =
     andThen (readRecordBlock f nm r) (\<lambda>slab.
     andThen (require (list_all (\<lambda>m. case flatOffset lonCount m of None \<Rightarrow> True | Some o' \<Rightarrow> o' < length slab) mappings)
        (Decode ''flat offset'')) (\<lambda>_.
     Inr slab))"

definition readSlabs ::
  "netcdf3File \<Rightarrow> nat \<Rightarrow> pointMapping list \<Rightarrow> nat \<Rightarrow> airQualityPollutant
    \<Rightarrow> camsContractError + (airQualityPollutant \<times> jsNumber list list)" where
  "readSlabs f lonCount mappings hours p =
     andThen (mapOrThrow (readSlab f lonCount mappings (fileVariableName p)) [0 ..< hours]) (\<lambda>slabs.
     Inr (p, slabs))"

definition pointSeries :: "nat \<Rightarrow> pointMapping \<Rightarrow> jsNumber \<Rightarrow> jsNumber list list \<Rightarrow> rat option list" where
  "pointSeries lonCount m fill slabs =
     (case flatOffset lonCount m of
        None \<Rightarrow> replicate (length slabs) None
      | Some o' \<Rightarrow> map (\<lambda>slab. classifyValue fill (slab ! o')) slabs)"

definition supportOf :: "pointMapping \<Rightarrow> rat option list \<Rightarrow> airQualityStatus" where
  "supportOf m vals = (if m = Point_outside \<or> list_all (\<lambda>v. v = None) vals then Aq_not_supported else Aq_ok)"

definition provinceSeries ::
  "nat \<Rightarrow> (airQualityPollutant \<rightharpoonup> jsNumber) \<Rightarrow> (airQualityPollutant \<rightharpoonup> jsNumber list list)
    \<Rightarrow> camsPoint \<Rightarrow> pointMapping \<Rightarrow> camsProvinceSeries" where
  "provinceSeries lonCount fills slabs pt m =
     (let series = (\<lambda>p. case (fills p, slabs p) of
              (Some fill, Some ss) \<Rightarrow> Some (pointSeries lonCount m fill ss) | _ \<Rightarrow> None)
      in \<lparr>psPlateCode = plateCode pt, requestedLatitude = ptLatitude pt, requestedLongitude = ptLongitude pt,
          gridLatitude = (case m of Point_outside \<Rightarrow> None | Point_at _ _ lat _ _ _ \<Rightarrow> Some lat),
          gridLongitude = (case m of Point_outside \<Rightarrow> None | Point_at _ _ _ lon _ _ \<Rightarrow> Some lon),
          psDistanceKm = (case m of Point_outside \<Rightarrow> None | Point_at _ _ _ _ d _ \<Rightarrow> d),
          psThresholdKm = (case m of Point_outside \<Rightarrow> None | Point_at _ _ _ _ _ t \<Rightarrow> t),
          outsideDomain = (m = Point_outside),
          psSupport = (\<lambda>p. map_option (supportOf m) (series p)),
          psSeries = series\<rparr>)"

section \<open>The decoder\<close>

definition decodeCamsFileInner ::
  "camsPlatform \<Rightarrow> camsDecodeOptions \<Rightarrow> byte list \<Rightarrow> camsContractError + camsDecodedFile" where
  "decodeCamsFileInner plat opts archive =
     andThen (require (length (expectedRunDate opts) = 8 \<and> list_all isDigit (expectedRunDate opts))
        (Decode ''run date'')) (\<lambda>_.
     let pollutants = (case optPollutants opts of None \<Rightarrow> ALL_AIR_QUALITY_POLLUTANTS | Some ps \<Rightarrow> ps) in
     andThen (require (pollutants \<noteq> []) (Decode ''zero pollutants'')) (\<lambda>_.
     andThen (require (points opts \<noteq> []) (Decode ''zero points'')) (\<lambda>_.
     andThen (require (distinct (map plateCode (points opts))) (Decode ''duplicate plate code'')) (\<lambda>_.
     andThen (extractSingleZipEntry (cpZip plat) (maxInflatedBytes opts) archive) (\<lambda>entry.
     andThen (parseNetcdf3 (cpUtf8 plat) (zipBytes entry)) (\<lambda>f.
     andThen (assertCoordinateVariable f DIMENSION_LONGITUDE) (\<lambda>_.
     andThen (assertCoordinateVariable f DIMENSION_LATITUDE) (\<lambda>_.
     andThen (readFixedNumeric f DIMENSION_LONGITUDE) (\<lambda>lons.
     andThen (readFixedNumeric f DIMENSION_LATITUDE) (\<lambda>lats.
     andThen (analyseAxis lons) (\<lambda>lonAn.
     andThen (analyseAxis lats) (\<lambda>latAn.
     andThen (require (case find (\<lambda>d. dimName d = DIMENSION_LEVEL) (dimensions f) of
                None \<Rightarrow> False | Some d \<Rightarrow> dimLength d = 1) (Decode ''level'')) (\<lambda>_.
     andThen (mapOrThrow (\<lambda>p. andThen (checkPollutant f p) (\<lambda>fill. Inr (p, fill))) pollutants) (\<lambda>fills.
     andThen (readTimeHours (cpUpper plat) f (expectedRunDate opts)
        (case expectedProduct opts of None \<Rightarrow> FORECAST | Some p \<Rightarrow> p)) (\<lambda>hours.
     andThen (mapOrThrow (mapPoint lons lonAn lats latAn) (points opts)) (\<lambda>mappings.
     andThen (require (\<not> list_all (\<lambda>m. m = Point_outside) mappings) (Decode ''every point outside'')) (\<lambda>_.
     andThen (mapOrThrow (readSlabs f (axLength lonAn) mappings (length hours)) pollutants) (\<lambda>slabs.
     let series = map2 (provinceSeries (axLength lonAn) (map_of fills) (map_of slabs)) (points opts) mappings in
     andThen (require (list_ex (\<lambda>s. list_ex (\<lambda>p. psSupport s p = Some Aq_ok) pollutants) series)
        (Decode ''nothing usable'')) (\<lambda>_.
     Inr \<lparr>entryName = zipName entry, dfZipMethod = zipMethod entry, timeHours = hours,
          longitudeAxis = lonAn, latitudeAxis = latAn, fillValues = map_of fills, provinces = series\<rparr>)))))))))))))))))))"

text \<open>Anything thrown that is not a contract error becomes one, marked unexpected.\<close>

definition decodeCamsFile ::
  "camsPlatform \<Rightarrow> camsDecodeOptions \<Rightarrow> byte list \<Rightarrow> camsContractError + camsDecodedFile" where
  "decodeCamsFile plat opts archive =
     (case decodeCamsFileInner plat opts archive of
        Inl Range_error \<Rightarrow> Inl Unexpected_failure
      | Inl e \<Rightarrow> Inl e
      | Inr d \<Rightarrow> Inr d)"

section \<open>What a decoded file says\<close>

lemma classifyValue_Some:
  "classifyValue fill raw = Some x \<longleftrightarrow> raw = Finite x \<and> 0 \<le> x \<and> x \<le> 100000 \<and> fill \<noteq> Finite x"
  by (cases raw) (auto simp: classifyValue_def CAMS_MAX_PLAUSIBLE_CONCENTRATION_UG_M3_def jsEqual_def)

definition wanted :: "camsDecodeOptions \<Rightarrow> airQualityPollutant list" where
  "wanted opts = (case optPollutants opts of None \<Rightarrow> ALL_AIR_QUALITY_POLLUTANTS | Some ps \<Rightarrow> ps)"

lemma decodeInner_Inr:
  assumes "decodeCamsFileInner plat opts archive = Inr d"
  obtains entry f lons lats fills mappings slabs where
    "extractSingleZipEntry (cpZip plat) (maxInflatedBytes opts) archive = Inr entry"
    "parseNetcdf3 (cpUtf8 plat) (zipBytes entry) = Inr f"
    "readFixedNumeric f DIMENSION_LONGITUDE = Inr lons" "readFixedNumeric f DIMENSION_LATITUDE = Inr lats"
    "analyseAxis lons = Inr (longitudeAxis d)" "analyseAxis lats = Inr (latitudeAxis d)"
    "mapOrThrow (\<lambda>p. andThen (checkPollutant f p) (\<lambda>fill. Inr (p, fill))) (wanted opts) = Inr fills"
    "readTimeHours (cpUpper plat) f (expectedRunDate opts)
        (case expectedProduct opts of None \<Rightarrow> FORECAST | Some p \<Rightarrow> p) = Inr (timeHours d)"
    "mapOrThrow (mapPoint lons (longitudeAxis d) lats (latitudeAxis d)) (points opts) = Inr mappings"
    "mapOrThrow (readSlabs f (axLength (longitudeAxis d)) mappings (length (timeHours d))) (wanted opts) = Inr slabs"
    "fillValues d = map_of fills"
    "provinces d = map2 (provinceSeries (axLength (longitudeAxis d)) (map_of fills) (map_of slabs)) (points opts) mappings"
  using assms unfolding decodeCamsFileInner_def Let_def andThen_eq_Inr wanted_def [symmetric]
  by - (elim exE conjE, drule sum.inject(2) [THEN iffD1], hypsubst, rule that,
      simp_all only: camsDecodedFile.simps)

text \<open>Where a point is placed: outside exactly beyond an axis, otherwise in the nearest cell.\<close>

lemma mapPoint_place:
  assumes axes: "analyseAxis lons = Inr lonAn" "analyseAxis lats = Inr latAn"
    and m: "mapPoint lons lonAn lats latAn pt = Inr m"
  shows "m = Point_outside \<longleftrightarrow> beyondAxis lons (ptLongitude pt) \<or> beyondAxis lats (ptLatitude pt)"
    "m = Point_at i j lat lon away t \<Longrightarrow> nearestCell lats (ptLatitude pt) i \<and> nearestCell lons (ptLongitude pt) j
       \<and> away = distanceKm (ptLatitude pt) (ptLongitude pt) lat lon"
proof -
  obtain lonM latM where lonM: "mapCoordinateToIndex lons lonAn (ptLongitude pt) = Inr lonM"
    and latM: "mapCoordinateToIndex lats latAn (ptLatitude pt) = Inr latM"
    and res: "(case (latM, lonM) of (Mapped latIndex lat, Mapped lonIndex lon) \<Rightarrow>
         (let d = distanceKm (ptLatitude pt) (ptLongitude pt) lat lon;
              t = distanceThresholdKm (ptLatitude pt) (axStep latAn) (axStep lonAn)
          in if farAway d t then Inl (Decode ''far cell'')
             else Inr (Point_at latIndex lonIndex lat lon d t))
     | _ \<Rightarrow> Inr Point_outside) = Inr m"
    using m unfolding mapPoint_def andThen_eq_Inr by blast
  have "m = Point_outside \<longleftrightarrow> lonM = Outside_domain \<or> latM = Outside_domain"
    using res by (cases latM; cases lonM) (auto simp: Let_def split: if_splits)
  then show "m = Point_outside \<longleftrightarrow> beyondAxis lons (ptLongitude pt) \<or> beyondAxis lats (ptLatitude pt)"
    by (simp only: outside_beyond [OF axes(1) lonM] outside_beyond [OF axes(2) latM])
  show "nearestCell lats (ptLatitude pt) i \<and> nearestCell lons (ptLongitude pt) j
      \<and> away = distanceKm (ptLatitude pt) (ptLongitude pt) lat lon" if at: "m = Point_at i j lat lon away t"
  proof -
    from res at have "latM = Mapped i lat" "lonM = Mapped j lon" "away = distanceKm (ptLatitude pt) (ptLongitude pt) lat lon"
      by (cases latM; cases lonM; auto simp: Let_def split: if_splits)+
    then show ?thesis using mapped_nearest axes latM lonM by blast
  qed
qed

lemma mapPoint_at:
  assumes "mapPoint lons lonAn lats latAn pt = Inr (Point_at i j lat lon d t)"
  shows "i < length lats" "j < length lons" "lat = lats ! i" "lon = lons ! j"
    "\<not> jsLess (readbackToleranceFor (axStep latAn)) (jsAbs (jsSub lat (Finite (ptLatitude pt))))"
    "\<not> jsLess (readbackToleranceFor (axStep lonAn)) (jsAbs (jsSub lon (Finite (ptLongitude pt))))"
    "\<not> farAway d t"
proof -
  obtain lonM latM where lonM: "mapCoordinateToIndex lons lonAn (ptLongitude pt) = Inr lonM"
    and latM: "mapCoordinateToIndex lats latAn (ptLatitude pt) = Inr latM"
    and res: "(case (latM, lonM) of (Mapped latIndex lat, Mapped lonIndex lon) \<Rightarrow>
         (let d = distanceKm (ptLatitude pt) (ptLongitude pt) lat lon;
              t = distanceThresholdKm (ptLatitude pt) (axStep latAn) (axStep lonAn)
          in if farAway d t then Inl (Decode ''far cell'')
             else Inr (Point_at latIndex lonIndex lat lon d t))
     | _ \<Rightarrow> Inr Point_outside) = Inr (Point_at i j lat lon d t)"
    using assms unfolding mapPoint_def andThen_eq_Inr by blast
  obtain i' la j' lo where m: "latM = Mapped i' la" "lonM = Mapped j' lo"
    using res by (cases latM; cases lonM) auto
  from res have eqs: "i' = i" "j' = j" "la = lat" "lo = lon" "\<not> farAway d t"
    by (auto simp: m Let_def split: if_splits)
  note la = mapCoordinateToIndex_Mapped [OF latM [unfolded m eqs]]
  note lo = mapCoordinateToIndex_Mapped [OF lonM [unfolded m eqs]]
  from la lo eqs(5) show "i < length lats" "j < length lons" "lat = lats ! i" "lon = lons ! j"
    "\<not> jsLess (readbackToleranceFor (axStep latAn)) (jsAbs (jsSub lat (Finite (ptLatitude pt))))"
    "\<not> jsLess (readbackToleranceFor (axStep lonAn)) (jsAbs (jsSub lon (Finite (ptLongitude pt))))"
    "\<not> farAway d t" by blast+
qed

text \<open>An association list built by one lookup per key finds the result of the lookup.\<close>

lemma map_of_mapOrThrow:
  assumes "mapOrThrow (\<lambda>p. andThen (g p) (\<lambda>y. Inr (p, y))) ps = Inr out" "p \<in> set ps"
  shows "\<exists>y. g p = Inr y \<and> map_of out p = Some y"
  using assms
proof (induction ps arbitrary: out)
  case Nil
  then show ?case by simp
next
  case (Cons q ps)
  then obtain y out' where out: "g q = Inr y" "mapOrThrow (\<lambda>p. andThen (g p) (\<lambda>y. Inr (p, y))) ps = Inr out'"
    "out = (q, y) # out'"
    by (auto simp: andThen_eq_Inr)
  show ?case
  proof (cases "p = q")
    case True
    with out show ?thesis by simp
  next
    case False
    with Cons.prems have "p \<in> set ps" by simp
    from Cons.IH [OF out(2) this] False out(3) show ?thesis by simp
  qed
qed

lemma readTimeHours_length:
  "readTimeHours upper f day product = Inr hours \<Longrightarrow> length hours = recordCount f"
  by (auto simp: readTimeHours_def andThen_eq_Inr)

lemma readSlabs_cells:
  assumes "mapOrThrow (readSlab f n mappings nm) [0 ..< k] = Inr slabs"
  shows "length slabs = k"
    and "\<And>r. r < k \<Longrightarrow> readRecordBlock f nm r = Inr (slabs ! r)"
    and "\<And>r m o'. r < k \<Longrightarrow> m \<in> set mappings \<Longrightarrow> flatOffset n m = Some o' \<Longrightarrow> o' < length (slabs ! r)"
proof -
  show "length slabs = k" using mapOrThrow_length [OF assms] by simp
  have each: "readSlab f n mappings nm r = Inr (slabs ! r)" if "r < k" for r
    using mapOrThrow_nth [OF assms, of r] that by simp
  show "readRecordBlock f nm r = Inr (slabs ! r)" if "r < k" for r
    using each [OF that] by (auto simp: readSlab_def andThen_eq_Inr)
  show "o' < length (slabs ! r)" if "r < k" "m \<in> set mappings" "flatOffset n m = Some o'" for r m o'
    using each [OF that(1)] that(2,3) by (fastforce simp: readSlab_def andThen_eq_Inr list_all_iff split: option.splits)
qed

text \<open>One province of a decoded file against the file.\<close>

definition withinReadback :: "axisAnalysis \<Rightarrow> jsNumber \<Rightarrow> rat \<Rightarrow> bool" where
  "withinReadback an cell requested \<longleftrightarrow>
     \<not> jsLess (readbackToleranceFor (axStep an)) (jsAbs (jsSub cell (Finite requested)))"

text \<open>\<open>vals\<close> are the values of the cell at \<open>offset\<close> in every record, missing ones as \<open>None\<close>.\<close>

definition seriesOfCell ::
  "netcdf3File \<Rightarrow> airQualityPollutant \<Rightarrow> jsNumber \<Rightarrow> nat \<Rightarrow> rat option list \<Rightarrow> bool" where
  "seriesOfCell f p fill offset vals \<longleftrightarrow>
     length vals = recordCount f \<and>
     (\<forall>r < recordCount f. \<exists>slab. readRecordBlock f (fileVariableName p) r = Inr slab \<and> offset < length slab \<and>
        (\<forall>x. vals ! r = Some x \<longleftrightarrow> slab ! offset = Finite x \<and> 0 \<le> x \<and> x \<le> 100000 \<and> fill \<noteq> Finite x))"

lemma pointSeries_cell:
  assumes slabs: "mapOrThrow (readSlab f n mappings (fileVariableName p)) [0 ..< recordCount f] = Inr slabs"
    and m: "m \<in> set mappings" and off: "flatOffset n m = Some o'"
  shows "seriesOfCell f p fill o' (pointSeries n m fill slabs)"
  unfolding seriesOfCell_def
proof (intro conjI allI impI)
  note cells = readSlabs_cells [OF slabs]
  show "length (pointSeries n m fill slabs) = recordCount f"
    using off cells(1) by (simp add: pointSeries_def)
  fix r
  assume r: "r < recordCount f"
  show "\<exists>slab. readRecordBlock f (fileVariableName p) r = Inr slab \<and> o' < length slab \<and>
      (\<forall>x. pointSeries n m fill slabs ! r = Some x \<longleftrightarrow>
         slab ! o' = Finite x \<and> 0 \<le> x \<and> x \<le> 100000 \<and> fill \<noteq> Finite x)"
    using cells(1) cells(2) [OF r] cells(3) [OF r m off] r off
    by (intro exI [of _ "slabs ! r"]) (simp add: pointSeries_def classifyValue_Some)
qed

text \<open>
  A province against the file and the point that was asked. It is outside exactly when the point is
  beyond one of the axes; otherwise its cell is the one nearest to the point on both axes, its
  distance is the distance to that cell, and its values are those of that cell.
\<close>

definition provinceMatches ::
  "netcdf3File \<Rightarrow> jsNumber list \<Rightarrow> jsNumber list \<Rightarrow> camsDecodeOptions \<Rightarrow> camsDecodedFile
    \<Rightarrow> camsPoint \<Rightarrow> camsProvinceSeries \<Rightarrow> bool" where
  "provinceMatches f lons lats opts d pt s \<longleftrightarrow>
     psPlateCode s = plateCode pt \<and> requestedLatitude s = ptLatitude pt \<and> requestedLongitude s = ptLongitude pt
     \<and> (outsideDomain s \<longleftrightarrow> beyondAxis lons (ptLongitude pt) \<or> beyondAxis lats (ptLatitude pt))
     \<and> (if outsideDomain s
      then gridLatitude s = None \<and> gridLongitude s = None
            \<and> (\<forall>p \<in> set (wanted opts). psSeries s p = Some (replicate (recordCount f) None))
      else \<exists>i j. nearestCell lats (ptLatitude pt) i \<and> nearestCell lons (ptLongitude pt) j
            \<and> gridLatitude s = Some (lats ! i) \<and> gridLongitude s = Some (lons ! j)
            \<and> withinReadback (latitudeAxis d) (lats ! i) (ptLatitude pt)
            \<and> withinReadback (longitudeAxis d) (lons ! j) (ptLongitude pt)
            \<and> psDistanceKm s = distanceKm (ptLatitude pt) (ptLongitude pt) (lats ! i) (lons ! j)
            \<and> (\<forall>p \<in> set (wanted opts). \<exists>fill vals. fillValues d p = Some fill \<and> psSeries s p = Some vals
                 \<and> seriesOfCell f p fill (i * length lons + j) vals))"

lemma provinceSeries_matches:
  assumes m: "mapPoint lons (longitudeAxis d) lats (latitudeAxis d) pt = Inr m" "m \<in> set mappings"
    and fills: "mapOrThrow (\<lambda>p. andThen (checkPollutant f p) (\<lambda>fill. Inr (p, fill))) (wanted opts) = Inr fills"
    and slabs: "mapOrThrow (\<lambda>p. andThen (mapOrThrow (readSlab f (length lons) mappings (fileVariableName p))
      [0 ..< recordCount f]) (\<lambda>ss. Inr (p, ss))) (wanted opts) = Inr slabs"
    and d: "fillValues d = map_of fills"
    and axes: "analyseAxis lons = Inr (longitudeAxis d)" "analyseAxis lats = Inr (latitudeAxis d)"
  shows "provinceMatches f lons lats opts d pt (provinceSeries (length lons) (map_of fills) (map_of slabs) pt m)"
proof -
  let ?s = "provinceSeries (length lons) (map_of fills) (map_of slabs) pt m"
  have found: "\<exists>fill ss. map_of fills p = Some fill \<and> map_of slabs p = Some ss
      \<and> mapOrThrow (readSlab f (length lons) mappings (fileVariableName p)) [0 ..< recordCount f] = Inr ss
      \<and> psSeries ?s p = Some (pointSeries (length lons) m fill ss)"
    if "p \<in> set (wanted opts)" for p
    using map_of_mapOrThrow [OF fills that] map_of_mapOrThrow [OF slabs that]
    by (auto simp: provinceSeries_def Let_def)
  have own: "psPlateCode ?s = plateCode pt" "requestedLatitude ?s = ptLatitude pt" "requestedLongitude ?s = ptLongitude pt"
    "outsideDomain ?s \<longleftrightarrow> m = Point_outside"
    by (simp_all add: provinceSeries_def Let_def)
  note placed = mapPoint_place [OF axes m(1)]
  show ?thesis
  proof (cases m)
    case Point_outside
    have "psSeries ?s p = Some (replicate (recordCount f) None)" if "p \<in> set (wanted opts)" for p
      using found [OF that] readSlabs_cells(1) Point_outside
      by (auto simp: pointSeries_def flatOffset_def)
    moreover have "gridLatitude ?s = None" "gridLongitude ?s = None"
      by (simp_all add: provinceSeries_def Let_def Point_outside)
    ultimately show ?thesis
      using own placed(1) Point_outside unfolding provinceMatches_def by simp
  next
    case (Point_at i j lat lon dist t)
    note at = mapPoint_at [OF m(1) [unfolded Point_at]]
    have off: "flatOffset (length lons) m = Some (i * length lons + j)" by (simp add: flatOffset_def Point_at)
    have "\<exists>fill vals. fillValues d p = Some fill \<and> psSeries ?s p = Some vals
        \<and> seriesOfCell f p fill (i * length lons + j) vals" if "p \<in> set (wanted opts)" for p
      using found [OF that] pointSeries_cell [OF _ m(2) off] unfolding d by blast
    moreover have "gridLatitude ?s = Some (lats ! i)" "gridLongitude ?s = Some (lons ! j)"
      "psDistanceKm ?s = distanceKm (ptLatitude pt) (ptLongitude pt) (lats ! i) (lons ! j)"
      using at(3,4) placed(2) [OF Point_at] by (simp_all add: provinceSeries_def Let_def Point_at)
    moreover have "withinReadback (latitudeAxis d) (lats ! i) (ptLatitude pt)"
      "withinReadback (longitudeAxis d) (lons ! j) (ptLongitude pt)"
      using at(3-6) by (simp_all add: withinReadback_def)
    moreover have "nearestCell lats (ptLatitude pt) i" "nearestCell lons (ptLongitude pt) j"
      using placed(2) [OF Point_at] by simp_all
    ultimately have "\<exists>i j. nearestCell lats (ptLatitude pt) i \<and> nearestCell lons (ptLongitude pt) j
            \<and> gridLatitude ?s = Some (lats ! i) \<and> gridLongitude ?s = Some (lons ! j)
            \<and> withinReadback (latitudeAxis d) (lats ! i) (ptLatitude pt)
            \<and> withinReadback (longitudeAxis d) (lons ! j) (ptLongitude pt)
            \<and> psDistanceKm ?s = distanceKm (ptLatitude pt) (ptLongitude pt) (lats ! i) (lons ! j)
            \<and> (\<forall>p \<in> set (wanted opts). \<exists>fill vals. fillValues d p = Some fill \<and> psSeries ?s p = Some vals
                 \<and> seriesOfCell f p fill (i * length lons + j) vals)"
      by (intro exI [of _ i] exI [of _ j] conjI ballI)
    then show ?thesis
      using own placed(1) Point_at unfolding provinceMatches_def by simp
  qed
qed

text \<open>
  C18: Every value the decoder publishes is the float the file holds for that pollutant, record and
  grid cell: a value is present exactly when that float is finite, between 0 and 100000 and not
  the fill value. The provinces are those of the asked points, in their order and with their
  coordinates. A province is outside the grid, and has no value at all, exactly when its point is
  more than half a step and a thousandth of a degree beyond the end of an axis; otherwise its cell
  is within half a step and a thousandth of the point on both axes, and no other row or column is
  nearer by more than three thousandths (the steps of an axis may differ from each other by
  the thousandth the axis check allows). An axis here is one of finite numbers; of an axis of infinite ones, which the check
  lets through (\<open>infinite_axis_admitted\<close>), only that the cell is one of the axis is said.
\<close>

theorem decode_publishes_cells:
  assumes "decodeCamsFile plat opts archive = Inr d"
  shows "\<exists>z f lons lats. extractSingleZipEntry (cpZip plat) (maxInflatedBytes opts) archive = Inr z
    \<and> parseNetcdf3 (cpUtf8 plat) (zipBytes z) = Inr f
    \<and> readFixedNumeric f DIMENSION_LONGITUDE = Inr lons \<and> readFixedNumeric f DIMENSION_LATITUDE = Inr lats
    \<and> list_all2 (provinceMatches f lons lats opts d) (points opts) (provinces d)"
proof -
  have "decodeCamsFileInner plat opts archive = Inr d"
    using assms by (auto simp: decodeCamsFile_def split: sum.splits camsContractError.splits)
  then obtain z f lons lats fills mappings slabs where
    src: "extractSingleZipEntry (cpZip plat) (maxInflatedBytes opts) archive = Inr z"
      "parseNetcdf3 (cpUtf8 plat) (zipBytes z) = Inr f"
      "readFixedNumeric f DIMENSION_LONGITUDE = Inr lons" "readFixedNumeric f DIMENSION_LATITUDE = Inr lats"
    and axes: "analyseAxis lons = Inr (longitudeAxis d)" "analyseAxis lats = Inr (latitudeAxis d)"
    and fills: "mapOrThrow (\<lambda>p. andThen (checkPollutant f p) (\<lambda>fill. Inr (p, fill))) (wanted opts) = Inr fills"
    and hours: "readTimeHours (cpUpper plat) f (expectedRunDate opts)
        (case expectedProduct opts of None \<Rightarrow> FORECAST | Some p \<Rightarrow> p) = Inr (timeHours d)"
    and maps: "mapOrThrow (mapPoint lons (longitudeAxis d) lats (latitudeAxis d)) (points opts) = Inr mappings"
    and slabs: "mapOrThrow (readSlabs f (axLength (longitudeAxis d)) mappings (length (timeHours d))) (wanted opts) = Inr slabs"
    and outs: "fillValues d = map_of fills"
      "provinces d = map2 (provinceSeries (axLength (longitudeAxis d)) (map_of fills) (map_of slabs)) (points opts) mappings"
    by (rule decodeInner_Inr)
  have n: "axLength (longitudeAxis d) = length lons" by (rule analyseAxis_Inr(8) [OF axes(1)])
  have k: "length (timeHours d) = recordCount f" by (rule readTimeHours_length [OF hours])
  have each: "list_all2 (\<lambda>pt m. mapPoint lons (longitudeAxis d) lats (latitudeAxis d) pt = Inr m) (points opts) mappings"
    using maps by (simp add: mapOrThrow_eq_Inr)
  have "provinceMatches f lons lats opts d pt (provinceSeries (length lons) (map_of fills) (map_of slabs) pt m)"
    if "(pt, m) \<in> set (zip (points opts) mappings)" for pt m
  proof -
    from that each have "mapPoint lons (longitudeAxis d) lats (latitudeAxis d) pt = Inr m" "m \<in> set mappings"
      by (auto simp: list_all2_iff dest: set_zip_rightD)
    then show ?thesis
      using provinceSeries_matches fills slabs outs(1) axes unfolding readSlabs_def [abs_def] n k by blast
  qed
  then have "list_all2 (provinceMatches f lons lats opts d) (points opts) (provinces d)"
    using list_all2_lengthD [OF each] unfolding outs(2) n list_all2_conv_all_nth by (auto simp: in_set_zip)
  with src show ?thesis by blast
qed

end
