(* ===== verification/Cams_Sample.thy ===== *)
theory Cams_Sample
  imports Cams_Decode Netcdf3_Roundtrip
begin

text \<open>
  A small CAMS file, built with the builders of \<open>src/air-quality/cams/netcdf3-fixture.builder.ts\<close> and
  decoded: the concrete input for the theorem on the decoder.
\<close>

section \<open>A sample file\<close>

definition sampleCams :: fixtureFileSpec where
  "sampleCams =
     \<lparr>fsDimensions = [\<lparr>fdName = DIMENSION_TIME, fdLength = None\<rparr>, \<lparr>fdName = DIMENSION_LEVEL, fdLength = Some 1\<rparr>,
         \<lparr>fdName = DIMENSION_LATITUDE, fdLength = Some 2\<rparr>, \<lparr>fdName = DIMENSION_LONGITUDE, fdLength = Some 2\<rparr>],
      fsGlobalAttributes = [],
      fsVariables =
        [\<lparr>fvName = DIMENSION_LONGITUDE, fvDimensions = [DIMENSION_LONGITUDE], fvAttributes = [],
           fvData = [0x41200000, 0x41300000]\<rparr>,
         \<lparr>fvName = DIMENSION_LATITUDE, fvDimensions = [DIMENSION_LATITUDE], fvAttributes = [],
           fvData = [0x42200000, 0x421C0000]\<rparr>,
         \<lparr>fvName = DIMENSION_TIME, fvDimensions = [DIMENSION_TIME],
           fvAttributes = [\<lparr>faName = ascii ''units'', faValue = Fa_text (ascii ''hours'')\<rparr>,
             \<lparr>faName = ascii ''long_name'', faValue = Fa_text (ascii ''FORECAST 20240101'')\<rparr>],
           fvData = [0, 0x3F800000]\<rparr>,
         \<lparr>fvName = ascii ''o3_conc'',
           fvDimensions = [DIMENSION_TIME, DIMENSION_LEVEL, DIMENSION_LATITUDE, DIMENSION_LONGITUDE],
           fvAttributes = [\<lparr>faName = ascii ''units'', faValue = Fa_text CAMS_CANONICAL_UNIT\<rparr>,
             \<lparr>faName = ascii ''_FillValue'', faValue = Fa_numbers [0xC479C000]\<rparr>],
           fvData = [0x40A00000, 0x40C00000, 0xC479C000, 0x40E00000, 0x40A00000, 0x40C00000, 0xC479C000, 0xC479C000]\<rparr>],
      fsRecordCount = 2\<rparr>"

definition samplePlatform :: camsPlatform where
  "samplePlatform =
     \<lparr>cpZip = \<lparr>zcUtf8 = map uint, zcIsControl = (\<lambda>c. c < 32), zcInflateRaw = (\<lambda>b cap. None)\<rparr>,
      cpUtf8 = map uint, cpUpper = id\<rparr>"

definition sampleOptions :: camsDecodeOptions where
  "sampleOptions =
     \<lparr>expectedRunDate = ascii ''20240101'',
      points = [\<lparr>plateCode = ascii ''06'', ptLatitude = 39, ptLongitude = 11\<rparr>,
                \<lparr>plateCode = ascii ''34'', ptLatitude = 0, ptLongitude = 0\<rparr>],
      optPollutants = Some [O3], expectedProduct = None, maxInflatedBytes = Some 10000\<rparr>"

lemma ascii_simps: "ascii [] = []" "ascii (c # s) = of_char c # ascii s"
  by (simp_all add: ascii_def)

text \<open>The names of the sample differ.\<close>

lemma names_differ [simp]:
  "DIMENSION_TIME \<noteq> DIMENSION_LEVEL" "DIMENSION_LEVEL \<noteq> DIMENSION_TIME"
  "DIMENSION_TIME \<noteq> DIMENSION_LATITUDE" "DIMENSION_LATITUDE \<noteq> DIMENSION_TIME"
  "DIMENSION_TIME \<noteq> DIMENSION_LONGITUDE" "DIMENSION_LONGITUDE \<noteq> DIMENSION_TIME"
  "DIMENSION_LEVEL \<noteq> DIMENSION_LATITUDE" "DIMENSION_LATITUDE \<noteq> DIMENSION_LEVEL"
  "DIMENSION_LEVEL \<noteq> DIMENSION_LONGITUDE" "DIMENSION_LONGITUDE \<noteq> DIMENSION_LEVEL"
  "DIMENSION_LATITUDE \<noteq> DIMENSION_LONGITUDE" "DIMENSION_LONGITUDE \<noteq> DIMENSION_LATITUDE"
  by (simp_all add: dimension_names ascii_simps)

lemma attributes_differ [simp]:
  "ascii ''units'' \<noteq> ascii ''scale_factor''" "ascii ''units'' \<noteq> ascii ''add_offset''"
  "ascii ''units'' \<noteq> ascii ''_FillValue''" "ascii ''units'' \<noteq> ascii ''long_name''"
  "ascii ''_FillValue'' \<noteq> ascii ''scale_factor''" "ascii ''_FillValue'' \<noteq> ascii ''add_offset''"
  "ascii ''long_name'' \<noteq> ascii ''scale_factor''" "ascii ''long_name'' \<noteq> ascii ''add_offset''"
  by (simp_all add: ascii_simps)

lemma sampleCams_ok: "fixtureOk (map uint) (map word_of_int) sampleCams"
  by (simp add: sampleCams_def fixtureOk_def dimensionOk_def attributesOk_def attributeOk_def variableOk_def
        nameOk_def dimensionOf_def dimensionIndex_def fixtureElements_def isRecordVariable_def padTo4_def
        layoutOf_def emitHeader_bytes headerBytes_def listBytes_def dimensionBytes_def nameBytes_def
        length_padding variableBytes_def attributeBytes_def payloadBytes_def Let_def dimension_names
        CAMS_CANONICAL_UNIT_def ascii_simps)

lemma sampleCams_size: "snd (snd (layoutOf (map word_of_int) sampleCams)) < 10000"
  by (simp add: sampleCams_def 
        dimensionOf_def dimensionIndex_def fixtureElements_def isRecordVariable_def padTo4_def
        layoutOf_def emitHeader_bytes headerBytes_def listBytes_def dimensionBytes_def nameBytes_def
        length_padding variableBytes_def attributeBytes_def payloadBytes_def Let_def dimension_names
        CAMS_CANONICAL_UNIT_def ascii_simps)

lemma sampleCams_floats: "float32Value 0x41200000 = Finite 10" "float32Value 0x41300000 = Finite 11"
  "float32Value 0x42200000 = Finite 40" "float32Value 0x421C0000 = Finite 39"
  "float32Value 0 = Finite 0" "float32Value 0x3F800000 = Finite 1" "float32Value 0xC479C000 = Finite (- 999)"
  "float32Value 0x40A00000 = Finite 5" "float32Value 0x40C00000 = Finite 6" "float32Value 0x40E00000 = Finite 7"
  by (simp_all add: float32Value_def ieeeValue_def Let_def)

lemma sampleCams_read:
  obtains bts f where "buildNetcdf3 (map word_of_int) sampleCams = Inr bts" "parseNetcdf3 (map uint) bts = Inr f"
    "length bts < 10000" "recordCount f = 2" "dimensions f = dimensionsRead sampleCams"
    "hasVariable f (ascii ''o3_conc'')"
    "\<And>i. i < 4 \<Longrightarrow> \<exists>start. fileVariable f (fvName (fsVariables sampleCams ! i))
        = Inr (variableRead sampleCams (fsVariables sampleCams ! i, start))"
    "readFixedNumeric f DIMENSION_LONGITUDE = Inr [Finite 10, Finite 11]"
    "readFixedNumeric f DIMENSION_LATITUDE = Inr [Finite 40, Finite 39]"
    "readRecordBlock f DIMENSION_TIME 0 = Inr [Finite 0]" "readRecordBlock f DIMENSION_TIME 1 = Inr [Finite 1]"
    "readRecordBlock f (ascii ''o3_conc'') 0 = Inr [Finite 5, Finite 6, Finite (- 999), Finite 7]"
    "readRecordBlock f (ascii ''o3_conc'') 1 = Inr [Finite 5, Finite 6, Finite (- 999), Finite (- 999)]"
proof -
  let ?spec = sampleCams
  obtain bts where built: "buildNetcdf3 (map word_of_int) ?spec = Inr bts"
      "parseNetcdf3 (map uint) bts = Inr (readBack (map word_of_int) ?spec bts)"
    and size: "length bts = snd (snd (layoutOf (map word_of_int) ?spec))"
    and var: "\<forall>v \<in> set (fsVariables ?spec). \<exists>start. fileVariable (readBack (map word_of_int) ?spec bts) (fvName v)
        = Inr (variableRead ?spec (v, start))"
    and fixed: "\<forall>v \<in> set (fsVariables ?spec). \<not> isRecordVariable ?spec v
       \<longrightarrow> readFixedNumeric (readBack (map word_of_int) ?spec bts) (fvName v) = Inr (map float32Value (fvData v))"
    and rcd: "\<forall>v \<in> set (fsVariables ?spec). \<forall>r < fsRecordCount ?spec. isRecordVariable ?spec v
       \<longrightarrow> readRecordBlock (readBack (map word_of_int) ?spec bts) (fvName v) r = Inr (map float32Value (unitValues ?spec v r))"
    and names: "map varName (variables (readBack (map word_of_int) ?spec bts)) = map fvName (fsVariables ?spec)"
    by (rule built_file_values [OF sampleCams_ok])
  let ?f = "readBack (map word_of_int) ?spec bts" and ?v = "\<lambda>i. fsVariables ?spec ! i"
  have mem: "i < 4 \<Longrightarrow> ?v i \<in> set (fsVariables ?spec)" for i
    by (rule nth_mem) (simp add: sampleCams_def)
  have kinds: "\<not> isRecordVariable ?spec (?v 0)" "\<not> isRecordVariable ?spec (?v 1)"
      "isRecordVariable ?spec (?v 2)" "isRecordVariable ?spec (?v 3)"
    by (simp_all add: sampleCams_def isRecordVariable_def dimensionOf_def dimensionIndex_def)
  have rc: "fsRecordCount ?spec = 2" by (simp add: sampleCams_def)
  have vn: "fvName (?v 0) = DIMENSION_LONGITUDE" "fvName (?v 1) = DIMENSION_LATITUDE"
      "fvName (?v 2) = DIMENSION_TIME" "fvName (?v 3) = ascii ''o3_conc''"
    by (simp_all add: sampleCams_def)
  have data: "map float32Value (fvData (?v 0)) = [Finite 10, Finite 11]"
      "map float32Value (fvData (?v 1)) = [Finite 40, Finite 39]"
      "map float32Value (unitValues ?spec (?v 2) 0) = [Finite 0]"
      "map float32Value (unitValues ?spec (?v 2) 1) = [Finite 1]"
      "map float32Value (unitValues ?spec (?v 3) 0) = [Finite 5, Finite 6, Finite (- 999), Finite 7]"
      "map float32Value (unitValues ?spec (?v 3) 1) = [Finite 5, Finite 6, Finite (- 999), Finite (- 999)]"
    by (simp_all add: sampleCams_def sampleCams_floats unitValues_def fixtureElements_def dimensionOf_def
        dimensionIndex_def)
  have has: "hasVariable ?f (ascii ''o3_conc'')"
  proof -
    have "ascii ''o3_conc'' \<in> set (map varName (variables ?f))"
      unfolding names by (simp add: sampleCams_def)
    then show ?thesis by (auto simp: hasVariable_def list_ex_iff)
  qed
  have lt: "length bts < 10000" using sampleCams_size by (simp add: size)
  have fx: "readFixedNumeric ?f DIMENSION_LONGITUDE = Inr [Finite 10, Finite 11]"
    "readFixedNumeric ?f DIMENSION_LATITUDE = Inr [Finite 40, Finite 39]"
    using fixed [rule_format, OF mem [of 0] kinds(1)] fixed [rule_format, OF mem [of 1] kinds(2)]
    unfolding data vn by simp_all
  have rb: "readRecordBlock ?f DIMENSION_TIME 0 = Inr [Finite 0]" "readRecordBlock ?f DIMENSION_TIME 1 = Inr [Finite 1]"
    "readRecordBlock ?f (ascii ''o3_conc'') 0 = Inr [Finite 5, Finite 6, Finite (- 999), Finite 7]"
    "readRecordBlock ?f (ascii ''o3_conc'') 1 = Inr [Finite 5, Finite 6, Finite (- 999), Finite (- 999)]"
    using rcd [rule_format, OF mem [of 2] _ kinds(3), of 0] rcd [rule_format, OF mem [of 2] _ kinds(3), of 1]
      rcd [rule_format, OF mem [of 3] _ kinds(4), of 0] rcd [rule_format, OF mem [of 3] _ kinds(4), of 1]
    unfolding data vn rc by simp_all
  show thesis
    by (rule that [OF built lt _ _ has _ fx rb]) (use var mem in \<open>auto simp: readBack_def rc\<close>)
qed

text \<open>The sample decodes: one series of the cell at 39 north, 11 east, and a province outside.\<close>

lemma sampleCams_decodes:
  "\<exists>bts d s. buildNetcdf3 (map word_of_int) sampleCams = Inr bts
     \<and> decodeCamsFile samplePlatform sampleOptions
         (buildZipArchive (map word_of_int) 0 id [\<lparr>zfName = ascii ''a.nc'', zfBytes = bts\<rparr>]) = Inr d
     \<and> provinces d ! 0 = s \<and> psSeries s O3 = Some [Some 7, None]
     \<and> psSupport s O3 = Some Aq_ok \<and> outsideDomain (provinces d ! 1)"
proof -
  obtain bts f where file_built: "buildNetcdf3 (map word_of_int) sampleCams = Inr bts" "parseNetcdf3 (map uint) bts = Inr f"
    and lt: "length bts < 10000" and rc: "recordCount f = 2" and dims: "dimensions f = dimensionsRead sampleCams"
    and has: "hasVariable f (ascii ''o3_conc'')"
    and var: "\<And>i. i < 4 \<Longrightarrow> \<exists>start. fileVariable f (fvName (fsVariables sampleCams ! i))
        = Inr (variableRead sampleCams (fsVariables sampleCams ! i, start))"
    and vals: "readFixedNumeric f DIMENSION_LONGITUDE = Inr [Finite 10, Finite 11]"
    "readFixedNumeric f DIMENSION_LATITUDE = Inr [Finite 40, Finite 39]"
    "readRecordBlock f DIMENSION_TIME 0 = Inr [Finite 0]" "readRecordBlock f DIMENSION_TIME 1 = Inr [Finite 1]"
    "readRecordBlock f (ascii ''o3_conc'') 0 = Inr [Finite 5, Finite 6, Finite (- 999), Finite 7]"
    "readRecordBlock f (ascii ''o3_conc'') 1 = Inr [Finite 5, Finite 6, Finite (- 999), Finite (- 999)]"
    by (rule sampleCams_read) blast
  obtain s0 s1 s2 s3 where var:
    "fileVariable f DIMENSION_LONGITUDE = Inr (variableRead sampleCams (fsVariables sampleCams ! 0, s0))"
    "fileVariable f DIMENSION_LATITUDE = Inr (variableRead sampleCams (fsVariables sampleCams ! 1, s1))"
    "fileVariable f DIMENSION_TIME = Inr (variableRead sampleCams (fsVariables sampleCams ! 2, s2))"
    "fileVariable f (ascii ''o3_conc'') = Inr (variableRead sampleCams (fsVariables sampleCams ! 3, s3))"
    using var [of 0] var [of 1] var [of 2] var [of 3] by (auto simp: sampleCams_def)
  let ?e = "\<lparr>zfName = ascii ''a.nc'', zfBytes = bts\<rparr>"
  have zip: "extractSingleZipEntry (cpZip samplePlatform) (Some 10000) (buildZipArchive (map word_of_int) 0 id [?e])
      = Inr \<lparr>zipName = ascii ''a.nc'', zipMethod = 0, zipBytes = bts\<rparr>"
    using zip_entry_back [of "map word_of_int" 0 id ?e 10000 "cpZip samplePlatform"] lt
    by (simp add: archiveFits_def localPart_def samplePlatform_def ascii_simps)
  have coords: "assertCoordinateVariable f DIMENSION_LONGITUDE = Inr ()" "assertCoordinateVariable f DIMENSION_LATITUDE = Inr ()"
    by (simp_all add: assertCoordinateVariable_def var dimensionNames_def dims variableRead_def sampleCams_def
      dimensionIdOf_def dimensionIndex_def dimensionRead_def)
  have axes: "analyseAxis [Finite 10, Finite 11]
        = Inr \<lparr>axStep = Finite 1, axFirst = Finite 10, axLast = Finite 11, axLength = 2\<rparr>"
      "analyseAxis [Finite 40, Finite 39]
        = Inr \<lparr>axStep = Finite (- 1), axFirst = Finite 40, axLast = Finite 39, axLength = 2\<rparr>"
    by (simp_all add: analyseAxis_def axisSteps_def stepOk_def AXIS_EQUAL_STEP_TOLERANCE_def)
  have level: "(case find (\<lambda>d. dimName d = DIMENSION_LEVEL) (dimensions f) of
      None \<Rightarrow> False | Some d \<Rightarrow> dimLength d = 1)"
    by (simp add: dims sampleCams_def dimensionRead_def)
  have o3: "fileVariableName O3 = ascii ''o3_conc''"
    by (simp add: fileVariableName_def camsVariableFor_def CAMS_VARIABLES_def)
  have atts: "fileAttribute f (ascii ''o3_conc'') nm = Inr (find (\<lambda>x. attName x = nm)
      [\<lparr>attName = ascii ''units'', attNcType = NC_CHAR, attValue = Att_text CAMS_CANONICAL_UNIT\<rparr>,
       \<lparr>attName = ascii ''_FillValue'', attNcType = NC_FLOAT, attValue = Att_numbers [Finite (- 999)]\<rparr>])" for nm
    by (simp only: fileAttribute_def var andThen_simps)
      (simp add: variableRead_def sampleCams_def attributeRead_def sampleCams_floats)
  have timeAtts: "fileAttribute f DIMENSION_TIME nm = Inr (find (\<lambda>x. attName x = nm)
      [\<lparr>attName = ascii ''units'', attNcType = NC_CHAR, attValue = Att_text (ascii ''hours'')\<rparr>,
       \<lparr>attName = ascii ''long_name'', attNcType = NC_CHAR, attValue = Att_text (ascii ''FORECAST 20240101'')\<rparr>])" for nm
    by (simp only: fileAttribute_def var andThen_simps)
      (simp add: variableRead_def sampleCams_def attributeRead_def)
  have shape: "assertVariableShape f (ascii ''o3_conc'') = Inr ()"
    by (simp add: assertVariableShape_def var dimensionNames_def dims variableRead_def sampleCams_def
      dimensionIdOf_def dimensionIndex_def dimensionRead_def)
  have fill: "checkPollutant f O3 = Inr (Finite (- 999))"
    by (simp add: checkPollutant_def o3 has shape assertUnpacked_def atts var variableRead_def
      attributeText_def attributeScalar_def)
  have hours: "readTimeHours id f (ascii ''20240101'') FORECAST = Inr [Finite 0, Finite 1]"
  proof -
    have ladder: "mapOrThrow (readTimeValue f) [0 ..< recordCount f] = Inr [Finite 0, Finite 1]"
      using vals by (simp add: readTimeValue_def rc upt_rec numeral_2_eq_2)
    have "isRecordVariable sampleCams (fsVariables sampleCams ! 2)"
      by (simp add: sampleCams_def isRecordVariable_def dimensionOf_def dimensionIndex_def)
    moreover have "textIncludes (ascii ''FORECAST 20240101'') (ascii ''20240101'')"
      "textIncludes (ascii ''FORECAST 20240101'') (productText FORECAST)"
      by (simp_all add: textIncludes_def startsWith_def productText_def ascii_simps upt_rec)
    ultimately show ?thesis
      by (simp add: readTimeHours_def var timeAtts assertUnpacked_def attributeText_def ladder variableRead_def)
        (simp add: rc upt_rec numeral_2_eq_2)
  qed
  have at: "mapPoint [Finite 10, Finite 11] \<lparr>axStep = Finite 1, axFirst = Finite 10, axLast = Finite 11, axLength = 2\<rparr>
       [Finite 40, Finite 39] \<lparr>axStep = Finite (- 1), axFirst = Finite 40, axLast = Finite 39, axLength = 2\<rparr>
       \<lparr>plateCode = ascii ''06'', ptLatitude = 39, ptLongitude = 11\<rparr>
      = Inr (Point_at 1 1 (Finite 39) (Finite 11) (Some 0) (Some (gridThresholdKm 39 (- 1) 1)))"
  proof -
    have one: "js_round 1 = 1" using js_round_of_int [of 1] by simp
    have "mapCoordinateToIndex [Finite 10, Finite 11]
        \<lparr>axStep = Finite 1, axFirst = Finite 10, axLast = Finite 11, axLength = 2\<rparr> 11 = Inr (Mapped 1 (Finite 11))"
      "mapCoordinateToIndex [Finite 40, Finite 39]
        \<lparr>axStep = Finite (- 1), axFirst = Finite 40, axLast = Finite 39, axLength = 2\<rparr> 39 = Inr (Mapped 1 (Finite 39))"
      by (simp_all add: mapCoordinateToIndex_def READBACK_EXTRA_TOLERANCE_def readbackToleranceFor_def one Let_def)
    moreover have "0 \<le> gridThresholdKm 39 (- 1) 1" by (simp add: gridThresholdKm_def Let_def)
    moreover have "gridDistanceKm 39 11 39 11 = 0" by (simp add: gridDistanceKm_def gridRadians_def Let_def)
    ultimately show ?thesis
      by (simp add: mapPoint_def distanceKm_def distanceThresholdKm_def farAway_def of_rat_minus)
  qed
  have out: "mapPoint [Finite 10, Finite 11] \<lparr>axStep = Finite 1, axFirst = Finite 10, axLast = Finite 11, axLength = 2\<rparr>
       [Finite 40, Finite 39] \<lparr>axStep = Finite (- 1), axFirst = Finite 40, axLast = Finite 39, axLength = 2\<rparr>
       \<lparr>plateCode = ascii ''34'', ptLatitude = 0, ptLongitude = 0\<rparr> = Inr Point_outside"
    by (simp add: mapPoint_def mapCoordinateToIndex_def READBACK_EXTRA_TOLERANCE_def)
  let ?maps = "[Point_at 1 1 (Finite 39) (Finite 11) (Some 0) (Some (gridThresholdKm 39 (- 1) 1)), Point_outside]"
  let ?slabs = "[[Finite 5, Finite 6, Finite (- 999), Finite 7], [Finite 5, Finite 6, Finite (- 999), Finite (- 999)]]"
  have slabs: "readSlabs f 2 ?maps (Suc (Suc 0)) O3 = Inr (O3, ?slabs)"
    using vals by (simp add: readSlabs_def readSlab_def flatOffset_def o3 upt_rec)
  have series: "pointSeries 2 (hd ?maps) (Finite (- 999)) ?slabs = [Some 7, None]"
    by (simp add: pointSeries_def flatOffset_def classifyValue_def CAMS_MAX_PLAUSIBLE_CONCENTRATION_UG_M3_def)
  have "list_all isDigit (ascii ''20240101'')" by (simp add: ascii_simps isDigit_def)
  moreover have "length (ascii ''20240101'') = 8" "ascii ''06'' \<noteq> ascii ''34''" by (simp_all add: ascii_simps)
  ultimately have "\<exists>d. decodeCamsFileInner samplePlatform sampleOptions (buildZipArchive (map word_of_int) 0 id [?e]) = Inr d
      \<and> psSeries (provinces d ! 0) O3 = Some [Some 7, None]
      \<and> psSupport (provinces d ! 0) O3 = Some Aq_ok \<and> outsideDomain (provinces d ! 1)"
    using zip coords axes level fill hours at out slabs series vals(1,2) file_built(2)
    by (simp add: decodeCamsFileInner_def sampleOptions_def samplePlatform_def provinceSeries_def supportOf_def Let_def)
  then show ?thesis using file_built(1) by (auto simp: decodeCamsFile_def)
qed

theorem decode_publishes_cells_witness:
  "\<exists>archive d z f lons lats. decodeCamsFile samplePlatform sampleOptions archive = Inr d
     \<and> psSeries (provinces d ! 0) O3 = Some [Some 7, None]
     \<and> extractSingleZipEntry (cpZip samplePlatform) (Some 10000) archive = Inr z
     \<and> parseNetcdf3 (map uint) (zipBytes z) = Inr f
     \<and> readFixedNumeric f DIMENSION_LONGITUDE = Inr lons \<and> readFixedNumeric f DIMENSION_LATITUDE = Inr lats
     \<and> list_all2 (provinceMatches f lons lats sampleOptions d) (points sampleOptions) (provinces d)"
proof -
  obtain bts d where d: "decodeCamsFile samplePlatform sampleOptions
      (buildZipArchive (map word_of_int) 0 id [\<lparr>zfName = ascii ''a.nc'', zfBytes = bts\<rparr>]) = Inr d"
    and series: "psSeries (provinces d ! 0) O3 = Some [Some 7, None]"
    using sampleCams_decodes by auto
  have opts: "maxInflatedBytes sampleOptions = Some 10000" "cpUtf8 samplePlatform = map uint"
    by (simp_all add: sampleOptions_def samplePlatform_def)
  show ?thesis
    using decode_publishes_cells [OF d] d series unfolding opts by blast
qed

end
