(* ===== verification/Ads_Jobs.thy ===== *)
theory Ads_Jobs
  imports Air_Quality_Types Afad_Time Upstream_Http_Client
begin

text \<open>
  \<open>src/air-quality/cams/ads-jobs.ts\<close> and \<open>ads-redaction.ts\<close>: the requests and answers of the
  provider's job interface, the allow list of download hosts, and the removal of the API key from
  texts. The platform's \<open>JSON.parse\<close>, \<open>URL\<close> and \<open>Date.parse\<close> are parameters; a refusal has one
  constructor per message.
\<close>

section \<open>Platform and configuration\<close>

record parsedUrl =
  urlProtocol :: jsText
  urlHostname :: jsText
  urlText :: jsText

record adsPlatform =
  apJson :: "jsText \<Rightarrow> json option"
  apUrl :: "jsText \<Rightarrow> parsedUrl option"
  apDate :: "jsText \<Rightarrow> ms option"

record adsIngestConfig =
  adBaseUrl :: jsText
  adDatasetId :: jsText
  adObjectStoreHosts :: "jsText list"
  adApiKey :: "jsText option"
  adArea :: "rat list"
  adForecastHours :: nat
  adSubmitAfterUtcHour :: int
  adMaxAttemptsPerJob :: nat
  adPollTimeoutMs :: ms
  adDownloadTimeoutMs :: ms
  adTourBudgetMs :: ms
  adRunMaxBytes :: nat

datatype adsJobKind = Forecast_job | Analysis_job

datatype adsError =
    Json_syntax
  | Expected_object string
  | Expected_number string
  | Expected_string string
  | Job_id_shape
  | Not_a_date
  | Expected_jobs_array
  | Checksum_shape
  | Href_not_url
  | Href_protocol jsText
  | Href_host jsText

definition ANALYSIS_HOURS_PER_JOB :: nat where "ANALYSIS_HOURS_PER_JOB = 24"

section \<open>Job identifiers and URLs\<close>

definition isAlnum :: "int \<Rightarrow> bool" where
  "isAlnum c \<longleftrightarrow> isDigit c \<or> (65 \<le> c \<and> c \<le> 90) \<or> (97 \<le> c \<and> c \<le> 122)"

text \<open>\<open>/^[A-Za-z0-9][A-Za-z0-9_-]{0,63}$/\<close>\<close>

definition isPlausibleJobId :: "jsText \<Rightarrow> bool" where
  "isPlausibleJobId jobId \<longleftrightarrow>
     (case jobId of [] \<Rightarrow> False
      | c # rest \<Rightarrow> isAlnum c \<and> length rest \<le> 63 \<and> list_all (\<lambda>d. isAlnum d \<or> d = 95 \<or> d = 45) rest)"

definition assertJobId :: "jsText \<Rightarrow> adsError + jsText" where
  "assertJobId jobId = (if isPlausibleJobId jobId then Inr jobId else Inl Job_id_shape)"

definition trimSlash :: "jsText \<Rightarrow> jsText" where
  "trimSlash t = (if t \<noteq> [] \<and> last t = 47 then butlast t else t)"

definition retrieveUrl :: "adsIngestConfig \<Rightarrow> jsText" where
  "retrieveUrl cfg = trimSlash (adBaseUrl cfg) @ ascii ''/retrieve/v1''"

definition costingUrl :: "adsIngestConfig \<Rightarrow> jsText" where
  "costingUrl cfg = retrieveUrl cfg @ ascii ''/processes/'' @ adDatasetId cfg @ ascii ''/costing''"

definition executionUrl :: "adsIngestConfig \<Rightarrow> jsText" where
  "executionUrl cfg = retrieveUrl cfg @ ascii ''/processes/'' @ adDatasetId cfg @ ascii ''/execution''"

definition jobsListUrl :: "adsIngestConfig \<Rightarrow> jsText" where
  "jobsListUrl cfg = retrieveUrl cfg @ ascii ''/jobs''"

definition jobUrl :: "adsIngestConfig \<Rightarrow> jsText \<Rightarrow> adsError + jsText" where
  "jobUrl cfg jobId = andThen (assertJobId jobId) (\<lambda>j. Inr (retrieveUrl cfg @ ascii ''/jobs/'' @ j))"

definition jobResultsUrl :: "adsIngestConfig \<Rightarrow> jsText \<Rightarrow> adsError + jsText" where
  "jobResultsUrl cfg jobId = andThen (jobUrl cfg jobId) (\<lambda>u. Inr (u @ ascii ''/results''))"

section \<open>Days\<close>

definition isoDay :: "ms \<Rightarrow> jsText" where
  "isoDay t = take 10 (toISOString t)"

definition compactDay :: "jsText \<Rightarrow> jsText" where
  "compactDay day = filter (\<lambda>c. c \<noteq> 45) day"

definition currentRunDate :: "ms \<Rightarrow> int \<Rightarrow> ms" where
  "currentRunDate now submitAfterUtcHour =
     (let runUtc = dateUTC (getUTCFullYear now) (getUTCMonth now) (getUTCDate now) 0 0 0 0
      in if getUTCHours now < submitAfterUtcHour then runUtc - MS_PER_DAY else runUtc)"

definition analysisDateFor :: "adsPlatform \<Rightarrow> jsText \<Rightarrow> adsError + jsText" where
  "analysisDateFor plat runDate =
     (case apDate plat (runDate @ ascii ''T00:00:00Z'') of
        None \<Rightarrow> Inl Not_a_date
      | Some t \<Rightarrow> Inr (isoDay (t - MS_PER_DAY)))"

section \<open>Requests\<close>

text \<open>\<open>String(hour)\<close>, for hours below a thousand.\<close>

definition hourText :: "nat \<Rightarrow> jsText" where
  "hourText h = (if h < 10 then [48 + int h] else if h < 100 then paddedDigits 2 (int h) else paddedDigits 3 (int h))"

definition forecastFields :: "adsIngestConfig \<Rightarrow> jsText \<Rightarrow> string \<Rightarrow> json list \<Rightarrow> json list \<Rightarrow> (jsText \<times> json) list" where
  "forecastFields cfg runDate product hoursOfDay leads =
     [(ascii ''model'', JArray [JString (ascii ''ensemble'')]),
      (ascii ''variable'', JArray (map (\<lambda>v. JString (ascii (cvRequestName v))) CAMS_VARIABLES)),
      (ascii ''level'', JArray [JString (ascii ''0'')]),
      (ascii ''type'', JArray [JString (ascii product)]),
      (ascii ''date'', JArray [JString (runDate @ [47] @ runDate)]),
      (ascii ''time'', JArray hoursOfDay),
      (ascii ''leadtime_hour'', JArray leads),
      (ascii ''area'', JArray (map JNumber (adArea cfg))),
      (ascii ''data_format'', JString (ascii ''netcdf_zip''))]"

definition buildForecastRequestBody :: "adsIngestConfig \<Rightarrow> jsText \<Rightarrow> json" where
  "buildForecastRequestBody cfg runDate =
     JObject (forecastFields cfg runDate ''forecast'' [JString (ascii ''00:00'')]
       (map (\<lambda>h. JString (hourText h)) [0..<adForecastHours cfg + 1]))"

definition buildAnalysisRequestBody :: "adsIngestConfig \<Rightarrow> jsText \<Rightarrow> json" where
  "buildAnalysisRequestBody cfg analysisDate =
     JObject (forecastFields cfg analysisDate ''analysis''
       (map (\<lambda>h. JString (padStart 2 48 (hourText h) @ ascii '':00'')) [0..<ANALYSIS_HOURS_PER_JOB])
       [JString (ascii ''0'')])"

definition expectedStepCount :: "int \<Rightarrow> adsJobKind \<Rightarrow> int" where
  "expectedStepCount runForecastHours k =
     (case k of Forecast_job \<Rightarrow> runForecastHours + 1 | Analysis_job \<Rightarrow> int ANALYSIS_HOURS_PER_JOB)"

section \<open>Answers\<close>

definition asRecordValue :: "json option \<Rightarrow> string \<Rightarrow> adsError + (jsText \<times> json) list" where
  "asRecordValue v what = (case v of Some (JObject entries) \<Rightarrow> Inr entries | _ \<Rightarrow> Inl (Expected_object what))"

definition asRecord :: "adsPlatform \<Rightarrow> jsText \<Rightarrow> string \<Rightarrow> adsError + (jsText \<times> json) list" where
  "asRecord plat body what =
     (case apJson plat body of None \<Rightarrow> Inl Json_syntax | Some j \<Rightarrow> asRecordValue (Some j) what)"

definition asNumber :: "json option \<Rightarrow> string \<Rightarrow> adsError + rat" where
  "asNumber v what = (case v of Some (JNumber x) \<Rightarrow> Inr x | _ \<Rightarrow> Inl (Expected_number what))"

definition asString :: "json option \<Rightarrow> string \<Rightarrow> adsError + jsText" where
  "asString v what =
     (case v of Some (JString s) \<Rightarrow> if s = [] then Inl (Expected_string what) else Inr s
      | _ \<Rightarrow> Inl (Expected_string what))"

definition optionalString :: "json option \<Rightarrow> jsText option" where
  "optionalString v = (case v of Some (JString s) \<Rightarrow> if s = [] then None else Some s | _ \<Rightarrow> None)"

record adsCosting =
  acCost :: rat
  acLimit :: rat

definition parseCosting :: "adsPlatform \<Rightarrow> jsText \<Rightarrow> adsError + adsCosting" where
  "parseCosting plat body =
     andThen (asRecord plat body ''costing'') (\<lambda>r.
     andThen (asNumber (jsonField r ''cost'') ''costing.cost'') (\<lambda>cost.
     andThen (asNumber (jsonField r ''limit'') ''costing.limit'') (\<lambda>most.
       Inr \<lparr>acCost = cost, acLimit = most\<rparr>)))"

record adsJobStatus =
  jsJobId :: jsText
  jsStatus :: jsText
  jsCreated :: "jsText option"
  jsStarted :: "jsText option"
  jsFinished :: "jsText option"

definition parseJobStatus :: "adsPlatform \<Rightarrow> jsText \<Rightarrow> string \<Rightarrow> adsError + adsJobStatus" where
  "parseJobStatus plat body what =
     andThen (asRecord plat body what) (\<lambda>r.
     andThen (asString (jsonField r ''jobID'') (what @ ''.jobID'')) (\<lambda>raw.
     andThen (assertJobId raw) (\<lambda>jobId.
     andThen (asString (jsonField r ''status'') (what @ ''.status'')) (\<lambda>st.
       Inr \<lparr>jsJobId = jobId, jsStatus = st, jsCreated = optionalString (jsonField r ''created''),
            jsStarted = optionalString (jsonField r ''started''),
            jsFinished = optionalString (jsonField r ''finished'')\<rparr>))))"

definition parseJobDismissal :: "adsPlatform \<Rightarrow> jsText \<Rightarrow> adsError + jsText" where
  "parseJobDismissal plat body =
     andThen (asRecord plat body ''delete'') (\<lambda>r. asString (jsonField r ''status'') ''delete.status'')"

record adsJobListEntry =
  leJobId :: jsText
  leStatus :: jsText
  leProcessId :: "jsText option"
  leCreated :: "jsText option"

definition parseJobEntry :: "json \<Rightarrow> adsError + adsJobListEntry" where
  "parseJobEntry entry =
     andThen (asRecordValue (Some entry) ''jobs[]'') (\<lambda>job.
     andThen (asString (jsonField job ''jobID'') ''jobs[].jobID'') (\<lambda>jobId.
     andThen (asString (jsonField job ''status'') ''jobs[].status'') (\<lambda>st.
       Inr \<lparr>leJobId = jobId, leStatus = st, leProcessId = optionalString (jsonField job ''processID''),
            leCreated = optionalString (jsonField job ''created'')\<rparr>)))"

definition parseJobList :: "adsPlatform \<Rightarrow> jsText \<Rightarrow> adsError + adsJobListEntry list" where
  "parseJobList plat body =
     andThen (asRecord plat body ''jobs'') (\<lambda>r.
       case jsonField r ''jobs'' of
         Some (JArray entries) \<Rightarrow> mapOrThrow parseJobEntry entries
       | _ \<Rightarrow> Inl Expected_jobs_array)"

record adsResultAsset =
  raHref :: jsText
  raSizeBytes :: rat
  raChecksum :: jsText

definition isHexDigit :: "int \<Rightarrow> bool" where
  "isHexDigit c \<longleftrightarrow> isDigit c \<or> (65 \<le> c \<and> c \<le> 70) \<or> (97 \<le> c \<and> c \<le> 102)"

definition parseResultAsset :: "adsPlatform \<Rightarrow> jsText \<Rightarrow> adsError + adsResultAsset" where
  "parseResultAsset plat body =
     andThen (asRecord plat body ''results'') (\<lambda>root.
     andThen (asRecordValue (jsonField root ''asset'') ''results.asset'') (\<lambda>asset.
     andThen (asRecordValue (jsonField asset ''value'') ''results.asset.value'') (\<lambda>v.
     andThen (asString (jsonField v ''file:checksum'') ''results file:checksum'') (\<lambda>checksum.
     andThen (require (length checksum = 32 \<and> list_all isHexDigit checksum) Checksum_shape) (\<lambda>_.
     andThen (asString (jsonField v ''href'') ''results href'') (\<lambda>href.
     andThen (asNumber (jsonField v ''file:size'') ''results file:size'') (\<lambda>bytes.
       Inr \<lparr>raHref = href, raSizeBytes = bytes, raChecksum = checksum\<rparr>)))))))"

definition assertAllowedDownloadHost :: "adsPlatform \<Rightarrow> jsText \<Rightarrow> jsText list \<Rightarrow> adsError + parsedUrl" where
  "assertAllowedDownloadHost plat href allowlist =
     andThen (orThrow (apUrl plat href) Href_not_url) (\<lambda>url.
     andThen (require (urlProtocol url = ascii ''https:'') (Href_protocol (urlProtocol url))) (\<lambda>_.
     andThen (require (urlHostname url \<in> set allowlist) (Href_host (urlHostname url))) (\<lambda>_.
       Inr url)))"

definition isTerminalProviderStatus :: "jsText \<Rightarrow> bool" where
  "isTerminalProviderStatus st \<longleftrightarrow> st = ascii ''rejected'' \<or> st = ascii ''dismissed''"

definition lowerAscii :: "int \<Rightarrow> int" where
  "lowerAscii c = (if 65 \<le> c \<and> c \<le> 90 then c + 32 else c)"

text \<open>\<open>/licen/i\<close>: without the Unicode flag only ASCII letters fold to one another.\<close>

definition isLicenceRefusal :: "nat option \<Rightarrow> jsText \<Rightarrow> bool" where
  "isLicenceRefusal st body \<longleftrightarrow> st = Some 403 \<and> textIncludes (map lowerAscii body) (ascii ''licen'')"

section \<open>Redaction\<close>

text \<open>\<open>text.split(secret).join(mark)\<close> for a secret that is not empty.\<close>

function splitJoin :: "jsText \<Rightarrow> jsText \<Rightarrow> jsText \<Rightarrow> jsText" where
  "splitJoin secret mark t =
     (if secret = [] \<or> t = [] then t
      else if startsWith t secret then mark @ splitJoin secret mark (drop (length secret) t)
      else hd t # splitJoin secret mark (tl t))"
  by pat_completeness auto
termination
  by (relation "measure (\<lambda>(secret, mark, t). length t)") (auto simp: neq_Nil_conv)

declare splitJoin.simps [simp del]

definition REDACTED :: jsText where "REDACTED = ascii ''[REDACTED]''"

definition redactAdsSecret :: "(jsText \<Rightarrow> jsText) \<Rightarrow> jsText option \<Rightarrow> jsText \<Rightarrow> jsText" where
  "redactAdsSecret encodeURIComponent secret t =
     (case secret of
        None \<Rightarrow> t
      | Some s \<Rightarrow>
          if s = [] then t else splitJoin (encodeURIComponent s) REDACTED (splitJoin s REDACTED t))"

section \<open>A redacted text does not hold the secret\<close>

lemma startsWith_iff: "startsWith t p \<longleftrightarrow> (\<exists>r. t = p @ r)"
proof
  assume "startsWith t p"
  then show "\<exists>r. t = p @ r" unfolding startsWith_def by (metis append_take_drop_id)
qed (auto simp: startsWith_def)

lemma textIncludes_iff: "textIncludes t p \<longleftrightarrow> (\<exists>a b. t = a @ p @ b)"
proof
  assume "textIncludes t p"
  then obtain i where "startsWith (drop i t) p" unfolding textIncludes_def list_ex_iff by blast
  then obtain b where "drop i t = p @ b" by (auto simp: startsWith_iff)
  then have "t = take i t @ p @ b" by (metis append_take_drop_id)
  then show "\<exists>a b. t = a @ p @ b" by blast
next
  assume "\<exists>a b. t = a @ p @ b"
  then obtain a b where t: "t = a @ p @ b" by blast
  have "startsWith (drop (length a) t) p" by (simp add: t startsWith_iff)
  moreover have "length a \<in> set [0 ..< Suc (length t)]" by (simp add: t)
  ultimately show "textIncludes t p" unfolding textIncludes_def list_ex_iff by blast
qed

text \<open>
  Some suffix of \<open>p\<close> and \<open>m\<close> agree as far as both go: laid so that it begins no later, \<open>p\<close> can share a
  place with \<open>m\<close>. A text is clear of a mark when neither can run into the other.
\<close>

definition runsInto :: "jsText \<Rightarrow> jsText \<Rightarrow> bool" where
  "runsInto p m \<longleftrightarrow> list_ex (\<lambda>i. startsWith (drop i p) m \<or> startsWith m (drop i p)) [0 ..< length p]"

definition clearOf :: "jsText \<Rightarrow> jsText \<Rightarrow> bool" where
  "clearOf p m \<longleftrightarrow> \<not> runsInto p m \<and> \<not> runsInto m p"

lemma runsIntoI:
  assumes "p = a @ q" and "q \<noteq> []" and "q @ x = m @ y"
  shows "runsInto p m"
proof -
  have "length a \<in> set [0 ..< length p]" using assms(1,2) by simp
  moreover have "drop (length a) p = q" using assms(1) by simp
  moreover have "startsWith q m \<or> startsWith m q"
    using assms(3) unfolding append_eq_append_conv2 by (auto simp: startsWith_iff)
  ultimately show ?thesis unfolding runsInto_def list_ex_iff by metis
qed

lemma runsInto_Cons: "runsInto q m \<Longrightarrow> runsInto (c # q) m"
  unfolding runsInto_def list_ex_iff by (metis (no_types, lifting) Suc_less_eq atLeastLessThan_iff drop_Suc_Cons length_Cons le0 set_upt)

text \<open>A text clear of the mark lies on one side of each mark.\<close>

lemma include_beside_mark:
  assumes "mark @ u = a @ p @ b" and "\<not> runsInto mark p"
  shows "\<exists>a'. u = a' @ p @ b"
proof -
  consider v where "mark = a @ v" "v @ u = p @ b" | v where "a = mark @ v" "u = v @ p @ b"
    using assms(1) unfolding append_eq_append_conv2 by auto
  then show ?thesis
  proof cases
    case 1
    then have "v = []" using assms(2) runsIntoI [OF 1(1)] by metis
    with 1(2) show ?thesis by (intro exI [of _ "[]"]) simp
  qed blast
qed

lemma splitJoin_rules:
  "splitJoin secret mark [] = []"
  "secret \<noteq> [] \<Longrightarrow> startsWith t secret \<Longrightarrow> splitJoin secret mark t = mark @ splitJoin secret mark (drop (length secret) t)"
  "secret \<noteq> [] \<Longrightarrow> \<not> startsWith (c # t) secret \<Longrightarrow> splitJoin secret mark (c # t) = c # splitJoin secret mark t"
proof -
  show "splitJoin secret mark [] = []" by (subst splitJoin.simps) simp
  show "splitJoin secret mark t = mark @ splitJoin secret mark (drop (length secret) t)"
    if "secret \<noteq> []" "startsWith t secret"
  proof -
    have "t \<noteq> []" using that by (auto simp: startsWith_iff)
    with that show ?thesis by (subst splitJoin.simps) simp
  qed
  show "splitJoin secret mark (c # t) = c # splitJoin secret mark t" if "secret \<noteq> []" "\<not> startsWith (c # t) secret"
    using that by (subst splitJoin.simps) simp
qed

lemma splitJoin_induct [consumes 1, case_names Nil Hit Miss]:
  assumes "secret \<noteq> []" and "P []"
    and "\<And>t. startsWith t secret \<Longrightarrow> P (drop (length secret) t) \<Longrightarrow> P t"
    and "\<And>c t. \<not> startsWith (c # t) secret \<Longrightarrow> P t \<Longrightarrow> P (c # t)"
  shows "P t"
proof (induction t rule: length_induct)
  case (1 t)
  show ?case
  proof (cases t)
    case Nil
    with assms(2) show ?thesis by simp
  next
    case (Cons c u)
    show ?thesis
    proof (cases "startsWith t secret")
      case True
      have "length (drop (length secret) t) < length t" using assms(1) Cons by simp
      with 1 assms(3) [OF True] show ?thesis by blast
    next
      case False
      with 1 assms(4) Cons show ?thesis by simp
    qed
  qed
qed

lemma splitJoin_prefix:
  assumes "secret \<noteq> []" and "\<not> runsInto p mark" and "splitJoin secret mark t = p @ b"
  shows "\<exists>c. t = p @ c"
  using assms
proof (induction t arbitrary: p b rule: splitJoin_induct)
  case Nil
  then show ?case by (simp add: splitJoin_rules(1))
next
  case (Hit t)
  have "mark @ splitJoin secret mark (drop (length secret) t) = p @ b"
    using Hit.prems(2) splitJoin_rules(2) [OF assms(1) Hit.hyps] by simp
  then have "p = []" using Hit.prems(1) runsIntoI [of p "[]" p b mark, OF _ _ sym] by fastforce
  then show ?case by simp
next
  case (Miss c t)
  have "c # splitJoin secret mark t = p @ b" using Miss.prems(2) splitJoin_rules(3) [OF assms(1) Miss.hyps] by simp
  then show ?case using Miss.IH Miss.prems(1) by (cases p) (auto dest: runsInto_Cons)
qed

lemma splitJoin_includes:
  assumes "secret \<noteq> []" and "clearOf p mark" and "p \<noteq> []"
    and "splitJoin secret mark t = a @ p @ b"
  shows "\<exists>a' b'. t = a' @ p @ b'"
  using assms(1,4)
proof (induction t arbitrary: a rule: splitJoin_induct)
  case Nil
  then show ?case using assms(3) by (simp add: splitJoin_rules(1))
next
  case (Hit t)
  have "mark @ splitJoin secret mark (drop (length secret) t) = a @ p @ b"
    using Hit.prems splitJoin_rules(2) [OF assms(1) Hit.hyps] by simp
  from include_beside_mark [OF this] assms(2) Hit.IH
  obtain a' b' where "drop (length secret) t = a' @ p @ b'" unfolding clearOf_def by blast
  then have "t = (take (length secret) t @ a') @ p @ b'" by (metis append.assoc append_take_drop_id)
  then show ?case by blast
next
  case (Miss c t)
  have eq: "c # splitJoin secret mark t = a @ p @ b" using Miss.prems splitJoin_rules(3) [OF assms(1) Miss.hyps] by simp
  show ?case
  proof (cases a)
    case Nil
    then obtain q where p: "p = c # q" "splitJoin secret mark t = q @ b" using eq assms(3) by (cases p) auto
    have "\<not> runsInto q mark" using assms(2) p(1) runsInto_Cons by (auto simp: clearOf_def)
    from splitJoin_prefix [OF assms(1) this p(2)] obtain d where "t = q @ d" by blast
    then have "c # t = [] @ p @ d" by (simp add: p(1))
    then show ?thesis by blast
  next
    case (Cons x a0)
    with eq have "splitJoin secret mark t = a0 @ p @ b" by simp
    from Miss.IH [OF this] obtain a' b' where "t = a' @ p @ b'" by blast
    then have "c # t = (c # a') @ p @ b'" by simp
    then show ?thesis by blast
  qed
qed

lemma splitJoin_removes:
  assumes "secret \<noteq> []" and "clearOf secret mark"
  shows "splitJoin secret mark t \<noteq> a @ secret @ b"
  using assms(1)
proof (induction t arbitrary: a rule: splitJoin_induct)
  case Nil
  then show ?case using assms(1) by (simp add: splitJoin_rules(1))
next
  case (Hit t)
  show ?case
  proof
    assume "splitJoin secret mark t = a @ secret @ b"
    then have "mark @ splitJoin secret mark (drop (length secret) t) = a @ secret @ b"
      using splitJoin_rules(2) [OF assms(1) Hit.hyps] by simp
    from include_beside_mark [OF this] assms(2) Hit.IH show False unfolding clearOf_def by blast
  qed
next
  case (Miss c t)
  show ?case
  proof
    assume "splitJoin secret mark (c # t) = a @ secret @ b"
    then have eq: "c # splitJoin secret mark t = a @ secret @ b" using splitJoin_rules(3) [OF assms(1) Miss.hyps] by simp
    show False
    proof (cases a)
      case Nil
      then obtain q where p: "secret = c # q" "splitJoin secret mark t = q @ b" using eq assms(1) by (cases secret) auto
      have "\<not> runsInto q mark" using assms(2) p(1) runsInto_Cons by (auto simp: clearOf_def)
      from splitJoin_prefix [OF assms(1) this p(2)] obtain d where "t = q @ d" by blast
      then have "startsWith (c # t) secret" by (simp add: p(1) startsWith_iff)
      with Miss.hyps show False by simp
    next
      case (Cons x a0)
      with eq Miss.IH [of a0] show False by simp
    qed
  qed
qed

text \<open>
  C40: A redacted text never holds the API key, whatever the text and whatever the encoded form of the
  key is, for every key that is clear of the mark \<open>[REDACTED]\<close> that replaces it: no end of the key
  begins the mark, no end of the mark begins the key, and neither holds the other. Replacing the
  encoded form afterwards cannot put such a key back together. The provider's keys, of digits,
  lower-case letters and dashes, are all of this kind; a key that is not can stay in the text.
\<close>

theorem redacted_text_without_secret:
  assumes "s \<noteq> []" and "clearOf s REDACTED"
  shows "\<not> textIncludes (redactAdsSecret encodeURIComponent (Some s) t) s"
proof
  assume "textIncludes (redactAdsSecret encodeURIComponent (Some s) t) s"
  then obtain a b where red: "splitJoin (encodeURIComponent s) REDACTED (splitJoin s REDACTED t) = a @ s @ b"
    using assms(1) by (auto simp: redactAdsSecret_def textIncludes_iff)
  have "\<exists>a' b'. splitJoin s REDACTED t = a' @ s @ b'"
  proof (cases "encodeURIComponent s = []")
    case True
    then have "splitJoin (encodeURIComponent s) REDACTED u = u" for u by (subst splitJoin.simps) simp
    with red show ?thesis by metis
  next
    case False
    from splitJoin_includes [OF False assms(2,1) red] show ?thesis .
  qed
  with splitJoin_removes [OF assms] show False by blast
qed

text \<open>Keys of lower-case letters, digits and dashes are clear of the mark.\<close>

lemma provider_keys_clear:
  assumes "s \<noteq> []" and "\<forall>c \<in> set s. c = 45 \<or> 48 \<le> c \<and> c \<le> 57 \<or> 97 \<le> c \<and> c \<le> 122"
  shows "clearOf s REDACTED"
proof -
  have mark: "\<forall>c \<in> set REDACTED. 65 \<le> c \<and> c \<le> 93" "REDACTED \<noteq> []" by (simp_all add: REDACTED_def ascii_def)
  have apart: "set s \<inter> set REDACTED = {}" using assms(2) mark(1) by fastforce
  have "\<not> runsInto p m" if "set p \<inter> set m = {}" "m \<noteq> []" for p m
  proof
    assume "runsInto p m"
    then obtain i where i: "i < length p" "startsWith (drop i p) m \<or> startsWith m (drop i p)"
      by (auto simp: runsInto_def list_ex_iff)
    then have "hd (drop i p) = hd m" using that(2) by (auto simp: startsWith_iff hd_append)
    moreover have "hd (drop i p) \<in> set p" using i(1) by (simp add: hd_drop_conv_nth)
    ultimately show False using that by (metis disjoint_iff hd_in_set)
  qed
  with apart mark(2) show ?thesis using assms(1) by (simp add: clearOf_def Int_commute)
qed

lemma redacted_text_without_secret_witness:
  "\<not> textIncludes (redactAdsSecret id (Some (ascii ''1f-R'')) (ascii ''key 1f-R1f-R'')) (ascii ''1f-R'')"
proof -
  have "clearOf (ascii ''1f-R'') REDACTED" by code_simp
  moreover have "ascii ''1f-R'' \<noteq> []" by (simp add: ascii_def)
  ultimately show ?thesis using redacted_text_without_secret by blast
qed

text \<open>A key that lies inside the mark is put back by its own redaction; the configuration admits it.\<close>

lemma redaction_keeps_key_of_mark:
  "textIncludes (redactAdsSecret id (Some (ascii ''RED'')) (ascii ''RED'')) (ascii ''RED'')"
  by code_simp

end
