(* ===== verification/Air_Quality_Ingest_Store.thy ===== *)
theory Air_Quality_Ingest_Store
  imports Ads_Jobs Cams_Decode
begin

text \<open>
  The tables of the CAMS ingest (\<open>src/air-quality/entities/\<close>) and their statements
  (\<open>src/air-quality/cams/air-quality-ingest.store.ts\<close>). A run is keyed by its time and a series row
  by its run and province; a statement that violates a key is \<open>None\<close>. The columns that only
  document a download (file format and decoder version) are left out.
\<close>

section \<open>Rows\<close>

datatype adsJobState =
    Js_pending | Js_costed | Js_submitting | Js_submitted | Js_running | Js_downloadable | Js_ready
  | Js_stored | Js_refused | Js_rejected | Js_failed

datatype airQualityErrorClass = Class_contract | Class_decoder_bug | Class_upstream | Class_refused

text \<open>What \<open>lastError\<close> says, one constructor per message.\<close>

datatype ingestReason =
    Ir_reason reason
  | Ir_outcome upstreamOutcomeKind reason
  | Ir_cost_over_limit rat rat
  | Ir_licence
  | Ir_ambiguous nat
  | Ir_provider_ended jsText
  | Ir_provider_failed
  | Ir_href adsError
  | Ir_declared_size rat nat
  | Ir_checksum jsText
  | Ir_contract camsContractError
  | Ir_step_count nat int
  | Ir_no_forecast_rows
  | Ir_cells_differ nat

record adsJobRecord =
  ajKind :: adsJobKind
  ajRequestDate :: jsText
  ajRequestBody :: json
  ajState :: adsJobState
  ajJobId :: "jsText option"
  ajAttempts :: nat
  ajSubmittedAt :: "jsText option"
  ajAdsCreated :: "jsText option"
  ajAdsStarted :: "jsText option"
  ajAdsFinished :: "jsText option"
  ajCleanupAt :: "jsText option"
  ajResult :: "adsResultAsset option"
  ajLastError :: "ingestReason option"

record airQualityRun =
  rnRunUtc :: ms
  rnState :: airQualityRunState
  rnForecastHours :: int
  rnAnalysisHours :: int
  rnJobs :: "adsJobRecord list"
  rnDatasetId :: jsText
  rnLastError :: "ingestReason option"
  rnLastErrorClass :: "airQualityErrorClass option"
  rnBytesDownloaded :: nat
  rnStartedAt :: ms
  rnCompletedAt :: "ms option"

type_synonym storedConcentrations = "airQualityPollutant \<Rightarrow> rat option list"
type_synonym storedSupport = "airQualityPollutant \<Rightarrow> supportVerdict"

record provinceSeriesRow =
  seRunUtc :: ms
  seProvinceId :: string
  seGridLatitude :: jsNumber
  seGridLongitude :: jsNumber
  seDistanceKm :: "real option"
  seConcentrations :: storedConcentrations
  seSupport :: storedSupport
  seAnalysisConcentrations :: "storedConcentrations option"
  seAnalysisSupport :: "storedSupport option"
  seIngestedAt :: ms

record ingestTables =
  itRuns :: "airQualityRun list"
  itSeries :: "provinceSeriesRow list"

record recordProvinceInput =
  rpProvinceId :: string
  rpGridLatitude :: jsNumber
  rpGridLongitude :: jsNumber
  rpDistanceKm :: "real option"
  rpConcentrations :: storedConcentrations
  rpSupport :: storedSupport

text \<open>The transformer of the two coordinate columns: six decimals, on the way in.\<close>

definition toStoredDegrees :: "jsNumber \<Rightarrow> jsNumber" where
  "toStoredDegrees v = (case v of Finite x \<Rightarrow> Finite (of_int (js_round (x * 1000000)) / 1000000) | _ \<Rightarrow> v)"

section \<open>Statements\<close>

definition newestRun :: "ingestTables \<Rightarrow> airQualityRun option" where
  "newestRun db = (case rev (sort_key rnRunUtc (itRuns db)) of [] \<Rightarrow> None | r # _ \<Rightarrow> Some r)"

definition getRun :: "ms \<Rightarrow> ingestTables \<Rightarrow> airQualityRun option" where
  "getRun runUtc db = find (\<lambda>r. rnRunUtc r = runUtc) (itRuns db)"

definition createRun :: "airQualityRun \<Rightarrow> ingestTables \<Rightarrow> ingestTables option" where
  "createRun r db =
     (if getRun (rnRunUtc r) db \<noteq> None then None else Some (db\<lparr>itRuns := itRuns db @ [r]\<rparr>))"

definition onRun :: "ms \<Rightarrow> (airQualityRun \<Rightarrow> airQualityRun) \<Rightarrow> ingestTables \<Rightarrow> ingestTables" where
  "onRun runUtc f db = db\<lparr>itRuns := map (\<lambda>r. if rnRunUtc r = runUtc then f r else r) (itRuns db)\<rparr>"

text \<open>A field the caller leaves out is not written: the two error columns are \<open>None\<close> then.\<close>

record updateRunInput =
  uiRunUtc :: ms
  uiJobs :: "adsJobRecord list"
  uiState :: airQualityRunState
  uiLastError :: "ingestReason option option"
  uiLastErrorClass :: "airQualityErrorClass option option"

definition updateRun :: "updateRunInput \<Rightarrow> ingestTables \<Rightarrow> ingestTables" where
  "updateRun inp db =
     onRun (uiRunUtc inp) (\<lambda>r. r\<lparr>rnJobs := uiJobs inp, rnState := uiState inp,
       rnLastError := (case uiLastError inp of None \<Rightarrow> rnLastError r | Some e \<Rightarrow> e),
       rnLastErrorClass := (case uiLastErrorClass inp of None \<Rightarrow> rnLastErrorClass r | Some c \<Rightarrow> c)\<rparr>) db"

record recordProductInput =
  piRunUtc :: ms
  piKind :: adsJobKind
  piHours :: int
  piProvinces :: "recordProvinceInput list"
  piBytesDownloaded :: nat
  piJobs :: "adsJobRecord list"
  piState :: airQualityRunState
  piNow :: ms

definition sameSeriesKey :: "ms \<Rightarrow> string \<Rightarrow> provinceSeriesRow \<Rightarrow> bool" where
  "sameSeriesKey runUtc provinceId row \<longleftrightarrow> seRunUtc row = runUtc \<and> seProvinceId row = provinceId"

text \<open>\<open>INSERT ... ON CONFLICT DO UPDATE\<close> of the forecast columns of one province.\<close>

definition upsertForecastRow ::
  "ms \<Rightarrow> ms \<Rightarrow> recordProvinceInput \<Rightarrow> provinceSeriesRow list \<Rightarrow> provinceSeriesRow list" where
  "upsertForecastRow runUtc now p rows =
     (if list_ex (sameSeriesKey runUtc (rpProvinceId p)) rows
      then map (\<lambda>row. if sameSeriesKey runUtc (rpProvinceId p) row
             then row\<lparr>seGridLatitude := toStoredDegrees (rpGridLatitude p),
                      seGridLongitude := toStoredDegrees (rpGridLongitude p),
                      seDistanceKm := rpDistanceKm p, seConcentrations := rpConcentrations p,
                      seSupport := rpSupport p, seIngestedAt := now\<rparr>
             else row) rows
      else rows @ [\<lparr>seRunUtc = runUtc, seProvinceId = rpProvinceId p,
             seGridLatitude = toStoredDegrees (rpGridLatitude p),
             seGridLongitude = toStoredDegrees (rpGridLongitude p), seDistanceKm = rpDistanceKm p,
             seConcentrations = rpConcentrations p, seSupport = rpSupport p,
             seAnalysisConcentrations = None, seAnalysisSupport = None, seIngestedAt = now\<rparr>])"

definition updateAnalysisRow ::
  "ms \<Rightarrow> ms \<Rightarrow> recordProvinceInput \<Rightarrow> provinceSeriesRow list \<Rightarrow> provinceSeriesRow list" where
  "updateAnalysisRow runUtc now p rows =
     map (\<lambda>row. if sameSeriesKey runUtc (rpProvinceId p) row
       then row\<lparr>seAnalysisConcentrations := Some (rpConcentrations p),
                seAnalysisSupport := Some (rpSupport p), seIngestedAt := now\<rparr>
       else row) rows"

definition productRows :: "recordProductInput \<Rightarrow> provinceSeriesRow list \<Rightarrow> provinceSeriesRow list" where
  "productRows inp rows =
     fold (case piKind inp of
             Forecast_job \<Rightarrow> upsertForecastRow (piRunUtc inp) (piNow inp)
           | Analysis_job \<Rightarrow> updateAnalysisRow (piRunUtc inp) (piNow inp)) (piProvinces inp) rows"

text \<open>
  One transaction: the rows of the product and the run's line together. The database refuses one
  insert statement that names a province twice, and rows of a run that is not there.
\<close>

definition recordProduct :: "recordProductInput \<Rightarrow> ingestTables \<Rightarrow> ingestTables option" where
  "recordProduct inp db =
     (if piKind inp = Forecast_job
        \<and> (\<not> distinct (map rpProvinceId (piProvinces inp)) \<or> getRun (piRunUtc inp) db = None) then None
      else Some (onRun (piRunUtc inp)
        (\<lambda>r. case piKind inp of
            Forecast_job \<Rightarrow>
              r\<lparr>rnState := piState inp, rnJobs := piJobs inp, rnBytesDownloaded := piBytesDownloaded inp,
                rnCompletedAt := Some (piNow inp), rnForecastHours := piHours inp\<rparr>
          | Analysis_job \<Rightarrow>
              r\<lparr>rnState := piState inp, rnJobs := piJobs inp, rnBytesDownloaded := piBytesDownloaded inp,
                rnAnalysisHours := piHours inp\<rparr>)
        (db\<lparr>itSeries := productRows inp (itSeries db)\<rparr>)))"

definition gridCellsFor :: "ms \<Rightarrow> ingestTables \<Rightarrow> (string \<times> jsNumber \<times> jsNumber) list" where
  "gridCellsFor runUtc db =
     map (\<lambda>row. (seProvinceId row, seGridLatitude row, seGridLongitude row))
       (filter (\<lambda>row. seRunUtc row = runUtc) (itSeries db))"

text \<open>Deleting a run deletes its series rows.\<close>

definition pruneRuns :: "nat \<Rightarrow> ingestTables \<Rightarrow> nat \<times> ingestTables" where
  "pruneRuns keep db =
     (let keepRows = take keep (rev (sort_key rnRunUtc (itRuns db)))
      in if length keepRows < keep \<or> keepRows = [] then (0, db)
         else let cutoff = rnRunUtc (last keepRows);
                  deleted = filter (\<lambda>r. rnRunUtc r < cutoff) (itRuns db)
              in (length deleted,
                  db\<lparr>itRuns := filter (\<lambda>r. \<not> rnRunUtc r < cutoff) (itRuns db),
                     itSeries := filter (\<lambda>row. seRunUtc row \<notin> set (map rnRunUtc deleted)) (itSeries db)\<rparr>))"

end
