(* ===== verification/Air_Quality_Ingest.thy ===== *)
theory Air_Quality_Ingest
  imports Air_Quality_Ingest_Store
begin

text \<open>
  \<open>src/air-quality/cams/air-quality-ingest.target.ts\<close>: one tour of the CAMS ingest. A tour advances
  one job of the newest run by one step. The world holds the HTTP client's state (with the clock
  and the counters), the tables, and for each statement to come whether it fails and how long it
  takes; a failing statement changes nothing and throws. \<open>iwTrace\<close> lists the requests handed to
  the client, in order: the code does not read it. The answer to a request depends on the request.
\<close>

section \<open>World, dependencies and sequencing\<close>

record adsRequest =
  rqMethod :: string
  rqUrl :: jsText
  rqBody :: "json option"
  rqToken :: "jsText option"

text \<open>
  What a request was for: a submission with its stamp, a reconciliation with the stamp it looks
  from and the candidates it found (none when the list was not answered), or anything else.
\<close>

datatype adsNote =
    Plain_call
  | Submission jsText
  | Reconciliation "jsText option" "adsJobListEntry list option"

record adsTraceEntry =
  teRunUtc :: ms
  teKind :: adsJobKind
  teRequest :: adsRequest
  teNote :: adsNote

record 'r ingestAqWorld =
  iwHttp :: "'r httpWorld"
  iwDb :: ingestTables
  iwAnswers :: "(bool \<times> nat) list"
  iwTrace :: "adsTraceEntry list"

record locatedProvince =
  lpId :: string
  lpPlateCode :: jsText
  lpLatitude :: "rat option"
  lpLongitude :: "rat option"

record airQualityIngestConfig =
  icIngestEnabled :: bool
  icAnalysisEnabled :: bool
  icAds :: adsIngestConfig

record 'r ingestAqDeps =
  idEnvFor :: "adsRequest \<Rightarrow> 'r httpEnv"
  idDecodeText :: "byte list \<Rightarrow> jsText"
  idPlatform :: adsPlatform
  idCams :: camsPlatform
  idMd5 :: "byte list \<Rightarrow> jsText"
  idReasonText :: "adsRequest \<Rightarrow> reason \<Rightarrow> jsText"
  idLoadProvinces :: "string + locatedProvince list"
  idConfig :: airQualityIngestConfig

abbreviation adsConfig :: "'r ingestAqDeps \<Rightarrow> adsIngestConfig" where
  "adsConfig deps \<equiv> icAds (idConfig deps)"

abbreviation maxAttempts :: "'r ingestAqDeps \<Rightarrow> nat" where
  "maxAttempts deps \<equiv> adMaxAttemptsPerJob (adsConfig deps)"

definition CAMS_ADS_PROVIDER_ID :: string where "CAMS_ADS_PROVIDER_ID = ''cams-ads''"

definition CAMS_ADS_BUDGET :: providerBudgetLimits where
  "CAMS_ADS_BUDGET = \<lparr>perMinute = 30, perHour = 120, perDay = 400\<rparr>"

definition RETAINED_RUNS :: nat where "RETAINED_RUNS = 3"
definition EXPECTED_PROVINCE_COUNT :: nat where "EXPECTED_PROVINCE_COUNT = 81"
definition MIN_STEP_BUDGET_MS :: ms where "MIN_STEP_BUDGET_MS = 5000"

text \<open>A step may throw; what follows it is then skipped.\<close>

type_synonym ('a, 'w) step = "'w \<Rightarrow> (string + 'a) \<times> 'w"

definition andDo :: "('a, 'w) step \<Rightarrow> ('a \<Rightarrow> ('b, 'w) step) \<Rightarrow> ('b, 'w) step" where
  "andDo m k w = (case m w of (Inl e, w') \<Rightarrow> (Inl e, w') | (Inr x, w') \<Rightarrow> k x w')"

definition aqNow :: "'r ingestAqWorld \<Rightarrow> ms" where
  "aqNow w = clock (iwHttp w)"

definition aqStatement ::
  "(ingestTables \<Rightarrow> ('a \<times> ingestTables) option) \<Rightarrow> ('a, 'r ingestAqWorld) step" where
  "aqStatement f w =
     (let (fails, elapsed, later) = (case iwAnswers w of [] \<Rightarrow> (False, 0, []) | (b, n) # rest \<Rightarrow> (b, n, rest));
          w' = w\<lparr>iwAnswers := later, iwHttp := (iwHttp w)\<lparr>clock := clock (iwHttp w) + int elapsed\<rparr>\<rparr>
      in if fails then (Inl ''database'', w')
         else case f (iwDb w) of
                None \<Rightarrow> (Inl ''constraint'', w')
              | Some (x, db) \<Rightarrow> (Inr x, w'\<lparr>iwDb := db\<rparr>))"

definition aqCount :: "string \<Rightarrow> 'r ingestAqWorld \<Rightarrow> 'r ingestAqWorld" where
  "aqCount name w = w\<lparr>iwHttp := onMetrics (increment (M_event name) CAMS_ADS_PROVIDER_ID) (iwHttp w)\<rparr>"

section \<open>Jobs and their selection\<close>

definition PROGRESSABLE_STATES :: "adsJobState list" where
  "PROGRESSABLE_STATES = [Js_pending, Js_costed, Js_submitting, Js_submitted, Js_running, Js_downloadable, Js_ready]"

definition newJob :: "adsJobKind \<Rightarrow> jsText \<Rightarrow> json \<Rightarrow> adsJobRecord" where
  "newJob k requestDate body =
     \<lparr>ajKind = k, ajRequestDate = requestDate, ajRequestBody = body, ajState = Js_pending, ajJobId = None,
      ajAttempts = 0, ajSubmittedAt = None, ajAdsCreated = None, ajAdsStarted = None, ajAdsFinished = None,
      ajCleanupAt = None, ajResult = None, ajLastError = None\<rparr>"

definition replaceJob :: "adsJobRecord list \<Rightarrow> nat \<Rightarrow> adsJobRecord \<Rightarrow> adsJobRecord list" where
  "replaceJob jobs i job = jobs[i := job]"

definition isJobTerminalFailure :: "adsJobRecord \<Rightarrow> nat \<Rightarrow> bool" where
  "isJobTerminalFailure job most \<longleftrightarrow>
     ajState job = Js_refused \<or> ajState job = Js_rejected \<or> ajState job = Js_failed \<or> most \<le> ajAttempts job"

definition jobProgressable :: "nat \<Rightarrow> adsJobRecord \<Rightarrow> bool" where
  "jobProgressable most job \<longleftrightarrow> ajState job \<in> set PROGRESSABLE_STATES \<and> ajAttempts job < most"

definition needsCleanup :: "adsJobRecord \<Rightarrow> bool" where
  "needsCleanup job \<longleftrightarrow>
     ajJobId job \<noteq> None \<and> ajCleanupAt job = None \<and> ajState job \<notin> set PROGRESSABLE_STATES"

fun findIndex :: "('a \<Rightarrow> bool) \<Rightarrow> 'a list \<Rightarrow> nat option" where
  "findIndex P [] = None"
| "findIndex P (x # xs) = (if P x then Some 0 else map_option Suc (findIndex P xs))"

datatype jobAction = Act_progress | Act_cleanup

definition forecastDead :: "nat \<Rightarrow> adsJobRecord list \<Rightarrow> bool" where
  "forecastDead most jobs =
     (case find (\<lambda>j. ajKind j = Forecast_job) jobs of None \<Rightarrow> True | Some j \<Rightarrow> isJobTerminalFailure j most)"

definition selectNextJob :: "adsJobRecord list \<Rightarrow> nat \<Rightarrow> (nat \<times> jobAction) option" where
  "selectNextJob jobs most =
     (case findIndex (\<lambda>j. ajKind j = Forecast_job \<and> jobProgressable most j) jobs of
        Some i \<Rightarrow> Some (i, Act_progress)
      | None \<Rightarrow>
         (case (if forecastDead most jobs then None
                else findIndex (\<lambda>j. ajKind j = Analysis_job \<and> jobProgressable most j) jobs) of
            Some i \<Rightarrow> Some (i, Act_progress)
          | None \<Rightarrow> map_option (\<lambda>i. (i, Act_cleanup)) (findIndex needsCleanup jobs)))"

definition rollupRunState :: "adsJobRecord list \<Rightarrow> nat \<Rightarrow> airQualityRunState" where
  "rollupRunState jobs most =
     (case find (\<lambda>j. ajKind j = Forecast_job) jobs of
        None \<Rightarrow> Run_abandoned
      | Some forecast \<Rightarrow>
         (if isJobTerminalFailure forecast most then Run_abandoned
          else if ajState forecast \<noteq> Js_stored then Run_pending
          else case find (\<lambda>j. ajKind j = Analysis_job) jobs of
                 None \<Rightarrow> Run_complete
               | Some analysis \<Rightarrow>
                   if ajState analysis = Js_stored then Run_complete
                   else if isJobTerminalFailure analysis most then Run_degraded
                   else Run_serviceable))"

definition isRunTerminal :: "airQualityRun \<Rightarrow> bool" where
  "isRunTerminal r \<longleftrightarrow> rnState r = Run_complete \<or> rnState r = Run_degraded \<or> rnState r = Run_abandoned"

definition isAtOrAfter :: "adsPlatform \<Rightarrow> jsText option \<Rightarrow> jsText option \<Rightarrow> bool" where
  "isAtOrAfter plat candidateIso sinceIso =
     (case (sinceIso, candidateIso) of
        (Some s, Some c) \<Rightarrow>
          (case (apDate plat c, apDate plat s) of
             (Some candidate, Some since) \<Rightarrow> since - 60000 \<le> candidate
           | _ \<Rightarrow> False)
      | _ \<Rightarrow> False)"

section \<open>Writing the ledger\<close>

text \<open>The state of the run that follows from its jobs, counted when it turns to abandoned.\<close>

definition rollupLoudly ::
  "'r ingestAqDeps \<Rightarrow> airQualityRun \<Rightarrow> adsJobRecord list \<Rightarrow> 'r ingestAqWorld
   \<Rightarrow> airQualityRunState \<times> 'r ingestAqWorld" where
  "rollupLoudly deps run jobs w =
     (let st = rollupRunState jobs (maxAttempts deps)
      in (st, if st = Run_abandoned \<and> rnState run \<noteq> Run_abandoned then aqCount ''airq.run_abandoned'' w else w))"

definition noteAttemptsSpent ::
  "'r ingestAqDeps \<Rightarrow> nat \<Rightarrow> 'r ingestAqWorld \<Rightarrow> bool \<times> 'r ingestAqWorld" where
  "noteAttemptsSpent deps attempts w =
     (if maxAttempts deps \<le> attempts then (True, aqCount ''airq.attempts_exhausted'' w) else (False, w))"

text \<open>All writes of jobs: the run in memory and its row change together. The result is the run in memory.\<close>

definition storeJobs ::
  "'r ingestAqDeps \<Rightarrow> airQualityRun \<Rightarrow> adsJobRecord list \<Rightarrow> ingestReason option
   \<Rightarrow> airQualityErrorClass option option \<Rightarrow> (airQualityRun, 'r ingestAqWorld) step" where
  "storeJobs deps run jobs lastError errorClass w =
     (let (st, w1) = rollupLoudly deps run jobs w
      in andDo (aqStatement (\<lambda>db. Some ((), updateRun
            \<lparr>uiRunUtc = rnRunUtc run, uiJobs = jobs, uiState = st, uiLastError = Some lastError,
             uiLastErrorClass = errorClass\<rparr> db)))
          (\<lambda>_ w2. (Inr (run\<lparr>rnJobs := jobs, rnState := st\<rparr>), w2)) w1)"

definition writeJob ::
  "'r ingestAqDeps \<Rightarrow> airQualityRun \<Rightarrow> nat \<Rightarrow> adsJobRecord \<Rightarrow> (airQualityRun, 'r ingestAqWorld) step" where
  "writeJob deps run i job =
     storeJobs deps run (replaceJob (rnJobs run) i job) (ajLastError job) None"

definition recordTransient ::
  "'r ingestAqDeps \<Rightarrow> airQualityRun \<Rightarrow> nat \<Rightarrow> adsJobRecord \<Rightarrow> ingestReason
   \<Rightarrow> (airQualityRun, 'r ingestAqWorld) step" where
  "recordTransient deps run i job why w =
     (let attempts = ajAttempts job + 1;
          (exhausted, w1) = noteAttemptsSpent deps attempts w
      in storeJobs deps run
           (replaceJob (rnJobs run) i (job\<lparr>ajAttempts := attempts,
              ajState := (if exhausted then Js_failed else ajState job), ajLastError := Some why\<rparr>))
           (Some why) (Some (Some Class_upstream)) w1)"

definition terminate ::
  "'r ingestAqDeps \<Rightarrow> airQualityRun \<Rightarrow> nat \<Rightarrow> adsJobRecord \<Rightarrow> ingestReason \<Rightarrow> adsJobState
   \<Rightarrow> airQualityErrorClass \<Rightarrow> (airQualityRun, 'r ingestAqWorld) step" where
  "terminate deps run i job why st errorClass w =
     (let jobs = replaceJob (rnJobs run) i (job\<lparr>ajState := st, ajLastError := Some why\<rparr>);
          degraded = (ajKind job = Analysis_job \<and> rollupRunState jobs (maxAttempts deps) = Run_degraded)
      in storeJobs deps run jobs (Some why) (Some (Some errorClass))
           (if degraded then aqCount ''airq.run_degraded'' w else w))"

definition outcomeReasonOf :: "'a upstreamOutcome \<Rightarrow> reason" where
  "outcomeReasonOf out =
     (case out of
        Out_ok v t \<Rightarrow> R_text []
      | Out_no_data r \<Rightarrow> r
      | Out_transient r \<Rightarrow> r
      | Out_budget_exhausted r \<Rightarrow> r
      | Out_client_error r h \<Rightarrow> r
      | Out_schema_error r \<Rightarrow> r
      | Out_rate_limited r s \<Rightarrow> r)"

definition recordFailure ::
  "'r ingestAqDeps \<Rightarrow> airQualityRun \<Rightarrow> nat \<Rightarrow> adsJobRecord \<Rightarrow> 'a upstreamOutcome
   \<Rightarrow> (airQualityRun, 'r ingestAqWorld) step" where
  "recordFailure deps run i job out =
     (if kind_of out = K_schema_error
      then terminate deps run i job (Ir_reason (outcomeReasonOf out)) Js_rejected Class_contract
      else recordTransient deps run i job (Ir_outcome (kind_of out) (outcomeReasonOf out)))"

section \<open>Requests\<close>

text \<open>\<open>baseRequest\<close>: the key goes into the header of every request but the download.\<close>

definition adsRequestTo :: "'r ingestAqDeps \<Rightarrow> string \<Rightarrow> jsText \<Rightarrow> json option \<Rightarrow> adsRequest" where
  "adsRequestTo deps meth url body =
     \<lparr>rqMethod = meth, rqUrl = url, rqBody = body, rqToken = adApiKey (adsConfig deps)\<rparr>"

definition toParseResult :: "adsError + 'a \<Rightarrow> 'a upstreamParseResult" where
  "toParseResult v = (case v of Inl e \<Rightarrow> Parse_schema_error ''ads'' | Inr x \<Rightarrow> Parse_ok x None)"

definition baseOptions ::
  "'r ingestAqDeps \<Rightarrow> operationDeadline \<Rightarrow> bool \<Rightarrow> (jsText \<Rightarrow> adsError + 'a) \<Rightarrow> 'a upstreamRequestOptions" where
  "baseOptions deps dl mayRetry parser =
     \<lparr>providerId = CAMS_ADS_PROVIDER_ID, deadline = dl, limits = CAMS_ADS_BUDGET, quotaWeight = None,
      retryable = mayRetry, expectedContentType = None, serverErrorBodyClassifier = None,
      missingMeansNoData = False, maxResponseBytes = None,
      singleCallTimeoutMs = Some (adPollTimeoutMs (adsConfig deps)),
      parse = (\<lambda>response body. toParseResult (parser (idDecodeText deps body)))\<rparr>"

definition downloadOptions ::
  "'r ingestAqDeps \<Rightarrow> operationDeadline \<Rightarrow> rat \<Rightarrow> byte list upstreamRequestOptions" where
  "downloadOptions deps dl sizeBytes =
     \<lparr>providerId = CAMS_ADS_PROVIDER_ID, deadline = dl, limits = CAMS_ADS_BUDGET, quotaWeight = None,
      retryable = True, expectedContentType = Some [''application/zip''], serverErrorBodyClassifier = None,
      missingMeansNoData = False,
      maxResponseBytes = Some (nat \<lfloor>min sizeBytes (of_nat (adRunMaxBytes (adsConfig deps)))\<rfloor>),
      singleCallTimeoutMs = Some (adDownloadTimeoutMs (adsConfig deps)),
      parse = (\<lambda>response body. if of_nat (length body) \<noteq> sizeBytes then Parse_schema_error ''size''
                else Parse_ok body None)\<rparr>"

definition callAds ::
  "'r ingestAqDeps \<Rightarrow> airQualityRun \<Rightarrow> adsJobRecord \<Rightarrow> (string + 'a upstreamOutcome \<Rightarrow> adsNote)
   \<Rightarrow> 'a upstreamRequestOptions \<Rightarrow> adsRequest \<Rightarrow> ('a upstreamOutcome, 'r ingestAqWorld) step" where
  "callAds deps run job note opts rq w =
     (let (res, h) = request opts (idEnvFor deps rq) (iwHttp w)
      in (res, w\<lparr>iwHttp := h,
                 iwTrace := iwTrace w @ [\<lparr>teRunUtc = rnRunUtc run, teKind = ajKind job, teRequest = rq,
                                          teNote = note res\<rparr>]\<rparr>))"

definition plainCall :: "string + 'a upstreamOutcome \<Rightarrow> adsNote" where
  "plainCall res = Plain_call"

text \<open>A URL built from a job identifier throws when the identifier has not the expected shape.\<close>

definition orAbort :: "adsError + 'a \<Rightarrow> ('a, 'w) step" where
  "orAbort v w = (case v of Inl e \<Rightarrow> (Inl ''UpstreamSchemaError'', w) | Inr x \<Rightarrow> (Inr x, w))"

text \<open>A step of a tour ends in the run in memory; an early return changes nothing.\<close>

definition stay :: "airQualityRun \<Rightarrow> (airQualityRun, 'w) step" where
  "stay run w = (Inr run, w)"

section \<open>Steps of a job\<close>

definition jobInputs :: "adsJobRecord \<Rightarrow> json" where
  "jobInputs job = JObject [(ascii ''inputs'', ajRequestBody job)]"

definition stepCosting ::
  "'r ingestAqDeps \<Rightarrow> airQualityRun \<Rightarrow> nat \<Rightarrow> adsJobRecord \<Rightarrow> operationDeadline
   \<Rightarrow> (airQualityRun, 'r ingestAqWorld) step" where
  "stepCosting deps run i job dl =
     andDo (callAds deps run job plainCall (baseOptions deps dl True (parseCosting (idPlatform deps)))
              (adsRequestTo deps ''POST'' (costingUrl (adsConfig deps)) (Some (jobInputs job)))) (\<lambda>out.
       case out of
         Out_ok costing _ \<Rightarrow>
           (if acLimit costing < acCost costing
            then (\<lambda>w. writeJob deps run i (job\<lparr>ajState := Js_refused,
                     ajLastError := Some (Ir_cost_over_limit (acCost costing) (acLimit costing))\<rparr>)
                   (aqCount ''airq.cost_refused'' w))
            else writeJob deps run i (job\<lparr>ajState := Js_costed, ajLastError := None\<rparr>))
       | _ \<Rightarrow> recordFailure deps run i job out)"

definition submitFailed ::
  "'r ingestAqDeps \<Rightarrow> airQualityRun \<Rightarrow> nat \<Rightarrow> adsJobRecord \<Rightarrow> jsText \<Rightarrow> reason
   \<Rightarrow> (airQualityRun, 'r ingestAqWorld) step" where
  "submitFailed deps run i job stamp why w =
     (let attempts = ajAttempts job + 1;
          (exhausted, w1) = noteAttemptsSpent deps attempts w
      in writeJob deps run i
           (job\<lparr>ajState := (if exhausted then Js_failed else Js_submitting), ajSubmittedAt := Some stamp,
               ajAttempts := attempts, ajLastError := Some (Ir_reason why)\<rparr>) w1)"

definition stepSubmit ::
  "'r ingestAqDeps \<Rightarrow> airQualityRun \<Rightarrow> nat \<Rightarrow> adsJobRecord \<Rightarrow> operationDeadline
   \<Rightarrow> (airQualityRun, 'r ingestAqWorld) step" where
  "stepSubmit deps run i job dl w =
     (let stamp = toISOString (aqNow w);
          rq = adsRequestTo deps ''POST'' (executionUrl (adsConfig deps)) (Some (jobInputs job))
      in andDo (writeJob deps run i (job\<lparr>ajState := Js_submitting, ajSubmittedAt := Some stamp\<rparr>)) (\<lambda>run1.
         andDo (callAds deps run1 job (\<lambda>_. Submission stamp)
                  (baseOptions deps dl False (\<lambda>body. parseJobStatus (idPlatform deps) body ''execution'')) rq) (\<lambda>out.
           case out of
             Out_ok st _ \<Rightarrow>
               writeJob deps run1 i (job\<lparr>ajState := Js_submitted, ajSubmittedAt := Some stamp,
                 ajJobId := Some (jsJobId st), ajAdsCreated := jsCreated st, ajLastError := None\<rparr>)
           | Out_client_error why httpStatus \<Rightarrow>
               (if isLicenceRefusal httpStatus (idReasonText deps rq why)
                then terminate deps run1 i job Ir_licence Js_refused Class_refused
                else submitFailed deps run1 i job stamp why)
           | _ \<Rightarrow> submitFailed deps run1 i job stamp (outcomeReasonOf out))) w)"

definition reconcileCandidates ::
  "'r ingestAqDeps \<Rightarrow> airQualityRun \<Rightarrow> adsJobRecord \<Rightarrow> adsJobListEntry list \<Rightarrow> adsJobListEntry list" where
  "reconcileCandidates deps run job entries =
     (let known = List.map_filter ajJobId (rnJobs run)
      in filter (\<lambda>e. leJobId e \<notin> set known \<and> leProcessId e = Some (adDatasetId (adsConfig deps))
              \<and> isAtOrAfter (idPlatform deps) (leCreated e) (ajSubmittedAt job)) entries)"

definition reconcileNote ::
  "'r ingestAqDeps \<Rightarrow> airQualityRun \<Rightarrow> adsJobRecord \<Rightarrow> string + adsJobListEntry list upstreamOutcome \<Rightarrow> adsNote" where
  "reconcileNote deps run job res =
     Reconciliation (ajSubmittedAt job)
       (case res of Inr (Out_ok entries _) \<Rightarrow> Some (reconcileCandidates deps run job entries) | _ \<Rightarrow> None)"

definition stepReconcile ::
  "'r ingestAqDeps \<Rightarrow> airQualityRun \<Rightarrow> nat \<Rightarrow> adsJobRecord \<Rightarrow> operationDeadline
   \<Rightarrow> (airQualityRun, 'r ingestAqWorld) step" where
  "stepReconcile deps run i job dl =
     andDo (callAds deps run job (reconcileNote deps run job)
              (baseOptions deps dl True (parseJobList (idPlatform deps)))
              (adsRequestTo deps ''GET'' (jobsListUrl (adsConfig deps)) None)) (\<lambda>out.
       case out of
         Out_ok entries _ \<Rightarrow>
           (case reconcileCandidates deps run job entries of
              [] \<Rightarrow>
                (\<lambda>w. let (exhausted, w1) = noteAttemptsSpent deps (ajAttempts job + 1) w
                     in writeJob deps run i
                          (job\<lparr>ajState := (if exhausted then Js_failed else Js_costed),
                              ajAttempts := ajAttempts job + 1, ajSubmittedAt := None\<rparr>) w1)
            | [adopted] \<Rightarrow>
                writeJob deps run i
                  (job\<lparr>ajState := (if leStatus adopted = ascii ''successful'' then Js_downloadable else Js_submitted),
                      ajJobId := Some (leJobId adopted), ajAdsCreated := leCreated adopted, ajLastError := None\<rparr>)
            | candidates \<Rightarrow>
                (\<lambda>w. let (exhausted, w1) = noteAttemptsSpent deps (ajAttempts job + 1)
                           (aqCount ''airq.reconcile_ambiguous'' w)
                     in writeJob deps run i
                          (job\<lparr>ajState := (if exhausted then Js_failed else ajState job),
                              ajAttempts := ajAttempts job + 1,
                              ajLastError := Some (Ir_ambiguous (length candidates))\<rparr>) w1))
       | _ \<Rightarrow> recordFailure deps run i job out)"

definition stepPoll ::
  "'r ingestAqDeps \<Rightarrow> airQualityRun \<Rightarrow> nat \<Rightarrow> adsJobRecord \<Rightarrow> operationDeadline
   \<Rightarrow> (airQualityRun, 'r ingestAqWorld) step" where
  "stepPoll deps run i job dl =
     (case ajJobId job of
        None \<Rightarrow> stay run
      | Some jobId \<Rightarrow>
         andDo (orAbort (jobUrl (adsConfig deps) jobId)) (\<lambda>url.
         andDo (callAds deps run job plainCall
                  (baseOptions deps dl True (\<lambda>body. parseJobStatus (idPlatform deps) body ''poll''))
                  (adsRequestTo deps ''GET'' url None)) (\<lambda>out.
           case out of
             Out_ok st _ \<Rightarrow>
               (let stamped = job\<lparr>ajAdsCreated := jsCreated st, ajAdsStarted := jsStarted st,
                                 ajAdsFinished := jsFinished st\<rparr>
                in if jsStatus st = ascii ''successful''
                   then writeJob deps run i (stamped\<lparr>ajState := Js_downloadable\<rparr>)
                   else if isTerminalProviderStatus (jsStatus st)
                   then (\<lambda>w. terminate deps run i stamped (Ir_provider_ended (jsStatus st)) Js_rejected Class_upstream
                          (aqCount ''airq.provider_refusal'' w))
                   else if jsStatus st = ascii ''failed''
                   then (\<lambda>w. terminate deps run i stamped Ir_provider_failed Js_failed Class_upstream
                          (aqCount ''airq.provider_failed'' w))
                   else writeJob deps run i
                     (stamped\<lparr>ajState := (if jsStatus st = ascii ''running'' then Js_running else Js_submitted)\<rparr>))
           | _ \<Rightarrow> recordFailure deps run i job out)))"

definition stepResults ::
  "'r ingestAqDeps \<Rightarrow> airQualityRun \<Rightarrow> nat \<Rightarrow> adsJobRecord \<Rightarrow> operationDeadline
   \<Rightarrow> (airQualityRun, 'r ingestAqWorld) step" where
  "stepResults deps run i job dl =
     (case ajJobId job of
        None \<Rightarrow> stay run
      | Some jobId \<Rightarrow>
         andDo (orAbort (jobResultsUrl (adsConfig deps) jobId)) (\<lambda>url.
         andDo (callAds deps run job plainCall (baseOptions deps dl True (parseResultAsset (idPlatform deps)))
                  (adsRequestTo deps ''GET'' url None)) (\<lambda>out.
           case out of
             Out_ok asset _ \<Rightarrow>
               (case assertAllowedDownloadHost (idPlatform deps) (raHref asset) (adObjectStoreHosts (adsConfig deps)) of
                  Inl e \<Rightarrow> (\<lambda>w. terminate deps run i job (Ir_href e) Js_refused Class_refused
                             (aqCount ''airq.download_host_refused'' w))
                | Inr target \<Rightarrow>
                   (if of_nat (adRunMaxBytes (adsConfig deps)) < raSizeBytes asset
                    then (\<lambda>w. terminate deps run i job
                           (Ir_declared_size (raSizeBytes asset) (adRunMaxBytes (adsConfig deps))) Js_refused
                           Class_refused (aqCount ''airq.size_refused'' w))
                    else writeJob deps run i (job\<lparr>ajState := Js_ready, ajLastError := None,
                           ajResult := Some (asset\<lparr>raHref := urlText target\<rparr>)\<rparr>)))
           | _ \<Rightarrow> recordFailure deps run i job out)))"

section \<open>Storing a product\<close>

definition locatedOnly :: "locatedProvince list \<Rightarrow> locatedProvince list" where
  "locatedOnly ps = filter (\<lambda>p. lpLatitude p \<noteq> None \<and> lpLongitude p \<noteq> None) ps"

text \<open>\<open>loadProvinces\<close>: \<open>null\<close> unless all 81 provinces are located.\<close>

definition loadLocated :: "'r ingestAqDeps \<Rightarrow> (locatedProvince list option, 'r ingestAqWorld) step" where
  "loadLocated deps w =
     (case idLoadProvinces deps of
        Inl e \<Rightarrow> (Inl e, w)
      | Inr ps \<Rightarrow>
          if length (locatedOnly ps) \<noteq> EXPECTED_PROVINCE_COUNT
          then (Inr None, aqCount ''airq.province_set_invalid'' w)
          else (Inr (Some (locatedOnly ps)), w))"

definition camsPointOf :: "locatedProvince \<Rightarrow> camsPoint" where
  "camsPointOf p =
     \<lparr>plateCode = lpPlateCode p, ptLatitude = (case lpLatitude p of None \<Rightarrow> 0 | Some x \<Rightarrow> x),
      ptLongitude = (case lpLongitude p of None \<Rightarrow> 0 | Some x \<Rightarrow> x)\<rparr>"

definition expectedProductFor :: "adsJobKind \<Rightarrow> camsProduct" where
  "expectedProductFor k = (case k of Forecast_job \<Rightarrow> FORECAST | Analysis_job \<Rightarrow> ANALYSIS)"

definition decodeOptionsFor ::
  "'r ingestAqDeps \<Rightarrow> adsJobRecord \<Rightarrow> locatedProvince list \<Rightarrow> camsDecodeOptions" where
  "decodeOptionsFor deps job ps =
     \<lparr>expectedRunDate = compactDay (ajRequestDate job), points = map camsPointOf ps,
      optPollutants = Some ALL_AIR_QUALITY_POLLUTANTS, expectedProduct = Some (expectedProductFor (ajKind job)),
      maxInflatedBytes = Some (adRunMaxBytes (adsConfig deps))\<rparr>"

definition toStoredConcentrations :: "(airQualityPollutant \<rightharpoonup> rat option list) \<Rightarrow> storedConcentrations" where
  "toStoredConcentrations series p = (case series p of None \<Rightarrow> [] | Some xs \<Rightarrow> xs)"

definition toStoredSupport :: "(airQualityPollutant \<rightharpoonup> airQualityStatus) \<Rightarrow> storedSupport" where
  "toStoredSupport support p = (if support p = Some Aq_not_supported then Support_not_supported else Support_ok)"

text \<open>Of two provinces of one plate code the map keeps the later. A province outside the grid has zeros.\<close>

definition rowFor :: "locatedProvince list \<Rightarrow> camsProvinceSeries \<Rightarrow> recordProvinceInput option" where
  "rowFor ps s =
     map_option (\<lambda>p. \<lparr>rpProvinceId = lpId p,
         rpGridLatitude = (case gridLatitude s of None \<Rightarrow> Finite 0 | Some v \<Rightarrow> v),
         rpGridLongitude = (case gridLongitude s of None \<Rightarrow> Finite 0 | Some v \<Rightarrow> v),
         rpDistanceKm = (if outsideDomain s then Some 0 else psDistanceKm s),
         rpConcentrations = toStoredConcentrations (psSeries s), rpSupport = toStoredSupport (psSupport s)\<rparr>)
       (map_of (rev (map (\<lambda>p. (lpPlateCode p, p)) ps)) (psPlateCode s))"

definition rowsFor :: "locatedProvince list \<Rightarrow> camsDecodedFile \<Rightarrow> recordProvinceInput list" where
  "rowsFor ps d = List.map_filter (rowFor ps) (provinces d)"

text \<open>\<open>!==\<close> of two stored coordinates.\<close>

definition cellDiffers :: "(string \<times> jsNumber \<times> jsNumber) list \<Rightarrow> recordProvinceInput \<Rightarrow> bool" where
  "cellDiffers cells row =
     (case map_of (rev cells) (rpProvinceId row) of
        None \<Rightarrow> True
      | Some (lat, lon) \<Rightarrow>
          \<not> jsEqual (toStoredDegrees lat) (toStoredDegrees (rpGridLatitude row))
          \<or> \<not> jsEqual (toStoredDegrees lon) (toStoredDegrees (rpGridLongitude row)))"

text \<open>The grid-identity guard of an analysis: its rows must sit on the cells of the forecast.\<close>

definition guardAnalysis ::
  "'r ingestAqDeps \<Rightarrow> airQualityRun \<Rightarrow> nat \<Rightarrow> adsJobRecord \<Rightarrow> recordProvinceInput list
   \<Rightarrow> (airQualityRun, 'r ingestAqWorld) step \<Rightarrow> (airQualityRun, 'r ingestAqWorld) step" where
  "guardAnalysis deps run i job rows keep =
     (if ajKind job \<noteq> Analysis_job then keep
      else andDo (aqStatement (\<lambda>db. Some (gridCellsFor (rnRunUtc run) db, db))) (\<lambda>cells.
        if cells = []
        then (\<lambda>w. terminate deps run i job Ir_no_forecast_rows Js_refused Class_refused
               (aqCount ''airq.analysis_without_forecast'' w))
        else let mismatched = filter (cellDiffers cells) rows
             in if mismatched \<noteq> []
                then (\<lambda>w. terminate deps run i job (Ir_cells_differ (length mismatched)) Js_rejected Class_contract
                       (aqCount ''airq.analysis_grid_mismatch'' w))
                else keep))"

definition storeProduct ::
  "'r ingestAqDeps \<Rightarrow> airQualityRun \<Rightarrow> nat \<Rightarrow> adsJobRecord \<Rightarrow> nat \<Rightarrow> camsDecodedFile
   \<Rightarrow> recordProvinceInput list \<Rightarrow> (airQualityRun, 'r ingestAqWorld) step" where
  "storeProduct deps run i job bytes d rows w =
     (let jobs = replaceJob (rnJobs run) i (job\<lparr>ajState := Js_stored, ajLastError := None\<rparr>);
          (st, w1) = rollupLoudly deps run jobs w
      in andDo (aqStatement (\<lambda>db. map_option (Pair ()) (recordProduct
           \<lparr>piRunUtc = rnRunUtc run, piKind = ajKind job,
            piHours = (if ajKind job = Forecast_job then rnForecastHours run else int (length (timeHours d))),
            piProvinces = rows, piBytesDownloaded = rnBytesDownloaded run + bytes, piJobs = jobs, piState = st,
            piNow = aqNow w1\<rparr> db))) (\<lambda>_.
         let run1 = run\<lparr>rnJobs := jobs, rnState := st\<rparr>
         in if ajKind job = Forecast_job
            then andDo (aqStatement (\<lambda>db. Some (pruneRuns RETAINED_RUNS db))) (\<lambda>_. stay run1)
            else stay run1) w1)"

definition decodeAndStore ::
  "'r ingestAqDeps \<Rightarrow> airQualityRun \<Rightarrow> nat \<Rightarrow> adsJobRecord \<Rightarrow> byte list
   \<Rightarrow> (airQualityRun, 'r ingestAqWorld) step" where
  "decodeAndStore deps run i job archive =
     andDo (loadLocated deps) (\<lambda>loaded.
       case loaded of
         None \<Rightarrow> stay run
       | Some ps \<Rightarrow>
          (case decodeCamsFile (idCams deps) (decodeOptionsFor deps job ps) archive of
             Inl e \<Rightarrow>
               (\<lambda>w. terminate deps run i job (Ir_contract e) Js_rejected
                 (if e = Unexpected_failure then Class_decoder_bug else Class_contract)
                 (aqCount (if e = Unexpected_failure then ''airq.decoder_bug'' else ''airq.contract_refusal'') w))
           | Inr d \<Rightarrow>
              (let expected = expectedStepCount (rnForecastHours run) (ajKind job)
               in if int (length (timeHours d)) \<noteq> expected
                  then (\<lambda>w. terminate deps run i job (Ir_step_count (length (timeHours d)) expected) Js_rejected
                         Class_contract (aqCount ''airq.step_count_mismatch'' w))
                  else guardAnalysis deps run i job (rowsFor ps d)
                         (storeProduct deps run i job (length archive) d (rowsFor ps d)))))"

definition stepDownload ::
  "'r ingestAqDeps \<Rightarrow> airQualityRun \<Rightarrow> nat \<Rightarrow> adsJobRecord \<Rightarrow> operationDeadline
   \<Rightarrow> (airQualityRun, 'r ingestAqWorld) step" where
  "stepDownload deps run i job dl =
     (case ajResult job of
        None \<Rightarrow> writeJob deps run i (job\<lparr>ajState := Js_downloadable\<rparr>)
      | Some asset \<Rightarrow>
         andDo (callAds deps run job plainCall (downloadOptions deps dl (raSizeBytes asset))
                  \<lparr>rqMethod = ''GET'', rqUrl = raHref asset, rqBody = None, rqToken = None\<rparr>) (\<lambda>out.
           case out of
             Out_ok body _ \<Rightarrow>
               (let md5 = idMd5 deps body
                in if map lowerAscii md5 \<noteq> map lowerAscii (raChecksum asset)
                   then recordTransient deps run i job (Ir_checksum md5)
                   else decodeAndStore deps run i job body)
           | _ \<Rightarrow> recordFailure deps run i job out))"

definition cleanupJob ::
  "'r ingestAqDeps \<Rightarrow> airQualityRun \<Rightarrow> nat \<Rightarrow> operationDeadline \<Rightarrow> (airQualityRun, 'r ingestAqWorld) step" where
  "cleanupJob deps run i dl =
     (if length (rnJobs run) \<le> i then stay run
      else let job = rnJobs run ! i
           in case ajJobId job of
                None \<Rightarrow> stay run
              | Some jobId \<Rightarrow>
                 andDo (orAbort (jobUrl (adsConfig deps) jobId)) (\<lambda>url.
                 andDo (callAds deps run job plainCall
                          (baseOptions deps dl True (parseJobDismissal (idPlatform deps)))
                          (adsRequestTo deps ''DELETE'' url None)) (\<lambda>out w.
                   let w1 = (if kind_of out = K_ok then w else aqCount ''airq.cleanup_unconfirmed'' w)
                   in writeJob deps run i (job\<lparr>ajCleanupAt := Some (toISOString (aqNow w1))\<rparr>) w1)))"

section \<open>A tour\<close>

definition advanceJob ::
  "'r ingestAqDeps \<Rightarrow> airQualityRun \<Rightarrow> nat \<Rightarrow> operationDeadline \<Rightarrow> (airQualityRun, 'r ingestAqWorld) step" where
  "advanceJob deps run i dl =
     (if length (rnJobs run) \<le> i then stay run
      else let job = rnJobs run ! i
           in case ajState job of
                Js_pending \<Rightarrow> stepCosting deps run i job dl
              | Js_costed \<Rightarrow> stepSubmit deps run i job dl
              | Js_submitting \<Rightarrow> stepReconcile deps run i job dl
              | Js_submitted \<Rightarrow> stepPoll deps run i job dl
              | Js_running \<Rightarrow> stepPoll deps run i job dl
              | Js_downloadable \<Rightarrow> stepResults deps run i job dl
              | Js_ready \<Rightarrow> stepDownload deps run i job dl
              | _ \<Rightarrow> stay run)"

definition newRunOf ::
  "'r ingestAqDeps \<Rightarrow> ms \<Rightarrow> adsJobRecord list \<Rightarrow> ms \<Rightarrow> airQualityRun" where
  "newRunOf deps runUtc jobs now =
     \<lparr>rnRunUtc = runUtc, rnState = Run_pending, rnForecastHours = int (adForecastHours (adsConfig deps)),
      rnAnalysisHours = 0, rnJobs = jobs, rnDatasetId = adDatasetId (adsConfig deps), rnLastError = None,
      rnLastErrorClass = None, rnBytesDownloaded = 0, rnStartedAt = now, rnCompletedAt = None\<rparr>"

definition newJobsFor :: "'r ingestAqDeps \<Rightarrow> ms \<Rightarrow> adsError + adsJobRecord list" where
  "newJobsFor deps runUtc =
     (let cfg = adsConfig deps; runDate = isoDay runUtc;
          forecast = newJob Forecast_job runDate (buildForecastRequestBody cfg runDate)
      in if icAnalysisEnabled (idConfig deps)
         then andThen (analysisDateFor (idPlatform deps) runDate) (\<lambda>day.
                Inr [forecast, newJob Analysis_job day (buildAnalysisRequestBody cfg day)])
         else Inr [forecast])"

definition supersede ::
  "'r ingestAqDeps \<Rightarrow> airQualityRun option \<Rightarrow> (unit, 'r ingestAqWorld) step" where
  "supersede deps newest w =
     (case newest of
        None \<Rightarrow> (Inr (), w)
      | Some old \<Rightarrow>
          if isRunTerminal old then (Inr (), w)
          else aqStatement (\<lambda>db. Some ((), updateRun
                 \<lparr>uiRunUtc = rnRunUtc old, uiJobs = rnJobs old, uiState = Run_abandoned,
                  uiLastError = None, uiLastErrorClass = None\<rparr> db)) (aqCount ''airq.run_abandoned'' w))"

definition createRunFor ::
  "'r ingestAqDeps \<Rightarrow> ms \<Rightarrow> ms \<Rightarrow> (airQualityRun option, 'r ingestAqWorld) step" where
  "createRunFor deps runUtc now =
     andDo (orAbort (newJobsFor deps runUtc)) (\<lambda>jobs.
     andDo (aqStatement (\<lambda>db. map_option (Pair ()) (createRun (newRunOf deps runUtc jobs now) db))) (\<lambda>_.
       aqStatement (\<lambda>db. Some (getRun runUtc db, db))))"

definition selectRun ::
  "'r ingestAqDeps \<Rightarrow> ms \<Rightarrow> (airQualityRun option, 'r ingestAqWorld) step" where
  "selectRun deps now =
     (let cfg = adsConfig deps; targetRunUtc = currentRunDate now (adSubmitAfterUtcHour cfg)
      in andDo (aqStatement (\<lambda>db. Some (newestRun db, db))) (\<lambda>newest.
         if (case newest of None \<Rightarrow> False | Some r \<Rightarrow> targetRunUtc \<le> rnRunUtc r) then (\<lambda>w. (Inr newest, w))
         else if getUTCHours now < adSubmitAfterUtcHour cfg then (\<lambda>w. (Inr None, w))
         else andDo (supersede deps newest) (\<lambda>_. createRunFor deps targetRunUtc now)))"

definition runTourSlice ::
  "'r ingestAqDeps \<Rightarrow> operationDeadline \<Rightarrow> (unit, 'r ingestAqWorld) step" where
  "runTourSlice deps tourDeadline w =
     (if \<not> icIngestEnabled (idConfig deps) then (Inr (), w)
      else
       (let sliceBudgetMs = min (adTourBudgetMs (adsConfig deps)) (remainingMs tourDeadline (aqNow w))
        in if sliceBudgetMs < MIN_STEP_BUDGET_MS then (Inr (), w)
           else (let dl = \<lparr>budgetMs = sliceBudgetMs, startedAtMs = aqNow w\<rparr>
                 in andDo (selectRun deps (aqNow w)) (\<lambda>selected.
                      case selected of
                        None \<Rightarrow> (\<lambda>w. (Inr (), w))
                      | Some run \<Rightarrow>
                         (case selectNextJob (rnJobs run) (maxAttempts deps) of
                            None \<Rightarrow> (\<lambda>w. (Inr (), w))
                          | Some (i, Act_cleanup) \<Rightarrow> andDo (cleanupJob deps run i dl) (\<lambda>_ w. (Inr (), w))
                          | Some (i, Act_progress) \<Rightarrow> andDo (advanceJob deps run i dl) (\<lambda>_ w. (Inr (), w)))) w)))"

definition refreshAirQuality ::
  "'r ingestAqDeps \<Rightarrow> operationDeadline \<Rightarrow> 'r ingestAqWorld \<Rightarrow> 'r ingestAqWorld" where
  "refreshAirQuality deps tourDeadline w =
     (case runTourSlice deps tourDeadline w of
        (Inr _, w') \<Rightarrow> w'
      | (Inl e, w') \<Rightarrow> aqCount ''airq.ingest_bug'' w')"

end
