(* ===== verification/Air_Quality_Ledger.thy ===== *)
theory Air_Quality_Ledger
  imports Air_Quality_Ingest
begin

text \<open>
  What the ingest promises of one job, as a machine of its own, and the proof that every tour of
  the ingest is some of its steps. A job's state is its ledger entry with what its requests were
  for, in order. The properties of all histories of tours follow from the machine.
\<close>

section \<open>The machine of a job\<close>

fun nextStates :: "adsJobState \<Rightarrow> adsJobState list" where
  "nextStates Js_pending = [Js_refused, Js_rejected, Js_failed]"
| "nextStates Js_submitting = [Js_submitted, Js_downloadable, Js_refused, Js_rejected, Js_failed]"
| "nextStates Js_submitted = [Js_running, Js_downloadable, Js_rejected, Js_failed]"
| "nextStates Js_running = [Js_submitted, Js_downloadable, Js_rejected, Js_failed]"
| "nextStates Js_downloadable = [Js_ready, Js_refused, Js_rejected, Js_failed]"
| "nextStates Js_ready = [Js_downloadable, Js_stored, Js_refused, Js_rejected, Js_failed]"
| "nextStates s = []"

type_synonym jobHistory = "adsJobRecord \<times> adsNote list"

definition isSubmission :: "adsNote \<Rightarrow> bool" where
  "isSubmission n \<longleftrightarrow> (case n of Submission s \<Rightarrow> True | _ \<Rightarrow> False)"

inductive jobStep :: "nat \<Rightarrow> jobHistory \<Rightarrow> jobHistory \<Rightarrow> bool" for most where
  Call: "\<not> isSubmission n \<Longrightarrow> jobStep most (j, ns) (j, ns @ [n])"
| Cost: "ajState j = Js_pending \<Longrightarrow> ajState j' = Js_costed \<Longrightarrow> ajAttempts j' = ajAttempts j
    \<Longrightarrow> ajKind j' = ajKind j \<Longrightarrow> jobStep most (j, ns) (j', ns)"
| Submit: "ajState j = Js_costed \<Longrightarrow> ajAttempts j < most
    \<Longrightarrow> jobStep most (j, ns) (j\<lparr>ajState := Js_submitting, ajSubmittedAt := Some s\<rparr>, ns @ [Submission s])"
| Reopen: "ajState j = Js_submitting \<Longrightarrow> ajState j' = Js_costed \<Longrightarrow> ajAttempts j' = ajAttempts j + 1
    \<Longrightarrow> ajKind j' = ajKind j \<Longrightarrow> ns = ms @ [Reconciliation (ajSubmittedAt j) (Some [])]
    \<Longrightarrow> jobStep most (j, ns) (j', ns)"
| Advance: "ajState j' \<in> set (nextStates (ajState j)) \<or> ajState j' = ajState j \<and> ajSubmittedAt j' = ajSubmittedAt j
    \<Longrightarrow> ajAttempts j \<le> ajAttempts j' \<Longrightarrow> ajKind j' = ajKind j \<Longrightarrow> jobStep most (j, ns) (j', ns)"

abbreviation jobSteps :: "nat \<Rightarrow> jobHistory \<Rightarrow> jobHistory \<Rightarrow> bool" where
  "jobSteps most \<equiv> (jobStep most)\<^sup>*\<^sup>*"

lemma jobStep_kind: "jobStep most s s' \<Longrightarrow> ajKind (fst s') = ajKind (fst s)"
  by (induction rule: jobStep.induct) auto

lemma jobSteps_kind: "jobSteps most s s' \<Longrightarrow> ajKind (fst s') = ajKind (fst s)"
  by (induction rule: rtranclp_induct) (auto dest: jobStep_kind)

section \<open>Submissions of one job\<close>

text \<open>
  A monitor of submissions: settled, awaiting an answer since a stamp, or two awaited at once. A
  reconciliation that looks from that stamp and finds no candidate settles it.
\<close>

datatype submitMonitor = Settled | Awaiting jsText | Twice_open

fun watchNote :: "submitMonitor \<Rightarrow> adsNote \<Rightarrow> submitMonitor" where
  "watchNote Settled (Submission s) = Awaiting s"
| "watchNote (Awaiting r) (Submission s) = Twice_open"
| "watchNote (Awaiting r) (Reconciliation since (Some [])) = (if since = Some r then Settled else Awaiting r)"
| "watchNote m n = m"

definition watch :: "adsNote list \<Rightarrow> submitMonitor" where
  "watch ns = fold (\<lambda>n m. watchNote m n) ns Settled"

definition submissions :: "adsNote list \<Rightarrow> nat" where
  "submissions ns = length (filter isSubmission ns)"

lemma watch_simps [simp]: "watch [] = Settled" "watch (ns @ [n]) = watchNote (watch ns) n"
  by (simp_all add: watch_def)

lemma submissions_simps [simp]:
  "submissions [] = 0" "submissions (ns @ [n]) = submissions ns + (if isSubmission n then 1 else 0)"
  by (simp_all add: submissions_def)

definition jobInv :: "nat \<Rightarrow> jobHistory \<Rightarrow> bool" where
  "jobInv most h \<longleftrightarrow> (case h of (j, ns) \<Rightarrow>
     watch ns \<noteq> Twice_open \<and> submissions ns \<le> most
     \<and> (ajState j \<in> {Js_pending, Js_costed} \<longrightarrow> watch ns = Settled \<and> submissions ns \<le> ajAttempts j)
     \<and> (ajState j = Js_submitting \<longrightarrow>
          (\<forall>s. watch ns = Awaiting s \<longrightarrow> ajSubmittedAt j = Some s) \<and> submissions ns \<le> ajAttempts j + 1))"

lemma jobInvI:
  assumes "watch ns \<noteq> Twice_open" and "submissions ns \<le> most"
    and "ajState j \<in> {Js_pending, Js_costed} \<Longrightarrow> watch ns = Settled \<and> submissions ns \<le> ajAttempts j"
    and "\<And>s. ajState j = Js_submitting \<Longrightarrow> watch ns = Awaiting s \<Longrightarrow> ajSubmittedAt j = Some s"
    and "ajState j = Js_submitting \<Longrightarrow> submissions ns \<le> ajAttempts j + 1"
  shows "jobInv most (j, ns)"
  using assms by (simp add: jobInv_def)

lemma jobInvD:
  assumes "jobInv most (j, ns)"
  shows "watch ns \<noteq> Twice_open" "submissions ns \<le> most"
    "ajState j \<in> {Js_pending, Js_costed} \<Longrightarrow> watch ns = Settled"
    "ajState j \<in> {Js_pending, Js_costed} \<Longrightarrow> submissions ns \<le> ajAttempts j"
    "ajState j = Js_submitting \<Longrightarrow> watch ns = Awaiting s \<Longrightarrow> ajSubmittedAt j = Some s"
    "ajState j = Js_submitting \<Longrightarrow> submissions ns \<le> ajAttempts j + 1"
  using assms unfolding jobInv_def prod.case by blast+

lemma watchNote_call:
  assumes "\<not> isSubmission n" shows "watchNote m n = m \<or> watchNote m n = Settled \<and> m \<noteq> Twice_open"
  using assms by (cases "(m, n)" rule: watchNote.cases) (auto simp: isSubmission_def)

lemma next_never_back:
  "s' \<in> set (nextStates s) \<Longrightarrow> s' \<notin> {Js_pending, Js_costed, Js_submitting}"
  by (cases s) auto

lemma watch_reopened:
  assumes "jobInv most (j, ms @ [Reconciliation (ajSubmittedAt j) (Some [])])"
    and "ajState j = Js_submitting"
  shows "watch (ms @ [Reconciliation (ajSubmittedAt j) (Some [])]) = Settled"
proof (cases "watch ms")
  case (Awaiting r)
  show ?thesis
  proof (cases "ajSubmittedAt j = Some r")
    case False
    then have "watch (ms @ [Reconciliation (ajSubmittedAt j) (Some [])]) = Awaiting r" using Awaiting by simp
    from jobInvD(5) [OF assms this] False show ?thesis by simp
  qed (simp add: Awaiting)
qed (use jobInvD(1) [OF assms(1)] in simp_all)

lemma jobStep_inv: "jobStep most s s' \<Longrightarrow> jobInv most s \<Longrightarrow> jobInv most s'"
proof (induction rule: jobStep.induct)
  case (Call n j ns)
  note inv = jobInvD [OF Call(2)] and w = watchNote_call [OF Call(1), of "watch ns"]
  show ?case
  proof (rule jobInvI)
    show "ajSubmittedAt j = Some s" if "ajState j = Js_submitting" "watch (ns @ [n]) = Awaiting s" for s
      using w that inv(5) by auto
  qed (use Call(1) w inv in \<open>auto simp del: insert_iff\<close>)
next
  case (Cost j j' ns)
  have "ajState j \<in> {Js_pending, Js_costed}" using Cost by simp
  note inv = jobInvD(1,2) [OF Cost(5)] jobInvD(3,4) [OF Cost(5) this]
  show ?case by (rule jobInvI) (use inv Cost in simp_all)
next
  case (Submit j ns s)
  have "ajState j \<in> {Js_pending, Js_costed}" using Submit by simp
  note inv = jobInvD(1,2) [OF Submit(3)] jobInvD(3,4) [OF Submit(3) this]
  show ?case by (rule jobInvI) (use inv Submit(2) in \<open>simp_all add: isSubmission_def\<close>)
next
  case (Reopen j j' ns ms)
  have "jobInv most (j, ms @ [Reconciliation (ajSubmittedAt j) (Some [])])" using Reopen(5,6) by simp
  from watch_reopened [OF this Reopen(1)] have "watch ns = Settled" using Reopen(5) by simp
  then show ?case
    by (intro jobInvI) (use jobInvD(2) [OF Reopen(6)] jobInvD(6) [OF Reopen(6,1)] Reopen(2,3) in simp_all)
next
  case (Advance j' j ns)
  from Advance(1) show ?case
  proof
    assume "ajState j' \<in> set (nextStates (ajState j))"
    from next_never_back [OF this] show ?thesis by (intro jobInvI) (use jobInvD(1,2) [OF Advance(4)] in simp_all)
  next
    assume same: "ajState j' = ajState j \<and> ajSubmittedAt j' = ajSubmittedAt j"
    note inv = jobInvD [OF Advance(4)]
    show ?thesis
    proof (rule jobInvI)
      show "ajSubmittedAt j' = Some s" if "ajState j' = Js_submitting" "watch ns = Awaiting s" for s
        using same inv(5) that by simp
      show "submissions ns \<le> ajAttempts j' + 1" if "ajState j' = Js_submitting"
        using same inv(6) that Advance(2) by simp
      show "watch ns = Settled \<and> submissions ns \<le> ajAttempts j'" if "ajState j' \<in> {Js_pending, Js_costed}"
        using same inv(3,4) that Advance(2) by (metis le_trans)
    qed (use inv(1,2) in simp_all)
  qed
qed

lemma jobSteps_inv: "jobSteps most s s' \<Longrightarrow> jobInv most s \<Longrightarrow> jobInv most s'"
  by (induction rule: rtranclp_induct) (auto intro: jobStep_inv)

section \<open>The life of a job\<close>

text \<open>
  A run is keyed by its day: a job of it is still to come, live in the ledger with the requests
  made for it, or past (its run is pruned, or newer runs came and it never was).
\<close>

datatype jobLife = Future | Live adsJobRecord "adsNote list" | Past "adsNote list"

inductive lifeStep :: "nat \<Rightarrow> jobLife \<Rightarrow> jobLife \<Rightarrow> bool" for most where
  Born: "ajState j = Js_pending \<Longrightarrow> ajAttempts j = 0 \<Longrightarrow> lifeStep most Future (Live j [])"
| Missed: "lifeStep most Future (Past [])"
| Worked: "jobStep most (j, ns) (j', ns') \<Longrightarrow> lifeStep most (Live j ns) (Live j' ns')"
| Pruned: "lifeStep most (Live j ns) (Past ns)"

abbreviation lifeSteps :: "nat \<Rightarrow> jobLife \<Rightarrow> jobLife \<Rightarrow> bool" where
  "lifeSteps most \<equiv> (lifeStep most)\<^sup>*\<^sup>*"

fun lifeNotes :: "jobLife \<Rightarrow> adsNote list" where
  "lifeNotes Future = []"
| "lifeNotes (Live j ns) = ns"
| "lifeNotes (Past ns) = ns"

fun lifeInv :: "nat \<Rightarrow> jobLife \<Rightarrow> bool" where
  "lifeInv most Future \<longleftrightarrow> True"
| "lifeInv most (Live j ns) \<longleftrightarrow> jobInv most (j, ns)"
| "lifeInv most (Past ns) \<longleftrightarrow> watch ns \<noteq> Twice_open \<and> submissions ns \<le> most"

lemma lifeStep_inv: "lifeStep most l l' \<Longrightarrow> lifeInv most l \<Longrightarrow> lifeInv most l'"
proof (induction rule: lifeStep.induct)
  case (Born j)
  then show ?case by (simp add: jobInv_def)
next
  case (Worked j ns j' ns')
  then show ?case using jobStep_inv by simp
next
  case (Pruned j ns)
  then show ?case using jobInvD(1,2) by simp
qed simp

lemma lifeSteps_inv: "lifeSteps most l l' \<Longrightarrow> lifeInv most l \<Longrightarrow> lifeInv most l'"
  by (induction rule: rtranclp_induct) (auto intro: lifeStep_inv)

lemma lifeInv_notes: "lifeInv most l \<Longrightarrow> watch (lifeNotes l) \<noteq> Twice_open \<and> submissions (lifeNotes l) \<le> most"
  by (cases l) (auto simp: jobInv_def)

lemma lifeSteps_worked: "jobSteps most h h' \<Longrightarrow> lifeSteps most (Live (fst h) (snd h)) (Live (fst h') (snd h'))"
proof (induction rule: rtranclp_induct)
  case (step h1 h2)
  have "lifeStep most (Live (fst h1) (snd h1)) (Live (fst h2) (snd h2))"
    using step(2) by (intro lifeStep.Worked) simp
  with step(3) show ?case by (rule rtranclp.rtrancl_into_rtrancl)
qed simp

end
