(* ===== verification/Air_Quality_Tours.thy ===== *)
theory Air_Quality_Tours
  imports Air_Quality_Ledger
begin

text \<open>
  Every tour of the ingest (\<open>src/air-quality/cams/air-quality-ingest.target.ts\<close>) is, for every
  job of every run, some steps of the abstract life of a job; so what the abstract machine never
  does, no history of tours does.
\<close>

section \<open>What the tables and the trace say of one job\<close>

definition runKeys :: "ingestTables \<Rightarrow> ms list" where
  "runKeys db = map rnRunUtc (itRuns db)"

definition jobsAt :: "ingestTables \<Rightarrow> ms \<Rightarrow> adsJobRecord list option" where
  "jobsAt db u = map_option rnJobs (getRun u db)"

definition jobOf :: "ms \<Rightarrow> adsJobKind \<Rightarrow> ingestTables \<Rightarrow> adsJobRecord option" where
  "jobOf u k db = (case jobsAt db u of None \<Rightarrow> None | Some js \<Rightarrow> find (\<lambda>j. ajKind j = k) js)"

definition notesOf :: "ms \<Rightarrow> adsJobKind \<Rightarrow> adsTraceEntry list \<Rightarrow> adsNote list" where
  "notesOf u k tr = map teNote (filter (\<lambda>e. teRunUtc e = u \<and> teKind e = k) tr)"

definition lifeOf :: "ms \<Rightarrow> adsJobKind \<Rightarrow> 'r ingestAqWorld \<Rightarrow> jobLife" where
  "lifeOf u k w =
     (case jobOf u k (iwDb w) of
        Some j \<Rightarrow> Live j (notesOf u k (iwTrace w))
      | None \<Rightarrow> if \<exists>v \<in> set (runKeys (iwDb w)). u \<le> v then Past (notesOf u k (iwTrace w)) else Future)"

definition ledgerOk :: "'r ingestAqWorld \<Rightarrow> bool" where
  "ledgerOk w \<longleftrightarrow> distinct (runKeys (iwDb w))
     \<and> (\<forall>r \<in> set (itRuns (iwDb w)). distinct (map ajKind (rnJobs r)))
     \<and> (\<forall>e \<in> set (iwTrace w). \<exists>v \<in> set (runKeys (iwDb w)). teRunUtc e \<le> v)"

lemma notesOf_append [simp]: "notesOf u k (a @ b) = notesOf u k a @ notesOf u k b"
  by (simp add: notesOf_def)

lemma notesOf_none: "\<forall>e \<in> set tr. \<not> (teRunUtc e = u \<and> teKind e = k) \<Longrightarrow> notesOf u k tr = []"
  by (simp add: notesOf_def filter_empty_conv)

lemma getRun_Some:
  assumes "getRun u db = Some r" shows "r \<in> set (itRuns db)" "rnRunUtc r = u"
  using assms by (auto simp: getRun_def find_Some_iff)

lemma getRun_None: "getRun u db = None \<longleftrightarrow> u \<notin> set (runKeys db)"
  by (auto simp: getRun_def runKeys_def find_None_iff)

lemma jobsAt_None: "jobsAt db u = None \<longleftrightarrow> u \<notin> set (runKeys db)"
  by (simp add: jobsAt_def getRun_None)

lemma getRun_member:
  assumes "distinct (runKeys db)" and "r \<in> set (itRuns db)"
  shows "getRun (rnRunUtc r) db = Some r"
proof -
  obtain r' where r': "getRun (rnRunUtc r) db = Some r'"
    using assms(2) getRun_None [of "rnRunUtc r" db] by (auto simp: runKeys_def)
  with getRun_Some [OF r'] assms have "r' = r" by (auto simp: runKeys_def distinct_map inj_on_def)
  with r' show ?thesis by simp
qed

lemma newest_run_max:
  assumes "newestRun db = Some r"
  shows "r \<in> set (itRuns db)" "\<And>v. v \<in> set (runKeys db) \<Longrightarrow> v \<le> rnRunUtc r"
proof -
  obtain rest where rest: "rev (sort_key rnRunUtc (itRuns db)) = r # rest"
    using assms by (auto simp: newestRun_def split: list.splits)
  then have sorted: "sort_key rnRunUtc (itRuns db) = rev rest @ [r]" by (simp add: rev_swap)
  then have members: "set (itRuns db) = insert r (set rest)" by (metis set_sort set_append set_rev list.set(1,2) Un_insert_right sup_bot_right)
  show "r \<in> set (itRuns db)" by (simp add: members)
  have "sorted (map rnRunUtc (rev rest @ [r]))" by (metis sorted sorted_sort_key)
  then show "v \<le> rnRunUtc r" if "v \<in> set (runKeys db)" for v
    using that by (auto simp: runKeys_def members sorted_append)
qed

lemma newest_of_no_runs: "newestRun db = None \<Longrightarrow> itRuns db = []"
  by (simp add: newestRun_def split: list.splits) (metis set_sort set_empty)

section \<open>Statements and requests\<close>

lemma aqCount_keeps [simp]: "iwDb (aqCount n w) = iwDb w" "iwTrace (aqCount n w) = iwTrace w"
  by (simp_all add: aqCount_def)

lemma aqStatement_cases:
  obtains (Fails) e where "fst (aqStatement f w) = Inl e" "iwDb (snd (aqStatement f w)) = iwDb w"
      "iwTrace (snd (aqStatement f w)) = iwTrace w"
  | (Runs) x db where "f (iwDb w) = Some (x, db)" "fst (aqStatement f w) = Inr x"
      "iwDb (snd (aqStatement f w)) = db" "iwTrace (snd (aqStatement f w)) = iwTrace w"
proof -
  obtain fails elapsed later where
    answer: "(case iwAnswers w of [] \<Rightarrow> (False, 0, []) | (b, n) # rest \<Rightarrow> (b, n, rest)) = (fails, elapsed, later)"
    by (rule prod_cases3)
  show thesis
  proof (cases fails)
    case True
    then show ?thesis by (intro Fails [of "''database''"]) (simp_all add: aqStatement_def answer)
  next
    case False
    show ?thesis
    proof (cases "f (iwDb w)")
      case None
      with False show ?thesis by (intro Fails [of "''constraint''"]) (simp_all add: aqStatement_def answer)
    next
      case (Some y)
      with False show ?thesis by (intro Runs [of "fst y" "snd y"]) (auto simp: aqStatement_def answer split_beta)
    qed
  qed
qed

lemma callAds_keeps:
  "iwDb (snd (callAds deps run job note opts rq w)) = iwDb w"
  "iwTrace (snd (callAds deps run job note opts rq w)) =
     iwTrace w @ [\<lparr>teRunUtc = rnRunUtc run, teKind = ajKind job, teRequest = rq,
       teNote = note (fst (callAds deps run job note opts rq w))\<rparr>]"
  by (simp_all add: callAds_def split: prod.split)

lemma orAbort_keeps [simp]: "snd (orAbort v w) = w"
  by (simp add: orAbort_def split: sum.split)

lemma jobsAt_onRun:
  assumes "\<And>r. rnRunUtc (f r) = rnRunUtc r"
  shows "jobsAt (onRun u f db) v =
    (if v = u then map_option (\<lambda>r. rnJobs (f r)) (getRun u db) else jobsAt db v)"
proof -
  have "find (\<lambda>r. rnRunUtc r = v) (map (\<lambda>r. if rnRunUtc r = u then f r else r) rs) =
    map_option (\<lambda>r. if v = u then f r else r) (find (\<lambda>r. rnRunUtc r = v) rs)" for rs
    by (induction rs) (auto simp: assms)
  then show ?thesis by (simp add: jobsAt_def getRun_def onRun_def option.map_comp comp_def)
qed

lemma runKeys_onRun: "(\<And>r. rnRunUtc (f r) = rnRunUtc r) \<Longrightarrow> runKeys (onRun u f db) = runKeys db"
  by (simp add: runKeys_def onRun_def comp_def if_distrib cong: if_cong)

lemma jobsAt_updateRun:
  "jobsAt (updateRun inp db) v =
    (if v = uiRunUtc inp \<and> v \<in> set (runKeys db) then Some (uiJobs inp) else jobsAt db v)"
proof -
  have "jobsAt (updateRun inp db) v =
    (if v = uiRunUtc inp then map_option (\<lambda>r. uiJobs inp) (getRun (uiRunUtc inp) db) else jobsAt db v)"
    unfolding updateRun_def by (subst jobsAt_onRun) (simp_all cong: option.map_cong)
  then show ?thesis using jobsAt_None [of db v] getRun_None [of v db]
    by (cases "getRun v db") (auto simp: jobsAt_def)
qed

lemma runKeys_updateRun [simp]: "runKeys (updateRun inp db) = runKeys db"
  by (simp add: updateRun_def runKeys_onRun)

section \<open>In the middle of a step\<close>

text \<open>
  A step works at place \<open>i\<close> of a run and started in the world \<open>w0\<close>. During it the ledger holds
  a job there that the abstract machine reaches with the requests made so far, every request was
  for this job, and other runs are untouched or, when older, pruned.
\<close>

definition during ::
  "nat \<Rightarrow> airQualityRun \<Rightarrow> nat \<Rightarrow> 'r ingestAqWorld \<Rightarrow> 'r ingestAqWorld \<Rightarrow> adsJobRecord \<Rightarrow> adsNote list \<Rightarrow> bool" where
  "during most run i w0 w j ns \<longleftrightarrow>
     jobSteps most (rnJobs run ! i, notesOf (rnRunUtc run) (ajKind (rnJobs run ! i)) (iwTrace w0)) (j, ns)
     \<and> jobsAt (iwDb w) (rnRunUtc run) = Some ((rnJobs run)[i := j])
     \<and> distinct (runKeys (iwDb w))
     \<and> (\<forall>v. v \<noteq> rnRunUtc run \<longrightarrow> jobsAt (iwDb w) v = jobsAt (iwDb w0) v
            \<or> jobsAt (iwDb w) v = None \<and> v < rnRunUtc run)
     \<and> ns = notesOf (rnRunUtc run) (ajKind (rnJobs run ! i)) (iwTrace w)
     \<and> (\<exists>es. iwTrace w = iwTrace w0 @ es
            \<and> (\<forall>e \<in> set es. teRunUtc e = rnRunUtc run \<and> teKind e = ajKind (rnJobs run ! i)))"

definition tracked :: "nat \<Rightarrow> airQualityRun \<Rightarrow> nat \<Rightarrow> 'r ingestAqWorld \<Rightarrow> 'r ingestAqWorld \<Rightarrow> bool" where
  "tracked most run i w0 w \<longleftrightarrow> (\<exists>j ns. during most run i w0 w j ns)"

text \<open>Two lines of a run that differ at most at place \<open>i\<close>.\<close>

definition sameLine :: "airQualityRun \<Rightarrow> airQualityRun \<Rightarrow> nat \<Rightarrow> bool" where
  "sameLine run run' i \<longleftrightarrow> rnRunUtc run' = rnRunUtc run \<and> (\<forall>x. (rnJobs run')[i := x] = (rnJobs run)[i := x])"

lemma sameLine_refl [simp]: "sameLine run run i"
  by (simp add: sameLine_def)

lemma tracked_now: "during most run i w0 w j ns \<Longrightarrow> tracked most run i w0 w"
  unfolding tracked_def by blast

lemma during_same:
  assumes "during most run i w0 w j ns" and "iwDb w' = iwDb w" and "iwTrace w' = iwTrace w"
  shows "during most run i w0 w' j ns"
  using assms(1) unfolding during_def assms(2,3) .

lemma during_aqCount [simp]: "during most run i w0 (aqCount n w) j ns = during most run i w0 w j ns"
  unfolding during_def aqCount_keeps ..

lemma during_kind: "during most run i w0 w j ns \<Longrightarrow> ajKind j = ajKind (rnJobs run ! i)"
  unfolding during_def using jobSteps_kind by fastforce

lemma during_call:
  assumes "during most run i w0 w j ns" and "rnRunUtc run' = rnRunUtc run" and "ajKind job = ajKind j"
    and "\<And>res. \<not> isSubmission (note res)"
  shows "during most run i w0 (snd (callAds deps run' job note opts rq w)) j
    (ns @ [note (fst (callAds deps run' job note opts rq w))])"
proof -
  let ?n = "note (fst (callAds deps run' job note opts rq w))"
  have k: "ajKind job = ajKind (rnJobs run ! i)" using assms(3) during_kind [OF assms(1)] by simp
  have "jobStep most (j, ns) (j, ns @ [?n])" by (rule jobStep.Call) (rule assms(4))
  then have "jobSteps most (rnJobs run ! i, notesOf (rnRunUtc run) (ajKind (rnJobs run ! i)) (iwTrace w0)) (j, ns @ [?n])"
    using assms(1) unfolding during_def by (meson rtranclp.rtrancl_into_rtrancl)
  with assms(1,2) k show ?thesis
    unfolding during_def callAds_keeps by (auto simp: notesOf_def)
qed

lemma during_write:
  assumes "during most run i w0 w j ns" and "jobStep most (j, ns) (j', ns)"
    and "jobsAt db (rnRunUtc run) = Some ((rnJobs run)[i := j'])" and "distinct (runKeys db)"
    and "\<And>v. v \<noteq> rnRunUtc run \<Longrightarrow> jobsAt db v = jobsAt (iwDb w) v \<or> jobsAt db v = None \<and> v < rnRunUtc run"
    and "iwDb w' = db" and "iwTrace w' = iwTrace w"
  shows "during most run i w0 w' j' ns"
proof -
  have "jobSteps most (rnJobs run ! i, notesOf (rnRunUtc run) (ajKind (rnJobs run ! i)) (iwTrace w0)) (j', ns)"
    using assms(1,2) unfolding during_def by (meson rtranclp.rtrancl_into_rtrancl)
  moreover have "jobsAt db v = jobsAt (iwDb w0) v \<or> jobsAt db v = None \<and> v < rnRunUtc run"
    if "v \<noteq> rnRunUtc run" for v
    using assms(1) assms(5) [OF that] that unfolding during_def by metis
  ultimately show ?thesis using assms unfolding during_def by simp
qed

text \<open>Sequencing: a step that throws ends where it stands.\<close>

lemma andDo_tracked:
  assumes "\<And>e. fst (m w) = Inl e \<Longrightarrow> tracked most run i w0 (snd (m w))"
    and "\<And>x. fst (m w) = Inr x \<Longrightarrow> tracked most run i w0 (snd (k x (snd (m w))))"
  shows "tracked most run i w0 (snd (andDo m k w))"
  using assms by (cases "m w"; cases "fst (m w)") (auto simp: andDo_def)

lemma rollupLoudly_keeps [simp]:
  "iwDb (snd (rollupLoudly deps run jobs w)) = iwDb w" "iwTrace (snd (rollupLoudly deps run jobs w)) = iwTrace w"
  by (simp_all add: rollupLoudly_def Let_def)

lemma noteAttemptsSpent_keeps [simp]:
  "iwDb (snd (noteAttemptsSpent deps n w)) = iwDb w" "iwTrace (snd (noteAttemptsSpent deps n w)) = iwTrace w"
  by (simp_all add: noteAttemptsSpent_def)

text \<open>A write of the jobs is one step of the machine, or nothing when the database refuses it.\<close>

lemma storeJobs_cases:
  obtains (Fails) e where "fst (storeJobs deps run jobs le ec w) = Inl e"
      "iwDb (snd (storeJobs deps run jobs le ec w)) = iwDb w"
      "iwTrace (snd (storeJobs deps run jobs le ec w)) = iwTrace w"
  | (Runs) st where "fst (storeJobs deps run jobs le ec w) = Inr (run\<lparr>rnJobs := jobs, rnState := st\<rparr>)"
      "iwDb (snd (storeJobs deps run jobs le ec w)) = updateRun
         \<lparr>uiRunUtc = rnRunUtc run, uiJobs = jobs, uiState = st, uiLastError = Some le, uiLastErrorClass = ec\<rparr> (iwDb w)"
      "iwTrace (snd (storeJobs deps run jobs le ec w)) = iwTrace w"
proof -
  obtain st w1 where r: "rollupLoudly deps run jobs w = (st, w1)" by fastforce
  have w1: "iwDb w1 = iwDb w" "iwTrace w1 = iwTrace w" using rollupLoudly_keeps [of deps run jobs w] by (simp_all add: r)
  let ?f = "\<lambda>db. Some ((), updateRun
    \<lparr>uiRunUtc = rnRunUtc run, uiJobs = jobs, uiState = st, uiLastError = Some le, uiLastErrorClass = ec\<rparr> db)"
  have eq: "storeJobs deps run jobs le ec w =
    andDo (aqStatement ?f) (\<lambda>_ w2. (Inr (run\<lparr>rnJobs := jobs, rnState := st\<rparr>), w2)) w1"
    by (simp add: storeJobs_def r)
  show thesis
  proof (cases rule: aqStatement_cases [of ?f w1])
    case (Fails e)
    then show ?thesis by (intro that(1) [of e]) (simp_all add: eq andDo_def split_beta w1)
  next
    case (Runs x db)
    then show ?thesis by (intro that(2) [of st]) (simp_all add: eq andDo_def split_beta w1)
  qed
qed

lemma storeJobs_during:
  assumes "during most run i w0 w j ns" and "jobStep most (j, ns) (j', ns)" and "sameLine run run' i"
    and "w' = snd (storeJobs deps run' (replaceJob (rnJobs run') i j') le ec w)"
  shows "during most run i w0 w' j ns \<or> during most run i w0 w' j' ns"
proof (cases rule: storeJobs_cases [of deps run' "replaceJob (rnJobs run') i j'" le ec w])
  case (Fails e)
  then show ?thesis using during_same [OF assms(1)] assms(4) by simp
next
  case (Runs st)
  have "jobsAt (iwDb w) (rnRunUtc run) = Some ((rnJobs run)[i := j])"
    using assms(1) unfolding during_def by (elim conjE)
  then have "rnRunUtc run \<in> set (runKeys (iwDb w))" using jobsAt_None [of "iwDb w" "rnRunUtc run"] by simp
  then have "during most run i w0 w' j' ns"
    using assms Runs
    by (intro during_write [OF assms(1,2), where db = "iwDb w'"])
       (auto simp: jobsAt_updateRun sameLine_def replaceJob_def during_def)
  then show ?thesis by simp
qed

lemma storeJobs_tracked:
  assumes "during most run i w0 w j ns" and "jobStep most (j, ns) (j', ns)" and "sameLine run run' i"
  shows "tracked most run i w0 (snd (storeJobs deps run' (replaceJob (rnJobs run') i j') le ec w))"
  using storeJobs_during [OF assms refl] tracked_now by blast

lemma writeJob_tracked:
  "during most run i w0 w j ns \<Longrightarrow> jobStep most (j, ns) (j', ns) \<Longrightarrow> sameLine run run' i
   \<Longrightarrow> tracked most run i w0 (snd (writeJob deps run' i j' w))"
  unfolding writeJob_def by (rule storeJobs_tracked)

lemma recordTransient_tracked:
  assumes "during most run i w0 w j ns" and "sameLine run run' i" and "Js_failed \<in> set (nextStates (ajState j))"
  shows "tracked most run i w0 (snd (recordTransient deps run' i j why w))"
proof -
  obtain ex w1 where n: "noteAttemptsSpent deps (ajAttempts j + 1) w = (ex, w1)" by fastforce
  have w1: "iwDb w1 = iwDb w" "iwTrace w1 = iwTrace w"
    using noteAttemptsSpent_keeps [of deps "ajAttempts j + 1" w] unfolding n by simp_all
  show ?thesis unfolding recordTransient_def Let_def n prod.case
    by (rule storeJobs_tracked [OF during_same [OF assms(1) w1] _ assms(2)])
       (rule jobStep.Advance; use assms(3) in simp)
qed

lemma terminate_tracked:
  assumes "during most run i w0 w j ns" and "sameLine run run' i" and "st \<in> set (nextStates (ajState j))"
    and "ajKind job = ajKind j" and "ajAttempts j \<le> ajAttempts job"
  shows "tracked most run i w0 (snd (terminate deps run' i job why st ec w))"
  unfolding terminate_def Let_def
  by (rule storeJobs_tracked [where j = j]) (use assms in \<open>auto intro!: jobStep.Advance\<close>)

lemma recordFailure_tracked:
  assumes "during most run i w0 w j ns" and "sameLine run run' i"
    and "{Js_failed, Js_rejected} \<subseteq> set (nextStates (ajState j))"
  shows "tracked most run i w0 (snd (recordFailure deps run' i j out w))"
  unfolding recordFailure_def using assms
  by (auto intro!: recordTransient_tracked terminate_tracked)

section \<open>The steps\<close>

lemma call_tracked:
  assumes "during most run i w0 w job ns" and "sameLine run run' i" and "\<And>res. \<not> isSubmission (note res)"
    and "\<And>out w1. during most run i w0 w1 job (ns @ [note (Inr out)]) \<Longrightarrow> tracked most run i w0 (snd (k out w1))"
  shows "tracked most run i w0 (snd (andDo (callAds deps run' job note opts rq) k w))"
proof (rule andDo_tracked)
  let ?c = "callAds deps run' job note opts rq w"
  have now: "during most run i w0 (snd ?c) job (ns @ [note (fst ?c)])"
    using assms(2) by (intro during_call [OF assms(1) _ refl assms(3)]) (simp add: sameLine_def)
  then show "tracked most run i w0 (snd ?c)" if "fst ?c = Inl e" for e by (rule tracked_now)
  show "tracked most run i w0 (snd (k out (snd ?c)))" if "fst ?c = Inr out" for out
    by (rule assms(4)) (use now that in simp)
qed

lemma plainCall_note [simp]: "\<not> isSubmission (plainCall res)" "\<not> isSubmission (reconcileNote deps run job r2)"
  by (simp_all add: plainCall_def reconcileNote_def isSubmission_def)

lemma orAbort_tracked:
  assumes "during most run i w0 w j ns" and "\<And>x. tracked most run i w0 (snd (k x w))"
  shows "tracked most run i w0 (snd (andDo (orAbort v) k w))"
  by (rule andDo_tracked) (use assms tracked_now in \<open>auto\<close>)

lemma stay_tracked: "during most run i w0 w j ns \<Longrightarrow> tracked most run i w0 (snd (stay run' w))"
  unfolding stay_def snd_conv by (rule tracked_now)

text \<open>A request whose answer is worked on, and any other outcome recorded as a failure.\<close>

lemma answered_tracked:
  assumes "during most run i w0 w job ns" and "\<And>res. \<not> isSubmission (note res)"
    and "{Js_failed, Js_rejected} \<subseteq> set (nextStates (ajState job))"
    and "\<And>v t w1. during most run i w0 w1 job (ns @ [note (Inr (Out_ok v t))]) \<Longrightarrow> tracked most run i w0 (snd (k v w1))"
  shows "tracked most run i w0 (snd (andDo (callAds deps run job note opts rq)
    (\<lambda>out. case out of Out_ok v t \<Rightarrow> k v | _ \<Rightarrow> recordFailure deps run i job out) w))"
proof (rule call_tracked [OF assms(1) sameLine_refl assms(2)])
  fix out w1
  assume now: "during most run i w0 w1 job (ns @ [note (Inr out)])"
  have fail: "tracked most run i w0 (snd (recordFailure deps run i job out w1))"
    by (rule recordFailure_tracked [OF now sameLine_refl assms(3)])
  show "tracked most run i w0 (snd ((case out of Out_ok v t \<Rightarrow> k v | _ \<Rightarrow> recordFailure deps run i job out) w1))"
  proof (cases out)
    case (Out_ok v t)
    then show ?thesis using assms(4) now by simp
  qed (use fail in simp_all)
qed

lemma advance_tracked:
  assumes "during most run i w0 w j ns" and "ajState j' \<in> set (nextStates (ajState j))"
    and "ajAttempts j \<le> ajAttempts j'" and "ajKind j' = ajKind j" and "sameLine run run' i"
  shows "tracked most run i w0 (snd (writeJob deps run' i j' w))"
  by (rule writeJob_tracked [OF assms(1) _ assms(5)]) (use assms(2,3,4) in \<open>auto intro!: jobStep.Advance\<close>)

lemma stepCosting_tracked:
  assumes "during most run i w0 w job ns" and "ajState job = Js_pending"
  shows "tracked most run i w0 (snd (stepCosting deps run i job dl w))"
  unfolding stepCosting_def
proof (rule answered_tracked [OF assms(1) plainCall_note(1)])
  fix v :: adsCosting and t w1
  assume now: "during most run i w0 w1 job (ns @ [plainCall (Inr (Out_ok v t))])"
  have "tracked most run i w0 (snd (writeJob deps run i (job\<lparr>ajState := Js_refused, ajLastError := e\<rparr>)
    (aqCount n w1)))" for e n
    by (rule advance_tracked [where j = job]) (use now assms(2) in auto)
  moreover have "tracked most run i w0 (snd (writeJob deps run i (job\<lparr>ajState := Js_costed, ajLastError := None\<rparr>) w1))"
    by (rule writeJob_tracked [OF now]) (use assms(2) in \<open>auto intro!: jobStep.Cost\<close>)
  ultimately show "tracked most run i w0 (snd ((if acLimit v < acCost v
      then (\<lambda>w. writeJob deps run i (job\<lparr>ajState := Js_refused,
              ajLastError := Some (Ir_cost_over_limit (acCost v) (acLimit v))\<rparr>) (aqCount ''airq.cost_refused'' w))
      else writeJob deps run i (job\<lparr>ajState := Js_costed, ajLastError := None\<rparr>)) w1))"
    by simp
qed (simp add: assms(2))

lemma submit_written_tracked:
  assumes "during most run i w0 w job ns" and "ajState job = Js_costed" and "ajAttempts job < most"
    and "sameLine run run1 i" and "jobsAt (iwDb w1) (rnRunUtc run) =
      Some ((rnJobs run)[i := job\<lparr>ajState := Js_submitting, ajSubmittedAt := Some stamp\<rparr>])"
    and "runKeys (iwDb w1) = runKeys (iwDb w)" and "\<And>v. v \<noteq> rnRunUtc run \<Longrightarrow> jobsAt (iwDb w1) v = jobsAt (iwDb w) v"
    and "iwTrace w1 = iwTrace w"
  shows "during most run i w0 (snd (callAds deps run1 job (\<lambda>_. Submission stamp) opts rq w1))
    (job\<lparr>ajState := Js_submitting, ajSubmittedAt := Some stamp\<rparr>) (ns @ [Submission stamp])"
proof -
  let ?job = "job\<lparr>ajState := Js_submitting, ajSubmittedAt := Some stamp\<rparr>"
  note at = assms(1) [unfolded during_def]
  have k: "ajKind job = ajKind (rnJobs run ! i)" by (rule during_kind [OF assms(1)])
  have "jobStep most (job, ns) (?job, ns @ [Submission stamp])" by (rule jobStep.Submit [OF assms(2,3)])
  then have "jobSteps most (rnJobs run ! i, notesOf (rnRunUtc run) (ajKind (rnJobs run ! i)) (iwTrace w0))
      (?job, ns @ [Submission stamp])"
    using at by (meson rtranclp.rtrancl_into_rtrancl)
  then show ?thesis using at assms(4-8) k
    unfolding during_def callAds_keeps sameLine_def by (auto simp: notesOf_def)
qed

lemma submitFailed_tracked:
  assumes "during most run i w0 w (job\<lparr>ajState := Js_submitting, ajSubmittedAt := Some stamp\<rparr>) ns"
    and "sameLine run run' i"
  shows "tracked most run i w0 (snd (submitFailed deps run' i job stamp why w))"
proof -
  obtain ex w1 where n: "noteAttemptsSpent deps (ajAttempts job + 1) w = (ex, w1)" by fastforce
  have w1: "iwDb w1 = iwDb w" "iwTrace w1 = iwTrace w"
    using noteAttemptsSpent_keeps [of deps "ajAttempts job + 1" w] unfolding n by simp_all
  show ?thesis unfolding submitFailed_def Let_def n prod.case
    by (rule writeJob_tracked [OF during_same [OF assms(1) w1] _ assms(2)])
       (rule jobStep.Advance; simp)
qed

lemma submit_answer_tracked:
  assumes now: "during most run i w0 w (job\<lparr>ajState := Js_submitting, ajSubmittedAt := Some stamp\<rparr>) ns"
    and line: "sameLine run run' i"
  shows "tracked most run i w0 (snd ((case out of
      Out_ok st t \<Rightarrow>
        writeJob deps run' i (job\<lparr>ajState := Js_submitted, ajSubmittedAt := Some stamp,
          ajJobId := Some (jsJobId st), ajAdsCreated := jsCreated st, ajLastError := None\<rparr>)
    | Out_client_error why httpStatus \<Rightarrow>
        (if isLicenceRefusal httpStatus (idReasonText deps rq why)
         then terminate deps run' i job Ir_licence Js_refused Class_refused
         else submitFailed deps run' i job stamp why)
    | _ \<Rightarrow> submitFailed deps run' i job stamp (outcomeReasonOf out)) w))"
proof -
  have "tracked most run i w0 (snd (submitFailed deps run' i job stamp why w))" for why
    by (rule submitFailed_tracked [OF assms])
  moreover have "tracked most run i w0 (snd (terminate deps run' i job Ir_licence Js_refused Class_refused w))"
    by (rule terminate_tracked [OF now line]) simp_all
  moreover have "tracked most run i w0 (snd (writeJob deps run' i (job\<lparr>ajState := Js_submitted, ajSubmittedAt := Some stamp,
      ajJobId := Some (jsJobId st), ajAdsCreated := jsCreated st, ajLastError := None\<rparr>) w))" for st
    by (rule advance_tracked [OF now _ _ _ line]) simp_all
  ultimately show ?thesis by (cases out) simp_all
qed

lemma stepSubmit_tracked:
  assumes "during most run i w0 w job ns" and "ajState job = Js_costed" and "ajAttempts job < most"
  shows "tracked most run i w0 (snd (stepSubmit deps run i job dl w))"
proof -
  let ?stamp = "toISOString (aqNow w)"
  let ?job = "job\<lparr>ajState := Js_submitting, ajSubmittedAt := Some ?stamp\<rparr>"
  let ?jobs = "replaceJob (rnJobs run) i ?job"
  note at = assms(1) [unfolded during_def]
  have key: "rnRunUtc run \<in> set (runKeys (iwDb w))"
    using at jobsAt_None [of "iwDb w" "rnRunUtc run"] by simp
  show ?thesis unfolding stepSubmit_def Let_def
  proof (rule andDo_tracked)
    fix e assume failed: "fst (writeJob deps run i ?job w) = Inl e"
    show "tracked most run i w0 (snd (writeJob deps run i ?job w))"
    proof (cases rule: storeJobs_cases [of deps run ?jobs "ajLastError ?job" None w])
      case (Fails e')
      then show ?thesis unfolding writeJob_def by (intro tracked_now [OF during_same [OF assms(1)]]) simp_all
    next
      case (Runs st)
      then show ?thesis using failed by (simp add: writeJob_def)
    qed
  next
    fix run1 assume wrote: "fst (writeJob deps run i ?job w) = Inr run1"
    let ?w1 = "snd (writeJob deps run i ?job w)"
    obtain st where st: "run1 = run\<lparr>rnJobs := ?jobs, rnState := st\<rparr>"
        "iwDb ?w1 = updateRun \<lparr>uiRunUtc = rnRunUtc run, uiJobs = ?jobs, uiState = st,
           uiLastError = Some (ajLastError job), uiLastErrorClass = None\<rparr> (iwDb w)"
        "iwTrace ?w1 = iwTrace w"
    proof (cases rule: storeJobs_cases [of deps run ?jobs "ajLastError ?job" None w])
      case (Fails e)
      then show ?thesis using wrote by (simp add: writeJob_def)
    next
      case (Runs st)
      then show ?thesis using wrote by (intro that [of st]) (simp_all add: writeJob_def)
    qed
    have line: "sameLine run run1 i" by (simp add: sameLine_def st(1) replaceJob_def)
    have written: "during most run i w0 (snd (callAds deps run1 job (\<lambda>_. Submission ?stamp) opts rq ?w1))
        ?job (ns @ [Submission ?stamp])" for opts :: "'b upstreamRequestOptions" and rq
      by (rule submit_written_tracked [OF assms line])
         (simp_all add: st(2,3) jobsAt_updateRun key replaceJob_def)
    show "tracked most run i w0 (snd (andDo (callAds deps run1 job (\<lambda>_. Submission ?stamp)
          (baseOptions deps dl False (\<lambda>body. parseJobStatus (idPlatform deps) body ''execution''))
          (adsRequestTo deps ''POST'' (executionUrl (adsConfig deps)) (Some (jobInputs job))))
        (\<lambda>out. case out of
           Out_ok st t \<Rightarrow>
             writeJob deps run1 i (job\<lparr>ajState := Js_submitted, ajSubmittedAt := Some ?stamp,
               ajJobId := Some (jsJobId st), ajAdsCreated := jsCreated st, ajLastError := None\<rparr>)
         | Out_client_error why httpStatus \<Rightarrow>
             (if isLicenceRefusal httpStatus (idReasonText deps
                  (adsRequestTo deps ''POST'' (executionUrl (adsConfig deps)) (Some (jobInputs job))) why)
              then terminate deps run1 i job Ir_licence Js_refused Class_refused
              else submitFailed deps run1 i job ?stamp why)
         | _ \<Rightarrow> submitFailed deps run1 i job ?stamp (outcomeReasonOf out)) ?w1))"
      by (rule andDo_tracked; (rule tracked_now [OF written] | rule submit_answer_tracked [OF written line]))
  qed
qed

lemma list3_cases:
  obtains "xs = []" | x where "xs = [x]" | a b cs where "xs = a # b # cs"
  by (cases xs; cases "tl xs") auto

lemma stepReconcile_tracked:
  assumes "during most run i w0 w job ns" and "ajState job = Js_submitting"
  shows "tracked most run i w0 (snd (stepReconcile deps run i job dl w))"
  unfolding stepReconcile_def
proof (rule answered_tracked [OF assms(1) plainCall_note(2)])
  fix entries t w1
  let ?n = "reconcileNote deps run job (Inr (Out_ok entries t))"
  assume now: "during most run i w0 w1 job (ns @ [?n])"
  show "tracked most run i w0 (snd ((case reconcileCandidates deps run job entries of
      [] \<Rightarrow> (\<lambda>w. let (exhausted, w1) = noteAttemptsSpent deps (ajAttempts job + 1) w
             in writeJob deps run i (job\<lparr>ajState := (if exhausted then Js_failed else Js_costed),
                  ajAttempts := ajAttempts job + 1, ajSubmittedAt := None\<rparr>) w1)
    | [adopted] \<Rightarrow> writeJob deps run i
          (job\<lparr>ajState := (if leStatus adopted = ascii ''successful'' then Js_downloadable else Js_submitted),
              ajJobId := Some (leJobId adopted), ajAdsCreated := leCreated adopted, ajLastError := None\<rparr>)
    | candidates \<Rightarrow> (\<lambda>w. let (exhausted, w1) = noteAttemptsSpent deps (ajAttempts job + 1)
                           (aqCount ''airq.reconcile_ambiguous'' w)
         in writeJob deps run i (job\<lparr>ajState := (if exhausted then Js_failed else ajState job),
              ajAttempts := ajAttempts job + 1, ajLastError := Some (Ir_ambiguous (length candidates))\<rparr>) w1)) w1))"
    (is "tracked _ _ _ _ (snd (?answer w1))")
  proof (cases "reconcileCandidates deps run job entries" rule: list3_cases)
    case none: 1
    obtain ex w2 where n: "noteAttemptsSpent deps (ajAttempts job + 1) w1 = (ex, w2)" by fastforce
    have w2: "iwDb w2 = iwDb w1" "iwTrace w2 = iwTrace w1"
      using noteAttemptsSpent_keeps [of deps "ajAttempts job + 1" w1] unfolding n by simp_all
    let ?j = "job\<lparr>ajState := (if ex then Js_failed else Js_costed), ajAttempts := ajAttempts job + 1, ajSubmittedAt := None\<rparr>"
    have "jobStep most (job, ns @ [?n]) (?j, ns @ [?n])"
    proof (cases ex)
      case True
      then show ?thesis by (intro jobStep.Advance) (simp_all add: assms(2))
    next
      case False
      then show ?thesis by (intro jobStep.Reopen) (simp_all add: assms(2) reconcileNote_def none)
    qed
    from writeJob_tracked [OF during_same [OF now w2] this sameLine_refl] show ?thesis by (simp only: none list.case Let_def n prod.case)
  next
    case one: (2 adopted)
    have "tracked most run i w0 (snd (writeJob deps run i
        (job\<lparr>ajState := (if leStatus adopted = ascii ''successful'' then Js_downloadable else Js_submitted),
            ajJobId := Some (leJobId adopted), ajAdsCreated := leCreated adopted, ajLastError := None\<rparr>) w1))"
      by (rule advance_tracked [OF now]) (simp_all add: assms(2))
    then show ?thesis by (simp add: one)
  next
    case many: (3 a b cs)
    let ?wc = "aqCount ''airq.reconcile_ambiguous'' w1"
    obtain ex w2 where n: "noteAttemptsSpent deps (ajAttempts job + 1) ?wc = (ex, w2)" by fastforce
    have w2: "iwDb w2 = iwDb w1" "iwTrace w2 = iwTrace w1"
      using noteAttemptsSpent_keeps [of deps "ajAttempts job + 1" ?wc] unfolding n by simp_all
    let ?j = "job\<lparr>ajState := (if ex then Js_failed else ajState job), ajAttempts := ajAttempts job + 1,
      ajLastError := Some (Ir_ambiguous (length (a # b # cs)))\<rparr>"
    have "jobStep most (job, ns @ [?n]) (?j, ns @ [?n])"
      by (rule jobStep.Advance) (simp_all add: assms(2))
    from writeJob_tracked [OF during_same [OF now w2] this sameLine_refl] show ?thesis by (simp only: many list.case Let_def n prod.case)
  qed
qed (simp add: assms(2))

lemma stepPoll_tracked:
  assumes "during most run i w0 w job ns" and "ajState job = Js_submitted \<or> ajState job = Js_running"
  shows "tracked most run i w0 (snd (stepPoll deps run i job dl w))"
proof (cases "ajJobId job")
  case None
  then show ?thesis using stay_tracked [OF assms(1)] by (simp add: stepPoll_def)
next
  case (Some jobId)
  have failing: "{Js_failed, Js_rejected} \<subseteq> set (nextStates (ajState job))" using assms(2) by auto
  show ?thesis unfolding stepPoll_def Some option.case
  proof (rule orAbort_tracked [OF assms(1)], rule answered_tracked [OF assms(1) plainCall_note(1) failing])
    fix url v t w1
    assume now: "during most run i w0 w1 job (ns @ [plainCall (Inr (Out_ok (v :: adsJobStatus) t))])"
    let ?stamped = "job\<lparr>ajAdsCreated := jsCreated v, ajAdsStarted := jsStarted v, ajAdsFinished := jsFinished v\<rparr>"
    have stop: "tracked most run i w0 (snd (terminate deps run i ?stamped why st ec (aqCount n w1)))"
      if "st \<in> {Js_failed, Js_rejected}" for why st ec n
      by (rule terminate_tracked [where j = job and ns = "ns @ [plainCall (Inr (Out_ok v t))]"])
         (use now that assms(2) in auto)
    have wrote: "tracked most run i w0 (snd (writeJob deps run i (?stamped\<lparr>ajState := st\<rparr>) w1))"
      if "st \<in> {Js_downloadable, Js_submitted, Js_running}" for st
    proof -
      have "jobStep most (job, ns @ [plainCall (Inr (Out_ok v t))])
          (?stamped\<lparr>ajState := st\<rparr>, ns @ [plainCall (Inr (Out_ok v t))])"
        by (rule jobStep.Advance) (use that assms(2) in auto)
      from writeJob_tracked [OF now this sameLine_refl] show ?thesis .
    qed
    show "tracked most run i w0 (snd ((let stamped = ?stamped
       in if jsStatus v = ascii ''successful'' then writeJob deps run i (stamped\<lparr>ajState := Js_downloadable\<rparr>)
          else if isTerminalProviderStatus (jsStatus v)
          then (\<lambda>w. terminate deps run i stamped (Ir_provider_ended (jsStatus v)) Js_rejected Class_upstream
                 (aqCount ''airq.provider_refusal'' w))
          else if jsStatus v = ascii ''failed''
          then (\<lambda>w. terminate deps run i stamped Ir_provider_failed Js_failed Class_upstream
                 (aqCount ''airq.provider_failed'' w))
          else writeJob deps run i
            (stamped\<lparr>ajState := (if jsStatus v = ascii ''running'' then Js_running else Js_submitted)\<rparr>)) w1))"
      using stop wrote by (simp add: Let_def)
  qed
qed

lemma stepResults_tracked:
  assumes "during most run i w0 w job ns" and "ajState job = Js_downloadable"
  shows "tracked most run i w0 (snd (stepResults deps run i job dl w))"
proof (cases "ajJobId job")
  case None
  then show ?thesis using stay_tracked [OF assms(1)] by (simp add: stepResults_def)
next
  case (Some jobId)
  have failing: "{Js_failed, Js_rejected} \<subseteq> set (nextStates (ajState job))" using assms(2) by auto
  show ?thesis unfolding stepResults_def Some option.case
  proof (rule orAbort_tracked [OF assms(1)], rule answered_tracked [OF assms(1) plainCall_note(1) failing])
    fix url v t w1
    assume now: "during most run i w0 w1 job (ns @ [plainCall (Inr (Out_ok (v :: adsResultAsset) t))])"
    have stop: "tracked most run i w0 (snd (terminate deps run i job why Js_refused ec (aqCount n w1)))" for why ec n
      by (rule terminate_tracked [where j = job and ns = "ns @ [plainCall (Inr (Out_ok v t))]"])
         (use now assms(2) in auto)
    have wrote: "tracked most run i w0 (snd (writeJob deps run i (job\<lparr>ajState := Js_ready, ajLastError := None,
        ajResult := Some a\<rparr>) w1))" for a
      by (rule advance_tracked [OF now]) (simp_all add: assms(2))
    show "tracked most run i w0 (snd ((case assertAllowedDownloadHost (idPlatform deps) (raHref v)
           (adObjectStoreHosts (adsConfig deps)) of
         Inl e \<Rightarrow> (\<lambda>w. terminate deps run i job (Ir_href e) Js_refused Class_refused
                    (aqCount ''airq.download_host_refused'' w))
       | Inr target \<Rightarrow>
          (if of_nat (adRunMaxBytes (adsConfig deps)) < raSizeBytes v
           then (\<lambda>w. terminate deps run i job
                  (Ir_declared_size (raSizeBytes v) (adRunMaxBytes (adsConfig deps))) Js_refused
                  Class_refused (aqCount ''airq.size_refused'' w))
           else writeJob deps run i (job\<lparr>ajState := Js_ready, ajLastError := None,
                  ajResult := Some (v\<lparr>raHref := urlText target\<rparr>)\<rparr>))) w1))"
      using stop wrote by (simp split: sum.split)
  qed
qed

section \<open>Storing\<close>

lemma jobsAt_pruneRuns:
  assumes "distinct (runKeys db)" and "pruneRuns keep db = (n, db')"
  shows "distinct (runKeys db')" "jobsAt db' v = jobsAt db v \<or> jobsAt db' v = None \<and> (\<exists>u \<in> set (runKeys db). v < u)"
    "\<forall>u \<in> set (runKeys db). u \<le> v \<Longrightarrow> jobsAt db' v = jobsAt db v"
proof -
  define keepRows where "keepRows = take keep (rev (sort_key rnRunUtc (itRuns db)))"
  define cutoff where "cutoff = rnRunUtc (last keepRows)"
  have sub: "set keepRows \<subseteq> set (itRuns db)"
    unfolding keepRows_def by (metis set_take_subset set_rev set_sort)
  have find: "find (\<lambda>r. rnRunUtc r = v) (filter (\<lambda>r. \<not> rnRunUtc r < cutoff) rs) =
    (if v < cutoff then None else find (\<lambda>r. rnRunUtc r = v) rs)" for rs
    by (induction rs) auto
  have db': "db' = db \<or> keepRows \<noteq> [] \<and> itRuns db' = filter (\<lambda>r. \<not> rnRunUtc r < cutoff) (itRuns db)"
    using assms(2) by (auto simp: pruneRuns_def keepRows_def cutoff_def Let_def split: if_splits)
  then have at: "jobsAt db' v = jobsAt db v \<or> jobsAt db' v = None \<and> v < cutoff \<and> keepRows \<noteq> []"
    using find [of "itRuns db"] by (cases "v < cutoff") (auto simp: jobsAt_def getRun_def)
  have cut: "cutoff \<in> set (runKeys db)" if "keepRows \<noteq> []"
    using subsetD [OF sub last_in_set [OF that]] by (simp add: cutoff_def runKeys_def)
  from at cut show "jobsAt db' v = jobsAt db v \<or> jobsAt db' v = None \<and> (\<exists>u \<in> set (runKeys db). v < u)" by blast
  from at cut show "jobsAt db' v = jobsAt db v" if "\<forall>u \<in> set (runKeys db). u \<le> v" using that by force
  show "distinct (runKeys db')"
    using db' assms(1) by (auto simp: runKeys_def distinct_map_filter)
qed

lemma recordProduct_at:
  assumes "recordProduct inp db = Some db'"
  shows "runKeys db' = runKeys db"
    "jobsAt db' v = (if v = piRunUtc inp \<and> v \<in> set (runKeys db) then Some (piJobs inp) else jobsAt db v)"
proof -
  define f where "f r = (case piKind inp of
      Forecast_job \<Rightarrow>
        r\<lparr>rnState := piState inp, rnJobs := piJobs inp, rnBytesDownloaded := piBytesDownloaded inp,
          rnCompletedAt := Some (piNow inp), rnForecastHours := piHours inp\<rparr>
    | Analysis_job \<Rightarrow>
        r\<lparr>rnState := piState inp, rnJobs := piJobs inp, rnBytesDownloaded := piBytesDownloaded inp,
          rnAnalysisHours := piHours inp\<rparr>)" for r :: airQualityRun
  define db1 where "db1 = db\<lparr>itSeries := productRows inp (itSeries db)\<rparr>"
  have f: "rnRunUtc (f r) = rnRunUtc r" "rnJobs (f r) = piJobs inp" for r
    by (cases "piKind inp"; simp add: f_def)+
  have db': "db' = onRun (piRunUtc inp) f db1"
    using assms by (simp add: recordProduct_def db1_def f_def [abs_def] split: if_splits)
  have db1: "runKeys db1 = runKeys db" "jobsAt db1 u = jobsAt db u" "getRun u db1 = getRun u db" for u
    by (simp_all add: db1_def runKeys_def jobsAt_def getRun_def)
  show "runKeys db' = runKeys db" by (simp add: db' runKeys_onRun f(1) db1(1))
  show "jobsAt db' v = (if v = piRunUtc inp \<and> v \<in> set (runKeys db) then Some (piJobs inp) else jobsAt db v)"
    using getRun_None [of v db] jobsAt_None [of db v]
    by (cases "getRun (piRunUtc inp) db") (auto simp: db' jobsAt_onRun f db1)
qed

lemma during_keys:
  assumes "during most run i w0 w j ns" and "\<forall>v \<in> set (runKeys (iwDb w0)). v \<le> rnRunUtc run"
  shows "\<forall>v \<in> set (runKeys (iwDb w)). v \<le> rnRunUtc run"
proof
  fix v assume "v \<in> set (runKeys (iwDb w))"
  then have "v = rnRunUtc run \<or> jobsAt (iwDb w0) v \<noteq> None"
    using assms(1) jobsAt_None [of "iwDb w" v] unfolding during_def by metis
  then show "v \<le> rnRunUtc run" using assms(2) jobsAt_None by auto
qed

lemma failed_during:
  assumes "during most run i w0 w j ns" and "fst (aqStatement f w) = Inl e"
  shows "during most run i w0 (snd (aqStatement f w)) j ns"
proof (cases rule: aqStatement_cases [of f w])
  case (Fails e')
  show ?thesis by (rule during_same [OF assms(1) Fails(2,3)])
qed (use assms(2) in simp)

lemma storeProduct_tracked:
  assumes "during most run i w0 w job ns" and "ajState job = Js_ready"
    and newest: "\<forall>v \<in> set (runKeys (iwDb w0)). v \<le> rnRunUtc run"
  shows "tracked most run i w0 (snd (storeProduct deps run i job bytes d rows w))"
proof -
  let ?job = "job\<lparr>ajState := Js_stored, ajLastError := None\<rparr>"
  let ?jobs = "replaceJob (rnJobs run) i ?job"
  obtain st w1 where r: "rollupLoudly deps run ?jobs w = (st, w1)" by fastforce
  have "iwDb w1 = iwDb w" "iwTrace w1 = iwTrace w"
    using rollupLoudly_keeps [of deps run ?jobs w] unfolding r by simp_all
  note at1 = during_same [OF assms(1) this]
  have step: "jobStep most (job, ns) (?job, ns)" by (rule jobStep.Advance) (simp_all add: assms(2))
  let ?inp = "\<lparr>piRunUtc = rnRunUtc run, piKind = ajKind job,
      piHours = (if ajKind job = Forecast_job then rnForecastHours run else int (length (timeHours d))),
      piProvinces = rows, piBytesDownloaded = rnBytesDownloaded run + bytes, piJobs = ?jobs, piState = st,
      piNow = aqNow w1\<rparr>"
  let ?f = "\<lambda>db. map_option (Pair ()) (recordProduct ?inp db)"
  let ?p = "\<lambda>db. Some (pruneRuns RETAINED_RUNS db)"
  have recorded: "during most run i w0 (snd (aqStatement ?f w1)) ?job ns" if "fst (aqStatement ?f w1) = Inr x" for x
  proof (cases rule: aqStatement_cases [of ?f w1])
    case (Runs y db)
    then have db: "recordProduct ?inp (iwDb w1) = Some db" by auto
    have at: "jobsAt (iwDb w1) (rnRunUtc run) \<noteq> None" "distinct (runKeys (iwDb w1))"
      using at1 unfolding during_def by simp_all
    show ?thesis
      by (rule during_write [OF at1 step _ _ _ Runs(3,4)])
         (use at jobsAt_None in \<open>simp_all add: recordProduct_at [OF db] replaceJob_def\<close>)
  qed (use that in simp)
  have pruned: "tracked most run i w0 (snd ((if b then andDo (aqStatement ?p) (\<lambda>_. stay run1) else stay run1) w2))"
    if now: "during most run i w0 w2 ?job ns" for b run1 w2
  proof -
    have "during most run i w0 (snd (aqStatement ?p w2)) ?job ns"
    proof (cases rule: aqStatement_cases [of ?p w2])
      case (Fails e)
      then show ?thesis using during_same [OF now] by simp
    next
      case (Runs n db)
      then have db: "pruneRuns RETAINED_RUNS (iwDb w2) = (n, db)" by simp
      have keys: "distinct (runKeys (iwDb w2))" "jobsAt (iwDb w2) (rnRunUtc run) = Some ((rnJobs run)[i := ?job])"
        using now unfolding during_def by simp_all
      note top = during_keys [OF now newest]
      have same: "jobStep most (?job, ns) (?job, ns)" by (rule jobStep.Advance) simp_all
      show ?thesis
      proof (rule during_write [OF now same _ _ _ Runs(3,4)])
        show "jobsAt db (rnRunUtc run) = Some ((rnJobs run)[i := ?job])"
          using jobsAt_pruneRuns(3) [OF keys(1) db top] keys(2) by simp
        show "jobsAt db v = jobsAt (iwDb w2) v \<or> jobsAt db v = None \<and> v < rnRunUtc run" for v
          using jobsAt_pruneRuns(2) [OF keys(1) db, of v] top by fastforce
      qed (rule jobsAt_pruneRuns(1) [OF keys(1) db])
    qed
    then have "tracked most run i w0 (snd (andDo (aqStatement ?p) (\<lambda>_. stay run1) w2))"
      by (intro andDo_tracked) (simp_all add: stay_tracked tracked_now)
    then show ?thesis using stay_tracked [OF now] by simp
  qed
  show ?thesis unfolding storeProduct_def Let_def r prod.case
  proof (rule andDo_tracked)
    show "tracked most run i w0 (snd (aqStatement ?f w1))" if "fst (aqStatement ?f w1) = Inl e" for e
      by (rule tracked_now [OF failed_during [OF at1 that]])
    show "tracked most run i w0 (snd ((if ajKind job = Forecast_job
           then andDo (aqStatement ?p) (\<lambda>_. stay (run\<lparr>rnJobs := ?jobs, rnState := st\<rparr>))
           else stay (run\<lparr>rnJobs := ?jobs, rnState := st\<rparr>)) (snd (aqStatement ?f w1))))"
      if "fst (aqStatement ?f w1) = Inr x" for x
      by (rule pruned [OF recorded [OF that]])
  qed
qed

lemma guardAnalysis_tracked:
  assumes now: "during most run i w0 w job ns" and ready: "ajState job = Js_ready"
    and keep: "\<And>w'. during most run i w0 w' job ns \<Longrightarrow> tracked most run i w0 (snd (keep w'))"
  shows "tracked most run i w0 (snd (guardAnalysis deps run i job rows keep w))"
proof (cases "ajKind job = Analysis_job")
  case True
  let ?f = "\<lambda>db. Some (gridCellsFor (rnRunUtc run) db, db)"
  have after: "during most run i w0 (snd (aqStatement ?f w)) job ns"
    by (cases rule: aqStatement_cases [of ?f w]) (use during_same [OF now] in auto)
  have stop: "tracked most run i w0 (snd (terminate deps run i job why st ec (aqCount n (snd (aqStatement ?f w)))))"
    if "st \<in> {Js_refused, Js_rejected}" for why st ec n
    by (rule terminate_tracked [where j = job and ns = ns]) (use after that ready in auto)
  show ?thesis unfolding guardAnalysis_def True simp_thms if_False
    by (rule andDo_tracked) (use tracked_now [OF after] keep [OF after] stop in \<open>simp_all add: Let_def\<close>)
qed (use keep [OF now] in \<open>simp add: guardAnalysis_def\<close>)

lemma loadLocated_keeps [simp]:
  "iwDb (snd (loadLocated deps w)) = iwDb w" "iwTrace (snd (loadLocated deps w)) = iwTrace w"
  by (auto simp: loadLocated_def split: sum.split)

lemma decodeAndStore_tracked:
  assumes now: "during most run i w0 w job ns" and ready: "ajState job = Js_ready"
    and newest: "\<forall>v \<in> set (runKeys (iwDb w0)). v \<le> rnRunUtc run"
  shows "tracked most run i w0 (snd (decodeAndStore deps run i job archive w))"
proof -
  have now': "during most run i w0 (snd (loadLocated deps w)) job ns" by (rule during_same [OF now]) simp_all
  have stop: "tracked most run i w0 (snd (terminate deps run i job why Js_rejected ec (aqCount n w')))"
    if "during most run i w0 w' job ns" for why ec n w'
    by (rule terminate_tracked [where j = job and ns = ns]) (use that ready in simp_all)
  have decoded: "tracked most run i w0 (snd ((let expected = expectedStepCount (rnForecastHours run) (ajKind job)
       in if int (length (timeHours d)) \<noteq> expected
          then (\<lambda>w. terminate deps run i job (Ir_step_count (length (timeHours d)) expected) Js_rejected
                 Class_contract (aqCount ''airq.step_count_mismatch'' w))
          else guardAnalysis deps run i job (rowsFor ps d)
                 (storeProduct deps run i job (length archive) d (rowsFor ps d))) (snd (loadLocated deps w))))" for ps d
    using stop [OF now'] guardAnalysis_tracked [OF now' ready storeProduct_tracked [OF _ ready newest]]
    by (simp add: Let_def)
  show ?thesis unfolding decodeAndStore_def
    by (rule andDo_tracked)
       (use tracked_now [OF now'] stay_tracked [OF now'] stop [OF now'] decoded in
         \<open>simp_all split: option.split sum.split\<close>)
qed

lemma stepDownload_tracked:
  assumes now: "during most run i w0 w job ns" and ready: "ajState job = Js_ready"
    and newest: "\<forall>v \<in> set (runKeys (iwDb w0)). v \<le> rnRunUtc run"
  shows "tracked most run i w0 (snd (stepDownload deps run i job dl w))"
proof (cases "ajResult job")
  case None
  then show ?thesis using advance_tracked [OF now, of "job\<lparr>ajState := Js_downloadable\<rparr>"] ready
    by (simp add: stepDownload_def)
next
  case (Some asset)
  have failing: "{Js_failed, Js_rejected} \<subseteq> set (nextStates (ajState job))" using ready by auto
  show ?thesis unfolding stepDownload_def Some option.case
  proof (rule answered_tracked [OF now plainCall_note(1) failing])
    fix v :: "byte list" and t w1
    assume now1: "during most run i w0 w1 job (ns @ [plainCall (Inr (Out_ok v t))])"
    show "tracked most run i w0 (snd ((let md5 = idMd5 deps v
        in if map lowerAscii md5 \<noteq> map lowerAscii (raChecksum asset)
           then recordTransient deps run i job (Ir_checksum md5)
           else decodeAndStore deps run i job v) w1))"
      using recordTransient_tracked [OF now1 sameLine_refl] decodeAndStore_tracked [OF now1 ready newest] failing
      by (simp add: Let_def)
  qed
qed

lemma cleanupJob_tracked:
  assumes now: "during most run i w0 w (rnJobs run ! i) ns"
  shows "tracked most run i w0 (snd (cleanupJob deps run i dl w))"
proof (cases "ajJobId (rnJobs run ! i)")
  case None
  then show ?thesis using stay_tracked [OF now] by (simp add: cleanupJob_def Let_def)
next
  case (Some jobId)
  have wrote: "tracked most run i w0 (snd (writeJob deps run i ((rnJobs run ! i)\<lparr>ajCleanupAt := c\<rparr>) w'))"
    if "during most run i w0 w' (rnJobs run ! i) ns'" for c w' ns'
    by (rule writeJob_tracked [OF that _ sameLine_refl]) (rule jobStep.Advance; simp)
  have called: "tracked most run i w0 (snd (andDo (orAbort (jobUrl (adsConfig deps) jobId)) (\<lambda>url.
       andDo (callAds deps run (rnJobs run ! i) plainCall (baseOptions deps dl True (parseJobDismissal (idPlatform deps)))
                (adsRequestTo deps ''DELETE'' url None)) (\<lambda>out w.
         let w1 = (if kind_of out = K_ok then w else aqCount ''airq.cleanup_unconfirmed'' w)
         in writeJob deps run i ((rnJobs run ! i)\<lparr>ajCleanupAt := Some (toISOString (aqNow w1))\<rparr>) w1)) w))"
    by (rule orAbort_tracked [OF now], rule call_tracked [OF now sameLine_refl plainCall_note(1)])
       (auto simp: Let_def intro!: wrote)
  show ?thesis
    using called stay_tracked [OF now] by (simp add: cleanupJob_def Some Let_def)
qed

lemma advanceJob_tracked:
  assumes now: "during most run i w0 w (rnJobs run ! i) ns" and "ajAttempts (rnJobs run ! i) < most"
    and newest: "\<forall>v \<in> set (runKeys (iwDb w0)). v \<le> rnRunUtc run"
  shows "tracked most run i w0 (snd (advanceJob deps run i dl w))"
  unfolding advanceJob_def Let_def
  using stay_tracked [OF now] stepCosting_tracked [OF now] stepSubmit_tracked [OF now _ assms(2)]
    stepReconcile_tracked [OF now] stepPoll_tracked [OF now] stepResults_tracked [OF now]
    stepDownload_tracked [OF now _ newest]
  by (cases "ajState (rnJobs run ! i)") simp_all

section \<open>Tours refine the life of every job\<close>

definition lives :: "nat \<Rightarrow> 'r ingestAqWorld \<Rightarrow> 'r ingestAqWorld \<Rightarrow> bool" where
  "lives most w w' \<longleftrightarrow> ledgerOk w' \<and> (\<forall>u k. lifeSteps most (lifeOf u k w) (lifeOf u k w'))"

lemma lives_trans: "lives most w1 w2 \<Longrightarrow> lives most w2 w3 \<Longrightarrow> lives most w1 w3"
  unfolding lives_def by (meson rtranclp_trans)

lemma ledger_kinds:
  "ledgerOk w \<Longrightarrow> jobsAt (iwDb w) u = Some js \<Longrightarrow> distinct (map ajKind js)"
  using getRun_Some by (fastforce simp: ledgerOk_def jobsAt_def)

lemma ledgerOkI:
  assumes "distinct (runKeys (iwDb w))"
    and kinds: "\<And>u js. jobsAt (iwDb w) u = Some js \<Longrightarrow> distinct (map ajKind js)"
    and "\<And>e. e \<in> set (iwTrace w) \<Longrightarrow> \<exists>v \<in> set (runKeys (iwDb w)). teRunUtc e \<le> v"
  shows "ledgerOk w"
  using assms(1,3) kinds getRun_member [OF assms(1)] unfolding ledgerOk_def jobsAt_def by fastforce

lemma lifeOf_same:
  assumes "jobOf u k (iwDb w') = jobOf u k (iwDb w)" and "notesOf u k (iwTrace w') = notesOf u k (iwTrace w)"
    and "(\<exists>v \<in> set (runKeys (iwDb w')). u \<le> v) \<longleftrightarrow> (\<exists>v \<in> set (runKeys (iwDb w)). u \<le> v)"
  shows "lifeOf u k w' = lifeOf u k w"
  unfolding lifeOf_def assms ..

lemma keys_of_jobs: "set (runKeys db) = {u. jobsAt db u \<noteq> None}"
  by (auto simp: jobsAt_None)

lemma lives_same:
  assumes "ledgerOk w" and "distinct (runKeys (iwDb w'))" and "\<And>u. jobsAt (iwDb w') u = jobsAt (iwDb w) u"
    and "iwTrace w' = iwTrace w"
  shows "lives most w w'"
proof -
  have keys: "set (runKeys (iwDb w')) = set (runKeys (iwDb w))" by (simp add: keys_of_jobs assms(3))
  have "ledgerOk w'"
    using assms(1,2,3,4) ledger_kinds [OF assms(1)] keys
    by (intro ledgerOkI) (simp_all add: ledgerOk_def)
  moreover have "lifeOf u k w' = lifeOf u k w" for u k
    by (rule lifeOf_same) (simp_all add: assms(3,4) keys jobOf_def)
  ultimately show ?thesis by (simp add: lives_def)
qed

lemma find_kind:
  assumes "distinct (map ajKind js)" and "i < length js"
  shows "find (\<lambda>j. ajKind j = ajKind (js ! i)) js = Some (js ! i)"
  using assms
proof (induction js arbitrary: i)
  case (Cons j js)
  then show ?case by (cases i) auto
qed simp

lemma find_other_kind:
  "k \<noteq> ajKind (js ! i) \<Longrightarrow> ajKind j' = ajKind (js ! i)
   \<Longrightarrow> find (\<lambda>j. ajKind j = k) (js[i := j']) = find (\<lambda>j. ajKind j = k) js"
proof (induction js arbitrary: i)
  case (Cons j js)
  then show ?case by (cases i) auto
qed simp

lemma kinds_update: "i < length js \<Longrightarrow> ajKind j' = ajKind (js ! i) \<Longrightarrow> map ajKind (js[i := j']) = map ajKind js"
  by (simp add: map_update list_update_same_conv)

lemma tracked_lives:
  assumes "tracked most run i w0 w" and ok: "ledgerOk w0" and i: "i < length (rnJobs run)"
    and here: "jobsAt (iwDb w0) (rnRunUtc run) = Some (rnJobs run)"
    and newest: "\<forall>v \<in> set (runKeys (iwDb w0)). v \<le> rnRunUtc run"
  shows "lives most w0 w"
proof -
  let ?u = "rnRunUtc run" and ?k = "ajKind (rnJobs run ! i)"
  obtain j ns where at: "during most run i w0 w j ns" using assms(1) unfolding tracked_def by blast
  then obtain es where steps: "jobSteps most (rnJobs run ! i, notesOf ?u ?k (iwTrace w0)) (j, notesOf ?u ?k (iwTrace w))"
    and now: "jobsAt (iwDb w) ?u = Some ((rnJobs run)[i := j])" and keys: "distinct (runKeys (iwDb w))"
    and others: "\<And>v. v \<noteq> ?u \<Longrightarrow> jobsAt (iwDb w) v = jobsAt (iwDb w0) v \<or> jobsAt (iwDb w) v = None \<and> v < ?u"
    and es: "iwTrace w = iwTrace w0 @ es" "\<forall>e \<in> set es. teRunUtc e = ?u \<and> teKind e = ?k"
    unfolding during_def by blast
  have kind: "ajKind j = ?k" by (rule during_kind [OF at])
  have distinct: "distinct (map ajKind (rnJobs run))" by (rule ledger_kinds [OF ok here])
  have top: "\<forall>v \<in> set (runKeys (iwDb w)). v \<le> ?u" by (rule during_keys [OF at newest])
  have in0: "?u \<in> set (runKeys (iwDb w0))" and in1: "?u \<in> set (runKeys (iwDb w))"
    using here now by (simp_all add: keys_of_jobs)
  have "ledgerOk w"
  proof (rule ledgerOkI [OF keys])
    show "distinct (map ajKind js)" if "jobsAt (iwDb w) v = Some js" for v js
    proof (cases "v = ?u")
      case True
      then show ?thesis using that now distinct kinds_update [OF i kind] by simp
    next
      case False
      then show ?thesis using others [OF False] ledger_kinds [OF ok] that by auto
    qed
    show "\<exists>v \<in> set (runKeys (iwDb w)). teRunUtc e \<le> v" if "e \<in> set (iwTrace w)" for e
    proof (rule bexI [OF _ in1])
      show "teRunUtc e \<le> ?u" using that es ok newest unfolding ledgerOk_def by fastforce
    qed
  qed
  moreover have "lifeSteps most (lifeOf v k w0) (lifeOf v k w)" for v k
  proof (cases "v = ?u")
    case True
    show ?thesis
    proof (cases "k = ?k")
      case same: True
      have "lifeOf v k w0 = Live (rnJobs run ! i) (notesOf ?u ?k (iwTrace w0))"
        by (simp add: lifeOf_def jobOf_def True here same find_kind [OF distinct i])
      moreover have "lifeOf v k w = Live j (notesOf ?u ?k (iwTrace w))"
        using find_kind [of "(rnJobs run)[i := j]" i] i distinct kind
        by (simp add: lifeOf_def jobOf_def True now same kinds_update [OF i kind])
      ultimately show ?thesis using lifeSteps_worked [OF steps] by simp
    next
      case False
      then have "notesOf v k es = []" using es(2) by (intro notesOf_none) auto
      moreover have "jobOf v k (iwDb w) = jobOf v k (iwDb w0)"
        by (simp add: jobOf_def True now here find_other_kind [OF False kind])
      ultimately have "lifeOf v k w = lifeOf v k w0"
        using in0 in1 True by (intro lifeOf_same) (auto simp: es(1))
      then show ?thesis by simp
    qed
  next
    case False
    then have "notesOf v k es = []" using es(2) by (intro notesOf_none) auto
    then have same_notes: "notesOf v k (iwTrace w) = notesOf v k (iwTrace w0)" by (simp add: es(1))
    have reach: "(\<exists>x \<in> set (runKeys (iwDb w')). v \<le> x) \<longleftrightarrow> v \<le> ?u" if "w' = w \<or> w' = w0" for w'
      using that in0 in1 top newest by fastforce
    from others [OF False] show ?thesis
    proof
      assume "jobsAt (iwDb w) v = jobsAt (iwDb w0) v"
      with same_notes reach have "lifeOf v k w = lifeOf v k w0" by (intro lifeOf_same) (simp_all add: jobOf_def)
      then show ?thesis by simp
    next
      assume gone: "jobsAt (iwDb w) v = None \<and> v < ?u"
      then have past: "lifeOf v k w = Past (notesOf v k (iwTrace w0))"
        using reach same_notes by (simp add: lifeOf_def jobOf_def)
      have "lifeOf v k w0 = past \<or> lifeStep most (lifeOf v k w0) past" if "past = Past (notesOf v k (iwTrace w0))" for past
        using gone reach that by (simp add: lifeOf_def lifeStep.Pruned split: option.split)
      then show ?thesis using past by auto
    qed
  qed
  ultimately show ?thesis by (simp add: lives_def)
qed

section \<open>Choosing the run of a tour\<close>

lemma lives_refl: "ledgerOk w \<Longrightarrow> lives most w w"
  by (simp add: lives_def)

lemma lives_same_tables:
  assumes "ledgerOk w" and "iwDb w' = iwDb w" and "iwTrace w' = iwTrace w"
  shows "lives most w w'"
  by (rule lives_same) (use assms in \<open>simp_all add: ledgerOk_def\<close>)

lemma ledger_notes:
  assumes "ledgerOk w" and "\<forall>x \<in> set (runKeys (iwDb w)). x < v"
  shows "notesOf v k (iwTrace w) = []"
proof (rule notesOf_none, rule ballI)
  fix e assume "e \<in> set (iwTrace w)"
  then obtain x where "x \<in> set (runKeys (iwDb w))" "teRunUtc e \<le> x" using assms(1) by (auto simp: ledgerOk_def)
  with assms(2) show "\<not> (teRunUtc e = v \<and> teKind e = k)" by fastforce
qed

lemma find_append_key:
  "find P (rs @ [r]) = (case find P rs of None \<Rightarrow> if P r then Some r else None | Some x \<Rightarrow> Some x)"
  by (induction rs) auto

lemma createRun_at:
  assumes "createRun r db = Some db'"
  shows "runKeys db' = runKeys db @ [rnRunUtc r]" "rnRunUtc r \<notin> set (runKeys db)"
    "jobsAt db' v = (if v = rnRunUtc r then Some (rnJobs r) else jobsAt db v)"
proof -
  have new: "getRun (rnRunUtc r) db = None" and db': "db' = db\<lparr>itRuns := itRuns db @ [r]\<rparr>"
    using assms by (simp_all add: createRun_def split: if_splits)
  show "runKeys db' = runKeys db @ [rnRunUtc r]" by (simp add: db' runKeys_def)
  show "rnRunUtc r \<notin> set (runKeys db)" using new by (simp add: getRun_None)
  show "jobsAt db' v = (if v = rnRunUtc r then Some (rnJobs r) else jobsAt db v)"
    using new by (auto simp: db' jobsAt_def getRun_def find_append_key split: option.split)
qed

lemma lives_create:
  assumes ok: "ledgerOk w" and r: "createRun r (iwDb w) = Some (iwDb w')" and trace: "iwTrace w' = iwTrace w"
    and newer: "\<forall>v \<in> set (runKeys (iwDb w)). v < rnRunUtc r" and kinds: "distinct (map ajKind (rnJobs r))"
    and pending: "\<forall>j \<in> set (rnJobs r). ajState j = Js_pending \<and> ajAttempts j = 0"
  shows "lives most w w'"
proof -
  let ?u = "rnRunUtc r"
  note at = createRun_at [OF r]
  have "ledgerOk w'"
  proof (rule ledgerOkI)
    show "distinct (runKeys (iwDb w'))" using ok at(1,2) by (simp add: ledgerOk_def)
    show "distinct (map ajKind js)" if "jobsAt (iwDb w') v = Some js" for v js
      using that kinds ledger_kinds [OF ok] at(3) [of v] by (auto split: if_splits)
    show "\<exists>v \<in> set (runKeys (iwDb w')). teRunUtc e \<le> v" if "e \<in> set (iwTrace w')" for e
      using that ok by (auto simp: ledgerOk_def trace at(1))
  qed
  moreover have "lifeSteps most (lifeOf v k w) (lifeOf v k w')" for v k
  proof (cases "\<forall>x \<in> set (runKeys (iwDb w)). x < v")
    case True
    have none: "jobOf v k (iwDb w) = None" using True jobsAt_None [of "iwDb w" v] by (auto simp: jobOf_def)
    have future: "lifeOf v k w = Future" using True by (auto simp: lifeOf_def none not_le)
    have empty: "notesOf v k (iwTrace w') = []" using ledger_notes [OF ok True] by (simp add: trace)
    show ?thesis
    proof (cases "jobOf v k (iwDb w')")
      case None
      then have "lifeOf v k w' = Past [] \<or> lifeOf v k w' = Future" by (simp add: lifeOf_def empty)
      then show ?thesis using future lifeStep.Missed [of most] by auto
    next
      case (Some j)
      then have "v = ?u" using none at(3) [of v] by (auto simp: jobOf_def split: if_splits)
      with Some at(3) [of v] have "j \<in> set (rnJobs r)" by (auto simp: jobOf_def find_Some_iff)
      then have "lifeStep most Future (Live j [])" using pending by (intro lifeStep.Born) auto
      moreover have "lifeOf v k w' = Live j []" by (simp add: lifeOf_def Some empty)
      ultimately show ?thesis using future by auto
    qed
  next
    case False
    then obtain x where x: "x \<in> set (runKeys (iwDb w))" "v \<le> x" by force
    then have "v \<noteq> ?u" using newer by fastforce
    then have "jobOf v k (iwDb w') = jobOf v k (iwDb w)" by (simp add: jobOf_def at(3))
    then have "lifeOf v k w' = lifeOf v k w" using x by (intro lifeOf_same) (auto simp: trace at(1))
    then show ?thesis by simp
  qed
  ultimately show ?thesis by (simp add: lives_def)
qed

definition selected :: "nat \<Rightarrow> 'r ingestAqWorld \<Rightarrow> (string + airQualityRun option) \<times> 'r ingestAqWorld \<Rightarrow> bool" where
  "selected most w res \<longleftrightarrow> lives most w (snd res)
     \<and> (\<forall>run. fst res = Inr (Some run) \<longrightarrow> jobsAt (iwDb (snd res)) (rnRunUtc run) = Some (rnJobs run)
            \<and> (\<forall>v \<in> set (runKeys (iwDb (snd res))). v \<le> rnRunUtc run))"

lemma andDo_result:
  "andDo m k w = (case fst (m w) of Inl e \<Rightarrow> (Inl e, snd (m w)) | Inr x \<Rightarrow> k x (snd (m w)))"
  by (simp add: andDo_def split_beta)

lemma supersede_lives:
  assumes ok: "ledgerOk w" and newest: "newest = newestRun (iwDb w)"
  shows "lives most w (snd (supersede deps newest w))"
    "runKeys (iwDb (snd (supersede deps newest w))) = runKeys (iwDb w)"
proof -
  have "lives most w (snd (supersede deps newest w))
    \<and> runKeys (iwDb (snd (supersede deps newest w))) = runKeys (iwDb w)"
  proof (cases "\<exists>old. newest = Some old \<and> \<not> isRunTerminal old")
    case True
    then obtain old where old: "newestRun (iwDb w) = Some old" "\<not> isRunTerminal old" using newest by auto
    have at: "jobsAt (iwDb w) (rnRunUtc old) = Some (rnJobs old)"
      using getRun_member newest_run_max(1) [OF old(1)] ok by (simp add: ledgerOk_def jobsAt_def)
    let ?f = "\<lambda>db. Some ((), updateRun \<lparr>uiRunUtc = rnRunUtc old, uiJobs = rnJobs old, uiState = Run_abandoned,
      uiLastError = None, uiLastErrorClass = None\<rparr> db)"
    let ?w = "aqCount ''airq.run_abandoned'' w"
    have eq: "supersede deps newest w = aqStatement ?f ?w" using old newest by (simp add: supersede_def)
    show ?thesis
    proof (cases rule: aqStatement_cases [of ?f ?w])
      case (Fails e)
      then show ?thesis using lives_same_tables [OF ok] by (simp add: eq)
    next
      case (Runs x db)
      then have "jobsAt db v = jobsAt (iwDb w) v" "runKeys db = runKeys (iwDb w)" for v
        using at by (auto simp: jobsAt_updateRun)
      then show ?thesis using Runs(3,4) ok by (auto simp: eq ledgerOk_def intro!: lives_same [OF ok])
    qed
  next
    case False
    then have "snd (supersede deps newest w) = w" by (auto simp: supersede_def split: option.split)
    then show ?thesis by (simp add: lives_refl [OF ok])
  qed
  then show "lives most w (snd (supersede deps newest w))"
    "runKeys (iwDb (snd (supersede deps newest w))) = runKeys (iwDb w)" by simp_all
qed

lemma newJobsFor_new:
  assumes "newJobsFor deps u = Inr jobs"
  shows "distinct (map ajKind jobs)" "\<forall>j \<in> set jobs. ajState j = Js_pending \<and> ajAttempts j = 0"
  using assms by (auto simp: newJobsFor_def Let_def newJob_def andThen_eq_Inr split: if_splits)

lemma createRunFor_selected:
  assumes ok: "ledgerOk w" and newer: "\<forall>v \<in> set (runKeys (iwDb w)). v < u"
  shows "selected most w (createRunFor deps u now w)"
proof (cases "newJobsFor deps u")
  case (Inl e)
  then show ?thesis by (simp add: createRunFor_def andDo_result orAbort_def selected_def lives_refl [OF ok])
next
  case (Inr jobs)
  let ?r = "newRunOf deps u jobs now"
  let ?f = "\<lambda>db. map_option (Pair ()) (createRun ?r db)" and ?g = "\<lambda>db. Some (getRun u db, db)"
  have eq: "createRunFor deps u now w = andDo (aqStatement ?f) (\<lambda>_. aqStatement ?g) w"
    by (simp add: createRunFor_def Inr andDo_result orAbort_def)
  show ?thesis
  proof (cases rule: aqStatement_cases [of ?f w])
    case (Fails e)
    then show ?thesis using lives_same_tables [OF ok] by (simp add: eq andDo_result selected_def)
  next
    case (Runs x db)
    let ?w1 = "snd (aqStatement ?f w)"
    have created: "createRun ?r (iwDb w) = Some (iwDb ?w1)" using Runs(1,3) by auto
    have lives: "lives most w ?w1"
      by (rule lives_create [OF ok created Runs(4)]) (use newer newJobsFor_new [OF Inr] in \<open>simp_all add: newRunOf_def\<close>)
    then have ok1: "ledgerOk ?w1" by (simp add: lives_def)
    have res: "createRunFor deps u now w = aqStatement ?g ?w1" by (simp add: eq andDo_result Runs(2))
    have top: "\<forall>v \<in> set (runKeys (iwDb ?w1)). v \<le> u"
      using newer unfolding createRun_at(1) [OF created] by (auto simp: newRunOf_def less_imp_le)
    show ?thesis
    proof (cases rule: aqStatement_cases [of ?g ?w1])
      case (Fails e)
      then show ?thesis
        using lives_trans [OF lives lives_same_tables [OF ok1 Fails(2,3)]] by (simp add: res selected_def)
    next
      case (Runs y db2)
      then have same: "iwDb (snd (aqStatement ?g ?w1)) = iwDb ?w1" by simp
      have "jobsAt (iwDb ?w1) (rnRunUtc run) = Some (rnJobs run) \<and> rnRunUtc run = u" if "getRun u (iwDb ?w1) = Some run" for run
        using that getRun_Some(2) [OF that] by (simp add: jobsAt_def)
      then show ?thesis
        using lives lives_trans [OF lives lives_same_tables [OF ok1 same Runs(4)]] Runs top
        by (auto simp: res selected_def)
    qed
  qed
qed

lemma selectRun_selected:
  assumes ok: "ledgerOk w" shows "selected most w (selectRun deps now w)"
proof -
  let ?f = "\<lambda>db. Some (newestRun db, db)"
  define u where "u = currentRunDate now (adSubmitAfterUtcHour (adsConfig deps))"
  show ?thesis
  proof (cases rule: aqStatement_cases [of ?f w])
    case (Fails e)
    then show ?thesis
      using lives_same_tables [OF ok] by (simp add: selectRun_def Let_def andDo_result selected_def)
  next
    case (Runs newest db)
    let ?w1 = "snd (aqStatement ?f w)"
    have w1: "iwDb ?w1 = iwDb w" "iwTrace ?w1 = iwTrace w" "newest = newestRun (iwDb w)" using Runs by auto
    have lives1: "lives most w ?w1" by (rule lives_same_tables [OF ok w1(1,2)])
    then have ok1: "ledgerOk ?w1" by (simp add: lives_def)
    have found: "jobsAt (iwDb ?w1) (rnRunUtc r) = Some (rnJobs r) \<and> (\<forall>v \<in> set (runKeys (iwDb ?w1)). v \<le> rnRunUtc r)"
      if "newestRun (iwDb w) = Some r" for r
      using newest_run_max [OF that] getRun_member [OF _ newest_run_max(1) [OF that]] ok
      by (simp add: w1(1) jobsAt_def ledgerOk_def)
    consider (newest) r where "newest = Some r" "u \<le> rnRunUtc r"
      | (early) "\<forall>r. newest = Some r \<longrightarrow> rnRunUtc r < u" "getUTCHours now < adSubmitAfterUtcHour (adsConfig deps)"
      | (fresh) "\<forall>r. newest = Some r \<longrightarrow> rnRunUtc r < u" "\<not> getUTCHours now < adSubmitAfterUtcHour (adsConfig deps)"
      by (cases newest) (auto simp: not_le dest: leI)
    then show ?thesis
    proof cases
      case (newest r)
      then have "selectRun deps now w = (Inr (Some r), ?w1)"
        using Runs(2) by (simp add: selectRun_def Let_def andDo_result u_def)
      then show ?thesis using found newest w1(3) lives1 by (simp add: selected_def)
    next
      case early
      then have "selectRun deps now w = (Inr None, ?w1)"
        using Runs(2) by (cases newest) (simp_all add: selectRun_def Let_def andDo_result u_def [symmetric] not_le)
      then show ?thesis using lives1 by (simp add: selected_def)
    next
      case fresh
      then have eq: "selectRun deps now w = andDo (supersede deps newest) (\<lambda>_. createRunFor deps u now) ?w1"
        using Runs(2) by (cases newest) (simp_all add: selectRun_def Let_def andDo_result u_def [symmetric] not_le)
      let ?w2 = "snd (supersede deps newest ?w1)"
      have new: "newest = newestRun (iwDb ?w1)" by (simp add: w1)
      note over = supersede_lives(1) [OF ok1 new, of most deps] supersede_lives(2) [OF ok1 new, of deps]
      have ok2: "ledgerOk ?w2" using over(1) by (simp add: lives_def)
      have newer: "\<forall>v \<in> set (runKeys (iwDb ?w2)). v < u"
      proof (cases newest)
        case None
        then show ?thesis using newest_of_no_runs new over(2) by (simp add: runKeys_def)
      next
        case (Some r)
        then have "\<forall>v \<in> set (runKeys (iwDb ?w1)). v \<le> rnRunUtc r" using found w1(3) by auto
        then show ?thesis using fresh(1) Some over(2) by fastforce
      qed
      have trans: "selected most w (createRunFor deps u now ?w2)" and past: "lives most w ?w2"
        using createRunFor_selected [OF ok2 newer, of most deps now] lives_trans lives1 over(1)
        unfolding selected_def by meson+
      then show ?thesis by (cases "fst (supersede deps newest ?w1)") (simp_all add: eq andDo_result selected_def)
    qed
  qed
qed

end
