(* ===== verification/Air_Quality_Submissions.thy ===== *)
theory Air_Quality_Submissions
  imports Air_Quality_Tours
begin

text \<open>
  Histories of tours of the CAMS ingest: any number of tours with whatever the provider and the
  database answer, between which time passes and other callers use the provider's counters. Each
  refines the life of every job, so a day's product is submitted at most as often as it has
  attempts, and again only after the provider's list showed that the last submission never arrived.
\<close>

section \<open>A contract between two machines\<close>

text \<open>Each concrete step is some steps of the abstract machine while an invariant holds.\<close>

locale refinement =
  fixes cstep :: "'c \<Rightarrow> 'c \<Rightarrow> bool" and astep :: "'a \<Rightarrow> 'a \<Rightarrow> bool"
    and view :: "'c \<Rightarrow> 'a" and ok :: "'c \<Rightarrow> bool"
  assumes keeps: "cstep c c' \<Longrightarrow> ok c \<Longrightarrow> ok c'"
    and simulates: "cstep c c' \<Longrightarrow> ok c \<Longrightarrow> astep\<^sup>*\<^sup>* (view c) (view c')"
begin

lemma histories_keep: "cstep\<^sup>*\<^sup>* c c' \<Longrightarrow> ok c \<Longrightarrow> ok c'"
  by (induction rule: rtranclp_induct) (auto intro: keeps)

lemma histories_simulate: "cstep\<^sup>*\<^sup>* c c' \<Longrightarrow> ok c \<Longrightarrow> astep\<^sup>*\<^sup>* (view c) (view c')"
proof (induction rule: rtranclp_induct)
  case (step c1 c2)
  from simulates [OF step(2) histories_keep [OF step(1) step(4)]] step show ?case
    by (meson rtranclp_trans)
qed simp

end

section \<open>Histories\<close>

inductive tourStep :: "nat \<Rightarrow> 'r ingestAqWorld \<Rightarrow> 'r ingestAqWorld \<Rightarrow> bool" for most where
  Tour: "maxAttempts deps = most \<Longrightarrow> tourStep most w (refreshAirQuality deps dl w)"
| Between: "iwDb w' = iwDb w \<Longrightarrow> iwTrace w' = iwTrace w \<Longrightarrow> tourStep most w w'"

definition emptyTables :: ingestTables where
  "emptyTables = \<lparr>itRuns = [], itSeries = []\<rparr>"

lemma lives_snd:
  assumes "lives most w w1" and "ledgerOk w1 \<Longrightarrow> lives most w1 w2"
  shows "lives most w w2"
  using assms lives_trans unfolding lives_def by (meson rtranclp_trans)

lemma findIndex_Some: "findIndex P xs = Some i \<Longrightarrow> i < length xs \<and> P (xs ! i)"
  by (induction xs arbitrary: i) (auto split: if_splits)

lemma selectNextJob_Some:
  assumes "selectNextJob jobs most = Some (i, act)"
  shows "i < length jobs" "act = Act_progress \<Longrightarrow> jobProgressable most (jobs ! i)"
  using assms by (auto simp: selectNextJob_def split: option.splits if_splits dest!: findIndex_Some)

lemma during_start:
  assumes "ledgerOk w" and "jobsAt (iwDb w) (rnRunUtc run) = Some (rnJobs run)"
  shows "during most run i w w (rnJobs run ! i) (notesOf (rnRunUtc run) (ajKind (rnJobs run ! i)) (iwTrace w))"
  using assms by (simp add: during_def ledgerOk_def)

lemma workOn_lives:
  assumes ok: "ledgerOk w" and here: "jobsAt (iwDb w) (rnRunUtc run) = Some (rnJobs run)"
    and newest: "\<forall>v \<in> set (runKeys (iwDb w)). v \<le> rnRunUtc run"
  shows "lives (maxAttempts deps) w (snd ((case selectNextJob (rnJobs run) (maxAttempts deps) of
      None \<Rightarrow> (\<lambda>w. (Inr (), w))
    | Some (i, Act_cleanup) \<Rightarrow> andDo (cleanupJob deps run i dl) (\<lambda>_ w. (Inr (), w))
    | Some (i, Act_progress) \<Rightarrow> andDo (advanceJob deps run i dl) (\<lambda>_ w. (Inr (), w))) w))"
proof (cases "selectNextJob (rnJobs run) (maxAttempts deps)")
  case None
  then show ?thesis by (simp add: lives_refl [OF ok])
next
  case (Some choice)
  obtain i act where c: "selectNextJob (rnJobs run) (maxAttempts deps) = Some (i, act)" using Some by (cases choice) simp
  note i = selectNextJob_Some [OF c]
  note start = during_start [OF ok here, of "maxAttempts deps" i]
  have ended: "snd (andDo m (\<lambda>_ w. (Inr (), w)) w) = snd (m w)" for m :: "(airQualityRun, 'a ingestAqWorld) step"
    by (simp add: andDo_result split: sum.split)
  show ?thesis
  proof (cases act)
    case Act_progress
    then have "tracked (maxAttempts deps) run i w (snd (advanceJob deps run i dl w))"
      using i(2) by (intro advanceJob_tracked [OF start _ newest]) (simp add: jobProgressable_def)
    from tracked_lives [OF this ok i(1) here newest] show ?thesis by (simp add: c Act_progress ended)
  next
    case Act_cleanup
    from tracked_lives [OF cleanupJob_tracked [OF start] ok i(1) here newest]
    show ?thesis by (simp add: c Act_cleanup ended)
  qed
qed

lemma runTourSlice_lives:
  assumes ok: "ledgerOk w" shows "lives (maxAttempts deps) w (snd (runTourSlice deps tourDeadline w))"
proof (cases "icIngestEnabled (idConfig deps)
    \<and> \<not> min (adTourBudgetMs (adsConfig deps)) (remainingMs tourDeadline (aqNow w)) < MIN_STEP_BUDGET_MS")
  case False
  then have "snd (runTourSlice deps tourDeadline w) = w" by (auto simp: runTourSlice_def Let_def)
  then show ?thesis by (simp add: lives_refl [OF ok])
next
  case True
  let ?s = "selectRun deps (aqNow w) w"
  note sel = selectRun_selected [OF ok, of "maxAttempts deps" deps "aqNow w", unfolded selected_def]
  then have ok1: "ledgerOk (snd ?s)" by (simp add: lives_def)
  consider (none) "\<not> (\<exists>run. fst ?s = Inr (Some run))" | (run) run where "fst ?s = Inr (Some run)" by blast
  then show ?thesis
  proof cases
    case none
    then have "snd (runTourSlice deps tourDeadline w) = snd ?s"
      using True by (auto simp: runTourSlice_def Let_def andDo_result split: sum.split option.split)
    then show ?thesis using sel by simp
  next
    case (run r)
    then have "jobsAt (iwDb (snd ?s)) (rnRunUtc r) = Some (rnJobs r)"
        "\<forall>v \<in> set (runKeys (iwDb (snd ?s))). v \<le> rnRunUtc r"
      using sel by simp_all
    from workOn_lives [OF ok1 this] have "lives (maxAttempts deps) (snd ?s) (snd (runTourSlice deps tourDeadline w))"
      using True run by (simp add: runTourSlice_def Let_def andDo_result)
    with sel show ?thesis using lives_trans by blast
  qed
qed

lemma tourStep_lives:
  assumes "tourStep most w w'" and ok: "ledgerOk w" shows "lives most w w'"
  using assms(1)
proof cases
  case (Tour deps dl)
  let ?r = "runTourSlice deps dl w"
  have same: "iwDb w' = iwDb (snd ?r)" "iwTrace w' = iwTrace (snd ?r)"
    by (simp_all add: Tour(1) refreshAirQuality_def split: prod.split sum.split)
  have ran: "lives most w (snd ?r)" using runTourSlice_lives [OF ok, of deps dl] Tour(2) by simp
  then have "ledgerOk (snd ?r)" by (simp add: lives_def)
  from lives_trans [OF ran lives_same_tables [OF this same]] show ?thesis .
next
  case Between
  then show ?thesis by (rule lives_same_tables [OF ok])
qed

interpretation tours: refinement "tourStep most" "lifeStep most" "lifeOf u k" ledgerOk for most u k
  by unfold_locales (auto dest: tourStep_lives simp: lives_def)

text \<open>
  C6: Over any history of tours, what the tables and the requests say of each job moves as the
  abstract life of a job does, and the ledger stays well formed.
\<close>

theorem tours_refine_job_life:
  assumes "(tourStep most)\<^sup>*\<^sup>* w w'" and "ledgerOk w"
  shows "lifeSteps most (lifeOf u k w) (lifeOf u k w') \<and> ledgerOk w'"
  using tours.histories_simulate [OF assms] tours.histories_keep [OF assms] by blast

section \<open>Submissions\<close>

lemma watch_append: "watch (a @ b) = fold (\<lambda>n m. watchNote m n) b (watch a)"
  by (simp add: watch_def)

lemma watch_stuck: "fold (\<lambda>n m. watchNote m n) b Twice_open = Twice_open"
  by (induction b) simp_all

lemma watch_waits:
  "\<forall>n \<in> set b. \<not> isSubmission n \<and> n \<noteq> Reconciliation (Some s) (Some []) \<Longrightarrow>
   fold (\<lambda>n m. watchNote m n) b (Awaiting s) = Awaiting s"
proof (induction b)
  case (Cons n b)
  then have "watchNote (Awaiting s) n = Awaiting s"
    by (cases "(Awaiting s, n)" rule: watchNote.cases) (auto simp: isSubmission_def)
  with Cons show ?case by simp
qed simp

lemma watched_submissions:
  assumes "watch (a @ Submission s # b @ Submission s' # c) \<noteq> Twice_open"
  shows "\<exists>n \<in> set b. isSubmission n \<or> n = Reconciliation (Some s) (Some [])"
proof (rule ccontr)
  assume quiet: "\<not> ?thesis"
  have "watch (a @ [Submission s]) \<in> {Awaiting s, Twice_open}" by (cases "watch a") auto
  then have "watch ((a @ [Submission s]) @ b) \<in> {Awaiting s, Twice_open}"
    unfolding watch_append [of "a @ [Submission s]"] using watch_waits [of b s] watch_stuck quiet by auto
  then have "watchNote (watch ((a @ [Submission s]) @ b)) (Submission s') = Twice_open" by auto
  then have "watch (((a @ [Submission s]) @ b) @ [Submission s']) = Twice_open" by (simp only: watch_simps)
  then have "watch ((((a @ [Submission s]) @ b) @ [Submission s']) @ c) = Twice_open"
    unfolding watch_append [of "((a @ [Submission s]) @ b) @ [Submission s']"] by (simp add: watch_stuck)
  with assms show False by simp
qed

lemma emptyTables_start:
  "iwDb w = emptyTables \<Longrightarrow> iwTrace w = [] \<Longrightarrow> ledgerOk w \<and> lifeOf u k w = Future"
  by (simp add: ledgerOk_def lifeOf_def jobOf_def jobsAt_def getRun_def runKeys_def emptyTables_def)

lemma lifeOf_notes:
  assumes "ledgerOk w" shows "lifeNotes (lifeOf u k w) = notesOf u k (iwTrace w)"
proof (cases "lifeOf u k w")
  case Future
  then have "\<forall>x \<in> set (runKeys (iwDb w)). x < u"
    by (auto simp: lifeOf_def not_le split: option.splits if_splits)
  from ledger_notes [OF assms this] Future show ?thesis by simp
qed (auto simp: lifeOf_def split: option.splits if_splits)

text \<open>
  C7: From empty tables, whatever the provider and the database answer, a product of a day is
  submitted at most as often as a job has attempts; and between two submissions the provider's
  list was read from the stamp of the first and held no job that could be it.
\<close>

theorem product_submitted_within_budget:
  assumes "(tourStep most)\<^sup>*\<^sup>* w w'" and "iwDb w = emptyTables" and "iwTrace w = []"
  shows "length (filter isSubmission (notesOf u k (iwTrace w'))) \<le> most
    \<and> (\<forall>a s b s' c. notesOf u k (iwTrace w') = a @ Submission s # b @ Submission s' # c \<longrightarrow>
         (\<exists>n \<in> set b. isSubmission n \<or> n = Reconciliation (Some s) (Some [])))"
proof -
  note start = emptyTables_start [OF assms(2,3), of u k]
  have "lifeSteps most Future (lifeOf u k w')" "ledgerOk w'"
    using tours.histories_simulate [OF assms(1), of u k] tours.histories_keep [OF assms(1)] start by simp_all
  from lifeInv_notes [OF lifeSteps_inv [OF this(1)]] lifeOf_notes [OF this(2), of u k]
  have "watch (notesOf u k (iwTrace w')) \<noteq> Twice_open" "submissions (notesOf u k (iwTrace w')) \<le> most" by simp_all
  then show ?thesis using watched_submissions by (auto simp: submissions_def)
qed

section \<open>A concrete history\<close>

text \<open>The first submission gets no answer, the list is empty, and the second is answered.\<close>

definition sampleAds :: adsIngestConfig where
  "sampleAds = \<lparr>adBaseUrl = ascii ''https://ads/api'', adDatasetId = ascii ''cams'',
     adObjectStoreHosts = [ascii ''object-store''], adApiKey = Some (ascii ''ab-1''), adArea = [42, 26, 36, 45],
     adForecastHours = 96, adSubmitAfterUtcHour = 12, adMaxAttemptsPerJob = 3, adPollTimeoutMs = 15000,
     adDownloadTimeoutMs = 180000, adTourBudgetMs = 240000, adRunMaxBytes = 1000\<rparr>"

definition sampleAnswer :: "byte list \<Rightarrow> unit httpEnv" where
  "sampleAnswer body =
     \<lparr>defaultCallTimeoutMs = 4000, redisClient = None,
      fetchImpl = (\<lambda>n now t. (if body = [] then Fetch_rejected
         else Fetched \<lparr>status = 200, contentTypeHeader = None, retryAfterHeader = None, contentLengthNumber = None,
           bodyStream = Some [Chunk body], arrayBuffer = body\<rparr>, now + 10)),
      sleepImpl = (\<lambda>now d. now + d), finiteNumber = (\<lambda>s. None), dateParse = (\<lambda>s. None)\<rparr>"

definition sampleJson :: "jsText \<Rightarrow> json option" where
  "sampleJson t =
     (if t = [1] then Some (JObject [(ascii ''cost'', JNumber 5), (ascii ''limit'', JNumber 10)])
      else if t = [2] then Some (JObject [(ascii ''jobs'', JArray [])])
      else if t = [3] then Some (JObject [(ascii ''jobID'', JString (ascii ''j7'')), (ascii ''status'', JString (ascii ''accepted''))])
      else None)"

definition sampleIngest :: "byte list \<Rightarrow> unit ingestAqDeps" where
  "sampleIngest answer = \<lparr>idEnvFor = (\<lambda>rq. sampleAnswer answer), idDecodeText = map uint,
     idPlatform = \<lparr>apJson = sampleJson, apUrl = (\<lambda>t. None), apDate = (\<lambda>t. None)\<rparr>,
     idCams = \<lparr>cpZip = \<lparr>zcUtf8 = map uint, zcIsControl = (\<lambda>c. False), zcInflateRaw = (\<lambda>b n. None)\<rparr>,
       cpUtf8 = map uint, cpUpper = id\<rparr>,
     idMd5 = map uint, idReasonText = (\<lambda>rq r. []), idLoadProvinces = Inr [],
     idConfig = \<lparr>icIngestEnabled = True, icAnalysisEnabled = False, icAds = sampleAds\<rparr>\<rparr>"

definition sampleStart :: "unit ingestAqWorld" where
  "sampleStart = \<lparr>iwHttp = \<lparr>clock = 50000000, budget = \<lparr>localCounters = [], redisState = (), budgetMetrics = metrics_init\<rparr>,
       breaker = newCircuitBreaker None None\<rparr>, iwDb = emptyTables, iwAnswers = [], iwTrace = []\<rparr>"

definition sampleTours :: "byte list list \<Rightarrow> unit ingestAqWorld" where
  "sampleTours answers =
     fold (\<lambda>b w. refreshAirQuality (sampleIngest b) \<lparr>budgetMs = 240000, startedAtMs = aqNow w\<rparr> w) answers sampleStart"

lemma sampleTours_history:
  fixes answers :: "byte list list"
  shows "(tourStep 3)\<^sup>*\<^sup>* sampleStart (sampleTours answers)"
proof (induction answers rule: rev_induct)
  case (snoc b answers)
  let ?w = "sampleTours answers"
  have "tourStep 3 ?w (refreshAirQuality (sampleIngest b) \<lparr>budgetMs = 240000, startedAtMs = aqNow ?w\<rparr> ?w)"
    by (rule tourStep.Tour) (simp add: sampleIngest_def sampleAds_def)
  with snoc show ?case by (simp add: sampleTours_def rtranclp.rtrancl_into_rtrancl)
qed (simp add: sampleTours_def)

theorem tours_refine_job_life_witness:
  "lifeSteps 3 Future (lifeOf 0 Forecast_job (sampleTours [[1], [], [2], [3]]))
   \<and> ledgerOk (sampleTours [[1], [], [2], [3]])"
proof -
  have start: "iwDb sampleStart = emptyTables" "iwTrace sampleStart = []" by (simp_all add: sampleStart_def)
  from emptyTables_start [OF this, of 0 Forecast_job]
    tours_refine_job_life [OF sampleTours_history [of "[[1], [], [2], [3]]"], where u = 0 and k = Forecast_job]
  show ?thesis by simp
qed

theorem product_submitted_within_budget_witness:
  "length (filter isSubmission (notesOf 0 Forecast_job (iwTrace (sampleTours [[1], [], [2], [3]])))) \<le> 3"
proof -
  have start: "iwDb sampleStart = emptyTables" "iwTrace sampleStart = []" by (simp_all add: sampleStart_def)
  from product_submitted_within_budget [OF sampleTours_history start] show ?thesis by blast
qed

end
