(* ===== verification/Eaqi.thy ===== *)
theory Eaqi
  imports Js_Number Air_Quality_Types
begin

text \<open>
  \<open>src/air-quality/eaqi/eaqi.ts\<close> and \<open>eaqi.constants.ts\<close>: the European air quality index of one
  hour, from the concentrations of the five pollutants.
\<close>

section \<open>Bands\<close>

definition upperBoundsUgM3 :: "airQualityPollutant \<Rightarrow> rat list" where
  "upperBoundsUgM3 p =
     (case p of
        Pm2_5 \<Rightarrow> [5, 15, 50, 90, 140]
      | Pm10 \<Rightarrow> [15, 45, 120, 195, 270]
      | No2 \<Rightarrow> [10, 25, 60, 100, 150]
      | O3 \<Rightarrow> [60, 100, 120, 160, 180]
      | So2 \<Rightarrow> [20, 40, 125, 190, 275])"

definition dominantTieBreakOrder :: "airQualityPollutant list" where
  "dominantTieBreakOrder = [Pm2_5, Pm10, No2, O3, So2]"

definition EAQI_CATEGORY_BY_BAND :: "airQualityCategory list" where
  "EAQI_CATEGORY_BY_BAND = [Cat_good, Cat_fair, Cat_moderate, Cat_poor, Cat_very_poor, Cat_extremely_poor]"

type_synonym eaqiBand = nat

datatype eaqiRangeError = Band_range | Value_range

record eaqiSubIndex =
  subBand :: eaqiBand
  subCategory :: airQualityCategory

record eaqiResult =
  eaqiOverall :: "eaqiBand option"
  eaqiCategory :: "airQualityCategory option"
  dominantPollutant :: "airQualityPollutant option"
  missingPollutants :: "airQualityPollutant list"
  subIndexes :: "airQualityPollutant \<Rightarrow> eaqiSubIndex option"

definition categoryForBand :: "eaqiBand \<Rightarrow> eaqiRangeError + airQualityCategory" where
  "categoryForBand b =
     (if 1 \<le> b \<and> b - 1 < length EAQI_CATEGORY_BY_BAND then Inr (EAQI_CATEGORY_BY_BAND ! (b - 1)) else Inl Band_range)"

text \<open>The loop over the upper bounds, which are inclusive; above all of them is band six.\<close>

fun bandFrom :: "rat list \<Rightarrow> nat \<Rightarrow> rat \<Rightarrow> eaqiBand" where
  "bandFrom [] index v = 6"
| "bandFrom (u # us) index v = (if v \<le> u then index + 1 else bandFrom us (index + 1) v)"

definition subIndexBand :: "airQualityPollutant \<Rightarrow> jsNumber \<Rightarrow> eaqiRangeError + eaqiBand" where
  "subIndexBand p v =
     (case v of
        Finite x \<Rightarrow> if x < 0 then Inl Value_range else Inr (bandFrom (upperBoundsUgM3 p) 0 x)
      | _ \<Rightarrow> Inl Value_range)"

section \<open>The index\<close>

definition subIndexOf ::
  "(airQualityPollutant \<Rightarrow> jsNumber option) \<Rightarrow> airQualityPollutant
    \<Rightarrow> eaqiRangeError + (airQualityPollutant \<times> eaqiSubIndex option)" where
  "subIndexOf vals p =
     (case vals p of
        None \<Rightarrow> Inr (p, None)
      | Some v \<Rightarrow> andThen (subIndexBand p v) (\<lambda>b. andThen (categoryForBand b) (\<lambda>c.
                  Inr (p, Some \<lparr>subBand = b, subCategory = c\<rparr>))))"

definition worstOf :: "(airQualityPollutant \<Rightarrow> eaqiSubIndex option) \<Rightarrow> eaqiBand option" where
  "worstOf subs =
     fold (\<lambda>p worst. case subs p of
              None \<Rightarrow> worst
            | Some s \<Rightarrow> (case worst of None \<Rightarrow> Some (subBand s)
                        | Some w \<Rightarrow> if subBand s > w then Some (subBand s) else worst))
       ALL_AIR_QUALITY_POLLUTANTS None"

definition computeEaqi ::
  "(airQualityPollutant \<Rightarrow> jsNumber option) \<Rightarrow> eaqiRangeError + eaqiResult" where
  "computeEaqi vals =
     andThen (mapOrThrow (subIndexOf vals) ALL_AIR_QUALITY_POLLUTANTS) (\<lambda>entries.
     let subs = (\<lambda>p. case map_of entries p of None \<Rightarrow> None | Some s \<Rightarrow> s);
         missing = filter (\<lambda>p. vals p = None) ALL_AIR_QUALITY_POLLUTANTS
     in (case worstOf subs of
           None \<Rightarrow> Inr \<lparr>eaqiOverall = None, eaqiCategory = None, dominantPollutant = None,
                     missingPollutants = missing, subIndexes = subs\<rparr>
         | Some w \<Rightarrow> andThen (categoryForBand w) (\<lambda>c.
             Inr \<lparr>eaqiOverall = Some w, eaqiCategory = Some c,
                  dominantPollutant = find (\<lambda>p. case subs p of None \<Rightarrow> False | Some s \<Rightarrow> subBand s = w)
                    dominantTieBreakOrder,
                  missingPollutants = missing, subIndexes = subs\<rparr>)))"

section \<open>Bands count the bounds a value exceeds\<close>

lemma bandFrom_count:
  "sorted us \<Longrightarrow> index + length us = 5 \<Longrightarrow> bandFrom us index v = index + 1 + length (filter (\<lambda>u. u < v) us)"
proof (induction us arbitrary: index)
  case Nil
  then show ?case by simp
next
  case (Cons u us)
  show ?case
  proof (cases "v \<le> u")
    case True
    then have "filter (\<lambda>u. u < v) (u # us) = []" using Cons.prems(1) by (auto simp: filter_empty_conv)
    with True show ?thesis by simp
  next
    case False
    with Cons show ?thesis by simp
  qed
qed

definition bandOf :: "airQualityPollutant \<Rightarrow> rat \<Rightarrow> eaqiBand" where
  "bandOf p v = 1 + length (filter (\<lambda>u. u < v) (upperBoundsUgM3 p))"

lemma bounds_shape: "sorted (upperBoundsUgM3 p)" "length (upperBoundsUgM3 p) = 5"
  by (cases p; simp add: upperBoundsUgM3_def)+

lemma subIndexBand_bandOf: "0 \<le> x \<Longrightarrow> subIndexBand p (Finite x) = Inr (bandOf p x)"
  using bandFrom_count [of "upperBoundsUgM3 p" 0 x] bounds_shape [of p]
  by (simp add: subIndexBand_def bandOf_def)

lemma bandOf_range: "1 \<le> bandOf p v" "bandOf p v \<le> 6"
  using length_filter_le [of "\<lambda>u. u < v" "upperBoundsUgM3 p"] bounds_shape(2) [of p]
  by (simp_all add: bandOf_def)

lemma categoryForBand_range:
  "1 \<le> b \<Longrightarrow> b \<le> 6 \<Longrightarrow> categoryForBand b = Inr (EAQI_CATEGORY_BY_BAND ! (b - 1))"
  by (auto simp: categoryForBand_def EAQI_CATEGORY_BY_BAND_def)

section \<open>The worst band\<close>

lemma worst_fold:
  fixes subs :: "'a \<Rightarrow> eaqiSubIndex option"
  defines "step \<equiv> \<lambda>p worst. case subs p of
              None \<Rightarrow> worst
            | Some s \<Rightarrow> (case worst of None \<Rightarrow> Some (subBand s)
                        | Some w \<Rightarrow> if subBand s > w then Some (subBand s) else worst)"
  shows "fold step ps w0 = Some w \<Longrightarrow>
      (w0 = Some w \<or> (\<exists>p \<in> set ps. \<exists>s. subs p = Some s \<and> subBand s = w))
      \<and> (\<forall>v. w0 = Some v \<longrightarrow> v \<le> w) \<and> (\<forall>p \<in> set ps. \<forall>s. subs p = Some s \<longrightarrow> subBand s \<le> w)"
    and "fold step ps w0 = None \<longleftrightarrow> w0 = None \<and> (\<forall>p \<in> set ps. subs p = None)"
proof (induction ps arbitrary: w0)
  case Nil
  { case 1 then show ?case by simp next case 2 show ?case by simp }
next
  case (Cons p ps)
  { case 1
    then have "fold step ps (step p w0) = Some w" by simp
    note ih = Cons.IH(1) [OF this]
    show ?case
    proof (cases "subs p")
      case None
      then have "step p w0 = w0" by (simp add: step_def)
      with ih None show ?thesis by auto
    next
      case (Some s)
      then have "step p w0 = Some (max (subBand s) (case w0 of None \<Rightarrow> subBand s | Some v \<Rightarrow> v))"
        by (auto simp: step_def max_def split: option.splits)
      with ih Some show ?thesis by (cases w0) (auto simp: max_def split: if_splits)
    qed
  next
    case 2
    have "step p w0 = None \<longleftrightarrow> w0 = None \<and> subs p = None"
      by (auto simp: step_def split: option.splits)
    with Cons.IH(2) [of "step p w0"] show ?case by auto }
qed

lemma worstOf_Some:
  assumes "worstOf subs = Some w"
  shows "\<exists>p s. subs p = Some s \<and> subBand s = w" and "\<And>p s. subs p = Some s \<Longrightarrow> subBand s \<le> w"
  using worst_fold(1) [OF assms [unfolded worstOf_def]] by auto

lemma worstOf_None: "worstOf subs = None \<longleftrightarrow> (\<forall>p. subs p = None)"
  using worst_fold(2) [of subs ALL_AIR_QUALITY_POLLUTANTS None] by (simp add: worstOf_def)

lemma find_split:
  "find P xs = Some x \<Longrightarrow> \<exists>ys zs. xs = ys @ x # zs \<and> P x \<and> (\<forall>y \<in> set ys. \<not> P y)"
proof (induction xs)
  case Nil
  then show ?case by simp
next
  case (Cons a xs)
  show ?case
  proof (cases "P a")
    case True
    with Cons.prems have "a # xs = [] @ x # xs \<and> P x \<and> (\<forall>y \<in> set []. \<not> P y)" by simp
    then show ?thesis by blast
  next
    case False
    with Cons obtain ys zs where "xs = ys @ x # zs \<and> P x \<and> (\<forall>y \<in> set ys. \<not> P y)" by auto
    with False have "a # xs = (a # ys) @ x # zs \<and> P x \<and> (\<forall>y \<in> set (a # ys). \<not> P y)" by simp
    then show ?thesis by blast
  qed
qed

lemma set_tieBreak: "set dominantTieBreakOrder = UNIV"
  using set_pollutants by (simp add: dominantTieBreakOrder_def ALL_AIR_QUALITY_POLLUTANTS_def)

text \<open>What the index must be for values that are present and not negative.\<close>

definition subOf :: "(airQualityPollutant \<Rightarrow> jsNumber option) \<Rightarrow> airQualityPollutant \<Rightarrow> eaqiSubIndex option" where
  "subOf vals p =
     (case vals p of
        Some (Finite x) \<Rightarrow> Some \<lparr>subBand = bandOf p x, subCategory = EAQI_CATEGORY_BY_BAND ! (bandOf p x - 1)\<rparr>
      | _ \<Rightarrow> None)"

definition bandable :: "(airQualityPollutant \<Rightarrow> jsNumber option) \<Rightarrow> bool" where
  "bandable vals \<longleftrightarrow>
     list_all (\<lambda>p. case vals p of None \<Rightarrow> True | Some (Finite x) \<Rightarrow> 0 \<le> x | _ \<Rightarrow> False) ALL_AIR_QUALITY_POLLUTANTS"

lemma subIndexOf_subOf:
  assumes "bandable vals"
  shows "subIndexOf vals p = Inr (p, subOf vals p)"
proof -
  have "case vals p of None \<Rightarrow> True | Some (Finite x) \<Rightarrow> 0 \<le> x | _ \<Rightarrow> False"
    using assms by (simp add: bandable_def list_all_iff)
  then show ?thesis
    using bandOf_range categoryForBand_range
    by (auto simp: subIndexOf_def subOf_def subIndexBand_bandOf split: option.splits jsNumber.splits)
qed

lemma computeEaqi_bandable:
  assumes "bandable vals"
  shows "computeEaqi vals = Inr
    \<lparr>eaqiOverall = worstOf (subOf vals),
     eaqiCategory = map_option (\<lambda>w. EAQI_CATEGORY_BY_BAND ! (w - 1)) (worstOf (subOf vals)),
     dominantPollutant = (case worstOf (subOf vals) of None \<Rightarrow> None
        | Some w \<Rightarrow> find (\<lambda>p. case subOf vals p of None \<Rightarrow> False | Some s \<Rightarrow> subBand s = w) dominantTieBreakOrder),
     missingPollutants = filter (\<lambda>p. vals p = None) ALL_AIR_QUALITY_POLLUTANTS,
     subIndexes = subOf vals\<rparr>"
proof -
  have entries: "mapOrThrow (subIndexOf vals) ps = Inr (map (\<lambda>p. (p, subOf vals p)) ps)" for ps
    by (induction ps) (simp_all add: subIndexOf_subOf [OF assms])
  have subs: "(case map_of (map (\<lambda>p. (p, subOf vals p)) ALL_AIR_QUALITY_POLLUTANTS) p of None \<Rightarrow> None | Some s \<Rightarrow> s)
      = subOf vals p" for p
    by (cases p) (simp_all add: ALL_AIR_QUALITY_POLLUTANTS_def)
  have range: "1 \<le> w \<and> w \<le> 6" if w: "worstOf (subOf vals) = Some w" for w
  proof -
    obtain p s where ps: "subOf vals p = Some s" "subBand s = w" using worstOf_Some(1) [OF w] by blast
    then obtain x where "subBand s = bandOf p x"
      by (auto simp: subOf_def split: option.splits jsNumber.splits)
    with ps(2) bandOf_range [of p x] show ?thesis by simp
  qed
  show ?thesis
  proof (cases "worstOf (subOf vals)")
    case None
    then show ?thesis unfolding computeEaqi_def entries andThen_simps Let_def subs by simp
  next
    case (Some w)
    then have "categoryForBand w = Inr (EAQI_CATEGORY_BY_BAND ! (w - 1))"
      using range categoryForBand_range by simp
    with Some show ?thesis unfolding computeEaqi_def entries andThen_simps Let_def subs by simp
  qed
qed

text \<open>
  C28: For concentrations that are present and not negative the index always exists. Each present
  pollutant's band is one more than the number of its bounds the value exceeds; the overall band
  is the worst of them, set by the first pollutant in the tie-break order that has it; missing
  pollutants are listed and never count, and there is no index exactly when all are missing.
\<close>

theorem eaqi_worst_band:
  assumes "bandable vals"
  shows "\<exists>r. computeEaqi vals = Inr r
    \<and> missingPollutants r = filter (\<lambda>p. vals p = None) ALL_AIR_QUALITY_POLLUTANTS
    \<and> (\<forall>p x. vals p = Some (Finite x) \<longrightarrow>
         subIndexes r p = Some \<lparr>subBand = bandOf p x, subCategory = EAQI_CATEGORY_BY_BAND ! (bandOf p x - 1)\<rparr>)
    \<and> (eaqiOverall r = None \<longleftrightarrow> (\<forall>p. vals p = None))
    \<and> (\<forall>w. eaqiOverall r = Some w \<longrightarrow>
         (\<forall>p s. subIndexes r p = Some s \<longrightarrow> subBand s \<le> w)
         \<and> eaqiCategory r = Some (EAQI_CATEGORY_BY_BAND ! (w - 1))
         \<and> (\<exists>before p after s. dominantTieBreakOrder = before @ p # after
              \<and> dominantPollutant r = Some p \<and> subIndexes r p = Some s \<and> subBand s = w
              \<and> (\<forall>q \<in> set before. \<forall>t. subIndexes r q = Some t \<longrightarrow> subBand t < w)))"
proof -
  have fin: "\<exists>x. vals p = Some (Finite x)" if "vals p = Some v" for p v
  proof -
    have "case vals p of None \<Rightarrow> True | Some (Finite x) \<Rightarrow> 0 \<le> x | _ \<Rightarrow> False"
      using assms by (simp add: bandable_def list_all_iff)
    with that show ?thesis by (cases v) auto
  qed
  have none: "subOf vals p = None \<longleftrightarrow> vals p = None" for p
    using fin [of p] by (cases "vals p") (auto simp: subOf_def)
  have dom: "\<exists>before p after s. dominantTieBreakOrder = before @ p # after
       \<and> find (\<lambda>p. case subOf vals p of None \<Rightarrow> False | Some s \<Rightarrow> subBand s = w) dominantTieBreakOrder = Some p
       \<and> subOf vals p = Some s \<and> subBand s = w
       \<and> (\<forall>q \<in> set before. \<forall>t. subOf vals q = Some t \<longrightarrow> subBand t < w)"
    if w: "worstOf (subOf vals) = Some w" for w
  proof -
    let ?has = "\<lambda>p. case subOf vals p of None \<Rightarrow> False | Some s \<Rightarrow> subBand s = w"
    obtain p s where ps: "subOf vals p = Some s" "subBand s = w" using worstOf_Some(1) [OF w] by auto
    have "p \<in> set dominantTieBreakOrder" by (simp add: set_tieBreak)
    moreover have "?has p" using ps by simp
    ultimately obtain q where q: "find ?has dominantTieBreakOrder = Some q"
      by (cases "find ?has dominantTieBreakOrder") (auto simp: find_None_iff)
    obtain ys zs where split: "dominantTieBreakOrder = ys @ q # zs" "?has q" "\<forall>y \<in> set ys. \<not> ?has y"
      using find_split [OF q] by blast
    from split(2) obtain t where t: "subOf vals q = Some t" "subBand t = w"
      by (cases "subOf vals q") auto
    have "\<forall>y \<in> set ys. \<forall>u. subOf vals y = Some u \<longrightarrow> subBand u < w"
      using split(3) worstOf_Some(2) [OF w] by (fastforce simp: order.strict_iff_order)
    with split(1) q t show ?thesis by blast
  qed
  show ?thesis
    unfolding computeEaqi_bandable [OF assms]
    using worstOf_None [of "subOf vals"] worstOf_Some(2) [of "subOf vals"] dom none
    by (auto simp: subOf_def)
qed

text \<open>On a bound the lower band counts; ozone ties with the coarse dust, which comes first.\<close>

definition sampleHour :: "airQualityPollutant \<Rightarrow> jsNumber option" where
  "sampleHour p = (case p of Pm2_5 \<Rightarrow> Some (Finite 5) | Pm10 \<Rightarrow> Some (Finite 50) | No2 \<Rightarrow> None
     | O3 \<Rightarrow> Some (Finite 101) | So2 \<Rightarrow> Some (Finite 0))"

lemma sampleHour_bandable: "bandable sampleHour"
  by (simp add: bandable_def ALL_AIR_QUALITY_POLLUTANTS_def sampleHour_def)

lemma sampleHour_eaqi:
  "\<exists>r. computeEaqi sampleHour = Inr r \<and> eaqiOverall r = Some 3 \<and> dominantPollutant r = Some Pm10
     \<and> missingPollutants r = [No2]"
  by (simp add: computeEaqi_bandable [OF sampleHour_bandable] worstOf_def subOf_def sampleHour_def
      ALL_AIR_QUALITY_POLLUTANTS_def dominantTieBreakOrder_def bandOf_def upperBoundsUgM3_def)

lemma eaqi_worst_band_witness:
  "\<exists>r. computeEaqi sampleHour = Inr r \<and> missingPollutants r = [No2] \<and> eaqiOverall r \<noteq> None"
proof -
  have "filter (\<lambda>p. sampleHour p = None) ALL_AIR_QUALITY_POLLUTANTS = [No2]"
    by (simp add: ALL_AIR_QUALITY_POLLUTANTS_def sampleHour_def)
  moreover have "\<not> (\<forall>p. sampleHour p = None)" by (metis sampleHour_def airQualityPollutant.case(1) option.simps(3))
  ultimately show ?thesis using eaqi_worst_band [OF sampleHour_bandable] by auto
qed

end
