(* ===== verification/Air_Quality_Compile.thy ===== *)
theory Air_Quality_Compile
  imports Eaqi Afad_Time Operation_Deadline
begin

text \<open>
  \<open>src/air-quality/air-quality-compile.ts\<close>: from the stored rows of a run to the compiled run
  that is cached. The \<open>jsonb\<close> columns
  and the members of a cached run are JSON values, read member by member as the code does; every
  instant is within the range of \<open>Date\<close>. A refusal has one constructor per message.
\<close>

definition AIR_QUALITY_STEP_HOURS :: rat where "AIR_QUALITY_STEP_HOURS = 1"
definition MS_PER_HOUR :: ms where "MS_PER_HOUR = 3600000"

section \<open>Data\<close>

type_synonym jsonValue = json

record compilableRun =
  crRunUtc :: ms
  crForecastHours :: int
  crAnalysisHours :: int
  crDatasetId :: jsText

text \<open>A numeric column that is not a number, and a date column that is not a valid date, is \<open>None\<close>.\<close>

record compilableRow =
  cwPlateCode :: jsText
  cwGridLatitude :: "jsNumber option"
  cwGridLongitude :: "jsNumber option"
  cwDistanceKm :: "jsNumber option"
  cwConcentrations :: json
  cwSupport :: json
  cwAnalysisConcentrations :: json
  cwAnalysisSupport :: json
  cwIngestedAt :: "ms option"

record compiledProvinceSeries =
  csPlateCode :: jsText
  csGridLatitude :: rat
  csGridLongitude :: rat
  csDistanceKm :: rat
  csIngestedAtUtc :: jsText
  csConcentrations :: "airQualityPollutant \<Rightarrow> json list"
  csSupport :: "airQualityPollutant \<Rightarrow> supportVerdict"

record compiledRun =
  cmRunUtc :: jsText
  cmDatasetId :: jsText
  cmAnalysisEndUtc :: "jsText option"
  cmStepHours :: rat
  cmTimesUtc :: "jsText list"
  cmHorizonEndUtc :: jsText
  cmProvinces :: "compiledProvinceSeries list"

datatype blockLabel = L_concentrations | L_support | L_analysisConcentrations | L_analysisSupport

datatype unreadableReason =
    No_plate_code
  | Not_finite_number string
  | Ingested_at_invalid
  | Block_not_object blockLabel
  | Member_not_array blockLabel airQualityPollutant
  | Block_ragged blockLabel airQualityPollutant nat nat
  | Block_without_pollutant blockLabel
  | Zero_steps
  | Forecast_step_count nat int
  | Not_support_verdict blockLabel airQualityPollutant
  | Analysis_absent int
  | Analysis_support_stray
  | Analysis_step_count nat int

type_synonym skippedRow = "jsText \<times> unreadableReason"

datatype compileRefusal = No_rows ms | All_rows_unreadable ms | Last_step_lost

datatype compileRunOutcome =
    Compiled compiledRun "skippedRow list" nat
  | Compile_schema_error compileRefusal "skippedRow list"

section \<open>Values\<close>

text \<open>The member of a block: \<open>undefined\<close> is \<open>None\<close>, also where the block is an array.\<close>

definition pollutantToken :: "airQualityPollutant \<Rightarrow> string" where
  "pollutantToken p =
     (case p of Pm2_5 \<Rightarrow> ''pm2_5'' | Pm10 \<Rightarrow> ''pm10'' | No2 \<Rightarrow> ''no2'' | O3 \<Rightarrow> ''o3'' | So2 \<Rightarrow> ''so2'')"

fun isObject :: "json \<Rightarrow> bool" where
  "isObject (JObject entries) = True"
| "isObject (JArray items) = True"
| "isObject j = False"

fun memberOf :: "json \<Rightarrow> string \<Rightarrow> json option" where
  "memberOf (JObject entries) name = jsonField entries name"
| "memberOf j name = None"

definition blockMember :: "json \<Rightarrow> airQualityPollutant \<Rightarrow> json option" where
  "blockMember block p = memberOf block (pollutantToken p)"

fun normaliseConcentration :: "json option \<Rightarrow> rat option" where
  "normaliseConcentration (Some (JNumber x)) = (if x < 0 then None else Some x)"
| "normaliseConcentration raw = None"

definition wasSubstituted :: "json option \<Rightarrow> rat option \<Rightarrow> bool" where
  "wasSubstituted raw normalised \<longleftrightarrow> normalised = None \<and> raw \<noteq> Some JNull \<and> raw \<noteq> None"

fun supportVerdictOf :: "json option \<Rightarrow> supportVerdict option" where
  "supportVerdictOf (Some (JString s)) =
     (if s = ascii ''ok'' then Some Support_ok
      else if s = ascii ''not_supported'' then Some Support_not_supported else None)"
| "supportVerdictOf raw = None"

definition isSupportVerdict :: "json option \<Rightarrow> bool" where
  "isSupportVerdict raw \<longleftrightarrow> supportVerdictOf raw \<noteq> None"

section \<open>Checking a row\<close>

fun measureMembers ::
  "json \<Rightarrow> blockLabel \<Rightarrow> airQualityPollutant list \<Rightarrow> nat option \<Rightarrow> unreadableReason + nat option" where
  "measureMembers block label [] len = Inr len"
| "measureMembers block label (p # ps) len =
     (case blockMember block p of
        Some (JArray items) \<Rightarrow>
          (case len of
             None \<Rightarrow> measureMembers block label ps (Some (length items))
           | Some n \<Rightarrow>
               if length items \<noteq> n then Inl (Block_ragged label p (length items) n)
               else measureMembers block label ps len)
      | _ \<Rightarrow> Inl (Member_not_array label p))"

definition measureBlock :: "json \<Rightarrow> blockLabel \<Rightarrow> unreadableReason + nat" where
  "measureBlock block label =
     (if \<not> isObject block then Inl (Block_not_object label)
      else andThen (measureMembers block label ALL_AIR_QUALITY_POLLUTANTS None) (\<lambda>len.
        orThrow len (Block_without_pollutant label)))"

definition checkSupport :: "json \<Rightarrow> blockLabel \<Rightarrow> unreadableReason + unit" where
  "checkSupport support label =
     (if \<not> isObject support then Inl (Block_not_object label)
      else case find (\<lambda>p. \<not> isSupportVerdict (blockMember support p)) ALL_AIR_QUALITY_POLLUTANTS of
             Some p \<Rightarrow> Inl (Not_support_verdict label p)
           | None \<Rightarrow> Inr ())"

fun isFiniteNumber :: "jsNumber option \<Rightarrow> bool" where
  "isFiniteNumber (Some (Finite x)) = True"
| "isFiniteNumber v = False"

text \<open>\<open>describeUnreadableRow\<close>: \<open>Inr ()\<close> stands for \<open>null\<close>, a row that can be read.\<close>

definition describeUnreadableRow :: "compilableRow \<Rightarrow> compilableRun \<Rightarrow> unreadableReason + unit" where
  "describeUnreadableRow row run =
     andThen (require (cwPlateCode row \<noteq> []) No_plate_code) (\<lambda>_.
     andThen (require (isFiniteNumber (cwGridLatitude row)) (Not_finite_number ''gridLatitude'')) (\<lambda>_.
     andThen (require (isFiniteNumber (cwGridLongitude row)) (Not_finite_number ''gridLongitude'')) (\<lambda>_.
     andThen (require (isFiniteNumber (cwDistanceKm row)) (Not_finite_number ''distanceKm'')) (\<lambda>_.
     andThen (require (cwIngestedAt row \<noteq> None) Ingested_at_invalid) (\<lambda>_.
     andThen (measureBlock (cwConcentrations row) L_concentrations) (\<lambda>forecast.
     andThen (require (\<not> forecast < 1) Zero_steps) (\<lambda>_.
     andThen (require (int forecast = crForecastHours run + 1)
                (Forecast_step_count forecast (crForecastHours run))) (\<lambda>_.
     andThen (checkSupport (cwSupport row) L_support) (\<lambda>_.
     if cwAnalysisConcentrations row = JNull then
       andThen (require (crAnalysisHours run = 0) (Analysis_absent (crAnalysisHours run))) (\<lambda>_.
       require (cwAnalysisSupport row = JNull) Analysis_support_stray)
     else
       andThen (measureBlock (cwAnalysisConcentrations row) L_analysisConcentrations) (\<lambda>analysis.
       andThen (require (int analysis = crAnalysisHours run)
                  (Analysis_step_count analysis (crAnalysisHours run))) (\<lambda>_.
       checkSupport (cwAnalysisSupport row) L_analysisSupport)))))))))))"

section \<open>Compiling a run\<close>

definition mergeSupport :: "supportVerdict \<Rightarrow> supportVerdict option \<Rightarrow> supportVerdict" where
  "mergeSupport forecast analysis =
     (if forecast = Support_ok then Support_ok
      else if analysis = Some Support_ok then Support_ok else Support_not_supported)"

text \<open>The arrays of a block that was checked; \<open>?? []\<close> where there is no analysis.\<close>

definition blockValues :: "json \<Rightarrow> airQualityPollutant \<Rightarrow> json list" where
  "blockValues block p = (case blockMember block p of Some (JArray items) \<Rightarrow> items | _ \<Rightarrow> [])"

definition storedValues :: "compilableRow \<Rightarrow> airQualityPollutant \<Rightarrow> json list" where
  "storedValues row p = blockValues (cwAnalysisConcentrations row) p @ blockValues (cwConcentrations row) p"

definition numberOrNull :: "rat option \<Rightarrow> json" where
  "numberOrNull v = (case v of None \<Rightarrow> JNull | Some x \<Rightarrow> JNumber x)"

definition finiteOf :: "jsNumber option \<Rightarrow> rat" where
  "finiteOf v = (case v of Some (Finite x) \<Rightarrow> x | _ \<Rightarrow> 0)"

definition compileProvince :: "compilableRow \<Rightarrow> compiledProvinceSeries" where
  "compileProvince row =
     \<lparr>csPlateCode = cwPlateCode row,
      csGridLatitude = finiteOf (cwGridLatitude row),
      csGridLongitude = finiteOf (cwGridLongitude row),
      csDistanceKm = finiteOf (cwDistanceKm row),
      csIngestedAtUtc = (case cwIngestedAt row of None \<Rightarrow> [] | Some t \<Rightarrow> toISOString t),
      csConcentrations = (\<lambda>p. map (\<lambda>raw. numberOrNull (normaliseConcentration (Some raw))) (storedValues row p)),
      csSupport = (\<lambda>p. mergeSupport
        (case supportVerdictOf (blockMember (cwSupport row) p) of None \<Rightarrow> Support_not_supported | Some v \<Rightarrow> v)
        (supportVerdictOf (blockMember (cwAnalysisSupport row) p)))\<rparr>"

definition normalisedIn :: "compilableRow \<Rightarrow> nat" where
  "normalisedIn row =
     sum_list (map (\<lambda>p. length (filter (\<lambda>raw. wasSubstituted (Some raw) (normaliseConcentration (Some raw)))
       (storedValues row p))) ALL_AIR_QUALITY_POLLUTANTS)"

definition readableRows :: "compilableRun \<Rightarrow> compilableRow list \<Rightarrow> compilableRow list" where
  "readableRows run rows = filter (\<lambda>r. describeUnreadableRow r run = Inr ()) rows"

fun skippedRows :: "compilableRun \<Rightarrow> compilableRow list \<Rightarrow> skippedRow list" where
  "skippedRows run [] = []"
| "skippedRows run (r # rows) =
     (case describeUnreadableRow r run of
        Inl why \<Rightarrow> (cwPlateCode r, why) # skippedRows run rows
      | Inr _ \<Rightarrow> skippedRows run rows)"

definition compileRun :: "compilableRun \<Rightarrow> compilableRow list \<Rightarrow> compileRunOutcome" where
  "compileRun run rows =
     (let skipped = skippedRows run rows; readable = readableRows run rows
      in case readable of
           [] \<Rightarrow> Compile_schema_error
             (if rows = [] then No_rows (crRunUtc run) else All_rows_unreadable (crRunUtc run)) skipped
         | row0 # _ \<Rightarrow>
            (let analysisSteps = (if cwAnalysisConcentrations row0 = JNull then 0
                   else length (blockValues (cwAnalysisConcentrations row0) Pm2_5));
                 forecastSteps = length (blockValues (cwConcentrations row0) Pm2_5);
                 totalSteps = analysisSteps + forecastSteps;
                 seriesStartMs = crRunUtc run - int analysisSteps * MS_PER_HOUR;
                 timesUtc = map (\<lambda>i. toISOString (seriesStartMs + int i * MS_PER_HOUR)) [0..<totalSteps]
             in if timesUtc = [] then Compile_schema_error Last_step_lost skipped
                else Compiled
                  \<lparr>cmRunUtc = toISOString (crRunUtc run), cmDatasetId = crDatasetId run,
                   cmAnalysisEndUtc = (if analysisSteps > 0 then Some (toISOString (crRunUtc run)) else None),
                   cmStepHours = AIR_QUALITY_STEP_HOURS, cmTimesUtc = timesUtc,
                   cmHorizonEndUtc = timesUtc ! (length timesUtc - 1),
                   cmProvinces = map compileProvince readable\<rparr>
                  skipped (sum_list (map normalisedIn readable))))"

section \<open>What a readable row holds\<close>

lemma measureMembers_Inr:
  "measureMembers block label ps len = Inr r \<Longrightarrow>
     (\<forall>n. len = Some n \<longrightarrow> r = Some n)
     \<and> (\<forall>p \<in> set ps. \<exists>items. blockMember block p = Some (JArray items) \<and> r = Some (length items))"
proof (induction ps arbitrary: len)
  case Nil
  then show ?case by simp
next
  case (Cons p ps)
  then obtain items where items: "blockMember block p = Some (JArray items)"
    by (auto split: option.splits json.splits)
  with Cons.prems have rest: "measureMembers block label ps (Some (length items)) = Inr r"
    and len: "\<forall>n. len = Some n \<longrightarrow> n = length items"
    by (auto split: option.splits if_splits)
  from Cons.IH [OF rest] len items show ?case by auto
qed

lemma measureBlock_Inr:
  assumes "measureBlock block label = Inr n"
  shows "isObject block"
    and "\<exists>items. blockMember block p = Some (JArray items) \<and> length items = n"
proof -
  from assms obtain len where obj: "isObject block"
      and m: "measureMembers block label ALL_AIR_QUALITY_POLLUTANTS None = Inr len" and l: "len = Some n"
    by (auto simp: measureBlock_def andThen_eq_Inr orThrow_eq_Inr split: if_splits)
  show "isObject block" by (fact obj)
  show "\<exists>items. blockMember block p = Some (JArray items) \<and> length items = n"
    using measureMembers_Inr [OF m] l by auto
qed

lemma measureBlock_length: "measureBlock block label = Inr n \<Longrightarrow> length (blockValues block p) = n"
  using measureBlock_Inr(2) [of block label n p] by (auto simp: blockValues_def)

lemma checkSupport_Inr:
  assumes "checkSupport support label = Inr u"
  shows "isObject support" and "supportVerdictOf (blockMember support p) \<noteq> None"
  using assms by (auto simp: checkSupport_def isSupportVerdict_def find_None_iff split: if_splits option.splits)

lemma isFiniteNumber_iff: "isFiniteNumber v \<longleftrightarrow> (\<exists>x. v = Some (Finite x))"
  by (cases v rule: isFiniteNumber.cases) simp_all

lemma blockValues_JNull [simp]: "blockValues JNull p = []"
  by (simp add: blockValues_def blockMember_def)

lemma readable_row:
  assumes "describeUnreadableRow row run = Inr ()"
  shows "cwPlateCode row \<noteq> []" and "\<exists>t. cwIngestedAt row = Some t"
    and "int (length (blockValues (cwConcentrations row) p)) = crForecastHours run + 1"
    and "int (length (blockValues (cwAnalysisConcentrations row) p)) = crAnalysisHours run"
    and "length (blockValues (cwConcentrations row) p) \<noteq> 0"
    and "supportVerdictOf (blockMember (cwSupport row) p) \<noteq> None"
proof -
  from assms obtain n where n: "measureBlock (cwConcentrations row) L_concentrations = Inr n"
      and plate: "cwPlateCode row \<noteq> []" and at: "cwIngestedAt row \<noteq> None" and pos: "\<not> n < 1"
      and steps: "int n = crForecastHours run + 1"
      and support: "checkSupport (cwSupport row) L_support = Inr ()"
    by (auto simp: describeUnreadableRow_def andThen_eq_Inr)
  show "cwPlateCode row \<noteq> []" "\<exists>t. cwIngestedAt row = Some t" using plate at by auto
  show "int (length (blockValues (cwConcentrations row) p)) = crForecastHours run + 1"
    and "length (blockValues (cwConcentrations row) p) \<noteq> 0"
    using measureBlock_length [OF n] steps pos by auto
  show "supportVerdictOf (blockMember (cwSupport row) p) \<noteq> None" by (rule checkSupport_Inr(2) [OF support])
  show "int (length (blockValues (cwAnalysisConcentrations row) p)) = crAnalysisHours run"
  proof (cases "cwAnalysisConcentrations row = JNull")
    case True
    with assms show ?thesis by (auto simp: describeUnreadableRow_def andThen_eq_Inr)
  next
    case False
    with assms obtain m where "measureBlock (cwAnalysisConcentrations row) L_analysisConcentrations = Inr m"
      and "int m = crAnalysisHours run" by (auto simp: describeUnreadableRow_def andThen_eq_Inr)
    then show ?thesis using measureBlock_length by simp
  qed
qed

lemma skippedRows_length: "length (readableRows run rows) + length (skippedRows run rows) = length rows"
  by (induction rows) (auto simp: readableRows_def split: sum.splits)

lemma skippedRows_set:
  "set (skippedRows run rows) = {(cwPlateCode r, why) |r why. r \<in> set rows \<and> describeUnreadableRow r run = Inl why}"
  by (induction rows) (auto split: sum.splits)

section \<open>What a compiled run holds\<close>

text \<open>The hours of a run: its analysis up to the run, then the forecast with the run's own hour.\<close>

definition runTimes :: "compilableRun \<Rightarrow> jsText list" where
  "runTimes run =
     map (\<lambda>i. toISOString (crRunUtc run + (int i - crAnalysisHours run) * MS_PER_HOUR))
       [0..<nat (crAnalysisHours run + crForecastHours run + 1)]"

lemma compileRun_cases:
  "compileRun run rows =
     (if readableRows run rows = [] then Compile_schema_error
        (if rows = [] then No_rows (crRunUtc run) else All_rows_unreadable (crRunUtc run)) (skippedRows run rows)
      else Compiled
        \<lparr>cmRunUtc = toISOString (crRunUtc run), cmDatasetId = crDatasetId run,
         cmAnalysisEndUtc = (if crAnalysisHours run > 0 then Some (toISOString (crRunUtc run)) else None),
         cmStepHours = AIR_QUALITY_STEP_HOURS, cmTimesUtc = runTimes run,
         cmHorizonEndUtc = toISOString (crRunUtc run + crForecastHours run * MS_PER_HOUR),
         cmProvinces = map compileProvince (readableRows run rows)\<rparr>
        (skippedRows run rows) (sum_list (map normalisedIn (readableRows run rows))))"
proof (cases "readableRows run rows")
  case Nil
  then show ?thesis by (simp add: compileRun_def)
next
  case (Cons row0 rest)
  then have "row0 \<in> set (readableRows run rows)" by simp
  then have "describeUnreadableRow row0 run = Inr ()" by (simp add: readableRows_def)
  note row0 = readable_row [OF this]
  let ?a = "length (blockValues (cwAnalysisConcentrations row0) Pm2_5)"
  let ?f = "length (blockValues (cwConcentrations row0) Pm2_5)"
  have a: "(if cwAnalysisConcentrations row0 = JNull then 0 else ?a) = ?a" by simp
  have steps: "int ?a = crAnalysisHours run" "int ?f = crForecastHours run + 1" "?f \<noteq> 0"
    using row0(3,4,5) [of Pm2_5] by simp_all
  let ?ts = "map (\<lambda>i. toISOString (crRunUtc run - int ?a * MS_PER_HOUR + int i * MS_PER_HOUR)) [0..<?a + ?f]"
  have n: "nat (crAnalysisHours run + crForecastHours run + 1) = ?a + ?f" using steps by simp
  have at: "crRunUtc run - int ?a * MS_PER_HOUR + int i * MS_PER_HOUR
      = crRunUtc run + (int i - crAnalysisHours run) * MS_PER_HOUR" for i
    unfolding steps(1) [symmetric] by (simp add: algebra_simps)
  have ts: "?ts = runTimes run" unfolding runTimes_def n at ..
  have pos: "?a > 0 \<longleftrightarrow> crAnalysisHours run > 0" using steps(1) by linarith
  have end_at: "?ts ! (length ?ts - 1) = toISOString (crRunUtc run + crForecastHours run * MS_PER_HOUR)"
  proof -
    have "int (?a + ?f - 1) - crAnalysisHours run = crForecastHours run" using steps by linarith
    moreover have "?ts ! (?a + ?f - 1)
        = toISOString (crRunUtc run + (int (?a + ?f - 1) - crAnalysisHours run) * MS_PER_HOUR)"
    proof -
      have "?a + ?f - 1 < ?a + ?f" using steps(3) by linarith
      then show ?thesis by (simp add: at)
    qed
    moreover have "length ?ts = ?a + ?f" by simp
    ultimately show ?thesis by (simp only:)
  qed
  have "?ts \<noteq> []" using steps(3) by simp
  then show ?thesis
    unfolding compileRun_def Let_def Cons list.case a pos if_not_P [OF \<open>?ts \<noteq> []\<close>] end_at
    by (simp add: ts)
qed

lemma runTimes_length: "length (runTimes run) = nat (crAnalysisHours run + crForecastHours run + 1)"
  by (simp add: runTimes_def)

lemma runTimes_nth:
  "i < length (runTimes run) \<Longrightarrow>
     runTimes run ! i = toISOString (crRunUtc run + (int i - crAnalysisHours run) * MS_PER_HOUR)"
  by (simp add: runTimes_def)

lemma readableRows_iff: "row \<in> set (readableRows run rows) \<longleftrightarrow> row \<in> set rows \<and> describeUnreadableRow row run = Inr ()"
  by (auto simp: readableRows_def)

lemma compiled_length:
  assumes "describeUnreadableRow row run = Inr ()"
  shows "length (csConcentrations (compileProvince row) p) = length (runTimes run)"
  using readable_row(3,4) [OF assms, of p] by (simp add: compileProvince_def storedValues_def runTimes_length)

lemma compiled_forecast:
  assumes "describeUnreadableRow row run = Inr ()" and "int h \<le> crForecastHours run"
  shows "csConcentrations (compileProvince row) p ! (nat (crAnalysisHours run) + h)
    = numberOrNull (normaliseConcentration (Some (blockValues (cwConcentrations row) p ! h)))"
proof -
  have a: "length (blockValues (cwAnalysisConcentrations row) p) = nat (crAnalysisHours run)"
    and f: "h < length (blockValues (cwConcentrations row) p)"
    using readable_row(3,4) [OF assms(1), of p] assms(2) by linarith+
  then show ?thesis by (simp add: compileProvince_def storedValues_def nth_append flip: a)
qed

lemma compiled_analysis:
  assumes "describeUnreadableRow row run = Inr ()" and "int h < crAnalysisHours run"
  shows "csConcentrations (compileProvince row) p ! h
    = numberOrNull (normaliseConcentration (Some (blockValues (cwAnalysisConcentrations row) p ! h)))"
proof -
  have a: "h < length (blockValues (cwAnalysisConcentrations row) p)"
    using readable_row(4) [OF assms(1), of p] assms(2) by linarith
  then show ?thesis by (simp add: compileProvince_def storedValues_def nth_append)
qed

lemma last_runTimes:
  assumes "describeUnreadableRow row run = Inr ()"
  shows "runTimes run \<noteq> []" and "last (runTimes run) = toISOString (crRunUtc run + crForecastHours run * MS_PER_HOUR)"
proof -
  have "length (runTimes run) \<noteq> 0"
    using compiled_length [OF assms, of Pm2_5] readable_row(3,4,5) [OF assms, of Pm2_5]
    unfolding runTimes_length by linarith
  then show ne: "runTimes run \<noteq> []" by simp
  have "int (length (runTimes run) - 1) - crAnalysisHours run = crForecastHours run"
    using readable_row(3,4) [OF assms, of Pm2_5] \<open>length (runTimes run) \<noteq> 0\<close>
    unfolding runTimes_length by linarith
  moreover have "length (runTimes run) - 1 < length (runTimes run)" using ne by simp
  ultimately show "last (runTimes run) = toISOString (crRunUtc run + crForecastHours run * MS_PER_HOUR)"
    unfolding last_conv_nth [OF ne] by (simp only: runTimes_nth)
qed

lemma compiled_province:
  assumes "s \<in> set (map compileProvince (readableRows run rows))"
  shows "\<exists>row \<in> set rows. describeUnreadableRow row run = Inr () \<and> csPlateCode s = cwPlateCode row
    \<and> (\<forall>p. length (csConcentrations s p) = length (runTimes run)
        \<and> (\<forall>h. int h < crAnalysisHours run \<longrightarrow> csConcentrations s p ! h
             = numberOrNull (normaliseConcentration (Some (blockValues (cwAnalysisConcentrations row) p ! h))))
        \<and> (\<forall>h. int h \<le> crForecastHours run \<longrightarrow> csConcentrations s p ! (nat (crAnalysisHours run) + h)
             = numberOrNull (normaliseConcentration (Some (blockValues (cwConcentrations row) p ! h)))))"
proof -
  obtain row where row: "row \<in> set (readableRows run rows)" and s: "s = compileProvince row" using assms by auto
  then have ok: "row \<in> set rows" "describeUnreadableRow row run = Inr ()" by (simp_all add: readableRows_iff)
  show ?thesis
    unfolding s
    by (rule bexI [OF _ ok(1)])
      (simp add: ok(2) compiled_length [OF ok(2)] compiled_analysis [OF ok(2)] compiled_forecast [OF ok(2)],
        simp add: compileProvince_def)
qed

text \<open>
  C15: A compiled run is aligned with its hours. Every row is a province or is skipped with its
  reason; the hours are the analysis hours before the run and the forecast hours from it on, the
  horizon is the last of them; and each province's series has one entry per hour, at an analysis
  hour the stored analysis value of that hour and at a forecast hour the stored forecast value,
  each of them kept when it is a number that is not negative and null otherwise.
\<close>

theorem compiled_run_aligned:
  assumes "compileRun run rows = Compiled compiled skipped n"
  shows "cmTimesUtc compiled = runTimes run \<and> cmHorizonEndUtc compiled = last (cmTimesUtc compiled)
    \<and> length (cmProvinces compiled) + length skipped = length rows
    \<and> set skipped = {(cwPlateCode r, why) |r why. r \<in> set rows \<and> describeUnreadableRow r run = Inl why}
    \<and> (\<forall>s \<in> set (cmProvinces compiled). \<exists>row \<in> set rows.
        describeUnreadableRow row run = Inr () \<and> csPlateCode s = cwPlateCode row
        \<and> (\<forall>p. length (csConcentrations s p) = length (cmTimesUtc compiled)
            \<and> (\<forall>h. int h < crAnalysisHours run \<longrightarrow> csConcentrations s p ! h
                 = numberOrNull (normaliseConcentration (Some (blockValues (cwAnalysisConcentrations row) p ! h))))
            \<and> (\<forall>h. int h \<le> crForecastHours run \<longrightarrow> csConcentrations s p ! (nat (crAnalysisHours run) + h)
                 = numberOrNull (normaliseConcentration (Some (blockValues (cwConcentrations row) p ! h))))))"
proof (intro conjI ballI)
  have ne: "readableRows run rows \<noteq> []" using assms by (auto simp: compileRun_cases)
  then obtain row where "row \<in> set (readableRows run rows)" by (cases "readableRows run rows") auto
  then have row: "describeUnreadableRow row run = Inr ()" by (simp add: readableRows_iff)
  have c: "cmTimesUtc compiled = runTimes run" "skipped = skippedRows run rows"
      "cmHorizonEndUtc compiled = toISOString (crRunUtc run + crForecastHours run * MS_PER_HOUR)"
      "cmProvinces compiled = map compileProvince (readableRows run rows)"
    using assms ne by (auto simp: compileRun_cases)
  show "cmTimesUtc compiled = runTimes run" by (fact c(1))
  show "cmHorizonEndUtc compiled = last (cmTimesUtc compiled)" unfolding c last_runTimes(2) [OF row] ..
  show "length (cmProvinces compiled) + length skipped = length rows"
    unfolding c using skippedRows_length by simp
  show "set skipped = {(cwPlateCode r, why) |r why. r \<in> set rows \<and> describeUnreadableRow r run = Inl why}"
    unfolding c by (rule skippedRows_set)
  fix s assume "s \<in> set (cmProvinces compiled)"
  then show "\<exists>row \<in> set rows. describeUnreadableRow row run = Inr () \<and> csPlateCode s = cwPlateCode row
        \<and> (\<forall>p. length (csConcentrations s p) = length (cmTimesUtc compiled)
            \<and> (\<forall>h. int h < crAnalysisHours run \<longrightarrow> csConcentrations s p ! h
                 = numberOrNull (normaliseConcentration (Some (blockValues (cwAnalysisConcentrations row) p ! h))))
            \<and> (\<forall>h. int h \<le> crForecastHours run \<longrightarrow> csConcentrations s p ! (nat (crAnalysisHours run) + h)
                 = numberOrNull (normaliseConcentration (Some (blockValues (cwConcentrations row) p ! h)))))"
    unfolding c by (rule compiled_province)
qed

text \<open>Two rows of a run with one analysis and one forecast step; the second has lost its plate code.\<close>

definition sampleBlock :: json where
  "sampleBlock = JObject (map (\<lambda>p. (ascii (pollutantToken p), JArray [JNumber 7])) ALL_AIR_QUALITY_POLLUTANTS)"

definition sampleSupport :: json where
  "sampleSupport = JObject (map (\<lambda>p. (ascii (pollutantToken p), JString (ascii ''ok''))) ALL_AIR_QUALITY_POLLUTANTS)"

definition sampleRow :: compilableRow where
  "sampleRow = \<lparr>cwPlateCode = ascii ''06'', cwGridLatitude = Some (Finite 40), cwGridLongitude = Some (Finite 33),
     cwDistanceKm = Some (Finite 2), cwConcentrations = sampleBlock, cwSupport = sampleSupport,
     cwAnalysisConcentrations = sampleBlock, cwAnalysisSupport = sampleSupport, cwIngestedAt = Some 5\<rparr>"

definition sampleRun :: compilableRun where
  "sampleRun = \<lparr>crRunUtc = 7200000, crForecastHours = 0, crAnalysisHours = 1, crDatasetId = ascii ''cams''\<rparr>"

lemma ascii_inj [simp]: "ascii a = ascii b \<longleftrightarrow> a = b"
proof
  assume "ascii a = ascii b"
  then have "map of_char a = (map of_char b :: int list)" by (simp add: ascii_def)
  then show "a = b" by (metis inj_map_eq_map inj_of_char)
qed simp

lemma sampleBlock_member: "blockMember sampleBlock p = Some (JArray [JNumber 7])"
  by (cases p) (simp_all add: sampleBlock_def blockMember_def jsonField_def ALL_AIR_QUALITY_POLLUTANTS_def
      pollutantToken_def)

lemma sampleSupport_member: "blockMember sampleSupport p = Some (JString (ascii ''ok''))"
  by (cases p) (simp_all add: sampleSupport_def blockMember_def jsonField_def ALL_AIR_QUALITY_POLLUTANTS_def
      pollutantToken_def)

lemma sampleRow_readable: "describeUnreadableRow sampleRow sampleRun = Inr ()"
proof -
  have "measureBlock sampleBlock label = Inr 1" for label
    by (simp add: measureBlock_def sampleBlock_member ALL_AIR_QUALITY_POLLUTANTS_def) (simp add: sampleBlock_def)
  moreover have "checkSupport sampleSupport label = Inr ()" for label
    by (simp add: checkSupport_def sampleSupport_member isSupportVerdict_def ALL_AIR_QUALITY_POLLUTANTS_def)
      (simp add: sampleSupport_def)
  moreover have "sampleBlock \<noteq> JNull" by (simp add: sampleBlock_def)
  ultimately show ?thesis
    by (simp add: describeUnreadableRow_def sampleRow_def sampleRun_def ascii_def)
qed

lemma compiled_run_aligned_witness:
  "\<exists>compiled skipped n. compileRun sampleRun [sampleRow, sampleRow\<lparr>cwPlateCode := []\<rparr>] = Compiled compiled skipped n
     \<and> skipped = [([], No_plate_code)] \<and> length (cmProvinces compiled) + 1 = 2
     \<and> cmTimesUtc compiled = runTimes sampleRun"
proof -
  let ?rows = "[sampleRow, sampleRow\<lparr>cwPlateCode := []\<rparr>]"
  have bad: "describeUnreadableRow (sampleRow\<lparr>cwPlateCode := []\<rparr>) sampleRun = Inl No_plate_code"
    by (simp add: describeUnreadableRow_def)
  then have "readableRows sampleRun ?rows = [sampleRow]" "skippedRows sampleRun ?rows = [([], No_plate_code)]"
    by (simp_all add: readableRows_def sampleRow_readable)
  then obtain compiled n where c: "compileRun sampleRun ?rows = Compiled compiled [([], No_plate_code)] n"
    by (simp add: compileRun_cases)
  from compiled_run_aligned [OF c] have "cmTimesUtc compiled = runTimes sampleRun"
    "length (cmProvinces compiled) + 1 = 2" by simp_all
  with c show ?thesis by blast
qed

end
