(* ===== verification/Air_Quality_Publish.thy ===== *)
theory Air_Quality_Publish
  imports Air_Quality_Compile
begin

text \<open>
  The second half of \<open>src/air-quality/air-quality-compile.ts\<close>: from a compiled run to the step
  that is current, the published index of one step and the published series. The members of the
  response objects that are the same in every response (index system, unit, averaging period,
  source) are left out.
\<close>

definition CAMS_GRID_RESOLUTION_DEGREES :: rat where "CAMS_GRID_RESOLUTION_DEGREES = 1 / 10"

section \<open>Publishing\<close>

text \<open>A distance to a text that is no instant is \<open>NaN\<close>, which is less than nothing.\<close>

fun selectFrom ::
  "(jsText \<Rightarrow> ms option) \<Rightarrow> ms \<Rightarrow> jsText list \<Rightarrow> nat \<Rightarrow> nat \<Rightarrow> ms option \<Rightarrow> nat" where
  "selectFrom dateParse now [] index best bestDistance = best"
| "selectFrom dateParse now (entry # rest) index best bestDistance =
     (case dateParse entry of
        None \<Rightarrow> selectFrom dateParse now rest (index + 1) best bestDistance
      | Some t \<Rightarrow>
          (let distance = \<bar>t - now\<bar>
           in if (case bestDistance of None \<Rightarrow> True | Some b \<Rightarrow> distance < b)
              then selectFrom dateParse now rest (index + 1) index (Some distance)
              else selectFrom dateParse now rest (index + 1) best bestDistance))"

definition selectStepIndex :: "(jsText \<Rightarrow> ms option) \<Rightarrow> jsText list \<Rightarrow> ms \<Rightarrow> nat option" where
  "selectStepIndex dateParse timesUtc now =
     (if timesUtc = [] then None else Some (selectFrom dateParse now timesUtc 0 0 None))"

text \<open>\<open>xs[i]\<close>, \<open>undefined\<close> past the end.\<close>

definition itemAt :: "'a list \<Rightarrow> nat \<Rightarrow> 'a option" where
  "itemAt xs i = (if i < length xs then Some (xs ! i) else None)"

definition rawAt :: "compiledProvinceSeries \<Rightarrow> nat \<Rightarrow> airQualityPollutant \<Rightarrow> json option" where
  "rawAt province stepIndex p = itemAt (csConcentrations province p) stepIndex"

definition eaqiInputAt :: "compiledProvinceSeries \<Rightarrow> nat \<Rightarrow> airQualityPollutant \<Rightarrow> rat option" where
  "eaqiInputAt province stepIndex p =
     (if csSupport province p = Support_not_supported then None
      else normaliseConcentration (rawAt province stepIndex p))"

text \<open>What one reading of a step adds to the tally, when there is one.\<close>

definition tallyAt :: "compiledProvinceSeries \<Rightarrow> nat \<Rightarrow> nat option \<Rightarrow> nat option" where
  "tallyAt province stepIndex tally =
     map_option (\<lambda>count. count + length (filter (\<lambda>p. csSupport province p \<noteq> Support_not_supported
         \<and> wasSubstituted (rawAt province stepIndex p) (normaliseConcentration (rawAt province stepIndex p)))
       ALL_AIR_QUALITY_POLLUTANTS)) tally"

record indexProvenance =
  pvFreshness :: "freshness option"
  pvFetchedAtUtc :: "ms option"
  pvStaleSinceUtc :: "ms option"

record pollutantValueDto =
  dvPollutant :: airQualityPollutant
  dvValue :: "rat option"
  dvSubIndexBand :: "eaqiBand option"
  dvSubIndexCategory :: "airQualityCategory option"
  dvStatus :: airQualityStatus

record airQualityIndexDto =
  diBand :: "eaqiBand option"
  diCategory :: "airQualityCategory option"
  diDominantPollutant :: "airQualityPollutant option"
  diStatus :: airQualityStatus
  diFreshness :: "freshness option"
  diPollutants :: "pollutantValueDto list"
  diMissingPollutants :: "airQualityPollutant list"
  diValidAtUtc :: "jsText option"
  diModelRunAtUtc :: "jsText option"
  diIngestedAtUtc :: "jsText option"
  diFetchedAtUtc :: "ms option"
  diStaleSinceUtc :: "ms option"
  diDatasetId :: "jsText option"
  diGridLatitude :: "rat option"
  diGridLongitude :: "rat option"
  diDistanceKm :: "rat option"
  diGridResolutionDegrees :: rat

definition pollutantDto ::
  "compiledProvinceSeries \<Rightarrow> (airQualityPollutant \<Rightarrow> rat option) \<Rightarrow> eaqiResult \<Rightarrow> airQualityPollutant
   \<Rightarrow> pollutantValueDto" where
  "pollutantDto province vals eaqi p =
     (let sub = subIndexes eaqi p
      in \<lparr>dvPollutant = p, dvValue = vals p,
          dvSubIndexBand = map_option subBand sub,
          dvSubIndexCategory = map_option subCategory sub,
          dvStatus = (if csSupport province p = Support_not_supported then Aq_not_supported
             else if vals p = None then Aq_no_data else Aq_ok)\<rparr>)"

definition buildIndexDto ::
  "compiledRun \<Rightarrow> compiledProvinceSeries \<Rightarrow> nat \<Rightarrow> indexProvenance \<Rightarrow> nat option
   \<Rightarrow> eaqiRangeError + (airQualityIndexDto \<times> nat option)" where
  "buildIndexDto compiled province stepIndex provenance tally =
     (let vals = eaqiInputAt province stepIndex; tally' = tallyAt province stepIndex tally
      in andThen (computeEaqi (\<lambda>p. map_option Finite (vals p))) (\<lambda>eaqi.
         let status = (if eaqiOverall eaqi = None then Aq_no_data else Aq_ok)
         in Inr
          (\<lparr>diBand = eaqiOverall eaqi, diCategory = eaqiCategory eaqi,
            diDominantPollutant = dominantPollutant eaqi, diStatus = status,
            diFreshness = (if status = Aq_ok then pvFreshness provenance else None),
            diPollutants = map (pollutantDto province vals eaqi) ALL_AIR_QUALITY_POLLUTANTS,
            diMissingPollutants = missingPollutants eaqi,
            diValidAtUtc = itemAt (cmTimesUtc compiled) stepIndex,
            diModelRunAtUtc = Some (cmRunUtc compiled),
            diIngestedAtUtc = Some (csIngestedAtUtc province),
            diFetchedAtUtc = pvFetchedAtUtc provenance, diStaleSinceUtc = pvStaleSinceUtc provenance,
            diDatasetId = Some (cmDatasetId compiled),
            diGridLatitude = Some (csGridLatitude province),
            diGridLongitude = Some (csGridLongitude province),
            diDistanceKm = Some (csDistanceKm province),
            diGridResolutionDegrees = CAMS_GRID_RESOLUTION_DEGREES\<rparr>, tally')))"

definition unavailableIndexDto :: airQualityIndexDto where
  "unavailableIndexDto =
     \<lparr>diBand = None, diCategory = None, diDominantPollutant = None, diStatus = Aq_unavailable,
      diFreshness = None, diPollutants = [], diMissingPollutants = ALL_AIR_QUALITY_POLLUTANTS,
      diValidAtUtc = None, diModelRunAtUtc = None, diIngestedAtUtc = None, diFetchedAtUtc = None,
      diStaleSinceUtc = None, diDatasetId = None, diGridLatitude = None, diGridLongitude = None,
      diDistanceKm = None, diGridResolutionDegrees = CAMS_GRID_RESOLUTION_DEGREES\<rparr>"

record airQualitySeriesDto =
  dsTimesUtc :: "jsText list"
  dsStepHours :: rat
  dsHorizonEndUtc :: jsText
  dsAnalysisEndUtc :: "jsText option"
  dsBands :: "eaqiBand option list"
  dsCategories :: "airQualityCategory option list"
  dsDominantPollutants :: "airQualityPollutant option list"
  dsConcentrations :: "airQualityPollutant \<Rightarrow> rat option list"

definition publishedValues :: "compiledProvinceSeries \<Rightarrow> airQualityPollutant \<Rightarrow> rat option list" where
  "publishedValues province p = map (\<lambda>v. normaliseConcentration (Some v)) (csConcentrations province p)"

fun seriesSteps ::
  "compiledProvinceSeries \<Rightarrow> nat list \<Rightarrow> nat option \<Rightarrow> eaqiRangeError + (eaqiResult list \<times> nat option)" where
  "seriesSteps province [] tally = Inr ([], tally)"
| "seriesSteps province (i # is) tally =
     andThen (computeEaqi (\<lambda>p. map_option Finite (eaqiInputAt province i p))) (\<lambda>eaqi.
     andThen (seriesSteps province is (tallyAt province i tally)) (\<lambda>(rest, tally').
       Inr (eaqi # rest, tally')))"

definition buildSeriesDto ::
  "compiledRun \<Rightarrow> compiledProvinceSeries \<Rightarrow> nat option
   \<Rightarrow> eaqiRangeError + (airQualitySeriesDto \<times> nat option)" where
  "buildSeriesDto compiled province tally =
     andThen (seriesSteps province [0..<length (cmTimesUtc compiled)] tally) (\<lambda>(steps, tally').
       Inr (\<lparr>dsTimesUtc = cmTimesUtc compiled, dsStepHours = cmStepHours compiled,
             dsHorizonEndUtc = cmHorizonEndUtc compiled, dsAnalysisEndUtc = cmAnalysisEndUtc compiled,
             dsBands = map eaqiOverall steps, dsCategories = map eaqiCategory steps,
             dsDominantPollutants = map dominantPollutant steps,
             dsConcentrations = publishedValues province\<rparr>, tally'))"

section \<open>The nearest step\<close>

lemma selectFrom_bounds:
  "selectFrom dp now ts index best d < index + length ts \<or> selectFrom dp now ts index best d = best"
proof (induction ts arbitrary: index best d)
  case Nil
  then show ?case by simp
next
  case (Cons x ts)
  show ?case
    using Cons.IH [of "index + 1" best d] Cons.IH [of "index + 1" index "map_option (\<lambda>t. \<bar>t - now\<bar>) (dp x)"]
    by (auto simp: Let_def split: option.splits)
qed

text \<open>The step the loop keeps: the nearest so far, the earliest of equals.\<close>

definition nearestIn :: "(jsText \<Rightarrow> ms option) \<Rightarrow> ms \<Rightarrow> jsText list \<Rightarrow> nat \<Rightarrow> ms \<Rightarrow> bool" where
  "nearestIn dp now ts i d \<longleftrightarrow> i < length ts \<and> (\<exists>t. dp (ts ! i) = Some t \<and> d = \<bar>t - now\<bar>)
     \<and> (\<forall>j < length ts. \<forall>u. dp (ts ! j) = Some u \<longrightarrow> d \<le> \<bar>u - now\<bar> \<and> (j < i \<longrightarrow> d < \<bar>u - now\<bar>))"

lemma nearestIn_append:
  assumes "nearestIn dp now ts i d" and "\<forall>u. dp x = Some u \<longrightarrow> d \<le> \<bar>u - now\<bar>"
  shows "nearestIn dp now (ts @ [x]) i d"
  using assms by (auto simp: nearestIn_def nth_append less_Suc_eq)

lemma nearestIn_new:
  assumes "\<forall>j < length ts. \<forall>u. dp (ts ! j) = Some u \<longrightarrow> d < \<bar>u - now\<bar>" and "dp x = Some t" and "d = \<bar>t - now\<bar>"
  shows "nearestIn dp now (ts @ [x]) (length ts) d"
  using assms by (auto simp: nearestIn_def nth_append less_Suc_eq)

lemma selectFrom_nearest:
  assumes "case best of None \<Rightarrow> \<forall>x \<in> set seen. dp x = None | Some d \<Rightarrow> nearestIn dp now seen i d"
    and "\<exists>x \<in> set (seen @ ts). dp x \<noteq> None"
  shows "\<exists>d. nearestIn dp now (seen @ ts) (selectFrom dp now ts (length seen) i best) d"
  using assms
proof (induction ts arbitrary: seen i best)
  case Nil
  then show ?case by (cases best) auto
next
  case (Cons x ts)
  have some: "\<exists>y \<in> set ((seen @ [x]) @ ts). dp y \<noteq> None" using Cons.prems(2) by simp
  show ?case
  proof (cases "dp x")
    case None
    have "case best of None \<Rightarrow> \<forall>y \<in> set (seen @ [x]). dp y = None
        | Some d \<Rightarrow> nearestIn dp now (seen @ [x]) i d"
    proof (cases best)
      case None
      with Cons.prems(1) \<open>dp x = None\<close> show ?thesis by simp
    next
      case (Some d)
      with Cons.prems(1) have "nearestIn dp now seen i d" by simp
      then have "nearestIn dp now (seen @ [x]) i d" by (rule nearestIn_append) (simp add: \<open>dp x = None\<close>)
      with Some show ?thesis by simp
    qed
    from Cons.IH [OF this some] None show ?thesis by simp
  next
    case (Some t)
    show ?thesis
    proof (cases "case best of None \<Rightarrow> True | Some b \<Rightarrow> \<bar>t - now\<bar> < b")
      case True
      have "\<forall>j < length seen. \<forall>u. dp (seen ! j) = Some u \<longrightarrow> \<bar>t - now\<bar> < \<bar>u - now\<bar>"
      proof (cases best)
        case None
        with Cons.prems(1) have "\<forall>y \<in> set seen. dp y = None" by simp
        then show ?thesis by (metis nth_mem option.distinct(1))
      next
        case (Some b)
        with Cons.prems(1) have "nearestIn dp now seen i b" by simp
        moreover have "\<bar>t - now\<bar> < b" using True Some by simp
        ultimately show ?thesis unfolding nearestIn_def by (meson order.strict_trans2)
      qed
      then have "nearestIn dp now (seen @ [x]) (length seen) \<bar>t - now\<bar>"
        by (rule nearestIn_new) (simp_all add: Some)
      then have "case Some \<bar>t - now\<bar> of None \<Rightarrow> \<forall>y \<in> set (seen @ [x]). dp y = None
          | Some d \<Rightarrow> nearestIn dp now (seen @ [x]) (length seen) d" by simp
      from Cons.IH [OF this some] Some True show ?thesis by (simp add: Let_def)
    next
      case False
      then obtain b where b: "best = Some b" "b \<le> \<bar>t - now\<bar>" by (cases best) auto
      have "nearestIn dp now seen i b" using Cons.prems(1) b(1) by simp
      then have "nearestIn dp now (seen @ [x]) i b" by (rule nearestIn_append) (simp add: Some b(2))
      with b(1) have "case best of None \<Rightarrow> \<forall>y \<in> set (seen @ [x]). dp y = None
          | Some d \<Rightarrow> nearestIn dp now (seen @ [x]) i d" by simp
      from Cons.IH [OF this some] Some False b show ?thesis by (simp add: Let_def)
    qed
  qed
qed

text \<open>
  The current step is the nearest to now, the earlier of two at the same distance: among steps
  that are instants no step is nearer, and every earlier one is farther. Only an empty run has
  none.
\<close>

theorem current_step_nearest:
  assumes "\<exists>x \<in> set ts. dateParse x \<noteq> None"
  shows "\<exists>i t. selectStepIndex dateParse ts now = Some i \<and> i < length ts \<and> dateParse (ts ! i) = Some t
    \<and> (\<forall>j < length ts. \<forall>u. dateParse (ts ! j) = Some u \<longrightarrow>
         \<bar>t - now\<bar> \<le> \<bar>u - now\<bar> \<and> (j < i \<longrightarrow> \<bar>t - now\<bar> < \<bar>u - now\<bar>))"
proof -
  obtain d where "nearestIn dateParse now ts (selectFrom dateParse now ts 0 0 None) d"
    using selectFrom_nearest [where best = None and seen = "[]" and ts = ts and dp = dateParse and now = now and i = 0]
      assms by auto
  moreover have "ts \<noteq> []" using assms by auto
  ultimately show ?thesis unfolding nearestIn_def selectStepIndex_def by auto
qed

lemma current_step_nearest_witness:
  "\<exists>i t. selectStepIndex (\<lambda>x. Some (int (length x))) [[0], [0, 0, 0]] 2 = Some i
     \<and> (Some (int (length ([[0], [0, 0, 0]] ! i :: jsText))) = Some t)"
  using current_step_nearest [of "[[0], [0, 0, 0]]" "\<lambda>x. Some (int (length x))" 2] by auto

section \<open>Index and series\<close>

lemma normalise_nonneg: "normaliseConcentration raw = Some x \<Longrightarrow> 0 \<le> x"
  by (cases raw rule: normaliseConcentration.cases) (auto split: if_splits)

lemma input_bandable: "bandable (\<lambda>p. map_option Finite (eaqiInputAt province i p))"
  by (auto simp: bandable_def list_all_iff eaqiInputAt_def split: option.splits jsNumber.splits
      dest!: normalise_nonneg)

text \<open>What the index of a step is, for any series: it is never refused.\<close>

definition eaqiAt :: "compiledProvinceSeries \<Rightarrow> nat \<Rightarrow> eaqiResult" where
  "eaqiAt province i = projr (computeEaqi (\<lambda>p. map_option Finite (eaqiInputAt province i p)))"

lemma computeEaqi_at:
  "computeEaqi (\<lambda>p. map_option Finite (eaqiInputAt province i p)) = Inr (eaqiAt province i)"
  by (simp add: eaqiAt_def computeEaqi_bandable [OF input_bandable])

lemma seriesSteps_all:
  "\<exists>tally'. seriesSteps province is tally = Inr (map (eaqiAt province) is, tally')"
proof (induction "is" arbitrary: tally)
  case Nil
  then show ?case by simp
next
  case (Cons i "is")
  obtain t where "seriesSteps province is (tallyAt province i tally) = Inr (map (eaqiAt province) is, t)"
    using Cons.IH by blast
  then show ?case by (simp add: computeEaqi_at)
qed

lemma eaqiAt_overall: "eaqiOverall (eaqiAt province i) = None \<longleftrightarrow> (\<forall>p. eaqiInputAt province i p = None)"
  unfolding eaqiAt_def computeEaqi_bandable [OF input_bandable]
  by (simp add: worstOf_None subOf_def split: option.split)

text \<open>
  C22: The index of a step and the series of the same province agree: both are built without an
  error from any compiled run, the series has one band, category and dominant pollutant for
  each hour, and at every hour they are the ones the index of that hour carries. The index is
  ok exactly when some supported pollutant has a published value there, it is labelled fresh or
  stale only then, and each pollutant it lists carries the value of the series when the
  pollutant is supported and none otherwise.
\<close>

theorem index_agrees_with_series:
  assumes "i < length (cmTimesUtc compiled)"
    and "\<And>p. length (csConcentrations province p) = length (cmTimesUtc compiled)"
  shows "\<exists>index t1 ser t2. buildIndexDto compiled province i provenance tally = Inr (index, t1)
    \<and> buildSeriesDto compiled province tally' = Inr (ser, t2)
    \<and> length (dsBands ser) = length (dsTimesUtc ser) \<and> length (dsCategories ser) = length (dsTimesUtc ser)
    \<and> dsBands ser ! i = diBand index \<and> dsCategories ser ! i = diCategory index
    \<and> dsDominantPollutants ser ! i = diDominantPollutant index
    \<and> diValidAtUtc index = Some (dsTimesUtc ser ! i)
    \<and> (diStatus index = Aq_ok \<longleftrightarrow>
         (\<exists>p. csSupport province p = Support_ok \<and> dsConcentrations ser p ! i \<noteq> None))
    \<and> diFreshness index = (if diStatus index = Aq_ok then pvFreshness provenance else None)
    \<and> map dvPollutant (diPollutants index) = ALL_AIR_QUALITY_POLLUTANTS
    \<and> (\<forall>v \<in> set (diPollutants index). dvValue v =
         (if csSupport province (dvPollutant v) = Support_ok then dsConcentrations ser (dvPollutant v) ! i else None))"
proof -
  obtain t2 where steps: "seriesSteps province [0..<length (cmTimesUtc compiled)] tally'
      = Inr (map (eaqiAt province) [0..<length (cmTimesUtc compiled)], t2)"
    using seriesSteps_all by blast
  have val: "eaqiInputAt province i p
      = (if csSupport province p = Support_ok then publishedValues province p ! i else None)" for p
    using assms by (cases "csSupport province p") (simp_all add: eaqiInputAt_def rawAt_def itemAt_def publishedValues_def)
  have order: "map dvPollutant (map (pollutantDto province vals eaqi) ps) = ps" for vals eaqi ps
    by (simp add: pollutantDto_def Let_def comp_def)
  show ?thesis
    unfolding buildIndexDto_def buildSeriesDto_def Let_def computeEaqi_at steps andThen_simps prod.case
    using assms(1) order
    by (auto simp: eaqiAt_overall val itemAt_def pollutantDto_def Let_def split: if_splits)
qed

lemma index_agrees_with_series_witness:
  "\<exists>index t1. buildIndexDto \<lparr>cmRunUtc = [], cmDatasetId = [], cmAnalysisEndUtc = None, cmStepHours = 1,
       cmTimesUtc = [[1]], cmHorizonEndUtc = [], cmProvinces = []\<rparr>
     \<lparr>csPlateCode = [1], csGridLatitude = 0, csGridLongitude = 0, csDistanceKm = 0, csIngestedAtUtc = [],
      csConcentrations = (\<lambda>p. [JNumber 60]), csSupport = (\<lambda>p. Support_ok)\<rparr> 0
     \<lparr>pvFreshness = Some Stale, pvFetchedAtUtc = None, pvStaleSinceUtc = None\<rparr> None = Inr (index, t1)
     \<and> diStatus index = Aq_ok \<and> diFreshness index = Some Stale"
proof -
  let ?c = "\<lparr>cmRunUtc = [], cmDatasetId = [], cmAnalysisEndUtc = None, cmStepHours = 1,
       cmTimesUtc = [[1]], cmHorizonEndUtc = [], cmProvinces = []\<rparr> :: compiledRun"
  let ?s = "\<lparr>csPlateCode = [1], csGridLatitude = 0, csGridLongitude = 0, csDistanceKm = 0, csIngestedAtUtc = [],
      csConcentrations = (\<lambda>p. [JNumber 60]), csSupport = (\<lambda>p. Support_ok)\<rparr> :: compiledProvinceSeries"
  let ?v = "\<lparr>pvFreshness = Some Stale, pvFetchedAtUtc = None, pvStaleSinceUtc = None\<rparr> :: indexProvenance"
  obtain index t1 ser t2 where index: "buildIndexDto ?c ?s 0 ?v None = Inr (index, t1)"
      and ser: "buildSeriesDto ?c ?s None = Inr (ser, t2)"
      and ok: "diStatus index = Aq_ok \<longleftrightarrow> (\<exists>p. csSupport ?s p = Support_ok \<and> dsConcentrations ser p ! 0 \<noteq> None)"
      and fresh: "diFreshness index = (if diStatus index = Aq_ok then pvFreshness ?v else None)"
  proof -
    have "0 < length (cmTimesUtc ?c)" "\<And>p. length (csConcentrations ?s p) = length (cmTimesUtc ?c)" by simp_all
    from index_agrees_with_series [where tally = None and tally' = None and provenance = ?v, OF this]
    show ?thesis by (elim exE conjE) (rule that)
  qed
  have "dsConcentrations ser p = [Some 60]" for p
    using ser seriesSteps_all [of ?s "[0]" None]
    by (auto simp: buildSeriesDto_def publishedValues_def)
  with index ok fresh show ?thesis by simp
qed

end
