(* ===== verification/Air_Quality_Reader.thy ===== *)
theory Air_Quality_Reader
  imports Air_Quality_Publish Upstream_Cache_Values "HOL-Library.List_Lexorder"
begin

text \<open>
  \<open>src/air-quality/air-quality-read.store.ts\<close>, \<open>air-quality-run-age.ts\<close> and
  \<open>air-quality-series.reader.ts\<close>: the stored run is compiled when the cache asks for it, and
  what the cache gives back is checked before it is published. A cached run is a JSON value:
  whoever wrote it, the reader checks its shape and only then reads its members. A \<open>null\<close>
  payload is \<open>None\<close>, as in the cache model. The platform's \<open>Date.parse\<close> is an argument.
\<close>

section \<open>The tables\<close>

definition SERVICEABLE_RUN_STATES :: "airQualityRunState list" where
  "SERVICEABLE_RUN_STATES = [Run_serviceable, Run_complete, Run_degraded]"

record storedRun =
  srRunUtc :: ms
  srState :: airQualityRunState
  srForecastHours :: int
  srAnalysisHours :: int
  srDatasetId :: jsText

record storedSeries =
  ssRunUtc :: ms
  ssProvinceId :: string
  ssRow :: compilableRow

record airQualityTables =
  atRuns :: "storedRun list"
  atSeries :: "storedSeries list"
  atProvinces :: "(string \<times> jsText) list"

definition newestServiceableRun :: "airQualityTables \<Rightarrow> storedRun option" where
  "newestServiceableRun db =
     (case rev (sort_key srRunUtc (filter (\<lambda>r. srState r \<in> set SERVICEABLE_RUN_STATES) (atRuns db))) of
        [] \<Rightarrow> None
      | r # _ \<Rightarrow> Some r)"

text \<open>The plate code comes with the join; the other columns are the stored row's.\<close>

definition seriesForRun :: "airQualityTables \<Rightarrow> ms \<Rightarrow> compilableRow list" where
  "seriesForRun db runUtc =
     sort_key cwPlateCode
       (List.map_filter (\<lambda>s. if ssRunUtc s = runUtc
            then map_option (\<lambda>plate. (ssRow s)\<lparr>cwPlateCode := plate\<rparr>) (map_of (atProvinces db) (ssProvinceId s))
            else None) (atSeries db))"

text \<open>What the reader asks of the store: either query may fail, and both take time.\<close>

record airQualityReadStorePort =
  portNewestRun :: "string + storedRun option"
  portSeries :: "ms \<Rightarrow> string + compilableRow list"
  portTakesMs :: ms

definition readStoreOf :: "airQualityTables \<Rightarrow> ms \<Rightarrow> airQualityReadStorePort" where
  "readStoreOf db t =
     \<lparr>portNewestRun = Inr (newestServiceableRun db), portSeries = (\<lambda>u. Inr (seriesForRun db u)), portTakesMs = t\<rparr>"

section \<open>The age of a run\<close>

definition runAgeSeconds :: "ms \<Rightarrow> ms \<Rightarrow> rat" where
  "runAgeSeconds runUtc now = max 0 (of_int (now - runUtc) / 1000)"

definition isRunWithinMaxAge :: "ms \<Rightarrow> ms \<Rightarrow> int \<Rightarrow> bool" where
  "isRunWithinMaxAge runUtc now maxAgeSeconds \<longleftrightarrow> runAgeSeconds runUtc now \<le> of_int maxAgeSeconds"

section \<open>The shape of a cached run\<close>

datatype runUnusable =
    Run_utc_not_instant | Dataset_not_string | Step_hours_not_number | Horizon_not_instant
  | Analysis_end_not_instant | Times_not_instants | Provinces_not_array
  | Province_not_object nat | Province_plate_code nat | Province_ingested_at nat
  | Province_not_number nat string | Province_concentrations nat | Province_support nat
  | Province_values_not_array nat airQualityPollutant
  | Province_values_count nat airQualityPollutant nat nat
  | Province_verdict nat airQualityPollutant

fun isInstant :: "(jsText \<Rightarrow> ms option) \<Rightarrow> jsonValue option \<Rightarrow> bool" where
  "isInstant dateParse (Some (JString s)) = (dateParse s \<noteq> None)"
| "isInstant dateParse v = False"

fun isNumberJson :: "jsonValue option \<Rightarrow> bool" where
  "isNumberJson (Some (JNumber x)) = True"
| "isNumberJson v = False"

fun isStringJson :: "jsonValue option \<Rightarrow> bool" where
  "isStringJson (Some (JString s)) = True"
| "isStringJson v = False"

fun arrayItems :: "jsonValue option \<Rightarrow> jsonValue list option" where
  "arrayItems (Some (JArray items)) = Some items"
| "arrayItems v = None"

definition isObjectMember :: "jsonValue option \<Rightarrow> bool" where
  "isObjectMember v \<longleftrightarrow> (case v of None \<Rightarrow> False | Some j \<Rightarrow> isObject j)"

fun checkPollutants ::
  "jsonValue \<Rightarrow> jsonValue \<Rightarrow> nat \<Rightarrow> nat \<Rightarrow> airQualityPollutant list \<Rightarrow> runUnusable + unit" where
  "checkPollutants concentrations support index stepCount [] = Inr ()"
| "checkPollutants concentrations support index stepCount (p # ps) =
     andThen (orThrow (arrayItems (blockMember concentrations p)) (Province_values_not_array index p)) (\<lambda>items.
     andThen (require (length items = stepCount) (Province_values_count index p (length items) stepCount)) (\<lambda>_.
     andThen (require (isSupportVerdict (blockMember support p)) (Province_verdict index p)) (\<lambda>_.
       checkPollutants concentrations support index stepCount ps)))"

text \<open>As for rows, \<open>Inr ()\<close> stands for \<open>null\<close>: nothing to describe.\<close>

definition describeUnusableProvince ::
  "(jsText \<Rightarrow> ms option) \<Rightarrow> jsonValue \<Rightarrow> nat \<Rightarrow> nat \<Rightarrow> runUnusable + unit" where
  "describeUnusableProvince dateParse v index stepCount =
     andThen (require (isObject v) (Province_not_object index)) (\<lambda>_.
     andThen (require (isStringJson (memberOf v ''plateCode'') \<and> memberOf v ''plateCode'' \<noteq> Some (JString []))
                (Province_plate_code index)) (\<lambda>_.
     andThen (require (isInstant dateParse (memberOf v ''ingestedAtUtc'')) (Province_ingested_at index)) (\<lambda>_.
     andThen (require (isNumberJson (memberOf v ''gridLatitude'')) (Province_not_number index ''gridLatitude'')) (\<lambda>_.
     andThen (require (isNumberJson (memberOf v ''gridLongitude'')) (Province_not_number index ''gridLongitude'')) (\<lambda>_.
     andThen (require (isNumberJson (memberOf v ''distanceKm'')) (Province_not_number index ''distanceKm'')) (\<lambda>_.
     andThen (require (isObjectMember (memberOf v ''concentrations'')) (Province_concentrations index)) (\<lambda>_.
     andThen (require (isObjectMember (memberOf v ''support'')) (Province_support index)) (\<lambda>_.
       checkPollutants (the (memberOf v ''concentrations'')) (the (memberOf v ''support'')) index stepCount
         ALL_AIR_QUALITY_POLLUTANTS))))))))"

fun checkProvinces ::
  "(jsText \<Rightarrow> ms option) \<Rightarrow> nat \<Rightarrow> nat \<Rightarrow> jsonValue list \<Rightarrow> runUnusable + unit" where
  "checkProvinces dateParse stepCount index [] = Inr ()"
| "checkProvinces dateParse stepCount index (v # vs) =
     andThen (describeUnusableProvince dateParse v index stepCount) (\<lambda>_.
       checkProvinces dateParse stepCount (index + 1) vs)"

definition describeUnusableRun :: "(jsText \<Rightarrow> ms option) \<Rightarrow> jsonValue \<Rightarrow> runUnusable + unit" where
  "describeUnusableRun dateParse v =
     andThen (require (isInstant dateParse (memberOf v ''runUtc'')) Run_utc_not_instant) (\<lambda>_.
     andThen (require (isStringJson (memberOf v ''datasetId'')) Dataset_not_string) (\<lambda>_.
     andThen (require (isNumberJson (memberOf v ''stepHours'')) Step_hours_not_number) (\<lambda>_.
     andThen (require (isInstant dateParse (memberOf v ''horizonEndUtc'')) Horizon_not_instant) (\<lambda>_.
     andThen (require (memberOf v ''analysisEndUtc'' = Some JNull \<or> isInstant dateParse (memberOf v ''analysisEndUtc''))
                Analysis_end_not_instant) (\<lambda>_.
     andThen (orThrow (arrayItems (memberOf v ''timesUtc'')) Times_not_instants) (\<lambda>times.
     andThen (require (list_all (\<lambda>t. isInstant dateParse (Some t)) times \<and> times \<noteq> []) Times_not_instants) (\<lambda>_.
     andThen (orThrow (arrayItems (memberOf v ''provinces'')) Provinces_not_array) (\<lambda>provinces.
       checkProvinces dateParse (length times) 0 provinces))))))))"

section \<open>Reading the members\<close>

text \<open>The cached value seen as a compiled run: what reading its members gives once its shape is known.\<close>

fun textOf :: "jsonValue option \<Rightarrow> jsText" where
  "textOf (Some (JString s)) = s"
| "textOf v = []"

fun numberOf :: "jsonValue option \<Rightarrow> rat" where
  "numberOf (Some (JNumber x)) = x"
| "numberOf v = 0"

definition itemsOf :: "jsonValue option \<Rightarrow> jsonValue list" where
  "itemsOf v = (case arrayItems v of None \<Rightarrow> [] | Some items \<Rightarrow> items)"

definition memberOfMember :: "jsonValue option \<Rightarrow> airQualityPollutant \<Rightarrow> jsonValue option" where
  "memberOfMember v p = (case v of None \<Rightarrow> None | Some j \<Rightarrow> blockMember j p)"

definition provinceView :: "jsonValue \<Rightarrow> compiledProvinceSeries" where
  "provinceView v =
     \<lparr>csPlateCode = textOf (memberOf v ''plateCode''), csGridLatitude = numberOf (memberOf v ''gridLatitude''),
      csGridLongitude = numberOf (memberOf v ''gridLongitude''), csDistanceKm = numberOf (memberOf v ''distanceKm''),
      csIngestedAtUtc = textOf (memberOf v ''ingestedAtUtc''),
      csConcentrations = (\<lambda>p. itemsOf (memberOfMember (memberOf v ''concentrations'') p)),
      csSupport = (\<lambda>p. case supportVerdictOf (memberOfMember (memberOf v ''support'') p) of
        None \<Rightarrow> Support_not_supported | Some s \<Rightarrow> s)\<rparr>"

definition runView :: "jsonValue \<Rightarrow> compiledRun" where
  "runView v =
     \<lparr>cmRunUtc = textOf (memberOf v ''runUtc''), cmDatasetId = textOf (memberOf v ''datasetId''),
      cmAnalysisEndUtc = (case memberOf v ''analysisEndUtc'' of Some (JString s) \<Rightarrow> Some s | _ \<Rightarrow> None),
      cmStepHours = numberOf (memberOf v ''stepHours''),
      cmTimesUtc = map (\<lambda>t. textOf (Some t)) (itemsOf (memberOf v ''timesUtc'')),
      cmHorizonEndUtc = textOf (memberOf v ''horizonEndUtc''),
      cmProvinces = map provinceView (itemsOf (memberOf v ''provinces''))\<rparr>"

text \<open>The JSON form of a compiled run, with the members in the order of the code's object literals.\<close>

definition verdictText :: "supportVerdict \<Rightarrow> string" where
  "verdictText s = (case s of Support_ok \<Rightarrow> ''ok'' | Support_not_supported \<Rightarrow> ''not_supported'')"

definition perPollutant :: "(airQualityPollutant \<Rightarrow> jsonValue) \<Rightarrow> jsonValue" where
  "perPollutant f = JObject (map (\<lambda>p. (ascii (pollutantToken p), f p)) ALL_AIR_QUALITY_POLLUTANTS)"

definition provinceJson :: "compiledProvinceSeries \<Rightarrow> jsonValue" where
  "provinceJson s =
     JObject [(ascii ''plateCode'', JString (csPlateCode s)), (ascii ''gridLatitude'', JNumber (csGridLatitude s)),
      (ascii ''gridLongitude'', JNumber (csGridLongitude s)), (ascii ''distanceKm'', JNumber (csDistanceKm s)),
      (ascii ''ingestedAtUtc'', JString (csIngestedAtUtc s)),
      (ascii ''concentrations'', perPollutant (\<lambda>p. JArray (csConcentrations s p))),
      (ascii ''support'', perPollutant (\<lambda>p. JString (ascii (verdictText (csSupport s p)))))]"

definition runJson :: "compiledRun \<Rightarrow> jsonValue" where
  "runJson c =
     JObject [(ascii ''runUtc'', JString (cmRunUtc c)), (ascii ''datasetId'', JString (cmDatasetId c)),
      (ascii ''analysisEndUtc'', case cmAnalysisEndUtc c of None \<Rightarrow> JNull | Some s \<Rightarrow> JString s),
      (ascii ''stepHours'', JNumber (cmStepHours c)), (ascii ''timesUtc'', JArray (map JString (cmTimesUtc c))),
      (ascii ''horizonEndUtc'', JString (cmHorizonEndUtc c)),
      (ascii ''provinces'', JArray (map provinceJson (cmProvinces c)))]"

section \<open>Reading a run\<close>

definition CAMS_ADS_PROVIDER :: string where "CAMS_ADS_PROVIDER = ''cams-ads''"
definition AIR_QUALITY_RUN_CACHE_KEY :: string where "AIR_QUALITY_RUN_CACHE_KEY = ''airq:run:current''"
definition AIR_QUALITY_READ_DEADLINE_MS :: ms where "AIR_QUALITY_READ_DEADLINE_MS = 5000"
definition EXIT_SUPPRESSION_LOG_EVERY_MS :: ms where "EXIT_SUPPRESSION_LOG_EVERY_MS = 60000"
definition R2_NORMALISATION_LOG_EVERY_MS :: ms where "R2_NORMALISATION_LOG_EVERY_MS = 60000"

record airQualityReaderConfig =
  arTtls :: outcomeTtlTable
  arCeilings :: stalenessCeilings
  arRunMaxAgeSeconds :: int

definition onMetrics :: "(metrics \<Rightarrow> metrics) \<Rightarrow> 's cacheWorld \<Rightarrow> 's cacheWorld" where
  "onMetrics f w = w\<lparr>wMetrics := f (wMetrics w)\<rparr>"

definition countAirq :: "string \<Rightarrow> metrics \<Rightarrow> metrics" where
  "countAirq name m = increment (M_event name) CAMS_ADS_PROVIDER m"

text \<open>One counter and one line for each row that was skipped.\<close>

definition reportSkipped :: "skippedRow list \<Rightarrow> metrics \<Rightarrow> metrics" where
  "reportSkipped skipped m =
     fold (\<lambda>_ m. event L_error ''air-quality stored series row is unreadable - province skipped''
       (countAirq ''ingest.corrupt_row_skipped'' m)) skipped m"

definition reportNormalised :: "nat \<Rightarrow> ms \<Rightarrow> metrics \<Rightarrow> metrics" where
  "reportNormalised count now m =
     (if count = 0 then m
      else snd (throttledEvent L_warn ''airq.concentration-normalised-compile'' R2_NORMALISATION_LOG_EVERY_MS
        ''STORED concentrations were negative/non-finite/non-numeric and were null-classified'' now
        (incrementBy (M_event ''airq.concentration_normalised'') CAMS_ADS_PROVIDER count m)))"

definition storeRead :: "airQualityReadStorePort \<Rightarrow> string + (storedRun \<times> compilableRow list) option" where
  "storeRead port =
     andThen (portNewestRun port) (\<lambda>newest.
       case newest of None \<Rightarrow> Inr None
       | Some run \<Rightarrow> andThen (portSeries port (srRunUtc run)) (\<lambda>rows. Inr (Some (run, rows))))"

definition compilableOf :: "storedRun \<Rightarrow> compilableRun" where
  "compilableOf run =
     \<lparr>crRunUtc = srRunUtc run, crForecastHours = srForecastHours run,
      crAnalysisHours = srAnalysisHours run, crDatasetId = srDatasetId run\<rparr>"

definition compileFromStore ::
  "(jsText \<Rightarrow> ms option) \<Rightarrow> airQualityReaderConfig \<Rightarrow> airQualityReadStorePort
   \<Rightarrow> (jsonValue upstreamOutcome, 's cacheWorld) refresh" where
  "compileFromStore dateParse cfg port w0 =
     (let w = w0\<lparr>wNow := wNow w0 + portTakesMs port\<rparr>; now = wNow w
      in case storeRead port of
           Inl e \<Rightarrow>
             (Inr (Out_transient (R_text ''the air-quality store could not be read'')),
              onMetrics (event L_error ''air-quality store read failed - degrading, never 500''
                o countAirq ''airq.store_read_failed'') w)
         | Inr None \<Rightarrow> (Inr (Out_transient (R_text ''no servable air-quality run is stored yet'')), w)
         | Inr (Some (run, rows)) \<Rightarrow>
            (if \<not> isRunWithinMaxAge (srRunUtc run) now (arRunMaxAgeSeconds cfg)
             then (Inr (Out_transient (R_text ''newest servable run is over the run-age ceiling'')),
                   onMetrics (event L_warn ''air-quality run-age ceiling suppressed publication''
                     o countAirq ''airq.run_age_ceiling'') w)
             else case compileRun (compilableOf run) rows of
                    Compile_schema_error why skipped \<Rightarrow>
                      (Inr (Out_schema_error (R_text ''the run holds no readable series row'')),
                       onMetrics (event L_error ''air-quality run holds no readable series row''
                         o countAirq ''airq.run_unreadable'' o reportSkipped skipped) w)
                  | Compiled compiled skipped normalised \<Rightarrow>
                      (let w' = onMetrics (reportNormalised normalised now o reportSkipped skipped) w
                       in case selectStepIndex dateParse (cmTimesUtc compiled) now of
                            None \<Rightarrow> (Inr (Out_schema_error (R_text ''the compiled run carries no publishable step'')), w')
                          | Some i \<Rightarrow>
                             (case itemAt (cmTimesUtc compiled) i of
                                None \<Rightarrow> (Inr (Out_schema_error (R_text ''the compiled run carries no publishable step'')), w')
                              | Some valid \<Rightarrow> (Inr (Out_ok (runJson compiled) (dateParse valid)), w')))))"

definition withoutValue :: "'a cachedRead \<Rightarrow> upstreamOutcomeKind \<Rightarrow> reason \<Rightarrow> 'a cachedRead" where
  "withoutValue r k why =
     r\<lparr>rValue := None, rKind := k, rFreshness := None, rCacheAgeSeconds := None, rValidAt := None,
       rReason := Some why\<rparr>"

definition suppressStaleRun ::
  "(jsText \<Rightarrow> ms option) \<Rightarrow> airQualityReaderConfig \<Rightarrow> jsonValue cachedRead \<Rightarrow> 's cacheWorld
   \<Rightarrow> jsonValue cachedRead \<times> 's cacheWorld" where
  "suppressStaleRun dateParse cfg r w =
     (case rValue r of
        None \<Rightarrow> (r, w)
      | Some v \<Rightarrow>
         (case describeUnusableRun dateParse v of
            Inl why \<Rightarrow>
             (let (emitted, m) = throttledEvent L_error ''airq.cached-run-unusable'' EXIT_SUPPRESSION_LOG_EVERY_MS
                    ''a CACHED air-quality run does not hold the written shape'' (wNow w) (wMetrics w);
                  m' = (if emitted then countAirq ''airq.cached_run_unusable'' m else m)
              in (withoutValue r K_schema_error (R_text ''the cached run is unusable''), w\<lparr>wMetrics := m'\<rparr>))
          | Inr _ \<Rightarrow>
             (let runUtc = the (dateParse (cmRunUtc (runView v)))
              in if isRunWithinMaxAge runUtc (wNow w) (arRunMaxAgeSeconds cfg) then (r, w)
                 else (withoutValue r K_transient (R_text ''cached run now breaches the run-age ceiling''),
                       w\<lparr>wMetrics := snd (throttledEvent L_warn ''airq.run-age-ceiling-exit''
                         EXIT_SUPPRESSION_LOG_EVERY_MS ''air-quality run-age ceiling suppressed a CACHED run on exit''
                         (wNow w) (wMetrics w))\<rparr>))))"

definition runReadOptions ::
  "(jsText \<Rightarrow> ms option) \<Rightarrow> airQualityReaderConfig \<Rightarrow> airQualityReadStorePort \<Rightarrow> operationDeadline option
   \<Rightarrow> (jsonValue, 's) readThroughOptions" where
  "runReadOptions dateParse cfg port deadline =
     \<lparr>optKey = AIR_QUALITY_RUN_CACHE_KEY, optProviderId = CAMS_ADS_PROVIDER, optTtls = arTtls cfg,
      optCeilings = arCeilings cfg, optDeadlineMs = AIR_QUALITY_READ_DEADLINE_MS, optDeadline = deadline,
      optRevalidateDeadlineMs = None, optRefresh = (\<lambda>_. compileFromStore dateParse cfg port)\<rparr>"

definition readRun ::
  "(jsonValue, 's) upstreamCacheStore \<Rightarrow> (jsonValue upstreamOutcome, 's cacheWorld) singleFlight \<Rightarrow> pollOptions
   \<Rightarrow> (jsText \<Rightarrow> ms option) \<Rightarrow> airQualityReaderConfig \<Rightarrow> airQualityReadStorePort
   \<Rightarrow> operationDeadline option \<Rightarrow> 's cacheWorld \<Rightarrow> (string + jsonValue cachedRead) \<times> bool \<times> 's cacheWorld" where
  "readRun cache flight poll dateParse cfg port deadline w =
     (let (res, bg, w1) = readThrough cache flight poll (runReadOptions dateParse cfg port deadline) w
      in case res of
           Inl e \<Rightarrow> (Inl e, bg, w1)
         | Inr r \<Rightarrow> (let (r', w2) = suppressStaleRun dateParse cfg r w1 in (Inr r', bg, w2)))"

definition reportPostCacheNormalisation :: "nat \<Rightarrow> ms \<Rightarrow> metrics \<Rightarrow> metrics" where
  "reportPostCacheNormalisation count now m =
     (if count = 0 then m
      else let (emitted, m') = throttledEvent L_warn ''airq.concentration-normalised-post-cache''
                 R2_NORMALISATION_LOG_EVERY_MS
                 ''CACHED concentrations were negative/non-finite/non-numeric and were null-classified on read'' now m
           in if emitted then countAirq ''airq.cached_concentration_normalised'' m' else m')"

section \<open>What the check guarantees\<close>

text \<open>A run that can be published: every member the publishing code reads is there and aligned.\<close>

definition wellShaped :: "(jsText \<Rightarrow> ms option) \<Rightarrow> compiledRun \<Rightarrow> bool" where
  "wellShaped dateParse c \<longleftrightarrow>
     dateParse (cmRunUtc c) \<noteq> None \<and> dateParse (cmHorizonEndUtc c) \<noteq> None
     \<and> (\<forall>t. cmAnalysisEndUtc c = Some t \<longrightarrow> dateParse t \<noteq> None)
     \<and> cmTimesUtc c \<noteq> [] \<and> (\<forall>t \<in> set (cmTimesUtc c). dateParse t \<noteq> None)
     \<and> (\<forall>s \<in> set (cmProvinces c). csPlateCode s \<noteq> [] \<and> dateParse (csIngestedAtUtc s) \<noteq> None
          \<and> (\<forall>p. length (csConcentrations s p) = length (cmTimesUtc c)))"

lemma isInstant_textOf: "isInstant dateParse v \<Longrightarrow> dateParse (textOf v) \<noteq> None"
  by (cases "(dateParse, v)" rule: isInstant.cases) auto

lemma checkPollutants_Inr:
  "checkPollutants concentrations support index n ps = Inr u \<Longrightarrow> p \<in> set ps \<Longrightarrow>
     length (itemsOf (blockMember concentrations p)) = n"
  by (induction ps) (auto simp: andThen_eq_Inr itemsOf_def)

lemma describeUnusableProvince_Inr:
  assumes "describeUnusableProvince dateParse v index n = Inr u"
  shows "csPlateCode (provinceView v) \<noteq> []" and "dateParse (csIngestedAtUtc (provinceView v)) \<noteq> None"
    and "length (csConcentrations (provinceView v) p) = n"
proof -
  from assms have plate: "isStringJson (memberOf v ''plateCode'')" "memberOf v ''plateCode'' \<noteq> Some (JString [])"
    and at: "isInstant dateParse (memberOf v ''ingestedAtUtc'')"
    and obj: "isObjectMember (memberOf v ''concentrations'')"
    and chk: "checkPollutants (the (memberOf v ''concentrations'')) (the (memberOf v ''support'')) index n
        ALL_AIR_QUALITY_POLLUTANTS = Inr u"
    by (simp_all add: describeUnusableProvince_def andThen_eq_Inr)
  show "csPlateCode (provinceView v) \<noteq> []"
    using plate by (cases "memberOf v ''plateCode''" rule: isStringJson.cases) (simp_all add: provinceView_def)
  show "dateParse (csIngestedAtUtc (provinceView v)) \<noteq> None"
    using isInstant_textOf [OF at] by (simp add: provinceView_def)
  from obj obtain c where c: "memberOf v ''concentrations'' = Some c"
    by (auto simp: isObjectMember_def split: option.splits)
  have "length (itemsOf (blockMember c p)) = n" using checkPollutants_Inr [OF chk, of p] by (simp add: c)
  then show "length (csConcentrations (provinceView v) p) = n" by (simp add: provinceView_def memberOfMember_def c)
qed

lemma checkProvinces_Inr:
  "checkProvinces dateParse n index vs = Inr u \<Longrightarrow> v \<in> set vs \<Longrightarrow>
     \<exists>i. describeUnusableProvince dateParse v i n = Inr ()"
  by (induction vs arbitrary: index) (auto simp: andThen_eq_Inr)

lemma described_well_shaped:
  assumes "describeUnusableRun dateParse v = Inr u"
  shows "wellShaped dateParse (runView v)"
proof -
  obtain times provinces where
      r: "isInstant dateParse (memberOf v ''runUtc'')" "isInstant dateParse (memberOf v ''horizonEndUtc'')"
      and t: "arrayItems (memberOf v ''timesUtc'') = Some times"
        "list_all (\<lambda>t. isInstant dateParse (Some t)) times" "times \<noteq> []"
      and p: "arrayItems (memberOf v ''provinces'') = Some provinces"
        "checkProvinces dateParse (length times) 0 provinces = Inr u"
    using assms by (auto simp: describeUnusableRun_def andThen_eq_Inr)
  have times: "cmTimesUtc (runView v) = map (\<lambda>t. textOf (Some t)) times"
    and provs: "cmProvinces (runView v) = map provinceView provinces"
    by (simp_all add: runView_def itemsOf_def t p)
  have "csPlateCode s \<noteq> [] \<and> dateParse (csIngestedAtUtc s) \<noteq> None
      \<and> (\<forall>q. length (csConcentrations s q) = length times)" if "s \<in> set (cmProvinces (runView v))" for s
  proof -
    from that obtain x where x: "x \<in> set provinces" "s = provinceView x" unfolding provs by auto
    obtain i where "describeUnusableProvince dateParse x i (length times) = Inr ()"
      using checkProvinces_Inr [OF p(2) x(1)] by blast
    from describeUnusableProvince_Inr [OF this] show ?thesis unfolding x(2) by blast
  qed
  moreover have "\<forall>t. cmAnalysisEndUtc (runView v) = Some t \<longrightarrow> dateParse t \<noteq> None"
  proof (intro allI impI)
    fix t assume "cmAnalysisEndUtc (runView v) = Some t"
    then have "memberOf v ''analysisEndUtc'' = Some (JString t)"
      by (auto simp: runView_def split: option.splits Js_Text.json.splits)
    with assms show "dateParse t \<noteq> None" by (auto simp: describeUnusableRun_def andThen_eq_Inr)
  qed
  moreover have "dateParse (cmRunUtc (runView v)) \<noteq> None" "dateParse (cmHorizonEndUtc (runView v)) \<noteq> None"
    using isInstant_textOf [OF r(1)] isInstant_textOf [OF r(2)] by (simp_all add: runView_def)
  moreover have "\<forall>x \<in> set (cmTimesUtc (runView v)). dateParse x \<noteq> None"
    using t(2) unfolding times by (auto simp: list_all_iff dest: isInstant_textOf)
  ultimately show ?thesis unfolding wellShaped_def times using t(3) by simp
qed

lemma suppress_value:
  assumes "suppressStaleRun dateParse cfg r w = (r', w')" and "rValue r' = Some v"
  shows "r' = r \<and> w' = w \<and> describeUnusableRun dateParse v = Inr ()
    \<and> (\<exists>t. dateParse (cmRunUtc (runView v)) = Some t \<and> isRunWithinMaxAge t (wNow w) (arRunMaxAgeSeconds cfg))"
proof (cases "rValue r")
  case None
  with assms show ?thesis by (simp add: suppressStaleRun_def)
next
  case (Some u)
  show ?thesis
  proof (cases "describeUnusableRun dateParse u")
    case (Inl why)
    with assms Some show ?thesis
      by (auto simp: suppressStaleRun_def Let_def withoutValue_def split: prod.splits)
  next
    case (Inr unit)
    then have "dateParse (cmRunUtc (runView u)) \<noteq> None"
      using described_well_shaped [OF Inr] by (simp add: wellShaped_def)
    then obtain t where t: "dateParse (cmRunUtc (runView u)) = Some t" by auto
    show ?thesis
    proof (cases "isRunWithinMaxAge t (wNow w) (arRunMaxAgeSeconds cfg)")
      case True
      with assms Some Inr t show ?thesis by (auto simp: suppressStaleRun_def Let_def)
    next
      case False
      with assms Some Inr t show ?thesis by (auto simp: suppressStaleRun_def Let_def withoutValue_def)
    qed
  qed
qed

text \<open>
  Whatever the cache holds, whoever wrote it and however the read came by it, a run the reader
  publishes has the written shape: its hours are instants, every province has a plate code and
  one entry per hour for each pollutant. And its age at that moment is within the limit.
\<close>

theorem published_run_checked:
  assumes "readRun cache flight poll dateParse cfg port deadline w = (Inr r, bg, w')" and "rValue r = Some v"
  shows "wellShaped dateParse (runView v)
    \<and> (\<exists>t. dateParse (cmRunUtc (runView v)) = Some t
        \<and> max 0 (of_int (wNow w' - t) / 1000) \<le> (of_int (arRunMaxAgeSeconds cfg) :: rat))"
proof -
  obtain r0 bg0 w1 where "suppressStaleRun dateParse cfg r0 w1 = (r, w')"
    using assms(1) by (auto simp: readRun_def split: prod.splits sum.splits)
  from suppress_value [OF this assms(2)] have "w' = w1" "describeUnusableRun dateParse v = Inr ()"
      "\<exists>t. dateParse (cmRunUtc (runView v)) = Some t \<and> isRunWithinMaxAge t (wNow w1) (arRunMaxAgeSeconds cfg)"
    by blast+
  then show ?thesis
    using described_well_shaped unfolding isRunWithinMaxAge_def runAgeSeconds_def by blast
qed

section \<open>The round trip through the cache\<close>

lemma perPollutant_member [simp]: "blockMember (perPollutant f) p = Some (f p)"
  by (cases p) (simp_all add: perPollutant_def blockMember_def jsonField_def ALL_AIR_QUALITY_POLLUTANTS_def
      pollutantToken_def)

lemma perPollutant_object [simp]: "isObject (perPollutant f)"
  by (simp add: perPollutant_def)

lemma supportVerdictOf_text [simp]: "supportVerdictOf (Some (JString (ascii (verdictText v)))) = Some v"
  by (cases v) (simp_all add: verdictText_def)

declare supportVerdictOf.simps(1) [simp del]

lemma provinceJson_members:
  "memberOf (provinceJson s) ''plateCode'' = Some (JString (csPlateCode s))"
  "memberOf (provinceJson s) ''gridLatitude'' = Some (JNumber (csGridLatitude s))"
  "memberOf (provinceJson s) ''gridLongitude'' = Some (JNumber (csGridLongitude s))"
  "memberOf (provinceJson s) ''distanceKm'' = Some (JNumber (csDistanceKm s))"
  "memberOf (provinceJson s) ''ingestedAtUtc'' = Some (JString (csIngestedAtUtc s))"
  "memberOf (provinceJson s) ''concentrations'' = Some (perPollutant (\<lambda>p. JArray (csConcentrations s p)))"
  "memberOf (provinceJson s) ''support'' = Some (perPollutant (\<lambda>p. JString (ascii (verdictText (csSupport s p)))))"
  by (simp_all add: provinceJson_def jsonField_def)

lemma runJson_members:
  "memberOf (runJson c) ''runUtc'' = Some (JString (cmRunUtc c))"
  "memberOf (runJson c) ''datasetId'' = Some (JString (cmDatasetId c))"
  "memberOf (runJson c) ''analysisEndUtc'' = Some (case cmAnalysisEndUtc c of None \<Rightarrow> JNull | Some t \<Rightarrow> JString t)"
  "memberOf (runJson c) ''stepHours'' = Some (JNumber (cmStepHours c))"
  "memberOf (runJson c) ''timesUtc'' = Some (JArray (map JString (cmTimesUtc c)))"
  "memberOf (runJson c) ''horizonEndUtc'' = Some (JString (cmHorizonEndUtc c))"
  "memberOf (runJson c) ''provinces'' = Some (JArray (map provinceJson (cmProvinces c)))"
  by (simp_all add: runJson_def jsonField_def)

lemma provinceView_provinceJson [simp]: "provinceView (provinceJson s) = s"
  by (simp add: provinceView_def provinceJson_members memberOfMember_def itemsOf_def)

lemma runView_runJson: "runView (runJson c) = c"
proof -
  have "map (\<lambda>t. textOf (Some (JString t))) ts = ts" for ts by (induction ts) simp_all
  moreover have "map (provinceView \<circ> provinceJson) ss = ss" for ss by (induction ss) simp_all
  ultimately show ?thesis
    by (cases "cmAnalysisEndUtc c") (simp_all add: runView_def runJson_members itemsOf_def comp_def)
qed

lemma checkPollutants_compiled:
  assumes "\<forall>p. length (f p) = n"
  shows "checkPollutants (perPollutant (\<lambda>p. JArray (f p))) (perPollutant (\<lambda>p. JString (ascii (verdictText (g p)))))
    index n ps = Inr ()"
  using assms by (induction ps) (simp_all add: isSupportVerdict_def)

lemma describe_province_compiled:
  assumes "csPlateCode s \<noteq> []" and "dateParse (csIngestedAtUtc s) \<noteq> None"
    and "\<forall>p. length (csConcentrations s p) = n"
  shows "describeUnusableProvince dateParse (provinceJson s) index n = Inr ()"
proof -
  have "isObject (provinceJson s)" by (simp add: provinceJson_def)
  then show ?thesis
    using assms(1,2) checkPollutants_compiled [OF assms(3)]
    by (simp add: describeUnusableProvince_def provinceJson_members isObjectMember_def)
qed

lemma describe_compiled:
  assumes "wellShaped dateParse c"
  shows "describeUnusableRun dateParse (runJson c) = Inr ()"
proof -
  let ?n = "length (cmTimesUtc c)"
  have "checkProvinces dateParse ?n index (map provinceJson ss) = Inr ()"
    if "set ss \<subseteq> set (cmProvinces c)" for ss index
    using that
  proof (induction ss arbitrary: index)
    case Nil
    then show ?case by simp
  next
    case (Cons s ss)
    then have "s \<in> set (cmProvinces c)" by simp
    with assms have "describeUnusableProvince dateParse (provinceJson s) index ?n = Inr ()"
      unfolding wellShaped_def by (intro describe_province_compiled) blast+
    with Cons show ?case by simp
  qed
  then have provs: "checkProvinces dateParse ?n 0 (map provinceJson (cmProvinces c)) = Inr ()" by blast
  have times: "list_all (\<lambda>t. isInstant dateParse (Some t)) (map JString (cmTimesUtc c))"
    using assms by (simp add: wellShaped_def list_all_iff)
  have analysis: "memberOf (runJson c) ''analysisEndUtc'' = Some JNull
      \<or> isInstant dateParse (memberOf (runJson c) ''analysisEndUtc'')"
    using assms by (cases "cmAnalysisEndUtc c") (simp_all add: runJson_members wellShaped_def)
  show ?thesis
    using assms provs times analysis
    by (simp add: describeUnusableRun_def runJson_members wellShaped_def)
qed

text \<open>The instants a compiled run prints.\<close>

definition runInstants :: "compilableRun \<Rightarrow> compilableRow list \<Rightarrow> ms set" where
  "runInstants run rows =
     {crRunUtc run + h * MS_PER_HOUR |h. - crAnalysisHours run \<le> h \<and> h \<le> crForecastHours run}
     \<union> {t. \<exists>r \<in> set rows. cwIngestedAt r = Some t} \<union> {crRunUtc run}"

lemma compiled_well_shaped:
  assumes "compileRun run rows = Compiled c skipped n"
    and parse: "\<And>t. t \<in> runInstants run rows \<Longrightarrow> dateParse (toISOString t) = Some t"
  shows "wellShaped dateParse c"
proof -
  have ne: "readableRows run rows \<noteq> []" using assms by (auto simp: compileRun_cases)
  then obtain row where "row \<in> set (readableRows run rows)" by (cases "readableRows run rows") auto
  then have row: "describeUnreadableRow row run = Inr ()" by (simp add: readableRows_iff)
  have c: "cmRunUtc c = toISOString (crRunUtc run)" "cmTimesUtc c = runTimes run"
      "cmHorizonEndUtc c = toISOString (crRunUtc run + crForecastHours run * MS_PER_HOUR)"
      "cmAnalysisEndUtc c = (if crAnalysisHours run > 0 then Some (toISOString (crRunUtc run)) else None)"
      "cmProvinces c = map compileProvince (readableRows run rows)"
    using assms(1) ne by (auto simp: compileRun_cases)
  have hours: "0 \<le> crAnalysisHours run" "0 \<le> crForecastHours run"
    using readable_row(3,4,5) [OF row, of Pm2_5] by linarith+
  have "dateParse t \<noteq> None" if t: "t \<in> set (runTimes run)" for t
  proof -
    obtain i where i: "i < length (runTimes run)" "t = runTimes run ! i" using t by (metis in_set_conv_nth)
    let ?h = "int i - crAnalysisHours run"
    have "- crAnalysisHours run \<le> ?h" "?h \<le> crForecastHours run" using i(1) unfolding runTimes_length by linarith+
    then have "crRunUtc run + ?h * MS_PER_HOUR \<in> runInstants run rows" unfolding runInstants_def by blast
    then show ?thesis unfolding i(2) runTimes_nth [OF i(1)] by (simp add: parse)
  qed
  moreover have "crRunUtc run \<in> runInstants run rows" by (simp add: runInstants_def)
  moreover have "crRunUtc run + crForecastHours run * MS_PER_HOUR \<in> runInstants run rows"
    unfolding runInstants_def using hours by (intro UnI1 CollectI exI [of _ "crForecastHours run"]) simp
  moreover have "csPlateCode s \<noteq> [] \<and> dateParse (csIngestedAtUtc s) \<noteq> None
      \<and> (\<forall>p. length (csConcentrations s p) = length (runTimes run))" if "s \<in> set (cmProvinces c)" for s
  proof -
    from that obtain r where r: "r \<in> set rows" "describeUnreadableRow r run = Inr ()" "s = compileProvince r"
      unfolding c by (auto simp: readableRows_iff)
    obtain t where t: "cwIngestedAt r = Some t" using readable_row(2) [OF r(2)] by blast
    with r(1) have "t \<in> runInstants run rows" unfolding runInstants_def by blast
    then show ?thesis
      using parse t readable_row(1) [OF r(2)] compiled_length [OF r(2)] unfolding r(3)
      by (simp add: compileProvince_def)
  qed
  ultimately show ?thesis
    unfolding wellShaped_def c using last_runTimes(1) [OF row] by (auto simp: parse)
qed

text \<open>
  What is written to the cache is read back: a run compiled from the tables passes the check the
  reader makes of every cached value, and its members read from the JSON form are the compiled
  run itself. \<open>Date.parse\<close> is asked to read back the instants \<open>toISOString\<close> printed.
\<close>

theorem compiled_run_survives_cache:
  assumes "compileRun run rows = Compiled c skipped n"
    and "\<And>t. t \<in> runInstants run rows \<Longrightarrow> dateParse (toISOString t) = Some t"
  shows "describeUnusableRun dateParse (runJson c) = Inr () \<and> runView (runJson c) = c
    \<and> wellShaped dateParse (runView (runJson c))"
  using describe_compiled [OF compiled_well_shaped [OF assms]] compiled_well_shaped [OF assms]
  by (simp add: runView_runJson)

text \<open>One forecast step, collected at the run's own hour: a single instant.\<close>

definition shortRun :: compilableRun where
  "shortRun = \<lparr>crRunUtc = 3600000, crForecastHours = 0, crAnalysisHours = 0, crDatasetId = []\<rparr>"

definition shortRow :: compilableRow where
  "shortRow = sampleRow\<lparr>cwAnalysisConcentrations := JNull, cwAnalysisSupport := JNull, cwIngestedAt := Some 3600000\<rparr>"

definition shortParse :: "jsText \<Rightarrow> ms option" where
  "shortParse s = (if s = toISOString 3600000 then Some 3600000 else None)"

lemma shortRow_readable: "describeUnreadableRow shortRow shortRun = Inr ()"
proof -
  have "measureBlock sampleBlock label = Inr 1" for label
    by (simp add: measureBlock_def sampleBlock_member ALL_AIR_QUALITY_POLLUTANTS_def) (simp add: sampleBlock_def)
  moreover have "checkSupport sampleSupport label = Inr ()" for label
    by (simp add: checkSupport_def sampleSupport_member isSupportVerdict_def supportVerdictOf.simps
        ALL_AIR_QUALITY_POLLUTANTS_def) (simp add: sampleSupport_def)
  ultimately show ?thesis
    by (simp add: describeUnreadableRow_def shortRow_def sampleRow_def shortRun_def ascii_def)
qed

lemma shortRun_compiles: "\<exists>c. compileRun shortRun [shortRow] = Compiled c [] 0"
proof -
  have "storedValues shortRow p = [JNumber 7]" for p
    using sampleBlock_member [of p] by (simp add: storedValues_def blockValues_def shortRow_def sampleRow_def blockMember_def)
  then have "normalisedIn shortRow = 0" by (simp add: normalisedIn_def wasSubstituted_def ALL_AIR_QUALITY_POLLUTANTS_def)
  then show ?thesis
    using shortRow_readable by (simp add: compileRun_cases readableRows_def)
qed

lemma shortInstants: "t \<in> runInstants shortRun [shortRow] \<Longrightarrow> shortParse (toISOString t) = Some t"
  by (auto simp: runInstants_def shortRun_def shortRow_def shortParse_def)

lemma compiled_run_survives_cache_witness:
  "\<exists>c. compileRun shortRun [shortRow] = Compiled c [] 0 \<and> describeUnusableRun shortParse (runJson c) = Inr ()
     \<and> runView (runJson c) = c"
  using shortRun_compiles compiled_run_survives_cache [OF _ shortInstants] by blast

section \<open>Every value of the cache\<close>

definition compiledValue :: "(jsText \<Rightarrow> ms option) \<Rightarrow> jsonValue \<Rightarrow> bool" where
  "compiledValue dateParse v \<longleftrightarrow> (\<exists>c. v = runJson c \<and> wellShaped dateParse c)"

text \<open>The instants of whatever the tables answer are printed so that they can be read back.\<close>

definition portReadable :: "(jsText \<Rightarrow> ms option) \<Rightarrow> airQualityReadStorePort \<Rightarrow> bool" where
  "portReadable dateParse port \<longleftrightarrow> 0 \<le> portTakesMs port
     \<and> (\<forall>run rows. storeRead port = Inr (Some (run, rows)) \<longrightarrow>
          (\<forall>t \<in> runInstants (compilableOf run) rows. dateParse (toISOString t) = Some t))"

lemma compileFromStore_ok:
  assumes "compileFromStore dateParse cfg port w = (Inr (Out_ok v t), w')" and "portReadable dateParse port"
  shows "compiledValue dateParse v"
proof -
  from assms(1) obtain run rows c skipped n where read: "storeRead port = Inr (Some (run, rows))"
      and comp: "compileRun (compilableOf run) rows = Compiled c skipped n" and v: "v = runJson c"
    by (auto simp: compileFromStore_def Let_def split: sum.splits option.splits prod.splits if_splits
        compileRunOutcome.splits)
  have "dateParse (toISOString u) = Some u" if "u \<in> runInstants (compilableOf run) rows" for u
    using assms(2) read that unfolding portReadable_def by blast
  from compiled_well_shaped [OF comp this] show ?thesis unfolding compiledValue_def v by blast
qed

lemma onMetrics_frame [simp]: "wStore (onMetrics f w) = wStore w" "wNow (onMetrics f w) = wNow w"
  by (simp_all add: onMetrics_def)

lemma compileFromStore_frame:
  "wStore (snd (compileFromStore dateParse cfg port w)) = wStore w
   \<and> wNow (snd (compileFromStore dateParse cfg port w)) = wNow w + portTakesMs port"
  by (auto simp: compileFromStore_def Let_def split: sum.split option.split prod.split compileRunOutcome.split)

lemma compileFromStore_keeps:
  assumes "portReadable dateParse port"
  shows "inProcess.refreshKeeps n (compiledValue dateParse) (compileFromStore dateParse cfg port)"
  unfolding inProcess.refreshKeeps_def
proof (intro allI impI conjI)
  fix w :: "jsonValue inProcessStore cacheWorld" and res w'
  assume h: "inProcess.holds n (compiledValue dateParse) w" and run: "compileFromStore dateParse cfg port w = (res, w')"
  have "wStore w' = wStore w" "wNow w' = wNow w + portTakesMs port"
    using compileFromStore_frame [of dateParse cfg port w] run by simp_all
  moreover have "0 \<le> portTakesMs port" using assms by (simp add: portReadable_def)
  ultimately show "inProcess.holds n (compiledValue dateParse) w'"
    by (intro inProcess.holds_store_eq [OF h]) simp_all
  fix v t assume "res = Inr (Out_ok v t)"
  with run compileFromStore_ok [OF _ assms] show "compiledValue dateParse v" by blast
qed

text \<open>The state invariant: every payload the cache can still give back is a compiled run.\<close>

definition runsCompiled :: "nat \<Rightarrow> (jsText \<Rightarrow> ms option) \<Rightarrow> jsonValue inProcessStore cacheWorld \<Rightarrow> bool" where
  "runsCompiled n dateParse w \<longleftrightarrow> inProcess_ok n (wStore w)
     \<and> (\<forall>t \<ge> wNow w. \<forall>k e v. inProcessView (wStore w) t k = Some e \<longrightarrow> payload e = Some v \<longrightarrow>
          compiledValue dateParse v)"

lemma runsCompiled_holds: "runsCompiled n dateParse w = inProcess.holds n (compiledValue dateParse) w"
  by (simp add: runsCompiled_def inProcess.holds_def)

lemma suppress_frame: "suppressStaleRun dateParse cfg r w = (r', w') \<Longrightarrow> wStore w' = wStore w \<and> wNow w' = wNow w"
  by (auto simp: suppressStaleRun_def Let_def split: option.splits sum.splits prod.splits if_splits)

text \<open>
  C14: From a cache that holds compiled runs only, every read, and the background revalidation it may
  start, leaves such a cache. The reader never finds a cached run unusable: what it passes on is
  the cache's own answer unless the run is over the age limit, and a value it publishes is the
  JSON form of a run compiled from the tables.
\<close>

theorem cached_runs_always_usable:
  assumes "runsCompiled n dateParse w" and "portReadable dateParse port"
    and "\<And>t. t \<le> pollSleep poll t (pollDelayMs poll)"
    and "readRun inProcessStoreOps runNow poll dateParse cfg port deadline w = (Inr r, bg, w')"
  shows "runsCompiled n dateParse w'
    \<and> runsCompiled n dateParse (revalidate inProcessStoreOps runNow (runReadOptions dateParse cfg port deadline) w')
    \<and> (\<exists>r0 w1. readThrough inProcessStoreOps runNow poll (runReadOptions dateParse cfg port deadline) w = (Inr r0, bg, w1)
        \<and> (\<forall>v. rValue r0 = Some v \<longrightarrow> (\<exists>c. v = runJson c \<and> runView v = c \<and> describeUnusableRun dateParse v = Inr ()))
        \<and> (r = r0 \<or> rValue r = None \<and> rKind r = K_transient))"
proof -
  let ?opts = "runReadOptions dateParse cfg port deadline"
  have keeps: "inProcess.refreshKeeps n (compiledValue dateParse) (optRefresh ?opts d)" for d
    using compileFromStore_keeps [OF assms(2)] by (simp add: runReadOptions_def)
  obtain r0 w1 where rt: "readThrough inProcessStoreOps runNow poll ?opts w = (Inr r0, bg, w1)"
      and sup: "suppressStaleRun dateParse cfg r0 w1 = (r, w')"
    using assms(4) by (auto simp: readRun_def split: prod.splits sum.splits)
  have rd: "inProcess.holds n (compiledValue dateParse) w1" "\<And>v. rValue r0 = Some v \<Longrightarrow> compiledValue dateParse v"
    using inProcess.readThrough_holds [OF inProcess.flightKeeps_runNow keeps assms(3)
        assms(1) [unfolded runsCompiled_holds] rt] by blast+
  have h: "inProcess.holds n (compiledValue dateParse) w'"
    using suppress_frame [OF sup] by (intro inProcess.holds_store_eq [OF rd(1)]) simp_all
  have bg: "inProcess.holds n (compiledValue dateParse) (revalidate inProcessStoreOps runNow ?opts w')"
    by (rule inProcess.revalidate_holds [OF inProcess.flightKeeps_runNow keeps h])
  have usable: "\<exists>c. v = runJson c \<and> runView v = c \<and> describeUnusableRun dateParse v = Inr ()"
    if "rValue r0 = Some v" for v
    using rd(2) [OF that] describe_compiled unfolding compiledValue_def by (metis runView_runJson)
  have "r = r0 \<or> rValue r = None \<and> rKind r = K_transient"
  proof (cases "rValue r0")
    case None
    with sup show ?thesis by (simp add: suppressStaleRun_def)
  next
    case (Some v)
    with usable have "describeUnusableRun dateParse v = Inr ()" by blast
    with sup Some show ?thesis
      by (auto simp: suppressStaleRun_def Let_def withoutValue_def split: if_splits)
  qed
  with h bg rt usable show ?thesis unfolding runsCompiled_holds by blast
qed

section \<open>A read of a cold cache\<close>

definition shortPort :: airQualityReadStorePort where
  "shortPort =
     \<lparr>portNewestRun = Inr (Some \<lparr>srRunUtc = 3600000, srState = Run_complete, srForecastHours = 0,
        srAnalysisHours = 0, srDatasetId = []\<rparr>),
      portSeries = (\<lambda>u. Inr [shortRow]), portTakesMs = 20\<rparr>"

definition shortConfig :: airQualityReaderConfig where
  "shortConfig = \<lparr>arTtls = exampleTtls, arCeilings = \<lparr>staleMaxSeconds = 600, validAtMaxAgeSeconds = 300\<rparr>,
     arRunMaxAgeSeconds = 100\<rparr>"

definition coldWorld :: "jsonValue inProcessStore cacheWorld" where
  "coldWorld = \<lparr>wNow = 3600000, wStore = newInProcessStore 5, wMetrics = metrics_init\<rparr>"

lemma shortPort_read:
  "storeRead shortPort = Inr (Some (\<lparr>srRunUtc = 3600000, srState = Run_complete, srForecastHours = 0,
     srAnalysisHours = 0, srDatasetId = []\<rparr>, [shortRow]))"
  "compilableOf \<lparr>srRunUtc = 3600000, srState = Run_complete, srForecastHours = 0,
     srAnalysisHours = 0, srDatasetId = []\<rparr> = shortRun"
  by (simp_all add: storeRead_def shortPort_def compilableOf_def shortRun_def)

lemma shortPort_readable: "portReadable shortParse shortPort"
  using shortInstants by (auto simp: portReadable_def shortPort_read) (simp add: shortPort_def)

lemma shortRun_times:
  assumes "compileRun shortRun [shortRow] = Compiled c [] 0"
  shows "cmTimesUtc c = [toISOString 3600000]" and "cmRunUtc c = toISOString 3600000"
  using assms shortRow_readable
  by (auto simp: compileRun_cases readableRows_def runTimes_def) (simp_all add: shortRun_def)

lemma short_refresh:
  assumes c: "compileRun shortRun [shortRow] = Compiled c [] 0" and "wNow w = 3600000"
  shows "\<exists>w'. compileFromStore shortParse shortConfig shortPort w = (Inr (Out_ok (runJson c) (Some 3600000)), w')
    \<and> wNow w' = 3600020"
proof -
  have "selectStepIndex shortParse [toISOString 3600000] now = Some 0" for now
    by (simp add: selectStepIndex_def shortParse_def)
  moreover have "wNow w + portTakesMs shortPort = 3600020" using assms(2) by (simp add: shortPort_def)
  moreover have "isRunWithinMaxAge 3600000 3600020 (arRunMaxAgeSeconds shortConfig)"
    by (simp add: isRunWithinMaxAge_def runAgeSeconds_def shortConfig_def)
  ultimately show ?thesis
    by (simp add: compileFromStore_def Let_def shortPort_read c shortRun_times [OF c] itemAt_def shortParse_def)
qed

lemma cold_read:
  "\<exists>c r w'. compileRun shortRun [shortRow] = Compiled c [] 0
     \<and> readRun inProcessStoreOps runNow examplePoll shortParse shortConfig shortPort None coldWorld = (Inr r, False, w')
     \<and> rValue r = Some (runJson c)"
proof -
  obtain c where c: "compileRun shortRun [shortRow] = Compiled c [] 0" using shortRun_compiles by blast
  let ?opts = "runReadOptions shortParse shortConfig shortPort None :: (jsonValue, jsonValue inProcessStore) readThroughOptions"
  let ?miss = "countCache M_cache_miss CAMS_ADS_PROVIDER coldWorld"
  have get: "cacheGet inProcessStoreOps k coldWorld = (None, coldWorld)" for k
    by (simp add: inProcessStoreOps_def inProcessGet_def coldWorld_def newInProcessStore_def js_get_def)
  obtain w1 where ref: "compileFromStore shortParse shortConfig shortPort ?miss
      = (Inr (Out_ok (runJson c) (Some 3600000)), w1)" and now: "wNow w1 = 3600020"
    using short_refresh [OF c, of ?miss] by (auto simp: countCache_def coldWorld_def)
  obtain r0 w2 where stored: "persistOutcome inProcessStoreOps ?opts (Out_ok (runJson c) (Some 3600000)) w1 = (r0, w2)"
    by fastforce
  then have r0: "rValue r0 = Some (runJson c)" "wNow w2 = 3600020"
    using now by (auto simp: persistOutcome_def Let_def inProcessStoreOps_def)
  have "readThrough inProcessStoreOps runNow examplePoll ?opts coldWorld = (Inr (r0\<lparr>rOrigin := O_refreshed\<rparr>), False, w2)"
    using ref stored
    by (simp add: readThrough_def get evaluate_def refreshAndServe_def runNow_def Let_def runReadOptions_def
        newOperationDeadline_def AIR_QUALITY_READ_DEADLINE_MS_def)
  moreover have "suppressStaleRun shortParse shortConfig (r0\<lparr>rOrigin := O_refreshed\<rparr>) w2
      = (r0\<lparr>rOrigin := O_refreshed\<rparr>, w2)"
  proof -
    have "wellShaped shortParse c" using compiled_well_shaped [OF c] shortInstants by blast
    note usable = describe_compiled [OF this]
    have t: "shortParse (cmRunUtc (runView (runJson c))) = Some 3600000"
      by (simp add: runView_runJson shortRun_times(2) [OF c] shortParse_def)
    have age: "isRunWithinMaxAge 3600000 (wNow w2) (arRunMaxAgeSeconds shortConfig)"
      by (simp add: r0 isRunWithinMaxAge_def runAgeSeconds_def shortConfig_def)
    show ?thesis using r0(1) usable t age by (simp add: suppressStaleRun_def)
  qed
  ultimately have "readRun inProcessStoreOps runNow examplePoll shortParse shortConfig shortPort None coldWorld
      = (Inr (r0\<lparr>rOrigin := O_refreshed\<rparr>), False, w2)"
    by (simp add: readRun_def)
  with c r0 show ?thesis by (metis cachedRead.select_convs(1) cachedRead.surjective cachedRead.update_convs(9))
qed

lemma published_run_checked_witness:
  "\<exists>r w' v. readRun inProcessStoreOps runNow examplePoll shortParse shortConfig shortPort None coldWorld = (Inr r, False, w')
     \<and> rValue r = Some v \<and> wellShaped shortParse (runView v)"
  using cold_read published_run_checked by metis

lemma cached_runs_always_usable_witness:
  "\<exists>r w' c. readRun inProcessStoreOps runNow examplePoll shortParse shortConfig shortPort None coldWorld = (Inr r, False, w')
     \<and> runsCompiled 5 shortParse w' \<and> rValue r = Some (runJson c)"
proof -
  obtain c r w' where read: "readRun inProcessStoreOps runNow examplePoll shortParse shortConfig shortPort None coldWorld
      = (Inr r, False, w')" "rValue r = Some (runJson c)" using cold_read by blast
  have "runsCompiled 5 shortParse coldWorld"
    using inProcess_ok_new [of 5] by (simp add: runsCompiled_def coldWorld_def inProcessView_def)
      (simp add: newInProcessStore_def js_get_def)
  moreover have "\<And>t. t \<le> pollSleep examplePoll t (pollDelayMs examplePoll)"
    by (simp add: examplePoll_def DEFAULT_POLL_DELAY_MS_def)
  ultimately have "runsCompiled 5 shortParse w'"
    using cached_runs_always_usable [OF _ shortPort_readable _ read(1)] by blast
  with read show ?thesis by blast
qed

end
