(* ===== verification/Air_Quality_Reads.thy ===== *)
theory Air_Quality_Reads
  imports Air_Quality_Reader
begin

text \<open>
  \<open>src/air-quality/air-quality-read.service.ts\<close>, the cache header of
  \<open>air-quality-cache-age.interceptor.ts\<close> and \<open>air-quality-index-system.catalogue.ts\<close>: the list of
  all provinces and the detail of one, both from one read of the current run. The attribution
  carries its year only; its other texts are fixed.
\<close>

section \<open>The run of a request\<close>

record provinceRow =
  apPlateCode :: jsText
  apSlugTr :: jsText
  apSlugEn :: jsText
  apNameTr :: jsText
  apLatitude :: "rat option"
  apLongitude :: "rat option"

record resolvedRun =
  rsCompiled :: "compiledRun option"
  rsStepIndex :: "nat option"
  rsByPlateCode :: "jsText \<Rightarrow> compiledProvinceSeries option"
  rsProvenance :: indexProvenance
  rsCacheAgeSeconds :: "int option"

text \<open>The map is built from the entries in order, so of two of one plate code the later one stays.\<close>

definition resolveRun :: "(jsText \<Rightarrow> ms option) \<Rightarrow> jsonValue cachedRead \<Rightarrow> ms \<Rightarrow> resolvedRun" where
  "resolveRun dateParse r now =
     (let cacheAgeSeconds = (if rKind r = K_ok then rCacheAgeSeconds r else None)
      in case rValue r of
           None \<Rightarrow>
             \<lparr>rsCompiled = None, rsStepIndex = None, rsByPlateCode = (\<lambda>_. None),
              rsProvenance = \<lparr>pvFreshness = None, pvFetchedAtUtc = None, pvStaleSinceUtc = None\<rparr>,
              rsCacheAgeSeconds = cacheAgeSeconds\<rparr>
         | Some v \<Rightarrow>
             (let compiled = runView v
              in \<lparr>rsCompiled = Some compiled,
                  rsStepIndex = selectStepIndex dateParse (cmTimesUtc compiled) now,
                  rsByPlateCode = map_of (rev (map (\<lambda>s. (csPlateCode s, s)) (cmProvinces compiled))),
                  rsProvenance = \<lparr>pvFreshness = rFreshness r, pvFetchedAtUtc = rFetchedAt r,
                                 pvStaleSinceUtc = rStaleSince r\<rparr>,
                  rsCacheAgeSeconds = cacheAgeSeconds\<rparr>))"

definition reportNormalisation :: "resolvedRun \<Rightarrow> nat \<Rightarrow> ms \<Rightarrow> metrics \<Rightarrow> metrics" where
  "reportNormalisation resolved count now m =
     (if count = 0 \<or> rsCompiled resolved = None then m else reportPostCacheNormalisation count now m)"

text \<open>\<open>X-Air-Quality-Cache-Age\<close>: no age, no header.\<close>

definition withAirQualityCacheAge :: "int option \<Rightarrow> int option" where
  "withAirQualityCacheAge cacheAgeSeconds = map_option (\<lambda>age. max 0 age) cacheAgeSeconds"

section \<open>The list\<close>

record provinceListItem =
  liPlateCode :: jsText
  liSlugTr :: jsText
  liSlugEn :: jsText
  liBand :: "eaqiBand option"
  liCategory :: "airQualityCategory option"
  liDominantPollutant :: "airQualityPollutant option"
  liStatus :: airQualityStatus
  liValidAtUtc :: "jsText option"

definition listItem ::
  "resolvedRun \<Rightarrow> provinceRow \<Rightarrow> nat option \<Rightarrow> eaqiRangeError + (provinceListItem \<times> nat option)" where
  "listItem resolved p tally =
     (case (rsCompiled resolved, rsStepIndex resolved, rsByPlateCode resolved (apPlateCode p)) of
        (Some compiled, Some stepIndex, Some series) \<Rightarrow>
          andThen (buildIndexDto compiled series stepIndex (rsProvenance resolved) tally) (\<lambda>(index, tally').
            Inr (\<lparr>liPlateCode = apPlateCode p, liSlugTr = apSlugTr p, liSlugEn = apSlugEn p,
                  liBand = diBand index, liCategory = diCategory index,
                  liDominantPollutant = diDominantPollutant index, liStatus = diStatus index,
                  liValidAtUtc = diValidAtUtc index\<rparr>, tally'))
      | _ \<Rightarrow>
          Inr (\<lparr>liPlateCode = apPlateCode p, liSlugTr = apSlugTr p, liSlugEn = apSlugEn p,
                liBand = None, liCategory = None, liDominantPollutant = None,
                liStatus = Aq_unavailable, liValidAtUtc = None\<rparr>, tally))"

fun listItems ::
  "resolvedRun \<Rightarrow> provinceRow list \<Rightarrow> nat option \<Rightarrow> eaqiRangeError + (provinceListItem list \<times> nat option)" where
  "listItems resolved [] tally = Inr ([], tally)"
| "listItems resolved (p # ps) tally =
     andThen (listItem resolved p tally) (\<lambda>(item, tally').
     andThen (listItems resolved ps tally') (\<lambda>(rest, tally''). Inr (item # rest, tally'')))"

datatype airQualityReadError = Province_not_found_error | Read_error string | Index_error eaqiRangeError

definition hubHasData :: "provinceListItem list \<Rightarrow> bool" where
  "hubHasData items = list_ex (\<lambda>item. liStatus item \<noteq> Aq_unavailable) items"

definition tallied :: "nat option \<Rightarrow> nat" where
  "tallied tally = (case tally of None \<Rightarrow> 0 | Some n \<Rightarrow> n)"

definition requestDeadline :: "'s cacheWorld \<Rightarrow> operationDeadline" where
  "requestDeadline w = \<lparr>budgetMs = AIR_QUALITY_READ_DEADLINE_MS, startedAtMs = wNow w\<rparr>"

definition listProvinces ::
  "(jsonValue, 's) upstreamCacheStore \<Rightarrow> (jsonValue upstreamOutcome, 's cacheWorld) singleFlight \<Rightarrow> pollOptions
   \<Rightarrow> (jsText \<Rightarrow> ms option) \<Rightarrow> airQualityReaderConfig \<Rightarrow> airQualityReadStorePort \<Rightarrow> provinceRow list
   \<Rightarrow> 's cacheWorld \<Rightarrow> (airQualityReadError + (provinceListItem list \<times> int option)) \<times> bool \<times> 's cacheWorld" where
  "listProvinces cache flight poll dateParse cfg port table w =
     (let provinces = sort_key apPlateCode table
      in case readRun cache flight poll dateParse cfg port (Some (requestDeadline w)) w of
           (Inl e, bg, w1) \<Rightarrow> (Inl (Read_error e), bg, w1)
         | (Inr r, bg, w1) \<Rightarrow>
             (let resolved = resolveRun dateParse r (wNow w1)
              in case listItems resolved provinces (Some 0) of
                   Inl e \<Rightarrow> (Inl (Index_error e), bg, w1)
                 | Inr (items, tally) \<Rightarrow>
                     (Inr (items, withAirQualityCacheAge (rsCacheAgeSeconds resolved)), bg,
                      onMetrics (reportNormalisation resolved (tallied tally) (wNow w1)) w1)))"

section \<open>One province\<close>

definition COORDINATES_MISSING_LOG_EVERY_MS :: ms where "COORDINATES_MISSING_LOG_EVERY_MS = 60000"

record provinceDto =
  dpPlateCode :: jsText
  dpSlugTr :: jsText
  dpSlugEn :: jsText
  dpNameTr :: jsText
  dpLatitude :: rat
  dpLongitude :: rat
  dpCurrent :: airQualityIndexDto
  dpSeries :: "airQualitySeriesDto option"
  dpAttributionYear :: int
  dpDataAvailable :: bool

definition attributionYear :: "(jsText \<Rightarrow> ms option) \<Rightarrow> resolvedRun \<Rightarrow> ms \<Rightarrow> int" where
  "attributionYear dateParse resolved now =
     (case rsCompiled resolved of
        None \<Rightarrow> getUTCFullYear now
      | Some compiled \<Rightarrow> getUTCFullYear (the (dateParse (cmRunUtc compiled))))"

text \<open>The current index is built without a tally, so that the step it shares with the series counts once.\<close>

definition provinceDetail ::
  "(jsText \<Rightarrow> ms option) \<Rightarrow> resolvedRun \<Rightarrow> provinceRow \<Rightarrow> rat \<Rightarrow> rat \<Rightarrow> ms
   \<Rightarrow> eaqiRangeError + (provinceDto \<times> nat option)" where
  "provinceDetail dateParse resolved p latitude longitude now =
     (let dto = (\<lambda>current series available.
            \<lparr>dpPlateCode = apPlateCode p, dpSlugTr = apSlugTr p, dpSlugEn = apSlugEn p, dpNameTr = apNameTr p,
             dpLatitude = latitude, dpLongitude = longitude, dpCurrent = current, dpSeries = series,
             dpAttributionYear = attributionYear dateParse resolved now, dpDataAvailable = available\<rparr>)
      in case (rsCompiled resolved, rsStepIndex resolved, rsByPlateCode resolved (apPlateCode p)) of
           (Some compiled, Some stepIndex, Some series) \<Rightarrow>
             andThen (buildIndexDto compiled series stepIndex (rsProvenance resolved) None) (\<lambda>(index, _).
             andThen (buildSeriesDto compiled series (Some 0)) (\<lambda>(published, tally).
               Inr (dto index (Some published) True, tally)))
         | _ \<Rightarrow> Inr (dto unavailableIndexDto None False, Some 0))"

definition getProvince ::
  "(jsonValue, 's) upstreamCacheStore \<Rightarrow> (jsonValue upstreamOutcome, 's cacheWorld) singleFlight \<Rightarrow> pollOptions
   \<Rightarrow> (jsText \<Rightarrow> ms option) \<Rightarrow> airQualityReaderConfig \<Rightarrow> airQualityReadStorePort \<Rightarrow> provinceRow list
   \<Rightarrow> jsText \<Rightarrow> 's cacheWorld \<Rightarrow> (airQualityReadError + (provinceDto \<times> int option)) \<times> bool \<times> 's cacheWorld" where
  "getProvince cache flight poll dateParse cfg port table plate w =
     (case find (\<lambda>p. apPlateCode p = plate) table of
        None \<Rightarrow> (Inl Province_not_found_error, False, w)
      | Some p \<Rightarrow>
         (case (apLatitude p, apLongitude p) of
            (Some latitude, Some longitude) \<Rightarrow>
              (case readRun cache flight poll dateParse cfg port (Some (requestDeadline w)) w of
                 (Inl e, bg, w1) \<Rightarrow> (Inl (Read_error e), bg, w1)
               | (Inr r, bg, w1) \<Rightarrow>
                   (let resolved = resolveRun dateParse r (wNow w1)
                    in case provinceDetail dateParse resolved p latitude longitude (wNow w1) of
                         Inl e \<Rightarrow> (Inl (Index_error e), bg, w1)
                       | Inr (dto, tally) \<Rightarrow>
                           (Inr (dto, withAirQualityCacheAge (rsCacheAgeSeconds resolved)), bg,
                            onMetrics (reportNormalisation resolved (tallied tally) (wNow w1)) w1)))
          | _ \<Rightarrow>
              (let (emitted, m) = throttledEvent L_error (''airq.province-coordinates-missing:'' @ map char_of (map nat plate))
                     COORDINATES_MISSING_LOG_EVERY_MS ''a province has no reference point'' (wNow w) (wMetrics w)
               in (Inl Province_not_found_error, False,
                   w\<lparr>wMetrics := if emitted then countAirq ''airq.province_coordinates_missing'' m else m\<rparr>))))"

section \<open>The catalogue of the index\<close>

record indexSystemDto =
  isCategories :: "(eaqiBand \<times> airQualityCategory) list"
  isUpperBounds :: "(airQualityPollutant \<times> rat list) list"
  isTieBreakOrder :: "airQualityPollutant list"

definition buildAirQualityIndexSystemDto :: indexSystemDto where
  "buildAirQualityIndexSystemDto =
     \<lparr>isCategories = map (\<lambda>i. (i + 1, EAQI_CATEGORY_BY_BAND ! i)) [0..<length EAQI_CATEGORY_BY_BAND],
      isUpperBounds = map (\<lambda>p. (p, upperBoundsUgM3 p)) ALL_AIR_QUALITY_POLLUTANTS,
      isTieBreakOrder = dominantTieBreakOrder\<rparr>"

section \<open>Reads always answer\<close>

lemma compileFromStore_answers: "\<exists>out w'. compileFromStore dateParse cfg port w = (Inr out, w')"
  by (auto simp: compileFromStore_def Let_def split: sum.split option.split prod.split compileRunOutcome.split)

lemma readThrough_answers:
  assumes "\<And>d w. \<exists>out w'. optRefresh opts d w = (Inr out, w')" and "optDeadline opts = Some d"
  shows "\<exists>r bg w'. readThrough cache runNow poll opts w = (Inr r, bg, w')"
proof -
  have "\<exists>r w'. refreshAndServe cache runNow poll opts u = (Inr r, w')" for u
  proof -
    obtain out u' where "optRefresh opts d u = (Inr out, u')" using assms(1) by blast
    then show ?thesis
      using assms(2) by (auto simp: refreshAndServe_def runNow_def Let_def split: prod.splits)
  qed
  then show ?thesis
    by (auto simp: readThrough_def Let_def split: prod.split option.split freshness.split)
      (metis Pair_inject sum.distinct(1))+
qed

lemma readRun_answers:
  "\<exists>r bg w'. readRun cache runNow poll dateParse cfg port (Some d) w = (Inr r, bg, w')"
proof -
  let ?opts = "runReadOptions dateParse cfg port (Some d)"
  have "\<And>d w. \<exists>out w'. optRefresh ?opts d w = (Inr out, w')"
    using compileFromStore_answers by (simp add: runReadOptions_def)
  moreover have "optDeadline ?opts = Some d" by (simp add: runReadOptions_def)
  ultimately obtain r bg w1 where "readThrough cache runNow poll ?opts w = (Inr r, bg, w1)"
    using readThrough_answers by blast
  then show ?thesis by (auto simp: readRun_def split: prod.split)
qed

lemma buildIndex_answers:
  "\<exists>index tally'. buildIndexDto compiled province i provenance tally = Inr (index, tally')
     \<and> diStatus index \<noteq> Aq_unavailable \<and> diBand index = eaqiOverall (eaqiAt province i)
     \<and> diCategory index = eaqiCategory (eaqiAt province i)
     \<and> diDominantPollutant index = dominantPollutant (eaqiAt province i)
     \<and> diStatus index = (if eaqiOverall (eaqiAt province i) = None then Aq_no_data else Aq_ok)
     \<and> diValidAtUtc index = itemAt (cmTimesUtc compiled) i"
  unfolding buildIndexDto_def Let_def computeEaqi_at andThen_simps by simp

lemma buildSeries_answers: "\<exists>ser tally'. buildSeriesDto compiled province tally = Inr (ser, tally')"
proof -
  obtain t where "seriesSteps province [0..<length (cmTimesUtc compiled)] tally
      = Inr (map (eaqiAt province) [0..<length (cmTimesUtc compiled)], t)"
    using seriesSteps_all by blast
  then show ?thesis by (simp add: buildSeriesDto_def)
qed

text \<open>What a list item shows of the detail of the same province.\<close>

definition itemAgrees :: "provinceListItem \<Rightarrow> provinceDto \<Rightarrow> bool" where
  "itemAgrees item dto \<longleftrightarrow>
     liPlateCode item = dpPlateCode dto \<and> liSlugTr item = dpSlugTr dto \<and> liSlugEn item = dpSlugEn dto
     \<and> liBand item = diBand (dpCurrent dto)
     \<and> liCategory item = diCategory (dpCurrent dto)
     \<and> liDominantPollutant item = diDominantPollutant (dpCurrent dto)
     \<and> liStatus item = diStatus (dpCurrent dto) \<and> liValidAtUtc item = diValidAtUtc (dpCurrent dto)
     \<and> (liStatus item = Aq_unavailable \<longleftrightarrow> \<not> dpDataAvailable dto)
     \<and> (dpSeries dto \<noteq> None \<longleftrightarrow> dpDataAvailable dto)"

lemma item_agrees:
  "\<exists>item tally' dto t. listItem resolved p tally = Inr (item, tally')
     \<and> provinceDetail dateParse resolved p latitude longitude now = Inr (dto, t) \<and> itemAgrees item dto"
proof (cases "rsCompiled resolved")
  case None
  then show ?thesis by (simp add: listItem_def provinceDetail_def itemAgrees_def unavailableIndexDto_def)
next
  case c: (Some compiled)
  show ?thesis
  proof (cases "rsStepIndex resolved")
    case None
    with c show ?thesis by (simp add: listItem_def provinceDetail_def itemAgrees_def unavailableIndexDto_def)
  next
    case i: (Some stepIndex)
    show ?thesis
    proof (cases "rsByPlateCode resolved (apPlateCode p)")
      case None
      with c i show ?thesis by (simp add: listItem_def provinceDetail_def itemAgrees_def unavailableIndexDto_def)
    next
      case s: (Some series)
      obtain i1 t1 where i1: "buildIndexDto compiled series stepIndex (rsProvenance resolved) tally = Inr (i1, t1)"
          "diStatus i1 \<noteq> Aq_unavailable" "diBand i1 = eaqiOverall (eaqiAt series stepIndex)"
          "diCategory i1 = eaqiCategory (eaqiAt series stepIndex)"
          "diDominantPollutant i1 = dominantPollutant (eaqiAt series stepIndex)"
          "diStatus i1 = (if eaqiOverall (eaqiAt series stepIndex) = None then Aq_no_data else Aq_ok)"
          "diValidAtUtc i1 = itemAt (cmTimesUtc compiled) stepIndex"
        using buildIndex_answers by blast
      obtain i2 t2 where i2: "buildIndexDto compiled series stepIndex (rsProvenance resolved) None = Inr (i2, t2)"
          "diBand i2 = eaqiOverall (eaqiAt series stepIndex)"
          "diCategory i2 = eaqiCategory (eaqiAt series stepIndex)"
          "diDominantPollutant i2 = dominantPollutant (eaqiAt series stepIndex)"
          "diStatus i2 = (if eaqiOverall (eaqiAt series stepIndex) = None then Aq_no_data else Aq_ok)"
          "diValidAtUtc i2 = itemAt (cmTimesUtc compiled) stepIndex"
        using buildIndex_answers by blast
      obtain ser t3 where ser: "buildSeriesDto compiled series (Some 0) = Inr (ser, t3)"
        using buildSeries_answers by blast
      show ?thesis
        using i1 i2 by (simp add: listItem_def provinceDetail_def c i s ser itemAgrees_def)
    qed
  qed
qed

lemma listItem_unavailable:
  "rsCompiled resolved = None \<Longrightarrow> listItem resolved p tally = Inr (item, tally') \<Longrightarrow> liStatus item = Aq_unavailable"
  by (simp add: listItem_def) auto

lemma listItem_plate: "listItem resolved p tally = Inr (item, tally') \<Longrightarrow> liPlateCode item = apPlateCode p"
  by (auto simp: listItem_def andThen_eq_Inr split: option.splits prod.splits)

text \<open>
  What an item shows of a run: nothing without a run or when the run lacks the province, and
  otherwise the index of the province's series at the hour of the run that is nearest to now.
\<close>

definition itemOfRun :: "(jsText \<Rightarrow> ms option) \<Rightarrow> compiledRun option \<Rightarrow> ms \<Rightarrow> provinceListItem \<Rightarrow> bool" where
  "itemOfRun dateParse run now item \<longleftrightarrow>
     (case run of
        None \<Rightarrow> liStatus item = Aq_unavailable
      | Some c \<Rightarrow>
          if liPlateCode item \<notin> csPlateCode ` set (cmProvinces c) then liStatus item = Aq_unavailable
          else \<exists>series i t. series \<in> set (cmProvinces c) \<and> csPlateCode series = liPlateCode item
            \<and> i < length (cmTimesUtc c) \<and> dateParse (cmTimesUtc c ! i) = Some t
            \<and> (\<forall>j < length (cmTimesUtc c). \<forall>u. dateParse (cmTimesUtc c ! j) = Some u \<longrightarrow> \<bar>t - now\<bar> \<le> \<bar>u - now\<bar>)
            \<and> liValidAtUtc item = Some (cmTimesUtc c ! i)
            \<and> liBand item = eaqiOverall (eaqiAt series i) \<and> liCategory item = eaqiCategory (eaqiAt series i)
            \<and> liDominantPollutant item = dominantPollutant (eaqiAt series i)
            \<and> liStatus item = (if eaqiOverall (eaqiAt series i) = None then Aq_no_data else Aq_ok))"

lemma listItem_of_run:
  assumes shaped: "\<And>v. rValue r = Some v \<Longrightarrow> wellShaped dateParse (runView v)"
    and item: "listItem (resolveRun dateParse r now) p tally = Inr (item, tally')"
  shows "itemOfRun dateParse (map_option runView (rValue r)) now item"
proof (cases "rValue r")
  case None
  with item show ?thesis by (simp add: resolveRun_def listItem_def itemOfRun_def) auto
next
  case (Some v)
  let ?c = "runView v" and ?resolved = "resolveRun dateParse r now"
  have shape: "wellShaped dateParse ?c" by (rule shaped [OF Some])
  then have "\<exists>x \<in> set (cmTimesUtc ?c). dateParse x \<noteq> None"
    unfolding wellShaped_def by (metis last_in_set option.distinct(1))
  from current_step_nearest [OF this, of now] obtain i t where i:
      "selectStepIndex dateParse (cmTimesUtc ?c) now = Some i" "i < length (cmTimesUtc ?c)"
      "dateParse (cmTimesUtc ?c ! i) = Some t"
      "\<forall>j < length (cmTimesUtc ?c). \<forall>u. dateParse (cmTimesUtc ?c ! j) = Some u \<longrightarrow> \<bar>t - now\<bar> \<le> \<bar>u - now\<bar>"
    by blast
  have res: "rsCompiled ?resolved = Some ?c" "rsStepIndex ?resolved = Some i"
    "rsByPlateCode ?resolved = map_of (rev (map (\<lambda>s. (csPlateCode s, s)) (cmProvinces ?c)))"
    using Some i(1) by (simp_all add: resolveRun_def Let_def)
  have plate: "liPlateCode item = apPlateCode p" by (rule listItem_plate [OF item])
  show ?thesis
  proof (cases "rsByPlateCode ?resolved (apPlateCode p)")
    case None
    then have "apPlateCode p \<notin> csPlateCode ` set (cmProvinces ?c)" by (force simp: res(3) map_of_eq_None_iff)
    moreover have "liStatus item = Aq_unavailable" using item None by (auto simp: listItem_def res)
    ultimately show ?thesis using plate Some by (simp add: itemOfRun_def)
  next
    case s: (Some series)
    then have mem: "series \<in> set (cmProvinces ?c)" "csPlateCode series = apPlateCode p"
      by (auto simp: res(3) dest!: map_of_SomeD)
    obtain index t' where index: "buildIndexDto ?c series i (rsProvenance ?resolved) tally = Inr (index, t')"
        "diBand index = eaqiOverall (eaqiAt series i)" "diCategory index = eaqiCategory (eaqiAt series i)"
        "diDominantPollutant index = dominantPollutant (eaqiAt series i)"
        "diStatus index = (if eaqiOverall (eaqiAt series i) = None then Aq_no_data else Aq_ok)"
        "diValidAtUtc index = itemAt (cmTimesUtc ?c) i"
      using buildIndex_answers by blast
    have shown: "liBand item = diBand index" "liCategory item = diCategory index"
        "liDominantPollutant item = diDominantPollutant index" "liStatus item = diStatus index"
        "liValidAtUtc item = diValidAtUtc index"
      using item by (auto simp: listItem_def res(1,2) s index(1))
    have "liPlateCode item \<in> csPlateCode ` set (cmProvinces ?c)" using mem plate by (metis image_eqI)
    moreover have "liValidAtUtc item = Some (cmTimesUtc ?c ! i)" using shown(5) index(6) i(2) by (simp add: itemAt_def)
    ultimately show ?thesis
      unfolding itemOfRun_def Some option.map option.case
      by (simp only: if_False not_True_eq_False simp_thms)
        (intro exI [of _ series] exI [of _ i] exI [of _ t] conjI, use mem plate i shown index in simp_all)
  qed
qed

lemma listItems_each:
  "\<exists>items tally'. listItems resolved ps tally = Inr (items, tally')
     \<and> list_all2 (\<lambda>p item. \<exists>t t'. listItem resolved p t = Inr (item, t')) ps items"
proof (induction ps arbitrary: tally)
  case (Cons p ps)
  obtain item tally1 where item: "listItem resolved p tally = Inr (item, tally1)" using item_agrees by blast
  obtain items tally2 where "listItems resolved ps tally1 = Inr (items, tally2)"
    "list_all2 (\<lambda>p item. \<exists>t t'. listItem resolved p t = Inr (item, t')) ps items"
    using Cons.IH by blast
  with item show ?case by auto
qed simp

text \<open>
  C21: The list always answers, whatever the tables, the cache and the run are: a failing store
  degrades it and is never an error of the request. It has one item per province, in the order of
  the plate codes. Every item shows the read of the run this request made: the index of its series
  at the run's hour nearest to the time of the answer, and unavailable when there is no run or the
  run lacks the province. A request for the detail of a province in the same state of the world is
  answered with the same cache age and the same names, band, category, dominant pollutant, status
  and hour; the item is unavailable exactly when the detail has no data, and the detail has a
  series exactly when it has data.
\<close>

theorem hub_agrees_with_detail:
  assumes "distinct (map apPlateCode table)"
  shows "\<exists>items age bg w' r w1.
     listProvinces cache runNow poll dateParse cfg port table w = (Inr (items, age), bg, w')
     \<and> readRun cache runNow poll dateParse cfg port (Some (requestDeadline w)) w = (Inr r, bg, w1)
     \<and> map liPlateCode items = map apPlateCode (sort_key apPlateCode table)
     \<and> (\<forall>item \<in> set items. itemOfRun dateParse (map_option runView (rValue r)) (wNow w1) item)
     \<and> (\<forall>p \<in> set table. apLatitude p \<noteq> None \<and> apLongitude p \<noteq> None \<longrightarrow>
          (\<exists>dto w2. getProvince cache runNow poll dateParse cfg port table (apPlateCode p) w = (Inr (dto, age), bg, w2)
             \<and> (\<forall>item \<in> set items. liPlateCode item = apPlateCode p \<longrightarrow> itemAgrees item dto)))"
proof -
  obtain r bg w1 where read: "readRun cache runNow poll dateParse cfg port (Some (requestDeadline w)) w = (Inr r, bg, w1)"
    using readRun_answers by blast
  let ?resolved = "resolveRun dateParse r (wNow w1)" and ?ps = "sort_key apPlateCode table"
  let ?age = "withAirQualityCacheAge (rsCacheAgeSeconds ?resolved)"
  obtain items tally where items: "listItems ?resolved ?ps (Some 0) = Inr (items, tally)"
    and each: "list_all2 (\<lambda>p item. \<exists>t t'. listItem ?resolved p t = Inr (item, t')) ?ps items"
    using listItems_each by blast
  have shaped: "wellShaped dateParse (runView v)" if "rValue r = Some v" for v
    using published_run_checked [OF read that] by blast
  let ?w = "onMetrics (reportNormalisation ?resolved (tallied tally) (wNow w1)) w1"
  have list: "listProvinces cache runNow poll dateParse cfg port table w = (Inr (items, ?age), bg, ?w)"
    by (simp add: listProvinces_def read items Let_def)
  have plates: "map liPlateCode items = map apPlateCode ?ps"
    using each by (induction rule: list_all2_induct) (auto dest: listItem_plate)
  have own: "\<exists>p t t'. p \<in> set table \<and> listItem ?resolved p t = Inr (item, t')" if mem: "item \<in> set items" for item
  proof -
    obtain i where i: "i < length items" "item = items ! i" using mem by (auto simp: in_set_conv_nth)
    have "?ps ! i \<in> set ?ps" using i(1) list_all2_lengthD [OF each] by (intro nth_mem) simp
    then have "?ps ! i \<in> set table" by (simp only: set_sort)
    moreover have "\<exists>t t'. listItem ?resolved (?ps ! i) t = Inr (item, t')"
      unfolding i(2) by (rule list_all2_nthD2 [OF each i(1)])
    ultimately show ?thesis by blast
  qed
  then have shown: "itemOfRun dateParse (map_option runView (rValue r)) (wNow w1) item" if "item \<in> set items" for item
    using listItem_of_run [OF shaped] that by blast
  have detail: "\<exists>dto w2. getProvince cache runNow poll dateParse cfg port table (apPlateCode p) w = (Inr (dto, ?age), bg, w2)
        \<and> (\<forall>item \<in> set items. liPlateCode item = apPlateCode p \<longrightarrow> itemAgrees item dto)"
    if p: "p \<in> set table" "apLatitude p \<noteq> None" "apLongitude p \<noteq> None" for p
  proof -
    obtain latitude longitude where at: "apLatitude p = Some latitude" "apLongitude p = Some longitude" using p by auto
    have same: "q = p" if "q \<in> set table" "apPlateCode q = apPlateCode p" for q
      using assms p(1) that by (auto simp: distinct_map inj_on_def)
    then have found: "find (\<lambda>q. apPlateCode q = apPlateCode p) table = Some p"
      using p(1) by (cases "find (\<lambda>q. apPlateCode q = apPlateCode p) table") (auto simp: find_None_iff dest: find_SomeD)
    obtain dto t where dto: "provinceDetail dateParse ?resolved p latitude longitude (wNow w1) = Inr (dto, t)"
      using item_agrees by blast
    have "itemAgrees item dto" if mem: "item \<in> set items" "liPlateCode item = apPlateCode p" for item
    proof -
      obtain q t1 t2 where q: "q \<in> set table" "listItem ?resolved q t1 = Inr (item, t2)" using own [OF mem(1)] by blast
      with listItem_plate [OF q(2)] mem(2) same have "q = p" by simp
      with q(2) item_agrees [of ?resolved p t1 dateParse latitude longitude "wNow w1"] dto show ?thesis by auto
    qed
    moreover have "\<exists>w2. getProvince cache runNow poll dateParse cfg port table (apPlateCode p) w = (Inr (dto, ?age), bg, w2)"
      by (simp add: getProvince_def found at read dto Let_def)
    ultimately show ?thesis by blast
  qed
  show ?thesis
    by (intro exI [of _ items] exI [of _ ?age] exI [of _ bg] exI [of _ ?w] exI [of _ r] exI [of _ w1]
        conjI ballI impI list read plates shown detail) simp_all
qed

lemma hub_agrees_with_detail_witness:
  "\<exists>items age bg w'. listProvinces inProcessStoreOps runNow examplePoll shortParse shortConfig shortPort
       [\<lparr>apPlateCode = [52], apSlugTr = [], apSlugEn = [], apNameTr = [], apLatitude = Some 1, apLongitude = Some 2\<rparr>]
       coldWorld = (Inr (items, age), bg, w')
     \<and> map liPlateCode items = [[52]]
     \<and> (\<exists>dto w2. getProvince inProcessStoreOps runNow examplePoll shortParse shortConfig shortPort
          [\<lparr>apPlateCode = [52], apSlugTr = [], apSlugEn = [], apNameTr = [], apLatitude = Some 1, apLongitude = Some 2\<rparr>]
          [52] coldWorld = (Inr (dto, age), bg, w2) \<and> (\<forall>item \<in> set items. itemAgrees item dto))"
proof -
  let ?p = "\<lparr>apPlateCode = [52], apSlugTr = [], apSlugEn = [], apNameTr = [], apLatitude = Some 1, apLongitude = Some 2\<rparr> :: provinceRow"
  have one: "distinct (map apPlateCode [?p])" by simp
  obtain items age bg w' where
      run: "listProvinces inProcessStoreOps runNow examplePoll shortParse shortConfig shortPort [?p] coldWorld
        = (Inr (items, age), bg, w')"
      and plates: "map liPlateCode items = map apPlateCode (sort_key apPlateCode [?p])"
      and all: "\<forall>p \<in> set [?p]. apLatitude p \<noteq> None \<and> apLongitude p \<noteq> None \<longrightarrow>
          (\<exists>dto w2. getProvince inProcessStoreOps runNow examplePoll shortParse shortConfig shortPort [?p] (apPlateCode p)
               coldWorld = (Inr (dto, age), bg, w2)
             \<and> (\<forall>item \<in> set items. liPlateCode item = apPlateCode p \<longrightarrow> itemAgrees item dto))"
    using hub_agrees_with_detail [OF one, where cache = inProcessStoreOps and poll = examplePoll and dateParse = shortParse
        and cfg = shortConfig and port = shortPort and w = coldWorld]
    by (elim exE conjE) (rule that)
  have plates: "map liPlateCode items = [[52]]" using plates by simp
  then have "\<forall>item \<in> set items. liPlateCode item = [52]" by (metis empty_iff empty_set image_eqI list.set_map set_ConsD)
  with all show ?thesis using run plates by auto
qed

text \<open>
  The detail of a province is refused as not found exactly when the province is unknown or has
  no reference point, and then nothing of the cache is touched; in every other case the request
  is answered, also when the store fails, and it is marked as without data exactly when there is
  no series.
\<close>

theorem province_detail_refused_exactly:
  "\<exists>res bg w'. getProvince cache runNow poll dateParse cfg port table plate w = (res, bg, w')
     \<and> (case find (\<lambda>p. apPlateCode p = plate) table of
          None \<Rightarrow> res = Inl Province_not_found_error \<and> w' = w
        | Some p \<Rightarrow>
            if apLatitude p = None \<or> apLongitude p = None
            then res = Inl Province_not_found_error \<and> wStore w' = wStore w \<and> wNow w' = wNow w
            else \<exists>dto age. res = Inr (dto, age) \<and> dpPlateCode dto = plate
                   \<and> (dpDataAvailable dto \<longleftrightarrow> dpSeries dto \<noteq> None)
                   \<and> (dpDataAvailable dto \<longleftrightarrow> diStatus (dpCurrent dto) \<noteq> Aq_unavailable))"
proof (cases "find (\<lambda>p. apPlateCode p = plate) table")
  case None
  then show ?thesis by (intro exI [of _ False] exI conjI) (simp_all add: getProvince_def)
next
  case p: (Some p)
  then have plate: "apPlateCode p = plate" by (auto simp: find_Some_iff)
  show ?thesis
  proof (cases "apLatitude p = None \<or> apLongitude p = None")
    case True
    obtain res bg w' where run: "getProvince cache runNow poll dateParse cfg port table plate w = (res, bg, w')"
      by (rule prod_cases3)
    with True p have "res = Inl Province_not_found_error \<and> wStore w' = wStore w \<and> wNow w' = wNow w"
      by (cases "apLatitude p") (auto simp: getProvince_def split: prod.splits)
    with run True p show ?thesis by simp
  next
    case False
    then obtain latitude longitude where at: "apLatitude p = Some latitude" "apLongitude p = Some longitude" by auto
    obtain r bg w1 where read: "readRun cache runNow poll dateParse cfg port (Some (requestDeadline w)) w = (Inr r, bg, w1)"
      using readRun_answers by blast
    obtain item t1 dto t where dto:
        "provinceDetail dateParse (resolveRun dateParse r (wNow w1)) p latitude longitude (wNow w1) = Inr (dto, t)"
        "itemAgrees item dto" "listItem (resolveRun dateParse r (wNow w1)) p None = Inr (item, t1)"
      using item_agrees by blast
    with listItem_plate [OF dto(3)] plate have "dpPlateCode dto = plate" by (simp add: itemAgrees_def)
    with dto p at show ?thesis by (auto simp: getProvince_def read Let_def itemAgrees_def)
  qed
qed

end
