(* ===== verification/Visitor_Tracker.thy ===== *)
theory Visitor_Tracker
  imports Js_Text "HOL-Library.Word"
begin

unbundle bit_operations_syntax

text \<open>
  \<open>src/common/throttler/\<close>: who a request counts against. \<open>visitor-tracker.ts\<close> chooses the
  identity, from the peer or, for an authenticated forwarder, from its address header;
  \<open>trusted-client-throttler.guard.ts\<close> turns it into a key, logs each fallback at most once per
  cooldown and exempts trusted reads. \<open>isIP\<close> of the platform is written out; \<open>toLowerCase\<close> is
  that of ASCII, as no other character becomes one of an address. Digests are parameters.
\<close>

section \<open>Addresses\<close>

definition lowerChar :: "int \<Rightarrow> int" where
  "lowerChar c = (if 65 \<le> c \<and> c \<le> 90 then c + 32 else c)"

text \<open>\<open>net.isIPv4\<close>: four decimal octets without leading zeros.\<close>

definition isOctet :: "jsText \<Rightarrow> bool" where
  "isOctet p \<longleftrightarrow> p \<noteq> [] \<and> length p \<le> 3 \<and> list_all isDigit p \<and> (length p > 1 \<longrightarrow> hd p \<noteq> 48)
     \<and> digitsValue p \<le> 255"

definition isIPv4 :: "jsText \<Rightarrow> bool" where
  "isIPv4 t \<longleftrightarrow> (let parts = splitOn 46 t in length parts = 4 \<and> list_all isOctet parts)"

definition isHexChar :: "int \<Rightarrow> bool" where
  "isHexChar c \<longleftrightarrow> isDigit c \<or> (65 \<le> c \<and> c \<le> 70) \<or> (97 \<le> c \<and> c \<le> 102)"

definition isHextet :: "jsText \<Rightarrow> bool" where
  "isHextet p \<longleftrightarrow> p \<noteq> [] \<and> length p \<le> 4 \<and> list_all isHexChar p"

text \<open>The 16-bit groups of a text of groups; its last may be a dotted address, which makes two.\<close>

fun groupCount :: "bool \<Rightarrow> jsText list \<Rightarrow> nat option" where
  "groupCount dotted [] = Some 0"
| "groupCount dotted [p] =
     (if isHextet p then Some 1 else if dotted \<and> isIPv4 p then Some 2 else None)"
| "groupCount dotted (p # q # ps) = (if isHextet p then map_option Suc (groupCount dotted (q # ps)) else None)"

text \<open>The first \<open>::\<close> of a text, with what is before and after it.\<close>

fun splitDouble :: "jsText \<Rightarrow> (jsText \<times> jsText) option" where
  "splitDouble (c # d # rest) =
     (if c = 58 \<and> d = 58 then Some ([], rest)
      else map_option (\<lambda>(a, b). (c # a, b)) (splitDouble (d # rest)))"
| "splitDouble t = None"

definition groupsOf :: "jsText \<Rightarrow> jsText list" where
  "groupsOf t = (if t = [] then [] else splitOn 58 t)"

definition isIPv6 :: "jsText \<Rightarrow> bool" where
  "isIPv6 t =
     (case splitDouble t of
        None \<Rightarrow> groupCount True (groupsOf t) = Some 8
      | Some (a, b) \<Rightarrow>
          (case (groupCount False (groupsOf a), groupCount True (groupsOf b)) of
             (Some m, Some n) \<Rightarrow> m + n \<le> 7
           | _ \<Rightarrow> False))"

definition isIP :: "jsText \<Rightarrow> nat" where
  "isIP t = (if isIPv4 t then 4 else if isIPv6 t then 6 else 0)"

section \<open>Normalising and classifying an address\<close>

definition MAX_VISITOR_ADDRESS_LENGTH :: nat where "MAX_VISITOR_ADDRESS_LENGTH = 45"

definition MAPPED_PREFIX :: jsText where "MAPPED_PREFIX = ascii ''::ffff:''"

definition normaliseAddressCandidate :: "jsText \<Rightarrow> jsText option" where
  "normaliseAddressCandidate raw =
     (if raw = [] \<or> MAX_VISITOR_ADDRESS_LENGTH < length raw then None
      else if 44 \<in> set raw then None
      else if 37 \<in> set raw then None
      else let lowered = map lowerChar raw
           in if isIP lowered = 0 then None
              else if startsWith lowered MAPPED_PREFIX \<and> isIP (drop 7 lowered) = 4 then Some (drop 7 lowered)
              else Some lowered)"

text \<open>
  The bit operators of JavaScript work on 32 bits. The code asks this of dotted addresses only,
  whose parts are digits.
\<close>

definition octetOf :: "jsText \<Rightarrow> int option" where
  "octetOf p = (if list_all isDigit p \<and> digitsValue p \<le> 255 then Some (digitsValue p) else None)"

fun shiftOctets :: "32 word \<Rightarrow> jsText list \<Rightarrow> 32 word option" where
  "shiftOctets v [] = Some v"
| "shiftOctets v (p # ps) =
     (case octetOf p of None \<Rightarrow> None | Some octet \<Rightarrow> shiftOctets (push_bit 8 v + word_of_int octet) ps)"

definition ipv4ToInt :: "jsText \<Rightarrow> 32 word option" where
  "ipv4ToInt ip = (let parts = splitOn 46 ip in if length parts \<noteq> 4 then None else shiftOctets 0 parts)"

definition IPV4_PRIVATE_RANGES :: "(jsText \<times> nat) list" where
  "IPV4_PRIVATE_RANGES =
     [(ascii ''0.0.0.0'', 32), (ascii ''10.0.0.0'', 8), (ascii ''127.0.0.0'', 8),
      (ascii ''169.254.0.0'', 16), (ascii ''172.16.0.0'', 12), (ascii ''192.168.0.0'', 16)]"

definition rangeMask :: "nat \<Rightarrow> 32 word" where
  "rangeMask prefix = (if prefix = 0 then 0 else push_bit (32 - prefix) (0xffffffff))"

definition isPrivateIpv4 :: "jsText \<Rightarrow> bool" where
  "isPrivateIpv4 address =
     (case ipv4ToInt address of
        None \<Rightarrow> False
      | Some target \<Rightarrow>
          list_ex (\<lambda>(base, prefix).
            case ipv4ToInt base of
              None \<Rightarrow> False
            | Some baseInt \<Rightarrow> target AND rangeMask prefix = baseInt AND rangeMask prefix) IPV4_PRIVATE_RANGES)"

definition isPrivateIpv6 :: "jsText \<Rightarrow> bool" where
  "isPrivateIpv6 address \<longleftrightarrow>
     address = ascii ''::'' \<or> address = ascii ''::1''
     \<or> take 2 address \<in> {ascii ''fc'', ascii ''fd''}
     \<or> take 3 address \<in> {ascii ''fe8'', ascii ''fe9'', ascii ''fea'', ascii ''feb''}"

definition isNonPublicAddress :: "jsText \<Rightarrow> bool" where
  "isNonPublicAddress address = (if isIP address = 4 then isPrivateIpv4 address else isPrivateIpv6 address)"

section \<open>The identity of a request\<close>

datatype trackerFallbackReason =
    Forward_token_multi_valued
  | Forward_token_mismatch
  | Forwarder_without_address
  | Address_multi_valued
  | Address_malformed
  | Non_public_address_in_production
  | Peer_address_malformed

datatype rawHeaderValue = Header_absent | Header_single jsText | Header_list "jsText list"

datatype identitySource = From_peer | From_forwarder

record visitorIdentityInput =
  viResolvedPeer :: "jsText option"
  viRawSocketAddress :: "jsText option"
  viForwardTokenHeader :: rawHeaderValue
  viAddressHeader :: rawHeaderValue
  viConfiguredForwardToken :: "jsText option"
  viIsProduction :: bool

record visitorIdentityResult =
  vrIdentity :: jsText
  vrSource :: identitySource
  vrReason :: "trackerFallbackReason option"

text \<open>The digests are compared; a token that is not configured or not presented matches nothing.\<close>

definition constantTimeTokenMatch ::
  "(jsText \<Rightarrow> 'd) \<Rightarrow> jsText option \<Rightarrow> jsText option \<Rightarrow> bool" where
  "constantTimeTokenMatch sha256 presented configured =
     (case (configured, presented) of
        (Some c, Some p) \<Rightarrow> c \<noteq> [] \<and> sha256 p = sha256 c
      | _ \<Rightarrow> False)"

definition UNKNOWN_PEER :: jsText where "UNKNOWN_PEER = ascii ''unknown-peer''"

definition resolvePeerIdentity ::
  "jsText option \<Rightarrow> jsText option \<Rightarrow> jsText \<times> trackerFallbackReason option" where
  "resolvePeerIdentity resolvedPeer rawSocketAddress =
     (case Option.bind resolvedPeer normaliseAddressCandidate of
        Some a \<Rightarrow> (a, None)
      | None \<Rightarrow>
         (case Option.bind rawSocketAddress normaliseAddressCandidate of
            Some a \<Rightarrow> (a, Some Peer_address_malformed)
          | None \<Rightarrow> (UNKNOWN_PEER, Some Peer_address_malformed)))"

definition resolveVisitorIdentity ::
  "(jsText \<Rightarrow> 'd) \<Rightarrow> visitorIdentityInput \<Rightarrow> visitorIdentityResult" where
  "resolveVisitorIdentity sha256 inp =
     (let (peerIdentity, peerReason) = resolvePeerIdentity (viResolvedPeer inp) (viRawSocketAddress inp);
          peerResult = (\<lambda>why. \<lparr>vrIdentity = peerIdentity, vrSource = From_peer, vrReason = why\<rparr>)
      in if viConfiguredForwardToken inp = None \<or> viConfiguredForwardToken inp = Some [] then peerResult peerReason
         else case viForwardTokenHeader inp of
           Header_list xs \<Rightarrow> peerResult (Some Forward_token_multi_valued)
         | Header_absent \<Rightarrow> peerResult peerReason
         | Header_single token \<Rightarrow>
            (if \<not> constantTimeTokenMatch sha256 (Some token) (viConfiguredForwardToken inp)
             then peerResult (Some Forward_token_mismatch)
             else case viAddressHeader inp of
               Header_absent \<Rightarrow> peerResult (Some Forwarder_without_address)
             | Header_list xs \<Rightarrow> peerResult (Some Address_multi_valued)
             | Header_single a \<Rightarrow>
                (case normaliseAddressCandidate a of
                   None \<Rightarrow> peerResult (Some Address_malformed)
                 | Some address \<Rightarrow>
                     if viIsProduction inp \<and> isNonPublicAddress address
                     then peerResult (Some Non_public_address_in_production)
                     else \<lparr>vrIdentity = address, vrSource = From_forwarder, vrReason = None\<rparr>)))"

section \<open>The guard\<close>

definition upperChar :: "int \<Rightarrow> int" where
  "upperChar c = (if 97 \<le> c \<and> c \<le> 122 then c - 32 else c)"

definition TRACKER_REASON_LOG_COOLDOWN_MS :: int where "TRACKER_REASON_LOG_COOLDOWN_MS = 15 * 60 * 1000"

record trackerGuard =
  tgLogged :: "trackerFallbackReason \<Rightarrow> int option"
  tgLines :: "(int \<times> trackerFallbackReason) list"

definition buildTrackerKey :: "('s \<Rightarrow> jsText \<Rightarrow> jsText) \<Rightarrow> 's \<Rightarrow> jsText \<Rightarrow> jsText" where
  "buildTrackerKey hmac salt identity = hmac salt (ascii ''throttle:v1:'' @ identity)"

definition getTracker ::
  "(jsText \<Rightarrow> 'd) \<Rightarrow> ('s \<Rightarrow> jsText \<Rightarrow> jsText) \<Rightarrow> 's \<Rightarrow> int \<Rightarrow> visitorIdentityInput \<Rightarrow> trackerGuard
   \<Rightarrow> jsText \<times> trackerGuard" where
  "getTracker sha256 hmac salt now inp g =
     (let res = resolveVisitorIdentity sha256 inp;
          g' = (case vrReason res of
                  None \<Rightarrow> g
                | Some why \<Rightarrow>
                    (if (case tgLogged g why of None \<Rightarrow> True | Some t \<Rightarrow> TRACKER_REASON_LOG_COOLDOWN_MS \<le> now - t)
                     then g\<lparr>tgLogged := (tgLogged g)(why := Some now), tgLines := tgLines g @ [(now, why)]\<rparr>
                     else g))
      in (buildTrackerKey hmac salt (vrIdentity res), g'))"

definition shouldSkip ::
  "(jsText \<Rightarrow> 'd) \<Rightarrow> bool \<Rightarrow> bool \<Rightarrow> jsText \<Rightarrow> rawHeaderValue \<Rightarrow> jsText option \<Rightarrow> bool" where
  "shouldSkip sha256 optedOut inherited meth rawHeader configured =
     (if optedOut then False
      else if inherited then True
      else if map upperChar meth \<notin> {ascii ''GET'', ascii ''HEAD''} then False
      else constantTimeTokenMatch sha256
             (case rawHeader of Header_absent \<Rightarrow> None | Header_single t \<Rightarrow> Some t
              | Header_list xs \<Rightarrow> (case xs of [] \<Rightarrow> None | t # _ \<Rightarrow> Some t)) configured)"

section \<open>Lemmas on addresses\<close>

lemma isIPv4_head:
  assumes "isIPv4 t" shows "\<exists>c r. t = c # r \<and> isDigit c"
proof -
  obtain p ps where parts: "splitOn 46 t = p # ps" using splitOn_nonempty by (meson neq_Nil_conv)
  then have "isOctet p" using assms by (simp add: isIPv4_def)
  then obtain c q where p: "p = c # q" "isDigit c" by (cases p) (auto simp: isOctet_def)
  then have "takeWhile (\<lambda>c. c \<noteq> 46) t = c # q" using hd_splitOn [of 46 t] parts by simp
  then show ?thesis using p(2) by (cases t) (auto split: if_splits)
qed

lemma isIPv4_not_mapped: "isIPv4 t \<Longrightarrow> \<not> startsWith t MAPPED_PREFIX"
  using isIPv4_head [of t] by (auto simp: startsWith_def MAPPED_PREFIX_def ascii_def isDigit_def)

lemma lowerChar_idem [simp]: "lowerChar (lowerChar c) = lowerChar c"
  by (simp add: lowerChar_def)

lemma lowerChar_separators: "44 \<in> lowerChar ` S \<longleftrightarrow> 44 \<in> S" "37 \<in> lowerChar ` S \<longleftrightarrow> 37 \<in> S"
  by (auto simp: lowerChar_def image_iff split: if_splits)

lemma normalise_parts:
  assumes "normaliseAddressCandidate raw = Some a"
  shows "a \<noteq> []" "length a \<le> MAX_VISITOR_ADDRESS_LENGTH" "44 \<notin> set a" "37 \<notin> set a" "map lowerChar a = a"
    "isIP a \<noteq> 0" "\<not> (startsWith a MAPPED_PREFIX \<and> isIP (drop 7 a) = 4)"
proof -
  let ?l = "map lowerChar raw"
  have raw: "raw \<noteq> []" "length raw \<le> MAX_VISITOR_ADDRESS_LENGTH" "44 \<notin> set ?l" "37 \<notin> set ?l" "isIP ?l \<noteq> 0"
    using assms by (auto simp: normaliseAddressCandidate_def Let_def lowerChar_separators split: if_splits)
  have "a = drop 7 ?l \<and> isIP a = 4 \<or> a = ?l \<and> \<not> (startsWith ?l MAPPED_PREFIX \<and> isIP (drop 7 ?l) = 4)"
    using assms by (auto simp: normaliseAddressCandidate_def Let_def split: if_splits)
  then have "a \<noteq> [] \<and> length a \<le> MAX_VISITOR_ADDRESS_LENGTH \<and> 44 \<notin> set a \<and> 37 \<notin> set a \<and> map lowerChar a = a
    \<and> isIP a \<noteq> 0 \<and> \<not> (startsWith a MAPPED_PREFIX \<and> isIP (drop 7 a) = 4)"
  proof
    assume a: "a = drop 7 ?l \<and> isIP a = 4"
    then have v4: "isIPv4 a" by (simp add: isIP_def split: if_splits)
    have "set a \<subseteq> set ?l" using set_drop_subset [of 7 ?l] a by simp
    moreover have "map lowerChar a = a" using a by (simp add: drop_map [symmetric] comp_def)
    ultimately show ?thesis using a raw isIPv4_not_mapped [OF v4] isIPv4_head [OF v4] by auto
  next
    assume a: "a = ?l \<and> \<not> (startsWith ?l MAPPED_PREFIX \<and> isIP (drop 7 ?l) = 4)"
    then show ?thesis using raw by (auto simp: comp_def)
  qed
  then show "a \<noteq> []" "length a \<le> MAX_VISITOR_ADDRESS_LENGTH" "44 \<notin> set a" "37 \<notin> set a" "map lowerChar a = a"
    "isIP a \<noteq> 0" "\<not> (startsWith a MAPPED_PREFIX \<and> isIP (drop 7 a) = 4)" by simp_all
qed

lemma normalise_idem:
  assumes "normaliseAddressCandidate raw = Some a" shows "normaliseAddressCandidate a = Some a"
  using normalise_parts [OF assms] by (auto simp: normaliseAddressCandidate_def Let_def)

lemma resolvePeerIdentity_normal:
  "fst (resolvePeerIdentity p s) = UNKNOWN_PEER
   \<or> normaliseAddressCandidate (fst (resolvePeerIdentity p s)) = Some (fst (resolvePeerIdentity p s))"
  by (auto simp: resolvePeerIdentity_def normalise_idem bind_eq_Some_conv split: option.split)

text \<open>
  A request counts against the address a forwarder names exactly when the forwarding token is
  configured and presented once, the address is one header that normalises, and in production is
  public; else against its peer. Either way the identity is a normalised address, so that one
  spelling has one counter, or the one shared by unreadable peers.
\<close>

theorem visitor_identity_exact:
  "(vrSource (resolveVisitorIdentity sha256 inp) = From_forwarder \<longleftrightarrow>
      (\<exists>configured token raw a. viConfiguredForwardToken inp = Some configured \<and> configured \<noteq> []
         \<and> viForwardTokenHeader inp = Header_single token \<and> sha256 token = sha256 configured
         \<and> viAddressHeader inp = Header_single raw \<and> normaliseAddressCandidate raw = Some a
         \<and> \<not> (viIsProduction inp \<and> isNonPublicAddress a)
         \<and> vrIdentity (resolveVisitorIdentity sha256 inp) = a))
   \<and> (vrSource (resolveVisitorIdentity sha256 inp) = From_peer \<longleftrightarrow>
        vrSource (resolveVisitorIdentity sha256 inp) \<noteq> From_forwarder
        \<and> vrIdentity (resolveVisitorIdentity sha256 inp)
            = fst (resolvePeerIdentity (viResolvedPeer inp) (viRawSocketAddress inp)))
   \<and> vrIdentity (resolveVisitorIdentity sha256 inp)
       \<in> {UNKNOWN_PEER} \<union> {a. normaliseAddressCandidate a = Some a}"
  using resolvePeerIdentity_normal [of "viResolvedPeer inp" "viRawSocketAddress inp"]
  by (auto simp: resolveVisitorIdentity_def constantTimeTokenMatch_def normalise_idem split_beta Let_def
      split: option.splits rawHeaderValue.splits if_splits)

lemma visitor_identity_forwarded:
  "vrSource (resolveVisitorIdentity (\<lambda>t. t)
     \<lparr>viResolvedPeer = None, viRawSocketAddress = None, viForwardTokenHeader = Header_single [1],
      viAddressHeader = Header_single (ascii ''::FFFF:8.8.8.8''), viConfiguredForwardToken = Some [1],
      viIsProduction = True\<rparr>) = From_forwarder"
  by code_simp

section \<open>Private ranges\<close>

text \<open>The decimal text of an octet, and a dotted address.\<close>

definition octetText :: "nat \<Rightarrow> jsText" where
  "octetText n = paddedDigits (if n < 10 then 1 else if n < 100 then 2 else 3) (int n)"

definition dotted :: "nat \<Rightarrow> nat \<Rightarrow> nat \<Rightarrow> nat \<Rightarrow> jsText" where
  "dotted a b c d = octetText a @ 46 # octetText b @ 46 # octetText c @ 46 # octetText d"

lemma octetText_digits: "list_all isDigit (octetText n)"
  by (simp add: octetText_def)

lemma octetText_no_dot: "46 \<notin> set (octetText n)"
  using octetText_digits [of n] by (auto simp: list_all_iff isDigit_def)

lemma octetOf_octetText: "n \<le> 255 \<Longrightarrow> octetOf (octetText n) = Some (int n)"
proof -
  assume "n \<le> 255"
  then have "digitsValue (octetText n) = int n" by (simp add: octetText_def digitsValue_paddedDigits)
  with \<open>n \<le> 255\<close> show ?thesis by (simp add: octetOf_def octetText_digits)
qed

definition addressWord :: "nat \<Rightarrow> nat \<Rightarrow> nat \<Rightarrow> nat \<Rightarrow> 32 word" where
  "addressWord a b c d = word_of_nat (((a * 256 + b) * 256 + c) * 256 + d)"

lemma ipv4ToInt_dotted:
  assumes "a \<le> 255" and "b \<le> 255" and "c \<le> 255" and "d \<le> 255"
  shows "ipv4ToInt (dotted a b c d) = Some (addressWord a b c d)"
proof -
  have "splitOn 46 (dotted a b c d) = [octetText a, octetText b, octetText c, octetText d]"
    by (simp add: dotted_def splitOn_append splitOn_plain octetText_no_dot)
  then show ?thesis
    using assms by (simp add: ipv4ToInt_def octetOf_octetText addressWord_def push_bit_eq_mult algebra_simps)
qed

lemma same_masked:
  fixes x y :: "32 word"
  assumes "0 < n" and "n \<le> 32"
  shows "x AND rangeMask n = y AND rangeMask n \<longleftrightarrow> unat x div 2 ^ (32 - n) = unat y div 2 ^ (32 - n)"
proof -
  let ?k = "32 - n"
  have "(0xffffffff :: 32 word) = - 1" and "n \<noteq> 0" using assms(1) by simp_all
  then have ones: "rangeMask n = push_bit ?k (- 1)" by (simp only: rangeMask_def if_False)
  have high: "z AND rangeMask n = push_bit ?k (drop_bit ?k z)" for z :: "32 word"
    unfolding ones by (rule bit_eqI) (auto simp: bit_simps)
  have "drop_bit ?k x = drop_bit ?k y" if eq: "push_bit ?k (drop_bit ?k x) = push_bit ?k (drop_bit ?k y)"
  proof (rule bit_eqI)
    fix i
    have "bit (push_bit ?k (drop_bit ?k x)) (?k + i) = bit (push_bit ?k (drop_bit ?k y)) (?k + i)" by (simp only: eq)
    then show "bit (drop_bit ?k x) i = bit (drop_bit ?k y) i"
      by (cases "?k + i < 32") (auto simp: bit_simps dest: bit_imp_le_length)
  qed
  then have "x AND rangeMask n = y AND rangeMask n \<longleftrightarrow> drop_bit ?k x = drop_bit ?k y" unfolding high by auto
  also have "\<dots> \<longleftrightarrow> unat (drop_bit ?k x) = unat (drop_bit ?k y)" by (simp add: word_unat_eq_iff)
  finally show ?thesis unfolding unat_drop_bit_eq unfolding drop_bit_eq_div .
qed

lemma two_digits:
  fixes a b p q n :: nat
  assumes "b < n" and "q < n"
  shows "a * n + b = p * n + q \<longleftrightarrow> a = p \<and> b = q"
proof
  assume eq: "a * n + b = p * n + q"
  have "(a * n + b) div n = a" "(a * n + b) mod n = b" using assms(1) by simp_all
  moreover have "(p * n + q) div n = p" "(p * n + q) mod n = q" using assms(2) by simp_all
  ultimately show "a = p \<and> b = q" using eq by simp
qed simp

lemma private_bases:
  "ascii ''0.0.0.0'' = dotted 0 0 0 0" "ascii ''10.0.0.0'' = dotted 10 0 0 0" "ascii ''127.0.0.0'' = dotted 127 0 0 0"
  "ascii ''169.254.0.0'' = dotted 169 254 0 0" "ascii ''172.16.0.0'' = dotted 172 16 0 0"
  "ascii ''192.168.0.0'' = dotted 192 168 0 0"
  by code_simp+

lemma unat_addressWord:
  assumes "a \<le> 255" and "b \<le> 255" and "c \<le> 255" and "d \<le> 255"
  shows "unat (addressWord a b c d) = ((a * 256 + b) * 256 + c) * 256 + d"
    "unat (addressWord a b c d) div 2 ^ 24 = a"
    "unat (addressWord a b c d) div 2 ^ 16 = a * 256 + b"
    "unat (addressWord a b c d) div 2 ^ 20 = a * 16 + b div 16"
proof -
  have "((a * 256 + b) * 256 + c) * 256 + d < 2 ^ 32" using assms by simp
  then show n: "unat (addressWord a b c d) = ((a * 256 + b) * 256 + c) * 256 + d"
    unfolding addressWord_def unat_of_nat by (intro mod_less) simp
  show n16: "unat (addressWord a b c d) div 2 ^ 16 = a * 256 + b" using assms by (simp add: n)
  have "unat (addressWord a b c d) div 2 ^ 24 = unat (addressWord a b c d) div 2 ^ 16 div 256"
    by (simp add: div_mult2_eq [symmetric])
  also have "\<dots> = a" unfolding n16 using assms by simp
  finally show "unat (addressWord a b c d) div 2 ^ 24 = a" .
  have "unat (addressWord a b c d) div 2 ^ 20 = unat (addressWord a b c d) div 2 ^ 16 div 16"
    by (simp add: div_mult2_eq [symmetric])
  also have "\<dots> = a * 16 + b div 16" unfolding n16 by simp
  finally show "unat (addressWord a b c d) div 2 ^ 20 = a * 16 + b div 16" .
qed

text \<open>
  C37: The mask arithmetic on 32-bit words names exactly the unspecified, private, loopback and
  link-local addresses.
\<close>

theorem private_ipv4_exact:
  assumes "a \<le> 255" and "b \<le> 255" and "c \<le> 255" and "d \<le> 255"
  shows "isPrivateIpv4 (dotted a b c d) \<longleftrightarrow>
     (a, b, c, d) = (0, 0, 0, 0) \<or> a = 10 \<or> a = 127 \<or> (a, b) = (169, 254)
     \<or> a = 172 \<and> 16 \<le> b \<and> b \<le> 31 \<or> (a, b) = (192, 168)"
proof -
  note u = unat_addressWord [OF assms]
  have all: "unat (addressWord a b c d) = 0 \<longleftrightarrow> (a, b, c, d) = (0, 0, 0, 0)" unfolding u(1) by auto
  let ?x = "addressWord a b c d"
  have base: "ipv4ToInt (dotted p q 0 0) = Some (addressWord p q 0 0)" if "p \<le> 255" "q \<le> 255" for p q
    using that by (intro ipv4ToInt_dotted) simp_all
  have m8: "?x AND rangeMask 8 = addressWord p 0 0 0 AND rangeMask 8 \<longleftrightarrow> a = p" if "p \<le> 255" for p
    using same_masked [of 8 ?x] u(2) unat_addressWord(2) [of p 0 0 0] that by simp
  have m16: "?x AND rangeMask 16 = addressWord p q 0 0 AND rangeMask 16 \<longleftrightarrow> a * 256 + b = p * 256 + q"
    if "p \<le> 255" "q \<le> 255" for p q
    using same_masked [of 16 ?x] u(3) unat_addressWord(3) [of p q 0 0] that by simp
  have m12: "?x AND rangeMask 12 = addressWord p q 0 0 AND rangeMask 12 \<longleftrightarrow> a * 16 + b div 16 = p * 16 + q div 16"
    if "p \<le> 255" "q \<le> 255" for p q
    using same_masked [of 12 ?x] u(4) unat_addressWord(4) [of p q 0 0] that by simp
  have m32: "?x AND rangeMask 32 = addressWord 0 0 0 0 AND rangeMask 32 \<longleftrightarrow> unat ?x = 0"
    using same_masked [of 32 ?x] unat_addressWord(1) [of 0 0 0 0] by simp
  have bases: "ipv4ToInt (dotted 0 0 0 0) = Some (addressWord 0 0 0 0)"
    "ipv4ToInt (dotted 10 0 0 0) = Some (addressWord 10 0 0 0)"
    "ipv4ToInt (dotted 127 0 0 0) = Some (addressWord 127 0 0 0)"
    "ipv4ToInt (dotted 169 254 0 0) = Some (addressWord 169 254 0 0)"
    "ipv4ToInt (dotted 172 16 0 0) = Some (addressWord 172 16 0 0)"
    "ipv4ToInt (dotted 192 168 0 0) = Some (addressWord 192 168 0 0)"
    by (rule base; simp)+
  have masks: "?x AND rangeMask 8 = addressWord 10 0 0 0 AND rangeMask 8 \<longleftrightarrow> a = 10"
    "?x AND rangeMask 8 = addressWord 127 0 0 0 AND rangeMask 8 \<longleftrightarrow> a = 127"
    "?x AND rangeMask 16 = addressWord 169 254 0 0 AND rangeMask 16 \<longleftrightarrow> a * 256 + b = 169 * 256 + 254"
    "?x AND rangeMask 12 = addressWord 172 16 0 0 AND rangeMask 12 \<longleftrightarrow> a * 16 + b div 16 = 172 * 16 + 16 div 16"
    "?x AND rangeMask 16 = addressWord 192 168 0 0 AND rangeMask 16 \<longleftrightarrow> a * 256 + b = 192 * 256 + 168"
    by ((rule m8 m16 m12; simp))+
  have ex6: "list_ex P [p, q, r, s, t, u] \<longleftrightarrow> P p \<or> P q \<or> P r \<or> P s \<or> P t \<or> P u"
    for P :: "jsText \<times> nat \<Rightarrow> bool" and p q r s t u
    by simp
  have "isPrivateIpv4 (dotted a b c d) \<longleftrightarrow>
      unat ?x = 0 \<or> a = 10 \<or> a = 127 \<or> a * 256 + b = 169 * 256 + 254
      \<or> a * 16 + b div 16 = 172 * 16 + 16 div 16 \<or> a * 256 + b = 192 * 256 + 168"
    unfolding isPrivateIpv4_def ipv4ToInt_dotted [OF assms] IPV4_PRIVATE_RANGES_def private_bases
    by (simp only: ex6 prod.case option.case bases masks m32)
  also have "a * 256 + b = 169 * 256 + 254 \<longleftrightarrow> a = 169 \<and> b = 254" by (rule two_digits) (use assms(2) in simp_all)
  also have "a * 256 + b = 192 * 256 + 168 \<longleftrightarrow> a = 192 \<and> b = 168" by (rule two_digits) (use assms(2) in simp_all)
  also have "a * 16 + b div 16 = 172 * 16 + 16 div 16 \<longleftrightarrow> a = 172 \<and> b div 16 = 16 div 16"
    by (rule two_digits) (use assms(2) in simp_all)
  also have "b div 16 = 16 div 16 \<longleftrightarrow> 16 \<le> b \<and> b \<le> 31" by auto
  finally show ?thesis using all by simp
qed

theorem private_ipv4_exact_witness:
  "isPrivateIpv4 (ascii ''172.31.0.9'') \<and> \<not> isPrivateIpv4 (ascii ''172.32.0.9'')"
proof -
  have "dotted 172 31 0 9 = ascii ''172.31.0.9''" "dotted 172 32 0 9 = ascii ''172.32.0.9''" by code_simp+
  then show ?thesis using private_ipv4_exact [of 172 31 0 9] private_ipv4_exact [of 172 32 0 9] by simp
qed

section \<open>Lines of the guard\<close>

text \<open>Two lines of one reason are at least the cooldown apart.\<close>

fun spaced :: "(int \<times> trackerFallbackReason) list \<Rightarrow> bool" where
  "spaced [] \<longleftrightarrow> True"
| "spaced ((t, r) # ls) \<longleftrightarrow> (\<forall>(t', r') \<in> set ls. r' = r \<longrightarrow> t + TRACKER_REASON_LOG_COOLDOWN_MS \<le> t') \<and> spaced ls"

definition guardOk :: "trackerGuard \<Rightarrow> bool" where
  "guardOk g \<longleftrightarrow> spaced (tgLines g)
     \<and> (\<forall>(t, r) \<in> set (tgLines g). \<exists>t'. tgLogged g r = Some t' \<and> t \<le> t')"

lemma spaced_snoc:
  "spaced (ls @ [(t', r')]) \<longleftrightarrow> spaced ls \<and> (\<forall>(t, r) \<in> set ls. r = r' \<longrightarrow> t + TRACKER_REASON_LOG_COOLDOWN_MS \<le> t')"
  by (induction ls) auto

lemma getTracker_ok:
  assumes "guardOk g" shows "guardOk (snd (getTracker sha256 hmac salt now inp g))"
proof -
  have "0 \<le> TRACKER_REASON_LOG_COOLDOWN_MS" by (simp add: TRACKER_REASON_LOG_COOLDOWN_MS_def)
  with assms show ?thesis
    by (fastforce simp: getTracker_def Let_def guardOk_def spaced_snoc split: option.splits if_splits)
qed

end
