(* ===== verification/Favorites.thy ===== *)
theory Favorites
  imports Prelude
begin

text \<open>
  \<open>src/favorites/favorites.service.ts\<close>: a learner's favourite provinces, countries, regions and
  continents. A row holds one internal id in the column of its kind; the wire carries the public
  code. Each statement is the SQL it sends, on the tables as lists; one that fails throws and
  changes nothing.
\<close>

section \<open>Rows\<close>

datatype favoriteEntityType = Province | Country | Region | Continent

datatype continentLabel =
    ASYA | AVRUPA | AFRIKA | KUZEY_AMERIKA | GUNEY_AMERIKA | OKYANUSYA | ANTARKTIKA

fun continentText :: "continentLabel \<Rightarrow> string" where
  "continentText ASYA = ''ASYA''"
| "continentText AVRUPA = ''AVRUPA''"
| "continentText AFRIKA = ''AFRIKA''"
| "continentText KUZEY_AMERIKA = ''KUZEY_AMERIKA''"
| "continentText GUNEY_AMERIKA = ''GUNEY_AMERIKA''"
| "continentText OKYANUSYA = ''OKYANUSYA''"
| "continentText ANTARKTIKA = ''ANTARKTIKA''"

definition CONTINENTS :: "continentLabel list" where
  "CONTINENTS = [ASYA, AVRUPA, AFRIKA, KUZEY_AMERIKA, GUNEY_AMERIKA, OKYANUSYA, ANTARKTIKA]"

record favorite =
  fvId :: nat
  fvUserId :: string
  fvProvinceId :: "string option"
  fvCountryId :: "string option"
  fvRegionId :: "string option"
  fvContinent :: "string option"
  fvCreatedAt :: ms

text \<open>The tables the codes come from: pairs of an internal id and its code.\<close>

record favoriteCatalogue =
  fcProvinces :: "(string \<times> string) list"
  fcCountries :: "(string \<times> string) list"
  fcRegions :: "(string \<times> string) list"

record favoriteTables =
  ftRows :: "favorite list"
  ftNextId :: nat

record favoriteDto =
  fdEntityType :: favoriteEntityType
  fdEntityId :: string
  fdCreatedAt :: ms

section \<open>Resolving\<close>

fun columnOf :: "favoriteEntityType \<Rightarrow> favorite \<Rightarrow> string option" where
  "columnOf Province r = fvProvinceId r"
| "columnOf Country r = fvCountryId r"
| "columnOf Region r = fvRegionId r"
| "columnOf Continent r = fvContinent r"

definition idOfCode :: "(string \<times> string) list \<Rightarrow> string \<Rightarrow> string option" where
  "idOfCode rows code = map_option fst (find (\<lambda>(i, c). c = code) rows)"

definition codeOfId :: "(string \<times> string) list \<Rightarrow> string \<Rightarrow> string option" where
  "codeOfId rows i = map_of rows i"

text \<open>The value for the column of the kind; \<open>None\<close> when the code names nothing.\<close>

fun resolveTarget :: "favoriteCatalogue \<Rightarrow> favoriteEntityType \<Rightarrow> string \<Rightarrow> string option" where
  "resolveTarget cat Province code = idOfCode (fcProvinces cat) code"
| "resolveTarget cat Country code = idOfCode (fcCountries cat) code"
| "resolveTarget cat Region code = idOfCode (fcRegions cat) code"
| "resolveTarget cat Continent code = (if code \<in> continentText ` set CONTINENTS then Some code else None)"

text \<open>The first column that is set decides; a row that no longer resolves is left out of the list.\<close>

definition resolveRowBusinessKey ::
  "favoriteCatalogue \<Rightarrow> favorite \<Rightarrow> (favoriteEntityType \<times> string) option" where
  "resolveRowBusinessKey cat r =
     (case fvProvinceId r of
        Some i \<Rightarrow> map_option (Pair Province) (codeOfId (fcProvinces cat) i)
      | None \<Rightarrow>
     (case fvCountryId r of
        Some i \<Rightarrow> map_option (Pair Country) (codeOfId (fcCountries cat) i)
      | None \<Rightarrow>
     (case fvRegionId r of
        Some i \<Rightarrow> map_option (Pair Region) (codeOfId (fcRegions cat) i)
      | None \<Rightarrow> map_option (Pair Continent) (fvContinent r))))"

section \<open>Operations\<close>

definition listFavorites :: "favoriteCatalogue \<Rightarrow> favoriteTables \<Rightarrow> string \<Rightarrow> favoriteDto list" where
  "listFavorites cat db userId =
     List.map_filter (\<lambda>r. map_option (\<lambda>(t, code).
         \<lparr>fdEntityType = t, fdEntityId = code, fdCreatedAt = fvCreatedAt r\<rparr>) (resolveRowBusinessKey cat r))
       (sort_key fvCreatedAt (filter (\<lambda>r. fvUserId r = userId) (ftRows db)))"

definition newFavorite :: "nat \<Rightarrow> string \<Rightarrow> favoriteEntityType \<Rightarrow> string \<Rightarrow> ms \<Rightarrow> favorite" where
  "newFavorite i userId t v now =
     \<lparr>fvId = i, fvUserId = userId,
      fvProvinceId = (if t = Province then Some v else None), fvCountryId = (if t = Country then Some v else None),
      fvRegionId = (if t = Region then Some v else None), fvContinent = (if t = Continent then Some v else None),
      fvCreatedAt = now\<rparr>"

definition sameFavorite :: "string \<Rightarrow> favoriteEntityType \<Rightarrow> string \<Rightarrow> favorite \<Rightarrow> bool" where
  "sameFavorite userId t v r \<longleftrightarrow> fvUserId r = userId \<and> columnOf t r = Some v"

text \<open>\<open>INSERT ... ON CONFLICT (user, column) DO UPDATE SET user_id RETURNING created_at\<close>.\<close>

definition upsertFavorite ::
  "string \<Rightarrow> favoriteEntityType \<Rightarrow> string \<Rightarrow> ms \<Rightarrow> favoriteTables \<Rightarrow> ms \<times> favoriteTables" where
  "upsertFavorite userId t v now db =
     (case find (sameFavorite userId t v) (ftRows db) of
        Some r \<Rightarrow> (fvCreatedAt r, db)
      | None \<Rightarrow> (now, db\<lparr>ftRows := ftRows db @ [newFavorite (ftNextId db) userId t v now],
                       ftNextId := ftNextId db + 1\<rparr>))"

datatype favoriteError = Favorite_target_not_found favoriteEntityType

definition addTarget ::
  "favoriteCatalogue \<Rightarrow> string \<Rightarrow> favoriteEntityType \<Rightarrow> string \<Rightarrow> ms \<Rightarrow> favoriteTables
   \<Rightarrow> (favoriteError + favoriteDto) \<times> favoriteTables" where
  "addTarget cat userId t code now db =
     (case resolveTarget cat t code of
        None \<Rightarrow> (Inl (Favorite_target_not_found t), db)
      | Some v \<Rightarrow>
         (let (createdAt, db') = upsertFavorite userId t v now db
          in (Inr \<lparr>fdEntityType = t, fdEntityId = code, fdCreatedAt = createdAt\<rparr>, db')))"

definition removeTarget ::
  "favoriteCatalogue \<Rightarrow> string \<Rightarrow> favoriteEntityType \<Rightarrow> string \<Rightarrow> favoriteTables \<Rightarrow> favoriteTables" where
  "removeTarget cat userId t code db =
     (case resolveTarget cat t code of
        None \<Rightarrow> db
      | Some v \<Rightarrow> db\<lparr>ftRows := filter (\<lambda>r. \<not> sameFavorite userId t v r) (ftRows db)\<rparr>)"

section \<open>The catalogue and the rows\<close>

text \<open>Ids and codes are keys of their tables.\<close>

definition catalogueOk :: "favoriteCatalogue \<Rightarrow> bool" where
  "catalogueOk cat \<longleftrightarrow>
     (\<forall>rows \<in> {fcProvinces cat, fcCountries cat, fcRegions cat}.
        distinct (map fst rows) \<and> distinct (map snd rows))"

text \<open>
  What the constraints of the table say: one column is set, to something that resolves, and no
  learner has a target twice.
\<close>

definition targetOf :: "favorite \<Rightarrow> (favoriteEntityType \<times> string) option" where
  "targetOf r =
     (case fvProvinceId r of Some i \<Rightarrow> Some (Province, i)
      | None \<Rightarrow> (case fvCountryId r of Some i \<Rightarrow> Some (Country, i)
      | None \<Rightarrow> (case fvRegionId r of Some i \<Rightarrow> Some (Region, i)
      | None \<Rightarrow> map_option (Pair Continent) (fvContinent r))))"

definition rowOk :: "favoriteCatalogue \<Rightarrow> favorite \<Rightarrow> bool" where
  "rowOk cat r \<longleftrightarrow> (\<exists>t code v. resolveTarget cat t code = Some v
     \<and> (\<forall>t'. columnOf t' r = (if t' = t then Some v else None)))"

definition favoritesOk :: "favoriteCatalogue \<Rightarrow> favoriteTables \<Rightarrow> bool" where
  "favoritesOk cat db \<longleftrightarrow> (\<forall>r \<in> set (ftRows db). rowOk cat r)
     \<and> distinct (map (\<lambda>r. (fvUserId r, targetOf r)) (ftRows db))"

section \<open>Codes and ids\<close>

lemma idOfCode_iff: "distinct (map snd rows) \<Longrightarrow> idOfCode rows code = Some i \<longleftrightarrow> (i, code) \<in> set rows"
proof (induction rows)
  case (Cons p rows)
  then show ?case by (cases p) (auto simp: idOfCode_def rev_image_eqI)
qed (simp add: idOfCode_def)

lemma codeOfId_iff: "distinct (map fst rows) \<Longrightarrow> codeOfId rows i = Some code \<longleftrightarrow> (i, code) \<in> set rows"
  by (simp add: codeOfId_def map_of_eq_Some_iff)

lemma code_of_found_id:
  "distinct (map fst rows) \<and> distinct (map snd rows) \<Longrightarrow> idOfCode rows code = Some i \<Longrightarrow> codeOfId rows i = Some code"
  by (simp add: idOfCode_iff codeOfId_iff)

lemma catalogueOkD:
  assumes "catalogueOk cat"
  shows "distinct (map fst (fcProvinces cat)) \<and> distinct (map snd (fcProvinces cat))"
    "distinct (map fst (fcCountries cat)) \<and> distinct (map snd (fcCountries cat))"
    "distinct (map fst (fcRegions cat)) \<and> distinct (map snd (fcRegions cat))"
  using assms by (simp_all add: catalogueOk_def)

text \<open>A code that resolves is the code its row shows.\<close>

lemma resolved_row:
  assumes "catalogueOk cat" and "resolveTarget cat t code = Some v"
    and row: "\<And>t'. columnOf t' r = (if t' = t then Some v else None)"
  shows "resolveRowBusinessKey cat r = Some (t, code)" "targetOf r = Some (t, v)"
    "sameFavorite u t' v' r \<longleftrightarrow> fvUserId r = u \<and> (t', v') = (t, v)"
proof -
  have cols: "fvProvinceId r = (if t = Province then Some v else None)" "fvCountryId r = (if t = Country then Some v else None)"
    "fvRegionId r = (if t = Region then Some v else None)" "fvContinent r = (if t = Continent then Some v else None)"
    using row [of Province] row [of Country] row [of Region] row [of Continent] by auto
  show "resolveRowBusinessKey cat r = Some (t, code)"
  proof (cases t)
    case Province
    then have "codeOfId (fcProvinces cat) v = Some code"
      using assms(2) by (intro code_of_found_id [OF catalogueOkD(1) [OF assms(1)]]) simp
    then show ?thesis by (simp add: resolveRowBusinessKey_def cols Province)
  next
    case Country
    then have "codeOfId (fcCountries cat) v = Some code"
      using assms(2) by (intro code_of_found_id [OF catalogueOkD(2) [OF assms(1)]]) simp
    then show ?thesis by (simp add: resolveRowBusinessKey_def cols Country)
  next
    case Region
    then have "codeOfId (fcRegions cat) v = Some code"
      using assms(2) by (intro code_of_found_id [OF catalogueOkD(3) [OF assms(1)]]) simp
    then show ?thesis by (simp add: resolveRowBusinessKey_def cols Region)
  next
    case Continent
    then have "code = v" using assms(2) by (simp split: if_splits)
    then show ?thesis by (simp add: resolveRowBusinessKey_def cols Continent)
  qed
  show "targetOf r = Some (t, v)" by (cases t) (simp_all add: targetOf_def cols)
  show "sameFavorite u t' v' r \<longleftrightarrow> fvUserId r = u \<and> (t', v') = (t, v)" by (auto simp: sameFavorite_def row)
qed

lemma resolved_same:
  assumes "catalogueOk cat" and "resolveTarget cat t code = Some v" and "resolveTarget cat t code' = Some v"
  shows "code' = code"
proof -
  let ?r = "newFavorite 0 [] t v 0"
  have row: "columnOf t' ?r = (if t' = t then Some v else None)" for t' by (cases t') (simp_all add: newFavorite_def)
  from resolved_row(1) [OF assms(1,2) row] resolved_row(1) [OF assms(1,3) row] show ?thesis by simp
qed

lemma rowOk_key:
  assumes "catalogueOk cat" and "rowOk cat r" and "resolveTarget cat t code = Some v"
  shows "sameFavorite u t v r \<longleftrightarrow> fvUserId r = u \<and> resolveRowBusinessKey cat r = Some (t, code)"
    "targetOf r = Some (t, v) \<longleftrightarrow> resolveRowBusinessKey cat r = Some (t, code)"
    "resolveRowBusinessKey cat r \<noteq> None"
proof -
  obtain t0 code0 v0 where r: "resolveTarget cat t0 code0 = Some v0"
      "\<And>t'. columnOf t' r = (if t' = t0 then Some v0 else None)"
    using assms(2) unfolding rowOk_def by blast
  note facts = resolved_row [OF assms(1) r]
  have same: "(t, v) = (t0, v0) \<longleftrightarrow> (t, code) = (t0, code0)"
  proof
    assume "(t, v) = (t0, v0)"
    then show "(t, code) = (t0, code0)" using resolved_same [OF assms(1) r(1), of code] assms(3) by simp
  next
    assume "(t, code) = (t0, code0)"
    then show "(t, v) = (t0, v0)" using r(1) assms(3) by simp
  qed
  have "sameFavorite u t v r \<longleftrightarrow> fvUserId r = u \<and> (t, v) = (t0, v0)" by (rule facts(3))
  with facts(1,2) same show "sameFavorite u t v r \<longleftrightarrow> fvUserId r = u \<and> resolveRowBusinessKey cat r = Some (t, code)"
    "targetOf r = Some (t, v) \<longleftrightarrow> resolveRowBusinessKey cat r = Some (t, code)"
    "resolveRowBusinessKey cat r \<noteq> None" by auto
qed

section \<open>The list follows the requests\<close>

definition dtoOf :: "favoriteCatalogue \<Rightarrow> favorite \<Rightarrow> favoriteDto option" where
  "dtoOf cat r = map_option (\<lambda>(t, code). \<lparr>fdEntityType = t, fdEntityId = code, fdCreatedAt = fvCreatedAt r\<rparr>)
     (resolveRowBusinessKey cat r)"

definition dtoKey :: "favoriteDto \<Rightarrow> favoriteEntityType \<times> string" where
  "dtoKey d = (fdEntityType d, fdEntityId d)"

lemma listFavorites_eq:
  "listFavorites cat db u = List.map_filter (dtoOf cat) (sort_key fvCreatedAt (filter (\<lambda>r. fvUserId r = u) (ftRows db)))"
  by (simp add: listFavorites_def dtoOf_def [abs_def])

lemma dtoOf_key: "map_option dtoKey (dtoOf cat r) = resolveRowBusinessKey cat r"
  by (simp add: dtoOf_def dtoKey_def option.map_comp comp_def split_beta option.map_ident)

lemma map_filter_append: "List.map_filter f (xs @ ys) = List.map_filter f xs @ List.map_filter f ys"
  by (simp add: List.map_filter_def)

lemma filter_map_filter:
  "filter Q (List.map_filter f xs) = List.map_filter f (filter (\<lambda>x. case f x of None \<Rightarrow> False | Some y \<Rightarrow> Q y) xs)"
  by (induction xs) (auto simp: List.map_filter_simps split: option.split)

lemma map_filter_filter_cong:
  "(\<And>x. x \<in> set xs \<Longrightarrow> f x \<noteq> None \<Longrightarrow> P x = R x) \<Longrightarrow>
   List.map_filter f (filter P xs) = List.map_filter f (filter R xs)"
  by (induction xs) (auto simp: List.map_filter_simps split: option.split)

lemma insort_key_snoc: "f a \<le> f x \<Longrightarrow> insort_key f a (ys @ [x]) = insort_key f a ys @ [x]"
  by (induction ys) auto

lemma sort_key_snoc: "\<forall>y \<in> set xs. f y \<le> f x \<Longrightarrow> sort_key f (xs @ [x]) = sort_key f xs @ [x]"
  by (induction xs) (simp_all add: insort_key_snoc)

lemma listed_iff:
  "k \<in> dtoKey ` set (listFavorites cat db u) \<longleftrightarrow>
   (\<exists>r \<in> set (ftRows db). fvUserId r = u \<and> resolveRowBusinessKey cat r = Some k)"
proof -
  have "k \<in> dtoKey ` set (listFavorites cat db u) \<longleftrightarrow>
      (\<exists>r \<in> set (ftRows db). fvUserId r = u \<and> map_option dtoKey (dtoOf cat r) = Some k)"
    unfolding listFavorites_eq by (force simp: List.map_filter_def)
  then show ?thesis by (simp only: dtoOf_key)
qed

lemma remove_lists:
  assumes "catalogueOk cat" and "favoritesOk cat db" and v: "resolveTarget cat t code = Some v"
  shows "listFavorites cat (removeTarget cat u t code db) u' =
    filter (\<lambda>d. \<not> (u' = u \<and> dtoKey d = (t, code))) (listFavorites cat db u')"
proof -
  let ?rows = "sort_key fvCreatedAt (filter (\<lambda>r. fvUserId r = u') (ftRows db))"
  have gone: "(case dtoOf cat r of None \<Rightarrow> False | Some d \<Rightarrow> \<not> (u' = u \<and> dtoKey d = (t, code))) = (\<not> sameFavorite u t v r)"
    if "r \<in> set ?rows" "dtoOf cat r \<noteq> None" for r
  proof -
    have "rowOk cat r" and user: "fvUserId r = u'" using that(1) assms(2) by (auto simp: favoritesOk_def)
    from rowOk_key(1) [OF assms(1) this(1) v, of u] dtoOf_key [of cat r] that(2) user show ?thesis
      by (auto split: option.split)
  qed
  have "listFavorites cat (removeTarget cat u t code db) u' =
      List.map_filter (dtoOf cat) (filter (\<lambda>r. \<not> sameFavorite u t v r) ?rows)"
    by (simp add: listFavorites_eq removeTarget_def v filter_sort conj_commute)
  also have "\<dots> = List.map_filter (dtoOf cat)
      (filter (\<lambda>r. case dtoOf cat r of None \<Rightarrow> False | Some d \<Rightarrow> \<not> (u' = u \<and> dtoKey d = (t, code))) ?rows)"
    by (rule map_filter_filter_cong) (use gone in simp)
  finally show ?thesis by (simp only: listFavorites_eq filter_map_filter)
qed

lemma upsert_same:
  assumes "find (sameFavorite u t v) (ftRows db) = Some r"
  shows "upsertFavorite u t v now db = (fvCreatedAt r, db)"
  by (simp add: upsertFavorite_def assms)

lemma newFavorite_columns: "columnOf t' (newFavorite i u t v now) = (if t' = t then Some v else None)"
  by (cases t') (simp_all add: newFavorite_def)

lemma add_lists:
  assumes "catalogueOk cat" and ok: "favoritesOk cat db" and v: "resolveTarget cat t code = Some v"
    and later: "\<forall>r \<in> set (ftRows db). fvCreatedAt r \<le> now"
    and run: "addTarget cat u t code now db = (Inr d, db')"
  shows "listFavorites cat db' u' =
      (if u' = u \<and> (t, code) \<notin> dtoKey ` set (listFavorites cat db u)
       then listFavorites cat db u @ [d] else listFavorites cat db u')"
    "favoritesOk cat db'" "d \<in> set (listFavorites cat db' u)" "dtoKey d = (t, code)"
proof -
  have key: "dtoKey d = (t, code)" using run v by (auto simp: addTarget_def dtoKey_def split: prod.splits)
  have same: "sameFavorite u t v r \<longleftrightarrow> fvUserId r = u \<and> resolveRowBusinessKey cat r = Some (t, code)"
    if "r \<in> set (ftRows db)" for r
    using rowOk_key(1) [OF assms(1) _ v, of r u] ok that by (simp add: favoritesOk_def)
  have "listFavorites cat db' u' = (if u' = u \<and> (t, code) \<notin> dtoKey ` set (listFavorites cat db u)
       then listFavorites cat db u @ [d] else listFavorites cat db u')
     \<and> favoritesOk cat db' \<and> d \<in> set (listFavorites cat db' u)"
  proof (cases "find (sameFavorite u t v) (ftRows db)")
    case (Some r)
    then have r: "r \<in> set (ftRows db)" "sameFavorite u t v r" by (auto simp: find_Some_iff)
    then have res: "fvUserId r = u" "resolveRowBusinessKey cat r = Some (t, code)" using same by simp_all
    have db': "db' = db" "d = \<lparr>fdEntityType = t, fdEntityId = code, fdCreatedAt = fvCreatedAt r\<rparr>"
      using run v Some by (simp_all add: addTarget_def upsert_same)
    have "(t, code) \<in> dtoKey ` set (listFavorites cat db u)" using r(1) res by (auto simp: listed_iff)
    moreover have "dtoOf cat r = Some d" by (simp add: dtoOf_def res(2) db'(2))
    then have "d \<in> set (listFavorites cat db u)"
      using r(1) res(1) unfolding listFavorites_eq by (force simp: List.map_filter_def)
    ultimately show ?thesis using db'(1) ok by simp
  next
    case None
    let ?new = "newFavorite (ftNextId db) u t v now"
    have db': "ftRows db' = ftRows db @ [?new]" and d: "d = \<lparr>fdEntityType = t, fdEntityId = code, fdCreatedAt = now\<rparr>"
      using run v None by (auto simp: addTarget_def upsertFavorite_def)
    note new = resolved_row [OF assms(1) v newFavorite_columns [where i = "ftNextId db" and u = u and now = now]]
    have fresh: "\<not> sameFavorite u t v r" if "r \<in> set (ftRows db)" for r using None that by (simp add: find_None_iff)
    have user: "fvUserId ?new = u" and at: "fvCreatedAt ?new = now" by (simp_all add: newFavorite_def)
    have dto: "dtoOf cat ?new = Some d" by (simp add: dtoOf_def new(1) d at)
    have unlisted: "(t, code) \<notin> dtoKey ` set (listFavorites cat db u)" using fresh same by (auto simp: listed_iff)
    have rows: "sort_key fvCreatedAt (filter (\<lambda>r. fvUserId r = u') (ftRows db')) =
        sort_key fvCreatedAt (filter (\<lambda>r. fvUserId r = u') (ftRows db)) @ (if u' = u then [?new] else [])"
      using later sort_key_snoc [of "filter (\<lambda>r. fvUserId r = u') (ftRows db)" fvCreatedAt ?new]
      by (auto simp: db' user at)
    have lists: "listFavorites cat db' u'' = listFavorites cat db u'' @ (if u'' = u then [d] else [])" if "u'' = u'" for u''
      by (simp add: listFavorites_eq that rows map_filter_append List.map_filter_simps dto)
    have "rowOk cat ?new" unfolding rowOk_def using v newFavorite_columns by blast
    moreover have "(u, Some (t, v)) \<notin> (\<lambda>r. (fvUserId r, targetOf r)) ` set (ftRows db)"
    proof
      assume "(u, Some (t, v)) \<in> (\<lambda>r. (fvUserId r, targetOf r)) ` set (ftRows db)"
      then obtain r where r: "r \<in> set (ftRows db)" "fvUserId r = u" "targetOf r = Some (t, v)" by auto
      then have "resolveRowBusinessKey cat r = Some (t, code)"
        using rowOk_key(2) [OF assms(1) _ v, of r] ok by (simp add: favoritesOk_def)
      with fresh [OF r(1)] same [OF r(1)] r(2) show False by simp
    qed
    ultimately have "favoritesOk cat db'" using ok new(2) user by (simp add: favoritesOk_def db')
    moreover have "d \<in> set (listFavorites cat db' u)"
      unfolding listFavorites_eq db' using dto user by (force simp: List.map_filter_def)
    ultimately show ?thesis using lists [OF refl] unlisted by auto
  qed
  then show "listFavorites cat db' u' = (if u' = u \<and> (t, code) \<notin> dtoKey ` set (listFavorites cat db u)
       then listFavorites cat db u @ [d] else listFavorites cat db u')"
    "favoritesOk cat db'" "d \<in> set (listFavorites cat db' u)" "dtoKey d = (t, code)" using key by simp_all
qed

lemma addTarget_answers:
  "resolveTarget cat t code = Some v \<Longrightarrow> \<exists>d. addTarget cat u t code now db = (Inr d, snd (addTarget cat u t code now db))"
  by (cases "upsertFavorite u t v now db") (simp add: addTarget_def)

lemma remove_ok: "favoritesOk cat db \<Longrightarrow> favoritesOk cat (removeTarget cat u t code db)"
  by (auto simp: removeTarget_def favoritesOk_def distinct_map_filter split: option.split)

text \<open>
  C34: A learner's list follows the requests exactly. Adding a target appends it, or changes nothing
  when it is listed, and answers with the time of its first addition; removing takes exactly it
  away; nobody else's list changes; and the constraints of the table keep holding.
\<close>

theorem favourite_list_follows_requests:
  assumes "catalogueOk cat" and "favoritesOk cat db" and "resolveTarget cat t code \<noteq> None"
    and "\<forall>r \<in> set (ftRows db). fvCreatedAt r \<le> now"
  shows "(\<exists>d db'. addTarget cat u t code now db = (Inr d, db') \<and> favoritesOk cat db'
      \<and> dtoKey d = (t, code) \<and> d \<in> set (listFavorites cat db' u)
      \<and> (\<forall>u'. listFavorites cat db' u' =
            (if u' = u \<and> (t, code) \<notin> dtoKey ` set (listFavorites cat db u)
             then listFavorites cat db u @ [d] else listFavorites cat db u')))
    \<and> favoritesOk cat (removeTarget cat u t code db)
    \<and> (\<forall>u'. listFavorites cat (removeTarget cat u t code db) u' =
          filter (\<lambda>d. \<not> (u' = u \<and> dtoKey d = (t, code))) (listFavorites cat db u'))"
proof -
  obtain v where v: "resolveTarget cat t code = Some v" using assms(3) by blast
  obtain d db' where run: "addTarget cat u t code now db = (Inr d, db')" using addTarget_answers [OF v] by blast
  note added = add_lists [OF assms(1,2) v assms(4) run]
  show ?thesis using run added remove_ok [OF assms(2)] remove_lists [OF assms(1,2) v] by blast
qed

text \<open>A learner adds a province twice and a continent.\<close>

definition sampleCatalogue :: favoriteCatalogue where
  "sampleCatalogue = \<lparr>fcProvinces = [(''p1'', ''34''), (''p2'', ''06'')], fcCountries = [], fcRegions = []\<rparr>"

definition sampleFavorites :: favoriteTables where
  "sampleFavorites = snd (addTarget sampleCatalogue ''u'' Province ''34'' 5 \<lparr>ftRows = [], ftNextId = 0\<rparr>)"

theorem favourite_list_follows_requests_witness:
  "listFavorites sampleCatalogue (snd (addTarget sampleCatalogue ''u'' Continent ''ASYA'' 9 sampleFavorites)) ''u''
    = [\<lparr>fdEntityType = Province, fdEntityId = ''34'', fdCreatedAt = 5\<rparr>,
       \<lparr>fdEntityType = Continent, fdEntityId = ''ASYA'', fdCreatedAt = 9\<rparr>]
   \<and> favoritesOk sampleCatalogue (removeTarget sampleCatalogue ''u'' Continent ''ASYA'' sampleFavorites)"
proof -
  let ?d0 = "\<lparr>ftRows = [], ftNextId = 0\<rparr> :: favoriteTables"
  have cat: "catalogueOk sampleCatalogue" by (simp add: catalogueOk_def sampleCatalogue_def)
  have none: "favoritesOk sampleCatalogue ?d0" by (simp add: favoritesOk_def)
  have p: "resolveTarget sampleCatalogue Province ''34'' \<noteq> None" and c: "resolveTarget sampleCatalogue Continent ''ASYA'' \<noteq> None"
    by (simp_all add: sampleCatalogue_def idOfCode_def CONTINENTS_def)
  obtain v where v: "resolveTarget sampleCatalogue Province ''34'' = Some v" using p by blast
  obtain d where "addTarget sampleCatalogue ''u'' Province ''34'' 5 ?d0 = (Inr d, sampleFavorites)"
    using addTarget_answers [OF v] unfolding sampleFavorites_def by blast
  from add_lists(2) [OF cat none v _ this] have ok: "favoritesOk sampleCatalogue sampleFavorites" by simp
  have "list_all (\<lambda>r. fvCreatedAt r \<le> 9) (ftRows sampleFavorites)" by code_simp
  then have "\<forall>r \<in> set (ftRows sampleFavorites). fvCreatedAt r \<le> 9" by (simp add: list_all_iff)
  from favourite_list_follows_requests [OF cat ok c this, of "''u''"]
  have "favoritesOk sampleCatalogue (removeTarget sampleCatalogue ''u'' Continent ''ASYA'' sampleFavorites)" by blast
  moreover have "listFavorites sampleCatalogue (snd (addTarget sampleCatalogue ''u'' Continent ''ASYA'' 9 sampleFavorites)) ''u''
    = [\<lparr>fdEntityType = Province, fdEntityId = ''34'', fdCreatedAt = 5\<rparr>,
       \<lparr>fdEntityType = Continent, fdEntityId = ''ASYA'', fdCreatedAt = 9\<rparr>]"
    by code_simp
  ultimately show ?thesis by blast
qed

end
