(* ===== verification/Measurements.thy ===== *)
theory Measurements
  imports Prelude
begin

text \<open>
  \<open>src/measurements/\<close>: a learner's saved measurements (\<open>measurements.service.ts\<close> and
  \<open>measurement-shape.validator.ts\<close>). The client names each measurement, so a repeated request is
  recognised; a per-learner lock serialises creations, so each runs as one transition. The rows
  are a list, and ids are drawn fresh.
\<close>

section \<open>Rows\<close>

datatype measurementType = Distance | Area | Coordinate

record measurementPoint =
  mpLon :: rat
  mpLat :: rat

record measurement =
  msId :: nat
  msUserId :: string
  msClientMeasurementId :: string
  msType :: measurementType
  msPoints :: "measurementPoint list"
  msTitle :: "string option"
  msCreatedAt :: ms
  msUpdatedAt :: ms

record measurementTables =
  mtRows :: "measurement list"
  mtNextId :: nat

text \<open>A title the request leaves out is \<open>None\<close>; an explicit \<open>null\<close> is \<open>Some None\<close>.\<close>

record createMeasurementRequest =
  crClientMeasurementId :: string
  crType :: measurementType
  crPoints :: "measurementPoint list"
  crTitle :: "string option option"

record measurementDto =
  mdId :: nat
  mdType :: measurementType
  mdPoints :: "measurementPoint list"
  mdTitle :: "string option"
  mdClientMeasurementId :: string
  mdCreatedAt :: ms
  mdUpdatedAt :: ms

datatype measurementError = Invalid_shape | Quota_exceeded | Measurement_not_found

definition MEASUREMENTS_PER_USER_MAX :: nat where "MEASUREMENTS_PER_USER_MAX = 300"

fun MIN_POINTS_BY_TYPE :: "measurementType \<Rightarrow> nat" where
  "MIN_POINTS_BY_TYPE Coordinate = 1"
| "MIN_POINTS_BY_TYPE Distance = 2"
| "MIN_POINTS_BY_TYPE Area = 3"

section \<open>Operations\<close>

definition validateMeasurementShape ::
  "measurementType \<Rightarrow> measurementPoint list \<Rightarrow> measurementError + unit" where
  "validateMeasurementShape t points =
     (if length points < MIN_POINTS_BY_TYPE t then Inl Invalid_shape
      else if t = Coordinate \<and> 1 < length points then Inl Invalid_shape
      else Inr ())"

definition normalizeTitle :: "string option option \<Rightarrow> string option" where
  "normalizeTitle title = (case title of Some (Some t) \<Rightarrow> if t = [] then None else Some t | _ \<Rightarrow> None)"

definition measurementToDto :: "measurement \<Rightarrow> measurementDto" where
  "measurementToDto r =
     \<lparr>mdId = msId r, mdType = msType r, mdPoints = msPoints r, mdTitle = msTitle r,
      mdClientMeasurementId = msClientMeasurementId r, mdCreatedAt = msCreatedAt r, mdUpdatedAt = msUpdatedAt r\<rparr>"

definition ownedBy :: "string \<Rightarrow> measurementTables \<Rightarrow> measurement list" where
  "ownedBy userId db = filter (\<lambda>r. msUserId r = userId) (mtRows db)"

definition createMeasurement ::
  "string \<Rightarrow> createMeasurementRequest \<Rightarrow> ms \<Rightarrow> measurementTables
   \<Rightarrow> (measurementError + measurementDto) \<times> measurementTables" where
  "createMeasurement userId body now db =
     (case validateMeasurementShape (crType body) (crPoints body) of
        Inl e \<Rightarrow> (Inl e, db)
      | Inr _ \<Rightarrow>
         (case find (\<lambda>r. msClientMeasurementId r = crClientMeasurementId body) (ownedBy userId db) of
            Some existing \<Rightarrow> (Inr (measurementToDto existing), db)
          | None \<Rightarrow>
              if MEASUREMENTS_PER_USER_MAX \<le> length (ownedBy userId db) then (Inl Quota_exceeded, db)
              else let saved = \<lparr>msId = mtNextId db, msUserId = userId,
                       msClientMeasurementId = crClientMeasurementId body, msType = crType body,
                       msPoints = crPoints body, msTitle = normalizeTitle (crTitle body),
                       msCreatedAt = now, msUpdatedAt = now\<rparr>
                   in (Inr (measurementToDto saved),
                       db\<lparr>mtRows := mtRows db @ [saved], mtNextId := mtNextId db + 1\<rparr>)))"

text \<open>Newest first; of two of one time the later row.\<close>

definition listMeasurements :: "string \<Rightarrow> measurementTables \<Rightarrow> measurementDto list" where
  "listMeasurements userId db = map measurementToDto (rev (sort_key msCreatedAt (ownedBy userId db)))"

definition findMeasurement :: "string \<Rightarrow> nat \<Rightarrow> measurementTables \<Rightarrow> measurement option" where
  "findMeasurement userId i db = find (\<lambda>r. msId r = i) (ownedBy userId db)"

definition getMeasurement :: "string \<Rightarrow> nat \<Rightarrow> measurementTables \<Rightarrow> measurementError + measurementDto" where
  "getMeasurement userId i db =
     (case findMeasurement userId i db of None \<Rightarrow> Inl Measurement_not_found | Some r \<Rightarrow> Inr (measurementToDto r))"

text \<open>
  \<open>updateTitle\<close> reads the row, then updates it: between the two the table may have changed, so
  the second statement runs on a table of its own.
\<close>

definition updateTitleRow ::
  "string \<Rightarrow> nat \<Rightarrow> string option \<Rightarrow> ms \<Rightarrow> measurementTables \<Rightarrow> nat \<times> measurementTables" where
  "updateTitleRow userId i title now db =
     (length (filter (\<lambda>r. msId r = i) (ownedBy userId db)),
      db\<lparr>mtRows := map (\<lambda>r. if msUserId r = userId \<and> msId r = i
            then r\<lparr>msTitle := title, msUpdatedAt := now\<rparr> else r) (mtRows db)\<rparr>)"

definition updateTitle ::
  "string \<Rightarrow> nat \<Rightarrow> string option option \<Rightarrow> ms \<Rightarrow> (measurementTables \<Rightarrow> measurementTables) \<Rightarrow> measurementTables
   \<Rightarrow> (measurementError + measurementDto) \<times> measurementTables" where
  "updateTitle userId i title now meanwhile db =
     (case findMeasurement userId i db of
        None \<Rightarrow> (Inl Measurement_not_found, db)
      | Some before \<Rightarrow>
         (let (affected, db') = updateTitleRow userId i (normalizeTitle title) now (meanwhile db)
          in if affected = 0 then (Inl Measurement_not_found, db')
             else (Inr (measurementToDto (before\<lparr>msTitle := normalizeTitle title, msUpdatedAt := now\<rparr>)), db')))"

definition removeMeasurement :: "string \<Rightarrow> nat \<Rightarrow> measurementTables \<Rightarrow> measurementTables" where
  "removeMeasurement userId i db =
     db\<lparr>mtRows := filter (\<lambda>r. \<not> (msUserId r = userId \<and> msId r = i)) (mtRows db)\<rparr>"

section \<open>Histories\<close>

datatype measurementRequest =
    Create_measurement string createMeasurementRequest ms
  | Update_title string nat "string option option" ms
  | Remove_measurement string nat

fun measurementStep :: "measurementRequest \<Rightarrow> measurementTables \<Rightarrow> measurementTables" where
  "measurementStep (Create_measurement u body now) db = snd (createMeasurement u body now db)"
| "measurementStep (Update_title u i title now) db = snd (updateTitle u i title now (\<lambda>db. db) db)"
| "measurementStep (Remove_measurement u i) db = removeMeasurement u i db"

definition measurementRuns :: "measurementRequest list \<Rightarrow> measurementTables \<Rightarrow> measurementTables" where
  "measurementRuns rs db = fold measurementStep rs db"

definition emptyMeasurements :: measurementTables where
  "emptyMeasurements = \<lparr>mtRows = [], mtNextId = 0\<rparr>"

text \<open>Ids are fresh, a learner's client ids differ, shapes are valid, and the quota holds.\<close>

definition measurementsOk :: "measurementTables \<Rightarrow> bool" where
  "measurementsOk db \<longleftrightarrow>
     (\<forall>r \<in> set (mtRows db). msId r < mtNextId db
        \<and> validateMeasurementShape (msType r) (msPoints r) = Inr () \<and> msTitle r \<noteq> Some [])
     \<and> distinct (map msId (mtRows db))
     \<and> distinct (map (\<lambda>r. (msUserId r, msClientMeasurementId r)) (mtRows db))
     \<and> (\<forall>u. length (ownedBy u db) \<le> MEASUREMENTS_PER_USER_MAX)"

lemma normalizeTitle_not_empty: "normalizeTitle t \<noteq> Some []"
  by (auto simp: normalizeTitle_def split: option.split)

lemma create_ok: "measurementsOk db \<Longrightarrow> measurementsOk (snd (createMeasurement u body now db))"
  by (fastforce simp: createMeasurement_def measurementsOk_def ownedBy_def normalizeTitle_not_empty Let_def
      find_None_iff less_Suc_eq split: sum.split option.split)

lemma update_maps:
  "map msId (mtRows (snd (updateTitleRow u i t now db))) = map msId (mtRows db)"
  "map (\<lambda>r. (msUserId r, msClientMeasurementId r)) (mtRows (snd (updateTitleRow u i t now db)))
     = map (\<lambda>r. (msUserId r, msClientMeasurementId r)) (mtRows db)"
  "mtNextId (snd (updateTitleRow u i t now db)) = mtNextId db"
  by (auto simp: updateTitleRow_def)

lemma update_owned:
  "ownedBy u' (snd (updateTitleRow u i t now db)) =
     map (\<lambda>r. if msUserId r = u \<and> msId r = i then r\<lparr>msTitle := t, msUpdatedAt := now\<rparr> else r) (ownedBy u' db)"
proof -
  let ?f = "\<lambda>r. if msUserId r = u \<and> msId r = i then r\<lparr>msTitle := t, msUpdatedAt := now\<rparr> else r"
  have "filter (\<lambda>r. msUserId r = u') (map ?f rs) = map ?f (filter (\<lambda>r. msUserId r = u') rs)" for rs
    by (induction rs) auto
  then show ?thesis by (simp add: updateTitleRow_def ownedBy_def)
qed

lemma update_ok:
  assumes "measurementsOk db" and "t \<noteq> Some []"
  shows "measurementsOk (snd (updateTitleRow u i t now db))"
proof -
  have "\<forall>r \<in> set (mtRows (snd (updateTitleRow u i t now db))). msId r < mtNextId db
      \<and> validateMeasurementShape (msType r) (msPoints r) = Inr () \<and> msTitle r \<noteq> Some []"
    using assms by (auto simp: updateTitleRow_def measurementsOk_def)
  then show ?thesis using assms(1) by (simp add: measurementsOk_def update_maps update_owned)
qed

lemma step_ok: "measurementsOk db \<Longrightarrow> measurementsOk (measurementStep q db)"
proof (cases q)
  case (Update_title u i title now)
  assume "measurementsOk db"
  then show ?thesis using update_ok [OF _ normalizeTitle_not_empty]
    by (auto simp: Update_title updateTitle_def split: option.split prod.split) (metis snd_conv)+
next
  case (Remove_measurement u i)
  assume ok: "measurementsOk db"
  have "ownedBy u' (removeMeasurement u i db) = filter (\<lambda>r. \<not> (msUserId r = u \<and> msId r = i)) (ownedBy u' db)" for u'
    by (simp add: ownedBy_def removeMeasurement_def conj_commute)
  with ok show ?thesis
    by (auto simp: Remove_measurement measurementsOk_def distinct_map_filter intro: le_trans [OF length_filter_le])
       (simp_all add: removeMeasurement_def distinct_map_filter)
qed (simp add: create_ok)

lemma runs_ok: "measurementsOk db \<Longrightarrow> measurementsOk (measurementRuns rs db)"
  by (induction rs arbitrary: db) (auto simp: measurementRuns_def step_ok)

section \<open>Retries and the quota\<close>

lemma create_again:
  assumes "createMeasurement u body now db = (Inr d, db')"
    and "crClientMeasurementId body' = crClientMeasurementId body"
    and "validateMeasurementShape (crType body') (crPoints body') = Inr ()"
  shows "createMeasurement u body' now' db' = (Inr d, db')" "d \<in> set (listMeasurements u db')"
proof -
  have found: "\<exists>r. find (\<lambda>r. msClientMeasurementId r = crClientMeasurementId body) (ownedBy u db') = Some r
      \<and> measurementToDto r = d"
  proof (cases "find (\<lambda>r. msClientMeasurementId r = crClientMeasurementId body) (ownedBy u db)")
    case None
    have app: "find P (xs @ [x]) = Some x" if "find P xs = None" "P x" for P and x :: measurement and xs
      using that by (induction xs) (auto split: if_splits)
    show ?thesis using assms(1) None app [OF None]
      by (auto simp: createMeasurement_def ownedBy_def Let_def split: sum.splits if_splits)
  next
    case (Some r)
    then show ?thesis using assms(1) by (auto simp: createMeasurement_def split: sum.splits)
  qed
  then obtain r where r: "find (\<lambda>r. msClientMeasurementId r = crClientMeasurementId body) (ownedBy u db') = Some r"
    "measurementToDto r = d" by blast
  then show "createMeasurement u body' now' db' = (Inr d, db')" by (simp add: createMeasurement_def assms(2,3))
  from r show "d \<in> set (listMeasurements u db')" by (auto simp: listMeasurements_def find_Some_iff)
qed

text \<open>
  Whatever a learner and others did before, repeating a creation answers the same measurement and
  changes nothing, also at the quota; the answer is in the learner's list; and no list ever holds
  more than 300 measurements or two of one client id.
\<close>

theorem measurement_creation_idempotent:
  assumes "createMeasurement u body now (measurementRuns rs emptyMeasurements) = (Inr d, db')"
    and "crClientMeasurementId body' = crClientMeasurementId body"
    and "validateMeasurementShape (crType body') (crPoints body') = Inr ()"
  shows "createMeasurement u body' now' db' = (Inr d, db') \<and> d \<in> set (listMeasurements u db')
    \<and> (\<forall>u'. length (listMeasurements u' db') \<le> MEASUREMENTS_PER_USER_MAX
          \<and> distinct (map mdClientMeasurementId (listMeasurements u' db')))"
proof -
  have "measurementsOk emptyMeasurements" by (simp add: measurementsOk_def emptyMeasurements_def ownedBy_def)
  from create_ok [OF runs_ok [OF this, of rs], of u body now] have ok: "measurementsOk db'" by (simp add: assms(1))
  have "distinct (map mdClientMeasurementId (listMeasurements u' db'))" for u'
  proof -
    have "distinct (map (\<lambda>r. (msUserId r, msClientMeasurementId r)) (ownedBy u' db'))"
      using ok by (simp add: measurementsOk_def ownedBy_def distinct_map_filter)
    then have "distinct (map msClientMeasurementId (ownedBy u' db'))"
      by (auto simp: distinct_map inj_on_def ownedBy_def)
    moreover have "map mdClientMeasurementId (listMeasurements u' db')
        = rev (map msClientMeasurementId (sort_key msCreatedAt (ownedBy u' db')))"
      by (simp add: listMeasurements_def measurementToDto_def rev_map comp_def)
    ultimately show ?thesis by (simp add: distinct_map)
  qed
  then show ?thesis using create_again [OF assms] ok by (simp add: measurementsOk_def listMeasurements_def)
qed

definition sampleMeasurement :: createMeasurementRequest where
  "sampleMeasurement = \<lparr>crClientMeasurementId = ''m1'', crType = Coordinate,
     crPoints = [\<lparr>mpLon = 29, mpLat = 41\<rparr>], crTitle = None\<rparr>"

theorem measurement_creation_idempotent_witness:
  "\<exists>d db'. createMeasurement ''u'' sampleMeasurement 5 emptyMeasurements = (Inr d, db')
     \<and> createMeasurement ''u'' sampleMeasurement 9 db' = (Inr d, db') \<and> mdCreatedAt d = 5"
proof -
  obtain d db' where run: "createMeasurement ''u'' sampleMeasurement 5 (measurementRuns [] emptyMeasurements) = (Inr d, db')"
      and at: "mdCreatedAt d = 5"
    by (simp add: createMeasurement_def sampleMeasurement_def validateMeasurementShape_def measurementRuns_def
        emptyMeasurements_def ownedBy_def MEASUREMENTS_PER_USER_MAX_def measurementToDto_def)
  have "validateMeasurementShape (crType sampleMeasurement) (crPoints sampleMeasurement) = Inr ()"
    by (simp add: sampleMeasurement_def validateMeasurementShape_def)
  from measurement_creation_idempotent [OF run refl this, of 9] run at show ?thesis by (auto simp: measurementRuns_def)
qed

end
