(* ===== verification/Video_Progress.thy ===== *)
theory Video_Progress
  imports Prelude
begin

text \<open>
  \<open>src/video-progress/video-progress.service.ts\<close>: how far a learner has watched each video of a
  book. A report overwrites the learner's row of the video; the summary of a book is read in one
  repeatable-read transaction, so from one state of the tables. Values the request validation
  admits are the arguments; the clocks of the process and of the database are one argument, and
  row ids are drawn in order.
\<close>

section \<open>Rows\<close>

record progressRow =
  prId :: nat
  prUserId :: string
  prBookVideoId :: string
  prLastPositionSeconds :: int
  prWatched :: bool
  prWatchedAt :: "ms option"
  prUpdatedAt :: ms

record bookVideo =
  bvId :: string
  bvBookId :: string
  bvYoutubeVideoId :: string
  bvOrderNo :: int

record bookRow =
  bkId :: string
  bkSlugTr :: string
  bkSlugEn :: string

record progressTables =
  ptRows :: "progressRow list"
  ptNextId :: nat
  ptVideos :: "bookVideo list"
  ptBooks :: "bookRow list"
  ptDurations :: "string \<Rightarrow> int option"

datatype progressError = Progress_not_found | Video_not_found | Position_exceeds_duration | Book_not_found

record progressDto =
  pdBookVideoId :: string
  pdLastPositionSeconds :: int
  pdWatched :: bool
  pdWatchedAt :: "ms option"
  pdUpdatedAt :: ms

section \<open>Reports\<close>

definition VIDEO_PROGRESS_MAX_POSITION_SECONDS :: int where
  "VIDEO_PROGRESS_MAX_POSITION_SECONDS = 21600"

definition resolveMaxAllowedPosition :: "int option \<Rightarrow> int" where
  "resolveMaxAllowedPosition snapshotDurationSeconds =
     (case snapshotDurationSeconds of None \<Rightarrow> VIDEO_PROGRESS_MAX_POSITION_SECONDS | Some s \<Rightarrow> s)"

definition progressToDto :: "progressRow \<Rightarrow> progressDto" where
  "progressToDto r =
     \<lparr>pdBookVideoId = prBookVideoId r, pdLastPositionSeconds = prLastPositionSeconds r, pdWatched = prWatched r,
      pdWatchedAt = prWatchedAt r, pdUpdatedAt = prUpdatedAt r\<rparr>"

definition ofUserVideo :: "string \<Rightarrow> string \<Rightarrow> progressRow \<Rightarrow> bool" where
  "ofUserVideo userId bookVideoId r \<longleftrightarrow> prUserId r = userId \<and> prBookVideoId r = bookVideoId"

definition getProgress :: "string \<Rightarrow> string \<Rightarrow> progressTables \<Rightarrow> progressError + progressDto" where
  "getProgress userId bookVideoId db =
     (case find (ofUserVideo userId bookVideoId) (ptRows db) of
        None \<Rightarrow> Inl Progress_not_found
      | Some r \<Rightarrow> Inr (progressToDto r))"

text \<open>\<open>INSERT ... ON CONFLICT (user, video) DO UPDATE\<close> of the four columns.\<close>

definition upsertProgressRow ::
  "string \<Rightarrow> string \<Rightarrow> int \<Rightarrow> bool \<Rightarrow> ms \<Rightarrow> progressTables \<Rightarrow> progressTables" where
  "upsertProgressRow userId bookVideoId position watched now db =
     (let watchedAt = (if watched then Some now else None)
      in if list_ex (ofUserVideo userId bookVideoId) (ptRows db)
         then db\<lparr>ptRows := map (\<lambda>r. if ofUserVideo userId bookVideoId r
                then r\<lparr>prLastPositionSeconds := position, prWatched := watched, prWatchedAt := watchedAt,
                       prUpdatedAt := now\<rparr>
                else r) (ptRows db)\<rparr>
         else db\<lparr>ptRows := ptRows db @ [\<lparr>prId = ptNextId db, prUserId = userId, prBookVideoId = bookVideoId,
                  prLastPositionSeconds = position, prWatched = watched, prWatchedAt = watchedAt,
                  prUpdatedAt = now\<rparr>],
                 ptNextId := ptNextId db + 1\<rparr>)"

definition upsertProgress ::
  "string \<Rightarrow> string \<Rightarrow> int \<Rightarrow> bool \<Rightarrow> ms \<Rightarrow> progressTables \<Rightarrow> (progressError + progressDto) \<times> progressTables" where
  "upsertProgress userId bookVideoId position watched now db =
     (case find (\<lambda>v. bvId v = bookVideoId) (ptVideos db) of
        None \<Rightarrow> (Inl Video_not_found, db)
      | Some video \<Rightarrow>
          if resolveMaxAllowedPosition (ptDurations db (bvYoutubeVideoId video)) < position
          then (Inl Position_exceeds_duration, db)
          else let db' = upsertProgressRow userId bookVideoId position watched now db
               in (getProgress userId bookVideoId db', db'))"

section \<open>The summary of a book\<close>

record progressResume =
  rsBookVideoId :: string
  rsOrderNo :: int
  rsLastPositionSeconds :: int
  rsWatched :: bool
  rsUpdatedAt :: ms

record bookProgressDto =
  bpBookSlugTr :: string
  bpVideoCount :: nat
  bpWatchedCount :: nat
  bpStartedCount :: nat
  bpResume :: "progressResume option"
  bpVideos :: "(string \<times> int \<times> bool) list"

text \<open>The inner join of the learner's rows with the videos of the book.\<close>

definition joinBook :: "string \<Rightarrow> string \<Rightarrow> progressTables \<Rightarrow> (progressRow \<times> bookVideo) list" where
  "joinBook userId bookId db =
     [(r, v). r \<leftarrow> ptRows db, prUserId r = userId, v \<leftarrow> ptVideos db, bvId v = prBookVideoId r \<and> bvBookId v = bookId]"

text \<open>\<open>ORDER BY updated_at DESC, id DESC LIMIT 1\<close>.\<close>

fun latestRow :: "(progressRow \<times> bookVideo) list \<Rightarrow> (progressRow \<times> bookVideo) option" where
  "latestRow [] = None"
| "latestRow (x # xs) =
     (case latestRow xs of
        None \<Rightarrow> Some x
      | Some y \<Rightarrow>
          if prUpdatedAt (fst y) < prUpdatedAt (fst x)
             \<or> prUpdatedAt (fst y) = prUpdatedAt (fst x) \<and> prId (fst y) \<le> prId (fst x) then Some x else Some y)"

definition getBookProgress :: "string \<Rightarrow> string \<Rightarrow> progressTables \<Rightarrow> progressError + bookProgressDto" where
  "getBookProgress userId slug db =
     (case find (\<lambda>b. bkSlugTr b = slug \<or> bkSlugEn b = slug) (ptBooks db) of
        None \<Rightarrow> Inl Book_not_found
      | Some book \<Rightarrow>
         (let rows = joinBook userId (bkId book) db
          in Inr \<lparr>bpBookSlugTr = bkSlugTr book,
                  bpVideoCount = length (filter (\<lambda>v. bvBookId v = bkId book) (ptVideos db)),
                  bpWatchedCount = length (filter (\<lambda>(r, v). prWatched r) rows),
                  bpStartedCount = length rows,
                  bpResume = map_option (\<lambda>(r, v).
                    \<lparr>rsBookVideoId = prBookVideoId r, rsOrderNo = bvOrderNo v,
                     rsLastPositionSeconds = prLastPositionSeconds r, rsWatched = prWatched r,
                     rsUpdatedAt = prUpdatedAt r\<rparr>) (latestRow rows),
                  bpVideos = map (\<lambda>(r, v). (prBookVideoId r, prLastPositionSeconds r, prWatched r))
                    (sort_key (\<lambda>(r, v). bvOrderNo v) rows)\<rparr>))"

section \<open>What the tables hold\<close>

definition progressOk :: "progressTables \<Rightarrow> bool" where
  "progressOk db \<longleftrightarrow>
     distinct (map (\<lambda>r. (prUserId r, prBookVideoId r)) (ptRows db))
     \<and> distinct (map bvId (ptVideos db))
     \<and> (\<forall>r \<in> set (ptRows db). 0 \<le> prLastPositionSeconds r \<and> (prWatched r \<longleftrightarrow> prWatchedAt r \<noteq> None))"

lemma find_map_fixed:
  "(\<And>r. P (f r) = P r) \<Longrightarrow> find P (map f rs) = map_option f (find P rs)"
  by (induction rs) auto

lemma find_snoc: "find P (rs @ [r]) = (case find P rs of None \<Rightarrow> if P r then Some r else None | Some x \<Rightarrow> Some x)"
  by (induction rs) auto

lemma list_ex_find: "list_ex P rs \<longleftrightarrow> find P rs \<noteq> None"
  by (induction rs) auto

lemma upsertProgressRow_find:
  "find (ofUserVideo u' v') (ptRows (upsertProgressRow u v p w now db)) =
     (if (u', v') = (u, v)
      then Some (case find (ofUserVideo u v) (ptRows db) of
          None \<Rightarrow> \<lparr>prId = ptNextId db, prUserId = u, prBookVideoId = v, prLastPositionSeconds = p, prWatched = w,
                  prWatchedAt = (if w then Some now else None), prUpdatedAt = now\<rparr>
        | Some r \<Rightarrow> r\<lparr>prLastPositionSeconds := p, prWatched := w,
                     prWatchedAt := (if w then Some now else None), prUpdatedAt := now\<rparr>)
      else find (ofUserVideo u' v') (ptRows db))"
proof (cases "find (ofUserVideo u v) (ptRows db)")
  case None
  then show ?thesis
    by (auto simp: upsertProgressRow_def list_ex_find find_snoc ofUserVideo_def [abs_def] Let_def split: option.split)
next
  case (Some r)
  let ?g = "\<lambda>r. r\<lparr>prLastPositionSeconds := p, prWatched := w, prWatchedAt := (if w then Some now else None), prUpdatedAt := now\<rparr>"
  let ?f = "\<lambda>r. if ofUserVideo u v r then ?g r else r"
  have "find (ofUserVideo u' v') (map ?f rs) = map_option ?f (find (ofUserVideo u' v') rs)" for rs
    by (rule find_map_fixed) (simp add: ofUserVideo_def)
  moreover have "ptRows (upsertProgressRow u v p w now db) = map ?f (ptRows db)"
    using Some by (simp add: upsertProgressRow_def list_ex_find)
  ultimately have "find (ofUserVideo u' v') (ptRows (upsertProgressRow u v p w now db)) =
      map_option ?f (find (ofUserVideo u' v') (ptRows db))" by (simp only:)
  also have "\<dots> = (if (u', v') = (u, v) then Some (?g r) else find (ofUserVideo u' v') (ptRows db))"
  proof (cases "(u', v') = (u, v)")
    case True
    then show ?thesis using Some find_SomeD [OF Some] by simp
  next
    case False
    then show ?thesis
      by (cases "find (ofUserVideo u' v') (ptRows db)") (auto dest!: find_SomeD simp: ofUserVideo_def)
  qed
  finally show ?thesis by (simp add: Some)
qed

lemma find_unique:
  "distinct (map (\<lambda>r. (prUserId r, prBookVideoId r)) rs) \<Longrightarrow> r \<in> set rs \<Longrightarrow> prUserId r = u
   \<Longrightarrow> find (ofUserVideo u (prBookVideoId r)) rs = Some r"
  by (induction rs) (auto simp: ofUserVideo_def)

lemma upsertProgressRow_ok:
  assumes "progressOk db" and "0 \<le> p" shows "progressOk (upsertProgressRow u v p w now db)"
proof (cases "list_ex (ofUserVideo u v) (ptRows db)")
  case True
  let ?f = "\<lambda>r. if ofUserVideo u v r then r\<lparr>prLastPositionSeconds := p, prWatched := w,
    prWatchedAt := (if w then Some now else None), prUpdatedAt := now\<rparr> else r"
  have "map (\<lambda>r. (prUserId r, prBookVideoId r)) (map ?f rs) = map (\<lambda>r. (prUserId r, prBookVideoId r)) rs" for rs
    by simp
  with True assms show ?thesis by (auto simp: upsertProgressRow_def progressOk_def Let_def simp del: map_map)
next
  case False
  then have "(u, v) \<notin> (\<lambda>r. (prUserId r, prBookVideoId r)) ` set (ptRows db)" by (auto simp: list_ex_iff ofUserVideo_def)
  with False assms show ?thesis by (auto simp: upsertProgressRow_def progressOk_def Let_def)
qed

text \<open>
  A report is kept exactly: it answers what was reported, a later read answers the same, no other
  learner's or video's progress changes, positions stay within the video's length, and the time of
  watching is set exactly on rows that are watched.
\<close>

theorem progress_report_kept:
  assumes "progressOk db" and "0 \<le> position" and "upsertProgress u v position watched now db = (Inr d, db')"
  shows "d = \<lparr>pdBookVideoId = v, pdLastPositionSeconds = position, pdWatched = watched,
      pdWatchedAt = (if watched then Some now else None), pdUpdatedAt = now\<rparr>
    \<and> getProgress u v db' = Inr d
    \<and> (\<forall>u' v'. (u', v') \<noteq> (u, v) \<longrightarrow> getProgress u' v' db' = getProgress u' v' db)
    \<and> (\<exists>video \<in> set (ptVideos db). bvId video = v
          \<and> position \<le> resolveMaxAllowedPosition (ptDurations db (bvYoutubeVideoId video)))
    \<and> progressOk db'"
proof -
  obtain video where video: "find (\<lambda>x. bvId x = v) (ptVideos db) = Some video"
      "\<not> resolveMaxAllowedPosition (ptDurations db (bvYoutubeVideoId video)) < position"
    and db': "db' = upsertProgressRow u v position watched now db" and d: "getProgress u v db' = Inr d"
    using assms(3) by (auto simp: upsertProgress_def Let_def split: option.splits if_splits)
  have "d = \<lparr>pdBookVideoId = v, pdLastPositionSeconds = position, pdWatched = watched,
      pdWatchedAt = (if watched then Some now else None), pdUpdatedAt = now\<rparr>"
    using d unfolding getProgress_def db' upsertProgressRow_find
    by (auto simp: progressToDto_def ofUserVideo_def split: option.splits dest!: find_SomeD)
  moreover have "getProgress u' v' db' = getProgress u' v' db" if "(u', v') \<noteq> (u, v)" for u' v'
    using that unfolding getProgress_def db' upsertProgressRow_find by auto
  moreover have "video \<in> set (ptVideos db)" "bvId video = v" using find_SomeD [OF video(1)] by simp_all
  ultimately show ?thesis using d video(2) upsertProgressRow_ok [OF assms(1,2)] db' by fastforce
qed

definition exampleProgress :: progressTables where
  "exampleProgress =
     \<lparr>ptRows = [\<lparr>prId = 4, prUserId = ''ayse'', prBookVideoId = ''v2'', prLastPositionSeconds = 30,
                 prWatched = False, prWatchedAt = None, prUpdatedAt = 1000\<rparr>],
      ptNextId = 5,
      ptVideos = [\<lparr>bvId = ''v1'', bvBookId = ''b'', bvYoutubeVideoId = ''yt1'', bvOrderNo = 1\<rparr>,
                  \<lparr>bvId = ''v2'', bvBookId = ''b'', bvYoutubeVideoId = ''yt2'', bvOrderNo = 2\<rparr>],
      ptBooks = [\<lparr>bkId = ''b'', bkSlugTr = ''kitap'', bkSlugEn = ''book''\<rparr>],
      ptDurations = (\<lambda>y. if y = ''yt1'' then Some 90 else None)\<rparr>"

lemma exampleProgress_ok: "progressOk exampleProgress"
  by (simp add: progressOk_def exampleProgress_def)

lemma progress_report_kept_witness:
  "\<exists>db'. upsertProgress ''ayse'' ''v1'' 90 True 2000 exampleProgress =
       (Inr \<lparr>pdBookVideoId = ''v1'', pdLastPositionSeconds = 90, pdWatched = True, pdWatchedAt = Some 2000,
         pdUpdatedAt = 2000\<rparr>, db')
     \<and> getProgress ''ayse'' ''v2'' db' = getProgress ''ayse'' ''v2'' exampleProgress
     \<and> progressOk db'"
proof -
  obtain d db' where run: "upsertProgress ''ayse'' ''v1'' 90 True 2000 exampleProgress = (Inr d, db')"
    by (auto simp: upsertProgress_def upsertProgressRow_def getProgress_def exampleProgress_def ofUserVideo_def
        resolveMaxAllowedPosition_def Let_def)
  show ?thesis using progress_report_kept [OF exampleProgress_ok _ run] run by auto
qed

section \<open>The summary\<close>

lemma concat_map_if: "concat (map (\<lambda>v. if P v then [f v] else []) vs) = map f (filter P vs)"
  by (induction vs) auto

lemma distinct_map_filter_map: "distinct (map g vs) \<Longrightarrow> distinct (map g (filter P vs))"
  by (simp add: distinct_map inj_on_def)

lemma joinBook_distinct:
  assumes "distinct (map (\<lambda>r. (prUserId r, prBookVideoId r)) rs)" and "distinct (map bvId vs)"
  shows "distinct (map (\<lambda>x. bvId (snd x))
      [(r, v). r \<leftarrow> rs, prUserId r = u, v \<leftarrow> vs, bvId v = prBookVideoId r \<and> bvBookId v = b])"
  using assms(1)
proof (induction rs)
  case (Cons r rs)
  let ?P = "\<lambda>r v. bvId v = prBookVideoId r \<and> bvBookId v = b"
  let ?join = "\<lambda>rs. concat (map (\<lambda>r. if prUserId r = u then map (Pair r) (filter (?P r) vs) else []) rs)"
  have one: "distinct (map bvId (filter (?P r) vs))" by (rule distinct_map_filter_map [OF assms(2)])
  have ih: "distinct (map (\<lambda>x. bvId (snd x)) (?join rs))"
    using Cons.IH Cons.prems unfolding concat_map_if by simp
  have new: "prBookVideoId r \<notin> (\<lambda>x. bvId (snd x)) ` set (?join rs)" if "prUserId r = u"
  proof
    assume "prBookVideoId r \<in> (\<lambda>x. bvId (snd x)) ` set (?join rs)"
    then obtain q where "q \<in> set rs" "prUserId q = u" "prBookVideoId q = prBookVideoId r"
      by (auto split: if_splits)
    with Cons.prems that show False by (metis (no_types, lifting) distinct.simps(2) image_eqI list.simps(9) set_map)
  qed
  have "distinct (map (\<lambda>x. bvId (snd x)) (?join (r # rs)))"
  proof (cases "prUserId r = u")
    case True
    have "set (map bvId (filter (?P r) vs)) \<subseteq> {prBookVideoId r}" by auto
    moreover have "map (\<lambda>x. bvId (snd x)) (?join (r # rs)) =
        map bvId (filter (?P r) vs) @ map (\<lambda>x. bvId (snd x)) (?join rs)" using True by simp
    moreover have "prBookVideoId r \<notin> set (map (\<lambda>x. bvId (snd x)) (?join rs))" using new [OF True] by simp
    ultimately show ?thesis using one ih by (simp only: distinct_append) blast
  next
    case False
    then show ?thesis using ih by simp
  qed
  then show ?case unfolding concat_map_if .
qed simp

lemma latestRow_max:
  "latestRow xs = Some x \<Longrightarrow> x \<in> set xs \<and> (\<forall>y \<in> set xs. prUpdatedAt (fst y) \<le> prUpdatedAt (fst x))"
proof (induction xs arbitrary: x)
  case (Cons a xs)
  show ?case
  proof (cases "latestRow xs")
    case None
    then have "xs = []" by (cases xs) (auto split: option.splits if_splits)
    then show ?thesis using Cons.prems by simp
  next
    case (Some y)
    then show ?thesis using Cons.prems Cons.IH [OF Some] by (fastforce split: if_splits)
  qed
qed simp

lemma latestRow_None: "latestRow xs = None \<longleftrightarrow> xs = []"
  by (cases xs) (auto split: option.splits)

text \<open>
  C17: The summary of a book agrees with itself and with the single reads: as many videos are
  listed as were started, no more than the book has and none twice; each listed position and mark
  is what the single read of that video answers, and every video of the book a single read answers
  for is listed; as many show as watched as are counted; and the video to resume is one of the
  list, with the time of its single read, which no other video's is later than, and missing only
  when none was started.
\<close>

theorem book_summary_agrees:
  assumes "progressOk db" and "getBookProgress u slug db = Inr s"
  shows "length (bpVideos s) = bpStartedCount s \<and> bpStartedCount s \<le> bpVideoCount s
    \<and> distinct (map fst (bpVideos s))
    \<and> length (filter (\<lambda>(v, p, w). w) (bpVideos s)) = bpWatchedCount s
    \<and> (\<forall>v p w. (v, p, w) \<in> set (bpVideos s) \<longleftrightarrow>
         (\<exists>d x b. getProgress u v db = Inr d \<and> pdLastPositionSeconds d = p \<and> pdWatched d = w
            \<and> x \<in> set (ptVideos db) \<and> bvId x = v \<and> bvBookId x = bkId b
            \<and> find (\<lambda>b. bkSlugTr b = slug \<or> bkSlugEn b = slug) (ptBooks db) = Some b))
    \<and> (bpResume s = None \<longleftrightarrow> bpStartedCount s = 0)
    \<and> (\<forall>x. bpResume s = Some x \<longrightarrow>
         (rsBookVideoId x, rsLastPositionSeconds x, rsWatched x) \<in> set (bpVideos s)
         \<and> map_sum id pdUpdatedAt (getProgress u (rsBookVideoId x) db) = Inr (rsUpdatedAt x)
         \<and> (\<forall>(v, p, w) \<in> set (bpVideos s). \<exists>d. getProgress u v db = Inr d \<and> pdUpdatedAt d \<le> rsUpdatedAt x))"
proof -
  obtain book where book: "find (\<lambda>b. bkSlugTr b = slug \<or> bkSlugEn b = slug) (ptBooks db) = Some book"
    using assms(2) by (auto simp: getBookProgress_def split: option.splits)
  define rows where "rows = joinBook u (bkId book) db"
  define show_row where "show_row = (\<lambda>(r :: progressRow, v :: bookVideo). (prBookVideoId r, prLastPositionSeconds r, prWatched r))"
  have s: "bpVideoCount s = length (filter (\<lambda>v. bvBookId v = bkId book) (ptVideos db))"
    "bpWatchedCount s = length (filter (\<lambda>(r, v). prWatched r) rows)" "bpStartedCount s = length rows"
    "bpVideos s = map show_row (sort_key (\<lambda>(r, v). bvOrderNo v) rows)"
    "bpResume s = map_option (\<lambda>(r, v). \<lparr>rsBookVideoId = prBookVideoId r, rsOrderNo = bvOrderNo v,
       rsLastPositionSeconds = prLastPositionSeconds r, rsWatched = prWatched r, rsUpdatedAt = prUpdatedAt r\<rparr>) (latestRow rows)"
    using assms(2) by (auto simp: getBookProgress_def book rows_def Let_def show_row_def)
  have rows: "r \<in> set (ptRows db) \<and> prUserId r = u \<and> v \<in> set (ptVideos db) \<and> bvId v = prBookVideoId r
      \<and> bvBookId v = bkId book" if "(r, v) \<in> set rows" for r v
    using that by (auto simp: rows_def joinBook_def)
  have ids: "distinct (map (\<lambda>x. bvId (snd x)) rows)"
    using assms(1) unfolding rows_def joinBook_def progressOk_def by (blast intro: joinBook_distinct)
  have "distinct (map snd rows)" using ids by (auto simp: distinct_map inj_on_def)
  moreover have "set (map snd rows) \<subseteq> set (filter (\<lambda>v. bvBookId v = bkId book) (ptVideos db))" using rows by auto
  ultimately have count: "length rows \<le> length (filter (\<lambda>v. bvBookId v = bkId book) (ptVideos db))"
    by (metis card_mono distinct_card finite_set length_map card_length order.trans)
  have fsts: "map fst (map show_row xs) = map (\<lambda>x. bvId (snd x)) xs" if "set xs \<subseteq> set rows" for xs
    using that rows by (induction xs) (auto simp: show_row_def)
  have "distinct (map fst (bpVideos s))"
  proof -
    let ?sorted = "sort_key (\<lambda>(r, v). bvOrderNo v) rows"
    have "distinct (map (\<lambda>x. bvId (snd x)) ?sorted)" using ids by (simp add: distinct_map)
    moreover have "map fst (map show_row ?sorted) = map (\<lambda>x. bvId (snd x)) ?sorted" by (rule fsts) simp
    ultimately show ?thesis unfolding s(4) by (simp only:)
  qed
  moreover have "length (filter (\<lambda>(v, p, w). w) (map show_row xs)) = length (filter (\<lambda>(r, v). prWatched r) xs)" for xs
    by (induction xs) (auto simp: show_row_def)
  then have "length (filter (\<lambda>(v, p, w). w) (bpVideos s)) = bpWatchedCount s" by (simp add: s(2,4) filter_sort)
  moreover have read: "getProgress u (prBookVideoId r) db = Inr (progressToDto r)" if "(r, v) \<in> set rows" for r v
    using rows [OF that] assms(1) find_unique [of "ptRows db" r] by (simp add: progressOk_def getProgress_def)
  have listed: "(v, p, w) \<in> set (bpVideos s) \<longleftrightarrow>
      (\<exists>r x. (r, x) \<in> set rows \<and> prBookVideoId r = v \<and> prLastPositionSeconds r = p \<and> prWatched r = w)" for v p w
    by (force simp: s(4) show_row_def)
  have "(v, p, w) \<in> set (bpVideos s) \<longleftrightarrow>
      (\<exists>d x b. getProgress u v db = Inr d \<and> pdLastPositionSeconds d = p \<and> pdWatched d = w
         \<and> x \<in> set (ptVideos db) \<and> bvId x = v \<and> bvBookId x = bkId b
         \<and> find (\<lambda>b. bkSlugTr b = slug \<or> bkSlugEn b = slug) (ptBooks db) = Some b)" (is "_ \<longleftrightarrow> ?single") for v p w
  proof
    assume "(v, p, w) \<in> set (bpVideos s)"
    then obtain r x where rx: "(r, x) \<in> set rows" "prBookVideoId r = v" "prLastPositionSeconds r = p" "prWatched r = w"
      by (auto simp: listed)
    from read [OF rx(1)] rows [OF rx(1)] rx book show ?single
      by (intro exI [of _ "progressToDto r"] exI [of _ x] exI [of _ book]) (simp add: progressToDto_def)
  next
    assume ?single
    then obtain d x where d: "getProgress u v db = Inr d" "pdLastPositionSeconds d = p" "pdWatched d = w"
      and x: "x \<in> set (ptVideos db)" "bvId x = v" "bvBookId x = bkId book" using book by auto
    from d(1) obtain r where r: "find (ofUserVideo u v) (ptRows db) = Some r" "d = progressToDto r"
      by (auto simp: getProgress_def split: option.splits)
    from find_SomeD [OF r(1)] have "r \<in> set (ptRows db)" "prUserId r = u" "prBookVideoId r = v"
      by (simp_all add: ofUserVideo_def)
    with x have "(r, x) \<in> set rows" by (auto simp: rows_def joinBook_def)
    with \<open>prBookVideoId r = v\<close> d r(2) show "(v, p, w) \<in> set (bpVideos s)" by (auto simp: listed progressToDto_def)
  qed
  moreover have "(rsBookVideoId x, rsLastPositionSeconds x, rsWatched x) \<in> set (bpVideos s)
      \<and> map_sum id pdUpdatedAt (getProgress u (rsBookVideoId x) db) = Inr (rsUpdatedAt x)
      \<and> (\<forall>(v, p, w) \<in> set (bpVideos s). \<exists>d. getProgress u v db = Inr d \<and> pdUpdatedAt d \<le> rsUpdatedAt x)"
    if x: "bpResume s = Some x" for x
  proof -
    obtain r v where rv: "latestRow rows = Some (r, v)" using x by (auto simp: s(5))
    have xr: "rsBookVideoId x = prBookVideoId r" "rsLastPositionSeconds x = prLastPositionSeconds r"
      "rsWatched x = prWatched r" "rsUpdatedAt x = prUpdatedAt r" using x by (auto simp: s(5) rv)
    note top = latestRow_max [OF rv]
    have "\<exists>d. getProgress u (prBookVideoId r') db = Inr d \<and> pdUpdatedAt d \<le> rsUpdatedAt x" if "(r', v') \<in> set rows" for r' v'
      using read [OF that] top that xr(4) by (fastforce simp: progressToDto_def)
    moreover have "getProgress u (rsBookVideoId x) db = Inr (progressToDto r)" using read top xr(1) by fastforce
    ultimately show ?thesis using top xr by (fastforce simp: listed progressToDto_def)
  qed
  ultimately show ?thesis using count by (simp add: s(1,3,4,5) latestRow_None)
qed

lemma book_summary_agrees_witness:
  "\<exists>s. getBookProgress ''ayse'' ''book'' exampleProgress = Inr s
     \<and> bpStartedCount s = 1 \<and> bpVideoCount s = 2 \<and> length (bpVideos s) = bpStartedCount s \<and> bpResume s \<noteq> None"
proof -
  obtain s where run: "getBookProgress ''ayse'' ''book'' exampleProgress = Inr s" "bpStartedCount s = 1" "bpVideoCount s = 2"
    by (auto simp: getBookProgress_def exampleProgress_def joinBook_def Let_def)
  show ?thesis using book_summary_agrees [OF exampleProgress_ok run(1)] run by auto
qed

end
