(* ===== verification/Game_Rounds.thy ===== *)
theory Game_Rounds
  imports Auth_Rate_Limit "HOL-Library.List_Lexorder" "HOL-Library.Char_ord" "HOL-Library.Product_Lexorder"
begin

text \<open>
  \<open>src/game-rounds/\<close>: the rounds learners play (\<open>game-rounds.service.ts\<close>), the limit on submits
  (\<open>game-round-submit-rate-limit.service.ts\<close> and \<open>.guard.ts\<close>), and the leaderboard, whose two
  common table expressions are functions on the rows. A statement reads one state of the tables;
  where SQL leaves the order of equal rows open, the model keeps the order of the rows.
\<close>

section \<open>Rows and requests\<close>

record gameRound =
  grUserId :: string
  grClientRoundId :: string
  grMode :: string
  grScore :: int
  grFound :: int
  grFirstTry :: int
  grTotal :: int
  grPoolTotal :: int
  grTotalWrongs :: int
  grEndedEarly :: bool
  grCompletionTimeSeconds :: "int option"
  grCreatedAt :: ms

record submitGameRoundRequest =
  sgMode :: string
  sgClientRoundId :: string
  sgScore :: int
  sgFound :: int
  sgFirstTry :: int
  sgTotal :: int
  sgPoolTotal :: int
  sgTotalWrongs :: int
  sgEndedEarly :: bool
  sgCompletionTimeSeconds :: "int option"

record gameRoundDto =
  gdMode :: string
  gdClientRoundId :: string
  gdScore :: int
  gdFound :: int
  gdFirstTry :: int
  gdTotal :: int
  gdPoolTotal :: int
  gdTotalWrongs :: int
  gdEndedEarly :: bool
  gdCompletionTimeSeconds :: "int option"
  gdCreatedAt :: ms

datatype gameRoundError =
    Invalid_summary
  | Too_many_submissions (retryAfterHeader: int)
  | No_authenticated_user
  | Last_name_empty
  | Body_refused

definition GAME_ROUND_COUNTER_MAX :: int where "GAME_ROUND_COUNTER_MAX = 1000"
definition GAME_ROUND_TOTAL_WRONGS_MAX :: int where "GAME_ROUND_TOTAL_WRONGS_MAX = 100000"
definition GAME_ROUND_COMPLETION_TIME_SECONDS_MAX :: int where
  "GAME_ROUND_COMPLETION_TIME_SECONDS_MAX = 21600"

text \<open>The two patterns, \<open>^[a-z][a-z0-9-]{0,39}$\<close> and \<open>^[A-Za-z0-9_-]+$\<close>.\<close>

definition lowerLetter :: "char \<Rightarrow> bool" where "lowerLetter c \<longleftrightarrow> CHR ''a'' \<le> c \<and> c \<le> CHR ''z''"
definition upperLetter :: "char \<Rightarrow> bool" where "upperLetter c \<longleftrightarrow> CHR ''A'' \<le> c \<and> c \<le> CHR ''Z''"
definition decimalDigit :: "char \<Rightarrow> bool" where "decimalDigit c \<longleftrightarrow> CHR ''0'' \<le> c \<and> c \<le> CHR ''9''"

definition modeTag :: "string \<Rightarrow> bool" where
  "modeTag s =
     (case s of [] \<Rightarrow> False
      | c # cs \<Rightarrow> lowerLetter c \<and> length cs \<le> 39
          \<and> list_all (\<lambda>d. lowerLetter d \<or> decimalDigit d \<or> d = CHR ''-'') cs)"

definition clientRoundTag :: "string \<Rightarrow> bool" where
  "clientRoundTag s \<longleftrightarrow> 1 \<le> length s \<and> length s \<le> 128
     \<and> list_all (\<lambda>d. lowerLetter d \<or> upperLetter d \<or> decimalDigit d \<or> d = CHR ''_'' \<or> d = CHR ''-'') s"

definition validBody :: "submitGameRoundRequest \<Rightarrow> bool" where
  "validBody b \<longleftrightarrow> modeTag (sgMode b) \<and> clientRoundTag (sgClientRoundId b)
     \<and> sgScore b \<in> {0..100} \<and> sgFound b \<in> {0..GAME_ROUND_COUNTER_MAX}
     \<and> sgFirstTry b \<in> {0..GAME_ROUND_COUNTER_MAX} \<and> sgTotal b \<in> {0..GAME_ROUND_COUNTER_MAX}
     \<and> sgPoolTotal b \<in> {0..GAME_ROUND_COUNTER_MAX}
     \<and> sgTotalWrongs b \<in> {0..GAME_ROUND_TOTAL_WRONGS_MAX}
     \<and> (case sgCompletionTimeSeconds b of None \<Rightarrow> True
          | Some t \<Rightarrow> t \<in> {0..GAME_ROUND_COMPLETION_TIME_SECONDS_MAX})"

section \<open>Submitting\<close>

definition gameRoundToDto :: "gameRound \<Rightarrow> gameRoundDto" where
  "gameRoundToDto r =
     \<lparr>gdMode = grMode r, gdClientRoundId = grClientRoundId r, gdScore = grScore r, gdFound = grFound r,
      gdFirstTry = grFirstTry r, gdTotal = grTotal r, gdPoolTotal = grPoolTotal r,
      gdTotalWrongs = grTotalWrongs r, gdEndedEarly = grEndedEarly r,
      gdCompletionTimeSeconds = grCompletionTimeSeconds r, gdCreatedAt = grCreatedAt r\<rparr>"

definition roundOf :: "string \<Rightarrow> submitGameRoundRequest \<Rightarrow> ms \<Rightarrow> gameRound" where
  "roundOf userId b now =
     \<lparr>grUserId = userId, grClientRoundId = sgClientRoundId b, grMode = sgMode b, grScore = sgScore b,
      grFound = sgFound b, grFirstTry = sgFirstTry b, grTotal = sgTotal b, grPoolTotal = sgPoolTotal b,
      grTotalWrongs = sgTotalWrongs b, grEndedEarly = sgEndedEarly b,
      grCompletionTimeSeconds = sgCompletionTimeSeconds b, grCreatedAt = now\<rparr>"

definition sameRound :: "string \<Rightarrow> string \<Rightarrow> gameRound \<Rightarrow> bool" where
  "sameRound userId clientRoundId r \<longleftrightarrow> grUserId r = userId \<and> grClientRoundId r = clientRoundId"

text \<open>\<open>INSERT ... ON CONFLICT (user_id, client_round_id) DO UPDATE SET user_id = EXCLUDED.user_id\<close>.\<close>

definition upsertRound :: "string \<Rightarrow> submitGameRoundRequest \<Rightarrow> ms \<Rightarrow> gameRound list \<Rightarrow> gameRound \<times> gameRound list" where
  "upsertRound userId b now rows =
     (case find (sameRound userId (sgClientRoundId b)) rows of
        Some r \<Rightarrow> (r, rows)
      | None \<Rightarrow> (roundOf userId b now, rows @ [roundOf userId b now]))"

definition submitRound ::
  "string \<Rightarrow> submitGameRoundRequest \<Rightarrow> ms \<Rightarrow> gameRound list \<Rightarrow> (gameRoundError + gameRoundDto) \<times> gameRound list" where
  "submitRound userId b now rows =
     (if sgTotal b < sgFound b then (Inl Invalid_summary, rows)
      else if sgFound b < sgFirstTry b then (Inl Invalid_summary, rows)
      else if sgPoolTotal b < sgTotal b then (Inl Invalid_summary, rows)
      else if \<not> sgEndedEarly b \<and> sgTotal b \<noteq> sgPoolTotal b then (Inl Invalid_summary, rows)
      else (let (row, rows') = upsertRound userId b now rows in (Inr (gameRoundToDto row), rows')))"

record gameRoundListDto =
  glItems :: "gameRoundDto list"
  glPage :: nat
  glPageSize :: nat
  glTotal :: nat
  glHasMore :: bool

definition listMyRounds :: "string \<Rightarrow> nat \<Rightarrow> nat \<Rightarrow> gameRound list \<Rightarrow> gameRoundListDto" where
  "listMyRounds userId page pageSize rows =
     (let mine = sort_key (\<lambda>r. - grCreatedAt r) (filter (\<lambda>r. grUserId r = userId) rows)
      in \<lparr>glItems = map gameRoundToDto (take pageSize (drop ((page - 1) * pageSize) mine)),
          glPage = page, glPageSize = pageSize, glTotal = length mine,
          glHasMore = (page * pageSize < length mine)\<rparr>)"

section \<open>The leaderboard\<close>

text \<open>\<open>ORDER BY score DESC, total_wrongs ASC, first_try DESC, created_at ASC\<close>.\<close>

definition rankKey :: "gameRound \<Rightarrow> int \<times> int \<times> int \<times> int" where
  "rankKey r = (- grScore r, grTotalWrongs r, - grFirstTry r, grCreatedAt r)"

definition qualifies :: "string \<Rightarrow> gameRound \<Rightarrow> bool" where
  "qualifies mode r \<longleftrightarrow> grMode r = mode \<and> \<not> grEndedEarly r"

text \<open>\<open>SELECT DISTINCT ON\<close>: of the rows of one key the first.\<close>

function distinctOn :: "('a \<Rightarrow> 'k) \<Rightarrow> 'a list \<Rightarrow> 'a list" where
  "distinctOn f [] = []"
| "distinctOn f (x # xs) = x # distinctOn f (filter (\<lambda>y. f y \<noteq> f x) xs)"
  by pat_completeness auto
termination by (relation "measure (\<lambda>(f, xs). length xs)") (auto intro: le_imp_less_Suc length_filter_le)

definition bestRounds :: "string \<Rightarrow> gameRound list \<Rightarrow> gameRound list" where
  "bestRounds mode rows =
     distinctOn grUserId (sort_key (\<lambda>r. (grUserId r, rankKey r)) (filter (qualifies mode) rows))"

definition ranked :: "string \<Rightarrow> gameRound list \<Rightarrow> (nat \<times> gameRound) list" where
  "ranked mode rows = enumerate 1 (sort_key rankKey (bestRounds mode rows))"

text \<open>A name is its code points; upper-casing in the Turkish locale is the platform's.\<close>

type_synonym name = "nat list"

record leaderboardUser =
  luFirstName :: name
  luLastName :: name

record leaderboardEntry =
  leRank :: nat
  leFirstName :: name
  leLastNameInitial :: name
  leScore :: int
  leFound :: int
  leFirstTry :: int
  leTotalWrongs :: int
  leCompletionTimeSeconds :: "int option"
  leAchievedAt :: ms
  leIsCurrentUser :: bool

record leaderboardDto =
  lbItems :: "leaderboardEntry list"
  lbPage :: nat
  lbPageSize :: nat
  lbTotal :: nat
  lbHasMore :: bool
  lbMode :: string
  lbCurrentUserRank :: "nat option"

definition toLastNameInitial :: "(name \<Rightarrow> name) \<Rightarrow> name \<Rightarrow> gameRoundError + name" where
  "toLastNameInitial upperTr lastName =
     (case lastName of [] \<Rightarrow> Inl Last_name_empty | c # _ \<Rightarrow> Inr (upperTr [c]))"

text \<open>The page query joins the users and reads the first character of the last name.\<close>

definition leaderboardRow ::
  "(name \<Rightarrow> name) \<Rightarrow> string \<Rightarrow> nat \<times> gameRound \<times> leaderboardUser \<Rightarrow> gameRoundError + leaderboardEntry" where
  "leaderboardRow upperTr userId = (\<lambda>(rank, r, u).
     andThen (toLastNameInitial upperTr (take 1 (luLastName u))) (\<lambda>initial.
       Inr \<lparr>leRank = rank, leFirstName = luFirstName u, leLastNameInitial = initial, leScore = grScore r,
            leFound = grFound r, leFirstTry = grFirstTry r, leTotalWrongs = grTotalWrongs r,
            leCompletionTimeSeconds = grCompletionTimeSeconds r, leAchievedAt = grCreatedAt r,
            leIsCurrentUser = (grUserId r = userId)\<rparr>))"

definition getLeaderboard ::
  "(name \<Rightarrow> name) \<Rightarrow> (string \<rightharpoonup> leaderboardUser) \<Rightarrow> string \<Rightarrow> string \<Rightarrow> nat \<Rightarrow> nat \<Rightarrow> gameRound list
   \<Rightarrow> gameRoundError + leaderboardDto" where
  "getLeaderboard upperTr users userId mode page pageSize rows =
     (let offset = (page - 1) * pageSize;
          total_rows = length (ranked mode rows);
          joined = List.map_filter (\<lambda>(rank, r). map_option (\<lambda>u. (rank, r, u)) (users (grUserId r))) (ranked mode rows);
          currentUserRank = map_option fst (find (\<lambda>(rank, r). grUserId r = userId) (ranked mode rows))
      in andThen (mapOrThrow (leaderboardRow upperTr userId) (take pageSize (drop offset joined))) (\<lambda>items.
           Inr \<lparr>lbItems = items, lbPage = page, lbPageSize = pageSize, lbTotal = total_rows,
                lbHasMore = (page * pageSize < total_rows), lbMode = mode, lbCurrentUserRank = currentUserRank\<rparr>))"

section \<open>The limit on submits\<close>

definition GAME_ROUND_SUBMIT_LIMIT :: nat where "GAME_ROUND_SUBMIT_LIMIT = 300"
definition GAME_ROUND_SUBMIT_WINDOW_MS :: ms where "GAME_ROUND_SUBMIT_WINDOW_MS = ONE_HOUR_MS"

type_synonym submitRateRows = "(string \<times> ms, nat) jsmap"

record submitRateOutcome =
  soAllowed :: bool
  soRetryAfterSeconds :: int

definition consumeSubmit :: "string \<Rightarrow> ms \<Rightarrow> submitRateRows \<Rightarrow> submitRateOutcome \<times> submitRateRows" where
  "consumeSubmit userId nowMs rows =
     (let windowStartMs = nowMs div GAME_ROUND_SUBMIT_WINDOW_MS * GAME_ROUND_SUBMIT_WINDOW_MS;
          rows1 = filter (\<lambda>((u, w), n). \<not> (u = userId \<and> w < windowStartMs)) rows;
          attemptCount = (case js_get rows1 (userId, windowStartMs) of None \<Rightarrow> 1 | Some n \<Rightarrow> n + 1);
          rows2 = js_set (userId, windowStartMs) attemptCount rows1;
          ok = (attemptCount \<le> GAME_ROUND_SUBMIT_LIMIT)
      in (\<lparr>soAllowed = ok,
           soRetryAfterSeconds =
             (if ok then 0
              else max 0 \<lceil>of_int (windowStartMs + GAME_ROUND_SUBMIT_WINDOW_MS - nowMs) / (1000 :: rat)\<rceil>)\<rparr>, rows2))"

definition submitGuard :: "string option \<Rightarrow> ms \<Rightarrow> submitRateRows \<Rightarrow> (gameRoundError + string) \<times> submitRateRows" where
  "submitGuard user nowMs rows =
     (case user of
        None \<Rightarrow> (Inl No_authenticated_user, rows)
      | Some userId \<Rightarrow>
         (let (outcome, rows') = consumeSubmit userId nowMs rows
          in if soAllowed outcome then (Inr userId, rows')
             else (Inl (Too_many_submissions (soRetryAfterSeconds outcome)), rows')))"

text \<open>\<open>POST game-rounds\<close>: the guard runs first, then the body is validated, then the service runs.\<close>

record roundTables =
  rtLimits :: submitRateRows
  rtRounds :: "gameRound list"

definition postRound ::
  "string option \<Rightarrow> submitGameRoundRequest \<Rightarrow> ms \<Rightarrow> roundTables \<Rightarrow> (gameRoundError + gameRoundDto) \<times> roundTables" where
  "postRound user b now db =
     (let (admitted, limits') = submitGuard user now (rtLimits db);
          db' = db\<lparr>rtLimits := limits'\<rparr>
      in case admitted of
           Inl e \<Rightarrow> (Inl e, db')
         | Inr userId \<Rightarrow>
             if \<not> validBody b then (Inl Body_refused, db')
             else (let (res, rounds') = submitRound userId b now (rtRounds db)
                   in (res, db'\<lparr>rtRounds := rounds'\<rparr>)))"

section \<open>What the leaderboard ranks\<close>

declare distinctOn.simps [simp del]

lemma distinctOn_keys [simp]: "f ` set (distinctOn f xs) = f ` set xs"
  by (induction f xs rule: distinctOn.induct) (auto simp: distinctOn.simps)

lemma distinctOn_subset: "set (distinctOn f xs) \<subseteq> set xs"
  by (induction f xs rule: distinctOn.induct) (auto simp: distinctOn.simps)

lemma distinctOn_distinct: "distinct (map f (distinctOn f xs))"
proof (induction f xs rule: distinctOn.induct)
  case (2 f x xs)
  have "f x \<notin> f ` set (distinctOn f (filter (\<lambda>y. f y \<noteq> f x) xs))" by auto
  with 2 show ?case by (simp add: distinctOn.simps)
qed (simp add: distinctOn.simps)

text \<open>On rows ordered by the key and then by rank, the row kept for a key is its best.\<close>

lemma distinctOn_first:
  assumes "sorted (map (\<lambda>r. (f r, g r)) xs)" and "x \<in> set (distinctOn f xs)" and "y \<in> set xs" and "f y = f x"
  shows "g x \<le> (g y :: 'b :: linorder)"
  using assms
proof (induction f xs rule: distinctOn.induct)
  case (2 f a xs)
  show ?case
  proof (cases "f x = f a")
    case True
    have "x \<notin> set (distinctOn f (filter (\<lambda>z. f z \<noteq> f a) xs))" using True distinctOn_subset by fastforce
    then have "x = a" using 2(3) by (simp add: distinctOn.simps)
    then show ?thesis using 2(2,4,5) by (auto simp: less_eq_prod_def)
  next
    case False
    have "sorted (map (\<lambda>r. (f r, g r)) (filter (\<lambda>z. f z \<noteq> f a) xs))"
      using 2(2) by (simp add: sorted_filter)
    then show ?thesis using False 2 by (auto simp: distinctOn.simps)
  qed
qed simp

lemma map_filter_total:
  "(\<And>x. x \<in> set xs \<Longrightarrow> f x = Some (g x)) \<Longrightarrow> List.map_filter f xs = map g xs"
  by (induction xs) (simp_all add: map_filter_simps)

lemma enumerate_mem: "(k, r) \<in> set (enumerate 1 best) \<longleftrightarrow> 1 \<le> k \<and> k \<le> length best \<and> best ! (k - 1) = r"
  by (auto simp: in_set_enumerate_eq)

lemma own_rank:
  assumes "distinct (map grUserId best)"
  shows "map_option fst (find (\<lambda>(rank, r). grUserId r = userId) (enumerate 1 best)) = Some k
    \<longleftrightarrow> 1 \<le> k \<and> k \<le> length best \<and> grUserId (best ! (k - 1)) = userId"
proof -
  let ?P = "\<lambda>(rank :: nat, r). grUserId r = userId"
  have uniq: "k = k'" if "(k, r) \<in> set (enumerate 1 best)" "(k', r') \<in> set (enumerate 1 best)" "grUserId r = grUserId r'" for k k' r r'
  proof -
    have "k - 1 = k' - 1"
      using that assms unfolding enumerate_mem distinct_conv_nth by (metis One_nat_def Suc_le_eq Suc_pred length_map less_le_trans lessI nth_map)
    moreover have "1 \<le> k" "1 \<le> k'" using that unfolding enumerate_mem by auto
    ultimately show ?thesis by linarith
  qed
  show ?thesis
  proof (cases "find ?P (enumerate 1 best)")
    case None
    then have "\<not> (\<exists>k r. (k, r) \<in> set (enumerate 1 best) \<and> grUserId r = userId)" by (auto simp: find_None_iff)
    then show ?thesis using None unfolding enumerate_mem by auto
  next
    case (Some p)
    then obtain k0 r0 where p: "p = (k0, r0)" "(k0, r0) \<in> set (enumerate 1 best)" "grUserId r0 = userId"
      using find_SomeD [OF Some] by (cases p) auto
    show ?thesis
    proof
      assume "map_option fst (find ?P (enumerate 1 best)) = Some k"
      then have "k = k0" using Some p by simp
      then show "1 \<le> k \<and> k \<le> length best \<and> grUserId (best ! (k - 1)) = userId" using p(2,3) unfolding enumerate_mem by auto
    next
      assume "1 \<le> k \<and> k \<le> length best \<and> grUserId (best ! (k - 1)) = userId"
      then have "(k, best ! (k - 1)) \<in> set (enumerate 1 best)" "grUserId (best ! (k - 1)) = grUserId r0"
        using p(3) unfolding enumerate_mem by auto
      then have "k = k0" using uniq p(2) by blast
      then show "map_option fst (find ?P (enumerate 1 best)) = Some k" using Some p by simp
    qed
  qed
qed

lemma best_rounds:
  shows "distinct (map grUserId (sort_key rankKey (bestRounds mode rows)))"
    and "r \<in> set (bestRounds mode rows) \<Longrightarrow> r \<in> set rows \<and> qualifies mode r"
    and "r \<in> set (bestRounds mode rows) \<Longrightarrow> q \<in> set rows \<Longrightarrow> qualifies mode q \<Longrightarrow> grUserId q = grUserId r
      \<Longrightarrow> rankKey r \<le> rankKey q"
    and "q \<in> set rows \<Longrightarrow> qualifies mode q \<Longrightarrow> grUserId q \<in> grUserId ` set (bestRounds mode rows)"
proof -
  let ?sorted = "sort_key (\<lambda>r. (grUserId r, rankKey r)) (filter (qualifies mode) rows)"
  show "distinct (map grUserId (sort_key rankKey (bestRounds mode rows)))"
    using distinctOn_distinct [of grUserId ?sorted] by (simp add: bestRounds_def distinct_map)
  show "r \<in> set rows \<and> qualifies mode r" if "r \<in> set (bestRounds mode rows)"
    using that distinctOn_subset [of grUserId ?sorted] by (auto simp: bestRounds_def)
  show "rankKey r \<le> rankKey q"
    if "r \<in> set (bestRounds mode rows)" "q \<in> set rows" "qualifies mode q" "grUserId q = grUserId r"
    using that by (intro distinctOn_first [of grUserId rankKey ?sorted]) (simp_all add: bestRounds_def)
  show "grUserId q \<in> grUserId ` set (bestRounds mode rows)" if "q \<in> set rows" "qualifies mode q"
    using that by (simp add: bestRounds_def)
qed

text \<open>The entry a ranked round shows.\<close>

definition showsRound :: "(string \<rightharpoonup> leaderboardUser) \<Rightarrow> string \<Rightarrow> nat \<times> gameRound \<Rightarrow> leaderboardEntry \<Rightarrow> bool" where
  "showsRound users userId = (\<lambda>(k, r) e.
     leRank e = k \<and> leScore e = grScore r \<and> leFound e = grFound r \<and> leFirstTry e = grFirstTry r
     \<and> leTotalWrongs e = grTotalWrongs r \<and> leAchievedAt e = grCreatedAt r
     \<and> map_option luFirstName (users (grUserId r)) = Some (leFirstName e)
     \<and> (leIsCurrentUser e \<longleftrightarrow> grUserId r = userId))"

lemma leaderboard_page:
  assumes users: "\<And>r. r \<in> set rows \<Longrightarrow> \<exists>u. users (grUserId r) = Some u \<and> luLastName u \<noteq> []"
    and best_def: "best = sort_key rankKey (bestRounds mode rows)"
  shows "\<exists>items. getLeaderboard upperTr users userId mode page pageSize rows =
      Inr \<lparr>lbItems = items, lbPage = page, lbPageSize = pageSize, lbTotal = length best,
           lbHasMore = (page * pageSize < length best), lbMode = mode,
           lbCurrentUserRank = map_option fst (find (\<lambda>(rank, r). grUserId r = userId) (enumerate 1 best))\<rparr>
    \<and> list_all2 (showsRound users userId) (take pageSize (drop ((page - 1) * pageSize) (enumerate 1 best))) items"
proof -
  let ?page = "take pageSize (drop ((page - 1) * pageSize) (enumerate 1 best))"
  let ?join = "\<lambda>(rank, r). (rank, r, the (users (grUserId r)))"
  have known: "\<exists>u. users (grUserId r) = Some u \<and> luLastName u \<noteq> []" if "(k, r) \<in> set (enumerate 1 best)" for k r
  proof -
    have "r \<in> set best" using that by (auto simp: in_set_enumerate_eq)
    then show ?thesis using users best_rounds(2) by (auto simp: best_def)
  qed
  have joined: "List.map_filter (\<lambda>(rank, r). map_option (\<lambda>u. (rank, r, u)) (users (grUserId r))) (enumerate 1 best)
      = map ?join (enumerate 1 best)"
    using known by (intro map_filter_total) fastforce
  have row: "\<exists>e. leaderboardRow upperTr userId (?join p) = Inr e \<and> showsRound users userId p e"
    if "p \<in> set (enumerate 1 best)" for p
  proof -
    obtain k r where p: "p = (k, r)" by fastforce
    note known_p = known [OF that [unfolded p]]
    obtain u c cs where u: "users (grUserId r) = Some u" "luLastName u = c # cs"
      using known_p by (auto simp: neq_Nil_conv)
    then show ?thesis by (simp add: p leaderboardRow_def toLastNameInitial_def showsRound_def)
  qed
  have "\<exists>items. mapOrThrow (leaderboardRow upperTr userId) (map ?join ps) = Inr items
      \<and> list_all2 (showsRound users userId) ps items" if "set ps \<subseteq> set (enumerate 1 best)" for ps
    using that
  proof (induction ps)
    case (Cons p ps)
    obtain e where "leaderboardRow upperTr userId (?join p) = Inr e" "showsRound users userId p e"
      using row [of p] Cons.prems by auto
    moreover obtain es where "mapOrThrow (leaderboardRow upperTr userId) (map ?join ps) = Inr es"
        "list_all2 (showsRound users userId) ps es" using Cons by auto
    ultimately show ?case by simp
  qed simp
  moreover have "set ?page \<subseteq> set (enumerate 1 best)" by (meson dual_order.trans set_drop_subset set_take_subset)
  ultimately obtain items where "mapOrThrow (leaderboardRow upperTr userId) (map ?join ?page) = Inr items"
      "list_all2 (showsRound users userId) ?page items" by blast
  then show ?thesis
    unfolding getLeaderboard_def ranked_def best_def [symmetric] joined Let_def
    by (simp add: take_map drop_map)
qed

text \<open>What the ranking is by: the score, then fewer wrong answers, more first tries, the earlier round.\<close>

definition noWorse :: "gameRound \<Rightarrow> gameRound \<Rightarrow> bool" where
  "noWorse r q \<longleftrightarrow>
     grScore q < grScore r
     \<or> grScore r = grScore q \<and>
        (grTotalWrongs r < grTotalWrongs q
         \<or> grTotalWrongs r = grTotalWrongs q \<and>
            (grFirstTry q < grFirstTry r \<or> grFirstTry r = grFirstTry q \<and> grCreatedAt r \<le> grCreatedAt q))"

lemma rankKey_noWorse: "rankKey r \<le> rankKey q \<longleftrightarrow> noWorse r q"
  by (auto simp: rankKey_def noWorse_def less_eq_prod_def)

text \<open>
  C4: The leaderboard of a mode, whatever page a learner asks for, is one ranking: every learner who
  completed a round of it once, by a round of theirs that none of their completed rounds beats,
  in the order of the ranking, ranks counting from one; a page is its slice, and the caller's own
  rank is the position of the caller in it, missing exactly when the caller completed none.
\<close>

theorem leaderboard_ranks_best_rounds:
  assumes users: "\<And>r. r \<in> set rows \<Longrightarrow> \<exists>u. users (grUserId r) = Some u \<and> luLastName u \<noteq> []"
  shows "\<exists>best. distinct (map grUserId best) \<and> sorted_wrt noWorse best
    \<and> grUserId ` set best = grUserId ` set (filter (qualifies mode) rows)
    \<and> (\<forall>r \<in> set best. r \<in> set rows \<and> qualifies mode r
         \<and> (\<forall>q \<in> set rows. qualifies mode q \<and> grUserId q = grUserId r \<longrightarrow> noWorse r q))
    \<and> (\<forall>userId page pageSize. \<exists>d. getLeaderboard upperTr users userId mode page pageSize rows = Inr d
         \<and> list_all2 (showsRound users userId) (take pageSize (drop ((page - 1) * pageSize) (enumerate 1 best))) (lbItems d)
         \<and> lbTotal d = length best \<and> (lbHasMore d \<longleftrightarrow> page * pageSize < length best)
         \<and> (\<forall>k. lbCurrentUserRank d = Some k \<longleftrightarrow> 1 \<le> k \<and> k \<le> length best \<and> grUserId (best ! (k - 1)) = userId))"
proof -
  define best where "best = sort_key rankKey (bestRounds mode rows)"
  note facts = best_rounds [where mode = mode and rows = rows, folded best_def]
  have "\<exists>d. getLeaderboard upperTr users userId mode page pageSize rows = Inr d
      \<and> list_all2 (showsRound users userId) (take pageSize (drop ((page - 1) * pageSize) (enumerate 1 best))) (lbItems d)
      \<and> lbTotal d = length best \<and> (lbHasMore d \<longleftrightarrow> page * pageSize < length best)
      \<and> (\<forall>k. lbCurrentUserRank d = Some k \<longleftrightarrow> 1 \<le> k \<and> k \<le> length best \<and> grUserId (best ! (k - 1)) = userId)"
    for userId page pageSize
    using leaderboard_page [where rows = rows and users = users and mode = mode, OF users best_def, of upperTr userId page pageSize] own_rank [OF facts(1)] by auto
  moreover have "grUserId ` set best = grUserId ` set (filter (qualifies mode) rows)"
    by (auto simp: best_def bestRounds_def)
  moreover have "\<forall>r \<in> set best. r \<in> set rows \<and> qualifies mode r
      \<and> (\<forall>q \<in> set rows. qualifies mode q \<and> grUserId q = grUserId r \<longrightarrow> noWorse r q)"
    using facts(2,3) by (auto simp: best_def rankKey_noWorse [symmetric])
  moreover have "sorted (map rankKey best)" by (simp add: best_def)
  then have "sorted_wrt noWorse best" by (simp add: sorted_map rankKey_noWorse)
  ultimately show ?thesis using facts(1) by blast
qed

text \<open>Two learners; the first has a beaten round and a better one that was ended early.\<close>

definition exampleRounds :: "gameRound list" where
  "exampleRounds =
     (let r = (\<lambda>user i score early. \<lparr>grUserId = user, grClientRoundId = i, grMode = ''provinces'', grScore = score,
            grFound = 70, grFirstTry = 60, grTotal = 81, grPoolTotal = 81, grTotalWrongs = 12,
            grEndedEarly = early, grCompletionTimeSeconds = None, grCreatedAt = 5\<rparr>)
      in [r ''ayse'' ''1'' 60 False, r ''ayse'' ''2'' 80 False, r ''ayse'' ''3'' 100 True, r ''can'' ''1'' 90 False])"

lemma leaderboard_ranks_best_rounds_witness:
  "\<exists>best :: gameRound list. distinct (map grUserId best) \<and> grUserId ` set best = {''ayse'', ''can''}
    \<and> (\<exists>d. getLeaderboard id (\<lambda>u. Some \<lparr>luFirstName = [65], luLastName = [66, 67]\<rparr>) ''ayse'' ''provinces'' 1 20 exampleRounds = Inr d
        \<and> lbTotal d = length best)"
proof -
  have "grUserId ` set (filter (qualifies ''provinces'') exampleRounds) = {''ayse'', ''can''}"
    by (simp add: exampleRounds_def qualifies_def Let_def)
  moreover have "\<exists>u. (\<lambda>u. Some \<lparr>luFirstName = [65], luLastName = [66, 67]\<rparr>) (grUserId r) = Some u \<and> luLastName u \<noteq> []" for r
    by simp
  note ranking = leaderboard_ranks_best_rounds [where rows = exampleRounds and mode = "''provinces''" and upperTr = id, OF this]
  have "\<exists>best :: gameRound list. distinct (map grUserId best) \<and> grUserId ` set best = grUserId ` set (filter (qualifies ''provinces'') exampleRounds)
      \<and> (\<exists>d. getLeaderboard id (\<lambda>u. Some \<lparr>luFirstName = [65], luLastName = [66, 67]\<rparr>) ''ayse'' ''provinces'' 1 20 exampleRounds = Inr d
          \<and> lbTotal d = length best)"
    using ranking by (elim exE conjE) (erule allE [of _ "''ayse''"], erule allE [of _ "1 :: nat"], erule allE [of _ "20 :: nat"],
      elim exE conjE, intro exI conjI, assumption+)
  ultimately show ?thesis by simp
qed

section \<open>What a submit keeps\<close>

text \<open>The unique constraint, and the summaries the service admits.\<close>

definition summaryOk :: "gameRound \<Rightarrow> bool" where
  "summaryOk r \<longleftrightarrow> grFirstTry r \<le> grFound r \<and> grFound r \<le> grTotal r \<and> grTotal r \<le> grPoolTotal r
     \<and> (grEndedEarly r \<or> grTotal r = grPoolTotal r)"

definition roundsOk :: "gameRound list \<Rightarrow> bool" where
  "roundsOk rows \<longleftrightarrow> distinct (map (\<lambda>r. (grUserId r, grClientRoundId r)) rows) \<and> (\<forall>r \<in> set rows. summaryOk r)"

lemma find_sameRound_None:
  "find (sameRound u c) rows = None \<longleftrightarrow> (u, c) \<notin> (\<lambda>r. (grUserId r, grClientRoundId r)) ` set rows"
  by (auto simp: find_None_iff sameRound_def)

text \<open>
  C16: A round is recorded once: the first submit of an id stores it, and any later one of the id with
  an admitted summary answers the first and changes nothing; no other round changes; and only
  consistent summaries are stored, a refused one storing nothing.
\<close>

theorem resubmitted_round_kept:
  assumes ok: "roundsOk rows" and run: "submitRound u b now rows = (res, rows')"
  shows "roundsOk rows'
    \<and> (\<forall>u' c. (u', c) \<noteq> (u, sgClientRoundId b) \<longrightarrow> find (sameRound u' c) rows' = find (sameRound u' c) rows)
    \<and> (case res of
         Inl e \<Rightarrow> e = Invalid_summary \<and> rows' = rows \<and> \<not> summaryOk (roundOf u b now)
       | Inr d \<Rightarrow>
           map_option gameRoundToDto (find (sameRound u (sgClientRoundId b)) rows') = Some d
           \<and> (find (sameRound u (sgClientRoundId b)) rows = None \<longrightarrow> d = gameRoundToDto (roundOf u b now))
           \<and> (\<forall>b' later. sgClientRoundId b' = sgClientRoundId b \<and> summaryOk (roundOf u b' later)
                \<longrightarrow> submitRound u b' later rows' = (Inr d, rows')))"
proof (cases "summaryOk (roundOf u b now)")
  case False
  then have "res = Inl Invalid_summary \<and> rows' = rows"
    using run by (auto simp: submitRound_def summaryOk_def roundOf_def split: if_splits)
  then show ?thesis using ok False by simp
next
  case True
  have admitted: "submitRound u b' later xs = (let (row, xs') = upsertRound u b' later xs in (Inr (gameRoundToDto row), xs'))"
    if "summaryOk (roundOf u b' later)" for b' later xs
    using that by (auto simp: submitRound_def summaryOk_def roundOf_def)
  note step = run [unfolded admitted [OF True] upsertRound_def]
  show ?thesis
  proof (cases "find (sameRound u (sgClientRoundId b)) rows")
    case (Some r)
    then have "res = Inr (gameRoundToDto r) \<and> rows' = rows" using step by auto
    then show ?thesis using ok Some by (simp add: admitted upsertRound_def)
  next
    case None
    then have res: "res = Inr (gameRoundToDto (roundOf u b now))" "rows' = rows @ [roundOf u b now]" using step by auto
    have same: "sameRound u' c (roundOf u b now) \<longleftrightarrow> (u', c) = (u, sgClientRoundId b)" for u' c
      by (auto simp: sameRound_def roundOf_def)
    have "roundsOk rows'"
      using ok True None [unfolded find_sameRound_None] by (auto simp: roundsOk_def res(2) roundOf_def)
    moreover have stored: "find (sameRound u (sgClientRoundId b)) rows' = Some (roundOf u b now)"
      using None by (simp add: res(2) find_append same)
    moreover have "find (sameRound u' c) rows' = find (sameRound u' c) rows" if "(u', c) \<noteq> (u, sgClientRoundId b)" for u' c
      using that by (auto simp: res(2) find_append same split: option.split)
    ultimately show ?thesis using None res(1) by (simp add: admitted upsertRound_def)
  qed
qed

definition exampleSubmit :: submitGameRoundRequest where
  "exampleSubmit = \<lparr>sgMode = ''provinces'', sgClientRoundId = ''r1'', sgScore = 87, sgFound = 70, sgFirstTry = 60,
     sgTotal = 81, sgPoolTotal = 81, sgTotalWrongs = 12, sgEndedEarly = False, sgCompletionTimeSeconds = None\<rparr>"

lemma resubmitted_round_kept_witness:
  "\<exists>rows'. submitRound ''ayse'' exampleSubmit 5 exampleRounds = (Inr (gameRoundToDto (roundOf ''ayse'' exampleSubmit 5)), rows')
    \<and> roundsOk rows'
    \<and> submitRound ''ayse'' (exampleSubmit\<lparr>sgScore := 100\<rparr>) 9 rows' = (Inr (gameRoundToDto (roundOf ''ayse'' exampleSubmit 5)), rows')"
proof -
  have ok: "roundsOk exampleRounds"
    by (auto simp: roundsOk_def exampleRounds_def summaryOk_def Let_def)
  obtain rows' where run: "submitRound ''ayse'' exampleSubmit 5 exampleRounds = (Inr (gameRoundToDto (roundOf ''ayse'' exampleSubmit 5)), rows')"
    by (simp add: submitRound_def upsertRound_def exampleSubmit_def exampleRounds_def sameRound_def Let_def)
  have "summaryOk (roundOf ''ayse'' (exampleSubmit\<lparr>sgScore := 100\<rparr>) 9)" by (simp add: summaryOk_def roundOf_def exampleSubmit_def)
  then show ?thesis using resubmitted_round_kept [OF ok run] run by (simp add: exampleSubmit_def)
qed

section \<open>What the limit admits\<close>

definition submitCount :: "submitRateRows \<Rightarrow> string \<times> ms \<Rightarrow> nat" where
  "submitCount rows k = (case js_get rows k of None \<Rightarrow> 0 | Some n \<Rightarrow> n)"

definition submitWindow :: "ms \<Rightarrow> int" where
  "submitWindow now = now div GAME_ROUND_SUBMIT_WINDOW_MS"

lemma consumeSubmit_facts:
  assumes "consumeSubmit u now rows = (out, rows')" and "js_wf rows"
  defines "start \<equiv> submitWindow now * GAME_ROUND_SUBMIT_WINDOW_MS"
  shows "js_wf rows'"
    and "soAllowed out \<longleftrightarrow> submitCount rows (u, start) + 1 \<le> GAME_ROUND_SUBMIT_LIMIT"
    and "submitCount rows' (u', w) = (if u' = u \<and> w < start then 0
        else submitCount rows (u', w) + (if (u', w) = (u, start) then 1 else 0))"
proof -
  let ?kept = "filter (\<lambda>((u', w), n). \<not> (u' = u \<and> w < start)) rows"
  have wf: "js_wf ?kept" using assms(2) by (simp add: js_wf_def distinct_map_filter)
  have kept: "js_get ?kept (u', w) = (if u' = u \<and> w < start then None else js_get rows (u', w))" for u' w
    using assms(2) by (auto simp: js_get_filter_wf split: option.split)
  have parts: "rows' = js_set (u, start) (submitCount rows (u, start) + 1) ?kept"
      "soAllowed out \<longleftrightarrow> submitCount rows (u, start) + 1 \<le> GAME_ROUND_SUBMIT_LIMIT"
    using assms(1) unfolding consumeSubmit_def Let_def submitWindow_def [symmetric] start_def [symmetric] kept
    by (auto simp: submitCount_def split: option.splits)
  show "js_wf rows'" using wf by (simp add: parts(1))
  show "soAllowed out \<longleftrightarrow> submitCount rows (u, start) + 1 \<le> GAME_ROUND_SUBMIT_LIMIT" by (rule parts(2))
  show "submitCount rows' (u', w) = (if u' = u \<and> w < start then 0
      else submitCount rows (u', w) + (if (u', w) = (u, start) then 1 else 0))"
    unfolding submitCount_def parts(1) js_get_set kept by auto
qed

record roundCall =
  pcUser :: "string option"
  pcBody :: submitGameRoundRequest
  pcNow :: ms

definition postStep :: "roundCall \<Rightarrow> roundTables \<Rightarrow> bool \<times> roundTables" where
  "postStep c db =
     (let (res, db') = postRound (pcUser c) (pcBody c) (pcNow c) db in (res \<in> range Inr, db'))"

lemma postStep_limits:
  "pcUser c = None \<Longrightarrow> postStep c db = (False, db)"
  "pcUser c = Some u \<Longrightarrow> consumeSubmit u (pcNow c) (rtLimits db) = (out, limits')
   \<Longrightarrow> rtLimits (snd (postStep c db)) = limits' \<and> (fst (postStep c db) \<longrightarrow> soAllowed out)"
  by (auto simp: postStep_def postRound_def submitGuard_def Let_def split: prod.splits sum.splits if_splits)

interpretation submitLimit: window_limiter postStep pcNow "\<lambda>c. 1" "\<lambda>c. pcUser c = Some u" submitWindow
    "\<lambda>n db. submitCount (rtLimits db) (u, n * GAME_ROUND_SUBMIT_WINDOW_MS)" GAME_ROUND_SUBMIT_LIMIT
    "\<lambda>db. js_wf (rtLimits db)" "\<lambda>c. True"
  for u
proof (unfold_locales, goal_cases)
  case (1 t t')
  then show ?case by (simp add: submitWindow_def GAME_ROUND_SUBMIT_WINDOW_MS_def duration_defs zdiv_mono1)
next
  case (2 db c)
  show ?case
  proof (cases "pcUser c")
    case (Some v)
    obtain out l where run: "consumeSubmit v (pcNow c) (rtLimits db) = (out, l)" by fastforce
    show ?thesis using consumeSubmit_facts(1) [OF run 2(1)] postStep_limits(2) [OF Some run] by simp
  qed (simp add: postStep_limits(1) 2)
next
  case (3 db c)
  show ?case
  proof (cases "pcUser c")
    case (Some v)
    obtain out l where run: "consumeSubmit v (pcNow c) (rtLimits db) = (out, l)" by fastforce
    show ?thesis using consumeSubmit_facts(3) [OF run 3(1)] postStep_limits(2) [OF Some run] by simp
  qed (simp add: postStep_limits(1))
next
  case (4 db c)
  obtain out l where run: "consumeSubmit u (pcNow c) (rtLimits db) = (out, l)" by fastforce
  show ?case
    using consumeSubmit_facts(2,3) [OF run 4(1)] postStep_limits(2) [OF 4(2) run] 4(3) by simp
qed

text \<open>
  In any clock hour at most 300 submits of a learner are answered with a round, whatever other
  learners send in between and although every submit deletes the older windows of its learner.
\<close>

theorem round_submits_limited:
  assumes "sorted (map pcNow calls)"
  shows "spent postStep (\<lambda>c. 1) (\<lambda>c. pcUser c = Some u \<and> submitWindow (pcNow c) = n) calls
      \<lparr>rtLimits = [], rtRounds = rounds\<rparr> \<le> 300"
  using submitLimit.spent_within_limit [of "\<lparr>rtLimits = [], rtRounds = rounds\<rparr>" calls u n] assms
  by (simp add: GAME_ROUND_SUBMIT_LIMIT_def)

lemma round_submits_limited_witness:
  "spent postStep (\<lambda>c. 1) (\<lambda>c. pcUser c = Some ''ayse'' \<and> submitWindow (pcNow c) = 0)
     [\<lparr>pcUser = Some ''ayse'', pcBody = exampleSubmit, pcNow = 1\<rparr>, \<lparr>pcUser = None, pcBody = exampleSubmit, pcNow = 2\<rparr>]
     \<lparr>rtLimits = [], rtRounds = []\<rparr> \<le> 300"
  by (rule round_submits_limited) simp

end
