(* ===== verification/Retention.thy ===== *)
theory Retention
  imports Password_Reset Game_Rounds
begin

text \<open>
  \<open>src/retention/\<close> (\<open>retention-cleanup.target.ts\<close>, \<open>retention.constants.ts\<close>): the hourly deletion of
  expired account records and closed rate-limit windows. A statement that fails deletes nothing
  and the tour goes on with the next.
\<close>

definition RETENTION_CLEANUP_INTERVAL_SECONDS :: int where "RETENTION_CLEANUP_INTERVAL_SECONDS = 60 * 60"
definition RETENTION_CLEANUP_DEADLINE_MS :: ms where "RETENTION_CLEANUP_DEADLINE_MS = 120000"
definition EXPIRED_AUTH_RECORD_GRACE_MS :: ms where "EXPIRED_AUTH_RECORD_GRACE_MS = 24 * ONE_HOUR_MS"

record retentionCleanupCounts =
  ccPendingRegistrations :: nat
  ccPasswordResetTokens :: nat
  ccAuthRateLimits :: nat
  ccGameRoundSubmitRateLimits :: nat

record 'h retentionDb =
  rdReset :: "'h resetDb"
  rdSubmits :: submitRateRows

datatype cleanupStatement =
    Delete_pending | Delete_tokens | Delete_submit_limits | Delete_auth_limits authRateLimitScope

text \<open>The keys of the rules, in the order they are declared.\<close>

definition authScopes :: "authRateLimitScope list" where
  "authScopes = [RegisterEmail, VerifyResendCooldown, VerifyResendDaily, LoginEmail, PasswordResetEmail, PasswordChange]"

text \<open>One \<open>DELETE ... WHERE overdue\<close>: the rows it leaves and the number it reports.\<close>

definition deleteRows :: "bool \<Rightarrow> ('r \<Rightarrow> bool) \<Rightarrow> 'r list \<Rightarrow> nat \<times> 'r list" where
  "deleteRows fails overdue rows =
     (if fails then (0, rows)
      else (length (filter overdue rows), filter (\<lambda>r. \<not> overdue r) rows))"

definition overdueWindow :: "authRateLimitScope \<Rightarrow> ms \<Rightarrow> (authRateLimitScope \<times> 'h \<times> ms) \<times> nat \<Rightarrow> bool" where
  "overdueWindow sc nowMs = (\<lambda>((sc', h, w), n). sc' = sc \<and> w \<le> nowMs - ruleWindowMs (AUTH_RATE_LIMIT_RULES sc))"

primrec cleanAuthLimits ::
  "(cleanupStatement \<Rightarrow> bool) \<Rightarrow> ms \<Rightarrow> authRateLimitScope list \<Rightarrow> 'h rateLimitRows \<Rightarrow> nat \<times> 'h rateLimitRows" where
  "cleanAuthLimits fails nowMs [] rows = (0, rows)"
| "cleanAuthLimits fails nowMs (sc # scs) rows =
     (let (n, rows1) = deleteRows (fails (Delete_auth_limits sc)) (overdueWindow sc nowMs) rows;
          (m, rows2) = cleanAuthLimits fails nowMs scs rows1
      in (n + m, rows2))"

definition cleanup ::
  "(cleanupStatement \<Rightarrow> bool) \<Rightarrow> ms \<Rightarrow> 'h retentionDb \<Rightarrow> retentionCleanupCounts \<times> 'h retentionDb" where
  "cleanup fails nowMs db =
     (let expiredBefore = nowMs - EXPIRED_AUTH_RECORD_GRACE_MS;
          accs = accounts (rdReset db);
          (p, pending') = deleteRows (fails Delete_pending) (\<lambda>r. pExpiresAt r < expiredBefore) (pending accs);
          (t, tokens') = deleteRows (fails Delete_tokens) (\<lambda>r. tExpiresAt r < expiredBefore) (resetTokens (rdReset db));
          (g, submits') = deleteRows (fails Delete_submit_limits)
            (\<lambda>((u, w), n). w \<le> nowMs - GAME_ROUND_SUBMIT_WINDOW_MS) (rdSubmits db);
          (a, rates') = cleanAuthLimits fails nowMs authScopes (rateRows (auth accs))
      in (\<lparr>ccPendingRegistrations = p, ccPasswordResetTokens = t, ccAuthRateLimits = a,
           ccGameRoundSubmitRateLimits = g\<rparr>,
          \<lparr>rdReset = \<lparr>accounts = accs\<lparr>auth := (auth accs)\<lparr>rateRows := rates'\<rparr>, pending := pending'\<rparr>,
                      resetTokens = tokens'\<rparr>,
           rdSubmits = submits'\<rparr>))"

section \<open>What the deletions leave\<close>

lemma authScopes_mem [simp]: "sc \<in> set authScopes"
  by (cases sc) (simp_all add: authScopes_def)

lemma deleteRows_eq: "deleteRows fails P rows = (n, rows') \<Longrightarrow>
    rows' = filter (\<lambda>r. fails \<or> \<not> P r) rows \<and> n + length rows' = length rows"
  using sum_length_filter_compl [of P rows] by (auto simp: deleteRows_def split: if_splits)

lemma cleanAuthLimits_eq:
  "cleanAuthLimits fails nowMs scs rows = (n, rows') \<Longrightarrow>
    rows' = filter (\<lambda>r. \<forall>sc \<in> set scs. fails (Delete_auth_limits sc) \<or> \<not> overdueWindow sc nowMs r) rows
    \<and> n + length rows' = length rows"
proof (induction scs arbitrary: rows n)
  case (Cons sc scs)
  obtain k rows1 where one: "deleteRows (fails (Delete_auth_limits sc)) (overdueWindow sc nowMs) rows = (k, rows1)"
    by fastforce
  obtain m where rest: "cleanAuthLimits fails nowMs scs rows1 = (m, rows')" and n: "n = k + m"
    using Cons.prems by (auto simp: one split: prod.splits)
  have "n + length rows' = length rows" using deleteRows_eq [OF one] Cons.IH [OF rest] n by linarith
  moreover have "rows' = filter (\<lambda>r. \<forall>sc \<in> set (sc # scs). fails (Delete_auth_limits sc) \<or> \<not> overdueWindow sc nowMs r) rows"
    using deleteRows_eq [OF one] Cons.IH [OF rest] by simp
  ultimately show ?case by blast
qed simp

lemma window_start_recent: "0 < w \<Longrightarrow> now \<le> t \<Longrightarrow> now - w < t div w * (w :: int)"
  using div_mult_mod_eq [of t w] pos_mod_bound [of w t] by linarith

lemma consume_kept:
  assumes wf: "js_wf rows" and t: "now \<le> t"
    and kept: "\<And>k n. P (k, n) \<or> (\<exists>sc h w. k = (sc, h, w) \<and> w \<le> now - ruleWindowMs (AUTH_RATE_LIMIT_RULES sc))"
  shows "fst (consume digest sc em t (filter P rows)) = fst (consume digest sc em t rows)"
proof -
  let ?w = "windowStartFor sc t"
  have "P ((sc, digest sc em, ?w), n)" for n
    using kept [of "(sc, digest sc em, ?w)" n] window_start_recent [OF ruleWindowMs_pos t, of sc] by (auto simp: windowStartFor_def)
  then have same: "js_get (deleteOlder sc (digest sc em) ?w (filter P rows)) (sc, digest sc em, ?w)
      = js_get (deleteOlder sc (digest sc em) ?w rows) (sc, digest sc em, ?w)"
    using wf by (auto simp: deleteOlder_def js_get_filter_wf js_wf_def distinct_map_filter split: option.splits)
  show ?thesis by (simp add: consume_def upsertAttempt_def Let_def same split: prod.splits)
qed

lemma consumeSubmit_kept:
  assumes wf: "js_wf rows" and t: "now \<le> t" and kept: "\<And>u w n. P ((u, w), n) \<or> w \<le> now - GAME_ROUND_SUBMIT_WINDOW_MS"
  shows "fst (consumeSubmit u t (filter P rows)) = fst (consumeSubmit u t rows)"
proof -
  let ?w = "t div GAME_ROUND_SUBMIT_WINDOW_MS * GAME_ROUND_SUBMIT_WINDOW_MS"
  let ?older = "\<lambda>((u', w'), n). \<not> (u' = u \<and> w' < ?w)"
  have "0 < GAME_ROUND_SUBMIT_WINDOW_MS" by (simp add: GAME_ROUND_SUBMIT_WINDOW_MS_def duration_defs)
  then have "P ((u, ?w), n)" for n using kept [of u ?w n] window_start_recent [OF _ t] by fastforce
  then have same: "js_get (filter ?older (filter P rows)) (u, ?w) = js_get (filter ?older rows) (u, ?w)"
    using wf by (auto simp: js_get_filter_wf js_wf_def distinct_map_filter split: option.splits)
  show ?thesis unfolding consumeSubmit_def Let_def same by simp
qed

lemma find_filter_kept:
  "(\<And>x. x \<in> set xs \<Longrightarrow> P x \<Longrightarrow> Q x) \<Longrightarrow> find P (filter Q xs) = find P xs"
  by (induction xs) auto

lemma verify_kept:
  assumes "\<And>r. isGuessable t r \<Longrightarrow> P r" and "users (auth db') = users (auth db)" and "pending db' = filter P (pending db)"
  shows "fst (verifyTransaction codeDigest i email code t db') = fst (verifyTransaction codeDigest i email code t db)"
proof -
  have "filter (isGuessable t) (candidatesFor email (filter P (pending db))) =
      filter (isGuessable t) (candidatesFor email (pending db))"
    using assms(1) by (auto simp: candidatesFor_def filter_sort conj_commute intro!: arg_cong [of _ _ "sort_key _"] filter_cong)
  then show ?thesis using assms(2,3) by (simp add: verifyTransaction_def Let_def split: option.split)
qed

lemma resolve_kept:
  assumes expired: "\<And>r. \<not> Q r \<Longrightarrow> tExpiresAt r \<le> t" and rows: "resetTokens db' = filter Q (resetTokens db)"
    and hashes: "\<And>a b. a \<in> set (resetTokens db) \<Longrightarrow> b \<in> set (resetTokens db) \<Longrightarrow> tTokenHash a = tTokenHash b \<Longrightarrow> a = b"
  shows "resolveValidToken sha token t db' = resolveValidToken sha token t db"
proof (cases "find (\<lambda>r. tTokenHash r = sha token \<and> tConsumedAt r = None) (resetTokens db)")
  case None
  then have "find (\<lambda>r. tTokenHash r = sha token \<and> tConsumedAt r = None) (filter Q (resetTokens db)) = None"
    by (auto simp: find_None_iff)
  with None show ?thesis by (simp add: resolveValidToken_def rows)
next
  case (Some a)
  have own: "b = a" if "b \<in> set (resetTokens db)" "tTokenHash b = sha token" for b
    using hashes [of b a] find_SomeD [OF Some] that by simp
  show ?thesis
  proof (cases "Q a")
    case True
    have "find (\<lambda>r. tTokenHash r = sha token \<and> tConsumedAt r = None) (filter Q (resetTokens db))
        = find (\<lambda>r. tTokenHash r = sha token \<and> tConsumedAt r = None) (resetTokens db)"
      using own True by (intro find_filter_kept) blast
    then show ?thesis by (simp add: resolveValidToken_def rows)
  next
    case False
    have "find (\<lambda>r. tTokenHash r = sha token \<and> tConsumedAt r = None) (filter Q (resetTokens db)) = None"
      using own False by (auto simp: find_None_iff)
    then show ?thesis using Some expired [OF False] by (simp add: resolveValidToken_def rows)
  qed
qed

text \<open>
  A new candidate is decided on the live rows of its address. A resend also reads the expired ones:
  it is declined as ambiguous when the rows hold two passwords, however long ago they expired.
\<close>

lemma candidatesFor_filter: "candidatesFor em (filter P rows) = filter P (candidatesFor em rows)"
  by (simp add: candidatesFor_def filter_sort conj_commute)

lemma live_kept:
  assumes "\<And>r. t < pExpiresAt r \<Longrightarrow> P r"
  shows "filter (\<lambda>r. t < pExpiresAt r) (filter P rows) = filter (\<lambda>r. t < pExpiresAt r) rows"
  using assms by (auto intro: filter_cong)

lemma insert_kept:
  assumes "\<And>r. t < pExpiresAt r \<Longrightarrow> P r" and "pending db' = filter P (pending db)"
    and "case source of From_draft d \<Rightarrow> True
       | Resend_to em \<Rightarrow>
           (card (set (map (\<lambda>r. dPasswordHash (pDraft r)) (candidatesFor em (pending db)))) > 1)
             = (card (set (map (\<lambda>r. dPasswordHash (pDraft r)) (candidatesFor em (pending db')))) > 1)"
  shows "fst (insertCandidate codeDigest contended i code source t db') = fst (insertCandidate codeDigest contended i code source t db)"
proof -
  have live: "filter (\<lambda>r. t < pExpiresAt r) (candidatesFor em (pending db'))
      = filter (\<lambda>r. t < pExpiresAt r) (candidatesFor em (pending db))" for em
    unfolding assms(2) candidatesFor_filter by (rule live_kept [OF assms(1)])
  show ?thesis
    using assms(3) unfolding insertCandidate_def insertCandidateTransaction_def Let_def live
    by (cases source) (simp_all split: option.split)
qed

lemma resend_kept:
  assumes "\<And>r. t < pExpiresAt r \<Longrightarrow> P r" and "pending db' = filter P (pending db)"
  shows "fst (resendCandidateCode codeDigest contended i code em t db') = fst (resendCandidateCode codeDigest contended i code em t db)
    \<or> fst (resendCandidateCode codeDigest contended i code em t db) = Resend_ambiguous_source
        \<and> (\<exists>r \<in> set (pending db). dEmail (pDraft r) = em \<and> \<not> P r)"
proof -
  let ?hashes = "\<lambda>db. set (map (\<lambda>r. dPasswordHash (pDraft r)) (candidatesFor em (pending db)))"
  have sub: "?hashes db' \<subseteq> ?hashes db" using assms(2) by auto
  have outcome: "fst (resendCandidateCode codeDigest contended i code em t x) =
      (case fst (insertCandidate codeDigest contended i code (Resend_to em) t x) of
         Not_issued r \<Rightarrow> if r = Ambiguous_source then Resend_ambiguous_source else Resend_declined
       | Issued c l \<Rightarrow> Resend_issued)" for x
    by (simp add: resendCandidateCode_def split: prod.split candidateOutcome.split)
  show ?thesis
  proof (cases "(card (?hashes db) > 1) = (card (?hashes db') > 1)")
    case True
    then have "fst (insertCandidate codeDigest contended i code (Resend_to em) t db')
        = fst (insertCandidate codeDigest contended i code (Resend_to em) t db)"
      by (intro insert_kept [OF assms]) (simp_all only: candidateSource.case)
    then show ?thesis unfolding outcome by simp
  next
    case False
    moreover have "card (?hashes db') \<le> card (?hashes db)" by (rule card_mono [OF _ sub]) simp
    ultimately have two: "card (?hashes db) > 1" "?hashes db' \<noteq> ?hashes db" by auto
    then obtain r where "r \<in> set (pending db)" "dEmail (pDraft r) = em" "dPasswordHash (pDraft r) \<notin> ?hashes db'"
      using sub by auto
    moreover from this have "\<not> P r" using assms(2) by auto
    ultimately show ?thesis
      using two(1) unfolding outcome insertCandidate_def insertCandidateTransaction_def
      by (cases contended) (auto simp: Let_def)
  qed
qed

text \<open>
  C11: The cleanup takes away nothing a later request decides by, whichever of its statements fail,
  but for one case: at any time not before the tour the limits answer the same, a reset token
  resolves to the same, a code is judged the same and a registration gets the same answer; and a
  resend gets the same answer unless it would be refused as ambiguous and a candidate of that
  address had been expired for more than a day when the tour ran. What it deletes is counted
  exactly, and a tour none of whose statements fails leaves no overdue row.
\<close>

theorem cleanup_spares_decisions:
  assumes run: "cleanup fails now db = (counts, db')" and t: "now \<le> t"
    and wf: "js_wf (rateRows (auth (accounts (rdReset db))))" "js_wf (rdSubmits db)"
    and hashes: "\<And>a b. a \<in> set (resetTokens (rdReset db)) \<Longrightarrow> b \<in> set (resetTokens (rdReset db))
      \<Longrightarrow> tTokenHash a = tTokenHash b \<Longrightarrow> a = b"
  shows "fst (consume digest sc em t (rateRows (auth (accounts (rdReset db'))))) =
      fst (consume digest sc em t (rateRows (auth (accounts (rdReset db)))))
    \<and> fst (consumeSubmit u t (rdSubmits db')) = fst (consumeSubmit u t (rdSubmits db))
    \<and> resolveValidToken sha token t (rdReset db') = resolveValidToken sha token t (rdReset db)
    \<and> fst (verifyTransaction codeDigest i email code t (accounts (rdReset db'))) =
        fst (verifyTransaction codeDigest i email code t (accounts (rdReset db)))
    \<and> fst (insertCandidate codeDigest contended i code (From_draft draft) t (accounts (rdReset db'))) =
        fst (insertCandidate codeDigest contended i code (From_draft draft) t (accounts (rdReset db)))
    \<and> (fst (resendCandidateCode codeDigest contended i code email t (accounts (rdReset db'))) =
          fst (resendCandidateCode codeDigest contended i code email t (accounts (rdReset db)))
        \<or> fst (resendCandidateCode codeDigest contended i code email t (accounts (rdReset db))) = Resend_ambiguous_source
          \<and> (\<exists>r \<in> set (pending (accounts (rdReset db))).
                dEmail (pDraft r) = email \<and> pExpiresAt r + 24 * 60 * 60 * 1000 < now))
    \<and> ccPendingRegistrations counts + length (pending (accounts (rdReset db'))) = length (pending (accounts (rdReset db)))
    \<and> ccPasswordResetTokens counts + length (resetTokens (rdReset db')) = length (resetTokens (rdReset db))
    \<and> ccAuthRateLimits counts + length (rateRows (auth (accounts (rdReset db')))) = length (rateRows (auth (accounts (rdReset db))))
    \<and> ccGameRoundSubmitRateLimits counts + length (rdSubmits db') = length (rdSubmits db)
    \<and> (fails = (\<lambda>_. False) \<longrightarrow>
        (\<forall>r \<in> set (pending (accounts (rdReset db'))). now \<le> pExpiresAt r + 24 * 60 * 60 * 1000)
        \<and> (\<forall>r \<in> set (resetTokens (rdReset db')). now \<le> tExpiresAt r + 24 * 60 * 60 * 1000)
        \<and> (\<forall>((sc, h, w), n) \<in> set (rateRows (auth (accounts (rdReset db')))). now - ruleWindowMs (AUTH_RATE_LIMIT_RULES sc) < w)
        \<and> (\<forall>((u, w), n) \<in> set (rdSubmits db'). now - GAME_ROUND_SUBMIT_WINDOW_MS < w))"
proof -
  let ?accs = "accounts (rdReset db)"
  let ?before = "now - EXPIRED_AUTH_RECORD_GRACE_MS"
  obtain p pending' where p: "deleteRows (fails Delete_pending) (\<lambda>r. pExpiresAt r < ?before) (pending ?accs) = (p, pending')"
    by fastforce
  obtain k tokens' where k: "deleteRows (fails Delete_tokens) (\<lambda>r. tExpiresAt r < ?before) (resetTokens (rdReset db)) = (k, tokens')"
    by fastforce
  obtain g submits' where g: "deleteRows (fails Delete_submit_limits) (\<lambda>((u, w), n). w \<le> now - GAME_ROUND_SUBMIT_WINDOW_MS)
      (rdSubmits db) = (g, submits')" by fastforce
  obtain a rates' where a: "cleanAuthLimits fails now authScopes (rateRows (auth ?accs)) = (a, rates')" by fastforce
  have counts: "ccPendingRegistrations counts = p" "ccPasswordResetTokens counts = k" "ccAuthRateLimits counts = a"
      "ccGameRoundSubmitRateLimits counts = g"
    and parts: "pending (accounts (rdReset db')) = pending'" "resetTokens (rdReset db') = tokens'"
      "rateRows (auth (accounts (rdReset db'))) = rates'" "rdSubmits db' = submits'"
      "users (auth (accounts (rdReset db'))) = users (auth ?accs)"
    using run by (auto simp: cleanup_def Let_def p k g a)
  note p' = deleteRows_eq [OF p] and k' = deleteRows_eq [OF k] and g' = deleteRows_eq [OF g] and a' = cleanAuthLimits_eq [OF a]
  have day: "EXPIRED_AUTH_RECORD_GRACE_MS = 24 * 60 * 60 * 1000" by (simp add: EXPIRED_AUTH_RECORD_GRACE_MS_def duration_defs)
  then have grace: "0 \<le> EXPIRED_AUTH_RECORD_GRACE_MS" by simp
  have "fst (consume digest sc em t rates') = fst (consume digest sc em t (rateRows (auth ?accs)))"
    unfolding conjunct1 [OF a'] by (rule consume_kept [OF wf(1) t]) (auto simp: overdueWindow_def split: prod.splits)
  moreover have "fst (consumeSubmit u t submits') = fst (consumeSubmit u t (rdSubmits db))"
    unfolding conjunct1 [OF g'] by (rule consumeSubmit_kept [OF wf(2) t]) auto
  moreover have "resolveValidToken sha token t (rdReset db') = resolveValidToken sha token t (rdReset db)"
    by (rule resolve_kept [OF _ _ hashes]) (use k' parts(2) grace t in auto)
  moreover have "fst (verifyTransaction codeDigest i email code t (accounts (rdReset db'))) =
      fst (verifyTransaction codeDigest i email code t ?accs)"
    by (rule verify_kept [OF _ parts(5)]) (use p' parts(1) grace t in \<open>auto simp: isGuessable_def\<close>)
  moreover have "fst (insertCandidate codeDigest contended i code (From_draft draft) t (accounts (rdReset db'))) =
      fst (insertCandidate codeDigest contended i code (From_draft draft) t ?accs)"
    by (rule insert_kept [OF _ conjunct1 [OF p', folded parts(1)]]) (use grace t in auto)
  moreover have "fst (resendCandidateCode codeDigest contended i code email t (accounts (rdReset db'))) =
        fst (resendCandidateCode codeDigest contended i code email t ?accs)
      \<or> fst (resendCandidateCode codeDigest contended i code email t ?accs) = Resend_ambiguous_source
        \<and> (\<exists>r \<in> set (pending ?accs). dEmail (pDraft r) = email \<and> pExpiresAt r + 24 * 60 * 60 * 1000 < now)"
    using resend_kept [OF _ conjunct1 [OF p', folded parts(1)], of t codeDigest contended i code email] grace t day
    by fastforce
  moreover have "fails = (\<lambda>_. False) \<longrightarrow> (\<forall>r \<in> set pending'. ?before \<le> pExpiresAt r) \<and> (\<forall>r \<in> set tokens'. ?before \<le> tExpiresAt r)
      \<and> (\<forall>((sc, h, w), n) \<in> set rates'. now - ruleWindowMs (AUTH_RATE_LIMIT_RULES sc) < w)
      \<and> (\<forall>((u, w), n) \<in> set submits'. now - GAME_ROUND_SUBMIT_WINDOW_MS < w)"
    unfolding conjunct1 [OF p'] conjunct1 [OF k'] conjunct1 [OF g'] conjunct1 [OF a'] by (auto simp: overdueWindow_def authScopes_mem)
  moreover have "?before \<le> x \<longleftrightarrow> now \<le> x + 24 * 60 * 60 * 1000" for x using day by linarith
  ultimately show ?thesis using p' k' g' a' by (simp only: counts parts) blast
qed

text \<open>An expired reset token goes, an open window stays.\<close>

definition retentionExample :: "string retentionDb" where
  "retentionExample = \<lparr>rdReset = resetExample, rdSubmits = [((''ayse'', 0), 7), ((''ayse'', 86400000), 300)]\<rparr>"

lemma cleanup_spares_decisions_witness:
  "\<exists>counts db'. cleanup (\<lambda>_. False) 88300000 retentionExample = (counts, db')
     \<and> fst (consumeSubmit ''ayse'' 88300000 (rdSubmits db')) =
         fst (consumeSubmit ''ayse'' 88300000 (rdSubmits retentionExample))
     \<and> ccGameRoundSubmitRateLimits counts + length (rdSubmits db') = 2
     \<and> resetTokens (rdReset db') = []"
proof -
  obtain counts db' where run: "cleanup (\<lambda>_. False) 88300000 retentionExample = (counts, db')" by fastforce
  have wf: "js_wf (rateRows (auth (accounts (rdReset retentionExample))))" "js_wf (rdSubmits retentionExample)"
    by (simp_all add: retentionExample_def js_wf_def resetExample_def requestReset_def consume_def upsertAttempt_def
        deleteOlder_def onRates_def sendMail_def js_set_def Let_def split: prod.split)
  have hashes: "a = b" if "a \<in> set (resetTokens (rdReset retentionExample))" "b \<in> set (resetTokens (rdReset retentionExample))" for a b
    using that by (simp add: retentionExample_def resetExample_tokens)
  have "resetTokens (rdReset db') = []"
    using run by (auto simp: cleanup_def retentionExample_def resetExample_tokens deleteRows_def Let_def
        EXPIRED_AUTH_RECORD_GRACE_MS_def duration_defs split: prod.splits)
  then show ?thesis
    using cleanup_spares_decisions [OF run order.refl wf hashes] run by (auto simp: retentionExample_def)
qed

text \<open>
  The exception is real. Two people registered one address with different passwords, the first
  more than a day before the second: a resend is refused as ambiguous before the tour and sends a
  code for the second password after it.
\<close>

definition twoCandidates :: "string accountDb" where
  "twoCandidates =
     (let row = (\<lambda>i pw created expires. \<lparr>pId = i, pDraft = \<lparr>dEmail = ''a@b'', dPasswordHash = pw,
          dProfile = \<lparr>firstName = [], lastName = [], phone = [], accountRoleOf = Student, educationLevelOf = None,
            gradeLevelOf = None, studyStreamOf = None, universityName = None, departmentName = None,
            schoolName = None, teacherSubjectOf = None, institutionTypeOf = None, referralSourceOf = None,
            districtId = [], marketingConsentAt = None\<rparr>, dLocale = ''tr''\<rparr>,
          pCodeHash = [], pExpiresAt = expires, pAttemptCount = 0, pCreatedAt = created\<rparr>)
      in \<lparr>auth = \<lparr>sessions = [], users = [], rateRows = []\<rparr>,
          pending = [row ''p1'' ''first'' 0 600000, row ''p2'' ''second'' 90000000 90600000], mails = []\<rparr>)"

lemma cleanup_changes_resend:
  "let db = \<lparr>rdReset = \<lparr>accounts = twoCandidates, resetTokens = []\<rparr>, rdSubmits = []\<rparr>;
       resend = \<lambda>db. fst (resendCandidateCode (\<lambda>i c. i @ c) False ''p3'' ''123456'' ''a@b'' 90100000 (accounts (rdReset db)))
   in resend db = Resend_ambiguous_source \<and> resend (snd (cleanup (\<lambda>_. False) 90000001 db)) = Resend_issued"
  by code_simp

end
