(* ===== verification/Grib2_Envelope.thy ===== *)
theory Grib2_Envelope
  imports Afad_Time
begin

text \<open>
  \<open>src/marine/ecmwf/grib/grib2-envelope.ts\<close>: the messages of a GRIB buffer, their sections and the
  header fields the ingest checks. A \<open>DataView\<close> read past the end is the \<open>RangeError\<close> it throws;
  every other refusal is the contract error, named by what was wrong.
\<close>

unbundle bit_operations_syntax

section \<open>Messages\<close>

datatype gribError = Range_error | Ecmwf_contract string

record gribLocation =
  glOffset :: nat
  glLength :: nat

definition GRIB_MAGIC :: nat where "GRIB_MAGIC = 0x47524942"
definition GRIB_TERMINATOR :: nat where "GRIB_TERMINATOR = 0x37373737"
definition SECTION_0_LENGTH :: nat where "SECTION_0_LENGTH = 16"

definition getUint :: "nat \<Rightarrow> byte list \<Rightarrow> nat \<Rightarrow> gribError + nat" where
  "getUint n bytes i = orThrow (view_be n bytes i) Range_error"

abbreviation getUint8 :: "byte list \<Rightarrow> nat \<Rightarrow> gribError + nat" where "getUint8 \<equiv> getUint 1"
abbreviation getUint16 :: "byte list \<Rightarrow> nat \<Rightarrow> gribError + nat" where "getUint16 \<equiv> getUint 2"
abbreviation getUint32 :: "byte list \<Rightarrow> nat \<Rightarrow> gribError + nat" where "getUint32 \<equiv> getUint 4"

text \<open>The header of the message at a position: its length when it is one.\<close>

definition messageAt :: "byte list \<Rightarrow> nat \<Rightarrow> gribError + nat" where
  "messageAt bytes pos =
     (if length bytes - pos < SECTION_0_LENGTH then Inl (Ecmwf_contract ''trailing bytes'')
      else
       andThen (getUint32 bytes pos) (\<lambda>magic.
       andThen (require (magic = GRIB_MAGIC) (Ecmwf_contract ''not a message'')) (\<lambda>_.
       andThen (getUint8 bytes (pos + 7)) (\<lambda>edition.
       andThen (require (edition = 2) (Ecmwf_contract ''edition'')) (\<lambda>_.
       andThen (getUint32 bytes (pos + 8)) (\<lambda>high.
       andThen (require (high = 0) (Ecmwf_contract ''length above 4 GiB'')) (\<lambda>_.
       andThen (getUint32 bytes (pos + 12)) (\<lambda>len.
       andThen (require (SECTION_0_LENGTH + 4 \<le> len \<and> pos + len \<le> length bytes) (Ecmwf_contract ''length'')) (\<lambda>_.
       andThen (getUint32 bytes (pos + len - 4)) (\<lambda>ending.
       andThen (require (ending = GRIB_TERMINATOR) (Ecmwf_contract ''terminator'')) (\<lambda>_.
       Inr len)))))))))))"

lemma messageAt_length: "messageAt bytes pos = Inr len \<Longrightarrow> 20 \<le> len \<and> pos + len \<le> length bytes"
  by (auto simp: messageAt_def andThen_eq_Inr SECTION_0_LENGTH_def split: if_splits)

function scanFrom :: "byte list \<Rightarrow> nat \<Rightarrow> gribError + gribLocation list" where
  "scanFrom bytes pos =
     (if length bytes \<le> pos then Inr []
      else andThen (messageAt bytes pos) (\<lambda>len.
           andThen (scanFrom bytes (pos + len)) (\<lambda>rest.
           Inr (\<lparr>glOffset = pos, glLength = len\<rparr> # rest))))"
  by pat_completeness auto
termination
  by (relation "measure (\<lambda>(bytes, pos). length bytes - pos)") (auto dest: messageAt_length)

declare scanFrom.simps [simp del]

definition scanGribMessages :: "byte list \<Rightarrow> gribError + gribLocation list" where
  "scanGribMessages bytes =
     andThen (scanFrom bytes 0) (\<lambda>locations.
     if locations = [] then Inl (Ecmwf_contract ''no messages'') else Inr locations)"

section \<open>Sections\<close>

record gribExtent =
  gxStart :: nat
  gxLength :: nat

function sectionsFrom ::
  "byte list \<Rightarrow> nat \<Rightarrow> nat \<Rightarrow> (nat, gribExtent) jsmap \<Rightarrow> gribError + (nat, gribExtent) jsmap" where
  "sectionsFrom bytes stop pos sections =
     (if stop \<le> pos then Inr sections
      else if stop - pos < 5 then Inl (Ecmwf_contract ''section header'')
      else
       andThen (getUint32 bytes pos) (\<lambda>sectionLength.
       andThen (getUint8 bytes (pos + 4)) (\<lambda>sectionNumber.
       if sectionLength < 5 \<or> stop < pos + sectionLength then Inl (Ecmwf_contract ''section length'')
       else if js_get sections sectionNumber \<noteq> None then Inl (Ecmwf_contract ''section twice'')
       else sectionsFrom bytes stop (pos + sectionLength)
              (js_set sectionNumber \<lparr>gxStart = pos, gxLength = sectionLength\<rparr> sections))))"
  by pat_completeness auto
termination by (relation "measure (\<lambda>(bytes, stop, pos, sections). stop - pos)") auto

declare sectionsFrom.simps [simp del]

definition readSectionMap :: "byte list \<Rightarrow> gribLocation \<Rightarrow> gribError + (nat, gribExtent) jsmap" where
  "readSectionMap bytes location =
     sectionsFrom bytes (glOffset location + glLength location - 4) (glOffset location + SECTION_0_LENGTH) []"

definition requireSection :: "(nat, gribExtent) jsmap \<Rightarrow> nat \<Rightarrow> nat \<Rightarrow> gribError + gribExtent" where
  "requireSection sections number minimumLength =
     andThen (orThrow (js_get sections number) (Ecmwf_contract ''missing section'')) (\<lambda>s.
     if gxLength s < minimumLength then Inl (Ecmwf_contract ''short section'') else Inr s)"

section \<open>Header fields\<close>

text \<open>The sign is the top bit, the magnitude the rest, in millionths of a degree.\<close>

definition readSignedMicroDegrees :: "byte list \<Rightarrow> nat \<Rightarrow> gribError + rat" where
  "readSignedMicroDegrees bytes i =
     andThen (getUint32 bytes i) (\<lambda>raw.
     let w = of_nat raw :: 32 word;
         magnitude = of_nat (unat (w AND 0x7FFFFFFF)) / 1000000
     in Inr (if w AND 0x80000000 \<noteq> 0 then - magnitude else magnitude))"

definition popCount :: "byte \<Rightarrow> nat" where
  "popCount b = length (filter (\<lambda>i. b AND push_bit i 1 \<noteq> 0) [0 ..< 8])"

definition byteAt :: "byte list \<Rightarrow> nat \<Rightarrow> byte" where
  "byteAt bytes i = (if i < length bytes then bytes ! i else 0)"

definition countBitmapBits :: "byte list \<Rightarrow> gribExtent \<Rightarrow> nat \<Rightarrow> gribError + nat" where
  "countBitmapBits bytes bitmap n =
     (let dataStart = gxStart bitmap + 6;
          wholeBytes = n div 8;
          remainingBits = n - wholeBytes * 8
      in if gxLength bitmap - 6 < (n + 7) div 8 then Inl (Ecmwf_contract ''short bitmap'')
         else Inr (sum_list (map (\<lambda>i. popCount (byteAt bytes (dataStart + i))) [0 ..< wholeBytes])
                   + (if 0 < remainingBits
                      then popCount (byteAt bytes (dataStart + wholeBytes) AND push_bit (8 - remainingBits) 0xFF)
                      else 0)))"

text \<open>\<open>Date.UTC\<close> with a month that may lie outside the year, and two-digit years of the last century.\<close>

definition makeUTC :: "int \<Rightarrow> int \<Rightarrow> int \<Rightarrow> int \<Rightarrow> int \<Rightarrow> int \<Rightarrow> ms" where
  "makeUTC year month day hour minute second =
     (let y = (if 0 \<le> year \<and> year \<le> 99 then 1900 + year else year);
          ym = y + month div 12
      in (dayFromYear ym + dayFromMonth (isLeapYear ym) (month mod 12) + day - 1) * MS_PER_DAY
         + hour * 3600000 + minute * 60000 + second * 1000)"

record gribProfile =
  gpOffset :: nat
  gpLength :: nat
  gpEdition :: nat
  gpDiscipline :: nat
  gpParameterCategory :: nat
  gpParameterNumber :: nat
  gpGridDefinitionTemplate :: nat
  gpProductDefinitionTemplate :: nat
  gpDataRepresentationTemplate :: nat
  gpBitsPerValue :: nat
  gpNumberOfDataPoints :: nat
  gpColumns :: nat
  gpRows :: nat
  gpFirstLatitude :: rat
  gpFirstLongitude :: rat
  gpLastLatitude :: rat
  gpLastLongitude :: rat
  gpLatitudeIncrement :: rat
  gpLongitudeIncrement :: rat
  gpScanningMode :: nat
  gpNumberOfEncodedValues :: nat
  gpBitmapPresent :: bool
  gpBitmapSetBits :: "nat option"
  gpReferenceTimeUtc :: ms
  gpForecastHours :: nat
  gpValidTimeUtc :: "ms option"

definition MAX_TIME_MS :: int where "MAX_TIME_MS = 8640000000000000"

text \<open>The reference time is always readable: its fields are unsigned integers of one and two bytes.\<close>

definition readReferenceTime :: "byte list \<Rightarrow> gribExtent \<Rightarrow> gribError + ms" where
  "readReferenceTime bytes identification =
     andThen (getUint16 bytes (gxStart identification + 12)) (\<lambda>year.
     andThen (getUint8 bytes (gxStart identification + 14)) (\<lambda>month.
     andThen (getUint8 bytes (gxStart identification + 15)) (\<lambda>day.
     andThen (getUint8 bytes (gxStart identification + 16)) (\<lambda>hour.
     andThen (getUint8 bytes (gxStart identification + 17)) (\<lambda>minute.
     andThen (getUint8 bytes (gxStart identification + 18)) (\<lambda>second.
     Inr (makeUTC (int year) (int month - 1) (int day) (int hour) (int minute) (int second))))))))"

record gribGrid =
  ggPoints :: nat
  ggTemplate :: nat
  ggColumns :: nat
  ggRows :: nat
  ggFirstLatitude :: rat
  ggFirstLongitude :: rat
  ggLastLatitude :: rat
  ggLastLongitude :: rat
  ggLongitudeIncrement :: rat
  ggLatitudeIncrement :: rat
  ggScanningMode :: nat

definition readGrid :: "byte list \<Rightarrow> gribExtent \<Rightarrow> gribError + gribGrid" where
  "readGrid bytes grid =
     andThen (getUint32 bytes (gxStart grid + 6)) (\<lambda>points.
     andThen (getUint16 bytes (gxStart grid + 12)) (\<lambda>template.
     andThen (getUint32 bytes (gxStart grid + 30)) (\<lambda>columns.
     andThen (getUint32 bytes (gxStart grid + 34)) (\<lambda>rows.
     andThen (readSignedMicroDegrees bytes (gxStart grid + 46)) (\<lambda>firstLat.
     andThen (readSignedMicroDegrees bytes (gxStart grid + 50)) (\<lambda>firstLon.
     andThen (readSignedMicroDegrees bytes (gxStart grid + 55)) (\<lambda>lastLat.
     andThen (readSignedMicroDegrees bytes (gxStart grid + 59)) (\<lambda>lastLon.
     andThen (readSignedMicroDegrees bytes (gxStart grid + 63)) (\<lambda>lonIncrement.
     andThen (readSignedMicroDegrees bytes (gxStart grid + 67)) (\<lambda>latIncrement.
     andThen (getUint8 bytes (gxStart grid + 71)) (\<lambda>scanning.
     Inr \<lparr>ggPoints = points, ggTemplate = template, ggColumns = columns, ggRows = rows,
          ggFirstLatitude = firstLat, ggFirstLongitude = firstLon, ggLastLatitude = lastLat,
          ggLastLongitude = lastLon, ggLongitudeIncrement = lonIncrement, ggLatitudeIncrement = latIncrement,
          ggScanningMode = scanning\<rparr>)))))))))))"

definition readMessageProfile :: "byte list \<Rightarrow> gribLocation \<Rightarrow> gribError + gribProfile" where
  "readMessageProfile bytes location =
     andThen (getUint8 bytes (glOffset location + 6)) (\<lambda>discipline.
     andThen (getUint8 bytes (glOffset location + 7)) (\<lambda>edition.
     andThen (readSectionMap bytes location) (\<lambda>sections.
     andThen (requireSection sections 1 21) (\<lambda>identification.
     andThen (requireSection sections 3 72) (\<lambda>grid.
     andThen (requireSection sections 4 22) (\<lambda>product.
     andThen (requireSection sections 5 20) (\<lambda>representation.
     andThen (requireSection sections 6 6) (\<lambda>bitmap.
     andThen (readReferenceTime bytes identification) (\<lambda>referenceTime.
     andThen (readGrid bytes grid) (\<lambda>g.
     andThen (getUint16 bytes (gxStart product + 7)) (\<lambda>productTemplate.
     andThen (getUint8 bytes (gxStart product + 9)) (\<lambda>category.
     andThen (getUint8 bytes (gxStart product + 10)) (\<lambda>number.
     andThen (getUint8 bytes (gxStart product + 17)) (\<lambda>timeRangeUnit.
     andThen (getUint32 bytes (gxStart product + 18)) (\<lambda>forecastTime.
     andThen (require (timeRangeUnit = 1) (Ecmwf_contract ''time-range unit'')) (\<lambda>_.
     andThen (getUint32 bytes (gxStart representation + 5)) (\<lambda>encoded.
     andThen (getUint16 bytes (gxStart representation + 9)) (\<lambda>dataTemplate.
     andThen (getUint8 bytes (gxStart representation + 19)) (\<lambda>bits.
     andThen (getUint8 bytes (gxStart bitmap + 5)) (\<lambda>indicator.
     andThen (require (indicator = 0 \<or> indicator = 255) (Ecmwf_contract ''bitmap indicator'')) (\<lambda>_.
     andThen (if indicator = 0 then andThen (countBitmapBits bytes bitmap (ggPoints g)) (\<lambda>n. Inr (Some n))
              else Inr None) (\<lambda>setBits.
     let validTime = referenceTime + int forecastTime * 3600000 in
     Inr \<lparr>gpOffset = glOffset location, gpLength = glLength location, gpEdition = edition,
          gpDiscipline = discipline, gpParameterCategory = category, gpParameterNumber = number,
          gpGridDefinitionTemplate = ggTemplate g, gpProductDefinitionTemplate = productTemplate,
          gpDataRepresentationTemplate = dataTemplate, gpBitsPerValue = bits,
          gpNumberOfDataPoints = ggPoints g, gpColumns = ggColumns g, gpRows = ggRows g,
          gpFirstLatitude = ggFirstLatitude g, gpFirstLongitude = ggFirstLongitude g,
          gpLastLatitude = ggLastLatitude g, gpLastLongitude = ggLastLongitude g,
          gpLatitudeIncrement = ggLatitudeIncrement g, gpLongitudeIncrement = ggLongitudeIncrement g,
          gpScanningMode = ggScanningMode g, gpNumberOfEncodedValues = encoded,
          gpBitmapPresent = (indicator = 0), gpBitmapSetBits = setBits,
          gpReferenceTimeUtc = referenceTime, gpForecastHours = forecastTime,
          gpValidTimeUtc = (if \<bar>validTime\<bar> \<le> MAX_TIME_MS then Some validTime else None)\<rparr>))))))))))))))))))))))"

section \<open>Scanning is cutting\<close>

text \<open>A message of edition 2: its magic, a 64-bit length below 4 GiB that is its own, and its terminator.\<close>

definition wellFormedMessage :: "byte list \<Rightarrow> bool" where
  "wellFormedMessage m \<longleftrightarrow>
     20 \<le> length m \<and> be_nat (take 4 m) = GRIB_MAGIC \<and> be_nat (take 1 (drop 7 m)) = 2
     \<and> be_nat (take 4 (drop 8 m)) = 0 \<and> be_nat (take 4 (drop 12 m)) = length m
     \<and> be_nat (drop (length m - 4) m) = GRIB_TERMINATOR"

definition gribSlice :: "byte list \<Rightarrow> gribLocation \<Rightarrow> byte list" where
  "gribSlice bytes l = take (glLength l) (drop (glOffset l) bytes)"

lemma slice_part:
  "i + n \<le> len \<Longrightarrow> take n (drop i (take len (drop pos bytes))) = take n (drop (pos + i) bytes)"
  by (simp add: drop_take take_take add.commute)

lemma getUint_Inr [simp]: "getUint n bytes i = Inr v \<longleftrightarrow> i + n \<le> length bytes \<and> v = be_nat (take n (drop i bytes))"
  by (simp add: getUint_def view_be_Some)

lemma messageAt_iff:
  "messageAt bytes pos = Inr len \<longleftrightarrow> pos + len \<le> length bytes \<and> length (take len (drop pos bytes)) = len
     \<and> wellFormedMessage (take len (drop pos bytes))"
proof -
  let ?m = "take len (drop pos bytes)"
  have "wellFormedMessage ?m \<longleftrightarrow>
      20 \<le> len \<and> be_nat (take 4 (drop pos bytes)) = GRIB_MAGIC \<and> be_nat (take 1 (drop (pos + 7) bytes)) = 2
      \<and> be_nat (take 4 (drop (pos + 8) bytes)) = 0 \<and> be_nat (take 4 (drop (pos + 12) bytes)) = len
      \<and> be_nat (take 4 (drop (pos + len - 4) bytes)) = GRIB_TERMINATOR" if le: "pos + len \<le> length bytes"
  proof (cases "20 \<le> len")
    case True
    have m: "length ?m = len" using le by simp
    have "drop (length ?m - 4) ?m = take 4 (drop (len - 4) ?m)" unfolding m using m True by simp
    also have "\<dots> = take 4 (drop (pos + len - 4) bytes)"
      using slice_part [of "len - 4" 4 len pos bytes] True by simp
    finally have "drop (length ?m - 4) ?m = take 4 (drop (pos + len - 4) bytes)" .
    then show ?thesis
      using True le slice_part [of 0 4 len pos bytes] slice_part [of 7 1 len pos bytes] slice_part [of 8 4 len pos bytes]
        slice_part [of 12 4 len pos bytes] by (simp add: wellFormedMessage_def m)
  qed (use le in \<open>simp add: wellFormedMessage_def min_def\<close>)
  then show ?thesis
    by (auto simp: messageAt_def andThen_eq_Inr SECTION_0_LENGTH_def)
qed

lemma scanFrom_cuts:
  "scanFrom bytes pos = Inr ls \<Longrightarrow> pos \<le> length bytes \<Longrightarrow>
     concat (map (gribSlice bytes) ls) = drop pos bytes \<and> list_all wellFormedMessage (map (gribSlice bytes) ls)"
proof (induction bytes pos arbitrary: ls rule: scanFrom.induct)
  case (1 bytes pos)
  show ?case
  proof (cases "length bytes \<le> pos")
    case True
    then show ?thesis using "1.prems" by (simp add: scanFrom.simps)
  next
    case False
    obtain len rest where m: "messageAt bytes pos = Inr len" "scanFrom bytes (pos + len) = Inr rest"
        and ls: "ls = \<lparr>glOffset = pos, glLength = len\<rparr> # rest"
      using "1.prems"(1) False by (auto simp: scanFrom.simps [of bytes pos] andThen_eq_Inr)
    note len = m(1) [unfolded messageAt_iff]
    note ih = "1.IH" [OF False m(1) m(2)]
    have "take len (drop pos bytes) @ drop (pos + len) bytes = drop pos bytes"
      by (metis append_take_drop_id drop_drop add.commute)
    then show ?thesis using ih len ls by (simp add: gribSlice_def)
  qed
qed

lemma scanFrom_finds:
  "list_all wellFormedMessage ms \<Longrightarrow>
     \<exists>ls. scanFrom (p @ concat ms) (length p) = Inr ls \<and> map (gribSlice (p @ concat ms)) ls = ms"
proof (induction ms arbitrary: p)
  case Nil
  then show ?case by (simp add: scanFrom.simps)
next
  case (Cons m ms)
  have "20 \<le> length m" using Cons.prems by (simp add: wellFormedMessage_def)
  moreover have "messageAt (p @ concat (m # ms)) (length p) = Inr (length m)"
    using Cons.prems by (simp add: messageAt_iff)
  moreover obtain ls where ls: "scanFrom ((p @ m) @ concat ms) (length (p @ m)) = Inr ls"
      "map (gribSlice ((p @ m) @ concat ms)) ls = ms"
    using Cons.IH [of "p @ m"] Cons.prems by auto
  ultimately have "scanFrom (p @ concat (m # ms)) (length p) = Inr (\<lparr>glOffset = length p, glLength = length m\<rparr> # ls)"
    unfolding scanFrom.simps [of _ "length p"] by fastforce
  moreover have "gribSlice (p @ concat (m # ms)) \<lparr>glOffset = length p, glLength = length m\<rparr> = m"
    by (simp add: gribSlice_def)
  moreover have "map (gribSlice (p @ concat (m # ms))) ls = ms" using ls(2) by simp
  ultimately show ?case by (intro exI [of _ "\<lparr>glOffset = length p, glLength = length m\<rparr> # ls"]) simp
qed

text \<open>
  C39: The scan cuts a buffer into messages exactly when it is some: what it finds, in order, are
  well-formed messages that make up the whole buffer, and any such concatenation is found again.
\<close>

theorem scan_finds_messages:
  "(\<exists>ls. scanGribMessages bytes = Inr ls \<and> map (gribSlice bytes) ls = ms)
     \<longleftrightarrow> ms \<noteq> [] \<and> concat ms = bytes \<and> list_all wellFormedMessage ms"
proof
  assume "\<exists>ls. scanGribMessages bytes = Inr ls \<and> map (gribSlice bytes) ls = ms"
  then obtain ls where "scanFrom bytes 0 = Inr ls" "ls \<noteq> []" and ms: "ms = map (gribSlice bytes) ls"
    by (auto simp: scanGribMessages_def andThen_eq_Inr split: if_splits)
  then show "ms \<noteq> [] \<and> concat ms = bytes \<and> list_all wellFormedMessage ms" using scanFrom_cuts [of bytes 0 ls] by simp
next
  assume ms: "ms \<noteq> [] \<and> concat ms = bytes \<and> list_all wellFormedMessage ms"
  then obtain ls where "scanFrom bytes 0 = Inr ls" "map (gribSlice bytes) ls = ms"
    using scanFrom_finds [of ms "[]"] by auto
  then show "\<exists>ls. scanGribMessages bytes = Inr ls \<and> map (gribSlice bytes) ls = ms"
    using ms by (intro exI [of _ ls]) (auto simp: scanGribMessages_def)
qed

section \<open>No read past the end\<close>

definition inBounds :: "gribError + 'a \<Rightarrow> bool" where
  "inBounds m \<longleftrightarrow> m \<noteq> Inl Range_error"

lemma inBounds_andThen [intro]: "inBounds m \<Longrightarrow> (\<And>x. m = Inr x \<Longrightarrow> inBounds (f x)) \<Longrightarrow> inBounds (andThen m f)"
  by (cases m) (auto simp: inBounds_def)

lemma inBounds_simps [simp]: "inBounds (Inr x)" "inBounds (Inl (Ecmwf_contract s))"
  "inBounds (require b (Ecmwf_contract s))" "inBounds (orThrow v (Ecmwf_contract s))"
  by (auto simp: inBounds_def require_def orThrow_def split: option.split)

lemma inBounds_getUint: "i + n \<le> length bytes \<Longrightarrow> inBounds (getUint n bytes i)"
  by (auto simp: inBounds_def getUint_def orThrow_def view_be_def)

lemma inBounds_micro: "i + 4 \<le> length bytes \<Longrightarrow> inBounds (readSignedMicroDegrees bytes i)"
  unfolding readSignedMicroDegrees_def by (intro inBounds_andThen inBounds_getUint) (simp_all add: Let_def)

lemma messageAt_inBounds: "inBounds (messageAt bytes pos)"
  unfolding messageAt_def
  by (auto intro!: inBounds_andThen inBounds_getUint simp: SECTION_0_LENGTH_def)

lemma scanFrom_inBounds: "inBounds (scanFrom bytes pos)"
proof (induction bytes pos rule: scanFrom.induct)
  case (1 bytes pos)
  then show ?case
    unfolding scanFrom.simps [of bytes pos] by (auto intro!: inBounds_andThen messageAt_inBounds)
qed

lemma sectionsFrom_inBounds:
  "stop \<le> length bytes \<Longrightarrow> inBounds (sectionsFrom bytes stop pos sections)"
proof (induction bytes stop pos sections rule: sectionsFrom.induct)
  case (1 bytes stop pos sections)
  show ?case
  proof (cases "stop \<le> pos \<or> stop - pos < 5")
    case True
    then show ?thesis unfolding sectionsFrom.simps [of bytes stop pos] by auto
  next
    case False
    then show ?thesis
      using "1.prems" unfolding sectionsFrom.simps [of bytes stop pos]
      by (auto intro!: inBounds_andThen inBounds_getUint "1.IH")
  qed
qed

lemma sectionsFrom_extents:
  "sectionsFrom bytes stop pos sections = Inr out \<Longrightarrow>
   (\<And>k x. js_get sections k = Some x \<Longrightarrow> gxStart x + gxLength x \<le> stop) \<Longrightarrow>
   js_get out k = Some x \<Longrightarrow> gxStart x + gxLength x \<le> stop"
proof (induction bytes stop pos sections arbitrary: k x rule: sectionsFrom.induct)
  case (1 bytes stop pos sections)
  show ?case
  proof (cases "stop \<le> pos \<or> stop - pos < 5")
    case True
    then show ?thesis using "1.prems" by (simp add: sectionsFrom.simps [of bytes stop pos] split: if_splits)
  next
    case False
    then obtain len n where step: "getUint32 bytes pos = Inr len" "getUint8 bytes (pos + 4) = Inr n"
        "\<not> (len < 5 \<or> stop < pos + len)" "\<not> js_get sections n \<noteq> None"
        "sectionsFrom bytes stop (pos + len) (js_set n \<lparr>gxStart = pos, gxLength = len\<rparr> sections) = Inr out"
      using "1.prems"(1) unfolding sectionsFrom.simps [of bytes stop pos]
      by (auto simp: andThen_eq_Inr split: if_splits simp del: getUint_Inr One_nat_def)
    show ?thesis
      using False by (intro "1.IH" [OF _ _ step(1-4) step(5) _ "1.prems"(3)]) (use "1.prems"(2) step(3) in \<open>auto split: if_splits\<close>)
  qed
qed

lemma requireSection_Inr:
  "requireSection sections n least = Inr x \<longleftrightarrow> js_get sections n = Some x \<and> least \<le> gxLength x"
  by (cases "js_get sections n") (auto simp: requireSection_def)

lemma requireSection_inBounds: "inBounds (requireSection sections n least)"
  unfolding requireSection_def by (auto intro!: inBounds_andThen)

lemma inBounds_readReferenceTime: "gxStart x + 19 \<le> length bytes \<Longrightarrow> inBounds (readReferenceTime bytes x)"
  unfolding readReferenceTime_def by (intro inBounds_andThen inBounds_getUint) simp_all

lemma inBounds_readGrid: "gxStart x + 72 \<le> length bytes \<Longrightarrow> inBounds (readGrid bytes x)"
  unfolding readGrid_def by (intro inBounds_andThen inBounds_getUint inBounds_micro) simp_all

lemma inBounds_countBitmapBits: "inBounds (countBitmapBits bytes x n)"
  by (simp add: countBitmapBits_def Let_def)

lemma inBounds_if: "inBounds a \<Longrightarrow> inBounds b \<Longrightarrow> inBounds (if c then a else b)"
  by simp

lemma profile_inBounds:
  assumes "glOffset l + glLength l \<le> length bytes" and "20 \<le> glLength l"
  shows "inBounds (readMessageProfile bytes l)"
proof -
  let ?stop = "glOffset l + glLength l - 4"
  have inside: "gxStart x + least \<le> length bytes"
    if "readSectionMap bytes l = Inr sections" "requireSection sections n least = Inr x" for sections n least x
  proof -
    have "gxStart x + gxLength x \<le> ?stop"
      using that sectionsFrom_extents [of bytes ?stop _ "[]" sections n x]
      by (simp add: readSectionMap_def requireSection_Inr)
    moreover have "least \<le> gxLength x" using that(2) by (simp add: requireSection_Inr)
    ultimately show ?thesis using assms by linarith
  qed
  have map_ok: "inBounds (readSectionMap bytes l)"
    unfolding readSectionMap_def by (rule sectionsFrom_inBounds) (use assms in simp)
  show ?thesis
    unfolding readMessageProfile_def
    by (intro inBounds_andThen inBounds_if inBounds_getUint map_ok requireSection_inBounds inBounds_readReferenceTime
        inBounds_readGrid inBounds_countBitmapBits)
      (use assms in \<open>(fastforce simp: Let_def dest: inside simp del: getUint_Inr)+\<close>)
qed

lemma scanFrom_located:
  "scanFrom bytes pos = Inr ls \<Longrightarrow> l \<in> set ls \<Longrightarrow> glOffset l + glLength l \<le> length bytes \<and> 20 \<le> glLength l"
proof (induction bytes pos arbitrary: ls rule: scanFrom.induct)
  case (1 bytes pos)
  show ?case
  proof (cases "length bytes \<le> pos")
    case True
    then show ?thesis using "1.prems" by (simp add: scanFrom.simps [of bytes pos])
  next
    case False
    obtain len rest where m: "messageAt bytes pos = Inr len" "scanFrom bytes (pos + len) = Inr rest"
        and ls: "ls = \<lparr>glOffset = pos, glLength = len\<rparr> # rest"
      using "1.prems"(1) False by (auto simp: scanFrom.simps [of bytes pos] andThen_eq_Inr)
    show ?thesis using "1.prems"(2) ls messageAt_length [OF m(1)] "1.IH" [OF False m(1) m(2)] by auto
  qed
qed

text \<open>
  No byte is read past the end of a buffer, whatever its bytes are: the scan never throws a
  \<open>RangeError\<close>, and neither does reading the header of a message it found, because every section
  is required to hold the fields that are read from it.
\<close>

theorem grib_reads_stay_inside:
  "scanGribMessages bytes \<noteq> Inl Range_error
   \<and> (\<forall>ls l. scanGribMessages bytes = Inr ls \<and> l \<in> set ls \<longrightarrow> readMessageProfile bytes l \<noteq> Inl Range_error)"
proof -
  have "inBounds (scanGribMessages bytes)"
    unfolding scanGribMessages_def by (auto intro!: inBounds_andThen scanFrom_inBounds)
  moreover have "inBounds (readMessageProfile bytes l)" if "scanGribMessages bytes = Inr ls" "l \<in> set ls" for ls l
    using that scanFrom_located [of bytes 0 ls l]
    by (intro profile_inBounds) (auto simp: scanGribMessages_def andThen_eq_Inr split: if_splits)
  ultimately show ?thesis by (auto simp: inBounds_def)
qed

text \<open>A message with no section, and with only an end.\<close>

definition emptyMessage :: "byte list" where
  "emptyMessage = nat_be 4 GRIB_MAGIC @ [0, 0, 0, 2] @ nat_be 4 0 @ nat_be 4 20 @ nat_be 4 GRIB_TERMINATOR"

lemma grib_reads_stay_inside_witness:
  "scanGribMessages (emptyMessage @ emptyMessage) = Inr [\<lparr>glOffset = 0, glLength = 20\<rparr>, \<lparr>glOffset = 20, glLength = 20\<rparr>]
   \<and> readMessageProfile (emptyMessage @ emptyMessage) \<lparr>glOffset = 20, glLength = 20\<rparr> \<noteq> Inl Range_error"
proof -
  let ?bytes = "emptyMessage @ emptyMessage"
  have len: "length emptyMessage = 20" by (simp add: emptyMessage_def)
  have "wellFormedMessage emptyMessage"
    by (simp add: wellFormedMessage_def emptyMessage_def len [unfolded emptyMessage_def] be_nat_nat_be GRIB_MAGIC_def
        GRIB_TERMINATOR_def be_nat_def [of "[2]"] del: nat_be.simps)
  then have "messageAt ?bytes 0 = Inr 20" "messageAt ?bytes 20 = Inr 20" "length ?bytes = 40"
    by (simp_all add: messageAt_iff len)
  then have "scanGribMessages ?bytes = Inr [\<lparr>glOffset = 0, glLength = 20\<rparr>, \<lparr>glOffset = 20, glLength = 20\<rparr>]"
    by (simp add: scanGribMessages_def scanFrom.simps [of _ 0] scanFrom.simps [of _ 20] scanFrom.simps [of _ 40])
  then show ?thesis using grib_reads_stay_inside [of "emptyMessage @ emptyMessage"] by simp
qed

section \<open>The bitmap\<close>

text \<open>The bitmap marks point \<open>k\<close> in the bits of its bytes, the top bit first.\<close>

definition marked :: "byte list \<Rightarrow> nat \<Rightarrow> nat \<Rightarrow> bool" where
  "marked bytes dataStart k \<longleftrightarrow> bit (byteAt bytes (dataStart + k div 8)) (7 - k mod 8)"

lemma popCount_bits: "popCount b = length (filter (bit b) [0 ..< 8])"
proof -
  have "b AND push_bit i 1 \<noteq> 0 \<longleftrightarrow> bit b i" if "i < 8" for i :: nat
    by (rule bit_iff_and_push_bit_not_eq_0 [symmetric])
  then show ?thesis unfolding popCount_def by (intro arg_cong [of _ _ length] filter_cong) auto
qed

lemma small_upts:
  "[0 ..< 2] = [0, 1 :: nat]" "[0 ..< 3] = [0, 1, 2 :: nat]" "[0 ..< 4] = [0, 1, 2, 3 :: nat]"
  "[0 ..< 5] = [0, 1, 2, 3, 4 :: nat]" "[0 ..< 6] = [0, 1, 2, 3, 4, 5 :: nat]"
  "[0 ..< 7] = [0, 1, 2, 3, 4, 5, 6 :: nat]" "[0 ..< 8] = [0, 1, 2, 3, 4, 5, 6, 7 :: nat]"
  by code_simp+

lemma length_filter_sum: "length (filter P xs) = (\<Sum>x \<leftarrow> xs. of_bool (P x))"
  by (induction xs) auto

lemma popCount_top: "popCount b = length (filter (\<lambda>j. bit b (7 - j)) [0 ..< 8])"
  by (simp add: popCount_bits length_filter_sum small_upts)

lemma bit_top_mask: "i < 8 \<Longrightarrow> bit (push_bit n 0xFF :: byte) i \<longleftrightarrow> n \<le> i"
proof -
  have "bit (0xFF :: byte) j" if "j < 8" for j
  proof -
    have "j \<in> {0, 1, 2, 3, 4, 5, 6, 7}" using that by auto
    then show ?thesis by (elim insertE) simp_all
  qed
  then show "i < 8 \<Longrightarrow> bit (push_bit n 0xFF :: byte) i \<longleftrightarrow> n \<le> i" by (auto simp: bit_push_bit_iff)
qed

lemma filter_rev_upt:
  assumes "r < 8"
  shows "length (filter (\<lambda>i. P i \<and> 8 - r \<le> i) [0 ..< 8]) = length (filter (\<lambda>j. P (7 - j) \<and> j < r) [0 ..< 8 :: nat])"
proof -
  have "[0 ..< 8] = rev (map (\<lambda>j. 7 - j) [0 ..< 8 :: nat])" by (simp add: small_upts)
  then have "length (filter (\<lambda>i. P i \<and> 8 - r \<le> i) [0 ..< 8])
      = length (filter (\<lambda>i. P i \<and> 8 - r \<le> i) (rev (map (\<lambda>j. 7 - j) [0 ..< 8])))" by (simp only:)
  also have "\<dots> = length (filter (\<lambda>j. P (7 - j) \<and> 8 - r \<le> 7 - j) [0 ..< 8])"
    by (simp add: filter_map comp_def rev_filter [symmetric] del: rev_map)
  also have "filter (\<lambda>j. P (7 - j) \<and> 8 - r \<le> 7 - j) [0 ..< 8] = filter (\<lambda>j. P (7 - j) \<and> j < r) [0 ..< 8]"
    using assms by (intro filter_cong) auto
  finally show ?thesis .
qed

lemma popCount_masked:
  assumes "r < 8" shows "popCount (b AND push_bit (8 - r) 0xFF) = length (filter (\<lambda>j. bit b (7 - j)) [0 ..< r])"
proof -
  have "popCount (b AND push_bit (8 - r) 0xFF) = length (filter (\<lambda>i. bit b i \<and> 8 - r \<le> i) [0 ..< 8])"
    unfolding popCount_bits by (intro arg_cong [of _ _ length] filter_cong) (simp_all add: bit_and_iff bit_top_mask)
  also have "\<dots> = length (filter (\<lambda>j. bit b (7 - j) \<and> j < r) [0 ..< 8])" by (rule filter_rev_upt [OF assms])
  also have "[0 ..< 8] = [0 ..< r] @ [r ..< 8]" using upt_add_eq_append [of 0 r "8 - r"] assms by simp
  also have "length (filter (\<lambda>j. bit b (7 - j) \<and> j < r) ([0 ..< r] @ [r ..< 8])) = length (filter (\<lambda>j. bit b (7 - j)) [0 ..< r])"
  proof -
    have "filter (\<lambda>j. bit b (7 - j) \<and> j < r) [0 ..< r] = filter (\<lambda>j. bit b (7 - j)) [0 ..< r]"
      by (rule filter_cong) auto
    then show ?thesis by (simp add: filter_empty_conv)
  qed
  finally show ?thesis .
qed

lemma filter_blocks:
  "length (filter P [0 ..< w * 8 + r]) =
     sum_list (map (\<lambda>i. length (filter (\<lambda>j. P (i * 8 + j)) [0 ..< 8])) [0 ..< w])
     + length (filter (\<lambda>j. P (w * 8 + j)) [0 ..< r])"
proof -
  have shift: "length (filter P [a ..< a + r]) = length (filter (\<lambda>j. P (a + j)) [0 ..< r])" for a r
  proof -
    have "[a ..< a + r] = map (\<lambda>j. a + j) [0 ..< r]" by (simp add: map_add_upt add.commute)
    then show ?thesis by (simp add: filter_map comp_def)
  qed
  have "length (filter P [0 ..< w * 8]) = sum_list (map (\<lambda>i. length (filter (\<lambda>j. P (i * 8 + j)) [0 ..< 8])) [0 ..< w])"
  proof (induction w)
    case (Suc w)
    have "[0 ..< Suc w * 8] = [0 ..< w * 8] @ [w * 8 ..< w * 8 + 8]"
      using upt_add_eq_append [of 0 "w * 8" 8] by (simp add: add.commute)
    then show ?case using Suc shift [of "w * 8" 8] by simp
  qed simp
  moreover have "[0 ..< w * 8 + r] = [0 ..< w * 8] @ [w * 8 ..< w * 8 + r]" using upt_add_eq_append [of 0 "w * 8" r] by simp
  ultimately show ?thesis using shift [of "w * 8" r] by simp
qed

text \<open>
  The table-driven count is the number of points the bitmap marks: the bits past the last point,
  in the rest of its byte, are not counted, and a bitmap shorter than the grid is refused.
\<close>

theorem bitmap_count_exact:
  "countBitmapBits bytes bitmap n =
     (if gxLength bitmap < 6 + n div 8 + (if n mod 8 = 0 then 0 else 1) \<and> 0 < n
      then Inl (Ecmwf_contract ''short bitmap'')
      else Inr (length (filter (marked bytes (gxStart bitmap + 6)) [0 ..< n])))"
proof -
  let ?start = "gxStart bitmap + 6"
  have need: "gxLength bitmap - 6 < (n + 7) div 8 \<longleftrightarrow> gxLength bitmap < 6 + n div 8 + (if n mod 8 = 0 then 0 else 1) \<and> 0 < n"
  proof -
    have "(n + 7) div 8 = n div 8 + (if n mod 8 = 0 then 0 else 1)" by presburger
    then show ?thesis by auto
  qed
  have byte: "length (filter (\<lambda>j. marked bytes ?start (i * 8 + j)) [0 ..< r]) =
      length (filter (\<lambda>j. bit (byteAt bytes (?start + i)) (7 - j)) [0 ..< r])" if "r \<le> 8" for i r
    using that by (intro arg_cong [of _ _ length] filter_cong) (auto simp: marked_def)
  have rest: "n - n div 8 * 8 = n mod 8" by (simp add: minus_div_mult_eq_mod)
  have "length (filter (marked bytes ?start) [0 ..< n]) =
      sum_list (map (\<lambda>i. length (filter (\<lambda>j. marked bytes ?start (i * 8 + j)) [0 ..< 8])) [0 ..< n div 8])
      + length (filter (\<lambda>j. marked bytes ?start (n div 8 * 8 + j)) [0 ..< n mod 8])"
    using filter_blocks [of "marked bytes ?start" "n div 8" "n mod 8"] by (simp only: div_mult_mod_eq)
  also have "\<dots> = sum_list (map (\<lambda>i. popCount (byteAt bytes (?start + i))) [0 ..< n div 8])
      + (if 0 < n mod 8 then popCount (byteAt bytes (?start + n div 8) AND push_bit (8 - n mod 8) 0xFF) else 0)"
    using byte [of 8] byte [of "n mod 8" "n div 8"] popCount_masked [of "n mod 8"] by (simp add: popCount_top)
  finally show ?thesis
    unfolding countBitmapBits_def Let_def need rest by simp
qed

end
