(* ===== verification/Ecmwf_Index.thy ===== *)
theory Ecmwf_Index
  imports Grib2_Envelope "HOL-Library.Multiset"
begin

text \<open>
  \<open>src/marine/ecmwf/ecmwf-index.ts\<close> with the vocabulary of \<open>ecmwf.constants.ts\<close>: the \<open>.index\<close> file
  of one step and stream, the records of the fields the ingest wants, and the byte ranges they are
  downloaded in. \<open>JSON.parse\<close> is a parameter.
\<close>

section \<open>Vocabulary\<close>

datatype ecmwfParam = U10 | V10 | Swh | Mwd

definition ECMWF_PARAMS :: "ecmwfParam list" where "ECMWF_PARAMS = [U10, V10, Swh, Mwd]"

fun paramText :: "ecmwfParam \<Rightarrow> jsText" where
  "paramText U10 = ascii ''10u''"
| "paramText V10 = ascii ''10v''"
| "paramText Swh = ascii ''swh''"
| "paramText Mwd = ascii ''mwd''"

lemma paramText_inject [simp]: "paramText p = paramText q \<longleftrightarrow> p = q"
  by (cases p; cases q) (simp_all add: ascii_def)

datatype ecmwfStream = Oper | Wave

fun streamText :: "ecmwfStream \<Rightarrow> jsText" where
  "streamText Oper = ascii ''oper''"
| "streamText Wave = ascii ''wave''"

text \<open>Discipline, category and number of a field.\<close>

fun ECMWF_PARAM_IDENTIFICATION :: "ecmwfParam \<Rightarrow> nat \<times> nat \<times> nat" where
  "ECMWF_PARAM_IDENTIFICATION U10 = (0, 2, 2)"
| "ECMWF_PARAM_IDENTIFICATION V10 = (0, 2, 3)"
| "ECMWF_PARAM_IDENTIFICATION Swh = (10, 0, 3)"
| "ECMWF_PARAM_IDENTIFICATION Mwd = (10, 0, 14)"

definition ECMWF_GRID_STEP_DEGREES :: rat where "ECMWF_GRID_STEP_DEGREES = 1 / 4"
definition ECMWF_GRID_COLUMNS :: nat where "ECMWF_GRID_COLUMNS = 1440"
definition ECMWF_GRID_ROWS :: nat where "ECMWF_GRID_ROWS = 721"
definition ECMWF_GRID_FIRST_LATITUDE :: rat where "ECMWF_GRID_FIRST_LATITUDE = 90"
definition ECMWF_GRID_FIRST_LONGITUDE :: rat where "ECMWF_GRID_FIRST_LONGITUDE = 180"
definition ECMWF_GRID_SCANNING_MODE :: nat where "ECMWF_GRID_SCANNING_MODE = 0"
definition ECMWF_GRID_DEFINITION_TEMPLATE :: nat where "ECMWF_GRID_DEFINITION_TEMPLATE = 0"
definition ECMWF_PRODUCT_DEFINITION_TEMPLATE :: nat where "ECMWF_PRODUCT_DEFINITION_TEMPLATE = 0"
definition ECMWF_DATA_REPRESENTATION_TEMPLATE :: nat where "ECMWF_DATA_REPRESENTATION_TEMPLATE = 42"
definition ECMWF_STEP_HOURS :: nat where "ECMWF_STEP_HOURS = 3"
definition ECMWF_RETAINED_CYCLES :: nat where "ECMWF_RETAINED_CYCLES = 3"

section \<open>The index file\<close>

record ecmwfIndexRecord =
  ixParam :: jsText
  ixOffset :: nat
  ixLength :: nat
  ixDate :: jsText
  ixTime :: jsText
  ixStep :: jsText
  ixStream :: jsText
  ixLineNumber :: nat

definition requireIndexString :: "(jsText \<times> json) list \<Rightarrow> string \<Rightarrow> gribError + jsText" where
  "requireIndexString r key =
     (case readString r key of
        Some s \<Rightarrow> if s = [] then Inl (Ecmwf_contract ''no usable string'') else Inr s
      | None \<Rightarrow> Inl (Ecmwf_contract ''no usable string''))"

definition MAX_SAFE_INTEGER :: int where "MAX_SAFE_INTEGER = 2 ^ 53 - 1"

definition requireNonNegativeInteger :: "(jsText \<times> json) list \<Rightarrow> string \<Rightarrow> gribError + nat" where
  "requireNonNegativeInteger r key =
     (case jsonField r key of
        Some (JNumber x) \<Rightarrow>
          if x = of_int \<lfloor>x\<rfloor> \<and> \<lfloor>x\<rfloor> \<le> MAX_SAFE_INTEGER \<and> 0 \<le> \<lfloor>x\<rfloor> then Inr (nat \<lfloor>x\<rfloor>)
          else Inl (Ecmwf_contract ''no usable integer'')
      | _ \<Rightarrow> Inl (Ecmwf_contract ''no usable integer''))"

definition requirePositiveInteger :: "(jsText \<times> json) list \<Rightarrow> string \<Rightarrow> gribError + nat" where
  "requirePositiveInteger r key =
     andThen (requireNonNegativeInteger r key) (\<lambda>n. if n = 0 then Inl (Ecmwf_contract ''empty message'') else Inr n)"

definition parseIndexLine :: "(jsText \<Rightarrow> json option) \<Rightarrow> nat \<Rightarrow> jsText \<Rightarrow> gribError + ecmwfIndexRecord" where
  "parseIndexLine parseJson lineNumber line =
     andThen (orThrow (parseJson line) (Ecmwf_contract ''not JSON'')) (\<lambda>v.
     case v of
       JObject r \<Rightarrow>
         andThen (requireIndexString r ''param'') (\<lambda>param.
         andThen (requireNonNegativeInteger r ''_offset'') (\<lambda>offset.
         andThen (requirePositiveInteger r ''_length'') (\<lambda>len.
         andThen (requireIndexString r ''date'') (\<lambda>date.
         andThen (requireIndexString r ''time'') (\<lambda>time.
         andThen (requireIndexString r ''step'') (\<lambda>step.
         andThen (requireIndexString r ''stream'') (\<lambda>stream.
         Inr \<lparr>ixParam = param, ixOffset = offset, ixLength = len, ixDate = date, ixTime = time,
              ixStep = step, ixStream = stream, ixLineNumber = lineNumber\<rparr>)))))))
     | _ \<Rightarrow> Inl (Ecmwf_contract ''not an object''))"

definition parseEcmwfIndex :: "(jsText \<Rightarrow> json option) \<Rightarrow> jsText \<Rightarrow> gribError + ecmwfIndexRecord list" where
  "parseEcmwfIndex parseJson body =
     andThen (mapOrThrow (\<lambda>(n, line). parseIndexLine parseJson n line)
        (filter (\<lambda>(n, line). line \<noteq> []) (map (\<lambda>(n, raw). (n, trim raw)) (enumerate 1 (splitOn 10 body))))) (\<lambda>records.
     if records = [] then Inl (Ecmwf_contract ''no records'') else Inr records)"

section \<open>Choosing records\<close>

definition selectIndexRecords ::
  "ecmwfIndexRecord list \<Rightarrow> ecmwfParam list \<Rightarrow> gribError + ecmwfIndexRecord list" where
  "selectIndexRecords records params =
     mapOrThrow (\<lambda>p.
       case filter (\<lambda>r. ixParam r = paramText p) records of
         [] \<Rightarrow> Inl (Ecmwf_contract ''missing parameter'')
       | [r] \<Rightarrow> Inr r
       | _ \<Rightarrow> Inl (Ecmwf_contract ''ambiguous parameter'')) params"

record ecmwfIndexExpectation =
  xeDate :: jsText
  xeTime :: jsText
  xeStep :: jsText
  xeStream :: jsText

definition assertIndexRecordsMatchRequest ::
  "ecmwfIndexRecord list \<Rightarrow> ecmwfIndexExpectation \<Rightarrow> gribError + unit" where
  "assertIndexRecordsMatchRequest records expected =
     require (list_all (\<lambda>r. ixDate r = xeDate expected \<and> ixTime r = xeTime expected
                          \<and> ixStep r = xeStep expected \<and> ixStream r = xeStream expected) records)
       (Ecmwf_contract ''another run'')"

section \<open>Byte ranges\<close>

record ecmwfRangeMember =
  rmParam :: jsText
  rmRelativeOffset :: nat
  rmLength :: nat

record ecmwfByteRange =
  brStart :: nat
  brEndInclusive :: nat
  brLength :: nat
  brMembers :: "ecmwfRangeMember list"

definition endOf :: "ecmwfIndexRecord \<Rightarrow> nat" where
  "endOf r = ixOffset r + ixLength r"

definition flushRange :: "ecmwfIndexRecord list \<Rightarrow> ecmwfByteRange list" where
  "flushRange grp =
     (if grp = [] then []
      else let start = ixOffset (hd grp); endInclusive = endOf (last grp) - 1
           in [\<lparr>brStart = start, brEndInclusive = endInclusive, brLength = endInclusive - start + 1,
                brMembers = map (\<lambda>r. \<lparr>rmParam = ixParam r, rmRelativeOffset = ixOffset r - start,
                                      rmLength = ixLength r\<rparr>) grp\<rparr>])"

fun groupRanges :: "ecmwfIndexRecord list \<Rightarrow> ecmwfIndexRecord list \<Rightarrow> ecmwfByteRange list" where
  "groupRanges grp [] = flushRange grp"
| "groupRanges grp (r # rs) =
     (if grp \<noteq> [] \<and> endOf (last grp) \<noteq> ixOffset r
      then flushRange grp @ groupRanges [r] rs
      else groupRanges (grp @ [r]) rs)"

fun overlapping :: "ecmwfIndexRecord list \<Rightarrow> bool" where
  "overlapping (a # b # rs) \<longleftrightarrow> ixOffset b < endOf a \<or> overlapping (b # rs)"
| "overlapping _ \<longleftrightarrow> False"

definition mergeByteRanges :: "ecmwfIndexRecord list \<Rightarrow> gribError + ecmwfByteRange list" where
  "mergeByteRanges records =
     (if records = [] then Inl (Ecmwf_contract ''empty record set'')
      else let ordered = sort_key ixOffset records
           in if overlapping ordered then Inl (Ecmwf_contract ''records overlap'')
              else Inr (groupRanges [] ordered))"

fun decimal :: "nat \<Rightarrow> jsText" where
  "decimal n = (if n < 10 then [48 + int n] else decimal (n div 10) @ [48 + int (n mod 10)])"

definition toRangeHeader :: "ecmwfByteRange \<Rightarrow> jsText" where
  "toRangeHeader r = ascii ''bytes='' @ decimal (brStart r) @ [45] @ decimal (brEndInclusive r)"

section \<open>What a plan covers\<close>

declare decimal.simps [simp del]

text \<open>Records one right behind the other from an offset.\<close>

fun chained :: "nat \<Rightarrow> ecmwfIndexRecord list \<Rightarrow> bool" where
  "chained start [] \<longleftrightarrow> True"
| "chained start (r # rs) \<longleftrightarrow> ixOffset r = start \<and> chained (endOf r) rs"

fun fromOffset :: "nat \<Rightarrow> ecmwfRangeMember list \<Rightarrow> bool" where
  "fromOffset start [] \<longleftrightarrow> True"
| "fromOffset start (m # ms) \<longleftrightarrow> rmRelativeOffset m = start \<and> fromOffset (start + rmLength m) ms"

text \<open>A member as the field it is: its parameter and its place in the file.\<close>

definition placed :: "ecmwfByteRange \<Rightarrow> (jsText \<times> nat \<times> nat) list" where
  "placed r = map (\<lambda>m. (rmParam m, brStart r + rmRelativeOffset m, rmLength m)) (brMembers r)"

definition rangeOk :: "ecmwfByteRange \<Rightarrow> bool" where
  "rangeOk r \<longleftrightarrow> brMembers r \<noteq> [] \<and> fromOffset 0 (brMembers r)
     \<and> brLength r = sum_list (map rmLength (brMembers r)) \<and> brEndInclusive r + 1 = brStart r + brLength r"

definition fieldOf :: "ecmwfIndexRecord \<Rightarrow> jsText \<times> nat \<times> nat" where
  "fieldOf r = (ixParam r, ixOffset r, ixLength r)"

lemma chained_snoc: "chained start (g @ [r]) \<longleftrightarrow> chained start g \<and> ixOffset r = (if g = [] then start else endOf (last g))"
  by (induction g arbitrary: start) auto

lemma chained_ends: "chained start g \<Longrightarrow> g \<noteq> [] \<Longrightarrow> endOf (last g) = start + sum_list (map ixLength g)"
  by (induction g arbitrary: start) (auto simp: endOf_def)

lemma chained_members:
  "chained (base + start) g \<Longrightarrow> fromOffset start (map (\<lambda>r. \<lparr>rmParam = ixParam r, rmRelativeOffset = ixOffset r - base,
      rmLength = ixLength r\<rparr>) g) \<and> list_all (\<lambda>r. base \<le> ixOffset r) g"
proof (induction g arbitrary: start)
  case (Cons r g)
  then have "chained (base + (start + ixLength r)) g" by (auto simp: endOf_def add.assoc)
  from Cons.IH [OF this] Cons.prems show ?case by simp
qed simp

lemma flushRange_ok:
  assumes "g \<noteq> []" and "chained (ixOffset (hd g)) g" and "list_all (\<lambda>r. 0 < ixLength r) g"
  obtains x where "flushRange g = [x]" "rangeOk x" "placed x = map fieldOf g" "brStart x = ixOffset (hd g)"
    "brEndInclusive x + 1 = endOf (last g)"
proof -
  let ?start = "ixOffset (hd g)"
  have ends: "endOf (last g) = ?start + sum_list (map ixLength g)" using chained_ends assms(1,2) by blast
  have pos: "0 < sum_list (map ixLength g)" using assms(1,3) by (cases g) auto
  have mem: "fromOffset 0 (map (\<lambda>r. \<lparr>rmParam = ixParam r, rmRelativeOffset = ixOffset r - ?start, rmLength = ixLength r\<rparr>) g)"
    and ge: "list_all (\<lambda>r. ?start \<le> ixOffset r) g"
    using chained_members [of ?start 0 g] assms(2) by simp_all
  obtain x where flush: "flushRange g = [x]" using assms(1) by (simp add: flushRange_def Let_def)
  then have x: "brStart x = ?start" "brEndInclusive x = endOf (last g) - 1"
      "brLength x = endOf (last g) - 1 - ?start + 1"
      "brMembers x = map (\<lambda>r. \<lparr>rmParam = ixParam r, rmRelativeOffset = ixOffset r - ?start, rmLength = ixLength r\<rparr>) g"
    using assms(1) by (auto simp: flushRange_def Let_def)
  have "sum_list (map rmLength (brMembers x)) = sum_list (map ixLength g)" by (simp add: x(4) comp_def)
  then have "rangeOk x" unfolding rangeOk_def using x mem assms(1) ends pos by simp
  moreover have "placed x = map fieldOf g" using ge by (simp add: placed_def x fieldOf_def list_all_iff)
  moreover have "brEndInclusive x + 1 = endOf (last g)" using x(2) ends pos by simp
  ultimately show thesis by (rule that [OF flush _ _ x(1)])
qed

lemma overlapping_append: "overlapping (a # rs) \<longleftrightarrow> (rs \<noteq> [] \<and> ixOffset (hd rs) < endOf a) \<or> overlapping rs"
  by (cases rs) auto

lemma overlapping_snoc: "g \<noteq> [] \<Longrightarrow> overlapping (g @ r # rs) \<longleftrightarrow> overlapping g \<or> ixOffset r < endOf (last g) \<or> overlapping (r # rs)"
  by (induction g) (auto simp: overlapping_append hd_append)

lemma later_offsets:
  "\<not> overlapping (r # rs) \<Longrightarrow> \<forall>x \<in> set rs. endOf r \<le> ixOffset x"
  by (induction rs arbitrary: r) (force simp: endOf_def)+

lemma groupRanges_starts:
  assumes "x \<in> set (groupRanges g rs)" and "least \<le> ixOffset (hd (g @ rs))" and "\<not> overlapping (g @ rs)"
  shows "least \<le> brStart x"
  using assms
proof (induction g rs rule: groupRanges.induct)
  case (1 g)
  then show ?case by (auto simp: flushRange_def Let_def split: if_splits)
next
  case (2 g r rs)
  show ?case
  proof (cases "g \<noteq> [] \<and> endOf (last g) \<noteq> ixOffset r")
    case True
    have over: "\<not> overlapping (r # rs)" "\<not> ixOffset r < endOf (last g)" "\<not> overlapping g"
      using "2.prems"(3) True overlapping_snoc [of g r rs] by auto
    have "ixOffset (hd g) \<le> ixOffset (last g)"
    proof (cases "tl g = []")
      case False
      then have "last g \<in> set (tl g)" by (metis last_in_set last_tl)
      then show ?thesis using later_offsets [of "hd g" "tl g"] over(3) True by (auto simp: endOf_def)
    qed (use True in \<open>cases g; simp\<close>)
    then have "least \<le> ixOffset r" using True over(2) "2.prems"(2) by (simp add: endOf_def)
    then show ?thesis using "2.prems" "2.IH"(1) True over by (auto simp: flushRange_def Let_def split: if_splits)
  next
    case False
    then show ?thesis using "2.prems" "2.IH"(2) by (auto split: if_splits)
  qed
qed

lemma groupRanges_ok:
  assumes "g = [] \<or> chained (ixOffset (hd g)) g" and "list_all (\<lambda>r. 0 < ixLength r) (g @ rs)" and "\<not> overlapping (g @ rs)"
  shows "concat (map placed (groupRanges g rs)) = map fieldOf (g @ rs) \<and> list_all rangeOk (groupRanges g rs)
    \<and> sorted_wrt (\<lambda>a b. brEndInclusive a + 1 < brStart b) (groupRanges g rs)"
  using assms
proof (induction g rs rule: groupRanges.induct)
  case (1 g)
  show ?case
  proof (cases "g = []")
    case True
    then show ?thesis by (simp add: flushRange_def)
  next
    case False
    obtain x where "flushRange g = [x]" "rangeOk x" "placed x = map fieldOf g"
      by (rule flushRange_ok [of g]) (use 1 False in simp_all)
    then show ?thesis by simp
  qed
next
  case (2 g r rs)
  show ?case
  proof (cases "g \<noteq> [] \<and> endOf (last g) \<noteq> ixOffset r")
    case True
    have over: "\<not> overlapping (r # rs)" "\<not> ixOffset r < endOf (last g)"
      using "2.prems"(3) True overlapping_snoc [of g r rs] by auto
    obtain x where x: "flushRange g = [x]" "rangeOk x" "placed x = map fieldOf g" "brEndInclusive x + 1 = endOf (last g)"
      by (rule flushRange_ok [of g]) (use 2 True in simp_all)
    have "brEndInclusive x + 1 < brStart y" if "y \<in> set (groupRanges [r] rs)" for y
      using groupRanges_starts [of y "[r]" rs "ixOffset r"] that over x(4) True by simp
    then show ?thesis using "2.IH"(1) "2.prems" True over x by simp
  next
    case False
    then have "chained (ixOffset (hd (g @ [r]))) (g @ [r])" using "2.prems"(1) by (auto simp: chained_snoc hd_append)
    then show ?thesis using False "2.IH"(2) "2.prems" by (auto simp: hd_append)
  qed
qed

lemma placed_lengths: "rangeOk x \<Longrightarrow> brLength x = sum_list (map (\<lambda>(p, i, n). n) (placed x))"
  by (simp add: rangeOk_def placed_def comp_def)

text \<open>
  C20: A plan downloads exactly the wanted fields: its ranges, in ascending order with a gap between any
  two, hold every record once at the place the index gives it and no other byte, and within a range
  the members follow one another from its first byte to its last.
\<close>

theorem ranges_cover_exactly:
  assumes "mergeByteRanges records = Inr ranges" and "\<forall>r \<in> set records. 0 < ixLength r"
  shows "mset (concat (map placed ranges)) = mset (map fieldOf records) \<and> list_all rangeOk ranges
    \<and> sorted_wrt (\<lambda>a b. brEndInclusive a + 1 < brStart b) ranges
    \<and> sum_list (map brLength ranges) = sum_list (map ixLength records)"
proof -
  let ?ordered = "sort_key ixOffset records"
  have r: "ranges = groupRanges [] ?ordered" "\<not> overlapping ?ordered"
    using assms(1) by (auto simp: mergeByteRanges_def Let_def split: if_splits)
  have "list_all (\<lambda>r. 0 < ixLength r) ?ordered" using assms(2) by (simp add: list_all_iff)
  then have ok: "concat (map placed ranges) = map fieldOf ?ordered" "list_all rangeOk ranges"
      "sorted_wrt (\<lambda>a b. brEndInclusive a + 1 < brStart b) ranges"
    using groupRanges_ok [of "[]" ?ordered] r by simp_all
  have total: "list_all rangeOk xs \<Longrightarrow> sum_list (map brLength xs) = sum_list (map (\<lambda>(p, i, n). n) (concat (map placed xs)))" for xs
    by (induction xs) (simp_all add: placed_lengths)
  have "sum_list (map brLength ranges) = sum_list (map ixLength ?ordered)"
    by (simp add: total ok(1,2) comp_def fieldOf_def)
  also have "\<dots> = sum_mset (image_mset ixLength (mset ?ordered))" by (simp add: sum_mset_sum_list [symmetric] del: mset_sort)
  also have "\<dots> = sum_list (map ixLength records)" by (simp add: sum_mset_sum_list [symmetric])
  finally show ?thesis using ok by simp
qed

text \<open>Two fields side by side and one behind a gap, listed out of order.\<close>

definition exampleRecords :: "ecmwfIndexRecord list" where
  "exampleRecords =
     (let r = (\<lambda>p i n. \<lparr>ixParam = paramText p, ixOffset = i, ixLength = n, ixDate = [], ixTime = [], ixStep = [],
            ixStream = [], ixLineNumber = 1\<rparr>)
      in [r V10 30 10, r U10 0 20, r Swh 20 5])"

lemma ranges_cover_exactly_witness:
  "\<exists>ranges. mergeByteRanges exampleRecords = Inr ranges
     \<and> map brStart ranges = [0, 30] \<and> sum_list (map brLength ranges) = 35
     \<and> sorted_wrt (\<lambda>a b. brEndInclusive a + 1 < brStart b) ranges"
proof -
  have ordered: "sort_key ixOffset exampleRecords = [exampleRecords ! 1, exampleRecords ! 2, exampleRecords ! 0]"
    by (simp add: exampleRecords_def Let_def)
  obtain ranges where run: "mergeByteRanges exampleRecords = Inr ranges" "map brStart ranges = [0, 30]"
    unfolding mergeByteRanges_def ordered by (simp add: exampleRecords_def Let_def endOf_def flushRange_def)
  have "\<forall>r \<in> set exampleRecords. 0 < ixLength r" by (simp add: exampleRecords_def Let_def)
  from ranges_cover_exactly [OF run(1) this] run show ?thesis by (simp add: exampleRecords_def Let_def)
qed

end
