(* ===== verification/Grib_Decoder.thy ===== *)
theory Grib_Decoder
  imports Ecmwf_Index Js_Number
begin

text \<open>
  \<open>src/marine/ecmwf/grib/grib-decoder.adapter.ts\<close>: from the bytes of one range to the cells of the
  marine points. The decoding library is a parameter that gives what it says of the message at an
  offset, or throws; what the code does not trust it for is read from the header.
\<close>

record gribLibraryMessage =
  gmCols :: nat
  gmRows :: nat
  gmHasBitmap :: bool
  gmReferenceDate :: "ms option"
  gmForecastDate :: "ms option"
  gmData :: "jsNumber list"

type_synonym gribLibrary = "byte list \<Rightarrow> nat \<Rightarrow> gribLibraryMessage option"

record ecmwfAttribution =
  eaReferenceTimeUtc :: ms
  eaForecastHours :: nat

text \<open>Every deviation from the measured product is a problem, and one problem refuses the message.\<close>

definition assertSupportedProfile :: "gribProfile \<Rightarrow> ecmwfParam \<Rightarrow> ecmwfAttribution \<Rightarrow> gribError + unit" where
  "assertSupportedProfile p param expected =
     require
      (gpReferenceTimeUtc p = eaReferenceTimeUtc expected
       \<and> gpForecastHours p = eaForecastHours expected
       \<and> gpGridDefinitionTemplate p = ECMWF_GRID_DEFINITION_TEMPLATE
       \<and> gpProductDefinitionTemplate p = ECMWF_PRODUCT_DEFINITION_TEMPLATE
       \<and> gpDataRepresentationTemplate p = ECMWF_DATA_REPRESENTATION_TEMPLATE
       \<and> gpColumns p = ECMWF_GRID_COLUMNS \<and> gpRows p = ECMWF_GRID_ROWS
       \<and> gpNumberOfDataPoints p = ECMWF_GRID_COLUMNS * ECMWF_GRID_ROWS
       \<and> gpFirstLatitude p = ECMWF_GRID_FIRST_LATITUDE
       \<and> gpFirstLongitude p = ECMWF_GRID_FIRST_LONGITUDE
       \<and> gpScanningMode p = ECMWF_GRID_SCANNING_MODE
       \<and> gpLongitudeIncrement p = ECMWF_GRID_STEP_DEGREES \<and> gpLatitudeIncrement p = ECMWF_GRID_STEP_DEGREES
       \<and> (gpDiscipline p, gpParameterCategory p, gpParameterNumber p) = ECMWF_PARAM_IDENTIFICATION param
       \<and> gpNumberOfEncodedValues p \<le> gpNumberOfDataPoints p
       \<and> (gpBitmapPresent p \<or> gpNumberOfEncodedValues p = gpNumberOfDataPoints p)
       \<and> (case gpBitmapSetBits p of
            Some bits \<Rightarrow> \<not> gpBitmapPresent p \<or> bits = gpNumberOfEncodedValues p
          | None \<Rightarrow> True))
      (Ecmwf_contract ''unsupported message'')"

fun isFiniteNumber :: "jsNumber \<Rightarrow> bool" where
  "isFiniteNumber (Finite x) = True"
| "isFiniteNumber v = False"

text \<open>Two dates that are not times are never equal.\<close>

definition sameTime :: "ms option \<Rightarrow> ms option \<Rightarrow> bool" where
  "sameTime a b \<longleftrightarrow> a \<noteq> None \<and> a = b"

definition decodeValues ::
  "gribLibrary \<Rightarrow> byte list \<Rightarrow> gribLocation \<Rightarrow> gribProfile \<Rightarrow> gribError + jsNumber list" where
  "decodeValues lib bytes location p =
     andThen (orThrow (lib bytes (glOffset location)) (Ecmwf_contract ''decoder'')) (\<lambda>m.
     andThen (require (gmCols m = gpColumns p \<and> gmRows m = gpRows p) (Ecmwf_contract ''grid shape'')) (\<lambda>_.
     andThen (require (gmHasBitmap m = gpBitmapPresent p) (Ecmwf_contract ''bitmap'')) (\<lambda>_.
     andThen (require (sameTime (gmReferenceDate m) (Some (gpReferenceTimeUtc p))) (Ecmwf_contract ''model run'')) (\<lambda>_.
     andThen (require (sameTime (gmForecastDate m) (gpValidTimeUtc p)) (Ecmwf_contract ''valid time'')) (\<lambda>_.
     andThen (require (length (gmData m) = gpNumberOfDataPoints p) (Ecmwf_contract ''value count'')) (\<lambda>_.
     andThen (require (length (filter isFiniteNumber (gmData m)) = gpNumberOfEncodedValues p)
        (Ecmwf_contract ''finite count'')) (\<lambda>_.
     Inr (gmData m))))))))"

definition assertKnownParam :: "jsText \<Rightarrow> gribError + ecmwfParam" where
  "assertKnownParam t = orThrow (find (\<lambda>p. paramText p = t) ECMWF_PARAMS) (Ecmwf_contract ''unknown parameter'')"

definition readCell :: "jsNumber list \<Rightarrow> nat \<Rightarrow> gribError + rat option" where
  "readCell field index =
     (if length field \<le> index then Inl (Ecmwf_contract ''grid index'')
      else Inr (case field ! index of Finite x \<Rightarrow> Some x | _ \<Rightarrow> None))"

record decodedGribCells =
  dcParam :: ecmwfParam
  dcCells :: "rat option list"
  dcReferenceTimeUtcMs :: ms
  dcValidTimeUtcMs :: "ms option"
  dcDataRepresentationTemplate :: nat

definition decodeMember ::
  "gribLibrary \<Rightarrow> byte list \<Rightarrow> ecmwfAttribution \<Rightarrow> nat list \<Rightarrow> gribLocation \<times> ecmwfRangeMember
   \<Rightarrow> gribError + decodedGribCells" where
  "decodeMember lib bytes attribution indices = (\<lambda>(location, member).
     andThen (require (glOffset location = rmRelativeOffset member \<and> glLength location = rmLength member)
        (Ecmwf_contract ''message elsewhere'')) (\<lambda>_.
     andThen (assertKnownParam (rmParam member)) (\<lambda>param.
     andThen (readMessageProfile bytes location) (\<lambda>profile.
     andThen (assertSupportedProfile profile param attribution) (\<lambda>_.
     andThen (decodeValues lib bytes location profile) (\<lambda>data.
     andThen (mapOrThrow (readCell data) indices) (\<lambda>cells.
     Inr \<lparr>dcParam = param, dcCells = cells, dcReferenceTimeUtcMs = gpReferenceTimeUtc profile,
          dcValidTimeUtcMs = gpValidTimeUtc profile,
          dcDataRepresentationTemplate = gpDataRepresentationTemplate profile\<rparr>)))))))"

definition decodeGribRangeCells ::
  "gribLibrary \<Rightarrow> byte list \<Rightarrow> ecmwfRangeMember list \<Rightarrow> ecmwfAttribution \<Rightarrow> nat list
   \<Rightarrow> gribError + decodedGribCells list" where
  "decodeGribRangeCells lib bytes expected attribution indices =
     andThen (scanGribMessages bytes) (\<lambda>locations.
     andThen (require (length locations = length expected) (Ecmwf_contract ''message count'')) (\<lambda>_.
     mapOrThrow (decodeMember lib bytes attribution indices) (zip locations expected)))"

section \<open>What a decoded field is\<close>

text \<open>
  The field of a member: the message that fills exactly the member's bytes, says itself to be the
  member's parameter at the asked run and step, and whose value at each grid index the cell is, with
  a value that is no number shown as missing.
\<close>

definition isFieldOf ::
  "gribLibrary \<Rightarrow> byte list \<Rightarrow> ecmwfAttribution \<Rightarrow> nat list \<Rightarrow> ecmwfRangeMember \<Rightarrow> decodedGribCells \<Rightarrow> bool" where
  "isFieldOf lib bytes attribution indices member f \<longleftrightarrow>
     paramText (dcParam f) = rmParam member
     \<and> wellFormedMessage (take (rmLength member) (drop (rmRelativeOffset member) bytes))
     \<and> (\<exists>profile message.
          readMessageProfile bytes \<lparr>glOffset = rmRelativeOffset member, glLength = rmLength member\<rparr> = Inr profile
          \<and> (gpDiscipline profile, gpParameterCategory profile, gpParameterNumber profile) = ECMWF_PARAM_IDENTIFICATION (dcParam f)
          \<and> lib bytes (rmRelativeOffset member) = Some message
          \<and> length (gmData message) = ECMWF_GRID_COLUMNS * ECMWF_GRID_ROWS
          \<and> length (filter isFiniteNumber (gmData message)) = gpNumberOfEncodedValues profile
          \<and> list_all2 (\<lambda>i c. i < length (gmData message)
                \<and> c = (case gmData message ! i of Finite x \<Rightarrow> Some x | _ \<Rightarrow> None)) indices (dcCells f))
     \<and> dcReferenceTimeUtcMs f = eaReferenceTimeUtc attribution
     \<and> dcValidTimeUtcMs f = Some (eaReferenceTimeUtc attribution + int (eaForecastHours attribution) * 3600000)"

lemma profile_time:
  "readMessageProfile bytes l = Inr p \<Longrightarrow> gpValidTimeUtc p =
     (let t = gpReferenceTimeUtc p + int (gpForecastHours p) * 3600000 in if \<bar>t\<bar> \<le> MAX_TIME_MS then Some t else None)"
  unfolding readMessageProfile_def Let_def andThen_eq_Inr by (elim exE conjE) auto

lemma assertKnownParam_Inr: "assertKnownParam t = Inr p \<longleftrightarrow> paramText p = t"
proof -
  have "find (\<lambda>p. paramText p = t) ECMWF_PARAMS = Some p \<longleftrightarrow> paramText p = t"
  proof
    assume "paramText p = t"
    then show "find (\<lambda>p. paramText p = t) ECMWF_PARAMS = Some p"
      by (cases p) (auto simp: ECMWF_PARAMS_def ascii_def)
  qed (auto dest: find_SomeD)
  then show ?thesis by (simp add: assertKnownParam_def)
qed

lemma decodeMember_field:
  assumes "decodeMember lib bytes attribution indices (l, m) = Inr f" and "wellFormedMessage (gribSlice bytes l)"
  shows "isFieldOf lib bytes attribution indices m f"
proof -
  obtain param profile data cells where
      l: "glOffset l = rmRelativeOffset m" "glLength l = rmLength m"
      and param: "paramText param = rmParam m" and profile: "readMessageProfile bytes l = Inr profile"
      and ok: "assertSupportedProfile profile param attribution = Inr ()"
      and data: "decodeValues lib bytes l profile = Inr data" and cells: "mapOrThrow (readCell data) indices = Inr cells"
      and f: "f = \<lparr>dcParam = param, dcCells = cells, dcReferenceTimeUtcMs = gpReferenceTimeUtc profile,
          dcValidTimeUtcMs = gpValidTimeUtc profile,
          dcDataRepresentationTemplate = gpDataRepresentationTemplate profile\<rparr>"
    using assms(1) by (auto simp: decodeMember_def andThen_eq_Inr assertKnownParam_Inr)
  obtain message where lib: "lib bytes (rmRelativeOffset m) = Some message" "data = gmData message"
      "length (gmData message) = gpNumberOfDataPoints profile"
      "length (filter isFiniteNumber (gmData message)) = gpNumberOfEncodedValues profile"
      "sameTime (gmForecastDate message) (gpValidTimeUtc profile)"
    using data by (auto simp: decodeValues_def andThen_eq_Inr l(1))
  have loc: "l = \<lparr>glOffset = rmRelativeOffset m, glLength = rmLength m\<rparr>" using l by (cases l) simp
  have "gpValidTimeUtc profile \<noteq> None" using lib(5) by (metis sameTime_def)
  then have time: "gpValidTimeUtc profile = Some (eaReferenceTimeUtc attribution + int (eaForecastHours attribution) * 3600000)"
    using profile_time [OF profile] ok by (auto simp: assertSupportedProfile_def Let_def split: if_splits)
  have "list_all2 (\<lambda>i c. i < length (gmData message)
      \<and> c = (case gmData message ! i of Finite x \<Rightarrow> Some x | _ \<Rightarrow> None)) indices cells"
    using cells unfolding mapOrThrow_eq_Inr lib(2) by (rule list_all2_mono) (auto simp: readCell_def split: if_splits)
  then show ?thesis
    using assms(2) profile ok param lib time unfolding isFieldOf_def loc f
    by (intro conjI exI [of _ profile] exI [of _ message]) (auto simp: assertSupportedProfile_def gribSlice_def)
qed

text \<open>
  C19: A range decodes only to the fields that were asked for: as many as it has members, each the
  field of its member.
\<close>

theorem decoded_fields_as_asked:
  assumes "decodeGribRangeCells lib bytes members attribution indices = Inr decodedFields"
  shows "list_all2 (isFieldOf lib bytes attribution indices) members decodedFields
    \<and> concat (map (\<lambda>m. take (rmLength m) (drop (rmRelativeOffset m) bytes)) members) = bytes"
proof -
  obtain ls where scan: "scanGribMessages bytes = Inr ls" "length ls = length members"
      and decoded: "list_all2 (\<lambda>x y. decodeMember lib bytes attribution indices x = Inr y) (zip ls members) decodedFields"
    using assms by (auto simp: decodeGribRangeCells_def andThen_eq_Inr mapOrThrow_eq_Inr)
  have cut: "concat (map (gribSlice bytes) ls) = bytes" "list_all wellFormedMessage (map (gribSlice bytes) ls)"
    using scan_finds_messages [of bytes "map (gribSlice bytes) ls"] scan(1) by auto
  have len: "length decodedFields = length members" using list_all2_lengthD [OF decoded] scan(2) by simp
  have each: "decodeMember lib bytes attribution indices (ls ! i, members ! i) = Inr (decodedFields ! i)" if "i < length members" for i
    using list_all2_nthD [OF decoded, of i] that scan(2) by simp
  have "list_all2 (isFieldOf lib bytes attribution indices) members decodedFields"
  proof (rule list_all2_all_nthI)
    fix i assume i: "i < length members"
    have "wellFormedMessage (gribSlice bytes (ls ! i))" using cut(2) i scan(2) by (auto simp: list_all_length)
    then show "isFieldOf lib bytes attribution indices (members ! i) (decodedFields ! i)"
      by (rule decodeMember_field [OF each [OF i]])
  qed (simp add: len)
  moreover have "map (\<lambda>m. take (rmLength m) (drop (rmRelativeOffset m) bytes)) members = map (gribSlice bytes) ls"
  proof (rule nth_equalityI)
    fix i assume "i < length (map (\<lambda>m. take (rmLength m) (drop (rmRelativeOffset m) bytes)) members)"
    then have i: "i < length members" by simp
    have "glOffset (ls ! i) = rmRelativeOffset (members ! i) \<and> glLength (ls ! i) = rmLength (members ! i)"
      using each [OF i] by (auto simp: decodeMember_def andThen_eq_Inr)
    then show "map (\<lambda>m. take (rmLength m) (drop (rmRelativeOffset m) bytes)) members ! i = map (gribSlice bytes) ls ! i"
      using i scan(2) by (simp add: gribSlice_def)
  qed (simp add: scan(2))
  ultimately show ?thesis using cut(1) by simp
qed

section \<open>A message that decodes\<close>

text \<open>An unmasked eastward-wind message of the first of January 2026, three hours ahead.\<close>

definition exampleGrib :: "byte list" where
  "exampleGrib =
     [71, 82, 73, 66, 0, 0, 0, 2, 0, 0, 0, 0, 0, 0, 0, 166, 0, 0, 0, 21, 1, 0, 0, 0,
      0, 0, 0, 0, 7, 234, 1, 1, 0, 0, 0, 0, 0, 0, 0, 0, 72, 3, 0, 0, 15, 215, 160, 0,
      0, 0, 0, 0, 0, 0, 0, 0, 0, 0, 0, 0, 0, 0, 0, 0, 0, 0, 0, 0, 0, 5, 160, 0,
      0, 2, 209, 0, 0, 0, 0, 0, 0, 0, 0, 5, 93, 74, 128, 10, 186, 149, 0, 0, 133, 93, 74, 128,
      10, 182, 196, 112, 0, 3, 208, 144, 0, 3, 208, 144, 0, 0, 0, 0, 22, 4, 0, 0, 0, 0, 2, 2,
      0, 0, 0, 0, 0, 0, 1, 0, 0, 0, 3, 0, 0, 0, 20, 5, 0, 15, 215, 160, 0, 42, 0, 0,
      0, 0, 0, 0, 0, 0, 12, 0, 0, 0, 6, 6, 255, 0, 0, 0, 5, 7, 55, 55, 55, 55]"

definition exampleLibrary :: gribLibrary where
  "exampleLibrary bytes offset =
     Some \<lparr>gmCols = 1440, gmRows = 721, gmHasBitmap = False, gmReferenceDate = Some 1767225600000,
           gmForecastDate = Some 1767236400000, gmData = replicate 1038240 (Finite 7)\<rparr>"

lemma exampleGrib_length: "length exampleGrib = 166"
  by (simp add: exampleGrib_def)

lemma exampleGrib_wellFormed: "wellFormedMessage exampleGrib"
  by (simp add: wellFormedMessage_def exampleGrib_def be_nat_def GRIB_MAGIC_def GRIB_TERMINATOR_def)

lemma exampleGrib_sections:
  "readSectionMap exampleGrib \<lparr>glOffset = 0, glLength = 166\<rparr> =
     Inr [(1, \<lparr>gxStart = 16, gxLength = 21\<rparr>), (3, \<lparr>gxStart = 37, gxLength = 72\<rparr>), (4, \<lparr>gxStart = 109, gxLength = 22\<rparr>),
          (5, \<lparr>gxStart = 131, gxLength = 20\<rparr>), (6, \<lparr>gxStart = 151, gxLength = 6\<rparr>), (7, \<lparr>gxStart = 157, gxLength = 5\<rparr>)]"
proof -
  have step: "sectionsFrom exampleGrib 162 pos sections = sectionsFrom exampleGrib 162 (pos + n) (js_set k \<lparr>gxStart = pos, gxLength = n\<rparr> sections)"
    if "be_nat (take 4 (drop pos exampleGrib)) = n" "be_nat (take 1 (drop (pos + 4) exampleGrib)) = k"
      "pos + 5 \<le> 162" "5 \<le> n" "pos + n \<le> 162" "js_get sections k = None" for pos n k sections
  proof -
    have "\<not> 162 - pos < 5" "\<not> 162 \<le> pos" using that(3) by linarith+
    then show ?thesis
      using that exampleGrib_length by (simp add: sectionsFrom.simps [of _ _ pos] getUint_def view_be_def)
  qed
  have reads:
    "be_nat (take 4 (drop 16 exampleGrib)) = 21" "be_nat (take 1 (drop 20 exampleGrib)) = 1"
    "be_nat (take 4 (drop 37 exampleGrib)) = 72" "be_nat (take 1 (drop 41 exampleGrib)) = 3"
    "be_nat (take 4 (drop 109 exampleGrib)) = 22" "be_nat (take 1 (drop 113 exampleGrib)) = 4"
    "be_nat (take 4 (drop 131 exampleGrib)) = 20" "be_nat (take 1 (drop 135 exampleGrib)) = 5"
    "be_nat (take 4 (drop 151 exampleGrib)) = 6" "be_nat (take 1 (drop 155 exampleGrib)) = 6"
    "be_nat (take 4 (drop 157 exampleGrib)) = 5" "be_nat (take 1 (drop 161 exampleGrib)) = 7"
    by (simp_all add: exampleGrib_def be_nat_def)
  have "sectionsFrom exampleGrib 162 162 sections = Inr sections" for sections
    by (simp add: sectionsFrom.simps [of _ _ 162])
  then show ?thesis
    using reads unfolding readSectionMap_def
    by (simp add: SECTION_0_LENGTH_def step [of 16 21 1] step [of 37 72 3] step [of 109 22 4] step [of 131 20 5]
        step [of 151 6 6] step [of 157 5 7] js_set_absent js_get_def)
qed

definition exampleProfile :: gribProfile where
  "exampleProfile =
     \<lparr>gpOffset = 0, gpLength = 166, gpEdition = 2, gpDiscipline = 0, gpParameterCategory = 2, gpParameterNumber = 2,
      gpGridDefinitionTemplate = 0, gpProductDefinitionTemplate = 0, gpDataRepresentationTemplate = 42,
      gpBitsPerValue = 12, gpNumberOfDataPoints = 1038240, gpColumns = 1440, gpRows = 721,
      gpFirstLatitude = 90, gpFirstLongitude = 180, gpLastLatitude = - 90, gpLastLongitude = 719 / 4,
      gpLatitudeIncrement = 1 / 4, gpLongitudeIncrement = 1 / 4, gpScanningMode = 0,
      gpNumberOfEncodedValues = 1038240, gpBitmapPresent = False, gpBitmapSetBits = None,
      gpReferenceTimeUtc = 1767225600000, gpForecastHours = 3, gpValidTimeUtc = Some 1767236400000\<rparr>"

lemma exampleGrib_grid:
  "readGrid exampleGrib \<lparr>gxStart = 37, gxLength = 72\<rparr> =
     Inr \<lparr>ggPoints = 1038240, ggTemplate = 0, ggColumns = 1440, ggRows = 721, ggFirstLatitude = 90,
          ggFirstLongitude = 180, ggLastLatitude = - 90, ggLastLongitude = 719 / 4, ggLongitudeIncrement = 1 / 4,
          ggLatitudeIncrement = 1 / 4, ggScanningMode = 0\<rparr>"
proof -
  have micro: "readSignedMicroDegrees exampleGrib 83 = Inr 90" "readSignedMicroDegrees exampleGrib 87 = Inr 180"
      "readSignedMicroDegrees exampleGrib 92 = Inr (- 90)" "readSignedMicroDegrees exampleGrib 96 = Inr (719 / 4)"
      "readSignedMicroDegrees exampleGrib 100 = Inr (1 / 4)" "readSignedMicroDegrees exampleGrib 104 = Inr (1 / 4)"
    by (simp_all add: readSignedMicroDegrees_def getUint_def view_be_def exampleGrib_def be_nat_def)
  have "getUint 4 exampleGrib 43 = Inr 1038240" "getUint 2 exampleGrib 49 = Inr 0" "getUint 4 exampleGrib 67 = Inr 1440"
      "getUint 4 exampleGrib 71 = Inr 721" "getUint 1 exampleGrib 108 = Inr 0"
    by (simp_all add: exampleGrib_def be_nat_def)
  then show ?thesis by (simp add: readGrid_def micro del: getUint_Inr One_nat_def)
qed

lemma exampleGrib_profile: "readMessageProfile exampleGrib \<lparr>glOffset = 0, glLength = 166\<rparr> = Inr exampleProfile"
proof -
  have reads: "getUint 1 exampleGrib 6 = Inr 0" "getUint 1 exampleGrib 7 = Inr 2" "getUint 2 exampleGrib 116 = Inr 0"
      "getUint 1 exampleGrib 118 = Inr 2" "getUint 1 exampleGrib 119 = Inr 2" "getUint 1 exampleGrib 126 = Inr 1"
      "getUint 4 exampleGrib 127 = Inr 3" "getUint 4 exampleGrib 136 = Inr 1038240" "getUint 2 exampleGrib 140 = Inr 42"
      "getUint 1 exampleGrib 150 = Inr 12" "getUint 1 exampleGrib 156 = Inr 255"
    by (simp_all add: exampleGrib_def be_nat_def)
  have "getUint 2 exampleGrib 28 = Inr 2026" "getUint 1 exampleGrib 30 = Inr 1" "getUint 1 exampleGrib 31 = Inr 1"
      "getUint 1 exampleGrib 32 = Inr 0" "getUint 1 exampleGrib 33 = Inr 0" "getUint 1 exampleGrib 34 = Inr 0"
    by (simp_all add: exampleGrib_def be_nat_def)
  then have "readReferenceTime exampleGrib \<lparr>gxStart = 16, gxLength = 21\<rparr> = Inr (makeUTC 2026 0 1 0 0 0)"
    by (simp add: readReferenceTime_def del: getUint_Inr One_nat_def)
  also have "makeUTC 2026 0 1 0 0 0 = 1767225600000" by code_simp
  finally show ?thesis
    by (simp add: readMessageProfile_def reads exampleGrib_sections exampleGrib_grid requireSection_def js_get_def
        exampleProfile_def MAX_TIME_MS_def Let_def del: getUint_Inr One_nat_def)
qed

lemma decoded_fields_as_asked_witness:
  "\<exists>f. decodeGribRangeCells exampleLibrary exampleGrib [\<lparr>rmParam = paramText U10, rmRelativeOffset = 0, rmLength = 166\<rparr>]
       \<lparr>eaReferenceTimeUtc = 1767225600000, eaForecastHours = 3\<rparr> [0, 5] = Inr [f]
     \<and> dcCells f = [Some 7, Some 7]
     \<and> isFieldOf exampleLibrary exampleGrib \<lparr>eaReferenceTimeUtc = 1767225600000, eaForecastHours = 3\<rparr> [0, 5]
         \<lparr>rmParam = paramText U10, rmRelativeOffset = 0, rmLength = 166\<rparr> f"
proof -
  have "messageAt exampleGrib 0 = Inr 166"
    using exampleGrib_wellFormed by (simp add: messageAt_iff exampleGrib_length)
  then have scan: "scanGribMessages exampleGrib = Inr [\<lparr>glOffset = 0, glLength = 166\<rparr>]"
    by (simp add: scanGribMessages_def scanFrom.simps [of _ 0] scanFrom.simps [of _ 166] exampleGrib_length)
  let ?f = "\<lparr>dcParam = U10, dcCells = [Some 7, Some 7], dcReferenceTimeUtcMs = 1767225600000,
      dcValidTimeUtcMs = Some 1767236400000, dcDataRepresentationTemplate = 42\<rparr>"
  have supported: "assertSupportedProfile exampleProfile U10 \<lparr>eaReferenceTimeUtc = 1767225600000, eaForecastHours = 3\<rparr> = Inr ()"
    by (simp add: assertSupportedProfile_def exampleProfile_def ECMWF_GRID_DEFINITION_TEMPLATE_def
        ECMWF_PRODUCT_DEFINITION_TEMPLATE_def ECMWF_DATA_REPRESENTATION_TEMPLATE_def ECMWF_GRID_COLUMNS_def
        ECMWF_GRID_ROWS_def ECMWF_GRID_FIRST_LATITUDE_def ECMWF_GRID_FIRST_LONGITUDE_def ECMWF_GRID_SCANNING_MODE_def
        ECMWF_GRID_STEP_DEGREES_def)
  have data: "decodeValues exampleLibrary exampleGrib \<lparr>glOffset = 0, glLength = 166\<rparr> exampleProfile
      = Inr (replicate 1038240 (Finite 7))"
    by (simp add: decodeValues_def exampleLibrary_def exampleProfile_def sameTime_def filter_replicate)
  have "decodeGribRangeCells exampleLibrary exampleGrib [\<lparr>rmParam = paramText U10, rmRelativeOffset = 0, rmLength = 166\<rparr>]
       \<lparr>eaReferenceTimeUtc = 1767225600000, eaForecastHours = 3\<rparr> [0, 5] = Inr [?f]"
    using assertKnownParam_Inr [of "paramText U10" U10]
    by (simp add: decodeGribRangeCells_def scan decodeMember_def exampleGrib_profile supported data readCell_def)
      (simp add: exampleProfile_def)
  from this decoded_fields_as_asked [OF this] show ?thesis by (intro exI [of _ ?f]) simp
qed

end
