(* ===== verification/Spec2Isabelle.thy ===== *)
theory Spec2Isabelle
  imports Upstream_Http_Client Upstream_Cache_Service Scheduled_Warmup Password_Reset Elevation_Profile
    Earthquake_Ingest Earthquake_Read Netcdf3_Roundtrip Cams_Sample
    Air_Quality_Submissions Air_Quality_Reads Visitor_Tracker Favorites Measurements Video_Progress Retention
    Grib_Decoder
begin

text \<open>
  A model of the Cografya API (\<open>src/src\<close>): a NestJS backend that serves geography content and
  data it fetches from outside providers (AFAD earthquakes, terrain tiles, CAMS air quality,
  marine models, YouTube), and keeps learner accounts.

  \<^bold>\<open>Parts and theories.\<close> Paths are under \<open>src/src\<close>.

  \<^item> \<open>Prelude\<close>: rounding, thrown errors (a throw is \<open>Inl\<close>), the insertion-ordered JavaScript
    \<open>Map\<close>, big- and little-endian reads. \<open>Js_Text\<close>: UTF-16 text, decimal digits, backtracking
    regular expressions, JSON values.
  \<^item> Calling a provider (\<open>upstream/\<close>): \<open>Upstream_Metrics\<close> (counters and throttled lines),
    \<open>Operation_Deadline\<close>, \<open>Circuit_Breaker\<close>, \<open>Window_Limiter\<close> (the contract of every fixed-window
    counter, a locale) and \<open>Provider_Budget\<close>, \<open>Upstream_Http_Helpers\<close>, \<open>Upstream_Http_Client\<close>
    (one request: retry, budget, breaker, capped body).
  \<^item> Caching (\<open>upstream/cache/\<close>): \<open>Lru_Map\<close> and \<open>Upstream_Cache_Store\<close> (in process and Redis,
    under one store contract), \<open>Single_Flight\<close>, \<open>Upstream_Cache_Values\<close>, \<open>Upstream_Cache_Service\<close>
    (read-through, negative entries, two staleness ceilings), \<open>Scheduled_Warmup\<close>.
  \<^item> Accounts (\<open>auth/\<close>): \<open>Auth_Rate_Limit\<close>, \<open>Auth_Sessions\<close> (login, refresh rotation and reuse
    detection, logout, guard, password change, deletion), \<open>Email_Verification\<close> (pending
    registrations and their codes), \<open>Password_Reset\<close>.
  \<^item> Elevation (\<open>elevation/\<close>): \<open>Terrain_Decode\<close> (PNG container, CRC, filters, and the encoder of
    the tests), \<open>Terrain_Tiles\<close> (tile cache, licence gate, bilinear sampling), \<open>Tile_Worker_Pool\<close>
    (the bounded pool of fetch workers), \<open>Elevation_Profile\<close>.
  \<^item> Earthquakes (\<open>earthquake/\<close>): \<open>Afad_Time\<close>, \<open>Afad_Event\<close> (parsing and fidelity), \<open>Tr_Scope\<close>
    (outline, distances, binding to a province), \<open>Earthquake_Store\<close>, \<open>Earthquake_Ingest\<close> (the tour,
    composed with the HTTP client), \<open>Earthquake_Read\<close>.
  \<^item> CAMS files (\<open>air-quality/cams/\<close>): \<open>Cams_Zip\<close> (the archive), \<open>Netcdf3\<close> (the reader),
    \<open>Netcdf3_Fixture\<close> and \<open>Netcdf3_Roundtrip\<close> (the builder of the test files, and what is read
    back), \<open>Js_Number\<close> (numbers with infinities and \<open>NaN\<close>), \<open>Cams_Grid\<close> (the axes and the cell of
    a point), \<open>Cams_Decode\<close> and \<open>Cams_Sample\<close> (a whole file to one series per province and
    pollutant, and a file that decodes).
  \<^item> Air quality (\<open>air-quality/\<close>): \<open>Air_Quality_Types\<close>, \<open>Eaqi\<close> (the index of one hour),
    \<open>Air_Quality_Compile\<close> (stored rows to the compiled run), \<open>Air_Quality_Publish\<close> (the nearest
    step, the published index and series), \<open>Air_Quality_Reader\<close> (the run through the cache, checked
    on the way out), \<open>Air_Quality_Reads\<close> (the list and the detail).
  \<^item> CAMS ingest (\<open>air-quality/cams/\<close>): \<open>Ads_Jobs\<close> (the provider's job interface and the removal
    of the key from texts), \<open>Air_Quality_Ingest_Store\<close> (the tables), \<open>Air_Quality_Ingest\<close> (one tour,
    composed with the HTTP client and the decoder; its world lists the requests made, which the
    code does not read). \<open>Air_Quality_Ledger\<close> states the life of one job as a machine of its own,
    \<open>Air_Quality_Tours\<close> proves every tour to be some of its steps, and \<open>Air_Quality_Submissions\<close>
    draws what follows for any history of tours.
  \<^item> Marine fields (\<open>marine/ecmwf/\<close>): \<open>Ecmwf_Index\<close> (the index of a step, and the byte ranges its
    fields are downloaded in), \<open>Grib2_Envelope\<close> (messages, sections and header fields of a buffer),
    \<open>Grib_Decoder\<close> (from the bytes of a range to the cells of the marine points).
  \<^item> Learner state: \<open>Favorites\<close> (\<open>favorites/\<close>), \<open>Measurements\<close> (\<open>measurements/\<close>), \<open>Video_Progress\<close>
    (\<open>video-progress/\<close>) and \<open>Game_Rounds\<close> (\<open>game-rounds/\<close>: submits behind their hourly limit, the
    leaderboard). \<open>Retention\<close> (\<open>retention/\<close>) deletes expired account records and closed windows.
  \<^item> \<open>Visitor_Tracker\<close> (\<open>common/throttler/\<close>): the address a request is counted against, and who is
    exempt.

  \<^bold>\<open>How the code is read.\<close> A class is a record of its fields and a method a function that returns
  the record changed; a map or a table keeps its entries in order; a throw, a rejection and an
  early return are values. Concurrency is a step relation where the code awaits (\<open>Single_Flight\<close>,
  \<open>Tile_Worker_Pool\<close>, overlapping confirmations in \<open>Password_Reset\<close>); elsewhere a request runs as
  one transition, which is what its transaction or its single-threaded stretch is. The clock is an
  argument or a field of the world, and every call to a provider advances it by what the
  environment says. Millisecond times and counts are integers; decimal texts are read as exact
  rationals and geometry over the reals, so floating-point rounding is not modelled. Bytes are
  8-bit words.

  \<^bold>\<open>Parameters.\<close> What is not under \<open>src/\<close> is an argument: Redis and PostgreSQL failures, zlib,
  \<open>JSON.parse\<close>, the UTF-8 codec, the keyed digests and password hashes, the Unicode tables, the
  great-circle and Mercator trigonometry, and what the provider answers. Hypotheses about them
  state documented behaviour and have witnesses with concrete functions.

  \<^bold>\<open>Lemmas.\<close> Each theory first gives the rules of its operations on every branch, then the
  invariants they keep, then the properties. Loops are structural, or functions with a measure;
  the retry loop takes at most two attempts, the poll loop as many as its interval divides its
  budget, and a builder of a test file is total. Interfaces are locales (the window counters, the
  cache stores, the event table, a machine that refines another), interpreted on the model's own
  definitions.

  \<^bold>\<open>Where a property ends.\<close> The staleness ceilings are proved for both cache stores; what else is
  said of the cache (a covered read, a cold read, the cached runs and profiles) is said of the store
  in process. The provider budget is kept by a process that counts alone and by processes whose
  Redis always answers; a Redis that fails at times can let each limit through once more. The
  cleanup changes one kind of later answer, a resend that was ambiguous by a candidate expired for
  over a day; a bracket distance below a millionth of a kilometre passes the check on its decimals;
  a key that overlaps the mark of its redaction can survive it; and an axis of infinite steps
  passes the axis check. Each is stated in the property and shown by a lemma beside it.

  \<^bold>\<open>Not modelled.\<close> The content catalogue (provinces, countries, regions, books, reference lists) is
  database reads and seed data; controllers and DTOs are declarations for the framework; the import
  command lines fetch and transcribe data by hand. The manifest lists each with its reason.
\<close>

end
